(* ===== verification/Prelude.thy ===== *)
theory Prelude
  imports Main "HOL-Library.Word" "HOL-Library.While_Combinator"
begin

text \<open>
  Shared vocabulary of the development: the type synonyms of the JavaScript data the models
  use, results with errors as values, and the generic facts on lists and on big-endian byte
  sequences that the component theories share.
\<close>

section \<open>Types of the modelled runtime\<close>

text \<open>
  A JavaScript byte (an element of a \<open>Uint8Array\<close>) is an 8-bit word, a JavaScript string is
  the sequence of its 16-bit code units.
\<close>

type_synonym byte = "8 word"
type_synonym js_string = "16 word list"

section \<open>Results with errors as values\<close>

text \<open>
  A function that may throw returns \<open>Err e\<close> for the thrown error \<open>e\<close> and \<open>Ok x\<close> for
  the returned value. \<open>bind_res\<close> sequences two such calls: the first error wins.
\<close>

abbreviation Err :: "'e \<Rightarrow> 'e + 'a" where
  "Err \<equiv> Inl"

abbreviation Ok :: "'a \<Rightarrow> 'e + 'a" where
  "Ok \<equiv> Inr"

fun bind_res :: "'e + 'a \<Rightarrow> ('a \<Rightarrow> 'e + 'b) \<Rightarrow> 'e + 'b" where
  "bind_res (Inl e) f = Inl e"
| "bind_res (Inr x) f = f x"

text \<open>\<open>guard_res ok e\<close> is the statement \<open>if (!ok) throw e\<close>.\<close>

definition guard_res :: "bool \<Rightarrow> 'e \<Rightarrow> 'e + unit" where
  "guard_res ok e = (if ok then Inr () else Inl e)"

fun is_Ok :: "'e + 'a \<Rightarrow> bool" where
  "is_Ok (Inl e) = False"
| "is_Ok (Inr x) = True"

text \<open>A loop that runs a fallible body over a list and threads a state.\<close>

fun fold_res :: "('s \<Rightarrow> 'a \<Rightarrow> 'e + 's) \<Rightarrow> 's \<Rightarrow> 'a list \<Rightarrow> 'e + 's" where
  "fold_res f s [] = Inr s"
| "fold_res f s (x # xs) = bind_res (f s x) (\<lambda>s'. fold_res f s' xs)"

named_theorems res_simps

lemma bind_res_cong [fundef_cong]:
  assumes "m = m'" and "\<And>x. m' = Inr x \<Longrightarrow> f x = g x"
  shows "bind_res m f = bind_res m' g"
  using assms by (cases m') auto

lemma bind_res_Ok_iff [res_simps]:
  "bind_res m f = Inr y \<longleftrightarrow> (\<exists>x. m = Inr x \<and> f x = Inr y)"
  by (cases m) auto

lemma bind_res_Err_iff [res_simps]:
  "bind_res m f = Inl e \<longleftrightarrow> m = Inl e \<or> (\<exists>x. m = Inr x \<and> f x = Inl e)"
  by (cases m) auto

lemma bind_res_assoc:
  "bind_res (bind_res m f) g = bind_res m (\<lambda>x. bind_res (f x) g)"
  by (cases m) auto

lemma bind_res_Inr_right [simp]: "bind_res m Inr = m"
  by (cases m) auto

lemma guard_res_Ok_iff [res_simps]: "guard_res ok e = Inr u \<longleftrightarrow> ok"
  by (simp add: guard_res_def)

lemma guard_res_Err_iff [res_simps]: "guard_res ok e = Inl e' \<longleftrightarrow> \<not> ok \<and> e' = e"
  by (auto simp: guard_res_def)

lemma guard_res_True [simp]: "guard_res True e = Inr ()"
  by (simp add: guard_res_def)

lemma guard_res_False [simp]: "guard_res False e = Inl e"
  by (simp add: guard_res_def)

lemma is_Ok_iff: "is_Ok m \<longleftrightarrow> (\<exists>x. m = Inr x)"
  by (cases m) auto

lemma fold_res_append:
  "fold_res f s (xs @ ys) = bind_res (fold_res f s xs) (\<lambda>s'. fold_res f s' ys)"
  by (induction xs arbitrary: s) (auto simp: bind_res_assoc)

text \<open>An invariant kept by the body is kept by the loop.\<close>

lemma fold_res_invariant:
  assumes "fold_res f s xs = Inr s'" and "I s"
    and "\<And>s x s'. x \<in> set xs \<Longrightarrow> I s \<Longrightarrow> f s x = Inr s' \<Longrightarrow> I s'"
  shows "I s'"
  using assms
proof (induction xs arbitrary: s)
  case Nil
  then show ?case by simp
next
  case (Cons x xs)
  then obtain t where t: "f s x = Inr t" and rest: "fold_res f t xs = Inr s'"
    by (auto simp: res_simps)
  have "I t"
    using Cons.prems(3) [of x s t] t Cons.prems(2) by simp
  then show ?case
    using Cons.IH [OF rest] Cons.prems(3) by (meson list.set_intros(2))
qed

section \<open>Splitting and joining\<close>

text \<open>\<open>split\<close> at a separating element and \<open>join\<close>.\<close>

fun split_on :: "'a \<Rightarrow> 'a list \<Rightarrow> 'a list list" where
  "split_on x [] = [[]]"
| "split_on x (y # ys) =
     (if y = x then [] # split_on x ys
      else (case split_on x ys of [] \<Rightarrow> [[y]] | l # ls \<Rightarrow> (y # l) # ls))"

fun join_with :: "'a list \<Rightarrow> 'a list list \<Rightarrow> 'a list" where
  "join_with s [] = []"
| "join_with s [l] = l"
| "join_with s (l # m # ls) = l @ s @ join_with s (m # ls)"

lemma split_on_plain: "x \<notin> set ys \<Longrightarrow> split_on x ys = [ys]"
  by (induction ys) auto

lemma split_on_append: "x \<notin> set ys \<Longrightarrow> split_on x (ys @ x # zs) = ys # split_on x zs"
  by (induction ys) auto

lemma split_join: "ls \<noteq> [] \<Longrightarrow> (\<forall>l\<in>set ls. x \<notin> set l) \<Longrightarrow> split_on x (join_with [x] ls) = ls"
  by (induction "[x]" ls rule: join_with.induct) (simp_all add: split_on_plain split_on_append)

lemma split_on_plain_parts: "l \<in> set (split_on x ys) \<Longrightarrow> x \<notin> set l"
  by (induction ys arbitrary: l) (auto split: if_splits list.splits)

section \<open>Lists\<close>

lemma drop_eq_appendD:
  assumes "drop n xs = ys @ zs"
  shows "drop (n + length ys) xs = zs"
  using assms by (metis add.commute append_eq_conv_conj drop_drop)

lemma drop_eq_ConsD:
  assumes "drop n xs = y # ys"
  shows "n < length xs" "xs ! n = y" "drop (Suc n) xs = ys"
proof -
  show n: "n < length xs"
    using assms by (metis drop_all leI list.distinct(1))
  then show "xs ! n = y"
    using assms by (metis hd_drop_conv_nth list.sel(1))
  show "drop (Suc n) xs = ys"
    using assms by (metis drop_Suc drop_tl list.sel(3) tl_drop)
qed

lemma drop_eq_append_length:
  assumes "drop n xs = ys @ zs"
  shows "length ys \<le> length xs - n"
proof -
  have "length (drop n xs) = length ys + length zs"
    using assms by simp
  then show ?thesis
    by simp
qed

text \<open>Writing a run of elements into a list at an offset, as \<open>TypedArray.set\<close> does.\<close>

definition overwrite :: "'a list \<Rightarrow> nat \<Rightarrow> 'a list \<Rightarrow> 'a list" where
  "overwrite xs i ys = take i xs @ ys @ drop (i + length ys) xs"

lemma length_overwrite [simp]:
  "i + length ys \<le> length xs \<Longrightarrow> length (overwrite xs i ys) = length xs"
  by (simp add: overwrite_def)

lemma take_overwrite [simp]:
  "i \<le> length xs \<Longrightarrow> take (i + length ys) (overwrite xs i ys) = take i xs @ ys"
  by (simp add: overwrite_def)

lemma overwrite_single: "i < length xs \<Longrightarrow> overwrite xs i [y] = xs[i := y]"
  by (simp add: overwrite_def upd_conv_take_nth_drop)

lemma overwrite_Cons:
  assumes "i + length ys < length xs"
  shows "overwrite (xs[i := y]) (Suc i) ys = overwrite xs i (y # ys)"
  using assms by (simp add: overwrite_def take_Suc_conv_app_nth upd_conv_take_nth_drop add.commute)

lemma overwrite_Nil: "overwrite xs i [] = xs"
  by (simp add: overwrite_def)

lemma list_update_overwrite2:
  "i + 2 \<le> length xs \<Longrightarrow> xs[i := a, i + 1 := b] = overwrite xs i [a, b]"
  using overwrite_Cons [of i "[b]" xs a] overwrite_single [of "Suc i" "xs[i := a]" b] by simp

lemma list_update_overwrite4:
  assumes "i + 4 \<le> length xs"
  shows "xs[i := a, i + 1 := b, i + 2 := c, i + 3 := d] = overwrite xs i [a, b, c, d]"
proof -
  have "overwrite (xs[i := a]) (Suc i) [b, c, d] = overwrite xs i [a, b, c, d]"
    using assms by (intro overwrite_Cons) simp
  moreover have "overwrite (xs[i := a, Suc i := b]) (Suc (Suc i)) [c, d]
      = overwrite (xs[i := a]) (Suc i) [b, c, d]"
    using assms by (intro overwrite_Cons) simp
  moreover have "overwrite (xs[i := a, Suc i := b]) (Suc (Suc i)) [c, d]
      = xs[i := a, Suc i := b, Suc (Suc i) := c, Suc (Suc (Suc i)) := d]"
    using assms list_update_overwrite2 [of "Suc (Suc i)" "xs[i := a, Suc i := b]" c d] by simp
  ultimately show ?thesis
    by (simp add: numeral_2_eq_2 numeral_3_eq_3)
qed

section \<open>Big-endian byte sequences\<close>

text \<open>
  \<open>to_byte n\<close> is the value a store of \<open>n\<close> into a \<open>Uint8Array\<close> leaves there;
  \<open>be_bytes k n\<close> is the \<open>k\<close>-byte big-endian form of \<open>n\<close>, each byte taken modulo 256 as
  a store into a \<open>Uint8Array\<close> does; \<open>be_nat\<close> reads such a sequence back.
\<close>

definition to_byte :: "nat \<Rightarrow> byte" where
  "to_byte n = of_nat n"

fun be_bytes :: "nat \<Rightarrow> nat \<Rightarrow> byte list" where
  "be_bytes 0 n = []"
| "be_bytes (Suc k) n = to_byte (n div 256 ^ k) # be_bytes k n"

definition be_nat :: "byte list \<Rightarrow> nat" where
  "be_nat bs = foldl (\<lambda>acc b. acc * 256 + unat b) 0 bs"

lemma length_be_bytes [simp]: "length (be_bytes k n) = k"
  by (induction k) auto

lemma be_nat_foldl: "foldl (\<lambda>acc b. acc * 256 + unat b) a bs = a * 256 ^ length bs + be_nat bs"
  for bs :: "byte list"
proof (induction bs arbitrary: a)
  case Nil
  then show ?case by (simp add: be_nat_def)
next
  case (Cons b bs)
  from Cons [of "a * 256 + unat b"] Cons [of "unat b"] show ?case
    by (simp add: be_nat_def algebra_simps)
qed

lemma be_nat_Nil [simp]: "be_nat [] = 0"
  by (simp add: be_nat_def)

lemma be_nat_Cons: "be_nat (b # bs) = unat b * 256 ^ length bs + be_nat bs"
  using be_nat_foldl [of "unat b" bs] by (simp add: be_nat_def)

lemma unat_to_byte [simp]: "unat (to_byte n) = n mod 256"
  by (simp add: to_byte_def unat_of_nat)

lemma to_byte_unat [simp]: "to_byte (unat b) = b"
  by (simp add: to_byte_def)

lemma be_nat_be_bytes [simp]: "be_nat (be_bytes k n) = n mod 256 ^ k"
proof (induction k)
  case 0
  then show ?case by simp
next
  case (Suc k)
  have "n mod 256 ^ Suc k = 256 ^ k * (n div 256 ^ k mod 256) + n mod 256 ^ k"
    using mod_mult2_eq [of n "256 ^ k" 256] by (simp add: mult.commute)
  with Suc show ?case
    by (simp add: be_nat_Cons mult.commute)
qed

lemma be_nat_less: "be_nat bs < 256 ^ length bs"
proof (induction bs)
  case Nil
  then show ?case by simp
next
  case (Cons b bs)
  have "unat b < 2 ^ LENGTH(8)"
    by (rule unsigned_less)
  then have "Suc (unat b) * 256 ^ length bs \<le> 256 ^ length (b # bs)"
    unfolding length_Cons power_Suc by (intro mult_le_mono1) simp
  moreover have "be_nat (b # bs) < Suc (unat b) * 256 ^ length bs"
    using Cons by (simp add: be_nat_Cons)
  ultimately show ?case
    by (rule order.strict_trans2 [rotated])
qed

lemma be_nat_4:
  assumes "length bs = 4"
  shows "be_nat bs = unat (bs ! 0) * 0x1000000 + unat (bs ! 1) * 0x10000 + unat (bs ! 2) * 0x100
    + unat (bs ! 3)"
proof -
  obtain a b c d where "bs = [a, b, c, d]"
    using assms by (auto simp: numeral_eq_Suc length_Suc_conv)
  then show ?thesis
    by (simp add: be_nat_Cons)
qed

lemma be_bytes_add: "be_bytes k (a * 256 ^ k + n) = be_bytes k n"
proof (induction k arbitrary: a)
  case (Suc k)
  have "a * 256 ^ Suc k + n = n + (a * 256) * 256 ^ k"
    by simp
  then have "(a * 256 ^ Suc k + n) div 256 ^ k = a * 256 + n div 256 ^ k"
    by (simp only: div_mult_self1 power_not_zero) simp
  moreover have "be_bytes k (a * 256 ^ Suc k + n) = be_bytes k n"
    using Suc [of "a * 256"] by (simp add: mult.assoc)
  moreover have "to_byte (a * 256 + x) = to_byte x" for x
    by (rule word_unat_eq_iff [THEN iffD2]) simp
  ultimately show ?case
    by simp
qed simp

lemma be_bytes_be_nat: "be_bytes (length bs) (be_nat bs) = bs"
proof (induction bs)
  case (Cons b bs)
  have "(unat b * 256 ^ length bs + be_nat bs) div 256 ^ length bs = unat b"
    using be_nat_less [of bs] by simp
  with Cons show ?case
    by (simp add: be_nat_Cons be_bytes_add)
qed simp

lemma be_bytes_2: "be_bytes 2 v = [to_byte (v div 2 ^ 8), to_byte v]"
proof -
  have two: "(2 :: nat) = Suc (Suc 0)"
    by simp
  show ?thesis
    by (subst two) simp
qed

lemma be_bytes_4:
  "be_bytes 4 v = [to_byte (v div 2 ^ 24), to_byte (v div 2 ^ 16), to_byte (v div 2 ^ 8), to_byte v]"
proof -
  have four: "(4 :: nat) = Suc (Suc (Suc (Suc 0)))"
    by simp
  show ?thesis
    by (subst four) simp
qed

end
