(* ===== verification/JsNumber.thy ===== *)
theory JsNumber
  imports Prelude
begin

text \<open>
  JavaScript numbers as the wire code sees them. A number that is a safe integer other than
  negative zero is represented by its integer value, every other number by its IEEE 754
  binary64 bit pattern. \<open>wf_number\<close> says that a representation is the canonical one, so two
  canonical representations are equal exactly when \<open>Object.is\<close> holds.
\<close>

unbundle bit_operations_syntax

definition max_safe_integer :: int where
  "max_safe_integer = 2 ^ 53 - 1"

definition safe_int :: "int \<Rightarrow> bool" where
  "safe_int n \<longleftrightarrow> - max_safe_integer \<le> n \<and> n \<le> max_safe_integer"

datatype js_number = JInt int | JFloat "64 word"

section \<open>The binary64 bit pattern\<close>

definition float_sign :: "64 word \<Rightarrow> bool" where
  "float_sign b \<longleftrightarrow> unat b div 2 ^ 63 = 1"

definition float_exponent :: "64 word \<Rightarrow> nat" where
  "float_exponent b = unat b div 2 ^ 52 mod 2048"

definition float_mantissa :: "64 word \<Rightarrow> nat" where
  "float_mantissa b = unat b mod 2 ^ 52"

definition float_is_finite :: "64 word \<Rightarrow> bool" where
  "float_is_finite b \<longleftrightarrow> float_exponent b \<noteq> 2047"

text \<open>
  A finite double with biased exponent \<open>e > 0\<close> and fraction \<open>m\<close> has the magnitude
  \<open>(2\<^sup>5\<^sup>2 + m) \<cdot> 2\<^bsup>e - 1075\<^esup>\<close>; with \<open>e = 0\<close> it is zero or below one.
\<close>

definition float_is_integer :: "64 word \<Rightarrow> bool" where
  "float_is_integer b \<longleftrightarrow>
     (let e = float_exponent b; m = float_mantissa b
      in if e = 0 then m = 0
         else e \<noteq> 2047 \<and> (1075 \<le> e \<or> 1023 \<le> e \<and> (2 ^ 52 + m) mod 2 ^ (1075 - e) = 0))"

definition float_magnitude :: "64 word \<Rightarrow> nat" where
  "float_magnitude b =
     (let e = float_exponent b; m = float_mantissa b
      in if e = 0 then 0
         else if e < 1075 then (2 ^ 52 + m) div 2 ^ (1075 - e)
         else (2 ^ 52 + m) * 2 ^ (e - 1075))"

definition float_int :: "64 word \<Rightarrow> int" where
  "float_int b = (if float_sign b then - int (float_magnitude b) else int (float_magnitude b))"

definition neg_zero :: "64 word" where
  "neg_zero = 0x8000000000000000"

section \<open>The number predicates of the language\<close>

fun num_is_finite :: "js_number \<Rightarrow> bool" where
  "num_is_finite (JInt n) = True"
| "num_is_finite (JFloat b) = float_is_finite b"

fun num_is_integer :: "js_number \<Rightarrow> bool" where
  "num_is_integer (JInt n) = True"
| "num_is_integer (JFloat b) = float_is_integer b"

fun num_int :: "js_number \<Rightarrow> int" where
  "num_int (JInt n) = n"
| "num_int (JFloat b) = float_int b"

definition num_is_safe_integer :: "js_number \<Rightarrow> bool" where
  "num_is_safe_integer x \<longleftrightarrow> num_is_integer x \<and> safe_int (num_int x)"

definition num_is_neg_zero :: "js_number \<Rightarrow> bool" where
  "num_is_neg_zero x \<longleftrightarrow> x = JFloat neg_zero"

text \<open>Reading a bit pattern as a number: the canonical representation of its value.\<close>

definition number_of_float :: "64 word \<Rightarrow> js_number" where
  "number_of_float b =
     (if float_is_integer b \<and> safe_int (float_int b) \<and> b \<noteq> neg_zero
      then JInt (float_int b) else JFloat b)"

fun wf_number :: "js_number \<Rightarrow> bool" where
  "wf_number (JInt n) = safe_int n"
| "wf_number (JFloat b) = (number_of_float b = JFloat b)"

lemma number_of_float_wf: "wf_number (number_of_float b)"
  by (simp add: number_of_float_def)

lemma float_is_integer_finite: "float_is_integer b \<Longrightarrow> float_is_finite b"
  by (auto simp: float_is_integer_def float_is_finite_def Let_def split: if_splits)

lemma number_of_float_integer:
  "float_is_finite b \<Longrightarrow> num_is_integer (number_of_float b) \<longleftrightarrow> float_is_integer b"
  by (simp add: number_of_float_def)

lemma number_of_float_int: "num_int (number_of_float b) = float_int b"
  by (simp add: number_of_float_def)

lemma neg_zero_simps [simp]:
  "float_is_integer neg_zero" "float_int neg_zero = 0" "float_is_finite neg_zero"
  by (simp_all add: neg_zero_def float_is_integer_def float_is_finite_def float_int_def
      float_magnitude_def float_exponent_def float_mantissa_def Let_def)

text \<open>A canonical number is a safe integer exactly when it is in integer form or negative zero.\<close>

lemma wf_number_safe_cases:
  assumes "wf_number x"
  shows "num_is_safe_integer x \<longleftrightarrow> (\<exists>n. x = JInt n) \<or> num_is_neg_zero x"
  using assms
  by (cases x)
    (auto simp: num_is_safe_integer_def num_is_neg_zero_def number_of_float_def safe_int_def
      max_safe_integer_def split: if_splits)

text \<open>Spot checks against the IEEE 754 patterns of 1, 1.5, -3, the largest safe integer and infinity.\<close>

lemma number_of_float_examples:
  "number_of_float 0x3FF0000000000000 = JInt 1"
  "number_of_float 0x3FF8000000000000 = JFloat 0x3FF8000000000000"
  "number_of_float 0xC008000000000000 = JInt (-3)"
  "number_of_float 0x433FFFFFFFFFFFFF = JInt max_safe_integer"
  "\<not> float_is_finite 0x7FF0000000000000"
  by (simp_all add: number_of_float_def float_is_integer_def float_is_finite_def float_int_def
      float_sign_def float_magnitude_def float_exponent_def float_mantissa_def neg_zero_def
      safe_int_def max_safe_integer_def Let_def)

section \<open>Addition\<close>

text \<open>
  A finite double is a multiple of \<open>2\<^bsup>-1074\<^esup>\<close>, its \<open>units\<close>. The sum of two finite numbers is
  their exact sum in units rounded to 53 significant bits, ties to even, or an infinity when it
  is too large.
\<close>

fun bit_length :: "nat \<Rightarrow> nat" where
  "bit_length n = (if n = 0 then 0 else Suc (bit_length (n div 2)))"

declare bit_length.simps [simp del]

definition float_units :: "64 word \<Rightarrow> int" where
  "float_units b =
     (let e = float_exponent b; m = float_mantissa b;
          u = (if e = 0 then m else (2 ^ 52 + m) * 2 ^ (e - 1))
      in if float_sign b then - int u else int u)"

fun num_units :: "js_number \<Rightarrow> int" where
  "num_units (JInt n) = n * 2 ^ 1074"
| "num_units (JFloat b) = float_units b"

definition round_units :: "nat \<Rightarrow> nat" where
  "round_units n =
     (let k = bit_length n - 53; q = n div 2 ^ k; r = n mod 2 ^ k
      in (if 2 * r > 2 ^ k \<or> (2 * r = 2 ^ k \<and> odd q) then q + 1 else q) * 2 ^ k)"

definition infinity_pattern :: "bool \<Rightarrow> 64 word" where
  "infinity_pattern negative = (if negative then 0xFFF0000000000000 else 0x7FF0000000000000)"

definition nan_pattern :: "64 word" where
  "nan_pattern = 0x7FF8000000000000"

definition float_of_units :: "int \<Rightarrow> 64 word" where
  "float_of_units u =
     (let n = round_units (nat \<bar>u\<bar>); e = bit_length n - 52;
          m = (if e = 0 then n else n div 2 ^ (e - 1) - 2 ^ 52)
      in if e \<ge> 2047 then infinity_pattern (u < 0)
         else of_nat ((if u < 0 then 2 ^ 63 else 0) + e * 2 ^ 52 + m))"

fun num_is_nan :: "js_number \<Rightarrow> bool" where
  "num_is_nan (JInt n) = False"
| "num_is_nan (JFloat b) = (float_exponent b = 2047 \<and> float_mantissa b \<noteq> 0)"

definition num_add :: "js_number \<Rightarrow> js_number \<Rightarrow> js_number" where
  "num_add x y =
     (case (x, y) of
        (JInt a, JInt b) \<Rightarrow> if safe_int (a + b) then JInt (a + b) else number_of_float (float_of_units (num_units x + num_units y))
      | _ \<Rightarrow>
          if num_is_nan x \<or> num_is_nan y then JFloat nan_pattern
          else if \<not> num_is_finite x then (if \<not> num_is_finite y \<and> x \<noteq> y then JFloat nan_pattern else x)
          else if \<not> num_is_finite y then y
          else if num_is_neg_zero x \<and> num_is_neg_zero y then x
          else number_of_float (float_of_units (num_units x + num_units y)))"

lemma num_add_safe: "safe_int (a + b) \<Longrightarrow> num_add (JInt a) (JInt b) = JInt (a + b)"
  by (simp add: num_add_def)

end
