(* ===== verification/JsText.thy ===== *)
theory JsText
  imports Prelude
begin

text \<open>
  The UTF-8 services of the runtime that the wire code and the output truncation rely on:
  \<open>TextEncoder.encode\<close> (which replaces every unpaired surrogate by U+FFFD) and
  \<open>TextDecoder.decode\<close> with \<open>fatal\<close> and \<open>ignoreBOM\<close> set (which rejects every byte sequence
  that is not well-formed UTF-8 and keeps a byte order mark). Strings are sequences of UTF-16
  code units.
\<close>

section \<open>Surrogates and code points\<close>

definition is_high_surrogate :: "16 word \<Rightarrow> bool" where
  "is_high_surrogate u \<longleftrightarrow> 0xD800 \<le> unat u \<and> unat u \<le> 0xDBFF"

definition is_low_surrogate :: "16 word \<Rightarrow> bool" where
  "is_low_surrogate u \<longleftrightarrow> 0xDC00 \<le> unat u \<and> unat u \<le> 0xDFFF"

definition pair_code_point :: "16 word \<Rightarrow> 16 word \<Rightarrow> nat" where
  "pair_code_point u v = 0x10000 + (unat u - 0xD800) * 0x400 + (unat v - 0xDC00)"

definition replacement_character :: nat where
  "replacement_character = 0xFFFD"

fun code_points :: "js_string \<Rightarrow> nat list" where
  "code_points [] = []"
| "code_points [u] =
     [if is_high_surrogate u \<or> is_low_surrogate u then replacement_character else unat u]"
| "code_points (u # v # us) =
     (if is_high_surrogate u \<and> is_low_surrogate v then pair_code_point u v # code_points us
      else (if is_high_surrogate u \<or> is_low_surrogate u then replacement_character else unat u)
        # code_points (v # us))"

text \<open>A string without unpaired surrogates.\<close>

fun well_formed_text :: "js_string \<Rightarrow> bool" where
  "well_formed_text [] = True"
| "well_formed_text [u] = (\<not> is_high_surrogate u \<and> \<not> is_low_surrogate u)"
| "well_formed_text (u # v # us) =
     (if is_high_surrogate u then is_low_surrogate v \<and> well_formed_text us
      else \<not> is_low_surrogate u \<and> well_formed_text (v # us))"

definition to_unit :: "nat \<Rightarrow> 16 word" where
  "to_unit n = of_nat n"

definition units_of_code_point :: "nat \<Rightarrow> js_string" where
  "units_of_code_point n =
     (if n < 0x10000 then [to_unit n]
      else [to_unit (0xD800 + (n - 0x10000) div 0x400), to_unit (0xDC00 + (n - 0x10000) mod 0x400)])"

definition scalar_value :: "nat \<Rightarrow> bool" where
  "scalar_value n \<longleftrightarrow> n < 0xD800 \<or> 0xDFFF < n \<and> n \<le> 0x10FFFF"

section \<open>UTF-8\<close>

definition utf8_bytes :: "nat \<Rightarrow> byte list" where
  "utf8_bytes n =
     (if n < 0x80 then [to_byte n]
      else if n < 0x800 then [to_byte (0xC0 + n div 0x40), to_byte (0x80 + n mod 0x40)]
      else if n < 0x10000 then
        [to_byte (0xE0 + n div 0x1000), to_byte (0x80 + n div 0x40 mod 0x40), to_byte (0x80 + n mod 0x40)]
      else
        [to_byte (0xF0 + n div 0x40000), to_byte (0x80 + n div 0x1000 mod 0x40),
         to_byte (0x80 + n div 0x40 mod 0x40), to_byte (0x80 + n mod 0x40)])"

definition is_continuation :: "byte \<Rightarrow> bool" where
  "is_continuation b \<longleftrightarrow> 0x80 \<le> unat b \<and> unat b < 0xC0"

definition low_bits :: "byte \<Rightarrow> nat" where
  "low_bits b = unat b - 0x80"

fun utf8_decode :: "byte list \<Rightarrow> nat list option" where
  "utf8_decode [] = Some []"
| "utf8_decode (b # bs) =
     (if unat b < 0x80 then map_option (Cons (unat b)) (utf8_decode bs)
      else if 0xC2 \<le> unat b \<and> unat b < 0xE0 then
        (case bs of
           c # r \<Rightarrow>
             (if is_continuation c
              then map_option (Cons ((unat b - 0xC0) * 0x40 + low_bits c)) (utf8_decode r) else None)
         | _ \<Rightarrow> None)
      else if 0xE0 \<le> unat b \<and> unat b < 0xF0 then
        (case bs of
           c # d # r \<Rightarrow>
             (let n = (unat b - 0xE0) * 0x1000 + low_bits c * 0x40 + low_bits d
              in if is_continuation c \<and> is_continuation d \<and> 0x800 \<le> n \<and> scalar_value n
                 then map_option (Cons n) (utf8_decode r) else None)
         | _ \<Rightarrow> None)
      else if 0xF0 \<le> unat b \<and> unat b < 0xF5 then
        (case bs of
           c # d # e # r \<Rightarrow>
             (let n = (unat b - 0xF0) * 0x40000 + low_bits c * 0x1000 + low_bits d * 0x40 + low_bits e
              in if is_continuation c \<and> is_continuation d \<and> is_continuation e
                    \<and> 0x10000 \<le> n \<and> scalar_value n
                 then map_option (Cons n) (utf8_decode r) else None)
         | _ \<Rightarrow> None)
      else None)"

definition text_encode :: "js_string \<Rightarrow> byte list" where
  "text_encode s = concat (map utf8_bytes (code_points s))"

definition text_decode :: "byte list \<Rightarrow> js_string option" where
  "text_decode bs = map_option (\<lambda>ns. concat (map units_of_code_point ns)) (utf8_decode bs)"

text \<open>The literals of the source.\<close>

definition ascii_text :: "string \<Rightarrow> js_string" where
  "ascii_text s = map (\<lambda>c. to_unit (of_char c)) s"

section \<open>Encoding followed by decoding\<close>

lemma unat_unit_less [simp]: "unat (u :: 16 word) < 0x10000"
proof -
  have "unat u < 2 ^ LENGTH(16)"
    by (rule unsigned_less)
  then show ?thesis by simp
qed

lemma unat_byte_less [simp]: "unat (b :: byte) < 0x100"
proof -
  have "unat b < 2 ^ LENGTH(8)"
    by (rule unsigned_less)
  then show ?thesis by simp
qed

lemma unat_to_unit [simp]: "unat (to_unit n) = n mod 0x10000"
  by (simp add: to_unit_def unat_of_nat)

lemma to_unit_unat [simp]: "to_unit (unat u) = u"
  by (simp add: to_unit_def)

lemma scalar_le: "scalar_value n \<Longrightarrow> n \<le> 0x10FFFF"
  by (auto simp: scalar_value_def)

lemma split_base64_3: "n div 4096 * 4096 + n div 64 mod 64 * 64 + n mod 64 = (n :: nat)"
proof -
  have "n div 4096 = n div 64 div 64"
    by (simp add: div_mult2_eq [symmetric])
  moreover have "n div 64 div 64 * 64 + n div 64 mod 64 = n div 64"
    by simp
  moreover have "n div 64 * 64 + n mod 64 = n"
    by simp
  ultimately show ?thesis
    by linarith
qed

lemma split_base64_4:
  "n div 262144 * 262144 + n div 4096 mod 64 * 4096 + n div 64 mod 64 * 64 + n mod 64 = (n :: nat)"
proof -
  have "n div 262144 = n div 4096 div 64"
    by (simp add: div_mult2_eq [symmetric])
  moreover have "n div 4096 div 64 * 64 + n div 4096 mod 64 = n div 4096"
    by simp
  ultimately show ?thesis
    using split_base64_3 [of n] by linarith
qed

lemma utf8_decode_bytes:
  assumes "scalar_value n"
  shows "utf8_decode (utf8_bytes n @ bs) = map_option (Cons n) (utf8_decode bs)"
proof -
  have n: "n \<le> 0x10FFFF"
    using assms by (rule scalar_le)
  consider "n < 0x80" | "0x80 \<le> n" "n < 0x800" | "0x800 \<le> n" "n < 0x10000" | "0x10000 \<le> n"
    by linarith
  then show ?thesis
  proof cases
    case 1
    then show ?thesis by (simp add: utf8_bytes_def)
  next
    case 2
    define q r where "q = n div 64" and "r = n mod 64"
    have "utf8_bytes n = [to_byte (0xC0 + q), to_byte (0x80 + r)]"
      using 2 by (simp add: utf8_bytes_def q_def r_def)
    moreover have "2 \<le> q" "q < 32" "r < 64" "q * 64 + r = n"
      using 2 by (auto simp: q_def r_def)
    ultimately show ?thesis
      by (simp add: is_continuation_def low_bits_def)
  next
    case 3
    define p q r where "p = n div 4096" and "q = n div 64 mod 64" and "r = n mod 64"
    have "utf8_bytes n = [to_byte (0xE0 + p), to_byte (0x80 + q), to_byte (0x80 + r)]"
      using 3 by (simp add: utf8_bytes_def p_def q_def r_def)
    moreover have "p < 16" "q < 64" "r < 64"
      using 3 by (auto simp: p_def q_def r_def)
    moreover have "p * 4096 + q * 64 + r = n"
      unfolding p_def q_def r_def by (rule split_base64_3)
    ultimately show ?thesis
      using 3 assms by (simp add: is_continuation_def low_bits_def Let_def)
  next
    case 4
    define o' p q r where "o' = n div 262144" and "p = n div 4096 mod 64"
      and "q = n div 64 mod 64" and "r = n mod 64"
    have "utf8_bytes n =
        [to_byte (0xF0 + o'), to_byte (0x80 + p), to_byte (0x80 + q), to_byte (0x80 + r)]"
      using 4 by (simp add: utf8_bytes_def o'_def p_def q_def r_def)
    moreover have "o' < 5" "p < 64" "q < 64" "r < 64"
      using 4 n by (auto simp: o'_def p_def q_def r_def)
    moreover have "o' * 262144 + p * 4096 + q * 64 + r = n"
      unfolding o'_def p_def q_def r_def by (rule split_base64_4)
    ultimately show ?thesis
      using 4 assms by (simp add: is_continuation_def low_bits_def Let_def)
  qed
qed

lemma utf8_decode_concat:
  assumes "\<forall>n\<in>set ns. scalar_value n"
  shows "utf8_decode (concat (map utf8_bytes ns)) = Some ns"
  using assms by (induction ns) (auto simp: utf8_decode_bytes)

lemma pair_code_point_bounds:
  assumes "is_high_surrogate u" and "is_low_surrogate v"
  shows "0x10000 \<le> pair_code_point u v" and "pair_code_point u v \<le> 0x10FFFF"
  using assms by (auto simp: is_high_surrogate_def is_low_surrogate_def pair_code_point_def)

lemma unit_scalar: "\<not> is_high_surrogate u \<Longrightarrow> \<not> is_low_surrogate u \<Longrightarrow> scalar_value (unat u)"
  using unat_unit_less [of u]
  unfolding is_high_surrogate_def is_low_surrogate_def scalar_value_def by linarith

lemma replacement_scalar [simp]: "scalar_value replacement_character"
  by (simp add: scalar_value_def replacement_character_def)

lemma pair_scalar:
  "is_high_surrogate u \<Longrightarrow> is_low_surrogate v \<Longrightarrow> scalar_value (pair_code_point u v)"
  using pair_code_point_bounds [of u v] by (auto simp: scalar_value_def)

lemma code_points_scalar: "n \<in> set (code_points s) \<Longrightarrow> scalar_value n"
  by (induction s rule: code_points.induct) (auto simp: unit_scalar pair_scalar split: if_splits)

lemma units_of_pair:
  assumes "is_high_surrogate u" and "is_low_surrogate v"
  shows "units_of_code_point (pair_code_point u v) = [u, v]"
proof -
  define a where "a = unat u - 0xD800"
  define b where "b = unat v - 0xDC00"
  have b: "b < 0x400" and u: "0xD800 + a = unat u" and v: "0xDC00 + b = unat v"
    using assms by (auto simp: a_def b_def is_high_surrogate_def is_low_surrogate_def)
  have "pair_code_point u v - 0x10000 = a * 0x400 + b" and "\<not> pair_code_point u v < 0x10000"
    by (simp_all add: pair_code_point_def a_def b_def)
  moreover have "(a * 0x400 + b) div 0x400 = a" and "(a * 0x400 + b) mod 0x400 = b"
    using b by auto
  ultimately show ?thesis
    by (simp add: units_of_code_point_def u v)
qed

lemma units_of_unit [simp]: "units_of_code_point (unat u) = [u]"
  by (simp add: units_of_code_point_def)

lemma units_of_replacement [simp]:
  "units_of_code_point replacement_character = [to_unit replacement_character]"
  by (simp add: units_of_code_point_def replacement_character_def)

lemma surrogate_not_replacement:
  "is_high_surrogate u \<or> is_low_surrogate u \<Longrightarrow> u \<noteq> to_unit replacement_character"
  by (auto simp: is_high_surrogate_def is_low_surrogate_def replacement_character_def
      dest: arg_cong [of _ _ unat])

lemma high_not_low [simp]: "is_high_surrogate u \<Longrightarrow> \<not> is_low_surrogate u"
  by (auto simp: is_high_surrogate_def is_low_surrogate_def)

lemma units_code_points:
  "concat (map units_of_code_point (code_points s)) = s \<longleftrightarrow> well_formed_text s"
proof (induction s rule: code_points.induct)
  case (3 u v us)
  then show ?case
    using surrogate_not_replacement [of u] by (auto simp: units_of_pair)
qed (use surrogate_not_replacement in auto)

text \<open>
  A string survives the trip through UTF-8 exactly when it has no unpaired surrogate.
\<close>

lemma text_decode_encode: "text_decode (text_encode s) = Some s \<longleftrightarrow> well_formed_text s"
proof -
  have "utf8_decode (text_encode s) = Some (code_points s)"
    by (simp add: text_encode_def utf8_decode_concat code_points_scalar)
  then show ?thesis
    by (simp add: text_decode_def units_code_points)
qed

section \<open>Decoding followed by encoding\<close>

lemma base64_digit: "r < 64 \<Longrightarrow> (q * 64 + r) div 64 = q" "r < 64 \<Longrightarrow> (q * 64 + r) mod 64 = (r :: nat)"
  by auto

lemma base64_digits_3:
  assumes "r < 64" "q < 64"
  shows "(p * 4096 + q * 64 + r) div 4096 = p" "(p * 4096 + q * 64 + r) div 64 mod 64 = q"
    "(p * 4096 + q * 64 + r) mod 64 = (r :: nat)"
proof -
  have eq: "p * 4096 + q * 64 + r = (p * 64 + q) * 64 + r"
    by simp
  have "x div 4096 = x div 64 div 64" for x :: nat
    by (simp add: div_mult2_eq [symmetric])
  then show "(p * 4096 + q * 64 + r) div 4096 = p"
    by (simp only: eq base64_digit assms)
  show "(p * 4096 + q * 64 + r) div 64 mod 64 = q" "(p * 4096 + q * 64 + r) mod 64 = r"
    by (simp_all only: eq base64_digit assms)
qed

lemma base64_digits_4:
  assumes "r < 64" "q < 64" "p < 64"
  shows "(m * 262144 + p * 4096 + q * 64 + r) div 262144 = m"
    "(m * 262144 + p * 4096 + q * 64 + r) div 4096 mod 64 = p"
    "(m * 262144 + p * 4096 + q * 64 + r) div 64 mod 64 = q"
    "(m * 262144 + p * 4096 + q * 64 + r) mod 64 = (r :: nat)"
proof -
  have eq: "m * 262144 + p * 4096 + q * 64 + r = (m * 64 + p) * 4096 + q * 64 + r"
    by simp
  have "x div 262144 = x div 4096 div 64" for x :: nat
    by (simp add: div_mult2_eq [symmetric])
  then show "(m * 262144 + p * 4096 + q * 64 + r) div 262144 = m"
    by (simp only: eq base64_digits_3 base64_digit assms)
  show "(m * 262144 + p * 4096 + q * 64 + r) div 4096 mod 64 = p"
    "(m * 262144 + p * 4096 + q * 64 + r) div 64 mod 64 = q"
    "(m * 262144 + p * 4096 + q * 64 + r) mod 64 = r"
    by (simp_all only: eq base64_digits_3 base64_digit assms)
qed

lemma utf8_bytes_two:
  assumes "0xC2 \<le> unat b" "unat b < 0xE0" "is_continuation c"
  shows "utf8_bytes ((unat b - 0xC0) * 0x40 + low_bits c) = [b, c]"
    "scalar_value ((unat b - 0xC0) * 0x40 + low_bits c)"
proof -
  define q r where "q = unat b - 0xC0" and "r = low_bits c"
  have "r < 64" "2 \<le> q" "q < 32" "0xC0 + q = unat b" "0x80 + r = unat c"
    using assms by (auto simp: q_def r_def low_bits_def is_continuation_def)
  then show "utf8_bytes ((unat b - 0xC0) * 0x40 + low_bits c) = [b, c]"
      "scalar_value ((unat b - 0xC0) * 0x40 + low_bits c)"
    by (simp_all add: utf8_bytes_def scalar_value_def flip: q_def r_def)
qed

lemma utf8_bytes_three:
  assumes "0xE0 \<le> unat b" "unat b < 0xF0" "is_continuation c" "is_continuation d"
    and n: "n = (unat b - 0xE0) * 0x1000 + low_bits c * 0x40 + low_bits d" "0x800 \<le> n"
  shows "utf8_bytes n = [b, c, d]"
proof -
  define p q r where "p = unat b - 0xE0" and "q = low_bits c" and "r = low_bits d"
  have pqr: "r < 64" "q < 64" "p < 16" "0xE0 + p = unat b" "0x80 + q = unat c" "0x80 + r = unat d"
    using assms by (auto simp: p_def q_def r_def low_bits_def is_continuation_def)
  have nn: "n = p * 4096 + q * 64 + r" "n < 0x10000"
    using n pqr by (auto simp: p_def q_def r_def)
  then show ?thesis
    using pqr n(2) base64_digits_3 [of r q p]
    by (simp add: utf8_bytes_def)
qed

lemma utf8_bytes_four:
  assumes "0xF0 \<le> unat b" "unat b < 0xF5" "is_continuation c" "is_continuation d" "is_continuation e"
    and n: "n = (unat b - 0xF0) * 0x40000 + low_bits c * 0x1000 + low_bits d * 0x40 + low_bits e" "0x10000 \<le> n"
  shows "utf8_bytes n = [b, c, d, e]"
proof -
  define m p q r where "m = unat b - 0xF0" and "p = low_bits c" and "q = low_bits d" and "r = low_bits e"
  have pqr: "r < 64" "q < 64" "p < 64" "0xF0 + m = unat b" "0x80 + p = unat c" "0x80 + q = unat d"
    "0x80 + r = unat e"
    using assms by (auto simp: m_def p_def q_def r_def low_bits_def is_continuation_def)
  have nn: "n = m * 262144 + p * 4096 + q * 64 + r"
    using n pqr by (auto simp: m_def p_def q_def r_def)
  then show ?thesis
    using pqr n(2) base64_digits_4 [of r q p m]
    by (simp add: utf8_bytes_def)
qed

lemma utf8_decode_two:
  assumes "0xC2 \<le> unat b" "unat b < 0xE0" "utf8_decode (b # bs) = Some ns"
  obtains c r ms where "bs = c # r" "utf8_decode r = Some ms" "is_continuation c"
    "ns = ((unat b - 0xC0) * 0x40 + low_bits c) # ms"
  using assms that by (auto split: list.splits if_splits)

lemma utf8_decode_three:
  assumes "0xE0 \<le> unat b" "unat b < 0xF0" "utf8_decode (b # bs) = Some ns"
  obtains c d r n ms where "bs = c # d # r" "utf8_decode r = Some ms" "ns = n # ms"
    "utf8_bytes n = [b, c, d]" "scalar_value n"
  using assms that by (auto simp: Let_def utf8_bytes_three split: list.splits if_splits)

lemma utf8_decode_four:
  assumes "0xF0 \<le> unat b" "unat b < 0xF5" "utf8_decode (b # bs) = Some ns"
  obtains c d e r n ms where "bs = c # d # e # r" "utf8_decode r = Some ms" "ns = n # ms"
    "utf8_bytes n = [b, c, d, e]" "scalar_value n"
  using assms that by (auto simp: Let_def utf8_bytes_four split: list.splits if_splits)

lemma utf8_decode_lead:
  assumes "utf8_decode (b # cs) = Some ns"
  shows "unat b < 0x80 \<or> 0xC2 \<le> unat b \<and> unat b < 0xE0 \<or> 0xE0 \<le> unat b \<and> unat b < 0xF0
    \<or> 0xF0 \<le> unat b \<and> unat b < 0xF5"
proof (rule ccontr)
  assume "\<not> ?thesis"
  then have "utf8_decode (b # cs) = None"
    by (simp only: utf8_decode.simps if_False de_Morgan_disj not_False_eq_True)
  with assms show False
    by simp
qed

lemma utf8_decode_canonical:
  "utf8_decode bs = Some ns \<Longrightarrow> concat (map utf8_bytes ns) = bs \<and> (\<forall>n\<in>set ns. scalar_value n)"
proof (induction "length bs" arbitrary: bs ns rule: less_induct)
  case less
  note IH = less.hyps and prems = less.prems
  show ?case
  proof (cases bs)
    case Nil
    with prems show ?thesis by simp
  next
    case (Cons b cs)
    consider (one) "unat b < 0x80" | (two) "0xC2 \<le> unat b" "unat b < 0xE0"
      | (three) "0xE0 \<le> unat b" "unat b < 0xF0" | (four) "0xF0 \<le> unat b" "unat b < 0xF5"
      using utf8_decode_lead prems Cons by blast
    then show ?thesis
    proof cases
      case one
      then obtain ms where "ns = unat b # ms" "utf8_decode cs = Some ms"
        using prems Cons by auto
      with one show ?thesis
        using IH [of cs ms] Cons by (simp add: utf8_bytes_def scalar_value_def)
    next
      case two
      obtain c r ms where
        "cs = c # r" "utf8_decode r = Some ms" "is_continuation c" "ns = ((unat b - 0xC0) * 0x40 + low_bits c) # ms"
        by (rule utf8_decode_two [OF two prems [unfolded Cons]])
      with two show ?thesis
        using IH [of r ms] Cons by (simp add: utf8_bytes_two)
    next
      case three
      obtain c d r n ms where
        "cs = c # d # r" "utf8_decode r = Some ms" "ns = n # ms" "utf8_bytes n = [b, c, d]" "scalar_value n"
        by (rule utf8_decode_three [OF three prems [unfolded Cons]])
      then show ?thesis
        using IH [of r ms] Cons by simp
    next
      case four
      obtain c d e r n ms where
        "cs = c # d # e # r" "utf8_decode r = Some ms" "ns = n # ms" "utf8_bytes n = [b, c, d, e]" "scalar_value n"
        by (rule utf8_decode_four [OF four prems [unfolded Cons]])
      then show ?thesis
        using IH [of r ms] Cons by simp
    qed
  qed
qed

lemma scalar_units_cases:
  assumes "scalar_value n"
  obtains u where "units_of_code_point n = [u]" "\<not> is_high_surrogate u" "\<not> is_low_surrogate u" "unat u = n"
  | u v where "units_of_code_point n = [u, v]" "is_high_surrogate u" "is_low_surrogate v"
      "pair_code_point u v = n"
proof (cases "n < 0x10000")
  case True
  then show ?thesis
    using assms
    by (intro that(1) [of "to_unit n"])
      (auto simp: units_of_code_point_def is_high_surrogate_def is_low_surrogate_def scalar_value_def)
next
  case False
  define q r where "q = (n - 0x10000) div 0x400" and "r = (n - 0x10000) mod 0x400"
  have "q * 0x400 + r = n - 0x10000"
    by (simp add: q_def r_def)
  moreover have "q < 0x400" "r < 0x400"
    using False scalar_le [OF assms] by (auto simp: q_def r_def)
  ultimately show ?thesis
    using False
    by (intro that(2) [of "to_unit (0xD800 + q)" "to_unit (0xDC00 + r)"])
      (auto simp: units_of_code_point_def is_high_surrogate_def is_low_surrogate_def
        pair_code_point_def q_def [symmetric] r_def [symmetric])
qed

lemma code_points_units:
  "\<forall>n\<in>set ns. scalar_value n \<Longrightarrow> code_points (concat (map units_of_code_point ns)) = ns
     \<and> well_formed_text (concat (map units_of_code_point ns))"
proof (induction ns)
  case (Cons n ns)
  let ?s = "concat (map units_of_code_point ns)"
  have IH: "code_points ?s = ns" "well_formed_text ?s"
    using Cons by auto
  have "scalar_value n"
    using Cons.prems by simp
  then show ?case
  proof (cases rule: scalar_units_cases)
    case (1 u)
    then show ?thesis using IH by (cases ?s) auto
  next
    case (2 u v)
    then show ?thesis using IH by auto
  qed
qed simp

text \<open>Decoding is canonical: a decoded string is well formed and encodes to the bytes it came from.\<close>

lemma text_decode_canonical:
  assumes "text_decode bs = Some s"
  shows "text_encode s = bs" "well_formed_text s"
  using assms utf8_decode_canonical [of bs] code_points_units
  by (auto simp: text_decode_def text_encode_def)

end
