(* ===== verification/Cbor.thy ===== *)
theory Cbor
  imports JsNumber JsText
begin

text \<open>
  The strict CBOR subset of the wire protocol (\<open>packages/protocol/src/cbor\<close>): option
  resolution (\<open>options.ts\<close>), the growing output buffer and the encoder over a heap of
  JavaScript values (\<open>encoder.ts\<close>), and the decoder over a byte array with a read offset
  (\<open>decoder.ts\<close>). \<open>enc_tree\<close> is the reference layout of a decoded value; the encoder
  refines it and the decoder inverts it.
\<close>

section \<open>Options (options.ts)\<close>

datatype cbor_error =
    OptionRange string nat
  | DepthExceeded nat
  | ByteLengthExceeded nat
  | TextTooLong nat
  | InvalidUnicode
  | NumberNotFinite
  | UnsafeInteger
  | ByteStringTooLong nat
  | CyclicValue
  | ArrayTooLong nat
  | HoleOrUndefined
  | NonStringMapKey
  | MapTooLong nat
  | UnsupportedType string
  | TrailingData
  | TruncatedPayload
  | InvalidUtf8
  | DuplicateKey
  | TagsUnsupported
  | BreakUnsupported
  | UnsupportedSimple
  | IndefiniteLength string
  | LengthExceeded string nat
  | MalformedAdditional
  | BufferGrowthDiverged

definition UINT32_BASE :: nat where "UINT32_BASE = 2 ^ 32"
definition MAX_UINT32 :: nat where "MAX_UINT32 = 2 ^ 32 - 1"
definition MAX_CONFIGURED_DEPTH :: nat where "MAX_CONFIGURED_DEPTH = 512"
definition DEFAULT_MAX_CBOR_BYTE_LENGTH :: nat where
  "DEFAULT_MAX_CBOR_BYTE_LENGTH = 16 * 1024 * 1024"
definition DEFAULT_MAX_CBOR_CONTAINER_LENGTH :: nat where
  "DEFAULT_MAX_CBOR_CONTAINER_LENGTH = 1000000"
definition DEFAULT_MAX_CBOR_DEPTH :: nat where "DEFAULT_MAX_CBOR_DEPTH = 64"

record cbor_options =
  opt_maxByteLength :: "js_number option"
  opt_maxContainerLength :: "js_number option"
  opt_maxDepth :: "js_number option"

record resolved_options =
  maxByteLength :: nat
  maxContainerLength :: nat
  maxDepth :: nat

definition resolveLimit :: "string \<Rightarrow> js_number option \<Rightarrow> nat \<Rightarrow> nat \<Rightarrow> cbor_error + nat" where
  "resolveLimit name given fallback maximum =
     (let v = (case given of None \<Rightarrow> JInt (int fallback) | Some x \<Rightarrow> x)
      in if \<not> num_is_safe_integer v \<or> num_int v < 0 \<or> int maximum < num_int v
         then Err (OptionRange name maximum) else Ok (nat (num_int v)))"

definition resolveOptions :: "cbor_options \<Rightarrow> cbor_error + resolved_options" where
  "resolveOptions opts =
     bind_res (resolveLimit ''maxByteLength'' (opt_maxByteLength opts)
                 DEFAULT_MAX_CBOR_BYTE_LENGTH MAX_UINT32) (\<lambda>b.
     bind_res (resolveLimit ''maxContainerLength'' (opt_maxContainerLength opts)
                 DEFAULT_MAX_CBOR_CONTAINER_LENGTH MAX_UINT32) (\<lambda>c.
     bind_res (resolveLimit ''maxDepth'' (opt_maxDepth opts)
                 DEFAULT_MAX_CBOR_DEPTH MAX_CONFIGURED_DEPTH) (\<lambda>d.
     Ok \<lparr>maxByteLength = b, maxContainerLength = c, maxDepth = d\<rparr>)))"

definition valid_options :: "resolved_options \<Rightarrow> bool" where
  "valid_options opts \<longleftrightarrow> maxByteLength opts \<le> MAX_UINT32 \<and> maxContainerLength opts \<le> MAX_UINT32
     \<and> maxDepth opts \<le> MAX_CONFIGURED_DEPTH"

section \<open>The output buffer (encoder.ts, class CborWriter)\<close>

text \<open>
  \<open>w_buffer\<close> is the allocated \<open>Uint8Array\<close>, \<open>w_offset\<close> the number of bytes written.
  The growth loop of \<open>ensureCapacity\<close> is a while loop; a run that never ended would be the
  error \<open>BufferGrowthDiverged\<close>, which the lemmas below exclude.
\<close>

record cbor_writer =
  w_buffer :: "byte list"
  w_offset :: nat
  w_max :: nat

definition new_writer :: "nat \<Rightarrow> cbor_writer" where
  "new_writer m = \<lparr>w_buffer = replicate (min 256 m) 0, w_offset = 0, w_max = m\<rparr>"

definition ensureCapacity :: "cbor_writer \<Rightarrow> nat \<Rightarrow> cbor_error + cbor_writer" where
  "ensureCapacity w additionalBytes =
     (let required = w_offset w + additionalBytes
      in if required > w_max w then Err (ByteLengthExceeded (w_max w))
         else if required \<le> length (w_buffer w) then Ok w
         else case while_option (\<lambda>capacity. capacity < required)
                     (\<lambda>capacity. min (w_max w) (max required (capacity * 2)))
                     (max 1 (length (w_buffer w))) of
                None \<Rightarrow> Err BufferGrowthDiverged
              | Some capacity \<Rightarrow>
                  Ok (w\<lparr>w_buffer := w_buffer w @ replicate (capacity - length (w_buffer w)) 0\<rparr>))"

definition writeByte :: "cbor_writer \<Rightarrow> byte \<Rightarrow> cbor_error + cbor_writer" where
  "writeByte w b =
     bind_res (ensureCapacity w 1) (\<lambda>w.
       Ok (w\<lparr>w_buffer := (w_buffer w)[w_offset w := b], w_offset := w_offset w + 1\<rparr>))"

definition writeBytes :: "cbor_writer \<Rightarrow> byte list \<Rightarrow> cbor_error + cbor_writer" where
  "writeBytes w bs =
     bind_res (ensureCapacity w (length bs)) (\<lambda>w.
       Ok (w\<lparr>w_buffer := overwrite (w_buffer w) (w_offset w) bs, w_offset := w_offset w + length bs\<rparr>))"

definition writeUint16 :: "cbor_writer \<Rightarrow> nat \<Rightarrow> cbor_error + cbor_writer" where
  "writeUint16 w v =
     bind_res (ensureCapacity w 2) (\<lambda>w.
       Ok (w\<lparr>w_buffer := (w_buffer w)[w_offset w := to_byte (v div 2 ^ 8),
                                        w_offset w + 1 := to_byte v],
             w_offset := w_offset w + 2\<rparr>))"

definition writeUint32 :: "cbor_writer \<Rightarrow> nat \<Rightarrow> cbor_error + cbor_writer" where
  "writeUint32 w v =
     bind_res (ensureCapacity w 4) (\<lambda>w.
       Ok (w\<lparr>w_buffer := (w_buffer w)[w_offset w := to_byte (v div 2 ^ 24),
                                        w_offset w + 1 := to_byte (v div 2 ^ 16),
                                        w_offset w + 2 := to_byte (v div 2 ^ 8),
                                        w_offset w + 3 := to_byte v],
             w_offset := w_offset w + 4\<rparr>))"

definition writeUint64 :: "cbor_writer \<Rightarrow> nat \<Rightarrow> cbor_error + cbor_writer" where
  "writeUint64 w v =
     (let high = v div UINT32_BASE; low = v - high * UINT32_BASE
      in bind_res (writeUint32 w high) (\<lambda>w. writeUint32 w low))"

definition writeFloat64 :: "cbor_writer \<Rightarrow> 64 word \<Rightarrow> cbor_error + cbor_writer" where
  "writeFloat64 w b =
     bind_res (ensureCapacity w 9) (\<lambda>w.
       Ok (w\<lparr>w_buffer := overwrite ((w_buffer w)[w_offset w := 0xfb]) (w_offset w + 1)
                           (be_bytes 8 (unat b)),
             w_offset := w_offset w + 9\<rparr>))"

definition finish :: "cbor_writer \<Rightarrow> byte list" where
  "finish w = take (w_offset w) (w_buffer w)"

section \<open>The encoder (encoder.ts)\<close>

definition writeArgument :: "cbor_writer \<Rightarrow> nat \<Rightarrow> nat \<Rightarrow> cbor_error + cbor_writer" where
  "writeArgument w majorType v =
     (let prefix = majorType * 32
      in if v < 24 then writeByte w (to_byte (prefix + v))
         else if v \<le> 0xff then
           bind_res (writeByte w (to_byte (prefix + 24))) (\<lambda>w. writeByte w (to_byte v))
         else if v \<le> 0xffff then
           bind_res (writeByte w (to_byte (prefix + 25))) (\<lambda>w. writeUint16 w v)
         else if v \<le> MAX_UINT32 then
           bind_res (writeByte w (to_byte (prefix + 26))) (\<lambda>w. writeUint32 w v)
         else
           bind_res (writeByte w (to_byte (prefix + 27))) (\<lambda>w. writeUint64 w v))"

text \<open>
  The values the encoder is given live in a heap: a value is primitive or a reference, and an
  object is a byte array, an array (\<open>None\<close> is a hole), a plain object with its enumerable
  string-keyed properties in property order, a flag for an enumerable symbol key and a flag for
  a null prototype (instead of \<open>Object.prototype\<close>), or anything else. A value of another type (a function, a symbol, a bigint) carries its
  \<open>typeof\<close> name.
\<close>

datatype js_value =
    VUndefined
  | VNull
  | VBool bool
  | VNumber js_number
  | VString js_string
  | VRef nat
  | VOther string

datatype js_object =
    OBytes "byte list"
  | OArray "js_value option list"
  | OPlain "(js_string \<times> js_value) list" bool bool
  | OExotic

type_synonym js_heap = "nat \<Rightarrow> js_object"

definition encodeText :: "cbor_writer \<Rightarrow> js_string \<Rightarrow> resolved_options \<Rightarrow> cbor_error + cbor_writer" where
  "encodeText w s opts =
     (let bytes = text_encode s
      in if length bytes > maxByteLength opts then Err (TextTooLong (maxByteLength opts))
         else if text_decode bytes \<noteq> Some s then Err InvalidUnicode
         else bind_res (writeArgument w 3 (length bytes)) (\<lambda>w. writeBytes w bytes))"

definition encodeNumber :: "cbor_writer \<Rightarrow> js_number \<Rightarrow> cbor_error + cbor_writer" where
  "encodeNumber w x =
     (if \<not> num_is_finite x then Err NumberNotFinite
      else if num_is_integer x \<and> \<not> num_is_neg_zero x then
        (if \<not> num_is_safe_integer x then Err UnsafeInteger
         else if num_int x \<ge> 0 then writeArgument w 0 (nat (num_int x))
         else writeArgument w 1 (nat (- 1 - num_int x)))
      else (case x of JFloat b \<Rightarrow> writeFloat64 w b | JInt n \<Rightarrow> Err UnsafeInteger))"

function (sequential)
  encodeValue :: "js_heap \<Rightarrow> resolved_options \<Rightarrow> cbor_writer \<Rightarrow> js_value \<Rightarrow> nat \<Rightarrow> nat set
                  \<Rightarrow> cbor_error + cbor_writer"
  and encodeItems :: "js_heap \<Rightarrow> resolved_options \<Rightarrow> cbor_writer \<Rightarrow> js_value option list \<Rightarrow> nat
                  \<Rightarrow> nat set \<Rightarrow> cbor_error + cbor_writer"
  and encodeEntries :: "js_heap \<Rightarrow> resolved_options \<Rightarrow> cbor_writer \<Rightarrow> (js_string \<times> js_value) list \<Rightarrow> nat
                  \<Rightarrow> nat set \<Rightarrow> cbor_error + cbor_writer"
where
  "encodeValue h opts w v depth ancestors =
     (if depth > maxDepth opts then Err (DepthExceeded (maxDepth opts))
      else case v of
        VNull \<Rightarrow> writeByte w 0xf6
      | VBool b \<Rightarrow> writeByte w (if b then 0xf5 else 0xf4)
      | VNumber x \<Rightarrow> encodeNumber w x
      | VString s \<Rightarrow> encodeText w s opts
      | VRef a \<Rightarrow>
          (case h a of
             OBytes bs \<Rightarrow>
               (if length bs > maxByteLength opts then Err (ByteStringTooLong (maxByteLength opts))
                else bind_res (writeArgument w 2 (length bs)) (\<lambda>w. writeBytes w bs))
           | OArray xs \<Rightarrow>
               (if a \<in> ancestors then Err CyclicValue
                else if length xs > maxContainerLength opts
                then Err (ArrayTooLong (maxContainerLength opts))
                else bind_res (writeArgument w 4 (length xs)) (\<lambda>w.
                       encodeItems h opts w xs depth (insert a ancestors)))
           | OPlain props enumerable_symbol null_prototype \<Rightarrow>
               (if a \<in> ancestors then Err CyclicValue
                else if enumerable_symbol then Err NonStringMapKey
                else let entries = filter (\<lambda>(k, x). x \<noteq> VUndefined) props
                     in if length entries > maxContainerLength opts
                        then Err (MapTooLong (maxContainerLength opts))
                        else bind_res (writeArgument w 5 (length entries)) (\<lambda>w.
                               encodeEntries h opts w entries depth (insert a ancestors)))
           | OExotic \<Rightarrow> Err (UnsupportedType ''object''))
      | VUndefined \<Rightarrow> Err (UnsupportedType ''undefined'')
      | VOther ty \<Rightarrow> Err (UnsupportedType ty))"
| "encodeItems h opts w [] depth ancestors = Ok w"
| "encodeItems h opts w (x # xs) depth ancestors =
     (case x of
        None \<Rightarrow> Err HoleOrUndefined
      | Some v \<Rightarrow>
          (if v = VUndefined then Err HoleOrUndefined
           else bind_res (encodeValue h opts w v (Suc depth) ancestors) (\<lambda>w.
                  encodeItems h opts w xs depth ancestors)))"
| "encodeEntries h opts w [] depth ancestors = Ok w"
| "encodeEntries h opts w ((k, v) # entries) depth ancestors =
     bind_res (encodeText w k opts) (\<lambda>w.
     bind_res (encodeValue h opts w v (Suc depth) ancestors) (\<lambda>w.
       encodeEntries h opts w entries depth ancestors))"
  by pat_completeness auto
termination
  by (relation "measures
       [\<lambda>x. case x of
          Inl (h, opts, w, v, depth, anc) \<Rightarrow> 2 * (Suc (maxDepth opts) - depth)
        | Inr (Inl (h, opts, w, xs, depth, anc)) \<Rightarrow> 2 * (Suc (maxDepth opts) - depth) - 1
        | Inr (Inr (h, opts, w, es, depth, anc)) \<Rightarrow> 2 * (Suc (maxDepth opts) - depth) - 1,
        \<lambda>x. case x of
          Inl _ \<Rightarrow> 0
        | Inr (Inl (h, opts, w, xs, depth, anc)) \<Rightarrow> length xs
        | Inr (Inr (h, opts, w, es, depth, anc)) \<Rightarrow> length es]") auto

definition encodeCbor :: "js_heap \<Rightarrow> js_value \<Rightarrow> cbor_options \<Rightarrow> cbor_error + byte list" where
  "encodeCbor h v options =
     bind_res (resolveOptions options) (\<lambda>opts.
     bind_res (encodeValue h opts (new_writer (maxByteLength opts)) v 0 {}) (\<lambda>w.
       Ok (finish w)))"

section \<open>The decoder (decoder.ts)\<close>

text \<open>
  A decoded value is a freshly allocated finite tree. The reader's state is the byte array
  and the read offset; every read returns the new offset.
\<close>

datatype cbor =
    CNull
  | CBool bool
  | CNumber js_number
  | CString js_string
  | CBytes "byte list"
  | CArray "cbor list"
  | CMap "(js_string \<times> cbor) list"

definition readByte :: "byte list \<Rightarrow> nat \<Rightarrow> cbor_error + byte \<times> nat" where
  "readByte bytes offset =
     (if offset \<ge> length bytes then Err TruncatedPayload else Ok (bytes ! offset, offset + 1))"

definition readBytes :: "byte list \<Rightarrow> nat \<Rightarrow> nat \<Rightarrow> cbor_error + byte list \<times> nat" where
  "readBytes bytes offset len =
     (if len > length bytes - offset then Err TruncatedPayload
      else Ok (take len (drop offset bytes), offset + len))"

definition readUint32 :: "byte list \<Rightarrow> nat \<Rightarrow> cbor_error + nat \<times> nat" where
  "readUint32 bytes offset =
     bind_res (readBytes bytes offset 4) (\<lambda>(b, offset).
       Ok (unat (b ! 0) * 0x1000000 + unat (b ! 1) * 0x10000 + unat (b ! 2) * 0x100 + unat (b ! 3),
           offset))"

definition readArgument :: "byte list \<Rightarrow> nat \<Rightarrow> nat \<Rightarrow> cbor_error + nat \<times> nat" where
  "readArgument bytes offset info =
     (if info < 24 then Ok (info, offset)
      else if info = 24 then bind_res (readByte bytes offset) (\<lambda>(b, offset). Ok (unat b, offset))
      else if info = 25 then
        bind_res (readBytes bytes offset 2) (\<lambda>(b, offset).
          Ok (unat (b ! 0) * 0x100 + unat (b ! 1), offset))
      else if info = 26 then readUint32 bytes offset
      else if info = 27 then
        bind_res (readUint32 bytes offset) (\<lambda>(high, offset).
        bind_res (readUint32 bytes offset) (\<lambda>(low, offset).
          if high > 0x1fffff then Err UnsafeInteger else Ok (high * UINT32_BASE + low, offset)))
      else if info = 31 then Err (IndefiniteLength ''item'')
      else Err MalformedAdditional)"

definition readLength :: "byte list \<Rightarrow> nat \<Rightarrow> nat \<Rightarrow> string \<Rightarrow> nat \<Rightarrow> cbor_error + nat \<times> nat" where
  "readLength bytes offset info kind limit =
     (if info = 31 then Err (IndefiniteLength kind)
      else bind_res (readArgument bytes offset info) (\<lambda>(len, offset).
             if len > limit then Err (LengthExceeded kind limit) else Ok (len, offset)))"

definition readSimple :: "byte list \<Rightarrow> nat \<Rightarrow> nat \<Rightarrow> cbor_error + cbor \<times> nat" where
  "readSimple bytes offset info =
     (if info = 20 then Ok (CBool False, offset)
      else if info = 21 then Ok (CBool True, offset)
      else if info = 22 then Ok (CNull, offset)
      else if info = 27 then
        bind_res (readBytes bytes offset 8) (\<lambda>(b, offset).
          let x = number_of_float (of_nat (be_nat b))
          in if \<not> num_is_finite x then Err NumberNotFinite
             else if num_is_integer x \<and> \<not> num_is_safe_integer x then Err UnsafeInteger
             else Ok (CNumber x, offset))
      else if info = 31 then Err BreakUnsupported
      else Err UnsupportedSimple)"

function (sequential)
  readItem :: "resolved_options \<Rightarrow> byte list \<Rightarrow> nat \<Rightarrow> nat \<Rightarrow> cbor_error + cbor \<times> nat"
  and readItems :: "resolved_options \<Rightarrow> byte list \<Rightarrow> nat \<Rightarrow> nat \<Rightarrow> nat \<Rightarrow> cbor_error + cbor list \<times> nat"
  and readEntries :: "resolved_options \<Rightarrow> byte list \<Rightarrow> nat \<Rightarrow> nat \<Rightarrow> nat \<Rightarrow> js_string set
                      \<Rightarrow> cbor_error + (js_string \<times> cbor) list \<times> nat"
where
  "readItem opts bytes offset depth =
     (if depth > maxDepth opts then Err (DepthExceeded (maxDepth opts))
      else bind_res (readByte bytes offset) (\<lambda>(initial, offset).
        let major = unat initial div 32; info = unat initial mod 32
        in if major = 0 then
             bind_res (readArgument bytes offset info) (\<lambda>(n, offset). Ok (CNumber (JInt (int n)), offset))
           else if major = 1 then
             bind_res (readArgument bytes offset info) (\<lambda>(n, offset).
               if \<not> safe_int (- 1 - int n) then Err UnsafeInteger
               else Ok (CNumber (JInt (- 1 - int n)), offset))
           else if major = 2 then
             bind_res (readLength bytes offset info ''byte string'' (maxByteLength opts)) (\<lambda>(len, offset).
             bind_res (readBytes bytes offset len) (\<lambda>(b, offset). Ok (CBytes b, offset)))
           else if major = 3 then
             bind_res (readLength bytes offset info ''text string'' (maxByteLength opts)) (\<lambda>(len, offset).
             bind_res (readBytes bytes offset len) (\<lambda>(b, offset).
               case text_decode b of None \<Rightarrow> Err InvalidUtf8 | Some s \<Rightarrow> Ok (CString s, offset)))
           else if major = 4 then
             bind_res (readLength bytes offset info ''array'' (maxContainerLength opts)) (\<lambda>(len, offset).
             bind_res (readItems opts bytes offset depth len) (\<lambda>(xs, offset). Ok (CArray xs, offset)))
           else if major = 5 then
             bind_res (readLength bytes offset info ''map'' (maxContainerLength opts)) (\<lambda>(len, offset).
             bind_res (readEntries opts bytes offset depth len {}) (\<lambda>(es, offset). Ok (CMap es, offset)))
           else if major = 6 then Err TagsUnsupported
           else readSimple bytes offset info))"
| "readItems opts bytes offset depth 0 = Ok ([], offset)"
| "readItems opts bytes offset depth (Suc n) =
     bind_res (readItem opts bytes offset (Suc depth)) (\<lambda>(x, offset).
     bind_res (readItems opts bytes offset depth n) (\<lambda>(xs, offset). Ok (x # xs, offset)))"
| "readEntries opts bytes offset depth 0 keys = Ok ([], offset)"
| "readEntries opts bytes offset depth (Suc n) keys =
     bind_res (readItem opts bytes offset (Suc depth)) (\<lambda>(key, offset).
       case key of
         CString k \<Rightarrow>
           (if k \<in> keys then Err DuplicateKey
            else bind_res (readItem opts bytes offset (Suc depth)) (\<lambda>(x, offset).
                 bind_res (readEntries opts bytes offset depth n (insert k keys)) (\<lambda>(es, offset).
                   Ok ((k, x) # es, offset))))
       | _ \<Rightarrow> Err NonStringMapKey)"
  by pat_completeness auto
termination
  by (relation "measures
       [\<lambda>x. case x of
          Inl (opts, bytes, offset, depth) \<Rightarrow> 2 * (Suc (maxDepth opts) - depth)
        | Inr (Inl (opts, bytes, offset, depth, n)) \<Rightarrow> 2 * (Suc (maxDepth opts) - depth) - 1
        | Inr (Inr (opts, bytes, offset, depth, n, keys)) \<Rightarrow> 2 * (Suc (maxDepth opts) - depth) - 1,
        \<lambda>x. case x of
          Inl _ \<Rightarrow> 0
        | Inr (Inl (opts, bytes, offset, depth, n)) \<Rightarrow> n
        | Inr (Inr (opts, bytes, offset, depth, n, keys)) \<Rightarrow> n]") auto

definition decodeCbor :: "byte list \<Rightarrow> cbor_options \<Rightarrow> cbor_error + cbor" where
  "decodeCbor bytes options =
     bind_res (resolveOptions options) (\<lambda>opts.
       if length bytes > maxByteLength opts then Err (ByteLengthExceeded (maxByteLength opts))
       else bind_res (readItem opts bytes 0 0) (\<lambda>(v, offset).
              if offset \<noteq> length bytes then Err TrailingData else Ok v))"

end
