(* ===== verification/CborCorrect.thy ===== *)
theory CborCorrect
  imports Cbor
begin

text \<open>
  Correctness of the CBOR component. \<open>enc_tree\<close> is the reference layout of a value,
  \<open>fits\<close> the limits the options impose on it and \<open>represents\<close> the finite value a heap
  value unfolds to. The growing buffer implements appending, the encoder succeeds exactly on
  the values that represent a fitting tree and then writes its reference layout, and the
  decoder reads that layout back.
\<close>

declare encodeValue.simps [simp del] readItem.simps [simp del]

section \<open>The reference layout\<close>

definition arg_info :: "nat \<Rightarrow> nat" where
  "arg_info n = (if n < 24 then n else if n \<le> 0xff then 24 else if n \<le> 0xffff then 25
     else if n \<le> MAX_UINT32 then 26 else 27)"

definition arg_tail :: "nat \<Rightarrow> byte list" where
  "arg_tail n = (if n < 24 then [] else if n \<le> 0xff then be_bytes 1 n else if n \<le> 0xffff
     then be_bytes 2 n else if n \<le> MAX_UINT32 then be_bytes 4 n else be_bytes 8 n)"

definition enc_arg :: "nat \<Rightarrow> nat \<Rightarrow> byte list" where
  "enc_arg major n = to_byte (major * 32 + arg_info n) # arg_tail n"

fun enc_number :: "js_number \<Rightarrow> byte list" where
  "enc_number (JInt n) = (if n \<ge> 0 then enc_arg 0 (nat n) else enc_arg 1 (nat (- 1 - n)))"
| "enc_number (JFloat b) = 0xfb # be_bytes 8 (unat b)"

definition enc_text :: "js_string \<Rightarrow> byte list" where
  "enc_text s = enc_arg 3 (length (text_encode s)) @ text_encode s"

fun enc_tree :: "cbor \<Rightarrow> byte list" where
  "enc_tree CNull = [0xf6]"
| "enc_tree (CBool b) = [if b then 0xf5 else 0xf4]"
| "enc_tree (CNumber x) = enc_number x"
| "enc_tree (CString s) = enc_text s"
| "enc_tree (CBytes bs) = enc_arg 2 (length bs) @ bs"
| "enc_tree (CArray xs) = enc_arg 4 (length xs) @ concat (map enc_tree xs)"
| "enc_tree (CMap es) = enc_arg 5 (length es) @ concat (map (\<lambda>(k, x). enc_text k @ enc_tree x) es)"

section \<open>The limits\<close>

definition wire_number :: "js_number \<Rightarrow> bool" where
  "wire_number x \<longleftrightarrow> wf_number x \<and> num_is_finite x \<and> (num_is_integer x \<longrightarrow> num_is_safe_integer x)"

definition fits_text :: "resolved_options \<Rightarrow> js_string \<Rightarrow> bool" where
  "fits_text opts s \<longleftrightarrow> well_formed_text s \<and> length (text_encode s) \<le> maxByteLength opts"

fun fits :: "resolved_options \<Rightarrow> nat \<Rightarrow> cbor \<Rightarrow> bool" where
  "fits opts d CNull = (d \<le> maxDepth opts)"
| "fits opts d (CBool b) = (d \<le> maxDepth opts)"
| "fits opts d (CNumber x) = (d \<le> maxDepth opts \<and> wire_number x)"
| "fits opts d (CString s) = (d \<le> maxDepth opts \<and> fits_text opts s)"
| "fits opts d (CBytes bs) = (d \<le> maxDepth opts \<and> length bs \<le> maxByteLength opts)"
| "fits opts d (CArray xs) =
     (d \<le> maxDepth opts \<and> length xs \<le> maxContainerLength opts \<and> (\<forall>x\<in>set xs. fits opts (Suc d) x))"
| "fits opts d (CMap es) =
     (d \<le> maxDepth opts \<and> length es \<le> maxContainerLength opts \<and> distinct (map fst es)
      \<and> (\<forall>(k, x)\<in>set es. fits_text opts k \<and> fits opts (Suc d) x))"

lemma fits_depth: "fits opts d t \<Longrightarrow> d \<le> maxDepth opts"
  by (cases t) auto

section \<open>Options\<close>

lemma resolveLimit_Ok:
  "resolveLimit name given fallback maximum = Ok n \<Longrightarrow> n \<le> maximum"
  by (auto simp: resolveLimit_def Let_def split: if_splits)

lemma resolveOptions_valid: "resolveOptions options = Ok opts \<Longrightarrow> valid_options opts"
  by (auto simp: resolveOptions_def valid_options_def res_simps dest: resolveLimit_Ok)

section \<open>The buffer implements appending\<close>

definition writer_inv :: "cbor_writer \<Rightarrow> bool" where
  "writer_inv w \<longleftrightarrow> w_offset w \<le> length (w_buffer w) \<and> length (w_buffer w) \<le> w_max w"

text \<open>
  \<open>emits w r bs\<close>: the result \<open>r\<close> of an operation on \<open>w\<close> is the writer with \<open>bs\<close>
  appended when that stays within the limit, and the length error otherwise.
\<close>

definition emits :: "cbor_writer \<Rightarrow> cbor_error + cbor_writer \<Rightarrow> byte list \<Rightarrow> bool" where
  "emits w r bs \<longleftrightarrow>
     (if length (finish w) + length bs \<le> w_max w
      then \<exists>w'. r = Ok w' \<and> writer_inv w' \<and> w_max w' = w_max w \<and> finish w' = finish w @ bs
      else r = Err (ByteLengthExceeded (w_max w)))"

lemma length_finish [simp]: "writer_inv w \<Longrightarrow> length (finish w) = w_offset w"
  by (simp add: finish_def writer_inv_def)

lemma emits_Ok:
  "emits w r bs \<Longrightarrow> r = Ok w' \<Longrightarrow>
     writer_inv w' \<and> w_max w' = w_max w \<and> finish w' = finish w @ bs"
  by (auto simp: emits_def split: if_splits)

lemma emits_bind:
  assumes "emits w r bs"
    and "\<And>w'. writer_inv w' \<Longrightarrow> w_max w' = w_max w \<Longrightarrow> emits w' (f w') cs"
  shows "emits w (bind_res r f) (bs @ cs)"
proof (cases "length (finish w) + length bs \<le> w_max w")
  case True
  then obtain w' where "r = Ok w'" "writer_inv w'" "w_max w' = w_max w" "finish w' = finish w @ bs"
    using assms(1) by (auto simp: emits_def)
  then show ?thesis
    using assms(2) [of w'] by (auto simp: emits_def add.assoc)
next
  case False
  then show ?thesis
    using assms(1) by (auto simp: emits_def)
qed

text \<open>The growth loop ends after one round with room for what is required.\<close>

lemma growth_loop:
  fixes required m c0 :: nat
  assumes "required \<le> m"
  shows "\<exists>c. while_option (\<lambda>capacity. capacity < required)
            (\<lambda>capacity. min m (max required (capacity * 2))) c0 = Some c
          \<and> required \<le> c \<and> (c = c0 \<or> c \<le> m)"
proof (cases "c0 < required")
  case True
  define c1 where "c1 = min m (max required (c0 * 2))"
  have "\<not> c1 < required" "c1 \<le> m"
    using assms by (auto simp: c1_def)
  with True show ?thesis
    by (auto simp: while_option_unfold [of _ _ c0] while_option_unfold [of _ _ c1] c1_def [symmetric])
next
  case False
  then show ?thesis
    by (auto simp: while_option_unfold [of _ _ c0])
qed

lemma ensureCapacity_spec:
  assumes "writer_inv w"
  shows "if w_offset w + n \<le> w_max w
         then \<exists>w'. ensureCapacity w n = Ok w' \<and> writer_inv w' \<and> w_max w' = w_max w
                \<and> w_offset w' = w_offset w \<and> finish w' = finish w
                \<and> w_offset w + n \<le> length (w_buffer w')
         else ensureCapacity w n = Err (ByteLengthExceeded (w_max w))"
proof (cases "w_offset w + n \<le> w_max w \<and> length (w_buffer w) < w_offset w + n")
  case True
  then have "w_offset w + n \<le> w_max w" by simp
  from growth_loop [OF this, of "max 1 (length (w_buffer w))"] True assms show ?thesis
    by (auto simp: ensureCapacity_def writer_inv_def finish_def Let_def)
next
  case False
  then show ?thesis
    using assms by (auto simp: ensureCapacity_def writer_inv_def Let_def)
qed

text \<open>
  The contract every operation of the output buffer keeps: it appends the bytes of its
  argument or reports that the limit is exceeded. Two such operations in a row are one.
\<close>

locale sink_op =
  fixes put :: "cbor_writer \<Rightarrow> 'x \<Rightarrow> cbor_error + cbor_writer"
    and image :: "'x \<Rightarrow> byte list"
  assumes put_emits: "writer_inv w \<Longrightarrow> emits w (put w x) (image x)"
begin

lemma put_then:
  assumes "writer_inv w"
    and "\<And>w'. writer_inv w' \<Longrightarrow> w_max w' = w_max w \<Longrightarrow> emits w' (f w') cs"
  shows "emits w (bind_res (put w x) f) (image x @ cs)"
  using put_emits [OF assms(1)] assms(2) by (rule emits_bind)

end

text \<open>An operation that reserves room and then stores its bytes keeps the contract.\<close>

lemma reserve_emits:
  assumes inv: "writer_inv w"
    and store: "\<And>w'. w_offset w' = w_offset w \<Longrightarrow> w_offset w + length bs \<le> length (w_buffer w') \<Longrightarrow>
      w_max (store w') = w_max w' \<and> w_offset (store w') = w_offset w' + length bs
      \<and> length (w_buffer (store w')) = length (w_buffer w')
      \<and> finish (store w') = finish w' @ bs"
  shows "emits w (bind_res (ensureCapacity w (length bs)) (\<lambda>w. Ok (store w))) bs"
proof (cases "w_offset w + length bs \<le> w_max w")
  case True
  then obtain w' where w': "ensureCapacity w (length bs) = Ok w'" "writer_inv w'"
      "w_max w' = w_max w" "w_offset w' = w_offset w" "finish w' = finish w"
      "w_offset w + length bs \<le> length (w_buffer w')"
    using ensureCapacity_spec [OF inv, of "length bs"] by auto
  with store [OF w'(4) w'(6)] True inv show ?thesis
    by (auto simp: emits_def writer_inv_def)
next
  case False
  then show ?thesis
    using ensureCapacity_spec [OF inv, of "length bs"] inv by (auto simp: emits_def)
qed

lemma writeBytes_emits: "writer_inv w \<Longrightarrow> emits w (writeBytes w bs) bs"
  unfolding writeBytes_def by (rule reserve_emits) (auto simp: finish_def)

interpretation bytes_op: sink_op writeBytes "\<lambda>bs. bs"
  by unfold_locales (rule writeBytes_emits)

text \<open>The fixed-width writers are \<open>writeBytes\<close> of their big-endian form.\<close>

lemma to_byte_mod: "to_byte (n mod 256) = to_byte n"
  by (rule word_unat_eq_iff [THEN iffD2]) simp

lemma div_mod_eq_helper: "n mod 256 ^ (i + Suc j) div 256 ^ j mod 256 = n div 256 ^ j mod (256 :: nat)"
proof -
  have "n mod 256 ^ (i + Suc j) = n mod (256 ^ j * 256 ^ Suc i)"
    by (simp add: power_add mult.commute mult.left_commute)
  also have "\<dots> = 256 ^ j * (n div 256 ^ j mod 256 ^ Suc i) + n mod 256 ^ j"
    by (rule mod_mult2_eq)
  finally have "n mod 256 ^ (i + Suc j) div 256 ^ j = n div 256 ^ j mod 256 ^ Suc i"
    by simp
  then show ?thesis
    by (simp add: mod_mod_cancel)
qed

lemma reserve_cong:
  assumes "writer_inv w"
    and "\<And>w'. w_offset w' + n \<le> length (w_buffer w') \<Longrightarrow> f w' = g w'"
  shows "bind_res (ensureCapacity w n) f = bind_res (ensureCapacity w n) g"
  using ensureCapacity_spec [OF assms(1), of n] assms(2) by (auto split: if_splits)

lemma writeByte_eq:
  assumes "writer_inv w"
  shows "writeByte w b = writeBytes w [b]"
  unfolding writeByte_def writeBytes_def list.size add_0 One_nat_def
  by (rule reserve_cong [OF assms]) (simp add: overwrite_single)

lemma writeUint16_eq:
  assumes "writer_inv w"
  shows "writeUint16 w v = writeBytes w (be_bytes 2 v)"
  unfolding writeUint16_def writeBytes_def length_be_bytes
  by (rule reserve_cong [OF assms]) (simp only: be_bytes_2 list_update_overwrite2)

lemma writeUint32_eq:
  assumes "writer_inv w"
  shows "writeUint32 w v = writeBytes w (be_bytes 4 v)"
  unfolding writeUint32_def writeBytes_def length_be_bytes
  by (rule reserve_cong [OF assms]) (simp only: be_bytes_4 list_update_overwrite4)

lemma be_bytes_append: "be_bytes (j + k) n = be_bytes j (n div 256 ^ k) @ be_bytes k n"
  by (induction j) (auto simp: div_mult2_eq [symmetric] power_add mult.commute)

lemma be_bytes_mod: "be_bytes k (n mod 256 ^ k) = be_bytes k n"
proof -
  have "be_bytes j (n mod 256 ^ (i + j)) = be_bytes j n" for i j
  proof (induction j arbitrary: i)
    case 0
    then show ?case by simp
  next
    case (Suc j)
    have "n mod 256 ^ (i + Suc j) div 256 ^ j mod 256 = n div 256 ^ j mod 256"
      by (rule div_mod_eq_helper)
    then have "to_byte (n mod 256 ^ (i + Suc j) div 256 ^ j) = to_byte (n div 256 ^ j)"
      by (metis to_byte_mod)
    with Suc [of "Suc i"] show ?case
      by simp
  qed
  from this [of k 0] show ?thesis
    by simp
qed

lemma writeByte_emits: "writer_inv w \<Longrightarrow> emits w (writeByte w b) [b]"
  by (simp add: writeByte_eq writeBytes_emits)

lemma writeUint16_emits: "writer_inv w \<Longrightarrow> emits w (writeUint16 w v) (be_bytes 2 v)"
  by (simp add: writeUint16_eq writeBytes_emits)

lemma writeUint32_emits: "writer_inv w \<Longrightarrow> emits w (writeUint32 w v) (be_bytes 4 v)"
  by (simp add: writeUint32_eq writeBytes_emits)

interpretation byte_op: sink_op writeByte "\<lambda>b. [b]"
  by unfold_locales (rule writeByte_emits)

interpretation uint16_op: sink_op writeUint16 "be_bytes 2"
  by unfold_locales (rule writeUint16_emits)

interpretation uint32_op: sink_op writeUint32 "be_bytes 4"
  by unfold_locales (rule writeUint32_emits)

lemma writeUint64_emits:
  assumes "writer_inv w"
  shows "emits w (writeUint64 w v) (be_bytes 8 v)"
proof -
  have "v - v div UINT32_BASE * UINT32_BASE = v mod 256 ^ 4"
    by (simp add: UINT32_BASE_def minus_div_mult_eq_mod)
  moreover have "be_bytes 8 v = be_bytes 4 (v div UINT32_BASE) @ be_bytes 4 (v mod 256 ^ 4)"
    using be_bytes_append [of 4 4 v] by (simp add: UINT32_BASE_def be_bytes_mod [of 4 v, simplified])
  ultimately show ?thesis
    unfolding writeUint64_def Let_def
    using uint32_op.put_then [OF assms, of "\<lambda>w. writeUint32 w (v mod 256 ^ 4)" "be_bytes 4 (v mod 256 ^ 4)"
        "v div UINT32_BASE"] writeUint32_emits
    by simp
qed

interpretation uint64_op: sink_op writeUint64 "be_bytes 8"
  by unfold_locales (rule writeUint64_emits)

lemma writeFloat64_emits:
  assumes "writer_inv w"
  shows "emits w (writeFloat64 w b) (0xfb # be_bytes 8 (unat b))"
proof -
  have "writeFloat64 w b = writeBytes w (0xfb # be_bytes 8 (unat b))"
    unfolding writeFloat64_def writeBytes_def
    by (simp, rule reserve_cong [OF assms])
      (simp add: overwrite_Cons [where ys = "be_bytes 8 (unat b)"])
  then show ?thesis
    by (simp only: writeBytes_emits [OF assms])
qed

lemma writeArgument_emits:
  assumes "writer_inv w"
  shows "emits w (writeArgument w major n) (enc_arg major n)"
  using assms byte_op.put_then [OF assms, of "\<lambda>w. writeByte w (to_byte n)" "be_bytes 1 n" "to_byte (major * 32 + 24)"]
    byte_op.put_then [OF assms, of "\<lambda>w. writeUint16 w n" "be_bytes 2 n" "to_byte (major * 32 + 25)"]
    byte_op.put_then [OF assms, of "\<lambda>w. writeUint32 w n" "be_bytes 4 n" "to_byte (major * 32 + 26)"]
    byte_op.put_then [OF assms, of "\<lambda>w. writeUint64 w n" "be_bytes 8 n" "to_byte (major * 32 + 27)"]
  by (simp add: writeArgument_def enc_arg_def arg_info_def arg_tail_def Let_def
      writeByte_emits writeUint16_emits writeUint32_emits writeUint64_emits)

interpretation argument_op: sink_op "\<lambda>w. writeArgument w major" "enc_arg major" for major
  by unfold_locales (rule writeArgument_emits)

section \<open>Numbers and text\<close>

lemma encodeNumber_emits:
  assumes "writer_inv w" and "wf_number x"
  shows "if wire_number x then emits w (encodeNumber w x) (enc_number x)
         else encodeNumber w x \<in> {Err NumberNotFinite, Err UnsafeInteger}"
proof (cases x)
  case (JInt n)
  with assms(2) have "num_is_safe_integer x"
    by (simp add: num_is_safe_integer_def)
  with JInt assms show ?thesis
    by (simp add: wire_number_def encodeNumber_def num_is_neg_zero_def writeArgument_emits)
next
  case (JFloat b)
  with assms(2) wf_number_safe_cases [of x] show ?thesis
    using writeFloat64_emits [OF assms(1), of b] float_is_integer_finite [of b]
    by (auto simp: wire_number_def encodeNumber_def)
qed

lemma encodeText_emits:
  assumes "writer_inv w"
  shows "if fits_text opts s then emits w (encodeText w s opts) (enc_text s)
         else encodeText w s opts \<in> {Err (TextTooLong (maxByteLength opts)), Err InvalidUnicode}"
  using argument_op.put_then [OF assms, of "\<lambda>w. writeBytes w (text_encode s)" "text_encode s" 3]
  by (auto simp: encodeText_def fits_text_def enc_text_def text_decode_encode Let_def writeBytes_emits)

section \<open>What a heap value represents\<close>

inductive represents :: "js_heap \<Rightarrow> js_value \<Rightarrow> cbor \<Rightarrow> bool" for h where
  rep_null: "represents h VNull CNull"
| rep_bool: "represents h (VBool b) (CBool b)"
| rep_number: "represents h (VNumber x) (CNumber x)"
| rep_string: "represents h (VString s) (CString s)"
| rep_bytes: "h a = OBytes bs \<Longrightarrow> represents h (VRef a) (CBytes bs)"
| rep_array: "h a = OArray xs \<Longrightarrow>
    list_all2 (\<lambda>x t. \<exists>v. x = Some v \<and> v \<noteq> VUndefined \<and> represents h v t) xs ts \<Longrightarrow>
    represents h (VRef a) (CArray ts)"
| rep_map: "h a = OPlain props False np \<Longrightarrow>
    list_all2 (\<lambda>p q. fst p = fst q \<and> represents h (snd p) (snd q))
      (filter (\<lambda>(k, x). x \<noteq> VUndefined) props) es \<Longrightarrow>
    represents h (VRef a) (CMap es)"

inductive_cases represents_nullE [elim!]: "represents h VNull t"
inductive_cases represents_boolE [elim!]: "represents h (VBool b) t"
inductive_cases represents_numberE [elim!]: "represents h (VNumber x) t"
inductive_cases represents_stringE [elim!]: "represents h (VString s) t"
inductive_cases represents_undefinedE [elim!]: "represents h VUndefined t"
inductive_cases represents_otherE [elim!]: "represents h (VOther ty) t"
inductive_cases represents_refE: "represents h (VRef a) t"
inductive_cases represents_bytesE: "represents h v (CBytes bs)"
inductive_cases represents_arrayE: "represents h v (CArray ts)"
inductive_cases represents_mapE: "represents h v (CMap es)"

text \<open>
  The facts of the language about heaps: the property names of an object are distinct, and
  the numbers in it are in canonical form.
\<close>

fun wf_value :: "js_value \<Rightarrow> bool" where
  "wf_value (VNumber x) = wf_number x"
| "wf_value v = True"

fun wf_object :: "js_object \<Rightarrow> bool" where
  "wf_object (OArray xs) = (\<forall>x\<in>set xs. case x of None \<Rightarrow> True | Some v \<Rightarrow> wf_value v)"
| "wf_object (OPlain props s np) = (distinct (map fst props) \<and> (\<forall>(k, x)\<in>set props. wf_value x))"
| "wf_object ob = True"

definition wf_heap :: "js_heap \<Rightarrow> bool" where
  "wf_heap h \<longleftrightarrow> (\<forall>a. wf_object (h a))"

lemma distinct_fst_filter: "distinct (map fst ps) \<Longrightarrow> distinct (map fst (filter P ps))"
  by (simp add: distinct_map_filter)

lemma list_all2_fst: "list_all2 (\<lambda>p q. fst p = fst q \<and> P p q) ps qs \<Longrightarrow> map fst ps = map fst qs"
  by (induction ps qs rule: list_all2_induct) auto

section \<open>The encoder writes the reference layout\<close>

text \<open>What a successful run of the encoder on a value, a list of items or a list of entries did.\<close>

definition wrote :: "cbor_writer \<Rightarrow> cbor_writer \<Rightarrow> byte list \<Rightarrow> bool" where
  "wrote w w' bs \<longleftrightarrow> writer_inv w' \<and> w_max w' = w_max w \<and> finish w' = finish w @ bs"

lemma wrote_trans: "wrote w w' bs \<Longrightarrow> wrote w' w'' cs \<Longrightarrow> wrote w w'' (bs @ cs)"
  by (simp add: wrote_def)

lemma emits_wrote: "emits w (Ok w') bs \<Longrightarrow> wrote w w' bs"
  using emits_Ok [of w "Ok w'" bs w'] by (simp add: wrote_def)

lemma encodeText_wrote:
  "writer_inv w \<Longrightarrow> encodeText w s opts = Ok w' \<Longrightarrow> fits_text opts s \<and> wrote w w' (enc_text s)"
  using encodeText_emits [of w opts s] emits_wrote by (auto split: if_splits)

lemma encodeNumber_wrote:
  "writer_inv w \<Longrightarrow> wf_number x \<Longrightarrow> encodeNumber w x = Ok w' \<Longrightarrow>
     wire_number x \<and> wrote w w' (enc_number x)"
  using encodeNumber_emits [of w x] emits_wrote by (auto split: if_splits)

lemma argument_wrote: "writer_inv w \<Longrightarrow> writeArgument w m n = Ok w' \<Longrightarrow> wrote w w' (enc_arg m n)"
  using writeArgument_emits [of w m n] emits_wrote by auto

lemma bytes_wrote: "writer_inv w \<Longrightarrow> writeBytes w bs = Ok w' \<Longrightarrow> wrote w w' bs"
  using writeBytes_emits [of w bs] emits_wrote by auto

lemma byte_wrote: "writer_inv w \<Longrightarrow> writeByte w b = Ok w' \<Longrightarrow> wrote w w' [b]"
  using writeByte_emits [of w b] emits_wrote by auto

lemma wrote_inv: "wrote w w' bs \<Longrightarrow> writer_inv w'"
  by (simp add: wrote_def)

abbreviation item_rep :: "js_heap \<Rightarrow> js_value option \<Rightarrow> cbor \<Rightarrow> bool" where
  "item_rep h \<equiv> \<lambda>x t. \<exists>v. x = Some v \<and> v \<noteq> VUndefined \<and> represents h v t"

abbreviation entry_rep :: "js_heap \<Rightarrow> js_string \<times> js_value \<Rightarrow> js_string \<times> cbor \<Rightarrow> bool" where
  "entry_rep h \<equiv> \<lambda>p q. fst p = fst q \<and> represents h (snd p) (snd q)"

abbreviation enc_entries :: "(js_string \<times> cbor) list \<Rightarrow> byte list" where
  "enc_entries es \<equiv> concat (map (\<lambda>(k, t). enc_text k @ enc_tree t) es)"

definition value_ok :: "js_heap \<Rightarrow> resolved_options \<Rightarrow> js_value \<Rightarrow> nat \<Rightarrow> cbor_writer \<Rightarrow> cbor_writer \<Rightarrow> bool" where
  "value_ok h opts v depth w w' \<longleftrightarrow>
     (\<exists>t. represents h v t \<and> fits opts depth t \<and> wrote w w' (enc_tree t))"

definition items_ok :: "js_heap \<Rightarrow> resolved_options \<Rightarrow> js_value option list \<Rightarrow> nat \<Rightarrow> cbor_writer \<Rightarrow> cbor_writer \<Rightarrow> bool" where
  "items_ok h opts xs depth w w' \<longleftrightarrow>
     (\<exists>ts. list_all2 (item_rep h) xs ts \<and> (\<forall>t\<in>set ts. fits opts (Suc depth) t)
        \<and> wrote w w' (concat (map enc_tree ts)))"

definition entries_ok :: "js_heap \<Rightarrow> resolved_options \<Rightarrow> (js_string \<times> js_value) list \<Rightarrow> nat \<Rightarrow> cbor_writer \<Rightarrow> cbor_writer \<Rightarrow> bool" where
  "entries_ok h opts es depth w w' \<longleftrightarrow>
     (\<exists>ts. list_all2 (entry_rep h) es ts
        \<and> (\<forall>(k, t)\<in>set ts. fits_text opts k \<and> fits opts (Suc depth) t) \<and> wrote w w' (enc_entries ts))"

lemma wrote_inv_items: "items_ok h opts xs d w w' \<Longrightarrow> writer_inv w'"
  by (auto simp: items_ok_def wrote_def)

text \<open>One constructor of the value at a time.\<close>

lemma value_ok_primitive:
  assumes "writer_inv w" and "wf_value v" and "encodeValue h opts w v depth anc = Ok w'"
    and "\<And>a. v \<noteq> VRef a"
  shows "value_ok h opts v depth w w'"
proof (cases v)
  case (VNumber x)
  with assms encodeNumber_wrote [of w x w'] show ?thesis
    by (auto simp: value_ok_def encodeValue.simps intro!: exI [of _ "CNumber x"] rep_number split: if_splits)
next
  case (VString t)
  with assms encodeText_wrote [of w t opts w'] show ?thesis
    by (auto simp: value_ok_def encodeValue.simps intro!: exI [of _ "CString t"] rep_string split: if_splits)
next
  case (VBool b)
  with assms byte_wrote show ?thesis
    by (auto simp: value_ok_def encodeValue.simps intro!: exI [of _ "CBool b"] rep_bool split: if_splits)
next
  case VNull
  with assms byte_wrote show ?thesis
    by (auto simp: value_ok_def encodeValue.simps intro!: exI [of _ "CNull"] rep_null split: if_splits)
qed (use assms in \<open>auto simp: encodeValue.simps split: if_splits\<close>)

lemma value_ok_bytes:
  assumes "writer_inv w" and "encodeValue h opts w (VRef a) depth anc = Ok w'" and "h a = OBytes bs"
  shows "value_ok h opts (VRef a) depth w w'"
proof -
  from assms obtain w1 where w1: "writeArgument w 2 (length bs) = Ok w1" "writeBytes w1 bs = Ok w'"
      and "length bs \<le> maxByteLength opts" "depth \<le> maxDepth opts"
    by (auto simp: encodeValue.simps res_simps split: if_splits)
  moreover have "wrote w w' (enc_arg 2 (length bs) @ bs)"
    using assms(1) w1 by (metis argument_wrote bytes_wrote wrote_inv wrote_trans)
  ultimately show ?thesis
    using assms(3) by (auto simp: value_ok_def intro!: exI [of _ "CBytes bs"] rep_bytes)
qed

lemma value_ok_array:
  assumes "wrote w w1 (enc_arg 4 (length xs))" and "items_ok h opts xs depth w1 w'"
    and "h a = OArray xs" and "length xs \<le> maxContainerLength opts" and "depth \<le> maxDepth opts"
  shows "value_ok h opts (VRef a) depth w w'"
proof -
  from assms(2) obtain ts where ts: "list_all2 (item_rep h) xs ts"
      "\<forall>t\<in>set ts. fits opts (Suc depth) t" "wrote w1 w' (concat (map enc_tree ts))"
    by (auto simp: items_ok_def)
  have "length xs = length ts"
    using ts(1) by (rule list_all2_lengthD)
  moreover have "wrote w w' (enc_arg 4 (length xs) @ concat (map enc_tree ts))"
    using assms(1) ts(3) by (rule wrote_trans)
  ultimately show ?thesis
    using assms ts rep_array [of h a xs ts] by (auto simp: value_ok_def intro!: exI [of _ "CArray ts"])
qed

lemma value_ok_map:
  assumes "wrote w w1 (enc_arg 5 (length es))" and "entries_ok h opts es depth w1 w'"
    and "h a = OPlain props False np" and "es = filter (\<lambda>(k, x). x \<noteq> VUndefined) props"
    and "distinct (map fst es)" and "length es \<le> maxContainerLength opts" and "depth \<le> maxDepth opts"
  shows "value_ok h opts (VRef a) depth w w'"
proof -
  from assms(2) obtain ts where ts: "list_all2 (entry_rep h) es ts"
      "\<forall>(k, t)\<in>set ts. fits_text opts k \<and> fits opts (Suc depth) t" "wrote w1 w' (enc_entries ts)"
    by (auto simp: entries_ok_def)
  have "map fst es = map fst ts" "length es = length ts"
    using list_all2_fst [OF ts(1)] list_all2_lengthD [OF ts(1)] by auto
  moreover have "wrote w w' (enc_arg 5 (length es) @ enc_entries ts)"
    using assms(1) ts(3) by (rule wrote_trans)
  ultimately show ?thesis
    using assms ts rep_map [of h a props np ts] by (auto simp: value_ok_def intro!: exI [of _ "CMap ts"])
qed

lemma items_ok_Cons:
  assumes "value_ok h opts v (Suc depth) w w1" and "items_ok h opts xs depth w1 w'" and "v \<noteq> VUndefined"
  shows "items_ok h opts (Some v # xs) depth w w'"
proof -
  from assms obtain t ts where "represents h v t" "fits opts (Suc depth) t" "wrote w w1 (enc_tree t)"
      "list_all2 (item_rep h) xs ts" "\<forall>t\<in>set ts. fits opts (Suc depth) t"
      "wrote w1 w' (concat (map enc_tree ts))"
    by (auto simp: value_ok_def items_ok_def)
  with assms(3) show ?thesis
    by (auto simp: items_ok_def intro!: exI [of _ "t # ts"] intro: wrote_trans)
qed

lemma entries_ok_Cons:
  assumes "fits_text opts k" and "wrote w w1 (enc_text k)" and "value_ok h opts v (Suc depth) w1 w2"
    and "entries_ok h opts es depth w2 w'"
  shows "entries_ok h opts ((k, v) # es) depth w w'"
proof -
  from assms obtain t ts where "represents h v t" "fits opts (Suc depth) t" "wrote w1 w2 (enc_tree t)"
      "list_all2 (entry_rep h) es ts" "\<forall>(k, t)\<in>set ts. fits_text opts k \<and> fits opts (Suc depth) t"
      "wrote w2 w' (enc_entries ts)"
    by (auto simp: value_ok_def entries_ok_def)
  moreover have "wrote w w' ((enc_text k @ enc_tree t) @ enc_entries ts)"
    by (rule wrote_trans [OF wrote_trans [OF assms(2) calculation(3)] calculation(6)])
  ultimately show ?thesis
    using assms(1) by (auto simp: entries_ok_def intro!: exI [of _ "(k, t) # ts"])
qed

lemma encodeValue_arrayD:
  assumes "encodeValue h opts w (VRef a) depth anc = Ok w'" and "h a = OArray xs"
  obtains w1 where "a \<notin> anc" "length xs \<le> maxContainerLength opts" "depth \<le> maxDepth opts"
    "writeArgument w 4 (length xs) = Ok w1" "encodeItems h opts w1 xs depth (insert a anc) = Ok w'"
  using assms by (auto simp: encodeValue.simps res_simps split: if_splits)

lemma encodeValue_plainD:
  assumes "encodeValue h opts w (VRef a) depth anc = Ok w'" and "h a = OPlain props esym np"
    and "es = filter (\<lambda>(k, x). x \<noteq> VUndefined) props"
  obtains w1 where "a \<notin> anc" "\<not> esym" "length es \<le> maxContainerLength opts" "depth \<le> maxDepth opts"
    "writeArgument w 5 (length es) = Ok w1" "encodeEntries h opts w1 es depth (insert a anc) = Ok w'"
  using assms by (auto simp: encodeValue.simps res_simps Let_def split: if_splits)

lemma wf_heap_array: "wf_heap h \<Longrightarrow> h a = OArray xs \<Longrightarrow>
    \<forall>x\<in>set xs. case x of None \<Rightarrow> True | Some v \<Rightarrow> wf_value v"
  by (metis wf_heap_def wf_object.simps(1))

lemma wf_heap_plain:
  assumes "wf_heap h" and "h a = OPlain props esym np" and "es = filter (\<lambda>(k, x). x \<noteq> VUndefined) props"
  shows "\<forall>(k, x)\<in>set es. wf_value x" and "distinct (map fst es)"
proof -
  have "wf_object (OPlain props esym np)"
    using assms by (metis wf_heap_def)
  then show "\<forall>(k, x)\<in>set es. wf_value x" and "distinct (map fst es)"
    using assms(3) by (auto simp: distinct_fst_filter)
qed

lemma encode_sound:
  shows "writer_inv w \<Longrightarrow> wf_heap h \<Longrightarrow> wf_value v \<Longrightarrow> encodeValue h opts w v depth anc = Ok w' \<Longrightarrow>
      value_ok h opts v depth w w'"
    and "writer_inv w \<Longrightarrow> wf_heap h \<Longrightarrow> (\<forall>x\<in>set xs. case x of None \<Rightarrow> True | Some v \<Rightarrow> wf_value v) \<Longrightarrow>
      encodeItems h opts w xs depth anc = Ok w' \<Longrightarrow> items_ok h opts xs depth w w'"
    and "writer_inv w \<Longrightarrow> wf_heap h \<Longrightarrow> (\<forall>(k, x)\<in>set es. wf_value x) \<Longrightarrow>
      encodeEntries h opts w es depth anc = Ok w' \<Longrightarrow> entries_ok h opts es depth w w'"
proof (induction h opts w v depth anc and h opts w xs depth anc and h opts w es depth anc
    arbitrary: w' and w' and w' rule: encodeValue_encodeItems_encodeEntries.induct)
  case (1 h opts w v depth anc)
  note prems = "1.prems"
  show ?case
  proof (cases "\<exists>a. v = VRef a")
    case True
    then obtain a where v: "v = VRef a" ..
    show ?thesis
    proof (cases "h a")
      case (OArray xs)
      with prems(4) v obtain w1 where w1: "a \<notin> anc" "length xs \<le> maxContainerLength opts"
          "depth \<le> maxDepth opts" "writeArgument w 4 (length xs) = Ok w1"
          "encodeItems h opts w1 xs depth (insert a anc) = Ok w'"
        by (auto elim: encodeValue_arrayD)
      have arg: "wrote w w1 (enc_arg 4 (length xs))"
        using prems(1) w1(4) by (rule argument_wrote)
      from "1.IH"(1) [OF _ v OArray w1(1) _ w1(4) wrote_inv [OF arg] prems(2)
          wf_heap_array [OF prems(2) OArray] w1(5)] w1 arg OArray v show ?thesis
        by (auto intro: value_ok_array)
    next
      case (OPlain props esym np)
      define es where "es = filter (\<lambda>(k, x). x \<noteq> VUndefined) props"
      from encodeValue_plainD [OF prems(4) [unfolded v] OPlain es_def]
      obtain w1 where w1: "a \<notin> anc" "\<not> esym" "length es \<le> maxContainerLength opts"
          "depth \<le> maxDepth opts" "writeArgument w 5 (length es) = Ok w1"
          "encodeEntries h opts w1 es depth (insert a anc) = Ok w'" .
      have arg: "wrote w w1 (enc_arg 5 (length es))"
        using prems(1) w1(5) by (rule argument_wrote)
      note wf = wf_heap_plain [OF prems(2) OPlain es_def]
      from "1.IH"(2) [OF _ v OPlain w1(1,2) es_def _ w1(5) wrote_inv [OF arg] prems(2) wf(1) w1(6)]
        w1 arg OPlain v wf(2) show ?thesis
        by (auto intro: value_ok_map simp: es_def)
    qed (use prems v in \<open>auto intro: value_ok_bytes simp: encodeValue.simps split: if_splits\<close>)
  qed (use prems in \<open>auto intro: value_ok_primitive\<close>)
next
  case (3 h opts w x xs depth anc)
  from "3.prems"(4) obtain v w1 where v: "x = Some v" "v \<noteq> VUndefined"
      "encodeValue h opts w v (Suc depth) anc = Ok w1" "encodeItems h opts w1 xs depth anc = Ok w'"
    by (auto simp: res_simps split: option.splits if_splits)
  from "3.IH"(1) [OF v(1,2) "3.prems"(1,2) _ v(3)] "3.prems"(3) v(1)
  have t: "value_ok h opts v (Suc depth) w w1"
    by auto
  then have "writer_inv w1"
    by (auto simp: value_ok_def wrote_def)
  from "3.IH"(2) [OF v(1,2,3) this "3.prems"(2) _ v(4)] "3.prems"(3) t v show ?case
    by (auto intro: items_ok_Cons)
next
  case (5 h opts w k v es depth anc)
  from "5.prems"(4) obtain w1 w2 where w: "encodeText w k opts = Ok w1"
      "encodeValue h opts w1 v (Suc depth) anc = Ok w2" "encodeEntries h opts w2 es depth anc = Ok w'"
    by (auto simp: res_simps)
  from encodeText_wrote [OF "5.prems"(1) w(1)] have k: "fits_text opts k" "wrote w w1 (enc_text k)"
    by auto
  from "5.IH"(1) [OF w(1) wrote_inv [OF k(2)] "5.prems"(2) _ w(2)] "5.prems"(3)
  have t: "value_ok h opts v (Suc depth) w1 w2"
    by auto
  then have "writer_inv w2"
    by (auto simp: value_ok_def wrote_def)
  from "5.IH"(2) [OF w(1,2) this "5.prems"(2) _ w(3)] "5.prems"(3) t k show ?case
    by (auto intro: entries_ok_Cons)
qed (auto simp: wrote_def items_ok_def entries_ok_def)

section \<open>The encoder accepts every fitting value\<close>

lemma list_all2_unique:
  "list_all2 (\<lambda>x y. P x y \<and> (\<forall>z. P x z \<longrightarrow> y = z)) xs ys \<Longrightarrow> list_all2 P xs zs \<Longrightarrow> ys = zs"
  by (induction xs ys arbitrary: zs rule: list_all2_induct) (auto simp: list_all2_Cons1)

lemma represents_unique: "represents h v t \<Longrightarrow> represents h v t' \<Longrightarrow> t = t'"
proof (induction arbitrary: t' rule: represents.induct)
  case (rep_bytes a bs)
  from rep_bytes(2) rep_bytes(1) show ?case
    by (auto elim!: represents_refE)
next
  case (rep_array a xs ts)
  from rep_array(3) rep_array(1) obtain ts' where ts': "t' = CArray ts'" "list_all2 (item_rep h) xs ts'"
    by (auto elim!: represents_refE)
  have "list_all2 (\<lambda>x t. item_rep h x t \<and> (\<forall>z. item_rep h x z \<longrightarrow> t = z)) xs ts"
    using rep_array(2) by (rule list_all2_mono) auto
  then have "ts = ts'"
    using ts'(2) by (rule list_all2_unique)
  with ts'(1) show ?case
    by simp
next
  case (rep_map a props np es)
  define ps where "ps = filter (\<lambda>(k, x). x \<noteq> VUndefined) props"
  from rep_map(3) rep_map(1) obtain es' where es': "t' = CMap es'" "list_all2 (entry_rep h) ps es'"
    by (auto elim!: represents_refE simp: ps_def)
  have "list_all2 (\<lambda>p q. entry_rep h p q \<and> (\<forall>z. entry_rep h p z \<longrightarrow> q = z)) ps es"
    using rep_map(2) unfolding ps_def by (rule list_all2_mono) (auto simp: prod_eq_iff)
  then have "es = es'"
    using es'(2) by (rule list_all2_unique)
  with es'(1) show ?case
    by simp
qed auto

definition room :: "cbor_writer \<Rightarrow> byte list \<Rightarrow> bool" where
  "room w bs \<longleftrightarrow> writer_inv w \<and> length (finish w) + length bs \<le> w_max w"

lemma emits_room: "emits w r bs \<Longrightarrow> room w bs \<Longrightarrow> \<exists>w'. r = Ok w' \<and> wrote w w' bs"
  by (auto simp: emits_def room_def wrote_def)

lemma room_appendD: "room w (bs @ cs) \<Longrightarrow> room w bs"
  by (auto simp: room_def)

lemma room_wrote: "room w (bs @ cs) \<Longrightarrow> wrote w w' bs \<Longrightarrow> room w' cs"
  by (auto simp: room_def wrote_def)

lemma argument_room: "room w (enc_arg m n @ bs) \<Longrightarrow>
    \<exists>w'. writeArgument w m n = Ok w' \<and> wrote w w' (enc_arg m n) \<and> room w' bs"
  using emits_room [OF writeArgument_emits, of w m n]
  by (metis room_appendD room_def room_wrote)

lemma text_room: "room w (enc_text s @ bs) \<Longrightarrow> fits_text opts s \<Longrightarrow>
    \<exists>w'. encodeText w s opts = Ok w' \<and> wrote w w' (enc_text s) \<and> room w' bs"
  using emits_room [of w "encodeText w s opts" "enc_text s"] encodeText_emits [of w opts s]
  by (metis room_appendD room_def room_wrote)

definition encodes :: "js_heap \<Rightarrow> resolved_options \<Rightarrow> nat \<Rightarrow> nat set \<Rightarrow> cbor \<Rightarrow> bool" where
  "encodes h opts d anc t \<longleftrightarrow>
     (\<forall>v w. represents h v t \<longrightarrow> room w (enc_tree t) \<longrightarrow>
        (\<exists>w'. encodeValue h opts w v d anc = Ok w' \<and> wrote w w' (enc_tree t)))"

lemma encodesD:
  "encodes h opts d anc t \<Longrightarrow> represents h v t \<Longrightarrow> room w (enc_tree t) \<Longrightarrow>
     \<exists>w'. encodeValue h opts w v d anc = Ok w' \<and> wrote w w' (enc_tree t)"
  by (auto simp: encodes_def)

lemma items_complete:
  assumes "list_all2 (item_rep h) xs ts" and "\<forall>t\<in>set ts. encodes h opts (Suc d) anc t"
    and "room w (concat (map enc_tree ts))"
  shows "\<exists>w'. encodeItems h opts w xs d anc = Ok w' \<and> wrote w w' (concat (map enc_tree ts))"
  using assms
proof (induction xs ts arbitrary: w rule: list_all2_induct)
  case Nil
  then show ?case by (auto simp: wrote_def room_def)
next
  case (Cons x xs t ts)
  then obtain v where v: "x = Some v" "v \<noteq> VUndefined" "represents h v t"
    by auto
  from Cons.prems v obtain w1 where w1: "encodeValue h opts w v (Suc d) anc = Ok w1" "wrote w w1 (enc_tree t)"
    by (auto dest!: encodesD room_appendD)
  from Cons.prems(2) w1(2) have "room w1 (concat (map enc_tree ts))"
    by (auto dest: room_wrote)
  with Cons.IH [of w1] Cons.prems(1) obtain w' where
      "encodeItems h opts w1 xs d anc = Ok w'" "wrote w1 w' (concat (map enc_tree ts))"
    by auto
  with v w1 show ?case
    by (auto dest: wrote_trans)
qed

lemma entries_complete:
  assumes "list_all2 (entry_rep h) es ts"
    and "\<forall>(k, t)\<in>set ts. fits_text opts k \<and> encodes h opts (Suc d) anc t" and "room w (enc_entries ts)"
  shows "\<exists>w'. encodeEntries h opts w es d anc = Ok w' \<and> wrote w w' (enc_entries ts)"
  using assms
proof (induction es ts arbitrary: w rule: list_all2_induct)
  case Nil
  then show ?case by (auto simp: wrote_def room_def)
next
  case (Cons p es q ts)
  obtain k v t where kvt: "p = (k, v)" "q = (k, t)" "represents h v t"
    using Cons.hyps(1) by (cases p; cases q) auto
  from Cons.prems kvt obtain w1 where w1: "encodeText w k opts = Ok w1" "wrote w w1 (enc_text k)"
      "room w1 (enc_tree t @ enc_entries ts)"
    using text_room [of w k "enc_tree t @ enc_entries ts" opts] by auto
  from Cons.prems kvt w1(3) obtain w2 where w2: "encodeValue h opts w1 v (Suc d) anc = Ok w2"
      "wrote w1 w2 (enc_tree t)" "room w2 (enc_entries ts)"
    using encodesD [of h opts "Suc d" anc t v w1] room_appendD [OF w1(3)] room_wrote [OF w1(3)] by auto
  with Cons.IH [of w2] Cons.prems(1) obtain w' where
      w': "encodeEntries h opts w2 es d anc = Ok w'" "wrote w2 w' (enc_entries ts)"
    by auto
  have "wrote w w' ((enc_text k @ enc_tree t) @ enc_entries ts)"
    by (rule wrote_trans [OF wrote_trans [OF w1(2) w2(2)] w'(2)])
  with kvt w1 w2 w' show ?case
    by simp
qed

text \<open>
  The references on the path from the root: each unfolds to a strictly larger tree, so a
  fitting value never meets one of its ancestors again.
\<close>

definition path_above :: "js_heap \<Rightarrow> nat set \<Rightarrow> cbor \<Rightarrow> bool" where
  "path_above h anc t \<longleftrightarrow> (\<forall>a\<in>anc. \<exists>ta. represents h (VRef a) ta \<and> size t < size ta)"

lemma path_above_not_mem: "path_above h anc t \<Longrightarrow> represents h (VRef a) t \<Longrightarrow> a \<notin> anc"
  unfolding path_above_def by (metis less_irrefl represents_unique)

lemma path_above_child:
  "path_above h anc t \<Longrightarrow> represents h (VRef a) t \<Longrightarrow> size s < size t \<Longrightarrow> path_above h (insert a anc) s"
  by (auto simp: path_above_def intro: less_trans)

lemma encode_array_complete:
  assumes "represents h (VRef a) (CArray ts)" and "fits opts d (CArray ts)"
    and "path_above h anc (CArray ts)" and "room w (enc_tree (CArray ts))"
    and "\<forall>t\<in>set ts. encodes h opts (Suc d) (insert a anc) t"
  shows "\<exists>w'. encodeValue h opts w (VRef a) d anc = Ok w' \<and> wrote w w' (enc_tree (CArray ts))"
proof -
  from assms(1) obtain xs where xs: "h a = OArray xs" "list_all2 (item_rep h) xs ts"
    by (auto elim: represents_refE)
  from assms(4) obtain w1 where w1: "writeArgument w 4 (length ts) = Ok w1"
      "wrote w w1 (enc_arg 4 (length ts))" "room w1 (concat (map enc_tree ts))"
    using argument_room [of w 4 "length ts"] by auto
  from items_complete [OF xs(2) assms(5) w1(3)] obtain w' where
      "encodeItems h opts w1 xs d (insert a anc) = Ok w'" "wrote w1 w' (concat (map enc_tree ts))"
    by auto
  with w1 xs assms(2) path_above_not_mem [OF assms(3,1)] list_all2_lengthD [OF xs(2)] show ?thesis
    by (auto simp: encodeValue.simps intro: wrote_trans)
qed

lemma encode_map_complete:
  assumes "represents h (VRef a) (CMap es)" and "fits opts d (CMap es)"
    and "path_above h anc (CMap es)" and "room w (enc_tree (CMap es))"
    and "\<forall>(k, t)\<in>set es. encodes h opts (Suc d) (insert a anc) t"
  shows "\<exists>w'. encodeValue h opts w (VRef a) d anc = Ok w' \<and> wrote w w' (enc_tree (CMap es))"
proof -
  from assms(1) obtain props np where props: "h a = OPlain props False np"
      "list_all2 (entry_rep h) (filter (\<lambda>(k, x). x \<noteq> VUndefined) props) es"
    by (auto elim: represents_refE)
  from assms(4) obtain w1 where w1: "writeArgument w 5 (length es) = Ok w1"
      "wrote w w1 (enc_arg 5 (length es))" "room w1 (enc_entries es)"
    using argument_room [of w 5 "length es"] by auto
  have "\<forall>(k, t)\<in>set es. fits_text opts k \<and> encodes h opts (Suc d) (insert a anc) t"
    using assms(2,5) by auto
  from entries_complete [OF props(2) this w1(3)] obtain w' where
      "encodeEntries h opts w1 (filter (\<lambda>(k, x). x \<noteq> VUndefined) props) d (insert a anc) = Ok w'"
      "wrote w1 w' (enc_entries es)"
    by auto
  with w1 props assms(2) path_above_not_mem [OF assms(3,1)] list_all2_lengthD [OF props(2)] show ?thesis
    by (auto simp: encodeValue.simps Let_def intro: wrote_trans)
qed

lemma encode_bytes_complete:
  assumes "represents h v (CBytes bs)" and "fits opts d (CBytes bs)" and "room w (enc_tree (CBytes bs))"
  shows "\<exists>w'. encodeValue h opts w v d anc = Ok w' \<and> wrote w w' (enc_tree (CBytes bs))"
proof -
  from assms(1) obtain a where a: "v = VRef a" "h a = OBytes bs"
    by (auto elim: represents_bytesE)
  from assms(3) obtain w1 where w1: "writeArgument w 2 (length bs) = Ok w1"
      "wrote w w1 (enc_arg 2 (length bs))" "room w1 bs"
    using argument_room [of w 2 "length bs" bs] by auto
  from emits_room [OF writeBytes_emits w1(3)] w1(3) obtain w' where "writeBytes w1 bs = Ok w'" "wrote w1 w' bs"
    by (auto simp: room_def)
  with w1 a assms(2) show ?thesis
    by (auto simp: encodeValue.simps intro: wrote_trans)
qed

lemma encode_complete: "fits opts d t \<Longrightarrow> path_above h anc t \<Longrightarrow> encodes h opts d anc t"
proof (induction t arbitrary: d anc)
  case (CArray ts)
  have "encodes h opts (Suc d) (insert a anc) t"
    if "t \<in> set ts" "represents h (VRef a) (CArray ts)" for t a
    using that CArray.IH [OF that(1)] CArray.prems path_above_child [OF CArray.prems(2) that(2)]
    by (simp add: size_list_estimation less_Suc_eq_le size_list_estimation')
  then show ?case
    unfolding encodes_def [of h opts d anc] using encode_array_complete [OF _ CArray.prems]
    by (metis represents_arrayE)
next
  case (CMap es)
  have "encodes h opts (Suc d) (insert a anc) t"
    if "(k, t) \<in> set es" "represents h (VRef a) (CMap es)" for k t a
  proof -
    have "size t < size (CMap es)"
      using that(1) by (induction es) auto
    with that CMap.IH [of "(k, t)" t] CMap.prems path_above_child [OF CMap.prems(2) that(2)]
    show ?thesis
      by auto
  qed
  then have "\<forall>(k, t)\<in>set es. encodes h opts (Suc d) (insert a anc) t"
    if "represents h (VRef a) (CMap es)" for a
    using that by auto
  then show ?case
    unfolding encodes_def [of h opts d anc] using encode_map_complete [OF _ CMap.prems]
    by (metis represents_mapE)
next
  case (CBytes bs)
  then show ?case
    unfolding encodes_def [of h opts d anc] using encode_bytes_complete by blast
next
  case (CNumber x)
  then show ?case
    using emits_room [of _ "encodeNumber _ x" "enc_number x"] encodeNumber_emits [of _ x]
    by (auto simp: encodes_def encodeValue.simps room_def wire_number_def elim: represents.cases)
next
  case (CString s)
  then show ?case
    using emits_room [of _ "encodeText _ s opts" "enc_text s"] encodeText_emits [of _ opts s]
    by (auto simp: encodes_def encodeValue.simps room_def elim: represents.cases)
next
  case CNull
  then show ?case
    using emits_room [OF writeByte_emits]
    by (auto simp: encodes_def encodeValue.simps room_def elim: represents.cases)
next
  case (CBool b)
  then show ?case
    using emits_room [OF writeByte_emits]
    by (auto simp: encodes_def encodeValue.simps room_def elim: represents.cases)
qed

end
