(* ===== verification/CborRoundtrip.thy ===== *)
theory CborRoundtrip
  imports CborCorrect
begin

text \<open>
  The decoder inverts the reference layout, accepts only values within the limits, and
  together with the encoder forms a round trip.
\<close>

section \<open>Reading\<close>

lemma readByte_Cons: "drop off bs = b # rest \<Longrightarrow> readByte bs off = Ok (b, Suc off)"
  using drop_eq_ConsD [of off bs b rest] by (simp add: readByte_def)

lemma readBytes_append:
  "drop off bs = xs @ rest \<Longrightarrow> readBytes bs off (length xs) = Ok (xs, off + length xs)"
  using drop_eq_append_length [of off bs xs rest] by (simp add: readBytes_def)

lemma readUint32_be:
  assumes "drop off bs = be_bytes 4 n @ rest" and "n \<le> MAX_UINT32"
  shows "readUint32 bs off = Ok (n, off + 4)"
proof -
  have n: "n < 2 ^ 32"
    using assms(2) by (simp add: MAX_UINT32_def)
  have "readBytes bs off 4 = Ok (be_bytes 4 n, off + 4)"
    using readBytes_append [OF assms(1)] by simp
  moreover have "be_nat (be_bytes 4 n) = n"
    using n by simp
  then have "unat (be_bytes 4 n ! 0) * 0x1000000 + unat (be_bytes 4 n ! 1) * 0x10000
      + unat (be_bytes 4 n ! 2) * 0x100 + unat (be_bytes 4 n ! 3) = n"
    using be_nat_4 [of "be_bytes 4 n"] by simp
  ultimately show ?thesis
    by (simp add: readUint32_def)
qed

lemma readArgument_tail:
  assumes tail: "drop off bs = arg_tail n @ rest" and n: "int n \<le> max_safe_integer"
  shows "readArgument bs off (arg_info n) = Ok (n, off + length (arg_tail n))"
proof -
  consider "n < 24" | "24 \<le> n" "n \<le> 0xff" | "0xff < n" "n \<le> 0xffff"
    | "0xffff < n" "n \<le> MAX_UINT32" | "MAX_UINT32 < n"
    by linarith
  then show ?thesis
  proof cases
    case 1
    then show ?thesis by (simp add: readArgument_def arg_info_def arg_tail_def)
  next
    case 2
    with tail have "readByte bs off = Ok (to_byte n, Suc off)"
      by (auto simp: arg_tail_def intro: readByte_Cons)
    with 2 show ?thesis
      by (simp add: readArgument_def arg_info_def arg_tail_def)
  next
    case 3
    with tail have "readBytes bs off 2 = Ok (be_bytes 2 n, off + 2)"
      using readBytes_append [of off bs "be_bytes 2 n" rest] by (simp add: arg_tail_def)
    moreover have "unat (be_bytes 2 n ! 0) * 0x100 + unat (be_bytes 2 n ! 1) = n"
      using 3 by (simp only: be_bytes_2) simp
    ultimately show ?thesis
      using 3 by (simp add: readArgument_def arg_info_def arg_tail_def)
  next
    case 4
    with tail readUint32_be [of off bs n rest] show ?thesis
      by (simp add: readArgument_def arg_info_def arg_tail_def)
  next
    case 5
    have low: "n mod UINT32_BASE \<le> MAX_UINT32" and high: "n div UINT32_BASE \<le> 0x1fffff"
      using n by (auto simp: UINT32_BASE_def MAX_UINT32_def max_safe_integer_def)
    then have "n div UINT32_BASE \<le> MAX_UINT32"
      by (simp add: MAX_UINT32_def)
    moreover have bytes: "drop off bs = be_bytes 4 (n div UINT32_BASE) @ be_bytes 4 (n mod UINT32_BASE) @ rest"
      using tail 5 be_bytes_append [of 4 4 n] be_bytes_mod [of 4 n]
      by (simp add: arg_tail_def MAX_UINT32_def UINT32_BASE_def)
    ultimately have "readUint32 bs off = Ok (n div UINT32_BASE, off + 4)"
      by (intro readUint32_be)
    moreover have "readUint32 bs (off + 4) = Ok (n mod UINT32_BASE, off + 4 + 4)"
      using drop_eq_appendD [OF bytes] low by (intro readUint32_be) auto
    ultimately show ?thesis
      using 5 high by (simp add: readArgument_def arg_info_def arg_tail_def MAX_UINT32_def)
  qed
qed

lemma arg_info_bound: "arg_info n < 32" "arg_info n \<noteq> 31"
  by (auto simp: arg_info_def)

lemma initial_byte:
  assumes "major < 8"
  shows "unat (to_byte (major * 32 + arg_info n)) div 32 = major"
    and "unat (to_byte (major * 32 + arg_info n)) mod 32 = arg_info n"
proof -
  have "major * 32 + arg_info n < 256"
    using assms arg_info_bound(1) [of n] by linarith
  then show "unat (to_byte (major * 32 + arg_info n)) div 32 = major"
    and "unat (to_byte (major * 32 + arg_info n)) mod 32 = arg_info n"
    using arg_info_bound(1) [of n] by auto
qed

text \<open>Reading the head of an item: the initial byte and the argument that follows it.\<close>

lemma read_head:
  assumes "drop off bs = enc_arg major n @ rest" and "major < 8" and "int n \<le> max_safe_integer"
  shows "readByte bs off = Ok (to_byte (major * 32 + arg_info n), Suc off)"
    and "readArgument bs (Suc off) (arg_info n) = Ok (n, off + length (enc_arg major n))"
    and "drop (off + length (enc_arg major n)) bs = rest"
proof -
  from assms(1) have head: "drop off bs = to_byte (major * 32 + arg_info n) # arg_tail n @ rest"
    by (simp add: enc_arg_def)
  show "readByte bs off = Ok (to_byte (major * 32 + arg_info n), Suc off)"
    using head by (rule readByte_Cons)
  show "readArgument bs (Suc off) (arg_info n) = Ok (n, off + length (enc_arg major n))"
    using readArgument_tail [OF drop_eq_ConsD(3) [OF head] assms(3)] by (simp add: enc_arg_def)
  show "drop (off + length (enc_arg major n)) bs = rest"
    using assms(1) by (rule drop_eq_appendD)
qed

lemma read_length:
  assumes "drop off bs = enc_arg major n @ rest" and "major < 8" and "n \<le> limit" and "limit \<le> MAX_UINT32"
  shows "readLength bs (Suc off) (arg_info n) kind limit = Ok (n, off + length (enc_arg major n))"
proof -
  have "int n \<le> max_safe_integer"
    using assms(3,4) by (simp add: MAX_UINT32_def max_safe_integer_def)
  from read_head(2) [OF assms(1,2) this] assms(3) arg_info_bound(2) [of n] show ?thesis
    by (simp add: readLength_def)
qed

section \<open>The decoder inverts the reference layout\<close>

definition decodes :: "resolved_options \<Rightarrow> byte list \<Rightarrow> nat \<Rightarrow> cbor \<Rightarrow> bool" where
  "decodes opts bs d t \<longleftrightarrow>
     (\<forall>off rest. drop off bs = enc_tree t @ rest \<longrightarrow>
        readItem opts bs off d = Ok (t, off + length (enc_tree t)))"

lemma read_text_item:
  assumes "drop off bs = enc_text s @ rest" and "fits_text opts s" and "valid_options opts"
    and "d \<le> maxDepth opts"
  shows "readItem opts bs off d = Ok (CString s, off + length (enc_text s))"
proof -
  define n where "n = length (text_encode s)"
  have n: "n \<le> maxByteLength opts" "maxByteLength opts \<le> MAX_UINT32"
    using assms(2,3) by (auto simp: fits_text_def valid_options_def n_def)
  have head: "drop off bs = enc_arg 3 n @ text_encode s @ rest"
    using assms(1) by (simp add: enc_text_def n_def)
  have "text_decode (text_encode s) = Some s"
    using assms(2) by (simp add: fits_text_def text_decode_encode)
  moreover have "readLength bs (Suc off) (arg_info n) ''text string'' (maxByteLength opts)
      = Ok (n, off + length (enc_arg 3 n))"
    using head n by (intro read_length) auto
  moreover have "readByte bs off = Ok (to_byte (3 * 32 + arg_info n), Suc off)"
    using head by (auto simp: enc_arg_def intro: readByte_Cons)
  moreover have "readBytes bs (off + length (enc_arg 3 n)) n
      = Ok (text_encode s, off + length (enc_arg 3 n) + n)"
    using readBytes_append [OF drop_eq_appendD [OF head]] by (simp add: n_def)
  ultimately show ?thesis
    using assms(4) initial_byte [of 3 n]
    by (simp add: readItem.simps [of opts bs off d] enc_text_def n_def Let_def)
qed

lemma read_items:
  assumes "\<forall>x\<in>set xs. decodes opts bs (Suc d) x" and "drop off bs = concat (map enc_tree xs) @ rest"
  shows "readItems opts bs off d (length xs) = Ok (xs, off + length (concat (map enc_tree xs)))"
  using assms
proof (induction xs arbitrary: off)
  case Nil
  then show ?case by simp
next
  case (Cons x xs)
  from Cons.prems(2) have d: "drop off bs = enc_tree x @ concat (map enc_tree xs) @ rest"
    by simp
  with Cons.prems(1) have "readItem opts bs off (Suc d) = Ok (x, off + length (enc_tree x))"
    by (simp add: decodes_def)
  with Cons.IH [OF _ drop_eq_appendD [OF d]] Cons.prems(1) show ?case
    by (simp add: add.assoc)
qed

lemma read_entries:
  assumes "\<forall>(k, x)\<in>set es. fits_text opts k \<and> decodes opts bs (Suc d) x" and "valid_options opts"
    and "es \<noteq> [] \<Longrightarrow> Suc d \<le> maxDepth opts" and "distinct (map fst es)" and "keys \<inter> set (map fst es) = {}"
    and "drop off bs = enc_entries es @ rest"
  shows "readEntries opts bs off d (length es) keys = Ok (es, off + length (enc_entries es))"
  using assms
proof (induction es arbitrary: off keys)
  case Nil
  then show ?case by simp
next
  case (Cons e es)
  obtain k x where e: "e = (k, x)"
    by (cases e)
  from Cons.prems(6) e have d: "drop off bs = enc_text k @ enc_tree x @ enc_entries es @ rest"
    by simp
  have "readItem opts bs off (Suc d) = Ok (CString k, off + length (enc_text k))"
    using Cons.prems(1,2,3) e d by (intro read_text_item) auto
  moreover have "readItem opts bs (off + length (enc_text k)) (Suc d)
      = Ok (x, off + length (enc_text k) + length (enc_tree x))"
    using Cons.prems(1) e drop_eq_appendD [OF d] by (simp add: decodes_def)
  moreover have "readEntries opts bs (off + length (enc_text k) + length (enc_tree x)) d (length es) (insert k keys)
      = Ok (es, off + length (enc_text k) + length (enc_tree x) + length (enc_entries es))"
    using Cons.prems e drop_eq_appendD [OF drop_eq_appendD [OF d]] by (intro Cons.IH) auto
  ultimately show ?case
    using Cons.prems(5) e by (simp add: add.assoc)
qed

lemma decodes_number:
  assumes "wire_number x" and "d \<le> maxDepth opts"
  shows "decodes opts bs d (CNumber x)"
proof (cases x)
  case (JInt n)
  have safe: "int (nat n) \<le> max_safe_integer" "int (nat (- 1 - n)) \<le> max_safe_integer" "safe_int n"
    using assms(1) JInt by (auto simp: wire_number_def safe_int_def max_safe_integer_def)
  show ?thesis
    unfolding decodes_def
  proof (intro allI impI)
    fix off rest
    assume "drop off bs = enc_tree (CNumber x) @ rest"
    then have "drop off bs = (if 0 \<le> n then enc_arg 0 (nat n) else enc_arg 1 (nat (- 1 - n))) @ rest"
      using JInt by simp
    then show "readItem opts bs off d = Ok (CNumber x, off + length (enc_tree (CNumber x)))"
      using JInt assms(2) safe read_head [of off bs 0 "nat n" rest] read_head [of off bs 1 "nat (- 1 - n)" rest]
        initial_byte [of 0 "nat n"] initial_byte [of 1 "nat (- 1 - n)"]
      by (cases "0 \<le> n") (simp_all add: readItem.simps [of opts bs off d] Let_def)
  qed
next
  case (JFloat b)
  have x: "number_of_float b = JFloat b" "float_is_finite b"
      "float_is_integer b \<longrightarrow> num_is_safe_integer (JFloat b)"
    using assms(1) JFloat by (auto simp: wire_number_def)
  have b: "of_nat (be_nat (be_bytes 8 (unat b))) = b"
  proof -
    have "unat b < 2 ^ LENGTH(64)"
      by (rule unsigned_less)
    then show ?thesis
      by simp
  qed
  show ?thesis
    unfolding decodes_def
  proof (intro allI impI)
    fix off rest
    assume "drop off bs = enc_tree (CNumber x) @ rest"
    then have head: "drop off bs = 0xfb # be_bytes 8 (unat b) @ rest"
      using JFloat by simp
    have "readBytes bs (Suc off) 8 = Ok (be_bytes 8 (unat b), Suc off + 8)"
      using readBytes_append [OF drop_eq_ConsD(3) [OF head]] by simp
    with readByte_Cons [OF head] show "readItem opts bs off d = Ok (CNumber x, off + length (enc_tree (CNumber x)))"
      using JFloat assms(2) x b
      by (simp add: readItem.simps [of opts bs off d] readSimple_def Let_def)
  qed
qed

lemma decodes_simple:
  assumes "d \<le> maxDepth opts"
  shows "decodes opts bs d CNull" and "decodes opts bs d (CBool b)"
  using assms
  by (auto simp: decodes_def readItem.simps [of opts bs _ d] readSimple_def Let_def dest!: readByte_Cons)

lemma decodes_bytes:
  assumes "fits opts d (CBytes xs)" and "valid_options opts"
  shows "decodes opts bs d (CBytes xs)"
  unfolding decodes_def
proof (intro allI impI)
  fix off rest
  assume "drop off bs = enc_tree (CBytes xs) @ rest"
  then have head: "drop off bs = enc_arg 2 (length xs) @ xs @ rest"
    by simp
  have "readByte bs off = Ok (to_byte (2 * 32 + arg_info (length xs)), Suc off)"
    using head by (auto simp: enc_arg_def intro: readByte_Cons)
  moreover have "readLength bs (Suc off) (arg_info (length xs)) ''byte string'' (maxByteLength opts)
      = Ok (length xs, off + length (enc_arg 2 (length xs)))"
    using head assms by (intro read_length) (auto simp: valid_options_def)
  moreover note readBytes_append [OF drop_eq_appendD [OF head]]
  ultimately show "readItem opts bs off d = Ok (CBytes xs, off + length (enc_tree (CBytes xs)))"
    using assms(1) initial_byte [of 2 "length xs"]
    by (simp add: readItem.simps [of opts bs off d] Let_def add.assoc)
qed

lemma decodes_array:
  assumes "fits opts d (CArray xs)" and "valid_options opts" and "\<forall>x\<in>set xs. decodes opts bs (Suc d) x"
  shows "decodes opts bs d (CArray xs)"
  unfolding decodes_def
proof (intro allI impI)
  fix off rest
  assume "drop off bs = enc_tree (CArray xs) @ rest"
  then have head: "drop off bs = enc_arg 4 (length xs) @ concat (map enc_tree xs) @ rest"
    by simp
  have "readByte bs off = Ok (to_byte (4 * 32 + arg_info (length xs)), Suc off)"
    using head by (auto simp: enc_arg_def intro: readByte_Cons)
  moreover have "readLength bs (Suc off) (arg_info (length xs)) ''array'' (maxContainerLength opts)
      = Ok (length xs, off + length (enc_arg 4 (length xs)))"
    using head assms by (intro read_length) (auto simp: valid_options_def)
  moreover note read_items [OF assms(3) drop_eq_appendD [OF head]]
  ultimately show "readItem opts bs off d = Ok (CArray xs, off + length (enc_tree (CArray xs)))"
    using assms(1) initial_byte [of 4 "length xs"]
    by (simp add: readItem.simps [of opts bs off d] Let_def add.assoc)
qed

lemma decodes_map:
  assumes "fits opts d (CMap es)" and "valid_options opts"
    and "\<forall>(k, x)\<in>set es. fits_text opts k \<and> decodes opts bs (Suc d) x"
  shows "decodes opts bs d (CMap es)"
  unfolding decodes_def
proof (intro allI impI)
  fix off rest
  assume "drop off bs = enc_tree (CMap es) @ rest"
  then have head: "drop off bs = enc_arg 5 (length es) @ enc_entries es @ rest"
    by simp
  have "readByte bs off = Ok (to_byte (5 * 32 + arg_info (length es)), Suc off)"
    using head by (auto simp: enc_arg_def intro: readByte_Cons)
  moreover have "readLength bs (Suc off) (arg_info (length es)) ''map'' (maxContainerLength opts)
      = Ok (length es, off + length (enc_arg 5 (length es)))"
    using head assms by (intro read_length) (auto simp: valid_options_def)
  moreover have "es \<noteq> [] \<Longrightarrow> Suc d \<le> maxDepth opts"
    using assms(1) fits_depth by (cases es) auto
  with assms have "readEntries opts bs (off + length (enc_arg 5 (length es))) d (length es) {}
      = Ok (es, off + length (enc_arg 5 (length es)) + length (enc_entries es))"
    by (intro read_entries [OF _ _ _ _ _ drop_eq_appendD [OF head]]) auto
  ultimately show "readItem opts bs off d = Ok (CMap es, off + length (enc_tree (CMap es)))"
    using assms(1) initial_byte [of 5 "length es"]
    by (simp add: readItem.simps [of opts bs off d] Let_def add.assoc)
qed

lemma decodes_fits: "fits opts d t \<Longrightarrow> valid_options opts \<Longrightarrow> decodes opts bs d t"
proof (induction t arbitrary: d)
  case (CString s)
  then show ?case
    by (auto simp: decodes_def intro: read_text_item)
next
  case (CArray xs)
  then show ?case
    by (intro decodes_array) auto
next
  case (CMap es)
  have "\<forall>(k, x)\<in>set es. fits_text opts k \<and> decodes opts bs (Suc d) x"
  proof (clarify, intro conjI)
    fix k x
    assume kx: "(k, x) \<in> set es"
    with CMap.prems(1) show "fits_text opts k"
      by auto
    have "fits opts (Suc d) x"
      using kx CMap.prems(1) by auto
    then show "decodes opts bs (Suc d) x"
      using CMap.IH [OF kx, of x] CMap.prems(2) by simp
  qed
  with CMap.prems show ?case
    by (intro decodes_map)
qed (simp_all add: decodes_simple decodes_number decodes_bytes)

lemma decodeCbor_enc_tree:
  assumes "resolveOptions options = Ok opts" and "fits opts 0 t" and "length (enc_tree t) \<le> maxByteLength opts"
  shows "decodeCbor (enc_tree t) options = Ok t"
proof -
  have "decodes opts (enc_tree t) 0 t"
    using assms(2) resolveOptions_valid [OF assms(1)] by (rule decodes_fits)
  then have "readItem opts (enc_tree t) 0 0 = Ok (t, length (enc_tree t))"
    by (auto simp: decodes_def)
  with assms(1,3) show ?thesis
    by (simp add: decodeCbor_def)
qed

section \<open>The encoder's specification\<close>

lemma new_writer_inv [simp]: "writer_inv (new_writer m)" "finish (new_writer m) = []" "w_max (new_writer m) = m"
  by (simp_all add: new_writer_def writer_inv_def finish_def)

lemma encodeCbor_Ok_iff:
  assumes "resolveOptions options = Ok opts" and "wf_heap h" and "wf_value v"
  shows "encodeCbor h v options = Ok bs \<longleftrightarrow>
    (\<exists>t. represents h v t \<and> fits opts 0 t \<and> length (enc_tree t) \<le> maxByteLength opts \<and> bs = enc_tree t)"
    (is "?enc \<longleftrightarrow> (\<exists>t. ?spec t)")
proof
  assume ?enc
  then obtain w where w: "encodeValue h opts (new_writer (maxByteLength opts)) v 0 {} = Ok w" "bs = finish w"
    using assms(1) by (auto simp: encodeCbor_def res_simps)
  have "value_ok h opts v 0 (new_writer (maxByteLength opts)) w"
    using w(1) assms(2,3) by (intro encode_sound(1)) auto
  then obtain t where t: "represents h v t" "fits opts 0 t" "wrote (new_writer (maxByteLength opts)) w (enc_tree t)"
    by (auto simp: value_ok_def)
  then have out: "finish w = enc_tree t" and inv: "writer_inv w" and max: "w_max w = maxByteLength opts"
    by (auto simp: wrote_def)
  have "length (finish w) \<le> maxByteLength opts"
    using inv max by (auto simp: writer_inv_def)
  with out have "?spec t"
    using t(1,2) w(2) by metis
  then show "\<exists>t. ?spec t" ..
next
  assume "\<exists>t. ?spec t"
  then obtain t where t: "represents h v t" "fits opts 0 t" "length (enc_tree t) \<le> maxByteLength opts" "bs = enc_tree t"
    by auto
  then have "encodes h opts 0 {} t"
    by (intro encode_complete) (simp_all add: path_above_def)
  moreover have "room (new_writer (maxByteLength opts)) (enc_tree t)"
    using t(3) by (simp add: room_def)
  ultimately obtain w where "encodeValue h opts (new_writer (maxByteLength opts)) v 0 {} = Ok w"
      "wrote (new_writer (maxByteLength opts)) w (enc_tree t)"
    using t(1) by (auto dest: encodesD)
  with assms(1) t(4) show ?enc
    by (auto simp: encodeCbor_def wrote_def)
qed

end
