(* ===== verification/CborSafety.thy ===== *)
theory CborSafety
  imports CborRoundtrip
begin

text \<open>
  What the CBOR component promises to its clients: the round trip, the exact domain of the
  encoder, that the decoder yields only values within the configured limits (so a decoded
  value can be sent again), and that a cyclic value is refused.
\<close>

section \<open>The decoder enforces the limits\<close>

lemma readBytes_length: "readBytes bs off n = Ok (xs, off') \<Longrightarrow> length xs = n"
  by (auto simp: readBytes_def split: if_splits)

lemma readUint32_bound: "readUint32 bs off = Ok (n, off') \<Longrightarrow> n < 2 ^ 32"
proof -
  assume "readUint32 bs off = Ok (n, off')"
  then obtain b where "readBytes bs off 4 = Ok (b, off')"
    and n: "n = unat (b ! 0) * 0x1000000 + unat (b ! 1) * 0x10000 + unat (b ! 2) * 0x100 + unat (b ! 3)"
    by (auto simp: readUint32_def res_simps)
  then have "length b = 4"
    by (auto dest: readBytes_length)
  then have "n = be_nat b"
    using n by (simp add: be_nat_4)
  then show ?thesis
    using be_nat_less [of b] \<open>length b = 4\<close> by simp
qed

lemma readArgument_wide:
  assumes "readUint32 bs off = Ok (high, off')" "readUint32 bs off' = Ok (low, off'')" "high \<le> 0x1fffff"
  shows "int (high * UINT32_BASE + low) \<le> max_safe_integer"
  using readUint32_bound [OF assms(2)] assms(3) by (simp add: UINT32_BASE_def max_safe_integer_def)

lemma readArgument_safe:
  assumes "readArgument bs off info = Ok (n, off')"
  shows "int n \<le> max_safe_integer"
proof -
  have less: "unat (b :: byte) < 256" for b
    using unat_byte_less [of b] by simp
  have pair: "unat a * 256 + unat b < 65536" for a b :: byte
    using less [of a] less [of b] by linarith
  consider "info < 24" | "info = 24" | "info = 25" | "info = 26" | "info = 27" | "27 < info"
    by linarith
  then show ?thesis
  proof cases
    case 2
    then show ?thesis
      using assms less by (auto simp: readArgument_def res_simps max_safe_integer_def less_imp_le
          intro: order.trans [of _ 256])
  next
    case 3
    then obtain a b where "n = unat (a :: byte) * 256 + unat (b :: byte)"
      using assms by (auto simp: readArgument_def res_simps)
    then have "n < 65536"
      using pair by simp
    then show ?thesis
      by (simp add: max_safe_integer_def)
  next
    case 4
    then show ?thesis
      using assms readUint32_bound [of bs off n off'] by (simp add: readArgument_def max_safe_integer_def)
  next
    case 5
    then obtain high low o2 where "readUint32 bs off = Ok (high, o2)" "readUint32 bs o2 = Ok (low, off')"
      "high \<le> 0x1fffff" "n = high * UINT32_BASE + low"
      using assms by (auto simp: readArgument_def res_simps split: if_splits)
    then show ?thesis
      using readArgument_wide by blast
  qed (use assms in \<open>auto simp: readArgument_def max_safe_integer_def split: if_splits\<close>)
qed

lemma readLength_bound: "readLength bs off info kind limit = Ok (n, off') \<Longrightarrow> n \<le> limit"
  by (auto simp: readLength_def res_simps split: if_splits)

lemma readSimple_fits:
  assumes "readSimple bs off info = Ok (t, off')" and "d \<le> maxDepth opts"
  shows "fits opts d t"
proof -
  have "num_is_finite (number_of_float b) \<Longrightarrow>
      \<not> (num_is_integer (number_of_float b) \<and> \<not> num_is_safe_integer (number_of_float b)) \<Longrightarrow>
      wire_number (number_of_float b)" for b
    by (simp add: wire_number_def number_of_float_wf)
  then show ?thesis
    using assms by (auto simp: readSimple_def res_simps Let_def split: if_splits)
qed

lemma read_text_fits: "text_decode b = Some s \<Longrightarrow> length b \<le> maxByteLength opts \<Longrightarrow> fits_text opts s"
  using text_decode_canonical [of b s] by (simp add: fits_text_def)

lemma wire_number_unsigned: "readArgument bs off info = Ok (n, off') \<Longrightarrow> wire_number (JInt (int n))"
  using readArgument_safe [of bs off info n off']
  by (simp add: wire_number_def num_is_safe_integer_def safe_int_def max_safe_integer_def)

lemma wire_number_safe_int: "safe_int n \<Longrightarrow> wire_number (JInt n)"
  by (simp add: wire_number_def num_is_safe_integer_def)

definition items_fit :: "resolved_options \<Rightarrow> nat \<Rightarrow> nat \<Rightarrow> cbor list \<Rightarrow> bool" where
  "items_fit opts d n xs \<longleftrightarrow> length xs = n \<and> (\<forall>x\<in>set xs. fits opts (Suc d) x)"

definition entries_fit :: "resolved_options \<Rightarrow> nat \<Rightarrow> nat \<Rightarrow> js_string set \<Rightarrow> (js_string \<times> cbor) list \<Rightarrow> bool" where
  "entries_fit opts d n keys es \<longleftrightarrow> length es = n \<and> distinct (map fst es) \<and> keys \<inter> set (map fst es) = {}
     \<and> (\<forall>(k, x)\<in>set es. fits_text opts k \<and> fits opts (Suc d) x)"

text \<open>The elements of a container fit when every item one level down does.\<close>

lemma readItems_fit:
  assumes "\<And>off x off1. readItem opts bs off (Suc d) = Ok (x, off1) \<Longrightarrow> fits opts (Suc d) x"
    and "readItems opts bs off d n = Ok (xs, off1)"
  shows "items_fit opts d n xs"
  using assms(2)
proof (induction n arbitrary: off xs)
  case (Suc n)
  then show ?case
    using assms(1) by (fastforce simp: res_simps items_fit_def)
qed (simp add: items_fit_def)

lemma readEntries_fit:
  assumes "\<And>off x off1. readItem opts bs off (Suc d) = Ok (x, off1) \<Longrightarrow> fits opts (Suc d) x"
    and "readEntries opts bs off d n keys = Ok (es, off1)"
  shows "entries_fit opts d n keys es"
  using assms(2)
proof (induction n arbitrary: off keys es)
  case (Suc n)
  then obtain key off2 where key: "readItem opts bs off (Suc d) = Ok (key, off2)"
    by (auto simp: res_simps)
  with Suc.prems obtain k x off3 es' where kx: "readItem opts bs off (Suc d) = Ok (CString k, off2)" "k \<notin> keys"
      "readItem opts bs off2 (Suc d) = Ok (x, off3)"
      "readEntries opts bs off3 d n (insert k keys) = Ok (es', off1)" "es = (k, x) # es'"
    by (cases key) (auto simp: res_simps split: if_splits)
  have "entries_fit opts d n (insert k keys) es'"
    using kx(4) by (rule Suc.IH)
  moreover have "fits_text opts k" "fits opts (Suc d) x"
    using assms(1) [OF kx(1)] assms(1) [OF kx(3)] by simp_all
  ultimately show ?case
    using kx(2,5) by (auto simp: entries_fit_def)
qed (simp add: entries_fit_def)

lemma readItem_fits: "readItem opts bs off d = Ok (t, off1) \<Longrightarrow> fits opts d t"
proof (induction "Suc (maxDepth opts) - d" arbitrary: d off t off1 rule: less_induct)
  case less
  have d: "d \<le> maxDepth opts"
    using less.prems by (auto simp: readItem.simps [of opts bs off d] split: if_splits)
  have child: "fits opts (Suc d) x" if "readItem opts bs off (Suc d) = Ok (x, off1)" for off x off1
    using less.hyps [OF _ that] d by simp
  have items: "length xs = n \<and> (\<forall>x\<in>set xs. fits opts (Suc d) x)"
    if "readItems opts bs off d n = Ok (xs, off1)" for off n xs off1
    using readItems_fit [OF child that] by (simp add: items_fit_def)
  have entries: "length es = n \<and> distinct (map fst es) \<and> (\<forall>(k, x)\<in>set es. fits_text opts k \<and> fits opts (Suc d) x)"
    if "readEntries opts bs off d n {} = Ok (es, off1)" for off n es off1
    using readEntries_fit [OF child that] by (simp add: entries_fit_def)
  show ?case
    using less.prems d
    by (auto simp: readItem.simps [of opts bs off d] res_simps Let_def wire_number_safe_int
        intro: readSimple_fits wire_number_unsigned intro!: read_text_fits
        dest!: readBytes_length readLength_bound items entries
        split: if_splits option.splits)
qed

lemma decodeCbor_fits: "decodeCbor bs options = Ok t \<Longrightarrow> \<exists>opts. resolveOptions options = Ok opts \<and> fits opts 0 t"
  by (auto simp: decodeCbor_def res_simps intro: readItem_fits split: if_splits)

section \<open>Cyclic values\<close>

text \<open>The references an object holds: the elements of an array, the property values of a plain object.\<close>

definition heap_edge :: "js_heap \<Rightarrow> nat \<Rightarrow> nat \<Rightarrow> bool" where
  "heap_edge h a b \<longleftrightarrow>
     (case h a of
        OArray xs \<Rightarrow> Some (VRef b) \<in> set xs
      | OPlain props s np \<Rightarrow> VRef b \<in> snd ` set props
      | _ \<Rightarrow> False)"

lemma list_all2_size:
  assumes "list_all2 P xs ts" and "x \<in> set xs"
  obtains t where "P x t" and "t \<in> set ts"
  using assms by (metis in_set_conv_nth list_all2_conv_all_nth)

lemma edge_smaller:
  assumes "represents h (VRef a) t" and "heap_edge h a b"
  shows "\<exists>t'. represents h (VRef b) t' \<and> size t' < size t"
  using assms(1)
proof (rule represents_refE)
  fix xs ts
  assume t: "t = CArray ts" and xs: "h a = OArray xs"
    and all: "list_all2 (\<lambda>x t. \<exists>v. x = Some v \<and> v \<noteq> VUndefined \<and> represents h v t) xs ts"
  have "Some (VRef b) \<in> set xs"
    using xs assms(2) by (simp add: heap_edge_def)
  then obtain t' where t': "represents h (VRef b) t'" "t' \<in> set ts"
    using list_all2_size [OF all] by blast
  have "size t' < size (CArray ts)"
    using t'(2) by (induction ts) auto
  then show ?thesis
    using t t'(1) by auto
next
  fix props np es
  assume t: "t = CMap es" and props: "h a = OPlain props False np"
    and all: "list_all2 (\<lambda>p q. fst p = fst q \<and> represents h (snd p) (snd q))
      (filter (\<lambda>(k, x). x \<noteq> VUndefined) props) es"
  obtain k where "(k, VRef b) \<in> set (filter (\<lambda>(k, x). x \<noteq> VUndefined) props)"
    using props assms(2) by (auto simp: heap_edge_def)
  then obtain e where e: "represents h (VRef b) (snd e)" "e \<in> set es"
    using list_all2_size [OF all] by (metis snd_conv)
  have "size (snd e) < size (CMap es)"
    using e(2) by (induction es) (auto simp: size_prod_simp)
  then show ?thesis
    using t e(1) by auto
qed (use assms(2) in \<open>simp add: heap_edge_def\<close>)

lemma reach_represents:
  "(heap_edge h)\<^sup>*\<^sup>* a b \<Longrightarrow> represents h (VRef a) t \<Longrightarrow> \<exists>t'. represents h (VRef b) t'"
  by (induction rule: rtranclp_induct) (use edge_smaller in blast)+

lemma path_smaller:
  "(heap_edge h)\<^sup>+\<^sup>+ a b \<Longrightarrow> represents h (VRef a) t \<Longrightarrow> \<exists>t'. represents h (VRef b) t' \<and> size t' < size t"
proof (induction rule: tranclp_induct)
  case (step b c)
  then obtain t1 where "represents h (VRef b) t1" "size t1 < size t"
    by blast
  then show ?case
    using edge_smaller [OF _ step.hyps(2)] order.strict_trans by blast
qed (rule edge_smaller)

lemma cycle_not_represented:
  assumes "(heap_edge h)\<^sup>*\<^sup>* a b" and "(heap_edge h)\<^sup>+\<^sup>+ b b"
  shows "\<not> represents h (VRef a) t"
proof
  assume "represents h (VRef a) t"
  then obtain t1 where "represents h (VRef b) t1"
    using reach_represents [OF assms(1)] by blast
  then obtain t2 where "represents h (VRef b) t2" "size t2 < size t1"
    using path_smaller [OF assms(2)] by blast
  then show False
    using represents_unique [of h "VRef b" t1 t2] \<open>represents h (VRef b) t1\<close> by simp
qed

section \<open>The contract of the component\<close>

text \<open>C12: CBOR round trip. Whatever value the encoder accepts, decoding the bytes it produced with
  the same options succeeds and yields the value that was encoded (with properties whose value is
  \<open>undefined\<close> left out, as the encoder leaves them out).\<close>

theorem cbor_roundtrip:
  assumes "wf_heap h" and "wf_value v" and "encodeCbor h v options = Ok bs"
  shows "\<exists>t. represents h v t \<and> decodeCbor bs options = Ok t"
proof -
  obtain opts where opts: "resolveOptions options = Ok opts"
    using assms(3) by (auto simp: encodeCbor_def res_simps)
  then show ?thesis
    using assms encodeCbor_Ok_iff [OF opts assms(1,2), of bs] decodeCbor_enc_tree [OF opts] by auto
qed

definition sample_heap :: js_heap where
  "sample_heap = (\<lambda>_. OExotic)
     (0 := OPlain [(map to_unit [0x61], VRef 1), (map to_unit [0x62], VUndefined)] False False,
      1 := OArray [Some (VNumber (JInt 1000)), Some VNull, Some (VRef 2)],
      2 := OBytes [1, 2, 3])"

definition default_options :: cbor_options where
  "default_options = \<lparr>opt_maxByteLength = None, opt_maxContainerLength = None, opt_maxDepth = None\<rparr>"

definition default_limits :: resolved_options where
  "default_limits = \<lparr>maxByteLength = 16777216, maxContainerLength = 1000000, maxDepth = 64\<rparr>"

definition sample_tree :: cbor where
  "sample_tree = CMap [([0x61], CArray [CNumber (JInt 1000), CNull, CBytes [1, 2, 3]])]"

abbreviation sample_bytes :: "byte list" where
  "sample_bytes \<equiv> [0xa1, 0x61, 0x61, 0x83, 0x19, 0x03, 0xe8, 0xf6, 0x43, 1, 2, 3]"

lemma sample_heap_wf: "wf_heap sample_heap"
  by (simp add: wf_heap_def sample_heap_def to_unit_def safe_int_def max_safe_integer_def)

lemma default_limits_resolved: "resolveOptions default_options = Ok default_limits"
  by (simp add: resolveOptions_def resolveLimit_def default_options_def default_limits_def Let_def
      DEFAULT_MAX_CBOR_BYTE_LENGTH_def DEFAULT_MAX_CBOR_CONTAINER_LENGTH_def DEFAULT_MAX_CBOR_DEPTH_def
      MAX_UINT32_def MAX_CONFIGURED_DEPTH_def num_is_safe_integer_def safe_int_def max_safe_integer_def)

lemma sample_fits: "fits default_limits 0 sample_tree"
  by (simp add: sample_tree_def default_limits_def fits_text_def text_encode_def utf8_bytes_def wire_number_def
      num_is_safe_integer_def safe_int_def max_safe_integer_def is_high_surrogate_def is_low_surrogate_def)

lemma sample_layout: "enc_tree sample_tree = sample_bytes"
  by (simp add: sample_tree_def enc_text_def text_encode_def utf8_bytes_def enc_arg_def arg_info_def arg_tail_def
      is_high_surrogate_def is_low_surrogate_def be_bytes_2 to_byte_def)

lemma sample_represents: "represents sample_heap (VRef 0) sample_tree"
proof -
  have "represents sample_heap (VRef 2) (CBytes [1, 2, 3])"
    by (rule rep_bytes) (simp add: sample_heap_def)
  then have "represents sample_heap (VRef 1) (CArray [CNumber (JInt 1000), CNull, CBytes [1, 2, 3]])"
    by (intro rep_array [where xs = "[Some (VNumber (JInt 1000)), Some VNull, Some (VRef 2)]"])
      (auto simp: sample_heap_def intro: rep_null rep_number)
  then show ?thesis
    unfolding sample_tree_def
    by (intro rep_map [where props = "[(map to_unit [0x61], VRef 1), (map to_unit [0x62], VUndefined)]"])
      (auto simp: sample_heap_def to_unit_def)
qed

lemma sample_heap_bytes: "encodeCbor sample_heap (VRef 0) default_options = Ok sample_bytes"
proof -
  have "length (enc_tree sample_tree) \<le> maxByteLength default_limits"
    by (simp add: sample_layout default_limits_def)
  then show ?thesis
    using encodeCbor_Ok_iff [OF default_limits_resolved sample_heap_wf, of "VRef 0" sample_bytes]
      sample_represents sample_fits sample_layout by auto
qed

theorem cbor_roundtrip_witness:
  "\<exists>t. represents sample_heap (VRef 0) t
     \<and> decodeCbor sample_bytes default_options = Ok t"
  by (rule cbor_roundtrip [OF sample_heap_wf _ sample_heap_bytes]) simp

text \<open>C16: the exact domain of the encoder. It succeeds precisely on the values that unfold to a finite
  tree within the limits (depth, container and string lengths, finite numbers, safe integers, text
  without unpaired surrogates) whose layout has at most \<open>maxByteLength\<close> bytes, and then returns
  exactly that layout; the growing buffer never adds, loses or reorders a byte.\<close>

theorem cbor_encoder_domain:
  assumes "resolveOptions options = Ok opts" and "wf_heap h" and "wf_value v"
  shows "encodeCbor h v options = Ok bs \<longleftrightarrow>
    (\<exists>t. represents h v t \<and> fits opts 0 t \<and> length (enc_tree t) \<le> maxByteLength opts \<and> bs = enc_tree t)"
  using assms by (rule encodeCbor_Ok_iff)

theorem cbor_encoder_domain_witness:
  "\<exists>t. represents sample_heap (VRef 0) t \<and> fits default_limits 0 t \<and> sample_bytes = enc_tree t"
  using cbor_encoder_domain [OF default_limits_resolved sample_heap_wf, of "VRef 0" sample_bytes] sample_heap_bytes
  by auto

text \<open>the decoder enforces every limit. A value it returns is within the configured depth, container
  and string lengths, its numbers are finite and its integers safe, its text is well formed and the
  keys of every map are distinct; so the value could be encoded again.\<close>

theorem cbor_decoder_limits:
  assumes "resolveOptions options = Ok opts" and "decodeCbor bs options = Ok t"
  shows "fits opts 0 t \<and> length bs \<le> maxByteLength opts"
  using assms by (auto simp: decodeCbor_def res_simps intro: readItem_fits split: if_splits)

theorem cbor_decoder_limits_witness:
  "fits default_limits 0 sample_tree \<and> length sample_bytes \<le> maxByteLength default_limits"
proof -
  have "length (enc_tree sample_tree) \<le> maxByteLength default_limits"
    by (simp add: sample_layout default_limits_def)
  from decodeCbor_enc_tree [OF default_limits_resolved sample_fits this]
  have "decodeCbor sample_bytes default_options = Ok sample_tree"
    by (simp only: sample_layout)
  with default_limits_resolved show ?thesis
    by (rule cbor_decoder_limits)
qed

text \<open>cyclic values are refused. A value from which a cycle of references can be reached makes the
  encoder throw (it neither loops nor returns bytes), whatever the options.\<close>

theorem cbor_cycle_rejected:
  assumes "wf_heap h" and "(heap_edge h)\<^sup>*\<^sup>* a b" and "(heap_edge h)\<^sup>+\<^sup>+ b b"
  shows "\<exists>e. encodeCbor h (VRef a) options = Err e"
proof (cases "encodeCbor h (VRef a) options")
  case (Inr bs)
  then obtain opts where opts: "resolveOptions options = Ok opts"
    by (auto simp: encodeCbor_def res_simps)
  show ?thesis
    using encodeCbor_Ok_iff [OF opts assms(1), of "VRef a" bs] Inr cycle_not_represented [OF assms(2,3)] by auto
qed simp

definition cyclic_heap :: js_heap where
  "cyclic_heap = (\<lambda>_. OExotic)
     (0 := OArray [Some (VRef 1)], 1 := OPlain [(map to_unit [0x61], VRef 1)] False False)"

theorem cbor_cycle_rejected_witness: "\<exists>e. encodeCbor cyclic_heap (VRef 0) default_options = Err e"
proof (rule cbor_cycle_rejected)
  show "wf_heap cyclic_heap"
    by (simp add: wf_heap_def cyclic_heap_def)
  show "(heap_edge cyclic_heap)\<^sup>*\<^sup>* 0 1" "(heap_edge cyclic_heap)\<^sup>+\<^sup>+ 1 1"
    by (auto simp: heap_edge_def cyclic_heap_def)
qed

end
