(* ===== verification/Framing.thy ===== *)
theory Framing
  imports JsNumber
begin

text \<open>
  Length-prefixed framing of the byte stream (\<open>packages/protocol/src/framing.ts\<close>): the frame
  encoder, the check of a single complete frame, and the incremental frame decoder with its
  header array, its payload blocks of at most 64 KiB and its open, ended and failed states.
  The two loops of \<open>push\<close> are partial functions; the correctness theory shows that they
  return for every state the decoder can be in.
\<close>

definition FRAME_HEADER_LENGTH :: nat where "FRAME_HEADER_LENGTH = 4"
definition MAX_FRAME_UINT32 :: nat where "MAX_FRAME_UINT32 = 2 ^ 32 - 1"
definition PAYLOAD_BLOCK_SIZE :: nat where "PAYLOAD_BLOCK_SIZE = 64 * 1024"
definition DEFAULT_MAX_FRAME_LENGTH :: nat where "DEFAULT_MAX_FRAME_LENGTH = 16 * 1024 * 1024"

datatype frame_error =
    MaxFrameLengthRange
  | FramePayloadTooLong
  | NoLengthPrefix
  | FrameTooLong nat nat
  | NotOneFrame
  | DecoderHasEnded
  | DecoderHasFailed
  | TruncatedStream

definition resolveMaxFrameLength :: "js_number option \<Rightarrow> frame_error + nat" where
  "resolveMaxFrameLength given =
     (let v = (case given of None \<Rightarrow> JInt (int DEFAULT_MAX_FRAME_LENGTH) | Some x \<Rightarrow> x)
      in if \<not> num_is_safe_integer v \<or> num_int v < 0 \<or> int MAX_FRAME_UINT32 < num_int v
         then Err MaxFrameLengthRange else Ok (nat (num_int v)))"

text \<open>The four header bytes as the number they stand for.\<close>

definition header_value :: "byte list \<Rightarrow> nat" where
  "header_value h = unat (h ! 0) * 0x1000000 + unat (h ! 1) * 0x10000 + unat (h ! 2) * 0x100 + unat (h ! 3)"

definition encodeFrame :: "byte list \<Rightarrow> frame_error + byte list" where
  "encodeFrame payload =
     (if length payload > MAX_FRAME_UINT32 then Err FramePayloadTooLong
      else let frame = replicate (FRAME_HEADER_LENGTH + length payload) 0; n = length payload
           in Ok (overwrite (frame[0 := to_byte (n div 2 ^ 24), 1 := to_byte (n div 2 ^ 16),
                                   2 := to_byte (n div 2 ^ 8), 3 := to_byte n])
                    FRAME_HEADER_LENGTH payload))"

definition assertCompleteFrame :: "byte list \<Rightarrow> js_number option \<Rightarrow> frame_error + unit" where
  "assertCompleteFrame frame given =
     (if length frame < FRAME_HEADER_LENGTH then Err NoLengthPrefix
      else let n = header_value frame
           in bind_res (resolveMaxFrameLength given) (\<lambda>m.
                if n > m then Err (FrameTooLong n m)
                else if length frame \<noteq> FRAME_HEADER_LENGTH + n then Err NotOneFrame
                else Ok ()))"

section \<open>The incremental decoder\<close>

datatype decoder_state = StreamOpen | StreamEnded | StreamFailed

text \<open>
  \<open>currentPayloadBlock\<close> refers to a block that is also an element of \<open>payloadBlocks\<close>; the
  model keeps its index there.
\<close>

record frame_decoder =
  fd_header :: "byte list"
  fd_headerLength :: nat
  fd_maxFrameLength :: nat
  fd_payloadBlocks :: "byte list list"
  fd_currentBlock :: "nat option"
  fd_currentBlockLength :: nat
  fd_expected :: "nat option"
  fd_payloadLength :: nat
  fd_state :: decoder_state

definition new_frame_decoder :: "js_number option \<Rightarrow> frame_error + frame_decoder" where
  "new_frame_decoder given =
     bind_res (resolveMaxFrameLength given) (\<lambda>m.
       Ok \<lparr>fd_header = replicate FRAME_HEADER_LENGTH 0, fd_headerLength = 0, fd_maxFrameLength = m,
           fd_payloadBlocks = [], fd_currentBlock = None, fd_currentBlockLength = 0,
           fd_expected = None, fd_payloadLength = 0, fd_state = StreamOpen\<rparr>)"

definition fd_fail :: "frame_decoder \<Rightarrow> frame_decoder" where
  "fd_fail d = d\<lparr>fd_state := StreamFailed, fd_headerLength := 0, fd_payloadBlocks := [],
     fd_currentBlock := None, fd_currentBlockLength := 0, fd_expected := None, fd_payloadLength := 0\<rparr>"

text \<open>
  The first half of an iteration: unless a frame is in progress, take header bytes; on a
  complete header reject an oversized frame, deliver an empty one, or open the payload. The
  last component of the result is the length to fill, \<open>None\<close> for \<open>continue\<close>.
\<close>

definition frame_head :: "frame_decoder \<Rightarrow> byte list \<Rightarrow> nat \<Rightarrow> byte list list \<Rightarrow>
    (frame_decoder \<times> frame_error) + (frame_decoder \<times> nat \<times> byte list list \<times> nat option)" where
  "frame_head d chunk off frames =
     (case fd_expected d of
        Some n \<Rightarrow> Inr (d, off, frames, Some n)
      | None \<Rightarrow>
          (let headerBytes = min (FRAME_HEADER_LENGTH - fd_headerLength d) (length chunk - off);
               d = d\<lparr>fd_header := overwrite (fd_header d) (fd_headerLength d) (take headerBytes (drop off chunk)),
                     fd_headerLength := fd_headerLength d + headerBytes\<rparr>;
               off = off + headerBytes
           in if fd_headerLength d < FRAME_HEADER_LENGTH then Inr (d, off, frames, None)
              else let frameLength = header_value (fd_header d);
                       d = d\<lparr>fd_headerLength := 0\<rparr>
                   in if frameLength > fd_maxFrameLength d
                      then Inl (fd_fail d, FrameTooLong frameLength (fd_maxFrameLength d))
                      else if frameLength = 0 then Inr (d, off, frames @ [[]], None)
                      else Inr (d\<lparr>fd_expected := Some frameLength, fd_payloadBlocks := [],
                                  fd_currentBlock := None, fd_currentBlockLength := 0,
                                  fd_payloadLength := 0\<rparr>, off, frames, Some frameLength)))"

text \<open>One iteration of the inner loop: allocate a block when there is none or it is full, then copy.\<close>

definition ensure_block :: "frame_decoder \<Rightarrow> nat \<Rightarrow> frame_decoder \<times> nat" where
  "ensure_block d n =
     (case fd_currentBlock d of
        Some i \<Rightarrow>
          if fd_currentBlockLength d = length (fd_payloadBlocks d ! i)
          then (d\<lparr>fd_payloadBlocks := fd_payloadBlocks d
                    @ [replicate (min PAYLOAD_BLOCK_SIZE (n - fd_payloadLength d)) 0],
                  fd_currentBlock := Some (length (fd_payloadBlocks d)), fd_currentBlockLength := 0\<rparr>,
                length (fd_payloadBlocks d))
          else (d, i)
      | None \<Rightarrow>
          (d\<lparr>fd_payloadBlocks := fd_payloadBlocks d
               @ [replicate (min PAYLOAD_BLOCK_SIZE (n - fd_payloadLength d)) 0],
             fd_currentBlock := Some (length (fd_payloadBlocks d)), fd_currentBlockLength := 0\<rparr>,
           length (fd_payloadBlocks d)))"

definition copy_payload :: "frame_decoder \<Rightarrow> nat \<Rightarrow> byte list \<Rightarrow> nat \<Rightarrow> frame_decoder \<times> nat" where
  "copy_payload d i chunk off =
     (let block = fd_payloadBlocks d ! i;
          payloadBytes = min (length block - fd_currentBlockLength d) (length chunk - off)
      in (d\<lparr>fd_payloadBlocks := (fd_payloadBlocks d)
              [i := overwrite block (fd_currentBlockLength d) (take payloadBytes (drop off chunk))],
            fd_currentBlockLength := fd_currentBlockLength d + payloadBytes,
            fd_payloadLength := fd_payloadLength d + payloadBytes\<rparr>,
          off + payloadBytes))"

partial_function (option) fill_payload ::
  "frame_decoder \<Rightarrow> byte list \<Rightarrow> nat \<Rightarrow> nat \<Rightarrow> (frame_decoder \<times> nat) option" where
  [code]: "fill_payload d chunk off n =
     (if off < length chunk \<and> fd_payloadLength d < n
      then fill_payload (fst (copy_payload (fst (ensure_block d n)) (snd (ensure_block d n)) chunk off))
             chunk (snd (copy_payload (fst (ensure_block d n)) (snd (ensure_block d n)) chunk off)) n
      else Some (d, off))"

text \<open>The complete payload: the only block itself, or the blocks copied into one array.\<close>

fun copy_blocks :: "byte list \<Rightarrow> nat \<Rightarrow> byte list list \<Rightarrow> byte list" where
  "copy_blocks payload off [] = payload"
| "copy_blocks payload off (b # bs) = copy_blocks (overwrite payload off b) (off + length b) bs"

definition deliver_payload :: "frame_decoder \<Rightarrow> nat \<Rightarrow> byte list list \<Rightarrow> frame_decoder \<times> byte list list" where
  "deliver_payload d n frames =
     (if fd_payloadLength d = n then
        (d\<lparr>fd_payloadBlocks := [], fd_currentBlock := None, fd_currentBlockLength := 0,
           fd_expected := None, fd_payloadLength := 0\<rparr>,
         frames @ [if length (fd_payloadBlocks d) = 1 then fd_payloadBlocks d ! 0
                   else copy_blocks (replicate n 0) 0 (fd_payloadBlocks d)])
      else (d, frames))"

partial_function (option) push_loop ::
  "frame_decoder \<Rightarrow> byte list \<Rightarrow> nat \<Rightarrow> byte list list \<Rightarrow> (frame_decoder \<times> (frame_error + byte list list)) option" where
  [code]: "push_loop d chunk off frames =
     (if off < length chunk then
        (case frame_head d chunk off frames of
           Inl (d, e) \<Rightarrow> Some (d, Err e)
         | Inr (d, off, frames, expected) \<Rightarrow>
             (case expected of
                None \<Rightarrow> push_loop d chunk off frames
              | Some n \<Rightarrow>
                  Option.bind (fill_payload d chunk off n) (\<lambda>(d, off).
                    push_loop (fst (deliver_payload d n frames)) chunk off (snd (deliver_payload d n frames)))))
      else Some (d, Ok frames))"

definition fd_push :: "frame_decoder \<Rightarrow> byte list \<Rightarrow> (frame_decoder \<times> (frame_error + byte list list)) option" where
  "fd_push d chunk =
     (if fd_state d = StreamEnded then Some (d, Err DecoderHasEnded)
      else if fd_state d = StreamFailed then Some (d, Err DecoderHasFailed)
      else push_loop d chunk 0 [])"

definition fd_end :: "frame_decoder \<Rightarrow> frame_decoder \<times> (frame_error + unit)" where
  "fd_end d =
     (if fd_state d = StreamEnded then (d, Err DecoderHasEnded)
      else if fd_state d = StreamFailed then (d, Err DecoderHasFailed)
      else if fd_headerLength d \<noteq> 0 \<or> fd_expected d \<noteq> None then (fd_fail d, Err TruncatedStream)
      else (d\<lparr>fd_state := StreamEnded\<rparr>, Ok ()))"

end
