(* ===== verification/Incremental.thy ===== *)
theory Incremental
  imports Prelude
begin

text \<open>
  The interface of an incremental decoder: an object that is given a byte stream in chunks of
  any size and hands out the items completed by each chunk. \<open>parse\<close> specifies the items of a
  whole byte string and its unfinished rest, \<open>pend\<close> the unfinished bytes a state stands for.
  What follows from the contract for a whole stream is proved here once, for the frame decoder
  and for the message decoder built on it.
\<close>

text \<open>Pushing the chunks of a stream one after the other, stopping at the first error.\<close>

fun feed :: "('s \<Rightarrow> byte list \<Rightarrow> ('s \<times> ('e + 'a list)) option) \<Rightarrow> 's \<Rightarrow> byte list list
    \<Rightarrow> ('s \<times> ('e + 'a list)) option" where
  "feed push_op s [] = Some (s, Ok [])"
| "feed push_op s (c # cs) =
     (case push_op s c of
        None \<Rightarrow> None
      | Some (s', Inl e) \<Rightarrow> Some (s', Err e)
      | Some (s', Inr xs) \<Rightarrow>
          (case feed push_op s' cs of
             None \<Rightarrow> None
           | Some (s'', Inl e) \<Rightarrow> Some (s'', Err e)
           | Some (s'', Inr ys) \<Rightarrow> Some (s'', Ok (xs @ ys))))"

locale incremental =
  fixes push_op :: "'s \<Rightarrow> byte list \<Rightarrow> ('s \<times> ('e + 'a list)) option"
    and ready :: "'s \<Rightarrow> bool"
    and pend :: "'s \<Rightarrow> byte list"
    and parse :: "byte list \<Rightarrow> 'e + 'a list \<times> byte list"
  assumes push_ok: "\<And>s c xs r. ready s \<Longrightarrow> parse (pend s @ c) = Ok (xs, r) \<Longrightarrow>
      \<exists>s'. push_op s c = Some (s', Ok xs) \<and> ready s' \<and> pend s' = r"
    and push_err: "\<And>s c e. ready s \<Longrightarrow> parse (pend s @ c) = Err e \<Longrightarrow> \<exists>s' e'. push_op s c = Some (s', Err e')"
    and at_rest: "\<And>s. ready s \<Longrightarrow> parse (pend s) = Ok ([], pend s)"
    and parse_append: "\<And>bs cs xs r. parse bs = Ok (xs, r) \<Longrightarrow>
      parse (bs @ cs) = bind_res (parse (r @ cs)) (\<lambda>(ys, r'). Ok (xs @ ys, r'))"
    and parse_append_Err: "\<And>bs cs e. parse bs = Err e \<Longrightarrow> \<exists>e'. parse (bs @ cs) = Err e'"
begin

lemma feed_ok:
  "ready s \<Longrightarrow> parse (pend s @ concat cs) = Ok (xs, r) \<Longrightarrow>
     \<exists>s'. feed push_op s cs = Some (s', Ok xs) \<and> ready s' \<and> pend s' = r"
proof (induction cs arbitrary: s xs)
  case Nil
  then show ?case
    using at_rest [of s] by simp
next
  case (Cons c cs)
  obtain ys r1 where head: "parse (pend s @ c) = Ok (ys, r1)"
    using Cons.prems(2) parse_append_Err [of "pend s @ c" _ "concat cs"]
    by (cases "parse (pend s @ c)") fastforce+
  from push_ok [OF Cons.prems(1) head] obtain s1 where s1: "push_op s c = Some (s1, Ok ys)" "ready s1" "pend s1 = r1"
    by blast
  have "bind_res (parse (r1 @ concat cs)) (\<lambda>(zs, r'). Ok (ys @ zs, r')) = Ok (xs, r)"
    using Cons.prems(2) parse_append [OF head, of "concat cs"] by simp
  then obtain zs where zs: "parse (r1 @ concat cs) = Ok (zs, r)" "xs = ys @ zs"
    by (auto simp: res_simps)
  from Cons.IH [OF s1(2)] zs(1) s1(3) obtain s2 where
    "feed push_op s1 cs = Some (s2, Ok zs)" "ready s2" "pend s2 = r"
    by blast
  with s1(1) zs(2) show ?case
    by simp
qed

lemma feed_fails:
  "ready s \<Longrightarrow> parse (pend s @ concat cs) = Err e \<Longrightarrow> \<exists>s' e'. feed push_op s cs = Some (s', Err e')"
proof (induction cs arbitrary: s)
  case Nil
  then show ?case
    using at_rest [of s] by simp
next
  case (Cons c cs)
  show ?case
  proof (cases "parse (pend s @ c)")
    case (Inl e')
    with push_err [OF Cons.prems(1), of c] show ?thesis
      by auto
  next
    case (Inr a)
    then obtain ys r1 where head: "parse (pend s @ c) = Ok (ys, r1)"
      by (cases a) simp
    from push_ok [OF Cons.prems(1) head] obtain s1 where s1: "push_op s c = Some (s1, Ok ys)" "ready s1" "pend s1 = r1"
      by blast
    have "bind_res (parse (r1 @ concat cs)) (\<lambda>(zs, r'). Ok (ys @ zs, r')) = Err e"
      using Cons.prems(2) parse_append [OF head, of "concat cs"] by simp
    then have "parse (pend s1 @ concat cs) = Err e"
      using s1(3) by (auto simp: res_simps)
    with Cons.IH [OF s1(2)] s1(1) show ?thesis
      by auto
  qed
qed

text \<open>How the stream is cut into chunks does not matter for what is delivered, nor for whether it fails.\<close>

lemma feed_chunking:
  assumes "ready s" and "concat cs = concat ds" and "feed push_op s cs = Some (s', Ok xs)"
  shows "\<exists>s''. feed push_op s ds = Some (s'', Ok xs) \<and> pend s'' = pend s'"
proof (cases "parse (pend s @ concat cs)")
  case (Inl e)
  then show ?thesis
    using feed_fails [OF assms(1) Inl] assms(3) by auto
next
  case (Inr a)
  then obtain ys r where "parse (pend s @ concat cs) = Ok (ys, r)"
    by (cases a) simp
  then show ?thesis
    using feed_ok [OF assms(1), of cs ys r] feed_ok [OF assms(1), of ds ys r] assms(2,3) by auto
qed

end

text \<open>
  A decoder that stops at the first offending byte also has an error that does not depend on
  the chunking.
\<close>

locale exact_incremental = incremental +
  assumes push_err_exact: "\<And>s c e. ready s \<Longrightarrow> parse (pend s @ c) = Err e \<Longrightarrow> \<exists>s'. push_op s c = Some (s', Err e)"
    and parse_append_Err_exact: "\<And>bs cs e. parse bs = Err e \<Longrightarrow> parse (bs @ cs) = Err e"
begin

lemma feed_err:
  "ready s \<Longrightarrow> parse (pend s @ concat cs) = Err e \<Longrightarrow> \<exists>s'. feed push_op s cs = Some (s', Err e)"
proof (induction cs arbitrary: s)
  case Nil
  then show ?case
    using at_rest [of s] by simp
next
  case (Cons c cs)
  show ?case
  proof (cases "parse (pend s @ c)")
    case (Inl e')
    with Cons.prems have "e' = e"
      using parse_append_Err_exact [OF Inl, of "concat cs"] by simp
    with Inl push_err_exact [OF Cons.prems(1), of c] show ?thesis
      by auto
  next
    case (Inr a)
    then obtain ys r1 where head: "parse (pend s @ c) = Ok (ys, r1)"
      by (cases a) simp
    from push_ok [OF Cons.prems(1) head] obtain s1 where s1: "push_op s c = Some (s1, Ok ys)" "ready s1" "pend s1 = r1"
      by blast
    have "bind_res (parse (r1 @ concat cs)) (\<lambda>(zs, r'). Ok (ys @ zs, r')) = Err e"
      using Cons.prems(2) parse_append [OF head, of "concat cs"] by simp
    then have "parse (pend s1 @ concat cs) = Err e"
      using s1(3) by (auto simp: res_simps)
    with Cons.IH [OF s1(2)] s1(1) show ?thesis
      by auto
  qed
qed

end

end
