(* ===== verification/FramingCorrect.thy ===== *)
theory FramingCorrect
  imports Framing Incremental
begin

text \<open>
  The frame decoder implements splitting a byte string into frames: \<open>split_frames\<close> is the
  specification on the whole string, \<open>pending\<close> the bytes of the unfinished frame a decoder
  state stands for. Every push returns, and pushing any chunking of a stream delivers the
  frames of the stream.
\<close>

section \<open>Specification\<close>

function split_frames :: "nat \<Rightarrow> byte list \<Rightarrow> frame_error + byte list list \<times> byte list" where
  "split_frames m bs =
     (if length bs < 4 then Ok ([], bs)
      else let n = be_nat (take 4 bs)
           in if n > m then Err (FrameTooLong n m)
              else if length bs < 4 + n then Ok ([], bs)
              else bind_res (split_frames m (drop (4 + n) bs)) (\<lambda>(fs, r). Ok (take n (drop 4 bs) # fs, r)))"
  by auto
termination
  by (relation "measure (\<lambda>(m, bs). length bs)") auto

declare split_frames.simps [simp del]

lemma split_frames_short: "length bs < 4 \<Longrightarrow> split_frames m bs = Ok ([], bs)"
  by (simp add: split_frames.simps [of m bs])

lemma split_frames_header:
  assumes "length h = 4"
  shows "split_frames m (h @ bs) =
    (if be_nat h > m then Err (FrameTooLong (be_nat h) m)
     else if length bs < be_nat h then Ok ([], h @ bs)
     else bind_res (split_frames m (drop (be_nat h) bs)) (\<lambda>(fs, r). Ok (take (be_nat h) bs # fs, r)))"
  using assms by (simp add: split_frames.simps [of m "h @ bs"] Let_def)

lemma split_frames_frame:
  assumes "length h = 4" and "be_nat h = length p" and "length p \<le> m"
  shows "split_frames m (h @ p @ bs) = bind_res (split_frames m bs) (\<lambda>(fs, r). Ok (p # fs, r))"
  using assms split_frames_header [OF assms(1), of m "p @ bs"] by simp

text \<open>A byte string is too short for a header, or starts with a header that announces too much, with an
  incomplete frame, or with a complete one.\<close>

lemma frame_cases:
  obtains (short) "length bs < 4"
  | (large) h q where "bs = h @ q" "length h = 4" "be_nat h > m"
  | (partial) h q where "bs = h @ q" "length h = 4" "be_nat h \<le> m" "length q < be_nat h"
  | (frame) h p q where "bs = h @ p @ q" "length h = 4" "be_nat h = length p" "length p \<le> m"
proof (cases "length bs < 4")
  case False
  define h q where "h = take 4 bs" and "q = drop 4 bs"
  have bs: "bs = h @ q" "length h = 4"
    using False by (simp_all add: h_def q_def)
  consider "be_nat h > m" | "be_nat h \<le> m" "length q < be_nat h" | "be_nat h \<le> m" "be_nat h \<le> length q"
    by linarith
  then show ?thesis
  proof cases
    case 3
    then show ?thesis
      using bs that(4) [of h "take (be_nat h) q" "drop (be_nat h) q"] by simp
  qed (use bs that(2,3) in blast)+
qed (rule that(1))

lemma split_frames_append:
  "split_frames m bs = Ok (fs, r) \<Longrightarrow>
     split_frames m (bs @ cs) = bind_res (split_frames m (r @ cs)) (\<lambda>(gs, r'). Ok (fs @ gs, r'))"
proof (induction "length bs" arbitrary: bs fs r rule: less_induct)
  case less
  show ?case
  proof (cases rule: frame_cases [where bs = bs and m = m])
    case (frame h p q)
    then obtain gs where gs: "split_frames m q = Ok (gs, r)" "fs = p # gs"
      using less.prems by (auto simp: split_frames_frame res_simps)
    have "split_frames m (q @ cs) = bind_res (split_frames m (r @ cs)) (\<lambda>(hs, r'). Ok (gs @ hs, r'))"
      using frame gs(1) by (intro less.hyps) auto
    then show ?thesis
      using frame gs(2) by (simp add: split_frames_frame bind_res_assoc split_def)
  qed (use less.prems in \<open>auto simp: split_frames_short split_frames_header\<close>)
qed

lemma split_frames_append_Err: "split_frames m bs = Err e \<Longrightarrow> split_frames m (bs @ cs) = Err e"
proof (induction "length bs" arbitrary: bs rule: less_induct)
  case less
  show ?case
  proof (cases rule: frame_cases [where bs = bs and m = m])
    case (frame h p q)
    then have "split_frames m q = Err e"
      using less.prems by (auto simp: split_frames_frame res_simps)
    then have "split_frames m (q @ cs) = Err e"
      using frame by (intro less.hyps) auto
    then show ?thesis
      using frame by (simp add: split_frames_frame)
  qed (use less.prems in \<open>auto simp: split_frames_short split_frames_header\<close>)
qed

lemma split_frames_rest: "split_frames m bs = Ok (fs, r) \<Longrightarrow> split_frames m r = Ok ([], r)"
proof (induction "length bs" arbitrary: bs fs rule: less_induct)
  case less
  show ?case
  proof (cases rule: frame_cases [where bs = bs and m = m])
    case (frame h p q)
    then obtain gs where "split_frames m q = Ok (gs, r)"
      using less.prems by (auto simp: split_frames_frame res_simps)
    then show ?thesis
      using frame by (intro less.hyps [of q gs]) auto
  qed (use less.prems in \<open>auto simp: split_frames_short split_frames_header\<close>)
qed

section \<open>What a decoder state stands for\<close>

definition payload :: "frame_decoder \<Rightarrow> byte list" where
  "payload d = (case fd_currentBlock d of
      None \<Rightarrow> []
    | Some i \<Rightarrow> concat (take i (fd_payloadBlocks d)) @ take (fd_currentBlockLength d) (fd_payloadBlocks d ! i))"

definition pending :: "frame_decoder \<Rightarrow> byte list" where
  "pending d = (case fd_expected d of
      None \<Rightarrow> take (fd_headerLength d) (fd_header d)
    | Some n \<Rightarrow> be_bytes 4 n @ payload d)"

text \<open>The blocks of a payload of length \<open>n\<close>: all but the last are full, together they do not exceed \<open>n\<close>.\<close>

definition blocks_inv :: "frame_decoder \<Rightarrow> nat \<Rightarrow> bool" where
  "blocks_inv d n \<longleftrightarrow> (case fd_currentBlock d of
      None \<Rightarrow> fd_payloadBlocks d = [] \<and> fd_currentBlockLength d = 0 \<and> fd_payloadLength d = 0
    | Some i \<Rightarrow> length (fd_payloadBlocks d) = Suc i
        \<and> fd_currentBlockLength d \<le> length (fd_payloadBlocks d ! i)
        \<and> length (fd_payloadBlocks d ! i) \<le> PAYLOAD_BLOCK_SIZE
        \<and> fd_payloadLength d = sum_list (map length (take i (fd_payloadBlocks d))) + fd_currentBlockLength d
        \<and> sum_list (map length (fd_payloadBlocks d)) \<le> n)"

definition open_inv :: "frame_decoder \<Rightarrow> bool" where
  "open_inv d \<longleftrightarrow> length (fd_header d) = 4 \<and> fd_maxFrameLength d \<le> MAX_FRAME_UINT32 \<and> fd_state d = StreamOpen"

definition filling :: "frame_decoder \<Rightarrow> nat \<Rightarrow> bool" where
  "filling d n \<longleftrightarrow> open_inv d \<and> fd_headerLength d = 0 \<and> fd_expected d = Some n \<and> 0 < n
     \<and> n \<le> fd_maxFrameLength d \<and> blocks_inv d n"

definition fd_inv :: "frame_decoder \<Rightarrow> bool" where
  "fd_inv d \<longleftrightarrow> (case fd_expected d of
      None \<Rightarrow> open_inv d \<and> fd_headerLength d < 4 \<and> fd_currentBlock d = None
        \<and> fd_payloadBlocks d = [] \<and> fd_currentBlockLength d = 0 \<and> fd_payloadLength d = 0
    | Some n \<Rightarrow> filling d n \<and> fd_payloadLength d < n)"

lemma blocks_snoc:
  assumes "length bs = Suc i"
  shows "bs = take i bs @ [bs ! i]"
  using assms by (metis lessI take_Suc_conv_app_nth take_all_iff order_refl)

lemma length_payload: "blocks_inv d n \<Longrightarrow> length (payload d) = fd_payloadLength d"
  by (auto simp: blocks_inv_def payload_def length_concat split: option.splits)

lemma sum_blocks:
  "length bs = Suc i \<Longrightarrow> sum_list (map length bs) = sum_list (map length (take i bs)) + length (bs ! i)"
  by (subst blocks_snoc) auto

lemma payload_bound: "blocks_inv d n \<Longrightarrow> fd_payloadLength d \<le> n"
  using sum_blocks by (fastforce simp: blocks_inv_def split: option.splits)

text \<open>One iteration of the inner loop.\<close>

lemma ensure_block_spec:
  assumes "filling d n" and "fd_payloadLength d < n" and "ensure_block d n = (d1, i)"
  shows "filling d1 n" "fd_currentBlock d1 = Some i" "payload d1 = payload d"
    "fd_payloadLength d1 = fd_payloadLength d" "fd_currentBlockLength d1 < length (fd_payloadBlocks d1 ! i)"
    "fd_maxFrameLength d1 = fd_maxFrameLength d"
proof -
  have alloc: "filling d1 n \<and> fd_currentBlock d1 = Some i \<and> payload d1 = payload d
      \<and> fd_payloadLength d1 = fd_payloadLength d \<and> fd_currentBlockLength d1 < length (fd_payloadBlocks d1 ! i)
      \<and> fd_maxFrameLength d1 = fd_maxFrameLength d"
    if d1: "d1 = d\<lparr>fd_payloadBlocks := fd_payloadBlocks d
                    @ [replicate (min PAYLOAD_BLOCK_SIZE (n - fd_payloadLength d)) 0],
                  fd_currentBlock := Some (length (fd_payloadBlocks d)), fd_currentBlockLength := 0\<rparr>"
      and i: "i = length (fd_payloadBlocks d)"
      and full: "concat (fd_payloadBlocks d) = payload d"
  proof -
    have "sum_list (map length (fd_payloadBlocks d)) = fd_payloadLength d"
      using full length_payload [of d n] assms(1) by (simp add: filling_def flip: length_concat)
    then show ?thesis
      using assms(1,2) d1 i full
      by (auto simp: filling_def open_inv_def blocks_inv_def payload_def PAYLOAD_BLOCK_SIZE_def)
  qed
  have "filling d1 n \<and> fd_currentBlock d1 = Some i \<and> payload d1 = payload d
      \<and> fd_payloadLength d1 = fd_payloadLength d \<and> fd_currentBlockLength d1 < length (fd_payloadBlocks d1 ! i)
      \<and> fd_maxFrameLength d1 = fd_maxFrameLength d"
  proof (cases "fd_currentBlock d")
    case None
    then show ?thesis
      using assms by (intro alloc) (auto simp: ensure_block_def payload_def filling_def blocks_inv_def)
  next
    case (Some j)
    then have len: "length (fd_payloadBlocks d) = Suc j"
      using assms(1) by (simp add: filling_def blocks_inv_def)
    show ?thesis
    proof (cases "fd_currentBlockLength d = length (fd_payloadBlocks d ! j)")
      case True
      have "concat (fd_payloadBlocks d) = concat (take j (fd_payloadBlocks d) @ [fd_payloadBlocks d ! j])"
        using blocks_snoc [OF len] by simp
      then have "concat (fd_payloadBlocks d) = payload d"
        using Some True by (simp add: payload_def)
      then show ?thesis
        using assms(3) Some True by (intro alloc) (auto simp: ensure_block_def)
    next
      case False
      then show ?thesis
        using assms Some by (auto simp: ensure_block_def filling_def blocks_inv_def)
    qed
  qed
  then show "filling d1 n" "fd_currentBlock d1 = Some i" "payload d1 = payload d"
    "fd_payloadLength d1 = fd_payloadLength d" "fd_currentBlockLength d1 < length (fd_payloadBlocks d1 ! i)"
    "fd_maxFrameLength d1 = fd_maxFrameLength d"
    by auto
qed

lemma copy_payload_spec:
  assumes "filling d n" and "fd_currentBlock d = Some i" and "off < length chunk"
    and "fd_currentBlockLength d < length (fd_payloadBlocks d ! i)" and "copy_payload d i chunk off = (d1, off1)"
  shows "filling d1 n" "off < off1" "off1 \<le> length chunk" "off1 - off \<le> n - fd_payloadLength d"
    "payload d1 = payload d @ take (off1 - off) (drop off chunk)" "fd_maxFrameLength d1 = fd_maxFrameLength d"
proof -
  define k where "k = min (length (fd_payloadBlocks d ! i) - fd_currentBlockLength d) (length chunk - off)"
  define block where "block = overwrite (fd_payloadBlocks d ! i) (fd_currentBlockLength d) (take k (drop off chunk))"
  have d1: "d1 = d\<lparr>fd_payloadBlocks := (fd_payloadBlocks d)[i := block],
      fd_currentBlockLength := fd_currentBlockLength d + k, fd_payloadLength := fd_payloadLength d + k\<rparr>"
    and off1: "off1 = off + k"
    using assms(5) by (simp_all add: copy_payload_def Let_def k_def block_def)
  have k: "0 < k" "k \<le> length chunk - off" "fd_currentBlockLength d + k \<le> length (fd_payloadBlocks d ! i)"
    using assms(3,4) by (auto simp: k_def)
  have len: "length (fd_payloadBlocks d) = Suc i" "sum_list (map length (fd_payloadBlocks d)) \<le> n"
    "fd_payloadLength d = sum_list (map length (take i (fd_payloadBlocks d))) + fd_currentBlockLength d"
    using assms(1,2) by (auto simp: filling_def blocks_inv_def)
  have block: "length block = length (fd_payloadBlocks d ! i)"
    "take (fd_currentBlockLength d + k) block = take (fd_currentBlockLength d) (fd_payloadBlocks d ! i) @ take k (drop off chunk)"
    using k take_overwrite [of "fd_currentBlockLength d" "fd_payloadBlocks d ! i" "take k (drop off chunk)"]
    by (simp_all add: block_def)
  have sums: "map length ((fd_payloadBlocks d)[i := block]) = map length (fd_payloadBlocks d)"
    using block(1) len(1) by (simp add: map_update list_update_same_conv)
  show "filling d1 n"
    using assms(1,2) k len block(1) sums by (simp add: d1 filling_def open_inv_def blocks_inv_def)
  show "off < off1" "off1 \<le> length chunk"
    using k assms(3) by (auto simp: off1)
  show "off1 - off \<le> n - fd_payloadLength d"
    using k len sum_blocks [OF len(1)] by (simp add: off1)
  show "payload d1 = payload d @ take (off1 - off) (drop off chunk)"
    using assms(2) len(1) block(2) by (simp add: d1 off1 payload_def)
  show "fd_maxFrameLength d1 = fd_maxFrameLength d"
    by (simp add: d1)
qed

lemma filling_length: "filling d n \<Longrightarrow> length (payload d) = fd_payloadLength d"
  by (auto simp: filling_def intro: length_payload)

lemma fill_payload_spec:
  assumes "filling d n" and "off \<le> length chunk"
  shows "\<exists>d'. fill_payload d chunk off n = Some (d', off + min (n - fd_payloadLength d) (length chunk - off))
    \<and> filling d' n \<and> fd_maxFrameLength d' = fd_maxFrameLength d
    \<and> payload d' = payload d @ take (n - fd_payloadLength d) (drop off chunk)"
  using assms
proof (induction "length chunk - off" arbitrary: d off rule: less_induct)
  case less
  show ?case
  proof (cases "off < length chunk \<and> fd_payloadLength d < n")
    case False
    then have "fill_payload d chunk off n = Some (d, off)"
      by (subst fill_payload.simps) auto
    then show ?thesis
      using False less.prems by auto
  next
    case True
    obtain d1 i where e: "ensure_block d n = (d1, i)"
      by (cases "ensure_block d n")
    obtain d2 off2 where c: "copy_payload d1 i chunk off = (d2, off2)"
      by (cases "copy_payload d1 i chunk off")
    note e' = ensure_block_spec [OF less.prems(1) conjunct2 [OF True] e]
    have c': "filling d2 n" "off < off2" "off2 \<le> length chunk" "off2 - off \<le> n - fd_payloadLength d1"
      "payload d2 = payload d1 @ take (off2 - off) (drop off chunk)" "fd_maxFrameLength d2 = fd_maxFrameLength d1"
      using copy_payload_spec [OF e'(1,2) conjunct1 [OF True] e'(5) c] .
    have len: "fd_payloadLength d2 = fd_payloadLength d + (off2 - off)"
      using filling_length [OF c'(1)] filling_length [OF less.prems(1)] c' e' True by simp
    have "length chunk - off2 < length chunk - off"
      using c'(2,3) by simp
    from less.hyps [OF this c'(1,3)] obtain d3 where d3: "fill_payload d2 chunk off2 n = Some (d3, off2 + min (n - fd_payloadLength d2) (length chunk - off2))"
      "filling d3 n" "fd_maxFrameLength d3 = fd_maxFrameLength d2"
      "payload d3 = payload d2 @ take (n - fd_payloadLength d2) (drop off2 chunk)"
      by blast
    have "fill_payload d chunk off n = fill_payload d2 chunk off2 n"
      using True e c by (simp add: fill_payload.simps [of d chunk off n])
    moreover have "take (off2 - off) (drop off chunk) @ take (n - fd_payloadLength d2) (drop off2 chunk)
        = take (n - fd_payloadLength d) (drop off chunk)"
      using take_add [of "off2 - off" "n - fd_payloadLength d2" "drop off chunk"] c'(2,3,4) e'(4) len True by simp
    moreover have "off2 + min (n - fd_payloadLength d2) (length chunk - off2)
        = off + min (n - fd_payloadLength d) (length chunk - off)"
      using c'(2,3,4) e'(4) len True by simp
    ultimately have "fill_payload d chunk off n = Some (d3, off + min (n - fd_payloadLength d) (length chunk - off))"
      "payload d3 = payload d @ take (n - fd_payloadLength d) (drop off chunk)"
      using d3(1,4) c'(5) e'(3) by simp_all
    then show ?thesis
      using d3(2,3) c'(6) e'(6) by (intro exI [of _ d3]) simp
  qed
qed

section \<open>The outer loop\<close>

text \<open>
  \<open>delivers res m frames spec\<close>: the result of the loop is what the specification says, with the
  frames gathered so far in front; the resulting state stands for the remaining bytes.
\<close>

definition delivers :: "(frame_decoder \<times> (frame_error + byte list list)) option \<Rightarrow> nat \<Rightarrow> byte list list
    \<Rightarrow> frame_error + byte list list \<times> byte list \<Rightarrow> bool" where
  "delivers res m frames spec \<longleftrightarrow>
     (case spec of
        Inl e \<Rightarrow> \<exists>d. res = Some (d, Err e) \<and> fd_state d = StreamFailed
      | Inr (fs, r) \<Rightarrow> \<exists>d. res = Some (d, Ok (frames @ fs)) \<and> fd_inv d \<and> fd_maxFrameLength d = m \<and> pending d = r)"

lemma delivers_frame:
  assumes "delivers res m (frames @ [p]) spec"
  shows "delivers res m frames (bind_res spec (\<lambda>(fs, r). Ok (p # fs, r)))"
  using assms by (auto simp: delivers_def split: sum.splits)

lemma pending_filling: "filling d n \<Longrightarrow> pending d = be_bytes 4 n @ payload d"
  by (simp add: filling_def pending_def)

lemma be_nat_filling: "filling d n \<Longrightarrow> be_nat (be_bytes 4 n) = n"
  by (simp add: filling_def open_inv_def MAX_FRAME_UINT32_def)

lemma length_pending: "filling d n \<Longrightarrow> length (be_bytes 4 n) = 4"
  by simp

text \<open>The payload is complete: the blocks are its consecutive pieces.\<close>

lemma copy_blocks_concat:
  "off + sum_list (map length bs) = length p \<Longrightarrow> copy_blocks p off bs = take off p @ concat bs"
proof (induction bs arbitrary: p off)
  case (Cons b bs)
  have "copy_blocks (overwrite p off b) (off + length b) bs = take (off + length b) (overwrite p off b) @ concat bs"
    using Cons.prems by (intro Cons.IH) simp
  then show ?case
    using Cons.prems take_overwrite [of off p b] by simp
qed simp

lemma complete_blocks:
  assumes "filling d n" and "fd_payloadLength d = n"
  shows "concat (fd_payloadBlocks d) = payload d" and "fd_payloadBlocks d \<noteq> []"
proof -
  obtain i where i: "fd_currentBlock d = Some i"
    using assms by (cases "fd_currentBlock d") (auto simp: filling_def blocks_inv_def)
  then have len: "length (fd_payloadBlocks d) = Suc i"
    and full: "fd_currentBlockLength d = length (fd_payloadBlocks d ! i)"
    using assms sum_blocks [of "fd_payloadBlocks d" i] by (auto simp: filling_def blocks_inv_def)
  have "concat (fd_payloadBlocks d) = concat (take i (fd_payloadBlocks d) @ [fd_payloadBlocks d ! i])"
    using blocks_snoc [OF len] by simp
  then show "concat (fd_payloadBlocks d) = payload d"
    using i full by (simp add: payload_def)
  show "fd_payloadBlocks d \<noteq> []"
    using len by auto
qed

lemma deliver_complete:
  assumes "filling d n" and "fd_payloadLength d = n"
  shows "snd (deliver_payload d n frames) = frames @ [payload d]"
    and "fd_inv (fst (deliver_payload d n frames))" and "pending (fst (deliver_payload d n frames)) = []"
    and "fd_maxFrameLength (fst (deliver_payload d n frames)) = fd_maxFrameLength d"
proof -
  note blocks = complete_blocks [OF assms]
  have "sum_list (map length (fd_payloadBlocks d)) = n"
    using blocks(1) filling_length [OF assms(1)] assms(2) by (simp flip: length_concat)
  then have "copy_blocks (replicate n 0) 0 (fd_payloadBlocks d) = payload d"
    using copy_blocks_concat [of 0 "fd_payloadBlocks d" "replicate n 0"] blocks(1) by simp
  moreover have "length (fd_payloadBlocks d) = 1 \<Longrightarrow> fd_payloadBlocks d ! 0 = payload d"
    using blocks(1) by (cases "fd_payloadBlocks d") auto
  ultimately show "snd (deliver_payload d n frames) = frames @ [payload d]"
    using assms(2) by (auto simp: deliver_payload_def)
  show "fd_inv (fst (deliver_payload d n frames))" "pending (fst (deliver_payload d n frames)) = []"
    "fd_maxFrameLength (fst (deliver_payload d n frames)) = fd_maxFrameLength d"
    using assms by (auto simp: deliver_payload_def fd_inv_def filling_def open_inv_def blocks_inv_def pending_def)
qed

lemma payload_stage:
  assumes fill: "filling d n" "fd_payloadLength d < n" and off: "off \<le> length chunk"
    and IH: "\<And>d' off' frames'. fd_inv d' \<Longrightarrow> off < off' \<Longrightarrow> off' \<le> length chunk \<Longrightarrow>
      delivers (push_loop d' chunk off' frames') (fd_maxFrameLength d') frames'
        (split_frames (fd_maxFrameLength d') (pending d' @ drop off' chunk))"
  shows "delivers (Option.bind (fill_payload d chunk off n) (\<lambda>(d, off).
      push_loop (fst (deliver_payload d n frames)) chunk off (snd (deliver_payload d n frames))))
    (fd_maxFrameLength d) frames (split_frames (fd_maxFrameLength d) (pending d @ drop off chunk))"
proof -
  let ?m = "fd_maxFrameLength d"
  define k where "k = n - fd_payloadLength d"
  obtain d' where d': "fill_payload d chunk off n = Some (d', off + min k (length chunk - off))"
    "filling d' n" "fd_maxFrameLength d' = ?m" "payload d' = payload d @ take k (drop off chunk)"
    using fill_payload_spec [OF fill(1) off] by (auto simp: k_def)
  have n: "length (payload d) + k = n" "n \<le> ?m"
    using fill filling_length [OF fill(1)] by (auto simp: k_def filling_def)
  note len = filling_length [OF d'(2)]
  show ?thesis
  proof (cases "k \<le> length chunk - off")
    case True
    then have full: "fd_payloadLength d' = n"
      using len d'(4) n by simp
    have "pending d @ drop off chunk = be_bytes 4 n @ payload d' @ drop (off + k) chunk"
      using pending_filling [OF fill(1)] d'(4)
      by (metis add.commute append.assoc append_take_drop_id drop_drop)
    moreover have "be_nat (be_bytes 4 n) = length (payload d')"
      using be_nat_filling [OF fill(1)] len full by simp
    ultimately have spec: "split_frames ?m (pending d @ drop off chunk)
        = bind_res (split_frames ?m (drop (off + k) chunk)) (\<lambda>(fs, r). Ok (payload d' # fs, r))"
      using n(2) len full by (simp add: split_frames_frame)
    have "off + min k (length chunk - off) = off + k" "0 < k" "off + k \<le> length chunk"
      using True fill(2) off by (auto simp: k_def)
    then show ?thesis
      using IH [of "fst (deliver_payload d' n frames)" "off + k" "frames @ [payload d']"]
        deliver_complete [OF d'(2) full, of frames] d'(1,3) spec by (simp add: delivers_frame)
  next
    case False
    then have short: "fd_payloadLength d' < n" "payload d' = payload d @ drop off chunk"
      using len d'(4) n by auto
    have "split_frames ?m (pending d @ drop off chunk) = Ok ([], pending d @ drop off chunk)"
      using pending_filling [OF fill(1)] be_nat_filling [OF fill(1)] n False
      by (simp add: split_frames_header)
    moreover have "push_loop d' chunk (length chunk) frames = Some (d', Ok frames)"
      by (subst push_loop.simps) simp
    moreover have "pending d' = pending d @ drop off chunk" "fd_inv d'"
      using pending_filling [OF fill(1)] pending_filling [OF d'(2)] short d'(2)
      by (auto simp: fd_inv_def filling_def)
    ultimately show ?thesis
      using d'(1,3) short(1) False off by (auto simp: delivers_def deliver_payload_def)
  qed
qed

text \<open>The header is complete after this iteration, or the chunk is used up.\<close>

lemma frame_head_short:
  assumes "fd_inv d" and "fd_expected d = None" and "off < length chunk"
    and "fd_headerLength d + (length chunk - off) < 4"
  shows "\<exists>d'. frame_head d chunk off frames = Inr (d', length chunk, frames, None) \<and> fd_inv d'
    \<and> fd_maxFrameLength d' = fd_maxFrameLength d \<and> pending d' = pending d @ drop off chunk"
proof -
  define d' where "d' = d\<lparr>fd_header := overwrite (fd_header d) (fd_headerLength d) (drop off chunk),
      fd_headerLength := fd_headerLength d + (length chunk - off)\<rparr>"
  have "min (FRAME_HEADER_LENGTH - fd_headerLength d) (length chunk - off) = length chunk - off"
    using assms(4) by (simp add: FRAME_HEADER_LENGTH_def)
  then have "frame_head d chunk off frames = Inr (d', length chunk, frames, None)"
    using assms(2,3,4) by (simp add: frame_head_def d'_def FRAME_HEADER_LENGTH_def Let_def)
  moreover have "length (fd_header d) = 4"
    using assms(1,2) by (simp add: fd_inv_def open_inv_def)
  then have "pending d' = pending d @ drop off chunk"
    using assms(2,4) take_overwrite [of "fd_headerLength d" "fd_header d" "drop off chunk"]
    by (simp add: pending_def d'_def)
  moreover have "fd_inv d'"
    using assms by (simp add: fd_inv_def open_inv_def blocks_inv_def d'_def)
  ultimately show ?thesis
    by (auto simp: d'_def)
qed

lemma frame_head_complete:
  assumes "fd_inv d" and "fd_expected d = None" and "off + k \<le> length chunk" and "fd_headerLength d + k = 4"
    and "h = pending d @ take k (drop off chunk)"
  shows "\<exists>d'. fd_inv d' \<and> fd_expected d' = None \<and> pending d' = [] \<and> fd_maxFrameLength d' = fd_maxFrameLength d
    \<and> frame_head d chunk off frames =
      (if be_nat h > fd_maxFrameLength d then Inl (fd_fail d', FrameTooLong (be_nat h) (fd_maxFrameLength d))
       else if be_nat h = 0 then Inr (d', off + k, frames @ [[]], None)
       else Inr (d'\<lparr>fd_expected := Some (be_nat h)\<rparr>, off + k, frames, Some (be_nat h)))"
proof -
  define d' where "d' = d\<lparr>fd_header := overwrite (fd_header d) (fd_headerLength d) (take k (drop off chunk)),
      fd_headerLength := 0\<rparr>"
  have header: "length (fd_header d) = 4" "fd_header d' = h"
    using assms take_overwrite [of "fd_headerLength d" "fd_header d" "take k (drop off chunk)"]
    by (simp_all add: fd_inv_def open_inv_def pending_def d'_def overwrite_def)
  have inv: "fd_inv d'" "fd_expected d' = None" "pending d' = []"
    using assms header by (simp_all add: fd_inv_def open_inv_def blocks_inv_def pending_def d'_def)
  have "length h = 4"
    using assms header(1) by (simp add: pending_def)
  then have hv: "header_value h = be_nat h"
    by (simp add: header_value_def be_nat_4)
  have reset: "d'\<lparr>fd_expected := x, fd_payloadBlocks := [], fd_currentBlock := None, fd_currentBlockLength := 0,
      fd_payloadLength := 0\<rparr> = d'\<lparr>fd_expected := x\<rparr>" for x
    using inv(1,2) by (cases d') (simp add: fd_inv_def blocks_inv_def)
  have "min (FRAME_HEADER_LENGTH - fd_headerLength d) (length chunk - off) = k"
    using assms(3,4) by (simp add: FRAME_HEADER_LENGTH_def)
  then show ?thesis
    using assms(2,4) hv header(2) reset inv
    by (intro exI [of _ d']) (simp add: frame_head_def d'_def FRAME_HEADER_LENGTH_def Let_def)
qed

lemma pending_at_rest:
  assumes "fd_inv d"
  shows "split_frames (fd_maxFrameLength d) (pending d) = Ok ([], pending d)"
proof (cases "fd_expected d")
  case None
  then show ?thesis
    using assms by (intro split_frames_short) (simp add: fd_inv_def open_inv_def pending_def)
next
  case (Some n)
  then have "filling d n" "fd_payloadLength d < n" "n \<le> fd_maxFrameLength d"
    using assms by (auto simp: fd_inv_def filling_def)
  then show ?thesis
    using pending_filling [of d n] be_nat_filling [of d n] filling_length [of d n]
    by (simp add: split_frames_header)
qed

lemma header_stage:
  assumes inv: "fd_inv d" "fd_expected d = None" and off: "off < length chunk"
    and IH: "\<And>d' off' frames'. fd_inv d' \<Longrightarrow> off < off' \<Longrightarrow> off' \<le> length chunk \<Longrightarrow>
      delivers (push_loop d' chunk off' frames') (fd_maxFrameLength d') frames'
        (split_frames (fd_maxFrameLength d') (pending d' @ drop off' chunk))"
  shows "delivers (push_loop d chunk off frames) (fd_maxFrameLength d) frames
    (split_frames (fd_maxFrameLength d) (pending d @ drop off chunk))"
proof (cases "fd_headerLength d + (length chunk - off) < 4")
  case True
  then obtain d' where "frame_head d chunk off frames = Inr (d', length chunk, frames, None)" "fd_inv d'"
    "fd_maxFrameLength d' = fd_maxFrameLength d" "pending d' = pending d @ drop off chunk"
    using frame_head_short [OF inv off] by blast
  then show ?thesis
    using IH [of d' "length chunk" frames] off by (subst push_loop.simps) simp
next
  case False
  define k where "k = 4 - fd_headerLength d"
  define h where "h = pending d @ take k (drop off chunk)"
  let ?m = "fd_maxFrameLength d" and ?n = "be_nat h"
  have hl: "length (fd_header d) = 4" "fd_headerLength d < 4"
    using inv by (simp_all add: fd_inv_def open_inv_def)
  have k: "off + k \<le> length chunk" "fd_headerLength d + k = 4" "0 < k"
    using False off hl by (auto simp: k_def)
  have h: "length h = 4" "pending d @ drop off chunk = h @ drop (off + k) chunk"
    using k hl inv(2) by (simp add: h_def pending_def)
      (metis add.commute append.assoc append_take_drop_id drop_drop h_def)
  obtain d' where d': "fd_inv d'" "fd_expected d' = None" "pending d' = []" "fd_maxFrameLength d' = ?m"
    and head: "frame_head d chunk off frames =
      (if ?n > ?m then Inl (fd_fail d', FrameTooLong ?n ?m)
       else if ?n = 0 then Inr (d', off + k, frames @ [[]], None)
       else Inr (d'\<lparr>fd_expected := Some ?n\<rparr>, off + k, frames, Some ?n))"
    using frame_head_complete [OF inv k(1,2) h_def] by blast
  consider "?n > ?m" | "?n = 0" | "0 < ?n" "?n \<le> ?m"
    by linarith
  then show ?thesis
  proof cases
    case 1
    then show ?thesis
      using off head h by (subst push_loop.simps) (simp add: split_frames_header delivers_def fd_fail_def)
  next
    case 2
    then show ?thesis
      using off head h k d' IH [of d' "off + k" "frames @ [[]]"] delivers_frame
      by (subst push_loop.simps) (simp add: split_frames_header)
  next
    case 3
    define d2 where "d2 = d'\<lparr>fd_expected := Some ?n\<rparr>"
    have d2: "filling d2 ?n" "fd_payloadLength d2 < ?n" "fd_maxFrameLength d2 = ?m" "payload d2 = []"
      using d' 3 hl inv
      by (auto simp: d2_def filling_def fd_inv_def open_inv_def blocks_inv_def payload_def pending_def)
    have "be_bytes 4 ?n = h"
      using be_bytes_be_nat [of h] h(1) by simp
    then have "pending d2 = h"
      using pending_filling [OF d2(1)] d2(4) by simp
    then show ?thesis
      using off head h 3 d2 payload_stage [OF d2(1,2) k(1), of frames] IH
      by (subst push_loop.simps) (simp add: d2_def)
  qed
qed

lemma push_loop_spec:
  assumes "fd_inv d" and "off \<le> length chunk"
  shows "delivers (push_loop d chunk off frames) (fd_maxFrameLength d) frames
    (split_frames (fd_maxFrameLength d) (pending d @ drop off chunk))"
  using assms
proof (induction "length chunk - off" arbitrary: d off frames rule: less_induct)
  case less
  have IH: "delivers (push_loop d' chunk off' frames') (fd_maxFrameLength d') frames'
      (split_frames (fd_maxFrameLength d') (pending d' @ drop off' chunk))"
    if "fd_inv d'" "off < off'" "off' \<le> length chunk" for d' off' frames'
    using less.hyps [OF _ that(1,3)] that by simp
  show ?case
  proof (cases "off < length chunk")
    case False
    then show ?thesis
      using less.prems pending_at_rest [of d]
      by (subst push_loop.simps) (simp add: delivers_def)
  next
    case off: True
    show ?thesis
    proof (cases "fd_expected d")
      case (Some n)
      then have "filling d n" "fd_payloadLength d < n"
        using less.prems(1) by (simp_all add: fd_inv_def)
      from payload_stage [OF this less.prems(2) IH, of frames] show ?thesis
        using off Some by (subst push_loop.simps) (simp add: frame_head_def)
    next
      case None
      then show ?thesis
        using header_stage [OF less.prems(1) _ off IH, of frames] by blast
    qed
  qed
qed

lemma fd_push_spec:
  assumes "fd_inv d"
  shows "delivers (fd_push d chunk) (fd_maxFrameLength d) [] (split_frames (fd_maxFrameLength d) (pending d @ chunk))"
proof -
  have "fd_state d = StreamOpen"
    using assms by (auto simp: fd_inv_def filling_def open_inv_def split: option.splits)
  then show ?thesis
    using push_loop_spec [OF assms, of 0 chunk "[]"] by (simp add: fd_push_def)
qed

text \<open>The decoder keeps the contract of an incremental decoder.\<close>

lemma fd_push_Ok:
  "fd_inv d \<Longrightarrow> split_frames (fd_maxFrameLength d) (pending d @ c) = Ok (xs, r) \<Longrightarrow>
     \<exists>d'. fd_push d c = Some (d', Ok xs) \<and> fd_inv d' \<and> fd_maxFrameLength d' = fd_maxFrameLength d \<and> pending d' = r"
  using fd_push_spec [of d c] by (auto simp: delivers_def)

lemma fd_push_Err:
  "fd_inv d \<Longrightarrow> split_frames (fd_maxFrameLength d) (pending d @ c) = Err e \<Longrightarrow>
     \<exists>d'. fd_push d c = Some (d', Err e) \<and> fd_state d' = StreamFailed"
  using fd_push_spec [of d c] by (auto simp: delivers_def)

interpretation frame_stream: exact_incremental fd_push "\<lambda>d. fd_inv d \<and> fd_maxFrameLength d = m" pending "split_frames m"
  for m
proof (unfold_locales, goal_cases)
  case (1 d c xs r)
  then show ?case
    using fd_push_Ok [of d c xs r] by auto
next
  case (2 d c e)
  then show ?case
    using fd_push_Err [of d c e] by auto
next
  case (3 d)
  then show ?case
    using pending_at_rest [of d] by simp
next
  case (4 bs cs xs r)
  then show ?case
    by (rule split_frames_append)
next
  case (6 d c e)
  then show ?case
    using fd_push_Err [of d c e] by auto
qed (simp_all add: split_frames_append_Err)

lemma new_frame_decoder_inv:
  "new_frame_decoder given = Ok d \<Longrightarrow> fd_inv d \<and> pending d = []"
  by (auto simp: new_frame_decoder_def resolveMaxFrameLength_def res_simps fd_inv_def open_inv_def pending_def
      FRAME_HEADER_LENGTH_def Let_def split: if_splits)

lemma fd_end_inv: "fd_inv d \<Longrightarrow> snd (fd_end d) = Ok () \<longleftrightarrow> pending d = []"
proof -
  assume inv: "fd_inv d"
  then have st: "fd_state d = StreamOpen" "length (fd_header d) = 4"
    by (auto simp: fd_inv_def filling_def open_inv_def split: option.splits)
  then have "fd_header d \<noteq> []"
    by auto
  moreover have "be_bytes 4 n \<noteq> []" for n
    using length_be_bytes [of 4 n] by (metis list.size(3) zero_neq_numeral)
  ultimately show ?thesis
    using inv st(1) by (cases "fd_expected d") (auto simp: fd_end_def pending_def fd_inv_def filling_def)
qed

lemma split_frames_lengths:
  "split_frames m bs = Ok (fs, r) \<Longrightarrow> length (concat fs) + length r \<le> length bs"
proof (induction "length bs" arbitrary: bs fs rule: less_induct)
  case less
  show ?case
  proof (cases rule: frame_cases [where bs = bs and m = m])
    case (frame h p q)
    then obtain gs where gs: "split_frames m q = Ok (gs, r)" "fs = p # gs"
      using less.prems by (auto simp: split_frames_frame res_simps)
    have "length (concat gs) + length r \<le> length q"
      using frame gs(1) by (intro less.hyps) auto
    then show ?thesis
      using frame(1) gs(2) by simp
  qed (use less.prems in \<open>auto simp: split_frames_short split_frames_header\<close>)
qed

lemma pending_length: "fd_inv d \<Longrightarrow> fd_payloadLength d \<le> length (pending d)"
  by (cases "fd_expected d") (auto simp: fd_inv_def pending_filling filling_length)

lemma blocks_bounded:
  assumes "fd_inv d"
  shows "sum_list (map length (fd_payloadBlocks d)) \<le> fd_payloadLength d + PAYLOAD_BLOCK_SIZE"
    and "sum_list (map length (fd_payloadBlocks d)) \<le> fd_maxFrameLength d"
  using assms sum_blocks [of "fd_payloadBlocks d"]
  by (auto simp: fd_inv_def filling_def blocks_inv_def split: option.splits)

section \<open>The contract of framing\<close>

lemma encodeFrame_eq:
  "encodeFrame p = (if length p > MAX_FRAME_UINT32 then Err FramePayloadTooLong else Ok (be_bytes 4 (length p) @ p))"
proof -
  define n where "n = length p"
  define xs where "xs = replicate (4 + n) (0 :: byte)"
  have "xs[0 := a, 1 := b, 2 := c, 3 := d] = [a, b, c, d] @ drop 4 xs" for a b c d
    using list_update_overwrite4 [of 0 xs a b c d] by (simp add: xs_def overwrite_def numeral_2_eq_2)
  moreover have "length (drop 4 xs) = n"
    by (simp add: xs_def)
  ultimately have "overwrite (xs[0 := a, 1 := b, 2 := c, 3 := d]) 4 p = [a, b, c, d] @ p" for a b c d
    by (simp add: overwrite_def n_def)
  then show ?thesis
    unfolding encodeFrame_def FRAME_HEADER_LENGTH_def be_bytes_4
    by (simp only: Let_def n_def [symmetric] xs_def [symmetric])
qed

lemma encodeFrame_inj: "encodeFrame p = Ok frame \<Longrightarrow> encodeFrame q = Ok frame \<Longrightarrow> p = q"
  using length_be_bytes [of 4] by (auto simp: encodeFrame_eq split: if_splits)

lemma assertCompleteFrame_accepts:
  "assertCompleteFrame frame given = Ok () \<longleftrightarrow>
     (\<exists>m p. resolveMaxFrameLength given = Ok m \<and> length p \<le> m \<and> encodeFrame p = Ok frame)"
proof
  assume ok: "assertCompleteFrame frame given = Ok ()"
  then obtain m where m: "resolveMaxFrameLength given = Ok m" "header_value frame \<le> m"
    and len: "length frame = 4 + header_value frame"
    by (auto simp: assertCompleteFrame_def FRAME_HEADER_LENGTH_def res_simps Let_def split: if_splits)
  have header: "header_value frame = be_nat (take 4 frame)"
    using len by (simp add: header_value_def be_nat_4)
  define p where "p = drop 4 frame"
  have p: "length p = header_value frame"
    using len by (simp add: p_def)
  have "be_bytes 4 (length p) = take 4 frame"
    using be_bytes_be_nat [of "take 4 frame"] len header p by simp
  moreover have "length p \<le> MAX_FRAME_UINT32"
    using p header be_nat_less [of "take 4 frame"] len by (simp add: MAX_FRAME_UINT32_def)
  ultimately have "encodeFrame p = Ok frame"
    by (simp add: encodeFrame_eq p_def)
  with m p show "\<exists>m p. resolveMaxFrameLength given = Ok m \<and> length p \<le> m \<and> encodeFrame p = Ok frame"
    by metis
next
  assume "\<exists>m p. resolveMaxFrameLength given = Ok m \<and> length p \<le> m \<and> encodeFrame p = Ok frame"
  then obtain m p where m: "resolveMaxFrameLength given = Ok m" "length p \<le> m"
    and frame: "frame = be_bytes 4 (length p) @ p" and p: "length p \<le> MAX_FRAME_UINT32"
    by (auto simp: encodeFrame_eq split: if_splits)
  have "header_value frame = be_nat (be_bytes 4 (length p))"
    using be_nat_4 [of "be_bytes 4 (length p)"] by (simp add: frame header_value_def nth_append)
  then have "header_value frame = length p"
    using p by (simp add: MAX_FRAME_UINT32_def)
  then show "assertCompleteFrame frame given = Ok ()"
    using m frame by (simp add: assertCompleteFrame_def FRAME_HEADER_LENGTH_def)
qed

text \<open>the frame stream round trip. When payloads within the limit are framed by \<open>encodeFrame\<close> and the
  concatenated frames reach the decoder cut into chunks in any way, the pushes deliver exactly the
  payloads, in order, and \<open>end\<close> accepts the stream.\<close>

theorem frame_stream_roundtrip:
  assumes "new_frame_decoder given = Ok d" and "list_all2 (\<lambda>p f. encodeFrame p = Ok f) payloads frames"
    and "\<forall>p\<in>set payloads. length p \<le> fd_maxFrameLength d" and "concat chunks = concat frames"
  shows "\<exists>d'. feed fd_push d chunks = Some (d', Ok payloads) \<and> snd (fd_end d') = Ok ()"
proof -
  have "split_frames (fd_maxFrameLength d) (concat frames) = Ok (payloads, [])"
    using assms(2,3)
  proof (induction rule: list_all2_induct)
    case (Cons p ps f fs)
    then have "f = be_bytes 4 (length p) @ p" "be_nat (be_bytes 4 (length p)) = length p"
      by (auto simp: encodeFrame_eq MAX_FRAME_UINT32_def split: if_splits)
    with Cons show ?case
      by (simp add: split_frames_frame)
  qed (simp add: split_frames_short)
  then obtain d' where "feed fd_push d chunks = Some (d', Ok payloads)" "fd_inv d'" "pending d' = []"
    using frame_stream.feed_ok [of d "fd_maxFrameLength d" chunks] new_frame_decoder_inv [OF assms(1)] assms(4) by auto
  then show ?thesis
    using fd_end_inv by auto
qed

definition new_decoder_16 :: frame_decoder where
  "new_decoder_16 = \<lparr>fd_header = [0, 0, 0, 0], fd_headerLength = 0, fd_maxFrameLength = 16,
     fd_payloadBlocks = [], fd_currentBlock = None, fd_currentBlockLength = 0,
     fd_expected = None, fd_payloadLength = 0, fd_state = StreamOpen\<rparr>"

lemma replicate_4: "replicate 4 x = [x, x, x, x]"
  by (simp add: numeral_eq_Suc)

lemma new_decoder_16: "new_frame_decoder (Some (JInt 16)) = Ok new_decoder_16"
  by (simp add: replicate_4 new_frame_decoder_def resolveMaxFrameLength_def new_decoder_16_def FRAME_HEADER_LENGTH_def
      MAX_FRAME_UINT32_def num_is_safe_integer_def safe_int_def max_safe_integer_def)

theorem frame_stream_roundtrip_witness:
  "\<exists>d'. feed fd_push new_decoder_16 [[0, 0], [0, 2, 7], [8, 0, 0, 0, 0, 0, 0, 0], [1, 9]] = Some (d', Ok [[7, 8], [], [9]])
     \<and> snd (fd_end d') = Ok ()"
  by (rule frame_stream_roundtrip [OF new_decoder_16, where frames = "[[0, 0, 0, 2, 7, 8], [0, 0, 0, 0], [0, 0, 0, 1, 9]]"])
    (simp_all add: encodeFrame_eq be_bytes_4 MAX_FRAME_UINT32_def to_byte_def new_decoder_16_def)

text \<open>C17: the decoder implements splitting. For every byte stream and every chunking, the pushes return
  (they never loop) and give what splitting the whole stream gives: the complete frames, or the error
  of the first header that announces more than the limit; and \<open>end\<close> then throws exactly when bytes of
  an unfinished frame are left.\<close>

theorem frame_decoder_refines:
  assumes "new_frame_decoder given = Ok d"
  shows "case split_frames (fd_maxFrameLength d) (concat chunks) of
      Inl e \<Rightarrow> \<exists>d'. feed fd_push d chunks = Some (d', Err e)
    | Inr (frames, rest) \<Rightarrow> \<exists>d'. feed fd_push d chunks = Some (d', Ok frames) \<and> (snd (fd_end d') = Ok () \<longleftrightarrow> rest = [])"
proof -
  have inv: "fd_inv d \<and> fd_maxFrameLength d = fd_maxFrameLength d" "pending d = []"
    using new_frame_decoder_inv [OF assms] by auto
  show ?thesis
    using frame_stream.feed_ok [OF inv(1), of chunks] frame_stream.feed_err [OF inv(1), of chunks] inv(2)
    by (auto simp: fd_end_inv split: sum.split)
qed

theorem frame_decoder_refines_witness:
  "(\<exists>d'. feed fd_push new_decoder_16 [[0, 0, 0], [17, 1]] = Some (d', Err (FrameTooLong 17 16)))
   \<and> (\<exists>d'. feed fd_push new_decoder_16 [[0, 0, 0], [1], [5, 0]] = Some (d', Ok [[5]]) \<and> snd (fd_end d') \<noteq> Ok ())"
proof -
  have "split_frames 16 [0, 0, 0, 17, 1] = Err (FrameTooLong 17 16)"
    using split_frames_header [of "[0, 0, 0, 17]" 16 "[1]"] by (simp add: be_nat_Cons)
  moreover have "split_frames 16 [0, 0, 0, 1, 5, 0] = Ok ([[5]], [0])"
    using split_frames_header [of "[0, 0, 0, 1]" 16 "[5, 0]"] by (simp add: be_nat_Cons split_frames_short)
  ultimately show ?thesis
    using frame_decoder_refines [OF new_decoder_16, of "[[0, 0, 0], [17, 1]]"]
      frame_decoder_refines [OF new_decoder_16, of "[[0, 0, 0], [1], [5, 0]]"] by (simp add: new_decoder_16_def)
qed

text \<open>bounded buffering. However a peer fills the stream, after any successful sequence of pushes the
  decoder holds at most 64 KiB more payload memory than it has received payload bytes, and never more
  than the configured frame limit: announcing a large frame does not make it allocate that frame.\<close>

theorem frame_buffer_bounded:
  assumes "new_frame_decoder given = Ok d" and "feed fd_push d chunks = Some (d', Ok frames)"
  shows "sum_list (map length (fd_payloadBlocks d')) \<le> fd_payloadLength d' + PAYLOAD_BLOCK_SIZE
    \<and> sum_list (map length (fd_payloadBlocks d')) \<le> fd_maxFrameLength d
    \<and> fd_payloadLength d' + length (concat frames) \<le> length (concat chunks)"
proof -
  let ?m = "fd_maxFrameLength d"
  have inv: "fd_inv d \<and> fd_maxFrameLength d = ?m" "pending d = []"
    using new_frame_decoder_inv [OF assms(1)] by auto
  obtain fs r where split: "split_frames ?m (concat chunks) = Ok (fs, r)"
    using frame_stream.feed_err [OF inv(1), of chunks] inv(2) assms(2)
    by (cases "split_frames ?m (concat chunks)") auto
  then have d': "fd_inv d'" "fd_maxFrameLength d' = ?m" "pending d' = r" "fs = frames"
    using frame_stream.feed_ok [OF inv(1), of chunks fs r] inv(2) assms(2) by auto
  then have "length (concat frames) + fd_payloadLength d' \<le> length (concat chunks)"
    using split_frames_lengths [OF split] pending_length [OF d'(1)] by simp
  then show ?thesis
    using blocks_bounded [OF d'(1)] d'(2) by simp
qed

theorem frame_buffer_bounded_witness:
  "\<exists>d'. feed fd_push new_decoder_16 [[0, 0, 0], [9, 1, 2]] = Some (d', Ok [])
     \<and> sum_list (map length (fd_payloadBlocks d')) \<le> fd_payloadLength d' + PAYLOAD_BLOCK_SIZE
     \<and> sum_list (map length (fd_payloadBlocks d')) \<le> 16 \<and> fd_payloadLength d' \<le> 6"
proof -
  have "split_frames 16 [0, 0, 0, 9, 1, 2] = Ok ([], [0, 0, 0, 9, 1, 2])"
    using split_frames_header [of "[0, 0, 0, 9]" 16 "[1, 2]"] by (simp add: be_nat_Cons)
  then obtain d' where "feed fd_push new_decoder_16 [[0, 0, 0], [9, 1, 2]] = Some (d', Ok [])"
    using frame_stream.feed_ok [of new_decoder_16 16 "[[0, 0, 0], [9, 1, 2]]"] new_frame_decoder_inv [OF new_decoder_16]
    by (auto simp: new_decoder_16_def)
  from frame_buffer_bounded [OF new_decoder_16 this] this show ?thesis
    by (auto simp: new_decoder_16_def)
qed

text \<open>\<open>assertCompleteFrame\<close> accepts exactly the frames \<open>encodeFrame\<close> produces for payloads within
  the configured limit.\<close>

theorem assertCompleteFrame_iff:
  "assertCompleteFrame frame given = Ok () \<longleftrightarrow>
     (\<exists>m p. resolveMaxFrameLength given = Ok m \<and> length p \<le> m \<and> encodeFrame p = Ok frame)"
  by (rule assertCompleteFrame_accepts)

end
