(* ===== verification/ProtocolCodec.thy ===== *)
theory ProtocolCodec
  imports Cbor Framing
begin

text \<open>
  The message codec (\<open>packages/protocol/src/codec.ts\<close>): validation of candidate messages,
  the encoders of client and server messages, and the incremental decoder of validated
  messages on top of the frame decoder. Whether a value satisfies the TypeBox schema of a
  message kind is a parameter: \<open>check_heap\<close> for a value on the sender's heap, \<open>check\<close> for
  a freshly decoded value.
\<close>

datatype message_kind = ClientKind | ServerKind

datatype codec_cause = CborCause cbor_error | FrameCause frame_error

datatype codec_error =
    InvalidMessage message_kind
  | UnableToEncode message_kind codec_cause
  | MessageDecoderFailed message_kind
  | InvalidFrame message_kind codec_cause
  | InvalidFraming message_kind codec_cause

section \<open>Validation\<close>

text \<open>
  \<open>isProtocolValue\<close> with the values still to visit as an explicit list, each with its
  \<open>optionalProperty\<close> flag and its ancestors. \<open>every\<close> does not visit the holes of an array.
\<close>

partial_function (option) protocol_values :: "js_heap \<Rightarrow> (js_value \<times> bool \<times> nat set) list \<Rightarrow> bool option" where
  [code]: "protocol_values h work =
     (case work of
        [] \<Rightarrow> Some True
      | (v, optionalProperty, ancestors) # rest \<Rightarrow>
          (case v of
             VUndefined \<Rightarrow> if optionalProperty then protocol_values h rest else Some False
           | VOther ty \<Rightarrow> Some False
           | VRef a \<Rightarrow>
               if a \<in> ancestors then Some False
               else (case h a of
                       OArray xs \<Rightarrow>
                         protocol_values h
                           (map (\<lambda>x. (x, False, insert a ancestors)) (List.map_filter (\<lambda>x. x) xs) @ rest)
                     | OPlain props enumerable_symbol null_prototype \<Rightarrow>
                         if null_prototype then Some False
                         else protocol_values h
                                (map (\<lambda>(k, x). (x, True, insert a ancestors)) props @ rest)
                     | OBytes bs \<Rightarrow> Some False
                     | OExotic \<Rightarrow> Some False)
           | _ \<Rightarrow> protocol_values h rest))"

definition isProtocolValue :: "js_heap \<Rightarrow> js_value \<Rightarrow> bool option" where
  "isProtocolValue h v = protocol_values h [(v, False, {})]"

text \<open>The same check on a decoded value, which is a finite tree without \<open>undefined\<close>.\<close>

fun isProtocolTree :: "cbor \<Rightarrow> bool" where
  "isProtocolTree (CBytes bs) = False"
| "isProtocolTree (CArray xs) = list_all isProtocolTree xs"
| "isProtocolTree (CMap es) = list_all (\<lambda>e. isProtocolTree (snd e)) es"
| "isProtocolTree t = True"

definition parse_message ::
  "message_kind \<Rightarrow> (js_heap \<Rightarrow> js_value \<Rightarrow> bool) \<Rightarrow> js_heap \<Rightarrow> js_value \<Rightarrow> (codec_error + js_value) option" where
  "parse_message kind check_heap h v =
     map_option (\<lambda>ok. if \<not> ok \<or> \<not> check_heap h v then Err (InvalidMessage kind) else Ok v) (isProtocolValue h v)"

definition parse_decoded :: "message_kind \<Rightarrow> (cbor \<Rightarrow> bool) \<Rightarrow> cbor \<Rightarrow> codec_error + cbor" where
  "parse_decoded kind check t =
     (if \<not> isProtocolTree t \<or> \<not> check t then Err (InvalidMessage kind) else Ok t)"

definition parseClientMessage ::
  "(js_heap \<Rightarrow> js_value \<Rightarrow> bool) \<Rightarrow> js_heap \<Rightarrow> js_value \<Rightarrow> (codec_error + js_value) option" where
  "parseClientMessage = parse_message ClientKind"

definition parseServerMessage ::
  "(js_heap \<Rightarrow> js_value \<Rightarrow> bool) \<Rightarrow> js_heap \<Rightarrow> js_value \<Rightarrow> (codec_error + js_value) option" where
  "parseServerMessage = parse_message ServerKind"

section \<open>Encoding\<close>

definition frame_limit :: "js_number option \<Rightarrow> js_number" where
  "frame_limit given = (case given of None \<Rightarrow> JInt (int DEFAULT_MAX_FRAME_LENGTH) | Some x \<Rightarrow> x)"

definition payload_options :: "js_number \<Rightarrow> cbor_options" where
  "payload_options limit = \<lparr>opt_maxByteLength = Some limit, opt_maxContainerLength = None, opt_maxDepth = None\<rparr>"

fun with_cause :: "('c \<Rightarrow> 'e) \<Rightarrow> 'c + 'a \<Rightarrow> 'e + 'a" where
  "with_cause f (Inl c) = Inl (f c)"
| "with_cause f (Inr x) = Inr x"

definition encodeProtocolMessage ::
  "(js_heap \<Rightarrow> js_value \<Rightarrow> (codec_error + js_value) option) \<Rightarrow> message_kind \<Rightarrow> js_heap \<Rightarrow> js_value
     \<Rightarrow> js_number option \<Rightarrow> (codec_error + byte list) option" where
  "encodeProtocolMessage parse kind h v given =
     map_option (\<lambda>parsed.
       bind_res parsed (\<lambda>validated.
       let limit = frame_limit given
       in bind_res (with_cause (\<lambda>e. UnableToEncode kind (CborCause e))
                      (encodeCbor h validated (payload_options limit))) (\<lambda>bytes.
          bind_res (with_cause (\<lambda>e. UnableToEncode kind (FrameCause e)) (encodeFrame bytes)) (\<lambda>frame.
          bind_res (with_cause (\<lambda>e. UnableToEncode kind (FrameCause e))
                      (assertCompleteFrame frame (Some limit))) (\<lambda>_. Ok frame)))))
     (parse h v)"

definition encodeClientMessage ::
  "(js_heap \<Rightarrow> js_value \<Rightarrow> bool) \<Rightarrow> js_heap \<Rightarrow> js_value \<Rightarrow> js_number option \<Rightarrow> (codec_error + byte list) option" where
  "encodeClientMessage check_heap = encodeProtocolMessage (parseClientMessage check_heap) ClientKind"

definition encodeServerMessage ::
  "(js_heap \<Rightarrow> js_value \<Rightarrow> bool) \<Rightarrow> js_heap \<Rightarrow> js_value \<Rightarrow> js_number option \<Rightarrow> (codec_error + byte list) option" where
  "encodeServerMessage check_heap = encodeProtocolMessage (parseServerMessage check_heap) ServerKind"

section \<open>The message decoder (class ValidatedMessageDecoder)\<close>

record message_decoder =
  md_failed :: bool
  md_frames :: frame_decoder
  md_kind :: message_kind
  md_maxFrameLength :: js_number

definition new_message_decoder :: "message_kind \<Rightarrow> js_number option \<Rightarrow> frame_error + message_decoder" where
  "new_message_decoder kind given =
     bind_res (new_frame_decoder given) (\<lambda>frames.
       Ok \<lparr>md_failed = False, md_frames = frames, md_kind = kind, md_maxFrameLength = frame_limit given\<rparr>)"

fun decode_frames :: "message_kind \<Rightarrow> (cbor \<Rightarrow> bool) \<Rightarrow> js_number \<Rightarrow> byte list list \<Rightarrow> codec_error + cbor list" where
  "decode_frames kind check limit [] = Ok []"
| "decode_frames kind check limit (frame # frames) =
     bind_res (with_cause (\<lambda>e. InvalidFrame kind (CborCause e)) (decodeCbor frame (payload_options limit))) (\<lambda>t.
     bind_res (parse_decoded kind check t) (\<lambda>t.
     bind_res (decode_frames kind check limit frames) (\<lambda>ts. Ok (t # ts))))"

definition md_push :: "(cbor \<Rightarrow> bool) \<Rightarrow> message_decoder \<Rightarrow> byte list
    \<Rightarrow> (message_decoder \<times> (codec_error + cbor list)) option" where
  "md_push check d chunk =
     (if md_failed d then Some (d, Err (MessageDecoderFailed (md_kind d)))
      else map_option (\<lambda>(frames, r).
             let d = d\<lparr>md_frames := frames\<rparr>;
                 messages = bind_res (with_cause (\<lambda>e. InvalidFrame (md_kind d) (FrameCause e)) r)
                              (decode_frames (md_kind d) check (md_maxFrameLength d))
             in (case messages of
                   Inl e \<Rightarrow> (d\<lparr>md_failed := True\<rparr>, Err e)
                 | Inr ms \<Rightarrow> (d, Ok ms)))
           (fd_push (md_frames d) chunk))"

definition md_end :: "message_decoder \<Rightarrow> message_decoder \<times> (codec_error + unit)" where
  "md_end d =
     (if md_failed d then (d, Err (MessageDecoderFailed (md_kind d)))
      else case fd_end (md_frames d) of
             (frames, Inl e) \<Rightarrow> (d\<lparr>md_frames := frames, md_failed := True\<rparr>, Err (InvalidFraming (md_kind d) (FrameCause e)))
           | (frames, Inr _) \<Rightarrow> (d\<lparr>md_frames := frames\<rparr>, Ok ()))"

definition PROTOCOL_VERSION :: int where "PROTOCOL_VERSION = 1"

definition isSupportedProtocolVersion :: "js_number \<Rightarrow> bool" where
  "isSupportedProtocolVersion version \<longleftrightarrow> num_is_integer version \<and> num_int version = PROTOCOL_VERSION"

end
