(* ===== verification/ProtocolCorrect.thy ===== *)
theory ProtocolCorrect
  imports ProtocolCodec CborSafety FramingCorrect
begin

text \<open>
  The message codec end to end: the validity check of the sender terminates on every finite
  heap, what the sender encodes passes the receiver's check, and a stream of encoded messages
  is decoded to exactly these messages however it is cut into chunks.
\<close>

section \<open>The validity check\<close>

lemma protocol_values_simps [simp]:
  "protocol_values h [] = Some True"
  "protocol_values h ((VUndefined, opt, anc) # rest) = (if opt then protocol_values h rest else Some False)"
  "protocol_values h ((VNull, opt, anc) # rest) = protocol_values h rest"
  "protocol_values h ((VBool b, opt, anc) # rest) = protocol_values h rest"
  "protocol_values h ((VNumber x, opt, anc) # rest) = protocol_values h rest"
  "protocol_values h ((VString s, opt, anc) # rest) = protocol_values h rest"
  "protocol_values h ((VOther ty, opt, anc) # rest) = Some False"
  by (subst protocol_values.simps, simp)+

lemma protocol_values_ref:
  "protocol_values h ((VRef a, opt, anc) # rest) =
     (if a \<in> anc then Some False
      else case h a of
          OArray xs \<Rightarrow> protocol_values h (map (\<lambda>x. (x, False, insert a anc)) (List.map_filter (\<lambda>x. x) xs) @ rest)
        | OPlain props s np \<Rightarrow>
            if np then Some False else protocol_values h (map (\<lambda>(k, x). (x, True, insert a anc)) props @ rest)
        | _ \<Rightarrow> Some False)"
  by (subst protocol_values.simps) (simp split: js_object.split)

text \<open>An item is decided on its own: the check of the list stops there or goes on with the rest.\<close>

definition decided :: "js_heap \<Rightarrow> js_value \<times> bool \<times> nat set \<Rightarrow> bool" where
  "decided h x \<longleftrightarrow> (\<exists>b. \<forall>rest. protocol_values h (x # rest) = (if b then protocol_values h rest else Some False))"

lemma decided_list:
  assumes "\<forall>x\<in>set xs. decided h x"
  shows "\<exists>b. \<forall>rest. protocol_values h (xs @ rest) = (if b then protocol_values h rest else Some False)"
  using assms
proof (induction xs)
  case (Cons x xs)
  from Cons obtain b where b: "\<forall>rest. protocol_values h (xs @ rest) = (if b then protocol_values h rest else Some False)"
    by auto
  from Cons.prems obtain c where c: "\<forall>rest. protocol_values h (x # rest) = (if c then protocol_values h rest else Some False)"
    by (auto simp: decided_def)
  show ?case
    by (rule exI [of _ "b \<and> c"]) (use b c in auto)
qed (auto intro: exI [of _ True])

text \<open>A finite heap: the objects at the addresses \<open>A\<close> refer only to each other.\<close>

definition closed_heap :: "js_heap \<Rightarrow> nat set \<Rightarrow> bool" where
  "closed_heap h A \<longleftrightarrow> finite A \<and> (\<forall>a\<in>A. \<forall>b. heap_edge h a b \<longrightarrow> b \<in> A)"

lemma in_map_filter: "x \<in> set (List.map_filter (\<lambda>x. x) xs) \<longleftrightarrow> Some x \<in> set xs"
  by (auto simp: map_filter_def image_iff)

lemma decided_ref:
  assumes "a \<notin> anc" and array: "\<And>xs x. h a = OArray xs \<Longrightarrow> Some x \<in> set xs \<Longrightarrow> decided h (x, False, insert a anc)"
    and plain: "\<And>props s np k x. h a = OPlain props s np \<Longrightarrow> (k, x) \<in> set props \<Longrightarrow> decided h (x, True, insert a anc)"
  shows "decided h (VRef a, opt, anc)"
proof (cases "h a")
  case (OArray xs)
  then have "\<forall>w\<in>set (map (\<lambda>x. (x, False, insert a anc)) (List.map_filter (\<lambda>x. x) xs)). decided h w"
    using array by (auto simp: in_map_filter)
  from decided_list [OF this] show ?thesis
    using OArray assms(1) by (simp add: decided_def protocol_values_ref)
next
  case (OPlain props s np)
  then have "\<forall>w\<in>set (map (\<lambda>(k, x). (x, True, insert a anc)) props). decided h w"
    using plain by auto
  from decided_list [OF this] show ?thesis
    using OPlain assms(1) by (cases np) (auto simp: decided_def protocol_values_ref intro: exI [of _ False])
qed (auto simp: decided_def protocol_values_ref intro: exI [of _ False])

lemma decided_primitive: "(\<And>a. v \<noteq> VRef a) \<Longrightarrow> decided h (v, opt, anc)"
  by (cases v) (auto simp: decided_def intro: exI [of _ True] exI [of _ False] exI [of _ opt])

lemma decided_value:
  assumes "closed_heap h A" and "\<And>a. v = VRef a \<Longrightarrow> a \<in> A"
  shows "decided h (v, opt, anc)"
  using assms(2)
proof (induction "card (A - anc)" arbitrary: v opt anc rule: less_induct)
  case less
  show ?case
  proof (cases "\<exists>a. v = VRef a \<and> a \<notin> anc")
    case True
    then obtain a where a: "v = VRef a" "a \<notin> anc" "a \<in> A"
      using less.prems by auto
    have "card (A - insert a anc) < card (A - anc)"
      using assms(1) a by (intro psubset_card_mono) (auto simp: closed_heap_def)
    moreover have edge: "b \<in> A" if "heap_edge h a b" for b
      using that a assms(1) by (auto simp: closed_heap_def)
    have "b \<in> A" if "h a = OArray xs" "Some (VRef b) \<in> set xs" for b xs
      using that by (intro edge) (simp add: heap_edge_def)
    moreover have "b \<in> A" if "h a = OPlain props s np" "(k, VRef b) \<in> set props" for b props s np k
      using that by (intro edge) (force simp: heap_edge_def)
    ultimately show ?thesis
      unfolding a(1) by (intro decided_ref a(2) less.hyps) auto
  next
    case False
    then show ?thesis
      by (cases v) (auto intro: decided_primitive simp: decided_def protocol_values_ref intro: exI [of _ False])
  qed
qed

lemma isProtocolValue_total:
  assumes "closed_heap h A" and "\<And>a. v = VRef a \<Longrightarrow> a \<in> A"
  shows "\<exists>b. isProtocolValue h v = Some b"
proof -
  obtain b where "protocol_values h [(v, False, {})] = (if b then protocol_values h [] else Some False)"
    using decided_value [OF assms, of v False "{}"] unfolding decided_def by blast
  then show ?thesis
    by (metis isProtocolValue_def protocol_values_simps(1))
qed

section \<open>What the sender accepts, the receiver accepts\<close>

definition forces :: "js_heap \<Rightarrow> js_value \<Rightarrow> cbor \<Rightarrow> bool" where
  "forces h v t \<longleftrightarrow> (\<forall>opt anc rest. protocol_values h ((v, opt, anc) # rest) = Some True \<longrightarrow>
     isProtocolTree t \<and> protocol_values h rest = Some True)"

lemma forces_items:
  assumes "list_all2 (\<lambda>x t. \<exists>v. x = Some v \<and> v \<noteq> VUndefined \<and> forces h v t) xs ts"
    and "protocol_values h (map (\<lambda>x. (x, False, anc)) (List.map_filter (\<lambda>x. x) xs) @ rest) = Some True"
  shows "list_all isProtocolTree ts \<and> protocol_values h rest = Some True"
  using assms
proof (induction xs ts rule: list_all2_induct)
  case (Cons x xs t ts)
  then show ?case
    by (auto simp: forces_def map_filter_simps)
qed (simp add: map_filter_simps)

lemma forces_entries:
  assumes "list_all2 (\<lambda>p q. fst p = fst q \<and> forces h (snd p) (snd q)) (filter (\<lambda>(k, x). x \<noteq> VUndefined) props) es"
    and "protocol_values h (map (\<lambda>(k, x). (x, True, anc)) props @ rest) = Some True"
  shows "list_all (\<lambda>e. isProtocolTree (snd e)) es \<and> protocol_values h rest = Some True"
  using assms
proof (induction props arbitrary: es)
  case (Cons p props)
  obtain k v where p: "p = (k, v)"
    by (cases p)
  show ?case
  proof (cases "v = VUndefined")
    case True
    then show ?thesis
      using Cons p by simp
  next
    case False
    then obtain e es' where es: "es = e # es'" "forces h v (snd e)"
      "list_all2 (\<lambda>p q. fst p = fst q \<and> forces h (snd p) (snd q)) (filter (\<lambda>(k, x). x \<noteq> VUndefined) props) es'"
      using Cons.prems(1) p by (auto simp: list_all2_Cons1)
    then show ?thesis
      using Cons.prems(2) Cons.IH [OF es(3)] p by (auto simp: forces_def)
  qed
qed simp

lemma represents_forces: "represents h v t \<Longrightarrow> forces h v t"
proof (induction rule: represents.induct)
  case (rep_array a xs ts)
  then have "list_all2 (\<lambda>x t. \<exists>v. x = Some v \<and> v \<noteq> VUndefined \<and> forces h v t) xs ts"
    by (auto elim!: list_all2_mono)
  from forces_items [OF this] show ?case
    using rep_array(1) by (auto simp: forces_def protocol_values_ref split: if_splits)
next
  case (rep_map a props np es)
  then have "list_all2 (\<lambda>p q. fst p = fst q \<and> forces h (snd p) (snd q)) (filter (\<lambda>(k, x). x \<noteq> VUndefined) props) es"
    by (auto elim!: list_all2_mono)
  from forces_entries [OF this] show ?case
    using rep_map(1) by (auto simp: forces_def protocol_values_ref split: if_splits)
qed (auto simp: forces_def protocol_values_ref split: if_splits)

lemma isProtocolValue_tree:
  "isProtocolValue h v = Some True \<Longrightarrow> represents h v t \<Longrightarrow> isProtocolTree t"
  using represents_forces [of h v t] by (auto simp: isProtocolValue_def forces_def)

section \<open>The message decoder is an incremental decoder\<close>

definition messages_of ::
  "message_kind \<Rightarrow> (cbor \<Rightarrow> bool) \<Rightarrow> js_number \<Rightarrow> nat \<Rightarrow> byte list \<Rightarrow> codec_error + cbor list \<times> byte list" where
  "messages_of kind check limit m bs =
     bind_res (with_cause (\<lambda>e. InvalidFrame kind (FrameCause e)) (split_frames m bs)) (\<lambda>(frames, rest).
     bind_res (decode_frames kind check limit frames) (\<lambda>ts. Ok (ts, rest)))"

definition md_ready :: "message_kind \<Rightarrow> js_number \<Rightarrow> nat \<Rightarrow> message_decoder \<Rightarrow> bool" where
  "md_ready kind limit m d \<longleftrightarrow> \<not> md_failed d \<and> md_kind d = kind \<and> md_maxFrameLength d = limit
     \<and> fd_inv (md_frames d) \<and> fd_maxFrameLength (md_frames d) = m"

lemma with_cause_iff [simp]:
  "with_cause f r = Inr x \<longleftrightarrow> r = Inr x" "with_cause f r = Inl e \<longleftrightarrow> (\<exists>c. r = Inl c \<and> e = f c)"
  by (cases r; auto)+

lemma decode_frames_append:
  "decode_frames kind check limit (fs @ gs) =
     bind_res (decode_frames kind check limit fs) (\<lambda>ts.
     bind_res (decode_frames kind check limit gs) (\<lambda>us. Ok (ts @ us)))"
  by (induction fs) (simp_all add: bind_res_assoc)

lemma messages_of_Ok_iff:
  "messages_of kind check limit m bs = Ok (ts, r) \<longleftrightarrow>
     (\<exists>fs. split_frames m bs = Ok (fs, r) \<and> decode_frames kind check limit fs = Ok ts)"
  by (auto simp: messages_of_def res_simps)

lemma md_push_Ok:
  assumes "md_ready kind limit m d" and "messages_of kind check limit m (pending (md_frames d) @ c) = Ok (ts, r)"
  shows "\<exists>d'. md_push check d c = Some (d', Ok ts) \<and> md_ready kind limit m d' \<and> pending (md_frames d') = r"
proof -
  obtain fs where fs: "split_frames m (pending (md_frames d) @ c) = Ok (fs, r)" "decode_frames kind check limit fs = Ok ts"
    using assms(2) by (auto simp: messages_of_Ok_iff)
  then obtain f where "fd_push (md_frames d) c = Some (f, Ok fs)" "fd_inv f" "fd_maxFrameLength f = m" "pending f = r"
    using fd_push_Ok [of "md_frames d" c fs r] assms(1) by (auto simp: md_ready_def)
  then show ?thesis
    using assms(1) fs(2) by (simp add: md_push_def md_ready_def)
qed

lemma md_push_Err:
  assumes "md_ready kind limit m d" and "messages_of kind check limit m (pending (md_frames d) @ c) = Err e"
  shows "\<exists>d'. md_push check d c = Some (d', Err e) \<and> md_failed d'"
proof (cases "split_frames m (pending (md_frames d) @ c)")
  case (Inl e')
  then obtain f where "fd_push (md_frames d) c = Some (f, Err e')"
    using fd_push_Err [of "md_frames d" c e'] assms(1) by (auto simp: md_ready_def)
  then show ?thesis
    using assms Inl by (auto simp: md_push_def md_ready_def messages_of_def)
next
  case (Inr a)
  then obtain fs r where split: "split_frames m (pending (md_frames d) @ c) = Ok (fs, r)"
    by (cases a) simp
  then obtain f where "fd_push (md_frames d) c = Some (f, Ok fs)"
    using fd_push_Ok [of "md_frames d" c fs r] assms(1) by (auto simp: md_ready_def)
  then show ?thesis
    using assms split by (auto simp: md_push_def md_ready_def messages_of_def res_simps)
qed

lemma messages_of_append:
  assumes "messages_of kind check limit m bs = Ok (ts, r)"
  shows "messages_of kind check limit m (bs @ cs) =
    bind_res (messages_of kind check limit m (r @ cs)) (\<lambda>(us, r'). Ok (ts @ us, r'))"
proof -
  obtain fs where fs: "split_frames m bs = Ok (fs, r)" "decode_frames kind check limit fs = Ok ts"
    using assms by (auto simp: messages_of_Ok_iff)
  show ?thesis
    using split_frames_append [OF fs(1), of cs] fs(2)
    by (cases "split_frames m (r @ cs)") (auto simp: messages_of_def decode_frames_append bind_res_assoc)
qed

lemma messages_of_append_Err:
  assumes "messages_of kind check limit m bs = Err e"
  shows "\<exists>e'. messages_of kind check limit m (bs @ cs) = Err e'"
proof (cases "split_frames m bs")
  case (Inl e')
  then show ?thesis
    using split_frames_append_Err [OF Inl, of cs] by (simp add: messages_of_def)
next
  case (Inr a)
  then obtain fs r where fs: "split_frames m bs = Ok (fs, r)" "decode_frames kind check limit fs = Err e"
    using assms by (cases a) (auto simp: messages_of_def res_simps)
  show ?thesis
    using split_frames_append [OF fs(1), of cs] fs(2)
    by (cases "split_frames m (r @ cs)") (auto simp: messages_of_def decode_frames_append bind_res_assoc)
qed

interpretation message_stream: incremental "md_push check" "md_ready kind limit m" "\<lambda>d. pending (md_frames d)"
    "messages_of kind check limit m"
  for check kind limit m
proof (unfold_locales, goal_cases)
  case (1 d c ts r)
  then show ?case
    by (rule md_push_Ok)
next
  case (2 d c e)
  then show ?case
    using md_push_Err by blast
next
  case (3 d)
  then show ?case
    using pending_at_rest [of "md_frames d"] by (auto simp: md_ready_def messages_of_def)
qed (rule messages_of_append messages_of_append_Err; assumption)+

section \<open>One encoded message\<close>

definition encode_message ::
  "message_kind \<Rightarrow> (js_heap \<Rightarrow> js_value \<Rightarrow> bool) \<Rightarrow> js_heap \<Rightarrow> js_value \<Rightarrow> js_number option \<Rightarrow> (codec_error + byte list) option" where
  "encode_message kind = (case kind of ClientKind \<Rightarrow> encodeClientMessage | ServerKind \<Rightarrow> encodeServerMessage)"

lemma encode_message_eq:
  "encode_message kind check_heap = encodeProtocolMessage (parse_message kind check_heap) kind"
  by (cases kind) (simp_all add: encode_message_def encodeClientMessage_def encodeServerMessage_def
      parseClientMessage_def parseServerMessage_def)

lemma resolveMaxFrameLength_limit: "resolveMaxFrameLength (Some (frame_limit given)) = resolveMaxFrameLength given"
  by (simp add: resolveMaxFrameLength_def frame_limit_def split: option.split)

lemma encode_message_Ok:
  assumes "wf_heap h" and "wf_value v" and "encode_message kind check_heap h v given = Some (Ok frame)"
  shows "\<exists>t p m. represents h v t \<and> isProtocolTree t \<and> check_heap h v
    \<and> decodeCbor p (payload_options (frame_limit given)) = Ok t
    \<and> encodeFrame p = Ok frame \<and> resolveMaxFrameLength given = Ok m \<and> length p \<le> m"
proof -
  have ok: "isProtocolValue h v = Some True" and check: "check_heap h v"
    and "\<exists>p. encodeCbor h v (payload_options (frame_limit given)) = Ok p \<and> encodeFrame p = Ok frame
      \<and> assertCompleteFrame frame (Some (frame_limit given)) = Ok ()"
    using assms(3)
    by (auto simp: encode_message_eq encodeProtocolMessage_def parse_message_def res_simps Let_def split: if_splits)
  then obtain p where p: "encodeCbor h v (payload_options (frame_limit given)) = Ok p" "encodeFrame p = Ok frame"
    "assertCompleteFrame frame (Some (frame_limit given)) = Ok ()"
    by blast
  obtain opts where opts: "resolveOptions (payload_options (frame_limit given)) = Ok opts"
    using p(1) by (auto simp: encodeCbor_def res_simps)
  obtain t where t: "represents h v t" "decodeCbor p (payload_options (frame_limit given)) = Ok t"
    using p(1) encodeCbor_Ok_iff [OF opts assms(1,2), of p] decodeCbor_enc_tree [OF opts] by auto
  obtain m q where m: "resolveMaxFrameLength given = Ok m" "length q \<le> m" "encodeFrame q = Ok frame"
    using p(3) by (auto simp: assertCompleteFrame_accepts resolveMaxFrameLength_limit)
  have "q = p"
    using m(3) p(2) by (rule encodeFrame_inj)
  then show ?thesis
    using t ok check p(2) m isProtocolValue_tree by blast
qed

lemma new_message_decoder_ready:
  assumes "new_message_decoder kind given = Ok d"
  obtains m where "resolveMaxFrameLength given = Ok m" "md_ready kind (frame_limit given) m d" "pending (md_frames d) = []"
proof -
  obtain f where f: "new_frame_decoder given = Ok f"
    "d = \<lparr>md_failed = False, md_frames = f, md_kind = kind, md_maxFrameLength = frame_limit given\<rparr>"
    using assms by (auto simp: new_message_decoder_def res_simps)
  then have "resolveMaxFrameLength given = Ok (fd_maxFrameLength f)"
    by (auto simp: new_frame_decoder_def res_simps)
  then show ?thesis
    using that f new_frame_decoder_inv [OF f(1)] by (simp add: md_ready_def)
qed

lemma md_end_ready: "md_ready kind limit m d \<Longrightarrow> pending (md_frames d) = [] \<Longrightarrow> snd (md_end d) = Ok ()"
  using fd_end_inv [of "md_frames d"]
  by (auto simp: md_end_def md_ready_def split: prod.split sum.split)

lemma messages_of_stream:
  assumes "list_all2 (\<lambda>(h, v) f. wf_heap h \<and> wf_value v \<and> encode_message kind check_heap h v given = Some (Ok f)) msgs frames"
    and "\<And>h v t. represents h v t \<Longrightarrow> check_heap h v \<Longrightarrow> check t" and m: "resolveMaxFrameLength given = Ok m"
  shows "\<exists>ts. messages_of kind check (frame_limit given) m (concat frames) = Ok (ts, [])
    \<and> list_all2 (\<lambda>(h, v) t. represents h v t) msgs ts"
  using assms(1)
proof (induction rule: list_all2_induct)
  case (Cons x msgs f frames)
  obtain h v where x: "x = (h, v)"
    by (cases x)
  obtain ts where ts: "messages_of kind check (frame_limit given) m (concat frames) = Ok (ts, [])"
    "list_all2 (\<lambda>(h, v) t. represents h v t) msgs ts"
    using Cons.IH by blast
  obtain t p where t: "represents h v t" "isProtocolTree t" "check_heap h v"
    "decodeCbor p (payload_options (frame_limit given)) = Ok t" "encodeFrame p = Ok f" "length p \<le> m"
    using encode_message_Ok [of h v kind check_heap given f] Cons.hyps(1) x m by auto
  have f: "f = be_bytes 4 (length p) @ p" "be_nat (be_bytes 4 (length p)) = length p"
    using t(5) by (auto simp: encodeFrame_eq MAX_FRAME_UINT32_def split: if_splits)
  obtain fs where "split_frames m (concat frames) = Ok (fs, [])" "decode_frames kind check (frame_limit given) fs = Ok ts"
    using ts(1) by (auto simp: messages_of_Ok_iff)
  then have "messages_of kind check (frame_limit given) m (concat (f # frames)) = Ok (t # ts, [])"
    using f t(2,3,4,6) assms(2) [OF t(1,3)]
    by (simp add: messages_of_Ok_iff split_frames_frame parse_decoded_def)
  then show ?case
    using ts(2) t(1) x by auto
qed (simp add: messages_of_Ok_iff split_frames_short)

lemma case_result:
  "(case x of Inl e \<Rightarrow> (a, Err e) | Inr y \<Rightarrow> (b, Ok y)) = (d, r) \<longleftrightarrow> r = x \<and> d = (if is_Ok x then b else a)"
  by (cases x) auto

lemma md_push_kind:
  assumes "md_push check d c = Some (d', r)"
  shows "md_kind d' = md_kind d \<and> (md_failed d' \<longleftrightarrow> \<not> is_Ok r)"
  using assms by (auto simp: md_push_def Let_def case_result dest: arg_cong [where f = md_failed] split: if_split_asm)

lemma feed_Err_failed:
  "feed (md_push check) d cs = Some (d', Err e) \<Longrightarrow> md_kind d = kind \<Longrightarrow> md_failed d' \<and> md_kind d' = kind"
  by (induction cs arbitrary: d) (auto dest!: md_push_kind split: option.split_asm sum.split_asm)

section \<open>The contract of the message codec\<close>

text \<open>C11: end-to-end delivery. When a sender encodes any sequence of messages and the bytes reach the
  receiver's decoder (with the same frame limit) cut into chunks in any way, every push succeeds, the
  decoder delivers exactly the messages that were sent, in order, and \<open>end\<close> accepts the stream. The
  only assumption on the schema validator is that it accepts a decoded value when it accepted the value
  that was sent.\<close>

theorem protocol_stream_roundtrip:
  assumes "list_all2 (\<lambda>(h, v) f. wf_heap h \<and> wf_value v \<and> encode_message kind check_heap h v given = Some (Ok f))
      messages frames"
    and "\<And>h v t. represents h v t \<Longrightarrow> check_heap h v \<Longrightarrow> check t"
    and "new_message_decoder kind given = Ok d" and "concat chunks = concat frames"
  shows "\<exists>d' ts. feed (md_push check) d chunks = Some (d', Ok ts)
    \<and> list_all2 (\<lambda>(h, v) t. represents h v t) messages ts \<and> snd (md_end d') = Ok ()"
proof -
  obtain m where m: "resolveMaxFrameLength given = Ok m" "md_ready kind (frame_limit given) m d" "pending (md_frames d) = []"
    using assms(3) by (rule new_message_decoder_ready)
  obtain ts where "messages_of kind check (frame_limit given) m (concat frames) = Ok (ts, [])"
    "list_all2 (\<lambda>(h, v) t. represents h v t) messages ts"
    using messages_of_stream [OF assms(1) _ m(1), of check] assms(2) by blast
  then show ?thesis
    using message_stream.feed_ok [OF m(2), of check chunks ts "[]"] m(3) assms(4) md_end_ready by fastforce
qed

text \<open>A concrete message, schema and decoder.\<close>

definition hello_heap :: js_heap where
  "hello_heap = (\<lambda>_. OExotic)(0 := OPlain [([0x61], VNumber (JInt 1)), ([0x62], VUndefined)] False False)"

definition object_schema_heap :: "js_heap \<Rightarrow> js_value \<Rightarrow> bool" where
  "object_schema_heap h v = (case v of VRef a \<Rightarrow> (case h a of OPlain props s np \<Rightarrow> True | _ \<Rightarrow> False) | _ \<Rightarrow> False)"

definition object_schema :: "cbor \<Rightarrow> bool" where
  "object_schema t = (case t of CMap es \<Rightarrow> True | _ \<Rightarrow> False)"

definition hello_decoder :: message_decoder where
  "hello_decoder = \<lparr>md_failed = False, md_frames = new_decoder_16, md_kind = ClientKind, md_maxFrameLength = JInt 16\<rparr>"

abbreviation hello_frame :: "byte list" where
  "hello_frame \<equiv> [0, 0, 0, 4, 0xa1, 0x61, 0x61, 1]"

lemma hello_decoder: "new_message_decoder ClientKind (Some (JInt 16)) = Ok hello_decoder"
  by (simp add: new_message_decoder_def hello_decoder_def new_decoder_16 frame_limit_def)

lemma object_schema_transfer: "represents h v t \<Longrightarrow> object_schema_heap h v \<Longrightarrow> object_schema t"
  by (auto simp: object_schema_heap_def object_schema_def elim: represents.cases split: js_value.splits js_object.splits)

definition limits_16 :: resolved_options where
  "limits_16 = \<lparr>maxByteLength = 16, maxContainerLength = 1000000, maxDepth = 64\<rparr>"

lemma limits_16: "resolveOptions (payload_options (JInt 16)) = Ok limits_16"
  by (simp add: resolveOptions_def resolveLimit_def payload_options_def limits_16_def Let_def
      DEFAULT_MAX_CBOR_CONTAINER_LENGTH_def DEFAULT_MAX_CBOR_DEPTH_def
      MAX_UINT32_def MAX_CONFIGURED_DEPTH_def num_is_safe_integer_def safe_int_def max_safe_integer_def)

definition hello_tree :: cbor where
  "hello_tree = CMap [([0x61], CNumber (JInt 1))]"

lemma hello_tree_facts:
  "enc_tree hello_tree = [0xa1, 0x61, 0x61, 1]" "fits limits_16 0 hello_tree" "represents hello_heap (VRef 0) hello_tree"
proof -
  show "enc_tree hello_tree = [0xa1, 0x61, 0x61, 1]"
    by (simp add: hello_tree_def enc_text_def text_encode_def utf8_bytes_def enc_arg_def arg_info_def arg_tail_def
        is_high_surrogate_def is_low_surrogate_def to_byte_def)
  show "fits limits_16 0 hello_tree"
    by (simp add: hello_tree_def limits_16_def fits_text_def text_encode_def utf8_bytes_def wire_number_def
        num_is_safe_integer_def safe_int_def max_safe_integer_def is_high_surrogate_def is_low_surrogate_def)
  show "represents hello_heap (VRef 0) hello_tree"
    unfolding hello_tree_def
    by (rule rep_map [where props = "[([0x61], VNumber (JInt 1)), ([0x62], VUndefined)]" and np = False])
      (auto simp: hello_heap_def intro: rep_number)
qed

lemma hello_heap_wf: "wf_heap hello_heap" "wf_value (VRef 0)"
  by (simp_all add: wf_heap_def hello_heap_def safe_int_def max_safe_integer_def)

lemma hello_encoded: "encode_message ClientKind object_schema_heap hello_heap (VRef 0) (Some (JInt 16)) = Some (Ok hello_frame)"
proof -
  have "encodeCbor hello_heap (VRef 0) (payload_options (JInt 16)) = Ok [0xa1, 0x61, 0x61, 1]"
    using encodeCbor_Ok_iff [OF limits_16 hello_heap_wf, of "[0xa1, 0x61, 0x61, 1]"] hello_tree_facts
    by (auto simp: limits_16_def intro!: exI [of _ hello_tree])
  moreover have "encodeFrame [0xa1, 0x61, 0x61, 1] = Ok hello_frame"
    by (simp add: encodeFrame_eq be_bytes_4 MAX_FRAME_UINT32_def to_byte_def)
  moreover have "assertCompleteFrame hello_frame (Some (JInt 16)) = Ok ()"
    by (simp add: assertCompleteFrame_def FRAME_HEADER_LENGTH_def header_value_def resolveMaxFrameLength_def
        MAX_FRAME_UINT32_def num_is_safe_integer_def safe_int_def max_safe_integer_def)
  moreover have "isProtocolValue hello_heap (VRef 0) = Some True"
    by (simp add: isProtocolValue_def protocol_values_ref hello_heap_def)
  ultimately show ?thesis
    by (simp add: encode_message_eq encodeProtocolMessage_def parse_message_def frame_limit_def
        object_schema_heap_def hello_heap_def)
qed

theorem protocol_stream_roundtrip_witness:
  "\<exists>d' ts. feed (md_push object_schema) hello_decoder [[0, 0, 0], [4, 0xa1, 0x61], [0x61, 1]] = Some (d', Ok ts)
    \<and> list_all2 (\<lambda>(h, v) t. represents h v t) [(hello_heap, VRef 0)] ts \<and> snd (md_end d') = Ok ()"
  by (rule protocol_stream_roundtrip [where frames = "[hello_frame]" and check_heap = object_schema_heap, OF _ object_schema_transfer hello_decoder])
    (simp_all add: hello_encoded hello_heap_wf)

text \<open>C18: only validated messages are delivered. Whatever bytes arrive, in whatever chunks, every message the
  decoder hands out consists of protocol values only, satisfies the schema of its kind and is within
  the limits of the configured frame length.\<close>

theorem decoder_delivers_valid:
  assumes "new_message_decoder kind given = Ok d" and "feed (md_push check) d chunks = Some (d', Ok ts)" and "t \<in> set ts"
  shows "isProtocolTree t \<and> check t
    \<and> (\<exists>opts. resolveOptions (payload_options (frame_limit given)) = Ok opts \<and> fits opts 0 t)"
proof -
  obtain m where m: "md_ready kind (frame_limit given) m d" "pending (md_frames d) = []"
    using assms(1) by (rule new_message_decoder_ready)
  obtain us r where us: "messages_of kind check (frame_limit given) m (concat chunks) = Ok (us, r)"
    using message_stream.feed_fails [OF m(1), of check chunks] m(2) assms(2)
    by (cases "messages_of kind check (frame_limit given) m (concat chunks)") auto
  then have "us = ts"
    using message_stream.feed_ok [OF m(1), of check chunks us r] m(2) assms(2) by auto
  with us obtain fs where "decode_frames kind check (frame_limit given) fs = Ok ts"
    by (auto simp: messages_of_Ok_iff)
  then show ?thesis
    using assms(3)
  proof (induction fs arbitrary: ts)
    case (Cons f fs)
    then show ?case
      by (auto simp: res_simps parse_decoded_def dest: decodeCbor_fits split: if_splits)
  qed simp
qed

lemma hello_feed: "\<exists>d'. feed (md_push object_schema) hello_decoder [hello_frame] = Some (d', Ok [hello_tree])"
proof -
  have "length (enc_tree hello_tree) \<le> maxByteLength limits_16"
    by (simp add: hello_tree_facts(1) limits_16_def)
  from decodeCbor_enc_tree [OF limits_16 hello_tree_facts(2) this]
  have "decodeCbor [0xa1, 0x61, 0x61, 1] (payload_options (JInt 16)) = Ok hello_tree"
    by (simp add: hello_tree_facts(1))
  then have "messages_of ClientKind object_schema (JInt 16) 16 hello_frame = Ok ([hello_tree], [])"
    using split_frames_frame [of "[0, 0, 0, 4]" "[0xa1, 0x61, 0x61, 1]" 16 "[]"]
    by (simp add: messages_of_def split_frames_short be_nat_Cons parse_decoded_def object_schema_def hello_tree_def)
  moreover have "md_ready ClientKind (JInt 16) 16 hello_decoder" "pending (md_frames hello_decoder) = []"
    using new_frame_decoder_inv [OF new_decoder_16] by (simp_all add: md_ready_def hello_decoder_def) (simp add: new_decoder_16_def)
  ultimately show ?thesis
    using message_stream.feed_ok [of ClientKind "JInt 16" 16 hello_decoder object_schema "[hello_frame]" "[hello_tree]" "[]"] by auto
qed

theorem decoder_delivers_valid_witness: "isProtocolTree hello_tree \<and> object_schema hello_tree"
  using hello_feed decoder_delivers_valid [OF hello_decoder, of object_schema "[hello_frame]" _ "[hello_tree]" hello_tree] by auto

text \<open>failure is final. Once a push has thrown, every later push and \<open>end\<close> throws and the decoder
  delivers nothing more, so no message after a corrupted part of the stream is ever acted upon.\<close>

theorem decoder_failure_final:
  assumes "new_message_decoder kind given = Ok d" and "feed (md_push check) d chunks = Some (d', Err e)"
  shows "md_push check d' c = Some (d', Err (MessageDecoderFailed kind)) \<and> md_end d' = (d', Err (MessageDecoderFailed kind))"
proof -
  obtain m where "md_ready kind (frame_limit given) m d" "pending (md_frames d) = []"
    using assms(1) by (rule new_message_decoder_ready)
  then have "md_failed d' \<and> md_kind d' = kind"
    using assms(2) by (intro feed_Err_failed) (auto simp: md_ready_def)
  then show ?thesis
    by (simp add: md_push_def md_end_def)
qed

theorem decoder_failure_final_witness:
  "\<exists>d'. feed (md_push object_schema) hello_decoder [[0, 0], [1, 0]] = Some (d', Err (InvalidFrame ClientKind (FrameCause (FrameTooLong 256 16))))
     \<and> md_push object_schema d' hello_frame = Some (d', Err (MessageDecoderFailed ClientKind))"
proof -
  have "fd_push new_decoder_16 [0, 0] = Some (new_decoder_16\<lparr>fd_headerLength := 2\<rparr>, Ok [])"
    by (simp add: fd_push_def new_decoder_16_def push_loop.simps frame_head_def FRAME_HEADER_LENGTH_def overwrite_def)
  moreover have "\<exists>f. fd_push (new_decoder_16\<lparr>fd_headerLength := 2\<rparr>) [1, 0] = Some (f, Err (FrameTooLong 256 16))"
    by (simp add: fd_push_def new_decoder_16_def push_loop.simps frame_head_def FRAME_HEADER_LENGTH_def overwrite_def
        header_value_def Let_def)
  ultimately obtain d' where "feed (md_push object_schema) hello_decoder [[0, 0], [1, 0]]
      = Some (d', Err (InvalidFrame ClientKind (FrameCause (FrameTooLong 256 16))))"
    by (auto simp: md_push_def hello_decoder_def)
  then show ?thesis
    using decoder_failure_final [OF hello_decoder] by blast
qed

text \<open>validation terminates. On every finite heap, cyclic ones included, \<open>isProtocolValue\<close> returns.\<close>

theorem isProtocolValue_terminates:
  assumes "closed_heap h A" and "\<And>a. v = VRef a \<Longrightarrow> a \<in> A"
  shows "\<exists>b. isProtocolValue h v = Some b"
  using assms by (rule isProtocolValue_total)

theorem isProtocolValue_terminates_witness: "\<exists>b. isProtocolValue cyclic_heap (VRef 0) = Some b"
  by (rule isProtocolValue_terminates [where A = "{0, 1}"])
    (auto simp: closed_heap_def heap_edge_def cyclic_heap_def split: if_splits)

end
