(* ===== verification/SessionTypes.thy ===== *)
theory SessionTypes
  imports JsNumber "HOL-Library.AList"
begin

text \<open>
  The data model of sessions (\<open>packages/agent/src/harness/session/types.ts\<close> with the message
  types of \<open>packages/ai/src/types.ts\<close> and \<open>packages/agent/src/harness/messages.ts\<close>): JSON
  values, messages, entries of the session tree, lane records, queries and errors. A field
  \<open>extra\<close> holds the properties of an object that the session code carries along without
  reading them. Identifiers, lanes and other texts are strings; a \<open>Map\<close> is an association list
  in insertion order.
\<close>

section \<open>JSON values\<close>

datatype json =
    JNull
  | JBool bool
  | JNumber js_number
  | JString string
  | JArray "json list"
  | JObject "(string \<times> json) list"

type_synonym json_fields = "(string \<times> json) list"

section \<open>Messages\<close>

record usage_cost =
  cost_input :: js_number
  cost_output :: js_number
  cost_cacheRead :: js_number
  cost_cacheWrite :: js_number
  cost_total :: js_number

record usage =
  u_input :: js_number
  u_output :: js_number
  u_cacheRead :: js_number
  u_cacheWrite :: js_number
  u_cacheWrite1h :: "js_number option"
  u_reasoning :: "js_number option"
  u_totalTokens :: js_number
  u_cost :: usage_cost

record tool_call =
  tc_id :: string
  tc_name :: string
  tc_arguments :: json_fields
  tc_extra :: json_fields

datatype content_block =
    TextBlock string json_fields
  | ImageBlock string string json_fields
  | ThinkingBlock string json_fields
  | ToolCallBlock tool_call

datatype user_content = ContentText string | ContentBlocks "content_block list"

datatype stop_reason = SR_pending | SR_stop | SR_length | SR_toolUse | SR_error | SR_aborted | SR_deferred

record deferred_handle =
  dh_provider :: string
  dh_modelId :: string
  dh_api :: string
  dh_id :: string
  dh_expiresAt :: "js_number option"
  dh_pollAfterMs :: "js_number option"
  dh_extra :: json_fields

record assistant_message =
  am_content :: "content_block list"
  am_api :: string
  am_provider :: string
  am_model :: string
  am_usage :: usage
  am_stopReason :: stop_reason
  am_isResponseCheckpoint :: bool
  am_deferred :: "deferred_handle option"
  am_timestamp :: js_number
  am_extra :: json_fields

record tool_result_message =
  tr_toolCallId :: string
  tr_toolName :: string
  tr_content :: "content_block list"
  tr_isError :: bool
  tr_usage :: "usage option"
  tr_timestamp :: js_number
  tr_extra :: json_fields

record bash_execution_message =
  be_command :: string
  be_output :: string
  be_exitCode :: "js_number option"
  be_cancelled :: bool
  be_truncated :: bool
  be_timestamp :: js_number
  be_extra :: json_fields

datatype agent_message =
    UserMessage user_content js_number json_fields
  | AssistantMessage assistant_message
  | ToolResultMessage tool_result_message
  | BashExecutionMessage bash_execution_message
  | CustomMessage string user_content bool js_number json_fields
  | BranchSummaryMessage string string js_number json_fields
  | CompactionSummaryMessage string js_number js_number json_fields
  | ApplicationMessage string json_fields

fun message_role :: "agent_message \<Rightarrow> string" where
  "message_role (UserMessage c t e) = ''user''"
| "message_role (AssistantMessage m) = ''assistant''"
| "message_role (ToolResultMessage m) = ''toolResult''"
| "message_role (BashExecutionMessage m) = ''bashExecution''"
| "message_role (CustomMessage ty c d t e) = ''custom''"
| "message_role (BranchSummaryMessage s f t e) = ''branchSummary''"
| "message_role (CompactionSummaryMessage s n t e) = ''compactionSummary''"
| "message_role (ApplicationMessage r e) = r"

section \<open>Entries\<close>

datatype entry_body =
    MessageEntry agent_message bool
  | ModelChangeEntry string string
  | ThinkingLevelEntry string
  | ActiveToolsEntry "string list"
  | CompactionEntry string "agent_message list" js_number "usage option"
  | BranchSummaryEntry string string "usage option"
  | CustomEntry string

fun entry_type :: "entry_body \<Rightarrow> string" where
  "entry_type (MessageEntry m t) = ''message''"
| "entry_type (ModelChangeEntry p m) = ''model_change''"
| "entry_type (ThinkingLevelEntry l) = ''thinking_level_change''"
| "entry_type (ActiveToolsEntry ns) = ''active_tools_change''"
| "entry_type (CompactionEntry s r n u) = ''compaction''"
| "entry_type (BranchSummaryEntry f s u) = ''branch_summary''"
| "entry_type (CustomEntry ty) = ''custom''"

record provisioned_entry =
  pe_id :: string
  pe_body :: entry_body
  pe_extra :: json_fields

record entry =
  e_id :: string
  e_seq :: nat
  e_parentId :: "string option"
  e_timestamp :: nat
  e_body :: entry_body
  e_extra :: json_fields

section \<open>Lane records\<close>

datatype intent =
    RunIntent "agent_message list" "provisioned_entry list" "string option" "json_fields option"
  | CompactionIntent "string option" string
  | NavigationIntent "string option" bool "string option" "string option" "string option"

datatype operation_kind = RunKind | CompactionKind | NavigationKind

fun intent_kind :: "intent \<Rightarrow> operation_kind" where
  "intent_kind (RunIntent p i s r) = RunKind"
| "intent_kind (CompactionIntent c r) = CompactionKind"
| "intent_kind (NavigationIntent t s c l e) = NavigationKind"

datatype operation_outcome = Completed | AbortedOutcome | FailedOutcome | Declined
datatype step_kind = AssistantStep | CompactionStep | BranchSummaryStep
datatype tool_replay = ReplayNever | ReplaySafe
datatype queue_kind = SteerQueue | FollowUpQueue | NextRunQueue
datatype step_usage_cause = AssistantUsage | CompactionUsage | BranchSummaryUsage | DeferredFetchUsage

datatype usage_cause =
    StepUsage step_usage_cause string string nat stop_reason
  | ToolUsage string string string
  | HookUsage string string
  | AdjustmentUsage "string option" "string option"

text \<open>
  The compaction reason of a step attempt is not restricted by the durable format unless the
  step is a compaction, so it is an optional JSON value; the reducer checks it.
\<close>

record tool_start =
  ts_runId :: string
  ts_assistantEntryId :: string
  ts_toolIndex :: nat
  ts_toolCallId :: string
  ts_toolName :: string
  ts_effectiveArgs :: json_fields
  ts_resultEntryId :: string
  ts_operationId :: "string option"
  ts_replay :: tool_replay

record step_attempt =
  sa_runId :: string
  sa_step :: step_kind
  sa_attempt :: nat
  sa_resultEntryId :: string
  sa_compactionReason :: "json option"

record checkpoint =
  cp_runId :: string
  cp_resultEntryId :: string
  cp_attempt :: nat
  cp_message :: assistant_message
  cp_continuationFailure :: "assistant_message option"
  cp_retryAttempt :: "nat option"

datatype record_body =
    OperationStarted "string option" intent
  | AbortRequested string
  | PauseRequested string
  | PauseCleared string
  | OperationFinished string operation_outcome "(string \<times> string \<times> json_fields) option"
  | StepAttempt step_attempt
  | ToolStarted tool_start
  | ToolReconciliation string string string string "tool_result_message option"
  | ToolReconciled string string string
  | AssistantCheckpoint checkpoint
  | QueueEnqueued queue_kind "string option" provisioned_entry
  | QueueCancelled "string option" string
  | WriteDeferred string provisioned_entry
  | UsageRecord usage usage_cause

fun record_type :: "record_body \<Rightarrow> string" where
  "record_type (OperationStarted l i) = ''operation_started''"
| "record_type (AbortRequested r) = ''abort_requested''"
| "record_type (PauseRequested r) = ''pause_requested''"
| "record_type (PauseCleared r) = ''pause_cleared''"
| "record_type (OperationFinished r out e) = ''operation_finished''"
| "record_type (StepAttempt a) = ''step_attempt''"
| "record_type (ToolStarted t) = ''tool_started''"
| "record_type (ToolReconciliation r c e re d) = ''tool_reconciliation''"
| "record_type (ToolReconciled r c e) = ''tool_reconciled''"
| "record_type (AssistantCheckpoint c) = ''assistant_checkpoint''"
| "record_type (QueueEnqueued q r t) = ''queue_enqueued''"
| "record_type (QueueCancelled r e) = ''queue_cancelled''"
| "record_type (WriteDeferred r t) = ''write_deferred''"
| "record_type (UsageRecord u c) = ''usage''"

fun usage_run_id :: "usage_cause \<Rightarrow> string option" where
  "usage_run_id (StepUsage c r e a s) = Some r"
| "usage_run_id (ToolUsage r e t) = Some r"
| "usage_run_id (HookUsage r e) = Some r"
| "usage_run_id (AdjustmentUsage r e) = r"

text \<open>The \<open>runId\<close> property of a record, \<open>None\<close> when it has none.\<close>

fun run_id :: "record_body \<Rightarrow> string option" where
  "run_id (OperationStarted l i) = None"
| "run_id (AbortRequested r) = Some r"
| "run_id (PauseRequested r) = Some r"
| "run_id (PauseCleared r) = Some r"
| "run_id (OperationFinished r out e) = Some r"
| "run_id (StepAttempt a) = Some (sa_runId a)"
| "run_id (ToolStarted t) = Some (ts_runId t)"
| "run_id (ToolReconciliation r c e re d) = Some r"
| "run_id (ToolReconciled r c e) = Some r"
| "run_id (AssistantCheckpoint c) = Some (cp_runId c)"
| "run_id (QueueEnqueued q r t) = r"
| "run_id (QueueCancelled r e) = r"
| "run_id (WriteDeferred r t) = Some r"
| "run_id (UsageRecord u c) = usage_run_id c"

record new_record =
  nr_id :: string
  nr_lane :: string
  nr_body :: record_body
  nr_extra :: json_fields

record lane_record =
  r_id :: string
  r_seq :: nat
  r_lane :: string
  r_timestamp :: nat
  r_body :: record_body
  r_extra :: json_fields

section \<open>Queries, statistics, log\<close>

datatype entry_order = NewestFirst | OldestFirst

record entry_query =
  q_type :: "string option"
  q_customType :: "string option"
  q_order :: "entry_order option"
  q_limit :: "js_number option"
  q_cursor :: "js_number option"

record branch_bounds =
  b_start :: "string option"
  b_stopAtType :: "string option"
  b_stopAtId :: "string option"

record record_query =
  rq_lane :: "string option"
  rq_type :: "string option"
  rq_runId :: "string option"
  rq_operationKind :: "operation_kind option"
  rq_afterSeq :: "js_number option"
  rq_order :: "entry_order option"
  rq_limit :: "js_number option"

record session_metadata =
  sm_id :: string
  sm_createdAt :: nat
  sm_parentSessionId :: "string option"

record session_stats =
  st_messageCount :: nat
  st_cachedTokens :: js_number
  st_uncachedTokens :: js_number
  st_totalTokens :: js_number
  st_costTotal :: js_number

type_synonym lane_pointer = "string \<times> string option"

datatype log_item =
    LogEntry nat entry
  | LogRecord nat lane_record
  | LogLane nat string "string option"
  | LogName nat "string option"
  | LogLabel nat string "string option"

fun log_seq :: "log_item \<Rightarrow> nat" where
  "log_seq (LogEntry n e) = n"
| "log_seq (LogRecord n r) = n"
| "log_seq (LogLane n l x) = n"
| "log_seq (LogName n x) = n"
| "log_seq (LogLabel n t x) = n"

datatype fork_position = ForkBefore | ForkAt

datatype fork_options =
    ForkTree
  | ForkBranch "string option" "fork_position option"

section \<open>Errors\<close>

datatype session_error_code =
    not_found | already_exists | invalid_entry | invalid_payload | invalid_lane | invalid_query
  | invalid_fork_target | storage

datatype session_detail =
    NonConsecutiveSeq nat
  | DuplicateId string
  | MissingLane string
  | NotChained
  | MissingParent string
  | MissingLaneTarget string
  | MissingLabelTarget string
  | LaneNotFound string
  | LaneExists string
  | EntryNotFound string
  | IdExists string
  | BadLimit
  | BadCursor
  | NotAMessage string
  | BranchCycle string
  | OperationOpen string string
  | KindWithoutType
  | PayloadProblem string
  | SessionExists string
  | SessionNotFound string

datatype session_error = SessionError session_error_code session_detail

end
