(* ===== verification/SessionState.thy ===== *)
theory SessionState
  imports SessionTypes
begin

text \<open>
  The in-memory state of a session and its only state transition \<open>applyMutation\<close>, with the
  queries over it (\<open>packages/agent/src/harness/session/state.ts\<close>). Every guard of
  \<open>applyMutation\<close> precedes the first assignment, so an error leaves the state as it was.
\<close>

datatype session_mutation =
    EntryMutation "string option" entry
  | RecordMutation lane_record
  | LaneMutation nat string "string option"
  | NameMutation nat "string option"
  | LabelMutation nat string "string option"

fun mutation_seq :: "session_mutation \<Rightarrow> nat" where
  "mutation_seq (EntryMutation l e) = e_seq e"
| "mutation_seq (RecordMutation r) = r_seq r"
| "mutation_seq (LaneMutation n l x) = n"
| "mutation_seq (NameMutation n x) = n"
| "mutation_seq (LabelMutation n t x) = n"

definition assertValidLimit :: "js_number option \<Rightarrow> session_error + unit" where
  "assertValidLimit limit =
     (case limit of
        None \<Rightarrow> Ok ()
      | Some n \<Rightarrow> guard_res (num_is_integer n \<and> num_int n > 0) (SessionError invalid_query BadLimit))"

definition assertValidCursor :: "js_number option \<Rightarrow> session_error + unit" where
  "assertValidCursor afterSeq =
     (case afterSeq of
        None \<Rightarrow> Ok ()
      | Some n \<Rightarrow> guard_res (num_is_integer n \<and> num_int n \<ge> 0) (SessionError invalid_query BadCursor))"

definition ordered :: "'a list \<Rightarrow> entry_order option \<Rightarrow> 'a list" where
  "ordered items order = (if order = Some OldestFirst then items else rev items)"

section \<open>The state\<close>

record session_state =
  ss_sequence :: nat
  ss_usedIds :: "string list"
  ss_entries :: "entry list"
  ss_entriesById :: "(string \<times> entry) list"
  ss_records :: "lane_record list"
  ss_openOperations :: "(string \<times> (string \<times> lane_record) list) list"
  ss_lanes :: "(string \<times> string option) list"
  ss_log :: "log_item list"
  ss_stats :: session_stats
  ss_name :: "string option"
  ss_labels :: "(string \<times> string) list"

definition empty_stats :: session_stats where
  "empty_stats = \<lparr>st_messageCount = 0, st_cachedTokens = JInt 0, st_uncachedTokens = JInt 0,
     st_totalTokens = JInt 0, st_costTotal = JInt 0\<rparr>"

definition new_session_state :: session_state where
  "new_session_state = \<lparr>ss_sequence = 0, ss_usedIds = [], ss_entries = [], ss_entriesById = [], ss_records = [],
     ss_openOperations = [], ss_lanes = [(''main'', None)], ss_log = [], ss_stats = empty_stats, ss_name = None,
     ss_labels = []\<rparr>"

definition nextSequence :: "session_state \<Rightarrow> nat" where
  "nextSequence s = ss_sequence s + 1"

definition getLanes :: "session_state \<Rightarrow> lane_pointer list" where
  "getLanes s = ss_lanes s"

definition requireLane :: "session_state \<Rightarrow> string \<Rightarrow> session_error + string option" where
  "requireLane s lane =
     (case map_of (ss_lanes s) lane of
        None \<Rightarrow> Err (SessionError invalid_lane (LaneNotFound lane))
      | Some leafId \<Rightarrow> Ok leafId)"

definition validateNewLane :: "session_state \<Rightarrow> string \<Rightarrow> session_error + unit" where
  "validateNewLane s lane =
     guard_res (map_of (ss_lanes s) lane = None) (SessionError already_exists (LaneExists lane))"

definition has_entry :: "session_state \<Rightarrow> string \<Rightarrow> bool" where
  "has_entry s k \<longleftrightarrow> map_of (ss_entriesById s) k \<noteq> None"

definition validateTarget :: "session_state \<Rightarrow> string option \<Rightarrow> session_error + unit" where
  "validateTarget s targetId =
     (case targetId of
        None \<Rightarrow> Ok ()
      | Some t \<Rightarrow> guard_res (has_entry s t) (SessionError not_found (EntryNotFound t)))"

definition validateUnusedId :: "session_state \<Rightarrow> string \<Rightarrow> session_error + unit" where
  "validateUnusedId s k = guard_res (k \<notin> set (ss_usedIds s)) (SessionError already_exists (IdExists k))"

section \<open>The transition\<close>

definition invalid_mutation :: "session_detail \<Rightarrow> session_error" where
  "invalid_mutation detail = SessionError invalid_entry detail"

definition count_message :: "entry \<Rightarrow> session_stats \<Rightarrow> session_stats" where
  "count_message e st =
     (case e_body e of MessageEntry m t \<Rightarrow> st\<lparr>st_messageCount := st_messageCount st + 1\<rparr> | _ \<Rightarrow> st)"

definition apply_entry :: "session_state \<Rightarrow> string option \<Rightarrow> entry \<Rightarrow> session_error + session_state" where
  "apply_entry s lane e =
     bind_res (guard_res (e_id e \<notin> set (ss_usedIds s)) (invalid_mutation (DuplicateId (e_id e)))) (\<lambda>_.
     bind_res (case lane of
                 None \<Rightarrow> Ok ()
               | Some l \<Rightarrow>
                   (case map_of (ss_lanes s) l of
                      None \<Rightarrow> Err (invalid_mutation (MissingLane l))
                    | Some leafId \<Rightarrow> guard_res (e_parentId e = leafId) (invalid_mutation NotChained))) (\<lambda>_.
     bind_res (case e_parentId e of
                 None \<Rightarrow> Ok ()
               | Some p \<Rightarrow> guard_res (has_entry s p) (invalid_mutation (MissingParent p))) (\<lambda>_.
     Ok (s\<lparr>ss_sequence := e_seq e,
           ss_usedIds := e_id e # ss_usedIds s,
           ss_entries := ss_entries s @ [e],
           ss_entriesById := AList.update (e_id e) e (ss_entriesById s),
           ss_lanes := (case lane of None \<Rightarrow> ss_lanes s | Some l \<Rightarrow> AList.update l (Some (e_id e)) (ss_lanes s)),
           ss_log := ss_log s @ [LogEntry (e_seq e) e],
           ss_stats := count_message e (ss_stats s)\<rparr>))))"

definition track_operation :: "lane_record \<Rightarrow> (string \<times> (string \<times> lane_record) list) list
    \<Rightarrow> (string \<times> (string \<times> lane_record) list) list" where
  "track_operation r ops =
     (case r_body r of
        OperationStarted l i \<Rightarrow>
          (let openOperations = (case map_of ops (r_lane r) of None \<Rightarrow> [] | Some m \<Rightarrow> m)
           in AList.update (r_lane r) (AList.update (r_id r) r openOperations) ops)
      | OperationFinished runId out err \<Rightarrow>
          (case map_of ops (r_lane r) of
             None \<Rightarrow> ops
           | Some m \<Rightarrow> AList.update (r_lane r) (AList.delete runId m) ops)
      | _ \<Rightarrow> ops)"

definition count_usage :: "lane_record \<Rightarrow> session_stats \<Rightarrow> session_stats" where
  "count_usage r st =
     (case r_body r of
        UsageRecord u c \<Rightarrow>
          st\<lparr>st_cachedTokens := num_add (st_cachedTokens st) (u_cacheRead u),
             st_uncachedTokens := num_add (st_uncachedTokens st) (num_add (u_input u) (u_cacheWrite u)),
             st_totalTokens := num_add (st_totalTokens st) (u_totalTokens u),
             st_costTotal := num_add (st_costTotal st) (cost_total (u_cost u))\<rparr>
      | _ \<Rightarrow> st)"

definition apply_record :: "session_state \<Rightarrow> lane_record \<Rightarrow> session_error + session_state" where
  "apply_record s r =
     bind_res (guard_res (map_of (ss_lanes s) (r_lane r) \<noteq> None) (invalid_mutation (MissingLane (r_lane r)))) (\<lambda>_.
     bind_res (guard_res (r_id r \<notin> set (ss_usedIds s)) (invalid_mutation (DuplicateId (r_id r)))) (\<lambda>_.
     Ok (s\<lparr>ss_sequence := r_seq r,
           ss_usedIds := r_id r # ss_usedIds s,
           ss_records := ss_records s @ [r],
           ss_openOperations := track_operation r (ss_openOperations s),
           ss_log := ss_log s @ [LogRecord (r_seq r) r],
           ss_stats := count_usage r (ss_stats s)\<rparr>)))"

definition apply_lane :: "session_state \<Rightarrow> nat \<Rightarrow> string \<Rightarrow> string option \<Rightarrow> session_error + session_state" where
  "apply_lane s n lane leafId =
     bind_res (case leafId of
                 None \<Rightarrow> Ok ()
               | Some t \<Rightarrow> guard_res (has_entry s t) (invalid_mutation (MissingLaneTarget t))) (\<lambda>_.
     Ok (s\<lparr>ss_sequence := n, ss_lanes := AList.update lane leafId (ss_lanes s),
           ss_log := ss_log s @ [LogLane n lane leafId]\<rparr>))"

definition apply_name :: "session_state \<Rightarrow> nat \<Rightarrow> string option \<Rightarrow> session_error + session_state" where
  "apply_name s n name = Ok (s\<lparr>ss_sequence := n, ss_name := name, ss_log := ss_log s @ [LogName n name]\<rparr>)"

definition apply_label :: "session_state \<Rightarrow> nat \<Rightarrow> string \<Rightarrow> string option \<Rightarrow> session_error + session_state" where
  "apply_label s n targetId label =
     bind_res (guard_res (has_entry s targetId) (invalid_mutation (MissingLabelTarget targetId))) (\<lambda>_.
     Ok (s\<lparr>ss_sequence := n,
           ss_labels := (case label of None \<Rightarrow> AList.delete targetId (ss_labels s)
                                     | Some x \<Rightarrow> AList.update targetId x (ss_labels s)),
           ss_log := ss_log s @ [LogLabel n targetId label]\<rparr>))"

definition applyMutation :: "session_state \<Rightarrow> session_mutation \<Rightarrow> session_error + session_state" where
  "applyMutation s mutation =
     bind_res (guard_res (mutation_seq mutation = ss_sequence s + 1)
                (invalid_mutation (NonConsecutiveSeq (mutation_seq mutation)))) (\<lambda>_.
     case mutation of
       EntryMutation lane e \<Rightarrow> apply_entry s lane e
     | RecordMutation r \<Rightarrow> apply_record s r
     | LaneMutation n lane leafId \<Rightarrow> apply_lane s n lane leafId
     | NameMutation n name \<Rightarrow> apply_name s n name
     | LabelMutation n targetId label \<Rightarrow> apply_label s n targetId label)"

section \<open>Queries\<close>

definition getEntry :: "session_state \<Rightarrow> string \<Rightarrow> entry option" where
  "getEntry s k = map_of (ss_entriesById s) k"

text \<open>The collecting loops: skip what does not match, stop once \<open>limit\<close> results are found.\<close>

fun collect :: "('a \<Rightarrow> bool) \<Rightarrow> js_number option \<Rightarrow> 'a list \<Rightarrow> 'a list \<Rightarrow> 'a list" where
  "collect p limit results [] = results"
| "collect p limit results (x # xs) =
     (if \<not> p x then collect p limit results xs
      else let results = results @ [x]
           in if Some (JInt (int (length results))) = limit then results else collect p limit results xs)"

definition matchesEntryQuery :: "entry \<Rightarrow> entry_query \<Rightarrow> bool" where
  "matchesEntryQuery e q \<longleftrightarrow>
     (q_type q = None \<or> q_type q = Some (entry_type (e_body e)))
     \<and> (q_customType q = None \<or> (\<exists>ty. e_body e = CustomEntry ty \<and> q_customType q = Some ty))
     \<and> (case q_cursor q of
          None \<Rightarrow> True
        | Some n \<Rightarrow> if q_order q = Some OldestFirst then int (e_seq e) > num_int n else int (e_seq e) < num_int n)"

definition findEntries :: "session_state \<Rightarrow> entry_query \<Rightarrow> session_error + entry list" where
  "findEntries s q =
     bind_res (assertValidLimit (q_limit q)) (\<lambda>_.
     bind_res (assertValidCursor (q_cursor q)) (\<lambda>_.
     Ok (collect (\<lambda>e. matchesEntryQuery e q) (q_limit q) [] (ordered (ss_entries s) (q_order q)))))"

text \<open>
  \<open>walkToRoot\<close> is a generator: the entries it yields, and the error it throws when the
  consumer asks for one more, if any.
\<close>

definition at_bound :: "entry \<Rightarrow> string option \<Rightarrow> string option \<Rightarrow> bool" where
  "at_bound e stopAtId stopAtType \<longleftrightarrow> stopAtId = Some (e_id e) \<or> stopAtType = Some (entry_type (e_body e))"

function walk_from :: "(string \<times> entry) list \<Rightarrow> string option \<Rightarrow> string option \<Rightarrow> string set \<Rightarrow> string \<Rightarrow> session_error
    \<Rightarrow> entry list \<times> session_error option" where
  "walk_from m stopAtId stopAtType visited k missing =
     (case map_of m k of
        None \<Rightarrow> ([], Some missing)
      | Some current \<Rightarrow>
          if e_id current \<in> visited then ([], Some (SessionError invalid_entry (BranchCycle (e_id current))))
          else if at_bound current stopAtId stopAtType then ([current], None)
          else (case e_parentId current of
                  None \<Rightarrow> ([current], None)
                | Some parentId \<Rightarrow>
                    (let (rest, e) = walk_from m stopAtId stopAtType (insert (e_id current) visited) parentId
                                       (SessionError invalid_entry (EntryNotFound parentId))
                     in (current # rest, e))))"
  by auto
termination
proof (relation "measure (\<lambda>(m, i, t, visited, k, e). card (e_id ` snd ` set m - visited))", goal_cases)
  case (2 m i t visited k missing current parentId)
  then have "e_id current \<in> e_id ` snd ` set m - visited"
    by (auto dest!: map_of_SomeD intro: rev_image_eqI)
  then have "e_id ` snd ` set m - insert (e_id current) visited \<subset> e_id ` snd ` set m - visited"
    by blast
  then show ?case
    by (simp add: psubset_card_mono)
qed simp

declare walk_from.simps [simp del]

definition walkToRoot :: "session_state \<Rightarrow> string option \<Rightarrow> string option \<Rightarrow> string option
    \<Rightarrow> entry list \<times> session_error option" where
  "walkToRoot s start stopAtId stopAtType =
     (case start of
        None \<Rightarrow> ([], None)
      | Some k \<Rightarrow> walk_from (ss_entriesById s) stopAtId stopAtType {} k (SessionError not_found (EntryNotFound k)))"

text \<open>The consumer of the oldest-first scan stops at the bound or at the limit.\<close>

fun collect_until :: "('a \<Rightarrow> bool) \<Rightarrow> ('a \<Rightarrow> bool) \<Rightarrow> js_number option \<Rightarrow> 'a list \<Rightarrow> 'a list \<Rightarrow> 'a list" where
  "collect_until p stop limit results [] = results"
| "collect_until p stop limit results (x # xs) =
     (let results = (if p x then results @ [x] else results)
      in if stop x \<or> Some (JInt (int (length results))) = limit then results
         else collect_until p stop limit results xs)"

text \<open>
  The consumer of the newest-first scan over the generator: it returns when the limit is
  reached; otherwise it runs into the error of the generator, if there is one.
\<close>

fun consume :: "('a \<Rightarrow> bool) \<Rightarrow> js_number option \<Rightarrow> 'a list \<Rightarrow> 'a list \<Rightarrow> 'e option \<Rightarrow> 'e + 'a list" where
  "consume p limit results [] e = (case e of None \<Rightarrow> Ok results | Some err \<Rightarrow> Err err)"
| "consume p limit results (x # xs) e =
     (let results = (if p x then results @ [x] else results)
      in if Some (JInt (int (length results))) = limit then Ok results else consume p limit results xs e)"

definition findEntriesOnBranch :: "session_state \<Rightarrow> entry_query \<Rightarrow> string option \<Rightarrow> string option \<Rightarrow> string
    \<Rightarrow> session_error + entry list" where
  "findEntriesOnBranch s q stopAtId stopAtType start =
     bind_res (assertValidLimit (q_limit q)) (\<lambda>_.
     bind_res (assertValidCursor (q_cursor q)) (\<lambda>_.
     if q_order q = Some OldestFirst then
       (case walkToRoot s (Some start) None None of
          (path, Some e) \<Rightarrow> Err e
        | (path, None) \<Rightarrow>
            Ok (collect_until (\<lambda>e. matchesEntryQuery e q) (\<lambda>e. at_bound e stopAtId stopAtType) (q_limit q) [] (rev path)))
     else
       (case walkToRoot s (Some start) stopAtId stopAtType of
          (path, e) \<Rightarrow> consume (\<lambda>e. matchesEntryQuery e q) (q_limit q) [] path e)))"

definition matchesRecordQuery :: "lane_record \<Rightarrow> record_query \<Rightarrow> bool" where
  "matchesRecordQuery r q \<longleftrightarrow>
     (rq_lane q = None \<or> rq_lane q = Some (r_lane r))
     \<and> (rq_type q = None \<or> rq_type q = Some (record_type (r_body r)))
     \<and> (case rq_runId q of
          None \<Rightarrow> True
        | Some k \<Rightarrow> (case r_body r of OperationStarted l i \<Rightarrow> r_id r = k | _ \<Rightarrow> run_id (r_body r) = Some k))
     \<and> (case rq_operationKind q of
          None \<Rightarrow> True
        | Some kind \<Rightarrow> (case r_body r of OperationStarted l i \<Rightarrow> intent_kind i = kind | _ \<Rightarrow> False))
     \<and> (case rq_afterSeq q of None \<Rightarrow> True | Some n \<Rightarrow> int (r_seq r) > num_int n)"

definition findRecords :: "session_state \<Rightarrow> record_query \<Rightarrow> session_error + lane_record list" where
  "findRecords s q =
     bind_res (assertValidLimit (rq_limit q)) (\<lambda>_.
     bind_res (assertValidCursor (rq_afterSeq q)) (\<lambda>_.
     Ok (collect (\<lambda>r. matchesRecordQuery r q) (rq_limit q) [] (ordered (ss_records s) (rq_order q)))))"

definition findOpenOperations :: "session_state \<Rightarrow> string \<Rightarrow> js_number option \<Rightarrow> session_error + lane_record list" where
  "findOpenOperations s lane limit =
     bind_res (assertValidLimit limit) (\<lambda>_.
     let openOperations = (case map_of (ss_openOperations s) lane of None \<Rightarrow> [] | Some m \<Rightarrow> rev (map snd m))
     in Ok (case limit of None \<Rightarrow> openOperations | Some n \<Rightarrow> take (nat (num_int n)) openOperations))"

definition getLog :: "session_state \<Rightarrow> js_number option \<Rightarrow> js_number option \<Rightarrow> session_error + log_item list" where
  "getLog s afterSeq limit =
     bind_res (assertValidLimit limit) (\<lambda>_.
     bind_res (assertValidCursor afterSeq) (\<lambda>_.
     Ok (collect (\<lambda>x. case afterSeq of None \<Rightarrow> True | Some n \<Rightarrow> int (log_seq x) > num_int n) limit [] (ss_log s))))"

definition getName :: "session_state \<Rightarrow> string option" where
  "getName s = ss_name s"

definition getLabel :: "session_state \<Rightarrow> string \<Rightarrow> string option" where
  "getLabel s k = map_of (ss_labels s) k"

definition getStats :: "session_state \<Rightarrow> session_stats" where
  "getStats s = ss_stats s"

section \<open>Forks\<close>

definition any_entry :: entry_query where
  "any_entry = \<lparr>q_type = None, q_customType = None, q_order = Some OldestFirst, q_limit = None, q_cursor = None\<rparr>"

definition fork_target :: "session_state \<Rightarrow> string option \<Rightarrow> fork_position option \<Rightarrow> session_error + string option" where
  "fork_target s entryId position =
     bind_res (case entryId of Some k \<Rightarrow> Ok (Some k) | None \<Rightarrow> requireLane s ''main'') (\<lambda>selected.
     case selected of
       None \<Rightarrow> Ok None
     | Some k \<Rightarrow>
         (case getEntry s k of
            None \<Rightarrow> Err (SessionError invalid_fork_target (NotAMessage k))
          | Some e \<Rightarrow>
              (case e_body e of
                 MessageEntry m t \<Rightarrow>
                   (let pos = (case position of Some p \<Rightarrow> p | None \<Rightarrow> if entryId = None then ForkAt else ForkBefore)
                    in Ok (if pos = ForkAt then Some (e_id e) else e_parentId e))
               | _ \<Rightarrow> Err (SessionError invalid_fork_target (NotAMessage k)))))"

definition fork_scope :: "session_state \<Rightarrow> fork_options \<Rightarrow> session_error + entry list \<times> lane_pointer list" where
  "fork_scope s options =
     (case options of
        ForkTree \<Rightarrow> bind_res (findEntries s any_entry) (\<lambda>es. Ok (es, getLanes s))
      | ForkBranch entryId position \<Rightarrow>
          bind_res (fork_target s entryId position) (\<lambda>targetId.
          bind_res (case targetId of None \<Rightarrow> Ok [] | Some t \<Rightarrow> findEntriesOnBranch s any_entry None None t) (\<lambda>es.
          Ok (es, [(''main'', targetId)]))))"

text \<open>The numbering \<open>sequence++\<close> of the mutations under construction.\<close>

fun renumber :: "nat \<Rightarrow> entry list \<Rightarrow> session_mutation list" where
  "renumber n [] = []"
| "renumber n (e # es) = EntryMutation None (e\<lparr>e_seq := n\<rparr>) # renumber (n + 1) es"

fun lane_mutations :: "nat \<Rightarrow> lane_pointer list \<Rightarrow> session_mutation list" where
  "lane_mutations n [] = []"
| "lane_mutations n ((lane, leafId) # ps) = LaneMutation n lane leafId # lane_mutations (n + 1) ps"

fun label_mutations :: "(string \<times> string) list \<Rightarrow> nat \<Rightarrow> entry list \<Rightarrow> session_mutation list" where
  "label_mutations labels n [] = []"
| "label_mutations labels n (e # es) =
     (case map_of labels (e_id e) of
        None \<Rightarrow> label_mutations labels n es
      | Some x \<Rightarrow> LabelMutation n (e_id e) (Some x) # label_mutations labels (n + 1) es)"

definition name_mutations :: "string option \<Rightarrow> nat \<Rightarrow> session_mutation list" where
  "name_mutations name n = (case name of None \<Rightarrow> [] | Some x \<Rightarrow> [NameMutation n (Some x)])"

definition createForkMutations :: "session_state \<Rightarrow> fork_options \<Rightarrow> session_error + session_mutation list" where
  "createForkMutations s options =
     bind_res (fork_scope s options) (\<lambda>(copiedEntries, forkLanes).
     let n1 = 1 + length copiedEntries;
         n2 = n1 + length forkLanes;
         names = name_mutations (ss_name s) n2;
         n3 = n2 + length names
     in Ok (renumber 1 copiedEntries @ lane_mutations n1 forkLanes @ names
            @ label_mutations (ss_labels s) n3 copiedEntries))"

end
