(* ===== verification/SessionStateCorrect.thy ===== *)
theory SessionStateCorrect
  imports SessionState
begin

text \<open>
  The invariant of session states and what follows from it: the entries form a forest in
  which every parent precedes its children, so a walk to the root ends without an error;
  sequence numbers are consecutive; identifiers are never reused; lane pointers and labels
  refer to existing entries.
\<close>

section \<open>The invariant\<close>

text \<open>Every entry's parent is among the entries before it.\<close>

fun forest :: "entry list \<Rightarrow> string set \<Rightarrow> bool" where
  "forest [] known = True"
| "forest (e # es) known =
     ((case e_parentId e of None \<Rightarrow> True | Some p \<Rightarrow> p \<in> known) \<and> e_id e \<notin> known \<and> forest es (insert (e_id e) known))"

definition entry_ids :: "session_state \<Rightarrow> string set" where
  "entry_ids s = e_id ` set (ss_entries s)"

definition tree_inv :: "session_state \<Rightarrow> bool" where
  "tree_inv s \<longleftrightarrow> ss_entriesById s = map (\<lambda>e. (e_id e, e)) (ss_entries s) \<and> forest (ss_entries s) {}"

definition id_inv :: "session_state \<Rightarrow> bool" where
  "id_inv s \<longleftrightarrow> distinct (ss_usedIds s) \<and> set (ss_usedIds s) = entry_ids s \<union> r_id ` set (ss_records s)
     \<and> distinct (map e_id (ss_entries s)) \<and> distinct (map r_id (ss_records s))
     \<and> entry_ids s \<inter> r_id ` set (ss_records s) = {}"

text \<open>Every pointer of a lane table leads into a set of identifiers.\<close>

definition pointers_into :: "lane_pointer list \<Rightarrow> string set \<Rightarrow> bool" where
  "pointers_into m A \<longleftrightarrow> (\<forall>l k. (l, Some k) \<in> set m \<longrightarrow> k \<in> A)"

definition lane_inv :: "session_state \<Rightarrow> bool" where
  "lane_inv s \<longleftrightarrow> distinct (map fst (ss_lanes s)) \<and> ''main'' \<in> fst ` set (ss_lanes s)
     \<and> pointers_into (ss_lanes s) (entry_ids s)
     \<and> (\<forall>r\<in>set (ss_records s). r_lane r \<in> fst ` set (ss_lanes s))
     \<and> fst ` set (ss_labels s) \<subseteq> entry_ids s"

fun entries_of_log :: "log_item list \<Rightarrow> entry list" where
  "entries_of_log [] = []"
| "entries_of_log (LogEntry n e # xs) = e # entries_of_log xs"
| "entries_of_log (x # xs) = entries_of_log xs"

fun records_of_log :: "log_item list \<Rightarrow> lane_record list" where
  "records_of_log [] = []"
| "records_of_log (LogRecord n r # xs) = r # records_of_log xs"
| "records_of_log (x # xs) = records_of_log xs"

fun log_item_ok :: "log_item \<Rightarrow> bool" where
  "log_item_ok (LogEntry n e) = (e_seq e = n)"
| "log_item_ok (LogRecord n r) = (r_seq r = n)"
| "log_item_ok x = True"

definition log_inv :: "session_state \<Rightarrow> bool" where
  "log_inv s \<longleftrightarrow> map log_seq (ss_log s) = [1..<ss_sequence s + 1] \<and> list_all log_item_ok (ss_log s)
     \<and> entries_of_log (ss_log s) = ss_entries s \<and> records_of_log (ss_log s) = ss_records s"

definition stats_inv :: "session_state \<Rightarrow> bool" where
  "stats_inv s \<longleftrightarrow> st_messageCount (ss_stats s) = length (filter (\<lambda>e. entry_type (e_body e) = ''message'') (ss_entries s))"

definition session_inv :: "session_state \<Rightarrow> bool" where
  "session_inv s \<longleftrightarrow> tree_inv s \<and> id_inv s \<and> lane_inv s \<and> log_inv s \<and> stats_inv s"

section \<open>Preservation\<close>

lemma forest_append:
  "forest (es @ fs) known \<longleftrightarrow> forest es known \<and> forest fs (known \<union> e_id ` set es)"
  by (induction es arbitrary: known) auto

lemma entries_of_log_append [simp]: "entries_of_log (xs @ ys) = entries_of_log xs @ entries_of_log ys"
  by (induction xs rule: entries_of_log.induct) auto

lemma records_of_log_append [simp]: "records_of_log (xs @ ys) = records_of_log xs @ records_of_log ys"
  by (induction xs rule: records_of_log.induct) auto

lemma alist_update_fresh: "k \<notin> fst ` set m \<Longrightarrow> AList.update k v m = m @ [(k, v)]"
  by (induction m) auto

lemma has_entry_iff: "tree_inv s \<Longrightarrow> has_entry s k \<longleftrightarrow> k \<in> entry_ids s"
  by (simp add: has_entry_def tree_inv_def entry_ids_def map_of_eq_None_iff image_image)

lemma set_update_lanes:
  "set (AList.update l x m) \<subseteq> insert (l, x) (set m)"
  by (induction m) auto

lemma fst_set_update: "fst ` set (AList.update l x m) = insert l (fst ` set m)"
  using dom_update [of l x m] by (simp add: dom_map_of_conv_image_fst)

lemma pointers_mono: "pointers_into m A \<Longrightarrow> A \<subseteq> B \<Longrightarrow> pointers_into m B"
  by (auto simp: pointers_into_def)

lemma pointers_update:
  assumes "pointers_into m A" and "\<And>k. x = Some k \<Longrightarrow> k \<in> A"
  shows "pointers_into (AList.update l x m) A"
  unfolding pointers_into_def
proof (intro allI impI)
  fix l' k
  assume "(l', Some k) \<in> set (AList.update l x m)"
  then have "(l', Some k) = (l, x) \<or> (l', Some k) \<in> set m"
    using set_update_lanes [of l x m] by blast
  then show "k \<in> A"
    using assms by (auto simp: pointers_into_def)
qed

lemma set_delete_subset: "fst ` set (AList.delete k m) \<subseteq> fst ` set m"
  by (auto simp: AList.delete_eq)

lemma apply_entry_inv:
  assumes inv: "session_inv s" and seq: "e_seq e = ss_sequence s + 1" and ok: "apply_entry s lane e = Ok s'"
  shows "session_inv s'"
proof -
  have fresh: "e_id e \<notin> set (ss_usedIds s)"
    and parent: "case e_parentId e of None \<Rightarrow> True | Some p \<Rightarrow> has_entry s p"
    and lane: "\<And>l. lane = Some l \<Longrightarrow> map_of (ss_lanes s) l \<noteq> None"
    and s': "s' = s\<lparr>ss_sequence := e_seq e, ss_usedIds := e_id e # ss_usedIds s, ss_entries := ss_entries s @ [e],
           ss_entriesById := AList.update (e_id e) e (ss_entriesById s),
           ss_lanes := (case lane of None \<Rightarrow> ss_lanes s | Some l \<Rightarrow> AList.update l (Some (e_id e)) (ss_lanes s)),
           ss_log := ss_log s @ [LogEntry (e_seq e) e], ss_stats := count_message e (ss_stats s)\<rparr>"
    using ok by (auto simp: apply_entry_def res_simps split: option.splits)
  have new: "e_id e \<notin> entry_ids s" "e_id e \<notin> r_id ` set (ss_records s)"
    using inv fresh by (auto simp: session_inv_def id_inv_def)
  then have "AList.update (e_id e) e (ss_entriesById s) = ss_entriesById s @ [(e_id e, e)]"
    using inv by (intro alist_update_fresh) (auto simp: session_inv_def tree_inv_def entry_ids_def)
  then have "tree_inv s'"
    using inv parent new by (auto simp: s' session_inv_def tree_inv_def forest_append entry_ids_def has_entry_iff
        split: option.splits)
  moreover have "id_inv s'"
    using inv fresh new by (auto simp: s' session_inv_def id_inv_def entry_ids_def)
  moreover have "lane_inv s'"
  proof -
    let ?ids = "insert (e_id e) (entry_ids s)"
    have ptr: "pointers_into (ss_lanes s) ?ids"
      using inv by (auto simp: session_inv_def lane_inv_def intro: pointers_mono)
    have "pointers_into (AList.update l (Some (e_id e)) (ss_lanes s)) ?ids" for l
      using ptr by (rule pointers_update) simp
    moreover have "entry_ids s' = ?ids"
      by (simp add: s' entry_ids_def)
    ultimately show ?thesis
      using inv ptr
      by (cases lane) (auto simp: s' session_inv_def lane_inv_def fst_set_update AList.distinct_update)
  qed
  moreover have "log_inv s'"
    using inv seq by (simp add: s' session_inv_def log_inv_def)
  moreover have "stats_inv s'"
    using inv by (auto simp: s' session_inv_def stats_inv_def count_message_def split: entry_body.splits)
  ultimately show ?thesis
    by (simp add: session_inv_def)
qed

lemma apply_record_inv:
  assumes inv: "session_inv s" and seq: "r_seq r = ss_sequence s + 1" and ok: "apply_record s r = Ok s'"
  shows "session_inv s'"
proof -
  have fresh: "r_id r \<notin> set (ss_usedIds s)" and lane: "map_of (ss_lanes s) (r_lane r) \<noteq> None"
    and s': "s' = s\<lparr>ss_sequence := r_seq r, ss_usedIds := r_id r # ss_usedIds s, ss_records := ss_records s @ [r],
           ss_openOperations := track_operation r (ss_openOperations s),
           ss_log := ss_log s @ [LogRecord (r_seq r) r], ss_stats := count_usage r (ss_stats s)\<rparr>"
    using ok by (auto simp: apply_record_def res_simps)
  have "tree_inv s'" "id_inv s'" "log_inv s'"
    using inv fresh seq by (auto simp: s' session_inv_def tree_inv_def id_inv_def entry_ids_def log_inv_def)
  moreover have "lane_inv s'"
    using inv lane by (auto simp: s' session_inv_def lane_inv_def entry_ids_def map_of_eq_None_iff)
  moreover have "stats_inv s'"
    using inv by (auto simp: s' session_inv_def stats_inv_def count_usage_def split: record_body.splits)
  ultimately show ?thesis
    by (simp add: session_inv_def)
qed

lemma apply_lane_inv:
  assumes inv: "session_inv s" and seq: "n = ss_sequence s + 1" and ok: "apply_lane s n lane leafId = Ok s'"
  shows "session_inv s'"
proof -
  have leaf: "\<forall>k. leafId = Some k \<longrightarrow> k \<in> entry_ids s"
    and s': "s' = s\<lparr>ss_sequence := n, ss_lanes := AList.update lane leafId (ss_lanes s),
        ss_log := ss_log s @ [LogLane n lane leafId]\<rparr>"
    using ok inv by (auto simp: apply_lane_def res_simps session_inv_def has_entry_iff split: option.splits)
  have "pointers_into (AList.update lane leafId (ss_lanes s)) (entry_ids s)"
    using inv leaf by (intro pointers_update) (auto simp: session_inv_def lane_inv_def)
  then have "lane_inv s'"
    using inv by (auto simp: s' session_inv_def lane_inv_def entry_ids_def fst_set_update AList.distinct_update)
  then show ?thesis
    using inv seq by (simp add: s' session_inv_def tree_inv_def id_inv_def entry_ids_def log_inv_def stats_inv_def)
qed

lemma apply_name_inv:
  assumes "session_inv s" and "n = ss_sequence s + 1" and "apply_name s n name = Ok s'"
  shows "session_inv s'"
proof -
  have "s' = s\<lparr>ss_sequence := n, ss_name := name, ss_log := ss_log s @ [LogName n name]\<rparr>"
    using assms(3) by (simp add: apply_name_def)
  then show ?thesis
    using assms(1,2)
    by (simp add: session_inv_def tree_inv_def id_inv_def lane_inv_def entry_ids_def log_inv_def stats_inv_def)
qed

lemma apply_label_inv:
  assumes inv: "session_inv s" and seq: "n = ss_sequence s + 1" and ok: "apply_label s n targetId label = Ok s'"
  shows "session_inv s'"
proof -
  let ?labels = "case label of None \<Rightarrow> AList.delete targetId (ss_labels s) | Some x \<Rightarrow> AList.update targetId x (ss_labels s)"
  have target: "targetId \<in> entry_ids s"
    and s': "s' = s\<lparr>ss_sequence := n, ss_labels := ?labels, ss_log := ss_log s @ [LogLabel n targetId label]\<rparr>"
    using ok inv by (auto simp: apply_label_def res_simps session_inv_def has_entry_iff)
  have "fst ` set ?labels \<subseteq> entry_ids s"
    using inv target subset_trans [OF set_delete_subset [of targetId "ss_labels s"]]
    by (cases label) (simp_all add: session_inv_def lane_inv_def fst_set_update)
  then have "lane_inv s'"
    using inv by (simp add: s' session_inv_def lane_inv_def entry_ids_def)
  then show ?thesis
    using inv seq by (simp add: s' session_inv_def tree_inv_def id_inv_def entry_ids_def log_inv_def stats_inv_def)
qed

lemma applyMutation_inv:
  assumes "session_inv s" and "applyMutation s mutation = Ok s'"
  shows "session_inv s'"
proof -
  have seq: "mutation_seq mutation = ss_sequence s + 1"
    using assms(2) by (auto simp: applyMutation_def res_simps)
  show ?thesis
  proof (cases mutation)
    case (EntryMutation lane e)
    then show ?thesis
      using assms seq by (intro apply_entry_inv [of s e lane s']) (simp_all add: applyMutation_def)
  next
    case (RecordMutation r)
    then show ?thesis
      using assms seq by (intro apply_record_inv [of s r s']) (simp_all add: applyMutation_def)
  next
    case (LaneMutation n lane leafId)
    then show ?thesis
      using assms seq by (intro apply_lane_inv [of s n lane leafId s']) (simp_all add: applyMutation_def)
  next
    case (NameMutation n name)
    then show ?thesis
      using assms seq by (intro apply_name_inv [of s n name s']) (simp_all add: applyMutation_def)
  next
    case (LabelMutation n t l)
    then show ?thesis
      using assms seq by (intro apply_label_inv [of s n t l s']) (simp_all add: applyMutation_def)
  qed
qed

lemma new_session_inv: "session_inv new_session_state"
  by (simp add: session_inv_def new_session_state_def tree_inv_def id_inv_def lane_inv_def log_inv_def stats_inv_def
      entry_ids_def empty_stats_def pointers_into_def)

lemma replay_inv: "session_inv s \<Longrightarrow> fold_res applyMutation s ms = Ok s' \<Longrightarrow> session_inv s'"
  by (rule fold_res_invariant [where I = session_inv]) (auto intro: applyMutation_inv)

end
