(* ===== verification/SessionQueries.thy ===== *)
theory SessionQueries
  imports SessionStateCorrect "HOL-Library.Sublist"
begin

text \<open>
  Queries over a session state: the walk from an entry to the root of its tree, the limited
  scans, the query of open operations, and what a fork copies.
\<close>

section \<open>The walk to the root\<close>

fun parent_chain :: "entry list \<Rightarrow> bool" where
  "parent_chain [] = False"
| "parent_chain [e] = (e_parentId e = None)"
| "parent_chain (e # f # es) = (e_parentId e = Some (e_id f) \<and> parent_chain (f # es))"

lemma forest_parent:
  assumes "forest es known" and "i < length es" and "e_parentId (es ! i) = Some p"
  shows "p \<in> known \<or> (\<exists>j<i. e_id (es ! j) = p)"
  using assms
proof (induction es arbitrary: known i)
  case (Cons e es)
  show ?case
  proof (cases i)
    case 0
    then show ?thesis
      using Cons.prems by simp
  next
    case (Suc j)
    then have "p \<in> insert (e_id e) known \<or> (\<exists>k<j. e_id (es ! k) = p)"
      using Cons.prems by (intro Cons.IH) auto
    then show ?thesis
      using Suc by fastforce
  qed
qed simp

lemma map_of_entries:
  assumes "distinct (map e_id es)" and "i < length es"
  shows "map_of (map (\<lambda>e. (e_id e, e)) es) (e_id (es ! i)) = Some (es ! i)"
  using assms by (intro map_of_is_SomeI) (auto simp: comp_def intro: rev_image_eqI)

lemma take_mono_subseq: "j \<le> i \<Longrightarrow> subseq (take j es) (take i es)"
  by (metis min.absorb1 prefix_imp_subseq take_is_prefix take_take)

lemma walk_forest:
  assumes "distinct (map e_id es)" and "forest es {}"
    and "i < length es" and "visited \<inter> e_id ` set (take (Suc i) es) = {}"
  shows "\<exists>path. walk_from (map (\<lambda>e. (e_id e, e)) es) None None visited (e_id (es ! i)) missing = (path, None)
    \<and> parent_chain path \<and> hd path = es ! i \<and> subseq (rev path) (take (Suc i) es)"
  using assms(3,4)
proof (induction i arbitrary: visited missing rule: less_induct)
  case (less i)
  let ?m = "map (\<lambda>e. (e_id e, e)) es" and ?e = "es ! i"
  have "e_id ?e \<in> e_id ` set (take (Suc i) es)"
    using less.prems(1) by (auto simp: take_Suc_conv_app_nth)
  then have unvisited: "e_id ?e \<notin> visited"
    using less.prems(2) by blast
  have lookup: "map_of ?m (e_id ?e) = Some ?e"
    using map_of_entries [OF assms(1) less.prems(1)] .
  show ?case
  proof (cases "e_parentId ?e")
    case None
    then have "walk_from ?m None None visited (e_id ?e) missing = ([?e], None)"
      using lookup unvisited by (subst walk_from.simps) (simp add: at_bound_def)
    then show ?thesis
      using None less.prems(1) by (auto simp: take_Suc_conv_app_nth)
  next
    case (Some p)
    then obtain j where j: "j < i" "e_id (es ! j) = p"
      using forest_parent [OF assms(2) less.prems(1)] by auto
    have "insert (e_id ?e) visited \<inter> e_id ` set (take (Suc j) es) = {}"
    proof -
      have "e_id ` set (take (Suc j) es) \<subseteq> e_id ` set (take i es)"
        using j(1) set_take_subset_set_take [of "Suc j" i es] by (intro image_mono) simp
      moreover have "e_id ?e \<notin> e_id ` set (take i es)"
        using distinct_take [OF assms(1), of "Suc i"] less.prems(1) by (simp add: take_map take_Suc_conv_app_nth)
      moreover have "e_id ` set (take i es) \<subseteq> e_id ` set (take (Suc i) es)"
        by (intro image_mono set_take_subset_set_take) simp
      ultimately show ?thesis
        using less.prems(2) by blast
    qed
    from less.IH [OF j(1) _ this] obtain path where path:
      "walk_from ?m None None (insert (e_id ?e) visited) p (SessionError invalid_entry (EntryNotFound p)) = (path, None)"
      "parent_chain path" "hd path = es ! j" "subseq (rev path) (take (Suc j) es)"
      using j less.prems(1) by auto
    have "walk_from ?m None None visited (e_id ?e) missing = (?e # path, None)"
      using lookup unvisited Some path(1) by (subst walk_from.simps) (simp add: at_bound_def)
    moreover have "parent_chain (?e # path)"
      using path(2,3) Some j(2) by (cases path) auto
    moreover have "subseq (rev path) (take i es)"
      using path(4) take_mono_subseq [of "Suc j" i es] j(1) subseq_order.order_trans by (metis Suc_leI)
    then have "subseq (rev (?e # path)) (take (Suc i) es)"
      using less.prems(1) by (simp add: take_Suc_conv_app_nth list_emb_append_mono)
    ultimately show ?thesis
      by auto
  qed
qed

lemma entry_index:
  assumes "session_inv s" and "getEntry s k = Some e"
  obtains i where "i < length (ss_entries s)" "ss_entries s ! i = e" "e_id e = k"
proof -
  have "map_of (map (\<lambda>e. (e_id e, e)) (ss_entries s)) k = Some e"
    using assms by (simp add: getEntry_def session_inv_def tree_inv_def)
  then have "e \<in> set (ss_entries s)" "e_id e = k"
    by (auto dest: map_of_SomeD)
  then show ?thesis
    using that by (auto simp: in_set_conv_nth)
qed

lemma walkToRoot_path:
  assumes "session_inv s" and "getEntry s k = Some e"
  shows "\<exists>path. walkToRoot s (Some k) None None = (path, None) \<and> parent_chain path \<and> hd path = e
    \<and> subseq (rev path) (ss_entries s)"
proof -
  obtain i where i: "i < length (ss_entries s)" "ss_entries s ! i = e" "e_id e = k"
    using entry_index [OF assms] .
  have inv: "distinct (map e_id (ss_entries s))" "forest (ss_entries s) {}"
    "ss_entriesById s = map (\<lambda>e. (e_id e, e)) (ss_entries s)"
    using assms(1) by (auto simp: session_inv_def id_inv_def tree_inv_def)
  from walk_forest [OF inv(1,2) i(1), of "{}" "SessionError not_found (EntryNotFound k)"]
  obtain path where "walkToRoot s (Some k) None None = (path, None)" "parent_chain path" "hd path = e"
    "subseq (rev path) (take (Suc i) (ss_entries s))"
    using i(2,3) inv(3) by (auto simp: walkToRoot_def)
  moreover have "subseq (take (Suc i) (ss_entries s)) (ss_entries s)"
    by (rule prefix_imp_subseq [OF take_is_prefix])
  ultimately show ?thesis
    using subseq_order.order_trans by blast
qed

text \<open>With bounds the walk yields the beginning of the path, up to and including the first match.\<close>

fun take_until :: "('a \<Rightarrow> bool) \<Rightarrow> 'a list \<Rightarrow> 'a list" where
  "take_until p [] = []"
| "take_until p (x # xs) = (if p x then [x] else x # take_until p xs)"

lemma walk_bounded:
  "walk_from m None None visited k missing = (path, None) \<Longrightarrow>
     walk_from m i t visited k missing = (take_until (\<lambda>e. at_bound e i t) path, None)"
proof (induction "card (e_id ` snd ` set m - visited)" arbitrary: visited k missing path rule: less_induct)
  case less
  from less.prems obtain e where e: "map_of m k = Some e" "e_id e \<notin> visited"
    by (subst (asm) walk_from.simps) (auto split: option.splits if_splits)
  show ?case
  proof (cases "e_parentId e")
    case None
    then have "path = [e]"
      using less.prems e by (subst (asm) walk_from.simps) (simp add: at_bound_def)
    then show ?thesis
      using e None by (subst walk_from.simps) simp
  next
    case (Some p)
    let ?missing = "SessionError invalid_entry (EntryNotFound p)"
    obtain rest where rest: "walk_from m None None (insert (e_id e) visited) p ?missing = (rest, None)" "path = e # rest"
      using less.prems e Some by (subst (asm) walk_from.simps) (auto simp: at_bound_def split: prod.splits)
    have "e_id e \<in> e_id ` snd ` set m - visited"
      using e by (auto dest!: map_of_SomeD intro: rev_image_eqI)
    then have "card (e_id ` snd ` set m - insert (e_id e) visited) < card (e_id ` snd ` set m - visited)"
      by (intro psubset_card_mono) auto
    from less.hyps [OF this rest(1)] show ?thesis
      using e Some rest(2) by (subst walk_from.simps) simp
  qed
qed

section \<open>Limited scans\<close>

text \<open>The first \<open>k\<close> elements, or all of them without a limit; a valid limit is a positive integer.\<close>

fun limited :: "nat option \<Rightarrow> 'a list \<Rightarrow> 'a list" where
  "limited None xs = xs"
| "limited (Some k) xs = take k xs"

abbreviation js_limit :: "nat option \<Rightarrow> js_number option" where
  "js_limit k \<equiv> map_option (\<lambda>n. JInt (int n)) k"

definition below :: "'a list \<Rightarrow> nat option \<Rightarrow> bool" where
  "below xs k \<longleftrightarrow> (case k of None \<Rightarrow> True | Some n \<Rightarrow> length xs < n)"

lemma below_Nil: "k \<noteq> Some 0 \<Longrightarrow> below [] k"
  by (cases k) (auto simp: below_def)

lemma below_stop: "below acc k \<Longrightarrow> Some (JInt (int (length (acc @ [x])))) = js_limit k \<longleftrightarrow> \<not> below (acc @ [x]) k"
  by (cases k) (auto simp: below_def)

lemma below_not_stop: "below acc k \<Longrightarrow> Some (JInt (int (length acc))) \<noteq> js_limit k"
  by (cases k) (auto simp: below_def)

lemma limited_full: "below acc k \<Longrightarrow> \<not> below (acc @ [x]) k \<Longrightarrow> limited k (acc @ x # xs) = acc @ [x]"
  by (cases k) (auto simp: below_def take_Cons')

lemma limited_below: "below acc k \<Longrightarrow> limited k acc = acc"
  by (cases k) (auto simp: below_def)

lemma collect_spec: "below acc k \<Longrightarrow> collect p (js_limit k) acc xs = limited k (acc @ filter p xs)"
proof (induction xs arbitrary: acc)
  case (Cons x xs)
  then show ?case
    using below_stop [OF Cons.prems, of x] limited_full [OF Cons.prems, of x]
    by (auto simp: Let_def simp del: length_append)
qed (simp add: limited_below)

lemma collect_until_spec:
  "below acc k \<Longrightarrow> collect_until p stop (js_limit k) acc xs = limited k (acc @ filter p (take_until stop xs))"
proof (induction xs arbitrary: acc)
  case (Cons x xs)
  show ?case
  proof (cases "p x")
    case True
    then show ?thesis
      using Cons.IH [of "acc @ [x]"] below_stop [OF Cons.prems, of x] limited_full [OF Cons.prems, of x] limited_below [of "acc @ [x]" k]
      by (auto simp: Let_def simp del: length_append)
  next
    case False
    then show ?thesis
      using Cons.IH [OF Cons.prems] below_not_stop [OF Cons.prems] limited_below [OF Cons.prems] by (simp add: Let_def)
  qed
qed (simp add: limited_below)

lemma consume_spec:
  "below acc k \<Longrightarrow> consume p (js_limit k) acc xs None = Ok (limited k (acc @ filter p xs))"
proof (induction xs arbitrary: acc)
  case (Cons x xs)
  show ?case
  proof (cases "p x")
    case True
    then show ?thesis
      using Cons.IH [of "acc @ [x]"] below_stop [OF Cons.prems, of x] limited_full [OF Cons.prems, of x]
      by (auto simp: Let_def simp del: length_append)
  next
    case False
    then show ?thesis
      using Cons.IH [OF Cons.prems] below_not_stop [OF Cons.prems] by (simp add: Let_def)
  qed
qed (simp add: limited_below)

lemma assertValidLimit_js [simp]: "k \<noteq> Some 0 \<Longrightarrow> assertValidLimit (js_limit k) = Ok ()"
  by (cases k) (auto simp: assertValidLimit_def)

section \<open>Open operations\<close>

definition open_at :: "(string \<times> (string \<times> lane_record) list) list \<Rightarrow> string \<Rightarrow> (string \<times> lane_record) list" where
  "open_at ops lane = (case map_of ops lane of None \<Rightarrow> [] | Some m \<Rightarrow> m)"

text \<open>A record starts the operation \<open>k\<close> on a lane, or finishes it.\<close>

definition starts_op :: "string \<Rightarrow> string \<Rightarrow> lane_record \<Rightarrow> bool" where
  "starts_op lane k r \<longleftrightarrow> r_lane r = lane \<and> r_id r = k \<and> (\<exists>l i. r_body r = OperationStarted l i)"

definition finishes_op :: "string \<Rightarrow> string \<Rightarrow> lane_record \<Rightarrow> bool" where
  "finishes_op lane k r \<longleftrightarrow> r_lane r = lane \<and> (\<exists>out err. r_body r = OperationFinished k out err)"

text \<open>The open operations of a record list: started and not finished afterwards.\<close>

fun open_record :: "string \<Rightarrow> string \<Rightarrow> lane_record list \<Rightarrow> lane_record option" where
  "open_record lane k [] = None"
| "open_record lane k (r # rs) =
     (case open_record lane k rs of
        Some r' \<Rightarrow> Some r'
      | None \<Rightarrow> if starts_op lane k r \<and> \<not> (\<exists>r'\<in>set rs. finishes_op lane k r') then Some r else None)"

lemma open_record_snoc:
  "open_record lane k (rs @ [r]) =
     (if starts_op lane k r then Some r else if finishes_op lane k r then None else open_record lane k rs)"
  by (induction rs) (auto simp: starts_op_def finishes_op_def split: option.splits)

lemma open_at_track:
  "open_at (track_operation r ops) lane =
     (if r_lane r \<noteq> lane then open_at ops lane
      else case r_body r of
          OperationStarted l i \<Rightarrow> AList.update (r_id r) r (open_at ops lane)
        | OperationFinished k out err \<Rightarrow> AList.delete k (open_at ops lane)
        | _ \<Rightarrow> open_at ops lane)"
  by (auto simp: open_at_def track_operation_def update_conv' split: record_body.splits option.splits)

lemma open_at_track_lookup:
  assumes "map_of (open_at ops lane) k = open_record lane k rs"
  shows "map_of (open_at (track_operation r ops) lane) k = open_record lane k (rs @ [r])"
  using assms
  by (auto simp: open_at_track open_record_snoc starts_op_def finishes_op_def update_conv' delete_conv'
      split: record_body.splits)

definition op_inv :: "session_state \<Rightarrow> bool" where
  "op_inv s \<longleftrightarrow> (\<forall>lane. distinct (map fst (open_at (ss_openOperations s) lane))
     \<and> (\<forall>k. map_of (open_at (ss_openOperations s) lane) k = open_record lane k (ss_records s)))"

lemma distinct_open_track:
  "distinct (map fst (open_at ops lane)) \<Longrightarrow> distinct (map fst (open_at (track_operation r ops) lane))"
  by (auto simp: open_at_track AList.distinct_update AList.distinct_delete split: record_body.splits)

lemma applyMutation_op_inv:
  assumes "op_inv s" and "applyMutation s mutation = Ok s'"
  shows "op_inv s'"
proof (cases mutation)
  case (RecordMutation r)
  then have "ss_records s' = ss_records s @ [r]" "ss_openOperations s' = track_operation r (ss_openOperations s)"
    using assms(2) by (auto simp: applyMutation_def apply_record_def res_simps)
  then show ?thesis
    using assms(1) by (auto simp: op_inv_def open_at_track_lookup distinct_open_track)
qed (use assms in \<open>auto simp: op_inv_def applyMutation_def apply_entry_def apply_lane_def apply_name_def apply_label_def res_simps\<close>)

lemma new_op_inv: "op_inv new_session_state"
  by (simp add: op_inv_def new_session_state_def open_at_def)

lemma replay_op_inv: "op_inv s \<Longrightarrow> fold_res applyMutation s ms = Ok s' \<Longrightarrow> op_inv s'"
  by (rule fold_res_invariant [where I = op_inv]) (auto intro: applyMutation_op_inv)

section \<open>Appending to a branch\<close>

lemma entry_mutationD:
  assumes "applyMutation t (EntryMutation (Some lane) e) = Ok t'"
  shows "map_of (ss_lanes t) lane = Some (e_parentId e)" "\<And>p. e_parentId e = Some p \<Longrightarrow> has_entry t p"
    "ss_lanes t' = AList.update lane (Some (e_id e)) (ss_lanes t)" "ss_entries t' = ss_entries t @ [e]"
    "e_id e \<notin> set (ss_usedIds t)"
proof -
  obtain s where "apply_entry t (Some lane) e = Ok s" "t' = s"
    using assms by (auto simp: applyMutation_def res_simps)
  then show "map_of (ss_lanes t) lane = Some (e_parentId e)" "\<And>p. e_parentId e = Some p \<Longrightarrow> has_entry t p"
    "ss_lanes t' = AList.update lane (Some (e_id e)) (ss_lanes t)" "ss_entries t' = ss_entries t @ [e]"
    "e_id e \<notin> set (ss_usedIds t)"
    by (auto simp: apply_entry_def res_simps split: option.splits)
qed

text \<open>Two parent chains from the same entry through the same entries are equal.\<close>

lemma chain_unique:
  assumes "distinct (map e_id es)" and "parent_chain xs" and "parent_chain ys" and "hd xs = hd ys"
    and "set xs \<subseteq> set es" and "set ys \<subseteq> set es"
  shows "xs = ys"
  using assms(2-)
proof (induction xs arbitrary: ys rule: parent_chain.induct)
  case (2 e)
  then show ?case
    by (cases ys rule: parent_chain.cases) auto
next
  case (3 e f rest)
  then obtain g rest' where ys: "ys = e # g # rest'"
    by (cases ys rule: parent_chain.cases) auto
  then have "e_id f = e_id g" "f \<in> set es" "g \<in> set es"
    using "3.prems" by auto
  then have "f = g"
    using assms(1) by (meson distinct_map inj_onD)
  then show ?case
    using "3.IH" [of "g # rest'"] "3.prems" ys by auto
qed simp

lemma getEntry_mem: "session_inv s \<Longrightarrow> e \<in> set (ss_entries s) \<Longrightarrow> getEntry s (e_id e) = Some e"
  using map_of_entries [of "ss_entries s"]
  by (auto simp: getEntry_def session_inv_def tree_inv_def id_inv_def in_set_conv_nth)

lemma path_in_entries: "subseq (rev path) es \<Longrightarrow> set path \<subseteq> set es"
  by (metis set_nths_subset set_rev subseq_conv_nths)

lemma append_walk:
  assumes "session_inv t" and "session_inv t'" and "ss_entries t' = ss_entries t @ [e]"
    and "\<And>p. e_parentId e = Some p \<Longrightarrow> has_entry t p"
  shows "\<exists>path. walkToRoot t (e_parentId e) None None = (path, None)
    \<and> walkToRoot t' (Some (e_id e)) None None = (e # path, None)"
proof -
  have "getEntry t' (e_id e) = Some e"
    using assms(2,3) by (intro getEntry_mem) auto
  then obtain path' where path': "walkToRoot t' (Some (e_id e)) None None = (path', None)" "parent_chain path'"
    "hd path' = e" "set path' \<subseteq> set (ss_entries t')"
    using walkToRoot_path [OF assms(2)] path_in_entries by blast
  show ?thesis
  proof (cases "e_parentId e")
    case None
    then have "path' = [e]"
      using path'(2,3) by (cases path' rule: parent_chain.cases) auto
    then show ?thesis
      using None path'(1) by (simp add: walkToRoot_def)
  next
    case (Some p)
    then obtain f where f: "getEntry t p = Some f"
      using assms(4) by (auto simp: has_entry_def getEntry_def)
    obtain path where path: "walkToRoot t (Some p) None None = (path, None)" "parent_chain path" "hd path = f"
      "set path \<subseteq> set (ss_entries t)"
      using walkToRoot_path [OF assms(1) f] path_in_entries by blast
    obtain i where i: "f \<in> set (ss_entries t)" "e_id f = p"
      using entry_index [OF assms(1) f] by (metis nth_mem)
    obtain g rest where ge: "path' = e # g # rest"
      using path'(2,3) Some by (cases path' rule: parent_chain.cases) auto
    have dist: "distinct (map e_id (ss_entries t'))"
      using assms(2) by (simp add: session_inv_def id_inv_def)
    have "e_id g = p" "g \<in> set (ss_entries t')"
      using ge path'(2,4) Some by auto
    then have "g = f"
      using dist i assms(3) by (metis UnCI distinct_map inj_onD set_append)
    moreover have "g # rest = path"
      using chain_unique [OF dist, of "g # rest" path] ge path'(2,4) path(2-4) \<open>g = f\<close> assms(3) by auto
    ultimately show ?thesis
      using path(1) path'(1) ge Some by simp
  qed
qed

end
