(* ===== verification/SessionFork.thy ===== *)
theory SessionFork
  imports SessionQueries
begin

text \<open>
  Forks: the mutations that \<open>createForkMutations\<close> computes replay on a fresh state without an
  error and rebuild the copied entries, lane pointers, name and labels. At the end, the
  contract of the session state.
\<close>

section \<open>Replaying entries\<close>

text \<open>An entry up to its sequence number.\<close>

definition unnumbered :: "entry \<Rightarrow> entry" where
  "unnumbered e = e\<lparr>e_seq := 0\<rparr>"

lemma unnumbered_simps [simp]: "unnumbered (e\<lparr>e_seq := n\<rparr>) = unnumbered e" "e_id (unnumbered e) = e_id e"
  by (simp_all add: unnumbered_def)

lemma apply_copied_entry:
  assumes "session_inv s" and "e_id e \<notin> set (ss_usedIds s)" and "\<And>p. e_parentId e = Some p \<Longrightarrow> p \<in> entry_ids s"
    and "e_seq e = ss_sequence s + 1"
  shows "\<exists>s'. applyMutation s (EntryMutation None e) = Ok s' \<and> session_inv s'
    \<and> ss_sequence s' = ss_sequence s + 1 \<and> ss_usedIds s' = e_id e # ss_usedIds s \<and> ss_entries s' = ss_entries s @ [e]
    \<and> ss_lanes s' = ss_lanes s \<and> ss_name s' = ss_name s \<and> ss_labels s' = ss_labels s \<and> ss_records s' = ss_records s"
proof -
  have "tree_inv s"
    using assms(1) by (simp add: session_inv_def)
  then obtain s' where "applyMutation s (EntryMutation None e) = Ok s'" "ss_sequence s' = ss_sequence s + 1"
    "ss_usedIds s' = e_id e # ss_usedIds s" "ss_entries s' = ss_entries s @ [e]" "ss_lanes s' = ss_lanes s"
    "ss_name s' = ss_name s" "ss_labels s' = ss_labels s" "ss_records s' = ss_records s"
    using assms(2-4) by (cases "e_parentId e") (auto simp: applyMutation_def apply_entry_def has_entry_iff)
  then show ?thesis
    using applyMutation_inv [OF assms(1)] by auto
qed

lemma replay_entries:
  assumes "session_inv s" and "forest es (entry_ids s)" and "distinct (map e_id es)"
    and "e_id ` set es \<inter> set (ss_usedIds s) = {}"
  shows "\<exists>s'. fold_res applyMutation s (renumber (ss_sequence s + 1) es) = Ok s' \<and> session_inv s'
    \<and> ss_sequence s' = ss_sequence s + length es \<and> map unnumbered (ss_entries s') = map unnumbered (ss_entries s @ es)
    \<and> ss_lanes s' = ss_lanes s \<and> ss_name s' = ss_name s \<and> ss_labels s' = ss_labels s \<and> ss_records s' = ss_records s"
  using assms
proof (induction es arbitrary: s)
  case (Cons e es)
  let ?e = "e\<lparr>e_seq := ss_sequence s + 1\<rparr>"
  have "e_id ?e \<notin> set (ss_usedIds s)" "\<And>p. e_parentId ?e = Some p \<Longrightarrow> p \<in> entry_ids s"
    "e_seq ?e = ss_sequence s + 1"
    using Cons.prems(2,4) by auto
  from apply_copied_entry [OF Cons.prems(1) this] obtain s1 where s1:
    "applyMutation s (EntryMutation None ?e) = Ok s1" "session_inv s1" "ss_sequence s1 = ss_sequence s + 1"
    "ss_usedIds s1 = e_id e # ss_usedIds s" "ss_entries s1 = ss_entries s @ [?e]" "ss_lanes s1 = ss_lanes s"
    "ss_name s1 = ss_name s" "ss_labels s1 = ss_labels s" "ss_records s1 = ss_records s"
    by auto
  have "entry_ids s1 = insert (e_id e) (entry_ids s)"
    using s1(5) by (simp add: entry_ids_def)
  then have "forest es (entry_ids s1)" "distinct (map e_id es)" "e_id ` set es \<inter> set (ss_usedIds s1) = {}"
    using Cons.prems(2-4) s1(4) by auto
  from Cons.IH [OF s1(2) this] show ?case
    using s1 by auto
qed simp

section \<open>Replaying lanes, name and labels\<close>

lemma replay_lanes:
  assumes "session_inv s" and "pointers_into ps (entry_ids s)"
  shows "\<exists>s'. fold_res applyMutation s (lane_mutations (ss_sequence s + 1) ps) = Ok s' \<and> session_inv s'
    \<and> ss_sequence s' = ss_sequence s + length ps \<and> map_of (ss_lanes s') = map_of (ss_lanes s) ++ map_of (rev ps)
    \<and> ss_entries s' = ss_entries s \<and> ss_name s' = ss_name s \<and> ss_labels s' = ss_labels s \<and> ss_records s' = ss_records s"
  using assms
proof (induction ps arbitrary: s)
  case (Cons p ps)
  obtain l x where p: "p = (l, x)"
    by (cases p)
  have target: "\<And>k. x = Some k \<Longrightarrow> has_entry s k"
    using Cons.prems p by (auto simp: pointers_into_def session_inv_def has_entry_iff)
  then obtain s1 where s1: "applyMutation s (LaneMutation (ss_sequence s + 1) l x) = Ok s1"
    "ss_sequence s1 = ss_sequence s + 1" "ss_lanes s1 = AList.update l x (ss_lanes s)"
    "ss_entries s1 = ss_entries s" "ss_name s1 = ss_name s" "ss_labels s1 = ss_labels s" "ss_records s1 = ss_records s"
    by (cases x) (auto simp: applyMutation_def apply_lane_def)
  have "session_inv s1"
    using applyMutation_inv [OF Cons.prems(1) s1(1)] .
  moreover have "pointers_into ps (entry_ids s1)"
    using Cons.prems(2) s1(4) by (auto simp: pointers_into_def entry_ids_def)
  ultimately obtain s2 where s2: "fold_res applyMutation s1 (lane_mutations (ss_sequence s1 + 1) ps) = Ok s2"
    "session_inv s2" "ss_sequence s2 = ss_sequence s1 + length ps"
    "map_of (ss_lanes s2) = map_of (ss_lanes s1) ++ map_of (rev ps)"
    "ss_entries s2 = ss_entries s1" "ss_name s2 = ss_name s1" "ss_labels s2 = ss_labels s1" "ss_records s2 = ss_records s1"
    using Cons.IH by blast
  have "map_of (ss_lanes s2) = map_of (ss_lanes s) ++ map_of (rev (p # ps))"
    using s2(4) s1(3) p by (simp add: update_conv' map_add_upd_left)
  then show ?case
    using s1 s2 p by simp
qed simp

lemma replay_name:
  assumes "session_inv s"
  shows "\<exists>s'. fold_res applyMutation s (name_mutations name (ss_sequence s + 1)) = Ok s' \<and> session_inv s'
    \<and> ss_sequence s' = ss_sequence s + length (name_mutations name (ss_sequence s + 1))
    \<and> (name \<noteq> None \<longrightarrow> ss_name s' = name) \<and> (name = None \<longrightarrow> ss_name s' = ss_name s) \<and> ss_lanes s' = ss_lanes s
    \<and> ss_entries s' = ss_entries s \<and> ss_labels s' = ss_labels s \<and> ss_records s' = ss_records s"
proof (cases name)
  case None
  then show ?thesis
    using assms by (simp add: name_mutations_def)
next
  case (Some x)
  let ?s = "s\<lparr>ss_sequence := ss_sequence s + 1, ss_name := Some x, ss_log := ss_log s @ [LogName (ss_sequence s + 1) (Some x)]\<rparr>"
  have "applyMutation s (NameMutation (ss_sequence s + 1) (Some x)) = Ok ?s"
    by (simp add: applyMutation_def apply_name_def)
  then show ?thesis
    using applyMutation_inv [OF assms, of _ ?s] Some by (simp add: name_mutations_def)
qed

lemma replay_labels:
  assumes "session_inv s" and "e_id ` set es \<subseteq> entry_ids s"
  shows "\<exists>s'. fold_res applyMutation s (label_mutations labels (ss_sequence s + 1) es) = Ok s' \<and> session_inv s'
    \<and> (\<forall>k. map_of (ss_labels s') k = (if k \<in> e_id ` set es \<and> map_of labels k \<noteq> None then map_of labels k else map_of (ss_labels s) k))
    \<and> ss_entries s' = ss_entries s \<and> ss_name s' = ss_name s \<and> ss_lanes s' = ss_lanes s \<and> ss_records s' = ss_records s"
  using assms
proof (induction es arbitrary: s)
  case (Cons e es)
  show ?case
  proof (cases "map_of labels (e_id e)")
    case None
    from Cons.IH [OF Cons.prems(1)] Cons.prems(2) obtain s' where
      "fold_res applyMutation s (label_mutations labels (ss_sequence s + 1) es) = Ok s'" "session_inv s'"
      "\<forall>k. map_of (ss_labels s') k = (if k \<in> e_id ` set es \<and> map_of labels k \<noteq> None then map_of labels k else map_of (ss_labels s) k)"
      "ss_entries s' = ss_entries s" "ss_name s' = ss_name s" "ss_lanes s' = ss_lanes s" "ss_records s' = ss_records s"
      by auto
    then show ?thesis
      using None by (intro exI [of _ s']) auto
  next
    case (Some x)
    have "has_entry s (e_id e)"
      using Cons.prems by (simp add: session_inv_def has_entry_iff)
    then obtain s1 where s1: "applyMutation s (LabelMutation (ss_sequence s + 1) (e_id e) (Some x)) = Ok s1"
      "ss_sequence s1 = ss_sequence s + 1" "ss_labels s1 = AList.update (e_id e) x (ss_labels s)"
      "ss_entries s1 = ss_entries s" "ss_name s1 = ss_name s" "ss_lanes s1 = ss_lanes s" "ss_records s1 = ss_records s"
      by (simp add: applyMutation_def apply_label_def)
    have "e_id ` set es \<subseteq> entry_ids s1"
      using Cons.prems(2) s1(4) by (simp add: entry_ids_def)
    from Cons.IH [OF applyMutation_inv [OF Cons.prems(1) s1(1)] this] obtain s' where
      "fold_res applyMutation s1 (label_mutations labels (ss_sequence s1 + 1) es) = Ok s'" "session_inv s'"
      "\<forall>k. map_of (ss_labels s') k = (if k \<in> e_id ` set es \<and> map_of labels k \<noteq> None then map_of labels k else map_of (ss_labels s1) k)"
      "ss_entries s' = ss_entries s1" "ss_name s' = ss_name s1" "ss_lanes s' = ss_lanes s1" "ss_records s' = ss_records s1"
      by auto
    then show ?thesis
      using s1 Some by (intro exI [of _ s']) (auto simp: update_conv')
  qed
qed simp

section \<open>What a fork copies\<close>

lemma map_of_rev_distinct: "distinct (map fst ps) \<Longrightarrow> map_of (rev ps) = map_of ps"
  by (rule map_of_inject_set [THEN iffD2]) (simp_all flip: rev_map)

lemma chain_forest:
  "parent_chain path \<Longrightarrow> distinct (map e_id path) \<Longrightarrow> forest (rev path) {}"
proof (induction path rule: parent_chain.induct)
  case (3 e f es)
  then have "forest (rev (f # es)) {}"
    by simp
  then show ?case
    using 3(2,3) by (auto simp: forest_append)
qed auto

lemma any_entry_simps [simp]:
  "matchesEntryQuery e any_entry" "q_limit any_entry = js_limit None" "q_cursor any_entry = None"
  "q_order any_entry = Some OldestFirst"
  by (simp_all add: matchesEntryQuery_def any_entry_def)

lemma findEntries_all: "findEntries s any_entry = Ok (ss_entries s)"
  by (simp add: findEntries_def assertValidCursor_def assertValidLimit_def ordered_def collect_spec [where k = None, simplified] below_def)

lemma take_until_False [simp]: "take_until (\<lambda>x. False) xs = xs"
  by (induction xs) auto

lemma findEntriesOnBranch_all:
  "findEntriesOnBranch s any_entry None None t =
     (case walkToRoot s (Some t) None None of (path, None) \<Rightarrow> Ok (rev path) | (path, Some e) \<Rightarrow> Err e)"
  by (simp add: findEntriesOnBranch_def assertValidCursor_def assertValidLimit_def at_bound_def
      collect_until_spec [where k = None, simplified] below_def split: prod.split option.split)

lemma walk_missing: "getEntry s k = None \<Longrightarrow> \<exists>e. walkToRoot s (Some k) i t = ([], Some e)"
  by (simp add: walkToRoot_def getEntry_def walk_from.simps)

text \<open>What the scope of a fork looks like: a forest of entries of the session, and pointers into it.\<close>

definition fork_scope_ok :: "session_state \<Rightarrow> entry list \<Rightarrow> lane_pointer list \<Rightarrow> bool" where
  "fork_scope_ok s es ps \<longleftrightarrow> forest es {} \<and> distinct (map e_id es) \<and> set es \<subseteq> set (ss_entries s)
     \<and> pointers_into ps (e_id ` set es) \<and> distinct (map fst ps) \<and> ''main'' \<in> fst ` set ps"

lemma branch_scope_ok:
  assumes "session_inv s" and "findEntriesOnBranch s any_entry None None t = Ok es"
  shows "fork_scope_ok s es [(''main'', Some t)]"
proof -
  obtain e where e: "getEntry s t = Some e"
    using assms(2) walk_missing [of s t None None] by (cases "getEntry s t") (auto simp: findEntriesOnBranch_all)
  obtain path where path: "walkToRoot s (Some t) None None = (path, None)" "parent_chain path" "hd path = e"
    "subseq (rev path) (ss_entries s)"
    using walkToRoot_path [OF assms(1) e] by blast
  have es: "es = rev path"
    using assms(2) path(1) by (simp add: findEntriesOnBranch_all)
  have "distinct (map e_id (ss_entries s))"
    using assms(1) by (simp add: session_inv_def id_inv_def)
  then have dist: "distinct (map e_id (rev path))"
    using path(4) by (metis distinct_nthsI subseq_conv_nths subseq_map)
  then have "forest (rev path) {}"
    using path(2) by (intro chain_forest) (simp_all flip: rev_map)
  moreover have "e \<in> set path"
    using path(2,3) by (cases path) auto
  moreover have "e_id e = t"
    using entry_index [OF assms(1) e] by blast
  moreover have "set path \<subseteq> set (ss_entries s)"
    using path(4) by (metis set_nths_subset set_rev subseq_conv_nths)
  ultimately show ?thesis
    using es dist by (auto simp: fork_scope_ok_def pointers_into_def)
qed

lemma fork_scope_correct:
  assumes "session_inv s" and "fork_scope s options = Ok (es, ps)"
  shows "fork_scope_ok s es ps"
proof (cases options)
  case ForkTree
  then show ?thesis
    using assms by (auto simp: fork_scope_def findEntries_all getLanes_def fork_scope_ok_def session_inv_def tree_inv_def
        id_inv_def lane_inv_def entry_ids_def)
next
  case (ForkBranch entryId position)
  then obtain target where target: "fork_target s entryId position = Ok target" "ps = [(''main'', target)]"
    "(case target of None \<Rightarrow> Ok [] | Some t \<Rightarrow> findEntriesOnBranch s any_entry None None t) = Ok es"
    using assms(2) by (auto simp: fork_scope_def res_simps)
  then show ?thesis
    using branch_scope_ok [OF assms(1)]
    by (cases target) (auto simp: fork_scope_ok_def pointers_into_def)
qed

lemma fork_replay:
  assumes "session_inv s" and "fork_scope s options = Ok (es, ps)" and "createForkMutations s options = Ok ms"
  shows "\<exists>s'. fold_res applyMutation new_session_state ms = Ok s' \<and> session_inv s'
    \<and> map unnumbered (ss_entries s') = map unnumbered es \<and> map_of (ss_lanes s') = map_of ps
    \<and> ss_name s' = ss_name s \<and> (\<forall>e\<in>set es. getLabel s' (e_id e) = getLabel s (e_id e)) \<and> ss_records s' = []"
proof -
  have scope: "forest es {}" "distinct (map e_id es)" "pointers_into ps (e_id ` set es)" "distinct (map fst ps)"
    "''main'' \<in> fst ` set ps"
    using fork_scope_correct [OF assms(1,2)] by (auto simp: fork_scope_ok_def)
  let ?s0 = new_session_state
  have s0: "ss_sequence ?s0 = 0" "entry_ids ?s0 = {}" "ss_usedIds ?s0 = []" "ss_entries ?s0 = []" "ss_labels ?s0 = []"
    "ss_name ?s0 = None" "ss_lanes ?s0 = [(''main'', None)]" "ss_records ?s0 = []"
    by (simp_all add: new_session_state_def entry_ids_def)
  obtain s1 where s1: "fold_res applyMutation ?s0 (renumber 1 es) = Ok s1" "session_inv s1" "ss_sequence s1 = length es"
    "map unnumbered (ss_entries s1) = map unnumbered es" "ss_lanes s1 = [(''main'', None)]" "ss_name s1 = None"
    "ss_labels s1 = []" "ss_records s1 = []"
    using replay_entries [OF new_session_inv, of es] scope(1,2) s0 by auto
  have ids1: "entry_ids s1 = e_id ` set es"
  proof -
    have "map e_id (map unnumbered (ss_entries s1)) = map e_id (map unnumbered es)"
      using s1(4) by simp
    then have "map e_id (ss_entries s1) = map e_id es"
      by (simp add: comp_def)
    then show ?thesis
      unfolding entry_ids_def by (metis list.set_map)
  qed
  obtain s2 where s2: "fold_res applyMutation s1 (lane_mutations (ss_sequence s1 + 1) ps) = Ok s2" "session_inv s2"
    "ss_sequence s2 = ss_sequence s1 + length ps" "map_of (ss_lanes s2) = map_of (ss_lanes s1) ++ map_of (rev ps)"
    "ss_entries s2 = ss_entries s1" "ss_name s2 = ss_name s1" "ss_labels s2 = ss_labels s1" "ss_records s2 = ss_records s1"
    using replay_lanes [OF s1(2), of ps] scope(3) ids1 by auto
  obtain s3 where s3: "fold_res applyMutation s2 (name_mutations (ss_name s) (ss_sequence s2 + 1)) = Ok s3" "session_inv s3"
    "ss_sequence s3 = ss_sequence s2 + length (name_mutations (ss_name s) (ss_sequence s2 + 1))"
    "ss_name s3 = ss_name s" "ss_lanes s3 = ss_lanes s2" "ss_entries s3 = ss_entries s2" "ss_labels s3 = ss_labels s2"
    "ss_records s3 = ss_records s2"
    using replay_name [OF s2(2), of "ss_name s"] s2(6) s1(6) by (cases "ss_name s") auto
  have "e_id ` set es \<subseteq> entry_ids s3"
    using ids1 s3(6) s2(5) by (simp add: entry_ids_def)
  from replay_labels [OF s3(2) this, of "ss_labels s"] obtain s4 where s4:
    "fold_res applyMutation s3 (label_mutations (ss_labels s) (ss_sequence s3 + 1) es) = Ok s4" "session_inv s4"
    "\<forall>k. map_of (ss_labels s4) k =
      (if k \<in> e_id ` set es \<and> map_of (ss_labels s) k \<noteq> None then map_of (ss_labels s) k else map_of (ss_labels s3) k)"
    "ss_entries s4 = ss_entries s3" "ss_name s4 = ss_name s3" "ss_lanes s4 = ss_lanes s3" "ss_records s4 = ss_records s3"
    by blast
  have "fold_res applyMutation ?s0 ms = Ok s4"
    using assms(2,3) s1(1) s2(1) s3(1) s4(1) s1(3) s2(3) s3(3)
    by (auto simp: createForkMutations_def Let_def fold_res_append add.commute add.left_commute)
  moreover have "map_of (ss_lanes s4) = map_of ps"
    using s4(6) s3(5) s2(4) s1(5) scope(4,5) map_of_rev_distinct [OF scope(4)]
    by (auto simp: fun_eq_iff map_add_def dom_map_of_conv_image_fst split: option.splits dest: map_of_eq_None_iff [THEN iffD1])
  moreover have "\<forall>e\<in>set es. getLabel s4 (e_id e) = getLabel s (e_id e)"
    using s4(3) s3(7) s2(7) s1(7) by (auto simp: getLabel_def)
  ultimately show ?thesis
    using s4 s3 s2 s1 by auto
qed

section \<open>The contract of the session state\<close>

text \<open>A concrete session: two messages on the main lane and a branch point.\<close>

definition sample_entry :: "string \<Rightarrow> nat \<Rightarrow> string option \<Rightarrow> entry" where
  "sample_entry k n p = \<lparr>e_id = k, e_seq = n, e_parentId = p, e_timestamp = 7,
     e_body = MessageEntry (UserMessage (ContentText ''hi'') (JInt 7) []) False, e_extra = []\<rparr>"

definition sample_mutations :: "session_mutation list" where
  "sample_mutations =
     [EntryMutation (Some ''main'') (sample_entry ''a'' 1 None),
      EntryMutation (Some ''main'') (sample_entry ''b'' 2 (Some ''a'')),
      LaneMutation 3 ''side'' (Some ''a''),
      EntryMutation (Some ''side'') (sample_entry ''c'' 4 (Some ''a'')),
      LabelMutation 5 ''b'' (Some ''here''),
      NameMutation 6 (Some ''demo'')]"

definition sample_state :: session_state where
  "sample_state = (case fold_res applyMutation new_session_state sample_mutations of Inr s \<Rightarrow> s | Inl e \<Rightarrow> new_session_state)"

lemmas session_eval = sample_mutations_def sample_entry_def new_session_state_def applyMutation_def apply_entry_def
  apply_lane_def apply_name_def apply_label_def has_entry_def count_message_def empty_stats_def

lemma sample_replay: "fold_res applyMutation new_session_state sample_mutations = Ok sample_state"
  by (simp add: sample_state_def session_eval)

text \<open>C5: the invariant of sessions. Every state that mutations can build from a new session satisfies the
  session invariant: every entry's parent is an earlier entry, identifiers of entries and records are
  pairwise distinct, lane pointers, labels and record lanes refer to what exists, the log is numbered
  consecutively from 1 and lists exactly the entries and records, and the message count is right; and
  the open operations of every lane are exactly those started and not finished there.\<close>

theorem session_invariant:
  assumes "fold_res applyMutation new_session_state mutations = Ok s"
  shows "session_inv s \<and> op_inv s"
  using replay_inv [OF new_session_inv assms] replay_op_inv [OF new_op_inv assms] by simp

theorem session_invariant_witness: "session_inv sample_state \<and> op_inv sample_state"
  by (rule session_invariant [OF sample_replay])

text \<open>the walk to the root. From every entry of a session the walk ends without an error (no cycle, no
  missing parent): it yields the entry, then each time the parent of the entry before, down to an entry
  without a parent; reversed, the path is in the order in which the entries were appended.\<close>

theorem walk_reaches_root:
  assumes "fold_res applyMutation new_session_state mutations = Ok s" and "getEntry s k = Some e"
  shows "\<exists>path. walkToRoot s (Some k) None None = (path, None) \<and> hd path = e \<and> parent_chain path
    \<and> subseq (rev path) (ss_entries s)"
  using walkToRoot_path [OF replay_inv [OF new_session_inv assms(1)] assms(2)] by blast

theorem walk_reaches_root_witness:
  "\<exists>path. walkToRoot sample_state (Some ''c'') None None = (path, None) \<and> hd path = sample_entry ''c'' 4 (Some ''a'')
     \<and> parent_chain path \<and> subseq (rev path) (ss_entries sample_state)"
proof (rule walk_reaches_root [OF sample_replay])
  show "getEntry sample_state ''c'' = Some (sample_entry ''c'' 4 (Some ''a''))"
    by (simp add: sample_state_def session_eval getEntry_def)
qed

text \<open>C19: branch queries. On every session, \<open>findEntriesOnBranch\<close> from an existing entry succeeds and returns,
  of the path to the root cut at the first entry with the bounding type or id, the first \<open>limit\<close>
  matching entries; with \<open>oldestFirst\<close> the path is reversed before it is cut.\<close>

theorem branch_query_correct:
  assumes "fold_res applyMutation new_session_state mutations = Ok s" and "getEntry s start = Some e"
    and "q_limit q = js_limit limit" and "limit \<noteq> Some 0" and "assertValidCursor (q_cursor q) = Ok ()"
  shows "\<exists>path. walkToRoot s (Some start) None None = (path, None)
    \<and> findEntriesOnBranch s q stopAtId stopAtType start =
      Ok (limited limit (filter (\<lambda>e. matchesEntryQuery e q) (take_until (\<lambda>e. at_bound e stopAtId stopAtType)
        (if q_order q = Some OldestFirst then rev path else path))))"
proof -
  obtain path where path: "walkToRoot s (Some start) None None = (path, None)"
    using walkToRoot_path [OF replay_inv [OF new_session_inv assms(1)] assms(2)] by blast
  then have "walkToRoot s (Some start) stopAtId stopAtType = (take_until (\<lambda>e. at_bound e stopAtId stopAtType) path, None)"
    by (simp add: walkToRoot_def walk_bounded)
  then show ?thesis
    using path assms(3-5) by (simp add: findEntriesOnBranch_def collect_until_spec consume_spec below_Nil)
qed

theorem branch_query_correct_witness:
  "\<exists>path. walkToRoot sample_state (Some ''b'') None None = (path, None)
    \<and> findEntriesOnBranch sample_state (any_entry\<lparr>q_limit := Some (JInt 1)\<rparr>) None None ''b'' =
      Ok (limited (Some 1) (filter (\<lambda>e. matchesEntryQuery e (any_entry\<lparr>q_limit := Some (JInt 1)\<rparr>))
        (take_until (\<lambda>e. at_bound e None None) (rev path))))"
proof -
  have "getEntry sample_state ''b'' = Some (sample_entry ''b'' 2 (Some ''a''))"
    by (simp add: sample_state_def session_eval getEntry_def)
  from branch_query_correct [OF sample_replay this, of "any_entry\<lparr>q_limit := Some (JInt 1)\<rparr>" "Some 1" None None]
  show ?thesis
    by (simp add: assertValidCursor_def)
qed


text \<open>C21: forks. The mutations of a fork of any session replay on a new session without an error; the fork
  then has exactly the copied entries (renumbered), the chosen lane pointers, the name and the labels of
  the copied entries, and no records. A tree fork copies all entries and all lanes.\<close>

theorem fork_rebuilds:
  assumes "fold_res applyMutation new_session_state mutations = Ok s"
    and "fork_scope s options = Ok (copied, lanes)" and "createForkMutations s options = Ok forked"
  shows "\<exists>s'. fold_res applyMutation new_session_state forked = Ok s' \<and> session_inv s'
    \<and> map unnumbered (ss_entries s') = map unnumbered copied \<and> map_of (ss_lanes s') = map_of lanes
    \<and> ss_name s' = ss_name s \<and> (\<forall>e\<in>set copied. getLabel s' (e_id e) = getLabel s (e_id e)) \<and> ss_records s' = []
    \<and> (options = ForkTree \<longrightarrow> copied = ss_entries s \<and> lanes = ss_lanes s)"
  using fork_replay [OF replay_inv [OF new_session_inv assms(1)] assms(2,3)] assms(2)
  by (auto simp: fork_scope_def findEntries_all getLanes_def)

theorem fork_rebuilds_witness:
  "\<exists>forked s'. createForkMutations sample_state ForkTree = Ok forked
    \<and> fold_res applyMutation new_session_state forked = Ok s'
    \<and> map unnumbered (ss_entries s') = map unnumbered (ss_entries sample_state) \<and> ss_name s' = Some ''demo''"
proof -
  have scope: "fork_scope sample_state ForkTree = Ok (ss_entries sample_state, ss_lanes sample_state)"
    by (simp add: fork_scope_def findEntries_all getLanes_def)
  then obtain forked where "createForkMutations sample_state ForkTree = Ok forked"
    by (simp add: createForkMutations_def Let_def)
  from fork_rebuilds [OF sample_replay scope this] this show ?thesis
    by (auto simp: sample_state_def session_eval)
qed

end
