(* ===== verification/SessionMemory.thy ===== *)
theory SessionMemory
  imports SessionFork
begin

text \<open>
  The in-memory storage and its repository
  (\<open>packages/agent/src/harness/session/memory.ts\<close>), and the contract every session storage
  keeps. \<open>structuredClone\<close> is the identity on values, which are immutable here; the clock and
  the generator of session ids are arguments.
\<close>

section \<open>The storage\<close>

record memory_storage =
  ms_metadata :: session_metadata
  ms_state :: session_state

definition new_memory_storage :: "session_metadata \<Rightarrow> memory_storage" where
  "new_memory_storage metadata = \<lparr>ms_metadata = metadata, ms_state = new_session_state\<rparr>"

definition ms_apply :: "memory_storage \<Rightarrow> session_mutation \<Rightarrow> session_error + memory_storage" where
  "ms_apply st mutation =
     bind_res (applyMutation (ms_state st) mutation) (\<lambda>s. Ok (st\<lparr>ms_state := s\<rparr>))"

definition ms_fork :: "memory_storage \<Rightarrow> session_metadata \<Rightarrow> fork_options \<Rightarrow> session_error + memory_storage" where
  "ms_fork st metadata options =
     bind_res (createForkMutations (ms_state st) options) (fold_res ms_apply (new_memory_storage metadata))"

definition ms_createLane :: "memory_storage \<Rightarrow> string \<Rightarrow> string option \<Rightarrow> session_error + memory_storage" where
  "ms_createLane st lane at =
     bind_res (validateNewLane (ms_state st) lane) (\<lambda>_.
     bind_res (validateTarget (ms_state st) at) (\<lambda>_.
     ms_apply st (LaneMutation (nextSequence (ms_state st)) lane at)))"

definition ms_moveLane :: "memory_storage \<Rightarrow> string \<Rightarrow> string option \<Rightarrow> session_error + memory_storage" where
  "ms_moveLane st lane to_id =
     bind_res (requireLane (ms_state st) lane) (\<lambda>_.
     bind_res (validateTarget (ms_state st) to_id) (\<lambda>_.
     ms_apply st (LaneMutation (nextSequence (ms_state st)) lane to_id)))"

definition complete_entry :: "provisioned_entry \<Rightarrow> string option \<Rightarrow> nat \<Rightarrow> nat \<Rightarrow> entry" where
  "complete_entry p parentId n now =
     \<lparr>e_id = pe_id p, e_seq = n, e_parentId = parentId, e_timestamp = now, e_body = pe_body p, e_extra = pe_extra p\<rparr>"

definition ms_appendEntry :: "memory_storage \<Rightarrow> provisioned_entry \<Rightarrow> string \<Rightarrow> nat
    \<Rightarrow> session_error + memory_storage \<times> entry" where
  "ms_appendEntry st newEntry lane now =
     bind_res (requireLane (ms_state st) lane) (\<lambda>parentId.
     bind_res (validateUnusedId (ms_state st) (pe_id newEntry)) (\<lambda>_.
     let e = complete_entry newEntry parentId (nextSequence (ms_state st)) now
     in bind_res (ms_apply st (EntryMutation (Some lane) e)) (\<lambda>st. Ok (st, e))))"

definition complete_record :: "new_record \<Rightarrow> nat \<Rightarrow> nat \<Rightarrow> lane_record" where
  "complete_record r n now =
     \<lparr>r_id = nr_id r, r_seq = n, r_lane = nr_lane r, r_timestamp = now, r_body = nr_body r, r_extra = nr_extra r\<rparr>"

definition is_start :: "record_body \<Rightarrow> bool" where
  "is_start b = (case b of OperationStarted l i \<Rightarrow> True | _ \<Rightarrow> False)"

definition validateSingleOperation :: "session_state \<Rightarrow> new_record \<Rightarrow> session_error + unit" where
  "validateSingleOperation s newRecord =
     bind_res (findOpenOperations s (nr_lane newRecord) (Some (JInt 1))) (\<lambda>ops.
     case ops of
       [] \<Rightarrow> Ok ()
     | current # rest \<Rightarrow>
         guard_res (\<not> is_start (nr_body newRecord))
           (SessionError storage (OperationOpen (nr_lane newRecord) (r_id current))))"

definition ms_appendRecord :: "memory_storage \<Rightarrow> new_record \<Rightarrow> nat \<Rightarrow> session_error + memory_storage \<times> lane_record" where
  "ms_appendRecord st newRecord now =
     bind_res (requireLane (ms_state st) (nr_lane newRecord)) (\<lambda>_.
     bind_res (validateUnusedId (ms_state st) (nr_id newRecord)) (\<lambda>_.
     bind_res (validateSingleOperation (ms_state st) newRecord) (\<lambda>_.
     let r = complete_record newRecord (nextSequence (ms_state st)) now
     in bind_res (ms_apply st (RecordMutation r)) (\<lambda>st. Ok (st, r)))))"

definition ms_setName :: "memory_storage \<Rightarrow> string option \<Rightarrow> session_error + memory_storage" where
  "ms_setName st name = ms_apply st (NameMutation (nextSequence (ms_state st)) name)"

definition ms_setLabel :: "memory_storage \<Rightarrow> string \<Rightarrow> string option \<Rightarrow> session_error + memory_storage" where
  "ms_setLabel st k label =
     bind_res (validateTarget (ms_state st) (Some k)) (\<lambda>_.
     ms_apply st (LabelMutation (nextSequence (ms_state st)) k label))"

definition ms_getEntry :: "memory_storage \<Rightarrow> string \<Rightarrow> entry option" where
  "ms_getEntry st = getEntry (ms_state st)"

definition ms_findEntries :: "memory_storage \<Rightarrow> entry_query \<Rightarrow> session_error + entry list" where
  "ms_findEntries st = findEntries (ms_state st)"

definition ms_findEntriesOnBranch :: "memory_storage \<Rightarrow> entry_query \<Rightarrow> string option \<Rightarrow> string option \<Rightarrow> string
    \<Rightarrow> session_error + entry list" where
  "ms_findEntriesOnBranch st = findEntriesOnBranch (ms_state st)"

definition ms_findRecords :: "memory_storage \<Rightarrow> record_query \<Rightarrow> session_error + lane_record list" where
  "ms_findRecords st = findRecords (ms_state st)"

definition ms_findOpenOperations :: "memory_storage \<Rightarrow> string \<Rightarrow> js_number option \<Rightarrow> session_error + lane_record list" where
  "ms_findOpenOperations st = findOpenOperations (ms_state st)"

definition ms_getLog :: "memory_storage \<Rightarrow> js_number option \<Rightarrow> js_number option \<Rightarrow> session_error + log_item list" where
  "ms_getLog st = getLog (ms_state st)"

section \<open>The repository\<close>

type_synonym memory_repo = "(string \<times> memory_storage) list"

definition requireStorage :: "memory_repo \<Rightarrow> string \<Rightarrow> session_error + memory_storage" where
  "requireStorage repo k =
     (case map_of repo k of
        None \<Rightarrow> Err (SessionError not_found (SessionNotFound k))
      | Some st \<Rightarrow> Ok st)"

definition repo_create :: "memory_repo \<Rightarrow> string option \<Rightarrow> string option \<Rightarrow> string \<Rightarrow> nat
    \<Rightarrow> session_error + memory_repo \<times> memory_storage" where
  "repo_create repo given parentSessionId uuid now =
     (let k = (case given of Some x \<Rightarrow> x | None \<Rightarrow> uuid)
      in bind_res (guard_res (map_of repo k = None) (SessionError already_exists (SessionExists k))) (\<lambda>_.
         let st = new_memory_storage \<lparr>sm_id = k, sm_createdAt = now, sm_parentSessionId = parentSessionId\<rparr>
         in Ok (AList.update k st repo, st)))"

definition repo_open :: "memory_repo \<Rightarrow> session_metadata \<Rightarrow> session_error + memory_storage" where
  "repo_open repo metadata = requireStorage repo (sm_id metadata)"

definition repo_list :: "memory_repo \<Rightarrow> session_metadata list" where
  "repo_list repo = map (\<lambda>(k, st). ms_metadata st) repo"

definition repo_delete :: "memory_repo \<Rightarrow> session_metadata \<Rightarrow> memory_repo" where
  "repo_delete repo metadata = AList.delete (sm_id metadata) repo"

definition repo_fork :: "memory_repo \<Rightarrow> session_metadata \<Rightarrow> fork_options \<Rightarrow> string option \<Rightarrow> string option \<Rightarrow> string \<Rightarrow> nat
    \<Rightarrow> session_error + memory_repo \<times> memory_storage" where
  "repo_fork repo source options given parentSessionId uuid now =
     bind_res (requireStorage repo (sm_id source)) (\<lambda>sourceStorage.
     let k = (case given of Some x \<Rightarrow> x | None \<Rightarrow> uuid)
     in bind_res (guard_res (map_of repo k = None) (SessionError already_exists (SessionExists k))) (\<lambda>_.
        bind_res (ms_fork sourceStorage
                    \<lparr>sm_id = k, sm_createdAt = now,
                     sm_parentSessionId = Some (case parentSessionId of Some x \<Rightarrow> x | None \<Rightarrow> sm_id source)\<rparr>
                    options) (\<lambda>st.
        Ok (AList.update k st repo, st))))"

section \<open>The contract of a storage\<close>

text \<open>
  What the rest of the program relies on, for every implementation of \<open>SessionStorage\<close>: a
  storage shows a session state; appending an entry or a record, moving lanes and setting
  facts changes that state by the corresponding mutation with the next sequence number, and an
  operation is started on a lane only while none is open there. A storage may refuse data it
  cannot keep.
\<close>

locale session_storage =
  fixes view :: "'s \<Rightarrow> session_state"
    and usable :: "'s \<Rightarrow> bool"
    and acceptable :: "provisioned_entry \<Rightarrow> bool"
    and append_entry :: "'s \<Rightarrow> provisioned_entry \<Rightarrow> string \<Rightarrow> nat \<Rightarrow> 'e + 's \<times> entry"
    and append_record :: "'s \<Rightarrow> new_record \<Rightarrow> nat \<Rightarrow> 'e + 's \<times> lane_record"
    and create_lane :: "'s \<Rightarrow> string \<Rightarrow> string option \<Rightarrow> 'e + 's"
    and move_lane :: "'s \<Rightarrow> string \<Rightarrow> string option \<Rightarrow> 'e + 's"
    and set_name :: "'s \<Rightarrow> string option \<Rightarrow> 'e + 's"
    and set_label :: "'s \<Rightarrow> string \<Rightarrow> string option \<Rightarrow> 'e + 's"
  assumes append_entry_Ok: "\<And>s p lane now s' e. usable s \<Longrightarrow> append_entry s p lane now = Ok (s', e) \<Longrightarrow>
      usable s' \<and> applyMutation (view s) (EntryMutation (Some lane) e) = Ok (view s')
      \<and> (\<exists>parent. e = complete_entry p parent (ss_sequence (view s) + 1) now)"
    and append_entry_possible: "\<And>s p lane now. usable s \<Longrightarrow> map_of (ss_lanes (view s)) lane \<noteq> None \<Longrightarrow>
      pe_id p \<notin> set (ss_usedIds (view s)) \<Longrightarrow> acceptable p \<Longrightarrow> \<exists>r. append_entry s p lane now = Ok r"
    and append_record_Ok: "\<And>s n now s' r. usable s \<Longrightarrow> append_record s n now = Ok (s', r) \<Longrightarrow>
      usable s' \<and> applyMutation (view s) (RecordMutation r) = Ok (view s')
      \<and> r = complete_record n (ss_sequence (view s) + 1) now
      \<and> (is_start (r_body r) \<longrightarrow> open_at (ss_openOperations (view s)) (r_lane r) = [])"
    and create_lane_Ok: "\<And>s lane x s'. usable s \<Longrightarrow> create_lane s lane x = Ok s' \<Longrightarrow>
      usable s' \<and> applyMutation (view s) (LaneMutation (ss_sequence (view s) + 1) lane x) = Ok (view s')"
    and move_lane_Ok: "\<And>s lane x s'. usable s \<Longrightarrow> move_lane s lane x = Ok s' \<Longrightarrow>
      usable s' \<and> applyMutation (view s) (LaneMutation (ss_sequence (view s) + 1) lane x) = Ok (view s')"
    and set_name_Ok: "\<And>s x s'. usable s \<Longrightarrow> set_name s x = Ok s' \<Longrightarrow>
      usable s' \<and> applyMutation (view s) (NameMutation (ss_sequence (view s) + 1) x) = Ok (view s')"
    and set_label_Ok: "\<And>s k x s'. usable s \<Longrightarrow> set_label s k x = Ok s' \<Longrightarrow>
      usable s' \<and> applyMutation (view s) (LabelMutation (ss_sequence (view s) + 1) k x) = Ok (view s')"
begin

text \<open>The steps of a storage under its clients, with the clock as part of the step.\<close>

inductive storage_step :: "'s \<Rightarrow> 's \<Rightarrow> bool" where
  "append_entry s p lane now = Ok (s', e) \<Longrightarrow> storage_step s s'"
| "append_record s n now = Ok (s', r) \<Longrightarrow> storage_step s s'"
| "create_lane s lane x = Ok s' \<Longrightarrow> storage_step s s'"
| "move_lane s lane x = Ok s' \<Longrightarrow> storage_step s s'"
| "set_name s x = Ok s' \<Longrightarrow> storage_step s s'"
| "set_label s k x = Ok s' \<Longrightarrow> storage_step s s'"

definition single_operation :: "session_state \<Rightarrow> bool" where
  "single_operation t \<longleftrightarrow> (\<forall>lane. length (open_at (ss_openOperations t) lane) \<le> 1)"

definition healthy :: "'s \<Rightarrow> bool" where
  "healthy s \<longleftrightarrow> usable s \<and> session_inv (view s) \<and> op_inv (view s) \<and> single_operation (view s)"

lemma keeps_operations:
  assumes "single_operation t" and "applyMutation t m = Ok t'"
    and "\<And>r. m = RecordMutation r \<Longrightarrow> is_start (r_body r) \<Longrightarrow> open_at (ss_openOperations t) (r_lane r) = []"
  shows "single_operation t'"
proof (cases m)
  case (RecordMutation r)
  then have t': "ss_openOperations t' = track_operation r (ss_openOperations t)"
    using assms(2) by (auto simp: applyMutation_def apply_record_def res_simps)
  have "length (open_at (track_operation r (ss_openOperations t)) lane) \<le> 1" for lane
    using assms(1,3) RecordMutation length_filter_le [of "\<lambda>(k, _). k' \<noteq> k" for k']
    by (auto simp: single_operation_def open_at_track is_start_def AList.delete_eq split: record_body.splits
        intro: order.trans [OF length_filter_le])
  then show ?thesis
    by (simp add: single_operation_def t')
qed (use assms in \<open>auto simp: single_operation_def applyMutation_def apply_entry_def apply_lane_def apply_name_def
      apply_label_def res_simps\<close>)

lemma mutation_healthy:
  assumes "healthy s" and "usable s'" and "applyMutation (view s) m = Ok (view s')"
    and "\<And>r. m = RecordMutation r \<Longrightarrow> is_start (r_body r) \<Longrightarrow> open_at (ss_openOperations (view s)) (r_lane r) = []"
  shows "healthy s'"
  using assms applyMutation_inv applyMutation_op_inv keeps_operations [OF _ assms(3,4)] unfolding healthy_def by blast

lemma step_healthy: "storage_step s s' \<Longrightarrow> healthy s \<Longrightarrow> healthy s'"
proof (induction rule: storage_step.induct)
  case (1 s p lane now s' e)
  then show ?case
    using append_entry_Ok [OF _ 1(1)] mutation_healthy [of s s' "EntryMutation (Some lane) e"] by (auto simp: healthy_def)
next
  case (2 s n now s' r)
  then show ?case
    using append_record_Ok [OF _ 2(1)] mutation_healthy [of s s' "RecordMutation r"] by (auto simp: healthy_def)
next
  case (3 s lane x s')
  then show ?case
    using create_lane_Ok [OF _ 3(1)] mutation_healthy [of s s'] by (auto simp: healthy_def)
next
  case (4 s lane x s')
  then show ?case
    using move_lane_Ok [OF _ 4(1)] mutation_healthy [of s s'] by (auto simp: healthy_def)
next
  case (5 s x s')
  then show ?case
    using set_name_Ok [OF _ 5(1)] mutation_healthy [of s s'] by (auto simp: healthy_def)
next
  case (6 s k x s')
  then show ?case
    using set_label_Ok [OF _ 6(1)] mutation_healthy [of s s'] by (auto simp: healthy_def)
qed

lemma run_healthy: "storage_step\<^sup>*\<^sup>* s s' \<Longrightarrow> healthy s \<Longrightarrow> healthy s'"
  by (induction rule: rtranclp_induct) (auto intro: step_healthy)

text \<open>Appending to a lane puts the new entry on top of the lane's branch.\<close>

lemma append_on_branch:
  assumes "healthy s" and "append_entry s p lane now = Ok (s', e)"
  shows "map_of (ss_lanes (view s')) lane = Some (Some (pe_id p))"
    and "\<exists>leaf path. map_of (ss_lanes (view s)) lane = Some leaf \<and> walkToRoot (view s) leaf None None = (path, None)
      \<and> walkToRoot (view s') (Some (pe_id p)) None None = (e # path, None)"
proof -
  have usable: "usable s"
    using assms(1) by (simp add: healthy_def)
  obtain parent where m: "applyMutation (view s) (EntryMutation (Some lane) e) = Ok (view s')"
    and e: "e = complete_entry p parent (ss_sequence (view s) + 1) now"
    using append_entry_Ok [OF usable assms(2)] by blast
  have inv: "session_inv (view s)" "session_inv (view s')"
    using assms(1) applyMutation_inv [OF _ m] by (auto simp: healthy_def)
  have ids: "e_id e = pe_id p"
    using e by (simp add: complete_entry_def)
  note d = entry_mutationD [OF m]
  show "map_of (ss_lanes (view s')) lane = Some (Some (pe_id p))"
    using d(3) ids by (simp add: update_conv')
  show "\<exists>leaf path. map_of (ss_lanes (view s)) lane = Some leaf \<and> walkToRoot (view s) leaf None None = (path, None)
      \<and> walkToRoot (view s') (Some (pe_id p)) None None = (e # path, None)"
    using append_walk [OF inv d(4,2)] d(1) ids by auto
qed

end

section \<open>The in-memory storage keeps the contract\<close>

lemma ms_apply_Ok: "ms_apply st m = Ok st' \<Longrightarrow> applyMutation (ms_state st) m = Ok (ms_state st')"
  by (auto simp: ms_apply_def res_simps)

lemma validateSingleOperation_Ok:
  "validateSingleOperation s n = Ok () \<Longrightarrow> is_start (nr_body n) \<Longrightarrow> open_at (ss_openOperations s) (nr_lane n) = []"
  by (auto simp: validateSingleOperation_def findOpenOperations_def open_at_def assertValidLimit_def res_simps Let_def
      take_Suc_conv_app_nth split: option.splits list.splits)

interpretation memory: session_storage ms_state "\<lambda>st. session_inv (ms_state st)" "\<lambda>_. True" ms_appendEntry ms_appendRecord
  ms_createLane ms_moveLane ms_setName ms_setLabel
proof (unfold_locales, goal_cases)
  case (1 s p lane now s' e)
  then show ?case
    by (auto simp: ms_appendEntry_def nextSequence_def Let_def res_simps dest!: ms_apply_Ok intro: applyMutation_inv)
next
  case (2 s p lane now)
  then obtain leaf where leaf: "map_of (ss_lanes (ms_state s)) lane = Some leaf"
    by auto
  have "(lane, leaf) \<in> set (ss_lanes (ms_state s))"
    using leaf by (rule map_of_SomeD)
  then have "\<And>k. leaf = Some k \<Longrightarrow> has_entry (ms_state s) k"
    using 2(1) by (auto simp: session_inv_def lane_inv_def pointers_into_def has_entry_iff)
  then show ?case
    using leaf 2(3)
    by (cases leaf) (auto simp: ms_appendEntry_def requireLane_def validateUnusedId_def ms_apply_def applyMutation_def
        apply_entry_def complete_entry_def nextSequence_def Let_def)
next
  case (3 s n now s' r)
  then show ?case
    by (auto simp: ms_appendRecord_def nextSequence_def complete_record_def Let_def res_simps
        dest!: ms_apply_Ok validateSingleOperation_Ok intro: applyMutation_inv)
next
  case (4 s lane x s')
  then show ?case
    by (auto simp: ms_createLane_def nextSequence_def res_simps dest!: ms_apply_Ok intro: applyMutation_inv)
next
  case (5 s lane x s')
  then show ?case
    by (auto simp: ms_moveLane_def nextSequence_def res_simps dest!: ms_apply_Ok intro: applyMutation_inv)
next
  case (6 s x s')
  then show ?case
    by (auto simp: ms_setName_def nextSequence_def dest!: ms_apply_Ok intro: applyMutation_inv)
next
  case (7 s k x s')
  then show ?case
    by (auto simp: ms_setLabel_def nextSequence_def res_simps dest!: ms_apply_Ok intro: applyMutation_inv)
qed

section \<open>The contract of the in-memory storage\<close>

text \<open>The calls a client can make, one per step.\<close>

inductive memory_step :: "memory_storage \<Rightarrow> memory_storage \<Rightarrow> bool" where
  memory_appendEntry: "ms_appendEntry st p lane now = Ok (st', e) \<Longrightarrow> memory_step st st'"
| memory_appendRecord: "ms_appendRecord st n now = Ok (st', r) \<Longrightarrow> memory_step st st'"
| memory_createLane: "ms_createLane st lane x = Ok st' \<Longrightarrow> memory_step st st'"
| memory_moveLane: "ms_moveLane st lane x = Ok st' \<Longrightarrow> memory_step st st'"
| memory_setName: "ms_setName st x = Ok st' \<Longrightarrow> memory_step st st'"
| memory_setLabel: "ms_setLabel st k x = Ok st' \<Longrightarrow> memory_step st st'"

lemma memory_step_storage: "memory_step st st' \<Longrightarrow> memory.storage_step st st'"
  by (induction rule: memory_step.induct) (rule memory.storage_step.intros; assumption)+

lemma memory_steps_storage: "memory_step\<^sup>*\<^sup>* st st' \<Longrightarrow> memory.storage_step\<^sup>*\<^sup>* st st'"
  by (induction rule: rtranclp_induct) (auto intro: rtranclp.rtrancl_into_rtrancl memory_step_storage)

lemma new_memory_healthy: "memory.healthy (new_memory_storage metadata)"
  by (simp add: memory.healthy_def memory.single_operation_def new_memory_storage_def new_session_inv new_op_inv)
    (simp add: new_session_state_def open_at_def)

lemma memory_reachable_healthy:
  "memory_step\<^sup>*\<^sup>* (new_memory_storage metadata) st \<Longrightarrow> memory.healthy st"
  using memory.run_healthy [OF memory_steps_storage new_memory_healthy] .

text \<open>C15: at most one open operation. Whatever calls are made on a new storage, no lane ever has two open
  operations, so the recovery query with \<open>limit: 2\<close> returns at most one operation; it returns exactly the
  operations started on the lane and not finished since.\<close>

theorem at_most_one_open_operation:
  assumes "memory_step\<^sup>*\<^sup>* (new_memory_storage metadata) st"
  shows "\<exists>ops. ms_findOpenOperations st lane (Some (JInt 2)) = Ok ops \<and> length ops \<le> 1
    \<and> set ops = {r. \<exists>k. open_record lane k (ss_records (ms_state st)) = Some r}"
proof -
  let ?m = "open_at (ss_openOperations (ms_state st)) lane"
  have "memory.healthy st"
    using assms by (rule memory_reachable_healthy)
  then have len: "length ?m \<le> 1" and dist: "distinct (map fst ?m)"
    and look: "\<And>k. map_of ?m k = open_record lane k (ss_records (ms_state st))"
    by (auto simp: memory.healthy_def memory.single_operation_def op_inv_def)
  have "ms_findOpenOperations st lane (Some (JInt 2)) = Ok (take 2 (rev (map snd ?m)))"
    by (simp add: ms_findOpenOperations_def findOpenOperations_def assertValidLimit_def open_at_def split: option.split)
  also have "take 2 (rev (map snd ?m)) = rev (map snd ?m)"
    using len by simp
  finally have "ms_findOpenOperations st lane (Some (JInt 2)) = Ok (rev (map snd ?m))" .
  moreover have "set (rev (map snd ?m)) = {r. \<exists>k. open_record lane k (ss_records (ms_state st)) = Some r}"
    using ran_distinct [OF dist] look by (simp add: ran_def)
  ultimately show ?thesis
    using len by simp
qed

definition start_record :: new_record where
  "start_record = \<lparr>nr_id = ''op'', nr_lane = ''main'', nr_body = OperationStarted None (CompactionIntent None ''c''), nr_extra = []\<rparr>"

definition sample_metadata :: session_metadata where
  "sample_metadata = \<lparr>sm_id = ''s'', sm_createdAt = 1, sm_parentSessionId = None\<rparr>"

lemma start_possible: "\<exists>st r. ms_appendRecord (new_memory_storage sample_metadata) start_record 5 = Ok (st, r)"
  by (simp add: ms_appendRecord_def start_record_def new_memory_storage_def new_session_state_def requireLane_def
      validateUnusedId_def validateSingleOperation_def findOpenOperations_def assertValidLimit_def ms_apply_def
      applyMutation_def apply_record_def complete_record_def nextSequence_def Let_def)

theorem at_most_one_open_operation_witness:
  "\<exists>st r. ms_appendRecord (new_memory_storage sample_metadata) start_record 5 = Ok (st, r)
    \<and> (\<exists>ops. ms_findOpenOperations st ''main'' (Some (JInt 2)) = Ok ops \<and> length ops \<le> 1
      \<and> set ops = {r. \<exists>k. open_record ''main'' k (ss_records (ms_state st)) = Some r})"
proof -
  obtain st r where st: "ms_appendRecord (new_memory_storage sample_metadata) start_record 5 = Ok (st, r)"
    using start_possible by blast
  then have "memory_step\<^sup>*\<^sup>* (new_memory_storage sample_metadata) st"
    by (blast intro: memory_appendRecord)
  from at_most_one_open_operation [OF this] st show ?thesis
    by blast
qed

text \<open>appending. On every reachable storage, appending an entry with an unused id to an existing lane
  succeeds; the lane's leaf is then the new entry, and its branch is the new entry followed by the branch
  the lane had before.\<close>

theorem append_extends_branch:
  assumes "memory_step\<^sup>*\<^sup>* (new_memory_storage metadata) st"
    and "map_of (ss_lanes (ms_state st)) lane = Some leaf" and "pe_id p \<notin> set (ss_usedIds (ms_state st))"
  shows "\<exists>st' e path. ms_appendEntry st p lane now = Ok (st', e)
    \<and> map_of (ss_lanes (ms_state st')) lane = Some (Some (pe_id p))
    \<and> walkToRoot (ms_state st) leaf None None = (path, None)
    \<and> walkToRoot (ms_state st') (Some (pe_id p)) None None = (e # path, None)"
proof -
  have healthy: "memory.healthy st"
    using assms(1) by (rule memory_reachable_healthy)
  obtain st' e where ok: "ms_appendEntry st p lane now = Ok (st', e)"
    using memory.append_entry_possible [of st lane p now] assms(2,3) healthy by (auto simp: memory.healthy_def)
  show ?thesis
    using memory.append_on_branch [OF healthy ok] assms(2) ok by auto
qed

theorem append_extends_branch_witness:
  "\<exists>st' e path. ms_appendEntry (new_memory_storage sample_metadata)
       \<lparr>pe_id = ''x'', pe_body = CustomEntry ''note'', pe_extra = []\<rparr> ''main'' 5 = Ok (st', e)
    \<and> map_of (ss_lanes (ms_state st')) ''main'' = Some (Some ''x'')
    \<and> walkToRoot new_session_state None None None = (path, None)
    \<and> walkToRoot (ms_state st') (Some ''x'') None None = (e # path, None)"
  using append_extends_branch [of sample_metadata "new_memory_storage sample_metadata" "''main''" None
      "\<lparr>pe_id = ''x'', pe_body = CustomEntry ''note'', pe_extra = []\<rparr>" 5]
  by (simp add: new_memory_storage_def new_session_state_def)

text \<open>forking a stored session. A fork of a reachable storage fails only when the fork target is invalid
  (there is no scope to copy); otherwise it returns a storage that satisfies the session invariant, with
  the copied entries, the source's name and no records.\<close>

theorem storage_fork_correct:
  assumes "memory_step\<^sup>*\<^sup>* (new_memory_storage metadata) st"
  shows "case fork_scope (ms_state st) options of
      Inl e \<Rightarrow> ms_fork st new_metadata options = Err e
    | Inr (copied, lanes) \<Rightarrow> (\<exists>st'. ms_fork st new_metadata options = Ok st' \<and> ms_metadata st' = new_metadata
        \<and> session_inv (ms_state st') \<and> map unnumbered (ss_entries (ms_state st')) = map unnumbered copied
        \<and> map_of (ss_lanes (ms_state st')) = map_of lanes \<and> ss_name (ms_state st') = ss_name (ms_state st)
        \<and> ss_records (ms_state st') = [])"
proof (cases "fork_scope (ms_state st) options")
  case (Inl e)
  then show ?thesis
    by (simp add: ms_fork_def createForkMutations_def)
next
  case (Inr a)
  obtain copied lanes where scope: "fork_scope (ms_state st) options = Ok (copied, lanes)"
    using Inr by (cases a) simp
  then obtain ms where ms: "createForkMutations (ms_state st) options = Ok ms"
    by (simp add: createForkMutations_def Let_def)
  have "session_inv (ms_state st)"
    using memory_reachable_healthy [OF assms] by (simp add: memory.healthy_def)
  from fork_replay [OF this scope ms] obtain s' where s': "fold_res applyMutation new_session_state ms = Ok s'"
    "session_inv s'" "map unnumbered (ss_entries s') = map unnumbered copied" "map_of (ss_lanes s') = map_of lanes"
    "ss_name s' = ss_name (ms_state st)" "ss_records s' = []"
    by blast
  have "fold_res ms_apply x ms = bind_res (fold_res applyMutation (ms_state x) ms) (\<lambda>s. Ok (x\<lparr>ms_state := s\<rparr>))" for x
    by (induction ms arbitrary: x) (simp_all add: ms_apply_def bind_res_assoc)
  then have "ms_fork st new_metadata options = Ok \<lparr>ms_metadata = new_metadata, ms_state = s'\<rparr>"
    using ms s'(1) by (simp add: ms_fork_def new_memory_storage_def)
  then show ?thesis
    using scope s' by simp
qed

theorem storage_fork_correct_witness:
  "\<exists>st'. ms_fork (new_memory_storage sample_metadata) sample_metadata ForkTree = Ok st' \<and> session_inv (ms_state st')"
  using storage_fork_correct [of sample_metadata "new_memory_storage sample_metadata" sample_metadata ForkTree]
  by (auto simp: fork_scope_def findEntries_all)

end
