(* ===== verification/Reducer.thy ===== *)
theory Reducer
  imports SessionTypes "HOL-Library.Multiset"
begin

text \<open>
  Recovery of a lane (\<open>packages/agent/src/harness/reducer.ts\<close>): the validation of a lane's
  bounded record log and the pure reconstruction of its orchestration state. The structural
  equality \<open>Guard.IsDeepEqual\<close> of the TypeBox library is the parameter \<open>deep_eq\<close>. Error
  messages are left out; the machine-readable reason of the corruption is kept.
\<close>

datatype record_log_corruption =
    multiple_open_operations
  | unknown_operation
  | record_after_finish
  | non_consecutive_attempt
  | invalid_compaction_reason
  | queue_after_abort
  | invalid_queue_cancellation
  | inconsistent_step
  | tool_call_mismatch
  | duplicate_tool_invocation
  | provisioned_entry_mismatch
  | invalid_deferred_handle

text \<open>\<open>OperationStartedRecord\<close>: a record known to start an operation.\<close>

record operation_started_record =
  op_id :: string
  op_seq :: nat
  op_lane :: string
  op_timestamp :: nat
  op_sourceLeafId :: "string option"
  op_intent :: intent
  op_extra :: json_fields

record record_log_slice =
  sl_lane :: string
  sl_openOperations :: "operation_started_record list"
  sl_records :: "lane_record list"
  sl_entries :: "entry list"

record effective_configuration =
  ec_provider :: string
  ec_modelId :: string
  ec_thinkingLevel :: string
  ec_activeToolNames :: "string list"

datatype failure_source = StepSource | DeferredFetchSource

record terminal_failure =
  tf_entryId :: string
  tf_source :: failure_source
  tf_message :: assistant_message

record batch_call =
  bc_toolIndex :: nat
  bc_toolCall :: tool_call
  bc_started :: "lane_record option"
  bc_retryAuthorized :: bool
  bc_reconciliation :: "string option"
  bc_resultExists :: bool
  bc_terminate :: bool

record tool_batch =
  tb_assistantEntryId :: string
  tb_calls :: "batch_call list"
  tb_truncated :: bool
  tb_unresolved :: bool

record step_state =
  stp_kind :: step_kind
  stp_attempts :: nat
  stp_resultEntryId :: string
  stp_compactionReason :: "json option"

record newest_own =
  no_entryId :: string
  no_type :: string
  no_role :: "string option"
  no_stopReason :: "stop_reason option"

record operation_targets =
  tg_result :: "bool option"
  tg_summary :: "bool option"

record operation_state =
  os_id :: string
  os_kind :: operation_kind
  os_intent :: intent
  os_aborting :: bool
  os_pausing :: bool
  os_step :: "step_state option"
  os_toolBatch :: "tool_batch option"
  os_checkpoint :: "assistant_message option"
  os_checkpointFailure :: "assistant_message option"
  os_missingInitialMessages :: "provisioned_entry list"
  os_pendingSteer :: "provisioned_entry list"
  os_pendingFollowUp :: "provisioned_entry list"
  os_pendingWrites :: "provisioned_entry list"
  os_deferred :: "deferred_handle option"
  os_overflowRecoveryUsed :: bool
  os_newestOwn :: "newest_own option"
  os_targets :: operation_targets

record lane_state =
  ls_lane :: string
  ls_leafId :: "string option"
  ls_operation :: "operation_state option"
  ls_pendingNextRun :: "provisioned_entry list"

record lane_reduction_input = record_log_slice +
  ri_leafId :: "string option"
  ri_ownEntries :: "entry list"
  ri_configurationEntries :: "entry list"
  ri_defaults :: effective_configuration

record lane_reduction =
  lr_laneState :: lane_state
  lr_configuration :: effective_configuration
  lr_terminalFailure :: "terminal_failure option"

section \<open>Views of entries and records\<close>

definition entry_message :: "entry \<Rightarrow> agent_message option" where
  "entry_message e = (case e_body e of MessageEntry m t \<Rightarrow> Some m | _ \<Rightarrow> None)"

definition assistant_of :: "entry \<Rightarrow> assistant_message option" where
  "assistant_of e = (case e_body e of MessageEntry (AssistantMessage m) t \<Rightarrow> Some m | _ \<Rightarrow> None)"

definition tool_result_of :: "entry \<Rightarrow> tool_result_message option" where
  "tool_result_of e = (case e_body e of MessageEntry (ToolResultMessage m) t \<Rightarrow> Some m | _ \<Rightarrow> None)"

fun tool_calls :: "content_block list \<Rightarrow> tool_call list" where
  "tool_calls [] = []"
| "tool_calls (ToolCallBlock c # bs) = c # tool_calls bs"
| "tool_calls (b # bs) = tool_calls bs"

definition nth_opt :: "'a list \<Rightarrow> nat \<Rightarrow> 'a option" where
  "nth_opt xs i = (if i < length xs then Some (xs ! i) else None)"

text \<open>A \<open>Map\<close> from ids to entries: a later entry with the same id replaces an earlier one.\<close>

definition by_id :: "entry list \<Rightarrow> (string \<times> entry) list" where
  "by_id es = foldl (\<lambda>m e. AList.update (e_id e) e m) [] es"

definition bySequence :: "('a \<Rightarrow> nat) \<Rightarrow> 'a list \<Rightarrow> 'a list" where
  "bySequence f xs = sort_key f xs"

section \<open>Validation of the record log\<close>

definition matchesProvisionedEntry ::
  "(provisioned_entry \<Rightarrow> provisioned_entry \<Rightarrow> bool) \<Rightarrow> entry \<Rightarrow> provisioned_entry \<Rightarrow> bool" where
  "matchesProvisionedEntry deep_eq e target =
     deep_eq \<lparr>pe_id = e_id e, pe_body = e_body e, pe_extra = e_extra e\<rparr> target"

definition validateExactProvisionedEntry ::
  "(provisioned_entry \<Rightarrow> provisioned_entry \<Rightarrow> bool) \<Rightarrow> (string \<times> entry) list \<Rightarrow> provisioned_entry
     \<Rightarrow> record_log_corruption + unit" where
  "validateExactProvisionedEntry deep_eq entriesById target =
     (case map_of entriesById (pe_id target) of
        None \<Rightarrow> Ok ()
      | Some e \<Rightarrow> guard_res (matchesProvisionedEntry deep_eq e target) provisioned_entry_mismatch)"

definition validateResultEntry ::
  "(string \<times> entry) list \<Rightarrow> string \<Rightarrow> (entry \<Rightarrow> bool) \<Rightarrow> record_log_corruption + unit" where
  "validateResultEntry entriesById resultEntryId matches =
     (case map_of entriesById resultEntryId of
        None \<Rightarrow> Ok ()
      | Some e \<Rightarrow> guard_res (matches e) provisioned_entry_mismatch)"

definition compaction_reasons :: "json list" where
  "compaction_reasons = [JString ''manual'', JString ''threshold'', JString ''overflow'']"

definition validateAttemptReason :: "step_attempt \<Rightarrow> record_log_corruption + unit" where
  "validateAttemptReason a =
     (if sa_step a = CompactionStep
      then guard_res (\<exists>x. sa_compactionReason a = Some x \<and> x \<in> set compaction_reasons) invalid_compaction_reason
      else guard_res (sa_compactionReason a = None) invalid_compaction_reason)"

definition continues_series :: "nat \<Rightarrow> step_attempt \<Rightarrow> step_attempt option \<Rightarrow> (string \<times> entry) list \<Rightarrow> bool" where
  "continues_series n a previous entriesById =
     (case previous of
        None \<Rightarrow> False
      | Some p \<Rightarrow> sa_step p = sa_step a
          \<and> (case map_of entriesById (sa_resultEntryId p) of None \<Rightarrow> True | Some result \<Rightarrow> e_seq result \<ge> n))"

definition validateAttemptSequence ::
  "nat \<Rightarrow> step_attempt \<Rightarrow> step_attempt option \<Rightarrow> (string \<times> entry) list \<Rightarrow> record_log_corruption + unit" where
  "validateAttemptSequence n a previous entriesById =
     (let continues = continues_series n a previous entriesById;
          expected = (case previous of Some p \<Rightarrow> if continues then sa_attempt p + 1 else 1 | None \<Rightarrow> 1)
      in bind_res (guard_res (sa_attempt a = expected) non_consecutive_attempt) (\<lambda>_.
         case previous of
           None \<Rightarrow> Ok ()
         | Some p \<Rightarrow>
             if \<not> continues \<or> sa_step a = AssistantStep then Ok ()
             else bind_res (guard_res (sa_resultEntryId a = sa_resultEntryId p) inconsistent_step) (\<lambda>_.
                  guard_res (sa_compactionReason a = sa_compactionReason p) inconsistent_step)))"

definition validateAttemptResult :: "(string \<times> entry) list \<Rightarrow> step_attempt \<Rightarrow> record_log_corruption + unit" where
  "validateAttemptResult entriesById a =
     validateResultEntry entriesById (sa_resultEntryId a) (\<lambda>e.
       case sa_step a of
         AssistantStep \<Rightarrow> assistant_of e \<noteq> None
       | CompactionStep \<Rightarrow> entry_type (e_body e) = ''compaction''
       | BranchSummaryStep \<Rightarrow> entry_type (e_body e) = ''branch_summary'')"

text \<open>
  The invocation key, the assistant entry id and the tool index joined by a NUL character,
  is the pair of the two.
\<close>

definition validateToolStart ::
  "tool_start \<Rightarrow> (string \<times> entry) list \<Rightarrow> (string \<times> nat) list \<Rightarrow> record_log_corruption + (string \<times> nat) list" where
  "validateToolStart t entriesById invocations =
     (let invocation = (ts_assistantEntryId t, ts_toolIndex t)
      in bind_res (guard_res (invocation \<notin> set invocations) duplicate_tool_invocation) (\<lambda>_.
         case Option.bind (map_of entriesById (ts_assistantEntryId t)) assistant_of of
           None \<Rightarrow> Err tool_call_mismatch
         | Some m \<Rightarrow>
             bind_res (case nth_opt (tool_calls (am_content m)) (ts_toolIndex t) of
                         None \<Rightarrow> Err tool_call_mismatch
                       | Some c \<Rightarrow> guard_res (tc_id c = ts_toolCallId t \<and> tc_name c = ts_toolName t) tool_call_mismatch) (\<lambda>_.
             bind_res (validateResultEntry entriesById (ts_resultEntryId t) (\<lambda>e.
                         case tool_result_of e of
                           None \<Rightarrow> False
                         | Some r \<Rightarrow> tr_toolCallId r = ts_toolCallId t \<and> tr_toolName r = ts_toolName t)) (\<lambda>_.
             Ok (invocation # invocations)))))"

definition validateDeferredHandles :: "entry list \<Rightarrow> record_log_corruption + unit" where
  "validateDeferredHandles es =
     guard_res (list_all (\<lambda>e. case assistant_of e of
                                None \<Rightarrow> True
                              | Some m \<Rightarrow> am_stopReason m \<noteq> SR_deferred \<or> am_deferred m \<noteq> None) es)
       invalid_deferred_handle"

definition validate_all :: "('a \<Rightarrow> 'e + unit) \<Rightarrow> 'a list \<Rightarrow> 'e + unit" where
  "validate_all f xs = fold_res (\<lambda>_. f) () xs"

definition validateOperationResult ::
  "(provisioned_entry \<Rightarrow> provisioned_entry \<Rightarrow> bool) \<Rightarrow> (string \<times> entry) list \<Rightarrow> intent \<Rightarrow> record_log_corruption + unit" where
  "validateOperationResult deep_eq entriesById i =
     (case i of
        RunIntent prompt initialMessages override resumeData \<Rightarrow>
          validate_all (validateExactProvisionedEntry deep_eq entriesById) initialMessages
      | CompactionIntent custom resultEntryId \<Rightarrow>
          validateResultEntry entriesById resultEntryId (\<lambda>e. entry_type (e_body e) = ''compaction'')
      | NavigationIntent targetId summarize custom label summaryEntryId \<Rightarrow>
          (case summaryEntryId of
             None \<Rightarrow> Ok ()
           | Some k \<Rightarrow>
               if k = '''' then Ok ()
               else validateResultEntry entriesById k (\<lambda>e. entry_type (e_body e) = ''branch_summary'')))"

record log_check =
  lc_starts :: "string list"
  lc_finishedAt :: "string \<rightharpoonup> nat"
  lc_abortedAt :: "string \<rightharpoonup> nat"
  lc_queueEnqueues :: "string \<rightharpoonup> nat \<times> string option"
  lc_latestAttempt :: "string \<rightharpoonup> step_attempt"
  lc_toolInvocations :: "(string \<times> nat) list"

definition new_log_check :: log_check where
  "new_log_check = \<lparr>lc_starts = [], lc_finishedAt = Map.empty, lc_abortedAt = Map.empty, lc_queueEnqueues = Map.empty,
     lc_latestAttempt = Map.empty, lc_toolInvocations = []\<rparr>"

text \<open>\<open>hasRunId\<close> and the two checks on the operation a record belongs to.\<close>

definition check_owner :: "log_check \<Rightarrow> lane_record \<Rightarrow> record_log_corruption + unit" where
  "check_owner st r =
     (case run_id (r_body r) of
        None \<Rightarrow> Ok ()
      | Some k \<Rightarrow>
          bind_res (guard_res (k \<in> set (lc_starts st)) unknown_operation) (\<lambda>_.
          case lc_finishedAt st k of
            None \<Rightarrow> Ok ()
          | Some finishSeq \<Rightarrow> guard_res (\<not> r_seq r > finishSeq) record_after_finish))"

definition dispatched :: "lane_record list \<Rightarrow> nat \<Rightarrow> string \<Rightarrow> string \<Rightarrow> string \<Rightarrow> bool" where
  "dispatched records n runId toolCallId resultEntryId =
     list_ex (\<lambda>r. case r_body r of
                    ToolStarted t \<Rightarrow> ts_runId t = runId \<and> ts_toolCallId t = toolCallId
                      \<and> ts_resultEntryId t = resultEntryId \<and> r_seq r < n
                  | _ \<Rightarrow> False) records"

definition check_body :: "(provisioned_entry \<Rightarrow> provisioned_entry \<Rightarrow> bool) \<Rightarrow> (string \<times> entry) list \<Rightarrow> lane_record list
    \<Rightarrow> log_check \<Rightarrow> lane_record \<Rightarrow> record_log_corruption + log_check" where
  "check_body deep_eq entriesById records st r =
     (case r_body r of
        OperationFinished runId out err \<Rightarrow> Ok (st\<lparr>lc_finishedAt := (lc_finishedAt st)(runId \<mapsto> r_seq r)\<rparr>)
      | AbortRequested runId \<Rightarrow> Ok (st\<lparr>lc_abortedAt := (lc_abortedAt st)(runId \<mapsto> r_seq r)\<rparr>)
      | StepAttempt a \<Rightarrow>
          bind_res (validateAttemptReason a) (\<lambda>_.
          bind_res (validateAttemptSequence (r_seq r) a (lc_latestAttempt st (sa_runId a)) entriesById) (\<lambda>_.
          bind_res (validateAttemptResult entriesById a) (\<lambda>_.
          Ok (st\<lparr>lc_latestAttempt := (lc_latestAttempt st)(sa_runId a \<mapsto> a)\<rparr>))))
      | ToolStarted t \<Rightarrow>
          bind_res (validateToolStart t entriesById (lc_toolInvocations st)) (\<lambda>invocations.
          Ok (st\<lparr>lc_toolInvocations := invocations\<rparr>))
      | ToolReconciliation runId toolCallId resultEntryId reason diagnostic \<Rightarrow>
          bind_res (guard_res (dispatched records (r_seq r) runId toolCallId resultEntryId) tool_call_mismatch) (\<lambda>_. Ok st)
      | ToolReconciled runId toolCallId resultEntryId \<Rightarrow>
          bind_res (guard_res (dispatched records (r_seq r) runId toolCallId resultEntryId) tool_call_mismatch) (\<lambda>_. Ok st)
      | AssistantCheckpoint c \<Rightarrow>
          bind_res (case lc_latestAttempt st (cp_runId c) of
                      None \<Rightarrow> Err inconsistent_step
                    | Some a \<Rightarrow> guard_res (sa_step a = AssistantStep \<and> sa_resultEntryId a = cp_resultEntryId c
                        \<and> sa_attempt a = cp_attempt c \<and> am_isResponseCheckpoint (cp_message c)) inconsistent_step) (\<lambda>_. Ok st)
      | QueueEnqueued q runId target \<Rightarrow>
          bind_res (guard_res (\<not> (q \<noteq> NextRunQueue
                      \<and> (\<exists>n. Option.bind runId (lc_abortedAt st) = Some n \<and> r_seq r > n))) queue_after_abort) (\<lambda>_.
          bind_res (validateExactProvisionedEntry deep_eq entriesById target) (\<lambda>_.
          Ok (st\<lparr>lc_queueEnqueues := (lc_queueEnqueues st)(pe_id target \<mapsto> (r_seq r, runId))\<rparr>)))
      | QueueCancelled runId entryId \<Rightarrow>
          bind_res (case lc_queueEnqueues st entryId of
                      None \<Rightarrow> Err invalid_queue_cancellation
                    | Some (n, enqueuedBy) \<Rightarrow> guard_res (n < r_seq r \<and> enqueuedBy = runId
                        \<and> map_of entriesById entryId = None) invalid_queue_cancellation) (\<lambda>_. Ok st)
      | WriteDeferred runId target \<Rightarrow>
          bind_res (validateExactProvisionedEntry deep_eq entriesById target) (\<lambda>_. Ok st)
      | _ \<Rightarrow> Ok st)"

definition check_record :: "(provisioned_entry \<Rightarrow> provisioned_entry \<Rightarrow> bool) \<Rightarrow> (string \<times> entry) list \<Rightarrow> lane_record list
    \<Rightarrow> log_check \<Rightarrow> lane_record \<Rightarrow> record_log_corruption + log_check" where
  "check_record deep_eq entriesById records st r =
     (case r_body r of
        OperationStarted leaf i \<Rightarrow>
          bind_res (validateOperationResult deep_eq entriesById i) (\<lambda>_. Ok (st\<lparr>lc_starts := r_id r # lc_starts st\<rparr>))
      | _ \<Rightarrow> bind_res (check_owner st r) (\<lambda>_. check_body deep_eq entriesById records st r))"

definition validateRecordLog :: "(provisioned_entry \<Rightarrow> provisioned_entry \<Rightarrow> bool) \<Rightarrow> 'a record_log_slice_scheme
    \<Rightarrow> record_log_corruption + unit" where
  "validateRecordLog deep_eq input =
     bind_res (guard_res (length (sl_openOperations input) \<le> 1) multiple_open_operations) (\<lambda>_.
     let entriesById = by_id (sl_entries input)
     in bind_res (validateDeferredHandles (map snd entriesById)) (\<lambda>_.
        let records = bySequence r_seq (sl_records input)
        in bind_res (fold_res (check_record deep_eq entriesById records) new_log_check records) (\<lambda>_. Ok ())))"

section \<open>Configuration, newest entry and tool batch\<close>

definition apply_configuration :: "effective_configuration \<Rightarrow> entry \<Rightarrow> effective_configuration" where
  "apply_configuration c e =
     (case e_body e of
        ModelChangeEntry provider modelId \<Rightarrow> c\<lparr>ec_provider := provider, ec_modelId := modelId\<rparr>
      | ThinkingLevelEntry level \<Rightarrow> c\<lparr>ec_thinkingLevel := level\<rparr>
      | ActiveToolsEntry names \<Rightarrow> c\<lparr>ec_activeToolNames := names\<rparr>
      | MessageEntry (AssistantMessage m) t \<Rightarrow> c\<lparr>ec_provider := am_provider m, ec_modelId := am_model m\<rparr>
      | _ \<Rightarrow> c)"

definition deriveEffectiveConfiguration :: "'a lane_reduction_input_scheme \<Rightarrow> effective_configuration" where
  "deriveEffectiveConfiguration input =
     foldl apply_configuration (ri_defaults input)
       (bySequence e_seq (map snd (by_id (ri_configurationEntries input @ ri_ownEntries input))))"

definition deriveNewestOwn :: "entry option \<Rightarrow> newest_own option" where
  "deriveNewestOwn x =
     (case x of
        None \<Rightarrow> None
      | Some e \<Rightarrow>
          Some (case entry_message e of
                  None \<Rightarrow> \<lparr>no_entryId = e_id e, no_type = entry_type (e_body e), no_role = None, no_stopReason = None\<rparr>
                | Some m \<Rightarrow> \<lparr>no_entryId = e_id e, no_type = entry_type (e_body e), no_role = Some (message_role m),
                    no_stopReason = map_option am_stopReason (assistant_of e)\<rparr>))"

text \<open>\<open>xs.at(-1)\<close>.\<close>

definition last_opt :: "'a list \<Rightarrow> 'a option" where
  "last_opt xs = (if xs = [] then None else Some (last xs))"

definition tool_starts :: "string \<Rightarrow> string \<Rightarrow> lane_record list \<Rightarrow> nat \<rightharpoonup> lane_record \<times> tool_start" where
  "tool_starts operationId assistantEntryId records =
     foldl (\<lambda>m r. case r_body r of
                    ToolStarted t \<Rightarrow>
                      if ts_runId t = operationId \<and> ts_assistantEntryId t = assistantEntryId
                      then m(ts_toolIndex t \<mapsto> (r, t)) else m
                  | _ \<Rightarrow> m) Map.empty records"

text \<open>
  The reconciliation records of a call: \<open>Some reason\<close> for a request, \<open>None\<close> for a
  reconciled call, oldest first.
\<close>

fun reconciliations :: "string \<Rightarrow> string \<Rightarrow> string \<Rightarrow> lane_record list \<Rightarrow> string option list" where
  "reconciliations operationId toolCallId resultEntryId [] = []"
| "reconciliations operationId toolCallId resultEntryId (r # rs) =
     (case r_body r of
        ToolReconciliation runId callId entryId reason diagnostic \<Rightarrow>
          if runId = operationId \<and> callId = toolCallId \<and> entryId = resultEntryId then [Some reason] else []
      | ToolReconciled runId callId entryId \<Rightarrow>
          if runId = operationId \<and> callId = toolCallId \<and> entryId = resultEntryId then [None] else []
      | _ \<Rightarrow> []) @ reconciliations operationId toolCallId resultEntryId rs"

definition blocked_result :: "entry list \<Rightarrow> entry \<Rightarrow> string list \<Rightarrow> tool_call \<Rightarrow> entry option" where
  "blocked_result ownEntries assistantEntry deferredWriteIds c =
     find (\<lambda>e. e_seq e > e_seq assistantEntry \<and> e_id e \<notin> set deferredWriteIds
        \<and> (case tool_result_of e of None \<Rightarrow> False | Some r \<Rightarrow> tr_toolCallId r = tc_id c)) ownEntries"

definition derive_call :: "string \<Rightarrow> lane_record list \<Rightarrow> entry list \<Rightarrow> (string \<times> entry) list \<Rightarrow> string list \<Rightarrow> entry
    \<Rightarrow> (nat \<rightharpoonup> lane_record \<times> tool_start) \<Rightarrow> nat \<times> tool_call \<Rightarrow> batch_call" where
  "derive_call operationId records ownEntries entriesById deferredWriteIds assistantEntry starts ic =
     (let toolIndex = fst ic;
          toolCall = snd ic;
          started = starts toolIndex;
          startedResult = Option.bind started (\<lambda>(r, t). map_of entriesById (ts_resultEntryId t));
          blockedResult = blocked_result ownEntries assistantEntry deferredWriteIds toolCall;
          result = (case startedResult of Some e \<Rightarrow> Some e | None \<Rightarrow> blockedResult);
          reconciliation = (case started of
              None \<Rightarrow> None
            | Some (r, t) \<Rightarrow> last_opt (reconciliations operationId (tc_id toolCall) (ts_resultEntryId t) records))
      in \<lparr>bc_toolIndex = toolIndex,
          bc_toolCall = toolCall,
          bc_started = map_option fst started,
          bc_retryAuthorized = (reconciliation = Some None),
          bc_reconciliation = (case reconciliation of Some (Some reason) \<Rightarrow> Some reason | _ \<Rightarrow> None),
          bc_resultExists = (result \<noteq> None),
          bc_terminate = (case result of
              Some e \<Rightarrow> (case e_body e of MessageEntry m terminate \<Rightarrow> terminate | _ \<Rightarrow> False)
            | None \<Rightarrow> False)\<rparr>)"

definition batch_entry :: "entry list \<Rightarrow> (entry \<times> assistant_message) option" where
  "batch_entry ownEntries =
     (case find (\<lambda>e. case assistant_of e of None \<Rightarrow> False | Some m \<Rightarrow> tool_calls (am_content m) \<noteq> []) (rev ownEntries) of
        None \<Rightarrow> None
      | Some e \<Rightarrow> map_option (Pair e) (assistant_of e))"

definition deriveToolBatch :: "string \<Rightarrow> lane_record list \<Rightarrow> entry list \<Rightarrow> (string \<times> entry) list \<Rightarrow> string list
    \<Rightarrow> tool_batch option" where
  "deriveToolBatch operationId records ownEntries entriesById deferredWriteIds =
     (case batch_entry ownEntries of
        None \<Rightarrow> None
      | Some (assistantEntry, m) \<Rightarrow>
          let toolCalls = tool_calls (am_content m);
              starts = tool_starts operationId (e_id assistantEntry) records;
              calls = map (derive_call operationId records ownEntries entriesById deferredWriteIds assistantEntry starts)
                        (enumerate 0 toolCalls)
          in Some \<lparr>tb_assistantEntryId = e_id assistantEntry, tb_calls = calls,
               tb_truncated = (am_stopReason m = SR_length), tb_unresolved = list_ex (\<lambda>c. \<not> bc_resultExists c) calls\<rparr>)"

section \<open>Reduction of a lane\<close>

fun cancelled_ids :: "lane_record list \<Rightarrow> string list" where
  "cancelled_ids [] = []"
| "cancelled_ids (r # rs) =
     (case r_body r of QueueCancelled runId entryId \<Rightarrow> entryId # cancelled_ids rs | _ \<Rightarrow> cancelled_ids rs)"

text \<open>
  The queued items that are neither materialised as an entry nor cancelled, each with its
  queue and its run, and the provisioned targets of one queue.
\<close>

fun enqueued :: "lane_record list \<Rightarrow> (queue_kind \<times> string option \<times> provisioned_entry) list" where
  "enqueued [] = []"
| "enqueued (r # rs) =
     (case r_body r of QueueEnqueued q runId target \<Rightarrow> (q, runId, target) # enqueued rs | _ \<Rightarrow> enqueued rs)"

definition pendingQueueRecords ::
  "(string \<times> entry) list \<Rightarrow> lane_record list \<Rightarrow> (queue_kind \<times> string option \<times> provisioned_entry) list" where
  "pendingQueueRecords entriesById records =
     filter (\<lambda>(q, runId, target). map_of entriesById (pe_id target) = None
               \<and> pe_id target \<notin> set (cancelled_ids records)) (enqueued records)"

definition initial_messages :: "intent \<Rightarrow> provisioned_entry list" where
  "initial_messages i = (case i of RunIntent prompt initialMessages override resumeData \<Rightarrow> initialMessages | _ \<Rightarrow> [])"

definition pending_next_run :: "operation_started_record option
    \<Rightarrow> (queue_kind \<times> string option \<times> provisioned_entry) list \<Rightarrow> provisioned_entry list" where
  "pending_next_run started pending =
     (let captured = (case started of Some s \<Rightarrow> map pe_id (initial_messages (op_intent s)) | None \<Rightarrow> [])
      in map (\<lambda>(q, runId, target). target)
           (filter (\<lambda>(q, runId, target). q = NextRunQueue \<and> pe_id target \<notin> set captured) pending))"

definition pending_of :: "queue_kind \<Rightarrow> string \<Rightarrow> (queue_kind \<times> string option \<times> provisioned_entry) list
    \<Rightarrow> provisioned_entry list" where
  "pending_of k operationId pending =
     map (\<lambda>(q, runId, target). target) (filter (\<lambda>(q, runId, target). q = k \<and> runId = Some operationId) pending)"

definition operation_records :: "string \<Rightarrow> lane_record list \<Rightarrow> lane_record list" where
  "operation_records operationId records =
     filter (\<lambda>r. case r_body r of
                   OperationStarted leaf i \<Rightarrow> r_id r = operationId
                 | b \<Rightarrow> run_id b = Some operationId) records"

definition is_aborting :: "lane_record list \<Rightarrow> bool" where
  "is_aborting records = list_ex (\<lambda>r. case r_body r of AbortRequested runId \<Rightarrow> True | _ \<Rightarrow> False) records"

definition is_pausing :: "lane_record list \<Rightarrow> bool" where
  "is_pausing records =
     (let (lastPause, lastClear) =
        foldl (\<lambda>(p, c) r. case r_body r of
                            PauseRequested runId \<Rightarrow> (max p (int (r_seq r)), c)
                          | PauseCleared runId \<Rightarrow> (p, max c (int (r_seq r)))
                          | _ \<Rightarrow> (p, c)) (- 1 :: int, - 1 :: int) records
      in lastPause > lastClear)"

fun deferred_writes :: "lane_record list \<Rightarrow> provisioned_entry list" where
  "deferred_writes [] = []"
| "deferred_writes (r # rs) =
     (case r_body r of WriteDeferred runId target \<Rightarrow> target # deferred_writes rs | _ \<Rightarrow> deferred_writes rs)"

definition unmaterialised :: "(string \<times> entry) list \<Rightarrow> provisioned_entry list \<Rightarrow> provisioned_entry list" where
  "unmaterialised entriesById targets = filter (\<lambda>target. map_of entriesById (pe_id target) = None) targets"

fun attempts :: "lane_record list \<Rightarrow> (nat \<times> step_attempt) list" where
  "attempts [] = []"
| "attempts (r # rs) = (case r_body r of StepAttempt a \<Rightarrow> (r_seq r, a) # attempts rs | _ \<Rightarrow> attempts rs)"

definition current_step :: "(string \<times> entry) list \<Rightarrow> lane_record list \<Rightarrow> step_state option" where
  "current_step entriesById records =
     (case last_opt (attempts records) of
        None \<Rightarrow> None
      | Some (n, a) \<Rightarrow>
          if map_of entriesById (sa_resultEntryId a) \<noteq> None then None
          else Some \<lparr>stp_kind = sa_step a, stp_attempts = sa_attempt a, stp_resultEntryId = sa_resultEntryId a,
                 stp_compactionReason = (if sa_step a = CompactionStep then sa_compactionReason a else None)\<rparr>)"

definition consumed_input_ids :: "intent \<Rightarrow> lane_record list \<Rightarrow> string list" where
  "consumed_input_ids i records =
     map pe_id (initial_messages i)
     @ map (\<lambda>(q, runId, target). pe_id target) (filter (\<lambda>(q, runId, target). q \<noteq> NextRunQueue) (enqueued records))"

text \<open>The newest sequence number among the consumed inputs; \<open>None\<close> is negative infinity.\<close>

definition newest_consumed :: "(string \<times> entry) list \<Rightarrow> string list \<Rightarrow> nat option" where
  "newest_consumed entriesById ids =
     foldl (\<lambda>newest i. case map_of entriesById i of
                         None \<Rightarrow> newest
                       | Some e \<Rightarrow> if entry_message e = None then newest
                           else Some (case newest of None \<Rightarrow> e_seq e | Some n \<Rightarrow> max n (e_seq e))) None ids"

definition overflow_recovery_used :: "nat option \<Rightarrow> lane_record list \<Rightarrow> bool" where
  "overflow_recovery_used newest records =
     list_ex (\<lambda>(n, a). sa_step a = CompactionStep \<and> sa_compactionReason a = Some (JString ''overflow'')
                \<and> (case newest of None \<Rightarrow> True | Some m \<Rightarrow> n > m)) (attempts records)"

fun checkpoints :: "lane_record list \<Rightarrow> checkpoint list" where
  "checkpoints [] = []"
| "checkpoints (r # rs) = (case r_body r of AssistantCheckpoint c \<Rightarrow> c # checkpoints rs | _ \<Rightarrow> checkpoints rs)"

definition pending_checkpoint :: "step_state option \<Rightarrow> lane_record list \<Rightarrow> checkpoint option" where
  "pending_checkpoint step records =
     (case step of
        None \<Rightarrow> None
      | Some s \<Rightarrow>
          if stp_kind s = AssistantStep
          then last_opt (filter (\<lambda>c. cp_resultEntryId c = stp_resultEntryId s \<and> cp_attempt c = stp_attempts s)
                 (checkpoints records))
          else None)"

definition checkpoint_failure :: "(string \<times> entry) list \<Rightarrow> entry list \<Rightarrow> lane_record list \<Rightarrow> assistant_message option" where
  "checkpoint_failure entriesById ownEntries records =
     (case last_opt (checkpoints records) of
        None \<Rightarrow> None
      | Some c \<Rightarrow>
          (case map_of entriesById (cp_resultEntryId c) of
             None \<Rightarrow> None
           | Some result \<Rightarrow>
               if list_ex (\<lambda>e. e_seq e > e_seq result \<and> assistant_of e \<noteq> None) ownEntries then None
               else cp_continuationFailure c))"

definition deferred_of :: "entry option \<Rightarrow> deferred_handle option" where
  "deferred_of newest =
     (case Option.bind newest assistant_of of
        None \<Rightarrow> None
      | Some m \<Rightarrow> if am_stopReason m = SR_deferred then am_deferred m else None)"

definition operation_targets_of :: "(string \<times> entry) list \<Rightarrow> intent \<Rightarrow> operation_targets" where
  "operation_targets_of entriesById i =
     (case i of
        CompactionIntent custom resultEntryId \<Rightarrow>
          \<lparr>tg_result = Some (map_of entriesById resultEntryId \<noteq> None), tg_summary = None\<rparr>
      | NavigationIntent targetId summarize custom label (Some summaryEntryId) \<Rightarrow>
          \<lparr>tg_result = None,
           tg_summary = (if summaryEntryId = '''' then None else Some (map_of entriesById summaryEntryId \<noteq> None))\<rparr>
      | _ \<Rightarrow> \<lparr>tg_result = None, tg_summary = None\<rparr>)"

definition terminal_failure_of :: "entry list \<Rightarrow> lane_record list \<Rightarrow> string list \<Rightarrow> terminal_failure option" where
  "terminal_failure_of ownEntries records deferredWriteIds =
     (case last_opt ownEntries of
        None \<Rightarrow> None
      | Some newest \<Rightarrow>
          (case assistant_of newest of
             None \<Rightarrow> None
           | Some m \<Rightarrow>
               if am_stopReason m = SR_error \<and> e_id newest \<notin> set deferredWriteIds then
                 let producedByStep = list_ex (\<lambda>(n, a). sa_resultEntryId a = e_id newest) (attempts records);
                     producedByDeferredFetch =
                       list_ex (\<lambda>r. case r_body r of
                                      UsageRecord u (StepUsage DeferredFetchUsage runId entryId attempt stop) \<Rightarrow> entryId = e_id newest
                                    | _ \<Rightarrow> False) records
                       \<or> (case Option.bind (nth_opt (rev ownEntries) 1) assistant_of of
                            None \<Rightarrow> False
                          | Some previous \<Rightarrow> am_stopReason previous = SR_deferred)
                 in if producedByStep \<or> producedByDeferredFetch
                    then Some \<lparr>tf_entryId = e_id newest,
                           tf_source = (if producedByStep then StepSource else DeferredFetchSource), tf_message = m\<rparr>
                    else None
               else None))"

definition operation_state_of :: "operation_started_record \<Rightarrow> lane_record list \<Rightarrow> entry list \<Rightarrow> (string \<times> entry) list
    \<Rightarrow> (queue_kind \<times> string option \<times> provisioned_entry) list \<Rightarrow> operation_state" where
  "operation_state_of started operationRecords ownEntries entriesById pending =
     (let aborting = is_aborting operationRecords;
          step = current_step entriesById operationRecords;
          newestOwnEntry = last_opt ownEntries;
          deferredWriteIds = map pe_id (deferred_writes operationRecords);
          newestConsumed = newest_consumed entriesById (consumed_input_ids (op_intent started) operationRecords)
      in \<lparr>os_id = op_id started,
          os_kind = intent_kind (op_intent started),
          os_intent = op_intent started,
          os_aborting = aborting,
          os_pausing = is_pausing operationRecords,
          os_step = step,
          os_toolBatch = deriveToolBatch (op_id started) operationRecords ownEntries entriesById deferredWriteIds,
          os_checkpoint = map_option cp_message (pending_checkpoint step operationRecords),
          os_checkpointFailure = checkpoint_failure entriesById ownEntries operationRecords,
          os_missingInitialMessages = unmaterialised entriesById (initial_messages (op_intent started)),
          os_pendingSteer = (if aborting then [] else pending_of SteerQueue (op_id started) pending),
          os_pendingFollowUp = (if aborting then [] else pending_of FollowUpQueue (op_id started) pending),
          os_pendingWrites = unmaterialised entriesById (deferred_writes operationRecords),
          os_deferred = deferred_of newestOwnEntry,
          os_overflowRecoveryUsed = overflow_recovery_used newestConsumed operationRecords,
          os_newestOwn = deriveNewestOwn newestOwnEntry,
          os_targets = operation_targets_of entriesById (op_intent started)\<rparr>)"

definition reduceLaneState :: "(provisioned_entry \<Rightarrow> provisioned_entry \<Rightarrow> bool) \<Rightarrow> 'a lane_reduction_input_scheme
    \<Rightarrow> record_log_corruption + lane_reduction" where
  "reduceLaneState deep_eq input =
     bind_res (validateRecordLog deep_eq input) (\<lambda>_.
     let records = bySequence r_seq (sl_records input);
         ownEntries = bySequence e_seq (ri_ownEntries input);
         entriesById = by_id (sl_entries input @ ownEntries);
         pending = pendingQueueRecords entriesById records;
         effectiveConfiguration = deriveEffectiveConfiguration input
     in case sl_openOperations input of
          [] \<Rightarrow> Ok \<lparr>lr_laneState = \<lparr>ls_lane = sl_lane input, ls_leafId = ri_leafId input, ls_operation = None,
                     ls_pendingNextRun = pending_next_run None pending\<rparr>,
                   lr_configuration = effectiveConfiguration, lr_terminalFailure = None\<rparr>
        | started # others \<Rightarrow>
            let operationRecords = operation_records (op_id started) records
            in Ok \<lparr>lr_laneState = \<lparr>ls_lane = sl_lane input, ls_leafId = ri_leafId input,
                       ls_operation = Some (operation_state_of started operationRecords ownEntries entriesById pending),
                       ls_pendingNextRun = pending_next_run (Some started) pending\<rparr>,
                     lr_configuration = effectiveConfiguration,
                     lr_terminalFailure = terminal_failure_of ownEntries operationRecords
                       (map pe_id (deferred_writes operationRecords))\<rparr>)"

end
