(* ===== verification/ReducerCorrect.thy ===== *)
theory ReducerCorrect
  imports Reducer
begin

text \<open>
  Correctness of the record-log validation: the single pass with its mutable maps accepts a
  log exactly when every record satisfies a condition on the records before it, and what an
  accepted log guarantees.
\<close>

section \<open>Loops that only accumulate\<close>

text \<open>
  A fallible loop whose body, when it succeeds, steps the state by a total function: the loop
  succeeds exactly when the body succeeds at every element, in the state of its prefix.
\<close>

lemma fold_res_steps:
  assumes step: "\<And>s x s'. f s x = Inr s' \<Longrightarrow> s' = g s x"
  shows "fold_res f s xs = Inr s' \<longleftrightarrow>
    (\<forall>ys x zs. xs = ys @ x # zs \<longrightarrow> is_Ok (f (foldl g s ys) x)) \<and> s' = foldl g s xs"
proof (induction xs arbitrary: s)
  case Nil
  then show ?case by auto
next
  case (Cons x xs)
  show ?case
  proof (cases "f s x")
    case (Inl e)
    then have "\<exists>ys y zs. x # xs = ys @ y # zs \<and> \<not> is_Ok (f (foldl g s ys) y)"
      by (intro exI [of _ "[]"] exI [of _ x] exI [of _ xs]) simp
    then show ?thesis
      using Inl by auto
  next
    case (Inr t)
    then have t: "t = g s x"
      by (rule step)
    have "(\<forall>ys y zs. x # xs = ys @ y # zs \<longrightarrow> is_Ok (f (foldl g s ys) y)) \<longleftrightarrow>
      (\<forall>ys y zs. xs = ys @ y # zs \<longrightarrow> is_Ok (f (foldl g t ys) y))" (is "?L = ?R")
    proof
      assume L: ?L
      show ?R
      proof (intro allI impI)
        fix ys y zs
        assume "xs = ys @ y # zs"
        then show "is_Ok (f (foldl g t ys) y)"
          using L [rule_format, of "x # ys" y zs] t by simp
      qed
    next
      assume R: ?R
      show ?L
      proof (intro allI impI)
        fix ys y zs
        assume eq: "x # xs = ys @ y # zs"
        show "is_Ok (f (foldl g s ys) y)"
        proof (cases ys)
          case Nil
          then show ?thesis
            using eq Inr by simp
        next
          case (Cons a as)
          then show ?thesis
            using eq R [rule_format, of as y zs] t by simp
        qed
      qed
    qed
    then show ?thesis
      using Inr t Cons.IH [of t] by simp
  qed
qed

section \<open>The history a record is checked against\<close>

definition advance :: "log_check \<Rightarrow> lane_record \<Rightarrow> log_check" where
  "advance st r =
     (case r_body r of
        OperationStarted leaf i \<Rightarrow> st\<lparr>lc_starts := r_id r # lc_starts st\<rparr>
      | OperationFinished runId out err \<Rightarrow> st\<lparr>lc_finishedAt := (lc_finishedAt st)(runId \<mapsto> r_seq r)\<rparr>
      | AbortRequested runId \<Rightarrow> st\<lparr>lc_abortedAt := (lc_abortedAt st)(runId \<mapsto> r_seq r)\<rparr>
      | StepAttempt a \<Rightarrow> st\<lparr>lc_latestAttempt := (lc_latestAttempt st)(sa_runId a \<mapsto> a)\<rparr>
      | ToolStarted t \<Rightarrow> st\<lparr>lc_toolInvocations := (ts_assistantEntryId t, ts_toolIndex t) # lc_toolInvocations st\<rparr>
      | QueueEnqueued q runId target \<Rightarrow>
          st\<lparr>lc_queueEnqueues := (lc_queueEnqueues st)(pe_id target \<mapsto> (r_seq r, runId))\<rparr>
      | _ \<Rightarrow> st)"

lemma validateToolStart_value:
  "validateToolStart t E seen = Inr seen' \<Longrightarrow> seen' = (ts_assistantEntryId t, ts_toolIndex t) # seen"
  by (auto simp: validateToolStart_def Let_def res_simps split: option.splits)

lemma check_record_advance:
  assumes "check_record deep_eq E rs st r = Inr st'"
  shows "st' = advance st r"
  using assms
  by (cases "r_body r")
     (auto simp: check_record_def check_body_def advance_def res_simps split: option.splits
       dest: validateToolStart_value)

definition history :: "lane_record list \<Rightarrow> log_check" where
  "history rs = foldl advance new_log_check rs"

lemma history_snoc: "history (rs @ [r]) = advance (history rs) r"
  by (simp add: history_def)

lemma history_Nil: "history [] = new_log_check"
  by (simp add: history_def)

text \<open>What a record contributes: the operation it starts, finishes or aborts, its attempt.\<close>

definition starts_op :: "string \<Rightarrow> lane_record \<Rightarrow> bool" where
  "starts_op k r = (case r_body r of OperationStarted leaf i \<Rightarrow> r_id r = k | _ \<Rightarrow> False)"

definition finishes_op :: "string \<Rightarrow> lane_record \<Rightarrow> bool" where
  "finishes_op k r = (case r_body r of OperationFinished runId out err \<Rightarrow> runId = k | _ \<Rightarrow> False)"

definition aborts_op :: "string \<Rightarrow> lane_record \<Rightarrow> bool" where
  "aborts_op k r = (case r_body r of AbortRequested runId \<Rightarrow> runId = k | _ \<Rightarrow> False)"

definition invokes :: "string \<Rightarrow> nat \<Rightarrow> lane_record \<Rightarrow> bool" where
  "invokes a i r = (case r_body r of ToolStarted t \<Rightarrow> ts_assistantEntryId t = a \<and> ts_toolIndex t = i | _ \<Rightarrow> False)"

definition run_attempts :: "string \<Rightarrow> lane_record list \<Rightarrow> step_attempt list" where
  "run_attempts k rs = filter (\<lambda>a. sa_runId a = k) (map snd (attempts rs))"

fun enqueues_of :: "string \<Rightarrow> lane_record list \<Rightarrow> (nat \<times> string option) list" where
  "enqueues_of k [] = []"
| "enqueues_of k (r # rs) =
     (case r_body r of
        QueueEnqueued q runId target \<Rightarrow> if pe_id target = k then [(r_seq r, runId)] else []
      | _ \<Rightarrow> []) @ enqueues_of k rs"

lemma attempts_append: "attempts (xs @ ys) = attempts xs @ attempts ys"
  by (induction xs) (auto split: record_body.splits)

lemma enqueues_of_append: "enqueues_of k (xs @ ys) = enqueues_of k xs @ enqueues_of k ys"
  by (induction xs) auto

lemma last_opt_snoc [simp]: "last_opt (xs @ [x]) = Some x"
  by (simp add: last_opt_def)

lemma last_opt_Nil [simp]: "last_opt [] = None"
  by (simp add: last_opt_def)

lemma last_opt_append: "last_opt (xs @ ys) = (case last_opt ys of None \<Rightarrow> last_opt xs | Some y \<Rightarrow> Some y)"
  by (simp add: last_opt_def)

lemma last_opt_in_set: "last_opt xs = Some x \<Longrightarrow> x \<in> set xs"
  by (auto simp: last_opt_def split: if_splits)

lemma history_starts: "k \<in> set (lc_starts (history rs)) \<longleftrightarrow> (\<exists>r\<in>set rs. starts_op k r)"
  by (induction rs rule: rev_induct)
     (auto simp: history_Nil history_snoc new_log_check_def advance_def starts_op_def split: record_body.splits)

lemma history_invocations: "(a, i) \<in> set (lc_toolInvocations (history rs)) \<longleftrightarrow> (\<exists>r\<in>set rs. invokes a i r)"
  by (induction rs rule: rev_induct)
     (auto simp: history_Nil history_snoc new_log_check_def advance_def invokes_def split: record_body.splits)

lemma history_finished_None: "lc_finishedAt (history rs) k = None \<longleftrightarrow> \<not> (\<exists>r\<in>set rs. finishes_op k r)"
  by (induction rs rule: rev_induct)
     (auto simp: history_Nil history_snoc new_log_check_def advance_def finishes_op_def split: record_body.splits)

lemma history_finished_Some: "lc_finishedAt (history rs) k = Some n \<Longrightarrow> \<exists>r\<in>set rs. r_seq r = n"
  by (induction rs rule: rev_induct)
     (auto simp: history_Nil history_snoc new_log_check_def advance_def split: record_body.splits if_splits)

lemma history_aborted_None: "lc_abortedAt (history rs) k = None \<longleftrightarrow> \<not> (\<exists>r\<in>set rs. aborts_op k r)"
  by (induction rs rule: rev_induct)
     (auto simp: history_Nil history_snoc new_log_check_def advance_def aborts_op_def split: record_body.splits)

lemma history_aborted_Some: "lc_abortedAt (history rs) k = Some n \<Longrightarrow> \<exists>r\<in>set rs. r_seq r = n"
  by (induction rs rule: rev_induct)
     (auto simp: history_Nil history_snoc new_log_check_def advance_def split: record_body.splits if_splits)

lemma history_latest: "lc_latestAttempt (history rs) k = last_opt (run_attempts k rs)"
  by (induction rs rule: rev_induct)
     (auto simp: history_Nil history_snoc new_log_check_def advance_def run_attempts_def attempts_append
       split: record_body.splits)

lemma history_enqueues: "lc_queueEnqueues (history rs) k = last_opt (enqueues_of k rs)"
  by (induction rs rule: rev_induct)
     (auto simp: history_Nil history_snoc new_log_check_def advance_def enqueues_of_append
       split: record_body.splits)

lemma enqueues_of_seq: "(n, runId) \<in> set (enqueues_of k rs) \<Longrightarrow> \<exists>r\<in>set rs. r_seq r = n"
  by (induction rs) (auto split: record_body.splits if_splits)

section \<open>The condition on one record\<close>

text \<open>
  \<open>before rs r\<close> are the records of the log with a smaller sequence number, oldest first.
  \<open>record_ok\<close> states, record by record and without any running state, what the log of a
  single writer satisfies.
\<close>

definition before :: "lane_record list \<Rightarrow> lane_record \<Rightarrow> lane_record list" where
  "before rs r = filter (\<lambda>x. r_seq x < r_seq r) (bySequence r_seq rs)"

definition result_ok :: "(string \<times> entry) list \<Rightarrow> string \<Rightarrow> (entry \<Rightarrow> bool) \<Rightarrow> bool" where
  "result_ok E k P = (\<forall>e. map_of E k = Some e \<longrightarrow> P e)"

definition target_ok ::
  "(provisioned_entry \<Rightarrow> provisioned_entry \<Rightarrow> bool) \<Rightarrow> (string \<times> entry) list \<Rightarrow> provisioned_entry \<Rightarrow> bool" where
  "target_ok deep_eq E target = result_ok E (pe_id target)
     (\<lambda>e. deep_eq \<lparr>pe_id = e_id e, pe_body = e_body e, pe_extra = e_extra e\<rparr> target)"

definition is_compaction :: "entry \<Rightarrow> bool" where
  "is_compaction e = (entry_type (e_body e) = ''compaction'')"

definition is_branch_summary :: "entry \<Rightarrow> bool" where
  "is_branch_summary e = (entry_type (e_body e) = ''branch_summary'')"

definition intent_ok ::
  "(provisioned_entry \<Rightarrow> provisioned_entry \<Rightarrow> bool) \<Rightarrow> (string \<times> entry) list \<Rightarrow> intent \<Rightarrow> bool" where
  "intent_ok deep_eq E i =
     (case i of
        RunIntent prompt initialMessages override resumeData \<Rightarrow> (\<forall>target\<in>set initialMessages. target_ok deep_eq E target)
      | CompactionIntent custom k \<Rightarrow> result_ok E k is_compaction
      | NavigationIntent targetId summarize custom label k \<Rightarrow>
          (\<forall>x. k = Some x \<and> x \<noteq> [] \<longrightarrow> result_ok E x is_branch_summary))"

text \<open>
  An attempt either opens a series with number 1 or continues the run's latest attempt, of the
  same kind and without a result so far, with the next number.
\<close>

definition attempt_ok :: "(string \<times> entry) list \<Rightarrow> lane_record list \<Rightarrow> lane_record \<Rightarrow> step_attempt \<Rightarrow> bool" where
  "attempt_ok E rs r a =
     ((if sa_step a = CompactionStep then sa_compactionReason a \<in> Some ` set compaction_reasons
       else sa_compactionReason a = None)
      \<and> (let previous = last_opt (run_attempts (sa_runId a) (before rs r))
         in if continues_series (r_seq r) a previous E
            then (\<exists>p. previous = Some p \<and> sa_attempt a = Suc (sa_attempt p)
                    \<and> (sa_step a \<noteq> AssistantStep \<longrightarrow> sa_resultEntryId a = sa_resultEntryId p
                         \<and> sa_compactionReason a = sa_compactionReason p))
            else sa_attempt a = 1)
      \<and> result_ok E (sa_resultEntryId a)
          (case sa_step a of
             AssistantStep \<Rightarrow> (\<lambda>e. assistant_of e \<noteq> None)
           | CompactionStep \<Rightarrow> is_compaction
           | BranchSummaryStep \<Rightarrow> is_branch_summary))"

definition tool_start_ok :: "(string \<times> entry) list \<Rightarrow> lane_record list \<Rightarrow> lane_record \<Rightarrow> tool_start \<Rightarrow> bool" where
  "tool_start_ok E rs r t =
     ((\<forall>x\<in>set (before rs r). \<not> invokes (ts_assistantEntryId t) (ts_toolIndex t) x)
      \<and> (\<exists>e m c. map_of E (ts_assistantEntryId t) = Some e \<and> assistant_of e = Some m
           \<and> nth_opt (tool_calls (am_content m)) (ts_toolIndex t) = Some c
           \<and> tc_id c = ts_toolCallId t \<and> tc_name c = ts_toolName t)
      \<and> result_ok E (ts_resultEntryId t)
          (\<lambda>e. \<exists>m. tool_result_of e = Some m \<and> tr_toolCallId m = ts_toolCallId t \<and> tr_toolName m = ts_toolName t))"

definition body_ok :: "(provisioned_entry \<Rightarrow> provisioned_entry \<Rightarrow> bool) \<Rightarrow> (string \<times> entry) list \<Rightarrow> lane_record list
    \<Rightarrow> lane_record \<Rightarrow> bool" where
  "body_ok deep_eq E rs r =
     (case r_body r of
        OperationStarted leaf i \<Rightarrow> intent_ok deep_eq E i
      | StepAttempt a \<Rightarrow> attempt_ok E rs r a
      | ToolStarted t \<Rightarrow> tool_start_ok E rs r t
      | ToolReconciliation runId callId k reason diagnostic \<Rightarrow> dispatched rs (r_seq r) runId callId k
      | ToolReconciled runId callId k \<Rightarrow> dispatched rs (r_seq r) runId callId k
      | AssistantCheckpoint c \<Rightarrow>
          (\<exists>a. last_opt (run_attempts (cp_runId c) (before rs r)) = Some a \<and> sa_step a = AssistantStep
             \<and> sa_resultEntryId a = cp_resultEntryId c \<and> sa_attempt a = cp_attempt c)
          \<and> am_isResponseCheckpoint (cp_message c)
      | QueueEnqueued q runId target \<Rightarrow>
          (q \<noteq> NextRunQueue \<longrightarrow> (\<forall>k. runId = Some k \<longrightarrow> \<not> (\<exists>x\<in>set (before rs r). aborts_op k x)))
          \<and> target_ok deep_eq E target
      | QueueCancelled runId k \<Rightarrow>
          map_option snd (last_opt (enqueues_of k (before rs r))) = Some runId \<and> map_of E k = None
      | WriteDeferred runId target \<Rightarrow> target_ok deep_eq E target
      | _ \<Rightarrow> True)"

definition record_ok :: "(provisioned_entry \<Rightarrow> provisioned_entry \<Rightarrow> bool) \<Rightarrow> (string \<times> entry) list \<Rightarrow> lane_record list
    \<Rightarrow> lane_record \<Rightarrow> bool" where
  "record_ok deep_eq E rs r =
     ((\<forall>k. run_id (r_body r) = Some k \<longrightarrow>
         (\<exists>x\<in>set (before rs r). starts_op k x) \<and> \<not> (\<exists>x\<in>set (before rs r). finishes_op k x))
      \<and> body_ok deep_eq E rs r)"

section \<open>The checks decide the condition\<close>

lemma is_Ok_bind_unit: "is_Ok (bind_res m (\<lambda>_. Inr x)) \<longleftrightarrow> is_Ok m"
  by (cases m) auto

lemma is_Ok_bind_const: "is_Ok (bind_res m (\<lambda>_. m')) \<longleftrightarrow> is_Ok m \<and> is_Ok m'"
  by (cases m) auto

lemma is_Ok_bind_Inr: "is_Ok (bind_res m (\<lambda>x. Inr (f x))) \<longleftrightarrow> is_Ok m"
  by (cases m) auto

lemma is_Ok_guard: "is_Ok (guard_res b e) \<longleftrightarrow> b"
  by (simp add: guard_res_def)

lemmas is_Ok_simps = is_Ok_bind_unit is_Ok_bind_const is_Ok_bind_Inr is_Ok_guard

lemma validateResultEntry_Ok: "is_Ok (validateResultEntry E k P) \<longleftrightarrow> result_ok E k P"
  by (auto simp: validateResultEntry_def result_ok_def is_Ok_simps split: option.splits)

lemma validateExact_Ok: "is_Ok (validateExactProvisionedEntry deep_eq E target) \<longleftrightarrow> target_ok deep_eq E target"
  by (auto simp: validateExactProvisionedEntry_def target_ok_def result_ok_def matchesProvisionedEntry_def is_Ok_simps
      split: option.splits)

lemma validate_all_Ok: "is_Ok (validate_all f xs) \<longleftrightarrow> (\<forall>x\<in>set xs. is_Ok (f x))"
proof (induction xs)
  case Nil
  then show ?case by (simp add: validate_all_def)
next
  case (Cons x xs)
  then show ?case
    by (cases "f x") (simp_all add: validate_all_def)
qed

lemma validateOperationResult_Ok: "is_Ok (validateOperationResult deep_eq E i) \<longleftrightarrow> intent_ok deep_eq E i"
  by (cases i)
     (auto simp: validateOperationResult_def intent_ok_def validate_all_Ok validateExact_Ok validateResultEntry_Ok
       result_ok_def is_compaction_def is_branch_summary_def split: option.splits)

lemma validateAttempt_Ok:
  "is_Ok (validateAttemptReason a) \<and> is_Ok (validateAttemptSequence (r_seq r) a
     (last_opt (run_attempts (sa_runId a) (before rs r))) E) \<and> is_Ok (validateAttemptResult E a)
   \<longleftrightarrow> attempt_ok E rs r a"
proof -
  let ?p = "last_opt (run_attempts (sa_runId a) (before rs r))"
  have "is_Ok (validateAttemptReason a) \<longleftrightarrow>
    (if sa_step a = CompactionStep then sa_compactionReason a \<in> Some ` set compaction_reasons
     else sa_compactionReason a = None)"
    by (auto simp: validateAttemptReason_def is_Ok_simps)
  moreover have "is_Ok (validateAttemptSequence (r_seq r) a ?p E) \<longleftrightarrow>
    (if continues_series (r_seq r) a ?p E
     then (\<exists>p. ?p = Some p \<and> sa_attempt a = Suc (sa_attempt p)
             \<and> (sa_step a \<noteq> AssistantStep \<longrightarrow> sa_resultEntryId a = sa_resultEntryId p
                  \<and> sa_compactionReason a = sa_compactionReason p))
     else sa_attempt a = 1)"
  proof (cases ?p)
    case None
    then show ?thesis
      by (simp add: validateAttemptSequence_def continues_series_def is_Ok_simps)
  next
    case (Some p)
    then show ?thesis
      by (simp add: validateAttemptSequence_def Let_def is_Ok_simps)
  qed
  moreover have "is_Ok (validateAttemptResult E a) \<longleftrightarrow> result_ok E (sa_resultEntryId a)
      (case sa_step a of AssistantStep \<Rightarrow> (\<lambda>e. assistant_of e \<noteq> None)
       | CompactionStep \<Rightarrow> is_compaction | BranchSummaryStep \<Rightarrow> is_branch_summary)"
    by (cases "sa_step a")
       (simp_all add: validateAttemptResult_def validateResultEntry_Ok result_ok_def is_compaction_def is_branch_summary_def)
  ultimately show ?thesis
    by (simp add: attempt_ok_def Let_def)
qed

lemma validateToolStart_Ok:
  "is_Ok (validateToolStart t E (lc_toolInvocations (history (before rs r)))) \<longleftrightarrow> tool_start_ok E rs r t"
proof (cases "Option.bind (map_of E (ts_assistantEntryId t)) assistant_of")
  case None
  then have "\<not> tool_start_ok E rs r t"
    by (auto simp: tool_start_ok_def)
  with None show ?thesis
    by (simp only: validateToolStart_def Let_def option.case is_Ok_simps is_Ok.simps simp_thms)
next
  case (Some m)
  then obtain e where e: "map_of E (ts_assistantEntryId t) = Some e" "assistant_of e = Some m"
    by (auto simp: Option.bind_eq_Some_conv)
  have call: "is_Ok (case nth_opt (tool_calls (am_content m)) (ts_toolIndex t) of
      None \<Rightarrow> Err tool_call_mismatch
    | Some c \<Rightarrow> guard_res (tc_id c = ts_toolCallId t \<and> tc_name c = ts_toolName t) tool_call_mismatch)
    \<longleftrightarrow> (\<exists>c. nth_opt (tool_calls (am_content m)) (ts_toolIndex t) = Some c
           \<and> tc_id c = ts_toolCallId t \<and> tc_name c = ts_toolName t)"
    by (simp add: is_Ok_simps split: option.splits)
  have result: "result_ok E (ts_resultEntryId t) (\<lambda>e. case tool_result_of e of
      None \<Rightarrow> False | Some r \<Rightarrow> tr_toolCallId r = ts_toolCallId t \<and> tr_toolName r = ts_toolName t)
    \<longleftrightarrow> result_ok E (ts_resultEntryId t)
          (\<lambda>e. \<exists>m. tool_result_of e = Some m \<and> tr_toolCallId m = ts_toolCallId t \<and> tr_toolName m = ts_toolName t)"
    by (auto simp: result_ok_def split: option.splits)
  show ?thesis
    by (simp only: validateToolStart_def Let_def Some option.case is_Ok_simps call result validateResultEntry_Ok
        tool_start_ok_def history_invocations)
       (use e in auto)
qed

lemma check_owner_Ok:
  assumes "\<And>x. x \<in> set (before rs r) \<Longrightarrow> r_seq x < r_seq r"
  shows "is_Ok (check_owner (history (before rs r)) r) \<longleftrightarrow>
    (\<forall>k. run_id (r_body r) = Some k \<longrightarrow>
       (\<exists>x\<in>set (before rs r). starts_op k x) \<and> \<not> (\<exists>x\<in>set (before rs r). finishes_op k x))"
proof (cases "run_id (r_body r)")
  case None
  then show ?thesis
    by (simp add: check_owner_def)
next
  case (Some k)
  show ?thesis
  proof (cases "lc_finishedAt (history (before rs r)) k")
    case None
    then show ?thesis
      using Some history_finished_None [of "before rs r" k]
      by (simp add: check_owner_def is_Ok_simps history_starts)
  next
    case (Some n)
    have "n < r_seq r"
      using history_finished_Some [OF Some] assms by blast
    moreover have "\<exists>x\<in>set (before rs r). finishes_op k x"
      using history_finished_None [of "before rs r" k] Some by simp
    ultimately show ?thesis
      using Some \<open>run_id (r_body r) = Some k\<close> by (simp add: check_owner_def is_Ok_simps)
  qed
qed

lemma queue_check_Ok:
  assumes "\<And>x. x \<in> set (before rs r) \<Longrightarrow> r_seq x < r_seq r"
  shows "(\<exists>n. Option.bind runId (lc_abortedAt (history (before rs r))) = Some n \<and> r_seq r > n)
    \<longleftrightarrow> (\<exists>k. runId = Some k \<and> (\<exists>x\<in>set (before rs r). aborts_op k x))"
proof (cases runId)
  case None
  then show ?thesis by simp
next
  case (Some k)
  then show ?thesis
    using history_aborted_None [of "before rs r" k] history_aborted_Some [of "before rs r" k] assms
    by (cases "lc_abortedAt (history (before rs r)) k") auto
qed

lemma cancel_check_Ok:
  assumes "\<And>x. x \<in> set (before rs r) \<Longrightarrow> r_seq x < r_seq r"
  shows "is_Ok (case lc_queueEnqueues (history (before rs r)) k of
      None \<Rightarrow> Err invalid_queue_cancellation
    | Some (n, enqueuedBy) \<Rightarrow> guard_res (n < r_seq r \<and> enqueuedBy = runId \<and> map_of E k = None) invalid_queue_cancellation)
    \<longleftrightarrow> map_option snd (last_opt (enqueues_of k (before rs r))) = Some runId \<and> map_of E k = None"
proof (cases "last_opt (enqueues_of k (before rs r))")
  case None
  then show ?thesis
    by (simp add: history_enqueues)
next
  case (Some p)
  then have "fst p < r_seq r"
    using last_opt_in_set enqueues_of_seq [of "fst p" "snd p"] assms by fastforce
  then show ?thesis
    using Some by (cases p) (simp add: history_enqueues is_Ok_simps)
qed

lemma check_record_Ok:
  assumes "\<And>x. x \<in> set (before rs r) \<Longrightarrow> r_seq x < r_seq r"
  shows "is_Ok (check_record deep_eq E rs (history (before rs r)) r) \<longleftrightarrow> record_ok deep_eq E rs r"
proof (cases "r_body r")
  case (OperationStarted leaf i)
  then show ?thesis
    by (simp add: check_record_def record_ok_def body_ok_def is_Ok_simps validateOperationResult_Ok)
next
  case (StepAttempt a)
  then show ?thesis
    using check_owner_Ok [OF assms]
    by (simp add: check_record_def check_body_def record_ok_def body_ok_def is_Ok_simps history_latest
        validateAttempt_Ok [symmetric])
next
  case (ToolStarted t)
  then show ?thesis
    using check_owner_Ok [OF assms]
    by (simp add: check_record_def check_body_def record_ok_def body_ok_def is_Ok_simps validateToolStart_Ok)
next
  case (AssistantCheckpoint c)
  then show ?thesis
    using check_owner_Ok [OF assms]
    by (cases "last_opt (run_attempts (cp_runId c) (before rs r))")
       (auto simp add: check_record_def check_body_def record_ok_def body_ok_def is_Ok_simps history_latest)
next
  case (QueueEnqueued q runId target)
  have "is_Ok (check_body deep_eq E rs (history (before rs r)) r) \<longleftrightarrow> body_ok deep_eq E rs r"
    by (simp only: check_body_def body_ok_def QueueEnqueued record_body.case is_Ok_simps queue_check_Ok [OF assms]
        validateExact_Ok) blast
  then show ?thesis
    using QueueEnqueued check_owner_Ok [OF assms]
    by (simp add: check_record_def record_ok_def is_Ok_simps)
next
  case (QueueCancelled runId k)
  then show ?thesis
    using check_owner_Ok [OF assms] cancel_check_Ok [OF assms, where k = k and runId = runId and E = E]
    by (simp add: check_record_def check_body_def record_ok_def body_ok_def is_Ok_simps)
qed (use check_owner_Ok [OF assms] in
    \<open>simp_all add: check_record_def check_body_def record_ok_def body_ok_def is_Ok_simps validateExact_Ok\<close>)

section \<open>The whole log\<close>

lemma by_id_snoc: "by_id (es @ [e]) = AList.update (e_id e) e (by_id es)"
  by (simp add: by_id_def)

lemma by_id_Nil [simp]: "by_id [] = []"
  by (simp add: by_id_def)

lemma by_id_distinct: "distinct (map fst (by_id es))"
  by (induction es rule: rev_induct) (simp_all add: by_id_snoc distinct_update)

lemma map_of_by_id: "map_of (by_id es) k = last_opt (filter (\<lambda>e. e_id e = k) es)"
  by (induction es rule: rev_induct) (auto simp: by_id_snoc update_conv')

lemma by_id_mem_iff: "(k, e) \<in> set (by_id es) \<longleftrightarrow> map_of (by_id es) k = Some e"
  using by_id_distinct [of es] by (metis map_of_eq_Some_iff)

lemma set_bySequence [simp]: "set (bySequence f xs) = set xs"
  by (simp add: bySequence_def)

lemma bySequence_idem [simp]: "bySequence f (bySequence f xs) = bySequence f xs"
  by (simp add: bySequence_def sort_key_id_if_sorted)

lemma distinct_bySequence:
  "distinct (map f xs) \<Longrightarrow> distinct (map f (bySequence f xs))"
  by (simp add: bySequence_def distinct_map)

lemma bySequence_strict:
  assumes "distinct (map f xs)"
  shows "sorted_wrt (\<lambda>x y. f x < f y) (bySequence f xs)"
proof -
  have "sorted_wrt (<) (map f (bySequence f xs))"
    using distinct_bySequence [OF assms] by (simp add: bySequence_def strict_sorted_iff)
  then show ?thesis
    by (simp add: sorted_wrt_map)
qed

lemma before_bySequence: "before (bySequence r_seq rs) r = before rs r"
  by (simp add: before_def)

lemma before_prefix:
  assumes "distinct (map r_seq rs)" and "bySequence r_seq rs = ys @ r # zs"
  shows "before rs r = ys"
proof -
  have "sorted_wrt (\<lambda>x y. r_seq x < r_seq y) (ys @ r # zs)"
    using bySequence_strict [OF assms(1)] assms(2) by simp
  then have "\<forall>y\<in>set ys. r_seq y < r_seq r" and "\<forall>z\<in>set zs. r_seq r < r_seq z"
    by (auto simp: sorted_wrt_append)
  then show ?thesis
    using assms(2) by (auto simp: before_def filter_id_conv filter_empty_conv)
qed

lemma before_less: "x \<in> set (before rs r) \<Longrightarrow> r_seq x < r_seq r"
  by (simp add: before_def)

lemma check_record_iff:
  "is_Ok (check_record deep_eq E rs (history (before rs r)) r) \<longleftrightarrow> record_ok deep_eq E rs r"
  by (rule check_record_Ok) (rule before_less)

lemma set_before: "set (before rs r) = {x \<in> set rs. r_seq x < r_seq r}"
  by (auto simp: before_def)

lemma record_ok_bySequence: "record_ok deep_eq E (bySequence r_seq rs) r = record_ok deep_eq E rs r"
proof -
  have "dispatched (bySequence r_seq rs) n k c e = dispatched rs n k c e" for n k c e
    by (simp add: dispatched_def list_ex_iff)
  then show ?thesis
    by (simp add: record_ok_def body_ok_def attempt_ok_def tool_start_ok_def before_bySequence cong: record_body.case_cong)
qed

lemma fold_records_Ok:
  assumes "distinct (map r_seq rs)"
  shows "is_Ok (fold_res (check_record deep_eq E (bySequence r_seq rs)) new_log_check (bySequence r_seq rs))
    \<longleftrightarrow> (\<forall>r\<in>set rs. record_ok deep_eq E rs r)"
proof -
  let ?S = "bySequence r_seq rs"
  let ?f = "check_record deep_eq E ?S"
  have one: "is_Ok (?f (foldl advance new_log_check ys) r) \<longleftrightarrow> record_ok deep_eq E rs r"
    if "?S = ys @ r # zs" for ys r zs
    using check_record_iff [of deep_eq E ?S r] before_prefix [OF assms that]
    by (simp add: before_bySequence record_ok_bySequence history_def)
  have "is_Ok (fold_res ?f new_log_check ?S) \<longleftrightarrow>
    (\<forall>ys r zs. ?S = ys @ r # zs \<longrightarrow> is_Ok (?f (foldl advance new_log_check ys) r))"
    by (simp add: is_Ok_iff fold_res_steps [of ?f advance, OF check_record_advance])
  also have "\<dots> \<longleftrightarrow> (\<forall>ys r zs. ?S = ys @ r # zs \<longrightarrow> record_ok deep_eq E rs r)"
    using one by blast
  also have "\<dots> \<longleftrightarrow> (\<forall>r\<in>set ?S. record_ok deep_eq E rs r)"
    by (metis in_set_conv_decomp)
  finally show ?thesis
    by simp
qed

definition handles_ok :: "entry list \<Rightarrow> bool" where
  "handles_ok es = (\<forall>k e m. map_of (by_id es) k = Some e \<longrightarrow> assistant_of e = Some m
     \<longrightarrow> am_stopReason m = SR_deferred \<longrightarrow> am_deferred m \<noteq> None)"

lemma validateDeferredHandles_Ok:
  "is_Ok (validateDeferredHandles (map snd (by_id es))) \<longleftrightarrow> handles_ok es"
proof -
  have "handles_ok es \<longleftrightarrow> (\<forall>p\<in>set (by_id es). \<forall>m. assistant_of (snd p) = Some m
     \<longrightarrow> am_stopReason m = SR_deferred \<longrightarrow> am_deferred m \<noteq> None)"
    unfolding handles_ok_def by (metis by_id_mem_iff prod.collapse snd_conv)
  then show ?thesis
    by (auto simp: validateDeferredHandles_def is_Ok_simps list_all_iff split: option.splits)
qed

lemma validate_iff:
  assumes "distinct (map r_seq (sl_records input))"
  shows "validateRecordLog deep_eq input = Ok () \<longleftrightarrow>
    length (sl_openOperations input) \<le> 1 \<and> handles_ok (sl_entries input)
    \<and> (\<forall>r\<in>set (sl_records input). record_ok deep_eq (by_id (sl_entries input)) (sl_records input) r)"
proof -
  have "validateRecordLog deep_eq input = Ok () \<longleftrightarrow> is_Ok (validateRecordLog deep_eq input)"
    by (simp add: is_Ok_iff)
  then show ?thesis
    by (simp only: validateRecordLog_def Let_def is_Ok_simps validateDeferredHandles_Ok fold_records_Ok [OF assms])
qed

section \<open>Attempts\<close>

lemma attempts_set: "(n, a) \<in> set (attempts rs) \<longleftrightarrow> (\<exists>r\<in>set rs. r_seq r = n \<and> r_body r = StepAttempt a)"
  by (induction rs) (auto split: record_body.splits)

lemma run_attempts_mem:
  "a \<in> set (run_attempts k rs) \<Longrightarrow> sa_runId a = k \<and> (\<exists>r\<in>set rs. r_body r = StepAttempt a)"
  by (auto simp: run_attempts_def attempts_set)

lemma attempt_series:
  assumes ok: "\<forall>r\<in>set rs. record_ok deep_eq E rs r"
    and r: "r \<in> set rs" "r_body r = StepAttempt a"
    and i: "1 \<le> i" "i \<le> sa_attempt a"
  shows "\<exists>x\<in>set rs. \<exists>b. r_body x = StepAttempt b \<and> r_seq x \<le> r_seq r \<and> sa_runId b = sa_runId a
           \<and> sa_step b = sa_step a \<and> sa_attempt b = i
           \<and> (sa_step a \<noteq> AssistantStep \<longrightarrow> sa_resultEntryId b = sa_resultEntryId a)"
  using r i
proof (induction "sa_attempt a" arbitrary: r a)
  case 0
  then show ?case by simp
next
  case (Suc n)
  let ?p = "last_opt (run_attempts (sa_runId a) (before rs r))"
  have ok_a: "attempt_ok E rs r a"
    using ok Suc.prems(1,2) by (fastforce simp: record_ok_def body_ok_def)
  show ?case
  proof (cases "i = sa_attempt a")
    case True
    then show ?thesis
      using Suc.prems by blast
  next
    case False
    then have "sa_attempt a \<noteq> 1"
      using Suc.prems(3,4) by linarith
    then have cont: "continues_series (r_seq r) a ?p E"
      using ok_a by (auto simp: attempt_ok_def Let_def split: if_splits)
    then obtain q where q: "?p = Some q" "sa_attempt a = Suc (sa_attempt q)"
      "sa_step a \<noteq> AssistantStep \<longrightarrow> sa_resultEntryId a = sa_resultEntryId q"
      using ok_a by (auto simp: attempt_ok_def Let_def)
    have kind: "sa_step q = sa_step a"
      using cont q(1) by (simp add: continues_series_def)
    obtain y where y: "y \<in> set (before rs r)" "r_body y = StepAttempt q" and run: "sa_runId q = sa_runId a"
      using run_attempts_mem [OF last_opt_in_set [OF q(1)]] by blast
    have "y \<in> set rs" "r_seq y < r_seq r"
      using y(1) by (simp_all add: set_before)
    moreover have "n = sa_attempt q" "i \<le> sa_attempt q"
      using Suc.hyps(2) q(2) False Suc.prems(4) by simp_all
    ultimately obtain x b where "x \<in> set rs" "r_body x = StepAttempt b" "r_seq x \<le> r_seq y"
      "sa_runId b = sa_runId q" "sa_step b = sa_step q" "sa_attempt b = i"
      "sa_step q \<noteq> AssistantStep \<longrightarrow> sa_resultEntryId b = sa_resultEntryId q"
      using Suc.hyps(1) [of q y] y(2) Suc.prems(3) by blast
    then show ?thesis
      using \<open>r_seq y < r_seq r\<close> run kind q(3) by (metis less_imp_le order_trans)
  qed
qed

section \<open>Properties\<close>

text \<open>C7: The validation of a lane's record log, one pass over the records in sequence order with
  its maps of started, finished and aborted operations, enqueued items, latest attempts and tool
  invocations, accepts a log of distinct sequence numbers exactly when there is at most one open
  operation, every deferred assistant message carries its handle, and every record satisfies the
  condition \<open>record_ok\<close> on the records with smaller sequence numbers: the operation it belongs to
  has been started and not finished, an attempt starts a series or continues the latest attempt of
  its run with the next number, a tool start names an existing tool call for the first time, a
  reconciliation follows the dispatch it names, a checkpoint belongs to the latest attempt, nothing
  is queued for an aborted run, a cancellation refers to a pending item of its own run, and every
  entry already stored under a provisioned id has the announced content.\<close>

theorem record_log_valid_iff:
  assumes "distinct (map r_seq (sl_records input))"
  shows "validateRecordLog deep_eq input = Ok () \<longleftrightarrow>
    length (sl_openOperations input) \<le> 1 \<and> handles_ok (sl_entries input)
    \<and> (\<forall>r\<in>set (sl_records input). record_ok deep_eq (by_id (sl_entries input)) (sl_records input) r)"
  by (rule validate_iff [OF assms])

definition sample_record :: "nat \<Rightarrow> string \<Rightarrow> record_body \<Rightarrow> lane_record" where
  "sample_record n k b = \<lparr>r_id = k, r_seq = n, r_lane = ''main'', r_timestamp = 0, r_body = b, r_extra = []\<rparr>"

definition sample_attempt :: "nat \<Rightarrow> step_attempt" where
  "sample_attempt n = \<lparr>sa_runId = ''run'', sa_step = CompactionStep, sa_attempt = n, sa_resultEntryId = ''sum'',
     sa_compactionReason = Some (JString ''overflow'')\<rparr>"

definition sample_slice :: record_log_slice where
  "sample_slice = \<lparr>sl_lane = ''main'', sl_openOperations = [],
     sl_records = [sample_record 3 ''c'' (StepAttempt (sample_attempt 2)),
                   sample_record 1 ''run'' (OperationStarted None (CompactionIntent None ''sum'')),
                   sample_record 2 ''b'' (StepAttempt (sample_attempt 1))],
     sl_entries = []\<rparr>"

lemmas sample_simps = sample_slice_def sample_record_def sample_attempt_def

lemma sample_slice_valid: "validateRecordLog (=) sample_slice = Ok ()"
  by (simp add: validateRecordLog_def sample_simps bySequence_def check_record_def check_body_def check_owner_def
      validateOperationResult_def validateResultEntry_def validateAttemptReason_def validateAttemptSequence_def
      validateAttemptResult_def continues_series_def validateDeferredHandles_def new_log_check_def
      compaction_reasons_def)

theorem record_log_valid_iff_witness:
  "record_ok (=) [] (sl_records sample_slice) (sample_record 3 ''c'' (StepAttempt (sample_attempt 2)))"
  using record_log_valid_iff [of sample_slice "(=)"] sample_slice_valid
  by (simp add: sample_slice_def sample_record_def)

text \<open>In an accepted log an attempt number is a count. When the log of distinct sequence
  numbers is accepted and holds attempt number \<open>n\<close> of a step, then for every \<open>i\<close> from 1 to
  \<open>n\<close> it holds an attempt number \<open>i\<close> of the same run and the same kind of step, not later than it,
  and, unless the step is an assistant step, for the same result entry.\<close>

theorem attempt_numbers_complete:
  assumes "validateRecordLog deep_eq input = Ok ()" and "distinct (map r_seq (sl_records input))"
    and "r \<in> set (sl_records input)" and "r_body r = StepAttempt a" and "1 \<le> i" and "i \<le> sa_attempt a"
  shows "\<exists>x\<in>set (sl_records input). \<exists>b. r_body x = StepAttempt b \<and> r_seq x \<le> r_seq r \<and> sa_runId b = sa_runId a
           \<and> sa_step b = sa_step a \<and> sa_attempt b = i
           \<and> (sa_step a \<noteq> AssistantStep \<longrightarrow> sa_resultEntryId b = sa_resultEntryId a)"
proof (rule attempt_series)
  show "\<forall>r\<in>set (sl_records input). record_ok deep_eq (by_id (sl_entries input)) (sl_records input) r"
    using assms(1) validate_iff [OF assms(2), of deep_eq] by simp
qed (use assms in simp_all)

theorem attempt_numbers_complete_witness:
  "\<exists>x\<in>set (sl_records sample_slice). \<exists>b. r_body x = StepAttempt b \<and> sa_attempt b = 1 \<and> r_seq x \<le> 3"
  using attempt_numbers_complete [OF sample_slice_valid,
      of "sample_record 3 ''c'' (StepAttempt (sample_attempt 2))" "sample_attempt 2" 1]
  by (auto simp: sample_simps)

end
