(* ===== verification/ReducerLane.thy ===== *)
theory ReducerLane
  imports ReducerCorrect
begin

text \<open>
  Correctness of the lane reduction: the state that \<open>reduceLaneState\<close> rebuilds from a bounded
  recovery slice, related to the records and entries of the slice whatever their order.
\<close>

section \<open>Coherent entry lists\<close>

text \<open>
  Entries fetched several times are the same entry: an id and a sequence number each identify
  an entry.
\<close>

definition coherent :: "entry list \<Rightarrow> bool" where
  "coherent es = (\<forall>e\<in>set es. \<forall>e'\<in>set es. e_id e = e_id e' \<or> e_seq e = e_seq e' \<longrightarrow> e = e')"

lemma coherentD:
  "coherent es \<Longrightarrow> e \<in> set es \<Longrightarrow> e' \<in> set es \<Longrightarrow> e_id e = e_id e' \<Longrightarrow> e = e'"
  by (auto simp: coherent_def)

lemma coherent_inj: "coherent es \<Longrightarrow> inj_on e_seq (set es)"
  unfolding coherent_def inj_on_def by blast

lemma map_of_by_id_mem: "map_of (by_id es) k = Some e \<Longrightarrow> e \<in> set es \<and> e_id e = k"
  by (auto simp: map_of_by_id dest: last_opt_in_set)

lemma map_of_by_id_coherent:
  assumes "coherent es"
  shows "map_of (by_id es) k = Some e \<longleftrightarrow> e \<in> set es \<and> e_id e = k"
proof
  assume e: "e \<in> set es \<and> e_id e = k"
  then have "filter (\<lambda>x. e_id x = k) es \<noteq> []"
    by (auto simp: filter_empty_conv)
  then obtain x where x: "map_of (by_id es) k = Some x"
    by (simp add: map_of_by_id last_opt_def)
  then show "map_of (by_id es) k = Some e"
    using map_of_by_id_mem [OF x] e coherentD [OF assms] by blast
qed (rule map_of_by_id_mem)

lemma map_of_by_id_None: "map_of (by_id es) k = None \<longleftrightarrow> k \<notin> e_id ` set es"
  by (auto simp: map_of_by_id last_opt_def filter_empty_conv split: if_splits)

lemma map_of_by_id_cong:
  assumes "coherent es" and "set es = set es'"
  shows "map_of (by_id es) = map_of (by_id es')"
proof
  fix k
  have "coherent es'"
    using assms by (simp add: coherent_def)
  then show "map_of (by_id es) k = map_of (by_id es') k"
    using map_of_by_id_coherent [of _ k] assms by (metis not_Some_eq)
qed

lemma set_by_id_coherent:
  assumes "coherent es"
  shows "set (map snd (by_id es)) = set es"
proof -
  have "e \<in> snd ` set (by_id es) \<longleftrightarrow> e \<in> set es" for e
  proof -
    have "e \<in> snd ` set (by_id es) \<longleftrightarrow> (\<exists>k. map_of (by_id es) k = Some e)"
      by (force simp: by_id_mem_iff [symmetric])
    then show ?thesis
      using map_of_by_id_coherent [OF assms] by auto
  qed
  then show ?thesis
    by auto
qed

lemma distinct_by_id: "distinct (map snd (by_id es))"
proof -
  have "inj_on snd (set (by_id es))"
  proof (rule inj_onI)
    fix p q
    assume p: "p \<in> set (by_id es)" and q: "q \<in> set (by_id es)" and eq: "snd p = snd q"
    have "fst p = e_id (snd p)" "fst q = e_id (snd q)"
      using p q by (metis by_id_mem_iff map_of_by_id_mem prod.collapse)+
    with eq show "p = q"
      by (simp add: prod_eq_iff)
  qed
  then show ?thesis
    using by_id_distinct [of es] by (simp add: distinct_map)
qed

section \<open>Sorting forgets the order of the input\<close>

lemma bySequence_cong:
  assumes "mset xs = mset ys" and "inj_on f (set xs)"
  shows "bySequence f xs = bySequence f ys"
proof -
  have "mset (bySequence f xs) = mset (bySequence f ys)"
    using assms(1) by (simp add: bySequence_def)
  moreover have "sorted (map f (bySequence f xs))" "sorted (map f (bySequence f ys))"
    by (simp_all add: bySequence_def)
  moreover have "inj_on f (set (bySequence f xs))"
    using assms(2) by simp
  ultimately show ?thesis
    unfolding bySequence_def using sort_key_inj_key_eq assms
    by (metis mset_eq_setD mset_sort)
qed

section \<open>Configuration\<close>

text \<open>What an entry sets of the configuration.\<close>

definition sets_model :: "entry \<Rightarrow> (string \<times> string) option" where
  "sets_model e =
     (case e_body e of
        ModelChangeEntry provider modelId \<Rightarrow> Some (provider, modelId)
      | MessageEntry (AssistantMessage m) t \<Rightarrow> Some (am_provider m, am_model m)
      | _ \<Rightarrow> None)"

definition sets_thinking :: "entry \<Rightarrow> string option" where
  "sets_thinking e = (case e_body e of ThinkingLevelEntry level \<Rightarrow> Some level | _ \<Rightarrow> None)"

definition sets_tools :: "entry \<Rightarrow> string list option" where
  "sets_tools e = (case e_body e of ActiveToolsEntry names \<Rightarrow> Some names | _ \<Rightarrow> None)"

text \<open>
  \<open>newest_value g d es v\<close>: \<open>v\<close> is what the entry with the greatest sequence number among those
  that set something sets, and \<open>d\<close> when none does.
\<close>

definition newest_value :: "(entry \<Rightarrow> 'v option) \<Rightarrow> 'v \<Rightarrow> entry list \<Rightarrow> 'v \<Rightarrow> bool" where
  "newest_value g d es v =
     (if \<forall>e\<in>set es. g e = None then v = d
      else \<exists>e\<in>set es. g e = Some v \<and> (\<forall>e'\<in>set es. g e' \<noteq> None \<longrightarrow> e_seq e' \<le> e_seq e))"

lemma foldl_newest:
  assumes step: "\<And>c e. f (step c e) = (case g e of None \<Rightarrow> f c | Some v \<Rightarrow> v)"
    and "sorted (map e_seq xs)"
  shows "newest_value g (f c) xs (f (foldl step c xs))"
  using assms(2)
proof (induction xs rule: rev_induct)
  case Nil
  then show ?case
    by (simp add: newest_value_def)
next
  case (snoc x xs)
  then have IH: "newest_value g (f c) xs (f (foldl step c xs))"
    and le: "\<forall>e\<in>set xs. e_seq e \<le> e_seq x"
    by (auto simp: sorted_append)
  show ?case
  proof (cases "g x")
    case None
    then show ?thesis
      using IH step [of "foldl step c xs" x] by (auto simp: newest_value_def split: if_splits)
  next
    case (Some v)
    then show ?thesis
      using le step [of "foldl step c xs" x] by (auto simp: newest_value_def)
  qed
qed

lemma configuration_newest:
  fixes input :: "'a lane_reduction_input_scheme"
  assumes step: "\<And>c e. f (apply_configuration c e) = (case g e of None \<Rightarrow> f c | Some v \<Rightarrow> v)"
    and "coherent (ri_configurationEntries input @ ri_ownEntries input)"
  shows "newest_value g (f (ri_defaults input)) (ri_configurationEntries input @ ri_ownEntries input)
    (f (deriveEffectiveConfiguration input))"
proof -
  let ?es = "ri_configurationEntries input @ ri_ownEntries input"
  let ?xs = "bySequence e_seq (map snd (by_id ?es))"
  have "newest_value g (f (ri_defaults input)) ?xs (f (foldl apply_configuration (ri_defaults input) ?xs))"
    using foldl_newest [of f apply_configuration g ?xs "ri_defaults input"] step by (simp add: bySequence_def)
  moreover have "set ?xs = set ?es"
    using set_by_id_coherent [OF assms(2)] by simp
  ultimately show ?thesis
    by (simp only: newest_value_def deriveEffectiveConfiguration_def)
qed

text \<open>The effective configuration of a lane is the newest one: the model is the one of the
  model change or assistant message with the greatest sequence number among the configuration
  entries and the operation's own entries, the thinking level and the active tools are those of the
  newest change of each, and a part that no entry sets is the harness default, whatever the order and
  the repetitions in which the entries were fetched.\<close>

theorem configuration_newest_wins:
  fixes input :: "'a lane_reduction_input_scheme"
  assumes "coherent (ri_configurationEntries input @ ri_ownEntries input)"
  shows "newest_value sets_model (ec_provider (ri_defaults input), ec_modelId (ri_defaults input))
           (ri_configurationEntries input @ ri_ownEntries input)
           (ec_provider (deriveEffectiveConfiguration input), ec_modelId (deriveEffectiveConfiguration input))
    \<and> newest_value sets_thinking (ec_thinkingLevel (ri_defaults input))
           (ri_configurationEntries input @ ri_ownEntries input) (ec_thinkingLevel (deriveEffectiveConfiguration input))
    \<and> newest_value sets_tools (ec_activeToolNames (ri_defaults input))
           (ri_configurationEntries input @ ri_ownEntries input) (ec_activeToolNames (deriveEffectiveConfiguration input))"
  by (intro conjI configuration_newest [OF _ assms]
        configuration_newest [OF _ assms, where f = "\<lambda>c. (ec_provider c, ec_modelId c)"])
     (auto simp: apply_configuration_def sets_model_def sets_thinking_def sets_tools_def
       split: entry_body.splits agent_message.splits)

definition sample_entry :: "nat \<Rightarrow> string \<Rightarrow> entry_body \<Rightarrow> entry" where
  "sample_entry n k b = \<lparr>e_id = k, e_seq = n, e_parentId = None, e_timestamp = 0, e_body = b, e_extra = []\<rparr>"

definition sample_defaults :: effective_configuration where
  "sample_defaults = \<lparr>ec_provider = ''p'', ec_modelId = ''m'', ec_thinkingLevel = ''off'', ec_activeToolNames = []\<rparr>"

definition sample_input :: "entry list \<Rightarrow> lane_reduction_input" where
  "sample_input es = \<lparr>sl_lane = ''main'', sl_openOperations = [], sl_records = [], sl_entries = [], ri_leafId = None,
     ri_ownEntries = [], ri_configurationEntries = es, ri_defaults = sample_defaults\<rparr>"

theorem configuration_newest_wins_witness:
  "newest_value sets_thinking ''off''
     [sample_entry 7 ''b'' (ThinkingLevelEntry ''high''), sample_entry 3 ''a'' (ThinkingLevelEntry ''low'')]
     (ec_thinkingLevel (deriveEffectiveConfiguration
       (sample_input [sample_entry 7 ''b'' (ThinkingLevelEntry ''high''), sample_entry 3 ''a'' (ThinkingLevelEntry ''low'')])))"
  using configuration_newest_wins [of "sample_input
      [sample_entry 7 ''b'' (ThinkingLevelEntry ''high''), sample_entry 3 ''a'' (ThinkingLevelEntry ''low'')]"]
  by (simp add: sample_input_def coherent_def sample_entry_def sample_defaults_def)

section \<open>Independence of the order of the slice\<close>

lemma validate_cong:
  assumes "map_of E = map_of E'"
  shows "check_record deep_eq E rs = check_record deep_eq E' rs"
proof (intro ext)
  fix st r
  have exact: "validateExactProvisionedEntry deep_eq E = validateExactProvisionedEntry deep_eq E'"
    by (intro ext) (simp add: validateExactProvisionedEntry_def assms)
  have result: "validateResultEntry E = validateResultEntry E'"
    by (intro ext) (simp add: validateResultEntry_def assms)
  have operation: "validateOperationResult deep_eq E = validateOperationResult deep_eq E'"
    by (intro ext) (unfold validateOperationResult_def exact result, rule refl)
  have attempt: "validateAttemptSequence n a p E = validateAttemptSequence n a p E'" for n a p
    unfolding validateAttemptSequence_def continues_series_def assms by (rule refl)
  have attempt_result: "validateAttemptResult E = validateAttemptResult E'"
    by (intro ext) (unfold validateAttemptResult_def result, rule refl)
  have tool: "validateToolStart t E seen = validateToolStart t E' seen" for t seen
    unfolding validateToolStart_def result assms by (rule refl)
  show "check_record deep_eq E rs st r = check_record deep_eq E' rs st r"
    unfolding check_record_def check_body_def exact operation attempt attempt_result tool assms by (rule refl)
qed

lemma validateDeferredHandles_cong: "set es = set es' \<Longrightarrow> validateDeferredHandles es = validateDeferredHandles es'"
  by (simp add: validateDeferredHandles_def list_all_iff)

text \<open>Two inputs that differ in the order of what was fetched only.\<close>

definition same_input :: "lane_reduction_input \<Rightarrow> lane_reduction_input \<Rightarrow> bool" where
  "same_input i j =
     (sl_lane i = sl_lane j \<and> sl_openOperations i = sl_openOperations j
      \<and> mset (sl_records i) = mset (sl_records j) \<and> set (sl_entries i) = set (sl_entries j)
      \<and> ri_leafId i = ri_leafId j \<and> ri_defaults i = ri_defaults j
      \<and> mset (ri_ownEntries i) = mset (ri_ownEntries j)
      \<and> set (ri_configurationEntries i) = set (ri_configurationEntries j))"

lemma validateRecordLog_same:
  assumes "same_input i j" and "distinct (map r_seq (sl_records i))" and "coherent (sl_entries i)"
  shows "validateRecordLog deep_eq i = validateRecordLog deep_eq j"
proof -
  have "map_of (by_id (sl_entries i)) = map_of (by_id (sl_entries j))"
    using assms by (intro map_of_by_id_cong) (simp_all add: same_input_def)
  note check = validate_cong [OF this]
  have "coherent (sl_entries j)"
    using assms by (simp add: coherent_def same_input_def)
  then have "validateDeferredHandles (map snd (by_id (sl_entries i))) = validateDeferredHandles (map snd (by_id (sl_entries j)))"
    using assms set_by_id_coherent by (intro validateDeferredHandles_cong) (simp add: same_input_def)
  moreover have "bySequence r_seq (sl_records i) = bySequence r_seq (sl_records j)"
    using assms by (intro bySequence_cong) (simp_all add: same_input_def distinct_map)
  ultimately show ?thesis
    using assms(1) unfolding validateRecordLog_def Let_def same_input_def check by simp
qed

lemma configuration_same:
  assumes "same_input i j" and "coherent (ri_configurationEntries i @ ri_ownEntries i)"
  shows "deriveEffectiveConfiguration i = deriveEffectiveConfiguration j"
proof -
  let ?es = "ri_configurationEntries i @ ri_ownEntries i"
  let ?fs = "ri_configurationEntries j @ ri_ownEntries j"
  have "set (ri_ownEntries i) = set (ri_ownEntries j)"
    by (rule mset_eq_setD) (use assms(1) in \<open>simp add: same_input_def\<close>)
  then have set_eq: "set ?es = set ?fs"
    using assms(1) by (simp add: same_input_def)
  then have coh: "coherent ?fs"
    using assms(2) by (simp only: coherent_def)
  then have "set (map snd (by_id ?es)) = set (map snd (by_id ?fs))"
    by (simp only: set_eq set_by_id_coherent [OF assms(2)] set_by_id_coherent [OF coh])
  then have "mset (map snd (by_id ?es)) = mset (map snd (by_id ?fs))"
    by (simp only: set_eq_iff_mset_eq_distinct [OF distinct_by_id distinct_by_id])
  then have "bySequence e_seq (map snd (by_id ?es)) = bySequence e_seq (map snd (by_id ?fs))"
    using coherent_inj [OF assms(2)] set_by_id_coherent [OF assms(2)] by (intro bySequence_cong) simp_all
  then show ?thesis
    using assms(1) by (simp add: deriveEffectiveConfiguration_def same_input_def)
qed

lemma operation_state_cong:
  assumes "map_of E = map_of E'"
  shows "operation_state_of started rs own E = operation_state_of started rs own E'"
proof -
  have "deriveToolBatch k rs own E w = deriveToolBatch k rs own E' w" for k w
    unfolding deriveToolBatch_def derive_call_def assms by (rule refl)
  moreover have "current_step E rs = current_step E' rs"
    unfolding current_step_def assms by (rule refl)
  moreover have "checkpoint_failure E own rs = checkpoint_failure E' own rs"
    unfolding checkpoint_failure_def assms by (rule refl)
  moreover have "unmaterialised E = unmaterialised E'" and "operation_targets_of E = operation_targets_of E'"
    and "newest_consumed E = newest_consumed E'"
    by (unfold unmaterialised_def operation_targets_of_def newest_consumed_def assms) (rule refl)+
  ultimately show ?thesis
    by (intro ext) (simp only: operation_state_of_def)
qed

lemma pendingQueueRecords_cong: "map_of E = map_of E' \<Longrightarrow> pendingQueueRecords E = pendingQueueRecords E'"
  by (intro ext) (simp add: pendingQueueRecords_def)

lemma reduce_same:
  assumes "same_input i j" and "distinct (map r_seq (sl_records i))"
    and "coherent (sl_entries i @ ri_configurationEntries i @ ri_ownEntries i)"
  shows "reduceLaneState deep_eq i = reduceLaneState deep_eq j"
proof -
  have coh: "coherent (sl_entries i)" "coherent (ri_configurationEntries i @ ri_ownEntries i)"
    "coherent (sl_entries i @ bySequence e_seq (ri_ownEntries i))" "inj_on e_seq (set (ri_ownEntries i))"
    using assms(3) coherent_inj by (auto simp: coherent_def inj_on_def)
  have records: "bySequence r_seq (sl_records i) = bySequence r_seq (sl_records j)"
    using assms by (intro bySequence_cong) (simp_all add: same_input_def distinct_map)
  have own: "bySequence e_seq (ri_ownEntries i) = bySequence e_seq (ri_ownEntries j)"
    using assms(1) coh(4) by (intro bySequence_cong) (simp_all add: same_input_def)
  have E: "map_of (by_id (sl_entries i @ bySequence e_seq (ri_ownEntries j)))
      = map_of (by_id (sl_entries j @ bySequence e_seq (ri_ownEntries j)))"
    using assms(1) coh(3) [unfolded own] by (intro map_of_by_id_cong) (simp_all add: same_input_def)
  have rest: "sl_lane i = sl_lane j" "sl_openOperations i = sl_openOperations j" "ri_leafId i = ri_leafId j"
    using assms(1) by (simp_all add: same_input_def)
  show ?thesis
    unfolding reduceLaneState_def Let_def validateRecordLog_same [OF assms(1,2) coh(1)]
      configuration_same [OF assms(1) coh(2)] records operation_state_cong [OF E] pendingQueueRecords_cong [OF E] own rest
    by (rule refl)
qed



end
