(* ===== verification/ReducerOperation.thy ===== *)
theory ReducerOperation
  imports ReducerLane
begin

text \<open>
  The open operation that the reduction rebuilds: its abort and pause flags, its pending queues
  as the contents of first-in first-out queues, its tool batch against the dispatch records, and
  its current step.
\<close>

section \<open>Unfolding a successful reduction\<close>

lemma reduce_cases:
  assumes "reduceLaneState deep_eq input = Ok res"
  defines "S \<equiv> bySequence r_seq (sl_records input)" and "own \<equiv> bySequence e_seq (ri_ownEntries input)"
  defines "E \<equiv> by_id (sl_entries input @ own)"
  obtains (idle) "validateRecordLog deep_eq input = Ok ()" "sl_openOperations input = []"
      "ls_operation (lr_laneState res) = None"
      "ls_pendingNextRun (lr_laneState res) = pending_next_run None (pendingQueueRecords E S)"
    | (opened) started others where "validateRecordLog deep_eq input = Ok ()"
      "sl_openOperations input = started # others"
      "ls_operation (lr_laneState res) =
         Some (operation_state_of started (operation_records (op_id started) S) own E (pendingQueueRecords E S))"
      "ls_pendingNextRun (lr_laneState res) = pending_next_run (Some started) (pendingQueueRecords E S)"
proof -
  have "validateRecordLog deep_eq input = Ok ()"
    using assms(1) by (auto simp: reduceLaneState_def res_simps)
  then show thesis
    using assms(1) idle opened
    by (cases "sl_openOperations input") (auto simp: reduceLaneState_def Let_def S_def own_def E_def)
qed

lemma reduce_operation:
  assumes "reduceLaneState deep_eq input = Ok res" and "ls_operation (lr_laneState res) = Some op"
  obtains started where "validateRecordLog deep_eq input = Ok ()" "started \<in> set (sl_openOperations input)"
    "op = operation_state_of started (operation_records (op_id started) (bySequence r_seq (sl_records input)))
       (bySequence e_seq (ri_ownEntries input)) (by_id (sl_entries input @ bySequence e_seq (ri_ownEntries input)))
       (pendingQueueRecords (by_id (sl_entries input @ bySequence e_seq (ri_ownEntries input)))
         (bySequence r_seq (sl_records input)))"
  using assms(1)
proof (cases rule: reduce_cases)
  case idle
  then show thesis
    using assms(2) by simp
next
  case (opened started others)
  then show thesis
    using assms(2) that [of started] by simp
qed

lemma operation_records_mem:
  "r \<in> set (operation_records k rs) \<longleftrightarrow> r \<in> set rs \<and> (starts_op k r \<or> run_id (r_body r) = Some k)"
  by (auto simp: operation_records_def starts_op_def split: record_body.splits)

section \<open>Flags\<close>

definition pauses_op :: "string \<Rightarrow> lane_record \<Rightarrow> bool" where
  "pauses_op k r = (r_body r = PauseRequested k)"

definition clears_pause :: "string \<Rightarrow> lane_record \<Rightarrow> bool" where
  "clears_pause k r = (r_body r = PauseCleared k)"

definition pause_seqs :: "lane_record list \<Rightarrow> int set" where
  "pause_seqs rs = insert (- 1) ((\<lambda>r. int (r_seq r)) ` {r \<in> set rs. \<exists>k. r_body r = PauseRequested k})"

definition clear_seqs :: "lane_record list \<Rightarrow> int set" where
  "clear_seqs rs = insert (- 1) ((\<lambda>r. int (r_seq r)) ` {r \<in> set rs. \<exists>k. r_body r = PauseCleared k})"

lemma seqs_snoc:
  "pause_seqs (rs @ [r]) = (case r_body r of PauseRequested k \<Rightarrow> insert (int (r_seq r)) (pause_seqs rs) | _ \<Rightarrow> pause_seqs rs)"
  "clear_seqs (rs @ [r]) = (case r_body r of PauseCleared k \<Rightarrow> insert (int (r_seq r)) (clear_seqs rs) | _ \<Rightarrow> clear_seqs rs)"
  by (auto simp: pause_seqs_def clear_seqs_def split: record_body.splits)

lemma seqs_finite:
  "finite (pause_seqs rs)" "pause_seqs rs \<noteq> {}" "finite (clear_seqs rs)" "clear_seqs rs \<noteq> {}"
  by (simp_all add: pause_seqs_def clear_seqs_def)

lemma pausing_max: "is_pausing rs \<longleftrightarrow> Max (clear_seqs rs) < Max (pause_seqs rs)"
proof -
  have "foldl (\<lambda>(p, c) r. case r_body r of
          PauseRequested runId \<Rightarrow> (max p (int (r_seq r)), c)
        | PauseCleared runId \<Rightarrow> (p, max c (int (r_seq r)))
        | _ \<Rightarrow> (p, c)) (- 1 :: int, - 1 :: int) rs = (Max (pause_seqs rs), Max (clear_seqs rs))"
  proof (induction rs rule: rev_induct)
    case Nil
    then show ?case
      by (simp add: pause_seqs_def clear_seqs_def)
  next
    case (snoc r rs)
    then show ?case
      by (simp add: seqs_snoc seqs_finite max.commute split: record_body.split)
  qed
  then show ?thesis
    by (simp add: is_pausing_def)
qed

lemma is_pausing_iff:
  "is_pausing rs \<longleftrightarrow> (\<exists>p\<in>set rs. (\<exists>k. r_body p = PauseRequested k)
     \<and> (\<forall>c\<in>set rs. (\<exists>k. r_body c = PauseCleared k) \<longrightarrow> r_seq c < r_seq p))"
proof -
  have "is_pausing rs \<longleftrightarrow> (\<exists>x\<in>pause_seqs rs. \<forall>y\<in>clear_seqs rs. y < x)"
    by (simp add: pausing_max Max_gr_iff Max_less_iff seqs_finite)
  also have "\<dots> \<longleftrightarrow> (\<exists>p\<in>set rs. (\<exists>k. r_body p = PauseRequested k)
     \<and> (\<forall>c\<in>set rs. (\<exists>k. r_body c = PauseCleared k) \<longrightarrow> r_seq c < r_seq p))"
    by (auto simp: pause_seqs_def clear_seqs_def)
  finally show ?thesis .
qed

lemma is_aborting_iff: "is_aborting rs \<longleftrightarrow> (\<exists>r\<in>set rs. \<exists>k. r_body r = AbortRequested k)"
proof -
  have "(case r_body r of AbortRequested runId \<Rightarrow> True | _ \<Rightarrow> False) \<longleftrightarrow> (\<exists>k. r_body r = AbortRequested k)"
    for r :: lane_record
    by (cases "r_body r") auto
  then show ?thesis
    by (simp only: is_aborting_def list_ex_iff)
qed

lemma operation_records_kind:
  "r \<in> set (operation_records k rs) \<and> (\<exists>j. r_body r = PauseRequested j) \<longleftrightarrow> r \<in> set rs \<and> pauses_op k r"
  "r \<in> set (operation_records k rs) \<and> (\<exists>j. r_body r = PauseCleared j) \<longleftrightarrow> r \<in> set rs \<and> clears_pause k r"
  "r \<in> set (operation_records k rs) \<and> (\<exists>j. r_body r = AbortRequested j) \<longleftrightarrow> r \<in> set rs \<and> aborts_op k r"
  by (auto simp: operation_records_mem starts_op_def pauses_op_def clears_pause_def aborts_op_def split: record_body.splits)

lemma aborting_run: "is_aborting (operation_records k rs) \<longleftrightarrow> (\<exists>r\<in>set rs. aborts_op k r)"
  using operation_records_kind(3) [of _ k rs] unfolding is_aborting_iff Bex_def by blast

lemma pausing_run:
  "is_pausing (operation_records k rs) \<longleftrightarrow>
     (\<exists>p\<in>set rs. pauses_op k p \<and> (\<forall>c\<in>set rs. clears_pause k c \<longrightarrow> r_seq c < r_seq p))"
proof -
  have "is_pausing (operation_records k rs) \<longleftrightarrow>
    (\<exists>p. (p \<in> set (operation_records k rs) \<and> (\<exists>j. r_body p = PauseRequested j))
       \<and> (\<forall>c. (c \<in> set (operation_records k rs) \<and> (\<exists>j. r_body c = PauseCleared j)) \<longrightarrow> r_seq c < r_seq p))"
    unfolding is_pausing_iff by blast
  then show ?thesis
    unfolding operation_records_kind by blast
qed

text \<open>The rebuilt flags of the open operation say what the log says: it is aborting exactly when
  an abort has been requested for it, and pausing exactly when a pause has been requested for it and
  every clearing of a pause came before the last request.\<close>

theorem operation_flags:
  assumes "reduceLaneState deep_eq input = Ok res" and "ls_operation (lr_laneState res) = Some op"
  shows "(os_aborting op \<longleftrightarrow> (\<exists>r\<in>set (sl_records input). aborts_op (os_id op) r))
    \<and> (os_pausing op \<longleftrightarrow> (\<exists>p\<in>set (sl_records input). pauses_op (os_id op) p
          \<and> (\<forall>c\<in>set (sl_records input). clears_pause (os_id op) c \<longrightarrow> r_seq c < r_seq p)))"
  using assms
proof (cases rule: reduce_operation)
  case (1 started)
  let ?R = "operation_records (op_id started) (bySequence r_seq (sl_records input))"
  have flags: "os_aborting op = is_aborting ?R" "os_pausing op = is_pausing ?R" "os_id op = op_id started"
    using 1(3) by (simp_all add: operation_state_of_def Let_def)
  show ?thesis
    by (simp add: flags aborting_run pausing_run)
qed


definition sample_run :: operation_started_record where
  "sample_run = \<lparr>op_id = ''run'', op_seq = 1, op_lane = ''main'', op_timestamp = 0, op_sourceLeafId = None,
     op_intent = RunIntent [] [] None None, op_extra = []\<rparr>"

definition sample_run_input :: "lane_record list \<Rightarrow> entry list \<Rightarrow> lane_reduction_input" where
  "sample_run_input rs es = \<lparr>sl_lane = ''main'', sl_openOperations = [sample_run],
     sl_records = sample_record 1 ''run'' (OperationStarted None (RunIntent [] [] None None)) # rs,
     sl_entries = es, ri_leafId = None, ri_ownEntries = es, ri_configurationEntries = [], ri_defaults = sample_defaults\<rparr>"

lemmas sample_eval = validateRecordLog_def bySequence_def check_record_def check_body_def check_owner_def
  validateOperationResult_def validateResultEntry_def validateExactProvisionedEntry_def validate_all_def validateAttemptReason_def
  validateAttemptSequence_def validateAttemptResult_def continues_series_def validateDeferredHandles_def new_log_check_def
  validateToolStart_def assistant_of_def tool_result_of_def nth_opt_def by_id_def

text \<open>A run that was paused and resumed and is paused again.\<close>

definition sample_paused :: lane_reduction_input where
  "sample_paused = sample_run_input
     [sample_record 2 ''a'' (PauseRequested ''run''), sample_record 3 ''b'' (PauseCleared ''run''),
      sample_record 4 ''c'' (PauseRequested ''run'')] []"

lemma sample_paused_valid: "validateRecordLog (=) sample_paused = Ok ()"
  by (simp add: sample_paused_def sample_run_input_def sample_record_def sample_eval)

lemma reduce_opened:
  assumes "validateRecordLog deep_eq input = Ok ()" and "sl_openOperations input = started # others"
  shows "\<exists>res op. reduceLaneState deep_eq input = Ok res \<and> ls_operation (lr_laneState res) = Some op \<and> os_id op = op_id started
    \<and> op = operation_state_of started (operation_records (op_id started) (bySequence r_seq (sl_records input)))
       (bySequence e_seq (ri_ownEntries input)) (by_id (sl_entries input @ bySequence e_seq (ri_ownEntries input)))
       (pendingQueueRecords (by_id (sl_entries input @ bySequence e_seq (ri_ownEntries input)))
         (bySequence r_seq (sl_records input)))"
  using assms by (simp add: reduceLaneState_def Let_def operation_state_of_def)

theorem operation_flags_witness:
  "\<exists>res op. reduceLaneState (=) sample_paused = Ok res \<and> ls_operation (lr_laneState res) = Some op
     \<and> os_pausing op \<and> \<not> os_aborting op"
proof -
  obtain res op where op: "reduceLaneState (=) sample_paused = Ok res" "ls_operation (lr_laneState res) = Some op"
    "os_id op = ''run''"
    using reduce_opened [OF sample_paused_valid, of sample_run "[]"]
    by (auto simp: sample_paused_def sample_run_input_def sample_run_def)
  then show ?thesis
    using operation_flags [OF op(1,2)]
    by (auto simp: sample_paused_def sample_run_input_def sample_record_def aborts_op_def pauses_op_def clears_pause_def)
qed

section \<open>Queues\<close>

text \<open>
  The abstract queue machine: an item is appended when it is enqueued and removed when it is
  cancelled. The contents of a lane's queues are read off it without the items that have become
  entries.
\<close>

definition queue_step :: "(queue_kind \<times> string option \<times> provisioned_entry) list \<Rightarrow> lane_record
    \<Rightarrow> (queue_kind \<times> string option \<times> provisioned_entry) list" where
  "queue_step q r =
     (case r_body r of
        QueueEnqueued k runId target \<Rightarrow> q @ [(k, runId, target)]
      | QueueCancelled runId i \<Rightarrow> filter (\<lambda>(k, runId, target). pe_id target \<noteq> i) q
      | _ \<Rightarrow> q)"

definition queue_after :: "lane_record list \<Rightarrow> (queue_kind \<times> string option \<times> provisioned_entry) list" where
  "queue_after rs = foldl queue_step [] rs"

definition enqueued_ids :: "lane_record list \<Rightarrow> string list" where
  "enqueued_ids rs = map (\<lambda>(k, runId, target). pe_id target) (enqueued rs)"

lemma enqueued_append: "enqueued (xs @ ys) = enqueued xs @ enqueued ys"
  by (induction xs) (auto split: record_body.splits)

lemma cancelled_append: "cancelled_ids (xs @ ys) = cancelled_ids xs @ cancelled_ids ys"
  by (induction xs) (auto split: record_body.splits)

lemma enqueued_single:
  "enqueued [r] = (case r_body r of QueueEnqueued k runId target \<Rightarrow> [(k, runId, target)] | _ \<Rightarrow> [])"
  "cancelled_ids [r] = (case r_body r of QueueCancelled runId i \<Rightarrow> [i] | _ \<Rightarrow> [])"
  by (auto split: record_body.splits)

text \<open>
  When ids are enqueued once and cancellations follow the enqueuing they cancel, removing all
  cancelled ids at the end gives the queue of the step-by-step machine.
\<close>

lemma queue_after_filter:
  assumes "\<forall>ys r zs. rs = ys @ r # zs \<longrightarrow> (\<forall>k runId target. r_body r = QueueEnqueued k runId target
             \<longrightarrow> pe_id target \<notin> set (cancelled_ids ys))"
  shows "queue_after rs = filter (\<lambda>(k, runId, target). pe_id target \<notin> set (cancelled_ids rs)) (enqueued rs)"
  using assms
proof (induction rs rule: rev_induct)
  case Nil
  then show ?case
    by (simp add: queue_after_def)
next
  case (snoc r rs)
  have "\<forall>ys x zs. rs = ys @ x # zs \<longrightarrow> (\<forall>k runId target. r_body x = QueueEnqueued k runId target
      \<longrightarrow> pe_id target \<notin> set (cancelled_ids ys))"
    using snoc.prems by (metis append.assoc append_Cons)
  then have IH: "queue_after rs = filter (\<lambda>(k, runId, target). pe_id target \<notin> set (cancelled_ids rs)) (enqueued rs)"
    by (rule snoc.IH)
  have fresh: "pe_id target \<notin> set (cancelled_ids rs)" if "r_body r = QueueEnqueued k runId target" for k runId target
    using snoc.prems that by blast
  have step: "queue_after (rs @ [r]) = queue_step (queue_after rs) r"
    by (simp add: queue_after_def)
  show ?case
    unfolding step enqueued_append cancelled_append enqueued_single
    using fresh IH
    by (cases "r_body r") (auto simp: queue_step_def filter_filter split_def intro!: filter_cong)
qed

lemma cancelled_ids_mem: "i \<in> set (cancelled_ids rs) \<longleftrightarrow> (\<exists>r\<in>set rs. \<exists>runId. r_body r = QueueCancelled runId i)"
  by (induction rs) (auto split: record_body.splits)

lemma enqueues_of_mem:
  "enqueues_of i rs \<noteq> [] \<Longrightarrow> \<exists>r\<in>set rs. \<exists>k runId target. r_body r = QueueEnqueued k runId target \<and> pe_id target = i"
  by (induction rs) (auto split: record_body.splits if_splits)

lemma enqueued_ids_mem:
  "i \<in> set (enqueued_ids rs) \<longleftrightarrow> (\<exists>r\<in>set rs. \<exists>k runId target. r_body r = QueueEnqueued k runId target \<and> pe_id target = i)"
  by (induction rs) (auto simp: enqueued_ids_def split: record_body.splits)

lemma enqueued_ids_append: "enqueued_ids (xs @ ys) = enqueued_ids xs @ enqueued_ids ys"
  by (simp add: enqueued_ids_def enqueued_append)

lemma no_enqueue_after_cancel:
  assumes ok: "\<forall>r\<in>set rs. record_ok deep_eq E rs r" and seqs: "distinct (map r_seq rs)"
    and ids: "distinct (enqueued_ids (bySequence r_seq rs))"
    and split: "bySequence r_seq rs = ys @ r # zs" and r: "r_body r = QueueEnqueued k runId target"
  shows "pe_id target \<notin> set (cancelled_ids ys)"
proof
  assume "pe_id target \<in> set (cancelled_ids ys)"
  then obtain x runId' where x: "x \<in> set ys" "r_body x = QueueCancelled runId' (pe_id target)"
    by (auto simp: cancelled_ids_mem)
  have x_rs: "x \<in> set rs"
    using split x(1) set_bySequence [of r_seq rs] by auto
  then have "enqueues_of (pe_id target) (before rs x) \<noteq> []"
    using ok x(2) by (fastforce simp: record_ok_def body_ok_def last_opt_def)
  then obtain w k' run' t' where w: "w \<in> set (before rs x)" "r_body w = QueueEnqueued k' run' t'" "pe_id t' = pe_id target"
    using enqueues_of_mem by blast
  have "r_seq w < r_seq x" "w \<in> set rs"
    using w(1) by (simp_all add: set_before)
  moreover have "x \<in> set (before rs r)"
    using before_prefix [OF seqs split] x(1) by simp
  ultimately have "w \<in> set (before rs r)"
    by (simp add: set_before)
  then have "pe_id target \<in> set (enqueued_ids ys)"
    using before_prefix [OF seqs split] w by (auto simp: enqueued_ids_mem)
  moreover have "pe_id target \<in> set (enqueued_ids (r # zs))"
    using r by (simp add: enqueued_ids_def)
  ultimately show False
    using ids split by (simp add: enqueued_ids_append disjoint_iff)
qed

lemma pending_queue_after:
  assumes "validateRecordLog deep_eq input = Ok ()" and "distinct (map r_seq (sl_records input))"
    and "distinct (enqueued_ids (bySequence r_seq (sl_records input)))"
  shows "pendingQueueRecords (by_id es) (bySequence r_seq (sl_records input)) =
    filter (\<lambda>(k, runId, target). pe_id target \<notin> e_id ` set es) (queue_after (bySequence r_seq (sl_records input)))"
proof -
  have "\<forall>r\<in>set (sl_records input). record_ok deep_eq (by_id (sl_entries input)) (sl_records input) r"
    using assms(1) validate_iff [OF assms(2), of deep_eq] by simp
  note fresh = no_enqueue_after_cancel [OF this assms(2,3)]
  have "queue_after (bySequence r_seq (sl_records input)) =
    filter (\<lambda>(k, runId, target). pe_id target \<notin> set (cancelled_ids (bySequence r_seq (sl_records input))))
      (enqueued (bySequence r_seq (sl_records input)))"
    by (rule queue_after_filter) (use fresh in blast)
  then show ?thesis
    by (auto simp: pendingQueueRecords_def map_of_by_id_None filter_filter split_def intro!: filter_cong)
qed

text \<open>The pending targets of a queue, oldest first.\<close>

definition queue_contents :: "lane_reduction_input \<Rightarrow> (queue_kind \<Rightarrow> string option \<Rightarrow> bool) \<Rightarrow> provisioned_entry list" where
  "queue_contents input wanted = map (\<lambda>(k, runId, target). target)
     (filter (\<lambda>(k, runId, target). wanted k runId \<and> pe_id target \<notin> e_id ` set (sl_entries input @ ri_ownEntries input))
       (queue_after (bySequence r_seq (sl_records input))))"

text \<open>C23: The pending queues the reduction rebuilds are the contents of first-in first-out queues.
  Running the records of an accepted log in sequence order through the machine that appends an item
  when it is enqueued and removes it when it is cancelled, and dropping what has become an entry, gives,
  in order, the steering and follow-up messages of the open operation, unless it is aborting, when both
  are empty, and the messages for the next run that the open operation has not already captured; provided
  that sequence numbers are distinct and an id is enqueued at most once.\<close>

theorem pending_queues_refine:
  assumes "reduceLaneState deep_eq input = Ok res" and "distinct (map r_seq (sl_records input))"
    and "distinct (enqueued_ids (bySequence r_seq (sl_records input)))"
  shows "(case ls_operation (lr_laneState res) of
       None \<Rightarrow> ls_pendingNextRun (lr_laneState res) = queue_contents input (\<lambda>k runId. k = NextRunQueue)
     | Some op \<Rightarrow>
         os_pendingSteer op = (if os_aborting op then []
           else queue_contents input (\<lambda>k runId. k = SteerQueue \<and> runId = Some (os_id op)))
         \<and> os_pendingFollowUp op = (if os_aborting op then []
           else queue_contents input (\<lambda>k runId. k = FollowUpQueue \<and> runId = Some (os_id op)))
         \<and> ls_pendingNextRun (lr_laneState res) =
             filter (\<lambda>target. pe_id target \<notin> pe_id ` set (initial_messages (os_intent op)))
               (queue_contents input (\<lambda>k runId. k = NextRunQueue)))"
  using assms(1)
proof (cases rule: reduce_cases)
  case idle
  show ?thesis
    using idle(3,4) pending_queue_after [OF idle(1) assms(2,3)]
    by (simp add: queue_contents_def pending_next_run_def split_def conj_commute)
next
  case (opened started others)
  show ?thesis
    using opened(3,4) pending_queue_after [OF opened(1) assms(2,3)]
    by (simp add: queue_contents_def pending_next_run_def pending_of_def operation_state_of_def Let_def split_def
        filter_map comp_def filter_filter conj_ac)
qed

definition sample_target :: "string \<Rightarrow> provisioned_entry" where
  "sample_target k = \<lparr>pe_id = k, pe_body = CustomEntry ''note'', pe_extra = []\<rparr>"

definition sample_queued :: lane_reduction_input where
  "sample_queued = sample_run_input
     [sample_record 4 ''d'' (QueueCancelled (Some ''run'') ''x''),
      sample_record 2 ''b'' (QueueEnqueued SteerQueue (Some ''run'') (sample_target ''x'')),
      sample_record 3 ''c'' (QueueEnqueued SteerQueue (Some ''run'') (sample_target ''y''))] []"

lemma sample_queued_valid: "validateRecordLog (=) sample_queued = Ok ()"
  by (simp add: sample_queued_def sample_run_input_def sample_record_def sample_target_def sample_eval)

theorem pending_queues_refine_witness:
  "\<exists>res op. reduceLaneState (=) sample_queued = Ok res \<and> ls_operation (lr_laneState res) = Some op
     \<and> os_pendingSteer op = [sample_target ''y'']"
proof -
  obtain res op where op: "reduceLaneState (=) sample_queued = Ok res" "ls_operation (lr_laneState res) = Some op"
    "os_id op = ''run''" "\<not> os_aborting op"
    using reduce_opened [OF sample_queued_valid, of sample_run "[]"]
    by (auto simp: sample_queued_def sample_run_input_def sample_run_def operation_state_of_def aborting_run
        aborts_op_def sample_record_def Let_def)
  then show ?thesis
    using pending_queues_refine [OF op(1)]
    by (simp add: sample_queued_def sample_run_input_def sample_record_def sample_target_def enqueued_ids_def
        bySequence_def queue_contents_def queue_after_def queue_step_def)
qed

section \<open>Tool batch\<close>

lemma tool_starts_Some:
  "tool_starts k a rs i = Some (r, t) \<Longrightarrow> r \<in> set rs \<and> r_body r = ToolStarted t \<and> ts_runId t = k
     \<and> ts_assistantEntryId t = a \<and> ts_toolIndex t = i"
  by (induction rs rule: rev_induct) (auto simp: tool_starts_def split: record_body.splits if_splits)

lemma tool_starts_None:
  "tool_starts k a rs i = None \<Longrightarrow> r \<in> set rs \<Longrightarrow> r_body r = ToolStarted t \<Longrightarrow> ts_runId t = k
     \<Longrightarrow> ts_assistantEntryId t = a \<Longrightarrow> ts_toolIndex t \<noteq> i"
  by (induction rs rule: rev_induct) (auto simp: tool_starts_def split: record_body.splits if_splits)

text \<open>A message that asks for tools.\<close>

definition asks_tools :: "entry \<Rightarrow> bool" where
  "asks_tools e = (\<exists>m. assistant_of e = Some m \<and> tool_calls (am_content m) \<noteq> [])"

lemma find_rev_last:
  assumes "find P (rev xs) = Some x"
  shows "\<exists>ys zs. xs = ys @ x # zs \<and> P x \<and> (\<forall>z\<in>set zs. \<not> P z)"
  using assms
proof (induction xs rule: rev_induct)
  case Nil
  then show ?case by simp
next
  case (snoc y xs)
  show ?case
  proof (cases "P y")
    case True
    then show ?thesis
      using snoc.prems by (intro exI [of _ xs] exI [of _ "[]"]) simp
  next
    case False
    then obtain ys zs where "xs = ys @ x # zs \<and> P x \<and> (\<forall>z\<in>set zs. \<not> P z)"
      using snoc by auto
    then show ?thesis
      using False by (intro exI [of _ ys] exI [of _ "zs @ [y]"]) auto
  qed
qed

lemma batch_entry_Some:
  assumes "batch_entry (bySequence e_seq own) = Some (e, m)"
  shows "e \<in> set own \<and> assistant_of e = Some m \<and> asks_tools e
    \<and> (\<forall>x\<in>set own. asks_tools x \<longrightarrow> e_seq x \<le> e_seq e)"
proof -
  let ?P = "\<lambda>e. case assistant_of e of None \<Rightarrow> False | Some m \<Rightarrow> tool_calls (am_content m) \<noteq> []"
  have P: "?P x \<longleftrightarrow> asks_tools x" for x
    by (auto simp: asks_tools_def split: option.splits)
  have found: "find ?P (rev (bySequence e_seq own)) = Some e" and m: "assistant_of e = Some m"
    using assms by (auto simp: batch_entry_def split: option.splits)
  obtain ys zs where split: "bySequence e_seq own = ys @ e # zs" and e: "?P e" and zs: "\<forall>z\<in>set zs. \<not> ?P z"
    using find_rev_last [OF found] by blast
  have own: "set own = set (ys @ e # zs)"
    using split set_bySequence [of e_seq own] by simp
  have "sorted (map e_seq (bySequence e_seq own))"
    by (simp add: bySequence_def)
  then have "\<forall>y\<in>set ys. e_seq y \<le> e_seq e"
    by (simp add: split sorted_append)
  then have "\<forall>x\<in>set own. asks_tools x \<longrightarrow> e_seq x \<le> e_seq e"
    using zs unfolding own P by auto
  then show ?thesis
    using m e own by (auto simp: asks_tools_def)
qed

lemma derive_call_simps:
  "bc_toolIndex (derive_call k rs own E w e st ic) = fst ic"
  "bc_toolCall (derive_call k rs own E w e st ic) = snd ic"
  "bc_started (derive_call k rs own E w e st ic) = map_option fst (st (fst ic))"
  by (simp_all add: derive_call_def Let_def)

lemma deriveToolBatch_Some:
  assumes "deriveToolBatch k rs own E w = Some b"
  obtains e m where "batch_entry own = Some (e, m)" "tb_assistantEntryId b = e_id e"
    "tb_calls b = map (derive_call k rs own E w e (tool_starts k (e_id e) rs)) (enumerate 0 (tool_calls (am_content m)))"
  using assms by (auto simp: deriveToolBatch_def Let_def split: option.splits prod.splits)

text \<open>The dispatch record of a tool call of an operation.\<close>

definition dispatches :: "string \<Rightarrow> string \<Rightarrow> nat \<Rightarrow> tool_call \<Rightarrow> lane_record \<Rightarrow> bool" where
  "dispatches k a i c r =
     (\<exists>t. r_body r = ToolStarted t \<and> ts_runId t = k \<and> ts_assistantEntryId t = a \<and> ts_toolIndex t = i
        \<and> ts_toolCallId t = tc_id c \<and> ts_toolName t = tc_name c)"

definition starts_call :: "string \<Rightarrow> string \<Rightarrow> nat \<Rightarrow> lane_record \<Rightarrow> bool" where
  "starts_call k a i r =
     (\<exists>t. r_body r = ToolStarted t \<and> ts_runId t = k \<and> ts_assistantEntryId t = a \<and> ts_toolIndex t = i)"

text \<open>In an accepted log a start at an index of a message names the call at that index.\<close>

lemma start_names_call:
  assumes ok: "\<forall>r\<in>set rs. record_ok deep_eq (by_id es) rs r" and "coherent es" and "e \<in> set es"
    and "assistant_of e = Some m" and "r \<in> set rs" and "r_body r = ToolStarted t"
    and "ts_assistantEntryId t = e_id e" and "ts_toolIndex t < length (tool_calls (am_content m))"
  shows "ts_toolCallId t = tc_id (tool_calls (am_content m) ! ts_toolIndex t)
    \<and> ts_toolName t = tc_name (tool_calls (am_content m) ! ts_toolIndex t)"
proof -
  have "map_of (by_id es) (e_id e) = Some e"
    using map_of_by_id_coherent [OF assms(2)] assms(3) by blast
  moreover have "tool_start_ok (by_id es) rs r t"
    using ok assms(5,6) by (fastforce simp: record_ok_def body_ok_def)
  ultimately show ?thesis
    using assms(4,7,8) by (auto simp: tool_start_ok_def nth_opt_def)
qed

lemma operation_start_records:
  "r_body r = ToolStarted t \<Longrightarrow> r \<in> set (operation_records k rs) \<longleftrightarrow> r \<in> set rs \<and> ts_runId t = k"
  by (simp add: operation_records_mem starts_op_def)

lemma batch_call_started:
  assumes ok: "\<forall>r\<in>set rs. record_ok deep_eq (by_id es) rs r" and "coherent es" and "e \<in> set es"
    and "assistant_of e = Some m" and i: "i < length (tool_calls (am_content m))"
    and R: "R = operation_records k (bySequence r_seq rs)"
  shows "case tool_starts k (e_id e) R i of
      None \<Rightarrow> \<not> (\<exists>r\<in>set rs. starts_call k (e_id e) i r)
    | Some (r, t) \<Rightarrow> r \<in> set rs \<and> dispatches k (e_id e) i (tool_calls (am_content m) ! i) r"
proof (cases "tool_starts k (e_id e) R i")
  case None
  have False if mem: "r \<in> set rs" and start: "starts_call k (e_id e) i r" for r
  proof -
    obtain t where t: "r_body r = ToolStarted t" "ts_runId t = k" "ts_assistantEntryId t = e_id e" "ts_toolIndex t = i"
      using start by (auto simp: starts_call_def)
    then have "r \<in> set R"
      using mem by (simp add: R operation_start_records)
    then show False
      using tool_starts_None [OF None _ t(1,2,3)] t(4) by blast
  qed
  then show ?thesis
    using None by auto
next
  case (Some p)
  obtain r t where p: "p = (r, t)"
    by (cases p)
  have t: "r \<in> set R" "r_body r = ToolStarted t" "ts_runId t = k" "ts_assistantEntryId t = e_id e" "ts_toolIndex t = i"
    using tool_starts_Some [OF Some [unfolded p]] by blast+
  have r: "r \<in> set rs"
    using t(1) by (simp add: R operation_records_mem)
  show ?thesis
    using Some p t r start_names_call [OF assms(1-4) r t(2,4)] i by (simp add: dispatches_def)
qed

text \<open>The rebuilt tool batch is that of the newest own message that asks for tools, and it
  reports dispatches exactly. It has one call per tool call of that message, in order and numbered from
  0; a call reported as started carries a record of the log that dispatched this very call, with its id
  and its name, for this operation, and a call not reported as started has no dispatch record, so a
  recovery that runs the unstarted calls never repeats a dispatch; provided that the operation's own
  entries are among the fetched entries and that ids and sequence numbers identify entries and records.\<close>

theorem tool_batch_sound:
  assumes "reduceLaneState deep_eq input = Ok res" and "ls_operation (lr_laneState res) = Some op"
    and "os_toolBatch op = Some b" and "distinct (map r_seq (sl_records input))"
    and "coherent (sl_entries input)" and "set (ri_ownEntries input) \<subseteq> set (sl_entries input)"
  shows "\<exists>e m. e \<in> set (ri_ownEntries input) \<and> tb_assistantEntryId b = e_id e \<and> assistant_of e = Some m
    \<and> (\<forall>x\<in>set (ri_ownEntries input). asks_tools x \<longrightarrow> e_seq x \<le> e_seq e)
    \<and> map bc_toolCall (tb_calls b) = tool_calls (am_content m)
    \<and> map bc_toolIndex (tb_calls b) = [0..<length (tool_calls (am_content m))]
    \<and> (\<forall>c\<in>set (tb_calls b). case bc_started c of
         None \<Rightarrow> \<not> (\<exists>r\<in>set (sl_records input). starts_call (os_id op) (e_id e) (bc_toolIndex c) r)
       | Some r \<Rightarrow> r \<in> set (sl_records input) \<and> dispatches (os_id op) (e_id e) (bc_toolIndex c) (bc_toolCall c) r)"
  using assms(1,2)
proof (cases rule: reduce_operation)
  case (1 started)
  let ?R = "operation_records (op_id started) (bySequence r_seq (sl_records input))"
  let ?E = "by_id (sl_entries input @ bySequence e_seq (ri_ownEntries input))"
  let ?w = "map pe_id (deferred_writes ?R)"
  have batch: "deriveToolBatch (op_id started) ?R (bySequence e_seq (ri_ownEntries input)) ?E ?w = Some b"
    and id: "os_id op = op_id started"
    using 1(3) assms(3) by (simp_all add: operation_state_of_def Let_def)
  obtain e m where em: "batch_entry (bySequence e_seq (ri_ownEntries input)) = Some (e, m)"
    and b: "tb_assistantEntryId b = e_id e"
    "tb_calls b = map (derive_call (op_id started) ?R (bySequence e_seq (ri_ownEntries input)) ?E ?w e
       (tool_starts (op_id started) (e_id e) ?R)) (enumerate 0 (tool_calls (am_content m)))"
    by (rule deriveToolBatch_Some [OF batch])
  note newest = batch_entry_Some [OF em]
  have ok: "\<forall>r\<in>set (sl_records input). record_ok deep_eq (by_id (sl_entries input)) (sl_records input) r"
    using 1(1) validate_iff [OF assms(4), of deep_eq] by simp
  have e: "e \<in> set (sl_entries input)" "assistant_of e = Some m"
    using newest assms(6) by blast+
  note started = batch_call_started [OF ok assms(5) e, of _ ?R "op_id started", OF _ refl]
  have "case bc_started c of
      None \<Rightarrow> \<not> (\<exists>r\<in>set (sl_records input). starts_call (os_id op) (e_id e) (bc_toolIndex c) r)
    | Some r \<Rightarrow> r \<in> set (sl_records input) \<and> dispatches (os_id op) (e_id e) (bc_toolIndex c) (bc_toolCall c) r"
    if mem: "c \<in> set (tb_calls b)" for c
  proof -
    obtain i where i: "i < length (tool_calls (am_content m))"
      and c: "bc_toolIndex c = i" "bc_toolCall c = tool_calls (am_content m) ! i"
        "bc_started c = map_option fst (tool_starts (op_id started) (e_id e) ?R i)"
      using mem unfolding b(2) by (auto simp: derive_call_simps in_set_enumerate_eq)
    show ?thesis
      using started [OF i] unfolding c id
      by (cases "tool_starts (op_id started) (e_id e) ?R i") auto
  qed
  moreover have "map bc_toolCall (tb_calls b) = tool_calls (am_content m)"
    "map bc_toolIndex (tb_calls b) = [0..<length (tool_calls (am_content m))]"
    by (simp_all add: b(2) comp_def derive_call_simps)
  ultimately show ?thesis
    using newest b(1) by (intro exI [of _ e] exI [of _ m]) simp
qed

definition sample_call :: "string \<Rightarrow> tool_call" where
  "sample_call k = \<lparr>tc_id = k, tc_name = ''bash'', tc_arguments = [], tc_extra = []\<rparr>"

definition sample_usage :: usage where
  "sample_usage = \<lparr>u_input = JInt 0, u_output = JInt 0, u_cacheRead = JInt 0, u_cacheWrite = JInt 0,
     u_cacheWrite1h = None, u_reasoning = None, u_totalTokens = JInt 0,
     u_cost = \<lparr>cost_input = JInt 0, cost_output = JInt 0, cost_cacheRead = JInt 0, cost_cacheWrite = JInt 0, cost_total = JInt 0\<rparr>\<rparr>"

definition sample_assistant :: assistant_message where
  "sample_assistant = \<lparr>am_content = [ToolCallBlock (sample_call ''t0''), ToolCallBlock (sample_call ''t1'')],
     am_api = ''api'', am_provider = ''p'', am_model = ''m'', am_usage = sample_usage, am_stopReason = SR_toolUse,
     am_isResponseCheckpoint = False, am_deferred = None, am_timestamp = JInt 0, am_extra = []\<rparr>"

definition sample_start :: tool_start where
  "sample_start = \<lparr>ts_runId = ''run'', ts_assistantEntryId = ''asst'', ts_toolIndex = 1, ts_toolCallId = ''t1'',
     ts_toolName = ''bash'', ts_effectiveArgs = [], ts_resultEntryId = ''res'', ts_operationId = None, ts_replay = ReplayNever\<rparr>"

definition sample_tools :: lane_reduction_input where
  "sample_tools = sample_run_input [sample_record 3 ''c'' (ToolStarted sample_start)]
     [sample_entry 2 ''asst'' (MessageEntry (AssistantMessage sample_assistant) False)]"

lemma sample_tools_valid: "validateRecordLog (=) sample_tools = Ok ()"
  by (simp add: sample_tools_def sample_run_input_def sample_record_def sample_entry_def sample_assistant_def sample_call_def
      sample_start_def sample_eval)

lemma sample_tools_batch:
  "\<exists>res op b. reduceLaneState (=) sample_tools = Ok res \<and> ls_operation (lr_laneState res) = Some op
     \<and> os_id op = ''run'' \<and> os_toolBatch op = Some b \<and> map bc_started (tb_calls b) =
       [None, Some (sample_record 3 ''c'' (ToolStarted sample_start))]"
proof -
  have batch: "\<exists>b. deriveToolBatch ''run'' (operation_records ''run'' (bySequence r_seq (sl_records sample_tools)))
      (bySequence e_seq (ri_ownEntries sample_tools)) E w = Some b
    \<and> map bc_started (tb_calls b) = [None, Some (sample_record 3 ''c'' (ToolStarted sample_start))]" for E w
    by (simp add: sample_tools_def sample_run_input_def deriveToolBatch_def
        batch_entry_def bySequence_def assistant_of_def sample_entry_def sample_assistant_def operation_records_def
        sample_record_def sample_start_def tool_starts_def derive_call_simps)
  have "sl_openOperations sample_tools = sample_run # []" and id: "op_id sample_run = ''run''"
    by (simp_all add: sample_tools_def sample_run_input_def sample_run_def)
  from reduce_opened [OF sample_tools_valid this(1)] show ?thesis
    unfolding id using batch by (fastforce simp: operation_state_of_def Let_def id)
qed

theorem tool_batch_sound_witness:
  "\<exists>res op b c. reduceLaneState (=) sample_tools = Ok res \<and> ls_operation (lr_laneState res) = Some op
     \<and> os_toolBatch op = Some b \<and> tb_assistantEntryId b = ''asst'' \<and> c \<in> set (tb_calls b)
     \<and> bc_started c = Some (sample_record 3 ''c'' (ToolStarted sample_start))
     \<and> dispatches ''run'' ''asst'' (bc_toolIndex c) (bc_toolCall c) (sample_record 3 ''c'' (ToolStarted sample_start))"
proof -
  obtain res op b where op: "reduceLaneState (=) sample_tools = Ok res" "ls_operation (lr_laneState res) = Some op"
    "os_toolBatch op = Some b" and id: "os_id op = ''run''"
    and calls: "map bc_started (tb_calls b) = [None, Some (sample_record 3 ''c'' (ToolStarted sample_start))]"
    using sample_tools_batch by (elim exE conjE) (rule that)
  have "Some (sample_record 3 ''c'' (ToolStarted sample_start)) \<in> bc_started ` set (tb_calls b)"
    unfolding set_map [symmetric] calls by simp
  then obtain c where c: "c \<in> set (tb_calls b)" "bc_started c = Some (sample_record 3 ''c'' (ToolStarted sample_start))"
    by force
  obtain e where "e \<in> set (ri_ownEntries sample_tools)" "tb_assistantEntryId b = e_id e"
    "dispatches (os_id op) (e_id e) (bc_toolIndex c) (bc_toolCall c) (sample_record 3 ''c'' (ToolStarted sample_start))"
    using tool_batch_sound [OF op] c
    by (fastforce simp: sample_tools_def sample_run_input_def sample_record_def coherent_def)
  then show ?thesis
    using op id c by (auto simp: sample_tools_def sample_run_input_def sample_entry_def)
qed

section \<open>Current step and checkpoint\<close>

lemma checkpoints_mem: "c \<in> set (checkpoints rs) \<longleftrightarrow> (\<exists>r\<in>set rs. r_body r = AssistantCheckpoint c)"
  by (induction rs) (auto split: record_body.splits)

text \<open>The newest attempt of an operation.\<close>

lemma last_attempt:
  assumes "last_opt (attempts (operation_records k (bySequence r_seq rs))) = Some (n, a)"
  shows "\<exists>r\<in>set rs. r_seq r = n \<and> r_body r = StepAttempt a \<and> sa_runId a = k
    \<and> (\<forall>x\<in>set rs. \<forall>y. r_body x = StepAttempt y \<and> sa_runId y = k \<longrightarrow> r_seq x \<le> n)"
proof -
  let ?A = "attempts (operation_records k (bySequence r_seq rs))"
  have mem: "(i, y) \<in> set ?A \<longleftrightarrow> (\<exists>r\<in>set rs. r_seq r = i \<and> r_body r = StepAttempt y \<and> sa_runId y = k)" for i y
    by (auto simp: attempts_set operation_records_mem starts_op_def)
  have "sorted (map r_seq (operation_records k (bySequence r_seq rs)))"
    by (simp add: operation_records_def bySequence_def sorted_filter)
  moreover have "map fst (attempts xs) = map r_seq (filter (\<lambda>r. \<exists>y. r_body r = StepAttempt y) xs)" for xs
    by (induction xs) (auto split: record_body.splits)
  ultimately have sorted: "sorted (map fst ?A)"
    by (simp add: sorted_filter)
  obtain ys where ys: "?A = ys @ [(n, a)]"
    using assms by (cases ?A rule: rev_cases) (auto simp: last_opt_def)
  have "i \<le> n" if "(i, y) \<in> set ?A" for i y
    using sorted that unfolding ys by (force simp: sorted_append)
  moreover have "(n, a) \<in> set ?A"
    by (simp add: ys)
  ultimately show ?thesis
    using mem by blast
qed

lemma attempt_number_positive:
  assumes "attempt_ok E rs r a"
  shows "1 \<le> sa_attempt a \<and> (sa_compactionReason a \<noteq> None \<longleftrightarrow> sa_step a = CompactionStep)"
  using assms by (auto simp: attempt_ok_def Let_def split: if_splits)

text \<open>What recovery resumes is what the log left open. When the rebuilt operation has a current
  step, the log holds the attempt it describes, no attempt of the operation is newer, its number is at
  least 1, its result entry is not among the entries, and it has a compaction reason exactly when it is a
  compaction. A checkpoint is offered for resumption only together with an assistant step, and it is
  marked as a response checkpoint.\<close>

theorem current_step_sound:
  assumes "reduceLaneState deep_eq input = Ok res" and "ls_operation (lr_laneState res) = Some op"
    and "distinct (map r_seq (sl_records input))"
  shows "(\<forall>s. os_step op = Some s \<longrightarrow>
      stp_resultEntryId s \<notin> e_id ` set (sl_entries input @ ri_ownEntries input)
      \<and> 1 \<le> stp_attempts s \<and> (stp_compactionReason s \<noteq> None \<longleftrightarrow> stp_kind s = CompactionStep)
      \<and> (\<exists>r\<in>set (sl_records input). \<exists>a. r_body r = StepAttempt a \<and> sa_runId a = os_id op \<and> sa_step a = stp_kind s
           \<and> sa_attempt a = stp_attempts s \<and> sa_resultEntryId a = stp_resultEntryId s
           \<and> (\<forall>x\<in>set (sl_records input). \<forall>y. r_body x = StepAttempt y \<and> sa_runId y = os_id op \<longrightarrow> r_seq x \<le> r_seq r)))
    \<and> (\<forall>m. os_checkpoint op = Some m \<longrightarrow>
         am_isResponseCheckpoint m \<and> (\<exists>s. os_step op = Some s \<and> stp_kind s = AssistantStep))"
  using assms(1,2)
proof (cases rule: reduce_operation)
  case (1 started)
  let ?R = "operation_records (op_id started) (bySequence r_seq (sl_records input))"
  let ?E = "by_id (sl_entries input @ bySequence e_seq (ri_ownEntries input))"
  have op: "os_step op = current_step ?E ?R" "os_id op = op_id started"
    "os_checkpoint op = map_option cp_message (pending_checkpoint (os_step op) ?R)"
    using 1(3) by (simp_all add: operation_state_of_def Let_def)
  have ok: "\<forall>r\<in>set (sl_records input). record_ok deep_eq (by_id (sl_entries input)) (sl_records input) r"
    using 1(1) validate_iff [OF assms(3), of deep_eq] by simp
  have step: "stp_resultEntryId s \<notin> e_id ` set (sl_entries input @ ri_ownEntries input)
      \<and> 1 \<le> stp_attempts s \<and> (stp_compactionReason s \<noteq> None \<longleftrightarrow> stp_kind s = CompactionStep)
      \<and> (\<exists>r\<in>set (sl_records input). \<exists>a. r_body r = StepAttempt a \<and> sa_runId a = os_id op \<and> sa_step a = stp_kind s
           \<and> sa_attempt a = stp_attempts s \<and> sa_resultEntryId a = stp_resultEntryId s
           \<and> (\<forall>x\<in>set (sl_records input). \<forall>y. r_body x = StepAttempt y \<and> sa_runId y = os_id op \<longrightarrow> r_seq x \<le> r_seq r))"
    if "os_step op = Some s" for s
  proof -
    obtain n a where a: "last_opt (attempts ?R) = Some (n, a)" "map_of ?E (sa_resultEntryId a) = None"
      and s: "stp_kind s = sa_step a" "stp_attempts s = sa_attempt a" "stp_resultEntryId s = sa_resultEntryId a"
        "stp_compactionReason s = (if sa_step a = CompactionStep then sa_compactionReason a else None)"
      using \<open>os_step op = Some s\<close> unfolding op(1) by (auto simp: current_step_def split: option.splits prod.splits if_splits)
    obtain r where r: "r \<in> set (sl_records input)" "r_seq r = n" "r_body r = StepAttempt a" "sa_runId a = op_id started"
      "\<forall>x\<in>set (sl_records input). \<forall>y. r_body x = StepAttempt y \<and> sa_runId y = op_id started \<longrightarrow> r_seq x \<le> n"
      using last_attempt [OF a(1)] by blast
    have "attempt_ok (by_id (sl_entries input)) (sl_records input) r a"
      using ok r(1,3) by (fastforce simp: record_ok_def body_ok_def)
    note facts = attempt_number_positive [OF this]
    show ?thesis
      using facts a(2) r s unfolding map_of_by_id_None op(2) by (auto simp: image_Un)
  qed
  have "am_isResponseCheckpoint m \<and> (\<exists>s. os_step op = Some s \<and> stp_kind s = AssistantStep)"
    if "os_checkpoint op = Some m" for m
  proof -
    obtain s c where s: "os_step op = Some s" "stp_kind s = AssistantStep" and c: "c \<in> set (checkpoints ?R)" "m = cp_message c"
      using \<open>os_checkpoint op = Some m\<close> unfolding op(3)
      by (auto simp: pending_checkpoint_def split: option.splits if_splits dest!: last_opt_in_set)
    obtain r where "r \<in> set (sl_records input)" "r_body r = AssistantCheckpoint c"
      using c(1) by (auto simp: checkpoints_mem operation_records_mem)
    then have "am_isResponseCheckpoint m"
      using ok c(2) by (fastforce simp: record_ok_def body_ok_def)
    then show ?thesis
      using s by blast
  qed
  then show ?thesis
    using step by blast
qed

text \<open>A compaction started twice, its result still missing.\<close>

definition sample_stepping :: lane_reduction_input where
  "sample_stepping = sample_run_input
     [sample_record 3 ''c'' (StepAttempt (sample_attempt 2)), sample_record 2 ''b'' (StepAttempt (sample_attempt 1))] []"

lemma sample_stepping_valid: "validateRecordLog (=) sample_stepping = Ok ()"
  by (simp add: sample_stepping_def sample_run_input_def sample_record_def sample_attempt_def sample_eval compaction_reasons_def)

lemma sample_stepping_step:
  "\<exists>res op s. reduceLaneState (=) sample_stepping = Ok res \<and> ls_operation (lr_laneState res) = Some op
     \<and> os_step op = Some s \<and> stp_attempts s = 2"
proof -
  have "sl_openOperations sample_stepping = sample_run # []"
    by (simp add: sample_stepping_def sample_run_input_def)
  from reduce_opened [OF sample_stepping_valid this] show ?thesis
    by (auto simp: operation_state_of_def Let_def sample_stepping_def sample_run_input_def bySequence_def by_id_def
        sample_record_def sample_run_def operation_records_def sample_attempt_def current_step_def last_opt_def)
qed

theorem current_step_sound_witness:
  "\<exists>res op s. reduceLaneState (=) sample_stepping = Ok res \<and> ls_operation (lr_laneState res) = Some op
     \<and> os_step op = Some s \<and> stp_attempts s = 2 \<and> 1 \<le> stp_attempts s
     \<and> stp_resultEntryId s \<notin> e_id ` set (sl_entries sample_stepping @ ri_ownEntries sample_stepping)"
proof -
  obtain res op s where op: "reduceLaneState (=) sample_stepping = Ok res" "ls_operation (lr_laneState res) = Some op"
    "os_step op = Some s" "stp_attempts s = 2"
    using sample_stepping_step by (elim exE conjE) (rule that)
  have "distinct (map r_seq (sl_records sample_stepping))"
    by (simp add: sample_stepping_def sample_run_input_def sample_record_def)
  then show ?thesis
    using current_step_sound [OF op(1,2)] op by blast
qed

end
