(* ===== verification/Truncate.thy ===== *)
theory Truncate
  imports JsText
begin

text \<open>
  Truncation of tool outputs (\<open>packages/agent/src/harness/utils/truncate.ts\<close>). Texts are
  sequences of UTF-16 code units; limits are integers. \<open>Buffer.byteLength\<close> of the Node
  runtime counts the bytes of the UTF-8 form, so it is the length of \<open>text_encode\<close>; the
  argument \<open>node\<close> says whether the runtime has it. \<open>formatSize\<close>, which prints a number for
  display, is not modelled.
\<close>

definition DEFAULT_MAX_LINES :: int where
  "DEFAULT_MAX_LINES = 2000"

definition DEFAULT_MAX_BYTES :: int where
  "DEFAULT_MAX_BYTES = 50 * 1024"

definition GREP_MAX_LINE_LENGTH :: int where
  "GREP_MAX_LINE_LENGTH = 500"

datatype truncation_limit = ByLines | ByBytes

record truncation_result =
  tr_text :: js_string
  tr_truncated :: bool
  tr_truncatedBy :: "truncation_limit option"
  tr_totalLines :: nat
  tr_totalBytes :: nat
  tr_outputLines :: nat
  tr_outputBytes :: nat
  tr_lastLinePartial :: bool
  tr_firstLineExceedsLimit :: bool
  tr_maxLines :: int
  tr_maxBytes :: int

record truncation_options =
  to_maxLines :: "int option"
  to_maxBytes :: "int option"

text \<open>The exception of \<open>utf8ByteLength(undefined)\<close>.\<close>

datatype truncation_error = UndefinedLine

section \<open>Counting bytes and lines\<close>

text \<open>The scan of \<open>utf8ByteLength\<close> from the first code unit that is not ASCII.\<close>

fun scan_bytes :: "js_string \<Rightarrow> nat" where
  "scan_bytes [] = 0"
| "scan_bytes (u # us) =
     (if unat u \<le> 0x7F then 1 + scan_bytes us
      else if unat u \<le> 0x7FF then 2 + scan_bytes us
      else if is_high_surrogate u then
        (case us of
           [] \<Rightarrow> 3 + scan_bytes us
         | v # vs \<Rightarrow> if is_low_surrogate v then 4 + scan_bytes vs else 3 + scan_bytes us)
      else 3 + scan_bytes us)"

definition utf8ByteLength :: "bool \<Rightarrow> js_string \<Rightarrow> nat" where
  "utf8ByteLength node content =
     (if node then length (text_encode content)
      else let ascii = takeWhile (\<lambda>u. unat u \<le> 0x7F) content
           in if ascii = content then length content
              else length ascii + scan_bytes (drop (length ascii) content))"

definition newline :: "16 word" where
  "newline = 10"

text \<open>\<open>content.split("\\n")\<close> and \<open>lines.join("\\n")\<close>.\<close>

fun split_newline :: "js_string \<Rightarrow> js_string list" where
  "split_newline [] = [[]]"
| "split_newline (u # us) =
     (if u = newline then [] # split_newline us
      else (case split_newline us of [] \<Rightarrow> [[u]] | l # ls \<Rightarrow> (u # l) # ls))"

fun join_newline :: "js_string list \<Rightarrow> js_string" where
  "join_newline [] = []"
| "join_newline [l] = l"
| "join_newline (l # m # ls) = l @ newline # join_newline (m # ls)"

definition splitLinesForCounting :: "js_string \<Rightarrow> js_string list" where
  "splitLinesForCounting content =
     (if content = [] then []
      else if last content = newline then butlast (split_newline content)
      else split_newline content)"

definition replacement_unit :: "16 word" where
  "replacement_unit = 0xFFFD"

fun replaceUnpairedSurrogates :: "js_string \<Rightarrow> js_string" where
  "replaceUnpairedSurrogates [] = []"
| "replaceUnpairedSurrogates (u # us) =
     (if is_high_surrogate u then
        (case us of
           [] \<Rightarrow> replacement_unit # replaceUnpairedSurrogates us
         | v # vs \<Rightarrow>
             if is_low_surrogate v then u # v # replaceUnpairedSurrogates vs
             else replacement_unit # replaceUnpairedSurrogates us)
      else if is_low_surrogate u then replacement_unit # replaceUnpairedSurrogates us
      else u # replaceUnpairedSurrogates us)"

section \<open>Keeping the head\<close>

text \<open>
  The collecting loop: the lines kept so far, their bytes with the newlines between them, and
  the limit that stopped it.
\<close>

fun head_lines :: "bool \<Rightarrow> int \<Rightarrow> int \<Rightarrow> js_string list \<Rightarrow> nat \<Rightarrow> js_string list
    \<Rightarrow> js_string list \<times> nat \<times> truncation_limit" where
  "head_lines node maxLines maxBytes out n [] = (out, n, ByLines)"
| "head_lines node maxLines maxBytes out n (line # rest) =
     (if int (length out) < maxLines then
        let lineBytes = utf8ByteLength node line + (if out = [] then 0 else 1)
        in if int (n + lineBytes) > maxBytes then (out, n, ByBytes)
           else head_lines node maxLines maxBytes (out @ [line]) (n + lineBytes) rest
      else (out, n, ByLines))"

definition untruncated :: "js_string \<Rightarrow> nat \<Rightarrow> nat \<Rightarrow> int \<Rightarrow> int \<Rightarrow> truncation_result" where
  "untruncated content totalLines totalBytes maxLines maxBytes =
     \<lparr>tr_text = content, tr_truncated = False, tr_truncatedBy = None, tr_totalLines = totalLines,
      tr_totalBytes = totalBytes, tr_outputLines = totalLines, tr_outputBytes = totalBytes, tr_lastLinePartial = False,
      tr_firstLineExceedsLimit = False, tr_maxLines = maxLines, tr_maxBytes = maxBytes\<rparr>"

definition truncateHead :: "bool \<Rightarrow> js_string \<Rightarrow> truncation_options \<Rightarrow> truncation_error + truncation_result" where
  "truncateHead node content options =
     (let maxLines = (case to_maxLines options of Some n \<Rightarrow> n | None \<Rightarrow> DEFAULT_MAX_LINES);
          maxBytes = (case to_maxBytes options of Some n \<Rightarrow> n | None \<Rightarrow> DEFAULT_MAX_BYTES);
          totalBytes = utf8ByteLength node content;
          lines = splitLinesForCounting content;
          totalLines = length lines
      in if int totalLines \<le> maxLines \<and> int totalBytes \<le> maxBytes
         then Ok (untruncated content totalLines totalBytes maxLines maxBytes)
         else case lines of
           [] \<Rightarrow> Err UndefinedLine
         | first # others \<Rightarrow>
             if int (utf8ByteLength node first) > maxBytes
             then Ok \<lparr>tr_text = [], tr_truncated = True, tr_truncatedBy = Some ByBytes, tr_totalLines = totalLines,
                    tr_totalBytes = totalBytes, tr_outputLines = 0, tr_outputBytes = 0, tr_lastLinePartial = False,
                    tr_firstLineExceedsLimit = True, tr_maxLines = maxLines, tr_maxBytes = maxBytes\<rparr>
             else case head_lines node maxLines maxBytes [] 0 lines of (out, n, limit) \<Rightarrow>
               let truncatedBy = (if int (length out) \<ge> maxLines \<and> int n \<le> maxBytes then ByLines else limit);
                   outputContent = join_newline out
               in Ok \<lparr>tr_text = outputContent, tr_truncated = True, tr_truncatedBy = Some truncatedBy,
                    tr_totalLines = totalLines, tr_totalBytes = totalBytes, tr_outputLines = length out,
                    tr_outputBytes = utf8ByteLength node outputContent, tr_lastLinePartial = False,
                    tr_firstLineExceedsLimit = False, tr_maxLines = maxLines, tr_maxBytes = maxBytes\<rparr>)"

section \<open>Keeping the tail\<close>

text \<open>
  The backward scan of \<open>truncateStringToBytesFromEnd\<close> over the reversed text: the kept suffix
  and whether an unpaired surrogate was kept.
\<close>

definition character_bytes :: "16 word \<Rightarrow> nat" where
  "character_bytes u = (if unat u \<le> 0x7F then 1 else if unat u \<le> 0x7FF then 2 else 3)"

fun take_end :: "int \<Rightarrow> nat \<Rightarrow> js_string \<Rightarrow> bool \<Rightarrow> js_string \<Rightarrow> js_string \<times> bool" where
  "take_end maxBytes n kept unpaired [] = (kept, unpaired)"
| "take_end maxBytes n kept unpaired (u # before) =
     (if is_low_surrogate u then
        (case before of
           [] \<Rightarrow> if int (n + 3) > maxBytes then (kept, unpaired) else take_end maxBytes (n + 3) (u # kept) True before
         | v # vs \<Rightarrow>
             if is_high_surrogate v
             then if int (n + 4) > maxBytes then (kept, unpaired) else take_end maxBytes (n + 4) (v # u # kept) unpaired vs
             else if int (n + 3) > maxBytes then (kept, unpaired) else take_end maxBytes (n + 3) (u # kept) True before)
      else if is_high_surrogate u
      then if int (n + 3) > maxBytes then (kept, unpaired) else take_end maxBytes (n + 3) (u # kept) True before
      else if int (n + character_bytes u) > maxBytes then (kept, unpaired)
           else take_end maxBytes (n + character_bytes u) (u # kept) unpaired before)"

definition truncateStringToBytesFromEnd :: "js_string \<Rightarrow> int \<Rightarrow> js_string" where
  "truncateStringToBytesFromEnd str maxBytes =
     (if maxBytes \<le> 0 then []
      else case take_end maxBytes 0 [] False (rev str) of (output, needsReplacement) \<Rightarrow>
        if needsReplacement then replaceUnpairedSurrogates output else output)"

text \<open>The collecting loop over the lines from the last to the first.\<close>

fun tail_lines :: "bool \<Rightarrow> int \<Rightarrow> int \<Rightarrow> js_string list \<Rightarrow> nat \<Rightarrow> js_string list
    \<Rightarrow> js_string list \<times> nat \<times> truncation_limit \<times> bool" where
  "tail_lines node maxLines maxBytes out n [] = (out, n, ByLines, False)"
| "tail_lines node maxLines maxBytes out n (line # rest) =
     (if int (length out) < maxLines then
        let lineBytes = utf8ByteLength node line + (if out = [] then 0 else 1)
        in if int (n + lineBytes) > maxBytes
           then if out = []
                then let truncatedLine = truncateStringToBytesFromEnd line maxBytes
                     in ([truncatedLine], utf8ByteLength node truncatedLine, ByBytes, True)
                else (out, n, ByBytes, False)
           else tail_lines node maxLines maxBytes (line # out) (n + lineBytes) rest
      else (out, n, ByLines, False))"

definition truncateTail :: "bool \<Rightarrow> js_string \<Rightarrow> truncation_options \<Rightarrow> truncation_result" where
  "truncateTail node content options =
     (let maxLines = (case to_maxLines options of Some n \<Rightarrow> n | None \<Rightarrow> DEFAULT_MAX_LINES);
          maxBytes = (case to_maxBytes options of Some n \<Rightarrow> n | None \<Rightarrow> DEFAULT_MAX_BYTES);
          totalBytes = utf8ByteLength node content;
          lines = splitLinesForCounting content;
          totalLines = length lines
      in if int totalLines \<le> maxLines \<and> int totalBytes \<le> maxBytes
         then untruncated content totalLines totalBytes maxLines maxBytes
         else case tail_lines node maxLines maxBytes [] 0 (rev lines) of (out, n, limit, partialLine) \<Rightarrow>
           let truncatedBy = (if int (length out) \<ge> maxLines \<and> int n \<le> maxBytes then ByLines else limit);
               outputContent = join_newline out
           in \<lparr>tr_text = outputContent, tr_truncated = True, tr_truncatedBy = Some truncatedBy,
               tr_totalLines = totalLines, tr_totalBytes = totalBytes, tr_outputLines = length out,
               tr_outputBytes = utf8ByteLength node outputContent, tr_lastLinePartial = partialLine,
               tr_firstLineExceedsLimit = False, tr_maxLines = maxLines, tr_maxBytes = maxBytes\<rparr>)"

section \<open>Truncating one line\<close>

text \<open>\<open>line.slice(0, n)\<close>: a negative bound counts from the end.\<close>

definition slice_to :: "js_string \<Rightarrow> int \<Rightarrow> js_string" where
  "slice_to s n = (if n \<ge> 0 then take (nat n) s else take (length s - nat (- n)) s)"

definition truncateLine :: "js_string \<Rightarrow> int option \<Rightarrow> js_string \<times> bool" where
  "truncateLine line maxChars =
     (let limit = (case maxChars of Some n \<Rightarrow> n | None \<Rightarrow> GREP_MAX_LINE_LENGTH)
      in if int (length line) \<le> limit then (line, False)
         else (slice_to line limit @ ascii_text ''... [truncated]'', True))"

end
