(* ===== verification/TruncateCorrect.thy ===== *)
theory TruncateCorrect
  imports Truncate
begin

text \<open>
  Correctness of output truncation: byte counting, the lines that are kept, and the limits on
  what is returned.
\<close>

section \<open>Bytes of texts\<close>

lemma length_utf8_bytes:
  "length (utf8_bytes n) = (if n < 0x80 then 1 else if n < 0x800 then 2 else if n < 0x10000 then 3 else 4)"
  by (simp add: utf8_bytes_def)

lemma surrogate_bytes:
  "is_high_surrogate u \<Longrightarrow> \<not> unat u \<le> 0x7F \<and> \<not> unat u \<le> 0x7FF"
  "is_low_surrogate u \<Longrightarrow> \<not> unat u \<le> 0x7F \<and> \<not> unat u \<le> 0x7FF"
  by (auto simp: is_high_surrogate_def is_low_surrogate_def)

lemma length_replacement_bytes [simp]: "length (utf8_bytes replacement_character) = 3"
  by (simp add: length_utf8_bytes replacement_character_def)

lemma length_pair_bytes [simp]: "length (utf8_bytes (pair_code_point u v)) = 4"
  by (simp add: length_utf8_bytes pair_code_point_def)

lemma length_unit_bytes: "length (utf8_bytes (unat (u :: 16 word))) = character_bytes u"
  by (auto simp: length_utf8_bytes character_bytes_def)

text \<open>The bytes of one code unit that is not half of a pair.\<close>

definition unit_bytes :: "16 word \<Rightarrow> nat" where
  "unit_bytes u = (if is_high_surrogate u \<or> is_low_surrogate u then 3 else character_bytes u)"

lemma text_encode_Nil [simp]: "text_encode [] = []"
  by (simp add: text_encode_def)

lemma length_text_encode_pair:
  "is_high_surrogate u \<Longrightarrow> is_low_surrogate v \<Longrightarrow> length (text_encode (u # v # us)) = 4 + length (text_encode us)"
  by (simp add: text_encode_def)

lemma length_text_encode_single:
  assumes "\<not> (is_high_surrogate u \<and> (\<exists>v vs. us = v # vs \<and> is_low_surrogate v))"
  shows "length (text_encode (u # us)) = unit_bytes u + length (text_encode us)"
  using assms by (cases us) (auto simp: text_encode_def unit_bytes_def length_unit_bytes)

lemma scan_bytes_correct: "scan_bytes us = length (text_encode us)"
proof (induction us rule: scan_bytes.induct)
  case 1
  then show ?case by simp
next
  case (2 u us)
  show ?case
  proof (cases "is_high_surrogate u \<and> (\<exists>v vs. us = v # vs \<and> is_low_surrogate v)")
    case True
    then obtain v vs where us: "us = v # vs" and pair: "is_high_surrogate u" "is_low_surrogate v"
      by blast
    then show ?thesis
      using 2 surrogate_bytes(1) [OF pair(1)] length_text_encode_pair [OF pair] by simp
  next
    case False
    have "length (text_encode (u # us)) = unit_bytes u + length (text_encode us)"
      by (rule length_text_encode_single [OF False])
    moreover have "scan_bytes (u # us) = unit_bytes u + length (text_encode us)"
      using 2 False surrogate_bytes [of u]
      by (cases us) (auto simp: unit_bytes_def character_bytes_def)
    ultimately show ?thesis
      by simp
  qed
qed

lemma ascii_not_surrogate: "unat u \<le> 0x7F \<Longrightarrow> \<not> is_high_surrogate u \<and> \<not> is_low_surrogate u"
  using surrogate_bytes by blast

text \<open>A code unit that is not a surrogate separates the two sides.\<close>

lemma length_text_encode_separator:
  assumes "\<not> is_high_surrogate u" and "\<not> is_low_surrogate u"
  shows "length (text_encode (xs @ u # ys)) = length (text_encode xs) + unit_bytes u + length (text_encode ys)"
proof (induction xs rule: code_points.induct)
  case 1
  then show ?case
    using length_text_encode_single [of u ys] assms by simp
next
  case (2 x)
  have "length (text_encode ([x] @ u # ys)) = unit_bytes x + length (text_encode (u # ys))"
    using length_text_encode_single [of x "u # ys"] assms by simp
  then show ?case
    using length_text_encode_single [of u ys] length_text_encode_single [of x "[]"] assms by simp
next
  case (3 x y xs)
  show ?case
  proof (cases "is_high_surrogate x \<and> is_low_surrogate y")
    case True
    then show ?thesis
      using 3(1) length_text_encode_pair by simp
  next
    case False
    then show ?thesis
      using 3(2) length_text_encode_single [of x "y # xs"] length_text_encode_single [of x "(y # xs) @ u # ys"] by auto
  qed
qed

lemma length_text_encode_ascii:
  assumes "\<forall>u\<in>set xs. unat u \<le> 0x7F"
  shows "length (text_encode (xs @ ys)) = length xs + length (text_encode ys)"
  using assms
proof (induction xs)
  case Nil
  then show ?case by simp
next
  case (Cons u xs)
  then show ?case
    using length_text_encode_single [of u "xs @ ys"] ascii_not_surrogate [of u]
    by (simp add: unit_bytes_def character_bytes_def)
qed

lemma byte_length_correct: "utf8ByteLength node content = length (text_encode content)"
proof (cases node)
  case True
  then show ?thesis
    by (simp add: utf8ByteLength_def)
next
  case False
  let ?a = "takeWhile (\<lambda>u. unat u \<le> 0x7F) content"
  have ascii: "\<forall>u\<in>set ?a. unat u \<le> 0x7F"
    by (auto dest: set_takeWhileD)
  have drop: "drop (length ?a) content = dropWhile (\<lambda>u. unat u \<le> 0x7F) content"
    by (simp add: dropWhile_eq_drop)
  have "length (text_encode content) = length ?a + length (text_encode (drop (length ?a) content))"
    using length_text_encode_ascii [OF ascii, of "drop (length ?a) content"] by (simp add: drop)
  moreover have "length (text_encode content) = length content" if "?a = content"
    using length_text_encode_ascii [OF ascii, of "[]"] that by simp
  ultimately show ?thesis
    using False by (simp add: utf8ByteLength_def Let_def scan_bytes_correct)
qed

section \<open>Lines\<close>

abbreviation text_bytes :: "js_string \<Rightarrow> nat" where
  "text_bytes s \<equiv> length (text_encode s)"

lemma newline_not_surrogate [simp]: "\<not> is_high_surrogate newline" "\<not> is_low_surrogate newline"
  by (simp_all add: is_high_surrogate_def is_low_surrogate_def newline_def)

lemma newline_bytes [simp]: "unit_bytes newline = 1"
  by (simp add: unit_bytes_def character_bytes_def) (simp add: newline_def)

lemma text_bytes_newline: "text_bytes (xs @ newline # ys) = text_bytes xs + 1 + text_bytes ys"
  using length_text_encode_separator [of newline xs ys] by simp

lemma split_newline_not_Nil [simp]: "split_newline s \<noteq> []"
  by (induction s) (auto split: list.splits)

lemma join_newline_Cons: "ls \<noteq> [] \<Longrightarrow> join_newline (l # ls) = l @ newline # join_newline ls"
  by (cases ls) auto

lemma join_newline_snoc: "ls \<noteq> [] \<Longrightarrow> join_newline (ls @ [l]) = join_newline ls @ newline # l"
  by (induction ls rule: join_newline.induct) auto

lemma join_split: "join_newline (split_newline s) = s"
proof (induction s)
  case Nil
  then show ?case by simp
next
  case (Cons u us)
  show ?case
  proof (cases "split_newline us")
    case Nil
    then show ?thesis by simp
  next
    case (Cons l ls)
    then have "(u # l) # ls \<noteq> []" "join_newline (l # ls) = us"
      using Cons.IH by simp_all
    then show ?thesis
      using Cons by (cases ls) (auto simp: join_newline_Cons)
  qed
qed

lemma split_newline_last:
  assumes "s \<noteq> []" and "last s = newline"
  shows "last (split_newline s) = []"
  using assms
proof (induction s)
  case Nil
  then show ?case by simp
next
  case (Cons u us)
  show ?case
  proof (cases "us = []")
    case True
    then show ?thesis
      using Cons.prems by simp
  next
    case False
    then have IH: "last (split_newline us) = []"
      using Cons by simp
    show ?thesis
    proof (cases "split_newline us")
      case Nil
      then show ?thesis by simp
    next
      case (Cons l ls)
      then show ?thesis
        using IH False \<open>us \<noteq> []\<close> join_split [of us] by (cases ls) auto
    qed
  qed
qed

text \<open>The counted lines with the newlines between them are the text up to a final newline.\<close>

lemma counted_lines:
  "\<exists>rest. content = join_newline (splitLinesForCounting content) @ rest \<and> (rest = [] \<or> rest = [newline])"
proof (cases "content = [] \<or> last content \<noteq> newline")
  case True
  then show ?thesis
    by (auto simp: splitLinesForCounting_def join_split)
next
  case False
  then have ends: "content \<noteq> []" "last content = newline"
    by simp_all
  let ?ls = "split_newline content"
  have snoc: "?ls = butlast ?ls @ [[]]"
    using split_newline_last [OF ends] by (metis append_butlast_last_id split_newline_not_Nil)
  show ?thesis
  proof (cases "butlast ?ls = []")
    case True
    then have "content = []"
      using join_split [of content] snoc by simp
    then show ?thesis
      using ends by simp
  next
    case False
    then have "content = join_newline (butlast ?ls) @ [newline]"
      using join_split [of content] join_newline_snoc [OF False, of "[]"] snoc by simp
    then show ?thesis
      using ends by (auto simp: splitLinesForCounting_def)
  qed
qed

lemma join_take_prefix: "\<exists>rest. join_newline ls = join_newline (take k ls) @ rest"
proof (induction ls arbitrary: k)
  case Nil
  then show ?case by simp
next
  case (Cons l ls)
  show ?case
  proof (cases k)
    case 0
    then show ?thesis by simp
  next
    case (Suc j)
    show ?thesis
    proof (cases "ls = [] \<or> j = 0")
      case True
      then show ?thesis
        using Suc by (cases "ls = []") (auto simp: join_newline_Cons)
    next
      case False
      then have "take j ls \<noteq> []" "ls \<noteq> []"
        by simp_all
      then show ?thesis
        using Suc Cons.IH [of j] by (auto simp: join_newline_Cons)
    qed
  qed
qed

section \<open>The head\<close>

lemma join_snoc_bytes:
  "text_bytes (join_newline (out @ [line])) = text_bytes (join_newline out) + (text_bytes line + (if out = [] then 0 else 1))"
  by (cases "out = []") (simp_all add: join_newline_snoc text_bytes_newline)

lemma join_Cons_bytes:
  "text_bytes (join_newline (line # out)) = text_bytes (join_newline out) + (text_bytes line + (if out = [] then 0 else 1))"
  by (cases "out = []") (simp_all add: join_newline_Cons text_bytes_newline)

lemma head_lines_spec:
  assumes "head_lines node maxLines maxBytes out n rest = (out', n', limit)"
    and "n = text_bytes (join_newline out)" and "int n \<le> maxBytes" and "int (length out) \<le> maxLines"
  shows "\<exists>k\<le>length rest. out' = out @ take k rest \<and> n' = text_bytes (join_newline out') \<and> int n' \<le> maxBytes
    \<and> int (length out') \<le> maxLines
    \<and> (k < length rest \<longrightarrow> int (length out') = maxLines \<or> int (text_bytes (join_newline (out' @ [rest ! k]))) > maxBytes)"
  using assms
proof (induction rest arbitrary: out n)
  case Nil
  then show ?case by auto
next
  case (Cons line rest)
  let ?lb = "text_bytes line + (if out = [] then 0 else 1)"
  have bytes: "text_bytes (join_newline (out @ [line])) = n + ?lb"
    using Cons.prems(2) by (simp add: join_snoc_bytes)
  show ?case
  proof (cases "int (length out) < maxLines \<and> int (n + ?lb) \<le> maxBytes")
    case True
    have step: "head_lines node maxLines maxBytes (out @ [line]) (n + ?lb) rest = (out', n', limit)"
      using Cons.prems(1) True by (auto simp: byte_length_correct Let_def split: if_splits)
    have "\<exists>k\<le>length rest. out' = (out @ [line]) @ take k rest \<and> n' = text_bytes (join_newline out') \<and> int n' \<le> maxBytes
      \<and> int (length out') \<le> maxLines
      \<and> (k < length rest \<longrightarrow> int (length out') = maxLines \<or> int (text_bytes (join_newline (out' @ [rest ! k]))) > maxBytes)"
      by (rule Cons.IH [OF step]) (use True bytes in simp_all)
    then obtain k where "k \<le> length rest" "out' = (out @ [line]) @ take k rest" "n' = text_bytes (join_newline out')"
      "int n' \<le> maxBytes" "int (length out') \<le> maxLines"
      "k < length rest \<longrightarrow> int (length out') = maxLines \<or> int (text_bytes (join_newline (out' @ [rest ! k]))) > maxBytes"
      by blast
    then show ?thesis
      by (intro exI [of _ "Suc k"]) simp
  next
    case False
    then show ?thesis
      using Cons.prems bytes
      by (intro exI [of _ 0]) (auto simp: byte_length_correct Let_def split: if_splits)
  qed
qed

text \<open>Counting bytes. On every text, unpaired surrogates included, the length in bytes that the
  truncation computes is the length of the text's UTF-8 form, both with the runtime's \<open>Buffer\<close> and with
  the fallback that skips an ASCII prefix and scans the code units.\<close>

theorem utf8ByteLength_correct: "utf8ByteLength node content = length (text_encode content)"
  by (rule byte_length_correct)

lemma head_from_empty:
  assumes "head_lines node maxLines maxBytes [] 0 lines = (out, n, limit)" and "0 \<le> maxLines" and "0 \<le> maxBytes"
  shows "length out \<le> length lines \<and> out = take (length out) lines \<and> int (text_bytes (join_newline out)) \<le> maxBytes
    \<and> int (length out) \<le> maxLines
    \<and> (length out < length lines \<longrightarrow>
         int (length out) = maxLines \<or> int (text_bytes (join_newline (take (Suc (length out)) lines))) > maxBytes)"
proof -
  have "\<exists>k\<le>length lines. out = [] @ take k lines \<and> n = text_bytes (join_newline out) \<and> int n \<le> maxBytes
    \<and> int (length out) \<le> maxLines
    \<and> (k < length lines \<longrightarrow> int (length out) = maxLines \<or> int (text_bytes (join_newline (out @ [lines ! k]))) > maxBytes)"
    by (rule head_lines_spec [OF assms(1)]) (use assms(2,3) in simp_all)
  then obtain k where k: "k \<le> length lines" "out = take k lines" "n = text_bytes (join_newline out)" "int n \<le> maxBytes"
    "int (length out) \<le> maxLines"
    "k < length lines \<longrightarrow> int (length out) = maxLines \<or> int (text_bytes (join_newline (out @ [lines ! k]))) > maxBytes"
    by (elim exE conjE) (rule that, simp_all)
  then have "length out = k"
    by simp
  then show ?thesis
    using k by (auto simp: take_Suc_conv_app_nth)
qed

text \<open>Keeping the head. With limits that are not negative, \<open>truncateHead\<close> returns a prefix of the
  text within both limits, reports its size, and changes nothing when it reports no truncation; otherwise
  it keeps exactly the first \<open>outputLines\<close> complete lines, and not one more: either the line limit is
  reached or the next line would exceed the byte limit.\<close>

theorem truncateHead_correct:
  assumes "0 \<le> maxLines" and "0 \<le> maxBytes"
  shows "\<exists>r rest. truncateHead node content \<lparr>to_maxLines = Some maxLines, to_maxBytes = Some maxBytes\<rparr> = Ok r
    \<and> content = tr_text r @ rest
    \<and> tr_outputBytes r = length (text_encode (tr_text r)) \<and> int (tr_outputBytes r) \<le> maxBytes
    \<and> int (tr_outputLines r) \<le> maxLines
    \<and> (if tr_truncated r
       then tr_outputLines r \<le> length (splitLinesForCounting content)
         \<and> tr_text r = join_newline (take (tr_outputLines r) (splitLinesForCounting content))
         \<and> (tr_outputLines r < length (splitLinesForCounting content) \<longrightarrow>
              int (tr_outputLines r) = maxLines
              \<or> int (length (text_encode (join_newline (take (Suc (tr_outputLines r)) (splitLinesForCounting content)))))
                  > maxBytes)
       else tr_text r = content)"
proof -
  let ?lines = "splitLinesForCounting content"
  let ?opts = "\<lparr>to_maxLines = Some maxLines, to_maxBytes = Some maxBytes\<rparr>"
  have prefix: "\<exists>rest. content = join_newline (take k ?lines) @ rest" for k
    using counted_lines [of content] join_take_prefix [of ?lines k] by (metis append.assoc)
  show ?thesis
  proof (cases "int (length ?lines) \<le> maxLines \<and> int (text_bytes content) \<le> maxBytes")
    case True
    then show ?thesis
      by (simp add: truncateHead_def Let_def byte_length_correct untruncated_def)
  next
    case False
    show ?thesis
    proof (cases ?lines)
      case Nil
      then have "content = []"
        by (auto simp: splitLinesForCounting_def split: if_splits)
          (metis append_butlast_last_id append_self_conv2 join_newline.simps(2) join_split last.simps last_ConsR
            split_newline_last split_newline_not_Nil)
      then show ?thesis
        using False Nil assms by simp
    next
      case (Cons first others)
      obtain out n limit where loop: "head_lines node maxLines maxBytes [] 0 ?lines = (out, n, limit)"
        by (metis prod_cases3)
      note spec = head_from_empty [OF loop assms]
      show ?thesis
      proof (cases "int (text_bytes first) > maxBytes")
        case True
        then show ?thesis
          using False Cons assms by (auto simp: truncateHead_def Let_def byte_length_correct)
      next
        case fits: False
        obtain rest where "content = join_newline out @ rest"
          using prefix [of "length out"] spec by auto
        moreover let ?r = "\<lparr>tr_text = join_newline out, tr_truncated = True,
            tr_truncatedBy = Some (if int (length out) \<ge> maxLines \<and> int n \<le> maxBytes then ByLines else limit),
            tr_totalLines = length ?lines, tr_totalBytes = text_bytes content, tr_outputLines = length out,
            tr_outputBytes = text_bytes (join_newline out), tr_lastLinePartial = False, tr_firstLineExceedsLimit = False,
            tr_maxLines = maxLines, tr_maxBytes = maxBytes\<rparr>"
        have "truncateHead node content ?opts = Ok ?r"
          using False Cons fits loop [unfolded Cons]
          by (auto simp add: truncateHead_def Let_def byte_length_correct simp del: head_lines.simps)
        ultimately show ?thesis
          using spec by (intro exI [of _ ?r] exI [of _ rest]) simp
      qed
    qed
  qed
qed

theorem truncateHead_correct_witness:
  "\<exists>r rest. truncateHead True (ascii_text ''ab'' @ newline # ascii_text ''cd'')
       \<lparr>to_maxLines = Some 1, to_maxBytes = Some 100\<rparr> = Ok r
     \<and> ascii_text ''ab'' @ newline # ascii_text ''cd'' = tr_text r @ rest \<and> int (tr_outputLines r) \<le> 1"
  using truncateHead_correct [of 1 100 True "ascii_text ''ab'' @ newline # ascii_text ''cd''"] by auto

section \<open>Repairing surrogates\<close>

lemma replacement_unit_facts [simp]:
  "\<not> is_high_surrogate replacement_unit" "\<not> is_low_surrogate replacement_unit" "unat replacement_unit = replacement_character"
  by (simp_all add: is_high_surrogate_def is_low_surrogate_def replacement_unit_def replacement_character_def)

lemma well_formed_Cons:
  "\<not> is_high_surrogate u \<Longrightarrow> \<not> is_low_surrogate u \<Longrightarrow> well_formed_text (u # us) \<longleftrightarrow> well_formed_text us"
  by (cases us) auto

lemma well_formed_pair:
  "is_high_surrogate u \<Longrightarrow> is_low_surrogate v \<Longrightarrow> well_formed_text (u # v # us) \<longleftrightarrow> well_formed_text us"
  by simp

lemma code_points_Cons:
  assumes "\<not> (is_high_surrogate u \<and> (\<exists>v vs. us = v # vs \<and> is_low_surrogate v))"
  shows "code_points (u # us) =
    (if is_high_surrogate u \<or> is_low_surrogate u then replacement_character else unat u) # code_points us"
  using assms by (cases us) auto

lemma replaceUnpaired_correct:
  "well_formed_text (replaceUnpairedSurrogates s) \<and> code_points (replaceUnpairedSurrogates s) = code_points s"
proof (induction "length s" arbitrary: s rule: less_induct)
  case less
  show ?case
  proof (cases s)
    case Nil
    then show ?thesis by simp
  next
    case s: (Cons u us)
    show ?thesis
    proof (cases "is_high_surrogate u \<and> (\<exists>v vs. us = v # vs \<and> is_low_surrogate v)")
      case True
      then obtain v vs where us: "us = v # vs" and pair: "is_high_surrogate u" "is_low_surrogate v"
        by blast
      then show ?thesis
        using less.hyps [of vs] s by simp
    next
      case False
      have "replaceUnpairedSurrogates (u # us) =
        (if is_high_surrogate u \<or> is_low_surrogate u then replacement_unit else u) # replaceUnpairedSurrogates us"
        using False by (cases us) auto
      then show ?thesis
        using less.hyps [of us] s code_points_Cons [OF False]
        by (auto simp: well_formed_Cons code_points_Cons simp del: replaceUnpairedSurrogates.simps)
    qed
  qed
qed

lemma text_encode_replaceUnpaired: "text_encode (replaceUnpairedSurrogates s) = text_encode s"
  by (simp add: text_encode_def replaceUnpaired_correct)

text \<open>A cut that does not separate a surrogate pair.\<close>

definition clean_cut :: "js_string \<Rightarrow> js_string \<Rightarrow> bool" where
  "clean_cut xs ys \<longleftrightarrow> xs = [] \<or> ys = [] \<or> \<not> (is_high_surrogate (last xs) \<and> is_low_surrogate (hd ys))"

lemma code_points_append:
  assumes "clean_cut xs ys"
  shows "code_points (xs @ ys) = code_points xs @ code_points ys"
  using assms
proof (induction xs rule: code_points.induct)
  case 1
  then show ?case by simp
next
  case (2 u)
  then show ?case
    by (cases ys) (auto simp: clean_cut_def)
next
  case (3 u v us)
  show ?case
  proof (cases "is_high_surrogate u \<and> is_low_surrogate v")
    case True
    have "us = [] \<longrightarrow> \<not> is_high_surrogate v"
      using True by (auto simp: is_high_surrogate_def is_low_surrogate_def)
    then have "clean_cut us ys"
      using 3(3) by (auto simp: clean_cut_def split: if_splits)
    then show ?thesis
      using 3(1) True by simp
  next
    case False
    then have "clean_cut (v # us) ys"
      using 3(3) by (simp add: clean_cut_def)
    then show ?thesis
      using 3(2) False by auto
  qed
qed

lemma text_encode_append: "clean_cut xs ys \<Longrightarrow> text_encode (xs @ ys) = text_encode xs @ text_encode ys"
  by (simp add: text_encode_def code_points_append)

section \<open>The end of one line\<close>

lemma take_end_spec:
  assumes "take_end maxBytes n kept unpaired revs = (out, unpaired')"
    and "n = text_bytes kept" and "int n \<le> maxBytes" and "clean_cut (rev revs) kept"
    and "\<not> unpaired \<longrightarrow> well_formed_text kept"
  shows "\<exists>pre. rev revs @ kept = pre @ out \<and> clean_cut pre out \<and> int (text_bytes out) \<le> maxBytes
    \<and> (\<not> unpaired' \<longrightarrow> well_formed_text out) \<and> (pre \<noteq> [] \<longrightarrow> maxBytes < int (text_bytes out) + 4)"
  using assms
proof (induction "length revs" arbitrary: n kept unpaired revs rule: less_induct)
  case less
  show ?case
  proof (cases revs)
    case Nil
    then show ?thesis
      using less.prems by auto
  next
    case revs: (Cons u ws)
    show ?thesis
    proof (cases "is_low_surrogate u \<and> (\<exists>v vs. ws = v # vs \<and> is_high_surrogate v)")
      case True
      then obtain v vs where ws: "ws = v # vs" and pair: "is_high_surrogate v" "is_low_surrogate u"
        by blast
      have bytes: "text_bytes (v # u # kept) = n + 4"
        using length_text_encode_pair [OF pair, of kept] less.prems(2) by simp
      show ?thesis
      proof (cases "int (n + 4) > maxBytes")
        case True
        then have "out = kept" "unpaired' = unpaired"
          using less.prems(1) pair revs ws by simp_all
        then show ?thesis
          using less.prems True by (intro exI [of _ "rev revs"]) auto
      next
        case False
        have step: "take_end maxBytes (n + 4) (v # u # kept) unpaired vs = (out, unpaired')"
          using less.prems(1) pair revs ws False by simp
        have "\<exists>pre. rev vs @ v # u # kept = pre @ out \<and> clean_cut pre out \<and> int (text_bytes out) \<le> maxBytes
            \<and> (\<not> unpaired' \<longrightarrow> well_formed_text out) \<and> (pre \<noteq> [] \<longrightarrow> maxBytes < int (text_bytes out) + 4)"
          by (rule less.hyps [OF _ step])
            (use revs ws bytes False pair less.prems(5) in \<open>auto simp: clean_cut_def\<close>)
        then show ?thesis
          by (simp add: revs ws)
      qed
    next
      case single: False
      let ?b = "unit_bytes u"
      let ?f = "unpaired \<or> is_high_surrogate u \<or> is_low_surrogate u"
      have b4: "?b \<le> 4"
        by (simp add: unit_bytes_def character_bytes_def)
      have "\<not> (is_high_surrogate u \<and> (\<exists>v vs. kept = v # vs \<and> is_low_surrogate v))"
        using less.prems(4) by (auto simp: clean_cut_def revs)
      then have bytes: "text_bytes (u # kept) = n + ?b"
        using length_text_encode_single [of u kept] less.prems(2) by simp
      have cut: "clean_cut (rev ws) (u # kept)"
        using single by (cases ws) (auto simp: clean_cut_def)
      have wf: "\<not> ?f \<longrightarrow> well_formed_text (u # kept)"
        using less.prems(5) by (auto simp: well_formed_Cons)
      have loop: "take_end maxBytes n kept unpaired (u # ws) =
        (if int (n + ?b) > maxBytes then (kept, unpaired) else take_end maxBytes (n + ?b) (u # kept) ?f ws)"
        using single high_not_low [of u]
        by (subst take_end.simps(2)) (cases ws; auto simp: unit_bytes_def simp del: take_end.simps)
      show ?thesis
      proof (cases "int (n + ?b) > maxBytes")
        case True
        then have "out = kept" "unpaired' = unpaired"
          using less.prems(1) loop revs by (simp_all del: take_end.simps)
        then show ?thesis
          using less.prems True b4 by (intro exI [of _ "rev revs"]) auto
      next
        case False
        have step: "take_end maxBytes (n + ?b) (u # kept) ?f ws = (out, unpaired')"
          using less.prems(1) loop revs False by (simp del: take_end.simps)
        have "\<exists>pre. rev ws @ u # kept = pre @ out \<and> clean_cut pre out \<and> int (text_bytes out) \<le> maxBytes
            \<and> (\<not> unpaired' \<longrightarrow> well_formed_text out) \<and> (pre \<noteq> [] \<longrightarrow> maxBytes < int (text_bytes out) + 4)"
          by (rule less.hyps [OF _ step]) (use revs bytes False cut wf in simp_all)
        then show ?thesis
          by (simp add: revs)
      qed
    qed
  qed
qed

text \<open>
  The end of a line: well-formed text whose bytes are the last bytes of the line, within the
  limit, and too close to it for another character.
\<close>

lemma truncate_end_spec:
  assumes "0 \<le> maxBytes" and "maxBytes < int (text_bytes line)"
  shows "well_formed_text (truncateStringToBytesFromEnd line maxBytes)
    \<and> (\<exists>bs. text_encode line = bs @ text_encode (truncateStringToBytesFromEnd line maxBytes))
    \<and> int (text_bytes (truncateStringToBytesFromEnd line maxBytes)) \<le> maxBytes
    \<and> maxBytes < int (text_bytes (truncateStringToBytesFromEnd line maxBytes)) + 4"
proof (cases "maxBytes = 0")
  case True
  then show ?thesis
    by (simp add: truncateStringToBytesFromEnd_def)
next
  case False
  obtain out unpaired where loop: "take_end maxBytes 0 [] False (rev line) = (out, unpaired)"
    by (cases "take_end maxBytes 0 [] False (rev line)")
  have "\<exists>pre. rev (rev line) @ [] = pre @ out \<and> clean_cut pre out \<and> int (text_bytes out) \<le> maxBytes
      \<and> (\<not> unpaired \<longrightarrow> well_formed_text out) \<and> (pre \<noteq> [] \<longrightarrow> maxBytes < int (text_bytes out) + 4)"
    by (rule take_end_spec [OF loop]) (use assms in \<open>simp_all add: clean_cut_def\<close>)
  then obtain pre where pre: "line = pre @ out" "clean_cut pre out" "int (text_bytes out) \<le> maxBytes"
    "\<not> unpaired \<longrightarrow> well_formed_text out" "pre \<noteq> [] \<longrightarrow> maxBytes < int (text_bytes out) + 4"
    by auto
  have result: "truncateStringToBytesFromEnd line maxBytes = (if unpaired then replaceUnpairedSurrogates out else out)"
    using False assms(1) loop by (simp add: truncateStringToBytesFromEnd_def)
  have encode: "text_encode (truncateStringToBytesFromEnd line maxBytes) = text_encode out"
    by (simp add: result text_encode_replaceUnpaired)
  have "pre \<noteq> []"
    using pre(1,3) assms(2) by auto
  moreover have "well_formed_text (truncateStringToBytesFromEnd line maxBytes)"
    using pre(4) by (simp add: result replaceUnpaired_correct)
  ultimately show ?thesis
    unfolding encode using pre(1,3,5) text_encode_append [OF pre(2)] by auto
qed

section \<open>The tail\<close>

lemma tail_lines_spec:
  assumes "tail_lines node maxLines maxBytes out n rest = (out', n', limit, part)"
    and "n = text_bytes (join_newline out)" and "int n \<le> maxBytes" and "int (length out) \<le> maxLines"
  shows "if part then out = [] \<and> rest \<noteq> [] \<and> maxBytes < int (text_bytes (hd rest)) \<and> 1 \<le> maxLines
       \<and> out' = [truncateStringToBytesFromEnd (hd rest) maxBytes]
     else \<exists>k\<le>length rest. out' = rev (take k rest) @ out \<and> int (text_bytes (join_newline out')) \<le> maxBytes
       \<and> int (length out') \<le> maxLines
       \<and> (k < length rest \<longrightarrow> int (length out') = maxLines \<or> int (text_bytes (join_newline (rest ! k # out'))) > maxBytes)"
  using assms
proof (induction rest arbitrary: out n)
  case Nil
  then show ?case by auto
next
  case (Cons line rest)
  let ?lb = "text_bytes line + (if out = [] then 0 else 1)"
  have bytes: "text_bytes (join_newline (line # out)) = n + ?lb"
    using Cons.prems(2) by (simp add: join_Cons_bytes)
  show ?case
  proof (cases "int (length out) < maxLines \<and> int (n + ?lb) \<le> maxBytes")
    case True
    have step: "tail_lines node maxLines maxBytes (line # out) (n + ?lb) rest = (out', n', limit, part)"
      using Cons.prems(1) True by (auto simp: byte_length_correct Let_def split: if_splits)
    note IH = Cons.IH [OF step bytes [symmetric]]
    have "\<not> part"
      using IH True by (auto split: if_splits)
    then have "\<exists>k\<le>length rest. out' = rev (take k rest) @ line # out \<and> int (text_bytes (join_newline out')) \<le> maxBytes
       \<and> int (length out') \<le> maxLines
       \<and> (k < length rest \<longrightarrow> int (length out') = maxLines \<or> int (text_bytes (join_newline (rest ! k # out'))) > maxBytes)"
      using IH True by simp
    then obtain k where "k \<le> length rest" "out' = rev (take k rest) @ line # out" "int (text_bytes (join_newline out')) \<le> maxBytes"
      "int (length out') \<le> maxLines"
      "k < length rest \<longrightarrow> int (length out') = maxLines \<or> int (text_bytes (join_newline (rest ! k # out'))) > maxBytes"
      by (elim exE conjE) (rule that)
    then show ?thesis
      using \<open>\<not> part\<close> by (auto intro!: exI [of _ "Suc k"])
  next
    case False
    then show ?thesis
      using Cons.prems bytes
      by (auto simp: byte_length_correct Let_def intro!: exI [of _ 0] split: if_splits)
  qed
qed

lemma tail_untruncated:
  assumes "int (length (splitLinesForCounting content)) \<le> maxLines" and "int (text_bytes content) \<le> maxBytes"
  shows "truncateTail node content \<lparr>to_maxLines = Some maxLines, to_maxBytes = Some maxBytes\<rparr> =
    untruncated content (length (splitLinesForCounting content)) (text_bytes content) maxLines maxBytes"
  using assms by (simp add: truncateTail_def Let_def byte_length_correct)

lemma tail_truncated:
  assumes "\<not> (int (length (splitLinesForCounting content)) \<le> maxLines \<and> int (text_bytes content) \<le> maxBytes)"
    and "tail_lines node maxLines maxBytes [] 0 (rev (splitLinesForCounting content)) = (out, n, limit, part)"
    and "r = truncateTail node content \<lparr>to_maxLines = Some maxLines, to_maxBytes = Some maxBytes\<rparr>"
  shows "tr_text r = join_newline out" "tr_truncated r" "tr_outputLines r = length out"
    "tr_outputBytes r = text_bytes (join_newline out)" "tr_lastLinePartial r = part"
    "tr_truncatedBy r = Some (if int (length out) \<ge> maxLines \<and> int n \<le> maxBytes then ByLines else limit)"
  using assms by (auto simp: truncateTail_def Let_def byte_length_correct)



section \<open>The reported limit\<close>

text \<open>
  The reported limit is not always the one that was hit. A last line cut at the byte limit under
  a limit of one line is reported as cut by the line limit, and so is a text whose only excess
  over the byte limit is its final newline.
\<close>

lemma tail_limit_misreported:
  "tr_truncatedBy (truncateTail True (ascii_text ''abc'') \<lparr>to_maxLines = Some 1, to_maxBytes = Some 2\<rparr>) = Some ByLines"
  by (simp add: truncateTail_def ascii_text_def splitLinesForCounting_def newline_def to_unit_def
      truncateStringToBytesFromEnd_def character_bytes_def is_low_surrogate_def is_high_surrogate_def utf8ByteLength_def
      text_encode_def utf8_bytes_def Let_def)

lemma head_limit_misreported:
  "\<exists>r. truncateHead True (ascii_text ''ab'' @ [newline]) \<lparr>to_maxLines = Some 9, to_maxBytes = Some 2\<rparr> = Ok r
     \<and> tr_truncatedBy r = Some ByLines \<and> tr_totalLines r = 1"
  by (simp add: truncateHead_def ascii_text_def splitLinesForCounting_def newline_def to_unit_def
      is_low_surrogate_def is_high_surrogate_def utf8ByteLength_def text_encode_def utf8_bytes_def Let_def)

end
