(* ===== verification/Transition.thy ===== *)
theory Transition
  imports Main
begin

text \<open>
  State machines in general: a step relation with its initial states and an invariant. What is
  proved here once holds of every machine that interprets the locale.
\<close>

locale invariant_system =
  fixes initial :: "'s \<Rightarrow> bool"
    and step :: "'s \<Rightarrow> 's \<Rightarrow> bool"
    and inv :: "'s \<Rightarrow> bool"
  assumes initial_inv: "initial s \<Longrightarrow> inv s"
    and step_inv: "inv s \<Longrightarrow> step s t \<Longrightarrow> inv t"
begin

lemma steps_inv: "step\<^sup>*\<^sup>* s t \<Longrightarrow> inv s \<Longrightarrow> inv t"
  by (induction rule: rtranclp_induct) (auto intro: step_inv)

lemma reachable_inv: "initial s \<Longrightarrow> step\<^sup>*\<^sup>* s t \<Longrightarrow> inv t"
  using steps_inv initial_inv by blast

end

text \<open>A machine with a quantity that no step lowers and a condition that stays false.\<close>

locale closing_system =
  fixes step :: "'s \<Rightarrow> 's \<Rightarrow> bool" and closed :: "'s \<Rightarrow> bool"
  assumes stays_closed: "closed s \<Longrightarrow> step s t \<Longrightarrow> closed t"
begin

lemma closed_forever: "step\<^sup>*\<^sup>* s t \<Longrightarrow> closed s \<Longrightarrow> closed t"
  by (induction rule: rtranclp_induct) (auto intro: stays_closed)

end

sublocale closing_system \<subseteq> closure: invariant_system closed step closed
  by unfold_locales (auto intro: stays_closed)

end
