(* ===== verification/ResourceScheduler.thy ===== *)
theory ResourceScheduler
  imports Prelude Transition "HOL-Library.AList"
begin

text \<open>
  The bounded scheduler for tool execution (\<open>packages/agent/src/resource-scheduler.ts\<close>). A
  lease and a waiter are identified by numbers, in the order in which they are created; the
  closure of a lease over its request and its \<open>released\<close> flag is an entry of \<open>rs_leases\<close>. An
  \<open>AbortSignal\<close> is a number too, and \<open>rs_aborted\<close> are the signals that have been aborted.
  What a promise resolves to is an event: \<open>Resolved w l\<close> for the waiter \<open>w\<close>.
\<close>

datatype access_mode = Shared | Exclusive

record resource_request =
  rq_key :: "string option"
  rq_mode :: "access_mode option"

record lease =
  ls_request :: resource_request
  ls_released :: bool

record waiter =
  wt_id :: nat
  wt_request :: resource_request
  wt_signal :: "nat option"

record scheduler =
  rs_maxConcurrency :: int
  rs_activeCount :: int
  rs_activeKeys :: "(string \<times> access_mode list) list"
  rs_waiters :: "waiter list"
  rs_leases :: "lease list"
  rs_nextWaiter :: nat
  rs_aborted :: "nat list"

datatype acquire_result = Granted "nat option" | Waiting nat
datatype scheduler_event = Resolved nat "nat option"

datatype scheduler_error = BadConcurrency

definition new_scheduler :: "int \<Rightarrow> scheduler_error + scheduler" where
  "new_scheduler maxConcurrency =
     (if maxConcurrency < 1 then Err BadConcurrency
      else Ok \<lparr>rs_maxConcurrency = maxConcurrency, rs_activeCount = 0, rs_activeKeys = [], rs_waiters = [],
             rs_leases = [], rs_nextWaiter = 0, rs_aborted = []\<rparr>)"

definition pendingCount :: "scheduler \<Rightarrow> nat" where
  "pendingCount s = length (rs_waiters s)"

definition runningCount :: "scheduler \<Rightarrow> int" where
  "runningCount s = rs_activeCount s"

text \<open>The key of a request as a condition reads it: an empty key is no key.\<close>

definition request_key :: "resource_request \<Rightarrow> string option" where
  "request_key r = (case rq_key r of None \<Rightarrow> None | Some k \<Rightarrow> if k = '''' then None else Some k)"

definition request_mode :: "resource_request \<Rightarrow> access_mode" where
  "request_mode r = (case rq_mode r of None \<Rightarrow> Exclusive | Some m \<Rightarrow> m)"

definition active_modes :: "scheduler \<Rightarrow> string \<Rightarrow> access_mode list" where
  "active_modes s k = (case map_of (rs_activeKeys s) k of None \<Rightarrow> [] | Some ms \<Rightarrow> ms)"

definition canStart :: "scheduler \<Rightarrow> resource_request \<Rightarrow> bool" where
  "canStart s r =
     (if rs_activeCount s \<ge> rs_maxConcurrency s then False
      else case request_key r of
        None \<Rightarrow> True
      | Some k \<Rightarrow>
          if active_modes s k = [] then True
          else request_mode r = Shared \<and> list_all (\<lambda>m. m = Shared) (active_modes s k))"

definition start :: "scheduler \<Rightarrow> resource_request \<Rightarrow> scheduler \<times> nat" where
  "start s r =
     (s\<lparr>rs_activeCount := rs_activeCount s + 1,
        rs_activeKeys := (case request_key r of
            None \<Rightarrow> rs_activeKeys s
          | Some k \<Rightarrow> AList.update k (active_modes s k @ [request_mode r]) (rs_activeKeys s)),
        rs_leases := rs_leases s @ [\<lparr>ls_request = r, ls_released = False\<rparr>]\<rparr>,
      length (rs_leases s))"

definition is_aborted :: "scheduler \<Rightarrow> nat option \<Rightarrow> bool" where
  "is_aborted s sig = (case sig of None \<Rightarrow> False | Some n \<Rightarrow> n \<in> set (rs_aborted s))"

definition acquire :: "scheduler \<Rightarrow> resource_request \<Rightarrow> nat option \<Rightarrow> scheduler \<times> acquire_result" where
  "acquire s r sig =
     (if is_aborted s sig then (s, Granted None)
      else if canStart s r then (case start s r of (s', l) \<Rightarrow> (s', Granted (Some l)))
      else (s\<lparr>rs_waiters := rs_waiters s @ [\<lparr>wt_id = rs_nextWaiter s, wt_request = r, wt_signal = sig\<rparr>],
              rs_nextWaiter := rs_nextWaiter s + 1\<rparr>, Waiting (rs_nextWaiter s)))"

text \<open>
  The loop of \<open>schedule\<close>: the waiters before \<open>index\<close>, which stay, and those from \<open>index\<close> on.
\<close>

fun schedule_from :: "scheduler \<Rightarrow> waiter list \<Rightarrow> waiter list \<Rightarrow> scheduler \<times> scheduler_event list" where
  "schedule_from s stay [] = (s\<lparr>rs_waiters := stay\<rparr>, [])"
| "schedule_from s stay (w # ws) =
     (if is_aborted s (wt_signal w)
      then (case schedule_from s stay ws of (s', es) \<Rightarrow> (s', Resolved (wt_id w) None # es))
      else if \<not> canStart s (wt_request w) then schedule_from s (stay @ [w]) ws
      else (case start s (wt_request w) of (s1, l) \<Rightarrow>
            case schedule_from s1 stay ws of (s', es) \<Rightarrow> (s', Resolved (wt_id w) (Some l) # es)))"

definition schedule :: "scheduler \<Rightarrow> scheduler \<times> scheduler_event list" where
  "schedule s = schedule_from s [] (rs_waiters s)"

definition leave_key :: "string \<Rightarrow> scheduler \<Rightarrow> (string \<times> access_mode list) list" where
  "leave_key k s =
     (let modes = butlast (active_modes s k)
      in if modes = [] then AList.delete k (rs_activeKeys s) else AList.update k modes (rs_activeKeys s))"

text \<open>\<open>release\<close> of a lease; a lease that does not exist cannot be released.\<close>

definition release :: "scheduler \<Rightarrow> nat \<Rightarrow> scheduler \<times> scheduler_event list" where
  "release s l =
     (if l < length (rs_leases s) \<and> \<not> ls_released (rs_leases s ! l)
      then schedule (s\<lparr>rs_leases := (rs_leases s)[l := (rs_leases s ! l)\<lparr>ls_released := True\<rparr>],
             rs_activeCount := rs_activeCount s - 1,
             rs_activeKeys := (case request_key (ls_request (rs_leases s ! l)) of
                 None \<Rightarrow> rs_activeKeys s | Some k \<Rightarrow> leave_key k s)\<rparr>)
      else (s, []))"

text \<open>A signal is aborted: its listeners, those of the waiters that carry it, run in order.\<close>

definition abort_signal :: "scheduler \<Rightarrow> nat \<Rightarrow> scheduler \<times> scheduler_event list" where
  "abort_signal s n =
     (if n \<in> set (rs_aborted s) then (s, [])
      else (s\<lparr>rs_aborted := n # rs_aborted s, rs_waiters := filter (\<lambda>w. wt_signal w \<noteq> Some n) (rs_waiters s)\<rparr>,
            map (\<lambda>w. Resolved (wt_id w) None) (filter (\<lambda>w. wt_signal w = Some n) (rs_waiters s))))"

inductive scheduler_step :: "scheduler \<Rightarrow> scheduler \<Rightarrow> bool" where
  step_acquire: "scheduler_step s (fst (acquire s r sig))"
| step_release: "scheduler_step s (fst (release s l))"
| step_abort: "scheduler_step s (fst (abort_signal s n))"

inductive_cases scheduler_stepE: "scheduler_step s t"

end
