(* ===== verification/ResourceSchedulerCorrect.thy ===== *)
theory ResourceSchedulerCorrect
  imports ResourceScheduler "HOL-Library.Multiset"
begin

text \<open>
  Correctness of the resource scheduler: the slots and the keys it grants, and that no waiter
  that could run is left waiting.
\<close>

section \<open>The leases in use\<close>

definition active :: "scheduler \<Rightarrow> resource_request list" where
  "active s = map ls_request (filter (\<lambda>l. \<not> ls_released l) (rs_leases s))"

definition modes_of :: "string \<Rightarrow> resource_request list \<Rightarrow> access_mode list" where
  "modes_of k rs = map request_mode (filter (\<lambda>r. request_key r = Some k) rs)"

text \<open>Requests that may hold one key together: any number of shared ones or a single one.\<close>

definition compatible :: "access_mode list \<Rightarrow> bool" where
  "compatible ms \<longleftrightarrow> (\<forall>m\<in>set ms. m = Shared) \<or> length ms \<le> 1"

definition keys_inv :: "scheduler \<Rightarrow> bool" where
  "keys_inv s \<longleftrightarrow> (\<forall>k. active_modes s k = modes_of k (active s) \<and> compatible (active_modes s k))"

definition core_inv :: "scheduler \<Rightarrow> bool" where
  "core_inv s \<longleftrightarrow> 1 \<le> rs_maxConcurrency s \<and> rs_activeCount s = int (length (active s))
     \<and> rs_activeCount s \<le> rs_maxConcurrency s \<and> keys_inv s"

definition scheduler_inv :: "scheduler \<Rightarrow> bool" where
  "scheduler_inv s \<longleftrightarrow> core_inv s \<and> (\<forall>w\<in>set (rs_waiters s). \<not> canStart s (wt_request w))"

lemma core_modes: "core_inv s \<Longrightarrow> active_modes s k = modes_of k (active s) \<and> compatible (active_modes s k)"
  unfolding core_inv_def keys_inv_def by blast

lemma modes_of_append: "modes_of k (xs @ ys) = modes_of k xs @ modes_of k ys"
  by (simp add: modes_of_def)

lemma modes_of_single: "modes_of k [r] = (if request_key r = Some k then [request_mode r] else [])"
  by (simp add: modes_of_def)

lemma canStart_waiters [simp]:
  "canStart (s\<lparr>rs_waiters := ws\<rparr>) r = canStart s r" "canStart (s\<lparr>rs_nextWaiter := n\<rparr>) r = canStart s r"
  "canStart (s\<lparr>rs_aborted := a\<rparr>) r = canStart s r"
  by (simp_all add: canStart_def active_modes_def split: option.split)

lemma core_waiters [simp]:
  "core_inv (s\<lparr>rs_waiters := ws\<rparr>) = core_inv s" "core_inv (s\<lparr>rs_nextWaiter := n\<rparr>) = core_inv s"
  "core_inv (s\<lparr>rs_aborted := a\<rparr>) = core_inv s"
  by (simp_all add: core_inv_def keys_inv_def active_modes_def active_def)

section \<open>Starting\<close>

lemma start_active: "active (fst (start s r)) = active s @ [r]"
  by (simp add: start_def active_def)

lemma start_modes:
  "active_modes (fst (start s r)) k = (if request_key r = Some k then active_modes s k @ [request_mode r] else active_modes s k)"
  by (auto simp: start_def active_modes_def update_conv' split: option.splits)

lemma start_fields [simp]:
  "rs_activeCount (fst (start s r)) = rs_activeCount s + 1" "rs_maxConcurrency (fst (start s r)) = rs_maxConcurrency s"
  "rs_waiters (fst (start s r)) = rs_waiters s" "rs_aborted (fst (start s r)) = rs_aborted s"
  by (simp_all add: start_def)

lemma start_blocks:
  assumes "canStart (fst (start s r)) q"
  shows "canStart s q"
  using assms by (auto simp: canStart_def start_modes split: if_splits option.splits)

lemma start_core:
  assumes "core_inv s" and "canStart s r"
  shows "core_inv (fst (start s r))"
proof -
  have room: "rs_activeCount s < rs_maxConcurrency s"
    using assms(2) by (simp add: canStart_def split: if_splits)
  have "active_modes (fst (start s r)) k = modes_of k (active (fst (start s r)))
      \<and> compatible (active_modes (fst (start s r)) k)" for k
  proof -
    have modes: "active_modes s k = modes_of k (active s)" "compatible (active_modes s k)"
      using core_modes [OF assms(1)] by blast+
    show ?thesis
    proof (cases "request_key r = Some k")
      case True
      then have "active_modes s k = [] \<or> request_mode r = Shared \<and> (\<forall>m\<in>set (active_modes s k). m = Shared)"
        using assms(2) by (auto simp: canStart_def list_all_iff split: if_splits)
      then show ?thesis
        using True modes by (auto simp: start_modes start_active modes_of_append modes_of_single compatible_def)
    next
      case False
      then show ?thesis
        using modes by (simp add: start_modes start_active modes_of_append modes_of_single)
    qed
  qed
  then have "keys_inv (fst (start s r))"
    unfolding keys_inv_def by blast
  then show ?thesis
    using assms(1) room by (simp add: core_inv_def start_active)
qed

section \<open>Scheduling\<close>

lemma schedule_from_inv:
  assumes "core_inv s" and "\<forall>w\<in>set stay. \<not> canStart s (wt_request w)"
  shows "scheduler_inv (fst (schedule_from s stay ws))"
  using assms
proof (induction s stay ws rule: schedule_from.induct)
  case (1 s stay)
  then show ?case
    by (simp add: scheduler_inv_def)
next
  case (2 s stay w ws)
  obtain s1 l where start: "start s (wt_request w) = (s1, l)"
    by fastforce
  have s1: "s1 = fst (start s (wt_request w))"
    by (simp add: start)
  consider (aborted) "is_aborted s (wt_signal w)"
    | (blocked) "\<not> is_aborted s (wt_signal w)" "\<not> canStart s (wt_request w)"
    | (started) "\<not> is_aborted s (wt_signal w)" "canStart s (wt_request w)"
    by blast
  then show ?case
  proof cases
    case aborted
    then show ?thesis
      using 2(1) 2(4,5) by (cases "schedule_from s stay ws") simp
  next
    case blocked
    then show ?thesis
      using 2(2) 2(4,5) by simp
  next
    case started
    have "core_inv s1" "\<forall>w\<in>set stay. \<not> canStart s1 (wt_request w)"
      using start_core [OF 2(4) started(2)] start_blocks 2(5) unfolding s1 by blast+
    then show ?thesis
      using 2(3) [OF started(1), simplified, OF started(2) start [symmetric]] started start
      by (cases "schedule_from s1 stay ws") simp
  qed
qed

text \<open>Every waiter stays or is resolved, and is resolved once.\<close>

fun event_waiter :: "scheduler_event \<Rightarrow> nat" where
  "event_waiter (Resolved w l) = w"

lemma schedule_from_waiters:
  "mset (map wt_id stay) + mset (map wt_id ws) =
     mset (map wt_id (rs_waiters (fst (schedule_from s stay ws)))) + mset (map event_waiter (snd (schedule_from s stay ws)))"
proof (induction s stay ws rule: schedule_from.induct)
  case (1 s stay)
  then show ?case by simp
next
  case (2 s stay w ws)
  obtain s1 l where start: "start s (wt_request w) = (s1, l)"
    by fastforce
  consider (aborted) "is_aborted s (wt_signal w)"
    | (blocked) "\<not> is_aborted s (wt_signal w)" "\<not> canStart s (wt_request w)"
    | (started) "\<not> is_aborted s (wt_signal w)" "canStart s (wt_request w)"
    by blast
  then show ?case
  proof cases
    case aborted
    then show ?thesis
      using 2(1) by (cases "schedule_from s stay ws") simp
  next
    case blocked
    then show ?thesis
      using 2(2) by simp
  next
    case started
    then show ?thesis
      using 2(3) [OF started(1), simplified, OF started(2) start [symmetric]] start
      by (cases "schedule_from s1 stay ws") simp
  qed
qed

section \<open>Releasing\<close>

lemma compatible_remove:
  assumes "compatible (xs @ m # ys)"
  shows "xs @ ys = butlast (xs @ m # ys)"
proof (cases "\<forall>m\<in>set (xs @ m # ys). m = Shared")
  case True
  have "xs @ ys = replicate (length xs + length ys) Shared"
    using True by (intro replicate_eqI) auto
  moreover have "butlast (xs @ m # ys) = replicate (length xs + length ys) Shared"
    using True in_set_butlastD [of _ "xs @ m # ys"] by (intro replicate_eqI) fastforce+
  ultimately show ?thesis
    by simp
next
  case False
  then have "xs = []" "ys = []"
    using assms by (auto simp: compatible_def)
  then show ?thesis
    by simp
qed

lemma compatible_butlast: "compatible ms \<Longrightarrow> compatible (butlast ms)"
  by (auto simp: compatible_def dest: in_set_butlastD)

definition released :: "scheduler \<Rightarrow> nat \<Rightarrow> scheduler" where
  "released s l = s\<lparr>rs_leases := (rs_leases s)[l := (rs_leases s ! l)\<lparr>ls_released := True\<rparr>],
     rs_activeCount := rs_activeCount s - 1,
     rs_activeKeys := (case request_key (ls_request (rs_leases s ! l)) of
         None \<Rightarrow> rs_activeKeys s | Some k \<Rightarrow> leave_key k s)\<rparr>"

lemma released_modes:
  "active_modes (released s l) k =
     (if request_key (ls_request (rs_leases s ! l)) = Some k then butlast (active_modes s k) else active_modes s k)"
  by (auto simp: released_def active_modes_def leave_key_def Let_def update_conv' delete_conv' split: option.splits if_splits)

lemma released_active:
  assumes "l < length (rs_leases s)" and "\<not> ls_released (rs_leases s ! l)"
  obtains xs ys where "active s = xs @ ls_request (rs_leases s ! l) # ys" "active (released s l) = xs @ ys"
proof
  let ?on = "\<lambda>ls. map ls_request (filter (\<lambda>l. \<not> ls_released l) ls)"
  have "?on (rs_leases s) = ?on (take l (rs_leases s) @ rs_leases s ! l # drop (Suc l) (rs_leases s))"
    using assms(1) by (simp add: id_take_nth_drop [symmetric])
  then show "active s = ?on (take l (rs_leases s)) @ ls_request (rs_leases s ! l) # ?on (drop (Suc l) (rs_leases s))"
    using assms(2) by (simp add: active_def)
  show "active (released s l) = ?on (take l (rs_leases s)) @ ?on (drop (Suc l) (rs_leases s))"
    using assms(1) by (simp add: active_def released_def upd_conv_take_nth_drop)
qed

lemma released_core:
  assumes "core_inv s" and "l < length (rs_leases s)" and "\<not> ls_released (rs_leases s ! l)"
  shows "core_inv (released s l)"
proof -
  let ?r = "ls_request (rs_leases s ! l)"
  obtain xs ys where act: "active s = xs @ ?r # ys" "active (released s l) = xs @ ys"
    using released_active [OF assms(2,3)] .
  have "active_modes (released s l) k = modes_of k (active (released s l)) \<and> compatible (active_modes (released s l) k)" for k
  proof -
    have modes: "active_modes s k = modes_of k xs @ modes_of k [?r] @ modes_of k ys" "compatible (active_modes s k)"
      using core_modes [OF assms(1), of k] act(1) modes_of_append [of k xs "[?r] @ ys"] modes_of_append [of k "[?r]" ys]
      by auto
    show ?thesis
    proof (cases "request_key ?r = Some k")
      case True
      then show ?thesis
        using modes compatible_remove [of "modes_of k xs" "request_mode ?r" "modes_of k ys"] compatible_butlast
        by (simp add: released_modes act(2) modes_of_append modes_of_single)
    next
      case False
      then show ?thesis
        using modes by (simp add: released_modes act(2) modes_of_append modes_of_single)
    qed
  qed
  then have "keys_inv (released s l)"
    unfolding keys_inv_def by blast
  moreover have "rs_activeCount (released s l) = rs_activeCount s - 1" "rs_maxConcurrency (released s l) = rs_maxConcurrency s"
    by (simp_all add: released_def)
  ultimately show ?thesis
    using assms(1) act by (simp add: core_inv_def)
qed

lemma release_unfold:
  "release s l = (if l < length (rs_leases s) \<and> \<not> ls_released (rs_leases s ! l) then schedule (released s l) else (s, []))"
  by (simp add: release_def released_def)

section \<open>Every step keeps the invariant\<close>

lemma acquire_inv:
  assumes "scheduler_inv s"
  shows "scheduler_inv (fst (acquire s r sig))"
proof (cases "is_aborted s sig")
  case True
  then show ?thesis
    using assms by (simp add: acquire_def)
next
  case running: False
  show ?thesis
  proof (cases "canStart s r")
    case True
    then have "fst (acquire s r sig) = fst (start s r)"
      using running by (simp add: acquire_def split: prod.splits)
    then show ?thesis
      using assms start_core [OF _ True] start_blocks [of s r] by (auto simp: scheduler_inv_def)
  next
    case False
    then show ?thesis
      using assms running by (auto simp: acquire_def scheduler_inv_def)
  qed
qed

lemma release_inv:
  assumes "scheduler_inv s"
  shows "scheduler_inv (fst (release s l))"
  using assms released_core [of s l] schedule_from_inv [of "released s l" "[]"]
  by (auto simp: release_unfold schedule_def scheduler_inv_def)

lemma abort_inv:
  assumes "scheduler_inv s"
  shows "scheduler_inv (fst (abort_signal s n))"
  using assms by (auto simp: abort_signal_def scheduler_inv_def)

interpretation scheduling: invariant_system "\<lambda>s. \<exists>n. new_scheduler n = Ok s" scheduler_step scheduler_inv
proof
  fix s
  assume "\<exists>n. new_scheduler n = Ok s"
  then show "scheduler_inv s"
    by (auto simp: new_scheduler_def scheduler_inv_def core_inv_def keys_inv_def active_def active_modes_def modes_of_def compatible_def
        split: if_splits)
next
  fix s t
  assume "scheduler_inv s" and "scheduler_step s t"
  then show "scheduler_inv t"
    by (auto elim!: scheduler_stepE intro: acquire_inv release_inv abort_inv)
qed

text \<open>C8: Mutual exclusion and the bound. Whatever calls to acquire, releases of leases and aborted
  signals happen on a new scheduler, at most \<open>maxConcurrency\<close> leases are in use and the counter says how
  many, and the leases in use on one key are either all shared or a single one.\<close>

theorem scheduler_exclusion:
  assumes "new_scheduler n = Ok s\<^sub>0" and "scheduler_step\<^sup>*\<^sup>* s\<^sub>0 s"
  shows "runningCount s = int (length (active s)) \<and> runningCount s \<le> rs_maxConcurrency s
    \<and> (\<forall>k. compatible (modes_of k (active s)))"
proof -
  have "core_inv s"
    using scheduling.reachable_inv [of s\<^sub>0 s] assms by (auto simp: scheduler_inv_def)
  moreover have "compatible (modes_of k (active s))" for k
    using core_modes [OF calculation, of k] by metis
  ultimately show ?thesis
    by (simp add: core_inv_def runningCount_def)
qed

definition sample_shared :: resource_request where
  "sample_shared = \<lparr>rq_key = Some ''file'', rq_mode = Some Shared\<rparr>"

definition sample_exclusive :: resource_request where
  "sample_exclusive = \<lparr>rq_key = Some ''file'', rq_mode = None\<rparr>"

definition sample_scheduler :: scheduler where
  "sample_scheduler = \<lparr>rs_maxConcurrency = 2, rs_activeCount = 0, rs_activeKeys = [], rs_waiters = [], rs_leases = [],
     rs_nextWaiter = 0, rs_aborted = []\<rparr>"

lemma sample_scheduler_new: "new_scheduler 2 = Ok sample_scheduler"
  by (simp add: new_scheduler_def sample_scheduler_def)

definition sample_contended :: scheduler where
  "sample_contended = fst (acquire (fst (acquire sample_scheduler sample_shared None)) sample_exclusive None)"

lemma sample_contended_reachable: "scheduler_step\<^sup>*\<^sup>* sample_scheduler sample_contended"
  unfolding sample_contended_def by (rule rtranclp.rtrancl_into_rtrancl [OF r_into_rtranclp]; rule step_acquire)

theorem scheduler_exclusion_witness:
  "runningCount sample_contended = 1 \<and> compatible (modes_of ''file'' (active sample_contended))"
  using scheduler_exclusion [OF sample_scheduler_new sample_contended_reachable]
  by (simp add: sample_contended_def sample_scheduler_def sample_shared_def sample_exclusive_def acquire_def canStart_def
      is_aborted_def start_def active_modes_def request_key_def request_mode_def active_def)

text \<open>C25: No lost wake-up. In every reachable state no waiting request could start, so whenever a
  request waits some lease is in use whose release will run the scheduler again; and a release loses no
  waiter: those that wait before it are those that wait after it together with those whose promise it
  resolved, each counted once.\<close>

theorem scheduler_work_conserving:
  assumes "new_scheduler n = Ok s\<^sub>0" and "scheduler_step\<^sup>*\<^sup>* s\<^sub>0 s"
  shows "(\<forall>w\<in>set (rs_waiters s). \<not> canStart s (wt_request w))
    \<and> (rs_waiters s \<noteq> [] \<longrightarrow> active s \<noteq> [])
    \<and> (\<forall>l. mset (map wt_id (rs_waiters s)) =
         mset (map wt_id (rs_waiters (fst (release s l)))) + mset (map event_waiter (snd (release s l))))"
proof -
  have inv: "scheduler_inv s"
    using scheduling.reachable_inv [of s\<^sub>0 s] assms by blast
  have "canStart s r" if "active s = []" for r
    using inv that core_modes [of s]
    by (auto simp: scheduler_inv_def core_inv_def canStart_def modes_of_def split: option.splits)
  moreover have "rs_waiters (released s l) = rs_waiters s" for l
    by (simp add: released_def)
  then have "mset (map wt_id (rs_waiters s)) =
      mset (map wt_id (rs_waiters (fst (release s l)))) + mset (map event_waiter (snd (release s l)))" for l
    using schedule_from_waiters [of "[]" "rs_waiters s" "released s l"] by (simp add: release_unfold schedule_def)
  ultimately show ?thesis
    using inv by (metis list.set_intros(1) neq_Nil_conv scheduler_inv_def)
qed

theorem scheduler_work_conserving_witness:
  "rs_waiters sample_contended \<noteq> [] \<and> active sample_contended \<noteq> []"
proof -
  have "rs_waiters sample_contended \<noteq> []"
    by (simp add: sample_contended_def sample_scheduler_def sample_shared_def sample_exclusive_def acquire_def canStart_def
        is_aborted_def start_def active_modes_def request_key_def request_mode_def)
  then show ?thesis
    using scheduler_work_conserving [OF sample_scheduler_new sample_contended_reachable] by blast
qed

end
