(* ===== verification/RunScope.thy ===== *)
theory RunScope
  imports Prelude Transition
begin

text \<open>
  The cancellation and effect-admission state of one agent run
  (\<open>packages/agent/src/run-scope.ts\<close>). The abort controller is public, so its abort is a step
  of the environment; the promise of \<open>waitForSettled\<close> is a flag that says whether it has been
  resolved.
\<close>

datatype run_scope_state = Reserved | Active | Settling | Settled

record run_scope =
  sc_runId :: string
  sc_generation :: nat
  sc_state :: run_scope_state
  sc_cancelRequested :: bool
  sc_signalAborted :: bool
  sc_settledResolved :: bool

datatype run_scope_error = CannotActivate run_scope_state

definition new_run_scope :: "string \<Rightarrow> nat \<Rightarrow> run_scope" where
  "new_run_scope runId generation =
     \<lparr>sc_runId = runId, sc_generation = generation, sc_state = Reserved, sc_cancelRequested = False,
      sc_signalAborted = False, sc_settledResolved = False\<rparr>"

definition activate :: "run_scope \<Rightarrow> run_scope_error + run_scope" where
  "activate s =
     (if sc_state s \<noteq> Reserved then Err (CannotActivate (sc_state s)) else Ok (s\<lparr>sc_state := Active\<rparr>))"

definition abort_controller :: "run_scope \<Rightarrow> run_scope" where
  "abort_controller s = s\<lparr>sc_signalAborted := True\<rparr>"

definition requestCancel :: "run_scope \<Rightarrow> run_scope" where
  "requestCancel s =
     (if sc_state s = Settled then s else abort_controller (s\<lparr>sc_cancelRequested := True\<rparr>))"

definition canAdmit :: "run_scope \<Rightarrow> nat option \<Rightarrow> bool" where
  "canAdmit s generation \<longleftrightarrow>
     sc_state s = Active \<and> \<not> sc_cancelRequested s \<and> \<not> sc_signalAborted s
     \<and> (case generation of None \<Rightarrow> sc_generation s | Some g \<Rightarrow> g) = sc_generation s"

definition settle :: "run_scope \<Rightarrow> run_scope" where
  "settle s =
     (if sc_state s = Settled then s
      else let s1 = s\<lparr>sc_state := Settling\<rparr>; s2 = s1\<lparr>sc_state := Settled\<rparr>
           in s2\<lparr>sc_settledResolved := True\<rparr>)"

inductive run_scope_step :: "run_scope \<Rightarrow> run_scope \<Rightarrow> bool" where
  scope_activate: "activate s = Ok t \<Longrightarrow> run_scope_step s t"
| scope_cancel: "run_scope_step s (requestCancel s)"
| scope_abort: "run_scope_step s (abort_controller s)"
| scope_settle: "run_scope_step s (settle s)"

inductive_cases run_scope_stepE: "run_scope_step s t"

text \<open>A scope whose admission is over.\<close>

definition admission_over :: "run_scope \<Rightarrow> bool" where
  "admission_over s \<longleftrightarrow> sc_state s \<in> {Settling, Settled} \<or> sc_cancelRequested s \<or> sc_signalAborted s"

lemmas scope_defs = activate_def requestCancel_def abort_controller_def settle_def Let_def

interpretation admission: closing_system run_scope_step admission_over
  by unfold_locales (auto simp: admission_over_def scope_defs elim!: run_scope_stepE split: if_splits)

interpretation settling: invariant_system "\<lambda>s. \<exists>r g. s = new_run_scope r g" run_scope_step
  "\<lambda>s. sc_state s \<noteq> Settling \<and> (sc_settledResolved s \<longleftrightarrow> sc_state s = Settled)"
  by unfold_locales (auto simp: new_run_scope_def scope_defs elim!: run_scope_stepE split: if_splits)

text \<open>Admission never reopens. Once a scope has been cancelled, its signal aborted or its run settled,
  or once an activated scope refuses its own generation, no later state of the scope admits an effect of any
  generation; and a scope of another generation than the caller's is never admitted.\<close>

theorem admission_never_reopens:
  assumes "run_scope_step\<^sup>*\<^sup>* s t"
    and "sc_cancelRequested s \<or> sc_signalAborted s \<or> sc_state s = Settled \<or> sc_state s \<noteq> Reserved \<and> \<not> canAdmit s None"
  shows "\<not> canAdmit t generation"
proof -
  have "admission_over s"
    using assms(2) by (cases "sc_state s") (auto simp: admission_over_def canAdmit_def)
  then have "admission_over t"
    by (rule admission.closed_forever [OF assms(1)])
  then show ?thesis
    by (auto simp: admission_over_def canAdmit_def)
qed

theorem admission_never_reopens_witness:
  "\<not> canAdmit (requestCancel (new_run_scope ''run'' 3)\<lparr>sc_state := Active\<rparr>) (Some 3)"
proof (rule admission_never_reopens)
  show "run_scope_step\<^sup>*\<^sup>* (requestCancel (new_run_scope ''run'' 3)) (requestCancel (new_run_scope ''run'' 3)\<lparr>sc_state := Active\<rparr>)"
    by (rule r_into_rtranclp, rule scope_activate) (simp add: scope_defs new_run_scope_def)
qed (simp add: scope_defs new_run_scope_def)

text \<open>Settling. From a new scope on, whatever is called in whatever order, a caller never sees the
  transient state and the promise of \<open>waitForSettled\<close> is resolved exactly when the scope is settled; settling
  twice is settling once, and a settled scope ignores cancellation.\<close>

theorem settled_exactly_when_resolved:
  assumes "run_scope_step\<^sup>*\<^sup>* (new_run_scope runId generation) s"
  shows "sc_state s \<noteq> Settling \<and> (sc_settledResolved s \<longleftrightarrow> sc_state s = Settled)
    \<and> settle (settle s) = settle s \<and> requestCancel (settle s) = settle s"
  using settling.reachable_inv [of "new_run_scope runId generation" s] assms by (auto simp: scope_defs)

theorem settled_exactly_when_resolved_witness:
  "sc_settledResolved (settle (new_run_scope ''run'' 3))"
  using settled_exactly_when_resolved [of "''run''" 3 "settle (new_run_scope ''run'' 3)",
      OF r_into_rtranclp [of run_scope_step, OF scope_settle]]
  by (simp add: scope_defs new_run_scope_def)

end
