(* ===== verification/SubagentPlanning.thy ===== *)
theory SubagentPlanning
  imports Prelude "HOL-Library.Multiset"
begin

text \<open>
  Planning of subagent runs: the order of the tasks of a dependency graph and the progress
  counts (\<open>packages/subagent/src/dag-scheduler.ts\<close>) and the partitioning of token budgets
  (\<open>packages/subagent/src/budget.ts\<close>). Of a task contract the scheduler reads the id and the
  dependencies. Token counts are integers; the guards on safe integers are kept, and division
  of safe integers followed by rounding is exact.
\<close>

section \<open>Tasks in dependency order\<close>

record dag_task =
  dt_id :: string
  dt_dependsOn :: "string list"

datatype dag_error = DependencyCycle | UnknownDependency string string

definition ready :: "string list \<Rightarrow> dag_task \<Rightarrow> bool" where
  "ready completed t \<longleftrightarrow> dt_id t \<notin> set completed \<and> (\<forall>d\<in>set (dt_dependsOn t). d \<in> set completed)"

function stable_loop :: "dag_task list \<Rightarrow> string list \<Rightarrow> dag_task list \<Rightarrow> dag_error + dag_task list" where
  "stable_loop tasks completed ordered =
     (if length ordered < length tasks
      then case find (ready completed) tasks of
          None \<Rightarrow> Err DependencyCycle
        | Some t \<Rightarrow>
            (case find (\<lambda>d. d \<notin> dt_id ` set tasks) (dt_dependsOn t) of
               Some d \<Rightarrow> Err (UnknownDependency (dt_id t) d)
             | None \<Rightarrow> stable_loop tasks (dt_id t # completed) (ordered @ [t]))
      else Ok ordered)"
  by pat_completeness auto

termination
  by (relation "measure (\<lambda>(tasks, completed, ordered). length tasks - length ordered)") auto

declare stable_loop.simps [simp del]

definition stableTopologicalTasks :: "dag_task list \<Rightarrow> dag_error + dag_task list" where
  "stableTopologicalTasks tasks = stable_loop tasks [] []"

text \<open>A list of tasks with distinct ids in which every dependency comes before.\<close>

fun topological :: "string list \<Rightarrow> dag_task list \<Rightarrow> bool" where
  "topological done [] \<longleftrightarrow> True"
| "topological done (t # ts) \<longleftrightarrow> ready done t \<and> topological (dt_id t # done) ts"

lemma topological_append:
  "topological done (xs @ ys) \<longleftrightarrow> topological done xs \<and> topological (rev (map dt_id xs) @ done) ys"
  by (induction xs arbitrary: "done") auto

lemma find_SomeD: "find P xs = Some x \<Longrightarrow> x \<in> set xs \<and> P x"
  by (induction xs) (auto split: if_splits)

lemma find_NoneD: "find P xs = None \<Longrightarrow> x \<in> set xs \<Longrightarrow> \<not> P x"
  by (induction xs) (auto split: if_splits)

text \<open>The state of the loop: what is ordered is in order, and is part of the tasks.\<close>

definition loop_inv :: "dag_task list \<Rightarrow> string list \<Rightarrow> dag_task list \<Rightarrow> bool" where
  "loop_inv tasks completed ordered \<longleftrightarrow> completed = rev (map dt_id ordered) \<and> topological [] ordered
     \<and> set ordered \<subseteq> set tasks"

lemma topological_distinct:
  "topological done ts \<Longrightarrow> distinct (map dt_id ts) \<and> dt_id ` set ts \<inter> set done = {}"
proof (induction ts arbitrary: "done")
  case Nil
  then show ?case by simp
next
  case (Cons t ts)
  then show ?case
    using Cons.IH [of "dt_id t # done"] by (auto simp: ready_def)
qed

lemma loop_step:
  assumes "loop_inv tasks completed ordered" and "find (ready completed) tasks = Some t"
  shows "loop_inv tasks (dt_id t # completed) (ordered @ [t])"
  using assms find_SomeD [OF assms(2)] by (auto simp: loop_inv_def topological_append)

lemma loop_known:
  assumes "loop_inv tasks completed ordered" and "find (ready completed) tasks = Some t"
  shows "find (\<lambda>d. d \<notin> dt_id ` set tasks) (dt_dependsOn t) = None"
proof -
  have "\<forall>d\<in>set (dt_dependsOn t). d \<in> dt_id ` set tasks"
    using find_SomeD [OF assms(2)] assms(1) unfolding ready_def loop_inv_def by fastforce
  then show ?thesis
    by (auto simp: find_None_iff)
qed

lemma full_length_mset:
  assumes "distinct xs" and "set xs \<subseteq> set ys" and "length ys \<le> length xs"
  shows "mset xs = mset ys"
proof -
  have "mset xs \<subseteq># mset ys"
    using assms(1,2) by (auto simp: subseteq_mset_def distinct_count_atmost_1 count_mset_gt_0
        intro: order_trans [OF _ Suc_leI])
  then show ?thesis
    using assms(3) by (metis mset_subset_size not_le size_mset subset_mset.le_imp_less_or_eq)
qed

lemma loop_sound:
  assumes "stable_loop tasks completed ordered = Ok out" and "loop_inv tasks completed ordered"
    and "length ordered \<le> length tasks"
  shows "topological [] out \<and> set out \<subseteq> set tasks \<and> length out = length tasks"
  using assms
proof (induction tasks completed ordered rule: stable_loop.induct)
  case (1 tasks completed ordered)
  show ?case
  proof (cases "length ordered < length tasks")
    case True
    then obtain t where t: "find (ready completed) tasks = Some t"
      using 1(2) by (subst (asm) stable_loop.simps) (auto split: option.splits)
    have "stable_loop tasks (dt_id t # completed) (ordered @ [t]) = Ok out"
      using 1(2) True t loop_known [OF 1(3) t] by (subst (asm) stable_loop.simps) simp
    then show ?thesis
      using 1(1) [OF True t loop_known [OF 1(3) t]] loop_step [OF 1(3) t] True by simp
  next
    case False
    then show ?thesis
      using 1(2-4) by (subst (asm) stable_loop.simps) (auto simp: loop_inv_def)
  qed
qed

text \<open>When the tasks have an order at all, some task is ready until all are ordered.\<close>

lemma some_ready:
  assumes "topological [] order" and "set order = set tasks" and "set completed \<subset> dt_id ` set tasks"
  shows "\<exists>t\<in>set tasks. ready completed t"
proof -
  have "\<exists>t\<in>set order. dt_id t \<notin> set completed"
    using assms(2,3) by blast
  then obtain xs t ys where split: "order = xs @ t # ys" and t: "dt_id t \<notin> set completed"
    and xs: "\<forall>x\<in>set xs. dt_id x \<in> set completed"
    using split_list_first_prop [of order "\<lambda>t. dt_id t \<notin> set completed"] by auto
  have "\<forall>d\<in>set (dt_dependsOn t). d \<in> dt_id ` set xs"
    using assms(1) unfolding split by (auto simp: topological_append ready_def)
  then have "ready completed t"
    using t xs by (auto simp: ready_def)
  then show ?thesis
    using split assms(2) by auto
qed

lemma loop_complete:
  assumes "topological [] order" and "mset order = mset tasks" and "loop_inv tasks completed ordered"
    and "length ordered \<le> length tasks"
  shows "is_Ok (stable_loop tasks completed ordered)"
  using assms(2-4)
proof (induction tasks completed ordered rule: stable_loop.induct)
  case (1 tasks completed ordered)
  show ?case
  proof (cases "length ordered < length tasks")
    case True
    have "distinct (map dt_id tasks)"
      using topological_distinct [OF assms(1)] 1(2) by (metis mset_eq_imp_distinct_iff mset_map)
    then have "card (dt_id ` set tasks) = length tasks"
      by (metis distinct_card length_map list.set_map)
    moreover have "card (set completed) \<le> length ordered"
      using 1(3) by (metis card_length length_map length_rev loop_inv_def)
    moreover have "set completed \<subseteq> dt_id ` set tasks"
      using 1(3) by (auto simp: loop_inv_def)
    ultimately have "set completed \<noteq> dt_id ` set tasks" and "set completed \<subseteq> dt_id ` set tasks"
      using True by (metis not_le, metis)
    then have "set completed \<subset> dt_id ` set tasks"
      by (rule psubsetI [rotated])
    then have "\<exists>t\<in>set tasks. ready completed t"
      using some_ready [OF assms(1)] mset_eq_setD [OF 1(2)] by blast
    then obtain t where t: "find (ready completed) tasks = Some t"
      by (metis find_None_iff not_None_eq)
    have "is_Ok (stable_loop tasks (dt_id t # completed) (ordered @ [t]))"
      using 1(1) [OF True t loop_known [OF 1(3) t] 1(2) loop_step [OF 1(3) t]] True by simp
    then show ?thesis
      using True t loop_known [OF 1(3) t] by (subst stable_loop.simps) simp
  next
    case False
    then show ?thesis
      by (subst stable_loop.simps) simp
  qed
qed

lemma loop_inv_initial: "loop_inv tasks [] []"
  by (simp add: loop_inv_def)

lemma distinct_by_ids: "distinct (map f xs) \<Longrightarrow> distinct xs"
  by (simp add: distinct_map)

text \<open>C26: The order of the tasks. \<open>stableTopologicalTasks\<close> succeeds exactly when the tasks can be ordered
  at all, that is when they have distinct ids and can be listed with every dependency before the task that
  needs it; what it returns is such a list of exactly the given tasks.\<close>

theorem stable_topological_correct:
  "(is_Ok (stableTopologicalTasks tasks) \<longleftrightarrow> (\<exists>order. mset order = mset tasks \<and> topological [] order))
   \<and> (\<forall>out. stableTopologicalTasks tasks = Ok out \<longrightarrow> mset out = mset tasks \<and> topological [] out)"
proof -
  have sound: "mset out = mset tasks \<and> topological [] out" if "stableTopologicalTasks tasks = Ok out" for out
  proof -
    have out: "topological [] out" "set out \<subseteq> set tasks" "length out = length tasks"
      using loop_sound [OF _ loop_inv_initial, of tasks out] that by (auto simp: stableTopologicalTasks_def)
    have "distinct out"
      using topological_distinct [OF out(1)] distinct_by_ids by blast
    then show ?thesis
      using full_length_mset [OF _ out(2)] out(1,3) by simp
  qed
  moreover have "is_Ok (stableTopologicalTasks tasks)" if "mset order = mset tasks" "topological [] order" for order
    using loop_complete [OF that(2,1) loop_inv_initial] by (simp add: stableTopologicalTasks_def)
  ultimately show ?thesis
    by (auto simp: is_Ok_iff)
qed

definition sample_tasks :: "dag_task list" where
  "sample_tasks = [\<lparr>dt_id = ''b'', dt_dependsOn = [''a'']\<rparr>, \<lparr>dt_id = ''a'', dt_dependsOn = []\<rparr>]"

theorem stable_topological_correct_witness:
  "is_Ok (stableTopologicalTasks sample_tasks)"
proof -
  have "mset (rev sample_tasks) = mset sample_tasks \<and> topological [] (rev sample_tasks)"
    by (simp add: sample_tasks_def ready_def)
  then show ?thesis
    using stable_topological_correct [of sample_tasks] by blast
qed

section \<open>Progress\<close>

datatype dag_task_status = Pending | Running | Succeeded | Failed | Cancelled | Blocked

record progress_counts =
  pc_total :: nat
  pc_completed :: nat
  pc_pending :: nat
  pc_running :: nat
  pc_succeeded :: nat
  pc_failed :: nat
  pc_cancelled :: nat
  pc_blocked :: nat

definition count_status :: "dag_task_status \<Rightarrow> dag_task_status list \<Rightarrow> nat" where
  "count_status x tasks = length (filter (\<lambda>s. s = x) tasks)"

definition progressCounts :: "dag_task_status list \<Rightarrow> progress_counts" where
  "progressCounts tasks =
     \<lparr>pc_total = length tasks, pc_completed = length (filter (\<lambda>s. s \<notin> {Pending, Running}) tasks),
      pc_pending = count_status Pending tasks, pc_running = count_status Running tasks,
      pc_succeeded = count_status Succeeded tasks, pc_failed = count_status Failed tasks,
      pc_cancelled = count_status Cancelled tasks, pc_blocked = count_status Blocked tasks\<rparr>"

lemma progress_partition:
  "pc_total (progressCounts tasks) = pc_completed (progressCounts tasks) + pc_pending (progressCounts tasks) + pc_running (progressCounts tasks)"
  "pc_completed (progressCounts tasks) = pc_succeeded (progressCounts tasks) + pc_failed (progressCounts tasks)
     + pc_cancelled (progressCounts tasks) + pc_blocked (progressCounts tasks)"
proof (induction tasks)
  case (Cons s tasks)
  case 1
  then show ?case
    using Cons by (cases s) (simp_all add: progressCounts_def count_status_def)
  case 2
  then show ?case
    using Cons by (cases s) (simp_all add: progressCounts_def count_status_def)
qed (simp_all add: progressCounts_def count_status_def)

section \<open>Token budgets\<close>

record subagent_budget =
  sb_maxTokens :: int

datatype budget_error = BadMaxTokens | BadClaimCount | InvalidArrayLength

definition remainingBudget :: "subagent_budget \<Rightarrow> int \<Rightarrow> subagent_budget" where
  "remainingBudget budget usedTokens = \<lparr>sb_maxTokens = max 0 (sb_maxTokens budget - usedTokens)\<rparr>"

text \<open>\<open>Math.ceil(n / 10)\<close>.\<close>

definition ceil_tenth :: "int \<Rightarrow> int" where
  "ceil_tenth n = - ((- n) div 10)"

definition remainingSoftTokenLimit :: "subagent_budget \<Rightarrow> int \<Rightarrow> int option" where
  "remainingSoftTokenLimit budget usedTokens =
     (let threshold = sb_maxTokens budget - ceil_tenth (sb_maxTokens budget)
      in if usedTokens \<ge> threshold then None else Some (threshold - usedTokens))"

definition safe_integer :: "int \<Rightarrow> bool" where
  "safe_integer n \<longleftrightarrow> \<bar>n\<bar> \<le> 2 ^ 53 - 1"

text \<open>\<open>Array.from({ length })\<close> throws a range error from \<open>2 ^ 32\<close> on.\<close>

definition allocateConcurrentBudgets :: "subagent_budget \<Rightarrow> int \<Rightarrow> budget_error + subagent_budget list" where
  "allocateConcurrentBudgets remaining claimCount =
     (if \<not> safe_integer (sb_maxTokens remaining) \<or> sb_maxTokens remaining < 0 then Err BadMaxTokens
      else if \<not> safe_integer claimCount \<or> claimCount < 0 then Err BadClaimCount
      else if claimCount = 0 then Ok []
      else if claimCount \<ge> 2 ^ 32 then Err InvalidArrayLength
      else let tokensPerClaim = sb_maxTokens remaining div claimCount;
               claimsWithExtraToken = sb_maxTokens remaining - tokensPerClaim * claimCount
           in Ok (map (\<lambda>i. \<lparr>sb_maxTokens = tokensPerClaim + (if i < claimsWithExtraToken then 1 else 0)\<rparr>) [0..claimCount - 1]))"

definition budgetExhausted :: "subagent_budget \<Rightarrow> bool" where
  "budgetExhausted budget \<longleftrightarrow> sb_maxTokens budget < 1"

lemma sum_list_extra:
  assumes "0 \<le> e" and "e \<le> n"
  shows "sum_list (map (\<lambda>i. q + (if i < e then 1 else 0)) [0..n - 1]) = q * n + (e :: int)"
proof -
  have "sum_list (map (\<lambda>i. q + (if i < e then 1 else 0)) [0..n - 1]) = (\<Sum>i\<in>{0..n - 1}. q + (if i < e then 1 else 0))"
    by (subst sum_list_distinct_conv_sum_set) simp_all
  also have "\<dots> = (\<Sum>i\<in>{0..n - 1}. q) + (\<Sum>i\<in>{0..n - 1}. if i < e then 1 else 0)"
    by (rule sum.distrib)
  also have "(\<Sum>i\<in>{0..n - 1}. if i < e then 1 else 0 :: int) = int (card {0..<e})"
  proof -
    have "{i \<in> {0..n - 1}. i < e} = {0..<e}"
      using assms by auto
    then show ?thesis
      by (simp add: sum.If_cases Int_def)
  qed
  finally show ?thesis
    using assms by (simp add: algebra_simps)
qed

text \<open>Partitioning a budget. For every number of claims from one up to the length limit of an array, the budgets handed out add up
  to exactly the remaining tokens, no two differ by more than one token, earlier claims get the extra tokens,
  and none is negative.\<close>

theorem budget_partition_exact:
  assumes "safe_integer (sb_maxTokens remaining)" and "0 \<le> sb_maxTokens remaining"
    and "1 \<le> claims" and "claims < 2 ^ 32"
  shows "\<exists>bs. allocateConcurrentBudgets remaining claims = Ok bs \<and> int (length bs) = claims
    \<and> sum_list (map sb_maxTokens bs) = sb_maxTokens remaining
    \<and> sorted_wrt (\<lambda>b c. sb_maxTokens c \<le> sb_maxTokens b \<and> sb_maxTokens b \<le> sb_maxTokens c + 1) bs
    \<and> (\<forall>b\<in>set bs. 0 \<le> sb_maxTokens b)"
proof -
  let ?m = "sb_maxTokens remaining"
  let ?q = "?m div claims"
  let ?e = "?m - ?q * claims"
  let ?bs = "map (\<lambda>i. \<lparr>sb_maxTokens = ?q + (if i < ?e then 1 else 0)\<rparr>) [0..claims - 1]"
  have e: "?e = ?m mod claims"
    by (simp add: minus_mult_div_eq_mod mult.commute)
  have bounds: "0 \<le> ?e" "?e \<le> claims"
    using assms(3) unfolding e by (simp_all add: less_imp_le)
  have "sum_list (map sb_maxTokens ?bs) = ?q * claims + ?e"
    using sum_list_extra [OF bounds, of ?q] by (simp add: comp_def)
  moreover have "sorted_wrt (\<lambda>b c. sb_maxTokens c \<le> sb_maxTokens b \<and> sb_maxTokens b \<le> sb_maxTokens c + 1) ?bs"
  proof -
    have "sorted_wrt (<) [0..claims - 1]"
      by (simp add: strict_sorted_iff)
    then show ?thesis
      unfolding sorted_wrt_map by (rule sorted_wrt_mono_rel [rotated]) auto
  qed
  moreover have "allocateConcurrentBudgets remaining claims = Ok ?bs"
    using assms by (simp add: allocateConcurrentBudgets_def Let_def safe_integer_def)
  moreover have "0 \<le> ?q"
    using assms(2,3) by (simp add: pos_imp_zdiv_nonneg_iff)
  ultimately show ?thesis
    using assms(3) by (intro exI [of _ ?bs]) auto
qed

theorem budget_partition_exact_witness:
  "\<exists>bs. allocateConcurrentBudgets \<lparr>sb_maxTokens = 10\<rparr> 4 = Ok bs \<and> sum_list (map sb_maxTokens bs) = 10"
  using budget_partition_exact [of "\<lparr>sb_maxTokens = 10\<rparr>" 4] by (auto simp: safe_integer_def)

text \<open>The soft limit. When it exists it is positive, and reaching it is reaching nine tenths of the
  budget (the hard limit minus a tenth rounded up) and stays within the remaining budget; it does not exist
  exactly when the tokens used so far have reached that threshold.\<close>

theorem soft_limit_correct:
  assumes "0 \<le> sb_maxTokens budget" and "0 \<le> used"
  shows "case remainingSoftTokenLimit budget used of
      None \<Rightarrow> 10 * used > 9 * sb_maxTokens budget - 10
    | Some n \<Rightarrow> 0 < n \<and> 10 * (used + n) \<le> 9 * sb_maxTokens budget \<and> 9 * sb_maxTokens budget < 10 * (used + n) + 10
        \<and> n \<le> sb_maxTokens (remainingBudget budget used) \<and> \<not> budgetExhausted (remainingBudget budget used)"
proof -
  have "10 * ceil_tenth (sb_maxTokens budget) \<ge> sb_maxTokens budget"
    "10 * ceil_tenth (sb_maxTokens budget) < sb_maxTokens budget + 10"
    by (simp_all add: ceil_tenth_def)
  then show ?thesis
    using assms
    by (auto simp: remainingSoftTokenLimit_def Let_def remainingBudget_def budgetExhausted_def)
qed

theorem soft_limit_correct_witness:
  "\<exists>n. remainingSoftTokenLimit \<lparr>sb_maxTokens = 100\<rparr> 30 = Some n \<and> n = 60 \<and> 0 < n"
  using soft_limit_correct [of "\<lparr>sb_maxTokens = 100\<rparr>" 30] by (simp add: remainingSoftTokenLimit_def ceil_tenth_def)

end
