(* ===== verification/Validation.thy ===== *)
theory Validation
  imports SessionTypes "HOL-Library.Monad_Syntax"
begin

text \<open>
  Validation of durable session data (\<open>packages/agent/src/harness/session/validation.ts\<close>): the
  checks that stand between a parsed JSON value and the entries and lane records of a session.
  A property that is absent is \<open>None\<close> (JavaScript's \<open>undefined\<close>); every check returns the
  message of the error it throws. \<open>ValidationCorrect\<close> shows that what passes is exactly what
  the typed data model of \<open>SessionTypes\<close> can hold.
\<close>

section \<open>Checks on single values\<close>

type_synonym check = "string + unit"

fun all_res :: "check list \<Rightarrow> check" where
  "all_res [] = Ok ()"
| "all_res (c # cs) = bind_res c (\<lambda>_. all_res cs)"

definition requireValue :: "bool \<Rightarrow> string \<Rightarrow> check" where
  "requireValue valid field = guard_res valid (''Invalid durable '' @ field)"

definition object_value :: "json option \<Rightarrow> string \<Rightarrow> string + json_fields" where
  "object_value v field =
     (case v of Some (JObject fs) \<Rightarrow> Ok fs | _ \<Rightarrow> Err (''Invalid durable '' @ field))"

definition string_value :: "json option \<Rightarrow> string \<Rightarrow> check" where
  "string_value v field = requireValue (case v of Some (JString s) \<Rightarrow> True | _ \<Rightarrow> False) field"

definition number_value :: "json option \<Rightarrow> string \<Rightarrow> check" where
  "number_value v field = requireValue (case v of Some (JNumber n) \<Rightarrow> num_is_finite n | _ \<Rightarrow> False) field"

definition integer_value :: "json option \<Rightarrow> int \<Rightarrow> string \<Rightarrow> check" where
  "integer_value v least field =
     requireValue (case v of Some (JNumber n) \<Rightarrow> num_is_safe_integer n \<and> least \<le> num_int n | _ \<Rightarrow> False) field"

definition boolean_value :: "json option \<Rightarrow> string \<Rightarrow> check" where
  "boolean_value v field = requireValue (case v of Some (JBool b) \<Rightarrow> True | _ \<Rightarrow> False) field"

definition nullableId :: "json option \<Rightarrow> string \<Rightarrow> check" where
  "nullableId v field = (if v = Some JNull then Ok () else string_value v field)"

definition oneOf :: "json option \<Rightarrow> string list \<Rightarrow> string \<Rightarrow> check" where
  "oneOf v values field =
     requireValue (case v of Some (JString s) \<Rightarrow> s \<in> set values | _ \<Rightarrow> False) field"

definition array_value :: "json option \<Rightarrow> string \<Rightarrow> (json option \<Rightarrow> check) \<Rightarrow> check" where
  "array_value v field validate =
     (case v of Some (JArray items) \<Rightarrow> all_res (map (\<lambda>item. validate (Some item)) items)
      | _ \<Rightarrow> requireValue False field)"

definition optional_value :: "json option \<Rightarrow> (json option \<Rightarrow> check) \<Rightarrow> check" where
  "optional_value v validate = (if v = None then Ok () else validate v)"

text \<open>\<open>if (value !== undefined) requireValue(value === true, field)\<close>.\<close>

definition only_true :: "json option \<Rightarrow> string \<Rightarrow> check" where
  "only_true v field = (if v = None then Ok () else requireValue (v = Some (JBool True)) field)"

text \<open>A loop over property names.\<close>

definition each_key :: "json_fields \<Rightarrow> string list \<Rightarrow> string \<Rightarrow> (json option \<Rightarrow> string \<Rightarrow> check) \<Rightarrow> check" where
  "each_key fs keys prefix validate = all_res (map (\<lambda>key. validate (map_of fs key) (prefix @ key)) keys)"

definition usage_value :: "json option \<Rightarrow> string \<Rightarrow> check" where
  "usage_value v field =
     bind_res (object_value v field) (\<lambda>fs.
     bind_res (each_key fs [''input'', ''output'', ''cacheRead'', ''cacheWrite'', ''totalTokens''] (field @ ''.'') number_value) (\<lambda>_.
     bind_res (each_key fs [''cacheWrite1h'', ''reasoning''] (field @ ''.'') (\<lambda>x f. optional_value x (\<lambda>y. number_value y f))) (\<lambda>_.
     bind_res (object_value (map_of fs ''cost'') (field @ ''.cost'')) (\<lambda>cost.
     each_key cost [''input'', ''output'', ''cacheRead'', ''cacheWrite'', ''total''] (field @ ''.cost.'') number_value))))"

section \<open>Messages\<close>

definition block_value :: "string list \<Rightarrow> json option \<Rightarrow> check" where
  "block_value allowed v =
     bind_res (object_value v ''content block'') (\<lambda>block.
     bind_res (oneOf (map_of block ''type'') allowed ''content type'') (\<lambda>_.
     if map_of block ''type'' = Some (JString ''text'') then string_value (map_of block ''text'') ''text''
     else if map_of block ''type'' = Some (JString ''image'')
     then all_res [string_value (map_of block ''data'') ''image data'', string_value (map_of block ''mimeType'') ''image mimeType'']
     else if map_of block ''type'' = Some (JString ''thinking'') then string_value (map_of block ''thinking'') ''thinking''
     else if map_of block ''type'' = Some (JString ''toolCall'')
     then all_res [string_value (map_of block ''id'') ''tool call id'', string_value (map_of block ''name'') ''tool call name'',
                   bind_res (object_value (map_of block ''arguments'') ''tool call arguments'') (\<lambda>_. Ok ())]
     else Ok ()))"

definition content_value :: "string list \<Rightarrow> json option \<Rightarrow> check" where
  "content_value allowed v = array_value v ''message.content'' (block_value allowed)"

definition userContent :: "json option \<Rightarrow> check" where
  "userContent v =
     (case v of Some (JString s) \<Rightarrow> Ok () | _ \<Rightarrow> content_value [''text'', ''image''] v)"

definition deferred_value :: "json option \<Rightarrow> check" where
  "deferred_value v =
     bind_res (object_value v ''deferred handle'') (\<lambda>deferred.
     all_res [each_key deferred [''provider'', ''modelId'', ''api'', ''id''] ''deferred.'' string_value,
              optional_value (map_of deferred ''expiresAt'') (\<lambda>x. number_value x ''deferred.expiresAt''),
              optional_value (map_of deferred ''pollAfterMs'') (\<lambda>x. number_value x ''deferred.pollAfterMs'')])"

definition stop_reasons :: "string list" where
  "stop_reasons = [''pending'', ''stop'', ''length'', ''toolUse'', ''error'', ''aborted'', ''deferred'']"

text \<open>The cases of the switch on the role; \<open>None\<close> is the default case, which returns at once.\<close>

definition role_checks :: "json_fields \<Rightarrow> check list option" where
  "role_checks m =
     (if map_of m ''role'' = Some (JString ''user'') then Some [userContent (map_of m ''content'')]
      else if map_of m ''role'' = Some (JString ''assistant'') then Some
        [content_value [''text'', ''thinking'', ''toolCall''] (map_of m ''content''),
         each_key m [''api'', ''provider'', ''model''] '''' string_value,
         usage_value (map_of m ''usage'') ''message usage'',
         oneOf (map_of m ''stopReason'') stop_reasons ''stopReason'',
         only_true (map_of m ''isResponseCheckpoint'') ''isResponseCheckpoint'',
         optional_value (map_of m ''deferred'') deferred_value]
      else if map_of m ''role'' = Some (JString ''toolResult'') then Some
        [string_value (map_of m ''toolCallId'') ''toolCallId'',
         string_value (map_of m ''toolName'') ''toolName'',
         content_value [''text'', ''image''] (map_of m ''content''),
         boolean_value (map_of m ''isError'') ''isError'',
         optional_value (map_of m ''usage'') (\<lambda>u. usage_value u ''tool usage'')]
      else if map_of m ''role'' = Some (JString ''bashExecution'') then Some
        [string_value (map_of m ''command'') ''command'',
         string_value (map_of m ''output'') ''output'',
         optional_value (map_of m ''exitCode'') (\<lambda>x. number_value x ''exitCode''),
         boolean_value (map_of m ''cancelled'') ''cancelled'',
         boolean_value (map_of m ''truncated'') ''truncated'']
      else if map_of m ''role'' = Some (JString ''custom'') then Some
        [string_value (map_of m ''customType'') ''customType'',
         userContent (map_of m ''content''),
         boolean_value (map_of m ''display'') ''display'']
      else if map_of m ''role'' = Some (JString ''branchSummary'') then Some
        [string_value (map_of m ''summary'') ''summary'',
         string_value (map_of m ''fromId'') ''fromId'']
      else if map_of m ''role'' = Some (JString ''compactionSummary'') then Some
        [string_value (map_of m ''summary'') ''summary'',
         number_value (map_of m ''tokensBefore'') ''tokensBefore'']
      else None)"

definition message_value :: "json option \<Rightarrow> check" where
  "message_value v =
     bind_res (object_value v ''message'') (\<lambda>m.
     bind_res (string_value (map_of m ''role'') ''message role'') (\<lambda>_.
     case role_checks m of
       None \<Rightarrow> Ok ()
     | Some cs \<Rightarrow> all_res (cs @ [number_value (map_of m ''timestamp'') ''message timestamp''])))"

section \<open>Entries\<close>

definition entry_checks :: "json_fields \<Rightarrow> check list option" where
  "entry_checks e =
     (if map_of e ''type'' = Some (JString ''message'') then Some
        [message_value (map_of e ''message''), only_true (map_of e ''terminate'') ''terminate'']
      else if map_of e ''type'' = Some (JString ''model_change'') then Some
        [string_value (map_of e ''provider'') ''provider'', string_value (map_of e ''modelId'') ''modelId'']
      else if map_of e ''type'' = Some (JString ''thinking_level_change'') then Some
        [string_value (map_of e ''thinkingLevel'') ''thinkingLevel'']
      else if map_of e ''type'' = Some (JString ''active_tools_change'') then Some
        [array_value (map_of e ''activeToolNames'') ''activeToolNames'' (\<lambda>x. string_value x ''activeToolNames'')]
      else if map_of e ''type'' = Some (JString ''compaction'') then Some
        [string_value (map_of e ''summary'') ''summary'',
         array_value (map_of e ''retainedTail'') ''retainedTail'' message_value,
         number_value (map_of e ''tokensBefore'') ''tokensBefore'',
         optional_value (map_of e ''usage'') (\<lambda>u. usage_value u ''compaction usage'')]
      else if map_of e ''type'' = Some (JString ''branch_summary'') then Some
        [string_value (map_of e ''fromId'') ''fromId'',
         string_value (map_of e ''summary'') ''summary'',
         optional_value (map_of e ''usage'') (\<lambda>u. usage_value u ''branch summary usage'')]
      else if map_of e ''type'' = Some (JString ''custom'') then Some
        [string_value (map_of e ''customType'') ''customType'']
      else None)"

definition assertDurableEntry :: "json option \<Rightarrow> check" where
  "assertDurableEntry v =
     bind_res (object_value v ''entry'') (\<lambda>e.
     bind_res (string_value (map_of e ''id'') ''entry id'') (\<lambda>_.
     case entry_checks e of None \<Rightarrow> Err ''Invalid durable entry type'' | Some cs \<Rightarrow> all_res cs))"

section \<open>Lane records\<close>

definition intent_value :: "json_fields \<Rightarrow> check" where
  "intent_value i =
     (if map_of i ''kind'' = Some (JString ''run'') then all_res
        [array_value (map_of i ''originalPrompt'') ''originalPrompt'' message_value,
         array_value (map_of i ''initialMessages'') ''initialMessages'' assertDurableEntry,
         optional_value (map_of i ''systemPromptOverride'') (\<lambda>x. string_value x ''systemPromptOverride''),
         optional_value (map_of i ''resumeData'') (\<lambda>x. bind_res (object_value x ''resumeData'') (\<lambda>_. Ok ()))]
      else if map_of i ''kind'' = Some (JString ''compaction'') then all_res
        [string_value (map_of i ''resultEntryId'') ''resultEntryId'',
         optional_value (map_of i ''customInstructions'') (\<lambda>x. string_value x ''customInstructions'')]
      else if map_of i ''kind'' = Some (JString ''navigation'') then all_res
        [nullableId (map_of i ''targetId'') ''targetId'',
         boolean_value (map_of i ''summarize'') ''summarize'',
         each_key i [''customInstructions'', ''label'', ''summaryEntryId''] '''' (\<lambda>x f. optional_value x (\<lambda>y. string_value y f))]
      else Err ''Invalid durable operation kind'')"

definition error_value :: "json option \<Rightarrow> check" where
  "error_value v =
     bind_res (object_value v ''operation error'') (\<lambda>e.
     all_res [string_value (map_of e ''code'') ''error code'', string_value (map_of e ''message'') ''error message''])"

definition diagnostic_value :: "json option \<Rightarrow> json option \<Rightarrow> check" where
  "diagnostic_value toolCallId v =
     bind_res (message_value v) (\<lambda>_.
     bind_res (object_value v ''diagnostic'') (\<lambda>d.
     requireValue (map_of d ''role'' = Some (JString ''toolResult'') \<and> map_of d ''toolCallId'' = toolCallId)
       ''tool diagnostic identity''))"

definition checkpoint_message_value :: "json option \<Rightarrow> check" where
  "checkpoint_message_value v =
     bind_res (message_value v) (\<lambda>_.
     bind_res (object_value v ''checkpoint'') (\<lambda>c.
     requireValue (map_of c ''role'' = Some (JString ''assistant'') \<and> map_of c ''isResponseCheckpoint'' = Some (JBool True))
       ''assistant checkpoint''))"

definition continuation_failure_value :: "json option \<Rightarrow> check" where
  "continuation_failure_value v =
     bind_res (message_value v) (\<lambda>_.
     bind_res (object_value v ''continuationFailure'') (\<lambda>c.
     requireValue (map_of c ''role'' = Some (JString ''assistant'')) ''continuationFailure role''))"

definition usage_causes :: "string list" where
  "usage_causes = [''assistant'', ''compaction'', ''branch_summary'', ''deferred_fetch'', ''tool'', ''hook'', ''adjustment'']"

definition usage_stop_reasons :: "string list" where
  "usage_stop_reasons = [''stop'', ''length'', ''toolUse'', ''error'', ''aborted'', ''deferred'']"

definition usage_record_value :: "json_fields \<Rightarrow> check" where
  "usage_record_value r = all_res
     [usage_value (map_of r ''usage'') ''usage'',
      oneOf (map_of r ''cause'') usage_causes ''usage cause'',
      (if map_of r ''cause'' = Some (JString ''adjustment'') then all_res
         [optional_value (map_of r ''runId'') (\<lambda>x. string_value x ''runId''),
          optional_value (map_of r ''entryId'') (\<lambda>x. string_value x ''entryId'')]
       else all_res
         [string_value (map_of r ''runId'') ''runId'',
          string_value (map_of r ''entryId'') ''entryId'',
          (if map_of r ''cause'' = Some (JString ''tool'') then string_value (map_of r ''toolCallId'') ''toolCallId''
           else if map_of r ''cause'' \<noteq> Some (JString ''hook'') then all_res
             [integer_value (map_of r ''attempt'') 1 ''attempt'',
              oneOf (map_of r ''stopReason'') usage_stop_reasons ''usage stopReason'']
           else Ok ())])]"

definition queue_value :: "json_fields \<Rightarrow> check" where
  "queue_value r = all_res
     [oneOf (map_of r ''queue'') [''nextRun'', ''steer'', ''followUp''] ''queue'',
      (if map_of r ''queue'' = Some (JString ''nextRun'') then requireValue (map_of r ''runId'' = None) ''nextRun runId''
       else string_value (map_of r ''runId'') ''runId''),
      assertDurableEntry (map_of r ''target'')]"

definition record_checks :: "json_fields \<Rightarrow> check" where
  "record_checks r =
     (if map_of r ''type'' = Some (JString ''operation_started'') then
        bind_res (nullableId (map_of r ''sourceLeafId'') ''sourceLeafId'') (\<lambda>_.
        bind_res (object_value (map_of r ''intent'') ''intent'') intent_value)
      else if map_of r ''type'' \<in> {Some (JString ''abort_requested''), Some (JString ''pause_requested''), Some (JString ''pause_cleared'')}
      then Ok ()
      else if map_of r ''type'' = Some (JString ''operation_finished'') then all_res
        [oneOf (map_of r ''outcome'') [''completed'', ''aborted'', ''failed'', ''declined''] ''outcome'',
         optional_value (map_of r ''error'') error_value]
      else if map_of r ''type'' = Some (JString ''step_attempt'') then all_res
        [oneOf (map_of r ''step'') [''assistant'', ''branch_summary'', ''compaction''] ''step'',
         integer_value (map_of r ''attempt'') 1 ''attempt'',
         string_value (map_of r ''resultEntryId'') ''resultEntryId'',
         (if map_of r ''step'' = Some (JString ''compaction'')
          then oneOf (map_of r ''compactionReason'') [''manual'', ''threshold'', ''overflow''] ''compactionReason'' else Ok ())]
      else if map_of r ''type'' = Some (JString ''tool_started'') then all_res
        [each_key r [''assistantEntryId'', ''toolCallId'', ''toolName'', ''resultEntryId''] '''' string_value,
         integer_value (map_of r ''toolIndex'') 0 ''toolIndex'',
         bind_res (object_value (map_of r ''effectiveArgs'') ''effectiveArgs'') (\<lambda>_. Ok ()),
         optional_value (map_of r ''operationId'') (\<lambda>x. string_value x ''operationId''),
         oneOf (map_of r ''replay'') [''never'', ''safe''] ''replay'']
      else if map_of r ''type'' = Some (JString ''tool_reconciliation'') then all_res
        [string_value (map_of r ''toolCallId'') ''toolCallId'',
         string_value (map_of r ''resultEntryId'') ''resultEntryId'',
         string_value (map_of r ''reason'') ''reason'',
         optional_value (map_of r ''diagnostic'') (diagnostic_value (map_of r ''toolCallId''))]
      else if map_of r ''type'' = Some (JString ''tool_reconciled'') then all_res
        [string_value (map_of r ''toolCallId'') ''toolCallId'',
         string_value (map_of r ''resultEntryId'') ''resultEntryId'']
      else if map_of r ''type'' = Some (JString ''assistant_checkpoint'') then all_res
        [string_value (map_of r ''resultEntryId'') ''resultEntryId'',
         integer_value (map_of r ''attempt'') 1 ''attempt'',
         checkpoint_message_value (map_of r ''message''),
         optional_value (map_of r ''continuationFailure'') continuation_failure_value,
         optional_value (map_of r ''retryAttempt'') (\<lambda>x. integer_value x 1 ''retryAttempt'')]
      else if map_of r ''type'' = Some (JString ''queue_enqueued'') then queue_value r
      else if map_of r ''type'' = Some (JString ''queue_cancelled'') then all_res
        [optional_value (map_of r ''runId'') (\<lambda>x. string_value x ''runId''),
         string_value (map_of r ''entryId'') ''entryId'']
      else if map_of r ''type'' = Some (JString ''write_deferred'') then assertDurableEntry (map_of r ''target'')
      else if map_of r ''type'' = Some (JString ''usage'') then usage_record_value r
      else Err ''Invalid durable record type'')"

definition without_run :: "json option \<Rightarrow> bool" where
  "without_run t \<longleftrightarrow>
     t \<in> {Some (JString ''operation_started''), Some (JString ''queue_enqueued''), Some (JString ''queue_cancelled''), Some (JString ''usage'')}"

definition assertDurableRecord :: "json option \<Rightarrow> check" where
  "assertDurableRecord v =
     bind_res (object_value v ''record'') (\<lambda>r.
     bind_res (string_value (map_of r ''id'') ''record id'') (\<lambda>_.
     bind_res (string_value (map_of r ''lane'') ''record lane'') (\<lambda>_.
     bind_res (if without_run (map_of r ''type'') then Ok () else string_value (map_of r ''runId'') ''runId'') (\<lambda>_.
     record_checks r))))"

end
