(* ===== verification/ValidationCorrect.thy ===== *)
theory ValidationCorrect
  imports Validation
begin

text \<open>
  The durable validation is exact. Reading a JSON value into the typed data model of
  \<open>SessionTypes\<close> is a partial function; the checks of \<open>validation.ts\<close> accept exactly the values on
  which it is defined. So code that runs after the checks may rely on every field of the types.
\<close>

section \<open>Reading JSON into the data model\<close>

fun object_of :: "json option \<Rightarrow> json_fields option" where
  "object_of (Some (JObject fs)) = Some fs"
| "object_of v = None"

fun string_of :: "json option \<Rightarrow> string option" where
  "string_of (Some (JString s)) = Some s"
| "string_of v = None"

fun bool_of :: "json option \<Rightarrow> bool option" where
  "bool_of (Some (JBool b)) = Some b"
| "bool_of v = None"

fun number_of :: "json option \<Rightarrow> js_number option" where
  "number_of (Some (JNumber n)) = (if num_is_finite n then Some n else None)"
| "number_of v = None"

fun nat_of :: "int \<Rightarrow> json option \<Rightarrow> nat option" where
  "nat_of least (Some (JNumber n)) = (if num_is_safe_integer n \<and> least \<le> num_int n then Some (nat (num_int n)) else None)"
| "nat_of least v = None"

fun nullable_of :: "json option \<Rightarrow> string option option" where
  "nullable_of (Some JNull) = Some None"
| "nullable_of v = map_option Some (string_of v)"

fun optional_of :: "(json option \<Rightarrow> 'a option) \<Rightarrow> json option \<Rightarrow> 'a option option" where
  "optional_of f None = Some None"
| "optional_of f (Some v) = map_option Some (f (Some v))"

fun array_of :: "(json option \<Rightarrow> 'a option) \<Rightarrow> json option \<Rightarrow> 'a list option" where
  "array_of f (Some (JArray vs)) = those (map (\<lambda>v. f (Some v)) vs)"
| "array_of f v = None"

fun flag_of :: "json option \<Rightarrow> bool option" where
  "flag_of None = Some False"
| "flag_of (Some v) = (if v = JBool True then Some True else None)"

definition enum_of :: "(string \<times> 'a) list \<Rightarrow> json option \<Rightarrow> 'a option" where
  "enum_of table v = Option.bind (string_of v) (map_of table)"

text \<open>The properties of an object other than the named ones.\<close>

definition rest_of :: "string list \<Rightarrow> json_fields \<Rightarrow> json_fields" where
  "rest_of keys fs = filter (\<lambda>(k, v). k \<notin> set keys) fs"

definition usage_of :: "json option \<Rightarrow> usage option" where
  "usage_of v = do {
     d \<leftarrow> object_of v;
     i \<leftarrow> number_of (map_of d ''input'');
     out \<leftarrow> number_of (map_of d ''output'');
     cr \<leftarrow> number_of (map_of d ''cacheRead'');
     cw \<leftarrow> number_of (map_of d ''cacheWrite'');
     tot \<leftarrow> number_of (map_of d ''totalTokens'');
     cw1 \<leftarrow> optional_of number_of (map_of d ''cacheWrite1h'');
     re \<leftarrow> optional_of number_of (map_of d ''reasoning'');
     c \<leftarrow> object_of (map_of d ''cost'');
     ci \<leftarrow> number_of (map_of c ''input'');
     co \<leftarrow> number_of (map_of c ''output'');
     ccr \<leftarrow> number_of (map_of c ''cacheRead'');
     ccw \<leftarrow> number_of (map_of c ''cacheWrite'');
     ct \<leftarrow> number_of (map_of c ''total'');
     Some \<lparr>u_input = i, u_output = out, u_cacheRead = cr, u_cacheWrite = cw, u_cacheWrite1h = cw1, u_reasoning = re,
           u_totalTokens = tot, u_cost = \<lparr>cost_input = ci, cost_output = co, cost_cacheRead = ccr, cost_cacheWrite = ccw, cost_total = ct\<rparr>\<rparr>}"

definition block_of :: "string list \<Rightarrow> json option \<Rightarrow> content_block option" where
  "block_of allowed v = do {
     b \<leftarrow> object_of v;
     ty \<leftarrow> string_of (map_of b ''type'');
     if ty \<notin> set allowed then None
     else if ty = ''text'' then do {
       t \<leftarrow> string_of (map_of b ''text'');
       Some (TextBlock t (rest_of [''type'', ''text''] b))}
     else if ty = ''image'' then do {
       d \<leftarrow> string_of (map_of b ''data'');
       m \<leftarrow> string_of (map_of b ''mimeType'');
       Some (ImageBlock d m (rest_of [''type'', ''data'', ''mimeType''] b))}
     else if ty = ''thinking'' then do {
       t \<leftarrow> string_of (map_of b ''thinking'');
       Some (ThinkingBlock t (rest_of [''type'', ''thinking''] b))}
     else if ty = ''toolCall'' then do {
       i \<leftarrow> string_of (map_of b ''id'');
       n \<leftarrow> string_of (map_of b ''name'');
       a \<leftarrow> object_of (map_of b ''arguments'');
       Some (ToolCallBlock \<lparr>tc_id = i, tc_name = n, tc_arguments = a,
                            tc_extra = rest_of [''type'', ''id'', ''name'', ''arguments''] b\<rparr>)}
     else None}"

fun user_content_of :: "json option \<Rightarrow> user_content option" where
  "user_content_of (Some (JString s)) = Some (ContentText s)"
| "user_content_of v = map_option ContentBlocks (array_of (block_of [''text'', ''image'']) v)"

definition stop_reason_table :: "(string \<times> stop_reason) list" where
  "stop_reason_table = [(''pending'', SR_pending), (''stop'', SR_stop), (''length'', SR_length), (''toolUse'', SR_toolUse),
     (''error'', SR_error), (''aborted'', SR_aborted), (''deferred'', SR_deferred)]"

definition handle_of :: "json option \<Rightarrow> deferred_handle option" where
  "handle_of v = do {
     d \<leftarrow> object_of v;
     p \<leftarrow> string_of (map_of d ''provider'');
     m \<leftarrow> string_of (map_of d ''modelId'');
     a \<leftarrow> string_of (map_of d ''api'');
     i \<leftarrow> string_of (map_of d ''id'');
     e \<leftarrow> optional_of number_of (map_of d ''expiresAt'');
     w \<leftarrow> optional_of number_of (map_of d ''pollAfterMs'');
     Some \<lparr>dh_provider = p, dh_modelId = m, dh_api = a, dh_id = i, dh_expiresAt = e, dh_pollAfterMs = w,
           dh_extra = rest_of [''provider'', ''modelId'', ''api'', ''id'', ''expiresAt'', ''pollAfterMs''] d\<rparr>}"

definition assistant_of :: "json_fields \<Rightarrow> assistant_message option" where
  "assistant_of m = do {
     c \<leftarrow> array_of (block_of [''text'', ''thinking'', ''toolCall'']) (map_of m ''content'');
     a \<leftarrow> string_of (map_of m ''api'');
     p \<leftarrow> string_of (map_of m ''provider'');
     md \<leftarrow> string_of (map_of m ''model'');
     u \<leftarrow> usage_of (map_of m ''usage'');
     s \<leftarrow> enum_of stop_reason_table (map_of m ''stopReason'');
     ch \<leftarrow> flag_of (map_of m ''isResponseCheckpoint'');
     d \<leftarrow> optional_of handle_of (map_of m ''deferred'');
     t \<leftarrow> number_of (map_of m ''timestamp'');
     Some \<lparr>am_content = c, am_api = a, am_provider = p, am_model = md, am_usage = u, am_stopReason = s,
           am_isResponseCheckpoint = ch, am_deferred = d, am_timestamp = t,
           am_extra = rest_of [''role'', ''content'', ''api'', ''provider'', ''model'', ''usage'', ''stopReason'',
                               ''isResponseCheckpoint'', ''deferred'', ''timestamp''] m\<rparr>}"

definition tool_result_of :: "json_fields \<Rightarrow> tool_result_message option" where
  "tool_result_of m = do {
     i \<leftarrow> string_of (map_of m ''toolCallId'');
     n \<leftarrow> string_of (map_of m ''toolName'');
     c \<leftarrow> array_of (block_of [''text'', ''image'']) (map_of m ''content'');
     e \<leftarrow> bool_of (map_of m ''isError'');
     u \<leftarrow> optional_of usage_of (map_of m ''usage'');
     t \<leftarrow> number_of (map_of m ''timestamp'');
     Some \<lparr>tr_toolCallId = i, tr_toolName = n, tr_content = c, tr_isError = e, tr_usage = u, tr_timestamp = t,
           tr_extra = rest_of [''role'', ''toolCallId'', ''toolName'', ''content'', ''isError'', ''usage'', ''timestamp''] m\<rparr>}"

definition bash_of :: "json_fields \<Rightarrow> bash_execution_message option" where
  "bash_of m = do {
     c \<leftarrow> string_of (map_of m ''command'');
     out \<leftarrow> string_of (map_of m ''output'');
     x \<leftarrow> optional_of number_of (map_of m ''exitCode'');
     ca \<leftarrow> bool_of (map_of m ''cancelled'');
     tr \<leftarrow> bool_of (map_of m ''truncated'');
     t \<leftarrow> number_of (map_of m ''timestamp'');
     Some \<lparr>be_command = c, be_output = out, be_exitCode = x, be_cancelled = ca, be_truncated = tr, be_timestamp = t,
           be_extra = rest_of [''role'', ''command'', ''output'', ''exitCode'', ''cancelled'', ''truncated'', ''timestamp''] m\<rparr>}"

definition role_message :: "string \<Rightarrow> json_fields \<Rightarrow> agent_message option" where
  "role_message r m =
     (if r = ''user'' then do {
        c \<leftarrow> user_content_of (map_of m ''content'');
        t \<leftarrow> number_of (map_of m ''timestamp'');
        Some (UserMessage c t (rest_of [''role'', ''content'', ''timestamp''] m))}
      else if r = ''assistant'' then map_option AssistantMessage (assistant_of m)
      else if r = ''toolResult'' then map_option ToolResultMessage (tool_result_of m)
      else if r = ''bashExecution'' then map_option BashExecutionMessage (bash_of m)
      else if r = ''custom'' then do {
        ty \<leftarrow> string_of (map_of m ''customType'');
        c \<leftarrow> user_content_of (map_of m ''content'');
        d \<leftarrow> bool_of (map_of m ''display'');
        t \<leftarrow> number_of (map_of m ''timestamp'');
        Some (CustomMessage ty c d t (rest_of [''role'', ''customType'', ''content'', ''display'', ''timestamp''] m))}
      else if r = ''branchSummary'' then do {
        s \<leftarrow> string_of (map_of m ''summary'');
        f \<leftarrow> string_of (map_of m ''fromId'');
        t \<leftarrow> number_of (map_of m ''timestamp'');
        Some (BranchSummaryMessage s f t (rest_of [''role'', ''summary'', ''fromId'', ''timestamp''] m))}
      else if r = ''compactionSummary'' then do {
        s \<leftarrow> string_of (map_of m ''summary'');
        n \<leftarrow> number_of (map_of m ''tokensBefore'');
        t \<leftarrow> number_of (map_of m ''timestamp'');
        Some (CompactionSummaryMessage s n t (rest_of [''role'', ''summary'', ''tokensBefore'', ''timestamp''] m))}
      else Some (ApplicationMessage r (rest_of [''role''] m)))"

definition message_of :: "json option \<Rightarrow> agent_message option" where
  "message_of v = do {
     m \<leftarrow> object_of v;
     r \<leftarrow> string_of (map_of m ''role'');
     role_message r m}"

definition body_of :: "string \<Rightarrow> json_fields \<Rightarrow> entry_body option" where
  "body_of ty e =
     (if ty = ''message'' then do {
        m \<leftarrow> message_of (map_of e ''message'');
        t \<leftarrow> flag_of (map_of e ''terminate'');
        Some (MessageEntry m t)}
      else if ty = ''model_change'' then do {
        p \<leftarrow> string_of (map_of e ''provider'');
        m \<leftarrow> string_of (map_of e ''modelId'');
        Some (ModelChangeEntry p m)}
      else if ty = ''thinking_level_change'' then map_option ThinkingLevelEntry (string_of (map_of e ''thinkingLevel''))
      else if ty = ''active_tools_change'' then map_option ActiveToolsEntry (array_of string_of (map_of e ''activeToolNames''))
      else if ty = ''compaction'' then do {
        s \<leftarrow> string_of (map_of e ''summary'');
        r \<leftarrow> array_of message_of (map_of e ''retainedTail'');
        n \<leftarrow> number_of (map_of e ''tokensBefore'');
        u \<leftarrow> optional_of usage_of (map_of e ''usage'');
        Some (CompactionEntry s r n u)}
      else if ty = ''branch_summary'' then do {
        f \<leftarrow> string_of (map_of e ''fromId'');
        s \<leftarrow> string_of (map_of e ''summary'');
        u \<leftarrow> optional_of usage_of (map_of e ''usage'');
        Some (BranchSummaryEntry f s u)}
      else if ty = ''custom'' then map_option CustomEntry (string_of (map_of e ''customType''))
      else None)"

fun body_keys :: "entry_body \<Rightarrow> string list" where
  "body_keys (MessageEntry m t) = [''message'', ''terminate'']"
| "body_keys (ModelChangeEntry p m) = [''provider'', ''modelId'']"
| "body_keys (ThinkingLevelEntry l) = [''thinkingLevel'']"
| "body_keys (ActiveToolsEntry ns) = [''activeToolNames'']"
| "body_keys (CompactionEntry s r n u) = [''summary'', ''retainedTail'', ''tokensBefore'', ''usage'']"
| "body_keys (BranchSummaryEntry f s u) = [''fromId'', ''summary'', ''usage'']"
| "body_keys (CustomEntry ty) = [''customType'']"

definition entry_of :: "json option \<Rightarrow> provisioned_entry option" where
  "entry_of v = do {
     e \<leftarrow> object_of v;
     i \<leftarrow> string_of (map_of e ''id'');
     ty \<leftarrow> string_of (map_of e ''type'');
     b \<leftarrow> body_of ty e;
     Some \<lparr>pe_id = i, pe_body = b, pe_extra = rest_of (''id'' # ''type'' # body_keys b) e\<rparr>}"

section \<open>Checks and readers agree\<close>

named_theorems durable

lemma is_Ok_seq [durable]: "is_Ok (bind_res c (\<lambda>_. m)) \<longleftrightarrow> is_Ok c \<and> is_Ok m" for c :: check
  by (cases c) auto

lemma is_Ok_all [durable]: "is_Ok (all_res cs) \<longleftrightarrow> (\<forall>c\<in>set cs. is_Ok c)"
  by (induction cs) (auto simp: is_Ok_seq)

lemma is_Ok_each [durable]:
  "is_Ok (each_key fs keys p f) \<longleftrightarrow> (\<forall>k\<in>set keys. is_Ok (f (map_of fs k) (p @ k)))"
  by (simp add: each_key_def is_Ok_all)

lemma bind_defined [durable]: "(\<exists>y. Option.bind m f = Some y) \<longleftrightarrow> (\<exists>x. m = Some x \<and> (\<exists>y. f x = Some y))"
  by (cases m) auto

lemma is_Ok_object [durable]:
  "is_Ok (bind_res (object_value v f) g) \<longleftrightarrow> (\<exists>fs. object_of v = Some fs \<and> is_Ok (g fs))"
  by (cases v rule: object_of.cases) (auto simp: object_value_def)

lemma requireValue_Ok [durable]: "is_Ok (requireValue b f) \<longleftrightarrow> b"
  by (simp add: requireValue_def guard_res_def)

lemma string_defined [durable]: "is_Ok (string_value v f) \<longleftrightarrow> string_of v \<noteq> None"
  by (cases v rule: string_of.cases) (auto simp: string_value_def requireValue_Ok)

lemma number_defined [durable]: "is_Ok (number_value v f) \<longleftrightarrow> number_of v \<noteq> None"
  by (cases v rule: number_of.cases) (auto simp: number_value_def requireValue_Ok)

lemma integer_defined [durable]: "is_Ok (integer_value v n f) \<longleftrightarrow> nat_of n v \<noteq> None"
  by (cases "(n, v)" rule: nat_of.cases) (auto simp: integer_value_def requireValue_Ok)

lemma bool_defined [durable]: "is_Ok (boolean_value v f) \<longleftrightarrow> bool_of v \<noteq> None"
  by (cases v rule: bool_of.cases) (auto simp: boolean_value_def requireValue_Ok)

lemma nullable_defined [durable]: "is_Ok (nullableId v f) \<longleftrightarrow> nullable_of v \<noteq> None"
  by (cases v rule: nullable_of.cases) (auto simp: nullableId_def durable)

lemma flag_defined [durable]: "is_Ok (only_true v f) \<longleftrightarrow> flag_of v \<noteq> None"
  by (cases v) (auto simp: only_true_def durable)

lemma enum_defined:
  "is_Ok (oneOf v (map fst table) f) \<longleftrightarrow> enum_of table v \<noteq> None"
  by (cases v rule: string_of.cases)
    (auto simp: oneOf_def enum_of_def durable map_of_eq_None_iff simp flip: dom_map_of_conv_image_fst)

lemma those_defined: "those xs \<noteq> None \<longleftrightarrow> (\<forall>x\<in>set xs. x \<noteq> None)"
  by (induction xs) (auto split: option.splits)

lemma array_defined:
  assumes "\<And>x. is_Ok (f x) \<longleftrightarrow> g x \<noteq> None"
  shows "is_Ok (array_value v n f) \<longleftrightarrow> array_of g v \<noteq> None"
  using assms those_defined [of "map (\<lambda>x. g (Some x)) vs" for vs]
  by (cases "(g, v)" rule: array_of.cases) (simp_all add: array_value_def durable)

lemma optional_defined:
  assumes "\<And>x. is_Ok (f x) \<longleftrightarrow> g x \<noteq> None"
  shows "is_Ok (optional_value v f) \<longleftrightarrow> optional_of g v \<noteq> None"
  using assms by (cases v) (simp_all add: optional_value_def)

lemmas optional_number [durable] = optional_defined [OF number_defined]
lemmas optional_string [durable] = optional_defined [OF string_defined]
lemmas optional_integer [durable] = optional_defined [OF integer_defined]

lemma optional_object [durable]:
  "is_Ok (optional_value v (\<lambda>x. bind_res (object_value x f) (\<lambda>_. Ok ()))) \<longleftrightarrow> optional_of object_of v \<noteq> None"
  by (rule optional_defined) (simp add: is_Ok_object)

lemmas array_string [durable] = array_defined [OF string_defined]

lemma usage_defined [durable]: "is_Ok (usage_value v f) \<longleftrightarrow> usage_of v \<noteq> None"
  by (simp add: usage_value_def usage_of_def durable)

lemmas optional_usage [durable] = optional_defined [OF usage_defined]

lemma type_is: "map_of fs k = Some (JString s) \<longleftrightarrow> string_of (map_of fs k) = Some s"
  by (cases "map_of fs k" rule: string_of.cases) auto

lemma oneOf_string: "is_Ok (oneOf v values f) \<longleftrightarrow> (\<exists>s\<in>set values. string_of v = Some s)"
  by (cases v rule: string_of.cases) (auto simp: oneOf_def durable)

text \<open>What a switch on a property does is decided by the string it holds.\<close>

lemma block_defined:
  assumes "set allowed \<subseteq> {''text'', ''image'', ''thinking'', ''toolCall''}"
  shows "is_Ok (block_value allowed v) \<longleftrightarrow> block_of allowed v \<noteq> None"
proof (cases "object_of v")
  case (Some b)
  show ?thesis
  proof (cases "string_of (map_of b ''type'')")
    case ty: (Some ty)
    show ?thesis
    proof (cases "ty \<in> set allowed")
      case True
      then consider "ty = ''text''" | "ty = ''image''" | "ty = ''thinking''" | "ty = ''toolCall''"
        using assms by auto
      then show ?thesis
        using True by cases (simp_all add: block_value_def block_of_def durable oneOf_string type_is Some ty)
    qed (simp add: block_value_def block_of_def durable oneOf_string type_is Some ty)
  qed (simp add: block_value_def block_of_def durable oneOf_string type_is Some)
qed (simp add: block_value_def block_of_def durable)

lemma content_defined [durable]:
  "set allowed \<subseteq> {''text'', ''image'', ''thinking'', ''toolCall''}
   \<Longrightarrow> is_Ok (content_value allowed v) \<longleftrightarrow> array_of (block_of allowed) v \<noteq> None"
  unfolding content_value_def by (rule array_defined) (rule block_defined)

lemma user_content_defined [durable]: "is_Ok (userContent v) \<longleftrightarrow> user_content_of v \<noteq> None"
  by (cases v rule: user_content_of.cases) (simp_all add: userContent_def durable)

lemma handle_defined [durable]: "is_Ok (deferred_value v) \<longleftrightarrow> handle_of v \<noteq> None"
  by (simp add: deferred_value_def handle_of_def durable)

lemmas optional_handle [durable] = optional_defined [OF handle_defined]

lemma stop_reason_defined [durable]: "is_Ok (oneOf v stop_reasons f) \<longleftrightarrow> enum_of stop_reason_table v \<noteq> None"
  using enum_defined [of v stop_reason_table] by (simp add: stop_reasons_def stop_reason_table_def)

lemma message_defined [durable]: "is_Ok (message_value v) \<longleftrightarrow> message_of v \<noteq> None"
proof (cases "object_of v")
  case (Some m)
  show ?thesis
  proof (cases "string_of (map_of m ''role'')")
    case r: (Some r)
    have "is_Ok (message_value v) \<longleftrightarrow> (case role_checks m of None \<Rightarrow> True
       | Some cs \<Rightarrow> (\<forall>c\<in>set cs. is_Ok c) \<and> number_of (map_of m ''timestamp'') \<noteq> None)"
      by (cases "role_checks m") (simp_all add: message_value_def durable Some r conj_commute)
    also have "\<dots> \<longleftrightarrow> role_message r m \<noteq> None"
    proof (cases "r \<in> {''user'', ''assistant'', ''toolResult'', ''bashExecution'', ''custom'', ''branchSummary'', ''compactionSummary''}")
      case True
      then show ?thesis
        by (elim insertE) (simp_all add: role_checks_def role_message_def type_is r durable
            assistant_of_def tool_result_of_def bash_of_def)
    qed (simp add: role_checks_def role_message_def type_is r)
    finally show ?thesis
      by (simp add: message_of_def Some r)
  qed (simp add: message_value_def message_of_def durable Some)
qed (simp add: message_value_def message_of_def durable)

lemmas array_message [durable] = array_defined [OF message_defined]

lemma entry_defined [durable]: "is_Ok (assertDurableEntry v) \<longleftrightarrow> entry_of v \<noteq> None"
proof (cases "object_of v")
  case (Some e)
  show ?thesis
  proof (cases "string_of (map_of e ''type'')")
    case ty: (Some ty)
    have "is_Ok (case entry_checks e of None \<Rightarrow> Err ''Invalid durable entry type'' | Some cs \<Rightarrow> all_res cs)
        \<longleftrightarrow> body_of ty e \<noteq> None"
    proof (cases "ty \<in> {''message'', ''model_change'', ''thinking_level_change'', ''active_tools_change'', ''compaction'', ''branch_summary'', ''custom''}")
      case True
      then show ?thesis
        by (elim insertE) (simp_all add: entry_checks_def body_of_def type_is ty durable)
    qed (simp add: entry_checks_def body_of_def type_is ty)
    then show ?thesis
      by (simp add: assertDurableEntry_def entry_of_def durable Some ty)
  qed (simp add: assertDurableEntry_def entry_of_def entry_checks_def type_is durable Some)
qed (simp add: assertDurableEntry_def entry_of_def durable)

lemmas array_entry [durable] = array_defined [OF entry_defined]

section \<open>Reading lane records\<close>

definition intent_of :: "json_fields \<Rightarrow> intent option" where
  "intent_of i = Option.bind (string_of (map_of i ''kind'')) (\<lambda>k.
     if k = ''run'' then do {
       p \<leftarrow> array_of message_of (map_of i ''originalPrompt'');
       ms \<leftarrow> array_of entry_of (map_of i ''initialMessages'');
       s \<leftarrow> optional_of string_of (map_of i ''systemPromptOverride'');
       r \<leftarrow> optional_of object_of (map_of i ''resumeData'');
       Some (RunIntent p ms s r)}
     else if k = ''compaction'' then do {
       r \<leftarrow> string_of (map_of i ''resultEntryId'');
       c \<leftarrow> optional_of string_of (map_of i ''customInstructions'');
       Some (CompactionIntent c r)}
     else if k = ''navigation'' then do {
       t \<leftarrow> nullable_of (map_of i ''targetId'');
       s \<leftarrow> bool_of (map_of i ''summarize'');
       c \<leftarrow> optional_of string_of (map_of i ''customInstructions'');
       l \<leftarrow> optional_of string_of (map_of i ''label'');
       e \<leftarrow> optional_of string_of (map_of i ''summaryEntryId'');
       Some (NavigationIntent t s c l e)}
     else None)"

definition error_of :: "json option \<Rightarrow> (string \<times> string \<times> json_fields) option" where
  "error_of v = do {
     e \<leftarrow> object_of v;
     c \<leftarrow> string_of (map_of e ''code'');
     m \<leftarrow> string_of (map_of e ''message'');
     Some (c, m, rest_of [''code'', ''message''] e)}"

text \<open>A message that must be of one role, with a condition on it.\<close>

fun as_assistant :: "agent_message \<Rightarrow> assistant_message option" where
  "as_assistant (AssistantMessage m) = Some m"
| "as_assistant m = None"

fun as_tool_result :: "agent_message \<Rightarrow> tool_result_message option" where
  "as_tool_result (ToolResultMessage m) = Some m"
| "as_tool_result m = None"

definition diagnostic_of :: "string option \<Rightarrow> json option \<Rightarrow> tool_result_message option" where
  "diagnostic_of c v = do {
     m \<leftarrow> message_of v;
     r \<leftarrow> as_tool_result m;
     if Some (tr_toolCallId r) = c then Some r else None}"

definition continuation_of :: "json option \<Rightarrow> assistant_message option" where
  "continuation_of v = Option.bind (message_of v) as_assistant"

definition checkpoint_message_of :: "json option \<Rightarrow> assistant_message option" where
  "checkpoint_message_of v = do {
     m \<leftarrow> continuation_of v;
     if am_isResponseCheckpoint m then Some m else None}"

definition outcome_table :: "(string \<times> operation_outcome) list" where
  "outcome_table = [(''completed'', Completed), (''aborted'', AbortedOutcome), (''failed'', FailedOutcome), (''declined'', Declined)]"

definition step_table :: "(string \<times> step_kind) list" where
  "step_table = [(''assistant'', AssistantStep), (''branch_summary'', BranchSummaryStep), (''compaction'', CompactionStep)]"

definition replay_table :: "(string \<times> tool_replay) list" where
  "replay_table = [(''never'', ReplayNever), (''safe'', ReplaySafe)]"

definition queue_table :: "(string \<times> queue_kind) list" where
  "queue_table = [(''nextRun'', NextRunQueue), (''steer'', SteerQueue), (''followUp'', FollowUpQueue)]"

definition step_usage_table :: "(string \<times> step_usage_cause) list" where
  "step_usage_table = [(''assistant'', AssistantUsage), (''compaction'', CompactionUsage),
     (''branch_summary'', BranchSummaryUsage), (''deferred_fetch'', DeferredFetchUsage)]"

definition cause_of :: "json_fields \<Rightarrow> usage_cause option" where
  "cause_of r = Option.bind (string_of (map_of r ''cause'')) (\<lambda>c.
     if c = ''adjustment'' then do {
       i \<leftarrow> optional_of string_of (map_of r ''runId'');
       e \<leftarrow> optional_of string_of (map_of r ''entryId'');
       Some (AdjustmentUsage i e)}
     else do {
       i \<leftarrow> string_of (map_of r ''runId'');
       e \<leftarrow> string_of (map_of r ''entryId'');
       if c = ''tool'' then map_option (ToolUsage i e) (string_of (map_of r ''toolCallId''))
       else if c = ''hook'' then Some (HookUsage i e)
       else do {
         k \<leftarrow> map_of step_usage_table c;
         a \<leftarrow> nat_of 1 (map_of r ''attempt'');
         s \<leftarrow> enum_of (tl stop_reason_table) (map_of r ''stopReason'');
         Some (StepUsage k i e a s)}})"

definition attempt_of :: "string \<Rightarrow> json_fields \<Rightarrow> step_attempt option" where
  "attempt_of run r = do {
     s \<leftarrow> enum_of step_table (map_of r ''step'');
     a \<leftarrow> nat_of 1 (map_of r ''attempt'');
     e \<leftarrow> string_of (map_of r ''resultEntryId'');
     if s = CompactionStep \<and> map_of r ''compactionReason'' \<notin> (Some \<circ> JString) ` {''manual'', ''threshold'', ''overflow''}
     then None
     else Some \<lparr>sa_runId = run, sa_step = s, sa_attempt = a, sa_resultEntryId = e, sa_compactionReason = map_of r ''compactionReason''\<rparr>}"

definition tool_start_of :: "string \<Rightarrow> json_fields \<Rightarrow> tool_start option" where
  "tool_start_of run r = do {
     ae \<leftarrow> string_of (map_of r ''assistantEntryId'');
     c \<leftarrow> string_of (map_of r ''toolCallId'');
     n \<leftarrow> string_of (map_of r ''toolName'');
     e \<leftarrow> string_of (map_of r ''resultEntryId'');
     i \<leftarrow> nat_of 0 (map_of r ''toolIndex'');
     a \<leftarrow> object_of (map_of r ''effectiveArgs'');
     oid \<leftarrow> optional_of string_of (map_of r ''operationId'');
     p \<leftarrow> enum_of replay_table (map_of r ''replay'');
     Some \<lparr>ts_runId = run, ts_assistantEntryId = ae, ts_toolIndex = i, ts_toolCallId = c, ts_toolName = n,
           ts_effectiveArgs = a, ts_resultEntryId = e, ts_operationId = oid, ts_replay = p\<rparr>}"

definition checkpoint_of :: "string \<Rightarrow> json_fields \<Rightarrow> checkpoint option" where
  "checkpoint_of run r = do {
     e \<leftarrow> string_of (map_of r ''resultEntryId'');
     a \<leftarrow> nat_of 1 (map_of r ''attempt'');
     m \<leftarrow> checkpoint_message_of (map_of r ''message'');
     f \<leftarrow> optional_of continuation_of (map_of r ''continuationFailure'');
     t \<leftarrow> optional_of (nat_of 1) (map_of r ''retryAttempt'');
     Some \<lparr>cp_runId = run, cp_resultEntryId = e, cp_attempt = a, cp_message = m, cp_continuationFailure = f, cp_retryAttempt = t\<rparr>}"

definition run_body_of :: "string \<Rightarrow> string \<Rightarrow> json_fields \<Rightarrow> record_body option" where
  "run_body_of ty run r =
     (if ty = ''abort_requested'' then Some (AbortRequested run)
      else if ty = ''pause_requested'' then Some (PauseRequested run)
      else if ty = ''pause_cleared'' then Some (PauseCleared run)
      else if ty = ''operation_finished'' then do {
        out \<leftarrow> enum_of outcome_table (map_of r ''outcome'');
        e \<leftarrow> optional_of error_of (map_of r ''error'');
        Some (OperationFinished run out e)}
      else if ty = ''step_attempt'' then map_option StepAttempt (attempt_of run r)
      else if ty = ''tool_started'' then map_option ToolStarted (tool_start_of run r)
      else if ty = ''tool_reconciliation'' then do {
        c \<leftarrow> string_of (map_of r ''toolCallId'');
        e \<leftarrow> string_of (map_of r ''resultEntryId'');
        w \<leftarrow> string_of (map_of r ''reason'');
        d \<leftarrow> optional_of (diagnostic_of (Some c)) (map_of r ''diagnostic'');
        Some (ToolReconciliation run c e w d)}
      else if ty = ''tool_reconciled'' then do {
        c \<leftarrow> string_of (map_of r ''toolCallId'');
        e \<leftarrow> string_of (map_of r ''resultEntryId'');
        Some (ToolReconciled run c e)}
      else if ty = ''assistant_checkpoint'' then map_option AssistantCheckpoint (checkpoint_of run r)
      else if ty = ''write_deferred'' then map_option (WriteDeferred run) (entry_of (map_of r ''target''))
      else None)"

definition queue_of :: "json_fields \<Rightarrow> record_body option" where
  "queue_of r = do {
     q \<leftarrow> enum_of queue_table (map_of r ''queue'');
     i \<leftarrow> (if q = NextRunQueue then if map_of r ''runId'' = None then Some None else None
           else map_option Some (string_of (map_of r ''runId'')));
     t \<leftarrow> entry_of (map_of r ''target'');
     Some (QueueEnqueued q i t)}"

definition record_body_of :: "string \<Rightarrow> json_fields \<Rightarrow> record_body option" where
  "record_body_of ty r =
     (if ty = ''operation_started'' then do {
        l \<leftarrow> nullable_of (map_of r ''sourceLeafId'');
        i \<leftarrow> object_of (map_of r ''intent'');
        j \<leftarrow> intent_of i;
        Some (OperationStarted l j)}
      else if ty = ''queue_enqueued'' then queue_of r
      else if ty = ''queue_cancelled'' then do {
        i \<leftarrow> optional_of string_of (map_of r ''runId'');
        e \<leftarrow> string_of (map_of r ''entryId'');
        Some (QueueCancelled i e)}
      else if ty = ''usage'' then do {
        u \<leftarrow> usage_of (map_of r ''usage'');
        c \<leftarrow> cause_of r;
        Some (UsageRecord u c)}
      else do {
        run \<leftarrow> string_of (map_of r ''runId'');
        run_body_of ty run r})"

fun record_keys :: "record_body \<Rightarrow> string list" where
  "record_keys (OperationStarted l i) = [''sourceLeafId'', ''intent'']"
| "record_keys (OperationFinished r out e) = [''runId'', ''outcome'', ''error'']"
| "record_keys (StepAttempt a) = [''runId'', ''step'', ''attempt'', ''resultEntryId'', ''compactionReason'']"
| "record_keys (ToolStarted t) = [''runId'', ''assistantEntryId'', ''toolIndex'', ''toolCallId'', ''toolName'', ''effectiveArgs'',
     ''resultEntryId'', ''operationId'', ''replay'']"
| "record_keys (ToolReconciliation r c e w d) = [''runId'', ''toolCallId'', ''resultEntryId'', ''reason'', ''diagnostic'']"
| "record_keys (ToolReconciled r c e) = [''runId'', ''toolCallId'', ''resultEntryId'']"
| "record_keys (AssistantCheckpoint c) = [''runId'', ''resultEntryId'', ''attempt'', ''message'', ''continuationFailure'', ''retryAttempt'']"
| "record_keys (QueueEnqueued q r t) = [''queue'', ''runId'', ''target'']"
| "record_keys (QueueCancelled r e) = [''runId'', ''entryId'']"
| "record_keys (WriteDeferred r t) = [''runId'', ''target'']"
| "record_keys (UsageRecord u c) = [''usage'', ''cause'', ''runId'', ''entryId'', ''toolCallId'', ''attempt'', ''stopReason'']"
| "record_keys b = [''runId'']"

definition record_of :: "json option \<Rightarrow> new_record option" where
  "record_of v = do {
     r \<leftarrow> object_of v;
     i \<leftarrow> string_of (map_of r ''id'');
     l \<leftarrow> string_of (map_of r ''lane'');
     ty \<leftarrow> string_of (map_of r ''type'');
     b \<leftarrow> record_body_of ty r;
     Some \<lparr>nr_id = i, nr_lane = l, nr_body = b, nr_extra = rest_of (''id'' # ''lane'' # ''type'' # record_keys b) r\<rparr>}"

lemma intent_defined [durable]: "is_Ok (intent_value i) \<longleftrightarrow> intent_of i \<noteq> None"
proof (cases "string_of (map_of i ''kind'')")
  case (Some k)
  then show ?thesis
    by (cases "k \<in> {''run'', ''compaction'', ''navigation''}")
      (auto simp: intent_value_def intent_of_def type_is durable)
qed (simp add: intent_value_def intent_of_def type_is)

lemma error_defined [durable]: "is_Ok (error_value v) \<longleftrightarrow> error_of v \<noteq> None"
  by (simp add: error_value_def error_of_def durable del: split_paired_Ex)

lemmas optional_error [durable] = optional_defined [OF error_defined]

text \<open>The role of a message, read off its typed form.\<close>

lemma message_of_role:
  assumes "message_of v = Some m"
  obtains d r where "object_of v = Some d" "string_of (map_of d ''role'') = Some r" "role_message r d = Some m"
  using assms by (auto simp: message_of_def bind_eq_Some_conv)

lemma role_message_tool_result: "role_message r d = Some m \<Longrightarrow> as_tool_result m = (if r = ''toolResult'' then tool_result_of d else None)"
  by (auto simp: role_message_def bind_eq_Some_conv split: if_splits)

lemma role_message_assistant: "role_message r d = Some m \<Longrightarrow> as_assistant m = (if r = ''assistant'' then assistant_of d else None)"
  by (auto simp: role_message_def bind_eq_Some_conv split: if_splits)

lemma tool_result_call: "tool_result_of d = Some t \<Longrightarrow> string_of (map_of d ''toolCallId'') = Some (tr_toolCallId t)"
  by (auto simp: tool_result_of_def bind_eq_Some_conv)

lemma flag_set: "flag_of v = Some b \<Longrightarrow> v = Some (JBool True) \<longleftrightarrow> b"
  by (cases v) (auto split: if_splits)

lemma assistant_flag:
  "assistant_of d = Some t \<Longrightarrow> map_of d ''isResponseCheckpoint'' = Some (JBool True) \<longleftrightarrow> am_isResponseCheckpoint t"
  by (auto simp: assistant_of_def bind_eq_Some_conv flag_set)

lemma role_message_defined: "role_message ''toolResult'' d = Some m \<Longrightarrow> tool_result_of d \<noteq> None"
  "role_message ''assistant'' d = Some m \<Longrightarrow> assistant_of d \<noteq> None"
  by (auto simp: role_message_def)

lemma diagnostic_defined:
  assumes "string_of c \<noteq> None"
  shows "is_Ok (diagnostic_value c v) \<longleftrightarrow> diagnostic_of (string_of c) v \<noteq> None"
proof (cases "message_of v")
  case (Some m)
  obtain d r where d: "object_of v = Some d" "string_of (map_of d ''role'') = Some r" "role_message r d = Some m"
    using message_of_role [OF Some] .
  have c: "map_of d ''toolCallId'' = c \<longleftrightarrow> string_of (map_of d ''toolCallId'') = string_of c" if "string_of (map_of d ''toolCallId'') \<noteq> None"
    using assms that by (cases c rule: string_of.cases; cases "map_of d ''toolCallId''" rule: string_of.cases) auto
  show ?thesis
  proof (cases "r = ''toolResult''")
    case True
    obtain t where t: "tool_result_of d = Some t"
      using role_message_defined(1) d(3) True by auto
    show ?thesis
      using Some d True t c tool_result_call [OF t] role_message_tool_result [OF d(3)]
      by (auto simp: diagnostic_value_def diagnostic_of_def durable type_is)
  qed (use Some d role_message_tool_result [OF d(3)] in \<open>simp add: diagnostic_value_def diagnostic_of_def durable type_is\<close>)
qed (simp add: diagnostic_value_def diagnostic_of_def durable)

lemma continuation_defined [durable]: "is_Ok (continuation_failure_value v) \<longleftrightarrow> continuation_of v \<noteq> None"
proof (cases "message_of v")
  case (Some m)
  obtain d r where d: "object_of v = Some d" "string_of (map_of d ''role'') = Some r" "role_message r d = Some m"
    using message_of_role [OF Some] .
  show ?thesis
    using Some d role_message_assistant [OF d(3)] role_message_defined(2) [of d m]
    by (auto simp: continuation_failure_value_def continuation_of_def durable type_is)
qed (simp add: continuation_failure_value_def continuation_of_def durable)

lemma checkpoint_message_defined [durable]: "is_Ok (checkpoint_message_value v) \<longleftrightarrow> checkpoint_message_of v \<noteq> None"
proof (cases "message_of v")
  case (Some m)
  obtain d r where d: "object_of v = Some d" "string_of (map_of d ''role'') = Some r" "role_message r d = Some m"
    using message_of_role [OF Some] .
  show ?thesis
  proof (cases "r = ''assistant''")
    case True
    obtain t where t: "assistant_of d = Some t"
      using role_message_defined(2) d(3) True by auto
    show ?thesis
      using Some d True t assistant_flag [OF t] role_message_assistant [OF d(3)]
      by (auto simp: checkpoint_message_value_def checkpoint_message_of_def continuation_of_def durable type_is)
  qed (use Some d role_message_assistant [OF d(3)]
       in \<open>simp add: checkpoint_message_value_def checkpoint_message_of_def continuation_of_def durable type_is\<close>)
qed (simp add: checkpoint_message_value_def checkpoint_message_of_def continuation_of_def durable)

lemmas optional_continuation [durable] = optional_defined [OF continuation_defined]

lemma outcome_defined [durable]:
  "is_Ok (oneOf v [''completed'', ''aborted'', ''failed'', ''declined''] f) \<longleftrightarrow> enum_of outcome_table v \<noteq> None"
  using enum_defined [of v outcome_table] by (simp add: outcome_table_def)

lemma replay_defined [durable]: "is_Ok (oneOf v [''never'', ''safe''] f) \<longleftrightarrow> enum_of replay_table v \<noteq> None"
  using enum_defined [of v replay_table] by (simp add: replay_table_def)

lemma usage_stop_defined [durable]: "is_Ok (oneOf v usage_stop_reasons f) \<longleftrightarrow> enum_of (tl stop_reason_table) v \<noteq> None"
  using enum_defined [of v "tl stop_reason_table"] by (simp add: usage_stop_reasons_def stop_reason_table_def)

lemma attempt_defined [durable]:
  "is_Ok (all_res [oneOf (map_of r ''step'') [''assistant'', ''branch_summary'', ''compaction''] ''step'',
         integer_value (map_of r ''attempt'') 1 ''attempt'',
         string_value (map_of r ''resultEntryId'') ''resultEntryId'',
         (if map_of r ''step'' = Some (JString ''compaction'')
          then oneOf (map_of r ''compactionReason'') [''manual'', ''threshold'', ''overflow''] ''compactionReason'' else Ok ())])
   \<longleftrightarrow> attempt_of run r \<noteq> None"
proof (cases "string_of (map_of r ''step'')")
  case (Some s)
  have reason: "map_of r ''compactionReason'' \<in> (Some \<circ> JString) ` {''manual'', ''threshold'', ''overflow''}
      \<longleftrightarrow> is_Ok (oneOf (map_of r ''compactionReason'') [''manual'', ''threshold'', ''overflow''] ''compactionReason'')"
    by (simp add: oneOf_string type_is)
  consider "s = ''assistant''" | "s = ''branch_summary''" | "s = ''compaction''" | "s \<notin> {''assistant'', ''branch_summary'', ''compaction''}"
    by blast
  then show ?thesis
  proof cases
    case 3
    then show ?thesis
      unfolding attempt_of_def reason
      by (cases "is_Ok (oneOf (map_of r ''compactionReason'') [''manual'', ''threshold'', ''overflow''] ''compactionReason'')")
        (simp_all add: enum_of_def step_table_def durable type_is Some oneOf_string [of "map_of r ''step''"])
  qed (simp_all add: attempt_of_def enum_of_def step_table_def durable type_is Some oneOf_string)
qed (simp add: attempt_of_def enum_of_def durable type_is oneOf_string)

lemma queue_defined [durable]: "is_Ok (queue_value r) \<longleftrightarrow> queue_of r \<noteq> None"
proof (cases "string_of (map_of r ''queue'')")
  case (Some q)
  show ?thesis
    by (cases "q \<in> {''nextRun'', ''steer'', ''followUp''}")
      (auto simp: queue_value_def queue_of_def enum_of_def queue_table_def durable type_is Some oneOf_string)
qed (simp add: queue_value_def queue_of_def enum_of_def durable type_is oneOf_string)

lemma cause_defined [durable]:
  "is_Ok (usage_record_value r) \<longleftrightarrow> usage_of (map_of r ''usage'') \<noteq> None \<and> cause_of r \<noteq> None"
proof (cases "string_of (map_of r ''cause'')")
  case (Some c)
  consider "c \<in> {''assistant'', ''compaction'', ''branch_summary'', ''deferred_fetch''}" | "c = ''tool''" | "c = ''hook''"
    | "c = ''adjustment''" | "c \<notin> set usage_causes"
    by (auto simp: usage_causes_def)
  then show ?thesis
  proof cases
    case 1
    then show ?thesis
      by (elim insertE) (simp_all add: usage_record_value_def cause_of_def durable type_is Some
          oneOf_string [of "map_of r ''cause''"] usage_causes_def step_usage_table_def)
  next
    case 5
    then show ?thesis
      by (simp add: usage_record_value_def cause_of_def durable type_is Some
          oneOf_string [of "map_of r ''cause''"] usage_causes_def step_usage_table_def)
  qed (simp_all add: usage_record_value_def cause_of_def durable type_is Some
          oneOf_string [of "map_of r ''cause''"] usage_causes_def)
qed (simp add: usage_record_value_def cause_of_def durable oneOf_string)

lemma optional_diagnostic [durable]:
  "string_of c = Some s \<Longrightarrow>
   is_Ok (optional_value v (diagnostic_value c)) \<longleftrightarrow> optional_of (diagnostic_of (Some s)) v \<noteq> None"
  using optional_defined [of "diagnostic_value c" "diagnostic_of (Some s)" v] diagnostic_defined [of c] by simp

lemma reconciliation_defined:
  "is_Ok (all_res
      [string_value (map_of r ''toolCallId'') ''toolCallId'',
       string_value (map_of r ''resultEntryId'') ''resultEntryId'',
       string_value (map_of r ''reason'') ''reason'',
       optional_value (map_of r ''diagnostic'') (diagnostic_value (map_of r ''toolCallId''))])
   \<longleftrightarrow> run_body_of ''tool_reconciliation'' run r \<noteq> None"
  by (cases "string_of (map_of r ''toolCallId'')")
    (simp_all add: run_body_of_def durable)

definition run_types :: "string list" where
  "run_types = [''abort_requested'', ''pause_requested'', ''pause_cleared'', ''operation_finished'', ''step_attempt'', ''tool_started'',
     ''tool_reconciliation'', ''tool_reconciled'', ''assistant_checkpoint'', ''write_deferred'']"

lemma run_record_defined:
  assumes "string_of (map_of r ''type'') = Some ty" and "ty \<in> set run_types"
  shows "is_Ok (record_checks r) \<longleftrightarrow> run_body_of ty run r \<noteq> None"
proof (cases "ty \<in> {''step_attempt'', ''tool_reconciliation''}")
  case True
  then show ?thesis
    using attempt_defined [of r run] reconciliation_defined [of r run] assms(1)
    by (elim insertE) (simp_all add: record_checks_def type_is run_body_of_def del: all_res.simps)
next
  case False
  then show ?thesis
    using assms(2) unfolding run_types_def list.set
    by (elim insertE) (simp_all add: record_checks_def type_is assms(1) run_body_of_def durable checkpoint_of_def tool_start_of_def)
qed

lemma record_checks_defined:
  assumes "string_of (map_of r ''type'') = Some ty"
  shows "is_Ok (record_checks r) \<and> (without_run (map_of r ''type'') \<or> string_of (map_of r ''runId'') \<noteq> None)
    \<longleftrightarrow> record_body_of ty r \<noteq> None"
proof -
  have without: "without_run (map_of r ''type'') \<longleftrightarrow> ty \<in> {''operation_started'', ''queue_enqueued'', ''queue_cancelled'', ''usage''}"
    using assms by (auto simp: without_run_def type_is)
  consider "ty \<in> {''operation_started'', ''queue_enqueued'', ''queue_cancelled'', ''usage''}" | "ty \<in> set run_types"
    | "ty \<notin> {''operation_started'', ''queue_enqueued'', ''queue_cancelled'', ''usage''}" "ty \<notin> set run_types"
    by blast
  then show ?thesis
  proof cases
    case 1
    then show ?thesis
      unfolding without
      by (elim insertE) (simp_all add: record_checks_def type_is assms record_body_of_def durable)
  next
    case 2
    have "ty \<notin> {''operation_started'', ''queue_enqueued'', ''queue_cancelled'', ''usage''}"
      using 2 by (auto simp: run_types_def)
    then show ?thesis
      unfolding without using run_record_defined [OF assms 2]
      by (simp add: record_body_of_def bind_defined) blast
  next
    case 3
    then show ?thesis
      unfolding without
      by (simp add: record_checks_def type_is assms record_body_of_def run_types_def run_body_of_def bind_defined)
  qed
qed

lemma record_defined: "is_Ok (assertDurableRecord v) \<longleftrightarrow> record_of v \<noteq> None"
proof (cases "object_of v")
  case (Some r)
  show ?thesis
  proof (cases "string_of (map_of r ''type'')")
    case ty: (Some ty)
    show ?thesis
      using record_checks_defined [OF ty]
      by (auto simp: assertDurableRecord_def record_of_def durable Some ty)
  qed (simp add: assertDurableRecord_def record_of_def record_checks_def type_is durable Some)
qed (simp add: assertDurableRecord_def record_of_def durable)


end
