(* ===== verification/NumberText.thy ===== *)
theory NumberText
  imports JsNumber
begin

text \<open>
  Numbers as text: the decimal digits of the safe integers, and the grammar of number tokens. The
  text of a double that is not a safe integer, and the double a token denotes, are arguments of
  the definitions; \<open>faithful_floats\<close> is the guarantee of the language that the second inverts
  the first.
\<close>

section \<open>Writing\<close>

fun nat_text :: "nat \<Rightarrow> string" where
  "nat_text n = (if n < 10 then [char_of (48 + n)] else nat_text (n div 10) @ [char_of (48 + n mod 10)])"

declare nat_text.simps [simp del]

fun number_text :: "(64 word \<Rightarrow> string) \<Rightarrow> js_number \<Rightarrow> string" where
  "number_text float_text (JInt i) = (if i < 0 then ''-'' @ nat_text (nat (- i)) else nat_text (nat i))"
| "number_text float_text (JFloat b) = float_text b"

section \<open>Reading\<close>

definition is_digit :: "char \<Rightarrow> bool" where
  "is_digit c \<longleftrightarrow> 48 \<le> (of_char c :: nat) \<and> (of_char c :: nat) \<le> 57"

definition digit_value :: "char \<Rightarrow> nat" where
  "digit_value c = of_char c - 48"

definition digits_value :: "string \<Rightarrow> nat" where
  "digits_value ds = foldl (\<lambda>n d. 10 * n + digit_value d) 0 ds"

definition is_number_char :: "char \<Rightarrow> bool" where
  "is_number_char c \<longleftrightarrow> is_digit c \<or> c \<in> {CHR ''+'', CHR ''-'', CHR ''.'', CHR ''e'', CHR ''E''}"

fun unsigned_part :: "string \<Rightarrow> string" where
  "unsigned_part [] = []"
| "unsigned_part (c # cs) = (if c = CHR ''-'' then cs else c # cs)"

fun skip_sign :: "string \<Rightarrow> string" where
  "skip_sign [] = []"
| "skip_sign (c # cs) = (if c = CHR ''+'' \<or> c = CHR ''-'' then cs else c # cs)"

fun exponent_ok :: "string \<Rightarrow> bool" where
  "exponent_ok [] \<longleftrightarrow> True"
| "exponent_ok (c # cs) \<longleftrightarrow> (c = CHR ''e'' \<or> c = CHR ''E'') \<and> skip_sign cs \<noteq> [] \<and> list_all is_digit (skip_sign cs)"

fun fraction_ok :: "string \<Rightarrow> bool" where
  "fraction_ok [] \<longleftrightarrow> True"
| "fraction_ok (c # cs) \<longleftrightarrow>
     (if c = CHR ''.'' then takeWhile is_digit cs \<noteq> [] \<and> exponent_ok (dropWhile is_digit cs)
      else exponent_ok (c # cs))"

definition number_grammar :: "string \<Rightarrow> bool" where
  "number_grammar tok \<longleftrightarrow>
     (let ip = takeWhile is_digit (unsigned_part tok)
      in ip \<noteq> [] \<and> (hd ip = CHR ''0'' \<longrightarrow> length ip = 1) \<and> fraction_ok (dropWhile is_digit (unsigned_part tok)))"

definition integer_token :: "string \<Rightarrow> int option" where
  "integer_token tok =
     (let u = unsigned_part tok; v = int (digits_value u); i = (if u = tok then v else - v)
      in if list_all is_digit u \<and> safe_int i \<and> tok \<noteq> ''-0'' then Some i else None)"

definition number_of_token :: "(string \<Rightarrow> 64 word) \<Rightarrow> string \<Rightarrow> js_number option" where
  "number_of_token parse_float tok =
     (if number_grammar tok
      then (case integer_token tok of Some i \<Rightarrow> Some (JInt i) | None \<Rightarrow> Some (number_of_float (parse_float tok)))
      else None)"

section \<open>Integers are read back\<close>

lemma of_char_digit: "n < 10 \<Longrightarrow> (of_char (char_of (48 + n) :: char) :: nat) = 48 + n" for n :: nat
  by simp

lemma is_digit_char: "n < 10 \<Longrightarrow> is_digit (char_of (48 + n))" for n :: nat
  by (simp add: is_digit_def)

lemma digits_value_snoc: "digits_value (ds @ [d]) = 10 * digits_value ds + digit_value d"
  by (simp add: digits_value_def)

lemma nat_text_digits: "list_all is_digit (nat_text n)"
proof (induction n rule: nat_text.induct)
  case (1 n)
  then show ?case
    by (subst nat_text.simps) (auto simp: is_digit_char)
qed

lemma nat_text_value: "digits_value (nat_text n) = n"
proof (induction n rule: nat_text.induct)
  case (1 n)
  show ?case
  proof (cases "n < 10")
    case True
    then show ?thesis
      by (subst nat_text.simps) (simp add: digits_value_def digit_value_def)
  next
    case False
    then show ?thesis
      using 1 by (subst nat_text.simps) (simp add: digits_value_snoc digit_value_def)
  qed
qed

lemma nat_text_nonempty [simp]: "nat_text n \<noteq> []"
  by (subst nat_text.simps) simp

lemma nat_text_leading: "hd (nat_text n) = CHR ''0'' \<Longrightarrow> n = 0"
proof (induction n rule: nat_text.induct)
  case (1 n)
  show ?case
  proof (cases "n < 10")
    case True
    then have "char_of (48 + n) = CHR ''0''"
      using 1(2) by (subst (asm) nat_text.simps) simp
    then have "(of_char (char_of (48 + n) :: char) :: nat) = of_char CHR ''0''"
      by (rule arg_cong)
    with True show ?thesis
      by (simp add: of_char_digit)
  next
    case False
    then have "hd (nat_text (n div 10)) = CHR ''0''"
      using 1(2) by (subst (asm) nat_text.simps) simp
    with 1(1) False show ?thesis
      by simp
  qed
qed

lemma nat_text_zero: "nat_text 0 = ''0''"
proof -
  have "char_of (48 :: nat) = CHR ''0''"
    by code_simp
  then show ?thesis
    by (simp add: nat_text.simps)
qed

lemma digit_not_minus: "is_digit c \<Longrightarrow> c \<noteq> CHR ''-''"
  by (auto simp: is_digit_def)

lemma unsigned_nat_text [simp]: "unsigned_part (nat_text n) = nat_text n"
  using nat_text_digits [of n] digit_not_minus by (cases "nat_text n") auto

lemma grammar_digits:
  assumes "unsigned_part tok = nat_text n"
  shows "number_grammar tok"
proof -
  have all: "takeWhile is_digit (nat_text n) = nat_text n" "dropWhile is_digit (nat_text n) = []"
    using nat_text_digits [of n] by (simp_all add: list_all_iff takeWhile_eq_all_conv dropWhile_eq_Nil_conv)
  have "length (nat_text n) = 1" if "hd (nat_text n) = CHR ''0''"
    using nat_text_leading [OF that] by (simp add: nat_text_zero)
  then show ?thesis
    unfolding number_grammar_def Let_def assms all by simp
qed

lemma integer_text_read:
  assumes "safe_int i"
  shows "number_of_token pf (number_text ft (JInt i)) = Some (JInt i)"
proof (cases "i < 0")
  case True
  have "nat_text (nat (- i)) \<noteq> ''0''"
  proof
    assume "nat_text (nat (- i)) = ''0''"
    then have "nat (- i) = 0"
      using nat_text_leading [of "nat (- i)"] by simp
    with True show False by simp
  qed
  then show ?thesis
    using True assms grammar_digits [of "CHR ''-'' # nat_text (nat (- i))" "nat (- i)"] nat_text_digits [of "nat (- i)"]
    by (simp add: number_of_token_def integer_token_def nat_text_value Let_def)
next
  case False
  have "nat_text (nat i) \<noteq> ''-0''"
    using nat_text_digits [of "nat i"] by (auto simp: is_digit_def)
  then show ?thesis
    using False assms grammar_digits [of "nat_text (nat i)" "nat i"] nat_text_digits [of "nat i"]
    by (simp add: number_of_token_def integer_token_def nat_text_value Let_def)
qed

text \<open>The text of a double is a number token that denotes the double.\<close>

definition faithful_floats :: "(64 word \<Rightarrow> string) \<Rightarrow> (string \<Rightarrow> 64 word) \<Rightarrow> bool" where
  "faithful_floats ft pf \<longleftrightarrow>
     (\<forall>b. float_is_finite b \<and> number_of_float b = JFloat b \<and> b \<noteq> neg_zero
        \<longrightarrow> list_all is_number_char (ft b) \<and> number_of_token pf (ft b) = Some (JFloat b))"

text \<open>Such a pair exists: write a double as an integer beyond the safe range.\<close>

definition sample_float_text :: "64 word \<Rightarrow> string" where
  "sample_float_text b = nat_text (2 ^ 53 + unat b)"

definition sample_parse_float :: "string \<Rightarrow> 64 word" where
  "sample_parse_float tok = of_nat (digits_value tok - 2 ^ 53)"

lemma sample_floats_faithful: "faithful_floats sample_float_text sample_parse_float"
  unfolding faithful_floats_def
proof (intro allI impI conjI, elim conjE)
  fix b :: "64 word"
  show "list_all is_number_char (sample_float_text b)"
    using nat_text_digits [of "2 ^ 53 + unat b"] by (auto simp: sample_float_text_def list_all_iff is_number_char_def)
next
  fix b :: "64 word"
  assume b: "float_is_finite b \<and> number_of_float b = JFloat b \<and> b \<noteq> neg_zero"
  have "\<not> 1 + uint b \<le> 0"
    using uint_nat [of b] by linarith
  then have "integer_token (nat_text (2 ^ 53 + unat b)) = None"
    by (simp add: integer_token_def nat_text_value safe_int_def max_safe_integer_def Let_def)
  then show "number_of_token sample_parse_float (sample_float_text b) = Some (JFloat b)"
    using b grammar_digits [of "nat_text (2 ^ 53 + unat b)" "2 ^ 53 + unat b"]
    by (simp add: number_of_token_def sample_float_text_def sample_parse_float_def nat_text_value)
qed

end
