(* ===== verification/SessionContext.thy ===== *)
theory SessionContext
  imports SessionTypes NumberText
begin

text \<open>
  The context of a model call, built from the entries on a branch
  (\<open>packages/agent/src/harness/session/context.ts\<close>), and the conversion of the agent's messages to
  the messages a model accepts (\<open>packages/agent/src/harness/messages.ts\<close>). The transforms and the
  projectors of custom entries that an application registers are arguments. The optional
  properties of a bash execution that only the conversion reads are looked up among the carried
  properties of the message. The text of a number that is not a safe integer is an argument.
\<close>

section \<open>Texts\<close>

abbreviation line_break :: string where
  "line_break \<equiv> [CHR 0x0A]"

abbreviation backtick :: string where
  "backtick \<equiv> [CHR 0x60]"

definition COMPACTION_SUMMARY_PREFIX :: string where
  "COMPACTION_SUMMARY_PREFIX =
     ''The conversation history before this point was compacted into the following summary:'' @ line_break @ line_break
     @ ''<summary>'' @ line_break"

definition COMPACTION_SUMMARY_SUFFIX :: string where
  "COMPACTION_SUMMARY_SUFFIX = line_break @ ''</summary>''"

definition BRANCH_SUMMARY_PREFIX :: string where
  "BRANCH_SUMMARY_PREFIX =
     ''The following is a summary of a branch that this conversation came back from:'' @ line_break @ line_break
     @ ''<summary>'' @ line_break"

definition BRANCH_SUMMARY_SUFFIX :: string where
  "BRANCH_SUMMARY_SUFFIX = ''</summary>''"

fun string_property :: "json_fields \<Rightarrow> string \<Rightarrow> string" where
  "string_property fs k = (case map_of fs k of Some (JString s) \<Rightarrow> s | _ \<Rightarrow> '''')"

definition num_is_zero :: "js_number \<Rightarrow> bool" where
  "num_is_zero n \<longleftrightarrow> num_is_integer n \<and> num_int n = 0"

definition bashExecutionToText :: "(64 word \<Rightarrow> string) \<Rightarrow> bash_execution_message \<Rightarrow> string" where
  "bashExecutionToText float_text msg =
     ''Ran '' @ backtick @ be_command msg @ backtick @ line_break
     @ (if be_output msg \<noteq> '''' then backtick @ backtick @ backtick @ line_break @ be_output msg @ line_break @ backtick @ backtick @ backtick
        else ''(no output)'')
     @ (if be_cancelled msg then line_break @ line_break @ ''(command cancelled)''
        else case be_exitCode msg of
            Some c \<Rightarrow> (if num_is_zero c then '''' else line_break @ line_break @ ''Command exited with code '' @ number_text float_text c)
          | None \<Rightarrow> '''')
     @ (if be_truncated msg \<and> string_property (be_extra msg) ''fullOutputPath'' \<noteq> ''''
        then line_break @ line_break @ ''[Output truncated. Full output: '' @ string_property (be_extra msg) ''fullOutputPath'' @ '']''
        else '''')"

definition createBranchSummaryMessage :: "string \<Rightarrow> string \<Rightarrow> js_number \<Rightarrow> agent_message" where
  "createBranchSummaryMessage summary fromId timestamp = BranchSummaryMessage summary fromId timestamp []"

definition createCompactionSummaryMessage :: "string \<Rightarrow> js_number \<Rightarrow> js_number \<Rightarrow> agent_message" where
  "createCompactionSummaryMessage summary tokensBefore timestamp = CompactionSummaryMessage summary tokensBefore timestamp []"

definition createCustomMessage :: "string \<Rightarrow> user_content \<Rightarrow> bool \<Rightarrow> json option \<Rightarrow> js_number \<Rightarrow> agent_message" where
  "createCustomMessage customType cont display details timestamp =
     CustomMessage customType cont display timestamp (case details of None \<Rightarrow> [] | Some d \<Rightarrow> [(''details'', d)])"

section \<open>Messages for the model\<close>

definition user_text :: "string \<Rightarrow> js_number \<Rightarrow> agent_message" where
  "user_text t timestamp = UserMessage (ContentBlocks [TextBlock t []]) timestamp []"

fun convert_message :: "(64 word \<Rightarrow> string) \<Rightarrow> agent_message \<Rightarrow> agent_message option" where
  "convert_message ft (BashExecutionMessage m) =
     (if map_of (be_extra m) ''excludeFromContext'' = Some (JBool True) then None
      else Some (user_text (bashExecutionToText ft m) (be_timestamp m)))"
| "convert_message ft (CustomMessage ty c d t e) =
     Some (UserMessage (ContentBlocks (case c of ContentText s \<Rightarrow> [TextBlock s []] | ContentBlocks bs \<Rightarrow> bs)) t [])"
| "convert_message ft (BranchSummaryMessage s f t e) =
     Some (user_text (BRANCH_SUMMARY_PREFIX @ s @ BRANCH_SUMMARY_SUFFIX) t)"
| "convert_message ft (CompactionSummaryMessage s n t e) =
     Some (user_text (COMPACTION_SUMMARY_PREFIX @ s @ COMPACTION_SUMMARY_SUFFIX) t)"
| "convert_message ft (UserMessage c t e) = Some (UserMessage c t e)"
| "convert_message ft (AssistantMessage m) = Some (AssistantMessage m)"
| "convert_message ft (ToolResultMessage m) = Some (ToolResultMessage m)"
| "convert_message ft (ApplicationMessage r e) = None"

definition convertToLlm :: "(64 word \<Rightarrow> string) \<Rightarrow> agent_message list \<Rightarrow> agent_message list" where
  "convertToLlm ft messages = List.map_filter (convert_message ft) messages"

section \<open>The session context\<close>

record session_context =
  sc_messages :: "agent_message list"
  sc_thinkingLevel :: string
  sc_model :: "(string \<times> string) option"
  sc_activeToolNames :: "string list option"

record context_state =
  cs_thinkingLevel :: string
  cs_model :: "(string \<times> string) option"
  cs_activeToolNames :: "string list option"

type_synonym projector = "entry \<Rightarrow> nat \<Rightarrow> entry list \<Rightarrow> agent_message list option"

record context_options =
  co_entryTransforms :: "(entry list \<Rightarrow> entry list) list"
  co_entryProjectors :: "string \<Rightarrow> projector option"

definition no_options :: context_options where
  "no_options = \<lparr>co_entryTransforms = [], co_entryProjectors = (\<lambda>_. None)\<rparr>"

definition initial_context_state :: context_state where
  "initial_context_state = \<lparr>cs_thinkingLevel = ''off'', cs_model = None, cs_activeToolNames = None\<rparr>"

fun context_step :: "context_state \<Rightarrow> entry_body \<Rightarrow> context_state" where
  "context_step s (ThinkingLevelEntry l) = s\<lparr>cs_thinkingLevel := l\<rparr>"
| "context_step s (ModelChangeEntry p m) = s\<lparr>cs_model := Some (p, m)\<rparr>"
| "context_step s (MessageEntry (AssistantMessage m) t) = s\<lparr>cs_model := Some (am_provider m, am_model m)\<rparr>"
| "context_step s (ActiveToolsEntry ns) = s\<lparr>cs_activeToolNames := Some ns\<rparr>"
| "context_step s b = s"

definition deriveSessionContextState :: "entry list \<Rightarrow> context_state" where
  "deriveSessionContextState path = foldl (\<lambda>s e. context_step s (e_body e)) initial_context_state path"

definition is_compaction :: "entry \<Rightarrow> bool" where
  "is_compaction e \<longleftrightarrow> entry_type (e_body e) = ''compaction''"

text \<open>The loop from the newest entry down; \<open>n\<close> entries are left to look at.\<close>

fun last_compaction :: "entry list \<Rightarrow> nat \<Rightarrow> nat option" where
  "last_compaction path 0 = None"
| "last_compaction path (Suc n) = (if is_compaction (path ! n) then Some n else last_compaction path n)"

definition defaultContextEntryTransform :: "entry list \<Rightarrow> entry list" where
  "defaultContextEntryTransform path =
     (case last_compaction path (length path) of
        None \<Rightarrow> path
      | Some i \<Rightarrow> path ! i # drop (i + 1) path)"

definition buildContextEntries :: "entry list \<Rightarrow> context_options \<Rightarrow> entry list" where
  "buildContextEntries path options =
     foldl (\<lambda>es f. f es) (defaultContextEntryTransform path) (co_entryTransforms options)"

definition sessionEntryToContextMessages :: "context_options \<Rightarrow> entry list \<Rightarrow> entry \<Rightarrow> nat \<Rightarrow> agent_message list" where
  "sessionEntryToContextMessages options entries e index =
     (case e_body e of
        MessageEntry (AssistantMessage m) t \<Rightarrow>
          (if am_stopReason m = SR_deferred then [] else [AssistantMessage m])
      | MessageEntry m t \<Rightarrow> [m]
      | CompactionEntry summary tail tokens u \<Rightarrow>
          createCompactionSummaryMessage summary tokens (JInt (int (e_timestamp e))) # tail
      | BranchSummaryEntry fromId summary u \<Rightarrow>
          (if summary \<noteq> '''' then [createBranchSummaryMessage summary fromId (JInt (int (e_timestamp e)))] else [])
      | CustomEntry ty \<Rightarrow>
          (case co_entryProjectors options ty of
             None \<Rightarrow> []
           | Some project \<Rightarrow> (case project e index entries of None \<Rightarrow> [] | Some ms \<Rightarrow> ms))
      | _ \<Rightarrow> [])"

definition buildSessionContext :: "entry list \<Rightarrow> context_options \<Rightarrow> session_context" where
  "buildSessionContext path options =
     (let state = deriveSessionContextState path;
          entries = buildContextEntries path options
      in \<lparr>sc_messages = concat (map (\<lambda>(i, e). sessionEntryToContextMessages options entries e i) (enumerate 0 entries)),
          sc_thinkingLevel = cs_thinkingLevel state, sc_model = cs_model state,
          sc_activeToolNames = cs_activeToolNames state\<rparr>)"

end
