(* ===== verification/SessionContextCorrect.thy ===== *)
theory SessionContextCorrect
  imports SessionContext
begin

text \<open>
  What a model sees of a session. The context of a branch grows with the branch: every new entry
  adds its own messages at the end, except that a compaction replaces everything before it.
\<close>

section \<open>The newest compaction\<close>

lemma last_compaction_None: "last_compaction path n = None \<longleftrightarrow> (\<forall>i<n. \<not> is_compaction (path ! i))"
  by (induction n) (auto simp: less_Suc_eq)

lemma last_compaction_Some:
  "last_compaction path n = Some i \<longleftrightarrow> i < n \<and> is_compaction (path ! i) \<and> (\<forall>j. i < j \<and> j < n \<longrightarrow> \<not> is_compaction (path ! j))"
proof (induction n)
  case (Suc n)
  show ?case
  proof (cases "is_compaction (path ! n)")
    case True
    then show ?thesis
      by (auto simp: less_Suc_eq)
  next
    case False
    then show ?thesis
      using Suc by (auto simp: less_Suc_eq)
  qed
qed simp

lemma last_compaction_append:
  "n \<le> length path \<Longrightarrow> last_compaction (path @ ys) n = last_compaction path n"
  by (induction n) (auto simp: nth_append)

lemma transform_snoc:
  "defaultContextEntryTransform (path @ [e])
   = (if is_compaction e then [e] else defaultContextEntryTransform path @ [e])"
proof -
  have "last_compaction (path @ [e]) (length (path @ [e]))
      = (if is_compaction e then Some (length path) else last_compaction path (length path))"
    by (simp add: last_compaction_append)
  moreover have "i < length path" if "last_compaction path (length path) = Some i" for i
    using that by (simp add: last_compaction_Some)
  ultimately show ?thesis
    by (cases "last_compaction path (length path)") (simp_all add: defaultContextEntryTransform_def nth_append)
qed

text \<open>Without transforms, and with projectors that look at the entry only, an entry's messages do not depend
  on where it stands.\<close>

definition plain_options :: "context_options \<Rightarrow> bool" where
  "plain_options options \<longleftrightarrow> co_entryTransforms options = []
     \<and> (\<forall>ty p e i es. co_entryProjectors options ty = Some p \<longrightarrow> p e i es = p e 0 [])"

lemma projection_local:
  assumes "plain_options options"
  shows "sessionEntryToContextMessages options entries e i = sessionEntryToContextMessages options [] e 0"
proof -
  have "(case co_entryProjectors options ty of None \<Rightarrow> [] | Some p \<Rightarrow> (case p e i entries of None \<Rightarrow> [] | Some ms \<Rightarrow> ms))
      = (case co_entryProjectors options ty of None \<Rightarrow> [] | Some p \<Rightarrow> (case p e 0 [] of None \<Rightarrow> [] | Some ms \<Rightarrow> ms))" for ty
    using assms unfolding plain_options_def by (cases "co_entryProjectors options ty") (auto, metis)
  then show ?thesis
    by (cases "e_body e") (simp_all add: sessionEntryToContextMessages_def)
qed

lemma context_messages:
  assumes "plain_options options"
  shows "sc_messages (buildSessionContext path options)
    = concat (map (\<lambda>e. sessionEntryToContextMessages options [] e 0) (defaultContextEntryTransform path))"
proof -
  let ?es = "buildContextEntries path options"
  have "(\<lambda>(i, e). sessionEntryToContextMessages options ?es e i) = (\<lambda>e. sessionEntryToContextMessages options [] e 0) \<circ> snd"
    by (intro ext, unfold comp_def split_beta) (rule projection_local [OF assms])
  then have "map (\<lambda>(i, e). sessionEntryToContextMessages options ?es e i) (enumerate 0 ?es)
      = map (\<lambda>e. sessionEntryToContextMessages options [] e 0) (map snd (enumerate 0 ?es))"
    by (simp only: map_map)
  moreover have "?es = defaultContextEntryTransform path"
    using assms by (simp add: buildContextEntries_def plain_options_def)
  ultimately show ?thesis
    by (simp add: buildSessionContext_def Let_def)
qed

lemma convertToLlm_append: "convertToLlm ft (xs @ ys) = convertToLlm ft xs @ convertToLlm ft ys"
  by (simp add: convertToLlm_def map_filter_def)

lemma convert_message_role:
  "convert_message ft m = Some m' \<Longrightarrow> message_role m' \<in> {''user'', ''assistant'', ''toolResult''}"
  by (cases m) (auto simp: user_text_def split: if_splits)

lemma convertToLlm_roles:
  assumes "m \<in> set (convertToLlm ft ms)"
  shows "message_role m \<in> {''user'', ''assistant'', ''toolResult''}"
proof -
  obtain m' where "convert_message ft m' = Some m"
    using assms by (auto simp: convertToLlm_def map_filter_def)
  then show ?thesis
    by (rule convert_message_role)
qed


definition sample_entry :: "entry_body \<Rightarrow> entry" where
  "sample_entry b = \<lparr>e_id = ''e'', e_seq = 1, e_parentId = None, e_timestamp = 7, e_body = b, e_extra = []\<rparr>"


end
