(* ===== verification/JsonForm.thy ===== *)
theory JsonForm
  imports ValidationCorrect
begin

text \<open>
  The JSON form of the session data. A JavaScript object of the program is its list of properties;
  this theory writes the typed values of \<open>SessionTypes\<close> as such objects, says which typed values
  are well formed, and shows that reading the written object gives the value back.
\<close>

section \<open>Objects\<close>

text \<open>An optional property is present only when it has a value.\<close>

fun optional_field :: "string \<Rightarrow> ('a \<Rightarrow> json) \<Rightarrow> 'a option \<Rightarrow> json_fields" where
  "optional_field k f None = []"
| "optional_field k f (Some x) = [(k, f x)]"

fun flag_field :: "string \<Rightarrow> bool \<Rightarrow> json_fields" where
  "flag_field k b = (if b then [(k, JBool True)] else [])"

fun nullable_json :: "string option \<Rightarrow> json" where
  "nullable_json None = JNull"
| "nullable_json (Some s) = JString s"

abbreviation nat_json :: "nat \<Rightarrow> json" where
  "nat_json n \<equiv> JNumber (JInt (int n))"

text \<open>The carried properties of an object are none of those its type names, and come once each.\<close>

definition fresh :: "string list \<Rightarrow> json_fields \<Rightarrow> bool" where
  "fresh keys extra \<longleftrightarrow> list_all (\<lambda>k. map_of extra k = None) keys"

lemma fresh_simps [simp]:
  "fresh [] extra" "fresh (k # ks) extra \<longleftrightarrow> map_of extra k = None \<and> fresh ks extra"
  by (simp_all add: fresh_def)

lemma rest_of_simps [simp]:
  "rest_of keys [] = []"
  "rest_of keys ((k, v) # fs) = (if k \<in> set keys then rest_of keys fs else (k, v) # rest_of keys fs)"
  "rest_of keys (fs @ gs) = rest_of keys fs @ rest_of keys gs"
  by (simp_all add: rest_of_def)

lemma rest_fresh: "fresh keys extra \<Longrightarrow> rest_of keys extra = extra"
  by (auto simp: rest_of_def fresh_def list_all_iff map_of_eq_None_iff intro!: filter_True)

lemma rest_optional [simp]: "k \<in> set keys \<Longrightarrow> rest_of keys (optional_field k f v) = []"
  "k \<in> set keys \<Longrightarrow> rest_of keys (flag_field k b) = []"
  by (cases v) (simp_all add: flag_field.simps)

declare map_of_append [simp del] flag_field.simps [simp del]

lemma map_of_optional [simp]:
  "k \<noteq> k' \<Longrightarrow> map_of (optional_field k f v @ gs) k' = map_of gs k'"
  "map_of gs k = None \<Longrightarrow> map_of (optional_field k f v @ gs) k = map_option f v"
  "k \<noteq> k' \<Longrightarrow> map_of (flag_field k b @ gs) k' = map_of gs k'"
  "map_of gs k = None \<Longrightarrow> map_of (flag_field k b @ gs) k = (if b then Some (JBool True) else None)"
  by (cases v; simp add: flag_field.simps)+

section \<open>Writing values\<close>

definition cost_json :: "usage_cost \<Rightarrow> json" where
  "cost_json c = JObject [(''input'', JNumber (cost_input c)), (''output'', JNumber (cost_output c)),
     (''cacheRead'', JNumber (cost_cacheRead c)), (''cacheWrite'', JNumber (cost_cacheWrite c)), (''total'', JNumber (cost_total c))]"

definition usage_json :: "usage \<Rightarrow> json" where
  "usage_json u = JObject ([(''input'', JNumber (u_input u)), (''output'', JNumber (u_output u)),
     (''cacheRead'', JNumber (u_cacheRead u)), (''cacheWrite'', JNumber (u_cacheWrite u))]
     @ optional_field ''cacheWrite1h'' JNumber (u_cacheWrite1h u) @ optional_field ''reasoning'' JNumber (u_reasoning u)
     @ [(''totalTokens'', JNumber (u_totalTokens u)), (''cost'', cost_json (u_cost u))])"

fun block_fields :: "content_block \<Rightarrow> json_fields" where
  "block_fields (TextBlock t e) = [(''type'', JString ''text''), (''text'', JString t)] @ e"
| "block_fields (ImageBlock d m e) = [(''type'', JString ''image''), (''data'', JString d), (''mimeType'', JString m)] @ e"
| "block_fields (ThinkingBlock t e) = [(''type'', JString ''thinking''), (''thinking'', JString t)] @ e"
| "block_fields (ToolCallBlock c) = [(''type'', JString ''toolCall''), (''id'', JString (tc_id c)), (''name'', JString (tc_name c)),
     (''arguments'', JObject (tc_arguments c))] @ tc_extra c"

definition blocks_json :: "content_block list \<Rightarrow> json" where
  "blocks_json bs = JArray (map (JObject \<circ> block_fields) bs)"

fun content_json :: "user_content \<Rightarrow> json" where
  "content_json (ContentText s) = JString s"
| "content_json (ContentBlocks bs) = blocks_json bs"

fun stop_reason_text :: "stop_reason \<Rightarrow> string" where
  "stop_reason_text SR_pending = ''pending''"
| "stop_reason_text SR_stop = ''stop''"
| "stop_reason_text SR_length = ''length''"
| "stop_reason_text SR_toolUse = ''toolUse''"
| "stop_reason_text SR_error = ''error''"
| "stop_reason_text SR_aborted = ''aborted''"
| "stop_reason_text SR_deferred = ''deferred''"

definition handle_json :: "deferred_handle \<Rightarrow> json" where
  "handle_json h = JObject ([(''provider'', JString (dh_provider h)), (''modelId'', JString (dh_modelId h)), (''api'', JString (dh_api h)),
     (''id'', JString (dh_id h))] @ optional_field ''expiresAt'' JNumber (dh_expiresAt h)
     @ optional_field ''pollAfterMs'' JNumber (dh_pollAfterMs h) @ dh_extra h)"

definition assistant_fields :: "assistant_message \<Rightarrow> json_fields" where
  "assistant_fields m = [(''role'', JString ''assistant''), (''content'', blocks_json (am_content m)), (''api'', JString (am_api m)),
     (''provider'', JString (am_provider m)), (''model'', JString (am_model m)), (''usage'', usage_json (am_usage m)),
     (''stopReason'', JString (stop_reason_text (am_stopReason m)))]
     @ flag_field ''isResponseCheckpoint'' (am_isResponseCheckpoint m) @ optional_field ''deferred'' handle_json (am_deferred m)
     @ [(''timestamp'', JNumber (am_timestamp m))] @ am_extra m"

definition tool_result_fields :: "tool_result_message \<Rightarrow> json_fields" where
  "tool_result_fields m = [(''role'', JString ''toolResult''), (''toolCallId'', JString (tr_toolCallId m)), (''toolName'', JString (tr_toolName m)),
     (''content'', blocks_json (tr_content m)), (''isError'', JBool (tr_isError m))]
     @ optional_field ''usage'' usage_json (tr_usage m) @ [(''timestamp'', JNumber (tr_timestamp m))] @ tr_extra m"

definition bash_fields :: "bash_execution_message \<Rightarrow> json_fields" where
  "bash_fields m = [(''role'', JString ''bashExecution''), (''command'', JString (be_command m)), (''output'', JString (be_output m))]
     @ optional_field ''exitCode'' JNumber (be_exitCode m)
     @ [(''cancelled'', JBool (be_cancelled m)), (''truncated'', JBool (be_truncated m)), (''timestamp'', JNumber (be_timestamp m))]
     @ be_extra m"

fun message_fields :: "agent_message \<Rightarrow> json_fields" where
  "message_fields (UserMessage c t e) = [(''role'', JString ''user''), (''content'', content_json c), (''timestamp'', JNumber t)] @ e"
| "message_fields (AssistantMessage m) = assistant_fields m"
| "message_fields (ToolResultMessage m) = tool_result_fields m"
| "message_fields (BashExecutionMessage m) = bash_fields m"
| "message_fields (CustomMessage ty c d t e) = [(''role'', JString ''custom''), (''customType'', JString ty), (''content'', content_json c),
     (''display'', JBool d), (''timestamp'', JNumber t)] @ e"
| "message_fields (BranchSummaryMessage s f t e) = [(''role'', JString ''branchSummary''), (''summary'', JString s), (''fromId'', JString f),
     (''timestamp'', JNumber t)] @ e"
| "message_fields (CompactionSummaryMessage s n t e) = [(''role'', JString ''compactionSummary''), (''summary'', JString s),
     (''tokensBefore'', JNumber n), (''timestamp'', JNumber t)] @ e"
| "message_fields (ApplicationMessage r e) = [(''role'', JString r)] @ e"

abbreviation message_json :: "agent_message \<Rightarrow> json" where
  "message_json m \<equiv> JObject (message_fields m)"

fun body_fields :: "entry_body \<Rightarrow> json_fields" where
  "body_fields (MessageEntry m t) = [(''message'', message_json m)] @ flag_field ''terminate'' t"
| "body_fields (ModelChangeEntry p m) = [(''provider'', JString p), (''modelId'', JString m)]"
| "body_fields (ThinkingLevelEntry l) = [(''thinkingLevel'', JString l)]"
| "body_fields (ActiveToolsEntry ns) = [(''activeToolNames'', JArray (map JString ns))]"
| "body_fields (CompactionEntry s r n u) = [(''summary'', JString s), (''retainedTail'', JArray (map message_json r)),
     (''tokensBefore'', JNumber n)] @ optional_field ''usage'' usage_json u"
| "body_fields (BranchSummaryEntry f s u) = [(''fromId'', JString f), (''summary'', JString s)] @ optional_field ''usage'' usage_json u"
| "body_fields (CustomEntry ty) = [(''customType'', JString ty)]"

definition provisioned_json :: "provisioned_entry \<Rightarrow> json" where
  "provisioned_json e = JObject ([(''id'', JString (pe_id e)), (''type'', JString (entry_type (pe_body e)))] @ body_fields (pe_body e) @ pe_extra e)"

section \<open>Well-formed values\<close>

definition wf_cost :: "usage_cost \<Rightarrow> bool" where
  "wf_cost c \<longleftrightarrow> num_is_finite (cost_input c) \<and> num_is_finite (cost_output c) \<and> num_is_finite (cost_cacheRead c)
     \<and> num_is_finite (cost_cacheWrite c) \<and> num_is_finite (cost_total c)"

definition wf_usage :: "usage \<Rightarrow> bool" where
  "wf_usage u \<longleftrightarrow> num_is_finite (u_input u) \<and> num_is_finite (u_output u) \<and> num_is_finite (u_cacheRead u) \<and> num_is_finite (u_cacheWrite u)
     \<and> pred_option num_is_finite (u_cacheWrite1h u) \<and> pred_option num_is_finite (u_reasoning u) \<and> num_is_finite (u_totalTokens u)
     \<and> wf_cost (u_cost u)"

fun block_type :: "content_block \<Rightarrow> string" where
  "block_type (TextBlock t e) = ''text''"
| "block_type (ImageBlock d m e) = ''image''"
| "block_type (ThinkingBlock t e) = ''thinking''"
| "block_type (ToolCallBlock c) = ''toolCall''"

fun wf_block :: "content_block \<Rightarrow> bool" where
  "wf_block (TextBlock t e) \<longleftrightarrow> fresh [''type'', ''text''] e"
| "wf_block (ImageBlock d m e) \<longleftrightarrow> fresh [''type'', ''data'', ''mimeType''] e"
| "wf_block (ThinkingBlock t e) \<longleftrightarrow> fresh [''type'', ''thinking''] e"
| "wf_block (ToolCallBlock c) \<longleftrightarrow> fresh [''type'', ''id'', ''name'', ''arguments''] (tc_extra c)"

definition wf_blocks :: "string list \<Rightarrow> content_block list \<Rightarrow> bool" where
  "wf_blocks allowed bs \<longleftrightarrow> list_all (\<lambda>b. wf_block b \<and> block_type b \<in> set allowed) bs"

fun wf_content :: "user_content \<Rightarrow> bool" where
  "wf_content (ContentText s) \<longleftrightarrow> True"
| "wf_content (ContentBlocks bs) \<longleftrightarrow> wf_blocks [''text'', ''image''] bs"

definition wf_handle :: "deferred_handle \<Rightarrow> bool" where
  "wf_handle h \<longleftrightarrow> pred_option num_is_finite (dh_expiresAt h) \<and> pred_option num_is_finite (dh_pollAfterMs h)
     \<and> fresh [''provider'', ''modelId'', ''api'', ''id'', ''expiresAt'', ''pollAfterMs''] (dh_extra h)"

definition wf_assistant :: "assistant_message \<Rightarrow> bool" where
  "wf_assistant m \<longleftrightarrow> wf_blocks [''text'', ''thinking'', ''toolCall''] (am_content m) \<and> wf_usage (am_usage m)
     \<and> pred_option wf_handle (am_deferred m) \<and> num_is_finite (am_timestamp m)
     \<and> fresh [''role'', ''content'', ''api'', ''provider'', ''model'', ''usage'', ''stopReason'', ''isResponseCheckpoint'', ''deferred'', ''timestamp''] (am_extra m)"

definition wf_tool_result :: "tool_result_message \<Rightarrow> bool" where
  "wf_tool_result m \<longleftrightarrow> wf_blocks [''text'', ''image''] (tr_content m) \<and> pred_option wf_usage (tr_usage m) \<and> num_is_finite (tr_timestamp m)
     \<and> fresh [''role'', ''toolCallId'', ''toolName'', ''content'', ''isError'', ''usage'', ''timestamp''] (tr_extra m)"

definition wf_bash :: "bash_execution_message \<Rightarrow> bool" where
  "wf_bash m \<longleftrightarrow> pred_option num_is_finite (be_exitCode m) \<and> num_is_finite (be_timestamp m)
     \<and> fresh [''role'', ''command'', ''output'', ''exitCode'', ''cancelled'', ''truncated'', ''timestamp''] (be_extra m)"

definition core_roles :: "string list" where
  "core_roles = [''user'', ''assistant'', ''toolResult'', ''bashExecution'', ''custom'', ''branchSummary'', ''compactionSummary'']"

fun wf_message :: "agent_message \<Rightarrow> bool" where
  "wf_message (UserMessage c t e) \<longleftrightarrow> wf_content c \<and> num_is_finite t \<and> fresh [''role'', ''content'', ''timestamp''] e"
| "wf_message (AssistantMessage m) \<longleftrightarrow> wf_assistant m"
| "wf_message (ToolResultMessage m) \<longleftrightarrow> wf_tool_result m"
| "wf_message (BashExecutionMessage m) \<longleftrightarrow> wf_bash m"
| "wf_message (CustomMessage ty c d t e) \<longleftrightarrow> wf_content c \<and> num_is_finite t
     \<and> fresh [''role'', ''customType'', ''content'', ''display'', ''timestamp''] e"
| "wf_message (BranchSummaryMessage s f t e) \<longleftrightarrow> num_is_finite t \<and> fresh [''role'', ''summary'', ''fromId'', ''timestamp''] e"
| "wf_message (CompactionSummaryMessage s n t e) \<longleftrightarrow> num_is_finite n \<and> num_is_finite t
     \<and> fresh [''role'', ''summary'', ''tokensBefore'', ''timestamp''] e"
| "wf_message (ApplicationMessage r e) \<longleftrightarrow> r \<notin> set core_roles \<and> fresh [''role''] e"

fun wf_body :: "entry_body \<Rightarrow> bool" where
  "wf_body (MessageEntry m t) \<longleftrightarrow> wf_message m"
| "wf_body (CompactionEntry s r n u) \<longleftrightarrow> list_all wf_message r \<and> num_is_finite n \<and> pred_option wf_usage u"
| "wf_body (BranchSummaryEntry f s u) \<longleftrightarrow> pred_option wf_usage u"
| "wf_body b \<longleftrightarrow> True"

definition wf_provisioned :: "provisioned_entry \<Rightarrow> bool" where
  "wf_provisioned e \<longleftrightarrow> wf_body (pe_body e) \<and> fresh (''id'' # ''type'' # body_keys (pe_body e)) (pe_extra e)"

section \<open>Reading what was written\<close>

named_theorems json_read

declare array_of.simps [simp del]

lemma optional_of_map:
  assumes "\<And>x. v = Some x \<Longrightarrow> f (Some (g x)) = Some x"
  shows "optional_of f (map_option g v) = Some v"
  using assms by (cases v) auto

lemma optional_number_read: "pred_option num_is_finite v \<Longrightarrow> optional_of number_of (map_option JNumber v) = Some v"
  by (cases v) auto

lemma usage_read [json_read]: "wf_usage u \<Longrightarrow> usage_of (Some (usage_json u)) = Some u"
  by (simp add: usage_json_def usage_of_def cost_json_def wf_usage_def wf_cost_def optional_number_read)

lemma optional_usage_read [json_read]: "pred_option wf_usage u \<Longrightarrow> optional_of usage_of (map_option usage_json u) = Some u"
  by (cases u) (simp_all add: usage_read)

lemma block_read:
  assumes "wf_block b" and "block_type b \<in> set allowed"
  shows "block_of allowed (Some (JObject (block_fields b))) = Some b"
  using assms by (cases b) (simp_all add: block_of_def rest_fresh)

lemma those_map: "list_all (\<lambda>x. f x = Some (g x)) xs \<Longrightarrow> those (map f xs) = Some (map g xs)"
  by (induction xs) simp_all

lemma blocks_read [json_read]: "wf_blocks allowed bs \<Longrightarrow> array_of (block_of allowed) (Some (blocks_json bs)) = Some bs"
  unfolding blocks_json_def wf_blocks_def
  by (induction bs) (simp_all add: block_read array_of.simps)

lemma content_read [json_read]:
  assumes "wf_content c"
  shows "user_content_of (Some (content_json c)) = Some c"
proof (cases c)
  case (ContentBlocks bs)
  have "user_content_of (Some (blocks_json bs)) = map_option ContentBlocks (array_of (block_of [''text'', ''image'']) (Some (blocks_json bs)))"
    by (simp add: blocks_json_def)
  with assms ContentBlocks show ?thesis
    by (simp add: blocks_read)
qed simp

lemma stop_reason_read [json_read]: "enum_of stop_reason_table (Some (JString (stop_reason_text s))) = Some s"
  by (cases s) (simp_all add: enum_of_def stop_reason_table_def)

lemma handle_read: "wf_handle h \<Longrightarrow> handle_of (Some (handle_json h)) = Some h"
  by (simp add: handle_json_def handle_of_def wf_handle_def optional_number_read rest_fresh)

lemma optional_handle_read [json_read]: "pred_option wf_handle h \<Longrightarrow> optional_of handle_of (map_option handle_json h) = Some h"
  by (cases h) (simp_all add: handle_read)

lemma flag_read [json_read]: "flag_of (if b then Some (JBool True) else None) = Some b"
  by simp

lemma assistant_read [json_read]: "wf_assistant m \<Longrightarrow> assistant_of (assistant_fields m) = Some m"
  unfolding assistant_of_def assistant_fields_def wf_assistant_def
  by (simp add: json_read rest_fresh)

lemma tool_result_read [json_read]: "wf_tool_result m \<Longrightarrow> tool_result_of (tool_result_fields m) = Some m"
  unfolding tool_result_of_def tool_result_fields_def wf_tool_result_def
  by (simp add: json_read rest_fresh)

lemma bash_read [json_read]: "wf_bash m \<Longrightarrow> bash_of (bash_fields m) = Some m"
  unfolding bash_of_def bash_fields_def wf_bash_def
  by (simp add: optional_number_read rest_fresh)

lemma message_role_field: "wf_message m \<Longrightarrow> map_of (message_fields m) ''role'' = Some (JString (message_role m))"
  by (cases m) (simp_all add: assistant_fields_def tool_result_fields_def bash_fields_def)

lemma message_read [json_read]:
  assumes "wf_message m"
  shows "message_of (Some (message_json m)) = Some m"
proof -
  have "message_of (Some (message_json m)) = role_message (message_role m) (message_fields m)"
    using message_role_field [OF assms] by (simp add: message_of_def del: message_fields.simps)
  also have "\<dots> = Some m"
    using assms by (cases m) (simp_all add: role_message_def json_read rest_fresh core_roles_def)
  finally show ?thesis .
qed

lemma messages_read [json_read]: "list_all wf_message ms \<Longrightarrow> array_of message_of (Some (JArray (map message_json ms))) = Some ms"
  by (induction ms) (simp_all add: message_read array_of.simps)

lemma strings_read [json_read]: "array_of string_of (Some (JArray (map JString ss))) = Some ss"
  by (induction ss) (simp_all add: array_of.simps)

lemma rest_of_fields:
  assumes "set (map fst fs) \<subseteq> set keys" and "fresh keys extra"
  shows "rest_of keys (fs @ extra) = extra"
proof -
  have "rest_of keys fs = []"
    using assms(1) by (auto simp: rest_of_def filter_empty_conv)
  then show ?thesis
    using assms(2) by (simp add: rest_fresh)
qed

lemma body_fields_keys: "set (map fst (body_fields b)) \<subseteq> set (body_keys b)"
proof (cases b)
  case (CompactionEntry s r n u)
  then show ?thesis by (cases u) auto
next
  case (BranchSummaryEntry f s u)
  then show ?thesis by (cases u) auto
qed (auto simp: flag_field.simps)

lemma body_read [json_read]:
  assumes "wf_body b" and "fresh (body_keys b) extra" and "fresh (body_keys b) pre"
  shows "body_of (entry_type b) (pre @ body_fields b @ extra) = Some b"
proof -
  have skip: "map_of (pre @ fs) k = map_of fs k" if "map_of pre k = None" for k fs
    using that by (simp add: map_of_append map_add_def)
  show ?thesis
    using assms by (cases b) (simp_all add: body_of_def json_read skip)
qed

lemma provisioned_read [json_read]:
  assumes "wf_provisioned e"
  shows "entry_of (Some (provisioned_json e)) = Some e"
proof -
  let ?pre = "[(''id'', JString (pe_id e)), (''type'', JString (entry_type (pe_body e)))]"
  let ?fs = "?pre @ body_fields (pe_body e) @ pe_extra e"
  have "body_of (entry_type (pe_body e)) ?fs = Some (pe_body e)"
    using assms by (intro body_read) (cases "pe_body e"; simp add: wf_provisioned_def)+
  moreover have "rest_of (''id'' # ''type'' # body_keys (pe_body e)) ?fs = pe_extra e"
  proof -
    have "rest_of (''id'' # ''type'' # body_keys (pe_body e)) ((?pre @ body_fields (pe_body e)) @ pe_extra e) = pe_extra e"
      using assms body_fields_keys [of "pe_body e"] by (intro rest_of_fields) (auto simp: wf_provisioned_def)
    then show ?thesis
      by (simp only: append_assoc)
  qed
  ultimately show ?thesis
    by (simp add: entry_of_def provisioned_json_def)
qed

lemma provisioneds_read [json_read]:
  "list_all wf_provisioned es \<Longrightarrow> array_of entry_of (Some (JArray (map provisioned_json es))) = Some es"
  by (induction es) (simp_all add: provisioned_read array_of.simps)

end
