(* ===== verification/JsonRecords.thy ===== *)
theory JsonRecords
  imports JsonForm
begin

text \<open>
  The JSON form of lane records and of stored entries, continuing \<open>JsonForm\<close>: what is written
  is read back.
\<close>

section \<open>Writing records\<close>

fun intent_fields :: "intent \<Rightarrow> json_fields" where
  "intent_fields (RunIntent p ms s r) = [(''kind'', JString ''run''), (''originalPrompt'', JArray (map message_json p)),
     (''initialMessages'', JArray (map provisioned_json ms))] @ optional_field ''systemPromptOverride'' JString s
     @ optional_field ''resumeData'' JObject r"
| "intent_fields (CompactionIntent c r) = [(''kind'', JString ''compaction'')] @ optional_field ''customInstructions'' JString c
     @ [(''resultEntryId'', JString r)]"
| "intent_fields (NavigationIntent t s c l e) = [(''kind'', JString ''navigation''), (''targetId'', nullable_json t), (''summarize'', JBool s)]
     @ optional_field ''customInstructions'' JString c @ optional_field ''label'' JString l @ optional_field ''summaryEntryId'' JString e"

fun error_json :: "string \<times> string \<times> json_fields \<Rightarrow> json" where
  "error_json (c, m, e) = JObject ([(''code'', JString c), (''message'', JString m)] @ e)"

fun outcome_text :: "operation_outcome \<Rightarrow> string" where
  "outcome_text Completed = ''completed''"
| "outcome_text AbortedOutcome = ''aborted''"
| "outcome_text FailedOutcome = ''failed''"
| "outcome_text Declined = ''declined''"

fun step_text :: "step_kind \<Rightarrow> string" where
  "step_text AssistantStep = ''assistant''"
| "step_text CompactionStep = ''compaction''"
| "step_text BranchSummaryStep = ''branch_summary''"

fun replay_text :: "tool_replay \<Rightarrow> string" where
  "replay_text ReplayNever = ''never''"
| "replay_text ReplaySafe = ''safe''"

fun queue_text :: "queue_kind \<Rightarrow> string" where
  "queue_text SteerQueue = ''steer''"
| "queue_text FollowUpQueue = ''followUp''"
| "queue_text NextRunQueue = ''nextRun''"

fun step_usage_text :: "step_usage_cause \<Rightarrow> string" where
  "step_usage_text AssistantUsage = ''assistant''"
| "step_usage_text CompactionUsage = ''compaction''"
| "step_usage_text BranchSummaryUsage = ''branch_summary''"
| "step_usage_text DeferredFetchUsage = ''deferred_fetch''"

fun cause_fields :: "usage_cause \<Rightarrow> json_fields" where
  "cause_fields (StepUsage c r e a s) = [(''cause'', JString (step_usage_text c)), (''runId'', JString r), (''entryId'', JString e),
     (''attempt'', nat_json a), (''stopReason'', JString (stop_reason_text s))]"
| "cause_fields (ToolUsage r e t) = [(''cause'', JString ''tool''), (''runId'', JString r), (''entryId'', JString e), (''toolCallId'', JString t)]"
| "cause_fields (HookUsage r e) = [(''cause'', JString ''hook''), (''runId'', JString r), (''entryId'', JString e)]"
| "cause_fields (AdjustmentUsage r e) = [(''cause'', JString ''adjustment'')] @ optional_field ''runId'' JString r @ optional_field ''entryId'' JString e"

fun record_fields :: "record_body \<Rightarrow> json_fields" where
  "record_fields (OperationStarted l i) = [(''sourceLeafId'', nullable_json l), (''intent'', JObject (intent_fields i))]"
| "record_fields (AbortRequested r) = [(''runId'', JString r)]"
| "record_fields (PauseRequested r) = [(''runId'', JString r)]"
| "record_fields (PauseCleared r) = [(''runId'', JString r)]"
| "record_fields (OperationFinished r out e) = [(''runId'', JString r), (''outcome'', JString (outcome_text out))] @ optional_field ''error'' error_json e"
| "record_fields (StepAttempt a) = [(''runId'', JString (sa_runId a)), (''step'', JString (step_text (sa_step a))), (''attempt'', nat_json (sa_attempt a)),
     (''resultEntryId'', JString (sa_resultEntryId a))] @ optional_field ''compactionReason'' id (sa_compactionReason a)"
| "record_fields (ToolStarted t) = [(''runId'', JString (ts_runId t)), (''assistantEntryId'', JString (ts_assistantEntryId t)),
     (''toolIndex'', nat_json (ts_toolIndex t)), (''toolCallId'', JString (ts_toolCallId t)), (''toolName'', JString (ts_toolName t)),
     (''effectiveArgs'', JObject (ts_effectiveArgs t)), (''resultEntryId'', JString (ts_resultEntryId t))]
     @ optional_field ''operationId'' JString (ts_operationId t) @ [(''replay'', JString (replay_text (ts_replay t)))]"
| "record_fields (ToolReconciliation r c e w d) = [(''runId'', JString r), (''toolCallId'', JString c), (''resultEntryId'', JString e),
     (''reason'', JString w)] @ optional_field ''diagnostic'' (JObject \<circ> tool_result_fields) d"
| "record_fields (ToolReconciled r c e) = [(''runId'', JString r), (''toolCallId'', JString c), (''resultEntryId'', JString e)]"
| "record_fields (AssistantCheckpoint c) = [(''runId'', JString (cp_runId c)), (''resultEntryId'', JString (cp_resultEntryId c)),
     (''attempt'', nat_json (cp_attempt c)), (''message'', JObject (assistant_fields (cp_message c)))]
     @ optional_field ''continuationFailure'' (JObject \<circ> assistant_fields) (cp_continuationFailure c)
     @ optional_field ''retryAttempt'' nat_json (cp_retryAttempt c)"
| "record_fields (QueueEnqueued q r t) = [(''queue'', JString (queue_text q))] @ optional_field ''runId'' JString r @ [(''target'', provisioned_json t)]"
| "record_fields (QueueCancelled r e) = optional_field ''runId'' JString r @ [(''entryId'', JString e)]"
| "record_fields (WriteDeferred r t) = [(''runId'', JString r), (''target'', provisioned_json t)]"
| "record_fields (UsageRecord u c) = [(''usage'', usage_json u)] @ cause_fields c"

section \<open>Well-formed records\<close>

definition safe_nat :: "nat \<Rightarrow> bool" where
  "safe_nat n \<longleftrightarrow> safe_int (int n)"

fun wf_intent :: "intent \<Rightarrow> bool" where
  "wf_intent (RunIntent p ms s r) \<longleftrightarrow> list_all wf_message p \<and> list_all wf_provisioned ms"
| "wf_intent i \<longleftrightarrow> True"

fun wf_cause :: "usage_cause \<Rightarrow> bool" where
  "wf_cause (StepUsage c r e a s) \<longleftrightarrow> 1 \<le> a \<and> safe_nat a \<and> s \<noteq> SR_pending"
| "wf_cause c \<longleftrightarrow> True"

fun wf_record :: "record_body \<Rightarrow> bool" where
  "wf_record (OperationStarted l i) \<longleftrightarrow> wf_intent i"
| "wf_record (OperationFinished r out e) \<longleftrightarrow> (case e of None \<Rightarrow> True | Some (c, m, x) \<Rightarrow> fresh [''code'', ''message''] x)"
| "wf_record (StepAttempt a) \<longleftrightarrow> 1 \<le> sa_attempt a \<and> safe_nat (sa_attempt a)
     \<and> (sa_step a = CompactionStep \<longrightarrow> sa_compactionReason a \<in> (Some \<circ> JString) ` {''manual'', ''threshold'', ''overflow''})"
| "wf_record (ToolStarted t) \<longleftrightarrow> safe_nat (ts_toolIndex t)"
| "wf_record (ToolReconciliation r c e w d) \<longleftrightarrow> (case d of None \<Rightarrow> True | Some m \<Rightarrow> wf_tool_result m \<and> tr_toolCallId m = c)"
| "wf_record (AssistantCheckpoint c) \<longleftrightarrow> 1 \<le> cp_attempt c \<and> safe_nat (cp_attempt c) \<and> wf_assistant (cp_message c)
     \<and> am_isResponseCheckpoint (cp_message c) \<and> pred_option wf_assistant (cp_continuationFailure c)
     \<and> pred_option (\<lambda>n. 1 \<le> n \<and> safe_nat n) (cp_retryAttempt c)"
| "wf_record (QueueEnqueued q r t) \<longleftrightarrow> wf_provisioned t \<and> (q = NextRunQueue \<longleftrightarrow> r = None)"
| "wf_record (WriteDeferred r t) \<longleftrightarrow> wf_provisioned t"
| "wf_record (UsageRecord u c) \<longleftrightarrow> wf_usage u \<and> wf_cause c"
| "wf_record b \<longleftrightarrow> True"

section \<open>Reading records\<close>

lemma optional_string_read [json_read]: "optional_of string_of (map_option JString s) = Some s"
  by (cases s) simp_all

lemma optional_object_read [json_read]: "optional_of object_of (map_option JObject s) = Some s"
  by (cases s) simp_all

lemma nullable_read [json_read]: "nullable_of (Some (nullable_json s)) = Some s"
  by (cases s) simp_all

lemma nat_read [json_read]: "safe_nat n \<Longrightarrow> k \<le> int n \<Longrightarrow> nat_of k (Some (nat_json n)) = Some n"
  by (simp add: safe_nat_def num_is_safe_integer_def)

lemma optional_nat_read [json_read]:
  "pred_option (\<lambda>n. Suc 0 \<le> n \<and> safe_nat n) v \<Longrightarrow> optional_of (nat_of 1) (map_option nat_json v) = Some v"
  by (cases v) (simp_all add: nat_read del: nat_of.simps)

lemma outcome_read [json_read]: "enum_of outcome_table (Some (JString (outcome_text x))) = Some x"
  by (cases x) (simp_all add: enum_of_def outcome_table_def)

lemma step_read [json_read]: "enum_of step_table (Some (JString (step_text x))) = Some x"
  by (cases x) (simp_all add: enum_of_def step_table_def)

lemma replay_read [json_read]: "enum_of replay_table (Some (JString (replay_text x))) = Some x"
  by (cases x) (simp_all add: enum_of_def replay_table_def)

lemma queue_read [json_read]: "enum_of queue_table (Some (JString (queue_text x))) = Some x"
  by (cases x) (simp_all add: enum_of_def queue_table_def)

lemma step_usage_read [json_read]: "map_of step_usage_table (step_usage_text x) = Some x"
  by (cases x) (simp_all add: step_usage_table_def)

lemma step_usage_text_other [simp]: "step_usage_text x \<noteq> ''adjustment''" "step_usage_text x \<noteq> ''tool''" "step_usage_text x \<noteq> ''hook''"
  by (cases x; simp)+

lemma usage_stop_read [json_read]:
  "x \<noteq> SR_pending \<Longrightarrow> enum_of (tl stop_reason_table) (Some (JString (stop_reason_text x))) = Some x"
  by (cases x) (simp_all add: enum_of_def stop_reason_table_def)

lemmas map_of_last [simp] = map_of_optional(1,2) [where gs = "[]", simplified]

lemma intent_read [json_read]: "wf_intent i \<Longrightarrow> intent_of (intent_fields i) = Some i"
  by (cases i) (simp_all add: intent_of_def json_read)

lemma error_read: "fresh [''code'', ''message''] x \<Longrightarrow> error_of (Some (error_json (c, m, x))) = Some (c, m, x)"
  by (simp add: error_of_def rest_fresh)

lemma optional_error_read [json_read]:
  "(case e of None \<Rightarrow> True | Some (c, m, x) \<Rightarrow> fresh [''code'', ''message''] x) \<Longrightarrow> optional_of error_of (map_option error_json e) = Some e"
proof (cases e)
  case (Some a)
  then show "(case e of None \<Rightarrow> True | Some (c, m, x) \<Rightarrow> fresh [''code'', ''message''] x) \<Longrightarrow> ?thesis"
    by (cases a) (simp add: error_read del: error_json.simps fresh_simps)
qed simp

lemma tool_result_message_read [json_read]: "wf_tool_result m \<Longrightarrow> message_of (Some (JObject (tool_result_fields m))) = Some (ToolResultMessage m)"
  using message_read [of "ToolResultMessage m"] by simp

lemma assistant_message_read [json_read]: "wf_assistant m \<Longrightarrow> message_of (Some (JObject (assistant_fields m))) = Some (AssistantMessage m)"
  using message_read [of "AssistantMessage m"] by simp

lemma optional_diagnostic_read [json_read]:
  "(case d of None \<Rightarrow> True | Some m \<Rightarrow> wf_tool_result m \<and> tr_toolCallId m = c)
   \<Longrightarrow> optional_of (diagnostic_of (Some c)) (map_option (JObject \<circ> tool_result_fields) d) = Some d"
  by (cases d) (simp_all add: diagnostic_of_def json_read)

lemma continuation_read [json_read]: "wf_assistant m \<Longrightarrow> continuation_of (Some (JObject (assistant_fields m))) = Some m"
  by (simp add: continuation_of_def json_read)

lemma optional_continuation_read [json_read]:
  "pred_option wf_assistant m \<Longrightarrow> optional_of continuation_of (map_option (JObject \<circ> assistant_fields) m) = Some m"
  by (cases m) (simp_all add: json_read)

lemma checkpoint_message_read [json_read]:
  "wf_assistant m \<Longrightarrow> am_isResponseCheckpoint m \<Longrightarrow> checkpoint_message_of (Some (JObject (assistant_fields m))) = Some m"
  by (simp add: checkpoint_message_of_def json_read)

text \<open>An object that agrees with the written fields on the keys of its type is read the same.\<close>

definition agree :: "string list \<Rightarrow> json_fields \<Rightarrow> json_fields \<Rightarrow> bool" where
  "agree keys r fs \<longleftrightarrow> list_all (\<lambda>k. map_of r k = map_of fs k) keys"

lemma agree_simps [simp]:
  "agree [] r fs" "agree (k # ks) r fs \<longleftrightarrow> map_of r k = map_of fs k \<and> agree ks r fs"
  by (simp_all add: agree_def)

lemma agree_between:
  assumes "fresh keys pre" and "fresh keys extra"
  shows "agree keys (pre @ fs @ extra) fs"
  using assms by (auto simp: agree_def fresh_def list_all_iff map_of_append map_add_def split: option.split)

lemma cause_read:
  assumes "wf_cause c" and "agree [''cause'', ''runId'', ''entryId'', ''toolCallId'', ''attempt'', ''stopReason''] r (cause_fields c)"
  shows "cause_of r = Some c"
  using assms by (cases c) (simp_all add: cause_of_def json_read del: nat_of.simps)

lemma attempt_read:
  assumes "wf_record (StepAttempt a)" and "agree (record_keys (StepAttempt a)) r (record_fields (StepAttempt a))"
  shows "attempt_of (sa_runId a) r = Some a"
proof -
  have "map_of r ''compactionReason'' = sa_compactionReason a"
    using assms(2) by (simp add: option.map_id)
  moreover have "sa_compactionReason a \<in> (Some \<circ> JString) ` {''manual'', ''threshold'', ''overflow''}" if "sa_step a = CompactionStep"
    using assms(1) that by simp
  ultimately show ?thesis
    using assms by (auto simp: attempt_of_def json_read simp del: nat_of.simps)
qed

lemma checkpoint_read:
  assumes "wf_record (AssistantCheckpoint c)" and "agree (record_keys (AssistantCheckpoint c)) r (record_fields (AssistantCheckpoint c))"
  shows "checkpoint_of (cp_runId c) r = Some c"
  using assms by (simp add: checkpoint_of_def json_read del: nat_of.simps)

lemma tool_start_read:
  assumes "wf_record (ToolStarted t)" and "agree (record_keys (ToolStarted t)) r (record_fields (ToolStarted t))"
  shows "tool_start_of (ts_runId t) r = Some t"
  using assms by (simp add: tool_start_of_def json_read del: nat_of.simps)

lemma record_body_read:
  assumes "wf_record b" and "agree (record_keys b) r (record_fields b)"
  shows "record_body_of (record_type b) r = Some b"
proof (cases b)
  case (StepAttempt a)
  then show ?thesis
    using attempt_read assms by (simp add: record_body_of_def run_body_of_def)
next
  case (AssistantCheckpoint c)
  then show ?thesis
    using checkpoint_read assms by (simp add: record_body_of_def run_body_of_def)
next
  case (ToolStarted t)
  then show ?thesis
    using tool_start_read assms by (simp add: record_body_of_def run_body_of_def)
next
  case (UsageRecord u c)
  then show ?thesis
    using cause_read [of c r] assms by (simp add: record_body_of_def json_read)
next
  case (QueueEnqueued q i t)
  then show ?thesis
    using assms by (cases i) (auto simp: record_body_of_def queue_of_def json_read simp del: queue_text.simps)
qed (use assms in \<open>simp_all add: record_body_of_def run_body_of_def json_read\<close>)

end
