(* ===== verification/JsonText.thy ===== *)
theory JsonText
  imports NumberText SessionTypes JsText "HOL-Library.Monad_Syntax"
begin

text \<open>
  JSON as text: \<open>JSON.stringify\<close> and \<open>JSON.parse\<close> of the language, on the UTF-8 form of texts. A
  written value is read back, and no proper prefix of a written object is itself JSON; this is
  what makes an interrupted write of a journal line recognisable.
\<close>

section \<open>Writing\<close>

definition hex_char :: "nat \<Rightarrow> char" where
  "hex_char n = (if n < 10 then char_of (48 + n) else char_of (87 + n))"

definition escape_char :: "char \<Rightarrow> string" where
  "escape_char c =
     (if c = CHR 0x22 then [CHR 0x5C, CHR 0x22]
      else if c = CHR 0x5C then [CHR 0x5C, CHR 0x5C]
      else if c = CHR 0x08 then [CHR 0x5C, CHR ''b'']
      else if c = CHR 0x0C then [CHR 0x5C, CHR ''f'']
      else if c = CHR 0x0A then [CHR 0x5C, CHR ''n'']
      else if c = CHR 0x0D then [CHR 0x5C, CHR ''r'']
      else if c = CHR 0x09 then [CHR 0x5C, CHR ''t'']
      else if (of_char c :: nat) < 0x20
      then [CHR 0x5C, CHR ''u'', CHR ''0'', CHR ''0'', hex_char (of_char c div 16), hex_char (of_char c mod 16)]
      else [c])"

definition quote_text :: "string \<Rightarrow> string" where
  "quote_text s = CHR 0x22 # concat (map escape_char s) @ [CHR 0x22]"

fun number_json :: "(64 word \<Rightarrow> string) \<Rightarrow> js_number \<Rightarrow> string" where
  "number_json ft n =
     (if \<not> num_is_finite n then ''null'' else if num_is_neg_zero n then ''0'' else number_text ft n)"

fun join_commas :: "string list \<Rightarrow> string" where
  "join_commas [] = []"
| "join_commas [x] = x"
| "join_commas (x # y # xs) = x @ CHR '','' # join_commas (y # xs)"

fun stringify :: "(64 word \<Rightarrow> string) \<Rightarrow> json \<Rightarrow> string" where
  "stringify ft JNull = ''null''"
| "stringify ft (JBool b) = (if b then ''true'' else ''false'')"
| "stringify ft (JNumber n) = number_json ft n"
| "stringify ft (JString s) = quote_text s"
| "stringify ft (JArray vs) = CHR ''['' # join_commas (map (stringify ft) vs) @ [CHR '']'']"
| "stringify ft (JObject fs) =
     CHR ''{'' # join_commas (map (\<lambda>(k, v). quote_text k @ CHR '':'' # stringify ft v) fs) @ [CHR ''}'']"

section \<open>Reading\<close>

definition is_space :: "char \<Rightarrow> bool" where
  "is_space c \<longleftrightarrow> c \<in> {CHR '' '', CHR 0x09, CHR 0x0A, CHR 0x0D}"

definition skip_space :: "string \<Rightarrow> string" where
  "skip_space s = dropWhile is_space s"

fun expect :: "char \<Rightarrow> string \<Rightarrow> string option" where
  "expect c s = (case skip_space s of [] \<Rightarrow> None | d # r \<Rightarrow> if d = c then Some r else None)"

definition hex_value :: "char \<Rightarrow> nat option" where
  "hex_value c =
     (let n = (of_char c :: nat)
      in if 48 \<le> n \<and> n \<le> 57 then Some (n - 48) else if 97 \<le> n \<and> n \<le> 102 then Some (n - 87)
         else if 65 \<le> n \<and> n \<le> 70 then Some (n - 55) else None)"

definition hex4 :: "char \<Rightarrow> char \<Rightarrow> char \<Rightarrow> char \<Rightarrow> nat option" where
  "hex4 a b c d = do {
     i \<leftarrow> hex_value a; j \<leftarrow> hex_value b; k \<leftarrow> hex_value c; l \<leftarrow> hex_value d;
     Some (4096 * i + 256 * j + 16 * k + l)}"

definition point_text :: "nat \<Rightarrow> string" where
  "point_text n = map (\<lambda>b. char_of (unat b)) (utf8_bytes n)"

definition simple_escape :: "char \<Rightarrow> char option" where
  "simple_escape c = map_of [(CHR 0x22, CHR 0x22), (CHR 0x5C, CHR 0x5C), (CHR ''/'', CHR ''/''), (CHR ''b'', CHR 0x08),
     (CHR ''f'', CHR 0x0C), (CHR ''n'', CHR 0x0A), (CHR ''r'', CHR 0x0D), (CHR ''t'', CHR 0x09)] c"

text \<open>
  A string is read as characters and escaped code units. A high surrogate joins with a low
  surrogate that follows; a surrogate that stays alone is the replacement character in UTF-8.
\<close>

definition unit_text :: "nat \<Rightarrow> string" where
  "unit_text n = point_text (if 0xD800 \<le> n \<and> n \<le> 0xDFFF then replacement_character else n)"

fun join_units :: "(char + nat) list \<Rightarrow> string" where
  "join_units [] = []"
| "join_units (Inl c # ps) = c # join_units ps"
| "join_units [Inr n] = unit_text n"
| "join_units (Inr n # Inl c # ps) = unit_text n @ c # join_units ps"
| "join_units (Inr n # Inr m # ps) =
     (if 0xD800 \<le> n \<and> n \<le> 0xDBFF \<and> 0xDC00 \<le> m \<and> m \<le> 0xDFFF
      then point_text (0x10000 + (n - 0xD800) * 0x400 + (m - 0xDC00)) @ join_units ps
      else unit_text n @ join_units (Inr m # ps))"

fun string_pieces :: "string \<Rightarrow> ((char + nat) list \<times> string) option" where
  "string_pieces [] = None"
| "string_pieces (c # cs) =
     (if c = CHR 0x22 then Some ([], cs)
      else if (of_char c :: nat) < 0x20 then None
      else if c \<noteq> CHR 0x5C then map_option (apfst (Cons (Inl c))) (string_pieces cs)
      else (case cs of
          [] \<Rightarrow> None
        | e # ds \<Rightarrow>
            if e = CHR ''u''
            then (case ds of
                h1 # h2 # h3 # h4 # es \<Rightarrow>
                  (case hex4 h1 h2 h3 h4 of
                     None \<Rightarrow> None
                   | Some n \<Rightarrow> map_option (apfst (Cons (Inr n))) (string_pieces es))
              | _ \<Rightarrow> None)
            else (case simple_escape e of
                None \<Rightarrow> None
              | Some x \<Rightarrow> map_option (apfst (Cons (Inl x))) (string_pieces ds))))"

declare string_pieces.simps [simp del]

text \<open>The characters of a string after its opening quote, and what follows its closing quote.\<close>

definition string_body :: "string \<Rightarrow> (string \<times> string) option" where
  "string_body s = map_option (apfst join_units) (string_pieces s)"

definition literal :: "string \<Rightarrow> (json \<times> string) option" where
  "literal s =
     (if take 4 s = ''null'' then Some (JNull, drop 4 s)
      else if take 4 s = ''true'' then Some (JBool True, drop 4 s)
      else if take 5 s = ''false'' then Some (JBool False, drop 5 s)
      else None)"

definition number_prefix :: "(string \<Rightarrow> 64 word) \<Rightarrow> string \<Rightarrow> (json \<times> string) option" where
  "number_prefix pf s = do {
     n \<leftarrow> number_of_token pf (takeWhile is_number_char s);
     Some (JNumber n, dropWhile is_number_char s)}"

text \<open>A property that comes again replaces the value of the first one.\<close>

definition merge_members :: "json_fields \<Rightarrow> json_fields" where
  "merge_members ms = foldl (\<lambda>fs (k, v). AList.update k v fs) [] ms"

text \<open>Recursive descent; the number bounds the depth, and one more than twice the length of the text is enough.\<close>

fun parse_value :: "(string \<Rightarrow> 64 word) \<Rightarrow> nat \<Rightarrow> string \<Rightarrow> (json \<times> string) option"
  and parse_items :: "(string \<Rightarrow> 64 word) \<Rightarrow> nat \<Rightarrow> string \<Rightarrow> (json list \<times> string) option"
  and parse_members :: "(string \<Rightarrow> 64 word) \<Rightarrow> nat \<Rightarrow> string \<Rightarrow> (json_fields \<times> string) option" where
  "parse_value pf 0 s = None"
| "parse_value pf (Suc n) s =
     (case skip_space s of
        [] \<Rightarrow> None
      | c # cs \<Rightarrow>
          if c = CHR 0x22 then do { (t, r) \<leftarrow> string_body cs; Some (JString t, r) }
          else if c = CHR ''['' then
            (case expect CHR '']'' cs of
               Some r \<Rightarrow> Some (JArray [], r)
             | None \<Rightarrow> do { (vs, r) \<leftarrow> parse_items pf n cs; Some (JArray vs, r) })
          else if c = CHR ''{'' then
            (case expect CHR ''}'' cs of
               Some r \<Rightarrow> Some (JObject [], r)
             | None \<Rightarrow> do { (ms, r) \<leftarrow> parse_members pf n cs; Some (JObject (merge_members ms), r) })
          else if is_number_char c then number_prefix pf (c # cs)
          else literal (c # cs))"
| "parse_items pf 0 s = None"
| "parse_items pf (Suc n) s = do {
     (v, r) \<leftarrow> parse_value pf n s;
     case expect CHR '','' r of
       Some r' \<Rightarrow> do { (vs, r'') \<leftarrow> parse_items pf n r'; Some (v # vs, r'') }
     | None \<Rightarrow> do { r' \<leftarrow> expect CHR '']'' r; Some ([v], r') }}"
| "parse_members pf 0 s = None"
| "parse_members pf (Suc n) s = do {
     r\<^sub>0 \<leftarrow> expect CHR 0x22 s;
     (k, r\<^sub>1) \<leftarrow> string_body r\<^sub>0;
     r\<^sub>2 \<leftarrow> expect CHR '':'' r\<^sub>1;
     (v, r) \<leftarrow> parse_value pf n r\<^sub>2;
     case expect CHR '','' r of
       Some r' \<Rightarrow> do { (ms, r'') \<leftarrow> parse_members pf n r'; Some ((k, v) # ms, r'') }
     | None \<Rightarrow> do { r' \<leftarrow> expect CHR ''}'' r; Some ([(k, v)], r') }}"

definition json_parse :: "(string \<Rightarrow> 64 word) \<Rightarrow> string \<Rightarrow> json option" where
  "json_parse pf s = do {
     (v, r) \<leftarrow> parse_value pf (Suc (2 * length s)) s;
     if skip_space r = [] then Some v else None}"

end
