(* ===== verification/JsonlCodec.thy ===== *)
theory JsonlCodec
  imports JsonRecords JsonText SessionState
begin

text \<open>
  The lines of a session journal (\<open>packages/agent/src/harness/session/jsonl/codec.ts\<close>,
  \<open>jsonl/types.ts\<close>, \<open>jsonl/errors.ts\<close>): a header and one mutation per line, as JSON. The text of
  doubles and its inverse are arguments, as in \<open>NumberText\<close>. The cast of a validated object to
  its type is the reader of \<open>ValidationCorrect\<close>, which is defined exactly on what passed the
  validation.
\<close>

section \<open>Errors and headers\<close>

datatype decode_error = DecodeSyntax | DecodeSchema string

record jsonl_header =
  jh_id :: string
  jh_createdAt :: nat
  jh_cwd :: string
  jh_parentSessionId :: "string option"
  jh_legacyParentSessionPath :: "string option"
  jh_metadata :: "json_fields option"

record jsonl_metadata =
  jm_id :: string
  jm_createdAt :: nat
  jm_cwd :: string
  jm_path :: string
  jm_modifiedAt :: js_number
  jm_sourceFormat :: nat
  jm_parentSessionId :: "string option"
  jm_legacyParentSessionPath :: "string option"
  jm_metadata :: "json_fields option"

definition validatePayload :: "json option \<Rightarrow> (json option \<Rightarrow> check) \<Rightarrow> decode_error + unit" where
  "validatePayload v validate = (case validate v of Inl msg \<Rightarrow> Err (DecodeSchema msg) | Inr u \<Rightarrow> Ok u)"

definition parseObject :: "(string \<Rightarrow> 64 word) \<Rightarrow> string \<Rightarrow> decode_error + json_fields" where
  "parseObject pf line =
     (case json_parse pf line of
        None \<Rightarrow> Err DecodeSyntax
      | Some (JObject fs) \<Rightarrow> Ok fs
      | Some v \<Rightarrow> Err (DecodeSchema ''is not a JSON object''))"

definition invalid_field :: "string \<Rightarrow> decode_error" where
  "invalid_field field = DecodeSchema (''has invalid '' @ field)"

definition requireString :: "json option \<Rightarrow> string \<Rightarrow> decode_error + string" where
  "requireString v field = (case v of Some (JString s) \<Rightarrow> Ok s | _ \<Rightarrow> Err (invalid_field field))"

definition requireSequence :: "json option \<Rightarrow> decode_error + nat" where
  "requireSequence v =
     (case v of
        Some (JNumber n) \<Rightarrow> if num_is_safe_integer n \<and> num_int n > 0 then Ok (nat (num_int n)) else Err (invalid_field ''seq'')
      | _ \<Rightarrow> Err (invalid_field ''seq''))"

definition requireTimestamp :: "json option \<Rightarrow> decode_error + nat" where
  "requireTimestamp v =
     (case v of
        Some (JNumber n) \<Rightarrow> if num_is_safe_integer n \<and> num_int n \<ge> 0 then Ok (nat (num_int n)) else Err (invalid_field ''timestamp'')
      | _ \<Rightarrow> Err (invalid_field ''timestamp''))"

definition requireNullableId :: "json option \<Rightarrow> string \<Rightarrow> decode_error + string option" where
  "requireNullableId v field =
     (case v of Some JNull \<Rightarrow> Ok None | Some (JString s) \<Rightarrow> Ok (Some s) | _ \<Rightarrow> Err (invalid_field field))"

text \<open>A property that is absent or a string, respectively absent or an object.\<close>

definition optional_text :: "json option \<Rightarrow> string \<Rightarrow> decode_error + string option" where
  "optional_text v field =
     (case v of None \<Rightarrow> Ok None | Some (JString s) \<Rightarrow> Ok (Some s) | _ \<Rightarrow> Err (invalid_field field))"

definition decodeHeader :: "(string \<Rightarrow> 64 word) \<Rightarrow> string \<Rightarrow> decode_error + jsonl_header" where
  "decodeHeader pf line =
     bind_res (parseObject pf line) (\<lambda>v.
     bind_res (guard_res (map_of v ''kind'' = Some (JString ''header'')) (DecodeSchema ''is not a header'')) (\<lambda>_.
     bind_res (guard_res (map_of v ''version'' = Some (JNumber (JInt 4))) (DecodeSchema ''has unsupported session version'')) (\<lambda>_.
     bind_res (optional_text (map_of v ''parentSessionId'') ''parentSessionId'') (\<lambda>parent.
     bind_res (optional_text (map_of v ''legacyParentSessionPath'') ''legacyParentSessionPath'') (\<lambda>legacy.
     bind_res (guard_res (\<not> (parent \<noteq> None \<and> legacy \<noteq> None))
                (DecodeSchema ''has both parentSessionId and legacyParentSessionPath'')) (\<lambda>_.
     bind_res (case map_of v ''metadata'' of
                 None \<Rightarrow> Ok None
               | Some (JObject fs) \<Rightarrow> Ok (Some fs)
               | _ \<Rightarrow> Err (invalid_field ''metadata'')) (\<lambda>metadata.
     bind_res (requireString (map_of v ''id'') ''id'') (\<lambda>i.
     bind_res (requireTimestamp (map_of v ''createdAt'')) (\<lambda>createdAt.
     bind_res (requireString (map_of v ''cwd'') ''cwd'') (\<lambda>cwd.
     Ok \<lparr>jh_id = i, jh_createdAt = createdAt, jh_cwd = cwd, jh_parentSessionId = parent,
         jh_legacyParentSessionPath = legacy, jh_metadata = metadata\<rparr>))))))))))"

definition parseHeader :: "(string \<Rightarrow> 64 word) \<Rightarrow> string \<Rightarrow> decode_error + jsonl_header" where
  "parseHeader pf line = decodeHeader pf line"

definition header_fields :: "jsonl_header \<Rightarrow> json_fields" where
  "header_fields h = [(''kind'', JString ''header''), (''version'', JNumber (JInt 4)), (''id'', JString (jh_id h)),
     (''createdAt'', nat_json (jh_createdAt h)), (''cwd'', JString (jh_cwd h))]
     @ optional_field ''parentSessionId'' JString (jh_parentSessionId h)
     @ optional_field ''legacyParentSessionPath'' JString (jh_legacyParentSessionPath h)
     @ optional_field ''metadata'' JObject (jh_metadata h)"

definition line_end :: char where
  "line_end = CHR 0x0A"

definition encodeHeader :: "(64 word \<Rightarrow> string) \<Rightarrow> jsonl_header \<Rightarrow> string" where
  "encodeHeader ft h = stringify ft (JObject (header_fields h)) @ [line_end]"

definition metadataFromHeader :: "jsonl_header \<Rightarrow> string \<Rightarrow> js_number \<Rightarrow> jsonl_metadata" where
  "metadataFromHeader h path modifiedAt =
     \<lparr>jm_id = jh_id h, jm_createdAt = jh_createdAt h, jm_cwd = jh_cwd h, jm_path = path, jm_modifiedAt = modifiedAt,
      jm_sourceFormat = 4, jm_parentSessionId = jh_parentSessionId h, jm_legacyParentSessionPath = jh_legacyParentSessionPath h,
      jm_metadata = jh_metadata h\<rparr>"

section \<open>Mutations\<close>

text \<open>The cast of a validated object: the other properties stay with the entry, respectively the record.\<close>

definition cast_entry :: "json_fields \<Rightarrow> string option \<Rightarrow> nat \<Rightarrow> nat \<Rightarrow> entry option" where
  "cast_entry v parentId n timestamp =
     map_option (\<lambda>p. \<lparr>e_id = pe_id p, e_seq = n, e_parentId = parentId, e_timestamp = timestamp, e_body = pe_body p,
        e_extra = rest_of [''kind'', ''lane'', ''parentId'', ''seq'', ''timestamp''] (pe_extra p)\<rparr>) (entry_of (Some (JObject v)))"

definition cast_record :: "json_fields \<Rightarrow> nat \<Rightarrow> nat \<Rightarrow> lane_record option" where
  "cast_record v n timestamp =
     map_option (\<lambda>p. \<lparr>r_id = nr_id p, r_seq = n, r_lane = nr_lane p, r_timestamp = timestamp, r_body = nr_body p,
        r_extra = rest_of [''kind'', ''seq'', ''timestamp''] (nr_extra p)\<rparr>) (record_of (Some (JObject v)))"

text \<open>A cast that has no value would be a flaw of the validation; \<open>parse_cast_defined\<close> excludes it.\<close>

fun of_cast :: "'a option \<Rightarrow> decode_error + 'a" where
  "of_cast (Some x) = Ok x"
| "of_cast None = Err (DecodeSchema ''impossible'')"

definition parseEntryMutation :: "json_fields \<Rightarrow> nat \<Rightarrow> decode_error + session_mutation" where
  "parseEntryMutation v n =
     bind_res (optional_text (map_of v ''lane'') ''lane'') (\<lambda>lane.
     bind_res (requireString (map_of v ''id'') ''id'') (\<lambda>i.
     bind_res (requireString (map_of v ''type'') ''entry type'') (\<lambda>ty.
     bind_res (validatePayload (Some (JObject v)) assertDurableEntry) (\<lambda>_.
     bind_res (requireNullableId (map_of v ''parentId'') ''parentId'') (\<lambda>parentId.
     bind_res (requireTimestamp (map_of v ''timestamp'')) (\<lambda>timestamp.
     bind_res (of_cast (cast_entry v parentId n timestamp)) (\<lambda>e. Ok (EntryMutation lane e))))))))"

definition parseRecordMutation :: "json_fields \<Rightarrow> nat \<Rightarrow> decode_error + session_mutation" where
  "parseRecordMutation v n =
     bind_res (requireString (map_of v ''id'') ''id'') (\<lambda>i.
     bind_res (requireString (map_of v ''lane'') ''lane'') (\<lambda>lane.
     bind_res (requireString (map_of v ''type'') ''record type'') (\<lambda>ty.
     bind_res (validatePayload (Some (JObject v)) assertDurableRecord) (\<lambda>_.
     bind_res (requireTimestamp (map_of v ''timestamp'')) (\<lambda>timestamp.
     bind_res (of_cast (cast_record v n timestamp)) (\<lambda>r. Ok (RecordMutation r)))))))"

definition parseLaneMutation :: "json_fields \<Rightarrow> nat \<Rightarrow> decode_error + session_mutation" where
  "parseLaneMutation v n =
     bind_res (requireString (map_of v ''lane'') ''lane'') (\<lambda>lane.
     bind_res (requireNullableId (map_of v ''leafId'') ''leafId'') (\<lambda>leafId.
     Ok (LaneMutation n lane leafId)))"

definition parseFactMutation :: "json_fields \<Rightarrow> nat \<Rightarrow> decode_error + session_mutation" where
  "parseFactMutation v n =
     (if map_of v ''fact'' = Some (JString ''name'') then
        bind_res (optional_text (map_of v ''name'') ''name'') (\<lambda>name. Ok (NameMutation n name))
      else if map_of v ''fact'' = Some (JString ''label'') then
        bind_res (optional_text (map_of v ''label'') ''label'') (\<lambda>label.
        bind_res (requireString (map_of v ''targetId'') ''targetId'') (\<lambda>targetId.
        Ok (LabelMutation n targetId label)))
      else Err (DecodeSchema ''has unknown fact type''))"

definition decodeMutation :: "(string \<Rightarrow> 64 word) \<Rightarrow> string \<Rightarrow> decode_error + session_mutation" where
  "decodeMutation pf line =
     bind_res (parseObject pf line) (\<lambda>v.
     bind_res (requireSequence (map_of v ''seq'')) (\<lambda>n.
     if map_of v ''kind'' = Some (JString ''entry'') then parseEntryMutation v n
     else if map_of v ''kind'' = Some (JString ''record'') then parseRecordMutation v n
     else if map_of v ''kind'' = Some (JString ''lane'') then parseLaneMutation v n
     else if map_of v ''kind'' = Some (JString ''fact'') then parseFactMutation v n
     else Err (DecodeSchema ''has unknown mutation kind'')))"

definition parseMutation :: "(string \<Rightarrow> 64 word) \<Rightarrow> string \<Rightarrow> decode_error + session_mutation" where
  "parseMutation pf line = decodeMutation pf line"

text \<open>The properties of an entry and of a record, and the object that is written for a mutation.\<close>

definition entry_fields :: "entry \<Rightarrow> json_fields" where
  "entry_fields e = [(''id'', JString (e_id e)), (''type'', JString (entry_type (e_body e)))] @ body_fields (e_body e) @ e_extra e
     @ [(''parentId'', nullable_json (e_parentId e)), (''seq'', nat_json (e_seq e)), (''timestamp'', nat_json (e_timestamp e))]"

definition lane_record_fields :: "lane_record \<Rightarrow> json_fields" where
  "lane_record_fields r = [(''id'', JString (r_id r)), (''lane'', JString (r_lane r)), (''type'', JString (record_type (r_body r)))]
     @ record_fields (r_body r) @ r_extra r @ [(''seq'', nat_json (r_seq r)), (''timestamp'', nat_json (r_timestamp r))]"

fun mutation_fields :: "session_mutation \<Rightarrow> json_fields" where
  "mutation_fields (EntryMutation lane e) = (''kind'', JString ''entry'') # optional_field ''lane'' JString lane @ entry_fields e"
| "mutation_fields (RecordMutation r) = (''kind'', JString ''record'') # lane_record_fields r"
| "mutation_fields (LaneMutation n lane leafId) = [(''kind'', JString ''lane''), (''seq'', nat_json n), (''lane'', JString lane),
     (''leafId'', nullable_json leafId)]"
| "mutation_fields (NameMutation n name) = [(''kind'', JString ''fact''), (''seq'', nat_json n), (''fact'', JString ''name'')]
     @ optional_field ''name'' JString name"
| "mutation_fields (LabelMutation n targetId label) = [(''kind'', JString ''fact''), (''seq'', nat_json n), (''fact'', JString ''label''),
     (''targetId'', JString targetId)] @ optional_field ''label'' JString label"

text \<open>A property that is spread over an earlier one of the same name replaces its value.\<close>

definition encodeMutation :: "(64 word \<Rightarrow> string) \<Rightarrow> session_mutation \<Rightarrow> string" where
  "encodeMutation ft m = stringify ft (JObject (merge_members (mutation_fields m))) @ [line_end]"

end
