(* ===== verification/JsonTextCorrect.thy ===== *)
theory JsonTextCorrect
  imports JsonText
begin

text \<open>
  What \<open>JSON.stringify\<close> writes, \<open>JSON.parse\<close> reads back; a proper prefix of a written object is not
  JSON; and a written value has no line break.
\<close>

section \<open>Strings\<close>

lemma hex_value_char: "n < 16 \<Longrightarrow> hex_value (hex_char n) = Some n"
  by (auto simp: hex_value_def hex_char_def Let_def)

lemma hex4_small: "n < 256 \<Longrightarrow> hex4 CHR ''0'' CHR ''0'' (hex_char (n div 16)) (hex_char (n mod 16)) = Some n"
proof -
  assume n: "n < 256"
  have "hex_value CHR ''0'' = Some 0"
    by code_simp
  moreover have "n div 16 < 16" "n mod 16 < 16" "16 * (n div 16) + n mod 16 = n"
    using n by (simp_all add: less_mult_imp_div_less)
  ultimately show ?thesis
    by (simp add: hex4_def hex_value_char)
qed

text \<open>How a written character is read: control characters without a short escape come as units.\<close>

definition piece :: "char \<Rightarrow> char + nat" where
  "piece c = (if (of_char c :: nat) < 0x20 \<and> c \<notin> {CHR 0x08, CHR 0x0C, CHR 0x0A, CHR 0x0D, CHR 0x09} then Inr (of_char c) else Inl c)"

lemma pieces_escape: "string_pieces (escape_char c @ t) = map_option (apfst (Cons (piece c))) (string_pieces t)"
proof -
  consider "c \<in> {CHR 0x22, CHR 0x5C, CHR 0x08, CHR 0x0C, CHR 0x0A, CHR 0x0D, CHR 0x09}"
    | (ctrl) "c \<notin> {CHR 0x22, CHR 0x5C, CHR 0x08, CHR 0x0C, CHR 0x0A, CHR 0x0D, CHR 0x09}" "(of_char c :: nat) < 0x20"
    | (plain) "c \<notin> {CHR 0x22, CHR 0x5C}" "\<not> (of_char c :: nat) < 0x20"
    by blast
  then show ?thesis
  proof cases
    case 1
    then show ?thesis
      by (auto simp: escape_char_def string_pieces.simps simple_escape_def piece_def)
  next
    case ctrl
    then show ?thesis
      using hex4_small [of "of_char c"] by (simp add: escape_char_def string_pieces.simps piece_def)
  next
    case plain
    then have "c \<notin> {CHR 0x08, CHR 0x0C, CHR 0x0A, CHR 0x0D, CHR 0x09}"
      by auto
    with plain show ?thesis
      by (simp add: escape_char_def string_pieces.simps piece_def)
  qed
qed

lemma pieces_text: "string_pieces (concat (map escape_char s) @ CHR 0x22 # r) = Some (map piece s, r)"
proof (induction s)
  case (Cons c s)
  then show ?case
    by (simp add: pieces_escape)
qed (simp add: string_pieces.simps)

lemma point_text_ascii: "n < 0x80 \<Longrightarrow> point_text n = [char_of n]"
  by (simp add: point_text_def utf8_bytes_def)

lemma join_pieces: "join_units (map piece s) = s"
proof (induction s rule: induct_list012)
  case (2 c)
  then show ?case
    by (auto simp: piece_def unit_text_def point_text_ascii)
next
  case (3 c d s)
  then show ?case
    by (auto simp: piece_def unit_text_def point_text_ascii)
qed simp

lemma string_read: "string_body (concat (map escape_char s) @ CHR 0x22 # r) = Some (s, r)"
  by (simp add: string_body_def pieces_text join_pieces)

text \<open>Reading a string takes one piece after another; what a piece is does not depend on what follows it.\<close>

definition reads_piece :: "string \<Rightarrow> char + nat \<Rightarrow> bool" where
  "reads_piece pre p \<longleftrightarrow> pre \<noteq> [] \<and> (\<forall>t. string_pieces (pre @ t) = map_option (apfst (Cons p)) (string_pieces t))"

lemma reads_plain: "c \<noteq> CHR 0x22 \<Longrightarrow> \<not> (of_char c :: nat) < 0x20 \<Longrightarrow> c \<noteq> CHR 0x5C \<Longrightarrow> reads_piece [c] (Inl c)"
  by (simp add: reads_piece_def string_pieces.simps)

lemma reads_simple: "simple_escape e = Some x \<Longrightarrow> e \<noteq> CHR ''u'' \<Longrightarrow> reads_piece [CHR 0x5C, e] (Inl x)"
  by (simp add: reads_piece_def string_pieces.simps)

lemma reads_unit: "hex4 a b c d = Some n \<Longrightarrow> reads_piece [CHR 0x5C, CHR ''u'', a, b, c, d] (Inr n)"
  by (simp add: reads_piece_def string_pieces.simps)

lemma pieces_first:
  assumes "string_pieces s = Some (ps, r)"
  obtains (close) "s = CHR 0x22 # r" "ps = []"
    | (piece) pre p rest qs where "s = pre @ rest" "reads_piece pre p" "ps = p # qs" "string_pieces rest = Some (qs, r)"
proof -
  obtain c cs where s: "s = c # cs"
    using assms by (cases s) (auto simp: string_pieces.simps)
  consider "c = CHR 0x22" | "c \<noteq> CHR 0x22" "\<not> (of_char c :: nat) < 0x20" "c \<noteq> CHR 0x5C" | "c = CHR 0x5C"
    using assms s by (auto simp: string_pieces.simps split: if_splits)
  then show thesis
  proof cases
    case 1
    then show thesis
      using assms s by (intro close) (simp_all add: string_pieces.simps)
  next
    case 2
    then obtain qs where "string_pieces cs = Some (qs, r)" "ps = Inl c # qs"
      using assms s by (auto simp: string_pieces.simps)
    then show thesis
      using piece [of "[c]" cs "Inl c" qs] reads_plain [OF 2] s by simp
  next
    case 3
    then obtain e ds where cs: "cs = e # ds"
      using assms s by (cases cs) (auto simp: string_pieces.simps)
    show thesis
    proof (cases "e = CHR ''u''")
      case True
      then obtain h1 h2 h3 h4 es where ds: "ds = h1 # h2 # h3 # h4 # es"
        using assms s cs 3 by (auto simp: string_pieces.simps split: list.splits)
      then obtain n qs where "hex4 h1 h2 h3 h4 = Some n" "string_pieces es = Some (qs, r)" "ps = Inr n # qs"
        using assms s cs 3 True by (auto simp: string_pieces.simps split: option.splits)
      then show thesis
        using piece [of "[CHR 0x5C, CHR ''u'', h1, h2, h3, h4]" es "Inr n" qs] reads_unit s cs ds 3 True by simp
    next
      case False
      then obtain x qs where "simple_escape e = Some x" "string_pieces ds = Some (qs, r)" "ps = Inl x # qs"
        using assms s cs 3 by (auto simp: string_pieces.simps split: option.splits)
      then show thesis
        using piece [of "[CHR 0x5C, e]" ds "Inl x" qs] reads_simple False s cs 3 by simp
    qed
  qed
qed

lemma pieces_extend: "string_pieces s = Some (ps, r) \<Longrightarrow> string_pieces (s @ t) = Some (ps, r @ t)"
proof (induction ps arbitrary: s)
  case Nil
  then show ?case
    by (cases rule: pieces_first) (simp_all add: string_pieces.simps)
next
  case (Cons p ps)
  from Cons.prems show ?case
  proof (cases rule: pieces_first)
    case (piece pre q rest qs)
    then show ?thesis
      using Cons.IH by (simp add: reads_piece_def)
  qed simp
qed

lemma pieces_shorter: "string_pieces s = Some (ps, r) \<Longrightarrow> length r < length s"
proof (induction ps arbitrary: s)
  case Nil
  then show ?case
    by (cases rule: pieces_first) simp_all
next
  case (Cons p ps)
  from Cons.prems show ?case
  proof (cases rule: pieces_first)
    case (piece pre q rest qs)
    then show ?thesis
      using Cons.IH [of rest] by (auto simp: reads_piece_def)
  qed simp
qed

lemma string_extend: "string_body s = Some (x, r) \<Longrightarrow> string_body (s @ t) = Some (x, r @ t)"
  using pieces_extend by (auto simp: string_body_def)

lemma string_shorter: "string_body s = Some (x, r) \<Longrightarrow> length r < length s"
  using pieces_shorter by (auto simp: string_body_def)

section \<open>The reader consumes text and needs bounded depth\<close>

lemma skip_space_shorter: "length (skip_space s) \<le> length s"
  by (simp add: skip_space_def length_dropWhile_le)

lemma expect_shorter: "expect c s = Some r \<Longrightarrow> length r < length s"
  using skip_space_shorter [of s] by (auto split: list.splits if_splits)

declare expect.simps [simp del]

lemma literal_shorter: "literal s = Some (v, r) \<Longrightarrow> length r < length s"
  by (cases s) (auto simp: literal_def split: if_splits)

lemma number_shorter:
  assumes "number_prefix pf (c # cs) = Some (v, r)" and "is_number_char c"
  shows "length r < length (c # cs)"
  using assms length_dropWhile_le [of is_number_char cs] by (auto simp: number_prefix_def bind_eq_Some_conv)

text \<open>The head of a value decides how it is read.\<close>

definition read_head :: "(string \<Rightarrow> 64 word) \<Rightarrow> nat \<Rightarrow> char \<Rightarrow> string \<Rightarrow> (json \<times> string) option" where
  "read_head pf n c cs =
     (if c = CHR 0x22 then do { (t, r) \<leftarrow> string_body cs; Some (JString t, r) }
      else if c = CHR ''['' then
        (case expect CHR '']'' cs of
           Some r \<Rightarrow> Some (JArray [], r)
         | None \<Rightarrow> do { (vs, r) \<leftarrow> parse_items pf n cs; Some (JArray vs, r) })
      else if c = CHR ''{'' then
        (case expect CHR ''}'' cs of
           Some r \<Rightarrow> Some (JObject [], r)
         | None \<Rightarrow> do { (ms, r) \<leftarrow> parse_members pf n cs; Some (JObject (merge_members ms), r) })
      else if is_number_char c then number_prefix pf (c # cs)
      else literal (c # cs))"

lemma parse_value_head:
  "parse_value pf (Suc n) s = (case skip_space s of [] \<Rightarrow> None | c # cs \<Rightarrow> read_head pf n c cs)"
  unfolding read_head_def by (rule parse_value.simps)

declare parse_value.simps(2) [simp del]

lemma read_head_shorter:
  assumes "read_head pf n c cs = Some (v, r)"
    and "\<And>vs r. parse_items pf n cs = Some (vs, r) \<Longrightarrow> length r < length cs"
    and "\<And>ms r. parse_members pf n cs = Some (ms, r) \<Longrightarrow> length r < length cs"
  shows "length r \<le> length cs"
  using assms(1) expect_shorter [of _ cs r] string_shorter [of cs _ r] number_shorter [of pf c cs v r] literal_shorter [of "c # cs" v r] assms(2,3)
  by (fastforce simp: read_head_def bind_eq_Some_conv split: if_splits option.splits)

lemma parse_shorter:
  "parse_value pf n s = Some (v, r) \<Longrightarrow> length r < length s"
  "parse_items pf n s = Some (vs, r) \<Longrightarrow> length r < length s"
  "parse_members pf n s = Some (ms, r) \<Longrightarrow> length r < length s"
proof (induction n arbitrary: s v vs ms r)
  case (Suc n)
  {
    case 1
    then obtain c cs where s: "skip_space s = c # cs" and "read_head pf n c cs = Some (v, r)"
      by (auto simp: parse_value_head split: list.splits)
    then have "length r \<le> length cs"
      using read_head_shorter Suc by blast
    then show ?case
      using skip_space_shorter [of s] s by simp
  next
    case 2
    then obtain w r' where v: "parse_value pf n s = Some (w, r')"
      and rest: "(\<exists>r2 ws. expect CHR '','' r' = Some r2 \<and> parse_items pf n r2 = Some (ws, r)) \<or> expect CHR '']'' r' = Some r"
      by (auto simp: bind_eq_Some_conv split: option.splits)
    have "length r < length r'"
      using rest Suc(2) expect_shorter by (meson less_trans)
    then show ?case
      using Suc(1) [OF v] by simp
  next
    case 3
    then obtain r0 k r1 r2 w r' where e: "expect CHR 0x22 s = Some r0" "string_body r0 = Some (k, r1)" "expect CHR '':'' r1 = Some r2"
      and v: "parse_value pf n r2 = Some (w, r')"
      and rest: "(\<exists>r3 ws. expect CHR '','' r' = Some r3 \<and> parse_members pf n r3 = Some (ws, r)) \<or> expect CHR ''}'' r' = Some r"
      by (auto simp: bind_eq_Some_conv split: option.splits)
    have "length r < length r'"
      using rest Suc(3) expect_shorter by (meson less_trans)
    then show ?case
      using Suc(1) [OF v] expect_shorter [OF e(1)] string_shorter [OF e(2)] expect_shorter [OF e(3)] by simp
  }
qed simp_all

text \<open>One more than twice the length of the text is depth enough: more changes nothing.\<close>

lemma bind_cong_Some: "(\<And>x. m = Some x \<Longrightarrow> f x = g x) \<Longrightarrow> Option.bind m f = Option.bind m g"
  by (cases m) auto

lemma read_head_cong:
  assumes "parse_items pf n cs = parse_items pf m cs" and "parse_members pf n cs = parse_members pf m cs"
  shows "read_head pf n c cs = read_head pf m c cs"
  unfolding read_head_def assms ..

lemma parse_stable:
  "2 * length s < n \<Longrightarrow> parse_value pf (Suc n) s = parse_value pf n s"
  "2 * length s + 1 < n \<Longrightarrow> parse_items pf (Suc n) s = parse_items pf n s"
  "2 * length s + 1 < n \<Longrightarrow> parse_members pf (Suc n) s = parse_members pf n s"
proof (induction n arbitrary: s)
  case (Suc n)
  {
    case 1
    show ?case
    proof (cases "skip_space s")
      case (Cons c cs)
      then have "2 * length cs + 1 < n"
        using 1 skip_space_shorter [of s] by simp
      then show ?thesis
        unfolding parse_value_head Cons using Suc(2,3) by (simp only: list.case) (rule read_head_cong; blast)
    qed (simp add: parse_value_head)
  next
    case 2
    have rest: "parse_items pf (Suc n) r' = parse_items pf n r'" if "parse_value pf n s = Some (w, r)" "expect CHR '','' r = Some r'" for w r r'
      using Suc(2) [of r'] 2 parse_shorter(1) [OF that(1)] expect_shorter [OF that(2)] by simp
    have "parse_items pf (Suc (Suc n)) s
      = Option.bind (parse_value pf n s) (\<lambda>(v, r). case expect CHR '','' r of
          Some r' \<Rightarrow> Option.bind (parse_items pf (Suc n) r') (\<lambda>(vs, r''). Some (v # vs, r''))
        | None \<Rightarrow> Option.bind (expect CHR '']'' r) (\<lambda>r'. Some ([v], r')))"
      using Suc(1) [of s] 2 by (simp only: parse_items.simps(2) [of pf "Suc n" s])
    also have "\<dots> = parse_items pf (Suc n) s"
      unfolding parse_items.simps(2) [of pf n s]
      by (rule bind_cong_Some) (auto simp: rest split: option.split simp del: parse_items.simps)
    finally show ?case .
  next
    case 3
    have val: "parse_value pf (Suc n) r2 = parse_value pf n r2"
      if "expect CHR 0x22 s = Some r0" "string_body r0 = Some (k, r1)" "expect CHR '':'' r1 = Some r2" for r0 k r1 r2
      using Suc(1) [of r2] 3 expect_shorter [OF that(1)] string_shorter [OF that(2)] expect_shorter [OF that(3)] by simp
    have rest: "parse_members pf (Suc n) r' = parse_members pf n r'"
      if "expect CHR 0x22 s = Some r0" "string_body r0 = Some (k, r1)" "expect CHR '':'' r1 = Some r2"
        "parse_value pf n r2 = Some (w, r)" "expect CHR '','' r = Some r'" for r0 k r1 r2 w r r'
      using Suc(3) [of r'] 3 expect_shorter [OF that(1)] string_shorter [OF that(2)] expect_shorter [OF that(3)]
        parse_shorter(1) [OF that(4)] expect_shorter [OF that(5)] by simp
    show ?case
    proof (cases "\<exists>r0 k r1 r2. expect CHR 0x22 s = Some r0 \<and> string_body r0 = Some (k, r1) \<and> expect CHR '':'' r1 = Some r2")
      case True
      then obtain r0 k r1 r2 where key: "expect CHR 0x22 s = Some r0" "string_body r0 = Some (k, r1)" "expect CHR '':'' r1 = Some r2"
        by blast
      show ?thesis
        unfolding parse_members.simps(2) [of pf "Suc n" s] parse_members.simps(2) [of pf n s] key bind.bind_lunit prod.case val [OF key]
        by (rule bind_cong_Some) (auto simp: rest [OF key] split: option.split simp del: parse_members.simps)
    next
      case False
      then show ?thesis
        by (auto simp: parse_members.simps(2) bind_eq_None_conv split: option.splits prod.splits intro!: bind_cong_Some)
    qed
  }
qed simp_all

lemma parse_stable_le: "2 * length s < n \<Longrightarrow> n \<le> m \<Longrightarrow> parse_value pf m s = parse_value pf n s"
proof (induction m)
  case (Suc m)
  then show ?case
    using parse_stable(1) [of s m pf] by (cases "n = Suc m") auto
qed simp

section \<open>What has been read does not depend on what follows\<close>

lemma skip_space_extend: "skip_space s = c # cs \<Longrightarrow> skip_space (s @ t) = c # cs @ t"
  unfolding skip_space_def by (induction s) (auto split: if_splits)

lemma expect_extend: "expect c s = Some r \<Longrightarrow> expect c (s @ t) = Some (r @ t)"
  by (auto simp: expect.simps skip_space_extend split: list.splits if_splits)

lemma expect_extend_None: "expect c s = None \<Longrightarrow> skip_space s \<noteq> [] \<Longrightarrow> expect c (s @ t) = None"
  by (cases "skip_space s") (auto simp: expect.simps skip_space_extend split: if_splits)

lemma take_extend: "take n s = w \<Longrightarrow> length w = n \<Longrightarrow> take n (s @ t) = w \<and> drop n (s @ t) = drop n s @ t"
  by (metis append_eq_conv_conj append_take_drop_id append_assoc)

lemma literal_extend:
  assumes "literal s = Some (v, r)"
  shows "literal (s @ t) = Some (v, r @ t)"
proof -
  consider "take 4 s = ''null''" | "take 4 s = ''true''" | "take 5 s = ''false''"
    using assms by (auto simp: literal_def split: if_splits)
  then show ?thesis
  proof cases
    case 1
    then show ?thesis
      using assms take_extend [OF 1, of t] by (auto simp: literal_def)
  next
    case 2
    then show ?thesis
      using assms take_extend [OF 2, of t] by (auto simp: literal_def)
  next
    case 3
    have "take 4 s = ''fals''"
      using arg_cong [OF 3, of "take 4"] by simp
    then show ?thesis
      using assms 3 take_extend [OF 3, of t] take_extend [of 4 s "''fals''" t] by (auto simp: literal_def split: if_splits)
  qed
qed

lemma number_extend:
  assumes "number_prefix pf s = Some (v, r)" and "r \<noteq> []"
  shows "number_prefix pf (s @ t) = Some (v, r @ t)"
proof -
  have r: "dropWhile is_number_char s = r"
    using assms(1) by (auto simp: number_prefix_def bind_eq_Some_conv)
  then have "takeWhile is_number_char (s @ t) = takeWhile is_number_char s \<and> dropWhile is_number_char (s @ t) = r @ t"
    using assms(2) by (metis dropWhile_append dropWhile_eq_Nil_conv takeWhile_append1)
  then show ?thesis
    using assms(1) by (auto simp: number_prefix_def bind_eq_Some_conv)
qed

fun is_number :: "json \<Rightarrow> bool" where
  "is_number (JNumber n) \<longleftrightarrow> True"
| "is_number v \<longleftrightarrow> False"

lemma items_not_blank: "parse_items pf n s = Some (vs, r) \<Longrightarrow> skip_space s \<noteq> []"
proof (cases n)
  case (Suc m)
  moreover assume "parse_items pf n s = Some (vs, r)"
  ultimately obtain w r' where "parse_value pf m s = Some (w, r')"
    by (auto simp: bind_eq_Some_conv)
  then show ?thesis
    by (cases m) (auto simp: parse_value_head split: list.splits)
qed simp

lemma members_not_blank: "parse_members pf n s = Some (ms, r) \<Longrightarrow> skip_space s \<noteq> []"
  by (cases n) (auto simp: bind_eq_Some_conv expect.simps split: list.splits)

lemma read_head_extend:
  assumes "read_head pf n c cs = Some (v, r)" and "r \<noteq> [] \<or> \<not> is_number v"
    and "\<And>vs r. parse_items pf n cs = Some (vs, r) \<Longrightarrow> parse_items pf n (cs @ t) = Some (vs, r @ t)"
    and "\<And>ms r. parse_members pf n cs = Some (ms, r) \<Longrightarrow> parse_members pf n (cs @ t) = Some (ms, r @ t)"
  shows "read_head pf n c (cs @ t) = Some (v, r @ t)"
proof -
  consider (str) "c = CHR 0x22" | (arr) "c = CHR ''[''" | (obj) "c = CHR ''{''"
    | (num) "c \<noteq> CHR 0x22" "c \<noteq> CHR ''[''" "c \<noteq> CHR ''{''" "is_number_char c"
    | (lit) "c \<noteq> CHR 0x22" "c \<noteq> CHR ''[''" "c \<noteq> CHR ''{''" "\<not> is_number_char c"
    by blast
  then show ?thesis
  proof cases
    case str
    then show ?thesis
      using assms(1) string_extend by (auto simp: read_head_def bind_eq_Some_conv)
  next
    case arr
    show ?thesis
    proof (cases "expect CHR '']'' cs")
      case None
      then obtain vs where vs: "parse_items pf n cs = Some (vs, r)" "v = JArray vs"
        using assms(1) arr by (auto simp: read_head_def bind_eq_Some_conv)
      then show ?thesis
        using arr assms(3) [OF vs(1)] expect_extend_None [OF None items_not_blank [OF vs(1)]] by (simp add: read_head_def)
    qed (use assms(1) arr expect_extend in \<open>auto simp: read_head_def\<close>)
  next
    case obj
    show ?thesis
    proof (cases "expect CHR ''}'' cs")
      case None
      then obtain ms where ms: "parse_members pf n cs = Some (ms, r)" "v = JObject (merge_members ms)"
        using assms(1) obj by (auto simp: read_head_def bind_eq_Some_conv)
      then show ?thesis
        using obj assms(4) [OF ms(1)] expect_extend_None [OF None members_not_blank [OF ms(1)]] by (simp add: read_head_def)
    qed (use assms(1) obj expect_extend in \<open>auto simp: read_head_def\<close>)
  next
    case num
    then have "is_number v"
      using assms(1) by (auto simp: read_head_def number_prefix_def bind_eq_Some_conv)
    then show ?thesis
      using assms(1,2) num number_extend [of pf "c # cs" v r t] by (simp add: read_head_def)
  next
    case lit
    then show ?thesis
      using assms(1) literal_extend [of "c # cs" v r t] by (simp add: read_head_def)
  qed
qed

lemma expect_not_empty: "expect c r = Some r' \<Longrightarrow> r \<noteq> []"
  by (auto simp: expect.simps skip_space_def)

lemma expect_other: "expect c s = Some r \<Longrightarrow> d \<noteq> c \<Longrightarrow> expect d (s @ t) = None"
  by (auto simp: expect.simps skip_space_extend split: list.splits if_splits)

lemma parse_extend:
  "parse_value pf n s = Some (v, r) \<Longrightarrow> r \<noteq> [] \<or> \<not> is_number v \<Longrightarrow> parse_value pf n (s @ t) = Some (v, r @ t)"
  "parse_items pf n s = Some (vs, r) \<Longrightarrow> parse_items pf n (s @ t) = Some (vs, r @ t)"
  "parse_members pf n s = Some (ms, r) \<Longrightarrow> parse_members pf n (s @ t) = Some (ms, r @ t)"
proof (induction n arbitrary: s v vs ms r)
  case (Suc n)
  {
    case 1
    then obtain c cs where s: "skip_space s = c # cs" and "read_head pf n c cs = Some (v, r)"
      by (auto simp: parse_value_head split: list.splits)
    then have "read_head pf n c (cs @ t) = Some (v, r @ t)"
      using 1(2) Suc(2,3) by (intro read_head_extend) auto
    then show ?case
      by (simp add: parse_value_head skip_space_extend [OF s])
  next
    case 2
    then obtain w r' where v: "parse_value pf n s = Some (w, r')"
      and rest: "(\<exists>r2 ws. expect CHR '','' r' = Some r2 \<and> parse_items pf n r2 = Some (ws, r) \<and> vs = w # ws)
        \<or> (expect CHR '']'' r' = Some r \<and> vs = [w])"
      by (auto simp: bind_eq_Some_conv split: option.splits)
    have "r' \<noteq> []"
      using rest expect_not_empty by blast
    then have "parse_value pf n (s @ t) = Some (w, r' @ t)"
      using Suc(1) [OF v] by simp
    then show ?case
      using rest Suc(2) expect_other [of "CHR '']''" r' r "CHR '',''" t] expect_extend by auto
  next
    case 3
    then obtain r0 k r1 r2 w r' where e: "expect CHR 0x22 s = Some r0" "string_body r0 = Some (k, r1)" "expect CHR '':'' r1 = Some r2"
      and v: "parse_value pf n r2 = Some (w, r')"
      and rest: "(\<exists>r3 ws. expect CHR '','' r' = Some r3 \<and> parse_members pf n r3 = Some (ws, r) \<and> ms = (k, w) # ws)
        \<or> (expect CHR ''}'' r' = Some r \<and> ms = [(k, w)])"
      by (auto simp: bind_eq_Some_conv split: option.splits)
    have "r' \<noteq> []"
      using rest expect_not_empty by blast
    then have "parse_value pf n (r2 @ t) = Some (w, r' @ t)"
      using Suc(1) [OF v] by simp
    then show ?case
      using rest Suc(3) expect_other [of "CHR ''}''" r' r "CHR '',''" t] expect_extend [OF e(1)] string_extend [OF e(2)] expect_extend [OF e(3)]
        expect_extend by auto
  }
qed simp_all

section \<open>Written values are read back\<close>

text \<open>Values that survive writing: finite numbers other than negative zero, and objects with distinct keys.\<close>

fun wf_json :: "json \<Rightarrow> bool" where
  "wf_json (JNumber n) \<longleftrightarrow> num_is_finite n \<and> wf_number n \<and> \<not> num_is_neg_zero n"
| "wf_json (JArray vs) \<longleftrightarrow> (\<forall>v\<in>set vs. wf_json v)"
| "wf_json (JObject fs) \<longleftrightarrow> distinct (map fst fs) \<and> (\<forall>kv\<in>set fs. wf_json (snd kv))"
| "wf_json v \<longleftrightarrow> True"

lemma number_char_cases: "is_number_char c \<Longrightarrow> \<not> is_space c \<and> c \<notin> {CHR 0x22, CHR ''['', CHR '']'', CHR ''{'', CHR ''}'', CHR '','', CHR '':''}"
  by (auto simp: is_number_char_def is_digit_def is_space_def)

lemma number_json_read:
  assumes "faithful_floats ft pf" and "wf_json (JNumber n)"
  shows "list_all is_number_char (number_json ft n)" "number_of_token pf (number_json ft n) = Some n" "number_json ft n \<noteq> []"
proof -
  have "list_all is_number_char (number_json ft n) \<and> number_of_token pf (number_json ft n) = Some n"
  proof (cases n)
    case (JInt i)
    have "list_all is_number_char (nat_text m)" for m
      using nat_text_digits [of m] by (auto simp: list_all_iff is_number_char_def)
    moreover have "is_number_char CHR ''-''"
      by (simp add: is_number_char_def)
    ultimately have "list_all is_number_char (number_text ft (JInt i))"
      by simp
    then show ?thesis
      using assms(2) JInt integer_text_read [of i pf ft] by (simp add: num_is_neg_zero_def del: number_text.simps)
  next
    case (JFloat b)
    then show ?thesis
      using assms by (auto simp: faithful_floats_def num_is_neg_zero_def)
  qed
  moreover have "number_of_token pf [] = None"
    by (simp add: number_of_token_def number_grammar_def Let_def)
  ultimately show "list_all is_number_char (number_json ft n)" "number_of_token pf (number_json ft n) = Some n" "number_json ft n \<noteq> []"
    by (auto simp del: number_json.simps)
qed

declare number_json.simps [simp del]

lemma expect_Cons: "\<not> is_space c \<Longrightarrow> expect d (c # cs) = (if c = d then Some cs else None)"
  by (simp add: expect.simps skip_space_def)

lemma expect_syntax [simp]:
  "expect CHR '','' (CHR '','' # cs) = Some cs" "expect CHR '','' (CHR '']'' # cs) = None" "expect CHR '','' (CHR ''}'' # cs) = None"
  "expect CHR '']'' (CHR '']'' # cs) = Some cs" "expect CHR ''}'' (CHR ''}'' # cs) = Some cs" "expect CHR '':'' (CHR '':'' # cs) = Some cs"
  "expect CHR 0x22 (CHR 0x22 # cs) = Some cs" "expect CHR ''}'' (CHR 0x22 # cs) = None"
  by (simp_all add: expect_Cons is_space_def)

text \<open>The first character of a written value.\<close>

lemma stringify_head:
  assumes "faithful_floats ft pf" and "wf_json v"
  obtains c cs where "stringify ft v = c # cs" "\<not> is_space c" "c \<noteq> CHR '']''" "c \<noteq> CHR ''}''"
proof (cases v)
  case (JNumber n)
  obtain c cs where "number_json ft n = c # cs" "is_number_char c"
    using number_json_read(1,3) [OF assms(1), of n] assms(2) JNumber by (cases "number_json ft n") auto
  then show ?thesis
    using that [of c cs] number_char_cases [of c] JNumber by auto
next
  case (JBool b)
  then show ?thesis
    using that by (cases b) (auto simp: is_space_def)
qed (use that in \<open>auto simp: is_space_def quote_text_def\<close>)

definition delimited :: "string \<Rightarrow> bool" where
  "delimited r \<longleftrightarrow> r = [] \<or> \<not> is_number_char (hd r)"

lemma delimited_syntax [simp]: "delimited (CHR '','' # r)" "delimited (CHR '']'' # r)" "delimited (CHR ''}'' # r)" "delimited []"
  using number_char_cases by (auto simp: delimited_def)

definition reads :: "(64 word \<Rightarrow> string) \<Rightarrow> (string \<Rightarrow> 64 word) \<Rightarrow> json \<Rightarrow> bool" where
  "reads ft pf v \<longleftrightarrow> (\<forall>n r. delimited r \<and> 2 * length (stringify ft v @ r) < n
     \<longrightarrow> parse_value pf n (stringify ft v @ r) = Some (v, r))"

lemma items_read:
  assumes "\<forall>v\<in>set vs. reads ft pf v" and "vs \<noteq> []"
    and "2 * length (join_commas (map (stringify ft) vs) @ CHR '']'' # r) + 1 < n"
  shows "parse_items pf n (join_commas (map (stringify ft) vs) @ CHR '']'' # r) = Some (vs, r)"
  using assms
proof (induction vs arbitrary: n rule: induct_list012)
  case (2 v)
  then obtain m where n: "n = Suc m"
    by (cases n) auto
  have "parse_value pf m (stringify ft v @ CHR '']'' # r) = Some (v, CHR '']'' # r)"
    using 2 n by (simp add: reads_def)
  then show ?case
    by (simp add: n)
next
  case (3 v w vs)
  then obtain m where n: "n = Suc m"
    by (cases n) auto
  let ?s = "join_commas (map (stringify ft) (w # vs)) @ CHR '']'' # r"
  have "parse_value pf m (stringify ft v @ CHR '','' # ?s) = Some (v, CHR '','' # ?s)"
    using 3(3,5) n by (simp add: reads_def)
  moreover have "parse_items pf m ?s = Some (w # vs, r)"
    using 3 n by (intro 3(2)) auto
  ultimately show ?case
    by (simp add: n)
qed simp

abbreviation member_text :: "(64 word \<Rightarrow> string) \<Rightarrow> string \<times> json \<Rightarrow> string" where
  "member_text ft \<equiv> (\<lambda>(k, v). quote_text k @ CHR '':'' # stringify ft v)"

lemma members_read:
  assumes "\<forall>kv\<in>set fs. reads ft pf (snd kv)" and "fs \<noteq> []"
    and "2 * length (join_commas (map (member_text ft) fs) @ CHR ''}'' # r) + 1 < n"
  shows "parse_members pf n (join_commas (map (member_text ft) fs) @ CHR ''}'' # r) = Some (fs, r)"
  using assms
proof (induction fs arbitrary: n rule: induct_list012)
  case (2 kv)
  then obtain m k v where n: "n = Suc m" and kv: "kv = (k, v)"
    by (cases n; cases kv) auto
  have "parse_value pf m (stringify ft v @ CHR ''}'' # r) = Some (v, CHR ''}'' # r)"
    using 2 n kv by (simp add: reads_def)
  then show ?case
    by (simp add: n kv quote_text_def string_read)
next
  case (3 kv kw fs)
  then obtain m k v where n: "n = Suc m" and kv: "kv = (k, v)"
    by (cases n; cases kv) auto
  let ?s = "join_commas (map (member_text ft) (kw # fs)) @ CHR ''}'' # r"
  have "parse_value pf m (stringify ft v @ CHR '','' # ?s) = Some (v, CHR '','' # ?s)"
    using 3(3,5) n kv by (simp add: reads_def)
  moreover have "parse_members pf m ?s = Some (kw # fs, r)"
    using 3 n by (intro 3(2)) auto
  ultimately show ?case
    by (simp add: n kv quote_text_def string_read)
qed simp

lemma merge_members_distinct: "distinct (map fst ms) \<Longrightarrow> merge_members ms = ms"
proof -
  have "foldl (\<lambda>fs (k, v). AList.update k v fs) acc ms = acc @ ms"
    if "distinct (map fst ms)" "fst ` set acc \<inter> fst ` set ms = {}" for acc
    using that
  proof (induction ms arbitrary: acc)
    case (Cons m ms)
    obtain k v where m: "m = (k, v)"
      by (cases m)
    have "AList.update k v acc = acc @ [(k, v)]"
      using Cons.prems(2) m by (induction acc) auto
    then show ?case
      using Cons m by (auto simp: image_iff)
  qed simp
  then show "distinct (map fst ms) \<Longrightarrow> merge_members ms = ms"
    by (simp add: merge_members_def)
qed

lemma parse_value_char:
  "0 < n \<Longrightarrow> \<not> is_space c \<Longrightarrow> parse_value pf n (c # cs) = read_head pf (n - 1) c cs"
  by (cases n) (simp_all add: parse_value_head skip_space_def)

lemma value_reads:
  assumes "faithful_floats ft pf" and "wf_json v"
  shows "reads ft pf v"
  using assms(2)
proof (induction v)
  case (JNumber n)
  have num: "list_all is_number_char (number_json ft n)" "number_of_token pf (number_json ft n) = Some n" "number_json ft n \<noteq> []"
    using number_json_read [OF assms(1) JNumber.prems] .
  show ?case
    unfolding reads_def
  proof (intro allI impI, elim conjE)
    fix m r
    assume r: "delimited r" and "2 * length (stringify ft (JNumber n) @ r) < m"
    then obtain k where m: "m = Suc k"
      by (cases m) auto
    obtain c cs where c: "number_json ft n = c # cs" "is_number_char c"
      using num(1,3) by (cases "number_json ft n") auto
    have "takeWhile is_number_char (c # cs @ r) = c # cs" "dropWhile is_number_char (c # cs @ r) = r"
      using num(1) c r unfolding delimited_def by (cases r; auto simp: list_all_iff takeWhile_append dropWhile_append)+
    then have "number_prefix pf (c # cs @ r) = Some (JNumber n, r)"
      using num(2) c unfolding number_prefix_def by simp
    then show "parse_value pf m (stringify ft (JNumber n) @ r) = Some (JNumber n, r)"
      using number_char_cases [OF c(2)] c by (simp add: m parse_value_head read_head_def skip_space_def)
  qed
next
  case (JArray vs)
  show ?case
    unfolding reads_def
  proof (intro allI impI, elim conjE)
    fix m r
    assume m: "2 * length (stringify ft (JArray vs) @ r) < m"
    then obtain k where k: "m = Suc k"
      by (cases m) auto
    let ?s = "join_commas (map (stringify ft) vs) @ CHR '']'' # r"
    have items: "parse_items pf k ?s = Some (vs, r)" if "vs \<noteq> []"
      using JArray that m k by (intro items_read) auto
    have "expect CHR '']'' ?s = None" if ne: "vs \<noteq> []"
    proof -
      obtain v ws where vs: "vs = v # ws"
        using ne by (cases vs) auto
      then have "wf_json v"
        using JArray.prems by simp
      then obtain c cs where "stringify ft v = c # cs" "\<not> is_space c" "c \<noteq> CHR '']''"
        using stringify_head [OF assms(1)] by metis
      then show ?thesis
        using vs by (cases ws) (auto simp: expect_Cons)
    qed
    then show "parse_value pf m (stringify ft (JArray vs) @ r) = Some (JArray vs, r)"
      using items by (cases vs) (simp_all add: k parse_value_head read_head_def skip_space_def is_space_def)
  qed
next
  case (JObject fs)
  show ?case
    unfolding reads_def
  proof (intro allI impI, elim conjE)
    fix m r
    assume m: "2 * length (stringify ft (JObject fs) @ r) < m"
    then obtain k where k: "m = Suc k"
      by (cases m) auto
    let ?s = "join_commas (map (member_text ft) fs) @ CHR ''}'' # r"
    have "\<forall>kv\<in>set fs. reads ft pf (snd kv)"
      using JObject by (auto elim!: snds.cases)
    then have members: "parse_members pf k ?s = Some (fs, r)" if "fs \<noteq> []"
      using that m k by (intro members_read) auto
    have "expect CHR ''}'' ?s = None" if "fs \<noteq> []"
      using that by (cases fs rule: remdups_adj.cases) (auto simp: quote_text_def)
    then show "parse_value pf m (stringify ft (JObject fs) @ r) = Some (JObject fs, r)"
      using members JObject.prems
      by (cases fs) (simp_all add: k parse_value_head read_head_def skip_space_def is_space_def merge_members_distinct)
  qed
next
  case (JString s)
  show ?case
    unfolding reads_def by (simp add: parse_value_char read_head_def is_space_def quote_text_def string_read)
qed (auto simp: reads_def parse_value_char read_head_def is_space_def is_number_char_def is_digit_def literal_def)

theorem json_roundtrip:
  assumes "faithful_floats ft pf" and "wf_json v"
  shows "json_parse pf (stringify ft v) = Some v"
proof -
  have "parse_value pf (Suc (2 * length (stringify ft v))) (stringify ft v @ []) = Some (v, [])"
    using value_reads [OF assms] unfolding reads_def by (metis append_Nil2 delimited_syntax(4) lessI)
  then show ?thesis
    by (simp add: json_parse_def skip_space_def)
qed

text \<open>No proper prefix of a written object is JSON.\<close>

lemma json_prefix:
  assumes "faithful_floats ft pf" and "wf_json (JObject fs)" and "stringify ft (JObject fs) = p @ q" and "q \<noteq> []"
  shows "json_parse pf p = None"
proof (rule ccontr)
  assume "json_parse pf p \<noteq> None"
  then obtain v r where v: "parse_value pf (Suc (2 * length p)) p = Some (v, r)" and r: "skip_space r = []"
    by (auto simp: json_parse_def bind_eq_Some_conv split: if_splits)
  let ?n = "Suc (2 * length (p @ q))"
  have p: "parse_value pf ?n p = Some (v, r)"
    using v parse_stable_le [of p "Suc (2 * length p)" ?n pf] by simp
  obtain c cs where "skip_space p = c # cs"
    using v by (auto simp: parse_value_head split: list.splits)
  moreover have "p \<noteq> []"
    using calculation by (auto simp: skip_space_def)
  then obtain p' where "p = CHR ''{'' # p'"
    using assms(3) by (cases p) auto
  ultimately have "c = CHR ''{''"
    by (simp add: skip_space_def is_space_def)
  then have "\<not> is_number v"
    using v \<open>skip_space p = c # cs\<close> by (auto simp: parse_value_head read_head_def bind_eq_Some_conv split: option.splits)
  then have "parse_value pf ?n (p @ q) = Some (v, r @ q)"
    using parse_extend(1) [OF p] by simp
  moreover have "parse_value pf ?n (p @ q) = Some (JObject fs, [])"
    using value_reads [OF assms(1,2)] unfolding reads_def assms(3) by (metis append_Nil2 delimited_syntax(4) lessI)
  ultimately show False
    using assms(4) by simp
qed

text \<open>A written value is one line.\<close>

lemma escape_line: "CHR 0x0A \<notin> set (escape_char c)"
proof -
  have "CHR 0x0A \<noteq> hex_char n" if "n < 16" for n
  proof
    assume "CHR 0x0A = hex_char n"
    then have "(of_char (hex_char n) :: nat) = of_char CHR 0x0A"
      by (rule arg_cong [OF sym])
    with that show False
      by (auto simp: hex_char_def split: if_splits)
  qed
  moreover have "(of_char c :: nat) < 32 \<Longrightarrow> (of_char c :: nat) div 16 < 16" "(of_char c :: nat) mod 16 < 16"
    by simp_all
  ultimately show ?thesis
    by (auto simp: escape_char_def)
qed

lemma quote_line: "CHR 0x0A \<notin> set (quote_text s)"
  using escape_line by (auto simp: quote_text_def)

lemma join_line: "(\<forall>x\<in>set xs. CHR 0x0A \<notin> set x) \<Longrightarrow> CHR 0x0A \<notin> set (join_commas xs)"
  by (induction xs rule: join_commas.induct) auto

lemma stringify_line:
  assumes "faithful_floats ft pf" and "wf_json v"
  shows "CHR 0x0A \<notin> set (stringify ft v)"
  using assms(2)
proof (induction v)
  case (JNumber n)
  have "\<not> is_number_char CHR 0x0A"
    by (simp add: is_number_char_def is_digit_def)
  then show ?case
    using number_json_read(1) [OF assms(1) JNumber.prems] by (auto simp: list_all_iff)
next
  case (JArray vs)
  then have "CHR 0x0A \<notin> set (join_commas (map (stringify ft) vs))"
    by (intro join_line) auto
  then show ?case
    by simp
next
  case (JObject fs)
  then have "\<forall>kv\<in>set fs. CHR 0x0A \<notin> set (stringify ft (snd kv))"
    by (auto elim!: snds.cases)
  then have "CHR 0x0A \<notin> set (join_commas (map (member_text ft) fs))"
    using quote_line by (intro join_line) fastforce
  then show ?case
    by simp
qed (simp_all add: quote_line)

end
