(* ===== verification/JsonlCodecCorrect.thy ===== *)
theory JsonlCodecCorrect
  imports JsonlCodec JsonTextCorrect
begin

text \<open>
  The journal codec: what \<open>encodeMutation\<close> and \<open>encodeHeader\<close> write is one line, which
  \<open>parseMutation\<close>, respectively \<open>parseHeader\<close>, reads back; and a proper prefix of such a line is a
  syntax error.
\<close>

declare map_of_append [simp del]

section \<open>Casts after validation\<close>

lemma validatePayload_Ok: "validatePayload v f = Ok () \<longleftrightarrow> is_Ok (f v)"
  by (cases "f v") (simp_all add: validatePayload_def)

lemma parse_cast_defined:
  "validatePayload (Some (JObject v)) assertDurableEntry = Ok () \<Longrightarrow> \<exists>e. cast_entry v p n t = Some e"
  "validatePayload (Some (JObject v)) assertDurableRecord = Ok () \<Longrightarrow> \<exists>r. cast_record v n t = Some r"
  using record_defined [of "Some (JObject v)"]
  by (auto simp: validatePayload_Ok cast_entry_def cast_record_def entry_defined)

section \<open>Well-formed mutations\<close>

definition wf_entry :: "entry \<Rightarrow> bool" where
  "wf_entry e \<longleftrightarrow> wf_body (e_body e) \<and> fresh (''id'' # ''type'' # body_keys (e_body e)) (e_extra e)
     \<and> fresh [''kind'', ''lane'', ''parentId'', ''seq'', ''timestamp''] (e_extra e)"

definition wf_lane_record :: "lane_record \<Rightarrow> bool" where
  "wf_lane_record r \<longleftrightarrow> wf_record (r_body r) \<and> fresh (''id'' # ''lane'' # ''type'' # record_keys (r_body r)) (r_extra r)
     \<and> fresh [''kind'', ''seq'', ''timestamp''] (r_extra r)"

fun mutation_time :: "session_mutation \<Rightarrow> nat" where
  "mutation_time (EntryMutation l e) = e_timestamp e"
| "mutation_time (RecordMutation r) = r_timestamp r"
| "mutation_time m = 0"

text \<open>The data is that of the types, the numbers are safe, and the written object is made of JSON values.\<close>

definition wf_mutation :: "session_mutation \<Rightarrow> bool" where
  "wf_mutation m \<longleftrightarrow> (case m of EntryMutation l e \<Rightarrow> wf_entry e | RecordMutation r \<Rightarrow> wf_lane_record r | _ \<Rightarrow> True)
     \<and> 1 \<le> mutation_seq m \<and> safe_nat (mutation_seq m) \<and> safe_nat (mutation_time m) \<and> wf_json (JObject (mutation_fields m))"

definition wf_header :: "jsonl_header \<Rightarrow> bool" where
  "wf_header h \<longleftrightarrow> safe_nat (jh_createdAt h) \<and> \<not> (jh_parentSessionId h \<noteq> None \<and> jh_legacyParentSessionPath h \<noteq> None)
     \<and> wf_json (JObject (header_fields h))"

section \<open>Reading mutations\<close>

lemma rest_of_rest: "rest_of ks (rest_of js fs) = rest_of (js @ ks) fs"
  by (induction fs) auto

lemma map_of_member: "distinct (map fst fs) \<Longrightarrow> (k, v) \<in> set fs \<Longrightarrow> map_of fs k = Some v"
  by (rule map_of_is_SomeI)

lemma sequence_read: "1 \<le> n \<Longrightarrow> safe_nat n \<Longrightarrow> requireSequence (Some (nat_json n)) = Ok n"
  by (simp add: requireSequence_def safe_nat_def num_is_safe_integer_def)

lemma timestamp_read: "safe_nat n \<Longrightarrow> requireTimestamp (Some (nat_json n)) = Ok n"
  by (simp add: requireTimestamp_def safe_nat_def num_is_safe_integer_def)

lemma nullable_id_read: "requireNullableId (Some (nullable_json x)) f = Ok x"
  by (cases x) (simp_all add: requireNullableId_def)

lemma optional_text_read: "optional_text (map_option JString x) f = Ok x"
  by (cases x) (simp_all add: optional_text_def)

lemma entry_type_string: "requireString (Some (JString s)) f = Ok s"
  by (simp add: requireString_def)

lemma body_keys_apart:
  "set (body_keys b) \<inter> {''kind'', ''lane'', ''id'', ''type'', ''parentId'', ''seq'', ''timestamp''} = {}"
  by (cases b) auto

lemma record_keys_apart:
  "set (record_keys b) \<inter> {''kind'', ''lane'', ''id'', ''type'', ''seq'', ''timestamp''} = {}"
  by (cases b) auto

lemma optional_field_keys [simp]: "fst ` set (optional_field k f v) = (if v = None then {} else {k})"
  by (cases v) auto

lemma record_fields_keys: "set (map fst (record_fields b)) \<subseteq> set (record_keys b)"
proof (cases b)
  case (UsageRecord u c)
  then show ?thesis
    by (cases c) auto
qed auto

lemma fresh_iff: "fresh ks fs \<longleftrightarrow> fst ` set fs \<inter> set ks = {}"
  by (auto simp: fresh_def list_all_iff map_of_eq_None_iff)

lemma entry_cast_read:
  assumes "wf_entry e" and "distinct (map fst (mutation_fields (EntryMutation lane e)))"
  shows "entry_of (Some (JObject (mutation_fields (EntryMutation lane e)))) \<noteq> None"
    and "cast_entry (mutation_fields (EntryMutation lane e)) (e_parentId e) (e_seq e) (e_timestamp e) = Some e"
proof -
  let ?fs = "mutation_fields (EntryMutation lane e)"
  let ?pre = "(''kind'', JString ''entry'') # optional_field ''lane'' JString lane
     @ [(''id'', JString (e_id e)), (''type'', JString (entry_type (e_body e)))]"
  let ?post = "[(''parentId'', nullable_json (e_parentId e)), (''seq'', nat_json (e_seq e)), (''timestamp'', nat_json (e_timestamp e))]"
  have fs: "?fs = ?pre @ body_fields (e_body e) @ (e_extra e @ ?post)"
    by (simp add: entry_fields_def)
  have pre: "fst ` set ?pre \<subseteq> {''kind'', ''lane'', ''id'', ''type''}"
    by (cases lane) auto
  have id: "map_of ?fs ''id'' = Some (JString (e_id e))"
    by (rule map_of_member [OF assms(2)]) (simp add: entry_fields_def)
  have ty: "map_of ?fs ''type'' = Some (JString (entry_type (e_body e)))"
    by (rule map_of_member [OF assms(2)]) (simp add: entry_fields_def)
  have "body_of (entry_type (e_body e)) ?fs = Some (e_body e)"
    unfolding fs
  proof (rule body_read)
    show "wf_body (e_body e)"
      using assms(1) by (simp add: wf_entry_def)
    show "fresh (body_keys (e_body e)) ?pre"
      using pre body_keys_apart [of "e_body e"] unfolding fresh_iff by blast
    show "fresh (body_keys (e_body e)) (e_extra e @ ?post)"
      using assms(1) body_keys_apart [of "e_body e"] unfolding wf_entry_def fresh_iff by auto
  qed
  then have e: "entry_of (Some (JObject ?fs)) = Some \<lparr>pe_id = e_id e, pe_body = e_body e,
      pe_extra = rest_of (''id'' # ''type'' # body_keys (e_body e)) ?fs\<rparr>"
    using id ty by (simp add: entry_of_def del: mutation_fields.simps)
  then show "entry_of (Some (JObject ?fs)) \<noteq> None"
    by simp
  let ?keys = "(''id'' # ''type'' # body_keys (e_body e)) @ [''kind'', ''lane'', ''parentId'', ''seq'', ''timestamp'']"
  have "rest_of ?keys ((?pre @ body_fields (e_body e)) @ e_extra e @ ?post) = e_extra e"
  proof -
    have "rest_of ?keys ((?pre @ body_fields (e_body e)) @ e_extra e) = e_extra e"
    proof (rule rest_of_fields)
      show "set (map fst (?pre @ body_fields (e_body e))) \<subseteq> set ?keys"
        using pre body_fields_keys [of "e_body e"] by auto
      show "fresh ?keys (e_extra e)"
        using assms(1) unfolding wf_entry_def fresh_iff by auto
    qed
    then show ?thesis
      by simp
  qed
  then have "rest_of ?keys ?fs = e_extra e"
    unfolding fs by (simp only: append_assoc)
  then show "cast_entry ?fs (e_parentId e) (e_seq e) (e_timestamp e) = Some e"
    by (simp add: cast_entry_def e rest_of_rest del: mutation_fields.simps)
qed

lemma record_cast_read:
  assumes "wf_lane_record r" and "distinct (map fst (mutation_fields (RecordMutation r)))"
  shows "record_of (Some (JObject (mutation_fields (RecordMutation r)))) \<noteq> None"
    and "cast_record (mutation_fields (RecordMutation r)) (r_seq r) (r_timestamp r) = Some r"
proof -
  let ?fs = "mutation_fields (RecordMutation r)"
  let ?pre = "[(''kind'', JString ''record''), (''id'', JString (r_id r)), (''lane'', JString (r_lane r)), (''type'', JString (record_type (r_body r)))]"
  let ?post = "[(''seq'', nat_json (r_seq r)), (''timestamp'', nat_json (r_timestamp r))]"
  have fs: "?fs = ?pre @ record_fields (r_body r) @ (r_extra r @ ?post)"
    by (simp add: lane_record_fields_def)
  have id: "map_of ?fs ''id'' = Some (JString (r_id r))"
    by (rule map_of_member [OF assms(2)]) (simp add: lane_record_fields_def)
  have lane: "map_of ?fs ''lane'' = Some (JString (r_lane r))"
    by (rule map_of_member [OF assms(2)]) (simp add: lane_record_fields_def)
  have ty: "map_of ?fs ''type'' = Some (JString (record_type (r_body r)))"
    by (rule map_of_member [OF assms(2)]) (simp add: lane_record_fields_def)
  have "record_body_of (record_type (r_body r)) ?fs = Some (r_body r)"
  proof (rule record_body_read)
    show "wf_record (r_body r)"
      using assms(1) by (simp add: wf_lane_record_def)
    have "fresh (record_keys (r_body r)) ?pre" "fresh (record_keys (r_body r)) (r_extra r @ ?post)"
      using assms(1) record_keys_apart [of "r_body r"] unfolding wf_lane_record_def fresh_iff by auto
    then show "agree (record_keys (r_body r)) ?fs (record_fields (r_body r))"
      unfolding fs by (rule agree_between)
  qed
  then have p: "record_of (Some (JObject ?fs)) = Some \<lparr>nr_id = r_id r, nr_lane = r_lane r, nr_body = r_body r,
      nr_extra = rest_of (''id'' # ''lane'' # ''type'' # record_keys (r_body r)) ?fs\<rparr>"
    using id lane ty by (simp add: record_of_def del: mutation_fields.simps)
  then show "record_of (Some (JObject ?fs)) \<noteq> None"
    by simp
  let ?keys = "(''id'' # ''lane'' # ''type'' # record_keys (r_body r)) @ [''kind'', ''seq'', ''timestamp'']"
  have "rest_of ?keys ((?pre @ record_fields (r_body r)) @ r_extra r) = r_extra r"
  proof (rule rest_of_fields)
    show "set (map fst (?pre @ record_fields (r_body r))) \<subseteq> set ?keys"
      using record_fields_keys [of "r_body r"] by auto
    show "fresh ?keys (r_extra r)"
      using assms(1) unfolding wf_lane_record_def fresh_iff by auto
  qed
  then have "rest_of ?keys ?fs = r_extra r"
    unfolding fs by simp
  then show "cast_record ?fs (r_seq r) (r_timestamp r) = Some r"
    by (simp add: cast_record_def p rest_of_rest del: mutation_fields.simps)
qed

abbreviation mutation_text :: "(64 word \<Rightarrow> string) \<Rightarrow> session_mutation \<Rightarrow> string" where
  "mutation_text ft m \<equiv> stringify ft (JObject (merge_members (mutation_fields m)))"

lemma wf_mutation_fields:
  assumes "wf_mutation m"
  shows "distinct (map fst (mutation_fields m))" "merge_members (mutation_fields m) = mutation_fields m"
    "wf_json (JObject (merge_members (mutation_fields m)))"
  using assms merge_members_distinct [of "mutation_fields m"] by (auto simp: wf_mutation_def)

lemma mutation_seq_field: "wf_mutation m \<Longrightarrow> map_of (mutation_fields m) ''seq'' = Some (nat_json (mutation_seq m))"
  using wf_mutation_fields(1) [of m]
  by (intro map_of_member) (cases m; simp add: entry_fields_def lane_record_fields_def)+

lemma decode_fields:
  assumes "faithful_floats ft pf" and "wf_mutation m"
  shows "parseObject pf (mutation_text ft m) = Ok (mutation_fields m)"
  using json_roundtrip [OF assms(1) wf_mutation_fields(3) [OF assms(2)]] wf_mutation_fields(2) [OF assms(2)]
  by (simp add: parseObject_def)

lemma parse_entry_read:
  assumes "wf_mutation (EntryMutation lane e)"
  shows "parseEntryMutation (mutation_fields (EntryMutation lane e)) (e_seq e) = Ok (EntryMutation lane e)"
proof -
  let ?fs = "mutation_fields (EntryMutation lane e)"
  have d: "distinct (map fst ?fs)" and wf: "wf_entry e" "safe_nat (e_timestamp e)"
    using assms wf_mutation_fields(1) [OF assms] by (auto simp: wf_mutation_def)
  note cast = entry_cast_read [OF wf(1) d]
  have "map_of ?fs ''id'' = Some (JString (e_id e))" "map_of ?fs ''type'' = Some (JString (entry_type (e_body e)))"
    "map_of ?fs ''parentId'' = Some (nullable_json (e_parentId e))" "map_of ?fs ''timestamp'' = Some (nat_json (e_timestamp e))"
    using d by (intro map_of_member; simp add: entry_fields_def)+
  moreover have "map_of ?fs ''lane'' = map_option JString lane"
  proof (cases lane)
    case None
    have "''lane'' \<notin> fst ` set (entry_fields e)"
      using wf(1) body_fields_keys [of "e_body e"] body_keys_apart [of "e_body e"]
      unfolding wf_entry_def fresh_iff entry_fields_def by auto
    then show ?thesis
      using None by (simp add: map_of_eq_None_iff)
  next
    case (Some l)
    then show ?thesis
      by simp
  qed
  moreover have "validatePayload (Some (JObject ?fs)) assertDurableEntry = Ok ()"
    using cast(1) by (simp add: validatePayload_Ok entry_defined del: mutation_fields.simps)
  ultimately show ?thesis
    using cast(2) wf(2)
    by (simp add: parseEntryMutation_def optional_text_read entry_type_string nullable_id_read timestamp_read del: mutation_fields.simps)
qed

lemma parse_record_read:
  assumes "wf_mutation (RecordMutation r)"
  shows "parseRecordMutation (mutation_fields (RecordMutation r)) (r_seq r) = Ok (RecordMutation r)"
proof -
  let ?fs = "mutation_fields (RecordMutation r)"
  have d: "distinct (map fst ?fs)" and wf: "wf_lane_record r" "safe_nat (r_timestamp r)"
    using assms wf_mutation_fields(1) [OF assms] by (auto simp: wf_mutation_def)
  note cast = record_cast_read [OF wf(1) d]
  have "map_of ?fs ''id'' = Some (JString (r_id r))" "map_of ?fs ''lane'' = Some (JString (r_lane r))"
    "map_of ?fs ''type'' = Some (JString (record_type (r_body r)))" "map_of ?fs ''timestamp'' = Some (nat_json (r_timestamp r))"
    using d by (intro map_of_member; simp add: lane_record_fields_def)+
  moreover have "validatePayload (Some (JObject ?fs)) assertDurableRecord = Ok ()"
    using cast(1) by (simp add: validatePayload_Ok record_defined del: mutation_fields.simps)
  ultimately show ?thesis
    using cast(2) wf(2)
    by (simp add: parseRecordMutation_def entry_type_string timestamp_read del: mutation_fields.simps)
qed

lemma mutation_read:
  assumes "faithful_floats ft pf" and "wf_mutation m"
  shows "parseMutation pf (mutation_text ft m) = Ok m"
proof -
  have seq: "requireSequence (map_of (mutation_fields m) ''seq'') = Ok (mutation_seq m)"
    using mutation_seq_field [OF assms(2)] assms(2) by (simp add: sequence_read wf_mutation_def)
  show ?thesis
  proof (cases m)
    case (EntryMutation lane e)
    have "map_of (mutation_fields m) ''kind'' = Some (JString ''entry'')"
      by (simp add: EntryMutation)
    then show ?thesis
      using decode_fields [OF assms] seq parse_entry_read [of lane e] assms(2) EntryMutation
      by (simp add: parseMutation_def decodeMutation_def del: mutation_fields.simps)
  next
    case (RecordMutation r)
    have "map_of (mutation_fields m) ''kind'' = Some (JString ''record'')"
      by (simp add: RecordMutation)
    then show ?thesis
      using decode_fields [OF assms] seq parse_record_read [of r] assms(2) RecordMutation
      by (simp add: parseMutation_def decodeMutation_def del: mutation_fields.simps)
  next
    case (LaneMutation n lane leafId)
    then show ?thesis
      using decode_fields [OF assms] seq
      by (simp add: parseMutation_def decodeMutation_def parseLaneMutation_def entry_type_string nullable_id_read)
  next
    case (NameMutation n name)
    then show ?thesis
      using decode_fields [OF assms] seq
      by (simp add: parseMutation_def decodeMutation_def parseFactMutation_def optional_text_read)
  next
    case (LabelMutation n target label)
    then show ?thesis
      using decode_fields [OF assms] seq
      by (simp add: parseMutation_def decodeMutation_def parseFactMutation_def optional_text_read entry_type_string)
  qed
qed

lemma mutation_torn:
  assumes "faithful_floats ft pf" and "wf_mutation m" and "mutation_text ft m = p @ q" and "q \<noteq> []"
  shows "parseMutation pf p = Err DecodeSyntax"
  using json_prefix [OF assms(1) wf_mutation_fields(3) [OF assms(2)] assms(3,4)]
  by (simp add: parseMutation_def decodeMutation_def parseObject_def)

lemma mutation_line: "faithful_floats ft pf \<Longrightarrow> wf_mutation m \<Longrightarrow> line_end \<notin> set (mutation_text ft m)"
  unfolding line_end_def using stringify_line wf_mutation_fields(3) by blast

lemma header_read:
  assumes "faithful_floats ft pf" and "wf_header h"
  shows "parseHeader pf (stringify ft (JObject (header_fields h))) = Ok h"
proof -
  have "parseObject pf (stringify ft (JObject (header_fields h))) = Ok (header_fields h)"
    using json_roundtrip [OF assms(1), of "JObject (header_fields h)"] assms(2) by (simp add: parseObject_def wf_header_def)
  moreover have "(case map_option JObject x of None \<Rightarrow> Ok None | Some (JObject fs) \<Rightarrow> Ok (Some fs)
      | _ \<Rightarrow> Err (invalid_field ''metadata'')) = Ok x" for x
    by (cases x) simp_all
  ultimately show ?thesis
    using assms(2)
    by (simp add: parseHeader_def decodeHeader_def header_fields_def optional_text_read entry_type_string timestamp_read
        wf_header_def guard_res_def)
qed

lemma header_line: "faithful_floats ft pf \<Longrightarrow> wf_header h \<Longrightarrow> line_end \<notin> set (stringify ft (JObject (header_fields h)))"
  unfolding line_end_def wf_header_def using stringify_line by blast

text \<open>C29: The lines of the journal. A mutation with data of its type is written as one line of text without a
  line break inside, and \<open>parseMutation\<close> reads the mutation back from it; every proper prefix of the line is
  refused as a syntax error, so a line that was only partly written is never mistaken for a mutation.\<close>

theorem journal_line_roundtrip:
  assumes "faithful_floats ft pf" and "wf_mutation m"
  shows "\<exists>line. encodeMutation ft m = line @ [line_end] \<and> line_end \<notin> set line \<and> parseMutation pf line = Ok m
    \<and> (\<forall>p q. line = p @ q \<and> q \<noteq> [] \<longrightarrow> parseMutation pf p = Err DecodeSyntax)"
  using mutation_read [OF assms] mutation_line [OF assms] mutation_torn [OF assms] unfolding encodeMutation_def by blast

theorem journal_line_roundtrip_witness:
  "\<exists>line. encodeMutation sample_float_text (NameMutation 1 (Some ''x'')) = line @ [line_end]
     \<and> parseMutation sample_parse_float line = Ok (NameMutation 1 (Some ''x''))"
proof -
  have "wf_mutation (NameMutation 1 (Some ''x''))"
    by (simp add: wf_mutation_def safe_nat_def safe_int_def max_safe_integer_def num_is_neg_zero_def)
  then show ?thesis
    using journal_line_roundtrip [OF sample_floats_faithful] by blast
qed

end
