(* ===== verification/JsonlStorage.thy ===== *)
theory JsonlStorage
  imports JsonlCodecCorrect SessionMemory
begin

text \<open>
  The session storage in a journal file
  (\<open>packages/agent/src/harness/session/jsonl/storage.ts\<close>). The file is part of the modelled state: a
  write either reaches it completely or breaks off after some characters, which is an argument of
  every writing operation. Operations run one after the other, as the promise chain \<open>tail\<close> makes
  them, so each is one step; queries read the session state and are those of \<open>SessionState\<close>.
\<close>

section \<open>The storage\<close>

datatype jsonl_error =
    SessionFailure session_error
  | NotSerializable
  | ReadOnly
  | WriterClosed
  | WriteFailed
  | MissingHeader
  | InvalidLine nat decode_error
  | InvalidMutation nat session_error
  | RepairFailed
  | IdMismatch string

datatype write_outcome = Synced | Broken nat

record jsonl_storage =
  js_metadata :: jsonl_metadata
  js_state :: session_state
  js_writer :: bool
  js_closing :: bool
  js_writeFailure :: bool
  js_file :: string

definition new_jsonl_storage :: "jsonl_metadata \<Rightarrow> bool \<Rightarrow> string \<Rightarrow> jsonl_storage" where
  "new_jsonl_storage metadata writer file =
     \<lparr>js_metadata = metadata, js_state = new_session_state, js_writer = writer, js_closing = False, js_writeFailure = False,
      js_file = file\<rparr>"

definition jsonl_create :: "(64 word \<Rightarrow> string) \<Rightarrow> string \<Rightarrow> jsonl_header \<Rightarrow> js_number \<Rightarrow> jsonl_storage" where
  "jsonl_create ft path header mtime =
     new_jsonl_storage (metadataFromHeader header path mtime) True (encodeHeader ft header)"

section \<open>Writing\<close>

definition enqueue :: "jsonl_storage \<Rightarrow> (jsonl_storage \<Rightarrow> jsonl_storage \<times> (jsonl_error + 'a))
    \<Rightarrow> jsonl_storage \<times> (jsonl_error + 'a)" where
  "enqueue st operation =
     (if \<not> js_writer st then (st, Err ReadOnly)
      else if js_closing st then (st, Err WriterClosed)
      else if js_writeFailure st then (st, Err WriteFailed)
      else operation st)"

definition appendMutation :: "(64 word \<Rightarrow> string) \<Rightarrow> write_outcome \<Rightarrow> jsonl_storage \<Rightarrow> session_mutation
    \<Rightarrow> jsonl_storage \<times> (jsonl_error + unit)" where
  "appendMutation ft w st m =
     (case w of
        Synced \<Rightarrow> (st\<lparr>js_file := js_file st @ encodeMutation ft m\<rparr>, Ok ())
      | Broken k \<Rightarrow> (st\<lparr>js_file := js_file st @ take k (encodeMutation ft m), js_writeFailure := True\<rparr>, Err WriteFailed))"

text \<open>The common end of the writing operations: append the mutation, apply it, return a result.\<close>

definition append_and_apply :: "(64 word \<Rightarrow> string) \<Rightarrow> write_outcome \<Rightarrow> jsonl_storage \<Rightarrow> session_mutation \<Rightarrow> 'a
    \<Rightarrow> jsonl_storage \<times> (jsonl_error + 'a)" where
  "append_and_apply ft w st m x =
     (case appendMutation ft w st m of
        (st', Inl e) \<Rightarrow> (st', Err e)
      | (st', Inr u) \<Rightarrow>
          (case applyMutation (js_state st') m of
             Inl e \<Rightarrow> (st', Err (SessionFailure e))
           | Inr s \<Rightarrow> (st'\<lparr>js_state := s\<rparr>, Ok x)))"

definition checked :: "jsonl_storage \<Rightarrow> session_error + 'b \<Rightarrow> ('b \<Rightarrow> jsonl_storage \<times> (jsonl_error + 'a))
    \<Rightarrow> jsonl_storage \<times> (jsonl_error + 'a)" where
  "checked st guard next = (case guard of Inl e \<Rightarrow> (st, Err (SessionFailure e)) | Inr x \<Rightarrow> next x)"

definition jsonl_createLane :: "(64 word \<Rightarrow> string) \<Rightarrow> write_outcome \<Rightarrow> jsonl_storage \<Rightarrow> string \<Rightarrow> string option
    \<Rightarrow> jsonl_storage \<times> (jsonl_error + unit)" where
  "jsonl_createLane ft w st lane at = enqueue st (\<lambda>st.
     checked st (validateNewLane (js_state st) lane) (\<lambda>_.
     checked st (validateTarget (js_state st) at) (\<lambda>_.
     append_and_apply ft w st (LaneMutation (nextSequence (js_state st)) lane at) ())))"

definition jsonl_moveLane :: "(64 word \<Rightarrow> string) \<Rightarrow> write_outcome \<Rightarrow> jsonl_storage \<Rightarrow> string \<Rightarrow> string option
    \<Rightarrow> jsonl_storage \<times> (jsonl_error + unit)" where
  "jsonl_moveLane ft w st lane to_id = enqueue st (\<lambda>st.
     checked st (requireLane (js_state st) lane) (\<lambda>_.
     checked st (validateTarget (js_state st) to_id) (\<lambda>_.
     append_and_apply ft w st (LaneMutation (nextSequence (js_state st)) lane to_id) ())))"

text \<open>\<open>assertJsonSerializable\<close> on data that is already JSON-like: all numbers are finite.\<close>

fun serializable :: "json \<Rightarrow> bool" where
  "serializable (JNumber n) \<longleftrightarrow> num_is_finite n"
| "serializable (JArray vs) \<longleftrightarrow> list_all serializable vs"
| "serializable (JObject fs) \<longleftrightarrow> list_all (\<lambda>(k, v). serializable v) fs"
| "serializable v \<longleftrightarrow> True"

definition jsonl_appendEntry :: "(64 word \<Rightarrow> string) \<Rightarrow> write_outcome \<Rightarrow> jsonl_storage \<Rightarrow> provisioned_entry \<Rightarrow> string \<Rightarrow> nat
    \<Rightarrow> jsonl_storage \<times> (jsonl_error + entry)" where
  "jsonl_appendEntry ft w st newEntry lane now =
     (if \<not> serializable (provisioned_json newEntry) then (st, Err NotSerializable)
      else enqueue st (\<lambda>st.
        checked st (requireLane (js_state st) lane) (\<lambda>parentId.
        checked st (validateUnusedId (js_state st) (pe_id newEntry)) (\<lambda>_.
        let e = complete_entry newEntry parentId (nextSequence (js_state st)) now
        in append_and_apply ft w st (EntryMutation (Some lane) e) e))))"

definition new_record_json :: "new_record \<Rightarrow> json" where
  "new_record_json r = JObject ([(''id'', JString (nr_id r)), (''lane'', JString (nr_lane r)), (''type'', JString (record_type (nr_body r)))]
     @ record_fields (nr_body r) @ nr_extra r)"

definition jsonl_appendRecord :: "(64 word \<Rightarrow> string) \<Rightarrow> write_outcome \<Rightarrow> jsonl_storage \<Rightarrow> new_record \<Rightarrow> nat
    \<Rightarrow> jsonl_storage \<times> (jsonl_error + lane_record)" where
  "jsonl_appendRecord ft w st newRecord now =
     (if \<not> serializable (new_record_json newRecord) then (st, Err NotSerializable)
      else enqueue st (\<lambda>st.
        checked st (requireLane (js_state st) (nr_lane newRecord)) (\<lambda>_.
        checked st (validateUnusedId (js_state st) (nr_id newRecord)) (\<lambda>_.
        checked st (validateSingleOperation (js_state st) newRecord) (\<lambda>_.
        let r = complete_record newRecord (nextSequence (js_state st)) now
        in append_and_apply ft w st (RecordMutation r) r)))))"

definition jsonl_setName :: "(64 word \<Rightarrow> string) \<Rightarrow> write_outcome \<Rightarrow> jsonl_storage \<Rightarrow> string option
    \<Rightarrow> jsonl_storage \<times> (jsonl_error + unit)" where
  "jsonl_setName ft w st name = enqueue st (\<lambda>st.
     append_and_apply ft w st (NameMutation (nextSequence (js_state st)) name) ())"

definition jsonl_setLabel :: "(64 word \<Rightarrow> string) \<Rightarrow> write_outcome \<Rightarrow> jsonl_storage \<Rightarrow> string \<Rightarrow> string option
    \<Rightarrow> jsonl_storage \<times> (jsonl_error + unit)" where
  "jsonl_setLabel ft w st k label = enqueue st (\<lambda>st.
     checked st (validateTarget (js_state st) (Some k)) (\<lambda>_.
     append_and_apply ft w st (LabelMutation (nextSequence (js_state st)) k label) ()))"

definition jsonl_release :: "jsonl_storage \<Rightarrow> jsonl_storage" where
  "jsonl_release st = st\<lparr>js_closing := True\<rparr>"

definition isReleased :: "jsonl_storage \<Rightarrow> bool" where
  "isReleased st = js_closing st"

section \<open>Loading\<close>

text \<open>\<open>content.split("\n")\<close> and \<open>lines.join("\n")\<close>.\<close>

fun split_lines :: "string \<Rightarrow> string list" where
  "split_lines [] = [[]]"
| "split_lines (c # cs) =
     (if c = line_end then [] # split_lines cs
      else (case split_lines cs of [] \<Rightarrow> [[c]] | l # ls \<Rightarrow> (c # l) # ls))"

fun join_lines :: "string list \<Rightarrow> string" where
  "join_lines [] = []"
| "join_lines [l] = l"
| "join_lines (l # m # ls) = l @ line_end # join_lines (m # ls)"

definition ends_line :: "string \<Rightarrow> bool" where
  "ends_line s \<longleftrightarrow> s \<noteq> [] \<and> last s = line_end"

definition physical_lines :: "string \<Rightarrow> string list" where
  "physical_lines s = (let ls = split_lines s in if last ls = [] then butlast ls else ls)"

fun error_code :: "session_error \<Rightarrow> session_error_code" where
  "error_code (SessionError c d) = c"

text \<open>The loop over the lines after the header; the second result is the index of a torn last line.\<close>

fun replay_lines :: "(string \<Rightarrow> 64 word) \<Rightarrow> bool \<Rightarrow> nat \<Rightarrow> string list \<Rightarrow> session_state
    \<Rightarrow> jsonl_error + session_state \<times> nat option" where
  "replay_lines pf terminated index [] s = Ok (s, None)"
| "replay_lines pf terminated index (line # lines) s =
     (case parseMutation pf line of
        Inl e \<Rightarrow>
          if \<not> terminated \<and> lines = [] \<and> e = DecodeSyntax then Ok (s, Some index)
          else Err (InvalidLine (index + 1) e)
      | Inr m \<Rightarrow>
          (case applyMutation s m of
             Inl e \<Rightarrow> if error_code e = invalid_entry then Err (InvalidMutation (index + 1) e) else Err (SessionFailure e)
           | Inr s' \<Rightarrow> replay_lines pf terminated (index + 1) lines s'))"

definition loadOwned :: "(string \<Rightarrow> 64 word) \<Rightarrow> string \<Rightarrow> js_number \<Rightarrow> bool \<Rightarrow> bool \<Rightarrow> string \<Rightarrow> jsonl_error + jsonl_storage" where
  "loadOwned pf path mtime writer repair_ok content =
     (let lines = physical_lines content; terminated = ends_line content
      in if lines = [] \<or> hd lines = [] then Err MissingHeader
         else case parseHeader pf (hd lines) of
             Inl e \<Rightarrow> Err (InvalidLine 1 e)
           | Inr header \<Rightarrow>
               bind_res (replay_lines pf terminated 1 (tl lines) new_session_state) (\<lambda>(s, torn).
               let st = (new_jsonl_storage (metadataFromHeader header path mtime) writer content)\<lparr>js_state := s\<rparr>
               in case torn of
                   Some index \<Rightarrow>
                     if \<not> writer then Ok st
                     else if repair_ok then Ok (st\<lparr>js_file := join_lines (take index lines) @ [line_end]\<rparr>)
                     else Err RepairFailed
                 | None \<Rightarrow>
                     if \<not> writer \<or> terminated then Ok st
                     else if repair_ok then Ok (st\<lparr>js_file := content @ [line_end]\<rparr>)
                     else Err RepairFailed))"

definition jsonl_load :: "(string \<Rightarrow> 64 word) \<Rightarrow> string \<Rightarrow> js_number \<Rightarrow> bool \<Rightarrow> string \<Rightarrow> jsonl_error + jsonl_storage" where
  "jsonl_load pf path mtime repair_ok content = loadOwned pf path mtime True repair_ok content"

definition openReadOnly :: "(string \<Rightarrow> 64 word) \<Rightarrow> string \<Rightarrow> js_number \<Rightarrow> string \<Rightarrow> string \<Rightarrow> jsonl_error + jsonl_storage" where
  "openReadOnly pf path mtime content expectedId =
     bind_res (loadOwned pf path mtime False True content) (\<lambda>st.
     bind_res (guard_res (jm_id (js_metadata st) = expectedId) (IdMismatch expectedId)) (\<lambda>_. Ok st))"

definition jsonl_inspect :: "(string \<Rightarrow> 64 word) \<Rightarrow> string \<Rightarrow> js_number \<Rightarrow> string \<Rightarrow> string \<Rightarrow> jsonl_error + string option" where
  "jsonl_inspect pf path mtime content expectedId =
     bind_res (openReadOnly pf path mtime content expectedId) (\<lambda>st. Ok (getName (js_state st)))"

text \<open>A fork is published as a complete file and loaded from it.\<close>

definition jsonl_fork :: "(64 word \<Rightarrow> string) \<Rightarrow> (string \<Rightarrow> 64 word) \<Rightarrow> jsonl_storage \<Rightarrow> string \<Rightarrow> js_number \<Rightarrow> jsonl_header
    \<Rightarrow> fork_options \<Rightarrow> jsonl_error + jsonl_storage" where
  "jsonl_fork ft pf st path mtime header options =
     (case createForkMutations (js_state st) options of
        Inl e \<Rightarrow> Err (SessionFailure e)
      | Inr mutations \<Rightarrow>
          loadOwned pf path mtime True True (encodeHeader ft header @ concat (map (encodeMutation ft) mutations)))"

end
