(* ===== verification/JsonlRecovery.thy ===== *)
theory JsonlRecovery
  imports JsonlStorage Transition
begin

text \<open>
  Durability of the journal. The file of a storage is the header and the mutations of its state,
  one per line; loading the file rebuilds the state, also when the last write broke off
  anywhere.
\<close>

section \<open>Lines\<close>

abbreviation unlines :: "string list \<Rightarrow> string" where
  "unlines ls \<equiv> concat (map (\<lambda>l. l @ [line_end]) ls)"

definition one_line :: "string \<Rightarrow> bool" where
  "one_line l \<longleftrightarrow> line_end \<notin> set l"

lemma split_one_line: "one_line l \<Longrightarrow> split_lines l = [l]"
  by (induction l) (auto simp: one_line_def)

lemma split_line: "one_line l \<Longrightarrow> split_lines (l @ line_end # s) = l # split_lines s"
  by (induction l) (auto simp: one_line_def)

lemma split_unlines:
  "list_all one_line ls \<Longrightarrow> one_line p \<Longrightarrow> split_lines (unlines ls @ p) = ls @ [p]"
  by (induction ls) (simp_all add: split_line split_one_line)

lemma physical_unlines:
  assumes "list_all one_line ls" and "one_line p"
  shows "physical_lines (unlines ls @ p) = (if p = [] then ls else ls @ [p])"
  by (simp add: physical_lines_def split_unlines [OF assms])

lemma join_unlines: "ls \<noteq> [] \<Longrightarrow> join_lines ls @ [line_end] = unlines ls"
  by (induction ls rule: join_lines.induct) simp_all

lemma ends_unlines:
  assumes "ls \<noteq> []" and "one_line p"
  shows "ends_line (unlines ls @ p) \<longleftrightarrow> p = []"
proof (cases "p = []")
  case True
  have "unlines ls = unlines (butlast ls) @ (last ls @ [line_end])"
    using assms(1) by (induction ls) auto
  then show ?thesis
    using True by (simp add: ends_line_def)
next
  case False
  then have "last p \<noteq> line_end"
    using assms(2) last_in_set [of p] unfolding one_line_def by metis
  then show ?thesis
    using False by (simp add: ends_line_def)
qed

section \<open>Loading a journal\<close>

abbreviation header_text :: "(64 word \<Rightarrow> string) \<Rightarrow> jsonl_header \<Rightarrow> string" where
  "header_text ft h \<equiv> stringify ft (JObject (header_fields h))"

definition journal :: "(64 word \<Rightarrow> string) \<Rightarrow> jsonl_header \<Rightarrow> session_mutation list \<Rightarrow> string" where
  "journal ft h ms = encodeHeader ft h @ concat (map (encodeMutation ft) ms)"

definition replay :: "session_mutation list \<Rightarrow> session_error + session_state" where
  "replay ms = fold_res applyMutation new_session_state ms"

lemma journal_unlines: "journal ft h ms = unlines (header_text ft h # map (mutation_text ft) ms)"
  by (simp add: journal_def encodeHeader_def encodeMutation_def[abs_def] comp_def)

lemma journal_snoc: "journal ft h (ms @ [m]) = journal ft h ms @ encodeMutation ft m"
  by (simp add: journal_def)

lemma replay_snoc: "replay (ms @ [m]) = bind_res (replay ms) (\<lambda>s. applyMutation s m)"
  by (simp add: replay_def fold_res_append)

lemma journal_lines:
  assumes "faithful_floats ft pf" and "wf_header h" and "list_all wf_mutation ms"
  shows "list_all one_line (header_text ft h # map (mutation_text ft) ms)"
  using assms header_line mutation_line by (auto simp: one_line_def list_all_iff)

lemma replay_texts:
  assumes "faithful_floats ft pf" and "list_all wf_mutation ms" and "fold_res applyMutation s ms = Ok s'"
  shows "replay_lines pf t i (map (mutation_text ft) ms @ ls) s = replay_lines pf t (i + length ms) ls s'"
  using assms(2,3)
proof (induction ms arbitrary: s i)
  case (Cons m ms)
  then obtain s1 where "applyMutation s m = Ok s1" "fold_res applyMutation s1 ms = Ok s'"
    by (auto simp: res_simps)
  then show ?case
    using Cons mutation_read [OF assms(1), of m] by simp
qed simp

lemma replay_torn:
  assumes "faithful_floats ft pf" and "wf_mutation m" and "mutation_text ft m = p @ q" and "q \<noteq> []"
  shows "replay_lines pf False i [p] s = Ok (s, Some i)"
  using mutation_torn [OF assms] by simp

lemma header_text_nonempty: "header_text ft h \<noteq> []"
  by simp

text \<open>The whole journal.\<close>

lemma load_journal:
  assumes "faithful_floats ft pf" and "wf_header h" and "list_all wf_mutation ms" and "replay ms = Ok s"
  shows "loadOwned pf path mtime writer ok (journal ft h ms)
    = Ok ((new_jsonl_storage (metadataFromHeader h path mtime) writer (journal ft h ms))\<lparr>js_state := s\<rparr>)"
proof -
  let ?ls = "header_text ft h # map (mutation_text ft) ms"
  have lines: "physical_lines (journal ft h ms) = ?ls"
    using physical_unlines [OF journal_lines [OF assms(1-3)], of "[]"] unfolding journal_unlines by (simp add: one_line_def)
  have "ends_line (journal ft h ms)"
    using ends_unlines [of ?ls "[]"] unfolding journal_unlines by (simp add: one_line_def)
  moreover have "replay_lines pf True 1 (map (mutation_text ft) ms) new_session_state = Ok (s, None)"
    using replay_texts [OF assms(1,3), of new_session_state s True 1 "[]"] assms(4) by (simp add: replay_def)
  ultimately show ?thesis
    using header_read [OF assms(1,2)] unfolding loadOwned_def lines by (simp add: Let_def header_text_nonempty del: stringify.simps)
qed

text \<open>A journal whose last line broke off: the line is dropped.\<close>

lemma load_torn:
  assumes "faithful_floats ft pf" and "wf_header h" and "list_all wf_mutation ms" and "replay ms = Ok s"
    and "wf_mutation m" and "mutation_text ft m = p @ q" and "p \<noteq> []" and "q \<noteq> []"
  shows "loadOwned pf path mtime True True (journal ft h ms @ p)
    = Ok ((new_jsonl_storage (metadataFromHeader h path mtime) True (journal ft h ms))\<lparr>js_state := s\<rparr>)"
proof -
  let ?ls = "header_text ft h # map (mutation_text ft) ms"
  have p: "one_line p"
    using mutation_line [OF assms(1,5)] unfolding assms(6) one_line_def by simp
  have lines: "physical_lines (journal ft h ms @ p) = ?ls @ [p]"
    using physical_unlines [OF journal_lines [OF assms(1-3)] p] assms(7) unfolding journal_unlines by simp
  have "\<not> ends_line (journal ft h ms @ p)"
    using ends_unlines [OF _ p, of ?ls] assms(7) unfolding journal_unlines by simp
  moreover have "replay_lines pf False 1 (map (mutation_text ft) ms @ [p]) new_session_state = Ok (s, Some (1 + length ms))"
    using replay_texts [OF assms(1,3), of new_session_state s False 1 "[p]"] assms(4) replay_torn [OF assms(1,5,6,8)]
    by (simp add: replay_def)
  moreover have "join_lines (take (1 + length ms) (?ls @ [p])) @ [line_end] = journal ft h ms"
    using join_unlines [of ?ls] unfolding journal_unlines by simp
  ultimately show ?thesis
    using header_read [OF assms(1,2)] unfolding loadOwned_def lines
    by (simp add: Let_def new_jsonl_storage_def header_text_nonempty del: stringify.simps)
qed

text \<open>A journal whose last line is complete but for the line end: the line counts.\<close>

lemma load_unterminated:
  assumes "faithful_floats ft pf" and "wf_header h" and "list_all wf_mutation (ms @ [m])" and "replay (ms @ [m]) = Ok s"
  shows "loadOwned pf path mtime True True (journal ft h ms @ mutation_text ft m)
    = Ok ((new_jsonl_storage (metadataFromHeader h path mtime) True (journal ft h (ms @ [m])))\<lparr>js_state := s\<rparr>)"
proof -
  let ?ls = "header_text ft h # map (mutation_text ft) ms" and ?p = "mutation_text ft m"
  have p: "one_line ?p"
    using mutation_line [OF assms(1), of m] assms(3) by (simp add: one_line_def)
  have ms: "list_all wf_mutation ms"
    using assms(3) by simp
  have lines: "physical_lines (journal ft h ms @ ?p) = ?ls @ [?p]"
    using physical_unlines [OF journal_lines [OF assms(1,2) ms] p] unfolding journal_unlines by simp
  have "\<not> ends_line (journal ft h ms @ ?p)"
    using ends_unlines [OF _ p, of ?ls] unfolding journal_unlines by simp
  moreover have "replay_lines pf False 1 (map (mutation_text ft) ms @ [?p]) new_session_state = Ok (s, None)"
    using replay_texts [OF assms(1,3), of new_session_state s False 1 "[]"] assms(4) by (simp add: replay_def)
  ultimately show ?thesis
    using header_read [OF assms(1,2)] unfolding loadOwned_def lines
    by (simp add: Let_def new_jsonl_storage_def journal_snoc encodeMutation_def header_text_nonempty del: stringify.simps)
qed

section \<open>Well-formed inputs\<close>

text \<open>Entries and records as the types of the program describe them, with JSON values in them.\<close>

definition good_entry :: "provisioned_entry \<Rightarrow> nat \<Rightarrow> bool" where
  "good_entry p now \<longleftrightarrow> wf_provisioned p \<and> fresh [''kind'', ''lane'', ''parentId'', ''seq'', ''timestamp''] (pe_extra p)
     \<and> wf_json (provisioned_json p) \<and> safe_nat now"

definition good_record :: "new_record \<Rightarrow> nat \<Rightarrow> bool" where
  "good_record r now \<longleftrightarrow> wf_record (nr_body r) \<and> fresh (''id'' # ''lane'' # ''type'' # record_keys (nr_body r)) (nr_extra r)
     \<and> fresh [''kind'', ''seq'', ''timestamp''] (nr_extra r) \<and> wf_json (new_record_json r) \<and> safe_nat now"

lemma safe_nat_json: "safe_nat n \<Longrightarrow> wf_json (nat_json n)"
  by (simp add: safe_nat_def num_is_neg_zero_def)

lemma nullable_wf: "wf_json (nullable_json x)"
  by (cases x) simp_all

lemma good_entry_mutation:
  assumes "good_entry p now" and "1 \<le> n" and "safe_nat n"
  shows "wf_mutation (EntryMutation (Some lane) (complete_entry p parent n now))"
proof -
  let ?e = "complete_entry p parent n now"
  have extra: "fst ` set (pe_extra p) \<inter> {''kind'', ''lane'', ''parentId'', ''seq'', ''timestamp''} = {}"
    using assms(1) unfolding good_entry_def fresh_iff by auto
  have body: "fst ` set (body_fields (pe_body p)) \<inter> {''kind'', ''lane'', ''parentId'', ''seq'', ''timestamp''} = {}"
    using body_fields_keys [of "pe_body p"] body_keys_apart [of "pe_body p"] by auto
  have "wf_json (provisioned_json p)"
    using assms(1) by (simp add: good_entry_def)
  then have "wf_json (JObject (mutation_fields (EntryMutation (Some lane) ?e)))"
    using extra body safe_nat_json [of n] safe_nat_json [of now] assms nullable_wf
    by (auto simp: provisioned_json_def entry_fields_def complete_entry_def good_entry_def)
  then show ?thesis
    using assms by (auto simp: wf_mutation_def good_entry_def wf_entry_def wf_provisioned_def complete_entry_def)
qed

lemma good_record_mutation:
  assumes "good_record r now" and "1 \<le> n" and "safe_nat n"
  shows "wf_mutation (RecordMutation (complete_record r n now))"
proof -
  have extra: "fst ` set (nr_extra r) \<inter> {''kind'', ''seq'', ''timestamp''} = {}"
    using assms(1) unfolding good_record_def fresh_iff by auto
  have body: "fst ` set (record_fields (nr_body r)) \<inter> {''kind'', ''seq'', ''timestamp''} = {}"
    using record_fields_keys [of "nr_body r"] record_keys_apart [of "nr_body r"] by auto
  have "wf_json (new_record_json r)"
    using assms(1) by (simp add: good_record_def)
  then have "wf_json (JObject (mutation_fields (RecordMutation (complete_record r n now))))"
    using extra body safe_nat_json [of n] safe_nat_json [of now] assms
    by (auto simp: new_record_json_def lane_record_fields_def complete_record_def good_record_def)
  then show ?thesis
    using assms by (auto simp: wf_mutation_def good_record_def wf_lane_record_def complete_record_def)
qed

lemma plain_mutations_wf:
  assumes "1 \<le> n" and "safe_nat n"
  shows "wf_mutation (LaneMutation n lane x)" "wf_mutation (NameMutation n y)" "wf_mutation (LabelMutation n t y)"
proof -
  have "safe_nat 0"
    by (simp add: safe_nat_def safe_int_def max_safe_integer_def)
  then show "wf_mutation (LaneMutation n lane x)" "wf_mutation (NameMutation n y)" "wf_mutation (LabelMutation n t y)"
    using assms safe_nat_json [of n] nullable_wf [of x] by (cases y; simp add: wf_mutation_def)+
qed

section \<open>Accepted calls change the state\<close>

lemma entry_possible:
  assumes "session_inv s" and "requireLane s lane = Ok parent" and "validateUnusedId s (pe_id p) = Ok u"
  shows "\<exists>s'. applyMutation s (EntryMutation (Some lane) (complete_entry p parent (nextSequence s) now)) = Ok s'"
proof -
  let ?st = "\<lparr>ms_metadata = \<lparr>sm_id = '''', sm_createdAt = 0, sm_parentSessionId = None\<rparr>, ms_state = s\<rparr>"
  have "\<exists>r. ms_appendEntry ?st p lane now = Ok r"
    using memory.append_entry_possible [of ?st lane p now] assms
    by (auto simp: requireLane_def validateUnusedId_def guard_res_def split: option.splits if_splits)
  then show ?thesis
    using assms(2,3) by (auto simp: ms_appendEntry_def ms_apply_def Let_def res_simps)
qed

lemma record_possible:
  assumes "requireLane s (nr_lane r) = Ok parent" and "validateUnusedId s (nr_id r) = Ok u"
  shows "\<exists>s'. applyMutation s (RecordMutation (complete_record r (nextSequence s) now)) = Ok s'"
  using assms by (auto simp: requireLane_def validateUnusedId_def applyMutation_def apply_record_def complete_record_def nextSequence_def
      guard_res_def split: option.splits if_splits)

lemma lane_possible:
  assumes "validateTarget s x = Ok u"
  shows "\<exists>s'. applyMutation s (LaneMutation (nextSequence s) lane x) = Ok s'"
  using assms by (auto simp: validateTarget_def applyMutation_def apply_lane_def nextSequence_def guard_res_def
      split: option.splits if_splits)

lemma name_possible: "\<exists>s'. applyMutation s (NameMutation (nextSequence s) x) = Ok s'"
  by (simp add: applyMutation_def apply_name_def nextSequence_def)

lemma label_possible:
  assumes "validateTarget s (Some k) = Ok u"
  shows "\<exists>s'. applyMutation s (LabelMutation (nextSequence s) k x) = Ok s'"
  using assms by (auto simp: validateTarget_def applyMutation_def apply_label_def nextSequence_def guard_res_def
      split: option.splits if_splits)

section \<open>The journal of a storage\<close>

text \<open>
  The steps of a storage under its clients, with any outcome of the writes and with the calls so
  far; the inputs are well formed and the sequence numbers stay safe integers.
\<close>

definition room :: "jsonl_storage \<Rightarrow> bool" where
  "room st \<longleftrightarrow> safe_nat (nextSequence (js_state st))"

datatype storage_call =
    AppendEntry provisioned_entry string nat
  | AppendRecord new_record nat
  | CreateLane string "string option"
  | MoveLane string "string option"
  | SetName "string option"
  | SetLabel string "string option"
  | Release

definition good_call :: "storage_call \<Rightarrow> bool" where
  "good_call c \<longleftrightarrow>
     (case c of AppendEntry p lane now \<Rightarrow> good_entry p now | AppendRecord r now \<Rightarrow> good_record r now | _ \<Rightarrow> True)"

text \<open>The storage after a call whose write, if it makes one, has the outcome \<open>w\<close>.\<close>

fun perform :: "(64 word \<Rightarrow> string) \<Rightarrow> write_outcome \<Rightarrow> storage_call \<Rightarrow> jsonl_storage \<Rightarrow> jsonl_storage" where
  "perform ft w (AppendEntry p lane now) st = fst (jsonl_appendEntry ft w st p lane now)"
| "perform ft w (AppendRecord r now) st = fst (jsonl_appendRecord ft w st r now)"
| "perform ft w (CreateLane lane x) st = fst (jsonl_createLane ft w st lane x)"
| "perform ft w (MoveLane lane x) st = fst (jsonl_moveLane ft w st lane x)"
| "perform ft w (SetName x) st = fst (jsonl_setName ft w st x)"
| "perform ft w (SetLabel k x) st = fst (jsonl_setLabel ft w st k x)"
| "perform ft w Release st = jsonl_release st"

type_synonym history = "(storage_call \<times> write_outcome) list"

definition perform_all :: "(64 word \<Rightarrow> string) \<Rightarrow> history \<Rightarrow> jsonl_storage \<Rightarrow> jsonl_storage" where
  "perform_all ft cs st = foldl (\<lambda>st (c, w). perform ft w c st) st cs"

inductive jsonl_step :: "(64 word \<Rightarrow> string) \<Rightarrow> history \<times> jsonl_storage \<Rightarrow> history \<times> jsonl_storage \<Rightarrow> bool" for ft where
  jsonl_step: "room st \<or> c = Release \<Longrightarrow> good_call c \<Longrightarrow> jsonl_step ft (cs, st) (cs @ [(c, w)], perform ft w c st)"

text \<open>
  A call writes nothing, or it writes one mutation that the state accepts; which, does not depend on
  what becomes of the write.
\<close>

definition appended :: "(64 word \<Rightarrow> string) \<Rightarrow> jsonl_storage \<Rightarrow> session_mutation \<Rightarrow> session_state \<Rightarrow> write_outcome \<Rightarrow> jsonl_storage" where
  "appended ft st m s' w =
     (case w of
        Synced \<Rightarrow> st\<lparr>js_file := js_file st @ encodeMutation ft m, js_state := s'\<rparr>
      | Broken k \<Rightarrow> st\<lparr>js_file := js_file st @ take k (encodeMutation ft m), js_writeFailure := True\<rparr>)"

definition quiet_call :: "jsonl_storage \<Rightarrow> (write_outcome \<Rightarrow> jsonl_storage) \<Rightarrow> bool" where
  "quiet_call st f \<longleftrightarrow> (\<exists>st'. (\<forall>w. f w = st') \<and> js_state st' = js_state st \<and> js_file st' = js_file st
     \<and> js_writeFailure st' = js_writeFailure st \<and> js_metadata st' = js_metadata st)"

definition writing_call :: "(64 word \<Rightarrow> string) \<Rightarrow> jsonl_storage \<Rightarrow> (write_outcome \<Rightarrow> jsonl_storage) \<Rightarrow> bool" where
  "writing_call ft st f \<longleftrightarrow> (\<exists>m s'. wf_mutation m \<and> applyMutation (js_state st) m = Ok s' \<and> \<not> js_writeFailure st
     \<and> (\<forall>w. f w = appended ft st m s' w))"

definition one_write :: "(64 word \<Rightarrow> string) \<Rightarrow> jsonl_storage \<Rightarrow> (write_outcome \<Rightarrow> jsonl_storage) \<Rightarrow> bool" where
  "one_write ft st f \<longleftrightarrow> quiet_call st f \<or> writing_call ft st f"

lemma one_write_refused [simp]: "one_write ft st (\<lambda>w. st)"
  by (simp add: one_write_def quiet_call_def)

lemma one_write_enqueue:
  assumes "\<not> js_writeFailure st \<Longrightarrow> one_write ft st (\<lambda>w. fst (operation w st))"
  shows "one_write ft st (\<lambda>w. fst (enqueue st (operation w)))"
proof (cases "js_writer st \<and> \<not> js_closing st \<and> \<not> js_writeFailure st")
  case True
  then show ?thesis
    using assms by (simp add: enqueue_def)
next
  case False
  then have "(\<lambda>w. fst (enqueue st (operation w))) = (\<lambda>w. st)"
    by (auto simp: enqueue_def)
  then show ?thesis
    by simp
qed

lemma one_write_checked:
  assumes "\<And>x. guard = Ok x \<Longrightarrow> one_write ft st (\<lambda>w. fst (next w x))"
  shows "one_write ft st (\<lambda>w. fst (checked st guard (next w)))"
  using assms by (cases guard) (simp_all add: checked_def)

lemma one_write_append:
  assumes "\<not> js_writeFailure st" and "wf_mutation m" and "\<exists>s'. applyMutation (js_state st) m = Ok s'"
  shows "one_write ft st (\<lambda>w. fst (append_and_apply ft w st m x))"
proof -
  obtain s' where s': "applyMutation (js_state st) m = Ok s'"
    using assms(3) by blast
  then have "\<forall>w. fst (append_and_apply ft w st m x) = appended ft st m s' w"
    by (auto simp: append_and_apply_def appendMutation_def appended_def split: write_outcome.splits)
  then show ?thesis
    using assms(1,2) s' unfolding one_write_def writing_call_def by blast
qed

lemmas one_write_rules = one_write_enqueue one_write_checked one_write_append

lemma perform_one_write:
  assumes "session_inv (js_state st)" and "room st \<or> c = Release" and "good_call c"
  shows "one_write ft st (\<lambda>w. perform ft w c st)"
proof -
  have one: "1 \<le> nextSequence (js_state st)"
    by (simp add: nextSequence_def)
  show ?thesis
  proof (cases c)
    case (AppendEntry p lane now)
    then show ?thesis
      using assms one unfolding AppendEntry perform.simps jsonl_appendEntry_def Let_def room_def
      by (cases "serializable (provisioned_json p)")
         (auto simp: good_call_def intro!: one_write_rules good_entry_mutation entry_possible)
  next
    case (AppendRecord r now)
    then show ?thesis
      using assms one unfolding AppendRecord perform.simps jsonl_appendRecord_def Let_def room_def
      by (cases "serializable (new_record_json r)")
         (auto simp: good_call_def intro!: one_write_rules good_record_mutation record_possible)
  next
    case Release
    then show ?thesis
      by (simp add: one_write_def quiet_call_def jsonl_release_def)
  qed (use assms one in \<open>auto simp: room_def jsonl_createLane_def jsonl_moveLane_def jsonl_setName_def jsonl_setLabel_def
      intro!: one_write_rules plain_mutations_wf lane_possible name_possible label_possible\<close>)
qed

text \<open>
  The file holds the mutations that made the state. After a broken write it holds, too, a part of
  the one mutation that the interrupted call was writing.
\<close>

definition interrupted :: "(64 word \<Rightarrow> string) \<Rightarrow> jsonl_storage \<Rightarrow> history \<Rightarrow> jsonl_storage \<Rightarrow> storage_call \<Rightarrow> nat \<Rightarrow> bool" where
  "interrupted ft st0 cs st c k \<longleftrightarrow>
     (\<exists>before later. cs = before @ (c, Broken k) # later \<and> st = perform_all ft before st0 \<and> \<not> js_writeFailure st
        \<and> js_writeFailure (perform ft (Broken k) c st))"

definition journal_file :: "(64 word \<Rightarrow> string) \<Rightarrow> jsonl_header \<Rightarrow> jsonl_storage \<Rightarrow> session_mutation list \<Rightarrow> history \<Rightarrow> jsonl_storage \<Rightarrow> bool" where
  "journal_file ft h st0 ms cs st \<longleftrightarrow>
     (if js_writeFailure st
      then \<exists>m s' u c k. wf_mutation m \<and> applyMutation (js_state st) m = Ok s' \<and> js_file st = journal ft h ms @ take k (encodeMutation ft m)
        \<and> interrupted ft st0 cs u c k \<and> js_state u = js_state st \<and> js_state (perform ft Synced c u) = s'
      else js_file st = journal ft h ms)"

definition journal_inv :: "(64 word \<Rightarrow> string) \<Rightarrow> jsonl_header \<Rightarrow> string \<Rightarrow> js_number \<Rightarrow> history \<times> jsonl_storage \<Rightarrow> bool" where
  "journal_inv ft h path mtime = (\<lambda>(cs, st). session_inv (js_state st) \<and> js_metadata st = metadataFromHeader h path mtime
     \<and> st = perform_all ft cs (jsonl_create ft path h mtime)
     \<and> (\<exists>ms. list_all wf_mutation ms \<and> replay ms = Ok (js_state st) \<and> journal_file ft h (jsonl_create ft path h mtime) ms cs st))"

lemma perform_all_snoc: "perform_all ft (cs @ [(c, w)]) st = perform ft w c (perform_all ft cs st)"
  by (simp add: perform_all_def)

lemma interrupted_later: "interrupted ft st0 cs u c k \<Longrightarrow> interrupted ft st0 (cs @ [x]) u c k"
  unfolding interrupted_def by fastforce

lemma jsonl_step_inv:
  assumes "jsonl_step ft x y" and "journal_inv ft h path mtime x"
  shows "journal_inv ft h path mtime y"
  using assms
proof (cases rule: jsonl_step.cases)
  case (jsonl_step st c cs w)
  let ?origin = "jsonl_create ft path h mtime" and ?st' = "perform ft w c st"
  obtain ms where inv: "session_inv (js_state st)" "js_metadata st = metadataFromHeader h path mtime" "st = perform_all ft cs ?origin"
    and ms: "list_all wf_mutation ms" "replay ms = Ok (js_state st)" "journal_file ft h ?origin ms cs st"
    using assms(2) jsonl_step by (auto simp: journal_inv_def)
  have all: "?st' = perform_all ft (cs @ [(c, w)]) ?origin"
    using inv(3) by (simp add: perform_all_snoc)
  consider (quiet) "quiet_call st (\<lambda>w. perform ft w c st)" | (writing) "writing_call ft st (\<lambda>w. perform ft w c st)"
    using perform_one_write [OF inv(1) jsonl_step(3,4)] unfolding one_write_def by blast
  then show ?thesis
  proof cases
    case quiet
    then have same: "js_state ?st' = js_state st" "js_file ?st' = js_file st" "js_writeFailure ?st' = js_writeFailure st"
        "js_metadata ?st' = js_metadata st"
      by (auto simp: quiet_call_def)
    have "journal_file ft h ?origin ms (cs @ [(c, w)]) ?st'"
      using ms(3) interrupted_later [of ft ?origin cs _ _ _ "(c, w)"] unfolding journal_file_def same by metis
    then show ?thesis
      using jsonl_step(2) inv ms same all by (auto simp: journal_inv_def)
  next
    case writing
    then obtain m s' where m: "wf_mutation m" "applyMutation (js_state st) m = Ok s'" "\<not> js_writeFailure st"
      and f: "\<And>w. perform ft w c st = appended ft st m s' w"
      by (auto simp: writing_call_def)
    have content: "js_file st = journal ft h ms"
      using ms(3) m(3) by (simp add: journal_file_def)
    show ?thesis
    proof (cases w)
      case Synced
      have "list_all wf_mutation (ms @ [m])" "replay (ms @ [m]) = Ok s'" "session_inv s'"
        using ms m applyMutation_inv [OF inv(1) m(2)] by (simp_all add: replay_snoc)
      moreover have "journal_file ft h ?origin (ms @ [m]) (cs @ [(c, w)]) ?st'"
        using f [of w] content m(3) Synced by (simp add: journal_file_def appended_def journal_snoc)
      moreover have "js_state ?st' = s'" "js_metadata ?st' = js_metadata st"
        using f [of w] Synced by (simp_all add: appended_def)
      ultimately show ?thesis
        unfolding jsonl_step(2) journal_inv_def prod.case using inv(2) all by (auto intro!: exI [of _ "ms @ [m]"])
    next
      case (Broken k)
      have "interrupted ft ?origin (cs @ [(c, w)]) st c k"
        unfolding interrupted_def using Broken inv(3) m(3) f [of w] by (auto simp: appended_def)
      then have "journal_file ft h ?origin ms (cs @ [(c, w)]) ?st'"
        using f [of w] f [of Synced] content m Broken
        by (auto simp: journal_file_def appended_def intro!: exI [of _ m] exI [of _ st] exI [of _ c] exI [of _ k])
      moreover have "js_state ?st' = js_state st" "js_metadata ?st' = js_metadata st"
        using f [of w] Broken by (simp_all add: appended_def)
      ultimately show ?thesis
        unfolding jsonl_step(2) journal_inv_def prod.case using inv(1,2) ms(1,2) all by (auto intro!: exI [of _ ms])
    qed
  qed
qed

interpretation journaling: invariant_system "\<lambda>x. x = ([], jsonl_create ft path h mtime)" "jsonl_step ft" "journal_inv ft h path mtime"
  for ft path h mtime
proof (unfold_locales, goal_cases)
  case (1 x)
  have "session_inv new_session_state"
    by (rule new_session_inv)
  then show ?case
    using 1 by (auto simp: jsonl_create_def new_jsonl_storage_def journal_inv_def journal_file_def journal_def replay_def
        perform_all_def intro!: exI [of _ "[]"])
next
  case (2 s t)
  then show ?case
    using jsonl_step_inv by blast
qed

lemma load_broken:
  assumes "faithful_floats ft pf" and "wf_header h" and "list_all wf_mutation ms" and "replay ms = Ok s"
    and "wf_mutation m" and "applyMutation s m = Ok s'"
  obtains (before) "jsonl_load pf path mtime True (journal ft h ms @ take k (encodeMutation ft m))
      = Ok ((new_jsonl_storage (metadataFromHeader h path mtime) True (journal ft h ms))\<lparr>js_state := s\<rparr>)"
    | (after) "jsonl_load pf path mtime True (journal ft h ms @ take k (encodeMutation ft m))
      = Ok ((new_jsonl_storage (metadataFromHeader h path mtime) True (journal ft h (ms @ [m])))\<lparr>js_state := s'\<rparr>)"
proof -
  let ?t = "mutation_text ft m"
  have all: "list_all wf_mutation (ms @ [m])" "replay (ms @ [m]) = Ok s'"
    using assms(3-6) by (simp_all add: replay_snoc)
  consider "k = 0" | "0 < k" "k < length ?t" | "k = length ?t" | "length ?t < k"
    by linarith
  then show thesis
  proof cases
    case 1
    then show thesis
      using before load_journal [OF assms(1-4)] by (simp add: jsonl_load_def)
  next
    case 2
    then have "take k (encodeMutation ft m) = take k ?t"
      by (simp add: encodeMutation_def del: stringify.simps)
    moreover have "?t = take k ?t @ drop k ?t" "take k ?t \<noteq> []" "drop k ?t \<noteq> []"
      using 2 by (auto simp del: stringify.simps)
    ultimately show thesis
      using before load_torn [OF assms(1-5)] unfolding jsonl_load_def by metis
  next
    case 3
    then have "take k (encodeMutation ft m) = ?t"
      by (simp add: encodeMutation_def del: stringify.simps)
    then show thesis
      using after load_unterminated [OF assms(1,2) all] unfolding jsonl_load_def by metis
  next
    case 4
    then have "take k (encodeMutation ft m) = encodeMutation ft m"
      by (simp add: encodeMutation_def del: stringify.simps)
    then show thesis
      using after load_journal [OF assms(1,2) all] unfolding jsonl_load_def journal_snoc by metis
  qed
qed

text \<open>C1: Durability of the journal. Take a storage that was created with a well-formed header and used by any
  sequence of calls with well-formed data, each of whose writes may have broken off after any number of
  characters. Loading its file succeeds and gives a storage with the same metadata. If no write broke off the
  session is the one the storage had in memory and the file is not changed. If one broke off, it is the write
  of one of the calls, the first that broke; the session in memory is still the one before this call, and the
  loaded session is that one or the one that this very call makes when its write completes. Loading the file
  that the load left behind gives the same storage again.\<close>

theorem journal_durable:
  assumes "faithful_floats ft pf" and "wf_header h"
    and "(jsonl_step ft)\<^sup>*\<^sup>* ([], jsonl_create ft path h mtime) (cs, st)"
  shows "\<exists>st'. jsonl_load pf path mtime True (js_file st) = Ok st' \<and> js_metadata st' = js_metadata st
    \<and> (\<not> js_writeFailure st \<longrightarrow> js_state st' = js_state st \<and> js_file st' = js_file st)
    \<and> (js_writeFailure st \<longrightarrow> (\<exists>u c k. interrupted ft (jsonl_create ft path h mtime) cs u c k
        \<and> js_state st = js_state u \<and> js_state st' \<in> {js_state u, js_state (perform ft Synced c u)}))
    \<and> jsonl_load pf path mtime True (js_file st') = Ok st'"
proof -
  let ?origin = "jsonl_create ft path h mtime"
  have "journal_inv ft h path mtime (cs, st)"
    using journaling.reachable_inv [OF refl assms(3)] .
  then obtain ms where ms: "list_all wf_mutation ms" "replay ms = Ok (js_state st)" "journal_file ft h ?origin ms cs st"
    and md: "js_metadata st = metadataFromHeader h path mtime"
    by (auto simp: journal_inv_def)
  let ?st = "\<lambda>ms s. (new_jsonl_storage (metadataFromHeader h path mtime) True (journal ft h ms))\<lparr>js_state := s\<rparr>"
  have whole: "jsonl_load pf path mtime True (js_file (?st ms s)) = Ok (?st ms s)" if "list_all wf_mutation ms" "replay ms = Ok s" for ms s
    using load_journal [OF assms(1,2) that] by (simp add: jsonl_load_def new_jsonl_storage_def)
  show ?thesis
  proof (cases "js_writeFailure st")
    case False
    then show ?thesis
      using ms md whole [OF ms(1,2)]
      by (intro exI [of _ "?st ms (js_state st)"]) (simp add: journal_file_def new_jsonl_storage_def)
  next
    case True
    then obtain m s' u c k where m: "wf_mutation m" "applyMutation (js_state st) m = Ok s'"
      and content: "js_file st = journal ft h ms @ take k (encodeMutation ft m)"
      and u: "interrupted ft ?origin cs u c k" "js_state st = js_state u" "s' = js_state (perform ft Synced c u)"
      using ms(3) unfolding journal_file_def by (metis (full_types))
    have all: "list_all wf_mutation (ms @ [m])" "replay (ms @ [m]) = Ok s'"
      using ms m by (simp_all add: replay_snoc)
    have said: "\<exists>u c k. interrupted ft ?origin cs u c k \<and> js_state st = js_state u \<and> x \<in> {js_state u, js_state (perform ft Synced c u)}"
      if "x = js_state st \<or> x = s'" for x
      using that u by blast
    show ?thesis
    proof (cases rule: load_broken [OF assms(1,2) ms(1,2) m, of path mtime k])
      case 1
      then show ?thesis
        unfolding content using True md whole [OF ms(1,2)] said [of "js_state st"]
        by (intro exI [of _ "?st ms (js_state st)"]) (simp add: new_jsonl_storage_def)
    next
      case 2
      then show ?thesis
        unfolding content using True md m whole [OF all] said [of s']
        by (intro exI [of _ "?st (ms @ [m]) s'"]) (simp add: new_jsonl_storage_def)
    qed
  qed
qed

definition sample_header :: jsonl_header where
  "sample_header = \<lparr>jh_id = ''s'', jh_createdAt = 1, jh_cwd = ''/'', jh_parentSessionId = None, jh_legacyParentSessionPath = None,
     jh_metadata = None\<rparr>"

definition sample_broken :: jsonl_storage where
  "sample_broken = fst (jsonl_setName sample_float_text (Broken 5) (jsonl_create sample_float_text ''p'' sample_header (JInt 0)) (Some ''n''))"

theorem journal_durable_witness:
  "js_writeFailure sample_broken
   \<and> (\<exists>st' u c k. jsonl_load sample_parse_float ''p'' (JInt 0) True (js_file sample_broken) = Ok st'
        \<and> interrupted sample_float_text (jsonl_create sample_float_text ''p'' sample_header (JInt 0)) [(SetName (Some ''n''), Broken 5)] u c k
        \<and> js_state st' \<in> {js_state u, js_state (perform sample_float_text Synced c u)})"
proof -
  let ?st = "jsonl_create sample_float_text ''p'' sample_header (JInt 0)"
  have "safe_nat 1"
    by (simp add: safe_nat_def safe_int_def max_safe_integer_def)
  then have "wf_header sample_header" and "room ?st"
    by (simp_all add: wf_header_def sample_header_def header_fields_def safe_nat_def num_is_neg_zero_def room_def jsonl_create_def
        new_jsonl_storage_def nextSequence_def new_session_state_def safe_int_def max_safe_integer_def)
  moreover have "jsonl_step sample_float_text ([], ?st) ([(SetName (Some ''n''), Broken 5)], sample_broken)"
    using jsonl_step [of ?st "SetName (Some ''n'')" sample_float_text "[]" "Broken 5"] calculation(2)
    by (simp add: sample_broken_def good_call_def)
  then have "(jsonl_step sample_float_text)\<^sup>*\<^sup>* ([], ?st) ([(SetName (Some ''n''), Broken 5)], sample_broken)"
    by (rule r_into_rtranclp)
  moreover have "js_writeFailure sample_broken"
    by (simp add: sample_broken_def jsonl_setName_def enqueue_def jsonl_create_def new_jsonl_storage_def append_and_apply_def appendMutation_def)
  ultimately show ?thesis
    using journal_durable [OF sample_floats_faithful] by blast
qed

end
