(* ===== verification/JsonlContract.thy ===== *)
theory JsonlContract
  imports JsonlRecovery
begin

text \<open>
  The journal storage keeps the contract of a session storage: while its writes reach the file it
  answers every call as the in-memory storage does, and so inherits the lemmas of the contract.
\<close>

section \<open>Agreement with the in-memory storage\<close>

definition writable :: "jsonl_storage \<Rightarrow> bool" where
  "writable st \<longleftrightarrow> js_writer st \<and> \<not> js_closing st \<and> \<not> js_writeFailure st"

definition in_memory :: "jsonl_storage \<Rightarrow> memory_storage" where
  "in_memory st = \<lparr>ms_metadata = \<lparr>sm_id = jm_id (js_metadata st), sm_createdAt = jm_createdAt (js_metadata st),
     sm_parentSessionId = jm_parentSessionId (js_metadata st)\<rparr>, ms_state = js_state st\<rparr>"

text \<open>The same answer: a refused call changes nothing, an accepted one leaves the same session and a usable storage.\<close>

definition agrees :: "jsonl_storage \<Rightarrow> jsonl_storage \<times> (jsonl_error + 'a) \<Rightarrow> session_error + memory_storage \<times> 'a \<Rightarrow> bool" where
  "agrees st result expected =
     (case expected of
        Inl e \<Rightarrow> result = (st, Err (SessionFailure e))
      | Inr (ms, x) \<Rightarrow> snd result = Ok x \<and> in_memory (fst result) = ms \<and> writable (fst result))"

definition no_value :: "'e + 's \<Rightarrow> 'e + 's \<times> unit" where
  "no_value r = bind_res r (\<lambda>s. Ok (s, ()))"

lemma in_memory_state [simp]: "ms_state (in_memory st) = js_state st"
  by (simp add: in_memory_def)

lemma append_and_apply_agrees:
  assumes "writable st" and "\<exists>s'. applyMutation (js_state st) m = Ok s'"
  shows "agrees st (append_and_apply ft Synced st m x) (bind_res (ms_apply (in_memory st) m) (\<lambda>ms. Ok (ms, x)))"
  using assms by (auto simp: agrees_def append_and_apply_def appendMutation_def ms_apply_def writable_def in_memory_def)

lemma checked_agrees:
  assumes "\<And>x. guard = Ok x \<Longrightarrow> agrees st (next x) (next' x)"
  shows "agrees st (checked st guard next) (bind_res guard next')"
  using assms by (cases guard) (simp_all add: checked_def agrees_def)

lemma enqueue_writable: "writable st \<Longrightarrow> enqueue st operation = operation st"
  by (simp add: enqueue_def writable_def)

lemma no_value_bind: "no_value (bind_res r f) = bind_res r (\<lambda>x. no_value (f x))"
  by (cases r) (simp_all add: no_value_def)

lemma createLane_agrees:
  assumes "writable st"
  shows "agrees st (jsonl_createLane ft Synced st lane x) (no_value (ms_createLane (in_memory st) lane x))"
  using assms unfolding jsonl_createLane_def ms_createLane_def no_value_bind enqueue_writable [OF assms] in_memory_state
  by (intro checked_agrees) (simp add: no_value_def append_and_apply_agrees lane_possible)

lemma moveLane_agrees:
  assumes "writable st"
  shows "agrees st (jsonl_moveLane ft Synced st lane x) (no_value (ms_moveLane (in_memory st) lane x))"
  using assms unfolding jsonl_moveLane_def ms_moveLane_def no_value_bind enqueue_writable [OF assms] in_memory_state
  by (intro checked_agrees) (simp add: no_value_def append_and_apply_agrees lane_possible)

lemma setName_agrees:
  assumes "writable st"
  shows "agrees st (jsonl_setName ft Synced st x) (no_value (ms_setName (in_memory st) x))"
  using assms unfolding jsonl_setName_def ms_setName_def enqueue_writable [OF assms] in_memory_state
  by (simp add: no_value_def append_and_apply_agrees name_possible)

lemma setLabel_agrees:
  assumes "writable st"
  shows "agrees st (jsonl_setLabel ft Synced st k x) (no_value (ms_setLabel (in_memory st) k x))"
  using assms unfolding jsonl_setLabel_def ms_setLabel_def no_value_bind enqueue_writable [OF assms] in_memory_state
  by (intro checked_agrees) (simp add: no_value_def append_and_apply_agrees label_possible)

lemma appendEntry_agrees:
  assumes "writable st" and "session_inv (js_state st)" and "serializable (provisioned_json p)"
  shows "agrees st (jsonl_appendEntry ft Synced st p lane now) (ms_appendEntry (in_memory st) p lane now)"
  using assms unfolding jsonl_appendEntry_def ms_appendEntry_def enqueue_writable [OF assms(1)] in_memory_state Let_def
  by simp (intro checked_agrees append_and_apply_agrees entry_possible)

lemma appendRecord_agrees:
  assumes "writable st" and "serializable (new_record_json r)"
  shows "agrees st (jsonl_appendRecord ft Synced st r now) (ms_appendRecord (in_memory st) r now)"
  using assms unfolding jsonl_appendRecord_def ms_appendRecord_def enqueue_writable [OF assms(1)] in_memory_state Let_def
  by simp (intro checked_agrees append_and_apply_agrees record_possible)

section \<open>The contract\<close>

definition committed :: "jsonl_storage \<times> (jsonl_error + 'a) \<Rightarrow> jsonl_error + jsonl_storage \<times> 'a" where
  "committed result = bind_res (snd result) (\<lambda>x. Ok (fst result, x))"

abbreviation committed_storage :: "jsonl_storage \<times> (jsonl_error + unit) \<Rightarrow> jsonl_error + jsonl_storage" where
  "committed_storage result \<equiv> bind_res (committed result) (\<lambda>(st, u). Ok st)"

lemma committed_Ok:
  assumes "agrees st result expected" and "committed result = Ok (st', x)"
  shows "\<exists>ms. expected = Ok (ms, x) \<and> in_memory st' = ms \<and> writable st'"
  using assms by (cases expected) (auto simp: agrees_def committed_def res_simps)

definition journal_usable :: "jsonl_storage \<Rightarrow> bool" where
  "journal_usable st \<longleftrightarrow> writable st \<and> session_inv (js_state st)"

lemma in_memory_inv: "journal_usable st \<Longrightarrow> session_inv (ms_state (in_memory st))"
  by (simp add: journal_usable_def)

lemma committed_storage_Ok:
  assumes "agrees st result (no_value expected)" and "committed_storage result = Ok st'"
  shows "expected = Ok (in_memory st') \<and> writable st'"
proof -
  obtain st'' u where c: "committed result = Ok (st'', u)" "st'' = st'"
    using assms(2) by (auto simp: res_simps)
  then show ?thesis
    using committed_Ok [OF assms(1) c(1)] by (auto simp: no_value_def res_simps)
qed

lemma refused_entry: "committed (jsonl_appendEntry ft w st p lane now) = Ok r \<Longrightarrow> serializable (provisioned_json p)"
  by (auto simp: jsonl_appendEntry_def committed_def res_simps split: if_splits)

lemma refused_record: "committed (jsonl_appendRecord ft w st r now) = Ok x \<Longrightarrow> serializable (new_record_json r)"
  by (auto simp: jsonl_appendRecord_def committed_def res_simps split: if_splits)

interpretation journal: session_storage js_state journal_usable "\<lambda>p. serializable (provisioned_json p)"
  "\<lambda>st p lane now. committed (jsonl_appendEntry ft Synced st p lane now)"
  "\<lambda>st r now. committed (jsonl_appendRecord ft Synced st r now)"
  "\<lambda>st lane x. committed_storage (jsonl_createLane ft Synced st lane x)"
  "\<lambda>st lane x. committed_storage (jsonl_moveLane ft Synced st lane x)"
  "\<lambda>st x. committed_storage (jsonl_setName ft Synced st x)"
  "\<lambda>st k x. committed_storage (jsonl_setLabel ft Synced st k x)"
  for ft
proof (unfold_locales, goal_cases)
  case (1 s p lane now s' e)
  then have "ms_appendEntry (in_memory s) p lane now = Ok (in_memory s', e)" "writable s'"
    using committed_Ok [OF appendEntry_agrees [of s p] 1(2)] refused_entry [OF 1(2)] by (auto simp: journal_usable_def)
  then show ?case
    using memory.append_entry_Ok [OF in_memory_inv [OF 1(1)]] by (fastforce simp: journal_usable_def)
next
  case (2 s p lane now)
  then obtain r where "ms_appendEntry (in_memory s) p lane now = Ok r"
    using memory.append_entry_possible [OF in_memory_inv [OF 2(1)], of lane p now] by auto
  then show ?case
    using appendEntry_agrees [of s p ft lane now] 2 by (auto simp: journal_usable_def agrees_def committed_def split: prod.splits)
next
  case (3 s n now s' r)
  then have "ms_appendRecord (in_memory s) n now = Ok (in_memory s', r)" "writable s'"
    using committed_Ok [OF appendRecord_agrees [of s n] 3(2)] refused_record [OF 3(2)] by (auto simp: journal_usable_def)
  then show ?case
    using memory.append_record_Ok [OF in_memory_inv [OF 3(1)]] by (fastforce simp: journal_usable_def)
next
  case (4 s lane x s')
  then show ?case
    using memory.create_lane_Ok [OF in_memory_inv [OF 4(1)]] committed_storage_Ok [OF createLane_agrees 4(2)]
    by (fastforce simp: journal_usable_def)
next
  case (5 s lane x s')
  then show ?case
    using memory.move_lane_Ok [OF in_memory_inv [OF 5(1)]] committed_storage_Ok [OF moveLane_agrees 5(2)]
    by (fastforce simp: journal_usable_def)
next
  case (6 s x s')
  then show ?case
    using memory.set_name_Ok [OF in_memory_inv [OF 6(1)]] committed_storage_Ok [OF setName_agrees 6(2)]
    by (fastforce simp: journal_usable_def)
next
  case (7 s k x s')
  then show ?case
    using memory.set_label_Ok [OF in_memory_inv [OF 7(1)]] committed_storage_Ok [OF setLabel_agrees 7(2)]
    by (fastforce simp: journal_usable_def)
qed

section \<open>Refused calls\<close>

text \<open>A storage without a writer, a released one and one whose write has failed refuse every writing call.\<close>

lemma enqueue_refuses: "\<not> writable st \<Longrightarrow> \<exists>e \<in> {ReadOnly, WriterClosed, WriteFailed}. enqueue st operation = (st, Err e)"
  by (auto simp: enqueue_def writable_def)

definition refuses :: "jsonl_storage \<Rightarrow> jsonl_storage \<times> (jsonl_error + 'a) \<Rightarrow> bool" where
  "refuses st result \<longleftrightarrow> fst result = st \<and> isl (snd result)"

lemma refuses_enqueue: "\<not> writable st \<Longrightarrow> refuses st (enqueue st operation)"
  using enqueue_refuses [of st operation] by (auto simp: refuses_def)

text \<open>C14: The journal storage implements the in-memory one. While it may write and its writes reach the file, every
  writing call gives the answer the in-memory storage gives, with the same session afterwards, and refused calls leave
  the storage and its file as they were; data with a number that JSON cannot express is refused. A read-only storage, a
  released one and one with a failed write refuse every writing call and stay as they are, whatever the file does.\<close>

theorem journal_refines_memory:
  assumes "session_inv (js_state st)"
  shows "(writable st \<longrightarrow>
      (\<forall>p lane now. if serializable (provisioned_json p)
         then agrees st (jsonl_appendEntry ft Synced st p lane now) (ms_appendEntry (in_memory st) p lane now)
         else jsonl_appendEntry ft Synced st p lane now = (st, Err NotSerializable))
    \<and> (\<forall>r now. if serializable (new_record_json r)
         then agrees st (jsonl_appendRecord ft Synced st r now) (ms_appendRecord (in_memory st) r now)
         else jsonl_appendRecord ft Synced st r now = (st, Err NotSerializable))
    \<and> (\<forall>lane x. agrees st (jsonl_createLane ft Synced st lane x) (no_value (ms_createLane (in_memory st) lane x)))
    \<and> (\<forall>lane x. agrees st (jsonl_moveLane ft Synced st lane x) (no_value (ms_moveLane (in_memory st) lane x)))
    \<and> (\<forall>x. agrees st (jsonl_setName ft Synced st x) (no_value (ms_setName (in_memory st) x)))
    \<and> (\<forall>k x. agrees st (jsonl_setLabel ft Synced st k x) (no_value (ms_setLabel (in_memory st) k x))))
    \<and> (\<not> writable st \<longrightarrow>
      (\<forall>w p lane now. refuses st (jsonl_appendEntry ft w st p lane now))
    \<and> (\<forall>w r now. refuses st (jsonl_appendRecord ft w st r now))
    \<and> (\<forall>w lane x. refuses st (jsonl_createLane ft w st lane x) \<and> refuses st (jsonl_moveLane ft w st lane x))
    \<and> (\<forall>w k x. refuses st (jsonl_setName ft w st x) \<and> refuses st (jsonl_setLabel ft w st k x)))"
proof (cases "writable st")
  case True
  then show ?thesis
    using assms appendEntry_agrees appendRecord_agrees createLane_agrees moveLane_agrees setName_agrees setLabel_agrees
    by (simp add: jsonl_appendEntry_def jsonl_appendRecord_def)
next
  case False
  note refuses_enqueue [OF this, simp]
  show ?thesis
    using False unfolding jsonl_appendEntry_def jsonl_appendRecord_def jsonl_createLane_def jsonl_moveLane_def jsonl_setName_def
      jsonl_setLabel_def by (simp add: refuses_def [of st "(st, Err NotSerializable)"])
qed

definition sample_journal :: jsonl_storage where
  "sample_journal = jsonl_create sample_float_text ''p'' sample_header (JInt 0)"

theorem journal_refines_memory_witness:
  "writable sample_journal \<and> session_inv (js_state sample_journal)
   \<and> agrees sample_journal (jsonl_setName sample_float_text Synced sample_journal (Some ''n''))
      (no_value (ms_setName (in_memory sample_journal) (Some ''n'')))
   \<and> refuses (jsonl_release sample_journal) (jsonl_setName sample_float_text Synced (jsonl_release sample_journal) (Some ''n''))"
proof -
  have "writable sample_journal" "\<not> writable (jsonl_release sample_journal)" "session_inv (js_state sample_journal)"
    "session_inv (js_state (jsonl_release sample_journal))"
    using new_session_inv by (simp_all add: sample_journal_def writable_def jsonl_create_def new_jsonl_storage_def jsonl_release_def)
  then show ?thesis
    using journal_refines_memory [of sample_journal sample_float_text]
      journal_refines_memory [of "jsonl_release sample_journal" sample_float_text] by (simp only: simp_thms)
qed

end
