(* ===== verification/PosixPath.thy ===== *)
theory PosixPath
  imports JsText "HOL-Library.Sublist"
begin

text \<open>
  The functions of Node's \<open>path\<close> module that the program uses, on POSIX: texts are code units,
  \<open>resolve\<close> and \<open>relative\<close> work on the components between slashes, \<open>dirname\<close> and \<open>basename\<close> on the
  text itself. The working directory of the process is an argument and is absolute.
\<close>

section \<open>Paths\<close>

abbreviation slash :: "16 word" where
  "slash \<equiv> 0x2F"

definition dot :: js_string where
  "dot = [0x2E]"

definition dots :: js_string where
  "dots = [0x2E, 0x2E]"

fun isAbsolute :: "js_string \<Rightarrow> bool" where
  "isAbsolute [] = False"
| "isAbsolute (c # cs) = (c = slash)"

definition push_component :: "js_string list \<Rightarrow> js_string \<Rightarrow> js_string list" where
  "push_component acc c = (if c = [] \<or> c = dot then acc else if c = dots then butlast acc else acc @ [c])"

definition components :: "js_string \<Rightarrow> js_string list" where
  "components p = foldl push_component [] (split_on slash p)"

definition path_text :: "js_string list \<Rightarrow> js_string" where
  "path_text cs = slash # join_with [slash] cs"

text \<open>The arguments of \<open>resolve\<close> from the last absolute one on.\<close>

fun from_absolute :: "js_string list \<Rightarrow> js_string list" where
  "from_absolute [] = []"
| "from_absolute (p # ps) = (if list_ex isAbsolute ps then from_absolute ps else p # ps)"

definition resolve_path :: "js_string \<Rightarrow> js_string list \<Rightarrow> js_string" where
  "resolve_path process_cwd ps =
     path_text (foldl push_component [] (concat (map (split_on slash) (from_absolute (process_cwd # ps)))))"

fun strip_common :: "'a list \<Rightarrow> 'a list \<Rightarrow> 'a list \<times> 'a list" where
  "strip_common (x # xs) (y # ys) = (if x = y then strip_common xs ys else (x # xs, y # ys))"
| "strip_common xs ys = (xs, ys)"

definition relative_path :: "js_string \<Rightarrow> js_string \<Rightarrow> js_string \<Rightarrow> js_string" where
  "relative_path process_cwd from to_path =
     (let (up, down) = strip_common (components (resolve_path process_cwd [from])) (components (resolve_path process_cwd [to_path]))
      in join_with [slash] (replicate (length up) dots @ down))"

definition dirname :: "js_string \<Rightarrow> js_string" where
  "dirname p =
     (case p of
        [] \<Rightarrow> dot
      | c # cs \<Rightarrow>
          let front = dropWhile (\<lambda>x. x \<noteq> slash) (dropWhile (\<lambda>x. x = slash) (rev cs))
          in if front = [] then (if c = slash then [slash] else dot)
             else if c = slash \<and> length front = 1 then [slash, slash]
             else c # rev (tl front))"

definition basename :: "js_string \<Rightarrow> js_string" where
  "basename p = rev (takeWhile (\<lambda>x. x \<noteq> slash) (dropWhile (\<lambda>x. x = slash) (rev p)))"

section \<open>Normal paths\<close>

definition normal_component :: "js_string \<Rightarrow> bool" where
  "normal_component c \<longleftrightarrow> c \<noteq> [] \<and> c \<noteq> dot \<and> c \<noteq> dots \<and> slash \<notin> set c"

abbreviation normal :: "js_string list \<Rightarrow> bool" where
  "normal cs \<equiv> list_all normal_component cs"

lemma push_normal: "normal acc \<Longrightarrow> slash \<notin> set c \<Longrightarrow> normal (push_component acc c)"
  by (auto simp: push_component_def normal_component_def list_all_iff dest: in_set_butlastD)

lemma foldl_push_normal: "normal acc \<Longrightarrow> (\<forall>c\<in>set cs. slash \<notin> set c) \<Longrightarrow> normal (foldl push_component acc cs)"
  by (induction cs arbitrary: acc) (simp_all add: push_normal)

lemma components_normal [simp]: "normal (components p)"
  unfolding components_def by (rule foldl_push_normal) (auto simp: split_on_plain_parts)

lemma foldl_push_id: "normal cs \<Longrightarrow> foldl push_component acc cs = acc @ cs"
  by (induction cs arbitrary: acc) (simp_all add: push_component_def normal_component_def)

lemma push_empty [simp]: "push_component acc [] = acc"
  by (simp add: push_component_def)

lemma components_path_text [simp]: "normal cs \<Longrightarrow> components (path_text cs) = cs"
proof (cases "cs = []")
  case False
  assume "normal cs"
  moreover from this have "\<forall>c\<in>set cs. slash \<notin> set c"
    by (auto simp: list_all_iff normal_component_def)
  ultimately show ?thesis
    using False by (simp add: components_def path_text_def split_join foldl_push_id)
qed (simp add: components_def path_text_def)

lemma split_concat_plain: "c \<in> set (concat (map (split_on x) ps)) \<Longrightarrow> x \<notin> set c"
  by (induction ps) (auto simp: split_on_plain_parts)

lemma resolve_normal: "\<exists>cs. normal cs \<and> resolve_path w ps = path_text cs"
proof -
  have "normal (foldl push_component [] (concat (map (split_on slash) (from_absolute (w # ps)))))"
    using split_concat_plain by (intro foldl_push_normal ballI) simp_all
  then show ?thesis
    unfolding resolve_path_def by blast
qed

lemma isAbsolute_path_text [simp]: "isAbsolute (path_text cs)"
  by (simp add: path_text_def)

lemma resolve_absolute: "isAbsolute p \<Longrightarrow> resolve_path w [p] = path_text (components p)"
  by (simp add: resolve_path_def components_def)

lemma resolve_path_text [simp]: "normal cs \<Longrightarrow> resolve_path w [path_text cs] = path_text cs"
  by (simp add: resolve_absolute)

lemma path_text_inj: "normal cs \<Longrightarrow> normal ds \<Longrightarrow> path_text cs = path_text ds \<longleftrightarrow> cs = ds"
  by (metis components_path_text)

section \<open>Inclusion of paths\<close>

lemma strip_common_prefix: "fst (strip_common xs ys) = [] \<longleftrightarrow> prefix xs ys"
  by (induction xs ys rule: strip_common.induct) (auto simp: prefix_def)

lemma strip_common_snd_normal: "normal ys \<Longrightarrow> normal (snd (strip_common xs ys))"
  by (induction xs ys rule: strip_common.induct) auto

end
