(* ===== verification/ShellWords.thy ===== *)
theory ShellWords
  imports PosixPath
begin

text \<open>
  The shell reader of \<open>packages/permissions/src/permissions.ts\<close>: it splits a command line into
  commands and words, keeps which characters of a word the shell would expand, and skips comments
  and here-documents. Texts are code units.
\<close>

section \<open>Characters\<close>

abbreviation lf :: "16 word" where "lf \<equiv> 0x0A"
abbreviation carriage :: "16 word" where "carriage \<equiv> 0x0D"
abbreviation tab :: "16 word" where "tab \<equiv> 0x09"
abbreviation single_quote :: "16 word" where "single_quote \<equiv> 0x27"
abbreviation double_quote :: "16 word" where "double_quote \<equiv> 0x22"
abbreviation backslash :: "16 word" where "backslash \<equiv> 0x5C"
abbreviation hash :: "16 word" where "hash \<equiv> 0x23"
abbreviation less_than :: "16 word" where "less_than \<equiv> 0x3C"
abbreviation greater_than :: "16 word" where "greater_than \<equiv> 0x3E"
abbreviation dash :: "16 word" where "dash \<equiv> 0x2D"
abbreviation semicolon :: "16 word" where "semicolon \<equiv> 0x3B"
abbreviation pipe :: "16 word" where "pipe \<equiv> 0x7C"
abbreviation ampersand :: "16 word" where "ampersand \<equiv> 0x26"
abbreviation open_paren :: "16 word" where "open_paren \<equiv> 0x28"
abbreviation close_paren :: "16 word" where "close_paren \<equiv> 0x29"
abbreviation space :: "16 word" where "space \<equiv> 0x20"

text \<open>The character class \<open>\s\<close> of regular expressions.\<close>

definition is_space :: "16 word \<Rightarrow> bool" where
  "is_space c \<longleftrightarrow> 0x09 \<le> c \<and> c \<le> 0x0D \<or> c = 0x20 \<or> c = 0xA0 \<or> c = 0x1680 \<or> 0x2000 \<le> c \<and> c \<le> 0x200A
     \<or> c = 0x2028 \<or> c = 0x2029 \<or> c = 0x202F \<or> c = 0x205F \<or> c = 0x3000 \<or> c = 0xFEFF"

definition is_operator :: "16 word \<Rightarrow> bool" where
  "is_operator c \<longleftrightarrow> c \<in> {semicolon, pipe, ampersand, open_paren, close_paren}"

section \<open>Words and commands\<close>

record shell_part =
  part_text :: js_string
  part_expandable :: bool

type_synonym shell_word = "shell_part list"

record shell_command =
  cmd_words :: "shell_word list"
  cmd_operatorBefore :: "js_string option"

definition shellWordText :: "shell_word \<Rightarrow> js_string" where
  "shellWordText word = concat (map part_text word)"

section \<open>The reader\<close>

record shell_reader =
  sr_commands :: "shell_command list"
  sr_words :: "shell_word list"
  sr_parts :: shell_word
  sr_wordStarted :: bool
  sr_quote :: "16 word option"
  sr_operatorBefore :: "js_string option"
  sr_heredocTarget :: "bool option"
  sr_heredocs :: "(js_string \<times> bool) list"

definition new_reader :: shell_reader where
  "new_reader = \<lparr>sr_commands = [], sr_words = [], sr_parts = [], sr_wordStarted = False, sr_quote = None,
     sr_operatorBefore = None, sr_heredocTarget = None, sr_heredocs = []\<rparr>"

definition append_part :: "js_string \<Rightarrow> bool \<Rightarrow> shell_word \<Rightarrow> shell_word" where
  "append_part t expandable ps =
     (if ps \<noteq> [] \<and> part_expandable (last ps) = expandable
      then butlast ps @ [(last ps)\<lparr>part_text := part_text (last ps) @ t\<rparr>]
      else ps @ [\<lparr>part_text = t, part_expandable = expandable\<rparr>])"

definition append_text :: "js_string \<Rightarrow> bool \<Rightarrow> shell_reader \<Rightarrow> shell_reader" where
  "append_text t expandable r = r\<lparr>sr_wordStarted := True, sr_parts := append_part t expandable (sr_parts r)\<rparr>"

definition finishWord :: "shell_reader \<Rightarrow> shell_reader" where
  "finishWord r =
     (if \<not> sr_wordStarted r then r
      else (case sr_heredocTarget r of
              Some stripTabs \<Rightarrow> r\<lparr>sr_heredocs := sr_heredocs r @ [(shellWordText (sr_parts r), stripTabs)], sr_heredocTarget := None,
                                sr_parts := [], sr_wordStarted := False\<rparr>
            | None \<Rightarrow> r\<lparr>sr_words := sr_words r @ [sr_parts r], sr_parts := [], sr_wordStarted := False\<rparr>))"

definition finishCommand :: "js_string option \<Rightarrow> shell_reader \<Rightarrow> shell_reader" where
  "finishCommand nextOperator r0 =
     (let r = finishWord r0;
          cs = (if sr_words r = [] then sr_commands r
                else sr_commands r @ [\<lparr>cmd_words = sr_words r, cmd_operatorBefore = sr_operatorBefore r\<rparr>])
      in r\<lparr>sr_commands := cs, sr_words := [], sr_operatorBefore := nextOperator\<rparr>)"

definition heredoc_line :: "bool \<Rightarrow> js_string \<Rightarrow> js_string" where
  "heredoc_line stripTabs l =
     (let line = (if l \<noteq> [] \<and> last l = carriage then butlast l else l)
      in if stripTabs then dropWhile (\<lambda>c. c = tab) line else line)"

function skip_body :: "js_string \<Rightarrow> bool \<Rightarrow> js_string \<Rightarrow> js_string" where
  "skip_body delimiter stripTabs s =
     (if s = [] then []
      else let line = takeWhile (\<lambda>c. c \<noteq> lf) s; after = tl (dropWhile (\<lambda>c. c \<noteq> lf) s)
           in if heredoc_line stripTabs line = delimiter then after else skip_body delimiter stripTabs after)"
  by pat_completeness auto

lemma tl_dropWhile_length: "length (tl (dropWhile P s)) \<le> length s - 1"
  using length_dropWhile_le [of P s] by simp

termination skip_body
proof (relation "measure (\<lambda>(d, t, s). length s)", goal_cases)
  case (2 delimiter stripTabs s)
  then show ?case
    using tl_dropWhile_length [of "\<lambda>c. c \<noteq> lf" s] by (cases s) auto
qed simp

declare skip_body.simps [simp del]

definition skipHeredocBodies :: "(js_string \<times> bool) list \<Rightarrow> js_string \<Rightarrow> js_string" where
  "skipHeredocBodies heredocs s = fold (\<lambda>(delimiter, stripTabs). skip_body delimiter stripTabs) heredocs s"

lemma skip_body_length: "length (skip_body d t s) \<le> length s"
proof (induction d t s rule: skip_body.induct)
  case (1 d t s)
  then show ?case
    using tl_dropWhile_length [of "\<lambda>c. c \<noteq> lf" s] by (subst skip_body.simps) (force simp: Let_def)
qed

lemma skip_bodies_length: "length (skipHeredocBodies hs s) \<le> length s"
  by (induction hs arbitrary: s) (auto simp: skipHeredocBodies_def intro: order.trans [OF _ skip_body_length])

text \<open>The loop over the characters; its argument is the rest of the source.\<close>

function read_shell :: "js_string \<Rightarrow> shell_reader \<Rightarrow> shell_reader" where
  "read_shell [] r = r"
| "read_shell (c # rest) r =
     (if sr_quote r = Some single_quote then
        (if c = single_quote then read_shell rest (r\<lparr>sr_quote := None\<rparr>) else read_shell rest (append_text [c] False r))
      else if sr_quote r = Some double_quote then
        (if c = double_quote then read_shell rest (r\<lparr>sr_quote := None\<rparr>)
         else if c = backslash \<and> rest \<noteq> [] then read_shell (tl rest) (append_text [hd rest] False r)
         else read_shell rest (append_text [c] True r))
      else if c = single_quote \<or> c = double_quote then read_shell rest (r\<lparr>sr_wordStarted := True, sr_quote := Some c\<rparr>)
      else if c = backslash \<and> rest \<noteq> [] then
        (if hd rest = lf then read_shell (tl rest) r else read_shell (tl rest) (append_text [hd rest] False r))
      else if c = hash \<and> \<not> sr_wordStarted r then read_shell (dropWhile (\<lambda>x. x \<noteq> lf) rest) r
      else if c = less_than \<and> rest \<noteq> [] \<and> hd rest = less_than then
        (let after = tl rest; stripTabs = (after \<noteq> [] \<and> hd after = dash)
         in read_shell (if stripTabs then tl after else after) ((finishWord r)\<lparr>sr_heredocTarget := Some stripTabs\<rparr>))
      else if is_space c then
        (if c = lf then
           (let r' = finishCommand (Some [lf]) (finishWord r)
            in if sr_heredocs r' = [] then read_shell rest r'
               else read_shell (skipHeredocBodies (sr_heredocs r') rest) (r'\<lparr>sr_heredocs := []\<rparr>))
         else read_shell rest (finishWord r))
      else if is_operator c then
        (if (c = pipe \<or> c = ampersand) \<and> rest \<noteq> [] \<and> hd rest = c then read_shell (tl rest) (finishCommand (Some [c, c]) r)
         else read_shell rest (finishCommand (Some [c]) r))
      else read_shell rest (append_text [c] True r))"
  by pat_completeness auto

termination read_shell
  by (relation "measure (\<lambda>(s, r). length s)")
    (auto simp: less_Suc_eq_le intro: order.trans [OF length_dropWhile_le] order.trans [OF skip_bodies_length])

declare read_shell.simps(2) [simp del]

definition parseShellCommands :: "js_string \<Rightarrow> shell_command list" where
  "parseShellCommands source = sr_commands (finishCommand None (read_shell source new_reader))"

end
