(* ===== verification/Permissions.thy ===== *)
theory Permissions
  imports ShellWords "HOL-Library.AList"
begin

text \<open>
  The permission decision of \<open>packages/permissions/src/permissions.ts\<close>: a shell command is denied
  when it would delete a directory that holds a protected root. What the host answers (home and working
  directory, existing files, canonical paths, file URLs) is the record \<open>host\<close>; paths are POSIX paths.
\<close>

section \<open>The host\<close>

record host =
  h_cwd :: js_string
  h_homedir :: js_string
  h_existsSync :: "js_string \<Rightarrow> bool"
  h_realpathSync :: "js_string \<Rightarrow> js_string"
  h_fileURLToPath :: "js_string \<Rightarrow> js_string option"

type_synonym shell_variables = "(js_string \<times> js_string) list"

abbreviation lit :: "string \<Rightarrow> js_string" where
  "lit \<equiv> ascii_text"

abbreviation lits :: "string list \<Rightarrow> js_string list" where
  "lits \<equiv> map ascii_text"

definition starts_with :: "js_string \<Rightarrow> js_string \<Rightarrow> bool" where
  "starts_with p s \<longleftrightarrow> take (length p) s = p"

text \<open>
  \<open>toLowerCase\<close> as far as names of programs show it: besides the capital letters only the Kelvin sign
  becomes an ASCII letter, and a name with any other character is none of those the code asks for.
\<close>

definition lower_unit :: "16 word \<Rightarrow> 16 word" where
  "lower_unit c = (if 0x41 \<le> c \<and> c \<le> 0x5A then c + 0x20 else if c = 0x212A then 0x6B else c)"

definition to_lower :: "js_string \<Rightarrow> js_string" where
  "to_lower s = map lower_unit s"

section \<open>Paths\<close>

function climb :: "host \<Rightarrow> js_string \<Rightarrow> js_string list \<Rightarrow> js_string \<times> js_string list" where
  "climb h existing below =
     (if h_existsSync h existing then (existing, below)
      else let parent = dirname existing
           in if parent = existing then (existing, below) else climb h parent (basename existing # below))"
  by pat_completeness auto

lemma dropWhile_twice: "dropWhile (\<lambda>x. \<not> P x) (dropWhile P xs) \<noteq> [] \<Longrightarrow> length (dropWhile (\<lambda>x. \<not> P x) (dropWhile P xs)) < length xs"
proof (induction xs)
  case (Cons x xs)
  then show ?case
    using length_dropWhile_le [of "\<lambda>x. \<not> P x" xs] by (simp split: if_splits)
qed simp

lemma dirname_shorter: "dirname p \<noteq> p \<Longrightarrow> p \<noteq> dot \<and> (dirname p = dot \<or> length (dirname p) < length p)"
proof (cases p)
  case (Cons c cs)
  assume p: "dirname p \<noteq> p"
  obtain front where front: "dropWhile (\<lambda>x. x \<noteq> slash) (dropWhile (\<lambda>x. x = slash) (rev cs)) = front" by blast
  have shorter: "front \<noteq> [] \<Longrightarrow> length front < length cs"
    using dropWhile_twice [of "\<lambda>x. x = slash" "rev cs"] unfolding front by simp
  have d: "dirname (c # cs) = (if front = [] then (if c = slash then [slash] else dot)
             else if c = slash \<and> length front = 1 then [slash, slash] else c # rev (tl front))"
    unfolding dirname_def by (simp only: front list.case Let_def)
  show ?thesis
  proof (cases "front = []")
    case True
    then show ?thesis
      using p d Cons by (cases cs) (auto simp: dot_def split: if_splits)
  next
    case False
    then have "length (dirname p) < length p"
      using shorter d Cons by auto
    then show ?thesis
      using p by (auto simp: dot_def dirname_def)
  qed
qed (simp add: dirname_def dot_def)

termination climb
  by (relation "measure (\<lambda>(h, p, s). if p = dot then 0 else Suc (length p))") (auto dest: dirname_shorter)

declare climb.simps [simp del]

definition canonicalizeProspectivePath :: "host \<Rightarrow> js_string \<Rightarrow> js_string \<Rightarrow> js_string" where
  "canonicalizeProspectivePath h p cwd =
     (let (existing, below) = climb h (resolve_path (h_cwd h) [cwd, p]) [];
          canonicalBase = (if h_existsSync h existing then h_realpathSync h existing else existing)
      in resolve_path (h_cwd h) (canonicalBase # below))"

definition isWithin :: "host \<Rightarrow> js_string \<Rightarrow> js_string \<Rightarrow> bool" where
  "isWithin h p parent =
     (let rel = relative_path (h_cwd h) parent p
      in rel = [] \<or> \<not> starts_with (dots @ [slash]) rel \<and> rel \<noteq> dots \<and> \<not> isAbsolute rel)"

definition canonicalExistingPath :: "host \<Rightarrow> js_string \<Rightarrow> js_string" where
  "canonicalExistingPath h p = canonicalizeProspectivePath h p (dirname p)"

definition is_wildcard :: "16 word \<Rightarrow> bool" where
  "is_wildcard c \<longleftrightarrow> c \<in> {0x2A, 0x3F, 0x5B, 0x7B}"

definition strip_slashes :: "js_string \<Rightarrow> js_string" where
  "strip_slashes s = rev (dropWhile (\<lambda>c. c = slash) (rev s))"

definition recursiveDeleteBase :: "host \<Rightarrow> js_string \<Rightarrow> js_string \<Rightarrow> js_string" where
  "recursiveDeleteBase h expanded cwd =
     (let rawBase = takeWhile (\<lambda>c. \<not> is_wildcard c) expanded;
          base = (if rawBase = [] then dot else if strip_slashes rawBase = [] then [slash] else strip_slashes rawBase);
          normalized = (if isAbsolute base then resolve_path (h_cwd h) [base] else resolve_path (h_cwd h) [cwd, base])
      in canonicalizeProspectivePath h normalized cwd)"

text \<open>The reason carries the target it names.\<close>

definition protectedDeleteReason :: "host \<Rightarrow> js_string \<Rightarrow> js_string list \<Rightarrow> js_string option" where
  "protectedDeleteReason h target protectedRoots =
     (if list_ex (\<lambda>root. isWithin h root target) protectedRoots then Some target else None)"

section \<open>Expansion of words\<close>

text \<open>The home directory is a replacement text, in which dollar signs have a meaning.\<close>

fun substitution :: "js_string \<Rightarrow> js_string \<Rightarrow> js_string" where
  "substitution after [] = []"
| "substitution after [c] = [c]"
| "substitution after (c # d # ds) =
     (if c \<noteq> 0x24 then c # substitution after (d # ds)
      else if d = 0x24 then 0x24 # substitution after ds
      else if d = 0x26 then 0x7E # substitution after ds
      else if d = 0x60 then substitution after ds
      else if d = single_quote then after @ substitution after ds
      else c # substitution after (d # ds))"

definition expand_tilde :: "js_string \<Rightarrow> js_string \<Rightarrow> js_string" where
  "expand_tilde home token =
     (if token \<noteq> [] \<and> hd token = 0x7E \<and> (tl token = [] \<or> hd (tl token) = slash)
      then substitution (tl token) home @ tl token else token)"

definition ident_start :: "16 word \<Rightarrow> bool" where
  "ident_start c \<longleftrightarrow> 0x41 \<le> c \<and> c \<le> 0x5A \<or> 0x61 \<le> c \<and> c \<le> 0x7A \<or> c = 0x5F"

definition is_digit :: "16 word \<Rightarrow> bool" where
  "is_digit c \<longleftrightarrow> 0x30 \<le> c \<and> c \<le> 0x39"

definition ident_prefix :: "js_string \<Rightarrow> js_string" where
  "ident_prefix s =
     (if s \<noteq> [] \<and> ident_start (hd s) then hd s # takeWhile (\<lambda>c. ident_start c \<or> is_digit c) (tl s) else [])"

lemma ident_prefix_length: "length (ident_prefix s) \<le> length s"
  using length_takeWhile_le [of "\<lambda>c. ident_start c \<or> is_digit c" "tl s"]
  by (cases s) (auto simp: ident_prefix_def)

function expand_variables :: "(js_string \<Rightarrow> js_string \<Rightarrow> js_string) \<Rightarrow> js_string \<Rightarrow> js_string" where
  "expand_variables look [] = []"
| "expand_variables look (c # cs) =
     (if c \<noteq> 0x24 then c # expand_variables look cs
      else let braced = ident_prefix (tl cs); after = drop (length braced) (tl cs); plain = ident_prefix cs
           in if cs \<noteq> [] \<and> hd cs = 0x7B \<and> braced \<noteq> [] \<and> after \<noteq> [] \<and> hd after = 0x7D
              then look braced (0x24 # 0x7B # braced @ [0x7D]) @ expand_variables look (tl after)
              else if plain \<noteq> [] then look plain (0x24 # plain) @ expand_variables look (drop (length plain) cs)
              else c # expand_variables look cs)"
  by pat_completeness auto

termination expand_variables
  by (relation "measure (\<lambda>(look, s). length s)") auto

definition expandKnownPathVariables :: "host \<Rightarrow> js_string \<Rightarrow> js_string \<Rightarrow> shell_variables \<Rightarrow> js_string" where
  "expandKnownPathVariables h token cwd variables =
     expand_variables
       (\<lambda>name matched.
          if name = lit ''PWD'' then cwd
          else if name = lit ''HOME'' then h_homedir h
          else (case map_of variables name of Some v \<Rightarrow> v | None \<Rightarrow> matched))
       (expand_tilde (h_homedir h) token)"

fun has_process_substitution :: "js_string \<Rightarrow> bool" where
  "has_process_substitution (c # d # s) \<longleftrightarrow> c = less_than \<and> d = open_paren \<or> has_process_substitution (d # s)"
| "has_process_substitution s \<longleftrightarrow> False"

definition unresolved :: "js_string \<Rightarrow> bool" where
  "unresolved s \<longleftrightarrow> 0x24 \<in> set s \<or> 0x60 \<in> set s \<or> has_process_substitution s"

fun expandShellWord :: "host \<Rightarrow> shell_word \<Rightarrow> js_string \<Rightarrow> shell_variables \<Rightarrow> js_string option" where
  "expandShellWord h [] cwd variables = Some []"
| "expandShellWord h (p # ps) cwd variables =
     (if \<not> part_expandable p then map_option (\<lambda>s. part_text p @ s) (expandShellWord h ps cwd variables)
      else let v = expandKnownPathVariables h (part_text p) cwd variables
           in if unresolved v then None else map_option (\<lambda>s. v @ s) (expandShellWord h ps cwd variables))"

section \<open>Commands\<close>

fun drop_text :: "nat \<Rightarrow> shell_word \<Rightarrow> shell_word" where
  "drop_text remaining [] = []"
| "drop_text remaining (p # ps) =
     (if length (part_text p) \<le> remaining then drop_text (remaining - length (part_text p)) ps
      else \<lparr>part_text = drop remaining (part_text p), part_expandable = part_expandable p\<rparr> # drop_text 0 ps)"

definition assignmentFromWord :: "shell_word \<Rightarrow> (js_string \<times> shell_word) option" where
  "assignmentFromWord word =
     (let text = shellWordText word; name = ident_prefix text; after = drop (length name) text
      in if name \<noteq> [] \<and> after \<noteq> [] \<and> hd after = 0x3D then Some (name, drop_text (length name + 1) word) else None)"

definition is_line_terminator :: "16 word \<Rightarrow> bool" where
  "is_line_terminator c \<longleftrightarrow> c \<in> {lf, carriage, 0x2028, 0x2029}"

definition shellRedirectionWidth :: "js_string \<Rightarrow> nat" where
  "shellRedirectionWidth token =
     (let rest = dropWhile is_digit token
      in if rest \<in> set (lits [''<>'', ''>'', ''>>'', ''<'', ''>|'', ''<&'', ''>&'']) then 2
         else if 2 \<le> length rest \<and> (hd rest = less_than \<or> hd rest = greater_than) \<and> \<not> is_line_terminator (rest ! 1) then 1
         else 0)"

definition shell_prefixes :: "js_string list" where
  "shell_prefixes = lits [''!'', ''do'', ''then'', ''else'', ''elif'', ''if'', ''while'', ''until'', ''time'', ''{'']"

fun skip_prefixes :: "shell_word list \<Rightarrow> shell_word list" where
  "skip_prefixes [] = []"
| "skip_prefixes (w # ws) =
     (if shellWordText w \<in> set shell_prefixes \<or> assignmentFromWord w \<noteq> None then skip_prefixes ws
      else let width = shellRedirectionWidth (shellWordText w)
           in if 0 < width then skip_prefixes (drop (width - 1) ws) else w # ws)"

abbreviation is_option :: "shell_word \<Rightarrow> bool" where
  "is_option w \<equiv> starts_with [dash] (shellWordText w)"

fun skip_env :: "shell_word list \<Rightarrow> shell_word list" where
  "skip_env [] = []"
| "skip_env (w # ws) =
     (if assignmentFromWord w \<noteq> None then skip_env ws
      else let width = shellRedirectionWidth (shellWordText w)
           in if 0 < width then skip_env (drop (width - 1) ws)
              else if shellWordText w \<in> set (lits [''-u'', ''--unset'', ''-C'', ''--chdir'']) then skip_env (drop 1 ws)
              else if is_option w then skip_env ws
              else w # ws)"

fun skip_sudo :: "shell_word list \<Rightarrow> shell_word list" where
  "skip_sudo [] = []"
| "skip_sudo (w # ws) =
     (let width = shellRedirectionWidth (shellWordText w)
      in if 0 < width then skip_sudo (drop (width - 1) ws)
         else if shellWordText w \<in> set (lits [''-C'', ''-D'', ''-g'', ''-h'', ''-p'', ''-r'', ''-t'', ''-u'']) then skip_sudo (drop 1 ws)
         else if is_option w then skip_sudo ws
         else w # ws)"

fun skip_wrappers :: "nat \<Rightarrow> host \<Rightarrow> js_string \<Rightarrow> shell_variables \<Rightarrow> shell_word list \<Rightarrow> (js_string \<times> shell_word list) option" where
  "skip_wrappers 0 h cwd variables ws = None"
| "skip_wrappers (Suc n) h cwd variables [] = None"
| "skip_wrappers (Suc n) h cwd variables (w # ws) =
     (case expandShellWord h w cwd variables of
        None \<Rightarrow> None
      | Some command \<Rightarrow>
          if command = [] then None
          else let name = to_lower (basename command)
               in if name = lit ''command'' then skip_wrappers n h cwd variables (dropWhile is_option ws)
                  else if name = lit ''env'' then skip_wrappers n h cwd variables (skip_env ws)
                  else if name = lit ''sudo'' then skip_wrappers n h cwd variables (skip_sudo ws)
                  else Some (name, ws))"

definition shellInvocation :: "host \<Rightarrow> shell_word list \<Rightarrow> js_string \<Rightarrow> shell_variables \<Rightarrow> (js_string \<times> shell_word list) option" where
  "shellInvocation h words cwd variables = skip_wrappers 4 h cwd variables (skip_prefixes words)"

section \<open>Deleting commands\<close>

definition findPredicatesWithoutArguments :: "js_string list" where
  "findPredicatesWithoutArguments = lits [''!'', ''('', '')'', '','', ''-a'', ''-and'', ''-daystart'', ''-depth'', ''-empty'',
     ''-executable'', ''-false'', ''-ignore_readdir_race'', ''-ls'', ''-mount'', ''-noignore_readdir_race'', ''-nogroup'',
     ''-nouser'', ''-o'', ''-or'', ''-print'', ''-print0'', ''-prune'', ''-quit'', ''-readable'', ''-true'', ''-writable'',
     ''-xdev'']"

definition findPredicatesWithOneArgument :: "js_string list" where
  "findPredicatesWithOneArgument = lits [''-amin'', ''-anewer'', ''-atime'', ''-cmin'', ''-cnewer'', ''-ctime'', ''-fprint'',
     ''-fprint0'', ''-fls'', ''-fstype'', ''-gid'', ''-group'', ''-ilname'', ''-iname'', ''-inum'', ''-ipath'', ''-iregex'',
     ''-links'', ''-lname'', ''-maxdepth'', ''-mindepth'', ''-mmin'', ''-mtime'', ''-name'', ''-newer'', ''-newerat'',
     ''-newerct'', ''-newermt'', ''-path'', ''-perm'', ''-printf'', ''-regex'', ''-regextype'', ''-size'', ''-type'', ''-uid'',
     ''-user'', ''-wholename'', ''-xtype'']"

definition shells :: "js_string list" where
  "shells = lits [''bash'', ''dash'', ''ksh'', ''sh'', ''zsh'']"

text \<open>The script of \<open>sh -c\<close>.\<close>

definition script_argument :: "shell_word list \<Rightarrow> shell_word option" where
  "script_argument args =
     (case dropWhile (\<lambda>w. shellWordText w \<noteq> lit ''-c'') args of c # script # ws \<Rightarrow> Some script | _ \<Rightarrow> None)"

function findExecObviouslyDeletes :: "host \<Rightarrow> shell_word list \<Rightarrow> js_string \<Rightarrow> shell_variables \<Rightarrow> nat \<Rightarrow> bool" where
  "findExecObviouslyDeletes h words cwd variables depth =
     (case shellInvocation h words cwd variables of
        None \<Rightarrow> False
      | Some (name, args) \<Rightarrow>
          if name \<in> set (lits [''rm'', ''rmdir'', ''shred'', ''unlink'']) then True
          else if 2 \<le> depth \<or> name \<notin> set shells then False
          else (case script_argument args of
                  None \<Rightarrow> False
                | Some script \<Rightarrow>
                    list_ex (\<lambda>command. findExecObviouslyDeletes h (cmd_words command) cwd variables (depth + 1))
                      (parseShellCommands (shellWordText script))))"
  by pat_completeness auto

termination findExecObviouslyDeletes
  by (relation "measure (\<lambda>(h, ws, cwd, vs, depth). 2 - depth)") auto

declare findExecObviouslyDeletes.simps [simp del]

fun skip_find_options :: "shell_word list \<Rightarrow> shell_word list" where
  "skip_find_options [] = []"
| "skip_find_options (w # ws) =
     (let token = shellWordText w
      in if token = lit ''--'' then ws
         else if token \<in> set (lits [''-H'', ''-L'', ''-P'']) \<or> starts_with (lit ''-O'') token \<and> list_all is_digit (drop 2 token)
         then skip_find_options ws
         else if token = lit ''-D'' then skip_find_options (drop 1 ws)
         else w # ws)"

definition is_expression :: "shell_word \<Rightarrow> bool" where
  "is_expression w \<longleftrightarrow> is_option w \<or> shellWordText w = lit ''!'' \<or> shellWordText w = lit ''(''"

definition is_letter :: "16 word \<Rightarrow> bool" where
  "is_letter c \<longleftrightarrow> 0x41 \<le> c \<and> c \<le> 0x5A \<or> 0x61 \<le> c \<and> c \<le> 0x7A"

definition ends_exec :: "shell_word \<Rightarrow> bool" where
  "ends_exec w \<longleftrightarrow> shellWordText w = lit '';'' \<or> shellWordText w = lit ''+''"

function find_deletes :: "host \<Rightarrow> js_string \<Rightarrow> shell_variables \<Rightarrow> shell_word list \<Rightarrow> bool" where
  "find_deletes h cwd variables [] = False"
| "find_deletes h cwd variables (w # ws) =
     (let token = shellWordText w
      in if token = lit ''-delete'' then True
         else if token \<in> set (lits [''-exec'', ''-execdir'', ''-ok'', ''-okdir'']) then
           (findExecObviouslyDeletes h (takeWhile (\<lambda>a. \<not> ends_exec a) ws) cwd variables 0
            \<or> find_deletes h cwd variables (tl (dropWhile (\<lambda>a. \<not> ends_exec a) ws)))
         else if token \<in> set findPredicatesWithOneArgument
             \<or> starts_with (lit ''-newer'') token \<and> length token = 8 \<and> list_all is_letter (drop 6 token)
         then find_deletes h cwd variables (drop 1 ws)
         else if token = lit ''-fprintf'' then find_deletes h cwd variables (drop 2 ws)
         else if starts_with [dash] token \<and> token \<notin> set findPredicatesWithoutArguments then find_deletes h cwd variables (drop 1 ws)
         else find_deletes h cwd variables ws)"
  by pat_completeness auto

termination find_deletes
proof (relation "measure (\<lambda>(h, cwd, vs, ws). length ws)", goal_cases)
  case (2 h cwd vs w ws x)
  then show ?case
    using tl_dropWhile_length [of "\<lambda>a. \<not> ends_exec a" ws] by simp
qed auto

definition here_word :: shell_word where
  "here_word = [\<lparr>part_text = dot, part_expandable = False\<rparr>]"

definition destructiveFindRoots :: "host \<Rightarrow> shell_word list \<Rightarrow> js_string \<Rightarrow> shell_variables \<Rightarrow> shell_word list option" where
  "destructiveFindRoots h args cwd variables =
     (let rest = skip_find_options args; roots = takeWhile (\<lambda>w. \<not> is_expression w) rest
      in if find_deletes h cwd variables (dropWhile (\<lambda>w. \<not> is_expression w) rest)
         then Some (if roots = [] then [here_word] else roots) else None)"

text \<open>The first target whose deletion covers a protected root.\<close>

fun first_reason :: "('a \<Rightarrow> js_string option) \<Rightarrow> 'a list \<Rightarrow> js_string option" where
  "first_reason f [] = None"
| "first_reason f (x # xs) = (case f x of Some r \<Rightarrow> Some r | None \<Rightarrow> first_reason f xs)"

definition target_reason :: "host \<Rightarrow> js_string list \<Rightarrow> js_string \<Rightarrow> shell_variables \<Rightarrow> shell_word \<Rightarrow> js_string option" where
  "target_reason h protectedRoots cwd variables w =
     (case expandShellWord h w cwd variables of
        None \<Rightarrow> None
      | Some expanded \<Rightarrow>
          if expanded = [] then None else protectedDeleteReason h (recursiveDeleteBase h expanded cwd) protectedRoots)"

text \<open>The options of \<open>git\<close> before the subcommand; \<open>None\<close> when a directory cannot be told.\<close>

function git_options :: "host \<Rightarrow> shell_variables \<Rightarrow> js_string \<Rightarrow> shell_word list \<Rightarrow> (js_string \<times> shell_word list) option" where
  "git_options h variables gitCwd [] = Some (gitCwd, [])"
| "git_options h variables gitCwd (w # ws) =
     (let token = shellWordText w
      in if token = lit ''-C'' then
           (case (case ws of [] \<Rightarrow> None | p # ps \<Rightarrow> expandShellWord h p gitCwd variables) of
              None \<Rightarrow> None
            | Some expanded \<Rightarrow>
                if expanded = [] then None
                else git_options h variables (canonicalizeProspectivePath h expanded gitCwd) (drop 1 ws))
         else if starts_with (lit ''-C'') token \<and> 2 < length token then
           git_options h variables (canonicalizeProspectivePath h (drop 2 token) gitCwd) ws
         else if token \<in> set (lits [''-c'', ''--config-env'', ''--git-dir'', ''--work-tree'', ''--namespace'']) then
           git_options h variables gitCwd (drop 1 ws)
         else if starts_with [dash] token then git_options h variables gitCwd ws
         else Some (gitCwd, w # ws))"
  by pat_completeness auto

termination git_options
  by (relation "measure (\<lambda>(h, vs, cwd, ws). length ws)") auto

definition spares :: "shell_word \<Rightarrow> bool" where
  "spares w \<longleftrightarrow> shellWordText w \<in> set (lits [''--dry-run'', ''--interactive''])
     \<or> is_option w \<and> list_ex (\<lambda>c. c = 0x6E \<or> c = 0x69) (takeWhile (\<lambda>c. c \<noteq> dash) (tl (shellWordText w)))"

fun clean_pathspecs :: "shell_word list \<Rightarrow> bool \<Rightarrow> shell_word list \<times> bool" where
  "clean_pathspecs [] sawPathspec = ([], sawPathspec)"
| "clean_pathspecs (w # ws) sawPathspec =
     (let arg = shellWordText w
      in if arg = lit ''--'' then (ws, ws \<noteq> [])
         else if arg = lit ''-e'' \<or> arg = lit ''--exclude'' then clean_pathspecs (drop 1 ws) sawPathspec
         else if starts_with [dash] arg then clean_pathspecs ws sawPathspec
         else (let (ps, saw) = clean_pathspecs ws True in (w # ps, saw)))"

definition clean_reason :: "host \<Rightarrow> js_string list \<Rightarrow> js_string \<Rightarrow> shell_variables \<Rightarrow> shell_word \<Rightarrow> js_string option" where
  "clean_reason h protectedRoots gitCwd variables w =
     (case expandShellWord h w gitCwd variables of
        None \<Rightarrow> None
      | Some expanded \<Rightarrow>
          if expanded = [] then None
          else let candidate = (if starts_with (lit '':(top)'') expanded \<or> expanded = lit '':/'' then dot else expanded)
               in protectedDeleteReason h (recursiveDeleteBase h candidate gitCwd) protectedRoots)"

definition findCatastrophicGitClean :: "host \<Rightarrow> shell_word list \<Rightarrow> js_string \<Rightarrow> js_string list \<Rightarrow> shell_variables \<Rightarrow> js_string option" where
  "findCatastrophicGitClean h args effectiveCwd protectedRoots variables =
     (case git_options h variables effectiveCwd args of
        None \<Rightarrow> None
      | Some (gitCwd, []) \<Rightarrow> None
      | Some (gitCwd, w # cleanArgs) \<Rightarrow>
          if shellWordText w \<noteq> lit ''clean'' \<or> list_ex spares cleanArgs then None
          else let (pathspecs, sawPathspec) = clean_pathspecs cleanArgs False
               in first_reason (clean_reason h protectedRoots gitCwd variables) (if sawPathspec then pathspecs else [here_word]))"

definition is_recursive :: "shell_word \<Rightarrow> bool" where
  "is_recursive w \<longleftrightarrow> is_option w \<and> list_ex (\<lambda>c. c = 0x72 \<or> c = 0x52) (takeWhile (\<lambda>c. c \<noteq> dash) (tl (shellWordText w)))
     \<or> shellWordText w = lit ''--recursive''"

definition rm_reason :: "host \<Rightarrow> js_string list \<Rightarrow> js_string \<Rightarrow> shell_variables \<Rightarrow> shell_word list \<Rightarrow> js_string option" where
  "rm_reason h protectedRoots cwd variables args =
     (if list_ex is_recursive args
      then first_reason (target_reason h protectedRoots cwd variables) (filter (\<lambda>w. \<not> is_option w) args) else None)"

definition protected_roots :: "host \<Rightarrow> js_string \<Rightarrow> js_string list \<Rightarrow> js_string list" where
  "protected_roots h cwd additional =
     rev (remdups (rev (resolve_path (h_cwd h) [[slash]] # canonicalExistingPath h (h_homedir h)
       # map (\<lambda>root. canonicalizeProspectivePath h root cwd) additional)))"

definition initial_variables :: "host \<Rightarrow> js_string \<Rightarrow> shell_variables" where
  "initial_variables h cwd = [(lit ''HOME'', h_homedir h), (lit ''PWD'', cwd)]"

fun assign :: "host \<Rightarrow> js_string \<Rightarrow> (js_string \<times> shell_word) list \<Rightarrow> shell_variables \<Rightarrow> shell_variables" where
  "assign h cwd [] variables = variables"
| "assign h cwd ((name, word) # rest) variables =
     assign h cwd rest
       (case expandShellWord h word cwd variables of
          None \<Rightarrow> AList.delete name variables
        | Some v \<Rightarrow> AList.update name v variables)"

definition applies_assignments :: "shell_command \<Rightarrow> bool" where
  "applies_assignments c \<longleftrightarrow> cmd_operatorBefore c \<in> {None, Some [semicolon], Some [lf]}"

text \<open>
  The loop over the commands of a line, with the directory and the variables as they are at the
  next command; scripts of \<open>sh -c\<close> are read up to two levels deep.
\<close>

function delete_reason :: "host \<Rightarrow> js_string list \<Rightarrow> nat \<Rightarrow> js_string list \<Rightarrow> js_string \<Rightarrow> shell_variables \<Rightarrow> shell_command list
    \<Rightarrow> js_string option" where
  "delete_reason h additional depth protectedRoots cwd variables [] = None"
| "delete_reason h additional depth protectedRoots cwd variables (c # cs) =
     (let assignments = map assignmentFromWord (cmd_words c)
      in if list_all (\<lambda>a. a \<noteq> None) assignments then
           delete_reason h additional depth protectedRoots cwd
             (if applies_assignments c then assign h cwd (map the assignments) variables else variables) cs
         else
           (case shellInvocation h (cmd_words c) cwd variables of
              None \<Rightarrow> delete_reason h additional depth protectedRoots cwd variables cs
            | Some (name, args) \<Rightarrow>
                if name = lit ''cd'' then
                  (case (case args of [] \<Rightarrow> Some (h_homedir h) | d # ds \<Rightarrow> expandShellWord h d cwd variables) of
                     None \<Rightarrow> delete_reason h additional depth protectedRoots cwd variables cs
                   | Some nextCwd \<Rightarrow>
                       if nextCwd = [] then delete_reason h additional depth protectedRoots cwd variables cs
                       else let cwd' = canonicalizeProspectivePath h nextCwd cwd
                            in delete_reason h additional depth protectedRoots cwd' (AList.update (lit ''PWD'') cwd' variables) cs)
                else
                  (case (if depth < 2 \<and> name \<in> set shells then
                           (case script_argument args of
                              None \<Rightarrow> None
                            | Some script \<Rightarrow>
                                delete_reason h additional (depth + 1) (protected_roots h cwd additional) cwd (initial_variables h cwd)
                                  (parseShellCommands (shellWordText script)))
                         else if name = lit ''git'' then findCatastrophicGitClean h args cwd protectedRoots variables
                         else if name = lit ''find'' then
                           (case destructiveFindRoots h args cwd variables of
                              None \<Rightarrow> None
                            | Some roots \<Rightarrow> first_reason (target_reason h protectedRoots cwd variables) roots)
                         else if name = lit ''rm'' then rm_reason h protectedRoots cwd variables args
                         else None) of
                     Some reason \<Rightarrow> Some reason
                   | None \<Rightarrow> delete_reason h additional depth protectedRoots cwd variables cs)))"
  by pat_completeness auto

termination delete_reason
  by (relation "measures [\<lambda>(h, a, depth, r, cwd, vs, cs). 2 - depth, \<lambda>(h, a, depth, r, cwd, vs, cs). length cs]") auto

declare delete_reason.simps(2) [simp del]

definition findCatastrophicDelete :: "host \<Rightarrow> js_string \<Rightarrow> js_string \<Rightarrow> js_string list \<Rightarrow> js_string option" where
  "findCatastrophicDelete h command cwd additionalProtectedRoots =
     delete_reason h additionalProtectedRoots 0 (protected_roots h cwd additionalProtectedRoots) cwd (initial_variables h cwd)
       (parseShellCommands command)"

definition assessBash :: "host \<Rightarrow> js_string \<Rightarrow> js_string \<Rightarrow> js_string list \<Rightarrow> js_string option" where
  "assessBash h command cwd additionalProtectedRoots = findCatastrophicDelete h command cwd (cwd # additionalProtectedRoots)"

section \<open>The decision\<close>

datatype permission_outcome = Allow | Deny js_string

record permission_request =
  pr_toolName :: js_string
  pr_command :: "js_string option"
  pr_inputCwd :: "js_string option"
  pr_cwd :: js_string
  pr_protectedRoots :: "js_string list"

text \<open>\<open>join\<close>; the result is resolved before it is used, which normalizes it.\<close>

definition join_home :: "host \<Rightarrow> js_string \<Rightarrow> js_string" where
  "join_home h rest = join_with [slash] (filter (\<lambda>p. p \<noteq> []) [h_homedir h, rest])"

definition invocation_cwd :: "host \<Rightarrow> permission_request \<Rightarrow> js_string" where
  "invocation_cwd h request =
     (let cwd = (case pr_inputCwd request of Some c \<Rightarrow> c | None \<Rightarrow> pr_cwd request)
      in if cwd = lit ''~'' then h_homedir h
         else if starts_with (lit ''~/'') cwd then join_home h (drop 2 cwd)
         else if starts_with (lit ''file://'') cwd then (case h_fileURLToPath h cwd of Some p \<Rightarrow> p | None \<Rightarrow> cwd)
         else cwd)"

definition decidePermission :: "host \<Rightarrow> permission_request \<Rightarrow> permission_outcome" where
  "decidePermission h request =
     (if pr_toolName request = lit ''bash'' then
        let command = (case pr_command request of Some c \<Rightarrow> c | None \<Rightarrow> []);
            protectedRoots = map (\<lambda>root. canonicalizeProspectivePath h root (pr_cwd request)) (pr_cwd request # pr_protectedRoots request)
        in (case findCatastrophicDelete h command (canonicalizeProspectivePath h (invocation_cwd h request) (pr_cwd request)) protectedRoots of
              Some reason \<Rightarrow> Deny reason
            | None \<Rightarrow> Allow)
      else Allow)"

end
