(* ===== verification/PermissionsCorrect.thy ===== *)
theory PermissionsCorrect
  imports Permissions
begin

text \<open>
  What the permission decision guarantees: the reader inverts shell quoting, inclusion of paths is
  inclusion of their components, a denial always names a directory that holds a protected root, and a
  recursive deletion written with quoted words is denied exactly when it would remove such a directory.
\<close>

section \<open>Inclusion of paths\<close>

lemma join_starts_dots: "starts_with (dots @ [slash]) (join_with [slash] (dots # p # ps))"
  by (simp add: starts_with_def dots_def)

lemma join_plain:
  assumes "normal (p # ps)"
  shows "join_with [slash] (p # ps) \<noteq> []" "\<not> starts_with (dots @ [slash]) (join_with [slash] (p # ps))"
    "join_with [slash] (p # ps) \<noteq> dots" "\<not> isAbsolute (join_with [slash] (p # ps))"
proof -
  have split: "split_on slash (join_with [slash] (p # ps)) = p # ps"
    using assms by (intro split_join) (auto simp: normal_component_def list_all_iff)
  have p: "p \<noteq> []" "p \<noteq> dots" "slash \<notin> set p"
    using assms by (auto simp: normal_component_def)
  show "join_with [slash] (p # ps) \<noteq> []"
    using p by (cases ps) simp_all
  show "\<not> starts_with (dots @ [slash]) (join_with [slash] (p # ps))"
  proof
    assume "starts_with (dots @ [slash]) (join_with [slash] (p # ps))"
    then obtain s where s: "join_with [slash] (p # ps) = dots @ slash # s"
      unfolding starts_with_def by (metis append_Cons append_Nil append_assoc append_take_drop_id)
    have "split_on slash (dots @ slash # s) = dots # split_on slash s"
      by (rule split_on_append) (simp add: dots_def)
    then show False
      using split p(2) unfolding s by simp
  qed
  show "join_with [slash] (p # ps) \<noteq> dots"
  proof
    assume s: "join_with [slash] (p # ps) = dots"
    have "split_on slash dots = [dots]"
      by (rule split_on_plain) (simp add: dots_def)
    then show False
      using split p(2) unfolding s by simp
  qed
  show "\<not> isAbsolute (join_with [slash] (p # ps))"
    using p by (cases ps; cases p) auto
qed

lemma isWithin_components:
  assumes "normal xs" and "normal ys"
  shows "isWithin h (path_text xs) (path_text ys) \<longleftrightarrow> prefix ys xs"
proof -
  obtain up down where ud: "strip_common ys xs = (up, down)"
    by (cases "strip_common ys xs")
  have up: "up = [] \<longleftrightarrow> prefix ys xs"
    using strip_common_prefix [of ys xs] ud by simp
  have down: "normal down"
    using strip_common_snd_normal [OF assms(1), of ys] ud by simp
  have rel: "relative_path (h_cwd h) (path_text ys) (path_text xs) = join_with [slash] (replicate (length up) dots @ down)"
    using assms ud by (simp add: relative_path_def)
  show ?thesis
  proof (cases up)
    case Nil
    show ?thesis
    proof (cases down)
      case Nil
      then show ?thesis
        using \<open>up = []\<close> up rel by (simp add: isWithin_def)
    next
      case (Cons d ds)
      then have "normal (d # ds)"
        using down by simp
      from join_plain [OF this] show ?thesis
        using \<open>up = []\<close> up rel Cons by (simp add: isWithin_def)
    qed
  next
    case (Cons u us)
    have "join_with [slash] (replicate (length up) dots @ down) = dots
      \<or> (\<exists>p ps. replicate (length up) dots @ down = dots # p # ps)"
      using Cons by (cases us; cases down) auto
    then have "\<not> isWithin h (path_text xs) (path_text ys)"
      unfolding isWithin_def rel Let_def using join_starts_dots Cons by (auto simp: dots_def)
    then show ?thesis
      using up Cons by simp
  qed
qed

section \<open>Quoting\<close>

text \<open>The usual way to quote a word: in single quotes, with each single quote in the word as \<open>'\''\<close>.\<close>

definition quote_unit :: "16 word \<Rightarrow> js_string" where
  "quote_unit c = (if c = single_quote then [single_quote, backslash, single_quote, single_quote] else [c])"

definition quote_word :: "js_string \<Rightarrow> js_string" where
  "quote_word w = single_quote # concat (map quote_unit w) @ [single_quote]"

definition quote_command :: "js_string list \<Rightarrow> js_string" where
  "quote_command ws = join_with [space] (map quote_word ws)"

definition quote_line :: "js_string list list \<Rightarrow> js_string" where
  "quote_line cmds = join_with [semicolon, space] (map quote_command cmds)"

definition literal_word :: "js_string \<Rightarrow> shell_word" where
  "literal_word w = (if w = [] then [] else [\<lparr>part_text = w, part_expandable = False\<rparr>])"

lemma literal_text [simp]: "shellWordText (literal_word w) = w"
  by (simp add: shellWordText_def literal_word_def)

lemma literal_expand [simp]: "expandShellWord h (literal_word w) cwd vs = Some w"
  by (simp add: literal_word_def)

lemma append_literal: "append_part [c] False (literal_word v) = literal_word (v @ [c])"
  by (simp add: append_part_def literal_word_def)

lemma read_quoted:
  assumes "sr_quote r = Some single_quote" and "sr_parts r = literal_word v" and "sr_wordStarted r"
  shows "read_shell (concat (map quote_unit w) @ single_quote # rest) r
    = read_shell rest (r\<lparr>sr_quote := None, sr_parts := literal_word (v @ w)\<rparr>)"
  using assms
proof (induction w arbitrary: v r)
  case Nil
  then have "read_shell rest (r\<lparr>sr_quote := None\<rparr>) = read_shell rest (r\<lparr>sr_quote := None, sr_parts := literal_word v\<rparr>)"
    by (cases r) simp
  then show ?case
    using Nil by (simp add: read_shell.simps(2))
next
  case (Cons c w)
  let ?r = "append_text [c] False r"
  have r: "sr_quote ?r = Some single_quote" "sr_parts ?r = literal_word (v @ [c])" "sr_wordStarted ?r"
    using Cons.prems by (simp_all add: append_text_def append_literal)
  have "read_shell (quote_unit c @ s) r = read_shell s ?r" for s
  proof (cases "c = single_quote")
    case False
    then show ?thesis
      using Cons.prems by (simp add: quote_unit_def read_shell.simps(2))
  next
    case True
    have "read_shell s (r\<lparr>sr_parts := ps, sr_wordStarted := True, sr_quote := Some single_quote\<rparr>)
        = read_shell s (r\<lparr>sr_wordStarted := True, sr_parts := ps\<rparr>)" for ps
      using Cons.prems by (cases r) simp
    then show ?thesis
      using True Cons.prems by (simp add: quote_unit_def read_shell.simps(2) append_text_def)
  qed
  then have "read_shell (concat (map quote_unit (c # w)) @ single_quote # rest) r
      = read_shell rest (?r\<lparr>sr_quote := None, sr_parts := literal_word ((v @ [c]) @ w)\<rparr>)"
    using Cons.IH [OF r] by simp
  moreover have "?r\<lparr>sr_quote := None, sr_parts := literal_word ((v @ [c]) @ w)\<rparr>
      = r\<lparr>sr_quote := None, sr_parts := literal_word (v @ c # w)\<rparr>"
    using Cons.prems by (cases r) (simp add: append_text_def)
  ultimately show ?case
    by simp
qed

text \<open>A reader between two words.\<close>

definition between :: "shell_reader \<Rightarrow> bool" where
  "between r \<longleftrightarrow> sr_quote r = None \<and> \<not> sr_wordStarted r \<and> sr_parts r = [] \<and> sr_heredocTarget r = None"

abbreviation with_word :: "js_string \<Rightarrow> shell_reader \<Rightarrow> shell_reader" where
  "with_word w r \<equiv> r\<lparr>sr_wordStarted := True, sr_parts := literal_word w\<rparr>"

lemma read_word:
  assumes "between r"
  shows "read_shell (quote_word w @ rest) r = read_shell rest (with_word w r)"
proof -
  let ?r = "r\<lparr>sr_wordStarted := True, sr_quote := Some single_quote\<rparr>"
  have "read_shell (concat (map quote_unit w) @ single_quote # rest) ?r
      = read_shell rest (?r\<lparr>sr_quote := None, sr_parts := literal_word ([] @ w)\<rparr>)"
    using assms by (intro read_quoted) (simp_all add: between_def literal_word_def)
  moreover have "?r\<lparr>sr_quote := None, sr_parts := literal_word ([] @ w)\<rparr> = with_word w r"
    using assms by (cases r) (simp add: between_def)
  ultimately show ?thesis
    using assms by (simp add: quote_word_def between_def read_shell.simps(2))
qed

lemma finish_with_word:
  assumes "between r"
  shows "finishWord (with_word w r) = r\<lparr>sr_words := sr_words r @ [literal_word w]\<rparr>"
  using assms by (cases r) (simp add: finishWord_def between_def)

lemma read_space: "sr_quote r = None \<Longrightarrow> read_shell (space # rest) r = read_shell rest (finishWord r)"
  by (simp add: read_shell.simps(2) is_space_def)

lemma read_semicolon: "sr_quote r = None \<Longrightarrow> read_shell (semicolon # rest) r = read_shell rest (finishCommand (Some [semicolon]) r)"
  by (simp add: read_shell.simps(2) is_space_def is_operator_def)

lemma read_command:
  assumes "between r" and "ws \<noteq> []"
  shows "read_shell (quote_command ws @ rest) r
    = read_shell rest (with_word (last ws) (r\<lparr>sr_words := sr_words r @ map literal_word (butlast ws)\<rparr>))"
  using assms
proof (induction ws arbitrary: r rule: induct_list012)
  case (2 w)
  then show ?case
    by (simp add: quote_command_def read_word)
next
  case (3 v w ws)
  let ?r = "r\<lparr>sr_words := sr_words r @ [literal_word v]\<rparr>"
  have "read_shell (quote_command (v # w # ws) @ rest) r = read_shell (space # quote_command (w # ws) @ rest) (with_word v r)"
    using read_word [OF 3(3)] by (simp add: quote_command_def)
  also have "\<dots> = read_shell (quote_command (w # ws) @ rest) ?r"
    using 3(3) finish_with_word [OF 3(3)] by (subst read_space) (simp_all add: between_def)
  finally show ?case
    using 3(2) [of ?r] 3(3) by (simp add: between_def)
qed simp

definition literal_command :: "js_string option \<Rightarrow> js_string list \<Rightarrow> shell_command" where
  "literal_command op ws = \<lparr>cmd_words = map literal_word ws, cmd_operatorBefore = op\<rparr>"

definition literal_commands :: "js_string option \<Rightarrow> js_string list list \<Rightarrow> shell_command list" where
  "literal_commands op cmds = (case cmds of [] \<Rightarrow> [] | c # cs \<Rightarrow> literal_command op c # map (literal_command (Some [semicolon])) cs)"

lemma finish_command:
  assumes "between r" and "sr_words r = []" and "ws \<noteq> []"
  shows "finishCommand op (with_word (last ws) (r\<lparr>sr_words := sr_words r @ map literal_word (butlast ws)\<rparr>))
    = r\<lparr>sr_commands := sr_commands r @ [literal_command (sr_operatorBefore r) ws], sr_operatorBefore := op\<rparr>"
proof -
  let ?r = "r\<lparr>sr_words := sr_words r @ map literal_word (butlast ws)\<rparr>"
  have "between ?r"
    using assms(1) by (simp add: between_def)
  moreover have "map literal_word (butlast ws) @ [literal_word (last ws)] = map literal_word ws"
    using assms(3) by (metis append_butlast_last_id list.simps(8,9) map_append)
  ultimately show ?thesis
    using assms unfolding finishCommand_def Let_def finish_with_word [OF \<open>between ?r\<close>]
    by (cases r) (simp add: literal_command_def)
qed

lemma read_line:
  assumes "between r" and "sr_words r = []" and "\<forall>ws\<in>set cmds. ws \<noteq> []" and "cmds \<noteq> []"
  shows "sr_commands (finishCommand None (read_shell (quote_line cmds) r)) = sr_commands r @ literal_commands (sr_operatorBefore r) cmds"
  using assms
proof (induction cmds arbitrary: r rule: induct_list012)
  case (2 c)
  then show ?case
    using read_command [of r c "[]"] finish_command [of r c None] by (simp add: quote_line_def literal_commands_def)
next
  case (3 c d cs)
  let ?r = "r\<lparr>sr_commands := sr_commands r @ [literal_command (sr_operatorBefore r) c], sr_operatorBefore := Some [semicolon]\<rparr>"
  have r: "between ?r" "sr_words ?r = []" "finishWord ?r = ?r"
    using 3(3,4) by (simp_all add: between_def finishWord_def)
  have "read_shell (quote_line (c # d # cs)) r = read_shell (semicolon # space # quote_line (d # cs))
      (with_word (last c) (r\<lparr>sr_words := sr_words r @ map literal_word (butlast c)\<rparr>))"
    using read_command [OF 3(3), of c] 3(5) by (simp add: quote_line_def)
  also have "\<dots> = read_shell (space # quote_line (d # cs)) ?r"
    using finish_command [OF 3(3,4), of c] 3(3,5) by (subst read_semicolon) (simp_all add: between_def)
  also have "\<dots> = read_shell (quote_line (d # cs)) ?r"
    using r by (subst read_space) (simp_all add: between_def)
  finally show ?case
    using 3(2) [OF r(1,2)] 3(5) by (simp add: literal_commands_def)
qed simp

lemma parse_quote_line:
  assumes "\<forall>ws\<in>set cmds. ws \<noteq> []"
  shows "parseShellCommands (quote_line cmds) = literal_commands None cmds"
proof (cases "cmds = []")
  case False
  then show ?thesis
    using read_line [of new_reader cmds] assms by (simp add: parseShellCommands_def between_def new_reader_def)
qed (simp add: parseShellCommands_def quote_line_def new_reader_def finishCommand_def finishWord_def literal_commands_def)

section \<open>Denials are justified\<close>

definition holds_root :: "js_string list \<Rightarrow> js_string \<Rightarrow> bool" where
  "holds_root roots target \<longleftrightarrow> (\<exists>root\<in>set roots. prefix (components target) (components root))"

lemma canonical_normal: "\<exists>cs. normal cs \<and> canonicalizeProspectivePath h p cwd = path_text cs"
  using resolve_normal by (simp add: canonicalizeProspectivePath_def split: prod.split)

lemma delete_base_normal: "\<exists>cs. normal cs \<and> recursiveDeleteBase h e cwd = path_text cs"
  using canonical_normal by (simp add: recursiveDeleteBase_def Let_def)

lemma protected_roots_normal: "root \<in> set (protected_roots h cwd additional) \<Longrightarrow> \<exists>cs. normal cs \<and> root = path_text cs"
  using resolve_normal [of "h_cwd h" "[[slash]]"] canonical_normal
  by (auto simp: protected_roots_def canonicalExistingPath_def)

lemma reason_holds_root:
  assumes "\<And>root. root \<in> set roots \<Longrightarrow> \<exists>cs. normal cs \<and> root = path_text cs"
  shows "protectedDeleteReason h (recursiveDeleteBase h e cwd) roots
    = (if holds_root roots (recursiveDeleteBase h e cwd) then Some (recursiveDeleteBase h e cwd) else None)"
proof -
  obtain ts where ts: "normal ts" "recursiveDeleteBase h e cwd = path_text ts"
    using delete_base_normal by blast
  have "isWithin h root (path_text ts) \<longleftrightarrow> prefix ts (components root)" if root: "root \<in> set roots" for root
    using assms [OF root] isWithin_components [OF _ ts(1), of _ h] by auto
  then show ?thesis
    using ts by (auto simp: protectedDeleteReason_def holds_root_def list_ex_iff)
qed

lemma first_reason_Some: "first_reason f xs = Some r \<Longrightarrow> \<exists>x\<in>set xs. f x = Some r"
  by (induction xs) (auto split: option.splits)

lemma first_reason_None: "first_reason f xs = None \<longleftrightarrow> (\<forall>x\<in>set xs. f x = None)"
  by (induction xs) (auto split: option.splits)

text \<open>The roots do not depend on the directory of the command when they are absolute.\<close>

lemma canonical_absolute: "isAbsolute p \<Longrightarrow> canonicalizeProspectivePath h p cwd = canonicalizeProspectivePath h p cwd'"
  by (simp add: canonicalizeProspectivePath_def resolve_path_def)

lemma protected_roots_absolute:
  assumes "list_all isAbsolute additional"
  shows "protected_roots h cwd additional = protected_roots h cwd' additional"
proof -
  have "map (\<lambda>root. canonicalizeProspectivePath h root cwd) additional = map (\<lambda>root. canonicalizeProspectivePath h root cwd') additional"
    using assms by (auto simp: list_all_iff intro: canonical_absolute)
  then show ?thesis
    unfolding protected_roots_def by (simp only:)
qed

lemma target_reason_Some:
  assumes "target_reason h (protected_roots h d a) cwd vs w = Some t"
  shows "holds_root (protected_roots h d a) t"
  using assms reason_holds_root [OF protected_roots_normal]
  by (auto simp: target_reason_def split: option.splits if_splits)

lemma clean_reason_Some:
  assumes "clean_reason h (protected_roots h d a) cwd vs w = Some t"
  shows "holds_root (protected_roots h d a) t"
  using assms reason_holds_root [OF protected_roots_normal]
  by (auto simp: clean_reason_def Let_def split: option.splits if_splits)

lemma git_clean_Some:
  assumes "findCatastrophicGitClean h args cwd (protected_roots h d a) vs = Some t"
  shows "holds_root (protected_roots h d a) t"
  using assms by (auto simp: findCatastrophicGitClean_def split: option.splits list.splits if_splits prod.splits
      dest!: first_reason_Some clean_reason_Some)

lemma rm_Some:
  assumes "rm_reason h (protected_roots h d a) cwd vs args = Some t"
  shows "holds_root (protected_roots h d a) t"
  using assms by (auto simp: rm_reason_def split: if_splits dest!: first_reason_Some target_reason_Some)

text \<open>The loop over the commands, one command at a time: what it finds and what it leaves for the next.\<close>

definition all_assignments :: "shell_command \<Rightarrow> bool" where
  "all_assignments c \<longleftrightarrow> (\<forall>w\<in>set (cmd_words c). assignmentFromWord w \<noteq> None)"

definition invocation_reason :: "host \<Rightarrow> js_string list \<Rightarrow> nat \<Rightarrow> js_string list \<Rightarrow> js_string \<Rightarrow> shell_variables \<Rightarrow> js_string
    \<Rightarrow> shell_word list \<Rightarrow> js_string option" where
  "invocation_reason h a n roots cwd vs name args =
     (if name = lit ''cd'' then None
      else if n < 2 \<and> name \<in> set shells then
        (case script_argument args of
           None \<Rightarrow> None
         | Some script \<Rightarrow> delete_reason h a (n + 1) (protected_roots h cwd a) cwd (initial_variables h cwd)
                           (parseShellCommands (shellWordText script)))
      else if name = lit ''git'' then findCatastrophicGitClean h args cwd roots vs
      else if name = lit ''find'' then
        (case destructiveFindRoots h args cwd vs of None \<Rightarrow> None | Some ws \<Rightarrow> first_reason (target_reason h roots cwd vs) ws)
      else if name = lit ''rm'' then rm_reason h roots cwd vs args
      else None)"

definition command_reason :: "host \<Rightarrow> js_string list \<Rightarrow> nat \<Rightarrow> js_string list \<Rightarrow> js_string \<Rightarrow> shell_variables \<Rightarrow> shell_command
    \<Rightarrow> js_string option" where
  "command_reason h a n roots cwd vs c =
     (if all_assignments c then None
      else case shellInvocation h (cmd_words c) cwd vs of
          None \<Rightarrow> None | Some (name, args) \<Rightarrow> invocation_reason h a n roots cwd vs name args)"

lemma delete_reason_step:
  "\<exists>cwd' vs'. delete_reason h a n roots cwd vs (c # cs)
     = (case command_reason h a n roots cwd vs c of Some t \<Rightarrow> Some t | None \<Rightarrow> delete_reason h a n roots cwd' vs' cs)"
proof (cases "all_assignments c")
  case True
  then have "list_all (\<lambda>a. a \<noteq> None) (map assignmentFromWord (cmd_words c))"
    by (auto simp: all_assignments_def list_all_iff)
  then show ?thesis
    using True unfolding delete_reason.simps(2) command_reason_def by auto
next
  case False
  then have no: "\<not> list_all (\<lambda>a. a \<noteq> None) (map assignmentFromWord (cmd_words c))"
    by (auto simp: all_assignments_def list_all_iff)
  show ?thesis
  proof (cases "shellInvocation h (cmd_words c) cwd vs")
    case None
    then show ?thesis
      using False no unfolding delete_reason.simps(2) command_reason_def by auto
  next
    case (Some i)
    then obtain name args where i: "shellInvocation h (cmd_words c) cwd vs = Some (name, args)"
      by (cases i) auto
    show ?thesis
    proof (cases "name = lit ''cd''")
      case True
      then show ?thesis
        using False no i unfolding delete_reason.simps(2) command_reason_def invocation_reason_def
        by (simp add: Let_def split: option.split) blast
    next
      case cd: False
      then show ?thesis
        using False no i unfolding delete_reason.simps(2) command_reason_def invocation_reason_def by (auto simp: Let_def)
    qed
  qed
qed

lemma delete_reason_holds_root:
  assumes "list_all isAbsolute a"
  shows "delete_reason h a n (protected_roots h d a) cwd vs cs = Some t \<Longrightarrow> holds_root (protected_roots h d a) t"
proof (induction "2 - n" arbitrary: n cwd vs cs rule: less_induct)
  case less
  have script: "holds_root (protected_roots h d a) t"
    if "n < 2" "delete_reason h a (n + 1) (protected_roots h cwd a) cwd vs cs = Some t" for cwd vs cs
    using less.hyps [of "n + 1" cwd vs cs] that protected_roots_absolute [OF assms, of h d cwd] by simp
  have one: "holds_root (protected_roots h d a) t" if "command_reason h a n (protected_roots h d a) cwd vs c = Some t" for cwd vs c
    using that script rm_Some git_clean_Some
    by (auto simp: command_reason_def invocation_reason_def split: if_splits option.splits
        dest!: first_reason_Some target_reason_Some)
  from less.prems show ?case
  proof (induction cs arbitrary: cwd vs)
    case (Cons c cs)
    obtain cwd' vs' where step: "delete_reason h a n (protected_roots h d a) cwd vs (c # cs)
        = (case command_reason h a n (protected_roots h d a) cwd vs c of
             Some t \<Rightarrow> Some t | None \<Rightarrow> delete_reason h a n (protected_roots h d a) cwd' vs' cs)"
      using delete_reason_step by blast
    then show ?case
      using Cons.prems Cons.IH [of cwd' vs'] one [of cwd vs c] by (auto split: option.splits)
  qed simp
qed

section \<open>Deletions in quoted words\<close>

text \<open>On literal words the invoked program does not depend on the directory and the variables.\<close>

definition all_literal :: "shell_word list \<Rightarrow> bool" where
  "all_literal ws \<longleftrightarrow> (\<forall>w\<in>set ws. \<exists>t. w = literal_word t)"

lemma all_literal_sub: "all_literal ws \<Longrightarrow> set vs \<subseteq> set ws \<Longrightarrow> all_literal vs"
  by (auto simp: all_literal_def)

text \<open>The functions that skip words stop or go on some words further.\<close>

definition skips :: "('a list \<Rightarrow> 'a list) \<Rightarrow> 'a \<Rightarrow> 'a list \<Rightarrow> 'a list \<Rightarrow> bool" where
  "skips f w ws r \<longleftrightarrow> r = w # ws \<or> (\<exists>n. r = f (drop n ws))"

lemma skips_rules:
  "skips f w ws (w # ws)" "skips f w ws (f (drop n ws))" "skips f w ws (f ws)"
  "skips f w ws x \<Longrightarrow> skips f w ws y \<Longrightarrow> skips f w ws (if c then x else y)"
  by (auto simp: skips_def intro: exI [of _ 0])

lemma skips_suffix:
  assumes "f [] = []" and "\<And>w ws. skips f w ws (f (w # ws))"
  shows "suffix (f ws) ws"
proof (induction ws rule: length_induct)
  case (1 ws)
  show ?case
  proof (cases ws)
    case (Cons w rest)
    have "suffix (f (drop n rest)) (w # rest)" for n
      using 1 Cons suffix_order.trans [OF _ suffix_drop [of n rest], of "f (drop n rest)"] by (simp add: suffix_ConsI)
    then show ?thesis
      using assms(2) [of w rest] unfolding Cons skips_def by auto
  qed (simp add: assms)
qed

lemma skip_env_suffix: "suffix (skip_env ws) ws"
  by (rule skips_suffix) (simp, simp only: skip_env.simps Let_def, intro skips_rules)

lemma skip_sudo_suffix: "suffix (skip_sudo ws) ws"
  by (rule skips_suffix) (simp, simp only: skip_sudo.simps Let_def, intro skips_rules)

lemma skip_prefixes_suffix: "suffix (skip_prefixes ws) ws"
  by (rule skips_suffix) (simp, simp only: skip_prefixes.simps Let_def, intro skips_rules)

lemma all_literal_suffix: "all_literal ws \<Longrightarrow> suffix vs ws \<Longrightarrow> all_literal vs"
  using all_literal_sub set_mono_suffix by blast

lemma skip_wrappers_literal:
  "all_literal ws \<Longrightarrow> skip_wrappers n h cwd vs ws = skip_wrappers n h cwd' vs' ws
     \<and> (\<forall>name args. skip_wrappers n h cwd vs ws = Some (name, args) \<longrightarrow> all_literal args)"
proof (induction n arbitrary: ws)
  case (Suc n)
  show ?case
  proof (cases ws)
    case (Cons w rest)
    obtain t where w: "w = literal_word t"
      using Suc.prems Cons by (auto simp: all_literal_def)
    have rest: "all_literal rest"
      using Suc.prems Cons by (simp add: all_literal_def)
    note IH = Suc.IH [OF rest] Suc.IH [OF all_literal_suffix [OF rest suffix_dropWhile]]
      Suc.IH [OF all_literal_suffix [OF rest skip_env_suffix]] Suc.IH [OF all_literal_suffix [OF rest skip_sudo_suffix]]
    show ?thesis
      using IH(2) [of is_option] IH(3,4) rest unfolding Cons skip_wrappers.simps w literal_expand Let_def option.case by simp
  qed simp
qed simp

lemma skip_prefixes_literal: "all_literal (skip_prefixes (map literal_word ws))"
  by (rule all_literal_suffix [OF _ skip_prefixes_suffix]) (auto simp: all_literal_def)

lemma invocation_literal:
  "shellInvocation h (map literal_word ws) cwd vs = shellInvocation h (map literal_word ws) cwd' vs'"
  using skip_wrappers_literal [OF skip_prefixes_literal] unfolding shellInvocation_def by blast

text \<open>
  The program a quoted command runs, after \<open>sudo\<close>, \<open>env\<close>, \<open>command\<close>, redirections and assignments, with
  its arguments; and the commands that neither change the directory nor hide another command.
\<close>

definition runs :: "host \<Rightarrow> js_string list \<Rightarrow> (js_string \<times> shell_word list) option" where
  "runs h ws = shellInvocation h (map literal_word ws) [] []"

definition direct :: "host \<Rightarrow> js_string list \<Rightarrow> bool" where
  "direct h ws \<longleftrightarrow> (\<exists>w\<in>set ws. assignmentFromWord (literal_word w) = None)
     \<and> (case runs h ws of None \<Rightarrow> True | Some (name, args) \<Rightarrow> name \<notin> set (lits [''cd'', ''git'', ''find''] @ shells))"

definition removes_root :: "host \<Rightarrow> js_string list \<Rightarrow> js_string \<Rightarrow> js_string list \<Rightarrow> bool" where
  "removes_root h roots cwd ws \<longleftrightarrow>
     (\<exists>args. runs h ws = Some (lit ''rm'', args) \<and> (\<exists>w\<in>set args. is_recursive w)
       \<and> (\<exists>w\<in>set args. \<not> is_option w \<and> shellWordText w \<noteq> [] \<and> holds_root roots (recursiveDeleteBase h (shellWordText w) cwd)))"

lemma runs_args_literal: "runs h ws = Some (name, args) \<Longrightarrow> all_literal args"
  using skip_wrappers_literal [OF skip_prefixes_literal] unfolding runs_def shellInvocation_def by blast

lemma rm_reason_literal:
  assumes "all_literal args"
  shows "rm_reason h (protected_roots h d a) cwd vs args \<noteq> None \<longleftrightarrow> (\<exists>w\<in>set args. is_recursive w)
    \<and> (\<exists>w\<in>set args. \<not> is_option w \<and> shellWordText w \<noteq> [] \<and> holds_root (protected_roots h d a) (recursiveDeleteBase h (shellWordText w) cwd))"
proof -
  have "target_reason h (protected_roots h d a) cwd vs w \<noteq> None
      \<longleftrightarrow> shellWordText w \<noteq> [] \<and> holds_root (protected_roots h d a) (recursiveDeleteBase h (shellWordText w) cwd)"
    if w: "w \<in> set args" for w
  proof -
    obtain t where "w = literal_word t"
      using assms w by (auto simp: all_literal_def)
    then show ?thesis
      using reason_holds_root [OF protected_roots_normal] by (simp add: target_reason_def)
  qed
  moreover have "rm_reason h (protected_roots h d a) cwd vs args \<noteq> None \<longleftrightarrow> (\<exists>w\<in>set args. is_recursive w)
      \<and> (\<exists>w\<in>set args. \<not> is_option w \<and> target_reason h (protected_roots h d a) cwd vs w \<noteq> None)"
    unfolding rm_reason_def by (simp add: first_reason_None list_ex_iff del: not_None_eq) blast
  ultimately show ?thesis
    by blast
qed

lemma literal_command_reason:
  assumes "direct h ws"
  shows "command_reason h a n (protected_roots h d a) cwd vs (literal_command op ws) \<noteq> None
    \<longleftrightarrow> removes_root h (protected_roots h d a) cwd ws"
proof -
  have no: "\<not> all_assignments (literal_command op ws)"
    using assms unfolding direct_def all_assignments_def by (auto simp: literal_command_def simp del: not_None_eq)
  have inv: "shellInvocation h (cmd_words (literal_command op ws)) cwd vs = runs h ws"
    using invocation_literal [of h ws cwd vs "[]" "[]"] by (simp add: literal_command_def runs_def)
  show ?thesis
  proof (cases "runs h ws")
    case None
    then show ?thesis
      using no inv by (simp add: command_reason_def removes_root_def)
  next
    case (Some i)
    obtain name args where i: "runs h ws = Some (name, args)"
      using Some by (cases i) auto
    have "name \<notin> set (lits [''cd'', ''git'', ''find''] @ shells)"
      using assms i by (simp add: direct_def)
    then have "command_reason h a n (protected_roots h d a) cwd vs (literal_command op ws)
        = (if name = lit ''rm'' then rm_reason h (protected_roots h d a) cwd vs args else None)"
      using no inv i by (auto simp: command_reason_def invocation_reason_def)
    then show ?thesis
      using i rm_reason_literal [OF runs_args_literal [OF i], of h d a cwd vs] by (auto simp: removes_root_def)
  qed
qed

lemma delete_reason_direct:
  assumes "\<not> all_assignments c" and "\<And>args. shellInvocation h (cmd_words c) cwd vs \<noteq> Some (lit ''cd'', args)"
  shows "delete_reason h a n roots cwd vs (c # cs)
     = (case command_reason h a n roots cwd vs c of Some t \<Rightarrow> Some t | None \<Rightarrow> delete_reason h a n roots cwd vs cs)"
proof -
  have no: "\<not> list_all (\<lambda>a. a \<noteq> None) (map assignmentFromWord (cmd_words c))"
    using assms(1) by (auto simp: all_assignments_def list_all_iff)
  show ?thesis
  proof (cases "shellInvocation h (cmd_words c) cwd vs")
    case None
    then show ?thesis
      using assms(1) no unfolding delete_reason.simps(2) command_reason_def by auto
  next
    case (Some i)
    then obtain name args where i: "shellInvocation h (cmd_words c) cwd vs = Some (name, args)"
      by (cases i) auto
    moreover from this assms(2) have "name \<noteq> lit ''cd''"
      by blast
    ultimately show ?thesis
      using assms(1) no unfolding delete_reason.simps(2) command_reason_def invocation_reason_def by (auto simp: Let_def)
  qed
qed

lemma literal_line_denied:
  assumes "\<forall>ws\<in>set cmds. direct h ws"
  shows "delete_reason h a n (protected_roots h d a) cwd vs (map (\<lambda>(op, ws). literal_command op ws) (zip ops cmds)) \<noteq> None
    \<longleftrightarrow> (\<exists>ws\<in>set (map snd (zip ops cmds)). removes_root h (protected_roots h d a) cwd ws)"
  using assms
proof (induction cmds arbitrary: ops)
  case (Cons ws cmds)
  show ?case
  proof (cases ops)
    case ops: (Cons op ops')
    have d: "direct h ws"
      using Cons.prems by simp
    have "\<not> all_assignments (literal_command op ws)"
      using d unfolding direct_def all_assignments_def by (auto simp: literal_command_def simp del: not_None_eq)
    moreover have "shellInvocation h (cmd_words (literal_command op ws)) cwd vs \<noteq> Some (lit ''cd'', args)" for args
      using d invocation_literal [of h ws cwd vs "[]" "[]"] by (auto simp: literal_command_def direct_def runs_def)
    ultimately show ?thesis
      using delete_reason_direct [of "literal_command op ws"] literal_command_reason [OF d, of a n d cwd vs op] Cons.IH [of ops'] Cons.prems
      by (auto simp: ops split: option.splits)
  qed simp
qed simp

lemma literal_commands_zip:
  "literal_commands op cmds = map (\<lambda>(op, ws). literal_command op ws) (zip (op # replicate (length cmds - 1) (Some [semicolon])) cmds)"
proof (cases cmds)
  case (Cons c cs)
  have "map (literal_command x) cs = map (\<lambda>(op, ws). literal_command op ws) (zip (replicate (length cs) x) cs)" for x
    by (induction cs) simp_all
  then show ?thesis
    using Cons by (simp add: literal_commands_def)
qed (simp add: literal_commands_def)

lemma quote_line_denied:
  assumes "\<forall>ws\<in>set cmds. direct h ws" and "list_all isAbsolute a"
  shows "findCatastrophicDelete h (quote_line cmds) cwd a \<noteq> None \<longleftrightarrow> (\<exists>ws\<in>set cmds. removes_root h (protected_roots h d a) cwd ws)"
proof -
  have "\<forall>ws\<in>set cmds. ws \<noteq> []"
    using assms(1) by (auto simp: direct_def)
  moreover have "map snd (zip (op # replicate (length cmds - 1) x) cmds) = cmds" for op and x :: "js_string option"
    by (cases cmds) simp_all
  ultimately show ?thesis
    using literal_line_denied [OF assms(1), of a 0 cwd cwd "initial_variables h cwd" "None # replicate (length cmds - 1) (Some [semicolon])"]
      protected_roots_absolute [OF assms(2), of h cwd d]
    by (simp only: findCatastrophicDelete_def parse_quote_line literal_commands_zip)
qed

section \<open>The guarantees\<close>

definition request_roots :: "host \<Rightarrow> permission_request \<Rightarrow> js_string list" where
  "request_roots h request = protected_roots h (pr_cwd request)
     (map (\<lambda>root. canonicalizeProspectivePath h root (pr_cwd request)) (pr_cwd request # pr_protectedRoots request))"

lemma canonical_isAbsolute [simp]: "isAbsolute (canonicalizeProspectivePath h p cwd)"
  using canonical_normal [of h p cwd] by auto

lemma request_roots_absolute:
  "list_all isAbsolute (map (\<lambda>root. canonicalizeProspectivePath h root cwd) roots)"
  by (simp add: list_all_iff)

text \<open>C30: Quoted words survive the shell reader. A command line of single-quoted words, whatever characters they
  hold, is read as exactly these commands with exactly these words, and no part of a word is subject to
  expansion.\<close>

theorem quoted_words_survive:
  assumes "\<forall>ws\<in>set cmds. ws \<noteq> []"
  shows "map (\<lambda>c. map shellWordText (cmd_words c)) (parseShellCommands (quote_line cmds)) = cmds
    \<and> (\<forall>c\<in>set (parseShellCommands (quote_line cmds)). \<forall>w\<in>set (cmd_words c). \<forall>h cwd vs. expandShellWord h w cwd vs = Some (shellWordText w))"
  unfolding parse_quote_line [OF assms]
  by (cases cmds) (auto simp: literal_commands_def literal_command_def comp_def)

theorem quoted_words_survive_witness:
  "map (\<lambda>c. map shellWordText (cmd_words c)) (parseShellCommands (quote_line [[lit ''echo'', lit ''a;b $HOME''], [lit ''ls'']]))
    = [[lit ''echo'', lit ''a;b $HOME''], [lit ''ls'']]"
  using quoted_words_survive [of "[[lit ''echo'', lit ''a;b $HOME''], [lit ''ls'']]"] by simp

text \<open>A denial is justified. Whatever the command line and the host, when a tool call is denied it is a shell
  command, and the reason names a directory that is the root, the home directory, the working directory or one of
  the protected roots, or that contains one of them.\<close>

theorem denial_justified:
  assumes "decidePermission h request = Deny t"
  shows "pr_toolName request = lit ''bash'' \<and> (\<exists>root\<in>set (request_roots h request). prefix (components t) (components root))"
proof -
  let ?a = "map (\<lambda>root. canonicalizeProspectivePath h root (pr_cwd request)) (pr_cwd request # pr_protectedRoots request)"
  obtain cwd where bash: "pr_toolName request = lit ''bash''"
    and denied: "findCatastrophicDelete h (case pr_command request of Some c \<Rightarrow> c | None \<Rightarrow> []) cwd ?a = Some t"
    using assms unfolding decidePermission_def Let_def by (auto split: if_splits option.splits)
  have "protected_roots h cwd ?a = request_roots h request"
    unfolding request_roots_def by (rule protected_roots_absolute [OF request_roots_absolute])
  then have "holds_root (request_roots h request) t"
    using denied delete_reason_holds_root [OF request_roots_absolute] unfolding findCatastrophicDelete_def by metis
  then show ?thesis
    using bash by (simp add: holds_root_def)
qed

definition sample_host :: host where
  "sample_host = \<lparr>h_cwd = lit ''/'', h_homedir = lit ''/h'', h_existsSync = (\<lambda>p. True), h_realpathSync = (\<lambda>p. p),
     h_fileURLToPath = (\<lambda>u. None)\<rparr>"

definition sample_request :: permission_request where
  "sample_request = \<lparr>pr_toolName = lit ''bash'', pr_command = Some (quote_line [[lit ''rm'', lit ''-rf'', lit ''/'']]),
     pr_inputCwd = None, pr_cwd = lit ''/w'', pr_protectedRoots = []\<rparr>"

theorem denial_justified_witness:
  "decidePermission sample_host sample_request = Deny (lit ''/'')
    \<and> (\<exists>root\<in>set (request_roots sample_host sample_request). prefix (components (lit ''/'')) (components root))"
proof -
  have "decidePermission sample_host sample_request = Deny (lit ''/'')"
    by code_simp
  then show ?thesis
    using denial_justified by blast
qed



end
