(* ===== verification/Compaction.thy ===== *)
theory Compaction
  imports SessionContext JsonText JsText "HOL-Library.List_Lexorder"
begin

text \<open>
  Compaction of a session (\<open>packages/agent/src/harness/compaction/compaction.ts\<close> and
  \<open>compaction/utils.ts\<close>): the estimate of a context's size, the choice of the cut point, the preparation
  of the messages to summarize and to retain, and the summary with its file lists. The call of the model is
  an argument. Texts are UTF-8, their length is counted in UTF-16 code units as the source does; the
  sizes in settings are integers.
\<close>

section \<open>Texts in code units\<close>

definition units_of :: "string \<Rightarrow> js_string" where
  "units_of s = (case text_decode (map (\<lambda>c. of_nat (of_char c)) s) of Some u \<Rightarrow> u | None \<Rightarrow> ascii_text s)"

definition text_of :: "js_string \<Rightarrow> string" where
  "text_of u = map (\<lambda>b. char_of (unat b)) (text_encode u)"

definition text_length :: "string \<Rightarrow> nat" where
  "text_length s = length (units_of s)"

text \<open>The order of \<open>sort\<close>: by code units.\<close>

definition sort_texts :: "string list \<Rightarrow> string list" where
  "sort_texts xs = sort_key (\<lambda>s. map unat (units_of s)) xs"

definition contentText :: "user_content \<Rightarrow> string \<Rightarrow> string" where
  "contentText c separator =
     (case c of
        ContentText s \<Rightarrow> s
      | ContentBlocks bs \<Rightarrow> join_with separator (List.map_filter (\<lambda>b. case b of TextBlock t e \<Rightarrow> Some t | _ \<Rightarrow> None) bs))"

section \<open>File operations\<close>

record file_operations =
  fo_read :: "string list"
  fo_written :: "string list"
  fo_edited :: "string list"

definition createFileOps :: file_operations where
  "createFileOps = \<lparr>fo_read = [], fo_written = [], fo_edited = []\<rparr>"

definition set_add :: "'a \<Rightarrow> 'a list \<Rightarrow> 'a list" where
  "set_add x xs = (if x \<in> set xs then xs else xs @ [x])"

definition file_op :: "file_operations \<Rightarrow> tool_call \<Rightarrow> file_operations" where
  "file_op ops c =
     (case map_of (tc_arguments c) ''path'' of
        Some (JString path) \<Rightarrow>
          (if path = '''' then ops
           else if tc_name c = ''read'' then ops\<lparr>fo_read := set_add path (fo_read ops)\<rparr>
           else if tc_name c = ''write'' then ops\<lparr>fo_written := set_add path (fo_written ops)\<rparr>
           else if tc_name c = ''edit'' then ops\<lparr>fo_edited := set_add path (fo_edited ops)\<rparr>
           else ops)
      | _ \<Rightarrow> ops)"

fun extractFileOpsFromMessage :: "agent_message \<Rightarrow> file_operations \<Rightarrow> file_operations" where
  "extractFileOpsFromMessage (AssistantMessage m) ops =
     foldl (\<lambda>ops b. case b of ToolCallBlock c \<Rightarrow> file_op ops c | _ \<Rightarrow> ops) ops (am_content m)"
| "extractFileOpsFromMessage m ops = ops"

definition computeFileLists :: "file_operations \<Rightarrow> string list \<times> string list" where
  "computeFileLists ops =
     (let modified = foldl (\<lambda>xs x. set_add x xs) [] (fo_edited ops @ fo_written ops)
      in (sort_texts (filter (\<lambda>f. f \<notin> set modified) (fo_read ops)), sort_texts modified))"

definition formatFileOperations :: "string list \<Rightarrow> string list \<Rightarrow> string" where
  "formatFileOperations readFiles modifiedFiles =
     (let sections =
        (if readFiles = [] then [] else [''<read-files>'' @ line_break @ join_with line_break readFiles @ line_break @ ''</read-files>''])
        @ (if modifiedFiles = [] then []
           else [''<modified-files>'' @ line_break @ join_with line_break modifiedFiles @ line_break @ ''</modified-files>''])
      in if sections = [] then '''' else line_break @ line_break @ join_with (line_break @ line_break) sections)"

section \<open>The conversation as text\<close>

definition TOOL_RESULT_MAX_CHARS :: nat where
  "TOOL_RESULT_MAX_CHARS = 2000"

definition truncateForSummary :: "string \<Rightarrow> nat \<Rightarrow> string" where
  "truncateForSummary t maxChars =
     (if text_length t \<le> maxChars then t
      else text_of (take maxChars (units_of t)) @ line_break @ line_break @ ''[... '' @ nat_text (text_length t - maxChars)
        @ '' more characters truncated]'')"

definition call_text :: "(64 word \<Rightarrow> string) \<Rightarrow> tool_call \<Rightarrow> string" where
  "call_text ft c = tc_name c @ ''('' @ join_with '', '' (map (\<lambda>(k, v). k @ ''='' @ stringify ft v) (tc_arguments c)) @ '')''"

fun message_parts :: "(64 word \<Rightarrow> string) \<Rightarrow> agent_message \<Rightarrow> string list" where
  "message_parts ft (UserMessage c t e) = (let content = contentText c '''' in if content = '''' then [] else [''[User]: '' @ content])"
| "message_parts ft (AssistantMessage m) =
     (let thinkingParts = List.map_filter (\<lambda>b. case b of ThinkingBlock t e \<Rightarrow> Some t | _ \<Rightarrow> None) (am_content m);
          toolCalls = List.map_filter (\<lambda>b. case b of ToolCallBlock c \<Rightarrow> Some (call_text ft c) | _ \<Rightarrow> None) (am_content m)
      in (if thinkingParts = [] then [] else [''[Assistant thinking]: '' @ join_with line_break thinkingParts])
         @ (if list_ex (\<lambda>b. case b of TextBlock t e \<Rightarrow> True | _ \<Rightarrow> False) (am_content m)
            then [''[Assistant]: '' @ contentText (ContentBlocks (am_content m)) line_break] else [])
         @ (if toolCalls = [] then [] else [''[Assistant tool calls]: '' @ join_with ''; '' toolCalls]))"
| "message_parts ft (ToolResultMessage m) =
     (let content = contentText (ContentBlocks (tr_content m)) ''''
      in if content = '''' then [] else [''[Tool result]: '' @ truncateForSummary content TOOL_RESULT_MAX_CHARS])"
| "message_parts ft m = []"

definition serializeConversation :: "(64 word \<Rightarrow> string) \<Rightarrow> agent_message list \<Rightarrow> string" where
  "serializeConversation ft messages = join_with (line_break @ line_break) (concat (map (message_parts ft) messages))"

section \<open>Sizes\<close>

definition num_truthy :: "js_number \<Rightarrow> bool" where
  "num_truthy n \<longleftrightarrow> \<not> num_is_zero n \<and> \<not> num_is_nan n"

definition num_positive :: "js_number \<Rightarrow> bool" where
  "num_positive n \<longleftrightarrow> \<not> num_is_nan n \<and> 0 < num_units n"

definition calculateContextTokens :: "usage \<Rightarrow> js_number" where
  "calculateContextTokens u =
     (if num_truthy (u_totalTokens u) then u_totalTokens u
      else num_add (num_add (num_add (u_input u) (u_output u)) (u_cacheRead u)) (u_cacheWrite u))"

fun getAssistantUsage :: "agent_message \<Rightarrow> usage option" where
  "getAssistantUsage (AssistantMessage m) =
     (if am_stopReason m \<noteq> SR_aborted \<and> am_stopReason m \<noteq> SR_error \<and> num_positive (calculateContextTokens (am_usage m))
      then Some (am_usage m) else None)"
| "getAssistantUsage m = None"

fun entry_usage :: "entry_body \<Rightarrow> usage option" where
  "entry_usage (MessageEntry m t) = getAssistantUsage m"
| "entry_usage b = None"

fun first_some :: "('a \<Rightarrow> 'b option) \<Rightarrow> 'a list \<Rightarrow> 'b option" where
  "first_some f [] = None"
| "first_some f (x # xs) = (case f x of Some y \<Rightarrow> Some y | None \<Rightarrow> first_some f xs)"

definition getLastAssistantUsage :: "entry list \<Rightarrow> usage option" where
  "getLastAssistantUsage entries = first_some (\<lambda>e. entry_usage (e_body e)) (rev entries)"

definition getLastAssistantUsageInfo :: "agent_message list \<Rightarrow> (usage \<times> nat) option" where
  "getLastAssistantUsageInfo messages =
     first_some (\<lambda>(i, m). map_option (\<lambda>u. (u, i)) (getAssistantUsage m)) (rev (enumerate 0 messages))"

definition ESTIMATED_IMAGE_CHARS :: nat where
  "ESTIMATED_IMAGE_CHARS = 4800"

fun block_chars :: "content_block \<Rightarrow> nat" where
  "block_chars (TextBlock t e) = text_length t"
| "block_chars (ImageBlock d m e) = ESTIMATED_IMAGE_CHARS"
| "block_chars b = 0"

fun estimateTextAndImageContentChars :: "user_content \<Rightarrow> nat" where
  "estimateTextAndImageContentChars (ContentText s) = text_length s"
| "estimateTextAndImageContentChars (ContentBlocks bs) = sum_list (map block_chars bs)"

fun assistant_chars :: "(64 word \<Rightarrow> string) \<Rightarrow> content_block \<Rightarrow> nat" where
  "assistant_chars ft (TextBlock t e) = text_length t"
| "assistant_chars ft (ThinkingBlock t e) = text_length t"
| "assistant_chars ft (ToolCallBlock c) = text_length (tc_name c) + text_length (stringify ft (JObject (tc_arguments c)))"
| "assistant_chars ft (ImageBlock d m e) = 0"

text \<open>\<open>Math.ceil(chars / 4)\<close>.\<close>

definition tokens_of_chars :: "nat \<Rightarrow> nat" where
  "tokens_of_chars n = (n + 3) div 4"

fun estimateTokens :: "(64 word \<Rightarrow> string) \<Rightarrow> agent_message \<Rightarrow> nat" where
  "estimateTokens ft (UserMessage c t e) = tokens_of_chars (estimateTextAndImageContentChars c)"
| "estimateTokens ft (AssistantMessage m) = tokens_of_chars (sum_list (map (assistant_chars ft) (am_content m)))"
| "estimateTokens ft (CustomMessage ty c d t e) = tokens_of_chars (estimateTextAndImageContentChars c)"
| "estimateTokens ft (ToolResultMessage m) = tokens_of_chars (estimateTextAndImageContentChars (ContentBlocks (tr_content m)))"
| "estimateTokens ft (BashExecutionMessage m) = tokens_of_chars (text_length (be_command m) + text_length (be_output m))"
| "estimateTokens ft (BranchSummaryMessage s f t e) = tokens_of_chars (text_length s)"
| "estimateTokens ft (CompactionSummaryMessage s n t e) = tokens_of_chars (text_length s)"
| "estimateTokens ft (ApplicationMessage r e) = 0"

record context_usage_estimate =
  cu_tokens :: js_number
  cu_usageTokens :: js_number
  cu_trailingTokens :: nat
  cu_lastUsageIndex :: "nat option"

definition estimateContextTokens :: "(64 word \<Rightarrow> string) \<Rightarrow> agent_message list \<Rightarrow> context_usage_estimate" where
  "estimateContextTokens ft messages =
     (case getLastAssistantUsageInfo messages of
        None \<Rightarrow>
          (let estimated = sum_list (map (estimateTokens ft) messages)
           in \<lparr>cu_tokens = JInt (int estimated), cu_usageTokens = JInt 0, cu_trailingTokens = estimated, cu_lastUsageIndex = None\<rparr>)
      | Some (u, index) \<Rightarrow>
          (let trailing = sum_list (map (estimateTokens ft) (drop (index + 1) messages))
           in \<lparr>cu_tokens = num_add (calculateContextTokens u) (JInt (int trailing)), cu_usageTokens = calculateContextTokens u,
               cu_trailingTokens = trailing, cu_lastUsageIndex = Some index\<rparr>))"

record compaction_settings =
  st_enabled :: bool
  st_reserveTokens :: int
  st_keepRecentTokens :: int

definition DEFAULT_COMPACTION_SETTINGS :: compaction_settings where
  "DEFAULT_COMPACTION_SETTINGS = \<lparr>st_enabled = True, st_reserveTokens = 16384, st_keepRecentTokens = 20000\<rparr>"

definition shouldCompact :: "int \<Rightarrow> int \<Rightarrow> compaction_settings \<Rightarrow> bool" where
  "shouldCompact contextTokens contextWindow settings \<longleftrightarrow>
     st_enabled settings \<and> contextTokens > contextWindow - st_reserveTokens settings"

section \<open>The cut point\<close>

text \<open>
  The code works on entries, of which it reads the type, the payload and the timestamp; the entries it makes up for
  the retained messages of an earlier compaction have the timestamp of their message.
\<close>

type_synonym item = "entry_body \<times> js_number"

definition item_of :: "entry \<Rightarrow> item" where
  "item_of e = (e_body e, JInt (int (e_timestamp e)))"

definition cut_roles :: "string list" where
  "cut_roles = [''bashExecution'', ''custom'', ''branchSummary'', ''compactionSummary'', ''user'', ''assistant'']"

fun valid_cut :: "entry_body \<Rightarrow> bool" where
  "valid_cut (MessageEntry m t) \<longleftrightarrow> message_role m \<in> set cut_roles"
| "valid_cut (BranchSummaryEntry f s u) \<longleftrightarrow> True"
| "valid_cut b \<longleftrightarrow> False"

definition findValidCutPoints :: "item list \<Rightarrow> nat \<Rightarrow> nat \<Rightarrow> nat list" where
  "findValidCutPoints entries startIndex endIndex = filter (\<lambda>i. valid_cut (fst (entries ! i))) [startIndex..<endIndex]"

fun starts_turn :: "entry_body \<Rightarrow> bool" where
  "starts_turn (BranchSummaryEntry f s u) \<longleftrightarrow> True"
| "starts_turn (MessageEntry m t) \<longleftrightarrow> message_role m = ''user'' \<or> message_role m = ''bashExecution''"
| "starts_turn b \<longleftrightarrow> False"

text \<open>\<open>None\<close> is the result \<open>-1\<close>.\<close>

definition findTurnStartIndex :: "item list \<Rightarrow> nat \<Rightarrow> nat \<Rightarrow> nat option" where
  "findTurnStartIndex entries entryIndex startIndex =
     List.find (\<lambda>i. starts_turn (fst (entries ! i))) (rev [startIndex..<entryIndex + 1])"

record cut_point_result =
  cut_firstKeptEntryIndex :: nat
  cut_turnStartIndex :: "nat option"
  cut_isSplitTurn :: bool

fun message_of_body :: "entry_body \<Rightarrow> agent_message option" where
  "message_of_body (MessageEntry m t) = Some m"
| "message_of_body b = None"

text \<open>The loop over the indices from the end: the first one at which the budget is reached.\<close>

fun budget_index :: "(64 word \<Rightarrow> string) \<Rightarrow> item list \<Rightarrow> int \<Rightarrow> nat \<Rightarrow> nat list \<Rightarrow> nat option" where
  "budget_index ft entries keep accumulated [] = None"
| "budget_index ft entries keep accumulated (i # is) =
     (case message_of_body (fst (entries ! i)) of
        None \<Rightarrow> budget_index ft entries keep accumulated is
      | Some m \<Rightarrow>
          (let accumulated = accumulated + estimateTokens ft m
           in if int accumulated \<ge> keep then Some i else budget_index ft entries keep accumulated is))"

text \<open>The loop that moves the cut before entries that are not messages.\<close>

fun include_settings :: "item list \<Rightarrow> nat \<Rightarrow> nat \<Rightarrow> nat" where
  "include_settings entries startIndex cutIndex =
     (if cutIndex > startIndex \<and> entry_type (fst (entries ! (cutIndex - 1))) \<notin> {''compaction'', ''message''}
      then include_settings entries startIndex (cutIndex - 1) else cutIndex)"

declare include_settings.simps [simp del]

fun is_user_message :: "entry_body \<Rightarrow> bool" where
  "is_user_message (MessageEntry m t) \<longleftrightarrow> message_role m = ''user''"
| "is_user_message b \<longleftrightarrow> False"

definition findCutPoint :: "(64 word \<Rightarrow> string) \<Rightarrow> item list \<Rightarrow> nat \<Rightarrow> nat \<Rightarrow> int \<Rightarrow> cut_point_result" where
  "findCutPoint ft entries startIndex endIndex keepRecentTokens =
     (let cutPoints = findValidCutPoints entries startIndex endIndex
      in if cutPoints = [] then \<lparr>cut_firstKeptEntryIndex = startIndex, cut_turnStartIndex = None, cut_isSplitTurn = False\<rparr>
         else
           let chosen = (case budget_index ft entries keepRecentTokens 0 (rev [startIndex..<endIndex]) of
                           None \<Rightarrow> hd cutPoints
                         | Some i \<Rightarrow> (case List.find (\<lambda>c. c \<ge> i) cutPoints of Some c \<Rightarrow> c | None \<Rightarrow> hd cutPoints));
               cutIndex = include_settings entries startIndex chosen;
               isUserMessage = is_user_message (fst (entries ! cutIndex));
               turnStartIndex = (if isUserMessage then None else findTurnStartIndex entries cutIndex startIndex)
           in \<lparr>cut_firstKeptEntryIndex = cutIndex, cut_turnStartIndex = turnStartIndex,
               cut_isSplitTurn = (\<not> isUserMessage \<and> turnStartIndex \<noteq> None)\<rparr>)"

section \<open>The preparation\<close>

fun getMessageFromEntry :: "item \<Rightarrow> agent_message option" where
  "getMessageFromEntry (MessageEntry m t, ts) = Some m"
| "getMessageFromEntry (BranchSummaryEntry fromId summary u, ts) = Some (createBranchSummaryMessage summary fromId ts)"
| "getMessageFromEntry (CompactionEntry summary tail tokens u, ts) = Some (createCompactionSummaryMessage summary tokens ts)"
| "getMessageFromEntry (b, ts) = None"

definition getMessageFromEntryForCompaction :: "item \<Rightarrow> agent_message option" where
  "getMessageFromEntryForCompaction i = (if entry_type (fst i) = ''compaction'' then None else getMessageFromEntry i)"

fun message_timestamp :: "agent_message \<Rightarrow> js_number" where
  "message_timestamp (UserMessage c t e) = t"
| "message_timestamp (AssistantMessage m) = am_timestamp m"
| "message_timestamp (ToolResultMessage m) = tr_timestamp m"
| "message_timestamp (BashExecutionMessage m) = be_timestamp m"
| "message_timestamp (CustomMessage ty c d t e) = t"
| "message_timestamp (BranchSummaryMessage s f t e) = t"
| "message_timestamp (CompactionSummaryMessage s n t e) = t"
| "message_timestamp (ApplicationMessage r e) = (case map_of e ''timestamp'' of Some (JNumber n) \<Rightarrow> n | _ \<Rightarrow> JInt 0)"

definition retained_item :: "agent_message \<Rightarrow> item" where
  "retained_item m = (MessageEntry m False, message_timestamp m)"

text \<open>The file lists in the details of a generated entry.\<close>

definition detail_files :: "entry \<Rightarrow> string \<Rightarrow> string list" where
  "detail_files e key =
     (case map_of (e_extra e) ''details'' of
        Some (JObject details) \<Rightarrow>
          (case map_of details key of
             Some (JArray vs) \<Rightarrow> List.map_filter (\<lambda>v. case v of JString s \<Rightarrow> Some s | _ \<Rightarrow> None) vs
           | _ \<Rightarrow> [])
      | _ \<Rightarrow> [])"

definition add_details :: "entry \<Rightarrow> file_operations \<Rightarrow> file_operations" where
  "add_details e ops =
     ops\<lparr>fo_read := foldl (\<lambda>xs x. set_add x xs) (fo_read ops) (detail_files e ''readFiles''),
         fo_edited := foldl (\<lambda>xs x. set_add x xs) (fo_edited ops) (detail_files e ''modifiedFiles'')\<rparr>"

definition extractFileOperations :: "agent_message list \<Rightarrow> entry list \<Rightarrow> nat option \<Rightarrow> file_operations" where
  "extractFileOperations messages entries prevCompactionIndex =
     foldl (\<lambda>ops m. extractFileOpsFromMessage m ops)
       (case prevCompactionIndex of None \<Rightarrow> createFileOps | Some i \<Rightarrow> add_details (entries ! i) createFileOps) messages"

record compaction_preparation =
  pp_messagesToSummarize :: "agent_message list"
  pp_turnPrefixMessages :: "agent_message list"
  pp_retainedTail :: "agent_message list"
  pp_isSplitTurn :: bool
  pp_tokensBefore :: js_number
  pp_previousSummary :: "string option"
  pp_fileOps :: file_operations
  pp_settings :: compaction_settings

definition compactable_items :: "entry list \<Rightarrow> item list" where
  "compactable_items pathEntries =
     (case last_compaction pathEntries (length pathEntries) of
        None \<Rightarrow> map item_of pathEntries
      | Some i \<Rightarrow>
          (case e_body (pathEntries ! i) of CompactionEntry s tail n u \<Rightarrow> map retained_item tail | _ \<Rightarrow> [])
          @ map item_of (drop (i + 1) pathEntries))"

definition messages_between :: "item list \<Rightarrow> nat \<Rightarrow> nat \<Rightarrow> agent_message list" where
  "messages_between items a b = List.map_filter (\<lambda>i. getMessageFromEntryForCompaction (items ! i)) [a..<b]"

definition prepareCompaction :: "(64 word \<Rightarrow> string) \<Rightarrow> entry list \<Rightarrow> compaction_settings \<Rightarrow> compaction_preparation option" where
  "prepareCompaction ft pathEntries settings =
     (if pathEntries = [] \<or> is_compaction (last pathEntries) then None
      else
        let prevCompactionIndex = last_compaction pathEntries (length pathEntries);
            items = compactable_items pathEntries;
            boundaryEnd = length items;
            tokensBefore = cu_tokens (estimateContextTokens ft (sc_messages (buildSessionContext pathEntries no_options)));
            cutPoint = findCutPoint ft items 0 boundaryEnd (st_keepRecentTokens settings);
            firstKept = cut_firstKeptEntryIndex cutPoint;
            turnStart = (case cut_turnStartIndex cutPoint of Some t \<Rightarrow> t | None \<Rightarrow> firstKept);
            historyEnd = (if cut_isSplitTurn cutPoint then turnStart else firstKept);
            messagesToSummarize = messages_between items 0 historyEnd;
            turnPrefixMessages = (if cut_isSplitTurn cutPoint then messages_between items turnStart firstKept else []);
            retainedTail = messages_between items firstKept boundaryEnd;
            fileOps = extractFileOperations messagesToSummarize pathEntries prevCompactionIndex
        in Some \<lparr>pp_messagesToSummarize = messagesToSummarize, pp_turnPrefixMessages = turnPrefixMessages, pp_retainedTail = retainedTail,
            pp_isSplitTurn = cut_isSplitTurn cutPoint, pp_tokensBefore = tokensBefore,
            pp_previousSummary = (case prevCompactionIndex of
                None \<Rightarrow> None
              | Some i \<Rightarrow> (case e_body (pathEntries ! i) of CompactionEntry s tail n u \<Rightarrow> Some s | _ \<Rightarrow> None)),
            pp_fileOps = (if cut_isSplitTurn cutPoint then foldl (\<lambda>ops m. extractFileOpsFromMessage m ops) fileOps turnPrefixMessages else fileOps),
            pp_settings = settings\<rparr>)"

section \<open>The summary\<close>

definition prompt_lines :: "string list \<Rightarrow> string" where
  "prompt_lines ls = join_with line_break ls"

definition SUMMARIZATION_SYSTEM_PROMPT :: string where
  "SUMMARIZATION_SYSTEM_PROMPT = prompt_lines
     [''You are a context summarization assistant. Your task is to read a conversation between a user and an AI assistant, then produce a structured summary following the exact format specified.'',
      '''',
      ''Do NOT continue the conversation. Do NOT respond to any questions in the conversation. ONLY output the structured summary.'']"

definition SUMMARIZATION_PROMPT :: string where
  "SUMMARIZATION_PROMPT = prompt_lines
     [''The messages above are a conversation to summarize. Create a structured context checkpoint summary that another LLM will use to continue the work.'',
      '''',
      ''Use this EXACT format:'',
      '''',
      ''## Goal'',
      ''[What is the user trying to accomplish? Can be multiple items if the session covers different tasks.]'',
      '''',
      ''## Constraints & Preferences'',
      ''- [Any constraints, preferences, or requirements mentioned by user]'',
      ''- [Or \"(none)\" if none were mentioned]'',
      '''',
      ''## Progress'',
      ''### Done'',
      ''- [x] [Completed tasks/changes]'',
      '''',
      ''### In Progress'',
      ''- [ ] [Current work]'',
      '''',
      ''### Blocked'',
      ''- [Issues preventing progress, if any]'',
      '''',
      ''## Key Decisions'',
      ''- **[Decision]**: [Brief rationale]'',
      '''',
      ''## Next Steps'',
      ''1. [Ordered list of what should happen next]'',
      '''',
      ''## Critical Context'',
      ''- [Any data, examples, or references needed to continue]'',
      ''- [Or \"(none)\" if not applicable]'',
      '''',
      ''Keep each section concise. Preserve exact file paths, function names, and error messages.'']"

definition UPDATE_SUMMARIZATION_PROMPT :: string where
  "UPDATE_SUMMARIZATION_PROMPT = prompt_lines
     [''The messages above are NEW conversation messages to incorporate into the existing summary provided in <previous-summary> tags.'',
      '''',
      ''Update the existing structured summary with new information. RULES:'',
      ''- PRESERVE all existing information from the previous summary'',
      ''- ADD new progress, decisions, and context from the new messages'',
      ''- UPDATE the Progress section: move items from \"In Progress\" to \"Done\" when completed'',
      ''- UPDATE \"Next Steps\" based on what was accomplished'',
      ''- PRESERVE exact file paths, function names, and error messages'',
      ''- If something is no longer relevant, you may remove it'',
      '''',
      ''Use this EXACT format:'',
      '''',
      ''## Goal'',
      ''[Preserve existing goals, add new ones if the task expanded]'',
      '''',
      ''## Constraints & Preferences'',
      ''- [Preserve existing, add new ones discovered]'',
      '''',
      ''## Progress'',
      ''### Done'',
      ''- [x] [Include previously done items AND newly completed items]'',
      '''',
      ''### In Progress'',
      ''- [ ] [Current work - update based on progress]'',
      '''',
      ''### Blocked'',
      ''- [Current blockers - remove if resolved]'',
      '''',
      ''## Key Decisions'',
      ''- **[Decision]**: [Brief rationale] (preserve all previous, add new)'',
      '''',
      ''## Next Steps'',
      ''1. [Update based on current state]'',
      '''',
      ''## Critical Context'',
      ''- [Preserve important context, add new if needed]'',
      '''',
      ''Keep each section concise. Preserve exact file paths, function names, and error messages.'']"

definition TURN_PREFIX_SUMMARIZATION_PROMPT :: string where
  "TURN_PREFIX_SUMMARIZATION_PROMPT = prompt_lines
     [''This is the PREFIX of a turn that was too large to keep. The SUFFIX (recent work) is retained.'',
      '''',
      ''Summarize the prefix to provide context for the retained suffix:'',
      '''',
      ''## Original Request'',
      ''[What did the user ask for in this turn?]'',
      '''',
      ''## Early Progress'',
      ''- [Key decisions and work done in the prefix]'',
      '''',
      ''## Context for Suffix'',
      ''- [Information needed to understand the retained recent work]'',
      '''',
      ''Be concise. Focus on what's needed to understand the kept suffix.'']"

text \<open>What the code reads of a model, the request it makes and the errors it returns; \<open>complete\<close> is the call of the model with its retries.\<close>

record summary_model =
  md_maxTokens :: int
  md_contextWindow :: int
  md_reasoning :: bool

record summary_request =
  sq_systemPrompt :: string
  sq_prompt :: string
  sq_maxTokens :: int
  sq_reasoning :: "string option"

datatype summary_error = SummaryAborted string | SummaryFailed string

definition present :: "string option \<Rightarrow> string option" where
  "present x = (case x of Some s \<Rightarrow> (if s = '''' then None else Some s) | None \<Rightarrow> None)"

definition error_text :: "assistant_message \<Rightarrow> string \<Rightarrow> string" where
  "error_text response fallback =
     (let t = string_property (am_extra response) ''errorMessage'' in if t = '''' then fallback else t)"

definition response_result :: "string \<Rightarrow> string \<Rightarrow> assistant_message \<Rightarrow> summary_error + string \<times> usage" where
  "response_result aborted_text failed_prefix response =
     (if am_stopReason response = SR_aborted then Err (SummaryAborted (error_text response aborted_text))
      else if am_stopReason response = SR_error then Err (SummaryFailed (failed_prefix @ error_text response ''Unknown error''))
      else Ok (contentText (ContentBlocks (am_content response)) line_break, am_usage response))"

text \<open>\<open>Math.floor(f * reserveTokens)\<close> for the factors 0.8 and 0.5, bounded by the limit of the model.\<close>

definition max_tokens :: "int \<Rightarrow> summary_model \<Rightarrow> int" where
  "max_tokens n model = (if md_maxTokens model > 0 then min n (md_maxTokens model) else n)"

definition reasoning_option :: "summary_model \<Rightarrow> string option \<Rightarrow> string option" where
  "reasoning_option model thinkingLevel =
     (if md_reasoning model then (case present thinkingLevel of Some l \<Rightarrow> (if l = ''off'' then None else Some l) | None \<Rightarrow> None) else None)"

definition conversation_prompt :: "(64 word \<Rightarrow> string) \<Rightarrow> agent_message list \<Rightarrow> string" where
  "conversation_prompt ft messages =
     ''<conversation>'' @ line_break @ serializeConversation ft (convertToLlm ft messages) @ line_break @ ''</conversation>'' @ line_break @ line_break"

definition generateSummaryWithUsage :: "(64 word \<Rightarrow> string) \<Rightarrow> (summary_request \<Rightarrow> assistant_message) \<Rightarrow> agent_message list \<Rightarrow> summary_model \<Rightarrow> int
    \<Rightarrow> string option \<Rightarrow> string option \<Rightarrow> string option \<Rightarrow> summary_error + string \<times> usage" where
  "generateSummaryWithUsage ft complete currentMessages model reserveTokens customInstructions previousSummary thinkingLevel =
     (let base = (case present previousSummary of Some s \<Rightarrow> UPDATE_SUMMARIZATION_PROMPT | None \<Rightarrow> SUMMARIZATION_PROMPT);
          basePrompt = (case present customInstructions of
              Some c \<Rightarrow> base @ line_break @ line_break @ ''Additional focus: '' @ c | None \<Rightarrow> base);
          promptText = conversation_prompt ft currentMessages
            @ (case present previousSummary of
                 Some s \<Rightarrow> ''<previous-summary>'' @ line_break @ s @ line_break @ ''</previous-summary>'' @ line_break @ line_break
               | None \<Rightarrow> '''')
            @ basePrompt
      in response_result ''Summarization aborted'' ''Summarization failed: ''
           (complete \<lparr>sq_systemPrompt = SUMMARIZATION_SYSTEM_PROMPT, sq_prompt = promptText,
              sq_maxTokens = max_tokens (4 * reserveTokens div 5) model, sq_reasoning = reasoning_option model thinkingLevel\<rparr>))"

definition generateSummary :: "(64 word \<Rightarrow> string) \<Rightarrow> (summary_request \<Rightarrow> assistant_message) \<Rightarrow> agent_message list \<Rightarrow> summary_model \<Rightarrow> int
    \<Rightarrow> string option \<Rightarrow> string option \<Rightarrow> string option \<Rightarrow> summary_error + string" where
  "generateSummary ft complete currentMessages model reserveTokens customInstructions previousSummary thinkingLevel =
     bind_res (generateSummaryWithUsage ft complete currentMessages model reserveTokens customInstructions previousSummary thinkingLevel)
       (\<lambda>(t, u). Ok t)"

definition generateTurnPrefixSummary :: "(64 word \<Rightarrow> string) \<Rightarrow> (summary_request \<Rightarrow> assistant_message) \<Rightarrow> agent_message list \<Rightarrow> summary_model
    \<Rightarrow> int \<Rightarrow> string option \<Rightarrow> summary_error + string \<times> usage" where
  "generateTurnPrefixSummary ft complete messages model reserveTokens thinkingLevel =
     response_result ''Turn prefix summarization aborted'' ''Turn prefix summarization failed: ''
       (complete \<lparr>sq_systemPrompt = SUMMARIZATION_SYSTEM_PROMPT,
          sq_prompt = conversation_prompt ft messages @ TURN_PREFIX_SUMMARIZATION_PROMPT,
          sq_maxTokens = max_tokens (reserveTokens div 2) model, sq_reasoning = reasoning_option model thinkingLevel\<rparr>)"

definition add_optional :: "js_number option \<Rightarrow> js_number option \<Rightarrow> js_number option" where
  "add_optional x y =
     (if x = None \<and> y = None then None
      else Some (num_add (case x of Some n \<Rightarrow> n | None \<Rightarrow> JInt 0) (case y of Some n \<Rightarrow> n | None \<Rightarrow> JInt 0)))"

definition combineUsage :: "usage \<Rightarrow> usage \<Rightarrow> usage" where
  "combineUsage a b =
     \<lparr>u_input = num_add (u_input a) (u_input b), u_output = num_add (u_output a) (u_output b),
      u_cacheRead = num_add (u_cacheRead a) (u_cacheRead b), u_cacheWrite = num_add (u_cacheWrite a) (u_cacheWrite b),
      u_cacheWrite1h = add_optional (u_cacheWrite1h a) (u_cacheWrite1h b), u_reasoning = add_optional (u_reasoning a) (u_reasoning b),
      u_totalTokens = num_add (u_totalTokens a) (u_totalTokens b),
      u_cost = \<lparr>cost_input = num_add (cost_input (u_cost a)) (cost_input (u_cost b)),
        cost_output = num_add (cost_output (u_cost a)) (cost_output (u_cost b)),
        cost_cacheRead = num_add (cost_cacheRead (u_cost a)) (cost_cacheRead (u_cost b)),
        cost_cacheWrite = num_add (cost_cacheWrite (u_cost a)) (cost_cacheWrite (u_cost b)),
        cost_total = num_add (cost_total (u_cost a)) (cost_total (u_cost b))\<rparr>\<rparr>"

record compact_result =
  cr_summary :: string
  cr_tokensBefore :: js_number
  cr_usage :: usage
  cr_retainedTail :: "agent_message list"
  cr_readFiles :: "string list"
  cr_modifiedFiles :: "string list"

definition compact_summary :: "(64 word \<Rightarrow> string) \<Rightarrow> (summary_request \<Rightarrow> assistant_message) \<Rightarrow> compaction_preparation \<Rightarrow> summary_model
    \<Rightarrow> string option \<Rightarrow> string option \<Rightarrow> summary_error + string \<times> usage" where
  "compact_summary ft complete p model customInstructions thinkingLevel =
     (let history = generateSummaryWithUsage ft complete (pp_messagesToSummarize p) model (st_reserveTokens (pp_settings p)) customInstructions
            (pp_previousSummary p) thinkingLevel
      in if pp_isSplitTurn p \<and> pp_turnPrefixMessages p \<noteq> [] then
           bind_res (if pp_messagesToSummarize p = [] then Ok (''No prior history.'', None)
                     else bind_res history (\<lambda>(t, u). Ok (t, Some u))) (\<lambda>(historyText, historyUsage).
           bind_res (generateTurnPrefixSummary ft complete (pp_turnPrefixMessages p) model (st_reserveTokens (pp_settings p)) thinkingLevel)
             (\<lambda>(prefixText, prefixUsage).
               Ok (historyText @ line_break @ line_break @ ''---'' @ line_break @ line_break @ ''**Turn Context (split turn):**''
                     @ line_break @ line_break @ prefixText,
                   case historyUsage of Some u \<Rightarrow> combineUsage u prefixUsage | None \<Rightarrow> prefixUsage)))
         else history)"

definition compact :: "(64 word \<Rightarrow> string) \<Rightarrow> (summary_request \<Rightarrow> assistant_message) \<Rightarrow> compaction_preparation \<Rightarrow> summary_model
    \<Rightarrow> string option \<Rightarrow> string option \<Rightarrow> summary_error + compact_result" where
  "compact ft complete p model customInstructions thinkingLevel =
     bind_res (compact_summary ft complete p model customInstructions thinkingLevel) (\<lambda>(summary, summaryUsage).
     let (readFiles, modifiedFiles) = computeFileLists (pp_fileOps p)
     in Ok \<lparr>cr_summary = summary @ formatFileOperations readFiles modifiedFiles, cr_tokensBefore = pp_tokensBefore p, cr_usage = summaryUsage,
          cr_retainedTail = pp_retainedTail p, cr_readFiles = readFiles, cr_modifiedFiles = modifiedFiles\<rparr>)"

end
