(* ===== verification/CompactionCorrect.thy ===== *)
theory CompactionCorrect
  imports Compaction SessionContextCorrect
begin

text \<open>
  What a compaction does to a session: the messages it summarizes and those it retains are, in order, the messages
  the model saw; the cut separates no tool result from its call; and the retained part stays within the budget
  when the last entry is a valid cut.
\<close>

section \<open>Messages of items\<close>

abbreviation item_message :: "item \<Rightarrow> agent_message option" where
  "item_message \<equiv> getMessageFromEntryForCompaction"

lemma messages_between_append: "a \<le> b \<Longrightarrow> b \<le> c \<Longrightarrow> messages_between items a b @ messages_between items b c = messages_between items a c"
  using upt_add_eq_append [of a b "c - b"] by (simp add: messages_between_def map_filter_def)

lemma messages_between_all: "messages_between items 0 (length items) = List.map_filter item_message items"
proof -
  have "List.map_filter (\<lambda>i. f (xs ! i)) [0..<length xs] = List.map_filter f xs" for f :: "item \<Rightarrow> agent_message option" and xs
  proof -
    have "List.map_filter f (map (\<lambda>i. xs ! i) [0..<length xs]) = List.map_filter f xs"
      by (simp only: map_nth)
    then show ?thesis
      by (simp add: map_filter_def filter_map comp_def)
  qed
  then show ?thesis
    by (simp add: messages_between_def)
qed

section \<open>The cut\<close>

lemma include_settings_le: "include_settings items start c \<le> c"
proof (induction items start c rule: include_settings.induct)
  case (1 items start c)
  then show ?case
    by (subst include_settings.simps) force
qed

lemma include_settings_ge: "start \<le> c \<Longrightarrow> start \<le> include_settings items start c"
proof (induction items start c rule: include_settings.induct)
  case (1 items start c)
  then show ?case
    by (subst include_settings.simps) force
qed

lemma include_settings_skipped:
  "include_settings items start c \<le> j \<Longrightarrow> j < c \<Longrightarrow> entry_type (fst (items ! j)) \<notin> {''compaction'', ''message''}"
proof (induction items start c rule: include_settings.induct)
  case (1 items start c)
  show ?case
  proof (cases "c > start \<and> entry_type (fst (items ! (c - 1))) \<notin> {''compaction'', ''message''}")
    case True
    then have "include_settings items start c = include_settings items start (c - 1)"
      by (subst include_settings.simps) (rule if_P)
    then show ?thesis
      using 1 True by (cases "j = c - 1") auto
  next
    case False
    then have "include_settings items start c = c"
      by (subst include_settings.simps) (rule if_not_P)
    then show ?thesis
      using 1(2,3) by simp
  qed
qed

text \<open>The cut point that the budget chooses.\<close>

definition chosen_cut :: "(64 word \<Rightarrow> string) \<Rightarrow> item list \<Rightarrow> nat \<Rightarrow> nat \<Rightarrow> int \<Rightarrow> nat" where
  "chosen_cut ft items start end_index keep =
     (let cutPoints = findValidCutPoints items start end_index
      in case budget_index ft items keep 0 (rev [start..<end_index]) of
           None \<Rightarrow> hd cutPoints
         | Some i \<Rightarrow> (case List.find (\<lambda>c. c \<ge> i) cutPoints of Some c \<Rightarrow> c | None \<Rightarrow> hd cutPoints))"

lemma chosen_cut_valid:
  assumes "findValidCutPoints items start n \<noteq> []"
  shows "chosen_cut ft items start n keep \<in> set (findValidCutPoints items start n)"
  using assms find_Some_iff2 unfolding chosen_cut_def Let_def
  by (auto split: option.splits simp: find_Some_iff)

lemma cut_index:
  assumes "findValidCutPoints items start n \<noteq> []"
  shows "cut_firstKeptEntryIndex (findCutPoint ft items start n keep) = include_settings items start (chosen_cut ft items start n keep)"
  using assms by (simp add: findCutPoint_def chosen_cut_def Let_def)

lemma cut_range:
  assumes "start \<le> n"
  shows "start \<le> cut_firstKeptEntryIndex (findCutPoint ft items start n keep)
    \<and> cut_firstKeptEntryIndex (findCutPoint ft items start n keep) \<le> n"
proof (cases "findValidCutPoints items start n = []")
  case True
  then show ?thesis
    using assms by (simp add: findCutPoint_def)
next
  case False
  have "chosen_cut ft items start n keep \<in> set (findValidCutPoints items start n)"
    by (rule chosen_cut_valid [OF False])
  then have "start \<le> chosen_cut ft items start n keep" "chosen_cut ft items start n keep < n"
    by (auto simp: findValidCutPoints_def)
  then show ?thesis
    using cut_index [OF False] include_settings_le [of items start "chosen_cut ft items start n keep"]
      include_settings_ge [of start "chosen_cut ft items start n keep" items] by simp
qed

lemma turn_start_range:
  assumes "findTurnStartIndex items i start = Some t"
  shows "start \<le> t \<and> t \<le> i \<and> starts_turn (fst (items ! t)) \<and> (\<forall>j. t < j \<and> j \<le> i \<longrightarrow> \<not> starts_turn (fst (items ! j)))"
proof -
  let ?is = "rev [start..<i + 1]"
  obtain k where k: "k < length ?is" "t = ?is ! k" "starts_turn (fst (items ! t))" "\<forall>j<k. \<not> starts_turn (fst (items ! (?is ! j)))"
    using assms by (auto simp: findTurnStartIndex_def find_Some_iff)
  have nth: "?is ! j = i - j" "j \<le> i" if "j < length ?is" for j
    using that by (auto simp: rev_nth simp del: upt_Suc)
  have "\<not> starts_turn (fst (items ! j))" if j: "t < j" "j \<le> i" for j
  proof -
    have "i - j < k"
      using nth [OF k(1)] k(1,2) j by (simp del: upt_Suc)
    moreover from this have "?is ! (i - j) = j"
      using nth [of "i - j"] k(1) j by simp
    ultimately show ?thesis
      using k(4) by metis
  qed
  then show ?thesis
    using nth [OF k(1)] k by (auto simp del: upt_Suc)
qed

lemma split_turn:
  assumes "cut_isSplitTurn (findCutPoint ft items start n keep)" and "start \<le> n"
  obtains t where "cut_turnStartIndex (findCutPoint ft items start n keep) = Some t"
    and "start \<le> t" and "t \<le> cut_firstKeptEntryIndex (findCutPoint ft items start n keep)"
proof -
  have "findValidCutPoints items start n \<noteq> []"
    using assms(1) by (auto simp: findCutPoint_def)
  then show thesis
    using assms(1) that turn_start_range by (fastforce simp: findCutPoint_def Let_def split: if_splits)
qed

section \<open>Nothing is lost\<close>

lemma preparation_split:
  assumes "prepareCompaction ft path settings = Some p"
  shows "pp_messagesToSummarize p @ pp_turnPrefixMessages p @ pp_retainedTail p = List.map_filter item_message (compactable_items path)"
proof -
  let ?items = "compactable_items path"
  let ?cut = "findCutPoint ft ?items 0 (length ?items) (st_keepRecentTokens settings)"
  let ?k = "cut_firstKeptEntryIndex ?cut"
  have k: "?k \<le> length ?items"
    using cut_range [of 0 "length ?items"] by simp
  show ?thesis
  proof (cases "cut_isSplitTurn ?cut")
    case False
    then have "pp_messagesToSummarize p = messages_between ?items 0 ?k" "pp_turnPrefixMessages p = []"
      "pp_retainedTail p = messages_between ?items ?k (length ?items)"
      using assms by (auto simp: prepareCompaction_def Let_def split: if_splits)
    then show ?thesis
      using messages_between_append [of 0 ?k "length ?items" ?items] k messages_between_all [of ?items] by simp
  next
    case True
    then obtain t where t: "cut_turnStartIndex ?cut = Some t" "t \<le> ?k"
      using split_turn by (metis zero_le)
    then have "pp_messagesToSummarize p = messages_between ?items 0 t" "pp_turnPrefixMessages p = messages_between ?items t ?k"
      "pp_retainedTail p = messages_between ?items ?k (length ?items)"
      using assms True by (auto simp: prepareCompaction_def Let_def split: if_splits)
    then show ?thesis
      using messages_between_append [of t ?k "length ?items" ?items] messages_between_append [of 0 t "length ?items" ?items]
        k t(2) messages_between_all [of ?items] by simp
  qed
qed

text \<open>Entries that the context shows as they are: no deferred response and no empty branch summary.\<close>

fun shown :: "entry_body \<Rightarrow> bool" where
  "shown (MessageEntry (AssistantMessage m) t) \<longleftrightarrow> am_stopReason m \<noteq> SR_deferred"
| "shown (BranchSummaryEntry f s u) \<longleftrightarrow> s \<noteq> ''''"
| "shown b \<longleftrightarrow> True"

lemma shown_message:
  assumes "shown (e_body e)" and "\<not> is_compaction e"
  shows "sessionEntryToContextMessages no_options [] e 0 = (case item_message (item_of e) of None \<Rightarrow> [] | Some m \<Rightarrow> [m])"
  using assms
  by (cases "e_body e" rule: shown.cases)
    (auto simp: sessionEntryToContextMessages_def no_options_def item_of_def getMessageFromEntryForCompaction_def is_compaction_def
      split: agent_message.splits)

lemma map_filter_concat: "List.map_filter f xs = concat (map (\<lambda>x. case f x of None \<Rightarrow> [] | Some y \<Rightarrow> [y]) xs)"
  by (induction xs) (auto simp: map_filter_def split: option.split)

lemma shown_messages:
  assumes "\<forall>e\<in>set es. shown (e_body e) \<and> \<not> is_compaction e"
  shows "concat (map (\<lambda>e. sessionEntryToContextMessages no_options [] e 0) es) = List.map_filter item_message (map item_of es)"
  using assms by (induction es) (simp_all add: shown_message map_filter_concat)

lemma retained_messages: "List.map_filter item_message (map retained_item ms) = ms"
  by (induction ms) (simp_all add: map_filter_def retained_item_def getMessageFromEntryForCompaction_def)

lemma plain_no_options: "plain_options no_options"
  by (simp add: plain_options_def no_options_def)

text \<open>The summary a context starts with.\<close>

definition previous_summary :: "entry list \<Rightarrow> agent_message list" where
  "previous_summary path =
     (case last_compaction path (length path) of
        None \<Rightarrow> []
      | Some i \<Rightarrow> (case e_body (path ! i) of
          CompactionEntry s tail n u \<Rightarrow> [createCompactionSummaryMessage s n (JInt (int (e_timestamp (path ! i))))] | _ \<Rightarrow> []))"

lemma context_of_items:
  assumes "\<forall>e\<in>set path. shown (e_body e)"
  shows "sc_messages (buildSessionContext path no_options) = previous_summary path @ List.map_filter item_message (compactable_items path)"
proof (cases "last_compaction path (length path)")
  case None
  then have "\<forall>e\<in>set path. \<not> is_compaction e"
    by (auto simp: last_compaction_None in_set_conv_nth)
  then show ?thesis
    using None assms shown_messages [of path]
    by (simp add: context_messages [OF plain_no_options] defaultContextEntryTransform_def previous_summary_def compactable_items_def)
next
  case (Some i)
  then have i: "i < length path" "is_compaction (path ! i)" and later: "\<And>j. i < j \<Longrightarrow> j < length path \<Longrightarrow> \<not> is_compaction (path ! j)"
    by (auto simp: last_compaction_Some)
  obtain s tail n u where body: "e_body (path ! i) = CompactionEntry s tail n u"
    using i(2) by (cases "e_body (path ! i)") (auto simp: is_compaction_def)
  have "\<forall>e\<in>set (drop (i + 1) path). shown (e_body e) \<and> \<not> is_compaction e"
    using assms later by (auto simp: in_set_conv_nth dest: in_set_dropD)
  from shown_messages [OF this] show ?thesis
    using Some body retained_messages [of tail]
    by (simp add: context_messages [OF plain_no_options] defaultContextEntryTransform_def previous_summary_def compactable_items_def
        sessionEntryToContextMessages_def map_filter_def)
qed

section \<open>Tool results stay with their calls\<close>

lemma first_message:
  assumes "a \<le> c" and "c < length items" and "\<And>j. a \<le> j \<Longrightarrow> j < c \<Longrightarrow> entry_type (fst (items ! j)) \<notin> {''compaction'', ''message''}"
    and "valid_cut (fst (items ! c))"
  shows "messages_between items a (length items) \<noteq> [] \<and> message_role (hd (messages_between items a (length items))) \<noteq> ''toolResult''"
proof -
  let ?f = "\<lambda>i. item_message (items ! i)"
  obtain m where m: "?f c = Some m" "message_role m \<noteq> ''toolResult''"
    using assms(4)
    by (cases "items ! c"; cases "fst (items ! c)")
      (auto simp: getMessageFromEntryForCompaction_def cut_roles_def createBranchSummaryMessage_def)
  have before: "message_role x \<noteq> ''toolResult''" if x: "x \<in> set (messages_between items a c)" for x
  proof -
    obtain j where j: "a \<le> j" "j < c" "?f j = Some x"
      using x by (auto simp: messages_between_def map_filter_def)
    then show ?thesis
      using assms(3) [OF j(1,2)]
      by (cases "items ! j"; cases "fst (items ! j)") (auto simp: getMessageFromEntryForCompaction_def createBranchSummaryMessage_def)
  qed
  have "[c..<length items] = c # [c + 1..<length items]"
    using assms(2) by (simp add: upt_conv_Cons)
  then have "messages_between items c (length items) = m # messages_between items (c + 1) (length items)"
    using m(1) by (simp add: messages_between_def map_filter_def)
  then have "messages_between items a (length items) = messages_between items a c @ m # messages_between items (c + 1) (length items)"
    using messages_between_append [of a c "length items" items] assms(1,2) by simp
  then show ?thesis
    using before m(2) by (cases "messages_between items a c") auto
qed

section \<open>The budget\<close>

definition message_tokens :: "(64 word \<Rightarrow> string) \<Rightarrow> item list \<Rightarrow> nat list \<Rightarrow> nat" where
  "message_tokens ft items is =
     sum_list (map (\<lambda>i. case message_of_body (fst (items ! i)) of Some m \<Rightarrow> estimateTokens ft m | None \<Rightarrow> 0) is)"

lemma budget_index_Some:
  assumes "budget_index ft items keep acc is = Some i" and "int acc < keep"
  shows "\<exists>as bs. is = as @ i # bs \<and> int (acc + message_tokens ft items as) < keep"
  using assms
proof (induction ft items keep acc "is" rule: budget_index.induct)
  case (2 ft items keep acc j js)
  show ?case
  proof (cases "message_of_body (fst (items ! j))")
    case None
    then obtain as bs where "js = as @ i # bs" "int (acc + message_tokens ft items as) < keep"
      using 2(1) [OF None] 2(3,4) by auto
    then show ?thesis
      using None by (intro exI [of _ "j # as"] exI [of _ bs]) (simp add: message_tokens_def)
  next
    case (Some m)
    show ?thesis
    proof (cases "int (acc + estimateTokens ft m) \<ge> keep")
      case True
      then show ?thesis
        using 2(3,4) Some by (intro exI [of _ "[]"] exI [of _ js]) (simp add: message_tokens_def)
    next
      case False
      then obtain as bs where "js = as @ i # bs" "int (acc + estimateTokens ft m + message_tokens ft items as) < keep"
        using 2(2) [OF Some refl] 2(3) Some by auto
      then show ?thesis
        using Some by (intro exI [of _ "j # as"] exI [of _ bs]) (simp add: message_tokens_def)
    qed
  qed
qed simp

lemma budget_index_None:
  "budget_index ft items keep acc is = None \<Longrightarrow> int acc < keep \<Longrightarrow> int (acc + message_tokens ft items is) < keep"
proof (induction ft items keep acc "is" rule: budget_index.induct)
  case (2 ft items keep acc j js)
  show ?case
  proof (cases "message_of_body (fst (items ! j))")
    case None
    then show ?thesis
      using 2(1) [OF None] 2(3,4) by (simp add: message_tokens_def)
  next
    case (Some m)
    then show ?thesis
      using 2(2) [OF Some refl] 2(3,4) by (auto simp: message_tokens_def split: if_splits)
  qed
qed (simp add: message_tokens_def)

lemma message_tokens_rev: "message_tokens ft items (rev is) = message_tokens ft items is"
  by (simp add: message_tokens_def rev_map [symmetric] sum_list_rev)

lemma message_tokens_mono: "a \<le> b \<Longrightarrow> message_tokens ft items [b..<n] \<le> message_tokens ft items [a..<n]"
proof -
  assume "a \<le> b"
  show ?thesis
  proof (cases "b \<le> n")
    case True
    then have "[a..<n] = [a..<b] @ [b..<n]"
      using \<open>a \<le> b\<close> upt_add_eq_append [of a b "n - b"] by simp
    then show ?thesis
      by (simp add: message_tokens_def)
  qed (simp add: message_tokens_def)
qed

lemma rev_upt_split: "rev [0..<n] = as @ i # bs \<Longrightarrow> as = rev [i + 1..<n] \<and> i < n"
proof -
  assume eq: "rev [0..<n] = as @ i # bs"
  then have up: "[0..<n] = rev bs @ i # rev as"
    by (metis append_assoc rev.simps(2) rev_append rev_rev_ident append_Cons append_Nil)
  have len: "length bs + length as + 1 = n"
    using arg_cong [OF up, of length] by simp
  have i: "i = length bs"
    using arg_cong [OF up, of "\<lambda>xs. xs ! length bs"] len by (simp add: nth_append)
  have "rev as = drop (length bs + 1) [0..<n]"
    unfolding up by simp
  also have "\<dots> = [i + 1..<n]"
    using i by (simp add: drop_upt)
  finally show ?thesis
    using i len by (metis add_lessD1 add_less_cancel_left lessI less_add_one rev_rev_ident Suc_eq_plus1 le_add1 le_imp_less_Suc)
qed

lemma chosen_budget:
  assumes "0 < keep" and "items \<noteq> []" and "valid_cut (fst (last items))"
  shows "int (message_tokens ft items [chosen_cut ft items 0 (length items) keep + 1..<length items]) < keep"
proof -
  let ?n = "length items" and ?c = "chosen_cut ft items 0 (length items) keep"
  let ?cuts = "findValidCutPoints items 0 ?n"
  have last_cut: "?n - 1 \<in> set ?cuts"
    using assms(2,3) by (simp add: findValidCutPoints_def last_conv_nth)
  show ?thesis
  proof (cases "budget_index ft items keep 0 (rev [0..<?n])")
    case None
    then have "int (message_tokens ft items [0..<?n]) < keep"
      using budget_index_None [of ft items keep 0 "rev [0..<?n]"] assms(1) message_tokens_rev [of ft items "[0..<?n]"] by simp
    then show ?thesis
      using message_tokens_mono [of 0 "?c + 1" ft items ?n] by linarith
  next
    case (Some i)
    then obtain as bs where "rev [0..<?n] = as @ i # bs" "int (message_tokens ft items as) < keep"
      using budget_index_Some [OF Some] assms(1) by auto
    then have after: "int (message_tokens ft items [i + 1..<?n]) < keep" and "i < ?n"
      using rev_upt_split [of ?n as i bs] message_tokens_rev by auto
    have "List.find (\<lambda>c. c \<ge> i) ?cuts \<noteq> None"
      using last_cut \<open>i < ?n\<close> by (auto simp: find_None_iff)
    then obtain c where c: "List.find (\<lambda>c. c \<ge> i) ?cuts = Some c"
      by auto
    have "?c = c"
      using Some c by (simp add: chosen_cut_def)
    moreover have "i \<le> c"
      using c by (auto simp: find_Some_iff)
    ultimately have "?c = c" "i \<le> c"
      by simp_all
    then show ?thesis
      using after message_tokens_mono [of "i + 1" "c + 1" ft items ?n] by simp
  qed
qed

section \<open>The guarantees\<close>

lemma item_entries_cut: "valid_cut (e_body e) \<Longrightarrow> path \<noteq> [] \<Longrightarrow> last path = e \<Longrightarrow> \<not> is_compaction e
    \<Longrightarrow> compactable_items path \<noteq> [] \<and> last (compactable_items path) = item_of e"
proof (cases "last_compaction path (length path)")
  case (Some i)
  assume path: "path \<noteq> []" "last path = e" "\<not> is_compaction e"
  have i: "i < length path" "is_compaction (path ! i)"
    using Some by (auto simp: last_compaction_Some)
  then have "i + 1 < length path"
    using path by (metis Suc_eq_plus1 Suc_lessI diff_Suc_1 last_conv_nth)
  then show ?thesis
    using Some path by (auto simp: compactable_items_def last_map)
qed (auto simp: compactable_items_def last_map)


definition text_message :: "string \<Rightarrow> agent_message" where
  "text_message s = UserMessage (ContentText s) (JInt 1) []"

definition no_float_text :: "64 word \<Rightarrow> string" where
  "no_float_text w = ''0.5''"

definition sample_path :: "entry list" where
  "sample_path = map (\<lambda>s. sample_entry (MessageEntry (text_message s) False)) [''hello'', ''world'']"




text \<open>
  The budget can be missed when the branch ends with tool results: if they alone reach it there is no valid cut
  point at or after them, and the search falls back to the first cut point of the branch, so that nothing
  is summarized however long the branch is.
\<close>

lemma cut_falls_back:
  assumes "budget_index ft items keep 0 (rev [0..<length items]) = Some i" and "\<forall>j. i \<le> j \<and> j < length items \<longrightarrow> \<not> valid_cut (fst (items ! j))"
    and "valid_cut (fst (items ! 0))" and "items \<noteq> []"
  shows "cut_firstKeptEntryIndex (findCutPoint ft items 0 (length items) keep) = 0"
proof -
  let ?cuts = "findValidCutPoints items 0 (length items)"
  have cuts: "?cuts = 0 # filter (\<lambda>i. valid_cut (fst (items ! i))) [1..<length items]"
    using assms(3,4) by (simp add: findValidCutPoints_def upt_conv_Cons)
  have "List.find (\<lambda>c. c \<ge> i) ?cuts = None"
    using assms(2) by (auto simp: find_None_iff findValidCutPoints_def)
  then have "chosen_cut ft items 0 (length items) keep = 0"
    using assms(1) by (simp add: chosen_cut_def cuts)
  then show ?thesis
    using cut_index [of items 0 "length items"] cuts include_settings_le [of items 0 0] by simp
qed

section \<open>The file lists\<close>

lemma set_add_set [simp]: "set (set_add x xs) = insert x (set xs)"
  by (auto simp: set_add_def)

lemma distinct_set_add: "distinct xs \<Longrightarrow> distinct (set_add x xs)"
  by (simp add: set_add_def)

lemma fold_set_add: "set (foldl (\<lambda>xs x. set_add x xs) acc ys) = set acc \<union> set ys
    \<and> (distinct acc \<longrightarrow> distinct (foldl (\<lambda>xs x. set_add x xs) acc ys))"
  by (induction ys arbitrary: acc) (auto simp: distinct_set_add)

lemma set_sort_texts [simp]: "set (sort_texts xs) = set xs"
  by (simp add: sort_texts_def)

lemma distinct_sort_texts [simp]: "distinct (sort_texts xs) = distinct xs"
  by (simp add: sort_texts_def)

definition by_units :: "string list \<Rightarrow> bool" where
  "by_units xs \<longleftrightarrow> sorted (map (\<lambda>s. map unat (units_of s)) xs)"

text \<open>The file operations that the messages and the details of a previous compaction record.\<close>

definition touched :: "string \<Rightarrow> agent_message \<Rightarrow> string set" where
  "touched name m = {path. path \<noteq> '''' \<and> (\<exists>a c. m = AssistantMessage a \<and> ToolCallBlock c \<in> set (am_content a) \<and> tc_name c = name
     \<and> map_of (tc_arguments c) ''path'' = Some (JString path))}"

lemma file_op_read: "set (fo_read (file_op ops c)) = set (fo_read ops)
    \<union> {path. path \<noteq> '''' \<and> tc_name c = ''read'' \<and> map_of (tc_arguments c) ''path'' = Some (JString path)}"
  by (auto simp: file_op_def split: option.splits json.splits)

lemma file_op_modified: "set (fo_edited (file_op ops c)) \<union> set (fo_written (file_op ops c)) = set (fo_edited ops) \<union> set (fo_written ops)
    \<union> {path. path \<noteq> '''' \<and> tc_name c \<in> {''edit'', ''write''} \<and> map_of (tc_arguments c) ''path'' = Some (JString path)}"
  by (auto simp: file_op_def split: option.splits json.splits)

lemma file_ops_blocks:
  fixes bs :: "content_block list"
  defines "run \<equiv> foldl (\<lambda>ops b. case b of ToolCallBlock c \<Rightarrow> file_op ops c | _ \<Rightarrow> ops)"
  shows "set (fo_read (run ops bs)) = set (fo_read ops) \<union> {path. path \<noteq> '''' \<and> (\<exists>c. ToolCallBlock c \<in> set bs \<and> tc_name c = ''read''
       \<and> map_of (tc_arguments c) ''path'' = Some (JString path))}"
    and "set (fo_edited (run ops bs)) \<union> set (fo_written (run ops bs)) = set (fo_edited ops) \<union> set (fo_written ops)
      \<union> {path. path \<noteq> '''' \<and> (\<exists>c. ToolCallBlock c \<in> set bs \<and> tc_name c \<in> {''edit'', ''write''}
         \<and> map_of (tc_arguments c) ''path'' = Some (JString path))}"
proof -
  have step: "run ops (b # bs) = run (case b of ToolCallBlock c \<Rightarrow> file_op ops c | _ \<Rightarrow> ops) bs" for ops b bs
    by (simp add: run_def)
  show "set (fo_read (run ops bs)) = set (fo_read ops) \<union> {path. path \<noteq> '''' \<and> (\<exists>c. ToolCallBlock c \<in> set bs \<and> tc_name c = ''read''
       \<and> map_of (tc_arguments c) ''path'' = Some (JString path))}"
  proof (induction bs arbitrary: ops)
    case (Cons b bs)
    then show ?case
      unfolding step using file_op_read by (cases b) auto
  qed (simp add: run_def)
  show "set (fo_edited (run ops bs)) \<union> set (fo_written (run ops bs)) = set (fo_edited ops) \<union> set (fo_written ops)
      \<union> {path. path \<noteq> '''' \<and> (\<exists>c. ToolCallBlock c \<in> set bs \<and> tc_name c \<in> {''edit'', ''write''}
         \<and> map_of (tc_arguments c) ''path'' = Some (JString path))}"
  proof (induction bs arbitrary: ops)
    case (Cons b bs)
    show ?case
      unfolding step Cons.IH using file_op_modified by (cases b) auto
  qed (simp add: run_def)
qed

lemma file_ops_message:
  "set (fo_read (extractFileOpsFromMessage m ops)) = set (fo_read ops) \<union> touched ''read'' m"
  "set (fo_edited (extractFileOpsFromMessage m ops)) \<union> set (fo_written (extractFileOpsFromMessage m ops))
     = set (fo_edited ops) \<union> set (fo_written ops) \<union> (touched ''edit'' m \<union> touched ''write'' m)"
  by (cases m; auto simp: touched_def file_ops_blocks)+

lemma file_ops_messages:
  "set (fo_read (foldl (\<lambda>ops m. extractFileOpsFromMessage m ops) ops ms)) = set (fo_read ops) \<union> (\<Union>m\<in>set ms. touched ''read'' m)"
  "set (fo_edited (foldl (\<lambda>ops m. extractFileOpsFromMessage m ops) ops ms)) \<union> set (fo_written (foldl (\<lambda>ops m. extractFileOpsFromMessage m ops) ops ms))
     = set (fo_edited ops) \<union> set (fo_written ops) \<union> (\<Union>m\<in>set ms. touched ''edit'' m \<union> touched ''write'' m)"
proof -
  show "set (fo_read (foldl (\<lambda>ops m. extractFileOpsFromMessage m ops) ops ms)) = set (fo_read ops) \<union> (\<Union>m\<in>set ms. touched ''read'' m)"
    by (induction ms arbitrary: ops) (auto simp: file_ops_message(1))
  show "set (fo_edited (foldl (\<lambda>ops m. extractFileOpsFromMessage m ops) ops ms)) \<union> set (fo_written (foldl (\<lambda>ops m. extractFileOpsFromMessage m ops) ops ms))
     = set (fo_edited ops) \<union> set (fo_written ops) \<union> (\<Union>m\<in>set ms. touched ''edit'' m \<union> touched ''write'' m)"
  proof (induction ms arbitrary: ops)
    case (Cons m ms)
    show ?case
      unfolding foldl_Cons Cons.IH file_ops_message(2) by auto
  qed simp
qed

definition prior_files :: "entry list \<Rightarrow> string \<Rightarrow> string set" where
  "prior_files path key =
     (case last_compaction path (length path) of None \<Rightarrow> {} | Some i \<Rightarrow> set (detail_files (path ! i) key))"

lemma extracted_files:
  "set (fo_read (extractFileOperations ms path (last_compaction path (length path))))
     = prior_files path ''readFiles'' \<union> (\<Union>m\<in>set ms. touched ''read'' m)"
  "set (fo_edited (extractFileOperations ms path (last_compaction path (length path))))
     \<union> set (fo_written (extractFileOperations ms path (last_compaction path (length path))))
     = prior_files path ''modifiedFiles'' \<union> (\<Union>m\<in>set ms. touched ''edit'' m \<union> touched ''write'' m)"
  by (simp_all add: extractFileOperations_def file_ops_messages prior_files_def createFileOps_def add_details_def fold_set_add
      split: option.split)

lemma prepared_files:
  assumes "prepareCompaction ft path settings = Some p"
  shows "set (fo_read (pp_fileOps p))
     = prior_files path ''readFiles'' \<union> (\<Union>m\<in>set (pp_messagesToSummarize p @ pp_turnPrefixMessages p). touched ''read'' m)"
    and "set (fo_edited (pp_fileOps p)) \<union> set (fo_written (pp_fileOps p)) = prior_files path ''modifiedFiles''
      \<union> (\<Union>m\<in>set (pp_messagesToSummarize p @ pp_turnPrefixMessages p). touched ''edit'' m \<union> touched ''write'' m)"
proof -
  let ?ops = "extractFileOperations (pp_messagesToSummarize p) path (last_compaction path (length path))"
  have ops: "pp_fileOps p = foldl (\<lambda>ops m. extractFileOpsFromMessage m ops) ?ops (pp_turnPrefixMessages p)"
    using assms by (auto simp: prepareCompaction_def Let_def split: if_splits)
  show "set (fo_read (pp_fileOps p))
     = prior_files path ''readFiles'' \<union> (\<Union>m\<in>set (pp_messagesToSummarize p @ pp_turnPrefixMessages p). touched ''read'' m)"
    unfolding ops file_ops_messages(1) extracted_files(1) by auto
  show "set (fo_edited (pp_fileOps p)) \<union> set (fo_written (pp_fileOps p)) = prior_files path ''modifiedFiles''
      \<union> (\<Union>m\<in>set (pp_messagesToSummarize p @ pp_turnPrefixMessages p). touched ''edit'' m \<union> touched ''write'' m)"
    unfolding ops file_ops_messages(2) extracted_files(2) by auto
qed

lemma sort_texts_by_units [simp]: "by_units (sort_texts xs)"
  unfolding by_units_def sort_texts_def by (rule sorted_sort_key)

lemma computed_files:
  assumes "computeFileLists ops = (readFiles, modifiedFiles)"
  shows "set modifiedFiles = set (fo_edited ops) \<union> set (fo_written ops)" "distinct modifiedFiles" "by_units modifiedFiles"
    "set readFiles = set (fo_read ops) - set modifiedFiles" "by_units readFiles"
proof -
  obtain ms where ms: "foldl (\<lambda>xs x. set_add x xs) [] (fo_edited ops @ fo_written ops) = ms"
    by blast
  have "set ms = set (fo_edited ops) \<union> set (fo_written ops)" "distinct ms"
    using fold_set_add [of "[]" "fo_edited ops @ fo_written ops"] unfolding ms by simp_all
  moreover have "modifiedFiles = sort_texts ms" "readFiles = sort_texts (filter (\<lambda>f. f \<notin> set ms) (fo_read ops))"
    using assms unfolding computeFileLists_def ms Let_def by simp_all
  ultimately show "set modifiedFiles = set (fo_edited ops) \<union> set (fo_written ops)" "distinct modifiedFiles" "by_units modifiedFiles"
    "set readFiles = set (fo_read ops) - set modifiedFiles" "by_units readFiles"
    by (simp_all add: set_diff_eq)
qed

text \<open>The file lists of a compaction are exact. When a prepared compaction has been summarized, its details list as
  modified, without repetition and sorted, exactly the files that the compacted messages or the previous compaction wrote
  or edited, and as read exactly those they read and did not modify; the retained messages are the prepared ones.\<close>

theorem compaction_files_exact:
  assumes "prepareCompaction ft path settings = Some p" and "compact ft complete p model customInstructions thinkingLevel = Ok r"
  shows "cr_retainedTail r = pp_retainedTail p
    \<and> set (cr_modifiedFiles r) = prior_files path ''modifiedFiles''
        \<union> (\<Union>m\<in>set (pp_messagesToSummarize p @ pp_turnPrefixMessages p). touched ''edit'' m \<union> touched ''write'' m)
    \<and> set (cr_readFiles r) = prior_files path ''readFiles''
        \<union> (\<Union>m\<in>set (pp_messagesToSummarize p @ pp_turnPrefixMessages p). touched ''read'' m) - set (cr_modifiedFiles r)
    \<and> distinct (cr_modifiedFiles r) \<and> by_units (cr_modifiedFiles r) \<and> by_units (cr_readFiles r)"
proof -
  have r: "computeFileLists (pp_fileOps p) = (cr_readFiles r, cr_modifiedFiles r)" "cr_retainedTail r = pp_retainedTail p"
    using assms(2) by (cases "computeFileLists (pp_fileOps p)"; auto simp: compact_def res_simps)+
  show ?thesis
    using computed_files [OF r(1)] prepared_files [OF assms(1)] r(2) by auto
qed

lemma response_stop: "am_stopReason r = SR_stop \<Longrightarrow> \<exists>t u. response_result a f r = Ok (t, u)"
  by (simp add: response_result_def)

lemma compact_succeeds:
  assumes stop: "\<And>q. am_stopReason (complete q) = SR_stop"
  shows "\<exists>r. compact ft complete p model customInstructions thinkingLevel = Ok r"
proof -
  have "\<exists>t u. compact_summary ft complete p model customInstructions thinkingLevel = Ok (t, u)"
  proof -
    obtain t u where history: "generateSummaryWithUsage ft complete (pp_messagesToSummarize p) model (st_reserveTokens (pp_settings p))
        customInstructions (pp_previousSummary p) thinkingLevel = Ok (t, u)"
      unfolding generateSummaryWithUsage_def Let_def using response_stop [OF stop] by metis
    obtain t' u' where prefix: "generateTurnPrefixSummary ft complete (pp_turnPrefixMessages p) model (st_reserveTokens (pp_settings p)) thinkingLevel
        = Ok (t', u')"
      unfolding generateTurnPrefixSummary_def using response_stop [OF stop] by metis
    show ?thesis
      unfolding compact_summary_def history prefix Let_def
      by (cases "pp_isSplitTurn p \<and> pp_turnPrefixMessages p \<noteq> []"; cases "pp_messagesToSummarize p = []") simp_all
  qed
  then obtain t u where summary: "compact_summary ft complete p model customInstructions thinkingLevel = Ok (t, u)"
    by blast
  show ?thesis
    unfolding compact_def summary by (cases "computeFileLists (pp_fileOps p)") simp
qed

definition no_usage :: usage where
  "no_usage = \<lparr>u_input = JInt 0, u_output = JInt 0, u_cacheRead = JInt 0, u_cacheWrite = JInt 0, u_cacheWrite1h = None, u_reasoning = None,
     u_totalTokens = JInt 0, u_cost = \<lparr>cost_input = JInt 0, cost_output = JInt 0, cost_cacheRead = JInt 0, cost_cacheWrite = JInt 0,
       cost_total = JInt 0\<rparr>\<rparr>"

definition reply :: "content_block list \<Rightarrow> assistant_message" where
  "reply bs = \<lparr>am_content = bs, am_api = ''api'', am_provider = ''p'', am_model = ''m'', am_usage = no_usage, am_stopReason = SR_stop,
     am_isResponseCheckpoint = False, am_deferred = None, am_timestamp = JInt 1, am_extra = []\<rparr>"

theorem compaction_files_exact_witness:
  "\<exists>p r. prepareCompaction no_float_text sample_path DEFAULT_COMPACTION_SETTINGS = Some p
    \<and> compact no_float_text (\<lambda>q. reply []) p \<lparr>md_maxTokens = 100, md_contextWindow = 1000, md_reasoning = False\<rparr> None None = Ok r
    \<and> cr_retainedTail r = pp_retainedTail p"
proof -
  obtain p where p: "prepareCompaction no_float_text sample_path DEFAULT_COMPACTION_SETTINGS = Some p"
    by (simp add: prepareCompaction_def Let_def sample_path_def sample_entry_def is_compaction_def)
  have stop: "am_stopReason (reply []) = SR_stop"
    by (simp add: reply_def)
  obtain r where r: "compact no_float_text (\<lambda>q. reply []) p \<lparr>md_maxTokens = 100, md_contextWindow = 1000, md_reasoning = False\<rparr> None None = Ok r"
    using compact_succeeds [of "\<lambda>q. reply []"] stop by blast
  then show ?thesis
    using compaction_files_exact [OF p r] p by blast
qed

end
