(* ===== verification/Async.thy ===== *)
theory Async
  imports Prelude
begin

text \<open>
  Asynchronous code. An \<open>async\<close> function of the program is a tree of atomic steps: it returns,
  throws, or makes a step on the shared state and goes on, where the continuation may look at the
  state the step began in. What happens between two awaits is one step; a promise that settles
  after several turns of the event loop is a tree of several steps. One function alone is
  executed by \<open>run\<close>; functions started together (\<open>Promise.allSettled\<close>) are executed by
  \<open>interleave\<close> under a schedule that names, at every turn of the event loop, the function that
  goes on. Every interleaving of the step relation \<open>par_step\<close> has a schedule, so a statement
  about all schedules covers them all.
\<close>

section \<open>Asynchronous functions\<close>

datatype (dead 's, 'e, 'a) async =
    Return 'a
  | Throw 'e
  | Step "'s \<Rightarrow> 's" "'s \<Rightarrow> ('s, 'e, 'a) async"

primrec await :: "('s, 'e, 'a) async \<Rightarrow> ('a \<Rightarrow> ('s, 'e, 'b) async) \<Rightarrow> ('s, 'e, 'b) async" where
  "await (Return x) f = f x"
| "await (Throw e) f = Throw e"
| "await (Step u k) f = Step u (\<lambda>s. await (k s) f)"

text \<open>\<open>try \<dots> catch\<close>, the promise of a settled result, and \<open>try \<dots> finally\<close>.\<close>

primrec try_catch :: "('s, 'e, 'a) async \<Rightarrow> ('e \<Rightarrow> ('s, 'f, 'a) async) \<Rightarrow> ('s, 'f, 'a) async" where
  "try_catch (Return x) h = Return x"
| "try_catch (Throw e) h = h e"
| "try_catch (Step u k) h = Step u (\<lambda>s. try_catch (k s) h)"

primrec settling :: "('s, 'e, 'a) async \<Rightarrow> ('s, 'f, 'e + 'a) async" where
  "settling (Return x) = Return (Inr x)"
| "settling (Throw e) = Return (Inl e)"
| "settling (Step u k) = Step u (\<lambda>s. settling (k s))"

fun of_result :: "'e + 'a \<Rightarrow> ('s, 'e, 'a) async" where
  "of_result (Inl e) = Throw e"
| "of_result (Inr x) = Return x"

text \<open>Synchronous code: a function of the state, in one step.\<close>

definition sync :: "('s \<Rightarrow> 'a \<times> 's) \<Rightarrow> ('s, 'e, 'a) async" where
  "sync f = Step (\<lambda>s. snd (f s)) (\<lambda>s. Return (fst (f s)))"

text \<open>Synchronous code that may throw, in one step.\<close>

definition attempt :: "('s \<Rightarrow> ('e + 'a) \<times> 's) \<Rightarrow> ('s, 'e, 'a) async" where
  "attempt f = Step (\<lambda>s. snd (f s)) (\<lambda>s. of_result (fst (f s)))"

definition inspect :: "('s \<Rightarrow> 'a) \<Rightarrow> ('s, 'e, 'a) async" where
  "inspect f = Step id (\<lambda>s. Return (f s))"

definition modify :: "('s \<Rightarrow> 's) \<Rightarrow> ('s, 'e, unit) async" where
  "modify u = Step u (\<lambda>_. Return ())"

text \<open>A function that works on a part of the state.\<close>

primrec zoom :: "('s \<Rightarrow> 'w) \<Rightarrow> ('w \<Rightarrow> 's \<Rightarrow> 's) \<Rightarrow> ('w, 'e, 'a) async \<Rightarrow> ('s, 'e, 'a) async" where
  "zoom g p (Return x) = Return x"
| "zoom g p (Throw e) = Throw e"
| "zoom g p (Step u k) = Step (\<lambda>s. p (u (g s)) s) (\<lambda>s. zoom g p (k (g s)))"

text \<open>A loop over a list that collects the results.\<close>

fun for_each :: "('x \<Rightarrow> ('s, 'e, 'a) async) \<Rightarrow> 'x list \<Rightarrow> ('s, 'e, 'a list) async" where
  "for_each f [] = Return []"
| "for_each f (x # xs) = await (f x) (\<lambda>y. await (for_each f xs) (\<lambda>ys. Return (y # ys)))"

section \<open>Executing one function\<close>

primrec run :: "('s, 'e, 'a) async \<Rightarrow> 's \<Rightarrow> ('e + 'a) \<times> 's" where
  "run (Return x) s = (Inr x, s)"
| "run (Throw e) s = (Inl e, s)"
| "run (Step u k) s = run (k s) (u s)"

lemma await_assoc: "await (await p f) g = await p (\<lambda>x. await (f x) g)"
  by (induction p) auto

lemma await_Return [simp]: "await p Return = p"
  by (induction p) auto

lemma run_await:
  "run (await p f) s = (case run p s of (Inl e, t) \<Rightarrow> (Inl e, t) | (Inr x, t) \<Rightarrow> run (f x) t)"
  by (induction p arbitrary: s) auto

lemma run_try_catch:
  "run (try_catch p h) s = (case run p s of (Inl e, t) \<Rightarrow> run (h e) t | (Inr x, t) \<Rightarrow> (Inr x, t))"
  by (induction p arbitrary: s) auto

lemma run_settling [simp]: "run (settling p) s = (Inr (fst (run p s)), snd (run p s))"
  by (induction p arbitrary: s) auto

lemma run_of_result [simp]: "run (of_result r) s = (r, s)"
  by (cases r) auto

lemma run_sync [simp]: "run (sync f) s = (Inr (fst (f s)), snd (f s))"
  by (simp add: sync_def)

lemma run_attempt [simp]: "run (attempt f) s = f s"
  by (simp add: attempt_def)

lemma run_inspect [simp]: "run (inspect f) s = (Inr (f s), s)"
  by (simp add: inspect_def)

lemma run_modify [simp]: "run (modify u) s = (Inr (), u s)"
  by (simp add: modify_def)

section \<open>Executing several functions\<close>

fun settled :: "('s, 'e, 'a) async \<Rightarrow> ('e + 'a) option" where
  "settled (Return x) = Some (Inr x)"
| "settled (Throw e) = Some (Inl e)"
| "settled (Step u k) = None"

fun run_all :: "('s, 'e, 'a) async list \<Rightarrow> 's \<Rightarrow> ('e + 'a) list \<times> 's" where
  "run_all [] s = ([], s)"
| "run_all (p # ps) s = (let (r, t) = run p s; (rs, v) = run_all ps t in (r # rs, v))"

text \<open>A turn that names a function that is done, or none, does nothing.\<close>

fun advance_one :: "nat \<Rightarrow> ('s, 'e, 'a) async list \<times> 's \<Rightarrow> ('s, 'e, 'a) async list \<times> 's" where
  "advance_one n (ps, s) =
     (if n < length ps then (case ps ! n of Step u k \<Rightarrow> (ps[n := k s], u s) | _ \<Rightarrow> (ps, s)) else (ps, s))"

text \<open>When the schedule is used up, the functions that are left run one after the other.\<close>

definition interleave :: "nat list \<Rightarrow> ('s, 'e, 'a) async list \<Rightarrow> 's \<Rightarrow> ('e + 'a) list \<times> 's" where
  "interleave sched ps s = (let (qs, t) = fold advance_one sched (ps, s) in run_all qs t)"

inductive par_step :: "('s, 'e, 'a) async list \<times> 's \<Rightarrow> ('s, 'e, 'a) async list \<times> 's \<Rightarrow> bool" where
  par_step: "n < length ps \<Longrightarrow> ps ! n = Step u k \<Longrightarrow> par_step (ps, s) (ps[n := k s], u s)"

inductive_cases par_stepE: "par_step (ps, s) c"

lemma advance_one_steps: "par_step\<^sup>*\<^sup>* c (advance_one n c)"
proof (cases c)
  case (Pair ps s)
  show ?thesis
  proof (cases "n < length ps \<and> settled (ps ! n) = None")
    case True
    then obtain u k where k: "ps ! n = Step u k"
      by (cases "ps ! n") auto
    have "par_step (ps, s) (ps[n := k s], u s)"
      using True k by (intro par_step) auto
    then show ?thesis
      using True k Pair by auto
  next
    case False
    then show ?thesis
      using Pair by (cases "ps ! n") auto
  qed
qed

lemma schedule_steps: "par_step\<^sup>*\<^sup>* c (fold advance_one sched c)"
proof (induction sched arbitrary: c)
  case (Cons n sched)
  show ?case
    using rtranclp_trans [OF advance_one_steps [of c n] Cons.IH [of "advance_one n c"]] by simp
qed simp

lemma par_step_left:
  assumes "par_step\<^sup>*\<^sup>* (ps, s) (qs, t)"
  shows "par_step\<^sup>*\<^sup>* (p # ps, s) (p # qs, t)"
  using assms
proof (induction rule: rtranclp_induct2)
  case (step qs t qs' t')
  from step(2) obtain n u k where k: "n < length qs" "qs ! n = Step u k" "qs' = qs[n := k t]" "t' = u t"
    by (auto elim: par_stepE)
  have "par_step (p # qs, t) ((p # qs)[Suc n := k t], u t)"
    using k by (intro par_step) auto
  then show ?case
    using step(3) k by (auto intro: rtranclp.rtrancl_into_rtrancl)
qed simp

lemma run_steps: "\<exists>q. settled q = Some (fst (run p s)) \<and> par_step\<^sup>*\<^sup>* (p # ps, s) (q # ps, snd (run p s))"
proof (induction p arbitrary: s)
  case (Return x)
  show ?case by (rule exI [of _ "Return x"]) simp
next
  case (Throw e)
  show ?case by (rule exI [of _ "Throw e"]) simp
next
  case (Step u k)
  obtain q where q: "settled q = Some (fst (run (k s) (u s)))" "par_step\<^sup>*\<^sup>* (k s # ps, u s) (q # ps, snd (run (k s) (u s)))"
    using Step [of "k s" "u s"] by auto
  have "par_step (Step u k # ps, s) ((Step u k # ps)[0 := k s], u s)"
    by (rule par_step) auto
  then show ?case
    using q by (auto intro: converse_rtranclp_into_rtranclp)
qed

lemma run_all_steps:
  "\<exists>qs. map settled qs = map Some (fst (run_all ps s)) \<and> par_step\<^sup>*\<^sup>* (ps, s) (qs, snd (run_all ps s))"
proof (induction ps arbitrary: s)
  case (Cons p ps)
  obtain r t where r: "run p s = (r, t)" by (cases "run p s")
  obtain rs v where rs: "run_all ps t = (rs, v)" by (cases "run_all ps t")
  obtain q where q: "settled q = Some r" "par_step\<^sup>*\<^sup>* (p # ps, s) (q # ps, t)"
    using run_steps [of p s ps] r by auto
  obtain qs where qs: "map settled qs = map Some rs" "par_step\<^sup>*\<^sup>* (ps, t) (qs, v)"
    using Cons.IH [of t] rs by auto
  have "par_step\<^sup>*\<^sup>* (p # ps, s) (q # qs, v)"
    using rtranclp_trans [OF q(2) par_step_left [OF qs(2)]] .
  then show ?case
    using q(1) qs(1) r rs by (intro exI [of _ "q # qs"]) auto
qed simp

lemma run_all_settled: "map settled ps = map Some rs \<Longrightarrow> run_all ps s = (rs, s)"
proof (induction ps arbitrary: rs)
  case (Cons p ps)
  then obtain r rs' where "rs = r # rs'" "settled p = Some r" "map settled ps = map Some rs'"
    by (cases rs) auto
  then show ?case
    using Cons.IH [of rs'] by (cases p) auto
qed simp

lemma steps_schedule:
  assumes "par_step\<^sup>*\<^sup>* c d"
  shows "\<exists>sched. fold advance_one sched c = d"
  using assms
proof (induction rule: converse_rtranclp_induct)
  case base
  show ?case by (rule exI [of _ "[]"]) simp
next
  case (step c c')
  obtain sched where sched: "fold advance_one sched c' = d"
    using step.IH by blast
  obtain ps s where c: "c = (ps, s)"
    by (cases c)
  from step(1) obtain n u k where "n < length ps" "ps ! n = Step u k" "c' = (ps[n := k s], u s)"
    unfolding c by (auto elim: par_stepE)
  then show ?case
    using sched c by (intro exI [of _ "n # sched"]) auto
qed

text \<open>The schedules are exactly the interleavings.\<close>

theorem interleave_complete:
  "(\<exists>sched. interleave sched ps s = (rs, t))
   \<longleftrightarrow> (\<exists>qs. par_step\<^sup>*\<^sup>* (ps, s) (qs, t) \<and> map settled qs = map Some rs)"
proof
  assume "\<exists>sched. interleave sched ps s = (rs, t)"
  then obtain sched where i: "interleave sched ps s = (rs, t)" by blast
  obtain qs v where f: "fold advance_one sched (ps, s) = (qs, v)"
    by (cases "fold advance_one sched (ps, s)")
  have s: "fold advance_one sched (ps, s) = (qs, v)" "run_all qs v = (rs, t)"
    using i f by (simp_all add: interleave_def)
  obtain qs' where "map settled qs' = map Some rs" "par_step\<^sup>*\<^sup>* (qs, v) (qs', t)"
    using run_all_steps [of qs v] s(2) by auto
  then show "\<exists>qs. par_step\<^sup>*\<^sup>* (ps, s) (qs, t) \<and> map settled qs = map Some rs"
    using schedule_steps [of "(ps, s)" sched] s(1) by (auto intro: rtranclp_trans)
next
  assume "\<exists>qs. par_step\<^sup>*\<^sup>* (ps, s) (qs, t) \<and> map settled qs = map Some rs"
  then obtain qs where qs: "par_step\<^sup>*\<^sup>* (ps, s) (qs, t)" "map settled qs = map Some rs" by blast
  obtain sched where "fold advance_one sched (ps, s) = (qs, t)"
    using steps_schedule [OF qs(1)] by blast
  then show "\<exists>sched. interleave sched ps s = (rs, t)"
    using run_all_settled [OF qs(2)] by (intro exI [of _ sched]) (simp add: interleave_def)
qed

lemma interleave_steps:
  "\<exists>qs. par_step\<^sup>*\<^sup>* (ps, s) (qs, snd (interleave sched ps s))
        \<and> map settled qs = map Some (fst (interleave sched ps s))"
  using interleave_complete [of ps s "fst (interleave sched ps s)" "snd (interleave sched ps s)"]
  by (metis prod.collapse)

section \<open>What a function returns\<close>

text \<open>Every value that \<open>p\<close> can return satisfies \<open>P\<close>.\<close>

primrec returns :: "('a \<Rightarrow> bool) \<Rightarrow> ('s, 'e, 'a) async \<Rightarrow> bool" where
  "returns P (Return x) \<longleftrightarrow> P x"
| "returns P (Throw e) \<longleftrightarrow> True"
| "returns P (Step u k) \<longleftrightarrow> (\<forall>s. returns P (k s))"

lemma returns_True [simp]: "returns (\<lambda>_. True) p"
  by (induction p) auto

lemma returns_await:
  assumes "returns P p" and "\<And>x. P x \<Longrightarrow> returns Q (f x)"
  shows "returns Q (await p f)"
  using assms by (induction p) auto

lemma returns_await_any: "(\<And>x. returns Q (f x)) \<Longrightarrow> returns Q (await p f)"
  by (rule returns_await [of "\<lambda>_. True"]) auto

lemma returns_weaken: "returns P p \<Longrightarrow> (\<And>x. P x \<Longrightarrow> Q x) \<Longrightarrow> returns Q p"
  by (induction p) auto

lemma returns_try_catch:
  assumes "returns P p" and "\<And>e. returns P (h e)"
  shows "returns P (try_catch p h)"
  using assms by (induction p) auto

lemma returns_run: "returns P p \<Longrightarrow> run p s = (Inr x, t) \<Longrightarrow> P x"
  by (induction p arbitrary: s) auto

lemma returns_of_result [simp]: "returns P (of_result r) \<longleftrightarrow> (\<forall>x. r = Inr x \<longrightarrow> P x)"
  by (cases r) auto

lemma returns_settled: "returns P p \<Longrightarrow> settled p = Some (Inr x) \<Longrightarrow> P x"
  by (cases p) auto

lemma returns_steps:
  assumes "par_step\<^sup>*\<^sup>* c d" and "list_all2 (\<lambda>p y. returns (P y) p) (fst c) ys"
  shows "list_all2 (\<lambda>p y. returns (P y) p) (fst d) ys"
  using assms
proof (induction rule: rtranclp_induct)
  case (step c' d)
  from step(2) show ?case
  proof (cases rule: par_step.cases)
    case (par_step n ps u k s)
    have all: "list_all2 (\<lambda>p y. returns (P y) p) ps ys"
      using step par_step by simp
    then have "returns (P (ys ! n)) (Step u k)"
      using list_all2_nthD [OF all par_step(3)] par_step by simp
    then have "list_all2 (\<lambda>p y. returns (P y) p) (ps[n := k s]) (ys[n := ys ! n])"
      by (intro list_all2_update_cong [OF all]) simp
    then show ?thesis
      using par_step by simp
  qed
qed auto

lemma returns_interleave:
  assumes "list_all2 (\<lambda>p y. returns (P y) p) ps ys"
  shows "list_all2 (\<lambda>r y. \<forall>x. r = Inr x \<longrightarrow> P y x) (fst (interleave sched ps s)) ys"
proof -
  obtain qs where qs: "par_step\<^sup>*\<^sup>* (ps, s) (qs, snd (interleave sched ps s))"
      "map settled qs = map Some (fst (interleave sched ps s))"
    using interleave_steps [of ps s sched] by blast
  have all: "list_all2 (\<lambda>p y. returns (P y) p) qs ys"
    using returns_steps [OF qs(1), of P ys] assms by simp
  show ?thesis
    unfolding list_all2_conv_all_nth
  proof (intro conjI allI impI)
    show len: "length (fst (interleave sched ps s)) = length ys"
      using qs(2) all by (metis length_map list_all2_lengthD)
    fix i x
    assume i: "i < length (fst (interleave sched ps s))" and x: "fst (interleave sched ps s) ! i = Inr x"
    then have "settled (qs ! i) = Some (Inr x)"
      using qs(2) by (metis length_map nth_map)
    then show "P (ys ! i) x"
      using returns_settled list_all2_nthD2 [OF all, of i] i len by simp
  qed
qed

section \<open>Partial correctness\<close>

text \<open>
  From a state with \<open>P\<close>, a return of \<open>x\<close> leaves a state with \<open>Q x\<close>.
\<close>

definition triple :: "('s \<Rightarrow> bool) \<Rightarrow> ('s, 'e, 'a) async \<Rightarrow> ('a \<Rightarrow> 's \<Rightarrow> bool) \<Rightarrow> bool" where
  "triple P p Q \<longleftrightarrow> (\<forall>s x t. P s \<longrightarrow> run p s = (Inr x, t) \<longrightarrow> Q x t)"

named_theorems triples

lemma tripleD: "triple P p Q \<Longrightarrow> P s \<Longrightarrow> run p s = (Inr x, t) \<Longrightarrow> Q x t"
  unfolding triple_def by blast

lemma triple_Return: "(\<And>s. P s \<Longrightarrow> Q x s) \<Longrightarrow> triple P (Return x) Q"
  by (simp add: triple_def)

lemma triple_Throw: "triple P (Throw e) Q"
  by (simp add: triple_def)

lemma triple_await:
  assumes "triple P p R" and "\<And>x. triple (R x) (f x) Q"
  shows "triple P (await p f) Q"
  unfolding triple_def
proof (intro allI impI)
  fix s y v
  assume P: "P s" and r: "run (await p f) s = (Inr y, v)"
  obtain x t where x: "run p s = (Inr x, t)" "run (f x) t = (Inr y, v)"
    using r by (auto simp: run_await split: prod.splits sum.splits)
  then have "R x t"
    using assms(1) P unfolding triple_def by blast
  then show "Q y v"
    using assms(2) [of x] x(2) unfolding triple_def by blast
qed

lemma triple_conseq:
  assumes "triple P' p Q'" and "\<And>s. P s \<Longrightarrow> P' s" and "\<And>x s. Q' x s \<Longrightarrow> Q x s"
  shows "triple P p Q"
  unfolding triple_def
proof (intro allI impI)
  fix s x t
  assume "P s" and "run p s = (Inr x, t)"
  then have "Q' x t"
    using assms(1) assms(2) [of s] unfolding triple_def by blast
  then show "Q x t"
    by (rule assms(3))
qed

lemma triple_of_result: "(\<And>s x. P s \<Longrightarrow> r = Inr x \<Longrightarrow> Q x s) \<Longrightarrow> triple P (of_result r) Q"
  by (auto simp: triple_def)

lemma triple_inspect: "(\<And>s. P s \<Longrightarrow> Q (f s) s) \<Longrightarrow> triple P (inspect f) Q"
  by (auto simp: triple_def)

lemma triple_returns:
  assumes "triple P p (\<lambda>_. Q)" and "returns R p"
  shows "triple P p (\<lambda>x s. R x \<and> Q s)"
  unfolding triple_def
proof (intro allI impI conjI)
  fix s x t
  assume s: "P s" and r: "run p s = (Inr x, t)"
  show "R x"
    by (rule returns_run [OF assms(2) r])
  show "Q t"
    using assms(1) s r unfolding triple_def by blast
qed

section \<open>What a function writes to the log\<close>

text \<open>
  The state has a log that a step may only extend. \<open>writes log A p\<close>: every step of \<open>p\<close> adds only
  items of \<open>A\<close>, whatever the state and however \<open>p\<close> is interleaved with others.
\<close>

primrec writes :: "('s \<Rightarrow> 'i list) \<Rightarrow> 'i set \<Rightarrow> ('s, 'e, 'a) async \<Rightarrow> bool" where
  "writes log A (Return x) \<longleftrightarrow> True"
| "writes log A (Throw e) \<longleftrightarrow> True"
| "writes log A (Step u k) \<longleftrightarrow>
     (\<forall>s. \<exists>xs. log (u s) = log s @ xs \<and> set xs \<subseteq> A) \<and> (\<forall>s. writes log A (k s))"

named_theorems writes_intros

lemma writes_simple [writes_intros]: "writes log A (Return x)" "writes log A (Throw e)" "writes log A (of_result r)"
  by (cases r; simp)+

lemma writes_await [writes_intros]:
  assumes "writes log A p" and "\<And>x. writes log A (f x)"
  shows "writes log A (await p f)"
  using assms by (induction p) auto

lemma writes_await_returns:
  assumes "writes log A p" and "returns P p" and "\<And>x. P x \<Longrightarrow> writes log A (f x)"
  shows "writes log A (await p f)"
  using assms by (induction p) auto

lemma writes_try_catch [writes_intros]:
  assumes "writes log A p" and "\<And>e. writes log A (h e)"
  shows "writes log A (try_catch p h)"
  using assms by (induction p) auto

lemma writes_settling [writes_intros]: "writes log A p \<Longrightarrow> writes log A (settling p)"
  by (induction p) auto

lemma writes_inspect [writes_intros]: "writes log A (inspect f)"
  by (auto simp: inspect_def)

lemma writes_sync: "(\<And>s. \<exists>xs. log (snd (f s)) = log s @ xs \<and> set xs \<subseteq> A) \<Longrightarrow> writes log A (sync f)"
  by (auto simp: sync_def)

lemma writes_attempt: "(\<And>s. \<exists>xs. log (snd (f s)) = log s @ xs \<and> set xs \<subseteq> A) \<Longrightarrow> writes log A (attempt f)"
  by (auto simp: attempt_def intro: writes_simple)

lemma writes_modify: "(\<And>s. \<exists>xs. log (u s) = log s @ xs \<and> set xs \<subseteq> A) \<Longrightarrow> writes log A (modify u)"
  by (auto simp: modify_def)

lemma writes_zoom: "(\<And>w s. log (put w s) = log s) \<Longrightarrow> writes log A (zoom g put p)"
  by (induction p) auto

lemma writes_for_each [writes_intros]:
  "(\<And>x. x \<in> set xs \<Longrightarrow> writes log A (f x)) \<Longrightarrow> writes log A (for_each f xs)"
  by (induction xs) (auto intro!: writes_await)

lemma writes_mono: "writes log A p \<Longrightarrow> A \<subseteq> B \<Longrightarrow> writes log B p"
  by (induction p) (auto, meson subset_trans)

lemma writes_run:
  assumes "writes log A p"
  shows "\<exists>xs. log (snd (run p s)) = log s @ xs \<and> set xs \<subseteq> A"
  using assms
proof (induction p arbitrary: s)
  case (Step u k)
  obtain xs where xs: "log (u s) = log s @ xs" "set xs \<subseteq> A"
    using Step.prems unfolding writes.simps by blast
  obtain ys where "log (snd (run (k s) (u s))) = log (u s) @ ys" "set ys \<subseteq> A"
    using Step.IH [of "k s" "u s"] Step.prems by auto
  then show ?case
    using xs by (intro exI [of _ "xs @ ys"]) auto
qed auto

lemma writes_step:
  assumes "par_step c d" and "\<And>p. p \<in> set (fst c) \<Longrightarrow> writes log A p"
  shows "(\<exists>xs. log (snd d) = log (snd c) @ xs \<and> set xs \<subseteq> A) \<and> (\<forall>p\<in>set (fst d). writes log A p)"
  using assms
proof (cases rule: par_step.cases)
  case (par_step n ps u k s)
  then have w: "writes log A (Step u k)"
    using assms(2) [of "Step u k"] nth_mem [of n ps] by auto
  have "\<forall>p\<in>set (ps[n := k s]). writes log A p"
    using assms(2) par_step(1) w set_update_subset_insert [of ps n "k s"] by auto
  then show ?thesis
    using w par_step by auto
qed

lemma writes_steps:
  assumes "par_step\<^sup>*\<^sup>* c d" and "\<forall>p\<in>set (fst c). writes log A p"
  shows "(\<exists>xs. log (snd d) = log (snd c) @ xs \<and> set xs \<subseteq> A) \<and> (\<forall>p\<in>set (fst d). writes log A p)"
  using assms
proof (induction rule: rtranclp_induct)
  case (step c' d)
  then obtain xs where xs: "log (snd c') = log (snd c) @ xs" "set xs \<subseteq> A" and w: "\<forall>p\<in>set (fst c'). writes log A p"
    by blast
  obtain ys where "log (snd d) = log (snd c') @ ys" "set ys \<subseteq> A" "\<forall>p\<in>set (fst d). writes log A p"
    using writes_step [OF step(2), of log A] w by blast
  then show ?case
    using xs by (intro conjI exI [of _ "xs @ ys"]) auto
qed auto

lemma writes_interleave:
  assumes "\<forall>p\<in>set ps. writes log A p"
  shows "\<exists>xs. log (snd (interleave sched ps s)) = log s @ xs \<and> set xs \<subseteq> A"
  using interleave_steps [of ps s sched] writes_steps [of "(ps, s)" _ log A] assms by fastforce

section \<open>Balance of the log\<close>

text \<open>
  Items of the log have a weight, \<open>1\<close> for what opens something and \<open>-1\<close> for what closes it.
  \<open>owes log w E R d p\<close>: the items that \<open>p\<close> still writes weigh \<open>d\<close> together, up to the remainder
  that \<open>R\<close> allows with the returned value or \<open>E\<close> with the thrown one. What functions owe adds up
  in every interleaving of them.
\<close>

definition weigh :: "('i \<Rightarrow> int) \<Rightarrow> 'i list \<Rightarrow> int" where
  "weigh w xs = sum_list (map w xs)"

lemma weigh_simps [simp]:
  "weigh w [] = 0" "weigh w (x # xs) = w x + weigh w xs" "weigh w (xs @ ys) = weigh w xs + weigh w ys"
  by (simp_all add: weigh_def)

primrec owes :: "('s \<Rightarrow> 'i list) \<Rightarrow> ('i \<Rightarrow> int) \<Rightarrow> ('e \<Rightarrow> int \<Rightarrow> bool) \<Rightarrow> ('a \<Rightarrow> int \<Rightarrow> bool)
    \<Rightarrow> ('s, 'e, 'a) async \<Rightarrow> int \<Rightarrow> bool" where
  "owes log w E R (Return x) = R x"
| "owes log w E R (Throw e) = E e"
| "owes log w E R (Step u k) =
     (\<lambda>d. \<forall>s. \<exists>xs. log (u s) = log s @ xs \<and> owes log w E R (k s) (d - weigh w xs))"

lemma owes_await: "owes log w E R (await p f) d = owes log w E (\<lambda>x. owes log w E R (f x)) p d"
  by (induction p arbitrary: d) auto

lemma owes_try_catch: "owes log w E R (try_catch p h) d = owes log w (\<lambda>e. owes log w E R (h e)) R p d"
  by (induction p arbitrary: d) auto

lemma owes_settling: "owes log w E R (settling p) d = owes log w (\<lambda>e. R (Inl e)) (\<lambda>x. R (Inr x)) p d"
  by (induction p arbitrary: d) auto

lemma owes_of_result: "owes log w E R (of_result r) d \<longleftrightarrow> (case r of Inl e \<Rightarrow> E e d | Inr x \<Rightarrow> R x d)"
  by (cases r) auto

lemma owes_weaken:
  assumes "owes log w E R p d" and "\<And>e d. E e d \<Longrightarrow> E' e d" and "\<And>x d. R x d \<Longrightarrow> R' x d"
  shows "owes log w E' R' p d"
  using assms(1)
proof (induction p arbitrary: d)
  case (Step u k)
  then show ?case by (simp) (meson rangeI)
qed (auto intro: assms)

text \<open>A function that writes only weightless items owes what it owed before.\<close>

lemma weigh_zero: "\<forall>x\<in>set xs. w x = 0 \<Longrightarrow> weigh w xs = 0"
  by (induction xs) auto

lemma owes_weightless:
  assumes "writes log {x. w x = 0} p" and "\<And>e. E e d" and "\<And>x. R x d"
  shows "owes log w E R p d"
  using assms(1)
proof (induction p)
  case (Step u k)
  show ?case
    unfolding owes.simps
  proof
    fix s
    obtain xs where "log (u s) = log s @ xs" "set xs \<subseteq> {x. w x = 0}"
      using Step.prems unfolding writes.simps by blast
    moreover from this have "weigh w xs = 0"
      by (intro weigh_zero) auto
    ultimately show "\<exists>xs. log (u s) = log s @ xs \<and> owes log w E R (k s) (d - weigh w xs)"
      using Step.IH [of "k s"] Step.prems by (intro exI [of _ xs]) simp
  qed
qed (auto simp: assms)

lemma owes_run:
  assumes "owes log w E R p d"
  shows "\<exists>d'. weigh w (log (snd (run p s))) = weigh w (log s) + d - d'
              \<and> (case fst (run p s) of Inl e \<Rightarrow> E e d' | Inr x \<Rightarrow> R x d')"
  using assms
proof (induction p arbitrary: s d)
  case (Step u k)
  obtain xs where xs: "log (u s) = log s @ xs" "owes log w E R (k s) (d - weigh w xs)"
    using Step.prems unfolding owes.simps by blast
  obtain d' where "weigh w (log (snd (run (k s) (u s)))) = weigh w (log (u s)) + (d - weigh w xs) - d'"
      "case fst (run (k s) (u s)) of Inl e \<Rightarrow> E e d' | Inr x \<Rightarrow> R x d'"
    using Step.IH [OF _ xs(2), of "u s"] by auto
  then show ?case
    using xs(1) by (intro exI [of _ d']) simp
qed auto

lemma sum_list_replace: "n < length ds \<Longrightarrow> sum_list (ds[n := x]) = sum_list ds + x - ds ! n" for ds :: "int list"
  by (induction ds arbitrary: n) (auto split: nat.splits)

lemma owes_step:
  assumes "par_step c c'" and "list_all2 (owes log w E R) (fst c) ds"
  shows "\<exists>ds'. list_all2 (owes log w E R) (fst c') ds'
               \<and> weigh w (log (snd c')) + sum_list ds' = weigh w (log (snd c)) + sum_list ds"
  using assms(1)
proof (cases rule: par_step.cases)
  case (par_step n ps u k s)
  have len: "length ds = length ps" and n: "owes log w E R (Step u k) (ds ! n)"
    using assms(2) par_step list_all2_nthD [of "owes log w E R" ps ds n] by (auto dest: list_all2_lengthD)
  obtain xs where xs: "log (u s) = log s @ xs" "owes log w E R (k s) (ds ! n - weigh w xs)"
    using n unfolding owes.simps by blast
  have "list_all2 (owes log w E R) (ps[n := k s]) (ds[n := ds ! n - weigh w xs])"
    using assms(2) par_step xs(2) by (intro list_all2_update_cong) auto
  moreover have "sum_list (ds[n := ds ! n - weigh w xs]) = sum_list ds - weigh w xs"
    using par_step(3) len by (simp add: sum_list_replace)
  ultimately show ?thesis
    using xs(1) par_step by (intro exI [of _ "ds[n := ds ! n - weigh w xs]"]) simp
qed

lemma owes_steps:
  assumes "par_step\<^sup>*\<^sup>* c c'" and "list_all2 (owes log w E R) (fst c) ds"
  shows "\<exists>ds'. list_all2 (owes log w E R) (fst c') ds'
               \<and> weigh w (log (snd c')) + sum_list ds' = weigh w (log (snd c)) + sum_list ds"
  using assms
proof (induction rule: rtranclp_induct)
  case (step c' c'')
  then obtain ds' where "list_all2 (owes log w E R) (fst c') ds'"
      "weigh w (log (snd c')) + sum_list ds' = weigh w (log (snd c)) + sum_list ds" by blast
  then show ?case
    using owes_step [OF step(2), of log w E R ds'] by auto
qed auto

definition remainder :: "('e \<Rightarrow> int \<Rightarrow> bool) \<Rightarrow> ('a \<Rightarrow> int \<Rightarrow> bool) \<Rightarrow> 'e + 'a \<Rightarrow> int \<Rightarrow> bool" where
  "remainder E R r = (case r of Inl e \<Rightarrow> E e | Inr x \<Rightarrow> R x)"

lemma owes_settled: "settled p = Some r \<Longrightarrow> owes log w E R p = remainder E R r"
  by (cases p) (auto simp: remainder_def)

theorem owes_interleave:
  assumes "list_all2 (owes log w E R) ps ds"
  shows "\<exists>ds'. list_all2 (remainder E R) (fst (interleave sched ps s)) ds'
               \<and> weigh w (log (snd (interleave sched ps s))) + sum_list ds' = weigh w (log s) + sum_list ds"
proof -
  obtain qs where qs: "par_step\<^sup>*\<^sup>* (ps, s) (qs, snd (interleave sched ps s))"
      "map settled qs = map Some (fst (interleave sched ps s))"
    using interleave_steps [of ps s sched] by blast
  obtain ds' where ds': "list_all2 (owes log w E R) qs ds'"
      "weigh w (log (snd (interleave sched ps s))) + sum_list ds' = weigh w (log s) + sum_list ds"
    using owes_steps [OF qs(1), of log w E R ds] assms by auto
  have "list_all2 (remainder E R) (fst (interleave sched ps s)) ds'"
    unfolding list_all2_conv_all_nth
  proof (intro conjI allI impI)
    show len: "length (fst (interleave sched ps s)) = length ds'"
      using qs(2) ds'(1) by (metis length_map list_all2_lengthD)
    fix i
    assume i: "i < length (fst (interleave sched ps s))"
    then have "settled (qs ! i) = Some (fst (interleave sched ps s) ! i)"
      using qs(2) by (metis length_map nth_map)
    then show "remainder E R (fst (interleave sched ps s) ! i) (ds' ! i)"
      using owes_settled [of "qs ! i" _ log w E R] list_all2_nthD2 [OF ds'(1), of i] i len by simp
  qed
  then show ?thesis
    using ds'(2) by blast
qed

end
