(* ===== verification/AgentTypes.thy ===== *)
theory AgentTypes
  imports Async SessionTypes ResourceScheduler
begin

text \<open>
  The data of the agent loop (\<open>packages/agent/src/types.ts\<close>, \<open>execution-events.ts\<close>,
  \<open>tool-plan.ts\<close>, \<open>step-snapshot.ts\<close>): tools, contexts, the configuration of a run with its
  callbacks, and the events a run emits. The rest of the process (listeners, hooks, tools, the
  provider, the scheduler, the abort signal) is a world of type \<open>'w\<close>: a callback is an
  asynchronous function on it and may change it in any way, and every read of the abort signal
  looks at it. The state of a run is that world and the log of what the loop did to it. An absent
  optional callback is the one that returns \<open>undefined\<close> at once, where the code does not
  distinguish the two. Callbacks do not change the message arrays they are handed.
\<close>

section \<open>Errors and results of tools\<close>

datatype execution_outcome = NotStarted | Confirmed | Unknown

record agent_tool_error =
  te_message :: string
  te_details :: "json option"
  te_executionOutcome :: execution_outcome
  te_structuredContent :: "json option"
  te_nestedCalls :: "json option"
  te_nestedUnknown :: bool
  te_usage :: "usage option"

datatype thrown =
    PlainError string
  | ToolError agent_tool_error
  | OtherThrown string

text \<open>\<open>error instanceof Error ? error.message : String(error)\<close>, and the details of an \<open>AgentToolError\<close>.\<close>

fun thrown_text :: "thrown \<Rightarrow> string" where
  "thrown_text (PlainError m) = m"
| "thrown_text (ToolError e) = te_message e"
| "thrown_text (OtherThrown m) = m"

fun thrown_details :: "thrown \<Rightarrow> json option" where
  "thrown_details (ToolError e) = te_details e"
| "thrown_details e = None"

record agent_tool_result =
  ar_content :: "content_block list option"
  ar_details :: "json option"
  ar_structuredContent :: "json option"
  ar_nestedCalls :: "json option"
  ar_nestedUnknown :: bool
  ar_usage :: "usage option"
  ar_addedToolNames :: "string list option"
  ar_terminate :: "bool option"

definition createErrorToolResult :: "string \<Rightarrow> json option \<Rightarrow> agent_tool_result" where
  "createErrorToolResult message details =
     \<lparr>ar_content = Some [TextBlock message []],
      ar_details = Some (case details of None \<Rightarrow> JObject [] | Some d \<Rightarrow> d),
      ar_structuredContent = None, ar_nestedCalls = None, ar_nestedUnknown = False, ar_usage = None,
      ar_addedToolNames = None, ar_terminate = None\<rparr>"

section \<open>Tools\<close>

text \<open>
  An execution of a tool: it returns, throws, changes the world, or calls \<open>onUpdate\<close>. A call of
  \<open>onUpdate\<close> after the tool has settled is ignored by the loop and is no step.
\<close>

datatype (dead 'w) tool_run =
    ToolReturns agent_tool_result
  | ToolThrows thrown
  | ToolStep "'w \<Rightarrow> 'w" "'w \<Rightarrow> 'w tool_run"
  | ToolUpdate agent_tool_result "'w tool_run"

datatype execution_mode = Sequential | Parallel

record 'w agent_tool =
  at_name :: string
  at_parameters :: json
  at_contract :: "json option"
  at_orchestratesTools :: bool
  at_executionMode :: "execution_mode option"
  at_executionResource :: "resource_request option"
  at_prepareArguments :: "(json \<Rightarrow> thrown + json) option"
  at_execute :: "string \<Rightarrow> json \<Rightarrow> 'w tool_run"
  at_extra :: json_fields

record 'w tool_plan =
  tp_revision :: nat
  tp_identity :: string
  tp_tools :: "'w agent_tool list"
  tp_bindings :: "(string \<times> 'w agent_tool) list"

record 'w agent_context =
  cx_systemPrompt :: string
  cx_messages :: "agent_message list"
  cx_tools :: "'w agent_tool list option"
  cx_toolPlan :: "'w tool_plan option"

fun cloneToolSchema :: "json \<Rightarrow> json" where
  "cloneToolSchema (JArray vs) = JArray (map cloneToolSchema vs)"
| "cloneToolSchema (JObject fs) = JObject (map (\<lambda>(k, v). (k, cloneToolSchema v)) fs)"
| "cloneToolSchema v = v"

definition plan_tool :: "'w agent_tool \<Rightarrow> 'w agent_tool" where
  "plan_tool t =
     t\<lparr>at_parameters := cloneToolSchema (at_parameters t), at_contract := map_option cloneToolSchema (at_contract t)\<rparr>"

definition createToolPlan :: "'w agent_tool list \<Rightarrow> nat \<Rightarrow> string \<Rightarrow> 'w tool_plan" where
  "createToolPlan tools revision ident =
     (let planned = foldl (\<lambda>m t. AList.update (at_name t) (plan_tool t) m) [] tools;
          ts = map snd planned
      in \<lparr>tp_revision = revision, tp_identity = ident, tp_tools = ts,
          tp_bindings = foldl (\<lambda>b t. AList.update (at_name t) t b) [] ts\<rparr>)"

section \<open>Events\<close>

datatype assistant_event =
    StartEvent assistant_message
  | TextStart nat assistant_message
  | TextDelta nat string assistant_message
  | TextEnd nat string assistant_message bool
  | ThinkingStart nat assistant_message
  | ThinkingDelta nat string assistant_message
  | ThinkingEnd nat string assistant_message bool
  | ToolcallStart nat assistant_message
  | ToolcallDelta nat string assistant_message
  | ToolcallEnd nat tool_call assistant_message bool
  | DoneEvent stop_reason assistant_message
  | ErrorEvent stop_reason assistant_message

datatype agent_event =
    AgentStart
  | AgentEnd "agent_message list"
  | TurnStart
  | TurnEnd agent_message "tool_result_message list"
  | MessageStart agent_message
  | MessageUpdate agent_message assistant_event
  | MessageEnd agent_message
  | ToolExecutionStart string string json_fields "string option"
  | ToolExecutionUpdate string string json_fields agent_tool_result "string option"
  | ToolExecutionEnd string string agent_tool_result bool "string option"

datatype execution_phase = ProviderRequest | ToolAdmission | SchedulerWait | ToolExecution | ExecutionResult
datatype phase_outcome = PhaseStarted | PhaseSucceeded | PhaseFailed | PhaseDenied | PhaseCancelled

text \<open>The diagnostic events, without their durations.\<close>

record execution_event =
  xe_phase :: execution_phase
  xe_runId :: "string option"
  xe_stepId :: "string option"
  xe_toolPlanRevision :: "nat option"
  xe_toolCallId :: "string option"
  xe_toolName :: "string option"
  xe_outcome :: phase_outcome
  xe_reason :: "string option"

text \<open>
  The log of a run: the events emitted, the diagnostics reported, and the moments at which a
  provider request or a tool starts, a lease of the scheduler is obtained and released, a queue of
  messages is polled (with what it returned), and the tools of a turn are done (with whether all of
  them asked to end the run). Only the model has a log: the program has no such state, and nothing
  in it reads the log.
\<close>

datatype run_item =
    Emitted agent_event
  | Observed execution_event
  | ProviderInvoked string
  | ToolInvoked string json
  | LeaseAcquired nat
  | LeaseReleased nat
  | Polled "agent_message list"
  | BatchEnded bool

record 'w run_state =
  st_world :: 'w
  st_log :: "run_item list"

type_synonym ('w, 'a) callback = "('w, thrown, 'a) async"
type_synonym ('w, 'a) task = "('w run_state, thrown, 'a) async"

section \<open>Configuration\<close>

text \<open>
  A system prompt is \<open>None\<close> when the function that gives it is absent or throws.
\<close>

record model_info =
  mi_id :: string
  mi_api :: string
  mi_provider :: string

record routing =
  ro_promptCacheKey :: "string option"
  ro_cacheAffinityId :: "string option"
  ro_transport :: "string option"

record before_result =
  br_block :: bool
  br_reason :: "string option"
  br_terminate :: bool

record after_result =
  af_content :: "content_block list option"
  af_structuredContent :: "json option"
  af_details :: "json option"
  af_isError :: "bool option"
  af_usage :: "usage option"
  af_terminate :: "bool option"

record admission_result =
  ad_allow :: "bool option"
  ad_reason :: "string option"

record 'w turn_update =
  tu_context :: "'w agent_context option"
  tu_model :: "model_info option"
  tu_thinkingLevel :: "string option"

record 'w turn_context =
  tn_message :: assistant_message
  tn_toolResults :: "tool_result_message list"
  tn_context :: "'w agent_context"
  tn_newMessages :: "agent_message list"

record 'w execution_scheduler =
  es_acquire :: "resource_request option \<Rightarrow> ('w, nat option) callback"
  es_release :: "nat \<Rightarrow> 'w \<Rightarrow> 'w"

text \<open>What \<open>onToolResult\<close> is told beside the message.\<close>

record tool_result_info =
  ti_assistantMessage :: assistant_message
  ti_toolCall :: tool_call
  ti_terminate :: bool
  ti_executionOutcome :: execution_outcome
  ti_parentToolCallId :: "string option"

text \<open>
  A request that the provider has accepted: the events of the response, each awaited in turn, and
  the final message (\<open>response.result()\<close>). The context of a request is its system prompt, its
  messages and its tools.
\<close>

record 'w provider_context =
  pc_systemPrompt :: string
  pc_messages :: "agent_message list"
  pc_tools :: "'w agent_tool list option"

record 'w response =
  rp_events :: "('w, assistant_event) callback list"
  rp_result :: "('w, assistant_message) callback"

record 'w loop_config =
  lc_model :: model_info
  lc_reasoning :: "string option"
  lc_apiKey :: "string option"
  lc_routing :: routing
  lc_runId :: "string option"
  lc_stepId :: "string option"
  lc_toolPlanRevision :: "nat option"
  lc_parentToolCallId :: "string option"
  lc_toolExecution :: "execution_mode option"
  lc_convertToLlm :: "agent_message list \<Rightarrow> ('w, agent_message list) callback"
  lc_transformContext :: "agent_message list \<Rightarrow> ('w, agent_message list) callback"
  lc_getSystemPrompt :: "'w \<Rightarrow> string option"
  lc_getRequestRouting :: "'w \<Rightarrow> routing option"
  lc_onProviderContext :: "model_info \<Rightarrow> 'w provider_context \<Rightarrow> 'w \<Rightarrow> 'w"
  lc_onExecutionEvent :: "execution_event \<Rightarrow> 'w \<Rightarrow> 'w"
  lc_onCompletedOutputItem :: "string option \<Rightarrow> nat \<Rightarrow> content_block \<Rightarrow> assistant_message \<Rightarrow> ('w, unit) callback"
  lc_onToolResult :: "tool_result_message \<Rightarrow> tool_result_info \<Rightarrow> ('w, unit) callback"
  lc_beforeToolDispatch :: "string option \<Rightarrow> tool_call \<Rightarrow> 'w agent_tool \<Rightarrow> json \<Rightarrow> ('w, unit) callback"
  lc_admitEffect :: "'w \<Rightarrow> (thrown + bool) \<times> 'w"
  lc_admitToolCall :: "(string option \<Rightarrow> tool_call \<Rightarrow> 'w agent_tool \<Rightarrow> json \<Rightarrow> ('w, admission_result option) callback) option"
  lc_executionScheduler :: "'w execution_scheduler option"
  lc_getApiKey :: "string \<Rightarrow> ('w, string option) callback"
  lc_shouldStopAfterTurn :: "'w turn_context \<Rightarrow> ('w, bool) callback"
  lc_prepareRequest :: "'w agent_context \<Rightarrow> model_info \<Rightarrow> string \<Rightarrow> ('w, 'w turn_update option) callback"
  lc_prepareNextTurn :: "'w turn_context \<Rightarrow> ('w, 'w turn_update option) callback"
  lc_getSteeringMessages :: "('w, agent_message list) callback"
  lc_getFollowUpMessages :: "('w, agent_message list) callback"
  lc_beforeToolCall :: "(assistant_message \<Rightarrow> tool_call \<Rightarrow> json \<Rightarrow> 'w agent_context \<Rightarrow> ('w, before_result option \<times> json) callback) option"
  lc_afterToolCall :: "assistant_message \<Rightarrow> tool_call \<Rightarrow> json \<Rightarrow> agent_tool_result \<Rightarrow> bool \<Rightarrow> 'w agent_context
    \<Rightarrow> ('w, after_result option) callback"

text \<open>
  The process around a run: the event sink, the abort signal, the clock, the order in which the
  event loop continues the tool executions of a batch, and within one of them the tool and the
  listeners of its updates, and the functions of other packages that the
  loop calls: the validation of arguments against a schema, with the message of the error it throws
  for a value that is no tool, the classification of provider errors by their text, and the decimal
  form of a number.
\<close>

record 'w runtime =
  rt_sink :: "agent_event \<Rightarrow> ('w, unit) callback"
  rt_aborted :: "'w \<Rightarrow> bool"
  rt_now :: "'w \<Rightarrow> js_number"
  rt_schedule :: "'w \<Rightarrow> nat list"
  rt_updates :: "'w \<Rightarrow> nat list"
  rt_validate :: "'w agent_tool \<Rightarrow> tool_call \<Rightarrow> json \<Rightarrow> thrown + json"
  rt_notATool :: "string \<Rightarrow> string"
  rt_retryable :: "assistant_message \<Rightarrow> bool"
  rt_floatText :: "64 word \<Rightarrow> string"

section \<open>The primitives of a run\<close>

definition call :: "('w, 'a) callback \<Rightarrow> ('w, 'a) task" where
  "call p = zoom st_world (\<lambda>w s. s\<lparr>st_world := w\<rparr>) p"

definition add_log :: "run_item list \<Rightarrow> 'w run_state \<Rightarrow> 'w run_state" where
  "add_log xs s = s\<lparr>st_log := st_log s @ xs\<rparr>"

definition emit :: "'w runtime \<Rightarrow> agent_event \<Rightarrow> ('w, unit) task" where
  "emit rt e = await (modify (add_log [Emitted e])) (\<lambda>_. call (rt_sink rt e))"

definition reportExecution :: "'w loop_config \<Rightarrow> execution_event \<Rightarrow> ('w, unit) task" where
  "reportExecution cfg e = modify (\<lambda>s. add_log [Observed e] (s\<lparr>st_world := lc_onExecutionEvent cfg e (st_world s)\<rparr>))"

definition aborted :: "'w runtime \<Rightarrow> ('w, bool) task" where
  "aborted rt = inspect (\<lambda>s. rt_aborted rt (st_world s))"

lemma st_log_add_log [simp]: "st_log (add_log xs s) = st_log s @ xs" "st_world (add_log xs s) = st_world s"
  by (simp_all add: add_log_def)

lemma writes_call [writes_intros]: "writes st_log A (call p)"
  by (simp add: call_def writes_zoom)

lemma writes_emit [writes_intros]: "Emitted e \<in> A \<Longrightarrow> writes st_log A (emit rt e)"
  by (auto simp: emit_def intro!: writes_await writes_modify writes_call)

lemma writes_reportExecution [writes_intros]: "Observed e \<in> A \<Longrightarrow> writes st_log A (reportExecution cfg e)"
  by (auto simp: reportExecution_def intro!: writes_modify)

lemma writes_aborted [writes_intros]: "writes st_log A (aborted rt)"
  by (simp add: aborted_def writes_inspect)

lemma cloneToolSchema_id [simp]: "cloneToolSchema v = v"
  by (induction v) (auto intro!: map_idI)

end
