(* ===== verification/AgentTools.thy ===== *)
theory AgentTools
  imports AgentTypes JsonForm
begin

text \<open>
  The execution of tool calls (\<open>packages/agent/src/agent-loop.ts\<close> from
  \<open>failToolCallsFromTruncatedMessage\<close> on, \<open>tool-outcome.ts\<close>, \<open>harness/tools/bash-outcome.ts\<close>):
  a call is prepared (looked up, validated, offered to a hook), executed behind the admission
  policy, the scheduler and the last synchronous gate, finalized by a hook, persisted and
  reported. A batch runs sequentially, or prepares its calls in order and interleaves their
  executions.
\<close>

section \<open>The outcome of a failed execution\<close>

definition json_member :: "string \<Rightarrow> json_fields \<Rightarrow> json option" where
  "json_member k fs = map_of fs k"

definition hasConfirmedBashExit :: "string \<Rightarrow> json option \<Rightarrow> bool" where
  "hasConfirmedBashExit toolName details \<longleftrightarrow>
     toolName = ''bash'' \<and>
     (case details of
        Some (JObject st) \<Rightarrow>
          (case json_member ''command'' st of Some (JString c) \<Rightarrow> True | _ \<Rightarrow> False) \<and>
          (case json_member ''cwd'' st of Some (JString c) \<Rightarrow> True | _ \<Rightarrow> False) \<and>
          json_member ''terminationReason'' st = Some (JString ''exit'') \<and>
          (case json_member ''exitCode'' st of
             Some (JNumber n) \<Rightarrow> num_is_safe_integer n \<and> 0 \<le> num_int n | _ \<Rightarrow> False) \<and>
          json_member ''signal'' st = Some JNull \<and>
          json_member ''terminationRequested'' st = Some (JBool False) \<and>
          json_member ''timedOut'' st = Some (JBool False) \<and>
          json_member ''backgroundTaskId'' st = None \<and>
          (case json_member ''durationMs'' st of
             Some (JNumber n) \<Rightarrow> num_is_finite n \<and> 0 \<le> num_units n | _ \<Rightarrow> False)
      | _ \<Rightarrow> False)"

definition contract_member :: "'w agent_tool \<Rightarrow> string \<Rightarrow> json option" where
  "contract_member t k = (case at_contract t of Some (JObject c) \<Rightarrow> json_member k c | _ \<Rightarrow> None)"

definition isReplaySafeTool :: "'w agent_tool \<Rightarrow> bool" where
  "isReplaySafeTool t \<longleftrightarrow>
     \<not> at_orchestratesTools t \<and>
     (contract_member t ''readOnly'' = Some (JBool True) \<or> contract_member t ''idempotent'' = Some (JBool True)
      \<or> contract_member t ''sideEffects'' = Some (JString ''none''))"

definition same_command :: "json option \<Rightarrow> json \<Rightarrow> bool" where
  "same_command details args \<longleftrightarrow>
     (case (details, args) of
        (Some (JObject st), JObject as) \<Rightarrow>
          json_member ''command'' as \<noteq> None \<and> json_member ''command'' st = json_member ''command'' as
      | _ \<Rightarrow> False)"

definition getToolErrorOutcome :: "thrown \<Rightarrow> string \<Rightarrow> json \<Rightarrow> 'w agent_tool \<Rightarrow> execution_outcome" where
  "getToolErrorOutcome err toolName args tool =
     (let fallback = (if isReplaySafeTool tool then Confirmed else Unknown)
      in case err of
           ToolError e \<Rightarrow>
             if te_nestedUnknown e then Unknown
             else if te_executionOutcome e = NotStarted \<or> te_executionOutcome e = Confirmed then te_executionOutcome e
             else if hasConfirmedBashExit toolName (te_details e) \<and> same_command (te_details e) args then Confirmed
             else fallback
         | _ \<Rightarrow> fallback)"

section \<open>Preparation\<close>

record 'w prepared_call =
  pd_toolCall :: tool_call
  pd_tool :: "'w agent_tool"
  pd_args :: json

datatype 'w preparation = Immediate agent_tool_result bool | Prepared "'w prepared_call"

record executed_call =
  ex_result :: agent_tool_result
  ex_isError :: bool
  ex_executionOutcome :: execution_outcome

record finalized_call =
  fz_toolCall :: tool_call
  fz_result :: agent_tool_result
  fz_isError :: bool
  fz_executionOutcome :: execution_outcome
  fz_message :: "tool_result_message option"

record tool_batch_result =
  tb_messages :: "tool_result_message list"
  tb_terminate :: bool

text \<open>
  \<open>bindings[name] ?? tools?.find(\<dots>)\<close>. The bindings are an ordinary object, so a name that
  \<open>Object.prototype\<close> has and no tool bears finds the inherited value, which is no tool.
\<close>

datatype 'w tool_lookup = NoTool | InheritedValue | FoundTool "'w agent_tool"

definition object_prototype :: "string list" where
  "object_prototype = [''constructor'', ''__defineGetter__'', ''__defineSetter__'', ''hasOwnProperty'',
     ''__lookupGetter__'', ''__lookupSetter__'', ''isPrototypeOf'', ''propertyIsEnumerable'', ''toString'',
     ''valueOf'', ''__proto__'', ''toLocaleString'']"

definition find_tool :: "'w agent_context \<Rightarrow> string \<Rightarrow> 'w tool_lookup" where
  "find_tool cx name =
     (let among = (case find (\<lambda>t. at_name t = name) (case cx_tools cx of None \<Rightarrow> [] | Some ts \<Rightarrow> ts) of
                     None \<Rightarrow> NoTool | Some t \<Rightarrow> FoundTool t)
      in case cx_toolPlan cx of
           None \<Rightarrow> among
         | Some p \<Rightarrow>
             (case map_of (tp_bindings p) name of
                Some t \<Rightarrow> FoundTool t
              | None \<Rightarrow> if name \<in> set object_prototype then InheritedValue else among))"

definition prepareToolCallArguments :: "'w agent_tool \<Rightarrow> tool_call \<Rightarrow> thrown + json" where
  "prepareToolCallArguments tool tc =
     (case at_prepareArguments tool of None \<Rightarrow> Inr (JObject (tc_arguments tc)) | Some f \<Rightarrow> f (JObject (tc_arguments tc)))"

definition failed_preparation :: "string \<Rightarrow> 'w preparation" where
  "failed_preparation message = Immediate (createErrorToolResult message None) True"

definition hook_block_result :: "before_result \<Rightarrow> agent_tool_result" where
  "hook_block_result r =
     (let res = createErrorToolResult
            (case br_reason r of None \<Rightarrow> ''Tool execution was blocked''
             | Some t \<Rightarrow> if t = '''' then ''Tool execution was blocked'' else t) None
      in if br_terminate r then res\<lparr>ar_terminate := Some True\<rparr> else res)"

definition unless_aborted :: "'w runtime \<Rightarrow> ('w, 'w preparation) task \<Rightarrow> ('w, 'w preparation) task" where
  "unless_aborted rt p =
     await (aborted rt) (\<lambda>a. if a then Return (failed_preparation ''Operation aborted'') else p)"

definition prepareToolCall :: "'w runtime \<Rightarrow> 'w loop_config \<Rightarrow> 'w agent_context \<Rightarrow> assistant_message \<Rightarrow> tool_call
    \<Rightarrow> ('w, 'w preparation) task" where
  "prepareToolCall rt cfg cx am tc =
     (case find_tool cx (tc_name tc) of
        NoTool \<Rightarrow> Return (failed_preparation (''Tool '' @ tc_name tc @ '' not found''))
      | InheritedValue \<Rightarrow> Return (failed_preparation (rt_notATool rt (tc_name tc)))
      | FoundTool tool \<Rightarrow>
          try_catch
            (await (of_result (prepareToolCallArguments tool tc)) (\<lambda>pa.
             await (of_result (rt_validate rt tool tc pa)) (\<lambda>args.
             case lc_beforeToolCall cfg of
               None \<Rightarrow> unless_aborted rt (Return (Prepared \<lparr>pd_toolCall = tc, pd_tool = tool, pd_args = args\<rparr>))
             | Some hook \<Rightarrow>
                 await (call (hook am tc args cx)) (\<lambda>(verdict, args').
                 unless_aborted rt
                   (case verdict of
                      Some r \<Rightarrow>
                        if br_block r then Return (Immediate (hook_block_result r) True)
                        else await (of_result (rt_validate rt tool tc args')) (\<lambda>args''.
                          unless_aborted rt (Return (Prepared \<lparr>pd_toolCall = tc, pd_tool = tool, pd_args = args''\<rparr>)))
                    | None \<Rightarrow>
                        await (of_result (rt_validate rt tool tc args')) (\<lambda>args''.
                          unless_aborted rt (Return (Prepared \<lparr>pd_toolCall = tc, pd_tool = tool, pd_args = args''\<rparr>))))))))
            (\<lambda>e. Return (failed_preparation (thrown_text e))))"

section \<open>Execution\<close>

definition tool_event :: "'w loop_config \<Rightarrow> 'w prepared_call \<Rightarrow> execution_phase \<Rightarrow> phase_outcome \<Rightarrow> string option
    \<Rightarrow> execution_event" where
  "tool_event cfg p ph out reason =
     \<lparr>xe_phase = ph, xe_runId = lc_runId cfg, xe_stepId = lc_stepId cfg, xe_toolPlanRevision = lc_toolPlanRevision cfg,
      xe_toolCallId = Some (tc_id (pd_toolCall p)), xe_toolName = Some (tc_name (pd_toolCall p)),
      xe_outcome = out, xe_reason = reason\<rparr>"

definition not_executed :: "string \<Rightarrow> executed_call" where
  "not_executed message =
     \<lparr>ex_result = createErrorToolResult message None, ex_isError = True, ex_executionOutcome = NotStarted\<rparr>"

text \<open>The host's policy: \<open>Some\<close> the outcome of a denied call.\<close>

definition admission_stage :: "'w loop_config \<Rightarrow> string option \<Rightarrow> 'w prepared_call \<Rightarrow> ('w, executed_call option) task" where
  "admission_stage cfg parent p =
     (case lc_admitToolCall cfg of
        None \<Rightarrow> Return None
      | Some admit \<Rightarrow>
          await (reportExecution cfg (tool_event cfg p ToolAdmission PhaseStarted None)) (\<lambda>_.
          await (try_catch (call (admit parent (pd_toolCall p) (pd_tool p) (pd_args p)))
            (\<lambda>e. await (reportExecution cfg (tool_event cfg p ToolAdmission PhaseFailed (Some ''tool admission failed'')))
                   (\<lambda>_. Throw e))) (\<lambda>admission.
          case admission of
            Some a \<Rightarrow>
              if ad_allow a = Some False
              then let reason = (case ad_reason a of None \<Rightarrow> ''Tool execution was denied'' | Some r \<Rightarrow> r)
                   in await (reportExecution cfg (tool_event cfg p ToolAdmission PhaseDenied (Some reason))) (\<lambda>_.
                      await (reportExecution cfg (tool_event cfg p ExecutionResult PhaseDenied (Some reason))) (\<lambda>_.
                      Return (Some (not_executed reason))))
              else await (reportExecution cfg (tool_event cfg p ToolAdmission PhaseSucceeded None)) (\<lambda>_. Return None)
          | None \<Rightarrow> await (reportExecution cfg (tool_event cfg p ToolAdmission PhaseSucceeded None)) (\<lambda>_. Return None))))"

text \<open>
  The scheduler: the lease obtained, if there is a scheduler and it gives one; the log notes it
  when the call has returned it.
\<close>

definition acquire_lease :: "'w execution_scheduler \<Rightarrow> resource_request option \<Rightarrow> ('w, nat option) task" where
  "acquire_lease sch req =
     await (call (es_acquire sch req)) (\<lambda>l. case l of
       None \<Rightarrow> Return None
     | Some n \<Rightarrow> await (modify (add_log [LeaseAcquired n])) (\<lambda>_. Return (Some n)))"

definition release_lease :: "('w execution_scheduler \<times> nat) option \<Rightarrow> ('w, unit) task" where
  "release_lease lease =
     (case lease of
        None \<Rightarrow> Return ()
      | Some (sch, n) \<Rightarrow> modify (\<lambda>s. add_log [LeaseReleased n] (s\<lparr>st_world := es_release sch n (st_world s)\<rparr>)))"

definition scheduler_stage :: "'w loop_config \<Rightarrow> 'w execution_scheduler option \<Rightarrow> 'w prepared_call
    \<Rightarrow> ('w, executed_call + ('w execution_scheduler \<times> nat) option) task" where
  "scheduler_stage cfg scheduler p =
     (case scheduler of
        None \<Rightarrow> Return (Inr None)
      | Some sch \<Rightarrow>
          await (reportExecution cfg (tool_event cfg p SchedulerWait PhaseStarted None)) (\<lambda>_.
          await (acquire_lease sch (at_executionResource (pd_tool p))) (\<lambda>l. case l of
            None \<Rightarrow>
              await (reportExecution cfg (tool_event cfg p SchedulerWait PhaseCancelled
                (Some ''cancelled while waiting for execution resources''))) (\<lambda>_.
              await (reportExecution cfg (tool_event cfg p ExecutionResult PhaseCancelled
                (Some ''cancelled while waiting for execution resources''))) (\<lambda>_.
              Return (Inl (not_executed ''Operation aborted''))))
          | Some n \<Rightarrow>
              await (reportExecution cfg (tool_event cfg p SchedulerWait PhaseSucceeded None)) (\<lambda>_.
              Return (Inr (Some (sch, n)))))))"

text \<open>
  The last gate is synchronous with the start of the tool: in one step it asks \<open>admitEffect\<close>, reads
  the abort signal, and starts the tool when both allow it. The result is \<open>None\<close> when the tool has
  started, and otherwise the reason that is reported. The call of \<open>admitEffect\<close> stands in no \<open>try\<close>:
  what it throws leaves the execution at once, with the lease.
\<close>

definition last_gate :: "'w runtime \<Rightarrow> 'w loop_config \<Rightarrow> 'w prepared_call \<Rightarrow> ('w, string option) task" where
  "last_gate rt cfg p =
     attempt (\<lambda>s. let (answer, w) = lc_admitEffect cfg (st_world s)
        in case answer of
             Inl e \<Rightarrow> (Inl e, s\<lparr>st_world := w\<rparr>)
           | Inr admitted \<Rightarrow>
               if rt_aborted rt w then (Inr (Some ''Operation aborted''), s\<lparr>st_world := w\<rparr>)
               else if \<not> admitted then (Inr (Some ''Execution admission denied''), s\<lparr>st_world := w\<rparr>)
               else let e = tool_event cfg p ToolExecution PhaseStarted None
                    in (Inr None, add_log [Observed e, ToolInvoked (tc_id (pd_toolCall p)) (pd_args p)]
                                    (s\<lparr>st_world := lc_onExecutionEvent cfg e w\<rparr>)))"

text \<open>
  The tool runs, and so do the listeners of its updates: a call of \<open>onUpdate\<close> starts the listener and
  the tool goes on without waiting for it. When the tool has settled, \<open>Promise.all\<close> waits for the
  listeners: it fails as soon as one of them has failed (of several that have, with the first), and
  then the call fails, whatever the tool did; what the other listeners still do is no longer part of
  the call. The turns of the event loop are given by a schedule: \<open>0\<close> continues the tool, \<open>Suc i\<close> the
  listener of the update \<open>i\<close>; when it is used up, the tool and then the listeners run on in order. The
  program lets a listener run to its first \<open>await\<close> within \<open>onUpdate\<close>, which is one of the schedules. A
  listener is an \<open>async\<close> function, so that it fails by a rejected promise.
\<close>

definition on_world :: "('w \<Rightarrow> 'w) \<Rightarrow> 'w run_state \<Rightarrow> 'w run_state" where
  "on_world u s = s\<lparr>st_world := u (st_world s)\<rparr>"

fun rejection :: "('w, unit) callback list \<Rightarrow> thrown option" where
  "rejection [] = None"
| "rejection (Throw e # ls) = Some e"
| "rejection (l # ls) = rejection ls"

definition await_updates :: "('w, unit) callback list \<Rightarrow> ('w, unit) task" where
  "await_updates ls =
     (case rejection ls of Some e \<Rightarrow> Throw e | None \<Rightarrow> await (for_each call ls) (\<lambda>_. Return ()))"

primrec finish_tool :: "'w runtime \<Rightarrow> (agent_tool_result \<Rightarrow> agent_event) \<Rightarrow> 'w tool_run \<Rightarrow> ('w, unit) callback list
    \<Rightarrow> ('w, thrown + agent_tool_result) task" where
  "finish_tool rt ev (ToolReturns r) ls = await (await_updates ls) (\<lambda>_. Return (Inr r))"
| "finish_tool rt ev (ToolThrows e) ls = await (await_updates ls) (\<lambda>_. Return (Inl e))"
| "finish_tool rt ev (ToolStep u k) ls = Step (on_world u) (\<lambda>s. finish_tool rt ev (k (st_world s)) ls)"
| "finish_tool rt ev (ToolUpdate r tool) ls =
     Step (add_log [Emitted (ev r)]) (\<lambda>s. finish_tool rt ev tool (ls @ [rt_sink rt (ev r)]))"

fun tool_settled :: "'w tool_run \<Rightarrow> bool" where
  "tool_settled (ToolReturns r) = True"
| "tool_settled (ToolThrows e) = True"
| "tool_settled tool = False"

fun drive_tool :: "'w runtime \<Rightarrow> (agent_tool_result \<Rightarrow> agent_event) \<Rightarrow> nat list \<Rightarrow> 'w tool_run \<Rightarrow> ('w, unit) callback list
    \<Rightarrow> ('w, thrown + agent_tool_result) task" where
  "drive_tool rt ev [] tool ls = finish_tool rt ev tool ls"
| "drive_tool rt ev (n # sched) tool ls =
     (if tool_settled tool \<and> rejection ls \<noteq> None then finish_tool rt ev tool ls
      else case n of
             0 \<Rightarrow>
               (case tool of
                  ToolStep u k \<Rightarrow> Step (on_world u) (\<lambda>s. drive_tool rt ev sched (k (st_world s)) ls)
                | ToolUpdate r tool' \<Rightarrow>
                    Step (add_log [Emitted (ev r)]) (\<lambda>s. drive_tool rt ev sched tool' (ls @ [rt_sink rt (ev r)]))
                | _ \<Rightarrow> drive_tool rt ev sched tool ls)
           | Suc i \<Rightarrow>
               if i < length ls
               then (case ls ! i of
                       Step u k \<Rightarrow> Step (on_world u) (\<lambda>s. drive_tool rt ev sched tool (ls[i := k (st_world s)]))
                     | _ \<Rightarrow> drive_tool rt ev sched tool ls)
               else drive_tool rt ev sched tool ls)"

definition error_result :: "thrown \<Rightarrow> agent_tool_result" where
  "error_result e =
     (let res = createErrorToolResult (thrown_text e) (thrown_details e)
      in case e of
           ToolError te \<Rightarrow>
             res\<lparr>ar_structuredContent := te_structuredContent te, ar_nestedCalls := te_nestedCalls te,
                 ar_nestedUnknown := te_nestedUnknown te, ar_usage := te_usage te\<rparr>
         | _ \<Rightarrow> res)"

definition run_tool :: "'w runtime \<Rightarrow> 'w loop_config \<Rightarrow> string option \<Rightarrow> 'w prepared_call \<Rightarrow> ('w, executed_call) task" where
  "run_tool rt cfg parent p =
     (let tc = pd_toolCall p; tool = pd_tool p;
          ev = (\<lambda>r. ToolExecutionUpdate (tc_id tc) (tc_name tc) (tc_arguments tc) r parent)
      in await (inspect (\<lambda>s. rt_updates rt (st_world s))) (\<lambda>sched.
         await (drive_tool rt ev sched (at_execute tool (tc_id tc) (pd_args p)) []) (\<lambda>res.
         case res of
           Inr r \<Rightarrow>
             await (reportExecution cfg (tool_event cfg p ExecutionResult PhaseSucceeded None)) (\<lambda>_.
             Return \<lparr>ex_result = r, ex_isError = False, ex_executionOutcome = Confirmed\<rparr>)
         | Inl e \<Rightarrow>
             await (reportExecution cfg (tool_event cfg p ExecutionResult PhaseFailed (Some ''tool execution failed''))) (\<lambda>_.
             Return \<lparr>ex_result = error_result e, ex_isError = True,
                     ex_executionOutcome = getToolErrorOutcome e (tc_name tc) (pd_args p) tool\<rparr>))))"

definition finally_release :: "('w, 'a) task \<Rightarrow> ('w execution_scheduler \<times> nat) option \<Rightarrow> ('w, 'a) task" where
  "finally_release p lease = await (settling p) (\<lambda>r. await (release_lease lease) (\<lambda>_. of_result r))"

definition dispatch_stage :: "'w runtime \<Rightarrow> 'w loop_config \<Rightarrow> string option \<Rightarrow> 'w prepared_call
    \<Rightarrow> ('w execution_scheduler \<times> nat) option \<Rightarrow> ('w, unit) task" where
  "dispatch_stage rt cfg parent p lease =
     try_catch
       (await (aborted rt) (\<lambda>a. if a then Return ()
          else call (lc_beforeToolDispatch cfg parent (pd_toolCall p) (pd_tool p) (pd_args p))))
       (\<lambda>e. await (release_lease lease) (\<lambda>_. Throw e))"

definition executePreparedToolCall :: "'w runtime \<Rightarrow> 'w loop_config \<Rightarrow> string option \<Rightarrow> 'w prepared_call
    \<Rightarrow> ('w, executed_call) task" where
  "executePreparedToolCall rt cfg parent p =
     (if at_orchestratesTools (pd_tool p) \<and> at_executionResource (pd_tool p) \<noteq> None
      then Return (not_executed ''Orchestrators must leave execution resources to their nested tools'')
      else
        let scheduler = (if at_orchestratesTools (pd_tool p) then None else lc_executionScheduler cfg)
        in await (admission_stage cfg parent p) (\<lambda>denied. case denied of
             Some outcome \<Rightarrow> Return outcome
           | None \<Rightarrow>
               await (scheduler_stage cfg scheduler p) (\<lambda>obtained. case obtained of
                 Inl outcome \<Rightarrow> Return outcome
               | Inr lease \<Rightarrow>
                   await (dispatch_stage rt cfg parent p lease) (\<lambda>_.
                   await (last_gate rt cfg p) (\<lambda>refused. case refused of
                     Some reason \<Rightarrow>
                       await (release_lease lease) (\<lambda>_.
                       await (reportExecution cfg (tool_event cfg p ExecutionResult PhaseCancelled (Some reason))) (\<lambda>_.
                       Return (not_executed ''Operation aborted'')))
                   | None \<Rightarrow> finally_release (run_tool rt cfg parent p) lease)))))"

section \<open>Finalization and reporting\<close>

text \<open>\<open>x ?? y\<close> on a value of unknown type: \<open>null\<close> counts as absent.\<close>

fun nullish :: "json option \<Rightarrow> json option \<Rightarrow> json option" where
  "nullish None y = y"
| "nullish (Some JNull) y = y"
| "nullish (Some x) y = Some x"

fun or_else :: "'a option \<Rightarrow> 'a option \<Rightarrow> 'a option" where
  "or_else None y = y"
| "or_else (Some x) y = Some x"

definition merge_after :: "after_result \<Rightarrow> agent_tool_result \<Rightarrow> agent_tool_result" where
  "merge_after a r =
     r\<lparr>ar_content := or_else (af_content a) (ar_content r),
       ar_structuredContent := nullish (af_structuredContent a) (ar_structuredContent r),
       ar_details := nullish (af_details a) (ar_details r),
       ar_usage := or_else (af_usage a) (ar_usage r),
       ar_terminate := or_else (af_terminate a) (ar_terminate r)\<rparr>"

definition finalizeExecutedToolCall :: "'w loop_config \<Rightarrow> 'w agent_context \<Rightarrow> assistant_message \<Rightarrow> 'w prepared_call
    \<Rightarrow> executed_call \<Rightarrow> ('w, finalized_call) task" where
  "finalizeExecutedToolCall cfg cx am p x =
     await (try_catch
       (await (call (lc_afterToolCall cfg am (pd_toolCall p) (pd_args p) (ex_result x) (ex_isError x) cx)) (\<lambda>after.
          Return (case after of
              None \<Rightarrow> (ex_result x, ex_isError x)
            | Some a \<Rightarrow> (merge_after a (ex_result x), case af_isError a of None \<Rightarrow> ex_isError x | Some b \<Rightarrow> b))))
       (\<lambda>e. Return (createErrorToolResult (thrown_text e) None, True)))
     (\<lambda>(result, isError).
       Return \<lparr>fz_toolCall = pd_toolCall p, fz_result = result, fz_isError = isError,
               fz_executionOutcome = ex_executionOutcome x, fz_message = None\<rparr>)"

definition shouldTerminateToolBatch :: "finalized_call list \<Rightarrow> bool" where
  "shouldTerminateToolBatch fs \<longleftrightarrow> fs \<noteq> [] \<and> list_all (\<lambda>f. ar_terminate (fz_result f) = Some True) fs"

definition result_extra :: "agent_tool_result \<Rightarrow> json_fields" where
  "result_extra r =
     optional_field ''details'' id (ar_details r) @
     optional_field ''structuredContent'' id (ar_structuredContent r) @
     optional_field ''nestedCalls'' id (ar_nestedCalls r) @
     (if ar_nestedUnknown r then [(''nestedExecutionOutcome'', JString ''unknown'')] else []) @
     (case ar_addedToolNames r of None \<Rightarrow> [] | Some [] \<Rightarrow> [] | Some ns \<Rightarrow> [(''addedToolNames'', JArray (map JString ns))])"

definition createToolResultMessage :: "finalized_call \<Rightarrow> js_number \<Rightarrow> tool_result_message" where
  "createToolResultMessage f now =
     (case fz_message f of
        Some m \<Rightarrow> m
      | None \<Rightarrow>
          \<lparr>tr_toolCallId = tc_id (fz_toolCall f), tr_toolName = tc_name (fz_toolCall f),
           tr_content = (case ar_content (fz_result f) of None \<Rightarrow> [] | Some c \<Rightarrow> c),
           tr_isError = fz_isError f, tr_usage = ar_usage (fz_result f), tr_timestamp = now,
           tr_extra = result_extra (fz_result f)\<rparr>)"

text \<open>The result is the finalized call with its message and the message.\<close>

definition persistToolResult :: "'w runtime \<Rightarrow> 'w loop_config \<Rightarrow> assistant_message \<Rightarrow> finalized_call
    \<Rightarrow> ('w, finalized_call \<times> tool_result_message) task" where
  "persistToolResult rt cfg am f =
     await (inspect (\<lambda>s. createToolResultMessage f (rt_now rt (st_world s)))) (\<lambda>m.
     await (call (lc_onToolResult cfg m
       \<lparr>ti_assistantMessage = am, ti_toolCall = fz_toolCall f, ti_terminate = (ar_terminate (fz_result f) = Some True),
        ti_executionOutcome = fz_executionOutcome f, ti_parentToolCallId = lc_parentToolCallId cfg\<rparr>)) (\<lambda>_.
     Return (f\<lparr>fz_message := Some m\<rparr>, m)))"

definition emitToolExecutionStart :: "'w runtime \<Rightarrow> string option \<Rightarrow> tool_call \<Rightarrow> ('w, unit) task" where
  "emitToolExecutionStart rt parent tc = emit rt (ToolExecutionStart (tc_id tc) (tc_name tc) (tc_arguments tc) parent)"

definition emitToolExecutionEnd :: "'w runtime \<Rightarrow> string option \<Rightarrow> finalized_call \<Rightarrow> ('w, unit) task" where
  "emitToolExecutionEnd rt parent f =
     emit rt (ToolExecutionEnd (tc_id (fz_toolCall f)) (tc_name (fz_toolCall f)) (fz_result f) (fz_isError f) parent)"

definition emitToolResultMessage :: "'w runtime \<Rightarrow> tool_result_message \<Rightarrow> ('w, unit) task" where
  "emitToolResultMessage rt m =
     await (emit rt (MessageStart (ToolResultMessage m))) (\<lambda>_. emit rt (MessageEnd (ToolResultMessage m)))"

definition immediate_call :: "tool_call \<Rightarrow> agent_tool_result \<Rightarrow> bool \<Rightarrow> finalized_call" where
  "immediate_call tc r isError =
     \<lparr>fz_toolCall = tc, fz_result = r, fz_isError = isError, fz_executionOutcome = NotStarted, fz_message = None\<rparr>"

section \<open>Batches\<close>

definition truncated_text :: "string \<Rightarrow> string" where
  "truncated_text name =
     ''Tool call \"'' @ name @ ''\" was not executed: the response hit the output token limit, so its arguments may be truncated. Re-issue the tool call with complete arguments.''"

definition fail_truncated_call :: "'w runtime \<Rightarrow> 'w loop_config \<Rightarrow> assistant_message \<Rightarrow> tool_call
    \<Rightarrow> ('w, tool_result_message) task" where
  "fail_truncated_call rt cfg am tc =
     await (emitToolExecutionStart rt None tc) (\<lambda>_.
     let f = immediate_call tc (createErrorToolResult (truncated_text (tc_name tc)) None) True
     in await (persistToolResult rt cfg am f) (\<lambda>(f, m).
        await (emitToolExecutionEnd rt None f) (\<lambda>_.
        await (emitToolResultMessage rt m) (\<lambda>_. Return m))))"

definition failToolCallsFromTruncatedMessage :: "'w runtime \<Rightarrow> 'w loop_config \<Rightarrow> assistant_message \<Rightarrow> tool_call list
    \<Rightarrow> ('w, tool_batch_result) task" where
  "failToolCallsFromTruncatedMessage rt cfg am tcs =
     await (for_each (fail_truncated_call rt cfg am) tcs) (\<lambda>ms. Return \<lparr>tb_messages = ms, tb_terminate = False\<rparr>)"

text \<open>The execution and finalization of a prepared call.\<close>

definition execute_and_finalize :: "'w runtime \<Rightarrow> 'w loop_config \<Rightarrow> 'w agent_context \<Rightarrow> assistant_message
    \<Rightarrow> 'w prepared_call \<Rightarrow> ('w, finalized_call) task" where
  "execute_and_finalize rt cfg cx am p =
     await (executePreparedToolCall rt cfg None p) (\<lambda>x. finalizeExecutedToolCall cfg cx am p x)"

definition sequential_call :: "'w runtime \<Rightarrow> 'w loop_config \<Rightarrow> 'w agent_context \<Rightarrow> assistant_message \<Rightarrow> tool_call
    \<Rightarrow> ('w, finalized_call \<times> tool_result_message) task" where
  "sequential_call rt cfg cx am tc =
     await (emitToolExecutionStart rt None tc) (\<lambda>_.
     await (prepareToolCall rt cfg cx am tc) (\<lambda>prep.
     await (case prep of
         Immediate r isError \<Rightarrow> Return (immediate_call tc r isError)
       | Prepared p \<Rightarrow> execute_and_finalize rt cfg cx am p) (\<lambda>f.
     await (persistToolResult rt cfg am f) (\<lambda>(f, m).
     await (emitToolExecutionEnd rt None f) (\<lambda>_.
     await (emitToolResultMessage rt m) (\<lambda>_. Return (f, m)))))))"

fun sequential_calls :: "'w runtime \<Rightarrow> 'w loop_config \<Rightarrow> 'w agent_context \<Rightarrow> assistant_message \<Rightarrow> tool_call list
    \<Rightarrow> ('w, (finalized_call \<times> tool_result_message) list) task" where
  "sequential_calls rt cfg cx am [] = Return []"
| "sequential_calls rt cfg cx am (tc # tcs) =
     await (sequential_call rt cfg cx am tc) (\<lambda>r.
     await (aborted rt) (\<lambda>a.
       if a then Return [r] else await (sequential_calls rt cfg cx am tcs) (\<lambda>rs. Return (r # rs))))"

definition executeToolCallsSequential :: "'w runtime \<Rightarrow> 'w loop_config \<Rightarrow> 'w agent_context \<Rightarrow> assistant_message
    \<Rightarrow> tool_call list \<Rightarrow> ('w, tool_batch_result) task" where
  "executeToolCallsSequential rt cfg cx am tcs =
     await (sequential_calls rt cfg cx am tcs) (\<lambda>rs.
       Return \<lparr>tb_messages = map snd rs, tb_terminate = shouldTerminateToolBatch (map fst rs)\<rparr>)"

text \<open>A call of a parallel batch, prepared: already finalized, or a function that is still to run.\<close>

definition finish_prepared :: "'w runtime \<Rightarrow> 'w loop_config \<Rightarrow> 'w agent_context \<Rightarrow> assistant_message
    \<Rightarrow> 'w prepared_call \<Rightarrow> ('w, finalized_call) task" where
  "finish_prepared rt cfg cx am p =
     await (execute_and_finalize rt cfg cx am p) (\<lambda>f.
     await (persistToolResult rt cfg am f) (\<lambda>(f, m).
     await (emitToolExecutionEnd rt None f) (\<lambda>_. Return f)))"

definition parallel_call :: "'w runtime \<Rightarrow> 'w loop_config \<Rightarrow> 'w agent_context \<Rightarrow> assistant_message \<Rightarrow> tool_call
    \<Rightarrow> ('w, ('w, finalized_call) task) task" where
  "parallel_call rt cfg cx am tc =
     await (emitToolExecutionStart rt None tc) (\<lambda>_.
     await (prepareToolCall rt cfg cx am tc) (\<lambda>prep. case prep of
         Immediate r isError \<Rightarrow>
           await (persistToolResult rt cfg am (immediate_call tc r isError)) (\<lambda>(f, m).
           await (emitToolExecutionEnd rt None f) (\<lambda>_. Return (Return f)))
       | Prepared p \<Rightarrow> Return (finish_prepared rt cfg cx am p)))"

fun parallel_calls :: "'w runtime \<Rightarrow> 'w loop_config \<Rightarrow> 'w agent_context \<Rightarrow> assistant_message \<Rightarrow> tool_call list
    \<Rightarrow> ('w, ('w, finalized_call) task list) task" where
  "parallel_calls rt cfg cx am [] = Return []"
| "parallel_calls rt cfg cx am (tc # tcs) =
     await (parallel_call rt cfg cx am tc) (\<lambda>entry.
     await (aborted rt) (\<lambda>a.
       if a then Return [entry] else await (parallel_calls rt cfg cx am tcs) (\<lambda>es. Return (entry # es))))"

text \<open>\<open>Promise.allSettled\<close>: the executions interleave as the event loop schedules them.\<close>

definition all_settled :: "'w runtime \<Rightarrow> ('w, 'a) task list \<Rightarrow> ('w, (thrown + 'a) list) task" where
  "all_settled rt ps = sync (\<lambda>s. interleave (rt_schedule rt (st_world s)) ps s)"

fun first_rejection :: "(thrown + 'a) list \<Rightarrow> thrown + 'a list" where
  "first_rejection [] = Inr []"
| "first_rejection (Inl e # rs) = Inl e"
| "first_rejection (Inr x # rs) = (case first_rejection rs of Inl e \<Rightarrow> Inl e | Inr xs \<Rightarrow> Inr (x # xs))"

definition publish_result :: "'w runtime \<Rightarrow> finalized_call \<Rightarrow> ('w, tool_result_message) task" where
  "publish_result rt f =
     await (inspect (\<lambda>s. createToolResultMessage f (rt_now rt (st_world s)))) (\<lambda>m.
     await (emitToolResultMessage rt m) (\<lambda>_. Return m))"

definition executeToolCallsParallel :: "'w runtime \<Rightarrow> 'w loop_config \<Rightarrow> 'w agent_context \<Rightarrow> assistant_message
    \<Rightarrow> tool_call list \<Rightarrow> ('w, tool_batch_result) task" where
  "executeToolCallsParallel rt cfg cx am tcs =
     await (parallel_calls rt cfg cx am tcs) (\<lambda>entries.
     await (all_settled rt entries) (\<lambda>outcomes.
     await (of_result (first_rejection outcomes)) (\<lambda>fs.
     await (for_each (publish_result rt) fs) (\<lambda>ms.
       Return \<lparr>tb_messages = ms, tb_terminate = shouldTerminateToolBatch fs\<rparr>))))"

fun tool_calls_of :: "content_block list \<Rightarrow> tool_call list" where
  "tool_calls_of [] = []"
| "tool_calls_of (ToolCallBlock tc # bs) = tc # tool_calls_of bs"
| "tool_calls_of (b # bs) = tool_calls_of bs"

definition runs_alone :: "'w agent_context \<Rightarrow> tool_call \<Rightarrow> bool" where
  "runs_alone cx tc \<longleftrightarrow>
     (case find_tool cx (tc_name tc) of FoundTool t \<Rightarrow> at_executionMode t = Some Sequential | _ \<Rightarrow> False)"

definition executeToolCalls :: "'w runtime \<Rightarrow> 'w loop_config \<Rightarrow> 'w agent_context \<Rightarrow> assistant_message
    \<Rightarrow> tool_call list option \<Rightarrow> ('w, tool_batch_result) task" where
  "executeToolCalls rt cfg cx am recovered =
     (let tcs = (case recovered of None \<Rightarrow> tool_calls_of (am_content am) | Some tcs \<Rightarrow> tcs)
      in if lc_toolExecution cfg = Some Sequential \<or> list_ex (runs_alone cx) tcs
         then executeToolCallsSequential rt cfg cx am tcs
         else executeToolCallsParallel rt cfg cx am tcs)"

section \<open>Host-issued calls\<close>

definition failed_dispatch :: "thrown \<Rightarrow> executed_call" where
  "failed_dispatch e =
     \<lparr>ex_result = createErrorToolResult (thrown_text e) (thrown_details e), ex_isError = True,
      ex_executionOutcome =
        (case e of ToolError te \<Rightarrow> if te_executionOutcome te = NotStarted then NotStarted else Unknown | _ \<Rightarrow> Unknown)\<rparr>"

definition runToolCall :: "'w runtime \<Rightarrow> 'w loop_config \<Rightarrow> 'w agent_context \<Rightarrow> assistant_message \<Rightarrow> tool_call
    \<Rightarrow> ('w, finalized_call) task" where
  "runToolCall rt cfg cx am tc =
     (let parent = lc_parentToolCallId cfg
      in await (emitToolExecutionStart rt parent tc) (\<lambda>_.
         await (prepareToolCall rt cfg cx am tc) (\<lambda>prep.
         await (case prep of
             Immediate r isError \<Rightarrow> Return (immediate_call tc r isError)
           | Prepared p \<Rightarrow>
               await (try_catch (executePreparedToolCall rt cfg parent p) (\<lambda>e. Return (failed_dispatch e))) (\<lambda>x.
               finalizeExecutedToolCall cfg cx am p x)) (\<lambda>f.
         await (persistToolResult rt cfg am f) (\<lambda>(f, m).
         await (emitToolExecutionEnd rt parent f) (\<lambda>_. Return f))))))"

end
