(* ===== verification/AgentToolsCorrect.thy ===== *)
theory AgentToolsCorrect
  imports AgentTools
begin

text \<open>
  Properties of the tool pipeline, for every behaviour of the hooks, the tools, the scheduler and
  the listeners, and for every interleaving of a parallel batch: what the pipeline may write to the
  log, that every lease is released exactly once, that the results of a batch answer its calls in
  order, and that the calls of a truncated response are not started.
\<close>

section \<open>What the pipeline writes\<close>

definition tool_items :: "string \<Rightarrow> run_item set" where
  "tool_items i = range Observed \<union> range (ToolInvoked i) \<union> range LeaseAcquired \<union> range LeaseReleased
     \<union> {Emitted (ToolExecutionUpdate i n a r p) | n a r p. True}"

lemma tool_items_simps [simp]:
  "Observed e \<in> tool_items i" "ToolInvoked j v \<in> tool_items i \<longleftrightarrow> j = i"
  "LeaseAcquired n \<in> tool_items i" "LeaseReleased n \<in> tool_items i"
  "Emitted (ToolExecutionUpdate j nm a r p) \<in> tool_items i \<longleftrightarrow> j = i"
  by (auto simp: tool_items_def)

lemma writes_unless_aborted [writes_intros]: "writes st_log A p \<Longrightarrow> writes st_log A (unless_aborted rt p)"
  by (auto simp: unless_aborted_def intro!: writes_intros)

lemma writes_prepareToolCall [writes_intros]: "writes st_log A (prepareToolCall rt cfg cx am tc)"
  by (auto simp: prepareToolCall_def split: tool_lookup.splits option.splits prod.splits intro!: writes_intros)

lemma log_on_world [simp]: "st_log (on_world u s) = st_log s"
  by (simp add: on_world_def)

lemma writes_await_updates [writes_intros]: "writes st_log A (await_updates ls)"
  by (auto simp: await_updates_def split: option.splits intro!: writes_intros)

lemma writes_finish_tool:
  assumes "\<And>r. Emitted (ev r) \<in> A"
  shows "writes st_log A (finish_tool rt ev tool ls)"
  by (induction tool arbitrary: ls) (auto intro!: writes_intros assms)

lemma writes_drive_tool:
  assumes "\<And>r. Emitted (ev r) \<in> A"
  shows "writes st_log A (drive_tool rt ev sched tool ls)"
proof (induction sched arbitrary: tool ls)
  case (Cons n sched)
  then show ?case
    by (auto simp: assms split: nat.splits tool_run.splits async.splits intro!: writes_finish_tool writes_intros)
qed (simp add: writes_finish_tool assms)

lemma writes_acquire_lease: "(\<And>i. LeaseAcquired i \<in> A) \<Longrightarrow> writes st_log A (acquire_lease sch req)"
  by (auto simp: acquire_lease_def split: option.splits intro!: writes_intros writes_modify)

lemma writes_release_lease: "(\<And>i. LeaseReleased i \<in> A) \<Longrightarrow> writes st_log A (release_lease lease)"
  by (auto simp: release_lease_def split: option.splits intro!: writes_intros writes_modify)

lemma writes_last_gate:
  assumes "\<And>i. Observed i \<in> A" and "ToolInvoked (tc_id (pd_toolCall p)) (pd_args p) \<in> A"
  shows "writes st_log A (last_gate rt cfg p)"
  using assms by (auto simp: last_gate_def Let_def split: prod.splits sum.splits intro!: writes_attempt)

lemma writes_admission_stage:
  "(\<And>i. Observed i \<in> A) \<Longrightarrow> writes st_log A (admission_stage cfg parent p)"
  by (auto simp: admission_stage_def Let_def split: option.splits intro!: writes_intros)

lemma writes_scheduler_stage:
  "(\<And>i. Observed i \<in> A) \<Longrightarrow> (\<And>i. LeaseAcquired i \<in> A) \<Longrightarrow> writes st_log A (scheduler_stage cfg sch p)"
  by (auto simp: scheduler_stage_def split: option.splits intro!: writes_intros writes_acquire_lease)

lemma writes_dispatch_stage:
  "(\<And>i. LeaseReleased i \<in> A) \<Longrightarrow> writes st_log A (dispatch_stage rt cfg parent p lease)"
  by (auto simp: dispatch_stage_def intro!: writes_intros writes_release_lease)

lemma writes_run_tool:
  assumes "\<And>i. Observed i \<in> A" and "\<And>n a r q. Emitted (ToolExecutionUpdate (tc_id (pd_toolCall p)) n a r q) \<in> A"
  shows "writes st_log A (run_tool rt cfg parent p)"
  using assms by (auto simp: run_tool_def Let_def split: option.splits sum.splits intro!: writes_intros writes_drive_tool)

lemma writes_executePreparedToolCall:
  assumes "tool_items (tc_id (pd_toolCall p)) \<subseteq> A"
  shows "writes st_log A (executePreparedToolCall rt cfg parent p)"
proof -
  have A: "\<And>i. Observed i \<in> A" "\<And>i. LeaseAcquired i \<in> A" "\<And>i. LeaseReleased i \<in> A"
      "ToolInvoked (tc_id (pd_toolCall p)) (pd_args p) \<in> A"
      "\<And>n a r q. Emitted (ToolExecutionUpdate (tc_id (pd_toolCall p)) n a r q) \<in> A"
    using assms by auto
  show ?thesis
    unfolding executePreparedToolCall_def Let_def finally_release_def
    by (auto split: option.splits sum.splits
        intro!: writes_intros writes_admission_stage writes_scheduler_stage writes_dispatch_stage writes_last_gate
          writes_release_lease writes_run_tool A)
qed

lemma writes_finalizeExecutedToolCall [writes_intros]: "writes st_log A (finalizeExecutedToolCall cfg cx am p x)"
  by (auto simp: finalizeExecutedToolCall_def split: prod.splits intro!: writes_intros)

lemma writes_persistToolResult [writes_intros]: "writes st_log A (persistToolResult rt cfg am f)"
  by (auto simp: persistToolResult_def intro!: writes_intros)

section \<open>Leases\<close>

definition lease_weight :: "nat \<Rightarrow> run_item \<Rightarrow> int" where
  "lease_weight n x = (if x = LeaseAcquired n then 1 else if x = LeaseReleased n then -1 else 0)"

lemma lease_weight_simps [simp]:
  "lease_weight n (Polled ms) = 0" "lease_weight n (BatchEnded b) = 0"
  "lease_weight n (Emitted e) = 0" "lease_weight n (Observed o') = 0" "lease_weight n (ProviderInvoked i) = 0"
  "lease_weight n (ToolInvoked i v) = 0" "lease_weight n (LeaseAcquired m) = (if m = n then 1 else 0)"
  "lease_weight n (LeaseReleased m) = (if m = n then -1 else 0)"
  by (auto simp: lease_weight_def)

fun still_held :: "nat \<Rightarrow> ('x \<times> nat) option \<Rightarrow> int" where
  "still_held n None = 0"
| "still_held n (Some (sch, m)) = (if m = n then -1 else 0)"

text \<open>
  An execution that returns has given back its lease. One that throws has, too, unless \<open>admitEffect\<close>
  can throw: then it may have left one lease behind.
\<close>

definition admission_throws :: "'w loop_config \<Rightarrow> bool" where
  "admission_throws cfg \<longleftrightarrow> (\<exists>w e w'. lc_admitEffect cfg w = (Inl e, w'))"

definition left_behind :: "bool \<Rightarrow> thrown \<Rightarrow> int \<Rightarrow> bool" where
  "left_behind A e d \<longleftrightarrow> d = 0 \<or> A \<and> d = -1"

abbreviation owes_leases :: "bool \<Rightarrow> nat \<Rightarrow> ('w, 'a) task \<Rightarrow> bool" where
  "owes_leases A n p \<equiv> owes st_log (lease_weight n) (left_behind A) (\<lambda>_ d. d = 0) p 0"

lemma left_behind_0 [simp]: "left_behind A e 0"
  by (simp add: left_behind_def)

lemma owes_report [simp]: "owes st_log (lease_weight n) E R (reportExecution cfg e) d \<longleftrightarrow> R () d"
  by (simp add: reportExecution_def modify_def)

lemma owes_release_lease [simp]:
  "owes st_log (lease_weight n) E R (release_lease lease) d \<longleftrightarrow> R () (d - still_held n lease)"
  by (cases lease) (auto simp: release_lease_def modify_def)

lemma owes_gate:
  assumes "\<And>x. R x d" and "\<And>e. admission_throws cfg \<Longrightarrow> E e d"
  shows "owes st_log (lease_weight n) E R (last_gate rt cfg p) d"
proof -
  have "E e d" if "lc_admitEffect cfg w = (Inl e, w')" for w e w'
    using assms(2) that by (auto simp: admission_throws_def)
  then show ?thesis
    using assms(1) by (auto simp: last_gate_def attempt_def Let_def split: prod.splits sum.splits)
qed

lemma still_held_cases: "still_held n lease = 0 \<or> still_held n lease = -1"
  by (cases lease) auto

lemma owes_acquire_lease:
  assumes "\<And>e. E e d" and "\<And>l. R l (d + still_held n (map_option (Pair sch) l))"
  shows "owes st_log (lease_weight n) E R (acquire_lease sch req) d"
  unfolding acquire_lease_def owes_await
proof (rule owes_weightless)
  fix l
  show "owes st_log (lease_weight n) E R
      (case l of None \<Rightarrow> Return None
       | Some m \<Rightarrow> await (modify (add_log [LeaseAcquired m])) (\<lambda>_. Return (Some m))) d"
    using assms(2) [of l] by (cases l) (auto simp: modify_def)
qed (auto intro: assms writes_intros)

lemma owes_scheduler_stage:
  assumes "\<And>e. E e 0" and "\<And>x. R (Inl x) 0" and "\<And>lease. R (Inr lease) (still_held n lease)"
  shows "owes st_log (lease_weight n) E R (scheduler_stage cfg scheduler p) 0"
proof (cases scheduler)
  case None
  then show ?thesis
    using assms(3) [of None] by (simp add: scheduler_stage_def)
next
  case (Some sch)
  have "owes st_log (lease_weight n) E R (scheduler_stage cfg (Some sch) p) 0"
    unfolding scheduler_stage_def option.case owes_await owes_report
  proof (rule owes_acquire_lease)
    fix l
    show "owes st_log (lease_weight n) E R
       (case l of None \<Rightarrow>
          await (reportExecution cfg (tool_event cfg p SchedulerWait PhaseCancelled
            (Some ''cancelled while waiting for execution resources''))) (\<lambda>_.
          await (reportExecution cfg (tool_event cfg p ExecutionResult PhaseCancelled
            (Some ''cancelled while waiting for execution resources''))) (\<lambda>_.
          Return (Inl (not_executed ''Operation aborted''))))
        | Some n \<Rightarrow> await (reportExecution cfg (tool_event cfg p SchedulerWait PhaseSucceeded None)) (\<lambda>_.
          Return (Inr (Some (sch, n))))) (0 + still_held n (map_option (Pair sch) l))"
      using assms(2) assms(3) [of "Some (sch, _)"] by (cases l) (simp_all add: owes_await)
  qed (rule assms)
  then show ?thesis
    using Some by simp
qed

lemma owes_dispatch_stage:
  assumes "\<And>e. E e 0" and "R () (still_held n lease)"
  shows "owes st_log (lease_weight n) E R (dispatch_stage rt cfg parent p lease) (still_held n lease)"
  unfolding dispatch_stage_def owes_try_catch
  by (rule owes_weightless) (auto simp: owes_await assms intro!: writes_intros)

text \<open>
  Whatever a prepared call runs into, it gives back the lease it got, but for a throw of
  \<open>admitEffect\<close>.
\<close>

lemma executePreparedToolCall_leases: "owes_leases (admission_throws cfg) n (executePreparedToolCall rt cfg parent p)"
proof -
  let ?E = "left_behind (admission_throws cfg)"
  have run: "owes st_log (lease_weight n) E R (run_tool rt cfg parent p) d"
    if "\<And>e. E e d" and "\<And>x. R x d" for E d and R :: "executed_call \<Rightarrow> int \<Rightarrow> bool"
    by (rule owes_weightless) (auto simp: that intro!: writes_run_tool)
  have finish: "owes st_log (lease_weight n) ?E (\<lambda>_ d. d = 0) (finally_release (run_tool rt cfg parent p) lease)
      (still_held n lease)" for lease :: "('a execution_scheduler \<times> nat) option"
    unfolding finally_release_def owes_await owes_settling by (rule run) (simp_all add: owes_of_result)
  have gate: "owes st_log (lease_weight n) ?E R (last_gate rt cfg p) (still_held n lease)"
    if "\<And>x. R x (still_held n lease)" for R and lease :: "('a execution_scheduler \<times> nat) option"
    using that still_held_cases [of n lease] by (intro owes_gate) (auto simp: left_behind_def)
  have leased: "owes st_log (lease_weight n) ?E (\<lambda>_ d. d = 0)
      (await (dispatch_stage rt cfg parent p lease) (\<lambda>_.
       await (last_gate rt cfg p) (\<lambda>refused. case refused of
         Some reason \<Rightarrow>
           await (release_lease lease) (\<lambda>_.
           await (reportExecution cfg (tool_event cfg p ExecutionResult PhaseCancelled (Some reason))) (\<lambda>_.
           Return (not_executed ''Operation aborted'')))
       | None \<Rightarrow> finally_release (run_tool rt cfg parent p) lease))) (still_held n lease)"
    for lease :: "('a execution_scheduler \<times> nat) option"
    unfolding owes_await
    by (rule owes_dispatch_stage) (auto simp: owes_await finish split: option.splits intro!: gate)
  have admitted: "owes st_log (lease_weight n) E R (admission_stage cfg parent p) 0"
    if "\<And>e. E e 0" and "\<And>x. R x 0" for E and R :: "executed_call option \<Rightarrow> int \<Rightarrow> bool"
    by (rule owes_weightless) (auto simp: that intro!: writes_admission_stage)
  show ?thesis
    unfolding executePreparedToolCall_def Let_def
    by (auto simp: owes_await [of _ _ _ _ "admission_stage cfg parent p"] owes_await [of _ _ _ _ "scheduler_stage cfg _ p"] leased
        split: option.splits sum.splits intro!: admitted owes_scheduler_stage)
qed

section \<open>The result of a call\<close>

definition answers :: "tool_call \<Rightarrow> tool_result_message \<Rightarrow> bool" where
  "answers tc m \<longleftrightarrow> tr_toolCallId m = tc_id tc \<and> tr_toolName m = tc_name tc"

definition persisted :: "tool_call \<Rightarrow> finalized_call \<Rightarrow> bool" where
  "persisted tc f \<longleftrightarrow> (\<exists>m. fz_message f = Some m \<and> answers tc m)"

lemma answers_created: "fz_message f = None \<Longrightarrow> answers (fz_toolCall f) (createToolResultMessage f now)"
  by (simp add: answers_def createToolResultMessage_def)

lemma returns_prepareToolCall:
  "returns (\<lambda>prep. case prep of Immediate r e \<Rightarrow> e | Prepared p \<Rightarrow> pd_toolCall p = tc) (prepareToolCall rt cfg cx am tc)"
  unfolding prepareToolCall_def failed_preparation_def unless_aborted_def
  by (auto split: tool_lookup.splits option.splits prod.splits
      intro!: returns_try_catch returns_await_any simp: failed_preparation_def)

lemma returns_finalize:
  "returns (\<lambda>f. fz_toolCall f = pd_toolCall p \<and> fz_message f = None) (finalizeExecutedToolCall cfg cx am p x)"
  by (auto simp: finalizeExecutedToolCall_def split: prod.splits intro!: returns_await_any)

lemma returns_execute_and_finalize:
  "returns (\<lambda>f. fz_toolCall f = pd_toolCall p \<and> fz_message f = None) (execute_and_finalize rt cfg cx am p)"
  by (auto simp: execute_and_finalize_def intro!: returns_await_any returns_finalize)

lemma returns_persist:
  assumes "fz_message f = None"
  shows "returns (\<lambda>(g, m). g = f\<lparr>fz_message := Some m\<rparr> \<and> answers (fz_toolCall f) m \<and> tr_isError m = fz_isError f)
    (persistToolResult rt cfg am f)"
  unfolding persistToolResult_def
proof (rule returns_await)
  show "returns (\<lambda>m. answers (fz_toolCall f) m \<and> tr_isError m = fz_isError f)
      (inspect (\<lambda>s. createToolResultMessage f (rt_now rt (st_world s))))"
    using answers_created [OF assms] assms by (auto simp: inspect_def createToolResultMessage_def)
qed (auto intro!: returns_await_any)

lemma returns_finish_prepared: "returns (persisted (pd_toolCall p)) (finish_prepared rt cfg cx am p)"
  unfolding finish_prepared_def
proof (rule returns_await [OF returns_execute_and_finalize])
  fix f :: finalized_call
  assume f: "fz_toolCall f = pd_toolCall p \<and> fz_message f = None"
  show "returns (persisted (pd_toolCall p)) (await (persistToolResult rt cfg am f) (\<lambda>(f, m).
      await (emitToolExecutionEnd rt None f) (\<lambda>_. Return f)))"
    by (rule returns_await [OF returns_persist]) (use f in \<open>auto simp: persisted_def intro!: returns_await_any\<close>)
qed

lemma returns_sequential_call: "returns (\<lambda>(f, m). answers tc m) (sequential_call rt cfg cx am tc)"
proof -
  have finish: "returns (\<lambda>(f, m). answers tc m) (await (persistToolResult rt cfg am f) (\<lambda>(f, m).
     await (emitToolExecutionEnd rt None f) (\<lambda>_.
     await (emitToolResultMessage rt m) (\<lambda>_. Return (f, m)))))"
    if "fz_toolCall f = tc \<and> fz_message f = None" for f
    by (rule returns_await [OF returns_persist]) (use that in \<open>auto intro!: returns_await_any\<close>)
  have execute: "returns (\<lambda>f. fz_toolCall f = tc \<and> fz_message f = None) (case prep of
      Immediate r isError \<Rightarrow> Return (immediate_call tc r isError)
    | Prepared p \<Rightarrow> execute_and_finalize rt cfg cx am p)"
    if "case prep of Immediate r e \<Rightarrow> e | Prepared p \<Rightarrow> pd_toolCall p = tc" for prep
    using that returns_execute_and_finalize by (cases prep) (auto simp: immediate_call_def)
  show ?thesis
    unfolding sequential_call_def
    by (rule returns_await_any, rule returns_await [OF returns_prepareToolCall], rule returns_await [OF execute], assumption)
       (rule finish)
qed

section \<open>The results of a batch\<close>

text \<open>
  The results answer the calls in order. An abort may cut them off, but the first call is always
  answered; when the signal is never aborted, all calls are.
\<close>

definition never_aborted :: "'w runtime \<Rightarrow> bool" where
  "never_aborted rt \<longleftrightarrow> (\<forall>w. \<not> rt_aborted rt w)"

definition answered :: "('x \<Rightarrow> 'y \<Rightarrow> bool) \<Rightarrow> bool \<Rightarrow> 'x list \<Rightarrow> 'y list \<Rightarrow> bool" where
  "answered P full xs ys \<longleftrightarrow>
     length ys \<le> length xs \<and> list_all2 P (take (length ys) xs) ys \<and> (xs \<noteq> [] \<longrightarrow> ys \<noteq> []) \<and> (full \<longrightarrow> length ys = length xs)"

lemma answered_Nil [simp]: "answered P full [] []"
  by (simp add: answered_def)

lemma answered_cut: "P x y \<Longrightarrow> \<not> full \<Longrightarrow> answered P full (x # xs) [y]"
  by (simp add: answered_def)

lemma answered_Cons: "P x y \<Longrightarrow> answered P full xs ys \<Longrightarrow> answered P full (x # xs) (y # ys)"
  by (auto simp: answered_def)

lemma answered_full: "answered P True xs ys \<longleftrightarrow> list_all2 P xs ys"
  by (auto simp: answered_def list_all2_lengthD)

lemma answered_map: "answered P full xs ys \<Longrightarrow> list_all2 (\<lambda>y z. \<forall>x. P x y \<longrightarrow> Q x z) ys zs \<Longrightarrow> answered Q full xs zs"
  unfolding answered_def by (auto simp: list_all2_conv_all_nth)

lemma returns_aborted: "returns (\<lambda>a. a \<longrightarrow> \<not> never_aborted rt) (aborted rt)"
  by (auto simp: aborted_def inspect_def never_aborted_def)

text \<open>A loop over the calls that an abort cuts off.\<close>

lemma returns_until_aborted:
  assumes "\<And>x. returns (P x) (f x)"
    and "g [] = Return []"
    and "\<And>x xs. g (x # xs) = await (f x) (\<lambda>y. await (aborted rt) (\<lambda>a.
       if a then Return [y] else await (g xs) (\<lambda>ys. Return (y # ys))))"
  shows "returns (answered P (never_aborted rt) xs) (g xs)"
proof (induction xs)
  case Nil
  then show ?case by (simp add: assms(2))
next
  case (Cons x xs)
  show ?case
    unfolding assms(3)
    by (rule returns_await [OF assms(1)], rule returns_await [OF returns_aborted])
       (auto intro: answered_cut answered_Cons intro!: returns_await [OF Cons.IH])
qed

lemma returns_sequential_calls:
  "returns (answered (\<lambda>tc (f, m). answers tc m) (never_aborted rt) tcs) (sequential_calls rt cfg cx am tcs)"
  by (rule returns_until_aborted [OF returns_sequential_call]) simp_all

section \<open>Parallel executions\<close>

fun lifecycle_event :: "run_item \<Rightarrow> agent_event option" where
  "lifecycle_event (Emitted AgentStart) = Some AgentStart"
| "lifecycle_event (Emitted (AgentEnd ms)) = Some (AgentEnd ms)"
| "lifecycle_event (Emitted (MessageEnd m)) = Some (MessageEnd m)"
| "lifecycle_event x = None"

definition lifecycle :: "run_item list \<Rightarrow> agent_event list" where
  "lifecycle xs = List.map_filter lifecycle_event xs"

abbreviation silent :: "run_item set" where
  "silent \<equiv> {x. lifecycle_event x = None}"

text \<open>The items that mark the turns of a run, and those that belong to the work within a turn.\<close>

fun turn_mark :: "run_item \<Rightarrow> bool" where
  "turn_mark (Emitted (TurnEnd m rs)) = True"
| "turn_mark (Polled ms) = True"
| "turn_mark (BatchEnded b) = True"
| "turn_mark x = False"

abbreviation within_turn :: "run_item set" where
  "within_turn \<equiv> {x. \<not> turn_mark x}"

abbreviation tool_work :: "run_item set" where
  "tool_work \<equiv> silent \<inter> within_turn \<inter> - range ProviderInvoked"

text \<open>An entry of a parallel batch, for the call it belongs to.\<close>

definition good_task :: "bool \<Rightarrow> tool_call \<Rightarrow> ('w, finalized_call) task \<Rightarrow> bool" where
  "good_task A tc e \<longleftrightarrow> returns (persisted tc) e \<and> writes st_log tool_work e \<and> (\<forall>n. owes_leases A n e)"

lemma silent_items: "tool_items i \<subseteq> tool_work"
  by (auto simp: tool_items_def)

lemma good_finish_prepared: "good_task (admission_throws cfg) (pd_toolCall p) (finish_prepared rt cfg cx am p)"
proof -
  have "writes st_log tool_work (finish_prepared rt cfg cx am p)"
    unfolding finish_prepared_def execute_and_finalize_def emitToolExecutionEnd_def
    by (auto intro!: writes_intros writes_executePreparedToolCall silent_items split: prod.splits)
  moreover have "owes_leases (admission_throws cfg) n (finish_prepared rt cfg cx am p)" for n
  proof -
    have rest: "owes st_log (lease_weight n) (left_behind (admission_throws cfg)) (\<lambda>_ d. d = 0)
        (await (finalizeExecutedToolCall cfg cx am p x) (\<lambda>f.
         await (persistToolResult rt cfg am f) (\<lambda>(f, m).
         await (emitToolExecutionEnd rt None f) (\<lambda>_. Return f)))) 0" for x
      by (rule owes_weightless) (auto simp: emitToolExecutionEnd_def intro!: writes_intros split: prod.splits)
    show ?thesis
      unfolding finish_prepared_def execute_and_finalize_def await_assoc
      unfolding owes_await [of _ _ _ _ "executePreparedToolCall rt cfg None p"]
      by (rule owes_weaken [OF executePreparedToolCall_leases]) (auto simp: rest)
  qed
  ultimately show ?thesis
    by (simp add: good_task_def returns_finish_prepared)
qed

lemma returns_parallel_call: "returns (good_task (admission_throws cfg) tc) (parallel_call rt cfg cx am tc)" for rt :: "'a runtime"
  unfolding parallel_call_def
proof (rule returns_await_any, rule returns_await [OF returns_prepareToolCall])
  fix prep :: "'a preparation"
  assume prep: "case prep of Immediate r e \<Rightarrow> e | Prepared p \<Rightarrow> pd_toolCall p = tc"
  show "returns (good_task (admission_throws cfg) tc) (case prep of
         Immediate r isError \<Rightarrow>
           await (persistToolResult rt cfg am (immediate_call tc r isError)) (\<lambda>(f, m).
           await (emitToolExecutionEnd rt None f) (\<lambda>_. Return (Return f)))
       | Prepared p \<Rightarrow> Return (finish_prepared rt cfg cx am p))"
  proof (cases prep)
    case (Immediate r isError)
    have "returns (good_task (admission_throws cfg) tc) (await (persistToolResult rt cfg am (immediate_call tc r isError)) (\<lambda>(f, m).
           await (emitToolExecutionEnd rt None f) (\<lambda>_. Return (Return f))))"
      by (rule returns_await [OF returns_persist])
         (auto simp: immediate_call_def good_task_def persisted_def intro!: returns_await_any)
    then show ?thesis
      using Immediate by simp
  next
    case (Prepared p)
    then show ?thesis
      using prep good_finish_prepared [of cfg p] by auto
  qed
qed

lemma returns_parallel_calls:
  "returns (answered (good_task (admission_throws cfg)) (never_aborted rt) tcs) (parallel_calls rt cfg cx am tcs)"
  by (rule returns_until_aborted [OF returns_parallel_call]) simp_all

lemma first_rejection_map [simp]: "first_rejection (map Inr xs) = Inr xs"
  by (induction xs) auto

lemma first_rejection_Inr: "first_rejection rs = Inr xs \<Longrightarrow> rs = map Inr xs"
  by (induction rs arbitrary: xs rule: first_rejection.induct) (auto split: sum.splits)

lemma answered_entries:
  assumes "answered (good_task A) full tcs es" and "e \<in> set es"
  shows "\<exists>tc. good_task A tc e"
proof -
  have l: "list_all2 (good_task A) (take (length es) tcs) es"
    using assms(1) by (simp add: answered_def)
  obtain i where "i < length es" "e = es ! i"
    using assms(2) by (auto simp: in_set_conv_nth)
  then show ?thesis
    using list_all2_nthD2 [OF l, of i] by auto
qed

lemma returns_all_settled:
  assumes "answered (good_task A) full tcs es"
  shows "returns (\<lambda>rs. \<forall>fs. first_rejection rs = Inr fs \<longrightarrow> answered persisted full tcs fs) (all_settled rt es)"
  unfolding all_settled_def sync_def returns.simps
proof (intro allI impI)
  fix s fs
  let ?rs = "fst (interleave (rt_schedule rt (st_world s)) es s)"
  assume "first_rejection ?rs = Inr fs"
  then have fs: "?rs = map Inr fs"
    by (rule first_rejection_Inr)
  have "list_all2 (\<lambda>e tc. returns (persisted tc) e) es (take (length es) tcs)"
    using assms by (auto simp: answered_def list_all2_conv_all_nth good_task_def)
  from returns_interleave [OF this, of "rt_schedule rt (st_world s)" s]
  have l: "list_all2 (\<lambda>r tc. \<forall>x. r = Inr x \<longrightarrow> persisted tc x) (map Inr fs :: (thrown + finalized_call) list) (take (length es) tcs)"
    unfolding fs .
  then have "length fs = length es" and "list_all2 persisted (take (length es) tcs) fs"
    using assms by (auto simp: answered_def list_all2_conv_all_nth)
  then show "answered persisted full tcs fs"
    using assms by (auto simp: answered_def)
qed

lemma returns_publish: "returns (\<lambda>m. \<forall>n. fz_message f = Some n \<longrightarrow> m = n) (publish_result rt f)"
  unfolding publish_result_def
  by (rule returns_await [where P = "\<lambda>m. \<forall>n. fz_message f = Some n \<longrightarrow> m = n"])
     (auto simp: inspect_def createToolResultMessage_def intro!: returns_await_any)

lemma returns_for_each:
  assumes "\<And>x. returns (P x) (f x)"
  shows "returns (list_all2 P xs) (for_each f xs)"
proof (induction xs)
  case (Cons x xs)
  then show ?case
    by (auto intro!: returns_await [OF assms] returns_await [OF Cons.IH])
qed simp

lemma returns_parallel_batch:
  "returns (\<lambda>b. answered answers (never_aborted rt) tcs (tb_messages b)) (executeToolCallsParallel rt cfg cx am tcs)"
  unfolding executeToolCallsParallel_def
proof (rule returns_await [OF returns_parallel_calls], rule returns_await [OF returns_all_settled], assumption)
  fix es :: "('a, finalized_call) task list" and outcomes :: "(thrown + finalized_call) list"
  assume o: "\<forall>fs. first_rejection outcomes = Inr fs \<longrightarrow> answered persisted (never_aborted rt) tcs fs"
  show "returns (\<lambda>b. answered answers (never_aborted rt) tcs (tb_messages b))
      (await (of_result (first_rejection outcomes)) (\<lambda>fs. await (for_each (publish_result rt) fs) (\<lambda>ms.
       Return \<lparr>tb_messages = ms, tb_terminate = shouldTerminateToolBatch fs\<rparr>)))"
  proof (cases "first_rejection outcomes")
    case (Inr fs)
    then have fs: "answered persisted (never_aborted rt) tcs fs"
      using o by simp
    have "returns (answered answers (never_aborted rt) tcs) (for_each (publish_result rt) fs)"
    proof (rule returns_await [OF returns_for_each [OF returns_publish], where f = Return, simplified])
      fix ms
      assume "list_all2 (\<lambda>f m. \<forall>n. fz_message f = Some n \<longrightarrow> m = n) fs ms"
      then have "list_all2 (\<lambda>f m. \<forall>tc. persisted tc f \<longrightarrow> answers tc m) fs ms"
        by (rule list_all2_mono) (auto simp: persisted_def)
      then show "answered answers (never_aborted rt) tcs ms"
        by (rule answered_map [OF fs])
    qed
    then show ?thesis
      by (auto simp: Inr intro!: returns_await)
  qed simp
qed

lemma returns_sequential_batch:
  "returns (\<lambda>b. answered answers (never_aborted rt) tcs (tb_messages b)) (executeToolCallsSequential rt cfg cx am tcs)"
  unfolding executeToolCallsSequential_def
proof (rule returns_await [OF returns_sequential_calls])
  fix rs :: "(finalized_call \<times> tool_result_message) list"
  assume rs: "answered (\<lambda>tc (f, m). answers tc m) (never_aborted rt) tcs rs"
  have "answered answers (never_aborted rt) tcs (map snd rs)"
    by (rule answered_map [OF rs]) (auto simp: list_all2_conv_all_nth split: prod.splits)
  then show "returns (\<lambda>b. answered answers (never_aborted rt) tcs (tb_messages b))
      (Return \<lparr>tb_messages = map snd rs, tb_terminate = shouldTerminateToolBatch (map fst rs)\<rparr>)"
    by simp
qed

definition requested_calls :: "assistant_message \<Rightarrow> tool_call list option \<Rightarrow> tool_call list" where
  "requested_calls am recovered = (case recovered of None \<Rightarrow> tool_calls_of (am_content am) | Some tcs \<Rightarrow> tcs)"

lemma returns_executeToolCalls:
  "returns (\<lambda>b. answered answers (never_aborted rt) (requested_calls am recovered) (tb_messages b))
     (executeToolCalls rt cfg cx am recovered)"
  unfolding executeToolCalls_def requested_calls_def [symmetric] Let_def
  by (simp add: returns_sequential_batch returns_parallel_batch)

section \<open>The messages a batch announces\<close>

lemma lifecycle_simps [simp]:
  "lifecycle [] = []"
  "lifecycle (x # xs) = (case lifecycle_event x of None \<Rightarrow> lifecycle xs | Some e \<Rightarrow> e # lifecycle xs)"
  "lifecycle (xs @ ys) = lifecycle xs @ lifecycle ys"
  by (auto simp: lifecycle_def map_filter_def split: option.splits)

lemma lifecycle_silent: "set xs \<subseteq> silent \<Longrightarrow> lifecycle xs = []"
  by (induction xs) auto

definition said :: "agent_event list \<Rightarrow> 'w run_state \<Rightarrow> bool" where
  "said L s \<longleftrightarrow> lifecycle (st_log s) = L"

lemma triple_silent [triples]:
  assumes "writes st_log silent p"
  shows "triple (said L) p (\<lambda>_. said L)"
  unfolding triple_def said_def
proof (intro allI impI)
  fix s x t
  assume s: "lifecycle (st_log s) = L" and r: "run p s = (Inr x, t)"
  obtain xs where "st_log t = st_log s @ xs" "set xs \<subseteq> silent"
    using writes_run [OF assms, of s] r by auto
  then show "lifecycle (st_log t) = L"
    using s lifecycle_silent [of xs] by simp
qed

lemma run_call_log: "st_log (snd (run (call p) s)) = st_log s"
  using writes_run [of st_log "{}" "call p" s] writes_call [of "{}" p] by auto

lemma triple_emit:
  "triple (said L) (emit rt e) (\<lambda>_. said (L @ (case lifecycle_event (Emitted e) of None \<Rightarrow> [] | Some x \<Rightarrow> [x])))"
  unfolding triple_def said_def
proof (intro allI impI)
  fix s x t
  assume s: "lifecycle (st_log s) = L" and r: "run (emit rt e) s = (Inr x, t)"
  have "run (call (rt_sink rt e)) (add_log [Emitted e] s) = (Inr x, t)"
    using r by (simp add: emit_def run_await)
  then have "st_log t = st_log s @ [Emitted e]"
    using run_call_log [of "rt_sink rt e" "add_log [Emitted e] s"] by simp
  then show "lifecycle (st_log t) = L @ (case lifecycle_event (Emitted e) of None \<Rightarrow> [] | Some x \<Rightarrow> [x])"
    using s by (simp split: option.splits)
qed

lemma triple_emit_silent: "lifecycle_event (Emitted e) = None \<Longrightarrow> triple (said L) (emit rt e) (\<lambda>_. said L)"
  using triple_emit [of L rt e] by simp

lemma triple_emitToolResultMessage:
  "triple (said L) (emitToolResultMessage rt m) (\<lambda>_. said (L @ [MessageEnd (ToolResultMessage m)]))"
  unfolding emitToolResultMessage_def
  by (rule triple_await [OF triple_emit_silent]) (use triple_emit [of L rt "MessageEnd (ToolResultMessage m)"] in auto)

definition result_ends :: "tool_result_message list \<Rightarrow> agent_event list" where
  "result_ends ms = map (\<lambda>m. MessageEnd (ToolResultMessage m)) ms"

lemma result_ends_simps [simp]:
  "result_ends [] = []" "result_ends (m # ms) = MessageEnd (ToolResultMessage m) # result_ends ms"
  "result_ends (ms @ ns) = result_ends ms @ result_ends ns"
  by (simp_all add: result_ends_def)

lemma triple_for_each_said:
  assumes "\<And>L x. triple (said L) (f x) (\<lambda>y. said (L @ [E x y]))"
  shows "triple (said L) (for_each f xs) (\<lambda>ys. said (L @ map2 E xs ys))"
proof (induction xs arbitrary: L)
  case Nil
  then show ?case by (auto intro: triple_Return)
next
  case (Cons x xs)
  show ?case
    unfolding for_each.simps
    by (rule triple_await [OF assms], rule triple_await [OF Cons.IH]) (auto intro: triple_Return)
qed

lemma triple_tail:
  assumes "writes st_log silent p" and "\<And>x. triple (said L) (f x) Q"
  shows "triple (said L) (await p f) Q"
  by (rule triple_await [OF triple_silent [OF assms(1)] assms(2)])

lemma triple_result:
  "triple (said L) (await (emitToolResultMessage rt m) (\<lambda>_. Return y)) (\<lambda>z s. z = y \<and> said (L @ [MessageEnd (ToolResultMessage m)]) s)"
  by (rule triple_await [OF triple_emitToolResultMessage]) (auto intro: triple_Return)

lemma triple_report_call:
  assumes "\<And>f m. R (g f m) = m"
  shows "triple (said L) (await (persistToolResult rt cfg am f) (\<lambda>(f, m).
     await (emitToolExecutionEnd rt None f) (\<lambda>_.
     await (emitToolResultMessage rt m) (\<lambda>_. Return (g f m)))))
     (\<lambda>z. said (L @ [MessageEnd (ToolResultMessage (R z))]))"
proof (rule triple_tail [OF writes_persistToolResult])
  fix x :: "finalized_call \<times> tool_result_message"
  obtain f m where x: "x = (f, m)" by (cases x)
  have "writes st_log silent (emitToolExecutionEnd rt None f)"
    by (auto simp: emitToolExecutionEnd_def intro!: writes_intros)
  then show "triple (said L) (case x of (f, m) \<Rightarrow> await (emitToolExecutionEnd rt None f) (\<lambda>_.
      await (emitToolResultMessage rt m) (\<lambda>_. Return (g f m)))) (\<lambda>z. said (L @ [MessageEnd (ToolResultMessage (R z))]))"
    unfolding x prod.case by (rule triple_tail) (auto intro: triple_conseq [OF triple_result] simp: assms)
qed

lemma writes_emitToolExecutionStart [writes_intros]: "writes st_log silent (emitToolExecutionStart rt parent tc)"
  by (auto simp: emitToolExecutionStart_def intro!: writes_intros)

lemma writes_execute_and_finalize: "writes st_log silent (execute_and_finalize rt cfg cx am p)"
  unfolding execute_and_finalize_def
  by (rule writes_await [OF writes_executePreparedToolCall writes_finalizeExecutedToolCall]) (auto simp: tool_items_def)

lemma triple_fail_truncated_call:
  "triple (said L) (fail_truncated_call rt cfg am tc) (\<lambda>m. said (L @ [MessageEnd (ToolResultMessage m)]))"
  unfolding fail_truncated_call_def Let_def
  by (rule triple_tail [OF writes_emitToolExecutionStart], rule triple_report_call) simp

lemma triple_sequential_call:
  "triple (said L) (sequential_call rt cfg cx am tc) (\<lambda>z. said (L @ [MessageEnd (ToolResultMessage (snd z))]))"
  unfolding sequential_call_def
proof (rule triple_tail [OF writes_emitToolExecutionStart], rule triple_tail [OF writes_prepareToolCall])
  fix prep :: "'a preparation"
  have "writes st_log silent (case prep of Immediate r isError \<Rightarrow> Return (immediate_call tc r isError)
      | Prepared p \<Rightarrow> execute_and_finalize rt cfg cx am p)"
    by (cases prep) (simp_all add: writes_execute_and_finalize)
  then show "triple (said L) (await (case prep of Immediate r isError \<Rightarrow> Return (immediate_call tc r isError)
      | Prepared p \<Rightarrow> execute_and_finalize rt cfg cx am p) (\<lambda>f.
     await (persistToolResult rt cfg am f) (\<lambda>(f, m).
     await (emitToolExecutionEnd rt None f) (\<lambda>_.
     await (emitToolResultMessage rt m) (\<lambda>_. Return (f, m))))))
     (\<lambda>z. said (L @ [MessageEnd (ToolResultMessage (snd z))]))"
    by (rule triple_tail) (rule triple_report_call, simp)
qed

lemma triple_sequential_calls:
  "triple (said L) (sequential_calls rt cfg cx am tcs) (\<lambda>rs. said (L @ result_ends (map snd rs)))"
proof (induction tcs arbitrary: L)
  case Nil
  then show ?case by (auto intro: triple_Return)
next
  case (Cons tc tcs)
  show ?case
    unfolding sequential_calls.simps
  proof (rule triple_await [OF triple_sequential_call], rule triple_tail [OF writes_aborted])
    fix r :: "finalized_call \<times> tool_result_message" and a :: bool
    show "triple (said (L @ [MessageEnd (ToolResultMessage (snd r))]))
       (if a then Return [r] else await (sequential_calls rt cfg cx am tcs) (\<lambda>rs. Return (r # rs)))
       (\<lambda>rs. said (L @ result_ends (map snd rs)))"
      by (auto intro!: triple_Return triple_await [OF Cons.IH])
  qed
qed

lemma writes_parallel_call: "writes st_log silent (parallel_call rt cfg cx am tc)"
  unfolding parallel_call_def emitToolExecutionEnd_def
  by (auto intro!: writes_intros split: preparation.splits prod.splits)

lemma writes_parallel_calls: "writes st_log silent (parallel_calls rt cfg cx am tcs)"
  by (induction tcs) (auto intro!: writes_intros writes_parallel_call)

lemma writes_all_settled:
  assumes "\<forall>e\<in>set es. writes st_log A e"
  shows "writes st_log A (all_settled rt es)"
  unfolding all_settled_def
proof (rule writes_sync)
  fix s
  show "\<exists>xs. st_log (snd (interleave (rt_schedule rt (st_world s)) es s)) = st_log s @ xs \<and> set xs \<subseteq> A"
    by (rule writes_interleave [OF assms])
qed

lemma triple_publish:
  "triple (said L) (publish_result rt f) (\<lambda>m. said (L @ [MessageEnd (ToolResultMessage m)]))"
  unfolding publish_result_def
  by (rule triple_tail [OF writes_inspect]) (auto intro: triple_conseq [OF triple_result])

lemma map2_snd: "length xs = length ys \<Longrightarrow> map2 (\<lambda>x y. f y) xs ys = map f ys"
  by (induction xs ys rule: list_induct2) auto

lemma for_each_length: "returns (\<lambda>ys. length ys = length xs) (for_each f xs)"
  by (rule returns_weaken [OF returns_for_each [of "\<lambda>_ _. True"]]) (auto dest: list_all2_lengthD)

lemma triple_for_each_results:
  assumes "\<And>L x. triple (said L) (f x) (\<lambda>m. said (L @ [MessageEnd (ToolResultMessage m)]))"
  shows "triple (said L) (for_each f xs) (\<lambda>ms. said (L @ result_ends ms))"
  unfolding triple_def
proof (intro allI impI)
  fix s ms t
  assume s: "said L s" and r: "run (for_each f xs) s = (Inr ms, t)"
  have "length ms = length xs"
    by (rule returns_run [OF for_each_length r])
  then show "said (L @ result_ends ms) t"
    using triple_for_each_said [of f "\<lambda>x m. MessageEnd (ToolResultMessage m)" L xs] assms s r
    unfolding triple_def by (auto simp: map2_snd result_ends_def)
qed

lemma triple_parallel_batch:
  "triple (said L) (executeToolCallsParallel rt cfg cx am tcs) (\<lambda>b. said (L @ result_ends (tb_messages b)))"
  unfolding executeToolCallsParallel_def
proof (rule triple_await [OF triple_returns [OF triple_silent [OF writes_parallel_calls] returns_parallel_calls]])
  fix es :: "('a, finalized_call) task list"
  show "triple (\<lambda>s. answered (good_task (admission_throws cfg)) (never_aborted rt) tcs es \<and> said L s)
     (await (all_settled rt es) (\<lambda>outcomes.
      await (of_result (first_rejection outcomes)) (\<lambda>fs.
      await (for_each (publish_result rt) fs) (\<lambda>ms.
       Return \<lparr>tb_messages = ms, tb_terminate = shouldTerminateToolBatch fs\<rparr>))))
     (\<lambda>b. said (L @ result_ends (tb_messages b)))"
  proof (cases "answered (good_task (admission_throws cfg)) (never_aborted rt) tcs es")
    case True
    have "writes st_log silent (all_settled rt es)"
      using answered_entries [OF True]
      by (intro writes_all_settled) (auto simp: good_task_def intro: writes_mono)
    then have "triple (said L) (await (all_settled rt es) (\<lambda>outcomes.
      await (of_result (first_rejection outcomes)) (\<lambda>fs.
      await (for_each (publish_result rt) fs) (\<lambda>ms.
       Return \<lparr>tb_messages = ms, tb_terminate = shouldTerminateToolBatch fs\<rparr>))))
     (\<lambda>b. said (L @ result_ends (tb_messages b)))"
      by (rule triple_tail, intro triple_tail writes_intros triple_await [OF triple_for_each_results [OF triple_publish]])
         (auto intro: triple_Return)
    then show ?thesis
      by (rule triple_conseq) auto
  qed (simp add: triple_def)
qed

lemma triple_executeToolCalls:
  "triple (said L) (executeToolCalls rt cfg cx am recovered) (\<lambda>b. said (L @ result_ends (tb_messages b)))"
proof -
  have "triple (said L) (executeToolCallsSequential rt cfg cx am tcs) (\<lambda>b. said (L @ result_ends (tb_messages b)))" for tcs
    unfolding executeToolCallsSequential_def
    by (rule triple_await [OF triple_sequential_calls]) (auto intro: triple_Return)
  then show ?thesis
    by (simp add: executeToolCalls_def Let_def triple_parallel_batch)
qed

lemma triple_truncated:
  "triple (said L) (failToolCallsFromTruncatedMessage rt cfg am tcs) (\<lambda>b. said (L @ result_ends (tb_messages b)))"
  unfolding failToolCallsFromTruncatedMessage_def
  by (rule triple_await [OF triple_for_each_results [OF triple_fail_truncated_call]]) (auto intro: triple_Return)

section \<open>Leases of a batch\<close>

text \<open>
  A part of a run gives back the leases it gets: all of them when it returns, and when it throws all
  of them unless \<open>A\<close>; it never releases more than it acquired.
\<close>

definition balanced :: "bool \<Rightarrow> nat \<Rightarrow> ('w, 'a) task \<Rightarrow> bool" where
  "balanced A n p \<longleftrightarrow>
     (\<forall>s r t. run p s = (r, t) \<longrightarrow> weigh (lease_weight n) (st_log s) \<le> weigh (lease_weight n) (st_log t)
        \<and> (\<not> A \<or> (\<exists>x. r = Inr x) \<longrightarrow> weigh (lease_weight n) (st_log t) = weigh (lease_weight n) (st_log s)))"

lemma balancedD:
  assumes "balanced A n p" and "run p s = (r, t)"
  shows "weigh (lease_weight n) (st_log s) \<le> weigh (lease_weight n) (st_log t)"
    and "\<not> A \<or> (\<exists>x. r = Inr x) \<Longrightarrow> weigh (lease_weight n) (st_log t) = weigh (lease_weight n) (st_log s)"
  using assms unfolding balanced_def by blast+

lemma balanced_owes:
  assumes "owes_leases A n p"
  shows "balanced A n p"
  unfolding balanced_def
proof (intro allI impI)
  fix s r t
  assume "run p s = (r, t)"
  then obtain d where "weigh (lease_weight n) (st_log t) = weigh (lease_weight n) (st_log s) - d"
      and "case r of Inl e \<Rightarrow> left_behind A e d | Inr x \<Rightarrow> d = 0"
    using owes_run [OF assms, of s] by auto
  then show "weigh (lease_weight n) (st_log s) \<le> weigh (lease_weight n) (st_log t)
      \<and> (\<not> A \<or> (\<exists>x. r = Inr x) \<longrightarrow> weigh (lease_weight n) (st_log t) = weigh (lease_weight n) (st_log s))"
    by (auto simp: left_behind_def split: sum.splits)
qed

lemma balanced_writes:
  assumes "writes st_log {x. lease_weight n x = 0} p"
  shows "balanced A n p"
  by (rule balanced_owes, rule owes_weightless) (auto simp: assms)

lemma balanced_Return [simp]: "balanced A n (Return x)"
  by (simp add: balanced_def)

lemma balanced_await:
  assumes "balanced A n p" and "returns P p" and "\<And>x. P x \<Longrightarrow> balanced A n (f x)"
  shows "balanced A n (await p f)"
  unfolding balanced_def
proof (intro allI impI)
  fix s r t
  assume run: "run (await p f) s = (r, t)"
  obtain q u where q: "run p s = (q, u)" by (cases "run p s")
  show "weigh (lease_weight n) (st_log s) \<le> weigh (lease_weight n) (st_log t)
      \<and> (\<not> A \<or> (\<exists>x. r = Inr x) \<longrightarrow> weigh (lease_weight n) (st_log t) = weigh (lease_weight n) (st_log s))"
  proof (cases q)
    case (Inl e)
    then have "r = Inl e" "t = u"
      using run q by (simp_all add: run_await)
    then show ?thesis
      using balancedD [OF assms(1) q] Inl by auto
  next
    case (Inr x)
    then have "run (f x) u = (r, t)"
      using run q by (simp add: run_await)
    moreover have "balanced A n (f x)"
      using returns_run [OF assms(2)] q Inr assms(3) by blast
    ultimately show ?thesis
      using balancedD [of A n "f x" u r t] balancedD(2) [OF assms(1) q] Inr by auto
  qed
qed

lemma balanced_then: "balanced A n p \<Longrightarrow> (\<And>x. balanced A n (f x)) \<Longrightarrow> balanced A n (await p f)"
  by (rule balanced_await [of A n p "\<lambda>_. True"]) auto

lemma balanced_emit: "balanced A n (emit rt e)"
  by (rule balanced_writes) (auto intro!: writes_intros)

lemma balanced_report_call:
  "balanced A n (await (persistToolResult rt cfg am f) (\<lambda>(f, m).
     await (emitToolExecutionEnd rt None f) (\<lambda>_.
     await (emitToolResultMessage rt m) (\<lambda>_. Return (g f m)))))"
  by (rule balanced_writes)
     (auto simp: emitToolExecutionEnd_def emitToolResultMessage_def intro!: writes_intros split: prod.splits)

lemma balanced_execute_and_finalize: "balanced (admission_throws cfg) n (execute_and_finalize rt cfg cx am p)"
  unfolding execute_and_finalize_def
  by (rule balanced_then [OF balanced_owes [OF executePreparedToolCall_leases]])
     (auto intro: balanced_writes writes_intros)

lemma balanced_sequential_call: "balanced (admission_throws cfg) n (sequential_call rt cfg cx am tc)"
  unfolding sequential_call_def
proof (rule balanced_then [OF _ balanced_then [OF _ balanced_then [OF _ balanced_report_call]]])
  show "balanced (admission_throws cfg) n (emitToolExecutionStart rt None tc)"
    by (simp add: emitToolExecutionStart_def balanced_emit)
  show "balanced (admission_throws cfg) n (prepareToolCall rt cfg cx am tc)"
    by (auto intro: balanced_writes writes_intros)
  fix prep
  show "balanced (admission_throws cfg) n (case prep of Immediate r isError \<Rightarrow> Return (immediate_call tc r isError)
      | Prepared p \<Rightarrow> execute_and_finalize rt cfg cx am p)"
    by (cases prep) (simp_all add: balanced_execute_and_finalize)
qed

lemma balanced_aborted: "balanced A n (aborted rt)"
  by (auto intro: balanced_writes writes_intros)

lemma balanced_sequential_calls: "balanced (admission_throws cfg) n (sequential_calls rt cfg cx am tcs)"
  by (induction tcs) (auto intro!: balanced_then balanced_sequential_call balanced_aborted)

text \<open>
  Executions that run together: a lease left behind belongs to one that was rejected, and then the
  batch is rejected, too.
\<close>

lemma balanced_all_settled:
  assumes "\<forall>e\<in>set es. owes_leases A n e" and "\<And>fs. balanced A n (f fs)"
  shows "balanced A n (await (all_settled rt es) (\<lambda>outcomes. await (of_result (first_rejection outcomes)) f))"
  unfolding balanced_def
proof (intro allI impI)
  fix s r t
  assume run: "run (await (all_settled rt es) (\<lambda>outcomes. await (of_result (first_rejection outcomes)) f)) s = (r, t)"
  let ?w = "\<lambda>s. weigh (lease_weight n) (st_log s)" and ?R = "\<lambda>_ d. d = (0 :: int)"
  obtain rs u where i: "interleave (rt_schedule rt (st_world s)) es s = (rs, u)"
    by (cases "interleave (rt_schedule rt (st_world s)) es s")
  have "list_all2 (owes st_log (lease_weight n) (left_behind A) ?R) es (replicate (length es) 0)"
    using assms(1) by (auto simp: list_all2_conv_all_nth)
  from owes_interleave [OF this, of "rt_schedule rt (st_world s)" s] i
  obtain ds where ds: "list_all2 (remainder (left_behind A) ?R) rs ds" "?w u + sum_list ds = ?w s"
    by (auto simp: sum_list_replicate)
  have each: "ds ! j \<le> 0 \<and> (\<not> A \<or> (\<exists>x. rs ! j = Inr x) \<longrightarrow> ds ! j = 0)" if "j < length ds" for j
    using list_all2_nthD2 [OF ds(1) that]
    by (cases "rs ! j") (auto simp: remainder_def left_behind_def)
  then have le: "sum_list ds \<le> 0"
    by (intro sum_list_nonpos) (auto simp: in_set_conv_nth)
  have zero: "sum_list ds = 0" if "\<not> A \<or> (\<exists>fs. rs = map Inr fs)"
  proof -
    have "d = 0" if "d \<in> set ds" for d
      using that each \<open>\<not> A \<or> _\<close> list_all2_lengthD [OF ds(1)] by (auto simp: in_set_conv_nth)
    then show ?thesis
      by (induction ds) auto
  qed
  show "?w s \<le> ?w t \<and> (\<not> A \<or> (\<exists>x. r = Inr x) \<longrightarrow> ?w t = ?w s)"
  proof (cases "first_rejection rs")
    case (Inl e)
    then have "r = Inl e" "t = u"
      using run i by (simp_all add: run_await all_settled_def)
    then show ?thesis
      using ds(2) le zero by auto
  next
    case (Inr fs)
    then have "run (f fs) u = (r, t)" and "rs = map Inr fs"
      using run i first_rejection_Inr [OF Inr] by (simp_all add: run_await all_settled_def)
    then show ?thesis
      using ds(2) zero balancedD [OF assms(2) [of fs], of u r t] by auto
  qed
qed

lemma balanced_for_each: "(\<And>x. balanced A n (f x)) \<Longrightarrow> balanced A n (for_each f xs)"
  by (induction xs) (auto intro!: balanced_then)

lemma balanced_publish: "balanced A n (publish_result rt f)"
  by (rule balanced_writes) (auto simp: publish_result_def emitToolResultMessage_def intro!: writes_intros)

lemma balanced_parallel_calls: "balanced A n (parallel_calls rt cfg cx am tcs)"
proof -
  have "writes st_log {x. lease_weight n x = 0} (parallel_call rt cfg cx am tc)" for tc
    unfolding parallel_call_def emitToolExecutionEnd_def emitToolExecutionStart_def
    by (auto intro!: writes_intros split: preparation.splits prod.splits)
  then have "writes st_log {x. lease_weight n x = 0} (parallel_calls rt cfg cx am tcs)"
    by (induction tcs) (auto intro!: writes_intros)
  then show ?thesis
    by (rule balanced_writes)
qed

lemma balanced_of_result [simp]: "balanced A n (of_result r)"
  by (simp add: balanced_def)

lemma balanced_executeToolCalls: "balanced (admission_throws cfg) n (executeToolCalls rt cfg cx am recovered)" for rt :: "'a runtime"
proof -
  have "balanced (admission_throws cfg) n (executeToolCallsParallel rt cfg cx am tcs)" for tcs
    unfolding executeToolCallsParallel_def
  proof (rule balanced_await [OF balanced_parallel_calls returns_parallel_calls])
    fix es :: "('a, finalized_call) task list"
    assume es: "answered (good_task (admission_throws cfg)) (never_aborted rt) tcs es"
    show "balanced (admission_throws cfg) n (await (all_settled rt es) (\<lambda>outcomes.
      await (of_result (first_rejection outcomes)) (\<lambda>fs.
      await (for_each (publish_result rt) fs) (\<lambda>ms.
       Return \<lparr>tb_messages = ms, tb_terminate = shouldTerminateToolBatch fs\<rparr>))))"
      using answered_entries [OF es]
      by (intro balanced_all_settled balanced_then balanced_for_each balanced_publish balanced_Return)
         (auto simp: good_task_def)
  qed
  moreover have "balanced (admission_throws cfg) n (executeToolCallsSequential rt cfg cx am tcs)" for tcs
    unfolding executeToolCallsSequential_def by (auto intro!: balanced_then balanced_sequential_calls)
  ultimately show ?thesis
    by (simp add: executeToolCalls_def Let_def)
qed

section \<open>Which tools a batch may start\<close>

definition batch_items :: "tool_call list \<Rightarrow> run_item set" where
  "batch_items tcs = {Emitted e |e. \<not> turn_mark (Emitted e)} \<union> (\<Union>tc\<in>set tcs. tool_items (tc_id tc))"

lemma batch_items_within: "batch_items tcs \<subseteq> within_turn"
  by (auto simp: batch_items_def tool_items_def)

lemma writes_execute_in:
  assumes "tool_items (tc_id (pd_toolCall p)) \<subseteq> A"
  shows "writes st_log A (execute_and_finalize rt cfg cx am p)"
  unfolding execute_and_finalize_def by (intro writes_intros writes_executePreparedToolCall assms)

lemma writes_sequential_call_in:
  assumes "tool_items (tc_id tc) \<subseteq> A" and "\<And>e. \<not> turn_mark (Emitted e) \<Longrightarrow> Emitted e \<in> A"
  shows "writes st_log A (sequential_call rt cfg cx am tc)"
proof -
  have exec: "writes st_log A (case prep of Immediate r isError \<Rightarrow> Return (immediate_call tc r isError)
      | Prepared p \<Rightarrow> execute_and_finalize rt cfg cx am p)"
    if "case prep of Immediate r e \<Rightarrow> e | Prepared p \<Rightarrow> pd_toolCall p = tc" for prep
    using that assms by (cases prep) (auto intro: writes_execute_in)
  have rest: "writes st_log A (await (persistToolResult rt cfg am f) (\<lambda>(f, m).
     await (emitToolExecutionEnd rt None f) (\<lambda>_. await (emitToolResultMessage rt m) (\<lambda>_. Return (f, m)))))" for f
    by (auto simp: emitToolExecutionEnd_def emitToolResultMessage_def intro!: writes_intros assms(2) split: prod.splits)
  show ?thesis
    unfolding sequential_call_def emitToolExecutionStart_def
    by (rule writes_await [OF writes_emit [OF assms(2)]], simp,
        rule writes_await_returns [OF writes_prepareToolCall returns_prepareToolCall],
        rule writes_await [OF exec rest])
qed

lemma parallel_call_in:
  assumes "tool_items (tc_id tc) \<subseteq> A" and "\<And>e. \<not> turn_mark (Emitted e) \<Longrightarrow> Emitted e \<in> A"
  shows "writes st_log A (parallel_call rt cfg cx am tc)"
    and "returns (writes st_log A) (parallel_call rt cfg cx am tc)"
proof -
  show "writes st_log A (parallel_call rt cfg cx am tc)"
    unfolding parallel_call_def emitToolExecutionStart_def emitToolExecutionEnd_def
    by (auto intro!: writes_intros assms(2) split: preparation.splits prod.splits)
  have finish: "writes st_log A (finish_prepared rt cfg cx am p)" if "pd_toolCall p = tc" for p
    unfolding finish_prepared_def emitToolExecutionEnd_def
    using that assms by (auto intro!: writes_intros writes_execute_in split: prod.splits)
  show "returns (writes st_log A) (parallel_call rt cfg cx am tc)"
    unfolding parallel_call_def
    by (rule returns_await_any, rule returns_await [OF returns_prepareToolCall])
       (auto intro!: returns_await_any finish split: preparation.splits prod.splits)
qed

lemma parallel_calls_in:
  assumes "\<And>tc. tc \<in> set tcs \<Longrightarrow> tool_items (tc_id tc) \<subseteq> A" and "\<And>e. \<not> turn_mark (Emitted e) \<Longrightarrow> Emitted e \<in> A"
  shows "writes st_log A (parallel_calls rt cfg cx am tcs)"
    and "returns (\<lambda>es. \<forall>e\<in>set es. writes st_log A e) (parallel_calls rt cfg cx am tcs)"
  using assms(1)
proof (induction tcs)
  case (Cons tc tcs)
  {
    case 1
    then show ?case
      using Cons.IH(1) parallel_call_in(1) [of tc A] assms(2) by (auto intro!: writes_intros)
  next
    case 2
    then have "returns (writes st_log A) (parallel_call rt cfg cx am tc)"
      using assms(2) by (intro parallel_call_in(2)) simp_all
    moreover have "returns (\<lambda>es. \<forall>e\<in>set es. writes st_log A e) (parallel_calls rt cfg cx am tcs)"
      using Cons.IH(2) 2 by simp
    ultimately show ?case
      unfolding parallel_calls.simps
      by (elim returns_await) (auto intro!: returns_await_any elim!: returns_await)
  }
qed simp_all

lemma writes_batch: "writes st_log (batch_items (requested_calls am recovered)) (executeToolCalls rt cfg cx am recovered)"
proof -
  let ?tcs = "requested_calls am recovered"
  let ?A = "batch_items ?tcs"
  have items: "\<And>tc. tc \<in> set ?tcs \<Longrightarrow> tool_items (tc_id tc) \<subseteq> ?A" and em: "\<And>e. \<not> turn_mark (Emitted e) \<Longrightarrow> Emitted e \<in> ?A"
    by (auto simp: batch_items_def)
  have "writes st_log ?A (sequential_calls rt cfg cx am ts)" if "set ts \<subseteq> set ?tcs" for ts
    using that by (induction ts) (auto intro!: writes_intros writes_sequential_call_in items em)
  then have seq: "writes st_log ?A (executeToolCallsSequential rt cfg cx am ?tcs)"
    unfolding executeToolCallsSequential_def by (auto intro!: writes_intros)
  have publish: "writes st_log ?A (for_each (publish_result rt) fs)" for fs
    by (auto simp: publish_result_def emitToolResultMessage_def intro!: writes_intros em)
  have "writes st_log ?A (executeToolCallsParallel rt cfg cx am ?tcs)"
    unfolding executeToolCallsParallel_def
    by (rule writes_await_returns [OF parallel_calls_in [OF items em]])
       (auto intro!: writes_intros writes_all_settled publish items em)
  then show ?thesis
    using seq by (simp add: executeToolCalls_def requested_calls_def [symmetric] Let_def)
qed

section \<open>Truncated responses\<close>

lemma writes_truncated: "writes st_log (range Emitted) (failToolCallsFromTruncatedMessage rt cfg am tcs)"
  unfolding failToolCallsFromTruncatedMessage_def fail_truncated_call_def Let_def emitToolExecutionStart_def
    emitToolExecutionEnd_def emitToolResultMessage_def
  by (auto intro!: writes_intros split: prod.splits)

lemma within_truncated: "writes st_log within_turn (failToolCallsFromTruncatedMessage rt cfg am tcs)"
  unfolding failToolCallsFromTruncatedMessage_def fail_truncated_call_def Let_def emitToolExecutionStart_def
    emitToolExecutionEnd_def emitToolResultMessage_def
  by (auto intro!: writes_intros split: prod.splits)

lemma returns_fail_truncated_call: "returns (\<lambda>m. answers tc m \<and> tr_isError m) (fail_truncated_call rt cfg am tc)"
  unfolding fail_truncated_call_def Let_def
  by (rule returns_await_any, rule returns_await [OF returns_persist])
     (auto simp: immediate_call_def intro!: returns_await_any)

lemma returns_truncated:
  "returns (\<lambda>b. list_all2 (\<lambda>tc m. answers tc m \<and> tr_isError m) tcs (tb_messages b) \<and> \<not> tb_terminate b)
     (failToolCallsFromTruncatedMessage rt cfg am tcs)"
  unfolding failToolCallsFromTruncatedMessage_def
  by (rule returns_await [OF returns_for_each [OF returns_fail_truncated_call]]) simp

end
