(* ===== verification/AgentLoop.thy ===== *)
theory AgentLoop
  imports AgentTools JsonText
begin

text \<open>
  The agent loop (\<open>packages/agent/src/agent-loop.ts\<close> up to \<open>streamAssistantResponse\<close>,
  \<open>no-progress.ts\<close>, \<open>step-snapshot.ts\<close>): one iteration prepares the next turn, injects the
  pending messages, prepares and binds the request, streams the response, executes its tool calls,
  and decides whether the run goes on. The run is the repetition of such iterations; it may not
  end, so \<open>runLoop\<close> is a partial function whose value \<open>None\<close> is a run that goes on forever.
\<close>

section \<open>No-progress fingerprints\<close>

definition NO_PROGRESS_REPEAT_LIMIT :: nat where
  "NO_PROGRESS_REPEAT_LIMIT = 3"

definition error_message :: "assistant_message \<Rightarrow> json option" where
  "error_message m = map_of (am_extra m) ''errorMessage''"

definition call_projection :: "tool_call \<Rightarrow> json" where
  "call_projection tc =
     JObject ([(''name'', JString (tc_name tc)), (''arguments'', JObject (tc_arguments tc))]
       @ optional_field ''namespace'' id (map_of (tc_extra tc) ''namespace''))"

definition turn_projection :: "assistant_message \<Rightarrow> json" where
  "turn_projection m =
     JObject ((''stopReason'', JString (stop_reason_text (am_stopReason m)))
       # optional_field ''errorMessage'' id (error_message m)
       @ [(''calls'', JArray (map call_projection (tool_calls_of (am_content m))))])"

fun block_projection :: "content_block \<Rightarrow> json" where
  "block_projection (TextBlock t e) = JObject [(''type'', JString ''text''), (''text'', JString t)]"
| "block_projection (ImageBlock d t e) = JObject [(''type'', JString ''image''), (''mimeType'', JString t), (''data'', JString d)]"
| "block_projection (ThinkingBlock t e) = JObject [(''type'', JString ''thinking'')]"
| "block_projection (ToolCallBlock tc) = JObject [(''type'', JString ''toolCall'')]"

definition result_projection :: "tool_result_message \<Rightarrow> json" where
  "result_projection m =
     JObject [(''toolName'', JString (tr_toolName m)), (''isError'', JBool (tr_isError m)),
       (''content'', JArray (map block_projection (tr_content m)))]"

definition fingerprintAssistantTurn :: "(64 word \<Rightarrow> string) \<Rightarrow> assistant_message \<Rightarrow> string" where
  "fingerprintAssistantTurn ft m = stringify ft (turn_projection m)"

definition fingerprintToolResult :: "(64 word \<Rightarrow> string) \<Rightarrow> tool_result_message \<Rightarrow> string" where
  "fingerprintToolResult ft m = stringify ft (result_projection m)"

definition turn_fingerprint :: "(64 word \<Rightarrow> string) \<Rightarrow> assistant_message \<Rightarrow> tool_result_message list \<Rightarrow> string" where
  "turn_fingerprint ft m rs = join_with [CHR 0x0A] (fingerprintAssistantTurn ft m # map (fingerprintToolResult ft) rs)"

section \<open>Messages the loop makes itself\<close>

definition zero_usage :: usage where
  "zero_usage = \<lparr>u_input = JInt 0, u_output = JInt 0, u_cacheRead = JInt 0, u_cacheWrite = JInt 0, u_cacheWrite1h = None,
     u_reasoning = None, u_totalTokens = JInt 0,
     u_cost = \<lparr>cost_input = JInt 0, cost_output = JInt 0, cost_cacheRead = JInt 0, cost_cacheWrite = JInt 0, cost_total = JInt 0\<rparr>\<rparr>"

definition own_message :: "'w loop_config \<Rightarrow> string \<Rightarrow> stop_reason \<Rightarrow> string \<Rightarrow> js_number \<Rightarrow> assistant_message" where
  "own_message cfg text reason errorMessage now =
     \<lparr>am_content = [TextBlock text []], am_api = mi_api (lc_model cfg), am_provider = mi_provider (lc_model cfg),
      am_model = mi_id (lc_model cfg), am_usage = zero_usage, am_stopReason = reason, am_isResponseCheckpoint = False,
      am_deferred = None, am_timestamp = now, am_extra = [(''errorMessage'', JString errorMessage)]\<rparr>"

definition createAbortedAssistantMessage :: "'w loop_config \<Rightarrow> js_number \<Rightarrow> assistant_message" where
  "createAbortedAssistantMessage cfg now = own_message cfg [] SR_aborted ''Operation aborted'' now"

fun first_of_each :: "string list \<Rightarrow> string list" where
  "first_of_each [] = []"
| "first_of_each (n # ns) = n # first_of_each (filter (\<lambda>m. m \<noteq> n) ns)"

definition no_progress_text :: "tool_call list \<Rightarrow> string" where
  "no_progress_text tcs =
     ''Stopped: no progress. '' @ join_with '', '' (first_of_each (map tc_name tcs))
     @ '' returned identical results to identical arguments '' @ nat_text NO_PROGRESS_REPEAT_LIMIT
     @ '' turns in a row. The agent is stuck in a loop; change the approach or the arguments.''"

definition noProgressStopMessage :: "'w loop_config \<Rightarrow> tool_call list \<Rightarrow> js_number \<Rightarrow> assistant_message" where
  "noProgressStopMessage cfg tcs now = own_message cfg (no_progress_text tcs) SR_error (no_progress_text tcs) now"

section \<open>Requests\<close>

definition resolveSystemPrompt :: "string \<Rightarrow> 'w loop_config \<Rightarrow> ('w, string) task" where
  "resolveSystemPrompt snapshot cfg =
     inspect (\<lambda>s. case lc_getSystemPrompt cfg (st_world s) of None \<Rightarrow> snapshot | Some p \<Rightarrow> p)"

definition buildProviderContext :: "'w agent_context \<Rightarrow> 'w loop_config \<Rightarrow> ('w, 'w provider_context) task" where
  "buildProviderContext cx cfg =
     await (call (lc_transformContext cfg (cx_messages cx))) (\<lambda>ms.
     await (call (lc_convertToLlm cfg ms)) (\<lambda>llm.
     Return \<lparr>pc_systemPrompt = cx_systemPrompt cx, pc_messages = llm, pc_tools = cx_tools cx\<rparr>))"

definition createStepSnapshot :: "'w agent_context \<Rightarrow> 'w loop_config \<Rightarrow> nat \<Rightarrow> 'w agent_context \<times> 'w loop_config" where
  "createStepSnapshot cx cfg stepNumber =
     (let stepId = (case lc_runId cfg of None \<Rightarrow> ''run'' | Some r \<Rightarrow> r) @ ''-step-'' @ nat_text stepNumber;
          tools = (case cx_tools cx of Some ts \<Rightarrow> ts
                   | None \<Rightarrow> (case cx_toolPlan cx of None \<Rightarrow> [] | Some p \<Rightarrow> tp_tools p));
          plan = createToolPlan tools stepNumber stepId
      in (cx\<lparr>cx_tools := Some (tp_tools plan), cx_toolPlan := Some plan\<rparr>,
          cfg\<lparr>lc_stepId := Some stepId, lc_toolPlanRevision := Some (tp_revision plan)\<rparr>))"

definition provider_event :: "'w loop_config \<Rightarrow> phase_outcome \<Rightarrow> string option \<Rightarrow> execution_event" where
  "provider_event cfg out reason =
     \<lparr>xe_phase = ProviderRequest, xe_runId = lc_runId cfg, xe_stepId = lc_stepId cfg,
      xe_toolPlanRevision = lc_toolPlanRevision cfg, xe_toolCallId = None, xe_toolName = None,
      xe_outcome = out, xe_reason = reason\<rparr>"

definition reportProviderResult :: "'w loop_config \<Rightarrow> assistant_message \<Rightarrow> ('w, unit) task" where
  "reportProviderResult cfg m =
     reportExecution cfg
       (if am_stopReason m = SR_aborted then provider_event cfg PhaseCancelled (Some ''provider aborted'')
        else if am_stopReason m = SR_error then provider_event cfg PhaseFailed (Some ''provider error'')
        else provider_event cfg PhaseSucceeded None)"

text \<open>
  The classification of provider errors (\<open>packages/ai/src/utils/retry.ts\<close>): only a failed response
  with an error text can be retryable; the patterns on that text are a parameter.
\<close>

definition isRetryableAssistantError :: "'w runtime \<Rightarrow> assistant_message \<Rightarrow> bool" where
  "isRetryableAssistantError rt m \<longleftrightarrow>
     am_stopReason m = SR_error \<and> (case error_message m of Some (JString t) \<Rightarrow> True | _ \<Rightarrow> False) \<and> rt_retryable rt m"

section \<open>Streaming\<close>

record stream_state =
  ss_messages :: "agent_message list"
  ss_partial :: "assistant_message option"
  ss_completed :: "(nat \<times> content_block) list"

fun event_partial :: "assistant_event \<Rightarrow> assistant_message" where
  "event_partial (StartEvent m) = m"
| "event_partial (TextStart i m) = m"
| "event_partial (TextDelta i d m) = m"
| "event_partial (TextEnd i c m b) = m"
| "event_partial (ThinkingStart i m) = m"
| "event_partial (ThinkingDelta i d m) = m"
| "event_partial (ThinkingEnd i c m b) = m"
| "event_partial (ToolcallStart i m) = m"
| "event_partial (ToolcallDelta i d m) = m"
| "event_partial (ToolcallEnd i tc m b) = m"
| "event_partial (DoneEvent r m) = m"
| "event_partial (ErrorEvent r m) = m"

text \<open>The index and the block that an event completes.\<close>

fun completed_block :: "assistant_event \<Rightarrow> (nat \<times> content_block) option" where
  "completed_block (TextEnd i c m True) = (if i < length (am_content m) then Some (i, am_content m ! i) else None)"
| "completed_block (ThinkingEnd i c m True) = (if i < length (am_content m) then Some (i, am_content m ! i) else None)"
| "completed_block (ToolcallEnd i tc m True) = Some (i, ToolCallBlock tc)"
| "completed_block e = None"

definition stream_start :: "'w runtime \<Rightarrow> stream_state \<Rightarrow> assistant_message \<Rightarrow> ('w, stream_state) task" where
  "stream_start rt ss m =
     await (emit rt (MessageStart (AssistantMessage m))) (\<lambda>_.
     Return (ss\<lparr>ss_messages := ss_messages ss @ [AssistantMessage m], ss_partial := Some m\<rparr>))"

definition stream_update :: "'w runtime \<Rightarrow> 'w loop_config \<Rightarrow> stream_state \<Rightarrow> assistant_event \<Rightarrow> ('w, stream_state) task" where
  "stream_update rt cfg ss e =
     await (case completed_block e of
         None \<Rightarrow> Return ss
       | Some (i, b) \<Rightarrow>
           await (call (lc_onCompletedOutputItem cfg (lc_stepId cfg) i b (event_partial e))) (\<lambda>_.
           Return (ss\<lparr>ss_completed := AList.update i b (ss_completed ss)\<rparr>))) (\<lambda>ss.
     case ss_partial ss of
       None \<Rightarrow> Return ss
     | Some _ \<Rightarrow>
         await (emit rt (MessageUpdate (AssistantMessage (event_partial e)) e)) (\<lambda>_.
         Return (ss\<lparr>ss_messages := butlast (ss_messages ss) @ [AssistantMessage (event_partial e)],
                    ss_partial := Some (event_partial e)\<rparr>)))"

fun read_response :: "'w runtime \<Rightarrow> 'w loop_config \<Rightarrow> stream_state \<Rightarrow> ('w, assistant_event) callback list
    \<Rightarrow> ('w, stream_state) task" where
  "read_response rt cfg ss [] = Return ss"
| "read_response rt cfg ss (next # rest) =
     await (call next) (\<lambda>e. case e of
       StartEvent m \<Rightarrow> await (stream_start rt ss m) (\<lambda>ss. read_response rt cfg ss rest)
     | DoneEvent r m \<Rightarrow> Return ss
     | ErrorEvent r m \<Rightarrow> Return ss
     | _ \<Rightarrow> await (stream_update rt cfg ss e) (\<lambda>ss. read_response rt cfg ss rest))"

definition is_thinking :: "content_block \<Rightarrow> bool" where
  "is_thinking b \<longleftrightarrow> (case b of ThinkingBlock t e \<Rightarrow> True | _ \<Rightarrow> False)"

definition is_tool_call :: "content_block \<Rightarrow> bool" where
  "is_tool_call b \<longleftrightarrow> (case b of ToolCallBlock tc \<Rightarrow> True | _ \<Rightarrow> False)"

text \<open>The completed blocks in order, without reasoning at the end.\<close>

definition retained_blocks :: "(nat \<times> content_block) list \<Rightarrow> (nat \<times> content_block) list" where
  "retained_blocks completed = rev (dropWhile (\<lambda>(i, b). is_thinking b) (rev (sort_key fst completed)))"

definition response_checkpoint :: "assistant_message \<Rightarrow> content_block list \<Rightarrow> assistant_message" where
  "response_checkpoint m content =
     m\<lparr>am_content := content, am_isResponseCheckpoint := True,
       am_stopReason := (if list_ex is_tool_call content then SR_toolUse else SR_stop),
       am_deferred := None, am_usage := zero_usage,
       am_extra := filter (\<lambda>(k, v). k \<notin> {''responseId'', ''errorMessage'', ''rawStopReason'', ''endTurn'', ''diagnostics''})
         (am_extra m)\<rparr>"

definition without_indexes :: "nat list \<Rightarrow> content_block list \<Rightarrow> content_block list" where
  "without_indexes idx bs = map snd (filter (\<lambda>(i, b). i \<notin> set idx) (enumerate 0 bs))"

definition with_error :: "stop_reason \<Rightarrow> string \<Rightarrow> assistant_message \<Rightarrow> assistant_message" where
  "with_error reason text m =
     m\<lparr>am_stopReason := reason, am_extra := AList.update ''errorMessage'' (JString text) (am_extra m)\<rparr>"

definition split_response :: "'w runtime \<Rightarrow> bool \<Rightarrow> (nat \<times> content_block) list \<Rightarrow> assistant_message
    \<Rightarrow> assistant_message \<times> assistant_message option" where
  "split_response rt isAborted completed m =
     (let kept = retained_blocks completed
      in if \<not> isAborted \<and> isRetryableAssistantError rt m \<and> kept \<noteq> []
         then (m\<lparr>am_content := without_indexes (map fst kept) (am_content m)\<rparr>,
               Some (response_checkpoint m (map snd kept)))
         else (m, None))"

record streamed_response =
  sr_message :: assistant_message
  sr_checkpoint :: "assistant_message option"
  sr_messages :: "agent_message list"

text \<open>The third component is what the transcript of the context has become.\<close>

definition finish_response :: "'w runtime \<Rightarrow> 'w loop_config \<Rightarrow> stream_state \<Rightarrow> assistant_message
    \<Rightarrow> ('w, streamed_response) task" where
  "finish_response rt cfg ss result =
     await (aborted rt) (\<lambda>a.
     let m = (if a \<and> am_stopReason result = SR_error then with_error SR_aborted ''Operation aborted'' result else result)
     in await (reportProviderResult cfg m) (\<lambda>_.
        await (if ss_partial ss \<noteq> None then Return () else emit rt (MessageStart (AssistantMessage m))) (\<lambda>_.
        await (aborted rt) (\<lambda>a'.
        let (m', cp) = split_response rt a' (ss_completed ss) m
        in Return \<lparr>sr_message = m', sr_checkpoint = cp,
                   sr_messages = (if ss_partial ss \<noteq> None then butlast (ss_messages ss) else ss_messages ss)\<rparr>))))"

type_synonym 'w stream_fn = "model_info \<Rightarrow> 'w provider_context \<Rightarrow> 'w loop_config \<Rightarrow> ('w, 'w response) callback"

definition may_request :: "'w runtime \<Rightarrow> 'w loop_config \<Rightarrow> ('w, bool) task" where
  "may_request rt cfg =
     attempt (\<lambda>s. if rt_aborted rt (st_world s) then (Inr False, s)
        else let (answer, w) = lc_admitEffect cfg (st_world s); e = provider_event cfg PhaseStarted None
             in case answer of
                  Inl err \<Rightarrow> (Inl err, s\<lparr>st_world := w\<rparr>)
                | Inr admitted \<Rightarrow>
                    if admitted
                    then (Inr True, add_log [Observed e, ProviderInvoked (mi_id (lc_model cfg))]
                                      (s\<lparr>st_world := lc_onExecutionEvent cfg e w\<rparr>))
                    else (Inr False, s\<lparr>st_world := w\<rparr>))"

definition streamAssistantResponse :: "'w runtime \<Rightarrow> 'w stream_fn \<Rightarrow> 'w agent_context \<Rightarrow> 'w loop_config
    \<Rightarrow> ('w, streamed_response) task" where
  "streamAssistantResponse rt streamFn cx cfg =
     await (buildProviderContext cx cfg) (\<lambda>llm.
     await (resolveSystemPrompt (pc_systemPrompt llm) cfg) (\<lambda>prompt.
     let llm = llm\<lparr>pc_systemPrompt := prompt\<rparr>
     in await (modify (\<lambda>s. s\<lparr>st_world := lc_onProviderContext cfg (lc_model cfg) llm (st_world s)\<rparr>)) (\<lambda>_.
        await (call (lc_getApiKey cfg (mi_provider (lc_model cfg)))) (\<lambda>key.
        let resolvedApiKey = (case key of None \<Rightarrow> lc_apiKey cfg | Some k \<Rightarrow> if k = '''' then lc_apiKey cfg else Some k)
        in await (may_request rt cfg) (\<lambda>ok.
           if \<not> ok
           then await (inspect (\<lambda>s. createAbortedAssistantMessage cfg (rt_now rt (st_world s)))) (\<lambda>m.
                await (reportExecution cfg (provider_event cfg PhaseCancelled (Some ''cancelled before provider request''))) (\<lambda>_.
                await (emit rt (MessageStart (AssistantMessage m))) (\<lambda>_.
                Return \<lparr>sr_message = m, sr_checkpoint = None, sr_messages = cx_messages cx\<rparr>)))
           else await (try_catch (call (streamFn (lc_model cfg) llm (cfg\<lparr>lc_apiKey := resolvedApiKey\<rparr>)))
                  (\<lambda>e. await (reportExecution cfg (provider_event cfg PhaseFailed (Some ''provider request failed'')))
                         (\<lambda>_. Throw e))) (\<lambda>resp.
                await (read_response rt cfg \<lparr>ss_messages = cx_messages cx, ss_partial = None, ss_completed = []\<rparr>
                  (rp_events resp)) (\<lambda>ss.
                await (call (rp_result resp)) (\<lambda>result. finish_response rt cfg ss result))))))))"

section \<open>One iteration of the loop\<close>

record 'w loop_state =
  lp_context :: "'w agent_context"
  lp_newMessages :: "agent_message list"
  lp_config :: "'w loop_config"
  lp_lastTurn :: "'w turn_context option"
  lp_lastFingerprint :: "string option"
  lp_repeats :: nat
  lp_stepNumber :: nat
  lp_pending :: "agent_message list"
  lp_hasMore :: bool

definition apply_update :: "'w turn_update option \<Rightarrow> 'w loop_state \<Rightarrow> 'w loop_state" where
  "apply_update u ls =
     (case u of
        None \<Rightarrow> ls
      | Some t \<Rightarrow>
          ls\<lparr>lp_context := (case tu_context t of None \<Rightarrow> lp_context ls | Some c \<Rightarrow> c),
             lp_config := (lp_config ls)\<lparr>
               lc_model := (case tu_model t of None \<Rightarrow> lc_model (lp_config ls) | Some m \<Rightarrow> m),
               lc_reasoning := (case tu_thinkingLevel t of
                   None \<Rightarrow> lc_reasoning (lp_config ls) | Some l \<Rightarrow> if l = ''off'' then None else Some l)\<rparr>\<rparr>)"

text \<open>A message becomes part of the transcript and of the messages of the run.\<close>

definition push_messages :: "agent_message list \<Rightarrow> 'w loop_state \<Rightarrow> 'w loop_state" where
  "push_messages ms ls =
     ls\<lparr>lp_context := (lp_context ls)\<lparr>cx_messages := cx_messages (lp_context ls) @ ms\<rparr>,
        lp_newMessages := lp_newMessages ls @ ms\<rparr>"

text \<open>A queue of messages is asked for what it has; the log notes the answer.\<close>

definition poll :: "('w, agent_message list) callback \<Rightarrow> ('w, agent_message list) task" where
  "poll queue = await (call queue) (\<lambda>ms. await (modify (add_log [Polled ms])) (\<lambda>_. Return ms))"

definition next_turn :: "'w runtime \<Rightarrow> 'w loop_state \<Rightarrow> ('w, 'w loop_state) task" where
  "next_turn rt ls =
     (case lp_lastTurn ls of
        None \<Rightarrow> Return ls
      | Some t \<Rightarrow>
          await (call (lc_prepareNextTurn (lp_config ls) t)) (\<lambda>u.
          let ls = apply_update u ls
          in await (if lp_pending ls = [] then poll (lc_getSteeringMessages (lp_config ls)) else Return (lp_pending ls)) (\<lambda>ms.
             await (emit rt TurnStart) (\<lambda>_. Return (ls\<lparr>lp_pending := ms\<rparr>)))))"

definition announce :: "'w runtime \<Rightarrow> agent_message \<Rightarrow> ('w, unit) task" where
  "announce rt m = await (emit rt (MessageStart m)) (\<lambda>_. emit rt (MessageEnd m))"

definition inject_pending :: "'w runtime \<Rightarrow> 'w loop_state \<Rightarrow> ('w, 'w loop_state) task" where
  "inject_pending rt ls =
     (if lp_pending ls = [] then Return ls
      else await (for_each (announce rt) (lp_pending ls)) (\<lambda>_.
           let ls = push_messages (lp_pending ls) ls
           in await (resolveSystemPrompt (cx_systemPrompt (lp_context ls)) (lp_config ls)) (\<lambda>prompt.
              Return (ls\<lparr>lp_lastFingerprint := None, lp_repeats := 0, lp_pending := [],
                         lp_context := (lp_context ls)\<lparr>cx_systemPrompt := prompt\<rparr>\<rparr>))))"

definition bind_request :: "'w loop_state \<Rightarrow> ('w, 'w loop_state) task" where
  "bind_request ls =
     await (call (lc_prepareRequest (lp_config ls) (lp_context ls) (lc_model (lp_config ls))
       (case lc_reasoning (lp_config ls) of None \<Rightarrow> ''off'' | Some r \<Rightarrow> r))) (\<lambda>u.
     let ls = apply_update u ls
     in await (inspect (\<lambda>s. lc_getRequestRouting (lp_config ls) (st_world s))) (\<lambda>routing.
        let cfg = (case routing of None \<Rightarrow> lp_config ls | Some r \<Rightarrow> (lp_config ls)\<lparr>lc_routing := r\<rparr>);
            (cx, cfg) = createStepSnapshot (lp_context ls) cfg (Suc (lp_stepNumber ls))
        in Return (ls\<lparr>lp_context := cx, lp_config := cfg, lp_stepNumber := Suc (lp_stepNumber ls)\<rparr>)))"

text \<open>
  The checkpoint of a failed response is completed first: its message, and the results of the tool
  calls it has.
\<close>

definition recover_checkpoint :: "'w runtime \<Rightarrow> 'w loop_state \<Rightarrow> assistant_message \<Rightarrow> assistant_message
    \<Rightarrow> ('w, 'w loop_state \<times> assistant_message \<times> tool_result_message list) task" where
  "recover_checkpoint rt ls cp m =
     (let ls = push_messages [AssistantMessage cp] ls
      in await (emit rt (MessageEnd (AssistantMessage cp))) (\<lambda>_.
         await (if list_ex is_tool_call (am_content cp)
                then executeToolCalls rt (lp_config ls) (lp_context ls) cp None
                else Return \<lparr>tb_messages = [], tb_terminate = False\<rparr>) (\<lambda>batch.
         let ls = push_messages (map ToolResultMessage (tb_messages batch)) ls
         in await (aborted rt) (\<lambda>a.
            let m = (if a \<or> tb_terminate batch then with_error SR_aborted ''Interrupted response recovery stopped'' m else m)
            in await (emit rt (MessageStart (AssistantMessage m))) (\<lambda>_. Return (ls, m, tb_messages batch))))))"

definition take_response :: "'w runtime \<Rightarrow> 'w stream_fn \<Rightarrow> 'w loop_state
    \<Rightarrow> ('w, 'w loop_state \<times> assistant_message \<times> tool_result_message list) task" where
  "take_response rt streamFn ls =
     await (streamAssistantResponse rt streamFn (lp_context ls) (lp_config ls)) (\<lambda>streamed.
     let ls = ls\<lparr>lp_context := (lp_context ls)\<lparr>cx_messages := sr_messages streamed\<rparr>\<rparr>
     in await (case sr_checkpoint streamed of
            None \<Rightarrow> Return (ls, sr_message streamed, [])
          | Some cp \<Rightarrow> recover_checkpoint rt ls cp (sr_message streamed)) (\<lambda>(ls, m, recovered).
        await (emit rt (MessageEnd (AssistantMessage m))) (\<lambda>_.
        Return (push_messages [AssistantMessage m] ls, m, recovered))))"

definition run_tools :: "'w runtime \<Rightarrow> 'w loop_state \<Rightarrow> assistant_message
    \<Rightarrow> ('w, 'w loop_state \<times> tool_result_message list) task" where
  "run_tools rt ls m =
     (let tcs = tool_calls_of (am_content m)
      in if tcs = [] then Return (ls\<lparr>lp_hasMore := False\<rparr>, [])
         else await (if am_stopReason m = SR_length
                     then failToolCallsFromTruncatedMessage rt (lp_config ls) m tcs
                     else executeToolCalls rt (lp_config ls) (lp_context ls) m None) (\<lambda>batch.
              await (modify (add_log [BatchEnded (tb_terminate batch)])) (\<lambda>_.
              Return ((push_messages (map ToolResultMessage (tb_messages batch)) ls)\<lparr>lp_hasMore := \<not> tb_terminate batch\<rparr>,
                      tb_messages batch))))"

text \<open>The guard: the count of consecutive turns with the fingerprint of this one.\<close>

definition count_turn :: "'w runtime \<Rightarrow> assistant_message \<Rightarrow> tool_result_message list \<Rightarrow> 'w loop_state \<Rightarrow> 'w loop_state" where
  "count_turn rt m rs ls =
     (if lp_hasMore ls \<and> tool_calls_of (am_content m) \<noteq> []
      then let fp = turn_fingerprint (rt_floatText rt) m rs
           in if lp_lastFingerprint ls = Some fp then ls\<lparr>lp_repeats := lp_repeats ls + 1\<rparr>
              else ls\<lparr>lp_lastFingerprint := Some fp, lp_repeats := 1\<rparr>
      else ls\<lparr>lp_lastFingerprint := None, lp_repeats := 0\<rparr>)"

definition finish_run :: "'w runtime \<Rightarrow> 'w loop_state \<Rightarrow> ('w, 'w loop_state + agent_message list) task" where
  "finish_run rt ls = await (emit rt (AgentEnd (lp_newMessages ls))) (\<lambda>_. Return (Inr (lp_newMessages ls)))"

definition stop_without_progress :: "'w runtime \<Rightarrow> 'w loop_state \<Rightarrow> assistant_message
    \<Rightarrow> ('w, 'w loop_state + agent_message list) task" where
  "stop_without_progress rt ls m =
     await (inspect (\<lambda>s. noProgressStopMessage (lp_config ls) (tool_calls_of (am_content m)) (rt_now rt (st_world s)))) (\<lambda>stop.
     let ls = push_messages [AssistantMessage stop] ls
     in await (announce rt (AssistantMessage stop)) (\<lambda>_. finish_run rt ls))"

definition end_turn :: "'w runtime \<Rightarrow> 'w loop_state \<Rightarrow> assistant_message \<Rightarrow> tool_result_message list
    \<Rightarrow> ('w, 'w loop_state + agent_message list) task" where
  "end_turn rt ls m rs =
     await (emit rt (TurnEnd (AssistantMessage m) rs)) (\<lambda>_.
     let turn = \<lparr>tn_message = m, tn_toolResults = rs, tn_context = lp_context ls, tn_newMessages = lp_newMessages ls\<rparr>;
         ls = count_turn rt m rs (ls\<lparr>lp_lastTurn := Some turn\<rparr>)
     in if lp_hasMore ls \<and> tool_calls_of (am_content m) \<noteq> [] \<and> NO_PROGRESS_REPEAT_LIMIT \<le> lp_repeats ls
        then stop_without_progress rt ls m
        else await (call (lc_shouldStopAfterTurn (lp_config ls) turn)) (\<lambda>stop.
             if stop then finish_run rt ls
             else await (poll (lc_getSteeringMessages (lp_config ls))) (\<lambda>ms. Return (Inl (ls\<lparr>lp_pending := ms\<rparr>)))))"

definition inner_iteration :: "'w runtime \<Rightarrow> 'w stream_fn \<Rightarrow> 'w loop_state
    \<Rightarrow> ('w, 'w loop_state + agent_message list) task" where
  "inner_iteration rt streamFn ls =
     await (next_turn rt ls) (\<lambda>ls.
     await (inject_pending rt ls) (\<lambda>ls.
     await (bind_request ls) (\<lambda>ls.
     await (take_response rt streamFn ls) (\<lambda>(ls, m, recovered).
     if am_stopReason m = SR_error \<or> am_stopReason m = SR_aborted
     then await (emit rt (TurnEnd (AssistantMessage m) recovered)) (\<lambda>_. finish_run rt ls)
     else await (run_tools rt ls m) (\<lambda>(ls, rs). end_turn rt ls m rs)))))"

text \<open>The end of the inner loop: a follow-up message starts it again.\<close>

definition follow_up :: "'w runtime \<Rightarrow> 'w loop_state \<Rightarrow> ('w, 'w loop_state + agent_message list) task" where
  "follow_up rt ls =
     await (poll (lc_getFollowUpMessages (lp_config ls))) (\<lambda>ms.
     if ms = [] then finish_run rt ls else Return (Inl (ls\<lparr>lp_pending := ms, lp_hasMore := True\<rparr>)))"

definition iteration :: "'w runtime \<Rightarrow> 'w stream_fn \<Rightarrow> 'w loop_state \<Rightarrow> ('w, 'w loop_state + agent_message list) task" where
  "iteration rt streamFn ls =
     (if lp_hasMore ls \<or> lp_pending ls \<noteq> [] then inner_iteration rt streamFn ls else follow_up rt ls)"

section \<open>Runs\<close>

partial_function (option) iterate :: "'w runtime \<Rightarrow> 'w stream_fn \<Rightarrow> 'w loop_state \<Rightarrow> 'w run_state
    \<Rightarrow> ((thrown + agent_message list) \<times> 'w run_state) option" where
  "iterate rt streamFn ls s =
     (case run (iteration rt streamFn ls) s of
        (Inl e, t) \<Rightarrow> Some (Inl e, t)
      | (Inr (Inr ms), t) \<Rightarrow> Some (Inr ms, t)
      | (Inr (Inl ls'), t) \<Rightarrow> iterate rt streamFn ls' t)"

definition runLoop :: "'w runtime \<Rightarrow> 'w stream_fn \<Rightarrow> 'w agent_context \<Rightarrow> agent_message list \<Rightarrow> 'w loop_config
    \<Rightarrow> 'w turn_context option \<Rightarrow> 'w run_state \<Rightarrow> ((thrown + agent_message list) \<times> 'w run_state) option" where
  "runLoop rt streamFn cx newMessages cfg recoveredTurn s =
     (case run (poll (lc_getSteeringMessages cfg)) s of
        (Inl e, t) \<Rightarrow> Some (Inl e, t)
      | (Inr pending, t) \<Rightarrow>
          iterate rt streamFn
            \<lparr>lp_context = cx, lp_newMessages = newMessages, lp_config = cfg, lp_lastTurn = recoveredTurn,
             lp_lastFingerprint = None, lp_repeats = 0, lp_stepNumber = 0, lp_pending = pending, lp_hasMore = True\<rparr> t)"

text \<open>A first part that may throw, and then the loop.\<close>

fun and_then :: "('w, 'a) task \<Rightarrow> ('a \<Rightarrow> 'w run_state \<Rightarrow> ((thrown + 'b) \<times> 'w run_state) option) \<Rightarrow> 'w run_state
    \<Rightarrow> ((thrown + 'b) \<times> 'w run_state) option" where
  "and_then p f s = (case run p s of (Inl e, t) \<Rightarrow> Some (Inl e, t) | (Inr x, t) \<Rightarrow> f x t)"

definition runAgentLoop :: "'w runtime \<Rightarrow> 'w stream_fn \<Rightarrow> agent_message list \<Rightarrow> 'w agent_context \<Rightarrow> 'w loop_config
    \<Rightarrow> 'w run_state \<Rightarrow> ((thrown + agent_message list) \<times> 'w run_state) option" where
  "runAgentLoop rt streamFn prompts cx cfg =
     and_then
       (await (emit rt AgentStart) (\<lambda>_.
        await (emit rt TurnStart) (\<lambda>_.
        await (for_each (announce rt) prompts) (\<lambda>_.
        resolveSystemPrompt (cx_systemPrompt cx) cfg))))
       (\<lambda>prompt. runLoop rt streamFn (cx\<lparr>cx_messages := cx_messages cx @ prompts, cx_systemPrompt := prompt\<rparr>) prompts cfg None)"

definition can_continue_from :: "agent_message list \<Rightarrow> string + unit" where
  "can_continue_from ms =
     (if ms = [] then Inl ''Cannot continue: no messages in context''
      else case last ms of
             AssistantMessage m \<Rightarrow>
               if am_isResponseCheckpoint m \<and> am_stopReason m = SR_stop then Inr ()
               else Inl ''Cannot continue from message role: assistant''
           | _ \<Rightarrow> Inr ())"

definition runAgentLoopContinue :: "'w runtime \<Rightarrow> 'w stream_fn \<Rightarrow> 'w agent_context \<Rightarrow> 'w loop_config
    \<Rightarrow> 'w run_state \<Rightarrow> ((thrown + agent_message list) \<times> 'w run_state) option" where
  "runAgentLoopContinue rt streamFn cx cfg =
     and_then
       (case can_continue_from (cx_messages cx) of
          Inl e \<Rightarrow> Throw (PlainError e)
        | Inr _ \<Rightarrow> await (emit rt AgentStart) (\<lambda>_. emit rt TurnStart))
       (\<lambda>_. runLoop rt streamFn cx [] cfg None)"

section \<open>Resuming the tools of a persisted response\<close>

text \<open>
  The checks of \<open>runAgentLoopResumeTools\<close>. \<open>assistantIndex\<close> is the position of the assistant
  message in the transcript, \<open>context.messages.indexOf(assistant)\<close> by identity; \<open>None\<close> is \<open>-1\<close>.
\<close>

definition resume_check :: "nat option \<Rightarrow> assistant_message \<Rightarrow> tool_result_message list \<Rightarrow> string + unit" where
  "resume_check assistantIndex am results =
     (let tcs = tool_calls_of (am_content am)
      in if assistantIndex = None \<or> tcs = [] \<or> \<not> distinct (map tc_id tcs) then Inl ''Invalid recovery assistant''
         else if \<not> distinct (map tr_toolCallId results)
              \<or> list_ex (\<lambda>r. \<not> list_ex (\<lambda>tc. tc_id tc = tr_toolCallId r \<and> tc_name tc = tr_toolName r) tcs) results
         then Inl ''Invalid recovered tool results''
         else if am_stopReason am \<in> {SR_error, SR_aborted, SR_length}
         then Inl ''Cannot execute tools from an incomplete assistant response''
         else Inr ())"

definition unresolved_calls :: "assistant_message \<Rightarrow> tool_result_message list \<Rightarrow> tool_call list" where
  "unresolved_calls am results = filter (\<lambda>tc. tc_id tc \<notin> set (map tr_toolCallId results)) (tool_calls_of (am_content am))"

definition ordered_results :: "assistant_message \<Rightarrow> tool_result_message list \<Rightarrow> tool_result_message list \<Rightarrow> tool_result_message list" where
  "ordered_results am results batch =
     (let completed = foldl (\<lambda>m r. AList.update (tr_toolCallId r) r m) (map (\<lambda>r. (tr_toolCallId r, r)) results) batch
      in List.map_filter (\<lambda>tc. map_of completed (tc_id tc)) (tool_calls_of (am_content am)))"

datatype 'w resumed = ResumeEnded "agent_message list" | ResumeGoesOn "'w turn_context"

definition resume_tools :: "'w runtime \<Rightarrow> nat option \<Rightarrow> 'w agent_context \<Rightarrow> assistant_message \<Rightarrow> tool_result_message list
    \<Rightarrow> 'w loop_config \<Rightarrow> ('w, 'w resumed) task" where
  "resume_tools rt assistantIndex cx am results cfg =
     (case resume_check assistantIndex am results of
        Inl e \<Rightarrow> Throw (PlainError e)
      | Inr _ \<Rightarrow>
          await (emit rt AgentStart) (\<lambda>_.
          await (emit rt TurnStart) (\<lambda>_.
          await (executeToolCalls rt cfg cx am (Some (unresolved_calls am results))) (\<lambda>batch.
          let ordered = ordered_results am results (tb_messages batch);
              cx' = cx\<lparr>cx_messages := take (the assistantIndex + 1) (cx_messages cx) @ map ToolResultMessage ordered\<rparr>;
              newMessages = map ToolResultMessage (tb_messages batch);
              turn = \<lparr>tn_message = am, tn_toolResults = ordered, tn_context = cx', tn_newMessages = newMessages\<rparr>
          in await (emit rt (TurnEnd (AssistantMessage am) ordered)) (\<lambda>_.
             await (aborted rt) (\<lambda>a.
             await (if a \<or> tb_terminate batch then Return True else call (lc_shouldStopAfterTurn cfg turn)) (\<lambda>stop.
             if stop then await (emit rt (AgentEnd newMessages)) (\<lambda>_. Return (ResumeEnded newMessages))
             else Return (ResumeGoesOn turn))))))))"

definition runAgentLoopResumeTools :: "'w runtime \<Rightarrow> 'w stream_fn \<Rightarrow> nat option \<Rightarrow> 'w agent_context \<Rightarrow> assistant_message
    \<Rightarrow> tool_result_message list \<Rightarrow> 'w loop_config \<Rightarrow> 'w run_state \<Rightarrow> ((thrown + agent_message list) \<times> 'w run_state) option" where
  "runAgentLoopResumeTools rt streamFn assistantIndex cx am results cfg =
     and_then (resume_tools rt assistantIndex cx am results cfg)
       (\<lambda>r s. case r of
          ResumeEnded ms \<Rightarrow> Some (Inr ms, s)
        | ResumeGoesOn t \<Rightarrow> runLoop rt streamFn (tn_context t) (tn_newMessages t) cfg (Some t) s)"

end
