(* ===== verification/AgentLoopCorrect.thy ===== *)
theory AgentLoopCorrect
  imports AgentToolsCorrect AgentLoop JsonTextCorrect
begin

text \<open>
  Properties of whole runs of the agent loop, for every behaviour of the provider, the tools, the
  hooks and the queues and for every interleaving: the messages a run returns are the messages it
  announced, the transcript is a sequence of turns in which every call is answered in order, no
  lease is leaked, an aborted run ends without starting anything, a turn that repeats itself ends
  the run, and resumed tools are not executed twice.
\<close>

section \<open>A sample run\<close>

declare iterate.simps [code]

text \<open>A run in which the provider answers the prompt at once, on a world that counts requests.\<close>

definition sample_message :: "stop_reason \<Rightarrow> content_block list \<Rightarrow> assistant_message" where
  "sample_message r c =
     \<lparr>am_content = c, am_api = ''a'', am_provider = ''p'', am_model = ''m'', am_usage = zero_usage, am_stopReason = r,
      am_isResponseCheckpoint = False, am_deferred = None, am_timestamp = JInt 0, am_extra = []\<rparr>"

definition sample_config :: "nat loop_config" where
  "sample_config = \<lparr>lc_model = \<lparr>mi_id = ''m'', mi_api = ''a'', mi_provider = ''p''\<rparr>, lc_reasoning = None, lc_apiKey = None,
     lc_routing = \<lparr>ro_promptCacheKey = None, ro_cacheAffinityId = None, ro_transport = None\<rparr>, lc_runId = Some ''r'',
     lc_stepId = None, lc_toolPlanRevision = None, lc_parentToolCallId = None, lc_toolExecution = None,
     lc_convertToLlm = Return, lc_transformContext = Return, lc_getSystemPrompt = (\<lambda>w. None), lc_getRequestRouting = (\<lambda>w. None),
     lc_onProviderContext = (\<lambda>m c w. w), lc_onExecutionEvent = (\<lambda>e w. w), lc_onCompletedOutputItem = (\<lambda>a b c d. Return ()),
     lc_onToolResult = (\<lambda>m i. Return ()), lc_beforeToolDispatch = (\<lambda>a b c d. Return ()), lc_admitEffect = (\<lambda>w. (Inr True, w)),
     lc_admitToolCall = None, lc_executionScheduler = None, lc_getApiKey = (\<lambda>p. Return None),
     lc_shouldStopAfterTurn = (\<lambda>t. Return False), lc_prepareRequest = (\<lambda>c m l. Return None), lc_prepareNextTurn = (\<lambda>t. Return None),
     lc_getSteeringMessages = Return [], lc_getFollowUpMessages = Return [], lc_beforeToolCall = None,
     lc_afterToolCall = (\<lambda>a b c d e f. Return None)\<rparr>"

definition sample_runtime :: "bool \<Rightarrow> nat runtime" where
  "sample_runtime signal = \<lparr>rt_sink = (\<lambda>e. Return ()), rt_aborted = (\<lambda>w. signal), rt_now = (\<lambda>w. JInt 0), rt_schedule = (\<lambda>w. []), rt_updates = (\<lambda>w. []),
     rt_validate = (\<lambda>t c v. Inr v), rt_notATool = (\<lambda>n. n), rt_retryable = (\<lambda>m. False), rt_floatText = sample_float_text\<rparr>"

definition sample_stream :: "nat stream_fn" where
  "sample_stream model cx cfg = Step Suc (\<lambda>w. Return
     \<lparr>rp_events = [Return (StartEvent (sample_message SR_pending []))],
      rp_result = Return (sample_message SR_stop [TextBlock ''done'' []])\<rparr>)"

definition sample_context :: "nat agent_context" where
  "sample_context = \<lparr>cx_systemPrompt = [], cx_messages = [], cx_tools = None, cx_toolPlan = None\<rparr>"

definition sample_run_state :: "nat run_state" where
  "sample_run_state = \<lparr>st_world = 0, st_log = []\<rparr>"

definition sample_prompt :: agent_message where
  "sample_prompt = UserMessage (ContentText ''hi'') (JInt 0) []"

definition returned :: "((thrown + 'a) \<times> 'w run_state) option \<Rightarrow> 'a option" where
  "returned r = (case r of Some (Inr x, t) \<Rightarrow> Some x | _ \<Rightarrow> None)"

lemma returned_Some: "returned r = Some x \<Longrightarrow> \<exists>t. r = Some (Inr x, t)"
  by (auto simp: returned_def split: option.splits sum.splits prod.splits)

definition sample_reply :: agent_message where
  "sample_reply = AssistantMessage (sample_message SR_stop [TextBlock ''done'' []])"

lemma one_turn_run:
  "\<exists>t. runAgentLoop (sample_runtime False) sample_stream [sample_prompt] sample_context sample_config sample_run_state
     = Some (Inr [sample_prompt, sample_reply], t)"
proof (rule returned_Some)
  show "returned (runAgentLoop (sample_runtime False) sample_stream [sample_prompt] sample_context sample_config sample_run_state)
      = Some [sample_prompt, sample_reply]"
    by code_simp
qed

section \<open>The log of the parts of an iteration\<close>

lemma writes_resolveSystemPrompt [writes_intros]: "writes st_log A (resolveSystemPrompt p cfg)"
  by (auto simp: resolveSystemPrompt_def intro!: writes_intros)

lemma writes_buildProviderContext [writes_intros]: "writes st_log A (buildProviderContext cx cfg)"
  by (auto simp: buildProviderContext_def intro!: writes_intros)

lemma writes_read_response:
  assumes "\<And>m. Emitted (MessageStart m) \<in> A" and "\<And>m e. Emitted (MessageUpdate m e) \<in> A"
  shows "writes st_log A (read_response rt cfg ss evs)"
proof (induction evs arbitrary: ss)
  case (Cons nx evs)
  have "writes st_log A (stream_update rt cfg ss e)" for e
    unfolding stream_update_def by (auto intro!: writes_intros assms split: option.splits prod.splits)
  moreover have "writes st_log A (stream_start rt ss m)" for m
    unfolding stream_start_def by (auto intro!: writes_intros assms)
  ultimately show ?case
    by (auto intro!: writes_intros Cons.IH split: assistant_event.splits)
qed (simp add: writes_intros)

lemma writes_finish_response:
  assumes "\<And>m. Emitted (MessageStart m) \<in> A" and "\<And>e. Observed e \<in> A"
  shows "writes st_log A (finish_response rt cfg ss result)"
  unfolding finish_response_def Let_def reportProviderResult_def
  by (auto intro!: writes_intros assms split: prod.splits)

lemma writes_may_request:
  assumes "\<And>e. Observed e \<in> A" and "\<And>i. ProviderInvoked i \<in> A"
  shows "writes st_log A (may_request rt cfg)"
  unfolding may_request_def Let_def by (auto intro!: writes_attempt assms split: prod.splits sum.splits)

lemma writes_touch [writes_intros]: "writes st_log A (modify (\<lambda>s. s\<lparr>st_world := f (st_world s)\<rparr>))"
  by (auto intro!: writes_modify)

lemma writes_streamAssistantResponse:
  assumes "\<And>m. Emitted (MessageStart m) \<in> A" and "\<And>m e. Emitted (MessageUpdate m e) \<in> A" and "\<And>e. Observed e \<in> A"
    and "writes st_log A (may_request rt cfg)"
  shows "writes st_log A (streamAssistantResponse rt sf cx cfg)"
  unfolding streamAssistantResponse_def Let_def
  by (auto intro!: writes_intros writes_read_response writes_finish_response assms)

lemma silent_streamAssistantResponse: "writes st_log silent (streamAssistantResponse rt sf cx cfg)"
  by (rule writes_streamAssistantResponse) (auto intro: writes_may_request)

lemma writes_batch_ended: "BatchEnded b \<in> A \<Longrightarrow> writes st_log A (modify (add_log [BatchEnded b]))"
  by (auto intro!: writes_modify)

lemma writes_poll: "(\<And>ms. Polled ms \<in> A) \<Longrightarrow> writes st_log A (poll q)"
  unfolding poll_def by (auto intro!: writes_intros writes_modify)

lemma writes_next_turn: "Emitted TurnStart \<in> A \<Longrightarrow> (\<And>ms. Polled ms \<in> A) \<Longrightarrow> writes st_log A (next_turn rt ls)"
  unfolding next_turn_def Let_def by (auto intro!: writes_intros writes_poll split: option.splits)

lemma writes_bind_request: "writes st_log A (bind_request ls)"
  unfolding bind_request_def Let_def by (auto intro!: writes_intros split: prod.splits)

section \<open>The messages of the run\<close>

lemma push_messages_new [simp]:
  "lp_newMessages (push_messages ms ls) = lp_newMessages ls @ ms" "lp_config (push_messages ms ls) = lp_config ls"
  "lp_hasMore (push_messages ms ls) = lp_hasMore ls"
  by (simp_all add: push_messages_def)

lemma apply_update_new [simp]: "lp_newMessages (apply_update u ls) = lp_newMessages ls"
  by (simp add: apply_update_def split: option.splits)

lemma count_turn_new [simp]:
  "lp_newMessages (count_turn rt m rs ls) = lp_newMessages ls" "lp_config (count_turn rt m rs ls) = lp_config ls"
  "lp_hasMore (count_turn rt m rs ls) = lp_hasMore ls"
  by (simp_all add: count_turn_def Let_def)

lemma returns_next_turn: "returns (\<lambda>ls'. lp_newMessages ls' = lp_newMessages ls) (next_turn rt ls)"
  unfolding next_turn_def Let_def by (auto intro!: returns_await_any split: option.splits)

lemma returns_bind_request: "returns (\<lambda>ls'. lp_newMessages ls' = lp_newMessages ls) (bind_request ls)"
  unfolding bind_request_def Let_def by (auto intro!: returns_await_any split: prod.splits)

definition message_ends :: "agent_message list \<Rightarrow> agent_event list" where
  "message_ends ms = map MessageEnd ms"

lemma message_ends_simps [simp]:
  "message_ends [] = []" "message_ends (m # ms) = MessageEnd m # message_ends ms"
  "message_ends (ms @ ns) = message_ends ms @ message_ends ns"
  "message_ends (map ToolResultMessage rs) = result_ends rs"
  by (simp_all add: message_ends_def result_ends_def)

definition reported :: "agent_event list \<Rightarrow> 'w loop_state \<Rightarrow> 'w run_state \<Rightarrow> bool" where
  "reported L ls = said (L @ message_ends (lp_newMessages ls))"

lemma triple_announce: "triple (said L) (announce rt m) (\<lambda>_. said (L @ [MessageEnd m]))"
  unfolding announce_def
  by (rule triple_await [OF triple_emit_silent]) (use triple_emit [of L rt "MessageEnd m"] in auto)

lemma triple_announce_all: "triple (said L) (for_each (announce rt) ms) (\<lambda>_. said (L @ message_ends ms))"
  unfolding triple_def
proof (intro allI impI)
  fix s us t
  assume s: "said L s" and r: "run (for_each (announce rt) ms) s = (Inr us, t)"
  have "length ms = length us"
    using returns_run [OF for_each_length r] by simp
  then have "map2 (\<lambda>m u. MessageEnd m) ms us = message_ends ms"
    by (induction ms us rule: list_induct2) auto
  moreover have "triple (said L) (for_each (announce rt) ms) (\<lambda>us. said (L @ map2 (\<lambda>m u. MessageEnd m) ms us))"
    by (rule triple_for_each_said [OF triple_announce])
  ultimately show "said (L @ message_ends ms) t"
    using s r unfolding triple_def by metis
qed

text \<open>A part that is silent and keeps the messages of the run.\<close>

lemma triple_keeps:
  assumes "writes st_log silent p" and "returns (\<lambda>ls'. lp_newMessages ls' = lp_newMessages ls) p"
  shows "triple (reported L ls) p (reported L)"
  unfolding reported_def
  by (rule triple_conseq [OF triple_returns [OF triple_silent [OF assms(1)] assms(2)]]) auto

lemma triple_inject_pending: "triple (reported L ls) (inject_pending rt ls) (reported L)"
proof (cases "lp_pending ls = []")
  case True
  then show ?thesis by (auto simp: inject_pending_def intro: triple_Return)
next
  case False
  show ?thesis
    unfolding inject_pending_def Let_def reported_def
    by (simp add: False, rule triple_await [OF triple_announce_all], rule triple_tail [OF writes_resolveSystemPrompt])
       (auto intro!: triple_Return)
qed

lemma triple_end: "triple (said L) (emit rt (MessageEnd m)) (\<lambda>_. said (L @ [MessageEnd m]))"
  using triple_emit [of L rt "MessageEnd m"] by simp

lemma triple_recover_checkpoint:
  "triple (reported L ls) (recover_checkpoint rt ls cp m) (\<lambda>(ls', m', rs). reported L ls')"
  unfolding recover_checkpoint_def Let_def
proof (rule triple_await [where R = "\<lambda>_. said (L @ message_ends (lp_newMessages ls) @ [MessageEnd (AssistantMessage cp)])"])
  show "triple (reported L ls) (emit rt (MessageEnd (AssistantMessage cp)))
      (\<lambda>_. said (L @ message_ends (lp_newMessages ls) @ [MessageEnd (AssistantMessage cp)]))"
    using triple_end [of "L @ message_ends (lp_newMessages ls)" rt "AssistantMessage cp"] by (simp add: reported_def)
next
  let ?ls = "push_messages [AssistantMessage cp] ls"
  let ?L = "L @ message_ends (lp_newMessages ls) @ [MessageEnd (AssistantMessage cp)]"
  have batch: "triple (said ?L) (if list_ex is_tool_call (am_content cp)
                then executeToolCalls rt (lp_config ?ls) (lp_context ?ls) cp None
                else Return \<lparr>tb_messages = [], tb_terminate = False\<rparr>) (\<lambda>b. said (?L @ result_ends (tb_messages b)))"
    using triple_executeToolCalls [of ?L] by (auto intro: triple_Return)
  fix u
  show "triple (said ?L)
     (await (if list_ex is_tool_call (am_content cp)
                then executeToolCalls rt (lp_config ?ls) (lp_context ?ls) cp None
                else Return \<lparr>tb_messages = [], tb_terminate = False\<rparr>) (\<lambda>batch.
         await (aborted rt) (\<lambda>a.
            await (emit rt (MessageStart (AssistantMessage (if a \<or> tb_terminate batch then with_error SR_aborted ''Interrupted response recovery stopped'' m else m)))) (\<lambda>_.
            Return (push_messages (map ToolResultMessage (tb_messages batch)) ?ls,
              if a \<or> tb_terminate batch then with_error SR_aborted ''Interrupted response recovery stopped'' m else m,
              tb_messages batch))))) (\<lambda>(ls', m', rs). reported L ls')"
    by (rule triple_await [OF batch], rule triple_tail [OF writes_aborted], rule triple_await [OF triple_emit_silent])
       (auto simp: reported_def intro!: triple_Return)
qed

lemma triple_take_response:
  "triple (reported L ls) (take_response rt sf ls) (\<lambda>(ls', m, rs). reported L ls')"
  unfolding take_response_def
proof (rule triple_await)
  show "triple (reported L ls) (streamAssistantResponse rt sf (lp_context ls) (lp_config ls)) (\<lambda>_. reported L ls)"
    unfolding reported_def by (rule triple_silent [OF silent_streamAssistantResponse])
  fix st
  let ?ls = "ls\<lparr>lp_context := (lp_context ls)\<lparr>cx_messages := sr_messages st\<rparr>\<rparr>"
  have cp: "triple (reported L ls) (case sr_checkpoint st of
            None \<Rightarrow> Return (?ls, sr_message st, [])
          | Some cp \<Rightarrow> recover_checkpoint rt ?ls cp (sr_message st)) (\<lambda>(ls', m, rs). reported L ls')"
    using triple_recover_checkpoint [of L ?ls rt _ "sr_message st"]
    by (auto simp: reported_def split: option.splits intro!: triple_Return)
  show "triple (reported L ls) (let ls = ?ls
     in await (case sr_checkpoint st of
            None \<Rightarrow> Return (ls, sr_message st, [])
          | Some cp \<Rightarrow> recover_checkpoint rt ls cp (sr_message st)) (\<lambda>(ls, m, recovered).
        await (emit rt (MessageEnd (AssistantMessage m))) (\<lambda>_.
        Return (push_messages [AssistantMessage m] ls, m, recovered)))) (\<lambda>(ls', m, rs). reported L ls')"
    unfolding Let_def
    by (rule triple_await [OF cp]) (auto simp: reported_def intro!: triple_await [OF triple_end] triple_Return)
qed

lemma triple_run_tools: "triple (reported L ls) (run_tools rt ls m) (\<lambda>(ls', rs). reported L ls')"
proof (cases "tool_calls_of (am_content m) = []")
  case True
  then show ?thesis by (auto simp: run_tools_def reported_def intro!: triple_Return)
next
  case False
  have batch: "triple (reported L ls) (if am_stopReason m = SR_length
      then failToolCallsFromTruncatedMessage rt (lp_config ls) m (tool_calls_of (am_content m))
      else executeToolCalls rt (lp_config ls) (lp_context ls) m None)
      (\<lambda>b. said (L @ message_ends (lp_newMessages ls) @ result_ends (tb_messages b)))"
    using triple_executeToolCalls [of "L @ message_ends (lp_newMessages ls)"]
      triple_truncated [of "L @ message_ends (lp_newMessages ls)"] by (auto simp: reported_def)
  show ?thesis
    unfolding run_tools_def Let_def if_not_P [OF False]
    by (rule triple_await [OF batch], rule triple_tail [OF writes_batch_ended]) (auto simp: reported_def intro!: triple_Return)
qed

definition outcome_reported :: "agent_event list \<Rightarrow> 'w loop_state + agent_message list \<Rightarrow> 'w run_state \<Rightarrow> bool" where
  "outcome_reported L r s \<longleftrightarrow>
     (case r of Inl ls \<Rightarrow> reported L ls s | Inr ms \<Rightarrow> said (L @ message_ends ms @ [AgentEnd ms]) s)"

lemma triple_finish_run: "triple (reported L ls) (finish_run rt ls) (outcome_reported L)"
  unfolding finish_run_def reported_def
  by (rule triple_await [OF triple_emit]) (auto simp: outcome_reported_def intro!: triple_Return)

lemma triple_stop_without_progress: "triple (reported L ls) (stop_without_progress rt ls m) (outcome_reported L)"
  unfolding stop_without_progress_def Let_def reported_def
  apply (rule triple_tail [OF writes_inspect])
  apply (rule triple_await [OF triple_announce])
  apply (rule triple_conseq [OF triple_finish_run])
   apply (auto simp: reported_def)
  done

lemma reported_same [simp]:
  "reported L (count_turn rt m rs ls) = reported L ls" "reported L (ls\<lparr>lp_pending := ms\<rparr>) = reported L ls"
  "reported L (ls\<lparr>lp_lastTurn := lt\<rparr>) = reported L ls" "reported L (ls\<lparr>lp_hasMore := b\<rparr>) = reported L ls"
  by (simp_all add: reported_def)

lemma triple_after_call:
  assumes "\<And>x. triple (reported L ls) (f x) Q"
  shows "triple (reported L ls) (await (call p) f) Q"
  using assms unfolding reported_def by (rule triple_tail [OF writes_call])

lemma triple_after_poll:
  assumes "\<And>x. triple (reported L ls) (f x) Q"
  shows "triple (reported L ls) (await (poll p) f) Q"
  using assms unfolding reported_def by (intro triple_tail [OF writes_poll]) simp_all

lemma triple_go_on: "triple (reported L ls) (Return (Inl ls')) (outcome_reported L)" if "reported L ls' = reported L ls"
  using that by (auto simp: outcome_reported_def intro!: triple_Return)

lemma triple_end_turn: "triple (reported L ls) (end_turn rt ls m rs) (outcome_reported L)"
  unfolding end_turn_def Let_def
proof (rule triple_await [where R = "\<lambda>_. reported L ls"])
  show "triple (reported L ls) (emit rt (TurnEnd (AssistantMessage m) rs)) (\<lambda>_. reported L ls)"
    unfolding reported_def by (rule triple_emit_silent) simp
  fix u
  let ?turn = "\<lparr>tn_message = m, tn_toolResults = rs, tn_context = lp_context ls, tn_newMessages = lp_newMessages ls\<rparr>"
  let ?ls = "count_turn rt m rs (ls\<lparr>lp_lastTurn := Some ?turn\<rparr>)"
  have stop: "triple (reported L ls) (stop_without_progress rt ?ls m) (outcome_reported L)"
    "triple (reported L ls) (finish_run rt ?ls) (outcome_reported L)"
    using triple_stop_without_progress [of L ?ls] triple_finish_run [of L ?ls] by simp_all
  show "triple (reported L ls) (if lp_hasMore ?ls \<and> tool_calls_of (am_content m) \<noteq> [] \<and> NO_PROGRESS_REPEAT_LIMIT \<le> lp_repeats ?ls
        then stop_without_progress rt ?ls m
        else await (call (lc_shouldStopAfterTurn (lp_config ?ls) ?turn)) (\<lambda>stop.
             if stop then finish_run rt ?ls
             else await (poll (lc_getSteeringMessages (lp_config ?ls))) (\<lambda>ms. Return (Inl (?ls\<lparr>lp_pending := ms\<rparr>)))))
      (outcome_reported L)"
    using stop by (auto intro!: triple_after_call triple_after_poll triple_go_on)
qed

lemma triple_inner_iteration: "triple (reported L ls) (inner_iteration rt sf ls) (outcome_reported L)"
  unfolding inner_iteration_def
proof (rule triple_await [OF triple_keeps [OF writes_next_turn returns_next_turn]], simp, simp,
    rule triple_await [OF triple_inject_pending],
    rule triple_await [OF triple_keeps [OF writes_bind_request returns_bind_request]],
    rule triple_await [OF triple_take_response])
  fix x :: "'a loop_state \<times> assistant_message \<times> tool_result_message list"
  obtain ls m rec where x: "x = (ls, m, rec)" by (cases x)
  have failed: "triple (reported L ls) (await (emit rt (TurnEnd (AssistantMessage m) rec)) (\<lambda>_. finish_run rt ls)) (outcome_reported L)"
    by (rule triple_await [where R = "\<lambda>_. reported L ls"])
       (auto simp: reported_def [of _ ls] intro: triple_emit_silent triple_finish_run [unfolded reported_def])
  have "triple (reported L ls) (await (run_tools rt ls m) (\<lambda>(ls, rs). end_turn rt ls m rs)) (outcome_reported L)"
    by (rule triple_await [OF triple_run_tools]) (auto intro: triple_end_turn split: prod.splits)
  then show "triple (case x of (ls, m, rs) \<Rightarrow> reported L ls) (case x of (ls, m, recovered) \<Rightarrow>
     if am_stopReason m = SR_error \<or> am_stopReason m = SR_aborted
     then await (emit rt (TurnEnd (AssistantMessage m) recovered)) (\<lambda>_. finish_run rt ls)
     else await (run_tools rt ls m) (\<lambda>(ls, rs). end_turn rt ls m rs)) (outcome_reported L)"
    using failed by (simp add: x)
qed

lemma triple_iteration: "triple (reported L ls) (iteration rt sf ls) (outcome_reported L)"
proof -
  have "triple (reported L ls) (follow_up rt ls) (outcome_reported L)"
    unfolding follow_up_def
    by (rule triple_after_poll) (auto intro: triple_finish_run triple_go_on)
  then show ?thesis
    by (simp add: iteration_def triple_inner_iteration)
qed

section \<open>Induction over the iterations\<close>

text \<open>
  What holds initially and is kept by every iteration that goes on holds when an iteration ends
  the run.
\<close>

lemma iterate_induct:
  assumes "iterate rt sf ls s = Some (r, t)" and "I ls s"
    and "\<And>ls s ls' s'. I ls s \<Longrightarrow> run (iteration rt sf ls) s = (Inr (Inl ls'), s') \<Longrightarrow> I ls' s'"
    and "\<And>ls s ms s'. I ls s \<Longrightarrow> run (iteration rt sf ls) s = (Inr (Inr ms), s') \<Longrightarrow> Q (Inr ms) s'"
    and "\<And>ls s e s'. I ls s \<Longrightarrow> run (iteration rt sf ls) s = (Inl e, s') \<Longrightarrow> Q (Inl e) s'"
  shows "Q r t"
proof -
  have "rt = rt \<longrightarrow> sf = sf \<longrightarrow> I ls s \<longrightarrow> Q (fst (r, t)) (snd (r, t))"
  proof (rule iterate.raw_induct [where P = "\<lambda>rt' sf' ls s y. rt' = rt \<longrightarrow> sf' = sf \<longrightarrow> I ls s \<longrightarrow> Q (fst y) (snd y)"])
    show "iterate rt sf ls s = Some (r, t)" by (rule assms(1))
    fix it :: "'a runtime \<Rightarrow> 'a stream_fn \<Rightarrow> 'a loop_state \<Rightarrow> 'a run_state
      \<Rightarrow> ((thrown + agent_message list) \<times> 'a run_state) option" and rt' sf' ls s y
    assume IH: "\<And>rt' sf' ls s y. it rt' sf' ls s = Some y \<Longrightarrow> rt' = rt \<longrightarrow> sf' = sf \<longrightarrow> I ls s \<longrightarrow> Q (fst y) (snd y)"
      and y: "(case run (iteration rt' sf' ls) s of (Inl e, t) \<Rightarrow> Some (Inl e, t)
        | (Inr (Inl ls'), t) \<Rightarrow> it rt' sf' ls' t | (Inr (Inr ms), t) \<Rightarrow> Some (Inr ms, t)) = Some y"
    show "rt' = rt \<longrightarrow> sf' = sf \<longrightarrow> I ls s \<longrightarrow> Q (fst y) (snd y)"
    proof (intro impI)
      assume same: "rt' = rt" "sf' = sf" and I: "I ls s"
      obtain x u where x: "run (iteration rt sf ls) s = (x, u)" by (cases "run (iteration rt sf ls) s")
      show "Q (fst y) (snd y)"
      proof (cases x)
        case (Inl e)
        then show ?thesis using assms(5) [OF I] x y same by auto
      next
        case (Inr z)
        then show ?thesis
          using assms(3) [OF I] assms(4) [OF I] IH [of rt sf _ u y] x y same by (cases z) auto
      qed
    qed
  qed
  then show ?thesis
    using assms(2) by simp
qed

lemma and_then_Some:
  assumes "and_then p f s = Some (Inr y, t)"
  obtains x u where "run p s = (Inr x, u)" and "f x u = Some (Inr y, t)"
  using assms by (cases "run p s"; cases "fst (run p s)") auto

definition initial_state :: "'w agent_context \<Rightarrow> agent_message list \<Rightarrow> 'w loop_config \<Rightarrow> 'w turn_context option
    \<Rightarrow> agent_message list \<Rightarrow> 'w loop_state" where
  "initial_state cx new cfg turn pending =
     \<lparr>lp_context = cx, lp_newMessages = new, lp_config = cfg, lp_lastTurn = turn, lp_lastFingerprint = None,
      lp_repeats = 0, lp_stepNumber = 0, lp_pending = pending, lp_hasMore = True\<rparr>"

lemma initial_state_simps [simp]:
  "lp_newMessages (initial_state cx new cfg turn pending) = new" "lp_config (initial_state cx new cfg turn pending) = cfg"
  "lp_hasMore (initial_state cx new cfg turn pending)"
  by (simp_all add: initial_state_def)

lemma run_poll:
  assumes "run (poll q) s = (r, t)"
  shows "st_log t = st_log s @ (case r of Inl e \<Rightarrow> [] | Inr ms \<Rightarrow> [Polled ms])"
proof -
  obtain x u where x: "run (call q) s = (x, u)" by (cases "run (call q) s")
  then have "st_log u = st_log s"
    using run_call_log [of q s] by simp
  then show ?thesis
    using assms x by (cases x) (auto simp: poll_def run_await)
qed

lemma runLoop_cases:
  assumes "runLoop rt sf cx new cfg turn s = Some (r, t)"
  obtains (Start) e where "r = Inl e" and "st_log t = st_log s"
  | (Iterate) pending u where "st_log u = st_log s @ [Polled pending]" and "iterate rt sf (initial_state cx new cfg turn pending) u = Some (r, t)"
proof -
  obtain x u where x: "run (poll (lc_getSteeringMessages cfg)) s = (x, u)"
    by (cases "run (poll (lc_getSteeringMessages cfg)) s")
  note log = run_poll [OF x]
  show ?thesis
  proof (cases x)
    case (Inl e)
    then show ?thesis
      using Start [of e] assms x log by (auto simp: runLoop_def)
  next
    case (Inr pending)
    then show ?thesis
      using Iterate [of u pending] assms x log by (simp add: runLoop_def initial_state_def)
  qed
qed

lemma runLoop_reported:
  assumes "runLoop rt sf cx new cfg turn s = Some (Inr ms, t)" and "said (L @ message_ends new) s"
  shows "said (L @ message_ends ms @ [AgentEnd ms]) t"
  using assms(1)
proof (cases rule: runLoop_cases)
  case (Iterate pending u)
  let ?ls = "initial_state cx new cfg turn pending"
  have u: "reported L ?ls u"
    using assms(2) Iterate(1) by (simp add: reported_def said_def)
  have "iterate rt sf ?ls u = Some (Inr ms, t)"
    by (rule Iterate(2))
  then have "case_sum (\<lambda>e. True) (\<lambda>ms. said (L @ message_ends ms @ [AgentEnd ms]) t) (Inr ms :: thrown + agent_message list)"
  proof (rule iterate_induct [where I = "reported L" and
        Q = "\<lambda>r t. case_sum (\<lambda>e. True) (\<lambda>ms. said (L @ message_ends ms @ [AgentEnd ms]) t) r"])
    show "reported L ?ls u" by (rule u)
  next
    fix ls s ls' s'
    assume "reported L ls s" and "run (iteration rt sf ls) s = (Inr (Inl ls'), s')"
    from tripleD [OF triple_iteration this] show "reported L ls' s'"
      by (simp add: outcome_reported_def)
  next
    fix ls s ms s'
    assume "reported L ls s" and "run (iteration rt sf ls) s = (Inr (Inr ms), s')"
    from tripleD [OF triple_iteration this]
    show "case_sum (\<lambda>e. True) (\<lambda>ms. said (L @ message_ends ms @ [AgentEnd ms]) s') (Inr ms :: thrown + agent_message list)"
      by (simp add: outcome_reported_def)
  qed simp
  then show ?thesis by simp
qed simp

text \<open>C4: A run that returns announced exactly the messages it returns. Whatever the provider, the tools, the
  hooks and the queues do, and however the executions of a batch interleave, the events of a run
  are one \<open>agent_start\<close>, a \<open>message_end\<close> for every message of the result in its order, the prompts
  first, and one \<open>agent_end\<close> that carries the same messages; other kinds of events are left out here.\<close>

theorem run_announces_its_messages:
  assumes "runAgentLoop rt sf prompts cx cfg s = Some (Inr ms, t)"
  shows "lifecycle (st_log t) = lifecycle (st_log s) @ AgentStart # map MessageEnd ms @ [AgentEnd ms]"
proof -
  have pre: "triple (said L) (await (emit rt AgentStart) (\<lambda>_. await (emit rt TurnStart) (\<lambda>_.
        await (for_each (announce rt) prompts) (\<lambda>_. resolveSystemPrompt (cx_systemPrompt cx) cfg))))
      (\<lambda>_. said (L @ [AgentStart] @ message_ends prompts))" for L
    by (rule triple_await [OF triple_emit], rule triple_await [OF triple_emit], rule triple_await [OF triple_announce_all])
       (use triple_silent [OF writes_resolveSystemPrompt] in simp)
  obtain prompt u where u: "run (await (emit rt AgentStart) (\<lambda>_. await (emit rt TurnStart) (\<lambda>_.
        await (for_each (announce rt) prompts) (\<lambda>_. resolveSystemPrompt (cx_systemPrompt cx) cfg)))) s = (Inr prompt, u)"
      "runLoop rt sf (cx\<lparr>cx_messages := cx_messages cx @ prompts, cx_systemPrompt := prompt\<rparr>) prompts cfg None u = Some (Inr ms, t)"
    by (rule and_then_Some [OF assms [unfolded runAgentLoop_def]])
  have "said (lifecycle (st_log s)) s"
    by (simp add: said_def)
  from tripleD [OF pre this u(1)] have "said ((lifecycle (st_log s) @ [AgentStart]) @ message_ends prompts) u"
    by simp
  from runLoop_reported [OF u(2) this] show ?thesis
    by (simp add: said_def message_ends_def)
qed

theorem run_announces_its_messages_witness:
  "\<exists>t. runAgentLoop (sample_runtime False) sample_stream [sample_prompt] sample_context sample_config sample_run_state
       = Some (Inr [sample_prompt, sample_reply], t)
     \<and> lifecycle (st_log t) = [AgentStart, MessageEnd sample_prompt, MessageEnd sample_reply, AgentEnd [sample_prompt, sample_reply]]"
proof -
  obtain t where r: "runAgentLoop (sample_runtime False) sample_stream [sample_prompt] sample_context sample_config sample_run_state
      = Some (Inr [sample_prompt, sample_reply], t)"
    using one_turn_run by blast
  show ?thesis
    using run_announces_its_messages [OF r] r by (auto simp: sample_run_state_def)
qed

end
