(* ===== verification/AgentTranscript.thy ===== *)
theory AgentTranscript
  imports AgentLoopCorrect
begin

text \<open>
  The shape of the transcript that a run produces. The log of a run tells its turns apart: what the
  queues of messages returned between two \<open>turn_end\<close> events is what the turn injects, the
  \<open>turn_end\<close> event carries the response of the model and the results of its calls, and the end of
  the batch tells whether the tools let the run go on. The messages of the run are those of its
  turns; only the last turn may be a failed response, a response of which a checkpoint was saved,
  or a turn that the no-progress guard closes with a message of its own.
\<close>

section \<open>Turns\<close>

record run_turn =
  rn_injected :: "agent_message list"
  rn_reply :: assistant_message
  rn_results :: "tool_result_message list"
  rn_continues :: bool

text \<open>
  Reading the log: the messages that were polled and belong to no turn yet, whether the tools of the
  current turn let the run go on, and the turns that have ended.
\<close>

type_synonym turn_marks = "agent_message list \<times> bool \<times> run_turn list"

fun mark_step :: "turn_marks \<Rightarrow> run_item \<Rightarrow> turn_marks" where
  "mark_step (q, b, ts) (Polled ms) = (q @ ms, b, ts)"
| "mark_step (q, b, ts) (BatchEnded stop) = (q, \<not> stop, ts)"
| "mark_step (q, b, ts) (Emitted (TurnEnd (AssistantMessage m) rs)) =
     ([], False, ts @ [\<lparr>rn_injected = q, rn_reply = m, rn_results = rs, rn_continues = b\<rparr>])"
| "mark_step c x = c"

definition read_marks :: "run_item list \<Rightarrow> turn_marks" where
  "read_marks xs = foldl mark_step ([], False, []) xs"

definition run_turns :: "run_item list \<Rightarrow> run_turn list" where
  "run_turns xs = snd (snd (read_marks xs))"

definition undelivered :: "run_item list \<Rightarrow> agent_message list" where
  "undelivered xs = fst (read_marks xs)"

definition turn_messages :: "run_turn \<Rightarrow> agent_message list" where
  "turn_messages t = rn_injected t @ AssistantMessage (rn_reply t) # map ToolResultMessage (rn_results t)"

definition failed_message :: "assistant_message \<Rightarrow> bool" where
  "failed_message m \<longleftrightarrow> am_stopReason m = SR_error \<or> am_stopReason m = SR_aborted"

definition completed_turn :: "bool \<Rightarrow> run_turn \<Rightarrow> bool" where
  "completed_turn full t \<longleftrightarrow>
     \<not> failed_message (rn_reply t) \<and> answered answers full (tool_calls_of (am_content (rn_reply t))) (rn_results t)"

text \<open>The messages that a run with the given turns adds to its prompts.\<close>

inductive transcript :: "bool \<Rightarrow> run_turn list \<Rightarrow> agent_message list \<Rightarrow> bool" for full where
  all_completed: "\<forall>t\<in>set ts. completed_turn full t \<Longrightarrow> transcript full ts (concat (map turn_messages ts))"
| stopped: "\<forall>t\<in>set ts. completed_turn full t \<Longrightarrow> ts \<noteq> [] \<Longrightarrow> am_stopReason stop = SR_error
    \<Longrightarrow> transcript full ts (concat (map turn_messages ts) @ [AssistantMessage stop])"
| failed: "\<forall>t\<in>set ts. completed_turn full t \<Longrightarrow> failed_message (rn_reply f) \<Longrightarrow> rn_results f = []
    \<Longrightarrow> transcript full (ts @ [f]) (concat (map turn_messages ts) @ rn_injected f @ [AssistantMessage (rn_reply f)])"
| recovered: "\<forall>t\<in>set ts. completed_turn full t \<Longrightarrow> failed_message (rn_reply f)
    \<Longrightarrow> am_isResponseCheckpoint cp \<Longrightarrow> \<not> failed_message cp
    \<Longrightarrow> answered answers full (tool_calls_of (am_content cp)) (rn_results f)
    \<Longrightarrow> transcript full (ts @ [f]) (concat (map turn_messages ts) @ rn_injected f
          @ AssistantMessage cp # map ToolResultMessage (rn_results f) @ [AssistantMessage (rn_reply f)])"

section \<open>Following the marks\<close>

definition tracked :: "run_item list \<Rightarrow> turn_marks \<Rightarrow> 'w run_state \<Rightarrow> bool" where
  "tracked L c s \<longleftrightarrow> (\<exists>xs. st_log s = L @ xs \<and> read_marks xs = c)"

lemma mark_step_within: "\<not> turn_mark x \<Longrightarrow> mark_step c x = c"
  by (cases "(c, x)" rule: mark_step.cases) auto

lemma read_marks_append [simp]: "read_marks (xs @ ys) = foldl mark_step (read_marks xs) ys"
  by (simp add: read_marks_def)

lemma read_marks_within: "set xs \<subseteq> within_turn \<Longrightarrow> foldl mark_step c xs = c"
  by (induction xs arbitrary: c) (simp_all add: mark_step_within)

lemma tracked_log: "tracked L c s \<Longrightarrow> st_log t = st_log s @ xs \<Longrightarrow> tracked L (foldl mark_step c xs) t"
  by (auto simp: tracked_def)

lemma triple_within:
  assumes "writes st_log within_turn p"
  shows "triple (tracked L c) p (\<lambda>_. tracked L c)"
  unfolding triple_def
proof (intro allI impI)
  fix s x t
  assume s: "tracked L c s" and r: "run p s = (Inr x, t)"
  obtain xs where xs: "st_log t = st_log s @ xs" "set xs \<subseteq> within_turn"
    using writes_run [OF assms, of s] r by auto
  from tracked_log [OF s xs(1)] show "tracked L c t"
    using read_marks_within [OF xs(2)] by simp
qed

lemma triple_within_returns:
  assumes "writes st_log within_turn p" and "returns R p"
  shows "triple (tracked L c) p (\<lambda>x s. R x \<and> tracked L c s)"
  by (rule triple_returns [OF triple_within [OF assms(1)] assms(2)])

lemma triple_pure: "(R \<Longrightarrow> triple P p Q) \<Longrightarrow> triple (\<lambda>s. R \<and> P s) p Q"
  by (auto simp: triple_def)

lemma triple_poll: "triple (tracked L (q, b, ts)) (poll p) (\<lambda>ms. tracked L (q @ ms, b, ts))"
  unfolding triple_def
proof (intro allI impI)
  fix s ms t
  assume s: "tracked L (q, b, ts) s" and r: "run (poll p) s = (Inr ms, t)"
  from tracked_log [OF s, of t "[Polled ms]"] show "tracked L (q @ ms, b, ts) t"
    using run_poll [OF r] by simp
qed

lemma triple_turn_end:
  "triple (tracked L (q, b, ts)) (emit rt (TurnEnd (AssistantMessage m) rs))
     (\<lambda>_. tracked L ([], False, ts @ [\<lparr>rn_injected = q, rn_reply = m, rn_results = rs, rn_continues = b\<rparr>]))"
  unfolding triple_def
proof (intro allI impI)
  fix s x t
  assume s: "tracked L (q, b, ts) s" and r: "run (emit rt (TurnEnd (AssistantMessage m) rs)) s = (Inr x, t)"
  have "st_log t = st_log s @ [Emitted (TurnEnd (AssistantMessage m) rs)]"
    using r run_call_log [of "rt_sink rt (TurnEnd (AssistantMessage m) rs)" "add_log [Emitted (TurnEnd (AssistantMessage m) rs)] s"]
    by (simp add: emit_def run_await)
  from tracked_log [OF s this]
  show "tracked L ([], False, ts @ [\<lparr>rn_injected = q, rn_reply = m, rn_results = rs, rn_continues = b\<rparr>]) t"
    by simp
qed

lemma triple_batch_ended:
  "triple (tracked L (q, b, ts)) (modify (add_log [BatchEnded stop])) (\<lambda>_. tracked L (q, \<not> stop, ts))"
  unfolding triple_def
proof (intro allI impI)
  fix s x t
  assume s: "tracked L (q, b, ts) s" and "run (modify (add_log [BatchEnded stop])) s = (Inr x, t)"
  then have "st_log t = st_log s @ [BatchEnded stop]"
    by auto
  from tracked_log [OF s this] show "tracked L (q, \<not> stop, ts) t"
    by simp
qed

section \<open>The parts of an iteration\<close>

text \<open>What the guard has counted: the fingerprint of the last turn and its repetitions.\<close>

definition guard_state :: "'w loop_state \<Rightarrow> string option \<times> nat" where
  "guard_state ls = (lp_lastFingerprint ls, lp_repeats ls)"

definition same_run :: "'w loop_state \<Rightarrow> 'w loop_state \<Rightarrow> bool" where
  "same_run ls ls' \<longleftrightarrow> lp_newMessages ls' = lp_newMessages ls \<and> guard_state ls' = guard_state ls"

lemma guard_state_simps [simp]:
  "guard_state (apply_update u ls) = guard_state ls" "guard_state (push_messages ms ls) = guard_state ls"
  "guard_state (ls\<lparr>lp_pending := ms\<rparr>) = guard_state ls" "guard_state (ls\<lparr>lp_context := cx\<rparr>) = guard_state ls"
  "guard_state (ls\<lparr>lp_hasMore := h\<rparr>) = guard_state ls" "guard_state (ls\<lparr>lp_lastTurn := lt\<rparr>) = guard_state ls"
  "guard_state (ls\<lparr>lp_context := cx, lp_config := cfg, lp_stepNumber := k\<rparr>) = guard_state ls"
  by (simp_all add: guard_state_def push_messages_def apply_update_def split: option.splits)

lemma apply_update_pending [simp]: "lp_pending (apply_update u ls) = lp_pending ls"
  by (simp add: apply_update_def split: option.splits)

lemma triple_next_turn:
  "triple (tracked L (lp_pending ls, b, ts)) (next_turn rt ls)
     (\<lambda>ls' s. same_run ls ls' \<and> tracked L (lp_pending ls', b, ts) s)"
proof (cases "lp_lastTurn ls")
  case None
  then show ?thesis
    by (auto simp: next_turn_def same_run_def intro: triple_Return)
next
  case (Some t)
  have ask: "triple (tracked L (lp_pending ls, b, ts))
      (if lp_pending ls = [] then poll p else Return (lp_pending ls)) (\<lambda>ms. tracked L (ms, b, ts))" for p
    using triple_poll [of L "[]" b ts p] by (auto intro: triple_Return)
  show ?thesis
    unfolding next_turn_def Some option.case Let_def apply_update_pending
    by (rule triple_await [OF triple_within [OF writes_call]], rule triple_await [OF ask],
        rule triple_await [OF triple_within [OF writes_emit]])
       (auto simp: same_run_def intro!: triple_Return)
qed

lemma triple_inject_pending_marks:
  "triple (tracked L (lp_pending ls, b, ts)) (inject_pending rt ls)
     (\<lambda>ls' s. (lp_newMessages ls' = lp_newMessages ls @ lp_pending ls
         \<and> guard_state ls' = (if lp_pending ls = [] then guard_state ls else (None, 0)))
       \<and> tracked L (lp_pending ls, b, ts) s)"
proof (rule triple_within_returns)
  show "writes st_log within_turn (inject_pending rt ls)"
    by (auto simp: inject_pending_def announce_def Let_def intro!: writes_intros)
  show "returns (\<lambda>ls'. lp_newMessages ls' = lp_newMessages ls @ lp_pending ls
      \<and> guard_state ls' = (if lp_pending ls = [] then guard_state ls else (None, 0))) (inject_pending rt ls)"
    unfolding inject_pending_def Let_def by (auto simp: guard_state_def intro!: returns_await_any)
qed

lemma triple_bind_request:
  "triple (tracked L c) (bind_request ls) (\<lambda>ls' s. same_run ls ls' \<and> tracked L c s)"
proof (rule triple_within_returns [OF writes_bind_request])
  show "returns (same_run ls) (bind_request ls)"
    unfolding bind_request_def Let_def by (auto simp: same_run_def intro!: returns_await_any split: prod.splits)
qed

lemma split_response_checkpoint:
  "split_response rt a completed m = (m', Some cp)
   \<Longrightarrow> am_stopReason m' = SR_error \<and> am_isResponseCheckpoint cp \<and> \<not> failed_message cp"
  by (auto simp: failed_message_def split_response_def Let_def isRetryableAssistantError_def response_checkpoint_def split: if_splits)

definition sound_split :: "streamed_response \<Rightarrow> bool" where
  "sound_split st \<longleftrightarrow>
     (\<forall>cp. sr_checkpoint st = Some cp
        \<longrightarrow> am_stopReason (sr_message st) = SR_error \<and> am_isResponseCheckpoint cp \<and> \<not> failed_message cp)"

lemma sound_split_response:
  "split_response rt a completed m = (m', cp)
   \<Longrightarrow> sound_split \<lparr>sr_message = m', sr_checkpoint = cp, sr_messages = ms\<rparr>"
  using split_response_checkpoint [of rt a completed m m'] by (auto simp: sound_split_def)

lemma returns_finish_response: "returns sound_split (finish_response rt cfg ss result)"
  unfolding finish_response_def Let_def
  by (intro returns_await_any) (auto intro: sound_split_response split: prod.splits)

lemma returns_streamAssistantResponse: "returns sound_split (streamAssistantResponse rt sf cx cfg)"
  unfolding streamAssistantResponse_def Let_def
  by (auto intro!: returns_await_any returns_finish_response simp: sound_split_def)

lemma tool_calls_of_empty: "tool_calls_of bs = [] \<longleftrightarrow> \<not> list_ex is_tool_call bs"
  by (induction bs rule: tool_calls_of.induct) (auto simp: is_tool_call_def)

lemma with_error_reason [simp]: "am_stopReason (with_error r t m) = r"
  by (simp add: with_error_def)


lemma returns_recover_checkpoint:
  assumes "am_stopReason m = SR_error"
  shows "returns (\<lambda>(ls', m', rs). lp_newMessages ls' = lp_newMessages ls @ AssistantMessage cp # map ToolResultMessage rs
      \<and> guard_state ls' = guard_state ls
      \<and> failed_message m' \<and> answered answers (never_aborted rt) (tool_calls_of (am_content cp)) rs)
    (recover_checkpoint rt ls cp m)"
proof -
  have batch: "returns (\<lambda>b. answered answers (never_aborted rt) (tool_calls_of (am_content cp)) (tb_messages b))
      (if list_ex is_tool_call (am_content cp) then executeToolCalls rt cfg cx cp None
       else Return \<lparr>tb_messages = [], tb_terminate = False\<rparr>)" for cfg cx
    using returns_executeToolCalls [of rt cp None cfg cx] tool_calls_of_empty [of "am_content cp"]
    by (auto simp: requested_calls_def)
  show ?thesis
    unfolding recover_checkpoint_def Let_def
    by (rule returns_await_any, rule returns_await [OF batch])
       (use assms in \<open>auto simp: failed_message_def intro!: returns_await_any\<close>)
qed

lemma within_executeToolCalls: "writes st_log within_turn (executeToolCalls rt cfg cx am recovered)"
  by (rule writes_mono [OF writes_batch batch_items_within])

lemma within_take_response: "writes st_log within_turn (take_response rt sf ls)"
proof -
  have "writes st_log within_turn (recover_checkpoint rt l cp m)" for l :: "'a loop_state" and cp m
    unfolding recover_checkpoint_def Let_def by (auto intro!: writes_intros within_executeToolCalls)
  moreover have "writes st_log within_turn (streamAssistantResponse rt sf cx cfg)" for cx cfg
    by (rule writes_streamAssistantResponse) (auto intro: writes_may_request)
  ultimately show ?thesis
    unfolding take_response_def Let_def by (auto intro!: writes_intros split: option.splits prod.splits)
qed

text \<open>
  What a response adds to the messages: itself, and before it the checkpoint of a failed response
  with the results of its calls.
\<close>

definition response_part :: "bool \<Rightarrow> assistant_message \<Rightarrow> tool_result_message list \<Rightarrow> agent_message list \<Rightarrow> bool" where
  "response_part full m rs part \<longleftrightarrow>
     part = [] \<and> rs = []
     \<or> (\<exists>cp. part = AssistantMessage cp # map ToolResultMessage rs \<and> am_isResponseCheckpoint cp \<and> \<not> failed_message cp
         \<and> failed_message m \<and> answered answers full (tool_calls_of (am_content cp)) rs)"

definition taken :: "bool \<Rightarrow> 'w loop_state \<Rightarrow> 'w loop_state \<times> assistant_message \<times> tool_result_message list \<Rightarrow> bool" where
  "taken full ls = (\<lambda>(ls', m, rs). guard_state ls' = guard_state ls
     \<and> (\<exists>part. lp_newMessages ls' = lp_newMessages ls @ part @ [AssistantMessage m] \<and> response_part full m rs part))"

lemma returns_take_response: "returns (taken (never_aborted rt) ls) (take_response rt sf ls)"
  unfolding take_response_def
proof (rule returns_await [OF returns_streamAssistantResponse])
  fix st
  assume st: "sound_split st"
  let ?ls = "ls\<lparr>lp_context := (lp_context ls)\<lparr>cx_messages := sr_messages st\<rparr>\<rparr>"
  let ?P = "\<lambda>(ls', m, rs). guard_state ls' = guard_state ls
    \<and> (\<exists>part. lp_newMessages ls' = lp_newMessages ls @ part \<and> response_part (never_aborted rt) m rs part)"
  have part: "returns ?P (case sr_checkpoint st of
            None \<Rightarrow> Return (?ls, sr_message st, [])
          | Some cp \<Rightarrow> recover_checkpoint rt ?ls cp (sr_message st))"
  proof (cases "sr_checkpoint st")
    case None
    then show ?thesis by (simp add: response_part_def)
  next
    case (Some cp)
    then have "returns ?P (recover_checkpoint rt ?ls cp (sr_message st))"
      using st by (intro returns_weaken [OF returns_recover_checkpoint]) (auto simp: response_part_def sound_split_def)
    then show ?thesis
      using Some by simp
  qed
  show "returns (taken (never_aborted rt) ls) (let ls = ?ls
     in await (case sr_checkpoint st of
            None \<Rightarrow> Return (ls, sr_message st, [])
          | Some cp \<Rightarrow> recover_checkpoint rt ls cp (sr_message st)) (\<lambda>(ls, m, recovered).
        await (emit rt (MessageEnd (AssistantMessage m))) (\<lambda>_.
        Return (push_messages [AssistantMessage m] ls, m, recovered))))"
    unfolding Let_def by (rule returns_await [OF part]) (auto simp: taken_def intro!: returns_await_any)
qed

lemma answered_all: "list_all2 P xs ys \<Longrightarrow> answered P full xs ys"
  using list_all2_lengthD [of P xs ys] by (auto simp: answered_def)

definition tools_done :: "bool \<Rightarrow> 'w loop_state \<Rightarrow> assistant_message \<Rightarrow> 'w loop_state \<times> tool_result_message list \<Rightarrow> bool" where
  "tools_done full ls m = (\<lambda>(ls', rs). lp_newMessages ls' = lp_newMessages ls @ map ToolResultMessage rs
     \<and> guard_state ls' = guard_state ls \<and> answered answers full (tool_calls_of (am_content m)) rs
     \<and> (lp_hasMore ls' \<longrightarrow> tool_calls_of (am_content m) \<noteq> []))"

lemma triple_run_tools_marks:
  "triple (tracked L (q, False, ts)) (run_tools rt ls m)
     (\<lambda>x s. tools_done (never_aborted rt) ls m x \<and> tracked L (q, lp_hasMore (fst x), ts) s)"
proof (cases "tool_calls_of (am_content m) = []")
  case True
  then show ?thesis
    by (auto simp: run_tools_def tools_done_def intro!: triple_Return)
next
  case False
  let ?batch = "if am_stopReason m = SR_length
      then failToolCallsFromTruncatedMessage rt (lp_config ls) m (tool_calls_of (am_content m))
      else executeToolCalls rt (lp_config ls) (lp_context ls) m None"
  have "answered answers (never_aborted rt) tcs ms" if "list_all2 (\<lambda>tc m. answers tc m \<and> tr_isError m) tcs ms" for tcs ms
    by (rule answered_all, rule list_all2_mono [OF that]) simp
  then have ret: "returns (\<lambda>b. answered answers (never_aborted rt) (tool_calls_of (am_content m)) (tb_messages b)) ?batch"
    using returns_executeToolCalls [of rt m None "lp_config ls" "lp_context ls"]
    by (auto simp: requested_calls_def intro: returns_weaken [OF returns_truncated])
  have wr: "writes st_log within_turn ?batch"
    using within_executeToolCalls within_truncated by auto
  show ?thesis
    unfolding run_tools_def Let_def if_not_P [OF False]
    by (rule triple_await [OF triple_within_returns [OF wr ret]], rule triple_pure,
        rule triple_await [OF triple_batch_ended])
       (use False in \<open>auto simp: tools_done_def intro!: triple_Return\<close>)
qed

lemma noProgress_reason [simp]: "am_stopReason (noProgressStopMessage cfg tcs now) = SR_error"
  by (simp add: noProgressStopMessage_def own_message_def)

text \<open>How the guard counts a turn, from what it had counted when the turn began.\<close>

definition turn_print :: "(64 word \<Rightarrow> string) \<Rightarrow> run_turn \<Rightarrow> string" where
  "turn_print ft t = turn_fingerprint ft (rn_reply t) (rn_results t)"

definition guard_after :: "(64 word \<Rightarrow> string) \<Rightarrow> run_turn \<Rightarrow> string option \<times> nat \<Rightarrow> string option \<times> nat" where
  "guard_after ft t g =
     (let g = (if rn_injected t = [] then g else (None, 0))
      in if \<not> rn_continues t then (None, 0)
         else if fst g = Some (turn_print ft t) then (fst g, snd g + 1) else (Some (turn_print ft t), 1))"

text \<open>What an iteration with a turn \<open>t\<close> leads to, when the guard has counted \<open>g\<close> with this turn.\<close>

definition after_turn :: "run_item list \<Rightarrow> run_turn list \<Rightarrow> run_turn \<Rightarrow> string option \<times> nat \<Rightarrow> agent_message list
    \<Rightarrow> 'w loop_state + agent_message list \<Rightarrow> 'w run_state \<Rightarrow> bool" where
  "after_turn L ts t g new r s \<longleftrightarrow>
     (case r of
        Inl ls' \<Rightarrow> tracked L (lp_pending ls', False, ts @ [t]) s \<and> lp_newMessages ls' = new \<and> guard_state ls' = g \<and> snd g < 3
      | Inr ms \<Rightarrow> tracked L ([], False, ts @ [t]) s
          \<and> (if 3 \<le> snd g
             then \<exists>(cfg :: 'w loop_config) now. ms = new @ [AssistantMessage (noProgressStopMessage cfg (tool_calls_of (am_content (rn_reply t))) now)]
             else ms = new))"

lemma triple_end_turn_marks:
  fixes ls :: "'a loop_state" and rs :: "tool_result_message list"
  assumes "lp_hasMore ls \<longrightarrow> tool_calls_of (am_content m) \<noteq> []" and "q = [] \<or> guard_state ls = (None, 0)"
  defines "t \<equiv> \<lparr>rn_injected = q, rn_reply = m, rn_results = rs, rn_continues = lp_hasMore ls\<rparr>"
  shows "triple (tracked L (q, lp_hasMore ls, ts)) (end_turn rt ls m rs)
     (after_turn L ts t (guard_after (rt_floatText rt) t (guard_state ls)) (lp_newMessages ls))"
proof -
  let ?turn = "\<lparr>tn_message = m, tn_toolResults = rs, tn_context = lp_context ls, tn_newMessages = lp_newMessages ls\<rparr>"
  let ?ls = "count_turn rt m rs (ls\<lparr>lp_lastTurn := Some ?turn\<rparr>)" and ?g = "guard_after (rt_floatText rt) t (guard_state ls)"
  have g: "guard_state ?ls = ?g"
    using assms(1,2) by (auto simp: guard_state_def guard_after_def count_turn_def t_def turn_print_def Let_def)
  have more: "3 \<le> snd ?g \<longrightarrow> lp_hasMore ls"
    by (auto simp: guard_after_def t_def Let_def)
  have repeats: "lp_repeats ?ls = snd ?g"
    using arg_cong [OF g, of snd] by (simp add: guard_state_def)
  have stop: "triple (tracked L ([], False, ts @ [t])) (stop_without_progress rt ?ls m) (after_turn L ts t ?g (lp_newMessages ls))"
    if "3 \<le> snd ?g"
  proof -
    have "writes st_log within_turn (stop_without_progress rt ?ls m)"
      by (auto simp: stop_without_progress_def finish_run_def announce_def Let_def intro!: writes_intros)
    moreover have "returns (\<lambda>r. \<exists>(cfg :: 'a loop_config) now. r = Inr (lp_newMessages ls @ [AssistantMessage (noProgressStopMessage cfg (tool_calls_of (am_content m)) now)]))
        (stop_without_progress rt ?ls m)"
      unfolding stop_without_progress_def finish_run_def Let_def inspect_def by (auto intro!: returns_await_any) blast
    ultimately show ?thesis
      using that by (intro triple_conseq [OF triple_within_returns]) (auto simp: after_turn_def t_def, blast)
  qed
  have finish: "triple (tracked L ([], False, ts @ [t])) (finish_run rt ?ls) (after_turn L ts t ?g (lp_newMessages ls))"
    if "\<not> 3 \<le> snd ?g"
  proof -
    have "writes st_log within_turn (finish_run rt ?ls)" "returns (\<lambda>r. r = Inr (lp_newMessages ls)) (finish_run rt ?ls)"
      by (auto simp: finish_run_def intro!: writes_intros returns_await_any)
    then show ?thesis
      using that by (intro triple_conseq [OF triple_within_returns]) (auto simp: after_turn_def)
  qed
  have go_on: "triple (tracked L ([], False, ts @ [t]))
      (await (poll p) (\<lambda>ms. Return (Inl (?ls\<lparr>lp_pending := ms\<rparr>)))) (after_turn L ts t ?g (lp_newMessages ls))"
    if "\<not> 3 \<le> snd ?g" for p
    by (rule triple_await [OF triple_poll]) (use that g in \<open>auto simp: after_turn_def intro!: triple_Return\<close>)
  show ?thesis
    unfolding end_turn_def Let_def
  proof (rule triple_await [OF triple_turn_end])
    show "triple (tracked L ([], False, ts @ [\<lparr>rn_injected = q, rn_reply = m, rn_results = rs, rn_continues = lp_hasMore ls\<rparr>]))
       (if lp_hasMore ?ls \<and> tool_calls_of (am_content m) \<noteq> [] \<and> NO_PROGRESS_REPEAT_LIMIT \<le> lp_repeats ?ls
        then stop_without_progress rt ?ls m
        else await (call (lc_shouldStopAfterTurn (lp_config ?ls) ?turn)) (\<lambda>stop.
             if stop then finish_run rt ?ls
             else await (poll (lc_getSteeringMessages (lp_config ?ls))) (\<lambda>ms. Return (Inl (?ls\<lparr>lp_pending := ms\<rparr>)))))
       (after_turn L ts t ?g (lp_newMessages ls))"
    proof (cases "3 \<le> snd ?g")
      case True
      then have "lp_hasMore ?ls \<and> tool_calls_of (am_content m) \<noteq> [] \<and> NO_PROGRESS_REPEAT_LIMIT \<le> lp_repeats ?ls"
        using more assms(1) repeats by (simp add: NO_PROGRESS_REPEAT_LIMIT_def)
      then show ?thesis
        using stop [OF True] by (simp add: t_def)
    next
      case False
      then have "\<not> (lp_hasMore ?ls \<and> tool_calls_of (am_content m) \<noteq> [] \<and> NO_PROGRESS_REPEAT_LIMIT \<le> lp_repeats ?ls)"
        using repeats by (simp add: NO_PROGRESS_REPEAT_LIMIT_def)
      then show ?thesis
        unfolding t_def [symmetric] if_not_P
        by (rule subst [OF if_not_P [symmetric]]) (rule triple_await [OF triple_within [OF writes_call]], use False in \<open>auto intro: finish go_on\<close>)
    qed
  qed
qed

section \<open>One iteration\<close>

text \<open>
  An iteration makes a completed turn, or a failed one that ends the run, or no turn at all.
\<close>

definition failed_turn :: "bool \<Rightarrow> run_item list \<Rightarrow> run_turn list \<Rightarrow> agent_message list
    \<Rightarrow> 'w loop_state + agent_message list \<Rightarrow> 'w run_state \<Rightarrow> bool" where
  "failed_turn full L ts new r s \<longleftrightarrow>
     (\<exists>f part. r = Inr (new @ rn_injected f @ part @ [AssistantMessage (rn_reply f)]) \<and> failed_message (rn_reply f)
        \<and> response_part full (rn_reply f) (rn_results f) part \<and> \<not> rn_continues f \<and> tracked L ([], False, ts @ [f]) s)"

definition no_turn :: "run_item list \<Rightarrow> 'w loop_state \<Rightarrow> run_turn list
    \<Rightarrow> 'w loop_state + agent_message list \<Rightarrow> 'w run_state \<Rightarrow> bool" where
  "no_turn L ls ts r s \<longleftrightarrow>
     (case r of
        Inl ls' \<Rightarrow> tracked L (lp_pending ls', False, ts) s \<and> same_run ls ls'
      | Inr ms \<Rightarrow> tracked L ([], False, ts) s \<and> ms = lp_newMessages ls)"

definition iterated :: "'w runtime \<Rightarrow> run_item list \<Rightarrow> 'w loop_state \<Rightarrow> run_turn list
    \<Rightarrow> 'w loop_state + agent_message list \<Rightarrow> 'w run_state \<Rightarrow> bool" where
  "iterated rt L ls ts r s \<longleftrightarrow>
     (\<exists>t. completed_turn (never_aborted rt) t
        \<and> after_turn L ts t (guard_after (rt_floatText rt) t (guard_state ls)) (lp_newMessages ls @ turn_messages t) r s)
     \<or> failed_turn (never_aborted rt) L ts (lp_newMessages ls) r s \<or> no_turn L ls ts r s"

lemma triple_failed_turn:
  assumes "lp_newMessages l = new @ q @ part @ [AssistantMessage m]" and "failed_message m" and "response_part full m rs part"
  shows "triple (tracked L (q, False, ts)) (await (emit rt (TurnEnd (AssistantMessage m) rs)) (\<lambda>_. finish_run rt l))
    (failed_turn full L ts new)"
proof (rule triple_await [OF triple_turn_end])
  let ?f = "\<lparr>rn_injected = q, rn_reply = m, rn_results = rs, rn_continues = False\<rparr>"
  have "writes st_log within_turn (finish_run rt l)" "returns (\<lambda>r. r = Inr (lp_newMessages l)) (finish_run rt l)"
    by (auto simp: finish_run_def intro!: writes_intros returns_await_any)
  then show "triple (tracked L ([], False, ts @ [?f])) (finish_run rt l) (failed_turn full L ts new)"
  proof (rule triple_conseq [OF triple_within_returns])
    fix r :: "'a loop_state + agent_message list" and s :: "'a run_state"
    assume "r = Inr (lp_newMessages l) \<and> tracked L ([], False, ts @ [?f]) s"
    then show "failed_turn full L ts new r s"
      unfolding failed_turn_def using assms by (intro exI [of _ ?f] exI [of _ part]) simp
  qed
qed

lemma triple_completed_turn:
  assumes "lp_newMessages l = lp_newMessages ls @ q @ [AssistantMessage m]" and "\<not> failed_message m"
    and "guard_state l = (if q = [] then guard_state ls else (None, 0))"
  shows "triple (tracked L (q, False, ts)) (await (run_tools rt l m) (\<lambda>(l, rs). end_turn rt l m rs)) (iterated rt L ls ts)"
proof (rule triple_await [OF triple_run_tools_marks], rule triple_pure)
  fix x :: "'a loop_state \<times> tool_result_message list"
  assume x: "tools_done (never_aborted rt) l m x"
  obtain k rs where k: "x = (k, rs)" by (cases x)
  let ?t = "\<lparr>rn_injected = q, rn_reply = m, rn_results = rs, rn_continues = lp_hasMore k\<rparr>"
  have new: "lp_newMessages k = lp_newMessages ls @ turn_messages ?t" and compl: "completed_turn (never_aborted rt) ?t"
    using x assms(1,2) by (auto simp: k tools_done_def turn_messages_def completed_turn_def)
  have "triple (tracked L (q, lp_hasMore k, ts)) (end_turn rt k m rs)
      (after_turn L ts ?t (guard_after (rt_floatText rt) ?t (guard_state k)) (lp_newMessages k))"
    using x assms(3) by (intro triple_end_turn_marks) (auto simp: k tools_done_def)
  moreover have "guard_after (rt_floatText rt) ?t (guard_state k) = guard_after (rt_floatText rt) ?t (guard_state ls)"
    using x assms(3) by (auto simp: k tools_done_def guard_after_def)
  ultimately have "triple (tracked L (q, lp_hasMore k, ts)) (end_turn rt k m rs) (iterated rt L ls ts)"
    unfolding new using compl by (elim triple_conseq) (auto simp: iterated_def)
  then show "triple (tracked L (q, lp_hasMore (fst x), ts)) (case x of (l, rs) \<Rightarrow> end_turn rt l m rs) (iterated rt L ls ts)"
    by (simp add: k)
qed

lemma triple_follow_up:
  assumes "lp_pending ls = []"
  shows "triple (tracked L ([], False, ts)) (follow_up rt ls) (no_turn L ls ts)"
  unfolding follow_up_def
proof (rule triple_await [OF triple_poll])
  fix ms
  have fin: "writes st_log within_turn (finish_run rt ls)" "returns (\<lambda>r. r = Inr (lp_newMessages ls)) (finish_run rt ls)"
    by (auto simp: finish_run_def intro!: writes_intros returns_await_any)
  have "triple (tracked L ([], False, ts)) (finish_run rt ls) (no_turn L ls ts)"
    by (rule triple_conseq [OF triple_within_returns [OF fin]]) (auto simp: no_turn_def)
  then show "triple (tracked L ([] @ ms, False, ts))
     (if ms = [] then finish_run rt ls else Return (Inl (ls\<lparr>lp_pending := ms, lp_hasMore := True\<rparr>))) (no_turn L ls ts)"
    by (auto simp: no_turn_def same_run_def guard_state_def intro!: triple_Return)
qed

lemma triple_iteration_marks:
  "triple (tracked L (lp_pending ls, False, ts)) (iteration rt sf ls) (iterated rt L ls ts)"
proof (cases "lp_hasMore ls \<or> lp_pending ls \<noteq> []")
  case False
  then show ?thesis
    using triple_follow_up [of ls L ts rt] by (auto simp: iteration_def iterated_def elim: triple_conseq)
next
  case True
  show ?thesis
    unfolding iteration_def if_P [OF True] inner_iteration_def
  proof (rule triple_await [OF triple_next_turn], rule triple_pure, rule triple_await [OF triple_inject_pending_marks],
      rule triple_pure, rule triple_await [OF triple_bind_request], rule triple_pure,
      rule triple_await [OF triple_within_returns [OF within_take_response returns_take_response]], rule triple_pure)
    fix l1 l2 l3 and x :: "'a loop_state \<times> assistant_message \<times> tool_result_message list"
    assume l: "same_run ls l1"
        "lp_newMessages l2 = lp_newMessages l1 @ lp_pending l1
         \<and> guard_state l2 = (if lp_pending l1 = [] then guard_state l1 else (None, 0))" "same_run l2 l3"
      and x: "taken (never_aborted rt) l3 x"
    obtain l4 m rs where x4: "x = (l4, m, rs)" by (cases x)
    obtain part where p: "lp_newMessages l4 = lp_newMessages ls @ lp_pending l1 @ part @ [AssistantMessage m]"
        "response_part (never_aborted rt) m rs part" "guard_state l4 = (if lp_pending l1 = [] then guard_state ls else (None, 0))"
      using l x by (auto simp: x4 taken_def same_run_def)
    have "triple (tracked L (lp_pending l1, False, ts)) (await (emit rt (TurnEnd (AssistantMessage m) rs)) (\<lambda>_. finish_run rt l4))
        (iterated rt L ls ts)" if "failed_message m"
      by (rule triple_conseq [OF triple_failed_turn [OF p(1) that p(2)]]) (auto simp: iterated_def)
    moreover have "triple (tracked L (lp_pending l1, False, ts)) (await (run_tools rt l4 m) (\<lambda>(l, rs). end_turn rt l m rs))
        (iterated rt L ls ts)" if "\<not> failed_message m"
      using p that by (intro triple_completed_turn) (auto simp: response_part_def)
    ultimately show "triple (tracked L (lp_pending l1, False, ts)) (case x of (ls, m, recovered) \<Rightarrow>
       if am_stopReason m = SR_error \<or> am_stopReason m = SR_aborted
       then await (emit rt (TurnEnd (AssistantMessage m) recovered)) (\<lambda>_. finish_run rt ls)
       else await (run_tools rt ls m) (\<lambda>(ls, rs). end_turn rt ls m rs)) (iterated rt L ls ts)"
      by (auto simp: x4 failed_message_def)
  qed
qed

section \<open>The transcript of a run\<close>

text \<open>
  Between two iterations: the turns so far, which are completed, make up the messages of the run.
\<close>

definition completed_so_far :: "bool \<Rightarrow> agent_message list \<Rightarrow> run_turn list \<Rightarrow> 'w loop_state \<Rightarrow> bool" where
  "completed_so_far full new ts ls \<longleftrightarrow>
     lp_newMessages ls = new @ concat (map turn_messages ts) \<and> (\<forall>t\<in>set ts. completed_turn full t)"

lemma iterated_transcript:
  assumes "iterated rt L ls ts r s" and "completed_so_far (never_aborted rt) new ts ls"
  shows "case r of
      Inl ls' \<Rightarrow> \<exists>ts'. tracked L (lp_pending ls', False, ts') s \<and> completed_so_far (never_aborted rt) new ts' ls'
    | Inr ms \<Rightarrow> \<exists>ts' body. tracked L ([], False, ts') s \<and> ms = new @ body \<and> transcript (never_aborted rt) ts' body"
  using assms(1) unfolding iterated_def
proof (elim disjE exE conjE)
  fix t
  let ?g = "guard_after (rt_floatText rt) t (guard_state ls)"
  assume t: "completed_turn (never_aborted rt) t" and a: "after_turn L ts t ?g (lp_newMessages ls @ turn_messages t) r s"
  have all: "\<forall>u\<in>set (ts @ [t]). completed_turn (never_aborted rt) u"
    using t assms(2) by (auto simp: completed_so_far_def)
  have new: "lp_newMessages ls @ turn_messages t = new @ concat (map turn_messages (ts @ [t]))"
    using assms(2) by (simp add: completed_so_far_def)
  show ?thesis
  proof (cases r)
    case (Inl ls')
    then show ?thesis
      using a all new by (auto simp: after_turn_def completed_so_far_def intro!: exI [of _ "ts @ [t]"])
  next
    case (Inr ms)
    have "transcript (never_aborted rt) (ts @ [t]) (concat (map turn_messages (ts @ [t])) @ [AssistantMessage (noProgressStopMessage cfg tcs now)])"
      for cfg :: "'a loop_config" and tcs now
      using all by (rule transcript.stopped) simp_all
    moreover have "transcript (never_aborted rt) (ts @ [t]) (concat (map turn_messages (ts @ [t])))"
      using all by (rule transcript.all_completed)
    ultimately show ?thesis
      using a new Inr by (auto simp: after_turn_def simp del: map_append concat_append split: if_splits intro!: exI [of _ "ts @ [t]"])
  qed
next
  assume "failed_turn (never_aborted rt) L ts (lp_newMessages ls) r s"
  then obtain f part where f: "r = Inr (lp_newMessages ls @ rn_injected f @ part @ [AssistantMessage (rn_reply f)])"
      "failed_message (rn_reply f)" "response_part (never_aborted rt) (rn_reply f) (rn_results f) part" "tracked L ([], False, ts @ [f]) s"
    by (auto simp: failed_turn_def)
  have all: "\<forall>u\<in>set ts. completed_turn (never_aborted rt) u" and new: "lp_newMessages ls = new @ concat (map turn_messages ts)"
    using assms(2) by (auto simp: completed_so_far_def)
  have "transcript (never_aborted rt) (ts @ [f]) (concat (map turn_messages ts) @ rn_injected f @ part @ [AssistantMessage (rn_reply f)])"
    using f(2,3) transcript.failed [OF all f(2)] transcript.recovered [OF all f(2)] by (auto simp: response_part_def)
  then show ?thesis
    using f(1,4) new by auto
next
  assume "no_turn L ls ts r s"
  then show ?thesis
    using assms(2) transcript.all_completed [of ts "never_aborted rt"]
    by (cases r) (auto simp: no_turn_def same_run_def completed_so_far_def)
qed

lemma iterate_transcript:
  assumes "iterate rt sf ls s = Some (Inr ms, t)" and "tracked L (lp_pending ls, False, []) s"
  shows "\<exists>ts body. tracked L ([], False, ts) t \<and> ms = lp_newMessages ls @ body \<and> transcript (never_aborted rt) ts body"
proof -
  let ?I = "\<lambda>l s. \<exists>ts. tracked L (lp_pending l, False, ts) s \<and> completed_so_far (never_aborted rt) (lp_newMessages ls) ts l"
  let ?Q = "\<lambda>ms t. \<exists>ts body. tracked L ([], False, ts) t \<and> ms = lp_newMessages ls @ body \<and> transcript (never_aborted rt) ts body"
  have step: "case r of Inl l' \<Rightarrow> ?I l' s' | Inr ms \<Rightarrow> ?Q ms s'"
    if I: "?I l s" and r: "run (iteration rt sf l) s = (Inr r, s')" for l s r s'
  proof -
    obtain ts where ts: "tracked L (lp_pending l, False, ts) s" "completed_so_far (never_aborted rt) (lp_newMessages ls) ts l"
      using I by blast
    show ?thesis
      using iterated_transcript [OF tripleD [OF triple_iteration_marks ts(1) r] ts(2)] by (cases r) auto
  qed
  have "case_sum (\<lambda>e. True) (\<lambda>ms. ?Q ms t) (Inr ms :: thrown + agent_message list)"
    using assms(1)
  proof (rule iterate_induct [where I = ?I and Q = "\<lambda>r t. case_sum (\<lambda>e. True) (\<lambda>ms. ?Q ms t) r"])
    show "?I ls s"
      using assms(2) by (auto simp: completed_so_far_def)
  qed (use step in force)+
  then show ?thesis by simp
qed

lemma runLoop_transcript:
  assumes "runLoop rt sf cx new cfg turn s = Some (Inr ms, t)" and "tracked L ([], False, []) s"
  shows "\<exists>ts body. tracked L ([], False, ts) t \<and> ms = new @ body \<and> transcript (never_aborted rt) ts body"
  using assms(1)
proof (cases rule: runLoop_cases)
  case (Iterate pending u)
  from tracked_log [OF assms(2) Iterate(1)] have "tracked L (lp_pending (initial_state cx new cfg turn pending), False, []) u"
    by (simp add: initial_state_def)
  then show ?thesis
    using iterate_transcript [OF Iterate(2)] by simp
qed simp

lemma run_prelude:
  "triple (tracked L c) (await (emit rt AgentStart) (\<lambda>_. await (emit rt TurnStart) (\<lambda>_.
     await (for_each (announce rt) prompts) (\<lambda>_. resolveSystemPrompt p cfg)))) (\<lambda>_. tracked L c)"
  by (rule triple_within) (auto simp: announce_def intro!: writes_intros)

text \<open>C2: The messages of a run are its prompts and then the messages of its turns, as the log tells the turns
  apart: for every \<open>turn_end\<close> event, in order, the messages that the steering and follow-up queues
  returned since the turn before (all of them, in order, and no others), the response that the event
  carries, and the results that the event carries. The results answer the calls of the response one by
  one in order; an abort may cut them off after the first, and without an abort every call is answered.
  Only the last turn may be a failed response, with a saved part of it and the results of the calls of
  that part before it, and only the last may be followed by the error message of the no-progress guard.
  When the run returns, no message that a queue handed over is left undelivered.\<close>

theorem run_transcript_shape:
  assumes "runAgentLoop rt sf prompts cx cfg s = Some (Inr ms, t)"
  shows "\<exists>xs body. st_log t = st_log s @ xs \<and> ms = prompts @ body
    \<and> transcript (never_aborted rt) (run_turns xs) body \<and> undelivered xs = []"
proof -
  obtain prompt u where u: "run (await (emit rt AgentStart) (\<lambda>_. await (emit rt TurnStart) (\<lambda>_.
        await (for_each (announce rt) prompts) (\<lambda>_. resolveSystemPrompt (cx_systemPrompt cx) cfg)))) s = (Inr prompt, u)"
      "runLoop rt sf (cx\<lparr>cx_messages := cx_messages cx @ prompts, cx_systemPrompt := prompt\<rparr>) prompts cfg None u = Some (Inr ms, t)"
    by (rule and_then_Some [OF assms [unfolded runAgentLoop_def]])
  have "tracked (st_log s) ([], False, []) s"
    by (simp add: tracked_def read_marks_def)
  from runLoop_transcript [OF u(2) tripleD [OF run_prelude this u(1)]]
  show ?thesis
    by (fastforce simp: tracked_def run_turns_def undelivered_def)
qed

theorem run_transcript_shape_witness:
  "\<exists>t. runAgentLoop (sample_runtime False) sample_stream [sample_prompt] sample_context sample_config sample_run_state
       = Some (Inr [sample_prompt, sample_reply], t)
     \<and> transcript True (run_turns (st_log t)) [sample_reply] \<and> undelivered (st_log t) = []"
proof -
  obtain t where r: "runAgentLoop (sample_runtime False) sample_stream [sample_prompt] sample_context sample_config sample_run_state
      = Some (Inr [sample_prompt, sample_reply], t)"
    using one_turn_run by blast
  have "never_aborted (sample_runtime False) = True"
    by (simp add: never_aborted_def sample_runtime_def)
  then have "transcript True (run_turns (st_log t)) [sample_reply] \<and> undelivered (st_log t) = []"
    using run_transcript_shape [OF r] by (auto simp: sample_run_state_def)
  then show ?thesis
    using r by blast
qed

section \<open>Leases of a run\<close>

text \<open>No update of the configuration touches the last gate.\<close>

definition same_gate :: "'w loop_config \<Rightarrow> 'w loop_state \<Rightarrow> bool" where
  "same_gate cfg ls \<longleftrightarrow> lc_admitEffect (lp_config ls) = lc_admitEffect cfg"

lemma same_gate_throws: "same_gate cfg ls \<Longrightarrow> admission_throws (lp_config ls) = admission_throws cfg"
  by (simp add: same_gate_def admission_throws_def)

lemma same_gate_simps [simp]:
  "same_gate cfg (apply_update u ls) = same_gate cfg ls" "same_gate cfg (push_messages ms ls) = same_gate cfg ls"
  "same_gate cfg (ls\<lparr>lp_pending := ms\<rparr>) = same_gate cfg ls" "same_gate cfg (ls\<lparr>lp_context := cx\<rparr>) = same_gate cfg ls"
  "same_gate cfg (ls\<lparr>lp_hasMore := h\<rparr>) = same_gate cfg ls" "same_gate cfg (ls\<lparr>lp_lastTurn := lt\<rparr>) = same_gate cfg ls"
  "same_gate cfg (count_turn rt m rs ls) = same_gate cfg ls"
  by (simp_all add: same_gate_def apply_update_def split: option.splits)

lemma gate_next_turn: "same_gate cfg ls \<Longrightarrow> returns (same_gate cfg) (next_turn rt ls)"
  unfolding next_turn_def Let_def by (auto intro!: returns_await_any split: option.splits)

lemma gate_inject_pending: "same_gate cfg ls \<Longrightarrow> returns (same_gate cfg) (inject_pending rt ls)"
  unfolding inject_pending_def Let_def by (auto simp: same_gate_def intro!: returns_await_any)

lemma gate_bind_request: "same_gate cfg ls \<Longrightarrow> returns (same_gate cfg) (bind_request ls)"
  unfolding bind_request_def Let_def createStepSnapshot_def same_gate_def
  by (intro returns_await_any) (auto simp: apply_update_def split: option.splits)

lemma gate_take_response: "same_gate cfg ls \<Longrightarrow> returns (\<lambda>(ls', m, rs). same_gate cfg ls') (take_response rt sf ls)"
  unfolding take_response_def Let_def
proof (rule returns_await_any)
  fix st
  assume g: "same_gate cfg ls"
  have "returns (\<lambda>(ls', m, rs). same_gate cfg ls') (recover_checkpoint rt l cp m)" if "same_gate cfg l" for l :: "'a loop_state" and cp m
    unfolding recover_checkpoint_def Let_def using that by (auto intro!: returns_await_any)
  then have "returns (\<lambda>(ls', m, rs). same_gate cfg ls') (case sr_checkpoint st of
            None \<Rightarrow> Return (ls\<lparr>lp_context := (lp_context ls)\<lparr>cx_messages := sr_messages st\<rparr>\<rparr>, sr_message st, [])
          | Some cp \<Rightarrow> recover_checkpoint rt (ls\<lparr>lp_context := (lp_context ls)\<lparr>cx_messages := sr_messages st\<rparr>\<rparr>) cp (sr_message st))"
    using g by (simp split: option.split)
  then show "returns (\<lambda>(ls', m, rs). same_gate cfg ls') (await (case sr_checkpoint st of
            None \<Rightarrow> Return (ls\<lparr>lp_context := (lp_context ls)\<lparr>cx_messages := sr_messages st\<rparr>\<rparr>, sr_message st, [])
          | Some cp \<Rightarrow> recover_checkpoint rt (ls\<lparr>lp_context := (lp_context ls)\<lparr>cx_messages := sr_messages st\<rparr>\<rparr>) cp (sr_message st))
       (\<lambda>(ls, m, recovered). await (emit rt (MessageEnd (AssistantMessage m))) (\<lambda>_.
        Return (push_messages [AssistantMessage m] ls, m, recovered))))"
    by (rule returns_await) (auto intro!: returns_await_any)
qed

lemma gate_run_tools: "same_gate cfg ls \<Longrightarrow> returns (\<lambda>(ls', rs). same_gate cfg ls') (run_tools rt ls m)"
  unfolding run_tools_def Let_def by (auto intro!: returns_await_any)

abbreviation gate_kept :: "'w loop_config \<Rightarrow> 'w loop_state + agent_message list \<Rightarrow> bool" where
  "gate_kept cfg r \<equiv> (\<forall>ls. r = Inl ls \<longrightarrow> same_gate cfg ls)"

lemma gate_ends:
  "returns (gate_kept cfg) (finish_run rt ls)" "returns (gate_kept cfg) (stop_without_progress rt ls m)"
  by (auto simp: finish_run_def stop_without_progress_def Let_def intro!: returns_await_any)

lemma gate_end_turn: "same_gate cfg ls \<Longrightarrow> returns (gate_kept cfg) (end_turn rt ls m rs)"
  unfolding end_turn_def Let_def by (auto intro!: returns_await_any gate_ends)

lemma gate_iteration:
  assumes "same_gate cfg ls"
  shows "returns (gate_kept cfg) (iteration rt sf ls)"
proof -
  have "returns (gate_kept cfg) (follow_up rt ls)"
    using assms by (auto simp: follow_up_def intro!: returns_await_any gate_ends)
  moreover have "returns (gate_kept cfg) (inner_iteration rt sf ls)"
    unfolding inner_iteration_def
    by (rule returns_await [OF gate_next_turn [OF assms]], rule returns_await [OF gate_inject_pending], assumption,
        rule returns_await [OF gate_bind_request], assumption, rule returns_await [OF gate_take_response], assumption)
       (auto intro!: returns_await_any gate_ends intro: gate_end_turn elim!: returns_await [OF gate_run_tools])
  ultimately show ?thesis
    by (simp add: iteration_def)
qed

lemma balanced_recover_checkpoint: "balanced (admission_throws (lp_config ls)) n (recover_checkpoint rt ls cp m)"
  unfolding recover_checkpoint_def Let_def
  by (auto intro!: balanced_then balanced_emit balanced_executeToolCalls balanced_aborted)

lemma lease_free:
  "balanced A n p" if "writes st_log (range Emitted \<union> range Observed \<union> range ProviderInvoked \<union> range Polled \<union> range BatchEnded) p"
  by (rule balanced_writes [OF writes_mono [OF that]]) auto

lemma balanced_take_response: "balanced (admission_throws (lp_config ls)) n (take_response rt sf ls)"
proof -
  have "balanced A n (streamAssistantResponse rt sf cx cfg)" for A cx cfg
    by (rule lease_free, rule writes_streamAssistantResponse) (auto intro: writes_may_request)
  moreover have "balanced (admission_throws (lp_config ls)) n
      (recover_checkpoint rt (ls\<lparr>lp_context := cx\<rparr>) cp m)" for cx cp m
    using balanced_recover_checkpoint [of "ls\<lparr>lp_context := cx\<rparr>" n rt cp m] by simp
  ultimately show ?thesis
    unfolding take_response_def Let_def
    by (auto intro!: balanced_then balanced_emit split: option.splits prod.splits)
qed

lemma balanced_run_tools: "balanced (admission_throws (lp_config ls)) n (run_tools rt ls m)"
proof -
  have "balanced A n (failToolCallsFromTruncatedMessage rt cfg am tcs)" for A cfg am tcs
    by (rule lease_free, rule writes_mono [OF writes_truncated]) auto
  moreover have "balanced A n (modify (add_log [BatchEnded b]))" for A b
    by (rule lease_free, rule writes_batch_ended) auto
  ultimately show ?thesis
    unfolding run_tools_def Let_def by (auto intro!: balanced_then balanced_executeToolCalls)
qed

lemma balanced_quiet: "balanced A n (next_turn rt ls)" "balanced A n (inject_pending rt ls)" "balanced A n (bind_request ls)"
    "balanced A n (end_turn rt ls m rs)" "balanced A n (finish_run rt ls)" "balanced A n (follow_up rt ls)" "balanced A n (poll q)"
  by (auto simp: inject_pending_def announce_def end_turn_def stop_without_progress_def finish_run_def follow_up_def Let_def
      intro!: lease_free writes_intros writes_next_turn writes_bind_request writes_poll)

lemma balanced_iteration:
  assumes "same_gate cfg ls"
  shows "balanced (admission_throws cfg) n (iteration rt sf ls)"
proof -
  have take: "balanced (admission_throws cfg) n (take_response rt sf l)" "balanced (admission_throws cfg) n (run_tools rt l m)"
    if "same_gate cfg l" for l m
    using balanced_take_response [of l n rt sf] balanced_run_tools [of l n rt m] same_gate_throws [OF that] by simp_all
  have "balanced (admission_throws cfg) n (inner_iteration rt sf ls)"
    unfolding inner_iteration_def
    by (rule balanced_await [OF balanced_quiet(1) gate_next_turn [OF assms]],
        rule balanced_await [OF balanced_quiet(2) gate_inject_pending], assumption,
        rule balanced_await [OF balanced_quiet(3) gate_bind_request], assumption,
        rule balanced_await [OF take(1) gate_take_response], assumption, assumption)
       (auto intro!: balanced_then balanced_emit balanced_quiet take)
  then show ?thesis
    by (simp add: iteration_def balanced_quiet)
qed

text \<open>The leases with the number \<open>n\<close> that are out.\<close>

definition leases_held :: "nat \<Rightarrow> run_item list \<Rightarrow> int" where
  "leases_held n log = int (count_list log (LeaseAcquired n)) - int (count_list log (LeaseReleased n))"

lemma leases_held_weigh: "leases_held n log = weigh (lease_weight n) log"
  by (induction log) (auto simp: leases_held_def lease_weight_def)

text \<open>The leases after a part of a run that went from \<open>s\<close> to \<open>t\<close> with the result \<open>r\<close>.\<close>

definition kept_leases :: "bool \<Rightarrow> nat \<Rightarrow> 'w run_state \<Rightarrow> thrown + 'a \<Rightarrow> 'w run_state \<Rightarrow> bool" where
  "kept_leases A n s r t \<longleftrightarrow>
     leases_held n (st_log s) \<le> leases_held n (st_log t)
     \<and> (\<not> A \<or> (\<exists>x. r = Inr x) \<longrightarrow> leases_held n (st_log t) = leases_held n (st_log s))"

lemma kept_balanced: "balanced A n p \<Longrightarrow> run p s = (r, t) \<Longrightarrow> kept_leases A n s r t"
  unfolding kept_leases_def leases_held_weigh by (blast dest: balancedD)

lemma kept_trans: "kept_leases A n s (Inr x) u \<Longrightarrow> kept_leases A n u r t \<Longrightarrow> kept_leases A n s r t"
  by (auto simp: kept_leases_def)

lemma iterate_kept:
  assumes "iterate rt sf ls s = Some (r, t)" and "same_gate cfg ls"
  shows "kept_leases (admission_throws cfg) n s r t"
proof -
  let ?A = "admission_throws cfg"
  let ?I = "\<lambda>l u. same_gate cfg l \<and> kept_leases ?A n s (Inr () :: thrown + unit) u"
  have step: "kept_leases ?A n s x s' \<and> (\<forall>l'. x = Inr (Inl l') \<longrightarrow> same_gate cfg l')"
    if I: "?I l u" and r: "run (iteration rt sf l) u = (x, s')" for l u x s'
    using kept_trans [OF conjunct2 [OF I] kept_balanced [OF balanced_iteration [OF conjunct1 [OF I]] r]]
      returns_run [OF gate_iteration [OF conjunct1 [OF I]]] r by auto
  show ?thesis
    using assms(1)
  proof (rule iterate_induct [where I = ?I and Q = "\<lambda>r t. kept_leases ?A n s r t"])
    show "?I ls s"
      using assms(2) by (simp add: kept_leases_def)
  next
    fix l u l' s'
    assume I: "?I l u" and r: "run (iteration rt sf l) u = (Inr (Inl l'), s')"
    from step [OF this] show "?I l' s'"
      by (auto simp: kept_leases_def)
  next
    fix l u ms s'
    assume I: "?I l u" and r: "run (iteration rt sf l) u = (Inr (Inr ms), s')"
    from step [OF this] show "kept_leases ?A n s (Inr ms) s'"
      by (auto simp: kept_leases_def)
  next
    fix l u e s'
    assume I: "?I l u" and r: "run (iteration rt sf l) u = (Inl e, s')"
    from step [OF this] show "kept_leases ?A n s (Inl e) s'"
      by (auto simp: kept_leases_def)
  qed
qed

lemma runLoop_kept:
  assumes "runLoop rt sf cx new cfg turn s = Some (r, t)"
  shows "kept_leases (admission_throws cfg) n s r t"
  using assms
proof (cases rule: runLoop_cases)
  case (Iterate pending u)
  have "same_gate cfg (initial_state cx new cfg turn pending)"
    by (simp add: same_gate_def)
  from iterate_kept [OF Iterate(2) this, of n] show ?thesis
    using Iterate(1) by (simp add: kept_leases_def leases_held_def)
qed (simp add: kept_leases_def)



text \<open>C41: When \<open>admitEffect\<close> throws after the scheduler has granted a lease, the execution throws the same
  error and the lease stays out: the call stands after the \<open>try\<close> around the dispatch hook and before
  the one whose \<open>finally\<close> releases the lease.\<close>

theorem admission_throw_leaks_lease:
  assumes "lc_admitToolCall cfg = None" and "\<not> at_orchestratesTools (pd_tool p)"
    and "run (scheduler_stage cfg (lc_executionScheduler cfg) p) s = (Inr (Inr (Some (sch, n))), u)"
    and "run (dispatch_stage rt cfg parent p (Some (sch, n))) u = (Inr (), v)"
    and "lc_admitEffect cfg (st_world v) = (Inl e, w)"
  shows "\<exists>t. run (executePreparedToolCall rt cfg parent p) s = (Inl e, t)
    \<and> leases_held n (st_log t) = leases_held n (st_log s) + 1"
proof -
  have "owes st_log (lease_weight n) (\<lambda>_ _. True) (\<lambda>x d. \<forall>l. x = Inr l \<longrightarrow> d = still_held n l)
      (scheduler_stage cfg (lc_executionScheduler cfg) p) 0"
    by (rule owes_scheduler_stage) auto
  from owes_run [OF this, of s] have "leases_held n (st_log u) = leases_held n (st_log s) + 1"
    using assms(3) by (auto simp: leases_held_weigh)
  moreover have "owes st_log (lease_weight n) (\<lambda>_ _. True) (\<lambda>_ d. d = still_held n (Some (sch, n)))
      (dispatch_stage rt cfg parent p (Some (sch, n))) (still_held n (Some (sch, n)))"
    by (rule owes_dispatch_stage) auto
  from owes_run [OF this, of u] have "leases_held n (st_log v) = leases_held n (st_log u)"
    using assms(4) by (auto simp: leases_held_weigh)
  moreover have "run (executePreparedToolCall rt cfg parent p) s = (Inl e, v\<lparr>st_world := w\<rparr>)"
    using assms by (simp add: executePreparedToolCall_def admission_stage_def run_await last_gate_def)
  ultimately show ?thesis
    by simp
qed

definition leaking_config :: "nat loop_config" where
  "leaking_config = sample_config\<lparr>lc_executionScheduler := Some \<lparr>es_acquire = (\<lambda>_. Return (Some 7)), es_release = (\<lambda>_ w. w)\<rparr>,
     lc_admitEffect := (\<lambda>w. (Inl (PlainError ''gate''), w))\<rparr>"

definition leaking_call :: "nat prepared_call" where
  "leaking_call = \<lparr>pd_toolCall = \<lparr>tc_id = ''c'', tc_name = ''ls'', tc_arguments = [], tc_extra = []\<rparr>,
     pd_tool = \<lparr>at_name = ''ls'', at_parameters = JNull, at_contract = None, at_orchestratesTools = False,
       at_executionMode = None, at_executionResource = None, at_prepareArguments = None,
       at_execute = (\<lambda>i v. ToolThrows (PlainError ''unused'')), at_extra = []\<rparr>,
     pd_args = JObject []\<rparr>"

theorem admission_throw_leaks_lease_witness:
  "\<exists>t. run (executePreparedToolCall (sample_runtime False) leaking_config None leaking_call) sample_run_state
       = (Inl (PlainError ''gate''), t) \<and> leases_held 7 (st_log t) = 1"
proof -
  obtain u where u: "run (scheduler_stage leaking_config (lc_executionScheduler leaking_config) leaking_call) sample_run_state
      = (Inr (Inr (Some (the (lc_executionScheduler leaking_config), 7))), u)"
    by (simp add: scheduler_stage_def acquire_lease_def leaking_config_def sample_config_def run_await call_def reportExecution_def)
  have d: "run (dispatch_stage (sample_runtime False) leaking_config None leaking_call
        (Some (the (lc_executionScheduler leaking_config), 7))) u = (Inr (), u)"
    by (simp add: dispatch_stage_def run_try_catch run_await aborted_def sample_runtime_def leaking_config_def sample_config_def call_def)
  have c: "lc_admitToolCall leaking_config = None" "\<not> at_orchestratesTools (pd_tool leaking_call)"
      "lc_admitEffect leaking_config (st_world u) = (Inl (PlainError ''gate''), st_world u)"
    by (simp_all add: leaking_config_def leaking_call_def sample_config_def)
  show ?thesis
    using admission_throw_leaks_lease [OF c(1,2) u d c(3)] by (simp add: sample_run_state_def leases_held_def)
qed

section \<open>Truncated responses\<close>

text \<open>The tool calls of a response that hit the output limit are not executed. Each of them gets an error
  result, in order; nothing happens but events being emitted and the batch ending without a wish to stop,
  so no tool, no admission and no scheduler is reached; and the loop goes on, so that the model can issue the calls again.\<close>

theorem truncated_calls_not_started:
  assumes "am_stopReason m = SR_length" and "run (run_tools rt ls m) s = (Inr (ls', rs), t)"
  shows "list_all2 (\<lambda>tc r. answers tc r \<and> tr_isError r) (tool_calls_of (am_content m)) rs
    \<and> (lp_hasMore ls' \<longleftrightarrow> tool_calls_of (am_content m) \<noteq> [])
    \<and> (\<exists>xs. st_log t = st_log s @ xs \<and> set xs \<subseteq> range Emitted \<union> {BatchEnded False})"
proof -
  let ?tcs = "tool_calls_of (am_content m)"
  show ?thesis
  proof (cases "?tcs = []")
    case True
    then show ?thesis
      using assms by (auto simp: run_tools_def)
  next
    case False
    have tools: "run_tools rt ls m = await (failToolCallsFromTruncatedMessage rt (lp_config ls) m ?tcs) (\<lambda>batch.
        await (modify (add_log [BatchEnded (tb_terminate batch)])) (\<lambda>_.
        Return ((push_messages (map ToolResultMessage (tb_messages batch)) ls)\<lparr>lp_hasMore := \<not> tb_terminate batch\<rparr>, tb_messages batch)))"
      using False assms(1) by (simp add: run_tools_def)
    have "returns (\<lambda>(ls', rs). list_all2 (\<lambda>tc r. answers tc r \<and> tr_isError r) ?tcs rs \<and> lp_hasMore ls') (run_tools rt ls m)"
      unfolding tools by (rule returns_await [OF returns_truncated]) (auto intro!: returns_await_any)
    moreover have "writes st_log (range Emitted \<union> {BatchEnded False}) (run_tools rt ls m)"
      unfolding tools
      by (rule writes_await_returns [OF writes_mono [OF writes_truncated] returns_truncated])
         (auto intro!: writes_intros writes_batch_ended)
    ultimately show ?thesis
      using returns_run [OF _ assms(2)] writes_run [of st_log "range Emitted \<union> {BatchEnded False}" "run_tools rt ls m" s] assms(2) False
      by auto
  qed
qed

definition sample_tool_call :: "string \<Rightarrow> tool_call" where
  "sample_tool_call i = \<lparr>tc_id = i, tc_name = ''ls'', tc_arguments = [], tc_extra = []\<rparr>"

theorem truncated_calls_not_started_witness:
  "\<exists>ls' r t. run (run_tools (sample_runtime False) (initial_state sample_context [] sample_config None [])
        (sample_message SR_length [ToolCallBlock (sample_tool_call ''c'')])) sample_run_state = (Inr (ls', [r]), t)
     \<and> answers (sample_tool_call ''c'') r \<and> tr_isError r \<and> lp_hasMore ls' \<and> set (st_log t) \<subseteq> range Emitted \<union> {BatchEnded False}"
proof -
  let ?p = "run_tools (sample_runtime False) (initial_state sample_context [] sample_config None [])
        (sample_message SR_length [ToolCallBlock (sample_tool_call ''c'')])"
  have "case run ?p sample_run_state of (Inr _, _) \<Rightarrow> True | _ \<Rightarrow> False"
    by code_simp
  then obtain ls' rs t where r: "run ?p sample_run_state = (Inr (ls', rs), t)"
    by (auto split: prod.splits sum.splits)
  have "list_all2 (\<lambda>tc r. answers tc r \<and> tr_isError r) [sample_tool_call ''c''] rs \<and> lp_hasMore ls'
      \<and> set (st_log t) \<subseteq> range Emitted \<union> {BatchEnded False}"
    using truncated_calls_not_started [OF _ r] by (simp add: sample_message_def sample_run_state_def)
  then show ?thesis
    using r by (auto simp: list_all2_Cons1)
qed

end
