(* ===== verification/AgentGuards.thy ===== *)
theory AgentGuards
  imports AgentTranscript
begin

text \<open>
  How runs are brought to an end, and how they are taken up again: a run whose signal is aborted
  ends without starting anything, the no-progress guard ends a run at the third identical turn and
  not before, and resuming the tools of a persisted response neither repeats a completed call nor
  loses its result.
\<close>

section \<open>Aborted runs\<close>

definition always_aborted :: "'w runtime \<Rightarrow> bool" where
  "always_aborted rt \<longleftrightarrow> (\<forall>w. rt_aborted rt w)"

abbreviation reports :: "run_item set" where
  "reports \<equiv> range Emitted \<union> range Observed \<union> range Polled"

lemma aborted_may_request:
  assumes "always_aborted rt"
  shows "writes st_log A (may_request rt cfg)" and "returns Not (may_request rt cfg)"
  using assms by (auto simp: may_request_def always_aborted_def attempt_def)

lemma returns_streamAborted:
  assumes "always_aborted rt"
  shows "returns (\<lambda>st. sr_checkpoint st = None \<and> am_stopReason (sr_message st) = SR_aborted) (streamAssistantResponse rt sf cx cfg)"
  unfolding streamAssistantResponse_def Let_def
  by (rule returns_await_any, rule returns_await_any, rule returns_await_any, rule returns_await_any,
      rule returns_await [OF aborted_may_request(2) [OF assms]])
     (auto simp: inspect_def createAbortedAssistantMessage_def own_message_def
       intro!: returns_await_any)

lemma aborted_take_response:
  assumes "always_aborted rt"
  shows "returns (\<lambda>(ls', m, rs). am_stopReason m = SR_aborted \<and> (\<exists>ms. lp_newMessages ls' = ms @ [AssistantMessage m])) (take_response rt sf ls)"
    and "writes st_log reports (take_response rt sf ls)"
proof -
  show "returns (\<lambda>(ls', m, rs). am_stopReason m = SR_aborted \<and> (\<exists>ms. lp_newMessages ls' = ms @ [AssistantMessage m])) (take_response rt sf ls)"
    unfolding take_response_def Let_def
    by (rule returns_await [OF returns_streamAborted [OF assms]]) (auto intro!: returns_await_any)
  have "writes st_log reports (streamAssistantResponse rt sf (lp_context ls) (lp_config ls))"
    by (rule writes_streamAssistantResponse) (auto intro: aborted_may_request [OF assms])
  then show "writes st_log reports (take_response rt sf ls)"
    unfolding take_response_def Let_def
    by (rule writes_await_returns [OF _ returns_streamAborted [OF assms]]) (auto intro!: writes_intros)
qed

definition ended_by_abort :: "'w loop_state + agent_message list \<Rightarrow> bool" where
  "ended_by_abort r \<longleftrightarrow> (\<exists>ms m. r = Inr (ms @ [AssistantMessage m]) \<and> am_stopReason m = SR_aborted)"

lemma aborted_iteration:
  assumes "always_aborted rt" and "lp_hasMore ls"
  shows "returns ended_by_abort (iteration rt sf ls)" and "writes st_log reports (iteration rt sf ls)"
proof -
  let ?rest = "\<lambda>(ls, m, recovered).
     if am_stopReason m = SR_error \<or> am_stopReason m = SR_aborted
     then await (emit rt (TurnEnd (AssistantMessage m) recovered)) (\<lambda>_. finish_run rt ls)
     else await (run_tools rt ls m) (\<lambda>(ls, rs). end_turn rt ls m rs)"
  have it: "iteration rt sf ls = await (next_turn rt ls) (\<lambda>ls. await (inject_pending rt ls) (\<lambda>ls.
      await (bind_request ls) (\<lambda>ls. await (take_response rt sf ls) ?rest)))"
    using assms(2) by (simp add: iteration_def inner_iteration_def)
  have r: "returns ended_by_abort (await (take_response rt sf l) ?rest)" for l
    by (rule returns_await [OF aborted_take_response(1) [OF assms(1)]])
       (auto simp: ended_by_abort_def finish_run_def intro!: returns_await_any)
  have w: "writes st_log reports (await (take_response rt sf l) ?rest)" for l
    by (rule writes_await_returns [OF aborted_take_response(2,1) [OF assms(1)]])
       (auto simp: finish_run_def intro!: writes_intros)
  show "returns ended_by_abort (iteration rt sf ls)"
    unfolding it by (intro returns_await_any r)
  show "writes st_log reports (iteration rt sf ls)"
    unfolding it
    by (auto simp: inject_pending_def announce_def Let_def intro!: w writes_intros writes_next_turn writes_bind_request)
qed

lemma aborted_runLoop:
  assumes "always_aborted rt"
  shows "\<exists>r t xs. runLoop rt sf cx new cfg turn s = Some (r, t) \<and> st_log t = st_log s @ xs \<and> set xs \<subseteq> reports
    \<and> (\<forall>ms. r = Inr ms \<longrightarrow> (\<exists>pre m. ms = pre @ [AssistantMessage m] \<and> am_stopReason m = SR_aborted))"
proof -
  obtain x u where x: "run (poll (lc_getSteeringMessages cfg)) s = (x, u)"
    by (cases "run (poll (lc_getSteeringMessages cfg)) s")
  note log = run_poll [OF x]
  show ?thesis
  proof (cases x)
    case (Inl e)
    then show ?thesis
      using x log by (simp add: runLoop_def)
  next
    case (Inr pending)
    let ?ls = "initial_state cx new cfg turn pending"
    obtain y t where y: "run (iteration rt sf ?ls) u = (y, t)" by (cases "run (iteration rt sf ?ls) u")
    have loop: "runLoop rt sf cx new cfg turn s = iterate rt sf ?ls u"
      using x Inr by (simp add: runLoop_def initial_state_def)
    obtain xs where xs: "st_log t = st_log u @ xs" "set xs \<subseteq> reports"
      using writes_run [OF aborted_iteration(2) [OF assms, of ?ls sf], of u] y by auto
    show ?thesis
    proof (cases y)
      case (Inl e)
      then have "iterate rt sf ?ls u = Some (Inl e, t)"
        using y by (subst iterate.simps) simp
      then show ?thesis
        using loop xs log by auto
    next
      case (Inr z)
      then have "ended_by_abort z"
        using returns_run [OF aborted_iteration(1) [OF assms, of ?ls sf]] y by simp
      then obtain ms m where z: "z = Inr (ms @ [AssistantMessage m])" "am_stopReason m = SR_aborted"
        by (auto simp: ended_by_abort_def)
      then have "iterate rt sf ?ls u = Some (Inr (ms @ [AssistantMessage m]), t)"
        using y Inr by (subst iterate.simps) simp
      then show ?thesis
        using loop xs log z by auto
    qed
  qed
qed



section \<open>Fingerprints\<close>

definition call_key :: "tool_call \<Rightarrow> string \<times> json_fields \<times> json option" where
  "call_key tc = (tc_name tc, tc_arguments tc, map_of (tc_extra tc) ''namespace'')"

text \<open>
  What is visible of a result: its texts, its images with their type and data, and of any other block
  the kind.
\<close>

datatype visible_block = VisibleText string | VisibleImage string string | VisibleThinking | VisibleCall

fun visible :: "content_block \<Rightarrow> visible_block" where
  "visible (TextBlock t extra) = VisibleText t"
| "visible (ImageBlock imageData mimeType extra) = VisibleImage imageData mimeType"
| "visible (ThinkingBlock t extra) = VisibleThinking"
| "visible (ToolCallBlock tc) = VisibleCall"

definition result_key :: "tool_result_message \<Rightarrow> string \<times> bool \<times> visible_block list" where
  "result_key r = (tr_toolName r, tr_isError r, map visible (tr_content r))"

text \<open>The parts of a turn that the fingerprint writes are values that JSON can write.\<close>

definition writable_turn :: "assistant_message \<Rightarrow> bool" where
  "writable_turn m \<longleftrightarrow>
     pred_option wf_json (error_message m) \<and>
     (\<forall>tc\<in>set (tool_calls_of (am_content m)).
        wf_json (JObject (tc_arguments tc)) \<and> pred_option wf_json (map_of (tc_extra tc) ''namespace''))"

lemma wf_block_projection [simp]: "wf_json (block_projection b)"
  by (cases b) auto

lemma wf_result_projection [simp]: "wf_json (result_projection r)"
  by (simp add: result_projection_def)

lemma wf_turn_projection:
  assumes "writable_turn m"
  shows "wf_json (turn_projection m)"
proof -
  have "wf_json (call_projection tc)" if "tc \<in> set (tool_calls_of (am_content m))" for tc
    using assms that
    by (cases "map_of (tc_extra tc) ''namespace''") (auto simp: writable_turn_def call_projection_def)
  then show ?thesis
    using assms by (cases "error_message m") (auto simp: writable_turn_def turn_projection_def)
qed

lemma stop_reason_text_inj: "stop_reason_text r = stop_reason_text r' \<longleftrightarrow> r = r'"
  by (cases r; cases r') auto

lemma call_projection_key: "call_projection tc = call_projection tc' \<longleftrightarrow> call_key tc = call_key tc'"
  by (cases "map_of (tc_extra tc) ''namespace''"; cases "map_of (tc_extra tc') ''namespace''")
     (auto simp: call_projection_def call_key_def)

lemma map_key: "(\<And>x y. f x = f y \<longleftrightarrow> g x = g y) \<Longrightarrow> map f xs = map f ys \<longleftrightarrow> map g xs = map g ys"
  by (auto simp: list_eq_iff_nth_eq)

lemma turn_projection_key:
  "turn_projection m = turn_projection m' \<longleftrightarrow>
     am_stopReason m = am_stopReason m' \<and> error_message m = error_message m'
     \<and> map call_key (tool_calls_of (am_content m)) = map call_key (tool_calls_of (am_content m'))"
  using map_key [of call_projection call_key "tool_calls_of (am_content m)" "tool_calls_of (am_content m')"] call_projection_key
  by (cases "error_message m"; cases "error_message m'") (auto simp: turn_projection_def stop_reason_text_inj)

lemma block_projection_visible: "block_projection b = block_projection c \<longleftrightarrow> visible b = visible c"
  by (cases b; cases c) auto

lemma result_projection_key: "result_projection r = result_projection r' \<longleftrightarrow> result_key r = result_key r'"
  using map_key [of block_projection visible "tr_content r" "tr_content r'"] block_projection_visible
  by (auto simp: result_projection_def result_key_def)

lemma stringify_inject:
  assumes "faithful_floats ft pf" and "wf_json v" and "wf_json v'"
  shows "stringify ft v = stringify ft v' \<longleftrightarrow> v = v'"
  using json_roundtrip [OF assms(1,2)] json_roundtrip [OF assms(1,3)] by (metis option.inject)

text \<open>C33: Two turns have the same fingerprint exactly when they request the same calls (name, arguments and
  namespace, in order) with the same stop reason and error, and the calls gave the same results: the
  same tools and error flags, and contents with the same texts, the same images and blocks of the same
  kinds in the same order. What else differs, the identifiers of the calls, the prose, the
  usage and the time, plays no role. The values are those that JSON can write and read back.\<close>

theorem same_fingerprint_same_turn:
  assumes "faithful_floats ft pf" and "writable_turn m" and "writable_turn m'"
  shows "turn_fingerprint ft m rs = turn_fingerprint ft m' rs' \<longleftrightarrow>
     am_stopReason m = am_stopReason m' \<and> error_message m = error_message m'
     \<and> map call_key (tool_calls_of (am_content m)) = map call_key (tool_calls_of (am_content m'))
     \<and> map result_key rs = map result_key rs'"
proof -
  let ?lines = "\<lambda>m rs. fingerprintAssistantTurn ft m # map (fingerprintToolResult ft) rs"
  note wf = wf_turn_projection [OF assms(2)] wf_turn_projection [OF assms(3)]
  have split: "split_on CHR 0x0A (turn_fingerprint ft n qs) = ?lines n qs" if "wf_json (turn_projection n)" for n qs
    unfolding turn_fingerprint_def
    using stringify_line [OF assms(1)] that by (intro split_join) (auto simp: fingerprintAssistantTurn_def fingerprintToolResult_def)
  have "turn_fingerprint ft m rs = turn_fingerprint ft m' rs' \<longleftrightarrow> ?lines m rs = ?lines m' rs'"
    using split [OF wf(1), of rs] split [OF wf(2), of rs'] by (metis turn_fingerprint_def)
  moreover have "fingerprintAssistantTurn ft m = fingerprintAssistantTurn ft m' \<longleftrightarrow> turn_projection m = turn_projection m'"
    unfolding fingerprintAssistantTurn_def by (rule stringify_inject [OF assms(1) wf])
  moreover have "map (fingerprintToolResult ft) rs = map (fingerprintToolResult ft) rs' \<longleftrightarrow> map result_key rs = map result_key rs'"
    by (rule map_key) (simp add: fingerprintToolResult_def stringify_inject [OF assms(1)] result_projection_key)
  ultimately show ?thesis
    by (simp add: turn_projection_key)
qed

theorem same_fingerprint_same_turn_witness:
  "turn_fingerprint sample_float_text (sample_message SR_toolUse [ToolCallBlock (sample_tool_call ''a'')]) []
     = turn_fingerprint sample_float_text (sample_message SR_toolUse [TextBlock ''again'' [], ToolCallBlock (sample_tool_call ''b'')]) []
   \<and> turn_fingerprint sample_float_text (sample_message SR_toolUse [ToolCallBlock (sample_tool_call ''a'')]) []
     \<noteq> turn_fingerprint sample_float_text (sample_message SR_stop [ToolCallBlock (sample_tool_call ''a'')]) []"
proof -
  have w: "writable_turn (sample_message r [ToolCallBlock (sample_tool_call i)])"
      "writable_turn (sample_message r [TextBlock x [], ToolCallBlock (sample_tool_call i)])" for r i x
    by (simp_all add: writable_turn_def sample_message_def sample_tool_call_def error_message_def)
  show ?thesis
    using same_fingerprint_same_turn [OF sample_floats_faithful w(1) w(2)] same_fingerprint_same_turn [OF sample_floats_faithful w(1) w(1)]
    by (simp add: sample_message_def sample_tool_call_def error_message_def call_key_def)
qed

section \<open>The no-progress guard\<close>

text \<open>
  A turn repeats the turn before it: the tools of both let the run go on, no message was injected
  between them, and they have the same fingerprint. A run is stuck when its last three turns repeat
  each other.
\<close>

definition repeats_turn :: "(64 word \<Rightarrow> string) \<Rightarrow> run_turn \<Rightarrow> run_turn \<Rightarrow> bool" where
  "repeats_turn ft a b \<longleftrightarrow>
     rn_continues a \<and> rn_continues b \<and> rn_injected b = []
     \<and> turn_fingerprint ft (rn_reply a) (rn_results a) = turn_fingerprint ft (rn_reply b) (rn_results b)"

definition stuck :: "(64 word \<Rightarrow> string) \<Rightarrow> run_turn list \<Rightarrow> bool" where
  "stuck ft ts \<longleftrightarrow> (\<exists>us a b c. ts = us @ [a, b, c] \<and> repeats_turn ft a b \<and> repeats_turn ft b c)"

text \<open>The number of turns at the end, the last one first, that repeat each other.\<close>

fun streak :: "(64 word \<Rightarrow> string) \<Rightarrow> run_turn list \<Rightarrow> nat" where
  "streak ft [] = 0"
| "streak ft [c] = (if rn_continues c then 1 else 0)"
| "streak ft (c # b # ts) = (if repeats_turn ft b c then Suc (streak ft (b # ts)) else if rn_continues c then 1 else 0)"

lemma streak_positive: "rn_continues c \<Longrightarrow> 1 \<le> streak ft (c # ts)"
  by (cases ts) auto

lemma streak_stuck: "3 \<le> streak ft ts \<longleftrightarrow> stuck ft (rev ts)"
proof (cases "(ft, ts)" rule: streak.cases)
  case (3 ft' c b rest)
  show ?thesis
  proof (cases rest)
    case Nil
    then show ?thesis
      using 3 by (auto simp: stuck_def)
  next
    case (Cons a us)
    have "1 \<le> streak ft (a # us)" if "repeats_turn ft a b"
      using that by (intro streak_positive) (simp add: repeats_turn_def)
    then have "3 \<le> streak ft ts \<longleftrightarrow> repeats_turn ft a b \<and> repeats_turn ft b c"
      using 3 Cons by auto
    then show ?thesis
      using 3 Cons by (auto simp: stuck_def)
  qed
qed (auto simp: stuck_def)

text \<open>The guard counts the streak.\<close>

definition guard_counts :: "(64 word \<Rightarrow> string) \<Rightarrow> run_turn list \<Rightarrow> string option \<times> nat \<Rightarrow> bool" where
  "guard_counts ft ts g \<longleftrightarrow>
     g = (if ts \<noteq> [] \<and> rn_continues (last ts) then (Some (turn_print ft (last ts)), streak ft (rev ts)) else (None, 0))"

lemma guard_counts_after:
  assumes "guard_counts ft ts g"
  shows "guard_counts ft (ts @ [t]) (guard_after ft t g)"
proof (cases ts rule: rev_cases)
  case Nil
  then show ?thesis
    using assms by (auto simp: guard_counts_def guard_after_def)
next
  case (snoc us b)
  then show ?thesis
    using assms
    by (auto simp: guard_counts_def guard_after_def repeats_turn_def turn_print_def Let_def)
qed

lemma guard_counts_stuck: "guard_counts ft ts g \<Longrightarrow> 3 \<le> snd g \<longleftrightarrow> stuck ft ts"
proof -
  assume g: "guard_counts ft ts g"
  have "rn_continues (last ts)" if s: "stuck ft ts"
    using s by (auto simp: stuck_def repeats_turn_def)
  then show ?thesis
    using g streak_stuck [of ft "rev ts"] by (auto simp: guard_counts_def stuck_def)
qed

text \<open>Between two iterations no turn so far was stuck, and the guard has counted the last ones.\<close>

definition never_stuck :: "(64 word \<Rightarrow> string) \<Rightarrow> run_turn list \<Rightarrow> bool" where
  "never_stuck ft ts \<longleftrightarrow> (\<forall>k\<le>length ts. \<not> stuck ft (take k ts))"

lemma never_stuck_snoc: "never_stuck ft (ts @ [t]) \<longleftrightarrow> never_stuck ft ts \<and> \<not> stuck ft (ts @ [t])"
  by (auto simp: never_stuck_def le_Suc_eq)

lemma never_stuck_before: "never_stuck ft ts \<Longrightarrow> ts = us @ v # vs \<Longrightarrow> \<not> stuck ft us"
  by (auto simp: never_stuck_def dest: spec [of _ "length us"])

lemma never_stuck_earlier:
  assumes "never_stuck ft ts"
  shows "\<forall>us v vs. ts @ [t] = us @ v # vs \<longrightarrow> \<not> stuck ft us"
proof (intro allI impI)
  fix us v vs
  assume "ts @ [t] = us @ v # vs"
  then have "us = ts \<or> (\<exists>ws. ts = us @ v # ws)"
    by (cases vs rule: rev_cases) auto
  then show "\<not> stuck ft us"
    using assms never_stuck_before [OF assms] by (auto simp: never_stuck_def)
qed

definition guarded_so_far :: "'w runtime \<Rightarrow> agent_message list \<Rightarrow> run_turn list \<Rightarrow> 'w loop_state \<Rightarrow> bool" where
  "guarded_so_far rt new ts ls \<longleftrightarrow>
     lp_newMessages ls = new @ concat (map turn_messages ts)
     \<and> guard_counts (rt_floatText rt) ts (guard_state ls) \<and> never_stuck (rt_floatText rt) ts"

text \<open>The message of the guard ends the run exactly when the turns are stuck, and no sooner.\<close>

definition ends_stuck :: "run_turn list \<Rightarrow> agent_message list \<Rightarrow> 'w loop_config \<Rightarrow> js_number \<Rightarrow> bool" where
  "ends_stuck ts body cfg now \<longleftrightarrow>
     body = concat (map turn_messages ts)
       @ [AssistantMessage (noProgressStopMessage cfg (tool_calls_of (am_content (rn_reply (last ts)))) now)]"

definition guard_outcome :: "'w runtime \<Rightarrow> agent_message list \<Rightarrow> run_turn list \<Rightarrow> agent_message list \<Rightarrow> bool" where
  "guard_outcome rt new ts ms \<longleftrightarrow>
     (\<forall>us v vs. ts = us @ v # vs \<longrightarrow> \<not> stuck (rt_floatText rt) us)
     \<and> (\<exists>body. ms = new @ body \<and> (stuck (rt_floatText rt) ts \<longleftrightarrow> (\<exists>(cfg :: 'w loop_config) now. ends_stuck ts body cfg now)))"

lemma guard_outcome_stuck:
  fixes rt :: "'w runtime" and cfg :: "'w loop_config"
  assumes "never_stuck (rt_floatText rt) ts" and "stuck (rt_floatText rt) (ts @ [t])" and "ends_stuck (ts @ [t]) body cfg now"
  shows "guard_outcome rt new (ts @ [t]) (new @ body)"
  unfolding guard_outcome_def
proof (intro conjI exI)
  show "\<forall>us v vs. ts @ [t] = us @ v # vs \<longrightarrow> \<not> stuck (rt_floatText rt) us"
    by (rule never_stuck_earlier [OF assms(1)])
  show "stuck (rt_floatText rt) (ts @ [t]) \<longleftrightarrow> (\<exists>(cfg :: 'w loop_config) now. ends_stuck (ts @ [t]) body cfg now)"
    using assms(2,3) by (simp only: simp_thms) (intro exI)
qed simp

lemma guard_outcome_free:
  fixes rt :: "'w runtime"
  assumes "\<forall>us v vs. ts = us @ v # vs \<longrightarrow> \<not> stuck (rt_floatText rt) us" and "\<not> stuck (rt_floatText rt) ts"
    and "\<And>(cfg :: 'w loop_config) now. \<not> ends_stuck ts body cfg now"
  shows "guard_outcome rt new ts (new @ body)"
  unfolding guard_outcome_def using assms by (intro conjI exI [of _ body]) simp_all

lemma not_stuck_failed: "\<not> rn_continues f \<Longrightarrow> \<not> stuck ft (ts @ [f])"
  by (auto simp: stuck_def repeats_turn_def)

lemma ends_stuck_failed:
  assumes "failed_message (rn_reply f)" and "response_part full (rn_reply f) (rn_results f) part"
  shows "\<not> ends_stuck (ts @ [f]) (concat (map turn_messages ts) @ rn_injected f @ part @ [AssistantMessage (rn_reply f)]) cfg now"
  using assms by (auto simp: ends_stuck_def turn_messages_def response_part_def)

lemma iterated_guard:
  fixes rt :: "'w runtime"
  assumes "iterated rt L ls ts r s" and "guarded_so_far rt new ts ls"
  shows "case r of
      Inl ls' \<Rightarrow> \<exists>ts'. tracked L (lp_pending ls', False, ts') s \<and> guarded_so_far rt new ts' ls'
    | Inr ms \<Rightarrow> \<exists>ts'. tracked L ([], False, ts') s \<and> guard_outcome rt new ts' ms"
proof -
  let ?ft = "rt_floatText rt"
  have g: "guard_counts ?ft ts (guard_state ls)" and never: "never_stuck ?ft ts"
    and new: "lp_newMessages ls = new @ concat (map turn_messages ts)"
    using assms(2) by (auto simp: guarded_so_far_def)
  have same: "\<not> ends_stuck ts (concat (map turn_messages ts)) cfg now" for ts and cfg :: "'w loop_config" and now
    by (simp add: ends_stuck_def)
  show ?thesis
    using assms(1) unfolding iterated_def
  proof (elim disjE exE conjE)
    fix t
    assume a: "after_turn L ts t (guard_after ?ft t (guard_state ls)) (lp_newMessages ls @ turn_messages t) r s"
    note g' = guard_counts_after [OF g, of t]
    have st: "3 \<le> snd (guard_after ?ft t (guard_state ls)) \<longleftrightarrow> stuck ?ft (ts @ [t])"
      by (rule guard_counts_stuck [OF g'])
    have turns: "lp_newMessages ls @ turn_messages t = new @ concat (map turn_messages (ts @ [t]))"
      using new by simp
    show ?thesis
    proof (cases r)
      case (Inl ls')
      then have "guarded_so_far rt new (ts @ [t]) ls'"
        using a turns g' st never by (auto simp: after_turn_def guarded_so_far_def never_stuck_snoc)
      then show ?thesis
        using a Inl by (auto simp: after_turn_def)
    next
      case (Inr ms)
      have "guard_outcome rt new (ts @ [t]) ms"
      proof (cases "stuck ?ft (ts @ [t])")
        case True
        then obtain cfg :: "'w loop_config" and now where
          "ms = new @ concat (map turn_messages (ts @ [t])) @ [AssistantMessage (noProgressStopMessage cfg (tool_calls_of (am_content (rn_reply t))) now)]"
          using a Inr st turns by (auto simp: after_turn_def)
        then show ?thesis
          using guard_outcome_stuck [OF never True, of "concat (map turn_messages (ts @ [t]))
            @ [AssistantMessage (noProgressStopMessage cfg (tool_calls_of (am_content (rn_reply t))) now)]" cfg now new]
          by (simp add: ends_stuck_def)
      next
        case False
        then have "ms = new @ concat (map turn_messages (ts @ [t]))"
          using a Inr st turns by (auto simp: after_turn_def)
        then show ?thesis
          using guard_outcome_free [OF never_stuck_earlier [OF never] False same] by simp
      qed
      then show ?thesis
        using a Inr by (auto simp: after_turn_def)
    qed
  next
    assume "failed_turn (never_aborted rt) L ts (lp_newMessages ls) r s"
    then obtain f part where f: "r = Inr (lp_newMessages ls @ rn_injected f @ part @ [AssistantMessage (rn_reply f)])"
        "failed_message (rn_reply f)" "response_part (never_aborted rt) (rn_reply f) (rn_results f) part"
        "\<not> rn_continues f" "tracked L ([], False, ts @ [f]) s"
      by (auto simp: failed_turn_def)
    have "guard_outcome rt new (ts @ [f]) (new @ (concat (map turn_messages ts) @ rn_injected f @ part @ [AssistantMessage (rn_reply f)]))"
      by (rule guard_outcome_free [OF never_stuck_earlier [OF never] not_stuck_failed [OF f(4)] ends_stuck_failed [OF f(2,3)]])
    then show ?thesis
      using f(1,5) new by auto
  next
    assume n: "no_turn L ls ts r s"
    show ?thesis
    proof (cases r)
      case (Inl ls')
      then show ?thesis
        using n assms(2) by (auto simp: no_turn_def same_run_def guarded_so_far_def)
    next
      case (Inr ms)
      have "\<not> stuck ?ft ts"
        using never by (auto simp: never_stuck_def)
      moreover have "\<forall>us v vs. ts = us @ v # vs \<longrightarrow> \<not> stuck ?ft us"
        using never_stuck_before [OF never] by blast
      ultimately have "guard_outcome rt new ts (new @ concat (map turn_messages ts))"
        using guard_outcome_free same by blast
      then show ?thesis
        using n Inr new by (auto simp: no_turn_def)
    qed
  qed
qed

lemma iterate_guard:
  assumes "iterate rt sf ls s = Some (Inr ms, t)" and "tracked L (lp_pending ls, False, []) s" and "guard_state ls = (None, 0)"
  shows "\<exists>ts. tracked L ([], False, ts) t \<and> guard_outcome rt (lp_newMessages ls) ts ms"
proof -
  let ?I = "\<lambda>l s. \<exists>ts. tracked L (lp_pending l, False, ts) s \<and> guarded_so_far rt (lp_newMessages ls) ts l"
  let ?Q = "\<lambda>ms t. \<exists>ts. tracked L ([], False, ts) t \<and> guard_outcome rt (lp_newMessages ls) ts ms"
  have step: "case r of Inl l' \<Rightarrow> ?I l' s' | Inr ms \<Rightarrow> ?Q ms s'"
    if I: "?I l s" and r: "run (iteration rt sf l) s = (Inr r, s')" for l s r s'
  proof -
    obtain ts where ts: "tracked L (lp_pending l, False, ts) s" "guarded_so_far rt (lp_newMessages ls) ts l"
      using I by blast
    show ?thesis
      using iterated_guard [OF tripleD [OF triple_iteration_marks ts(1) r] ts(2)] by (cases r) auto
  qed
  have "case_sum (\<lambda>e. True) (\<lambda>ms. ?Q ms t) (Inr ms :: thrown + agent_message list)"
    using assms(1)
  proof (rule iterate_induct [where I = ?I and Q = "\<lambda>r t. case_sum (\<lambda>e. True) (\<lambda>ms. ?Q ms t) r"])
    have "\<not> stuck (rt_floatText rt) []"
      by (simp add: stuck_def)
    then have "guarded_so_far rt (lp_newMessages ls) [] ls"
      using assms(3) by (simp add: guarded_so_far_def guard_counts_def never_stuck_def)
    then show "?I ls s"
      using assms(2) by blast
  qed (use step in force)+
  then show ?thesis by simp
qed

text \<open>C34: The no-progress guard, over a whole run that returns. The turns are those that the log tells apart;
  one repeats the one before it when the tools of both let the run go on, no message was injected
  between them and they have the same fingerprint. The run never makes a further turn after three
  consecutive turns that repeat each other; and the guard ends the run with its message exactly when
  the last three turns of the run repeat each other. A message injected in between starts the count
  anew.\<close>

theorem no_progress_guard:
  fixes rt :: "'w runtime"
  assumes "runAgentLoop rt sf prompts cx cfg s = Some (Inr ms, t)" and "st_log t = st_log s @ xs"
  shows "(\<forall>us v vs. run_turns xs = us @ v # vs \<longrightarrow> \<not> stuck (rt_floatText rt) us)
    \<and> (stuck (rt_floatText rt) (run_turns xs) \<longleftrightarrow>
        (\<exists>(cfg' :: 'w loop_config) now. ms = prompts @ concat (map turn_messages (run_turns xs))
           @ [AssistantMessage (noProgressStopMessage cfg' (tool_calls_of (am_content (rn_reply (last (run_turns xs))))) now)]))"
proof -
  obtain prompt u where u: "run (await (emit rt AgentStart) (\<lambda>_. await (emit rt TurnStart) (\<lambda>_.
        await (for_each (announce rt) prompts) (\<lambda>_. resolveSystemPrompt (cx_systemPrompt cx) cfg)))) s = (Inr prompt, u)"
      "runLoop rt sf (cx\<lparr>cx_messages := cx_messages cx @ prompts, cx_systemPrompt := prompt\<rparr>) prompts cfg None u = Some (Inr ms, t)"
    by (rule and_then_Some [OF assms(1) [unfolded runAgentLoop_def]])
  have "tracked (st_log s) ([], False, []) s"
    by (simp add: tracked_def read_marks_def)
  note tr = tripleD [OF run_prelude this u(1)]
  show ?thesis
    using u(2)
  proof (cases rule: runLoop_cases)
    case (Iterate pending w)
    let ?ls = "initial_state (cx\<lparr>cx_messages := cx_messages cx @ prompts, cx_systemPrompt := prompt\<rparr>) prompts cfg None pending"
    from tracked_log [OF tr Iterate(1)] have "tracked (st_log s) (lp_pending ?ls, False, []) w"
      by (simp add: initial_state_def)
    moreover have "guard_state ?ls = (None, 0)"
      by (simp add: guard_state_def initial_state_def)
    ultimately obtain ts where ts: "tracked (st_log s) ([], False, ts) t" "guard_outcome rt prompts ts ms"
      using iterate_guard [OF Iterate(2)] by auto
    have "run_turns xs = ts"
      using ts(1) assms(2) by (auto simp: tracked_def run_turns_def)
    then show ?thesis
      using ts(2) by (auto simp: guard_outcome_def ends_stuck_def)
  qed simp
qed

text \<open>A provider whose every response is cut off in the same tool call.\<close>

definition cut_off_message :: assistant_message where
  "cut_off_message = sample_message SR_length [ToolCallBlock (sample_tool_call ''c'')]"

definition cut_off_stream :: "nat stream_fn" where
  "cut_off_stream model cx cfg = Return \<lparr>rp_events = [], rp_result = Return cut_off_message\<rparr>"

lemmas iteration_parts = iteration_def inner_iteration_def next_turn_def inject_pending_def bind_request_def take_response_def
  streamAssistantResponse_def buildProviderContext_def resolveSystemPrompt_def may_request_def cut_off_stream_def
  finish_response_def emit_def announce_def call_def poll_def run_await run_try_catch Let_def createStepSnapshot_def
  apply_update_def reportProviderResult_def reportExecution_def aborted_def split_response_def retained_blocks_def
  isRetryableAssistantError_def run_tools_def failToolCallsFromTruncatedMessage_def fail_truncated_call_def push_messages_def
  end_turn_def count_turn_def NO_PROGRESS_REPEAT_LIMIT_def emitToolExecutionStart_def emitToolExecutionEnd_def
  persistToolResult_def emitToolResultMessage_def stop_without_progress_def finish_run_def sample_message_def
  cut_off_message_def add_log_def

theorem no_progress_guard_witness:
  "\<exists>ms t. runAgentLoop (sample_runtime False) cut_off_stream [sample_prompt] sample_context sample_config sample_run_state
       = Some (Inr ms, t)
     \<and> (\<exists>(cfg' :: nat loop_config) now. ms = sample_prompt # concat (map turn_messages (run_turns (st_log t)))
           @ [AssistantMessage (noProgressStopMessage cfg' (tool_calls_of (am_content (rn_reply (last (run_turns (st_log t)))))) now)])"
proof -
  let ?run = "runAgentLoop (sample_runtime False) cut_off_stream [sample_prompt] sample_context sample_config sample_run_state"
  have "case ?run of Some (Inr ms, t) \<Rightarrow> 3 \<le> streak sample_float_text (rev (run_turns (st_log t))) | _ \<Rightarrow> False"
    apply (simp add: runAgentLoop_def runLoop_def iteration_parts sample_runtime_def sample_config_def sample_context_def
        sample_run_state_def)
    apply (subst iterate.simps, simp add: iteration_parts)+
    apply (simp add: run_turns_def read_marks_def repeats_turn_def)
    done
  then obtain ms t where r: "?run = Some (Inr ms, t)" and "3 \<le> streak sample_float_text (rev (run_turns (st_log t)))"
    by (auto split: option.splits prod.splits sum.splits)
  then have "stuck (rt_floatText (sample_runtime False)) (run_turns (st_log t))"
    by (simp add: streak_stuck sample_runtime_def)
  then show ?thesis
    using no_progress_guard [OF r, of "st_log t"] r by (simp add: sample_run_state_def)
qed

end
