(* ===== verification/AgentResume.thy ===== *)
theory AgentResume
  imports AgentGuards
begin

text \<open>
  Resuming the tools of a persisted response (\<open>runAgentLoopResumeTools\<close>): the calls that have a
  result are not executed again, their results stay as they were, and the results of all calls
  stand in the order of the calls.
\<close>

section \<open>The results in order\<close>

lemma map_of_update_all:
  "map_of (foldl (\<lambda>m r. AList.update (f r) r m) M rs) = foldl (\<lambda>g r. g(f r \<mapsto> r)) (map_of M) rs"
  by (induction rs arbitrary: M) (simp_all add: update_conv')

lemma update_all_notin: "k \<notin> f ` set rs \<Longrightarrow> foldl (\<lambda>g r. g(f r \<mapsto> r)) M rs k = M k"
  by (induction rs arbitrary: M) auto

lemma update_all_in: "k \<in> f ` set rs \<Longrightarrow> \<exists>r\<in>set rs. f r = k \<and> foldl (\<lambda>g r. g(f r \<mapsto> r)) M rs k = Some r"
proof (induction rs arbitrary: M)
  case (Cons r rs)
  show ?case
  proof (cases "k \<in> f ` set rs")
    case True
    then show ?thesis
      using Cons.IH [of "M(f r \<mapsto> r)"] by (auto simp del: fun_upd_apply)
  next
    case False
    then have "f r = k"
      using Cons.prems by auto
    then show ?thesis
      using update_all_notin [OF False, of "M(k \<mapsto> r)"] by (intro bexI [of _ r]) (simp_all del: fun_upd_apply, simp)
  qed
qed simp

lemma map_of_ids:
  "distinct (map tr_toolCallId results) \<Longrightarrow> r \<in> set results
   \<Longrightarrow> map_of (map (\<lambda>r. (tr_toolCallId r, r)) results) (tr_toolCallId r) = Some r"
  by (induction results) (auto simp: image_iff)

text \<open>The entry of a call among the completed results.\<close>

definition recovered_entry :: "tool_result_message list \<Rightarrow> tool_result_message list \<Rightarrow> tool_call \<Rightarrow> tool_result_message option" where
  "recovered_entry results batch tc =
     map_of (foldl (\<lambda>m r. AList.update (tr_toolCallId r) r m) (map (\<lambda>r. (tr_toolCallId r, r)) results) batch) (tc_id tc)"

lemma ordered_results_entries:
  "ordered_results am results batch = List.map_filter (recovered_entry results batch) (tool_calls_of (am_content am))"
  by (simp add: ordered_results_def recovered_entry_def [abs_def])

lemma recovered_entry_batch:
  assumes "tc_id tc \<in> tr_toolCallId ` set batch"
  shows "\<exists>r\<in>set batch. tr_toolCallId r = tc_id tc \<and> recovered_entry results batch tc = Some r"
  unfolding recovered_entry_def map_of_update_all by (rule update_all_in [OF assms])

lemma recovered_entry_completed:
  assumes "tc_id tc \<notin> tr_toolCallId ` set batch"
  shows "recovered_entry results batch tc = map_of (map (\<lambda>r. (tr_toolCallId r, r)) results) (tc_id tc)"
  unfolding recovered_entry_def map_of_update_all by (rule update_all_notin [OF assms])

lemma resume_check_ok:
  assumes "resume_check i am results = Inr u"
  shows "distinct (map tc_id (tool_calls_of (am_content am)))" and "distinct (map tr_toolCallId results)"
    and "r \<in> set results \<Longrightarrow> \<exists>tc\<in>set (tool_calls_of (am_content am)). answers tc r"
  using assms by (auto simp: resume_check_def Let_def answers_def list_ex_iff split: if_splits) metis+

lemma answered_member:
  assumes "answered answers full tcs rs" and "r \<in> set rs"
  shows "\<exists>tc\<in>set tcs. answers tc r"
proof -
  obtain j where j: "j < length rs" "r = rs ! j"
    using assms(2) by (auto simp: in_set_conv_nth)
  have l: "list_all2 answers (take (length rs) tcs) rs"
    using assms(1) by (simp add: answered_def)
  have "answers (take (length rs) tcs ! j) r"
    using list_all2_nthD2 [OF l, of j] j by simp
  moreover have "take (length rs) tcs ! j \<in> set tcs"
    using j assms(1) by (auto simp: answered_def)
  ultimately show ?thesis by blast
qed

lemma id_unique: "distinct (map tc_id tcs) \<Longrightarrow> tc \<in> set tcs \<Longrightarrow> tc' \<in> set tcs \<Longrightarrow> tc_id tc = tc_id tc' \<Longrightarrow> tc = tc'"
  by (auto simp: distinct_map dest: inj_onD)

lemma entry_answers:
  assumes "resume_check i am results = Inr u"
    and "answered answers full (unresolved_calls am results) batch"
    and "tc \<in> set (tool_calls_of (am_content am))" and "recovered_entry results batch tc = Some r"
  shows "answers tc r"
proof (cases "tc_id tc \<in> tr_toolCallId ` set batch")
  case True
  then obtain r' where r': "r' \<in> set batch" "recovered_entry results batch tc = Some r'" "tr_toolCallId r' = tc_id tc"
    using recovered_entry_batch by blast
  obtain tc' where "tc' \<in> set (unresolved_calls am results)" "answers tc' r'"
    using answered_member [OF assms(2) r'(1)] by blast
  then show ?thesis
    using id_unique [OF resume_check_ok(1) [OF assms(1)] assms(3), of tc'] assms(4) r'
    by (auto simp: answers_def unresolved_calls_def)
next
  case False
  then have "r \<in> set results" "tr_toolCallId r = tc_id tc"
    using assms(4) map_of_SomeD by (fastforce simp: recovered_entry_completed)+
  then obtain tc' where "tc' \<in> set (tool_calls_of (am_content am))" "answers tc' r"
    using resume_check_ok(3) [OF assms(1)] by blast
  then show ?thesis
    using id_unique [OF resume_check_ok(1) [OF assms(1)] assms(3), of tc'] \<open>tr_toolCallId r = tc_id tc\<close>
    by (auto simp: answers_def)
qed

lemma batch_avoids_completed:
  assumes "answered answers full (unresolved_calls am results) batch" and "r \<in> set results"
  shows "tr_toolCallId r \<notin> tr_toolCallId ` set batch"
proof
  assume "tr_toolCallId r \<in> tr_toolCallId ` set batch"
  then obtain b where b: "b \<in> set batch" "tr_toolCallId b = tr_toolCallId r" by auto
  obtain tc where "tc \<in> set (unresolved_calls am results)" "answers tc b"
    using answered_member [OF assms(1) b(1)] by blast
  then show False
    using b(2) assms(2) by (auto simp: answers_def unresolved_calls_def image_iff)
qed

lemma entry_exists:
  assumes "answered answers True (unresolved_calls am results) batch"
    and "tc \<in> set (tool_calls_of (am_content am))"
  shows "recovered_entry results batch tc \<noteq> None"
proof (cases "tc_id tc \<in> tr_toolCallId ` set batch")
  case True
  then show ?thesis
    using recovered_entry_batch by fastforce
next
  case False
  have l: "list_all2 answers (unresolved_calls am results) batch"
    using assms(1) by (simp add: answered_full)
  have "tc \<notin> set (unresolved_calls am results)"
  proof
    assume "tc \<in> set (unresolved_calls am results)"
    then obtain j where "j < length batch" "answers tc (batch ! j)"
      using l by (auto simp: in_set_conv_nth list_all2_conv_all_nth)
    then have "tc_id tc \<in> tr_toolCallId ` set batch"
      by (metis answers_def image_eqI nth_mem)
    then show False
      using False by simp
  qed
  then have "tc_id tc \<in> set (map tr_toolCallId results)"
    using assms(2) by (simp add: unresolved_calls_def)
  then show ?thesis
    using False by (auto simp: recovered_entry_completed map_of_eq_None_iff image_image)
qed

lemma map_filter_all: "\<forall>x\<in>set xs. \<exists>y. f x = Some y \<and> P x y \<Longrightarrow> list_all2 P xs (List.map_filter f xs)"
  by (induction xs) (auto simp: map_filter_simps)

lemma map_filter_set: "set (List.map_filter f xs) = {y. \<exists>x\<in>set xs. f x = Some y}"
  by (induction xs) (auto simp: map_filter_simps split: option.splits)

section \<open>Resuming\<close>

lemma returns_resume_tools:
  "returns (\<lambda>r. \<forall>tn. r = ResumeGoesOn tn \<longrightarrow> (\<exists>u batch. resume_check i am results = Inr u
      \<and> answered answers (never_aborted rt) (unresolved_calls am results) batch
      \<and> tn_toolResults tn = ordered_results am results batch
      \<and> cx_messages (tn_context tn) = take (the i + 1) (cx_messages cx) @ map ToolResultMessage (tn_toolResults tn)))
    (resume_tools rt i cx am results cfg)"
proof (cases "resume_check i am results")
  case (Inr u)
  have batch: "returns (\<lambda>b. answered answers (never_aborted rt) (unresolved_calls am results) (tb_messages b))
      (executeToolCalls rt cfg cx am (Some (unresolved_calls am results)))"
    using returns_executeToolCalls [of rt am "Some (unresolved_calls am results)" cfg cx] by (simp add: requested_calls_def)
  show ?thesis
    unfolding resume_tools_def Inr sum.case Let_def
    by (rule returns_await_any, rule returns_await_any, rule returns_await [OF batch]) (auto intro!: returns_await_any)
qed (simp add: resume_tools_def)

lemma writes_resume_tools:
  "writes st_log (range Emitted \<union> batch_items (unresolved_calls am results)) (resume_tools rt i cx am results cfg)"
proof -
  have "writes st_log (range Emitted \<union> batch_items (unresolved_calls am results))
      (executeToolCalls rt cfg cx am (Some (unresolved_calls am results)))"
    by (rule writes_mono [OF writes_batch]) (auto simp: requested_calls_def)
  then show ?thesis
    unfolding resume_tools_def Let_def by (auto intro!: writes_intros split: sum.splits)
qed

text \<open>C35: When the resume of a persisted response goes on, it has executed only the calls without a result. The
  results that were there stay unchanged among the results of the turn, which answer all calls in order
  when the signal is never aborted, and the transcript ends with them; no tool was started for a call
  that had a result.\<close>

theorem resumed_calls_complete:
  assumes "run (resume_tools rt i cx am results cfg) s = (Inr (ResumeGoesOn tn), t)"
  shows "set results \<subseteq> set (tn_toolResults tn)
    \<and> (never_aborted rt \<longrightarrow> list_all2 answers (tool_calls_of (am_content am)) (tn_toolResults tn))
    \<and> cx_messages (tn_context tn) = take (the i + 1) (cx_messages cx) @ map ToolResultMessage (tn_toolResults tn)
    \<and> (\<exists>xs. st_log t = st_log s @ xs \<and> (\<forall>r\<in>set results. \<forall>v. ToolInvoked (tr_toolCallId r) v \<notin> set xs))"
proof -
  let ?tcs = "tool_calls_of (am_content am)"
  obtain u batch where ok: "resume_check i am results = Inr u"
    and batch: "answered answers (never_aborted rt) (unresolved_calls am results) batch"
    and tn: "tn_toolResults tn = ordered_results am results batch"
      "cx_messages (tn_context tn) = take (the i + 1) (cx_messages cx) @ map ToolResultMessage (tn_toolResults tn)"
    using returns_run [OF returns_resume_tools assms] by blast
  have "r \<in> set (tn_toolResults tn)" if r: "r \<in> set results" for r
  proof -
    obtain tc where tc: "tc \<in> set ?tcs" "answers tc r"
      using resume_check_ok(3) [OF ok r] by blast
    then have id: "tc_id tc = tr_toolCallId r"
      by (simp add: answers_def)
    have "recovered_entry results batch tc = Some r"
      using batch_avoids_completed [OF batch r] map_of_ids [OF resume_check_ok(2) [OF ok] r]
      by (simp add: recovered_entry_completed id)
    then show ?thesis
      using tc(1) by (auto simp: tn(1) ordered_results_entries map_filter_set)
  qed
  moreover have "list_all2 answers ?tcs (tn_toolResults tn)" if full: "never_aborted rt"
    unfolding tn(1) ordered_results_entries
  proof (rule map_filter_all, rule ballI)
    fix tc
    assume tc: "tc \<in> set ?tcs"
    then obtain r where "recovered_entry results batch tc = Some r"
      using entry_exists [OF _ tc, of results batch] batch full by auto
    then show "\<exists>r. recovered_entry results batch tc = Some r \<and> answers tc r"
      using entry_answers [OF ok batch tc] by blast
  qed
  moreover have "\<exists>xs. st_log t = st_log s @ xs \<and> (\<forall>r\<in>set results. \<forall>v. ToolInvoked (tr_toolCallId r) v \<notin> set xs)"
  proof -
    obtain xs where xs: "st_log t = st_log s @ xs" "set xs \<subseteq> range Emitted \<union> batch_items (unresolved_calls am results)"
      using writes_run [OF writes_resume_tools [of am results rt i cx cfg], of s] assms by auto
    have "ToolInvoked (tr_toolCallId r) v \<notin> batch_items (unresolved_calls am results)" if "r \<in> set results" for r v
      using that by (auto simp: batch_items_def unresolved_calls_def image_iff) metis
    then show ?thesis
      using xs by blast
  qed
  ultimately show ?thesis
    using tn(2) by blast
qed

definition sample_results :: "tool_result_message list" where
  "sample_results = [\<lparr>tr_toolCallId = ''b'', tr_toolName = ''ls'', tr_content = [], tr_isError = False, tr_usage = None,
     tr_timestamp = JInt 0, tr_extra = []\<rparr>, \<lparr>tr_toolCallId = ''a'', tr_toolName = ''ls'', tr_content = [], tr_isError = False,
     tr_usage = None, tr_timestamp = JInt 0, tr_extra = []\<rparr>]"

definition sample_batch :: assistant_message where
  "sample_batch = sample_message SR_toolUse [ToolCallBlock (sample_tool_call ''a''), ToolCallBlock (sample_tool_call ''b'')]"

theorem resumed_calls_complete_witness:
  "\<exists>tn t. run (resume_tools (sample_runtime False) (Some 0) (sample_context\<lparr>cx_messages := [AssistantMessage sample_batch]\<rparr>)
        sample_batch sample_results sample_config) sample_run_state = (Inr (ResumeGoesOn tn), t)
     \<and> list_all2 answers [sample_tool_call ''a'', sample_tool_call ''b''] (tn_toolResults tn)
     \<and> set sample_results \<subseteq> set (tn_toolResults tn)"
proof -
  let ?p = "resume_tools (sample_runtime False) (Some 0) (sample_context\<lparr>cx_messages := [AssistantMessage sample_batch]\<rparr>)
        sample_batch sample_results sample_config"
  have "case run ?p sample_run_state of (Inr (ResumeGoesOn tn), t) \<Rightarrow> True | _ \<Rightarrow> False"
    by code_simp
  then obtain tn t where r: "run ?p sample_run_state = (Inr (ResumeGoesOn tn), t)"
    by (auto split: prod.splits sum.splits resumed.splits)
  have "never_aborted (sample_runtime False)"
    by (simp add: never_aborted_def sample_runtime_def)
  then show ?thesis
    using resumed_calls_complete [OF r] r by (auto simp: sample_batch_def sample_message_def)
qed

end
