(* ===== verification/EditText.thy ===== *)
theory EditText
  imports Complex_Main TruncateCorrect NumberText "HOL-Library.Sublist" "HOL-Library.AList"
begin

text \<open>
  The services of the runtime that the edit tool (\<open>packages/agent/src/harness/tools/edit-diff.ts\<close>)
  relies on: searching and splitting strings, trimming, and the arithmetic of doubles on the small
  positive fractions that serve as similarities. Strings are sequences of UTF-16 code units.
\<close>

section \<open>Searching\<close>

text \<open>\<open>content.indexOf(pattern, from)\<close>: the start is clamped to the length of the content, and an empty
  pattern is found there.\<close>

fun search_text :: "js_string \<Rightarrow> js_string \<Rightarrow> nat \<Rightarrow> nat option" where
  "search_text pat [] i = (if pat = [] then Some i else None)"
| "search_text pat (u # us) i = (if prefix pat (u # us) then Some i else search_text pat us (i + 1))"

definition index_of :: "js_string \<Rightarrow> js_string \<Rightarrow> nat \<Rightarrow> nat option" where
  "index_of content pat start =
     (let k = min start (length content) in search_text pat (drop k content) k)"

text \<open>An occurrence of a text at a position.\<close>

definition occurs_at :: "js_string \<Rightarrow> js_string \<Rightarrow> nat \<Rightarrow> bool" where
  "occurs_at content pat i \<longleftrightarrow> i \<le> length content \<and> prefix pat (drop i content)"

lemma search_text_Some:
  "search_text pat t i = Some k \<Longrightarrow>
     \<exists>d\<le>length t. k = i + d \<and> prefix pat (drop d t) \<and> (\<forall>e<d. \<not> prefix pat (drop e t))"
proof (induction t arbitrary: i)
  case Nil
  then show ?case by (simp split: if_splits)
next
  case (Cons u us)
  show ?case
  proof (cases "prefix pat (u # us)")
    case True
    with Cons.prems show ?thesis by (intro exI [of _ 0]) simp
  next
    case False
    with Cons.prems Cons.IH [of "i + 1"] obtain d where d: "d \<le> length us" "k = i + 1 + d" "prefix pat (drop d us)"
        "\<forall>e<d. \<not> prefix pat (drop e us)"
      by auto
    with False have "\<forall>e<Suc d. \<not> prefix pat (drop e (u # us))"
      by (simp add: All_less_Suc2)
    with d show ?thesis by (intro exI [of _ "Suc d"]) simp
  qed
qed

lemma search_text_None: "search_text pat t i = None \<Longrightarrow> d \<le> length t \<Longrightarrow> \<not> prefix pat (drop d t)"
proof (induction t arbitrary: i d)
  case Nil
  then show ?case by (simp split: if_splits)
next
  case (Cons u us)
  then have "\<not> prefix pat (u # us)" "search_text pat us (i + 1) = None"
    by (simp_all split: if_splits)
  with Cons show ?case by (cases d) simp_all
qed

text \<open>The result is the first occurrence from the start on.\<close>

lemma index_of_Some:
  assumes "index_of content pat start = Some k"
  shows "min start (length content) \<le> k" and "occurs_at content pat k"
    and "min start (length content) \<le> j \<Longrightarrow> j < k \<Longrightarrow> \<not> occurs_at content pat j"
proof -
  let ?s = "min start (length content)"
  obtain d where d: "d \<le> length content - ?s" "k = ?s + d" "prefix pat (drop d (drop ?s content))"
      "\<forall>e<d. \<not> prefix pat (drop e (drop ?s content))"
    using search_text_Some assms by (fastforce simp: index_of_def Let_def)
  then show "?s \<le> k" "occurs_at content pat k"
    by (auto simp: occurs_at_def ac_simps)
  show "\<not> occurs_at content pat j" if "?s \<le> j" "j < k"
    using d(2) d(4) [rule_format, of "j - ?s"] that by (simp add: occurs_at_def)
qed

lemma index_of_None:
  assumes "index_of content pat start = None" and "min start (length content) \<le> j"
  shows "\<not> occurs_at content pat j"
proof
  assume "occurs_at content pat j"
  then have "prefix pat (drop (j - min start (length content)) (drop (min start (length content)) content))" "j \<le> length content"
    using assms(2) by (simp_all add: occurs_at_def)
  then show False
    using search_text_None [of pat "drop (min start (length content)) content" "min start (length content)" "j - min start (length content)"] assms
    by (simp add: index_of_def Let_def diff_le_mono)
qed

lemma occurs_at_length: "occurs_at content pat k \<Longrightarrow> k + length pat \<le> length content"
  using prefix_length_le by (fastforce simp: occurs_at_def)

lemma occurs_at_append: "occurs_at content pat k \<longleftrightarrow> (\<exists>rest. content = take k content @ pat @ rest \<and> k \<le> length content)"
  by (metis append_eq_conv_conj append_take_drop_id occurs_at_def prefix_def prefixI length_take min.absorb2)

lemma index_of_bounds:
  assumes "index_of content pat start = Some k" and "pat \<noteq> []"
  shows "start \<le> k" and "k + length pat \<le> length content"
proof -
  show "k + length pat \<le> length content"
    using index_of_Some(2) [OF assms(1)] by (rule occurs_at_length)
  moreover from assms(2) have "0 < length pat"
    by simp
  ultimately show "start \<le> k"
    using index_of_Some(1) [OF assms(1)] by linarith
qed

text \<open>\<open>content.split(pattern)\<close>.\<close>

function split_text :: "js_string \<Rightarrow> js_string \<Rightarrow> js_string list" where
  "split_text pat content =
     (if pat = [] then map (\<lambda>u. [u]) content
      else if prefix pat content then [] # split_text pat (drop (length pat) content)
      else (case content of
              [] \<Rightarrow> [[]]
            | u # us \<Rightarrow> (case split_text pat us of [] \<Rightarrow> [[u]] | l # ls \<Rightarrow> (u # l) # ls)))"
  by auto
termination
  by (relation "measure (\<lambda>(pat, content). length content)") (auto simp: prefix_def)

declare split_text.simps [simp del]

section \<open>White space\<close>

text \<open>White space and line terminators of the language.\<close>

definition js_space :: "16 word \<Rightarrow> bool" where
  "js_space u \<longleftrightarrow>
     9 \<le> u \<and> u \<le> 13 \<or> u = 32 \<or> u = 0xA0 \<or> u = 0x1680 \<or> 0x2000 \<le> u \<and> u \<le> 0x200A
     \<or> u = 0x2028 \<or> u = 0x2029 \<or> u = 0x202F \<or> u = 0x205F \<or> u = 0x3000 \<or> u = 0xFEFF"

definition trimEnd :: "js_string \<Rightarrow> js_string" where
  "trimEnd s = rev (dropWhile js_space (rev s))"

definition trim_text :: "js_string \<Rightarrow> js_string" where
  "trim_text s = trimEnd (dropWhile js_space s)"

definition padStart :: "nat \<Rightarrow> js_string \<Rightarrow> js_string" where
  "padStart n s = replicate (n - length s) 32 @ s"

definition number_units :: "nat \<Rightarrow> js_string" where
  "number_units n = ascii_text (nat_text n)"

text \<open>\<open>xs.join(", ")\<close> of numbers.\<close>

definition join_numbers :: "nat list \<Rightarrow> js_string" where
  "join_numbers ns = join_with (ascii_text '', '') (map number_units ns)"

section \<open>Doubles\<close>

text \<open>
  The double nearest to a fraction between \<open>2 ^ - 1022\<close> and \<open>2 ^ 53\<close>, ties to the even one, and zero.
  Every arithmetic operation of the similarities is exact arithmetic followed by this rounding.
\<close>

definition round_half_even :: "rat \<Rightarrow> int" where
  "round_half_even y =
     (let f = \<lfloor>y\<rfloor>; d = y - of_int f
      in if d < 1 / 2 then f else if 1 / 2 < d then f + 1 else if even f then f else f + 1)"

function binary_digits :: "int \<Rightarrow> nat" where
  "binary_digits n = (if n \<le> 0 then 0 else binary_digits (n div 2) + 1)"
  by auto
termination
  by (relation "measure nat") auto

declare binary_digits.simps [simp del]

definition binary_scale :: "rat \<Rightarrow> nat" where
  "binary_scale x =
     (let (p, q) = quotient_of x; k = 53 + binary_digits q - binary_digits p
      in if 2 ^ 53 \<le> x * 2 ^ k then k - 1 else k)"

definition to_double :: "rat \<Rightarrow> rat" where
  "to_double x =
     (if x = 0 then 0
      else let k = binary_scale x in of_int (round_half_even (x * 2 ^ k)) / 2 ^ k)"

text \<open>\<open>Math.round\<close>: the nearest integer, ties upwards.\<close>

definition math_round :: "rat \<Rightarrow> int" where
  "math_round x = \<lfloor>x + 1 / 2\<rfloor>"

end
