(* ===== verification/EditDiff.thy ===== *)
theory EditDiff
  imports EditText
begin

text \<open>
  The text matching and replacement of the edit tool
  (\<open>packages/agent/src/harness/tools/edit-diff.ts\<close>). \<open>String.prototype.normalize("NFKC")\<close> is the argument
  \<open>nfkc\<close>, and \<open>Diff.diffLines\<close> of the package \<open>diff\<close> the argument of \<open>generateDiffString\<close>. A function that
  may run forever returns an \<open>option\<close>, \<open>None\<close> for not returning; a function that may throw returns
  \<open>Err e\<close> or \<open>Ok x\<close>.
\<close>

section \<open>Line endings\<close>

datatype line_ending = CRLF | LF

definition carriage_return :: "16 word" where
  "carriage_return = 13"

definition detectLineEnding :: "js_string \<Rightarrow> line_ending" where
  "detectLineEnding content =
     (case index_of content [newline] 0 of
        None \<Rightarrow> LF
      | Some lf \<Rightarrow>
          (case index_of content [carriage_return, newline] 0 of
             None \<Rightarrow> LF
           | Some crlf \<Rightarrow> if crlf < lf then CRLF else LF))"

fun crlf_to_lf :: "js_string \<Rightarrow> js_string" where
  "crlf_to_lf (u # v # us) =
     (if u = carriage_return \<and> v = newline then newline # crlf_to_lf us else u # crlf_to_lf (v # us))"
| "crlf_to_lf us = us"

definition normalizeToLF :: "js_string \<Rightarrow> js_string" where
  "normalizeToLF text = map (\<lambda>u. if u = carriage_return then newline else u) (crlf_to_lf text)"

definition restoreLineEndings :: "js_string \<Rightarrow> line_ending \<Rightarrow> js_string" where
  "restoreLineEndings text ending =
     (if ending = CRLF then concat (map (\<lambda>u. if u = newline then [carriage_return, newline] else [u]) text) else text)"

definition byte_order_mark :: "16 word" where
  "byte_order_mark = 0xFEFF"

definition stripBom :: "js_string \<Rightarrow> js_string \<times> js_string" where
  "stripBom content =
     (if prefix [byte_order_mark] content then ([byte_order_mark], drop 1 content) else ([], content))"

section \<open>Matching with blank lines ignored\<close>

text \<open>
  The pattern \<open>\n(?:[\t ]*\n)*\<close>: what may follow after the line breaks it takes, the longest match first.
  The texts between the separators contain no line break; with the flag \<open>u\<close> they are matched as
  sequences of code points, so that no match begins or ends inside a surrogate pair.
\<close>

function blank_rests :: "('a \<Rightarrow> bool) \<Rightarrow> 'a \<Rightarrow> 'a list \<Rightarrow> 'a list list" where
  "blank_rests blank nl s =
     (case dropWhile blank s of
        [] \<Rightarrow> [s]
      | c # r \<Rightarrow> if c = nl then blank_rests blank nl r @ [s] else [s])"
  by auto
termination
proof (relation "measure (\<lambda>(b, n, s). length s)")
  fix blank :: "'a \<Rightarrow> bool" and nl s c r
  assume "dropWhile blank s = c # r"
  with length_dropWhile_le [of blank s] have "length r < length s"
    by simp
  then show "((blank, nl, r), blank, nl, s) \<in> measure (\<lambda>(b, n, s). length s)"
    by simp
qed simp

declare blank_rests.simps [simp del]

lemma blank_rests_suffix: "r \<in> set (blank_rests blank nl s) \<Longrightarrow> suffix r s"
proof (induction blank nl s rule: blank_rests.induct)
  case (1 blank nl s)
  show ?case
  proof (cases "\<exists>r'. dropWhile blank s = nl # r'")
    case True
    then obtain r' where drop: "dropWhile blank s = nl # r'"
      by blast
    have "suffix r' s"
      using suffix_dropWhile [of blank s] drop by (metis suffix_ConsD)
    with 1 drop show ?thesis
      by (subst (asm) (2) blank_rests.simps) (auto intro: suffix_order.trans)
  next
    case False
    with "1.prems" show ?thesis
      by (subst (asm) blank_rests.simps) (auto split: list.splits if_splits)
  qed
qed

lemma blank_rests_not_Nil [simp]: "blank_rests blank nl s \<noteq> []"
  by (subst blank_rests.simps) (auto split: list.split)

lemma length_hd_blank_rests: "length (hd (blank_rests blank nl s)) \<le> length s"
  using blank_rests_suffix [of "hd (blank_rests blank nl s)" blank nl s] by (simp add: suffix_length_le)

definition tab_or_space :: "16 word \<Rightarrow> bool" where
  "tab_or_space u \<longleftrightarrow> u = 9 \<or> u = 32"

function split_blank_lines :: "js_string \<Rightarrow> js_string list" where
  "split_blank_lines [] = [[]]"
| "split_blank_lines (u # us) =
     (if u = newline then [] # split_blank_lines (hd (blank_rests tab_or_space newline us))
      else (case split_blank_lines us of [] \<Rightarrow> [[u]] | l # ls \<Rightarrow> (u # l) # ls))"
  by pat_completeness auto
termination
  by (relation "measure length") (auto simp: le_imp_less_Suc length_hd_blank_rests)

fun characters :: "js_string \<Rightarrow> js_string list" where
  "characters (u # v # us) =
     (if is_high_surrogate u \<and> is_low_surrogate v then [u, v] # characters us else [u] # characters (v # us))"
| "characters us = map (\<lambda>u. [u]) us"

fun first_match :: "('a \<Rightarrow> 'b option) \<Rightarrow> 'a list \<Rightarrow> 'b option" where
  "first_match f [] = None"
| "first_match f (x # xs) = (case f x of Some y \<Rightarrow> Some y | None \<Rightarrow> first_match f xs)"

definition blank_character :: "js_string \<Rightarrow> bool" where
  "blank_character c \<longleftrightarrow> c = [9] \<or> c = [32]"

primrec match_segments :: "js_string list list \<Rightarrow> js_string list \<Rightarrow> js_string list option" where
  "match_segments [] = (\<lambda>cs. Some cs)"
| "match_segments (seg # segs) =
     (\<lambda>cs. if prefix seg cs
           then let rest = drop (length seg) cs
                in if segs = [] then Some rest
                   else (case rest of
                           [] \<Rightarrow> None
                         | c # r \<Rightarrow>
                             if c = [newline] then first_match (match_segments segs) (blank_rests blank_character [newline] r)
                             else None)
           else None)"

function regex_matches :: "js_string list list \<Rightarrow> js_string list \<Rightarrow> nat \<Rightarrow> (nat \<times> nat) list" where
  "regex_matches segs cs offset =
     (case match_segments segs cs of
        Some rest \<Rightarrow>
          let len = length (concat (take (length cs - length rest) cs))
          in (offset, len)
             # (if length rest < length cs then regex_matches segs rest (offset + len)
                else (case cs of [] \<Rightarrow> [] | c # cs' \<Rightarrow> regex_matches segs cs' (offset + length c)))
      | None \<Rightarrow> (case cs of [] \<Rightarrow> [] | c # cs' \<Rightarrow> regex_matches segs cs' (offset + length c)))"
  by auto
termination
  by (relation "measure (\<lambda>(segs, cs, offset). length cs)") auto

declare regex_matches.simps [simp del]

definition findBlankLineTolerantMatches :: "js_string \<Rightarrow> js_string \<Rightarrow> (nat \<times> nat) list" where
  "findBlankLineTolerantMatches content oldText =
     (if newline \<notin> set oldText then []
      else regex_matches (map characters (split_blank_lines oldText)) (characters content) 0)"

section \<open>Normalization\<close>

definition fold_unit :: "16 word \<Rightarrow> 16 word" where
  "fold_unit u =
     (if 0x2018 \<le> u \<and> u \<le> 0x201B then 39
      else if 0x201C \<le> u \<and> u \<le> 0x201F then 34
      else if 0x2010 \<le> u \<and> u \<le> 0x2015 \<or> u = 0x2212 then 45
      else if u = 0xA0 \<or> 0x2002 \<le> u \<and> u \<le> 0x200A \<or> u = 0x202F \<or> u = 0x205F \<or> u = 0x3000 then 32
      else u)"

definition normalizeForFuzzyMatch :: "(js_string \<Rightarrow> js_string) \<Rightarrow> js_string \<Rightarrow> js_string" where
  "normalizeForFuzzyMatch nfkc text =
     map fold_unit (join_newline (map trimEnd (split_newline (nfkc text))))"

section \<open>Lines\<close>

fun splitLinesWithEndings :: "js_string \<Rightarrow> js_string list" where
  "splitLinesWithEndings [] = []"
| "splitLinesWithEndings (u # us) =
     (if u = newline then [u] # splitLinesWithEndings us
      else (case splitLinesWithEndings us of [] \<Rightarrow> [[u]] | l # ls \<Rightarrow> (u # l) # ls))"

record line_span =
  span_start :: nat
  span_end :: nat

record text_replacement =
  rp_matchIndex :: nat
  rp_matchLength :: nat
  rp_newText :: js_string

record matched_edit = text_replacement +
  me_editIndex :: nat

fun line_spans :: "nat \<Rightarrow> js_string list \<Rightarrow> line_span list" where
  "line_spans offset [] = []"
| "line_spans offset (l # ls) =
     \<lparr>span_start = offset, span_end = offset + length l\<rparr> # line_spans (offset + length l) ls"

definition getLineSpans :: "js_string \<Rightarrow> line_span list" where
  "getLineSpans content = line_spans 0 (splitLinesWithEndings content)"

text \<open>The errors of the module, with the data that their messages show.\<close>

datatype edit_error =
    EmptyOldText nat nat
  | AmbiguousSimilar nat nat "nat list"
  | IncrementalMatch nat nat
  | NotFound nat nat js_string
  | Duplicate nat nat int "nat list"
  | Overlap nat nat
  | NoChange nat
  | OutsideBase
  | LineCountDiffers

fun first_index :: "('a \<Rightarrow> bool) \<Rightarrow> 'a list \<Rightarrow> nat \<Rightarrow> nat option" where
  "first_index P [] i = None"
| "first_index P (x # xs) i = (if P x then Some i else first_index P xs (i + 1))"

definition getReplacementLineRange :: "line_span list \<Rightarrow> 'a text_replacement_scheme \<Rightarrow> edit_error + nat \<times> nat" where
  "getReplacementLineRange lines r =
     (let replacementStart = rp_matchIndex r;
          replacementEnd = rp_matchIndex r + rp_matchLength r
      in case first_index (\<lambda>l. span_start l \<le> replacementStart \<and> replacementStart < span_end l) lines 0 of
           None \<Rightarrow> Err OutsideBase
         | Some startLine \<Rightarrow>
             (case first_index (\<lambda>l. \<not> span_end l < replacementEnd) (drop startLine lines) startLine of
                None \<Rightarrow> Err OutsideBase
              | Some endLine \<Rightarrow> Ok (startLine, endLine + 1)))"

definition apply_one :: "nat \<Rightarrow> 'a text_replacement_scheme \<Rightarrow> js_string \<Rightarrow> js_string" where
  "apply_one offset r result =
     (let matchIndex = int (rp_matchIndex r) - int offset
      in take (nat matchIndex) result @ rp_newText r @ drop (nat (matchIndex + int (rp_matchLength r))) result)"

definition applyReplacements :: "js_string \<Rightarrow> 'a text_replacement_scheme list \<Rightarrow> nat \<Rightarrow> js_string" where
  "applyReplacements content replacements offset = foldr (apply_one offset) replacements content"

record 'a replacement_group =
  gr_startLine :: nat
  gr_endLine :: nat
  gr_replacements :: "'a list"

text \<open>The groups are kept with the newest one first.\<close>

definition add_to_groups :: "line_span list \<Rightarrow> 'a text_replacement_scheme replacement_group list \<Rightarrow> 'a text_replacement_scheme
    \<Rightarrow> edit_error + 'a text_replacement_scheme replacement_group list" where
  "add_to_groups baseLines groups r =
     bind_res (getReplacementLineRange baseLines r) (\<lambda>(startLine, endLine).
     case groups of
       current # older \<Rightarrow>
         if startLine < gr_endLine current
         then Ok (current\<lparr>gr_endLine := max (gr_endLine current) endLine,
                          gr_replacements := gr_replacements current @ [r]\<rparr> # older)
         else Ok (\<lparr>gr_startLine = startLine, gr_endLine = endLine, gr_replacements = [r]\<rparr> # groups)
     | [] \<Rightarrow> Ok [\<lparr>gr_startLine = startLine, gr_endLine = endLine, gr_replacements = [r]\<rparr>])"

fun overlay_groups :: "js_string list \<Rightarrow> js_string \<Rightarrow> line_span list
    \<Rightarrow> 'a text_replacement_scheme replacement_group list \<Rightarrow> nat \<Rightarrow> js_string" where
  "overlay_groups originalLines baseContent baseLines [] originalLineIndex =
     concat (drop originalLineIndex originalLines)"
| "overlay_groups originalLines baseContent baseLines (g # gs) originalLineIndex =
     concat (take (gr_startLine g - originalLineIndex) (drop originalLineIndex originalLines))
     @ (let groupStart = span_start (baseLines ! gr_startLine g);
            groupEnd = span_end (baseLines ! (gr_endLine g - 1))
        in applyReplacements (take (groupEnd - groupStart) (drop groupStart baseContent)) (gr_replacements g) groupStart)
     @ overlay_groups originalLines baseContent baseLines gs (gr_endLine g)"

definition applyReplacementsPreservingUnchangedLines :: "js_string \<Rightarrow> js_string \<Rightarrow> 'a text_replacement_scheme list
    \<Rightarrow> edit_error + js_string" where
  "applyReplacementsPreservingUnchangedLines originalContent baseContent replacements =
     (let originalLines = splitLinesWithEndings originalContent; baseLines = getLineSpans baseContent
      in if length originalLines \<noteq> length baseLines then Err LineCountDiffers
         else bind_res (fold_res (add_to_groups baseLines) [] (sort_key rp_matchIndex replacements)) (\<lambda>groups.
              Ok (overlay_groups originalLines baseContent baseLines (rev groups) 0)))"

section \<open>Loose lines\<close>

datatype edit_match_tier = Exact | Normalized | BlankLines | LooseLines | SimilarBlock

record fuzzy_match_result =
  fm_found :: bool
  fm_index :: int
  fm_matchLength :: nat
  fm_usedFuzzyMatch :: bool
  fm_contentForReplacement :: js_string
  fm_matchTier :: "edit_match_tier option"
  fm_occurrenceCount :: "int option"
  fm_occurrenceLines :: "nat list option"
  fm_ambiguousLines :: "nat list option"

fun collapse_spaces :: "js_string \<Rightarrow> js_string" where
  "collapse_spaces (u # v # us) =
     (if tab_or_space u \<and> tab_or_space v then collapse_spaces (32 # us)
      else (if tab_or_space u then 32 else u) # collapse_spaces (v # us))"
| "collapse_spaces us = map (\<lambda>u. if tab_or_space u then 32 else u) us"

definition normalizeLineLoose :: "js_string \<Rightarrow> js_string" where
  "normalizeLineLoose line = trim_text (collapse_spaces line)"

definition toNonBlankLooseLines :: "js_string \<Rightarrow> js_string list" where
  "toNonBlankLooseLines text = filter (\<lambda>l. l \<noteq> []) (map normalizeLineLoose (split_newline text))"

record line_match =
  lm_index :: nat
  lm_length :: nat
  lm_startLine :: nat
  lm_nonBlankStart :: nat
  lm_nonBlankCount :: nat

definition toLineMatch :: "line_span list \<Rightarrow> js_string list \<Rightarrow> nat list \<Rightarrow> nat \<Rightarrow> nat \<Rightarrow> line_match" where
  "toLineMatch spans contentLines nonBlank nonBlankStart nonBlankCount =
     (let firstLineIndex = nonBlank ! nonBlankStart;
          lastLineIndex = nonBlank ! (nonBlankStart + nonBlankCount - 1);
          lastText = contentLines ! lastLineIndex;
          lastHasTerminator = lastText \<noteq> [] \<and> last lastText = newline;
          start = span_start (spans ! firstLineIndex)
      in \<lparr>lm_index = start,
          lm_length = span_end (spans ! lastLineIndex) - (if lastHasTerminator then 1 else 0) - start,
          lm_startLine = firstLineIndex + 1, lm_nonBlankStart = nonBlankStart, lm_nonBlankCount = nonBlankCount\<rparr>)"

definition non_blank_lines :: "js_string list \<Rightarrow> nat list" where
  "non_blank_lines contentLines = filter (\<lambda>i. normalizeLineLoose (contentLines ! i) \<noteq> []) [0..<length contentLines]"

definition findLooseLineMatches :: "js_string \<Rightarrow> js_string \<Rightarrow> line_match list" where
  "findLooseLineMatches content oldText =
     (let oldNonBlank = toNonBlankLooseLines oldText; n = length oldNonBlank
      in if oldNonBlank = [] then []
         else let contentLines = splitLinesWithEndings content; spans = getLineSpans content;
                  nonBlank = non_blank_lines contentLines
              in map (\<lambda>j. toLineMatch spans contentLines nonBlank j n)
                   (filter (\<lambda>j. list_all (\<lambda>k. normalizeLineLoose (contentLines ! (nonBlank ! (j + k))) = oldNonBlank ! k) [0..<n])
                     [0..<length nonBlank + 1 - n]))"

section \<open>Similarity\<close>

fun bigrams :: "js_string \<Rightarrow> js_string list" where
  "bigrams (u # v # us) = [u, v] # bigrams (v # us)"
| "bigrams us = []"

definition count_gram :: "(js_string \<times> nat) list \<Rightarrow> js_string \<Rightarrow> (js_string \<times> nat) list" where
  "count_gram counts gram =
     AList.update gram ((case map_of counts gram of Some n \<Rightarrow> n | None \<Rightarrow> 0) + 1) counts"

definition bigramCounts :: "js_string \<Rightarrow> (js_string \<times> nat) list" where
  "bigramCounts text = foldl count_gram [] (bigrams text)"

fun take_gram :: "(js_string \<times> nat) list \<times> nat \<Rightarrow> js_string \<Rightarrow> (js_string \<times> nat) list \<times> nat" where
  "take_gram (counts, overlap) gram =
     (case map_of counts gram of
        Some available \<Rightarrow>
          if available \<noteq> 0 then (AList.update gram (available - 1) counts, overlap + 1) else (counts, overlap)
      | None \<Rightarrow> (counts, overlap))"

definition bigramSimilarity :: "js_string \<Rightarrow> js_string \<Rightarrow> (js_string \<times> nat) list option \<Rightarrow> rat" where
  "bigramSimilarity a b aCounts =
     (if a = b then 1
      else if length a < 2 \<or> length b < 2 then 0
      else let counts = (case aCounts of Some c \<Rightarrow> c | None \<Rightarrow> bigramCounts a);
               overlap = snd (foldl take_gram (counts, 0) (bigrams b))
           in to_double (of_nat (2 * overlap) / of_nat (length a - 1 + (length b - 1))))"

definition LEVENSHTEIN_MAX_CELLS :: nat where
  "LEVENSHTEIN_MAX_CELLS = 2000000"

text \<open>A row of the table from the row before: \<open>lev_cells c b previous left\<close> continues to the right of a
  cell with value \<open>left\<close>, where \<open>previous\<close> begins above that cell.\<close>

fun lev_cells :: "16 word \<Rightarrow> js_string \<Rightarrow> nat list \<Rightarrow> nat \<Rightarrow> nat list" where
  "lev_cells c (d # bs) (p # q # ps) left =
     (let x = min (q + 1) (min (left + 1) (p + (if c = d then 0 else 1)))
      in x # lev_cells c bs (q # ps) x)"
| "lev_cells c bs ps left = []"

fun lev_rows :: "js_string \<Rightarrow> js_string \<Rightarrow> nat \<Rightarrow> nat list \<Rightarrow> nat list" where
  "lev_rows [] b i previous = previous"
| "lev_rows (c # a) b i previous = lev_rows a b (i + 1) (i # lev_cells c b previous i)"

definition levenshteinSimilarity :: "js_string \<Rightarrow> js_string \<Rightarrow> rat" where
  "levenshteinSimilarity a b =
     (if a = b then 1
      else let maxLength = max (length a) (length b)
           in if maxLength = 0 then 1
              else if LEVENSHTEIN_MAX_CELLS < length a * length b then 0
              else let previous = lev_rows a b 1 [0..<length b + 1]
                   in to_double (1 - to_double (of_nat (previous ! length b) / of_nat maxLength)))"

section \<open>Similar blocks\<close>

definition SIMILAR_BLOCK_MIN_NON_BLANK_LINES :: nat where
  "SIMILAR_BLOCK_MIN_NON_BLANK_LINES = 3"

definition SIMILAR_BLOCK_MAX_NON_BLANK_LINES :: nat where
  "SIMILAR_BLOCK_MAX_NON_BLANK_LINES = 200"

definition SIMILAR_BLOCK_THRESHOLD :: rat where
  "SIMILAR_BLOCK_THRESHOLD = to_double (8 / 10)"

definition SIMILAR_SINGLE_LINE_THRESHOLD :: rat where
  "SIMILAR_SINGLE_LINE_THRESHOLD = to_double (9 / 10)"

record accepted_match = line_match +
  ac_similarity :: rat

definition with_similarity :: "rat \<Rightarrow> line_match \<Rightarrow> accepted_match" where
  "with_similarity s m =
     \<lparr>lm_index = lm_index m, lm_length = lm_length m, lm_startLine = lm_startLine m,
      lm_nonBlankStart = lm_nonBlankStart m, lm_nonBlankCount = lm_nonBlankCount m, ac_similarity = s\<rparr>"

definition accept_window :: "(nat \<Rightarrow> nat \<Rightarrow> line_match) \<Rightarrow> rat \<Rightarrow> rat \<Rightarrow> nat \<Rightarrow> nat \<Rightarrow> accepted_match list" where
  "accept_window lineMatch threshold similarity j count =
     (if threshold \<le> similarity then [with_similarity similarity (lineMatch j count)] else [])"

definition similar_lines :: "(nat \<Rightarrow> nat \<Rightarrow> line_match) \<Rightarrow> js_string \<Rightarrow> js_string list \<Rightarrow> accepted_match list" where
  "similar_lines lineMatch target nbLoose =
     (let targetGrams = bigramCounts target
      in concat (map (\<lambda>j. accept_window lineMatch SIMILAR_SINGLE_LINE_THRESHOLD
                            (bigramSimilarity target (nbLoose ! j) (Some targetGrams)) j 1)
           [0..<length nbLoose]))"

definition similar_windows :: "(nat \<Rightarrow> nat \<Rightarrow> line_match) \<Rightarrow> js_string list \<Rightarrow> js_string list \<Rightarrow> nat \<Rightarrow> accepted_match list" where
  "similar_windows lineMatch oldNonBlank nbLoose count =
     (if count < 2 \<or> length nbLoose < count then []
      else concat (map (\<lambda>j.
             if nbLoose ! j \<noteq> hd oldNonBlank \<or> nbLoose ! (j + count - 1) \<noteq> last oldNonBlank then []
             else accept_window lineMatch SIMILAR_BLOCK_THRESHOLD
                    (levenshteinSimilarity (join_newline oldNonBlank) (join_newline (take count (drop j nbLoose)))) j count)
           [0..<length nbLoose + 1 - count]))"

definition similar_blocks :: "(nat \<Rightarrow> nat \<Rightarrow> line_match) \<Rightarrow> js_string list \<Rightarrow> js_string list \<Rightarrow> accepted_match list" where
  "similar_blocks lineMatch oldNonBlank nbLoose =
     concat (map (similar_windows lineMatch oldNonBlank nbLoose)
       [length oldNonBlank, length oldNonBlank - 1, length oldNonBlank + 1])"

definition window_end :: "accepted_match \<Rightarrow> nat" where
  "window_end m = lm_nonBlankStart m + lm_nonBlankCount m"

text \<open>The clusters are kept with the newest one first.\<close>

fun add_to_clusters :: "accepted_match list list \<Rightarrow> accepted_match \<Rightarrow> accepted_match list list" where
  "add_to_clusters [] candidate = [[candidate]]"
| "add_to_clusters (current # older) candidate =
     (if lm_nonBlankStart candidate < Max (set (map window_end current)) then (current @ [candidate]) # older
      else [candidate] # current # older)"

definition better_match :: "accepted_match \<Rightarrow> accepted_match \<Rightarrow> accepted_match" where
  "better_match a b = (if ac_similarity a < ac_similarity b then b else a)"

definition findSimilarBlockMatch :: "js_string \<Rightarrow> js_string \<Rightarrow> accepted_match option \<times> nat list" where
  "findSimilarBlockMatch content oldText =
     (let oldNonBlank = toNonBlankLooseLines oldText
      in if oldNonBlank = [] \<or> SIMILAR_BLOCK_MAX_NON_BLANK_LINES < length oldNonBlank then (None, [])
         else let contentLines = splitLinesWithEndings content; spans = getLineSpans content;
                  nonBlank = non_blank_lines contentLines;
                  nbLoose = map (\<lambda>i. normalizeLineLoose (contentLines ! i)) nonBlank;
                  lineMatch = toLineMatch spans contentLines nonBlank;
                  accepted =
                    (if length oldNonBlank = 1 then similar_lines lineMatch (hd oldNonBlank) nbLoose
                     else if SIMILAR_BLOCK_MIN_NON_BLANK_LINES \<le> length oldNonBlank
                     then similar_blocks lineMatch oldNonBlank nbLoose
                     else []);
                  clusters = rev (foldl add_to_clusters [] (sort_key lm_nonBlankStart accepted))
              in if accepted = [] then (None, [])
                 else if 1 < length clusters then (None, map (\<lambda>c. lm_startLine (hd c)) clusters)
                 else (Some (foldl better_match (hd (hd clusters)) (tl (hd clusters))), []))"

section \<open>The matching ladder\<close>

function offset_lines :: "js_string \<Rightarrow> nat list \<Rightarrow> nat \<Rightarrow> nat \<Rightarrow> nat \<Rightarrow> nat list" where
  "offset_lines content [] lineStart lineNumber cap = []"
| "offset_lines content (x # xs) lineStart lineNumber cap =
     (if cap = 0 then []
      else (case index_of content [newline] lineStart of
              Some nextNewline \<Rightarrow>
                if nextNewline < x then offset_lines content (x # xs) (nextNewline + 1) (lineNumber + 1) cap
                else lineNumber # offset_lines content xs lineStart lineNumber (cap - 1)
            | None \<Rightarrow> lineNumber # offset_lines content xs lineStart lineNumber (cap - 1)))"
  by pat_completeness auto
termination
proof (relation "measures [\<lambda>(content, xs, s, n, cap). length xs, \<lambda>(content, xs, s, n, cap). length content - s]")
  fix content x xs s n and cap k :: nat
  assume "index_of content [newline] s = Some k"
  then show "((content, x # xs, k + 1, n + 1, cap), content, x # xs, s, n, cap)
      \<in> measures [\<lambda>(content, xs, s, n, cap). length xs, \<lambda>(content, xs, s, n, cap). length content - s]"
    using index_of_bounds [of content "[newline]" s k] by auto
qed auto

definition offsetsToLines :: "js_string \<Rightarrow> nat list \<Rightarrow> nat list" where
  "offsetsToLines content offsets = offset_lines content (sort offsets) 0 1 5"

record edit_spec =
  ed_oldText :: js_string
  ed_newText :: js_string

definition countStringOccurrences :: "js_string \<Rightarrow> js_string \<Rightarrow> int" where
  "countStringOccurrences content text = int (length (split_text text content)) - 1"

partial_function (option) occurrence_offsets :: "js_string \<Rightarrow> js_string \<Rightarrow> nat option \<Rightarrow> nat list \<Rightarrow> nat list option" where
  "occurrence_offsets content text position offsets =
     (case position of
        None \<Rightarrow> Some offsets
      | Some i \<Rightarrow> occurrence_offsets content text (index_of content text (i + 1)) (offsets @ [i]))"

declare occurrence_offsets.simps [code]

definition findAllOccurrenceOffsets :: "js_string \<Rightarrow> js_string \<Rightarrow> nat list option" where
  "findAllOccurrenceOffsets content text = occurrence_offsets content text (index_of content text 0) []"

definition literal_match :: "js_string \<Rightarrow> js_string \<Rightarrow> nat \<Rightarrow> bool \<Rightarrow> edit_match_tier \<Rightarrow> fuzzy_match_result option" where
  "literal_match content text i fuzzy tier =
     (case findAllOccurrenceOffsets content text of
        None \<Rightarrow> None
      | Some offsets \<Rightarrow>
          Some \<lparr>fm_found = True, fm_index = int i, fm_matchLength = length text, fm_usedFuzzyMatch = fuzzy,
                fm_contentForReplacement = content, fm_matchTier = Some tier,
                fm_occurrenceCount = Some (countStringOccurrences content text),
                fm_occurrenceLines = Some (offsetsToLines content offsets), fm_ambiguousLines = None\<rparr>)"

definition no_match :: "js_string \<Rightarrow> nat list option \<Rightarrow> fuzzy_match_result" where
  "no_match content ambiguous =
     \<lparr>fm_found = False, fm_index = -1, fm_matchLength = 0, fm_usedFuzzyMatch = False,
      fm_contentForReplacement = content, fm_matchTier = None, fm_occurrenceCount = None,
      fm_occurrenceLines = None, fm_ambiguousLines = ambiguous\<rparr>"

definition approximate_match :: "js_string \<Rightarrow> js_string \<Rightarrow> js_string \<Rightarrow> fuzzy_match_result" where
  "approximate_match content fuzzyContent fuzzyOldText =
     (case findBlankLineTolerantMatches fuzzyContent fuzzyOldText of
        m # ms \<Rightarrow>
          \<lparr>fm_found = True, fm_index = int (fst m), fm_matchLength = snd m, fm_usedFuzzyMatch = True,
           fm_contentForReplacement = fuzzyContent, fm_matchTier = Some BlankLines,
           fm_occurrenceCount = Some (int (length (m # ms))),
           fm_occurrenceLines = Some (offsetsToLines fuzzyContent (map fst (m # ms))), fm_ambiguousLines = None\<rparr>
      | [] \<Rightarrow>
          (case findLooseLineMatches fuzzyContent fuzzyOldText of
             m # ms \<Rightarrow>
               \<lparr>fm_found = True, fm_index = int (lm_index m), fm_matchLength = lm_length m, fm_usedFuzzyMatch = True,
                fm_contentForReplacement = fuzzyContent, fm_matchTier = Some LooseLines,
                fm_occurrenceCount = Some (int (length (m # ms))),
                fm_occurrenceLines = Some (map lm_startLine (m # ms)), fm_ambiguousLines = None\<rparr>
           | [] \<Rightarrow>
               (case findSimilarBlockMatch fuzzyContent fuzzyOldText of
                  (Some m, _) \<Rightarrow>
                    \<lparr>fm_found = True, fm_index = int (lm_index m), fm_matchLength = lm_length m, fm_usedFuzzyMatch = True,
                     fm_contentForReplacement = fuzzyContent, fm_matchTier = Some SimilarBlock,
                     fm_occurrenceCount = Some 1, fm_occurrenceLines = Some [lm_startLine m], fm_ambiguousLines = None\<rparr>
                | (None, ambiguousStartLines) \<Rightarrow>
                    no_match content (if ambiguousStartLines \<noteq> [] then Some ambiguousStartLines else None))))"

definition fuzzyFindText :: "(js_string \<Rightarrow> js_string) \<Rightarrow> js_string \<Rightarrow> js_string \<Rightarrow> fuzzy_match_result option" where
  "fuzzyFindText nfkc content oldText =
     (case index_of content oldText 0 of
        Some exactIndex \<Rightarrow> literal_match content oldText exactIndex False Exact
      | None \<Rightarrow>
          let fuzzyContent = normalizeForFuzzyMatch nfkc content; fuzzyOldText = normalizeForFuzzyMatch nfkc oldText
          in (case index_of fuzzyContent fuzzyOldText 0 of
                Some fuzzyIndex \<Rightarrow> literal_match fuzzyContent fuzzyOldText fuzzyIndex True Normalized
              | None \<Rightarrow> Some (approximate_match content fuzzyContent fuzzyOldText)))"

end
