(* ===== verification/EditApply.thy ===== *)
theory EditApply
  imports EditDiff
begin

text \<open>
  The diagnosis of edits that match nothing, the application of a list of edits to a file, and the
  diff for display (\<open>packages/agent/src/harness/tools/edit-diff.ts\<close>).
\<close>

section \<open>Diagnosis\<close>

definition ERROR_PREVIEW_MAX :: nat where
  "ERROR_PREVIEW_MAX = 80"

definition ERROR_MAX_ANCHORS :: nat where
  "ERROR_MAX_ANCHORS = 50"

definition ERROR_SIMILAR_REGION_THRESHOLD :: rat where
  "ERROR_SIMILAR_REGION_THRESHOLD = to_double (1 / 2)"

definition previewLine :: "js_string \<Rightarrow> js_string" where
  "previewLine line =
     (if ERROR_PREVIEW_MAX < length line then take (ERROR_PREVIEW_MAX - 3) line @ ascii_text ''...'' else line)"

definition quoted_text :: "js_string \<Rightarrow> js_string" where
  "quoted_text s = [34] @ s @ [34]"

definition find_anchors :: "js_string list \<Rightarrow> js_string \<Rightarrow> nat list" where
  "find_anchors contentLines firstOldLine =
     (if firstOldLine = [] then []
      else take ERROR_MAX_ANCHORS
             (filter (\<lambda>i. normalizeLineLoose (contentLines ! i) = firstOldLine) [0..<length contentLines]))"

definition matched_lines :: "js_string list \<Rightarrow> js_string list \<Rightarrow> nat" where
  "matched_lines xs ys =
     length (takeWhile (\<lambda>(x, y). normalizeLineLoose x = normalizeLineLoose y) (zip xs ys))"

definition best_anchor :: "js_string list \<Rightarrow> js_string list \<Rightarrow> nat list \<Rightarrow> nat \<times> nat" where
  "best_anchor contentLines oldRest anchors =
     foldl (\<lambda>(bestAnchor, bestMatched) anchor.
              let matched = matched_lines (drop anchor contentLines) oldRest
              in if bestMatched < matched then (anchor, matched) else (bestAnchor, bestMatched))
       (hd anchors, 0) anchors"

definition anchor_report :: "js_string list \<Rightarrow> js_string list \<Rightarrow> nat \<Rightarrow> nat list \<Rightarrow> js_string" where
  "anchor_report contentLines oldLines firstOldIndex anchors =
     (let (bestAnchor, bestMatched) = best_anchor contentLines (drop firstOldIndex oldLines) anchors;
          divergeLine = bestAnchor + bestMatched;
          divergeOldLine = firstOldIndex + bestMatched;
          actual = (if divergeLine < length contentLines then quoted_text (previewLine (contentLines ! divergeLine))
                    else ascii_text ''end of file'')
      in ascii_text ''Nearest region starts at line '' @ number_units (bestAnchor + 1)
         @ ascii_text ''; first difference at oldText line '' @ number_units (divergeOldLine + 1)
         @ ascii_text '' (file line '' @ number_units (divergeLine + 1) @ ascii_text ''): oldText has ''
         @ quoted_text (previewLine (if divergeOldLine < length oldLines then oldLines ! divergeOldLine else []))
         @ ascii_text '', file has '' @ actual @ ascii_text ''. Re-read that region and retry with the verbatim text.'')"

text \<open>The most similar region: its similarity, the number of its first line and its lines.\<close>

definition keep_better :: "rat \<times> nat option \<times> js_string list \<Rightarrow> rat \<times> nat \<times> js_string list \<Rightarrow> rat \<times> nat option \<times> js_string list" where
  "keep_better best candidate =
     (if fst best < fst candidate then (fst candidate, Some (fst (snd candidate)), snd (snd candidate)) else best)"

definition best_region :: "js_string list \<Rightarrow> js_string list \<Rightarrow> rat \<times> nat option \<times> js_string list" where
  "best_region contentLines oldNonBlank =
     (if oldNonBlank = [] \<or> SIMILAR_BLOCK_MAX_NON_BLANK_LINES < length oldNonBlank then (0, None, [])
      else let contentNonBlank = filter (\<lambda>e. snd e \<noteq> [])
                 (map (\<lambda>i. (i + 1, normalizeLineLoose (contentLines ! i))) [0..<length contentLines]);
               nbLoose = map snd contentNonBlank
           in if length oldNonBlank = 1
              then foldl keep_better (0, None, [])
                     (map (\<lambda>e. (bigramSimilarity (hd oldNonBlank) (snd e) None, fst e, [snd e])) contentNonBlank)
              else let count = min (length oldNonBlank) (length nbLoose)
                   in foldl keep_better (0, None, [])
                        (map (\<lambda>j. (levenshteinSimilarity (join_newline oldNonBlank) (join_newline (take count (drop j nbLoose))),
                                   fst (contentNonBlank ! j), take count (drop j nbLoose)))
                          [0..<length nbLoose + 1 - count]))"

definition region_divergence :: "js_string list \<Rightarrow> js_string list \<Rightarrow> js_string" where
  "region_divergence oldNonBlank bestWindow =
     (case find (\<lambda>(x, y). x \<noteq> y) (zip oldNonBlank bestWindow) of
        Some (x, y) \<Rightarrow>
          ascii_text '' First difference inside it: oldText has '' @ quoted_text (previewLine x)
          @ ascii_text '', file has '' @ quoted_text (previewLine y) @ ascii_text ''.''
      | None \<Rightarrow> [])"

definition region_report :: "js_string list \<Rightarrow> js_string \<Rightarrow> js_string list \<Rightarrow> js_string" where
  "region_report contentLines firstPreview oldNonBlank =
     (case best_region contentLines oldNonBlank of
        (bestSimilarity, bestStartLine, bestWindow) \<Rightarrow>
          ascii_text ''No line of oldText (starting with '' @ quoted_text firstPreview
          @ (if ERROR_SIMILAR_REGION_THRESHOLD \<le> bestSimilarity \<and> bestStartLine \<noteq> None
             then ascii_text '') appears verbatim in the file. The most similar region (~''
                  @ number_units (nat (math_round (to_double (bestSimilarity * 100)))) @ ascii_text ''%) starts at line ''
                  @ number_units (the bestStartLine) @ ascii_text ''.'' @ region_divergence oldNonBlank bestWindow
                  @ ascii_text '' Re-read that region and retry with the verbatim text.''
             else ascii_text '') appears in the file and no similar region exists. ''
                  @ ascii_text ''The text is likely outdated or belongs to a different file. Re-read the file before editing.''))"

definition diagnoseNoMatch :: "js_string \<Rightarrow> js_string \<Rightarrow> js_string" where
  "diagnoseNoMatch content oldText =
     (let contentLines = split_newline content; oldLines = split_newline oldText;
          firstOldIndex = first_index (\<lambda>l. normalizeLineLoose l \<noteq> []) oldLines 0;
          anchors = (case firstOldIndex of Some i \<Rightarrow> find_anchors contentLines (normalizeLineLoose (oldLines ! i)) | None \<Rightarrow> [])
      in case firstOldIndex of
           Some i \<Rightarrow>
             if anchors \<noteq> [] then anchor_report contentLines oldLines i anchors
             else region_report contentLines (previewLine (oldLines ! i)) (toNonBlankLooseLines oldText)
         | None \<Rightarrow> region_report contentLines [] (toNonBlankLooseLines oldText))"

section \<open>Messages\<close>

definition edit_name :: "nat \<Rightarrow> js_string" where
  "edit_name i = ascii_text ''edits['' @ number_units i @ ascii_text '']''"

definition target_name :: "nat \<Rightarrow> nat \<Rightarrow> js_string" where
  "target_name i whole = (if whole = 1 then ascii_text ''The oldText'' else edit_name i)"

definition occurrence_location :: "int \<Rightarrow> nat list \<Rightarrow> js_string" where
  "occurrence_location occurrences lines =
     (if lines = [] then []
      else ascii_text '' (lines '' @ join_numbers lines
           @ (if int (length lines) < occurrences then ascii_text '', '' @ [0x2026] else []) @ ascii_text '')'')"

definition int_units :: "int \<Rightarrow> js_string" where
  "int_units i = (if i < 0 then ascii_text ''-'' @ number_units (nat (- i)) else number_units (nat i))"

fun edit_error_message :: "js_string \<Rightarrow> edit_error \<Rightarrow> js_string" where
  "edit_error_message path (EmptyOldText i whole) =
     (if whole = 1 then ascii_text ''oldText must not be empty in '' @ path @ ascii_text ''.''
      else edit_name i @ ascii_text ''.oldText must not be empty in '' @ path @ ascii_text ''.'')"
| "edit_error_message path (AmbiguousSimilar i whole lines) =
     target_name i whole @ ascii_text '' in '' @ path @ ascii_text '' approximately matches '' @ number_units (length lines)
     @ ascii_text '' different regions (starting near lines '' @ join_numbers lines
     @ ascii_text ''). Provide more surrounding context so the oldText identifies one unique region.''"
| "edit_error_message path (IncrementalMatch i whole) =
     target_name i whole @ ascii_text '' in '' @ path
     @ ascii_text '' only matches after applying the earlier edits in this call. ''
     @ ascii_text ''All edits in one call are matched against the original file content, not applied incrementally. ''
     @ ascii_text ''Rewrite the oldText to match the original file text, or split the work into sequential edit calls.''"
| "edit_error_message path (NotFound i whole diagnostic) =
     (if whole = 1 then ascii_text ''Could not find the text in '' else ascii_text ''Could not find '' @ edit_name i @ ascii_text '' in '')
     @ path @ ascii_text ''. '' @ diagnostic"
| "edit_error_message path (Duplicate i whole occurrences lines) =
     ascii_text ''Found '' @ int_units occurrences @ ascii_text '' occurrences of ''
     @ (if whole = 1 then ascii_text ''the text'' else edit_name i)
     @ ascii_text '' in '' @ path @ occurrence_location occurrences lines
     @ (if whole = 1 then ascii_text ''. The text must be unique. '' else ascii_text ''. Each oldText must be unique. '')
     @ ascii_text ''Please provide more context to make it unique.''"
| "edit_error_message path (Overlap i j) =
     edit_name i @ ascii_text '' and '' @ edit_name j @ ascii_text '' overlap in '' @ path
     @ ascii_text ''. Merge them into one edit or target disjoint regions.''"
| "edit_error_message path (NoChange whole) =
     ascii_text ''No changes made to '' @ path
     @ (if whole = 1
        then ascii_text ''. The replacement produced identical content. This might indicate an issue with special ''
             @ ascii_text ''characters or the text not existing as expected.''
        else ascii_text ''. The replacements produced identical content.'')"
| "edit_error_message path OutsideBase = ascii_text ''Replacement range is outside the base content.''"
| "edit_error_message path LineCountDiffers =
     ascii_text ''Cannot preserve unchanged lines because the base content has a different line count.''"

section \<open>Applying edits\<close>

definition normalize_edit :: "edit_spec \<Rightarrow> edit_spec" where
  "normalize_edit e = \<lparr>ed_oldText = normalizeToLF (ed_oldText e), ed_newText = normalizeToLF (ed_newText e)\<rparr>"

definition without_trailing_newline :: "edit_match_tier option \<Rightarrow> js_string \<Rightarrow> js_string" where
  "without_trailing_newline tier newText =
     (if tier \<in> {Some LooseLines, Some SimilarBlock} \<and> newText \<noteq> [] \<and> last newText = newline
      then butlast newText else newText)"

definition match_edit :: "(js_string \<Rightarrow> js_string) \<Rightarrow> js_string \<Rightarrow> js_string \<Rightarrow> nat \<Rightarrow> nat \<Rightarrow> edit_spec \<Rightarrow> matched_edit list
    \<Rightarrow> (edit_error + matched_edit) option" where
  "match_edit nfkc base content whole i edit matchedEdits =
     (case fuzzyFindText nfkc base (ed_oldText edit) of
        None \<Rightarrow> None
      | Some m \<Rightarrow>
          if \<not> fm_found m then
            (case fm_ambiguousLines m of
               Some (l # ls) \<Rightarrow> Some (Err (AmbiguousSimilar i whole (l # ls)))
             | _ \<Rightarrow>
                 if matchedEdits \<noteq> [] then
                   (case fuzzyFindText nfkc (applyReplacements base (sort_key rp_matchIndex matchedEdits) 0) (ed_oldText edit) of
                      None \<Rightarrow> None
                    | Some simulated \<Rightarrow>
                        Some (Err (if fm_found simulated then IncrementalMatch i whole
                                   else NotFound i whole (diagnoseNoMatch content (ed_oldText edit)))))
                 else Some (Err (NotFound i whole (diagnoseNoMatch content (ed_oldText edit)))))
          else if 1 < (case fm_occurrenceCount m of Some n \<Rightarrow> n | None \<Rightarrow> 1)
          then Some (Err (Duplicate i whole (case fm_occurrenceCount m of Some n \<Rightarrow> n | None \<Rightarrow> 0)
                            (case fm_occurrenceLines m of Some ls \<Rightarrow> ls | None \<Rightarrow> [])))
          else Some (Ok \<lparr>rp_matchIndex = nat (fm_index m), rp_matchLength = fm_matchLength m,
                         rp_newText = without_trailing_newline (fm_matchTier m) (ed_newText edit), me_editIndex = i\<rparr>))"

fun match_edits :: "(js_string \<Rightarrow> js_string) \<Rightarrow> js_string \<Rightarrow> js_string \<Rightarrow> nat \<Rightarrow> nat \<Rightarrow> edit_spec list \<Rightarrow> matched_edit list
    \<Rightarrow> (edit_error + matched_edit list) option" where
  "match_edits nfkc base content whole i [] matchedEdits = Some (Ok matchedEdits)"
| "match_edits nfkc base content whole i (e # es) matchedEdits =
     (case match_edit nfkc base content whole i e matchedEdits of
        None \<Rightarrow> None
      | Some (Inl err) \<Rightarrow> Some (Err err)
      | Some (Inr m) \<Rightarrow> match_edits nfkc base content whole (i + 1) es (matchedEdits @ [m]))"

fun check_overlaps :: "matched_edit list \<Rightarrow> edit_error + unit" where
  "check_overlaps (p # c # ms) =
     bind_res (guard_res (\<not> rp_matchIndex c < rp_matchIndex p + rp_matchLength p) (Overlap (me_editIndex p) (me_editIndex c))) (\<lambda>_.
     check_overlaps (c # ms))"
| "check_overlaps ms = Ok ()"

fun initial_matches :: "(js_string \<Rightarrow> js_string) \<Rightarrow> js_string \<Rightarrow> edit_spec list \<Rightarrow> fuzzy_match_result list option" where
  "initial_matches nfkc content [] = Some []"
| "initial_matches nfkc content (e # es) =
     (case fuzzyFindText nfkc content (ed_oldText e) of
        None \<Rightarrow> None
      | Some m \<Rightarrow> map_option (Cons m) (initial_matches nfkc content es))"

definition finish_edits :: "js_string \<Rightarrow> js_string \<Rightarrow> bool \<Rightarrow> nat \<Rightarrow> matched_edit list \<Rightarrow> edit_error + js_string \<times> js_string" where
  "finish_edits content base usedFuzzyMatch whole matchedEdits =
     (let ms = sort_key rp_matchIndex matchedEdits
      in bind_res (check_overlaps ms) (\<lambda>_.
         bind_res (if usedFuzzyMatch then applyReplacementsPreservingUnchangedLines content base ms
                   else Ok (applyReplacements base ms 0)) (\<lambda>newContent.
         if content = newContent then Err (NoChange whole) else Ok (content, newContent))))"

definition applyEditsToNormalizedContent :: "(js_string \<Rightarrow> js_string) \<Rightarrow> js_string \<Rightarrow> edit_spec list
    \<Rightarrow> (edit_error + js_string \<times> js_string) option" where
  "applyEditsToNormalizedContent nfkc content edits =
     (let es = map normalize_edit edits; whole = length es
      in case first_index (\<lambda>e. ed_oldText e = []) es 0 of
           Some i \<Rightarrow> Some (Err (EmptyOldText i whole))
         | None \<Rightarrow>
             (case initial_matches nfkc content es of
                None \<Rightarrow> None
              | Some initialMatches \<Rightarrow>
                  let usedFuzzyMatch = list_ex fm_usedFuzzyMatch initialMatches;
                      base = (if usedFuzzyMatch then normalizeForFuzzyMatch nfkc content else content)
                  in (case match_edits nfkc base content whole 0 es [] of
                        None \<Rightarrow> None
                      | Some r \<Rightarrow> Some (bind_res r (finish_edits content base usedFuzzyMatch whole)))))"

section \<open>The diff for display\<close>

record diff_part =
  dp_value :: js_string
  dp_added :: bool
  dp_removed :: bool

record diff_state =
  df_output :: "js_string list"
  df_oldLineNum :: nat
  df_newLineNum :: nat
  df_lastWasChange :: bool
  df_firstChangedLine :: "nat option"

definition part_lines :: "js_string \<Rightarrow> js_string list" where
  "part_lines v = (let raw = split_newline v in if last raw = [] then butlast raw else raw)"

definition is_change :: "diff_part \<Rightarrow> bool" where
  "is_change p \<longleftrightarrow> dp_added p \<or> dp_removed p"

definition diff_line :: "nat \<Rightarrow> js_string \<Rightarrow> nat \<Rightarrow> js_string \<Rightarrow> js_string" where
  "diff_line width mark n line = mark @ padStart width (number_units n) @ [32] @ line"

definition change_line :: "nat \<Rightarrow> diff_part \<Rightarrow> diff_state \<Rightarrow> js_string \<Rightarrow> diff_state" where
  "change_line width p s line =
     (if dp_added p
      then s\<lparr>df_output := df_output s @ [diff_line width (ascii_text ''+'') (df_newLineNum s) line],
             df_newLineNum := df_newLineNum s + 1\<rparr>
      else s\<lparr>df_output := df_output s @ [diff_line width (ascii_text ''-'') (df_oldLineNum s) line],
             df_oldLineNum := df_oldLineNum s + 1\<rparr>)"

definition context_line :: "nat \<Rightarrow> diff_state \<Rightarrow> js_string \<Rightarrow> diff_state" where
  "context_line width s line =
     s\<lparr>df_output := df_output s @ [diff_line width (ascii_text '' '') (df_oldLineNum s) line],
       df_oldLineNum := df_oldLineNum s + 1, df_newLineNum := df_newLineNum s + 1\<rparr>"

definition skip_lines :: "nat \<Rightarrow> diff_state \<Rightarrow> diff_state" where
  "skip_lines n s = s\<lparr>df_oldLineNum := df_oldLineNum s + n, df_newLineNum := df_newLineNum s + n\<rparr>"

definition omit_lines :: "nat \<Rightarrow> nat \<Rightarrow> diff_state \<Rightarrow> diff_state" where
  "omit_lines width n s =
     skip_lines n (s\<lparr>df_output := df_output s @ [ascii_text '' '' @ padStart width [] @ ascii_text '' ...'']\<rparr>)"

definition context_part :: "nat \<Rightarrow> nat \<Rightarrow> bool \<Rightarrow> js_string list \<Rightarrow> diff_state \<Rightarrow> diff_state" where
  "context_part width contextLines hasTrailingChange raw s =
     (let shown = foldl (context_line width)
      in if df_lastWasChange s \<and> hasTrailingChange then
           (if length raw \<le> contextLines * 2 then shown s raw
            else let leadingLines = take contextLines raw; trailingLines = drop (length raw - contextLines) raw;
                     skippedLines = length raw - length leadingLines - length trailingLines
                 in shown (omit_lines width skippedLines (shown s leadingLines)) trailingLines)
         else if df_lastWasChange s then
           (let shownLines = take contextLines raw; skippedLines = length raw - length shownLines; s' = shown s shownLines
            in if 0 < skippedLines then omit_lines width skippedLines s' else s')
         else if hasTrailingChange then
           (let skippedLines = length raw - contextLines; s' = (if 0 < skippedLines then omit_lines width skippedLines s else s)
            in shown s' (drop skippedLines raw))
         else skip_lines (length raw) s)"

fun diff_parts :: "nat \<Rightarrow> nat \<Rightarrow> diff_part list \<Rightarrow> diff_state \<Rightarrow> diff_state" where
  "diff_parts width contextLines [] s = s"
| "diff_parts width contextLines (p # ps) s =
     (let raw = part_lines (dp_value p)
      in if is_change p
         then diff_parts width contextLines ps
                ((foldl (change_line width p)
                   (s\<lparr>df_firstChangedLine := (case df_firstChangedLine s of None \<Rightarrow> Some (df_newLineNum s) | Some n \<Rightarrow> Some n)\<rparr>) raw)
                 \<lparr>df_lastWasChange := True\<rparr>)
         else diff_parts width contextLines ps
                ((context_part width contextLines (ps \<noteq> [] \<and> is_change (hd ps)) raw s)\<lparr>df_lastWasChange := False\<rparr>))"

definition generateDiffString :: "(js_string \<Rightarrow> js_string \<Rightarrow> diff_part list) \<Rightarrow> js_string \<Rightarrow> js_string \<Rightarrow> nat
    \<Rightarrow> js_string \<times> nat option" where
  "generateDiffString diffLines oldContent newContent contextLines =
     (let maxLineNum = max (length (split_newline oldContent)) (length (split_newline newContent));
          lineNumWidth = length (number_units maxLineNum);
          s = diff_parts lineNumWidth contextLines (diffLines oldContent newContent)
                \<lparr>df_output = [], df_oldLineNum = 1, df_newLineNum = 1, df_lastWasChange = False, df_firstChangedLine = None\<rparr>
      in (join_newline (df_output s), df_firstChangedLine s))"

end
