(* ===== verification/EditCorrect.thy ===== *)
theory EditCorrect
  imports EditApply "HOL-Library.Multiset"
begin

text \<open>
  Correctness of the edits of \<open>EditApply\<close>: what replacing disjoint regions does to a text, when the
  matching returns, and that edits whose old texts are found verbatim replace exactly these texts.
\<close>

section \<open>Replacing disjoint regions\<close>

text \<open>\<open>weave gaps texts\<close> puts the texts between the gaps.\<close>

fun weave :: "js_string list \<Rightarrow> js_string list \<Rightarrow> js_string" where
  "weave (g # gs) (t # ts) = g @ t @ weave gs ts"
| "weave gs ts = concat gs"

text \<open>Regions that follow each other from a position on without overlap, inside a text of length \<open>n\<close>.\<close>

fun apart :: "nat \<Rightarrow> nat \<Rightarrow> 'a text_replacement_scheme list \<Rightarrow> bool" where
  "apart p n [] \<longleftrightarrow> p \<le> n"
| "apart p n (m # ms) \<longleftrightarrow> p \<le> rp_matchIndex m \<and> apart (rp_matchIndex m + rp_matchLength m) n ms"

fun gaps :: "nat \<Rightarrow> js_string \<Rightarrow> 'a text_replacement_scheme list \<Rightarrow> js_string list" where
  "gaps p content [] = [drop p content]"
| "gaps p content (m # ms) =
     take (rp_matchIndex m - p) (drop p content) # gaps (rp_matchIndex m + rp_matchLength m) content ms"

definition region :: "js_string \<Rightarrow> 'a text_replacement_scheme \<Rightarrow> js_string" where
  "region content m = take (rp_matchLength m) (drop (rp_matchIndex m) content)"

lemma apart_le: "apart p n ms \<Longrightarrow> p \<le> n"
  by (induction p n ms rule: apart.induct) auto

lemma length_gaps: "length (gaps p content ms) = length ms + 1"
  by (induction p content ms rule: gaps.induct) auto

lemma gaps_cover: "apart p (length content) ms \<Longrightarrow> drop p content = weave (gaps p content ms) (map (region content) ms)"
proof (induction p content ms rule: gaps.induct)
  case (2 p content m ms)
  let ?i = "rp_matchIndex m" and ?n = "rp_matchLength m"
  from 2 have p: "p \<le> ?i" and IH: "drop (?i + ?n) content = weave (gaps (?i + ?n) content ms) (map (region content) ms)"
    by auto
  have "drop p content = take (?i - p) (drop p content) @ drop ?i content"
    using p by (metis append_take_drop_id drop_drop le_add_diff_inverse2)
  also have "drop ?i content = region content m @ drop (?i + ?n) content"
    by (metis add.commute append_take_drop_id drop_drop region_def)
  finally show ?case
    by (simp add: IH)
qed simp

lemma applyReplacements_weave:
  "apart p (length content) ms \<Longrightarrow>
     applyReplacements content ms 0 = take p content @ weave (gaps p content ms) (map rp_newText ms)"
proof (induction p content ms rule: gaps.induct)
  case (1 p content)
  then show ?case by (simp add: applyReplacements_def)
next
  case (2 p content m ms)
  let ?i = "rp_matchIndex m" and ?n = "rp_matchLength m"
  from 2 have p: "p \<le> ?i" and le: "?i + ?n \<le> length content"
    and IH: "applyReplacements content ms 0 = take (?i + ?n) content @ weave (gaps (?i + ?n) content ms) (map rp_newText ms)"
    by (auto dest: apart_le)
  have "take ?i content = take p content @ take (?i - p) (drop p content)"
    using p by (metis le_add_diff_inverse take_add)
  moreover have "applyReplacements content (m # ms) 0 = apply_one 0 m (applyReplacements content ms 0)"
    by (simp add: applyReplacements_def)
  ultimately show ?case
    using le by (simp add: IH apply_one_def nat_add_distrib)
qed

section \<open>All occurrences of a text\<close>

lemma occurrence_offsets_returns:
  assumes "occurrence_offsets content pat position offsets = Some r"
  shows "pat \<noteq> [] \<or> position = None"
proof (rule occurrence_offsets.raw_induct [where P = "\<lambda>content pat position offsets r. pat \<noteq> [] \<or> position = None", OF _ assms])
  fix f :: "js_string \<Rightarrow> js_string \<Rightarrow> nat option \<Rightarrow> nat list \<Rightarrow> nat list option"
  fix content pat and position :: "nat option" and offsets r
  assume IH: "\<And>content pat position offsets r. f content pat position offsets = Some r \<Longrightarrow> pat \<noteq> [] \<or> position = None"
  assume body: "(case position of None \<Rightarrow> Some offsets
    | Some i \<Rightarrow> f content pat (index_of content pat (i + 1)) (offsets @ [i])) = Some r"
  show "pat \<noteq> [] \<or> position = None"
  proof (cases position)
    case (Some i)
    with body have "f content pat (index_of content pat (i + 1)) (offsets @ [i]) = Some r"
      by simp
    then have "pat \<noteq> [] \<or> index_of content pat (i + 1) = None"
      by (rule IH)
    moreover have "index_of content [] (i + 1) \<noteq> None"
      using index_of_None [of content "[]" "i + 1" "length content"] by (auto simp: occurs_at_def)
    ultimately show ?thesis by auto
  qed simp
qed

lemma occurrence_offsets_empty: "occurrence_offsets content [] (Some i) offsets = None"
  using occurrence_offsets_returns [of content "[]" "Some i" offsets]
  by (cases "occurrence_offsets content [] (Some i) offsets") auto

lemma occurrences_from:
  assumes "pat \<noteq> []"
  shows "filter (occurs_at content pat) [s..<Suc (length content)] =
    (case index_of content pat s of
       None \<Rightarrow> [] | Some i \<Rightarrow> i # filter (occurs_at content pat) [Suc i..<Suc (length content)])"
proof (cases "index_of content pat s")
  case None
  then have "\<not> occurs_at content pat j" if "s \<le> j" for j
    using index_of_None [OF None, of j] that by simp
  with None show ?thesis by (auto simp: filter_empty_conv simp del: upt_Suc)
next
  case (Some i)
  have i: "s \<le> i" "i < length content + 1" "occurs_at content pat i"
    using index_of_bounds [OF Some assms] index_of_Some(2) [OF Some] by auto
  have "\<not> occurs_at content pat j" if "s \<le> j" "j < i" for j
    using index_of_Some(3) [OF Some, of j] that by simp
  then have "filter (occurs_at content pat) [s..<i] = []"
    by (simp add: filter_empty_conv)
  moreover have "[s..<Suc (length content)] = [s..<i] @ i # [Suc i..<Suc (length content)]"
    using i by (metis Suc_eq_plus1 le_add_diff_inverse upt_add_eq_append upt_conv_Cons less_imp_le_nat)
  ultimately show ?thesis
    using Some i by simp
qed

lemma occurrence_offsets_complete:
  assumes "pat \<noteq> []"
  shows "occurrence_offsets content pat (index_of content pat s) offsets =
    Some (offsets @ filter (occurs_at content pat) [s..<Suc (length content)])"
proof (induction "length content + 1 - s" arbitrary: s offsets rule: less_induct)
  case less
  show ?case
  proof (cases "index_of content pat s")
    case None
    then show ?thesis
      by (subst occurrence_offsets.simps) (simp add: occurrences_from [OF assms, of content s] del: upt_Suc)
  next
    case (Some i)
    have "length content + 1 - (i + 1) < length content + 1 - s"
      using index_of_bounds [OF Some assms] assms by (cases pat) auto
    from less [OF this, of "offsets @ [i]"] Some show ?thesis
      by (subst occurrence_offsets.simps) (simp add: occurrences_from [OF assms, of content s] del: upt_Suc)
  qed
qed

lemma findAllOccurrenceOffsets_eq:
  "pat \<noteq> [] \<Longrightarrow> findAllOccurrenceOffsets content pat = Some (filter (occurs_at content pat) [0..<Suc (length content)])"
  by (simp add: findAllOccurrenceOffsets_def occurrence_offsets_complete)

lemma findAllOccurrenceOffsets_empty: "findAllOccurrenceOffsets content [] = None"
proof -
  obtain i where "index_of content [] 0 = Some i"
    using index_of_None [of content "[]" 0 0] by (cases "index_of content [] 0") (auto simp: occurs_at_def)
  then show ?thesis
    by (simp add: findAllOccurrenceOffsets_def occurrence_offsets_empty)
qed

lemma literal_match_returns: "literal_match content pat i fuzzy tier = None \<longleftrightarrow> pat = []"
  by (cases "pat = []") (simp_all add: literal_match_def findAllOccurrenceOffsets_eq findAllOccurrenceOffsets_empty)

lemma occurs_iff_index_of: "(\<exists>i. occurs_at content pat i) \<longleftrightarrow> index_of content pat 0 \<noteq> None"
  using index_of_None [of content pat 0] index_of_Some(2) [of content pat 0] by fastforce

lemma absent_iff: "(\<forall>i. \<not> occurs_at content pat i) \<longleftrightarrow> index_of content pat 0 = None"
  using occurs_iff_index_of [of content pat] by blast

text \<open>The search returns unless the text is emptied by the normalization and does not occur verbatim: then
  the collection of its occurrences never ends.\<close>

lemma fuzzyFindText_returns:
  assumes "oldText \<noteq> []"
  shows "fuzzyFindText nfkc content oldText = None \<longleftrightarrow>
    (\<forall>i. \<not> occurs_at content oldText i) \<and> normalizeForFuzzyMatch nfkc oldText = []"
proof -
  have "index_of content [] 0 = Some 0" for content
    by (cases content) (simp_all add: index_of_def)
  then show ?thesis
    using assms unfolding absent_iff by (auto simp: fuzzyFindText_def literal_match_returns Let_def split: option.split)
qed

lemma match_edit_returns:
  assumes "ed_oldText e \<noteq> []" and "normalizeForFuzzyMatch nfkc (ed_oldText e) \<noteq> []"
  shows "match_edit nfkc base content n i e ms \<noteq> None"
  using assms fuzzyFindText_returns [OF assms(1)] by (auto simp: match_edit_def split: option.split list.split)

lemma match_edits_returns:
  "\<forall>e\<in>set es. ed_oldText e \<noteq> [] \<and> normalizeForFuzzyMatch nfkc (ed_oldText e) \<noteq> []
   \<Longrightarrow> match_edits nfkc base content n i es ms \<noteq> None"
proof (induction es arbitrary: i ms)
  case (Cons e es)
  then have "match_edit nfkc base content n i e ms \<noteq> None"
    by (intro match_edit_returns) auto
  with Cons show ?case
    by (auto split: option.split sum.split)
qed simp

lemma initial_matches_None:
  "initial_matches nfkc content es = None \<longleftrightarrow> (\<exists>e\<in>set es. fuzzyFindText nfkc content (ed_oldText e) = None)"
  by (induction es) (auto split: option.split)

lemma first_index_None: "first_index P xs i = None \<longleftrightarrow> (\<forall>x\<in>set xs. \<not> P x)"
  by (induction P xs i rule: first_index.induct) auto

lemma normalize_edit_old [simp]: "ed_oldText (normalize_edit e) = normalizeToLF (ed_oldText e)"
  by (simp add: normalize_edit_def)

text \<open>C36: A list of edits is applied or refused after finitely many steps if no old text is emptied by the
  normalization for fuzzy matching. If an old text is emptied, for instance a run of blanks, and does not
  occur verbatim in the file, the call does not return.\<close>

theorem edits_return:
  "((\<forall>e\<in>set edits. normalizeForFuzzyMatch nfkc (normalizeToLF (ed_oldText e)) \<noteq> [])
      \<longrightarrow> (\<exists>r. applyEditsToNormalizedContent nfkc content edits = Some r))
   \<and> (\<forall>e\<in>set edits. normalizeForFuzzyMatch nfkc (normalizeToLF (ed_oldText e)) = []
      \<and> (\<forall>i. \<not> occurs_at content (normalizeToLF (ed_oldText e)) i)
      \<and> (\<forall>d\<in>set edits. normalizeToLF (ed_oldText d) \<noteq> [])
      \<longrightarrow> applyEditsToNormalizedContent nfkc content edits = None)"
proof (intro conjI impI ballI)
  assume texts: "\<forall>e\<in>set edits. normalizeForFuzzyMatch nfkc (normalizeToLF (ed_oldText e)) \<noteq> []"
  let ?es = "map normalize_edit edits"
  show "\<exists>r. applyEditsToNormalizedContent nfkc content edits = Some r"
  proof (cases "first_index (\<lambda>e. ed_oldText e = []) ?es 0")
    case None
    then have es: "\<forall>e\<in>set ?es. ed_oldText e \<noteq> [] \<and> normalizeForFuzzyMatch nfkc (ed_oldText e) \<noteq> []"
      using texts by (auto simp: first_index_None)
    then have "initial_matches nfkc content ?es \<noteq> None"
      by (auto simp: initial_matches_None fuzzyFindText_returns)
    moreover have "match_edits nfkc base content n 0 ?es [] \<noteq> None" for base n
      using es by (rule match_edits_returns)
    ultimately show ?thesis
      using None by (simp add: applyEditsToNormalizedContent_def Let_def del: not_None_eq split: option.split)
  qed (simp add: applyEditsToNormalizedContent_def Let_def)
next
  fix e
  assume e: "e \<in> set edits" and blank: "normalizeForFuzzyMatch nfkc (normalizeToLF (ed_oldText e)) = []
      \<and> (\<forall>i. \<not> occurs_at content (normalizeToLF (ed_oldText e)) i)
      \<and> (\<forall>d\<in>set edits. normalizeToLF (ed_oldText d) \<noteq> [])"
  let ?es = "map normalize_edit edits"
  have "initial_matches nfkc content ?es = None"
    using e blank by (auto simp: initial_matches_None fuzzyFindText_returns)
  moreover have "first_index (\<lambda>e. ed_oldText e = []) ?es 0 = None"
    using blank by (auto simp: first_index_None)
  ultimately show "applyEditsToNormalizedContent nfkc content edits = None"
    by (simp add: applyEditsToNormalizedContent_def Let_def)
qed

theorem edits_return_witness:
  "applyEditsToNormalizedContent id [97, 98] [\<lparr>ed_oldText = [32], ed_newText = [99]\<rparr>] = None
   \<and> (\<exists>r. applyEditsToNormalizedContent id [97, 98] [\<lparr>ed_oldText = [98], ed_newText = [99]\<rparr>] = Some r)"
proof
  have "normalizeForFuzzyMatch id (normalizeToLF [32]) = []" "normalizeToLF [32] \<noteq> []" "index_of [97, 98] (normalizeToLF [32]) 0 = None"
    by code_simp+
  then show "applyEditsToNormalizedContent id [97, 98] [\<lparr>ed_oldText = [32], ed_newText = [99]\<rparr>] = None"
    using edits_return [of "[\<lparr>ed_oldText = [32], ed_newText = [99]\<rparr>]" id "[97, 98]"] by (simp add: absent_iff)
  have "normalizeForFuzzyMatch id (normalizeToLF [98]) \<noteq> []"
    by code_simp
  then show "\<exists>r. applyEditsToNormalizedContent id [97, 98] [\<lparr>ed_oldText = [98], ed_newText = [99]\<rparr>] = Some r"
    using edits_return [of "[\<lparr>ed_oldText = [98], ed_newText = [99]\<rparr>]" id "[97, 98]"] by simp
qed

section \<open>Edits whose old texts occur verbatim\<close>

lemma occurs_at_Cons: "occurs_at (u # us) pat (Suc i) \<longleftrightarrow> occurs_at us pat i"
  by (simp add: occurs_at_def)

lemma occurs_at_drop: "occurs_at (drop k content) pat i \<Longrightarrow> k \<le> length content \<Longrightarrow> occurs_at content pat (k + i)"
  by (auto simp: occurs_at_def ac_simps)

lemma split_text_absent: "pat \<noteq> [] \<Longrightarrow> \<forall>i. \<not> occurs_at content pat i \<Longrightarrow> length (split_text pat content) = 1"
proof (induction content)
  case Nil
  then show ?case by (subst split_text.simps) simp
next
  case (Cons u us)
  then have "\<not> prefix pat (u # us)" "length (split_text pat us) = 1"
    by (force simp: occurs_at_def dest: spec [of _ 0], metis occurs_at_Cons)
  with Cons.prems(1) show ?case
    by (subst split_text.simps) (auto simp: length_Suc_conv)
qed

lemma split_text_unique: "pat \<noteq> [] \<Longrightarrow> \<exists>!i. occurs_at content pat i \<Longrightarrow> length (split_text pat content) = 2"
proof (induction content)
  case Nil
  then show ?case by (auto simp: occurs_at_def)
next
  case (Cons u us)
  show ?case
  proof (cases "prefix pat (u # us)")
    case True
    then have zero: "occurs_at (u # us) pat 0" and len: "length pat \<le> length (u # us)"
      using prefix_length_le [of pat "u # us"] by (simp_all add: occurs_at_def)
    have "\<not> occurs_at (drop (length pat) (u # us)) pat i" for i
    proof
      assume "occurs_at (drop (length pat) (u # us)) pat i"
      then have "occurs_at (u # us) pat (length pat + i)"
        using len by (rule occurs_at_drop)
      with zero Cons.prems show False by (metis add_is_0 length_0_conv)
    qed
    then have "length (split_text pat (drop (length pat) (u # us))) = 1"
      using split_text_absent [OF Cons.prems(1)] by blast
    with True Cons.prems(1) show ?thesis
      by (subst split_text.simps) simp
  next
    case False
    then have not_zero: "\<not> occurs_at (u # us) pat 0"
      by (simp add: occurs_at_def)
    obtain i where i: "occurs_at (u # us) pat i" "\<And>j. occurs_at (u # us) pat j \<Longrightarrow> j = i"
      using Cons.prems(2) by blast
    obtain k where k: "i = Suc k"
      using not_zero i(1) by (cases i) blast+
    have "\<exists>!j. occurs_at us pat j"
    proof (rule ex1I)
      show "occurs_at us pat k"
        using i(1) by (simp add: k occurs_at_Cons)
      show "j = k" if "occurs_at us pat j" for j
        using i(2) [of "Suc j"] that by (simp add: k occurs_at_Cons)
    qed
    with Cons False show ?thesis
      by (subst split_text.simps) (auto split: list.split)
  qed
qed

text \<open>The region of an edit whose old text occurs verbatim.\<close>

definition exact_edit :: "js_string \<Rightarrow> nat \<times> edit_spec \<Rightarrow> matched_edit" where
  "exact_edit content ie =
     \<lparr>rp_matchIndex = the (index_of content (ed_oldText (snd ie)) 0), rp_matchLength = length (ed_oldText (snd ie)),
      rp_newText = ed_newText (snd ie), me_editIndex = fst ie\<rparr>"

definition unique_old :: "js_string \<Rightarrow> edit_spec \<Rightarrow> bool" where
  "unique_old content e \<longleftrightarrow> ed_oldText e \<noteq> [] \<and> (\<exists>!i. occurs_at content (ed_oldText e) i)"

lemma unique_old_eval:
  "unique_old content e \<longleftrightarrow> ed_oldText e \<noteq> [] \<and> length (filter (occurs_at content (ed_oldText e)) [0..<Suc (length content)]) = 1"
proof -
  let ?P = "occurs_at content (ed_oldText e)"
  have "{i. ?P i} = set (filter ?P [0..<Suc (length content)])"
    by (auto simp: occurs_at_def less_Suc_eq_le simp del: upt_Suc)
  then have "card {i. ?P i} = length (filter ?P [0..<Suc (length content)])"
    by (simp add: distinct_card distinct_filter del: upt_Suc set_filter)
  moreover have "(\<exists>!i. ?P i) \<longleftrightarrow> card {i. ?P i} = 1"
    unfolding One_nat_def card_1_singleton_iff set_eq_iff mem_Collect_eq singleton_iff Ex1_def by metis
  ultimately show ?thesis by (simp add: unique_old_def)
qed

lemma unique_old_found:
  assumes "unique_old content e"
  shows "\<exists>m. fuzzyFindText nfkc content (ed_oldText e) = Some m \<and> fm_found m \<and> \<not> fm_usedFuzzyMatch m
    \<and> fm_index m = int (the (index_of content (ed_oldText e) 0)) \<and> fm_matchLength m = length (ed_oldText e)
    \<and> fm_matchTier m = Some Exact \<and> fm_occurrenceCount m = Some 1"
proof -
  have "countStringOccurrences content (ed_oldText e) = 1"
    using assms split_text_unique by (simp add: unique_old_def countStringOccurrences_def)
  moreover obtain i where "index_of content (ed_oldText e) 0 = Some i"
    using assms occurs_iff_index_of [of content "ed_oldText e"] by (auto simp: unique_old_def)
  ultimately show ?thesis
    using assms by (simp add: unique_old_def fuzzyFindText_def literal_match_def findAllOccurrenceOffsets_eq)
qed

lemma match_edit_exact:
  "unique_old content e \<Longrightarrow> match_edit nfkc content content n i e ms = Some (Ok (exact_edit content (i, e)))"
  using unique_old_found [of content e nfkc] by (auto simp: match_edit_def exact_edit_def without_trailing_newline_def)

lemma match_edits_exact:
  "\<forall>e\<in>set es. unique_old content e \<Longrightarrow>
     match_edits nfkc content content n i es ms = Some (Ok (ms @ map (exact_edit content) (enumerate i es)))"
  by (induction es arbitrary: i ms) (simp_all add: match_edit_exact)

lemma initial_matches_exact:
  "\<forall>e\<in>set es. unique_old content e \<Longrightarrow>
     \<exists>ms. initial_matches nfkc content es = Some ms \<and> \<not> list_ex fm_usedFuzzyMatch ms"
proof (induction es)
  case (Cons e es)
  with unique_old_found [of content e nfkc] show ?case by auto
qed simp

lemma exact_edits_eq:
  assumes "\<forall>e\<in>set edits. unique_old content (normalize_edit e)"
  shows "applyEditsToNormalizedContent nfkc content edits =
    Some (finish_edits content content False (length edits) (map (exact_edit content) (enumerate 0 (map normalize_edit edits))))"
proof -
  let ?es = "map normalize_edit edits"
  from assms have es: "\<forall>e\<in>set ?es. unique_old content e"
    by simp
  then have "first_index (\<lambda>e. ed_oldText e = []) ?es 0 = None"
    by (auto simp: first_index_None unique_old_def)
  moreover obtain ms where "initial_matches nfkc content ?es = Some ms" "\<not> list_ex fm_usedFuzzyMatch ms"
    using initial_matches_exact [OF es] by blast
  ultimately show ?thesis
    using match_edits_exact [OF es] by (simp add: applyEditsToNormalizedContent_def Let_def)
qed

lemma exact_edit_region:
  assumes "unique_old content e"
  shows "region content (exact_edit content (i, e)) = ed_oldText e"
    and "occurs_at content (ed_oldText e) (rp_matchIndex (exact_edit content (i, e)))"
proof -
  obtain k where k: "index_of content (ed_oldText e) 0 = Some k"
    using assms occurs_iff_index_of [of content "ed_oldText e"] by (auto simp: unique_old_def)
  then show "occurs_at content (ed_oldText e) (rp_matchIndex (exact_edit content (i, e)))"
    using index_of_Some(2) [OF k] by (simp add: exact_edit_def)
  then show "region content (exact_edit content (i, e)) = ed_oldText e"
    by (auto simp: region_def exact_edit_def occurs_at_def prefix_def k)
qed

lemma check_overlaps_Ok:
  "check_overlaps (m # ms) = Ok () \<Longrightarrow> \<forall>x\<in>set (m # ms). rp_matchIndex x + rp_matchLength x \<le> n
   \<Longrightarrow> p \<le> rp_matchIndex m \<Longrightarrow> apart p n (m # ms)"
proof (induction ms arbitrary: m p)
  case Nil
  then show ?case by simp
next
  case (Cons c ms)
  then have "check_overlaps (c # ms) = Ok ()" "rp_matchIndex m + rp_matchLength m \<le> rp_matchIndex c"
    by (auto simp: res_simps)
  with Cons show ?case by simp
qed

lemma check_overlaps_Err:
  "check_overlaps ms = Err e \<Longrightarrow>
     \<exists>xs p c ys. ms = xs @ p # c # ys \<and> e = Overlap (me_editIndex p) (me_editIndex c)
       \<and> rp_matchIndex c < rp_matchIndex p + rp_matchLength p"
proof (induction ms rule: check_overlaps.induct)
  case (1 p c ms)
  show ?case
  proof (cases "rp_matchIndex c < rp_matchIndex p + rp_matchLength p")
    case True
    with "1.prems" show ?thesis
      by (intro exI [of _ "[]"] exI [of _ p] exI [of _ c] exI [of _ ms]) simp
  next
    case False
    with 1 obtain xs q d ys where "c # ms = xs @ q # d # ys" "e = Overlap (me_editIndex q) (me_editIndex d)"
        "rp_matchIndex d < rp_matchIndex q + rp_matchLength q"
      by auto
    then show ?thesis
      by (intro exI [of _ "p # xs"] exI [of _ q] exI [of _ d] exI [of _ ys]) simp
  qed
qed auto

lemma insort_key_map: "insort_key f (g x) (map g xs) = map g (insort_key (f \<circ> g) x xs)"
  by (induction xs) simp_all

lemma sort_key_map: "sort_key f (map g xs) = map g (sort_key (f \<circ> g) xs)"
  by (induction xs) (simp_all add: insort_key_map [unfolded comp_def] comp_def)

text \<open>A text in which the old texts of some edits, each once and disjoint, are replaced by the new ones.\<close>

definition replaces :: "edit_spec list \<Rightarrow> js_string \<Rightarrow> js_string \<Rightarrow> bool" where
  "replaces edits content new \<longleftrightarrow>
     (\<exists>gs es. mset es = mset edits \<and> length gs = length es + 1
        \<and> content = weave gs (map ed_oldText es) \<and> new = weave gs (map ed_newText es))"

lemma apart_replaces:
  assumes apart: "apart 0 (length content) (map (exact_edit content) ies)"
    and old: "\<forall>e\<in>set ies. unique_old content (snd e)"
  shows "replaces (map snd ies) content (applyReplacements content (map (exact_edit content) ies) 0)"
proof -
  let ?ms = "map (exact_edit content) ies"
  let ?gs = "gaps 0 content ?ms"
  have regions: "map (region content) ?ms = map ed_oldText (map snd ies)"
    using old exact_edit_region(1) by (auto simp: comp_def)
  have "content = weave ?gs (map ed_oldText (map snd ies))"
    using gaps_cover [OF apart] unfolding regions by simp
  moreover have "applyReplacements content ?ms 0 = weave ?gs (map ed_newText (map snd ies))"
    using applyReplacements_weave [OF apart] by (simp add: comp_def exact_edit_def)
  ultimately show ?thesis
    unfolding replaces_def by (metis length_gaps length_map)
qed

lemma finish_exact:
  fixes edits :: "edit_spec list"
  assumes unique: "\<forall>e\<in>set edits. unique_old content e"
  defines "ies \<equiv> enumerate 0 edits"
  defines "ms \<equiv> sort_key rp_matchIndex (map (exact_edit content) ies)"
  shows "check_overlaps ms = Ok () \<Longrightarrow> replaces edits content (applyReplacements content ms 0)"
    and "check_overlaps ms = Err e \<Longrightarrow>
      \<exists>i j p q. e = Overlap i j \<and> i < length edits \<and> j < length edits \<and> i \<noteq> j
        \<and> occurs_at content (ed_oldText (edits ! i)) p \<and> occurs_at content (ed_oldText (edits ! j)) q
        \<and> p \<le> q \<and> q < p + length (ed_oldText (edits ! i))"
proof -
  define sorted_ies where "sorted_ies = sort_key (rp_matchIndex \<circ> exact_edit content) ies"
  have ms: "ms = map (exact_edit content) sorted_ies"
    by (simp add: ms_def sorted_ies_def sort_key_map)
  have members: "unique_old content (snd ie) \<and> fst ie < length edits \<and> edits ! fst ie = snd ie" if "ie \<in> set sorted_ies" for ie
  proof -
    from that have "ie \<in> set (enumerate 0 edits)"
      by (simp add: sorted_ies_def ies_def)
    then have "fst ie < length edits" "edits ! fst ie = snd ie"
      by (auto simp: in_set_enumerate_eq)
    with unique nth_mem show ?thesis by metis
  qed
  have within: "\<forall>x\<in>set ms. rp_matchIndex x + rp_matchLength x \<le> length content"
  proof
    fix x assume "x \<in> set ms"
    then obtain ie where "ie \<in> set sorted_ies" "x = exact_edit content ie"
      by (auto simp: ms)
    with members [of ie] exact_edit_region(2) [of content "snd ie" "fst ie"] show "rp_matchIndex x + rp_matchLength x \<le> length content"
      by (auto dest!: occurs_at_length simp: exact_edit_def)
  qed
  show "replaces edits content (applyReplacements content ms 0)" if "check_overlaps ms = Ok ()"
  proof -
    have "apart 0 (length content) ms"
      using check_overlaps_Ok [of _ _ "length content" 0] that within by (cases ms) auto
    then have "replaces (map snd sorted_ies) content (applyReplacements content ms 0)"
      unfolding ms by (rule apart_replaces) (use members in blast)
    moreover have "mset (map snd sorted_ies) = mset edits"
      unfolding sorted_ies_def ies_def by (metis map_snd_enumerate mset_map mset_sort)
    ultimately show ?thesis
      by (simp add: replaces_def)
  qed
  show "\<exists>i j p q. e = Overlap i j \<and> i < length edits \<and> j < length edits \<and> i \<noteq> j
        \<and> occurs_at content (ed_oldText (edits ! i)) p \<and> occurs_at content (ed_oldText (edits ! j)) q
        \<and> p \<le> q \<and> q < p + length (ed_oldText (edits ! i))" if err: "check_overlaps ms = Err e"
  proof -
    obtain xs p c ys where split: "ms = xs @ p # c # ys" "e = Overlap (me_editIndex p) (me_editIndex c)"
        "rp_matchIndex c < rp_matchIndex p + rp_matchLength p"
      using check_overlaps_Err [OF err] by blast
    then obtain us a b vs where ies: "sorted_ies = us @ a # b # vs" "p = exact_edit content a" "c = exact_edit content b"
      unfolding ms by (auto simp: map_eq_append_conv map_eq_Cons_conv)
    have "sorted (map rp_matchIndex ms)"
      by (simp add: ms_def)
    then have "rp_matchIndex p \<le> rp_matchIndex c"
      by (simp add: split(1) sorted_append)
    moreover have "distinct (map fst sorted_ies)"
    proof -
      have "mset (map fst sorted_ies) = mset [0..<length edits]"
        unfolding sorted_ies_def ies_def by (metis add_0 map_fst_enumerate mset_map mset_sort)
      then show ?thesis by (metis distinct_upt mset_eq_imp_distinct_iff)
    qed
    then have "fst a \<noteq> fst b"
      by (simp add: ies)
    moreover have "a \<in> set sorted_ies" "b \<in> set sorted_ies"
      by (simp_all add: ies)
    then have "fst a < length edits" "fst b < length edits" "edits ! fst a = snd a" "edits ! fst b = snd b"
        "occurs_at content (ed_oldText (snd a)) (rp_matchIndex p)" "occurs_at content (ed_oldText (snd b)) (rp_matchIndex c)"
      using members exact_edit_region(2) [of content "snd a" "fst a"] exact_edit_region(2) [of content "snd b" "fst b"]
      by (auto simp: ies)
    ultimately show ?thesis
      using split by (intro exI [of _ "fst a"] exI [of _ "fst b"] exI [of _ "rp_matchIndex p"] exI [of _ "rp_matchIndex c"])
        (simp add: ies exact_edit_def)
  qed
qed

lemma exact_edits_replace:
  assumes "\<forall>e\<in>set edits. unique_old content (normalize_edit e)"
    and "applyEditsToNormalizedContent nfkc content edits = Some (Ok (base, new))"
  shows "new \<noteq> content" and "replaces (map normalize_edit edits) content new"
  using assms(2) finish_exact(1) [of "map normalize_edit edits" content] assms(1)
  by (auto simp: exact_edits_eq [OF assms(1)] finish_edits_def Let_def res_simps split: if_splits)

text \<open>C9: If each old text, with line breaks normalized, occurs in the content at exactly one position, the
  edits are applied in place: the content is made of gaps and the old texts in some order, the result of the
  same gaps and the new texts. The call is refused only if two old texts overlap or nothing changes.\<close>

theorem exact_edits_applied:
  assumes "\<forall>e\<in>set edits. unique_old content (normalize_edit e)"
  shows "case applyEditsToNormalizedContent nfkc content edits of
      Some (Inr (base, new)) \<Rightarrow> base = content \<and> new \<noteq> content \<and> replaces (map normalize_edit edits) content new
    | Some (Inl (Overlap i j)) \<Rightarrow>
        i < length edits \<and> j < length edits \<and> i \<noteq> j
        \<and> (\<exists>p q. occurs_at content (normalizeToLF (ed_oldText (edits ! i))) p
             \<and> occurs_at content (normalizeToLF (ed_oldText (edits ! j))) q
             \<and> p \<le> q \<and> q < p + length (normalizeToLF (ed_oldText (edits ! i))))
    | Some (Inl (NoChange n)) \<Rightarrow> n = length edits \<and> replaces (map normalize_edit edits) content content
    | _ \<Rightarrow> False"
proof -
  let ?es = "map normalize_edit edits"
  let ?ms = "sort_key rp_matchIndex (map (exact_edit content) (enumerate 0 ?es))"
  have es: "\<forall>e\<in>set ?es. unique_old content e"
    using assms by simp
  show ?thesis
  proof (cases "check_overlaps ?ms")
    case (Inl e)
    then obtain i j p q where "e = Overlap i j" "i < length edits" "j < length edits" "i \<noteq> j"
        "occurs_at content (ed_oldText (?es ! i)) p" "occurs_at content (ed_oldText (?es ! j)) q"
        "p \<le> q" "q < p + length (ed_oldText (?es ! i))"
      using finish_exact(2) [OF es Inl] by auto
    then show ?thesis
      using Inl by (auto simp: exact_edits_eq [OF assms] finish_edits_def Let_def)
  next
    case (Inr u)
    then have "replaces ?es content (applyReplacements content ?ms 0)"
      using finish_exact(1) [OF es] by simp
    then show ?thesis
      using Inr by (cases "content = applyReplacements content ?ms 0") (simp_all add: exact_edits_eq [OF assms] finish_edits_def Let_def)
  qed
qed

theorem exact_edits_applied_witness:
  "\<exists>new. applyEditsToNormalizedContent id [97, 98, 97, 99] [\<lparr>ed_oldText = [97, 99], ed_newText = []\<rparr>, \<lparr>ed_oldText = [98], ed_newText = [10]\<rparr>]
       = Some (Ok ([97, 98, 97, 99], new)) \<and> new = [97, 10]
     \<and> replaces [\<lparr>ed_oldText = [97, 99], ed_newText = []\<rparr>, \<lparr>ed_oldText = [98], ed_newText = [10]\<rparr>] [97, 98, 97, 99] new"
proof -
  let ?edits = "[\<lparr>ed_oldText = [97, 99], ed_newText = []\<rparr>, \<lparr>ed_oldText = [98], ed_newText = [10]\<rparr>]"
  have "\<forall>e\<in>set ?edits. unique_old [97, 98, 97, 99] (normalize_edit e)"
    unfolding unique_old_eval by code_simp
  note outcome = exact_edits_applied [OF this, of id]
  have "applyEditsToNormalizedContent id [97, 98, 97, 99] ?edits = Some (Ok ([97, 98, 97, 99], [97, 10]))"
    by code_simp
  moreover have "map normalize_edit ?edits = ?edits"
    by code_simp
  ultimately show ?thesis
    using outcome by simp
qed

end
