(* ===== verification/EditOverlay.thy ===== *)
theory EditOverlay
  imports EditCorrect
begin

text \<open>
  The edits that need fuzzy matching: their replacements are computed on the normalized content, and only
  the lines they touch are taken from there; all other lines keep their original form.
\<close>

section \<open>Line spans\<close>

text \<open>The offset at which line \<open>k\<close> begins.\<close>

definition line_offset :: "js_string list \<Rightarrow> nat \<Rightarrow> nat" where
  "line_offset ls k = length (concat (take k ls))"

lemma concat_splitLinesWithEndings [simp]: "concat (splitLinesWithEndings s) = s"
  by (induction s) (auto split: list.split)

lemma length_line_spans [simp]: "length (line_spans off ls) = length ls"
  by (induction off ls rule: line_spans.induct) auto

lemma line_spans_nth:
  "k < length ls \<Longrightarrow> line_spans off ls ! k = \<lparr>span_start = off + line_offset ls k, span_end = off + line_offset ls (Suc k)\<rparr>"
  by (induction off ls arbitrary: k rule: line_spans.induct) (auto simp: nth_Cons line_offset_def split: nat.split)

lemma line_offset_mono: "j \<le> k \<Longrightarrow> line_offset ls j \<le> line_offset ls k"
  by (metis (no_types, lifting) concat_append le_add1 le_add_diff_inverse length_append line_offset_def take_add)

lemma line_offset_all: "length ls \<le> k \<Longrightarrow> line_offset ls k = length (concat ls)"
  by (simp add: line_offset_def)

lemma first_index_Some:
  "first_index P xs i = Some k \<Longrightarrow>
     i \<le> k \<and> k < i + length xs \<and> P (xs ! (k - i)) \<and> (\<forall>j. i \<le> j \<and> j < k \<longrightarrow> \<not> P (xs ! (j - i)))"
proof (induction P xs i rule: first_index.induct)
  case (2 P x xs i)
  show ?case
  proof (cases "P x")
    case True
    with 2 show ?thesis by simp
  next
    case False
    with 2 have IH: "i + 1 \<le> k \<and> k < i + 1 + length xs \<and> P (xs ! (k - (i + 1)))
        \<and> (\<forall>j. i + 1 \<le> j \<and> j < k \<longrightarrow> \<not> P (xs ! (j - (i + 1))))"
      by simp
    have "\<not> P ((x # xs) ! (j - i))" if "i \<le> j" "j < k" for j
      using IH False that by (cases "j = i") (auto simp: nth_Cons' Suc_le_eq)
    moreover have "(x # xs) ! (k - i) = xs ! (k - (i + 1))"
      using IH by (simp add: nth_Cons')
    ultimately show ?thesis using IH by auto
  qed
qed simp

definition touches :: "js_string list \<Rightarrow> 'a text_replacement_scheme \<Rightarrow> nat \<Rightarrow> bool" where
  "touches ls r k \<longleftrightarrow> rp_matchIndex r < line_offset ls (Suc k)
     \<and> (line_offset ls k \<le> rp_matchIndex r \<or> line_offset ls k < rp_matchIndex r + rp_matchLength r)"

lemma getReplacementLineRange_Ok:
  assumes "getReplacementLineRange (line_spans 0 ls) r = Ok (s, e)"
  shows "s < e" and "e \<le> length ls" and "line_offset ls s \<le> rp_matchIndex r"
    and "rp_matchIndex r + rp_matchLength r \<le> line_offset ls e"
    and "s \<le> k \<Longrightarrow> k < e \<Longrightarrow> touches ls r k"
proof -
  let ?sp = "line_spans 0 ls" and ?i = "rp_matchIndex r" and ?stop = "rp_matchIndex r + rp_matchLength r"
  obtain d where s: "first_index (\<lambda>l. span_start l \<le> ?i \<and> ?i < span_end l) ?sp 0 = Some s"
    and d: "first_index (\<lambda>l. \<not> span_end l < ?stop) (drop s ?sp) s = Some d" and e: "e = d + 1"
    using assms by (auto simp: getReplacementLineRange_def Let_def split: option.splits)
  have s': "s < length ls" "line_offset ls s \<le> ?i" "?i < line_offset ls (Suc s)"
    using first_index_Some [OF s] by (auto simp: line_spans_nth)
  have d': "s \<le> d" "d < length ls" "?stop \<le> line_offset ls (Suc d)"
    using first_index_Some [OF d] s'(1) by (auto simp: line_spans_nth)
  have before: "line_offset ls (Suc j) < ?stop" if "s \<le> j" "j < d" for j
    using first_index_Some [OF d] that d'(2) by (auto simp: line_spans_nth)
  show "s < e" "e \<le> length ls" "line_offset ls s \<le> ?i" "?stop \<le> line_offset ls e"
    using s' d' by (simp_all add: e)
  show "touches ls r k" if k: "s \<le> k" "k < e"
  proof (cases "k = s")
    case True
    then show ?thesis using s' by (simp add: touches_def)
  next
    case False
    then obtain j where j: "k = Suc j" "s \<le> j"
      using k by (cases k) auto
    have "?i < line_offset ls (Suc k)"
      using s'(3) line_offset_mono [of "Suc s" "Suc k" ls] k(1) by simp
    with before [of j] j k(2) show ?thesis
      by (simp add: touches_def e)
  qed
qed

section \<open>Groups\<close>

text \<open>Groups in the order of their lines, from line \<open>lo\<close> on.\<close>

fun groups_ok :: "js_string list \<Rightarrow> nat \<Rightarrow> 'a text_replacement_scheme replacement_group list \<Rightarrow> bool" where
  "groups_ok ls lo [] \<longleftrightarrow> lo \<le> length ls"
| "groups_ok ls lo (g # gs) \<longleftrightarrow>
     lo \<le> gr_startLine g \<and> gr_startLine g < gr_endLine g \<and> gr_replacements g \<noteq> []
     \<and> (\<forall>r\<in>set (gr_replacements g). line_offset ls (gr_startLine g) \<le> rp_matchIndex r
           \<and> rp_matchIndex r + rp_matchLength r \<le> line_offset ls (gr_endLine g))
     \<and> (\<forall>k. gr_startLine g \<le> k \<and> k < gr_endLine g \<longrightarrow> (\<exists>r\<in>set (gr_replacements g). touches ls r k))
     \<and> groups_ok ls (gr_endLine g) gs"

lemma groups_ok_snoc:
  "groups_ok ls lo (gs @ [g]) \<longleftrightarrow>
     groups_ok ls lo gs \<and> groups_ok ls (if gs = [] then lo else gr_endLine (last gs)) [g]"
  by (induction gs arbitrary: lo) auto

lemma groups_ok_le: "groups_ok ls lo gs \<Longrightarrow> lo \<le> length ls"
  by (induction gs arbitrary: lo) fastforce+

lemma groups_ok_within:
  "groups_ok ls lo gs \<Longrightarrow> r \<in> set (concat (map gr_replacements gs)) \<Longrightarrow> rp_matchIndex r + rp_matchLength r \<le> length (concat ls)"
proof (induction gs arbitrary: lo)
  case (Cons g gs)
  have "line_offset ls k \<le> length (concat ls)" for k
    by (metis line_offset_all line_offset_mono nat_le_linear)
  with Cons show ?case by (fastforce intro: le_trans)
qed simp

lemma add_to_groups_ok:
  assumes "add_to_groups (line_spans 0 ls) groups r = Ok groups'" and "groups_ok ls 0 (rev groups)"
    and "\<forall>g\<in>set groups. \<forall>x\<in>set (gr_replacements g). rp_matchIndex x \<le> rp_matchIndex r"
  shows "groups_ok ls 0 (rev groups')"
    and "concat (map gr_replacements (rev groups')) = concat (map gr_replacements (rev groups)) @ [r]"
proof -
  obtain s e where range: "getReplacementLineRange (line_spans 0 ls) r = Ok (s, e)"
    using assms(1) by (auto simp: add_to_groups_def res_simps)
  note r = getReplacementLineRange_Ok [OF range]
  let ?new = "\<lparr>gr_startLine = s, gr_endLine = e, gr_replacements = [r]\<rparr>"
  have new: "groups_ok ls lo [?new]" if "lo \<le> s" for lo
    using that r by auto
  have "groups_ok ls 0 (rev groups') \<and> concat (map gr_replacements (rev groups')) = concat (map gr_replacements (rev groups)) @ [r]"
  proof (cases groups)
    case Nil
    with assms(1) range new [of 0] show ?thesis by (auto simp: add_to_groups_def)
  next
    case (Cons current older)
    show ?thesis
    proof (cases "s < gr_endLine current")
      case True
      let ?g = "current\<lparr>gr_endLine := max (gr_endLine current) e, gr_replacements := gr_replacements current @ [r]\<rparr>"
      have g': "groups' = ?g # older"
        using assms(1) range Cons True by (auto simp: add_to_groups_def)
      obtain lo where lo: "groups_ok ls 0 (rev older)" "groups_ok ls lo [current]"
          "lo = (if older = [] then 0 else gr_endLine (last (rev older)))"
        using assms(2) Cons by (auto simp: groups_ok_snoc)
      obtain x where x: "x \<in> set (gr_replacements current)" "line_offset ls (gr_startLine current) \<le> rp_matchIndex x"
        using lo(2) by (metis groups_ok.simps(2) last_in_set)
      have start: "line_offset ls (gr_startLine current) \<le> rp_matchIndex r"
        using x assms(3) Cons by fastforce
      have ends: "line_offset ls (gr_endLine current) \<le> line_offset ls (max (gr_endLine current) e)"
        "line_offset ls e \<le> line_offset ls (max (gr_endLine current) e)"
        by (auto intro: line_offset_mono)
      have "groups_ok ls lo [?g]"
      proof -
        have old: "lo \<le> gr_startLine current" "gr_startLine current < gr_endLine current" "gr_endLine current \<le> length ls"
          "\<forall>x\<in>set (gr_replacements current). line_offset ls (gr_startLine current) \<le> rp_matchIndex x
             \<and> rp_matchIndex x + rp_matchLength x \<le> line_offset ls (gr_endLine current)"
          "\<forall>k. gr_startLine current \<le> k \<and> k < gr_endLine current \<longrightarrow> (\<exists>x\<in>set (gr_replacements current). touches ls x k)"
          using lo(2) by simp_all
        have "\<forall>x\<in>set (gr_replacements ?g). line_offset ls (gr_startLine current) \<le> rp_matchIndex x
             \<and> rp_matchIndex x + rp_matchLength x \<le> line_offset ls (max (gr_endLine current) e)"
          using old(4) r(4) start ends by fastforce
        moreover have "\<exists>x\<in>set (gr_replacements ?g). touches ls x k"
          if "gr_startLine current \<le> k" "k < max (gr_endLine current) e" for k
          using old(5) r(5) [of k] True that by (cases "k < gr_endLine current") auto
        ultimately show ?thesis
          using old(1-3) r(2) by simp
      qed
      then have "groups_ok ls 0 (rev groups')"
        using lo g' by (auto simp: groups_ok_snoc)
      then show ?thesis
        by (simp add: g' Cons)
    next
      case False
      then have "groups' = ?new # groups"
        using assms(1) range Cons by (auto simp: add_to_groups_def)
      moreover have "groups_ok ls 0 (rev groups @ [?new])"
        using groups_ok_snoc [of ls 0 "rev groups" ?new] assms(2) new [of "gr_endLine current"] False Cons by simp
      ultimately show ?thesis by simp
    qed
  qed
  then show "groups_ok ls 0 (rev groups')"
    "concat (map gr_replacements (rev groups')) = concat (map gr_replacements (rev groups)) @ [r]" by auto
qed

lemma fold_groups_ok:
  assumes "fold_res (add_to_groups (line_spans 0 ls)) groups rs = Ok groups'" and "groups_ok ls 0 (rev groups)"
    and "sorted (map rp_matchIndex (concat (map gr_replacements (rev groups)) @ rs))"
  shows "groups_ok ls 0 (rev groups') \<and> concat (map gr_replacements (rev groups')) = concat (map gr_replacements (rev groups)) @ rs"
  using assms
proof (induction rs arbitrary: groups)
  case (Cons r rs)
  then obtain mid where mid: "add_to_groups (line_spans 0 ls) groups r = Ok mid"
      "fold_res (add_to_groups (line_spans 0 ls)) mid rs = Ok groups'"
    by (auto simp: res_simps)
  have "\<forall>g\<in>set groups. \<forall>x\<in>set (gr_replacements g). rp_matchIndex x \<le> rp_matchIndex r"
    using Cons.prems(3) by (auto simp: sorted_append)
  note add = add_to_groups_ok [OF mid(1) Cons.prems(2) this]
  have "groups_ok ls 0 (rev groups') \<and> concat (map gr_replacements (rev groups')) = concat (map gr_replacements (rev mid)) @ rs"
    using Cons.IH [OF mid(2) add(1)] Cons.prems(3) by (simp only: add(2) append_assoc append_Cons append_Nil)
  then show ?case by (simp add: add(2))
qed simp

section \<open>Blocks of lines\<close>

definition line_range :: "nat \<Rightarrow> nat \<Rightarrow> 'a list \<Rightarrow> 'a list" where
  "line_range s e ls = take (e - s) (drop s ls)"

lemma base_slice:
  assumes "s \<le> e"
  shows "take (line_offset ls e - line_offset ls s) (drop (line_offset ls s) (concat ls)) = concat (line_range s e ls)"
proof -
  have "ls = take s ls @ line_range s e ls @ drop e ls"
    using assms by (metis append_take_drop_id drop_drop le_add_diff_inverse2 line_range_def)
  then have parts: "concat ls = concat (take s ls) @ concat (line_range s e ls) @ concat (drop e ls)"
    by (metis concat_append)
  have "take e ls = take s ls @ line_range s e ls"
    using assms by (metis le_add_diff_inverse line_range_def take_add)
  then have "line_offset ls e = line_offset ls s + length (concat (line_range s e ls))"
    by (simp add: line_offset_def)
  then show ?thesis
    by (simp add: parts line_offset_def)
qed

lemma length_base_slice:
  "s \<le> e \<Longrightarrow> length (concat (line_range s e ls)) = line_offset ls e - line_offset ls s"
  by (metis add_diff_cancel_left' concat_append le_add_diff_inverse length_append line_offset_def line_range_def take_add)

definition shift_back :: "nat \<Rightarrow> 'a text_replacement_scheme \<Rightarrow> 'a text_replacement_scheme" where
  "shift_back k r = r\<lparr>rp_matchIndex := rp_matchIndex r - k\<rparr>"

lemma shift_back_fields [simp]:
  "rp_matchIndex (shift_back k r) = rp_matchIndex r - k"
  "rp_matchLength (shift_back k r) = rp_matchLength r"
  "rp_newText (shift_back k r) = rp_newText r"
  by (simp_all add: shift_back_def)

lemma applyReplacements_shift:
  "\<forall>r\<in>set rs. k \<le> rp_matchIndex r \<Longrightarrow> applyReplacements content rs k = applyReplacements content (map (shift_back k) rs) 0"
  by (induction rs) (simp_all add: applyReplacements_def apply_one_def of_nat_diff)

lemma apart_part:
  "apart p n (xs @ ys) \<Longrightarrow> \<forall>x\<in>set xs. k \<le> rp_matchIndex x \<and> rp_matchIndex x + rp_matchLength x \<le> m \<Longrightarrow> k \<le> q \<Longrightarrow> q \<le> m
   \<Longrightarrow> (xs \<noteq> [] \<longrightarrow> q \<le> rp_matchIndex (hd xs)) \<Longrightarrow> apart (q - k) (m - k) (map (shift_back k) xs)"
proof (induction xs arbitrary: p q)
  case (Cons x xs)
  let ?q = "rp_matchIndex x + rp_matchLength x"
  have rest: "apart ?q n (xs @ ys)"
    using Cons.prems(1) by simp
  moreover have "xs \<noteq> [] \<longrightarrow> ?q \<le> rp_matchIndex (hd xs)"
    using rest by (cases xs) auto
  ultimately have "apart (?q - k) (m - k) (map (shift_back k) xs)"
    using Cons.IH [of ?q ?q] Cons.prems by simp
  with Cons.prems show ?case by (simp add: diff_le_mono)
qed auto

lemma apart_rest: "apart p n (xs @ ys) \<Longrightarrow> \<exists>q. apart q n ys"
  by (induction xs arbitrary: p) auto

lemma region_slice:
  assumes "line_offset ls s \<le> rp_matchIndex r" and "rp_matchIndex r + rp_matchLength r \<le> line_offset ls e" and "s \<le> e"
  shows "region (concat (line_range s e ls)) (shift_back (line_offset ls s) r) = region (concat ls) r"
  using assms by (simp add: region_def base_slice [OF assms(3), symmetric] drop_take min_def)

record 'a line_block =
  bk_start :: nat
  bk_end :: nat
  bk_edits :: "'a list"
  bk_gaps :: "js_string list"

fun contiguous :: "nat \<Rightarrow> nat \<Rightarrow> 'a line_block list \<Rightarrow> bool" where
  "contiguous k n [] \<longleftrightarrow> k = n"
| "contiguous k n (b # bs) \<longleftrightarrow> bk_start b = k \<and> k \<le> bk_end b \<and> contiguous (bk_end b) n bs"

text \<open>The text of a block: a block without edits keeps the original lines, a block with edits has the lines of
  the base with the edits applied.\<close>

definition block_text :: "js_string list \<Rightarrow> 'a text_replacement_scheme line_block \<Rightarrow> js_string" where
  "block_text originalLines b =
     (if bk_edits b = [] then concat (line_range (bk_start b) (bk_end b) originalLines)
      else weave (bk_gaps b) (map rp_newText (bk_edits b)))"

text \<open>Every line of a block with edits is touched by one of them, and between the edits the block is the base.\<close>

definition block_ok :: "js_string list \<Rightarrow> 'a text_replacement_scheme line_block \<Rightarrow> bool" where
  "block_ok baseLines b \<longleftrightarrow>
     (bk_edits b \<noteq> [] \<longrightarrow>
        length (bk_gaps b) = length (bk_edits b) + 1
        \<and> concat (line_range (bk_start b) (bk_end b) baseLines) = weave (bk_gaps b) (map (region (concat baseLines)) (bk_edits b))
        \<and> (\<forall>k. bk_start b \<le> k \<and> k < bk_end b \<longrightarrow> (\<exists>r\<in>set (bk_edits b). touches baseLines r k)))"

definition keep_block :: "nat \<Rightarrow> nat \<Rightarrow> 'a line_block" where
  "keep_block s e = \<lparr>bk_start = s, bk_end = e, bk_edits = [], bk_gaps = []\<rparr>"

lemma edited_block:
  assumes "groups_ok ls lo (g # gs)" and "apart p (length (concat ls)) (gr_replacements g @ rest)"
  defines "k \<equiv> line_offset ls (gr_startLine g)"
  shows "\<exists>gaps. block_ok ls \<lparr>bk_start = gr_startLine g, bk_end = gr_endLine g, bk_edits = gr_replacements g, bk_gaps = gaps\<rparr>
    \<and> applyReplacements (concat (line_range (gr_startLine g) (gr_endLine g) ls)) (gr_replacements g) k
      = weave gaps (map rp_newText (gr_replacements g))"
proof -
  let ?rs = "gr_replacements g" and ?chunk = "concat (line_range (gr_startLine g) (gr_endLine g) ls)"
  let ?shifted = "map (shift_back k) ?rs"
  have g: "gr_startLine g < gr_endLine g" "?rs \<noteq> []"
    "\<forall>r\<in>set ?rs. k \<le> rp_matchIndex r \<and> rp_matchIndex r + rp_matchLength r \<le> line_offset ls (gr_endLine g)"
    "\<forall>j. gr_startLine g \<le> j \<and> j < gr_endLine g \<longrightarrow> (\<exists>r\<in>set ?rs. touches ls r j)"
    using assms(1) by (simp_all add: k_def)
  have k: "k \<le> line_offset ls (gr_endLine g)"
    using g(1) by (simp add: k_def line_offset_mono)
  have "apart (k - k) (line_offset ls (gr_endLine g) - k) ?shifted"
    using apart_part [OF assms(2) g(3) le_refl k] g(2,3) by simp
  then have apart: "apart 0 (length ?chunk) ?shifted"
    using g(1) by (simp add: length_base_slice k_def)
  let ?gaps = "gaps 0 ?chunk ?shifted"
  have "map (region ?chunk) ?shifted = map (region (concat ls)) ?rs"
    using g(1,3) by (auto simp: k_def intro: region_slice)
  then have "?chunk = weave ?gaps (map (region (concat ls)) ?rs)"
    using gaps_cover [OF apart] by (simp only: drop0)
  moreover have news: "map rp_newText ?shifted = map rp_newText ?rs"
    by simp
  have "applyReplacements ?chunk ?rs k = weave ?gaps (map rp_newText ?rs)"
    using applyReplacements_weave [OF apart] applyReplacements_shift [of ?rs k ?chunk] g(3) unfolding news by simp
  ultimately show ?thesis
    using g(4) by (intro exI [of _ ?gaps]) (simp add: block_ok_def length_gaps)
qed

lemma overlay_blocks:
  assumes "groups_ok ls lo gs" and "apart p (length (concat ls)) (concat (map gr_replacements gs))" and "length originalLines = length ls"
  shows "\<exists>bs. contiguous lo (length ls) bs \<and> (\<forall>b\<in>set bs. block_ok ls b)
    \<and> overlay_groups originalLines (concat ls) (line_spans 0 ls) gs lo = concat (map (block_text originalLines) bs)
    \<and> concat (map bk_edits bs) = concat (map gr_replacements gs)"
  using assms
proof (induction gs arbitrary: lo p)
  case Nil
  then show ?case
    by (intro exI [of _ "[keep_block lo (length ls)]"]) (simp add: keep_block_def block_ok_def block_text_def line_range_def)
next
  case (Cons g gs)
  have g: "lo \<le> gr_startLine g" "gr_startLine g < gr_endLine g" "gr_endLine g \<le> length ls" "gr_replacements g \<noteq> []"
    using Cons.prems(1) by (auto dest: groups_ok_le)
  obtain q where "apart q (length (concat ls)) (concat (map gr_replacements gs))"
    using apart_rest Cons.prems(2) by fastforce
  moreover have "groups_ok ls (gr_endLine g) gs"
    using Cons.prems(1) by simp
  ultimately obtain bs where bs: "contiguous (gr_endLine g) (length ls) bs" "\<forall>b\<in>set bs. block_ok ls b"
      "overlay_groups originalLines (concat ls) (line_spans 0 ls) gs (gr_endLine g) = concat (map (block_text originalLines) bs)"
      "concat (map bk_edits bs) = concat (map gr_replacements gs)"
    using Cons.IH [of "gr_endLine g" q] Cons.prems(3) by blast
  obtain gaps where gaps: "block_ok ls \<lparr>bk_start = gr_startLine g, bk_end = gr_endLine g, bk_edits = gr_replacements g, bk_gaps = gaps\<rparr>"
      "applyReplacements (concat (line_range (gr_startLine g) (gr_endLine g) ls)) (gr_replacements g) (line_offset ls (gr_startLine g))
      = weave gaps (map rp_newText (gr_replacements g))"
    using edited_block [OF Cons.prems(1), of p "concat (map gr_replacements gs)"] Cons.prems(2) by auto
  let ?kept = "keep_block lo (gr_startLine g)"
  let ?edited = "\<lparr>bk_start = gr_startLine g, bk_end = gr_endLine g, bk_edits = gr_replacements g, bk_gaps = gaps\<rparr>"
  have "take (line_offset ls (gr_endLine g) - line_offset ls (gr_startLine g)) (drop (line_offset ls (gr_startLine g)) (concat ls))
      = concat (line_range (gr_startLine g) (gr_endLine g) ls)"
    using g by (simp add: base_slice)
  then have "overlay_groups originalLines (concat ls) (line_spans 0 ls) (g # gs) lo
      = concat (map (block_text originalLines) (?kept # ?edited # bs))"
    using g gaps(2) bs(3) by (simp add: keep_block_def block_text_def [of _ "keep_block _ _"] block_text_def [of _ ?edited]
        block_text_def [of _ "\<lparr>bk_start = lo, bk_end = gr_startLine g, bk_edits = [], bk_gaps = []\<rparr>"]
        line_range_def [of lo] line_spans_nth Let_def)
  moreover have "contiguous lo (length ls) (?kept # ?edited # bs)" "block_ok ls ?kept"
    using g bs(1) by (simp_all add: keep_block_def block_ok_def)
  ultimately show ?case
    using gaps(1) bs(2,4) by (intro exI [of _ "?kept # ?edited # bs"]) (simp add: keep_block_def)
qed

lemma overlay_correct:
  assumes ok: "applyReplacementsPreservingUnchangedLines original base ms = Ok new"
    and overlaps: "check_overlaps (sort_key rp_matchIndex ms) = Ok ()"
  defines "ls \<equiv> splitLinesWithEndings base"
  shows "\<exists>bs. contiguous 0 (length ls) bs \<and> (\<forall>b\<in>set bs. block_ok ls b)
    \<and> new = concat (map (block_text (splitLinesWithEndings original)) bs)
    \<and> concat (map bk_edits bs) = sort_key rp_matchIndex ms"
proof -
  let ?rs = "sort_key rp_matchIndex ms"
  obtain groups where len: "length (splitLinesWithEndings original) = length ls"
    and fold: "fold_res (add_to_groups (line_spans 0 ls)) [] ?rs = Ok groups"
    and new: "new = overlay_groups (splitLinesWithEndings original) base (line_spans 0 ls) (rev groups) 0"
    using ok by (auto simp: applyReplacementsPreservingUnchangedLines_def getLineSpans_def ls_def Let_def res_simps split: if_splits)
  have groups: "groups_ok ls 0 (rev groups)" "concat (map gr_replacements (rev groups)) = ?rs"
    using fold_groups_ok [OF fold] by simp_all
  have base: "concat ls = base"
    by (simp add: ls_def)
  have "rp_matchIndex r + rp_matchLength r \<le> length base" if "r \<in> set ?rs" for r
    using groups_ok_within [OF groups(1), of r] that unfolding groups(2) base by blast
  then have "apart 0 (length base) ?rs"
    using check_overlaps_Ok [of _ _ "length base" 0] overlaps by (cases ?rs) auto
  then show ?thesis
    using overlay_blocks [OF groups(1), of 0 "splitLinesWithEndings original"] len unfolding groups(2) base new by blast
qed

section \<open>Fuzzy edits\<close>

lemma match_edit_found:
  "match_edit nfkc base content n i e ms = Some (Ok m) \<Longrightarrow>
     \<exists>r. fuzzyFindText nfkc base (ed_oldText e) = Some r \<and> fm_found r"
  by (auto simp: match_edit_def split: option.splits if_splits list.splits)

lemma match_edits_found:
  "match_edits nfkc base content n i es ms = Some (Ok ms') \<Longrightarrow>
     length ms' = length ms + length es
     \<and> (\<forall>e\<in>set es. \<exists>r. fuzzyFindText nfkc base (ed_oldText e) = Some r \<and> fm_found r)"
proof (induction es arbitrary: i ms)
  case (Cons e es)
  then obtain m where m: "match_edit nfkc base content n i e ms = Some (Ok m)"
      "match_edits nfkc base content n (i + 1) es (ms @ [m]) = Some (Ok ms')"
    by (auto split: option.splits sum.splits)
  with Cons.IH [OF m(2)] match_edit_found [OF m(1)] show ?case by simp
qed simp

lemma initial_matches_Some:
  "initial_matches nfkc content es = Some ims \<Longrightarrow> e \<in> set es \<Longrightarrow> \<exists>r\<in>set ims. fuzzyFindText nfkc content (ed_oldText e) = Some r"
  by (induction es arbitrary: ims) (auto split: option.splits)

lemma fuzzy_unless_verbatim:
  assumes "fuzzyFindText nfkc content pat = Some r" and "fm_found r" and "\<forall>i. \<not> occurs_at content pat i"
  shows "fm_usedFuzzyMatch r"
proof -
  have "index_of content pat 0 = None"
    using assms(3) occurs_iff_index_of [of content pat] by blast
  with assms(1,2) show ?thesis
    by (auto simp: fuzzyFindText_def literal_match_def approximate_match_def no_match_def Let_def
        split: option.splits list.splits prod.splits)
qed

lemma fuzzy_edits_overlay:
  assumes "applyEditsToNormalizedContent nfkc content edits = Some (Ok (b, new))" and "e \<in> set edits"
    and absent: "\<forall>i. \<not> occurs_at content (normalizeToLF (ed_oldText e)) i"
  defines "base \<equiv> normalizeForFuzzyMatch nfkc content"
  shows "\<exists>ms. match_edits nfkc base content (length edits) 0 (map normalize_edit edits) [] = Some (Ok ms)
    \<and> finish_edits content base True (length edits) ms = Ok (b, new)"
proof -
  let ?es = "map normalize_edit edits"
  obtain ims where ims: "initial_matches nfkc content ?es = Some ims"
    using assms(1) by (auto simp: applyEditsToNormalizedContent_def Let_def split: option.splits)
  let ?fuzzy = "list_ex fm_usedFuzzyMatch ims"
  let ?base = "if ?fuzzy then base else content"
  obtain ms where ms: "match_edits nfkc ?base content (length edits) 0 ?es [] = Some (Ok ms)"
      "finish_edits content ?base ?fuzzy (length edits) ms = Ok (b, new)"
    using assms(1) ims by (auto simp: applyEditsToNormalizedContent_def Let_def base_def res_simps split: option.splits if_splits)
  have ?fuzzy
  proof (rule ccontr)
    assume exact: "\<not> ?fuzzy"
    have e: "normalize_edit e \<in> set ?es"
      using assms(2) by simp
    obtain r where r: "r \<in> set ims" "fuzzyFindText nfkc content (ed_oldText (normalize_edit e)) = Some r"
      using initial_matches_Some [OF ims e] by blast
    then have "fm_found r"
      using match_edits_found [OF ms(1)] exact e by fastforce
    with r absent fuzzy_unless_verbatim have "fm_usedFuzzyMatch r"
      by (metis normalize_edit_old)
    with r exact show False by (auto simp: list_ex_iff)
  qed
  with ms show ?thesis by auto
qed

text \<open>C37: When some old text does not occur verbatim and the edits succeed, the content and its normalized form
  have equally many lines, and the result is made of consecutive blocks of lines: a block without edits is the
  original text of its lines, unchanged; a block with edits is the normalized text of its lines with the
  edited regions replaced, and each of its lines is touched by an edit. All edits are in the blocks, in order.\<close>

theorem fuzzy_edits_keep_lines:
  assumes "applyEditsToNormalizedContent nfkc content edits = Some (Ok (b, new))" and "e \<in> set edits"
    and "\<forall>i. \<not> occurs_at content (normalizeToLF (ed_oldText e)) i"
  defines "base \<equiv> normalizeForFuzzyMatch nfkc content"
  shows "b = content \<and> new \<noteq> content
    \<and> length (splitLinesWithEndings content) = length (splitLinesWithEndings base)
    \<and> (\<exists>ms bs. match_edits nfkc base content (length edits) 0 (map normalize_edit edits) [] = Some (Ok ms)
        \<and> length ms = length edits
        \<and> contiguous 0 (length (splitLinesWithEndings content)) bs
        \<and> (\<forall>b\<in>set bs. block_ok (splitLinesWithEndings base) b)
        \<and> concat (map bk_edits bs) = sort_key rp_matchIndex ms
        \<and> new = concat (map (block_text (splitLinesWithEndings content)) bs))"
proof -
  obtain ms where ms: "match_edits nfkc base content (length edits) 0 (map normalize_edit edits) [] = Some (Ok ms)"
      "finish_edits content base True (length edits) ms = Ok (b, new)"
    using fuzzy_edits_overlay [OF assms(1-3)] by (auto simp: base_def)
  let ?ms = "sort_key rp_matchIndex ms"
  have sorted: "sort_key rp_matchIndex ?ms = ?ms"
    by (simp add: sort_key_id_if_sorted)
  have fin: "check_overlaps ?ms = Ok ()" "applyReplacementsPreservingUnchangedLines content base ?ms = Ok new" "b = content" "new \<noteq> content"
    using ms(2) by (auto simp: finish_edits_def Let_def res_simps split: if_splits)
  then have "length (splitLinesWithEndings content) = length (splitLinesWithEndings base)"
    by (auto simp: applyReplacementsPreservingUnchangedLines_def getLineSpans_def Let_def split: if_splits)
  moreover have "length ms = length edits"
    using match_edits_found [OF ms(1)] by simp
  ultimately show ?thesis
    using overlay_correct [OF fin(2), unfolded sorted, OF fin(1)] ms(1) fin(3,4) by metis
qed

theorem fuzzy_edits_keep_lines_witness:
  "applyEditsToNormalizedContent id [97, 32, 10, 98, 32, 10, 99, 32] [\<lparr>ed_oldText = [98, 10, 99], ed_newText = [100]\<rparr>]
     = Some (Ok ([97, 32, 10, 98, 32, 10, 99, 32], [97, 32, 10, 100]))
   \<and> length (splitLinesWithEndings [97, 32, 10, 98, 32, 10, 99, 32])
     = length (splitLinesWithEndings (normalizeForFuzzyMatch id [97, 32, 10, 98, 32, 10, 99, 32]))"
proof -
  let ?content = "[97, 32, 10, 98, 32, 10, 99, 32] :: js_string" and ?e = "\<lparr>ed_oldText = [98, 10, 99], ed_newText = [100]\<rparr>"
  have run: "applyEditsToNormalizedContent id ?content [?e] = Some (Ok (?content, [97, 32, 10, 100]))"
    by code_simp
  have "index_of ?content (normalizeToLF (ed_oldText ?e)) 0 = None"
    by code_simp
  then have "\<forall>i. \<not> occurs_at ?content (normalizeToLF (ed_oldText ?e)) i"
    by (simp add: absent_iff)
  from fuzzy_edits_keep_lines [OF run _ this] run show ?thesis
    by simp
qed

end
