(* ===== verification/EditSimilarity.thy ===== *)
theory EditSimilarity
  imports EditApply "HOL-Library.Multiset"
begin

text \<open>
  The similarities of \<open>EditDiff\<close>: the table of the edit distance and the counts of the bigrams agree with
  their definitions, and the comparisons of doubles with the thresholds agree with exact arithmetic.
\<close>

section \<open>Edit distance\<close>

text \<open>\<open>aligned n xs ys\<close>: \<open>n\<close> insertions, deletions and substitutions turn \<open>xs\<close> into \<open>ys\<close>.\<close>

inductive aligned :: "nat \<Rightarrow> 'a list \<Rightarrow> 'a list \<Rightarrow> bool" where
  empty: "aligned 0 [] []"
| keep: "aligned n xs ys \<Longrightarrow> aligned n (x # xs) (x # ys)"
| substitute: "aligned n xs ys \<Longrightarrow> aligned (n + 1) (x # xs) (y # ys)"
| delete: "aligned n xs ys \<Longrightarrow> aligned (n + 1) (x # xs) ys"
| insert: "aligned n xs ys \<Longrightarrow> aligned (n + 1) xs (y # ys)"

fun edit_distance :: "'a list \<Rightarrow> 'a list \<Rightarrow> nat" where
  "edit_distance [] ys = length ys"
| "edit_distance xs [] = length xs"
| "edit_distance (x # xs) (y # ys) =
     min (edit_distance xs (y # ys) + 1)
       (min (edit_distance (x # xs) ys + 1) (edit_distance xs ys + (if x = y then 0 else 1)))"

lemma edit_distance_Nil [simp]: "edit_distance xs [] = length xs"
  by (cases xs) simp_all

lemma min_three: "min a (min b c) = a \<or> min a (min b c) = b \<or> min a (min b c) = (c :: nat)"
  by (auto simp: min_def)

lemma aligned_lengths: "aligned (length ys) [] ys" "aligned (length xs) xs []"
proof -
  show "aligned (length ys) [] ys"
    by (induction ys) (auto intro: aligned.empty dest: aligned.insert)
  show "aligned (length xs) xs []"
    by (induction xs) (auto intro: aligned.empty dest: aligned.delete)
qed

lemma edit_distance_aligned: "aligned (edit_distance xs ys) xs ys"
proof (induction xs ys rule: edit_distance.induct)
  case (3 x xs y ys)
  have "aligned (edit_distance xs (y # ys) + 1) (x # xs) (y # ys)"
    using 3 by (intro aligned.delete)
  moreover have "aligned (edit_distance (x # xs) ys + 1) (x # xs) (y # ys)"
    using 3 by (intro aligned.insert)
  moreover have "aligned (edit_distance xs ys + (if x = y then 0 else 1)) (x # xs) (y # ys)"
  proof (cases "x = y")
    case True
    with 3 show ?thesis by (simp add: aligned.keep)
  next
    case False
    with aligned.substitute [OF 3(3)] show ?thesis by simp
  qed
  ultimately show ?case
    unfolding edit_distance.simps(3)
    using min_three [of "edit_distance xs (y # ys) + 1" "edit_distance (x # xs) ys + 1" "edit_distance xs ys + (if x = y then 0 else 1)"]
    by (elim disjE) (simp_all only:)
qed (simp_all add: aligned_lengths aligned_lengths(2) [of "_ # _", simplified])

lemma edit_distance_step:
  shows "edit_distance (x # xs) ys \<le> edit_distance xs ys + 1" and "edit_distance xs (y # ys) \<le> edit_distance xs ys + 1"
    and "edit_distance (x # xs) (y # ys) \<le> edit_distance xs ys + 1" and "edit_distance (x # xs) (x # ys) \<le> edit_distance xs ys"
proof -
  show "edit_distance (x # xs) ys \<le> edit_distance xs ys + 1"
    by (cases ys) (simp_all add: min.coboundedI1)
  show "edit_distance xs (y # ys) \<le> edit_distance xs ys + 1"
    by (cases xs) (simp_all add: min.coboundedI2 min.coboundedI1)
qed (simp_all add: min.coboundedI2)

lemma edit_distance_least: "aligned n xs ys \<Longrightarrow> edit_distance xs ys \<le> n"
proof (induction rule: aligned.induct)
  case (keep n xs ys x)
  then show ?case using edit_distance_step(4) [of x xs ys] by linarith
next
  case (substitute n xs ys x y)
  then show ?case using edit_distance_step(3) [of x xs y ys] by linarith
next
  case (delete n xs ys x)
  then show ?case using edit_distance_step(1) [of x xs ys] by linarith
next
  case (insert n xs ys y)
  then show ?case using edit_distance_step(2) [of xs y ys] by linarith
qed simp

lemma aligned_append: "aligned n xs ys \<Longrightarrow> aligned m us vs \<Longrightarrow> aligned (n + m) (xs @ us) (ys @ vs)"
proof (induction rule: aligned.induct)
  case (substitute n xs ys x y)
  then show ?case using aligned.substitute [of "n + m"] by (simp add: ac_simps)
next
  case (delete n xs ys x)
  then show ?case using aligned.delete [of "n + m"] by (simp add: ac_simps)
next
  case (insert n xs ys y)
  then show ?case using aligned.insert [of "n + m"] by (simp add: ac_simps)
qed (simp_all add: aligned.keep)

lemma aligned_rev: "aligned n xs ys \<Longrightarrow> aligned n (rev xs) (rev ys)"
proof (induction rule: aligned.induct)
  case (keep n xs ys x)
  then show ?case using aligned_append [OF _ aligned.keep [OF aligned.empty, of x]] by fastforce
next
  case (substitute n xs ys x y)
  then show ?case using aligned_append [OF _ aligned.substitute [OF aligned.empty, of x y]] by fastforce
next
  case (delete n xs ys x)
  then show ?case using aligned_append [OF _ aligned.delete [OF aligned.empty, of x]] by fastforce
next
  case (insert n xs ys y)
  then show ?case using aligned_append [OF _ aligned.insert [OF aligned.empty, of y]] by fastforce
qed (simp add: aligned.empty)

lemma edit_distance_rev: "edit_distance (rev xs) (rev ys) = edit_distance xs ys"
  by (metis aligned_rev edit_distance_aligned edit_distance_least le_antisym rev_rev_ident)

section \<open>The table\<close>

text \<open>The row of the table after the characters \<open>rev P\<close> of the first text.\<close>

definition distance_row :: "js_string \<Rightarrow> js_string \<Rightarrow> js_string \<Rightarrow> nat list" where
  "distance_row P bs Q = map (\<lambda>j. edit_distance P (rev (take j bs) @ Q)) [0..<Suc (length bs)]"

lemma distance_row_Nil: "distance_row P [] Q = [edit_distance P Q]"
  by (simp add: distance_row_def)

lemma distance_row_Cons: "distance_row P (d # bs) Q = edit_distance P Q # distance_row P bs (d # Q)"
  by (simp add: distance_row_def map_upt_Suc del: upt_Suc)

lemma lev_cells_row:
  "edit_distance (c # P) Q # lev_cells c bs (distance_row P bs Q) (edit_distance (c # P) Q) = distance_row (c # P) bs Q"
proof (induction bs arbitrary: Q)
  case Nil
  then show ?case by (simp add: distance_row_Nil)
next
  case (Cons d bs)
  obtain ps where ps: "distance_row P bs (d # Q) = edit_distance P (d # Q) # ps"
    by (cases bs) (simp_all add: distance_row_Nil distance_row_Cons)
  with Cons.IH [of "d # Q"] show ?case
    by (simp add: distance_row_Cons Let_def)
qed

lemma lev_rows_row: "lev_rows a b (Suc (length P)) (distance_row P b []) = distance_row (rev a @ P) b []"
proof (induction a arbitrary: P)
  case (Cons c a)
  have "Suc (length P) # lev_cells c b (distance_row P b []) (Suc (length P)) = distance_row (c # P) b []"
    using lev_cells_row [of c P "[]" b] by simp
  with Cons.IH [of "c # P"] show ?case by simp
qed simp

lemma lev_rows_distance: "lev_rows a b 1 [0..<length b + 1] ! length b = edit_distance a b"
proof -
  have "distance_row [] b [] = [0..<length b + 1]"
    by (auto simp: distance_row_def intro!: nth_equalityI simp del: upt_Suc)
  then have "lev_rows a b 1 [0..<length b + 1] = distance_row (rev a) b []"
    using lev_rows_row [of a b "[]"] by simp
  then have "lev_rows a b 1 [0..<length b + 1] ! length b = edit_distance (rev a) (rev b)"
    by (simp add: distance_row_def del: upt_Suc)
  then show ?thesis by (simp add: edit_distance_rev)
qed

lemma edit_distance_bound: "edit_distance xs ys \<le> max (length xs) (length ys)"
  by (induction xs ys rule: edit_distance.induct) auto

section \<open>Bigrams\<close>

definition counts_of :: "(js_string \<times> nat) list \<Rightarrow> js_string \<Rightarrow> nat" where
  "counts_of counts g = (case map_of counts g of Some n \<Rightarrow> n | None \<Rightarrow> 0)"

lemma count_gram_counts: "counts_of (count_gram counts g) = (counts_of counts)(g := counts_of counts g + 1)"
  by (auto simp: counts_of_def count_gram_def update_conv' fun_eq_iff)

lemma bigramCounts_count: "counts_of (bigramCounts a) = count (mset (bigrams a))"
proof -
  have "counts_of (foldl count_gram counts gs) = (\<lambda>g. counts_of counts g + count (mset gs) g)" for counts gs
    by (induction gs arbitrary: counts) (auto simp: count_gram_counts fun_eq_iff)
  from this [of "[]" "bigrams a"] show ?thesis
    by (simp add: bigramCounts_def counts_of_def)
qed

lemma take_gram_overlap:
  "counts_of counts = count M \<Longrightarrow> snd (foldl take_gram (counts, k) gs) = k + size (M \<inter># mset gs)"
proof (induction gs arbitrary: counts k M)
  case (Cons g gs)
  show ?case
  proof (cases "g \<in># M")
    case True
    then obtain n where n: "map_of counts g = Some n" "n \<noteq> 0"
      using Cons.prems by (auto simp: counts_of_def fun_eq_iff count_eq_zero_iff split: option.splits dest!: spec [of _ g])
    have "counts_of (AList.update g (n - 1) counts) = count (M - {#g#})"
      using Cons.prems n by (auto simp: counts_of_def update_conv' fun_eq_iff split: option.splits)
    with Cons.IH [of "AList.update g (n - 1) counts" "M - {#g#}" "k + 1"] n True show ?thesis
      by (simp add: inter_add_right2)
  next
    case False
    then have "counts_of counts g = 0"
      using Cons.prems by (simp add: not_in_iff)
    then have "take_gram (counts, k) g = (counts, k)"
      by (auto simp: counts_of_def split: option.split)
    with Cons False show ?thesis
      by (simp add: inter_add_right1)
  qed
qed simp

section \<open>Doubles\<close>

lemma binary_digits_bounds: "0 < n \<Longrightarrow> 0 < binary_digits n \<and> 2 ^ (binary_digits n - 1) \<le> n \<and> n < 2 ^ binary_digits n"
proof (induction n rule: binary_digits.induct)
  case (1 n)
  show ?case
  proof (cases "n = 1")
    case True
    then show ?thesis by (simp add: binary_digits.simps)
  next
    case False
    with 1 have half: "0 < binary_digits (n div 2)" "2 ^ (binary_digits (n div 2) - 1) \<le> n div 2" "n div 2 < 2 ^ binary_digits (n div 2)"
      by auto
    have "(2 :: int) ^ binary_digits (n div 2) = 2 * 2 ^ (binary_digits (n div 2) - 1)"
      using half(1) by (simp flip: power_Suc)
    with half have "2 ^ binary_digits (n div 2) \<le> n" "n < 2 * 2 ^ binary_digits (n div 2)"
      by linarith+
    moreover have "binary_digits n = Suc (binary_digits (n div 2))"
      using "1.prems" by (subst binary_digits.simps) simp
    ultimately show ?thesis by simp
  qed
qed

lemma binary_scale_large:
  assumes "0 < x" and "x \<le> 1"
  shows "2 ^ 52 \<le> x * 2 ^ binary_scale x"
proof -
  obtain p q where pq: "quotient_of x = (p, q)"
    by fastforce
  then have q: "0 < q" and x: "x = of_int p / of_int q"
    by (auto simp: quotient_of_denom_pos quotient_of_div)
  with assms have p: "0 < p" "p \<le> q"
    by (simp_all add: zero_less_divide_iff divide_le_eq)
  note bp = binary_digits_bounds [OF p(1)] and bq = binary_digits_bounds [OF q]
  have "(2 :: int) ^ (binary_digits p - 1) < 2 ^ binary_digits q"
    using bp bq p(2) by linarith
  then have le: "binary_digits p - 1 < binary_digits q"
    by simp
  define k where "k = 53 + binary_digits q - binary_digits p"
  have "(2 :: int) ^ 52 * q \<le> 2 ^ 52 * 2 ^ binary_digits q"
    using bq by simp
  also have "\<dots> = 2 ^ (binary_digits p - 1) * 2 ^ k"
  proof -
    have "52 + binary_digits q = binary_digits p - 1 + k"
      using le bp by (simp add: k_def)
    then show ?thesis by (metis power_add)
  qed
  also have "\<dots> \<le> p * 2 ^ k"
    using bp by simp
  finally have "of_int (2 ^ 52 * q) \<le> (of_int (p * 2 ^ k) :: rat)"
    by (simp only: of_int_le_iff)
  then have large: "2 ^ 52 \<le> x * 2 ^ k"
    using q by (simp add: x pos_le_divide_eq)
  show ?thesis
  proof (cases "2 ^ 53 \<le> x * 2 ^ k")
    case True
    have "k = Suc (k - 1)"
      using le bp by (simp add: k_def)
    then have "x * 2 ^ k = 2 * (x * 2 ^ (k - 1))"
      by (metis mult.left_commute power_Suc)
    with True have "2 ^ 52 \<le> x * 2 ^ (k - 1)"
      by simp
    with True show ?thesis
      by (simp add: binary_scale_def pq Let_def k_def [symmetric])
  next
    case False
    with large show ?thesis
      by (simp add: binary_scale_def pq Let_def k_def [symmetric])
  qed
qed

lemma round_half_even_error: "\<bar>of_int (round_half_even y) - y\<bar> \<le> 1 / 2"
proof -
  have "of_int \<lfloor>y\<rfloor> \<le> y" "y < of_int \<lfloor>y\<rfloor> + 1"
    by linarith+
  then show ?thesis
    by (simp add: round_half_even_def Let_def abs_le_iff)
qed

lemma to_double_error:
  assumes "0 \<le> x" and "x \<le> 1"
  shows "\<bar>to_double x - x\<bar> \<le> 1 / 2 ^ 53"
proof (cases "x = 0")
  case False
  define k where "k = binary_scale x"
  have pos: "(0 :: rat) < 2 ^ k" by simp
  have large: "2 ^ 52 \<le> x * 2 ^ k"
    using binary_scale_large assms False by (simp add: k_def)
  also have "\<dots> \<le> 2 ^ k"
    using assms by (simp add: mult_left_le_one_le)
  finally have "(2 :: rat) ^ 52 \<le> 2 ^ k" .
  then have small: "1 / 2 / 2 ^ k \<le> (1 :: rat) / 2 ^ 53"
    using pos by (simp add: field_simps)
  have "\<bar>to_double x - x\<bar> = \<bar>of_int (round_half_even (x * 2 ^ k)) - x * 2 ^ k\<bar> / 2 ^ k"
  proof -
    have "to_double x - x = (of_int (round_half_even (x * 2 ^ k)) - x * 2 ^ k) / 2 ^ k"
      using False by (simp add: to_double_def Let_def k_def [symmetric] diff_divide_distrib)
    then show ?thesis by (simp add: abs_divide)
  qed
  also have "\<dots> \<le> 1 / 2 / 2 ^ k"
    using round_half_even_error pos by (intro divide_right_mono) auto
  finally show ?thesis using small by linarith
qed (simp add: to_double_def)

lemma to_double_nonneg: "0 \<le> x \<Longrightarrow> 0 \<le> to_double x"
proof -
  assume "0 \<le> x"
  then have "0 \<le> \<lfloor>x * 2 ^ binary_scale x\<rfloor>"
    by simp
  then have "0 \<le> round_half_even (x * 2 ^ binary_scale x)"
    by (simp add: round_half_even_def Let_def)
  then show ?thesis
    by (simp add: to_double_def Let_def)
qed

text \<open>Fractions that are not too close compare as their doubles do.\<close>

lemma to_double_compare:
  assumes "0 \<le> x" "x \<le> 1" "0 \<le> t" "t \<le> 1" and "1 / 2 ^ 52 < \<bar>x - t\<bar>"
  shows "to_double t \<le> to_double x \<longleftrightarrow> t \<le> x"
  using to_double_error [OF assms(1,2)] to_double_error [OF assms(3,4)] assms(5) by (auto simp: abs_if field_simps split: if_splits)

lemma fraction_gap:
  assumes "a * q \<noteq> p * b" and "0 < b" and "0 < q"
  shows "1 / (of_nat b * of_nat q) \<le> \<bar>(of_nat a / of_nat b - of_nat p / of_nat q) :: rat\<bar>"
proof -
  have "1 \<le> \<bar>int (a * q) - int (p * b)\<bar>"
    using assms(1) by linarith
  then have "of_int 1 \<le> (of_int \<bar>int (a * q) - int (p * b)\<bar> :: rat)"
    by (simp only: of_int_le_iff)
  then have "1 \<le> \<bar>(of_nat a * of_nat q - of_nat p * of_nat b) :: rat\<bar>"
    by simp
  moreover have "(of_nat a / of_nat b - of_nat p / of_nat q :: rat) = (of_nat a * of_nat q - of_nat p * of_nat b) / (of_nat b * of_nat q)"
    using assms(2,3) by (simp add: diff_frac_eq)
  ultimately show ?thesis
    using assms(2,3) by (simp add: divide_right_mono)
qed

section \<open>Thresholds\<close>

lemma double_fifth: "to_double (1 - to_double (1 / 5)) = to_double (8 / 10)"
  by code_simp

lemma levenshtein_threshold:
  assumes "d \<le> m" and "0 < m" and "m \<le> 2 ^ 40"
  shows "to_double (8 / 10) \<le> to_double (1 - to_double (of_nat d / of_nat m)) \<longleftrightarrow> 5 * d \<le> m"
proof (cases "5 * d = m")
  case True
  then have fifth: "(of_nat d / of_nat m :: rat) = 1 / 5"
    using assms(2) by auto
  show ?thesis unfolding fifth double_fifth using True by simp
next
  case False
  define x where "x = (of_nat d / of_nat m :: rat)"
  have x: "0 \<le> x" "x \<le> 1"
    using assms by (simp_all add: x_def divide_le_eq)
  have bound: "1 / 2 ^ 43 \<le> 1 / (of_nat m * of_nat 5 :: rat)"
  proof -
    have "m * 5 \<le> 2 ^ 43"
      using assms(3) by simp
    then have "of_nat (m * 5) \<le> (of_nat (2 ^ 43) :: rat)"
      by (simp only: of_nat_le_iff)
    with assms(2) show ?thesis by (intro divide_left_mono) auto
  qed
  also have "\<dots> \<le> \<bar>x - of_nat 1 / of_nat 5\<bar>"
    unfolding x_def using False assms(2) by (intro fraction_gap) auto
  finally have gap: "1 / 2 ^ 43 \<le> \<bar>x - 1 / 5\<bar>"
    by simp
  have y: "0 \<le> 1 - to_double x" "1 - to_double x \<le> 1"
  proof -
    show "0 \<le> 1 - to_double x"
    proof (cases "d = m")
      case True
      then have "x = 1" using assms(2) by (simp add: x_def)
      moreover have "to_double 1 = 1" by code_simp
      ultimately show ?thesis by simp
    next
      case False
      have "1 / 2 ^ 40 \<le> (1 / of_nat m :: rat)"
      proof -
        have "of_nat m \<le> (of_nat (2 ^ 40) :: rat)"
          using assms(3) by (simp only: of_nat_le_iff)
        with assms(2) show ?thesis by (intro divide_left_mono) auto
      qed
      moreover have "x \<le> 1 - 1 / of_nat m"
      proof -
        have "of_nat d \<le> (of_nat (m - 1) :: rat)"
          using False assms(1) by (simp only: of_nat_le_iff)
        then have "of_nat d \<le> (of_nat m - 1 :: rat)"
          using assms(2) by (simp add: of_nat_diff)
        then show ?thesis
          using assms(2) by (simp add: x_def field_simps)
      qed
      moreover have "to_double x - x \<le> 1 / 2 ^ 53"
        using to_double_error [OF x] by (rule abs_le_D1)
      moreover have "(1 :: rat) / 2 ^ 53 \<le> 1 / 2 ^ 40"
        by simp
      ultimately show ?thesis by linarith
    qed
    show "1 - to_double x \<le> 1"
      by (simp add: x_def to_double_nonneg)
  qed
  have close: "\<bar>(1 - to_double x) - (1 - x)\<bar> \<le> 1 / 2 ^ 53"
    using to_double_error [OF x] by (simp add: abs_minus_commute)
  have "1 / 2 ^ 52 < \<bar>(1 - to_double x) - 8 / 10\<bar>"
    using gap close by (auto simp: abs_if split: if_splits)
  then have "to_double (8 / 10) \<le> to_double (1 - to_double x) \<longleftrightarrow> 8 / 10 \<le> 1 - to_double x"
    using y by (intro to_double_compare) auto
  also have "\<dots> \<longleftrightarrow> 8 / 10 \<le> 1 - x"
    using gap close by (auto simp: abs_if split: if_splits)
  also have "\<dots> \<longleftrightarrow> x \<le> 1 / 5"
    by auto
  also have "\<dots> \<longleftrightarrow> of_nat (5 * d) \<le> (of_nat m :: rat)"
    using assms(2) by (simp add: x_def field_simps)
  also have "\<dots> \<longleftrightarrow> 5 * d \<le> m"
    by (simp only: of_nat_le_iff)
  finally show ?thesis by (simp add: x_def)
qed

lemma bigram_threshold:
  assumes "k \<le> m" and "0 < m" and "m \<le> 2 ^ 40"
  shows "to_double (9 / 10) \<le> to_double (of_nat k / of_nat m) \<longleftrightarrow> 9 * m \<le> 10 * k"
proof (cases "k * 10 = 9 * m")
  case True
  then have "of_nat (k * 10) = (of_nat (9 * m) :: rat)"
    by simp
  then have tenths: "(of_nat k / of_nat m :: rat) = 9 / 10"
    using assms(2) by (simp add: field_simps)
  show ?thesis unfolding tenths using True by simp
next
  case False
  define x where "x = (of_nat k / of_nat m :: rat)"
  have x: "0 \<le> x" "x \<le> 1"
    using assms by (simp_all add: x_def divide_le_eq)
  have "1 / 2 ^ 44 \<le> 1 / (of_nat m * of_nat 10 :: rat)"
  proof -
    have "m * 10 \<le> 2 ^ 44"
      using assms(3) by simp
    then have "of_nat (m * 10) \<le> (of_nat (2 ^ 44) :: rat)"
      by (simp only: of_nat_le_iff)
    with assms(2) show ?thesis by (intro divide_left_mono) auto
  qed
  also have "\<dots> \<le> \<bar>x - of_nat 9 / of_nat 10\<bar>"
    unfolding x_def using False assms(2) by (intro fraction_gap) auto
  finally have "1 / 2 ^ 52 < \<bar>x - 9 / 10\<bar>"
    by simp
  then have "to_double (9 / 10) \<le> to_double x \<longleftrightarrow> 9 / 10 \<le> x"
    using x by (intro to_double_compare) auto
  also have "\<dots> \<longleftrightarrow> of_nat (9 * m) \<le> (of_nat (10 * k) :: rat)"
    using assms(2) by (simp add: x_def field_simps)
  also have "\<dots> \<longleftrightarrow> 9 * m \<le> 10 * k"
    by (simp only: of_nat_le_iff)
  finally show ?thesis by (simp add: x_def)
qed

lemma length_bigrams: "length (bigrams a) = length a - 1"
  by (induction a rule: bigrams.induct) auto

lemma bigramSimilarity_eq:
  assumes "a \<noteq> b" and "2 \<le> length a" and "2 \<le> length b" and "counts = None \<or> counts = Some (bigramCounts a)"
  shows "bigramSimilarity a b counts =
    to_double (of_nat (2 * size (mset (bigrams a) \<inter># mset (bigrams b))) / of_nat (length a - 1 + (length b - 1)))"
proof -
  have "(case counts of Some c \<Rightarrow> c | None \<Rightarrow> bigramCounts a) = bigramCounts a"
    using assms(4) by auto
  with assms show ?thesis
    by (simp add: bigramSimilarity_def take_gram_overlap [OF bigramCounts_count])
qed

text \<open>C38: A block of lines passes the similarity threshold exactly when it equals the old text or, within the cell
  budget, differs from it by insertions, deletions and substitutions of code units that number at most a fifth
  of the longer text. A single line passes exactly when it equals the old line or the bigrams the two have
  in common, counted with multiplicity, are at least nine tenths of their average number. The rounding of
  doubles never changes the outcome.\<close>

theorem similarity_thresholds_exact:
  assumes "length a + length b \<le> 2 ^ 40"
  shows "(SIMILAR_BLOCK_THRESHOLD \<le> levenshteinSimilarity a b \<longleftrightarrow>
      a = b \<or> length a * length b \<le> 2000000 \<and> (\<exists>n. aligned n a b \<and> 5 * n \<le> max (length a) (length b)))
    \<and> (SIMILAR_SINGLE_LINE_THRESHOLD \<le> bigramSimilarity a b (Some (bigramCounts a)) \<longleftrightarrow>
      a = b \<or> 2 \<le> length a \<and> 2 \<le> length b
        \<and> 9 * (length (bigrams a) + length (bigrams b)) \<le> 10 * (2 * size (mset (bigrams a) \<inter># mset (bigrams b))))"
proof
  let ?m = "max (length a) (length b)"
  have one: "to_double (8 / 10) \<le> 1" "\<not> to_double (8 / 10) \<le> 0" "to_double (9 / 10) \<le> 1" "\<not> to_double (9 / 10) \<le> 0"
    by code_simp+
  show "SIMILAR_BLOCK_THRESHOLD \<le> levenshteinSimilarity a b \<longleftrightarrow>
      a = b \<or> length a * length b \<le> 2000000 \<and> (\<exists>n. aligned n a b \<and> 5 * n \<le> ?m)"
  proof (cases "a = b \<or> 2000000 < length a * length b")
    case True
    then show ?thesis
      using one by (auto simp: levenshteinSimilarity_def SIMILAR_BLOCK_THRESHOLD_def LEVENSHTEIN_MAX_CELLS_def Let_def)
  next
    case False
    then have m: "0 < ?m" "\<not> (a = [] \<and> b = [])"
      by (cases a; cases b; auto)+
    have "SIMILAR_BLOCK_THRESHOLD \<le> levenshteinSimilarity a b \<longleftrightarrow> 5 * edit_distance a b \<le> ?m"
      using False m assms levenshtein_threshold [of "edit_distance a b" ?m] edit_distance_bound [of a b]
      by (simp add: levenshteinSimilarity_def SIMILAR_BLOCK_THRESHOLD_def LEVENSHTEIN_MAX_CELLS_def Let_def lev_rows_distance [simplified])
        blast
    also have "\<dots> \<longleftrightarrow> (\<exists>n. aligned n a b \<and> 5 * n \<le> ?m)"
      using edit_distance_aligned [of a b] edit_distance_least [of _ a b] by (meson le_trans mult_le_mono2)
    finally show ?thesis using False by simp
  qed
  show "SIMILAR_SINGLE_LINE_THRESHOLD \<le> bigramSimilarity a b (Some (bigramCounts a)) \<longleftrightarrow>
      a = b \<or> 2 \<le> length a \<and> 2 \<le> length b
        \<and> 9 * (length (bigrams a) + length (bigrams b)) \<le> 10 * (2 * size (mset (bigrams a) \<inter># mset (bigrams b)))"
  proof (cases "a \<noteq> b \<and> 2 \<le> length a \<and> 2 \<le> length b")
    case False
    then show ?thesis
      using one by (auto simp: bigramSimilarity_def SIMILAR_SINGLE_LINE_THRESHOLD_def)
  next
    case True
    let ?k = "2 * size (mset (bigrams a) \<inter># mset (bigrams b))" and ?n = "length (bigrams a) + length (bigrams b)"
    have "size (mset (bigrams a) \<inter># mset (bigrams b)) \<le> length (bigrams a)" "size (mset (bigrams a) \<inter># mset (bigrams b)) \<le> length (bigrams b)"
      by (metis size_mset size_mset_mono subset_mset.inf_le1, metis size_mset size_mset_mono subset_mset.inf_le2)
    then have "?k \<le> ?n" "0 < ?n" "?n \<le> 2 ^ 40"
      using True assms by (auto simp: length_bigrams)
    then show ?thesis
      using True bigram_threshold [of ?k ?n]
      by (simp add: bigramSimilarity_eq SIMILAR_SINGLE_LINE_THRESHOLD_def length_bigrams)
  qed
qed

theorem similarity_thresholds_exact_witness:
  "SIMILAR_BLOCK_THRESHOLD \<le> levenshteinSimilarity [1, 2, 3, 4, 5] [1, 2, 9, 4, 5]
   \<and> \<not> SIMILAR_SINGLE_LINE_THRESHOLD \<le> bigramSimilarity [1, 2, 3, 4] [1, 2, 3, 5] (Some (bigramCounts [1, 2, 3, 4]))"
proof
  have "aligned 1 [1, 2, 3, 4, 5 :: 16 word] [1, 2, 9, 4, 5]"
    using aligned.substitute [of 0 "[4, 5 :: 16 word]" "[4, 5]" 3 9] by (auto intro!: aligned.keep aligned.empty)
  then show "SIMILAR_BLOCK_THRESHOLD \<le> levenshteinSimilarity [1, 2, 3, 4, 5] [1, 2, 9, 4, 5]"
    using similarity_thresholds_exact [of "[1, 2, 3, 4, 5]" "[1, 2, 9, 4, 5]"] by fastforce
  have "size (mset (bigrams [1, 2, 3, 4]) \<inter># mset (bigrams [1, 2, 3, 5])) = 2"
    by code_simp
  then show "\<not> SIMILAR_SINGLE_LINE_THRESHOLD \<le> bigramSimilarity [1, 2, 3, 4] [1, 2, 3, 5] (Some (bigramCounts [1, 2, 3, 4]))"
    using similarity_thresholds_exact [of "[1, 2, 3, 4]" "[1, 2, 3, 5]"] by (simp add: length_bigrams)
qed

end
