(* ===== verification/EditDisplay.thy ===== *)
theory EditDisplay
  imports EditApply
begin

text \<open>
  The diff that the edit tool shows: its line numbers are those of the old and the new file. What
  \<open>Diff.diffLines\<close> returns is described by \<open>line_diff\<close>: the parts that are not added make up the old text,
  the parts that are not removed the new one, and on each side only the last part may lack a line break.
\<close>

section \<open>Line diffs\<close>

fun whole_lines :: "js_string list \<Rightarrow> bool" where
  "whole_lines (v # w # vs) \<longleftrightarrow> v \<noteq> [] \<and> last v = newline \<and> whole_lines (w # vs)"
| "whole_lines vs \<longleftrightarrow> True"

definition old_values :: "diff_part list \<Rightarrow> js_string list" where
  "old_values ps = map dp_value (filter (\<lambda>p. \<not> dp_added p) ps)"

definition new_values :: "diff_part list \<Rightarrow> js_string list" where
  "new_values ps = map dp_value (filter (\<lambda>p. \<not> dp_removed p) ps)"

definition line_diff :: "diff_part list \<Rightarrow> js_string \<Rightarrow> js_string \<Rightarrow> bool" where
  "line_diff ps old new \<longleftrightarrow>
     (\<forall>p\<in>set ps. \<not> (dp_added p \<and> dp_removed p))
     \<and> concat (old_values ps) = old \<and> whole_lines (old_values ps)
     \<and> concat (new_values ps) = new \<and> whole_lines (new_values ps)"

lemma split_newline_snoc_newline:
  "split_newline (s @ newline # t) = split_newline s @ split_newline t"
  by (induction s) (auto split: list.split)

lemma part_lines_append:
  assumes "v \<noteq> []" and "last v = newline"
  shows "part_lines (v @ w) = part_lines v @ part_lines w"
proof -
  obtain u where v: "v = u @ [newline]"
    using assms by (metis append_butlast_last_id)
  have "part_lines v = split_newline u"
    by (simp add: part_lines_def v split_newline_snoc_newline Let_def)
  moreover have "part_lines (v @ w) = split_newline u @ part_lines w"
    by (simp add: part_lines_def v split_newline_snoc_newline Let_def last_append butlast_append)
  ultimately show ?thesis by simp
qed

lemma part_lines_concat: "whole_lines vs \<Longrightarrow> part_lines (concat vs) = concat (map part_lines vs)"
  by (induction vs rule: whole_lines.induct) (simp_all add: part_lines_append, simp add: part_lines_def)

definition old_lines :: "diff_part list \<Rightarrow> js_string list" where
  "old_lines ps = concat (map part_lines (old_values ps))"

definition new_lines :: "diff_part list \<Rightarrow> js_string list" where
  "new_lines ps = concat (map part_lines (new_values ps))"

lemma side_lines_simps [simp]:
  "old_lines [] = []" "new_lines [] = []"
  "old_lines (p # ps) = (if dp_added p then [] else part_lines (dp_value p)) @ old_lines ps"
  "new_lines (p # ps) = (if dp_removed p then [] else part_lines (dp_value p)) @ new_lines ps"
  by (simp_all add: old_lines_def new_lines_def old_values_def new_values_def)

section \<open>Numbered lines\<close>

text \<open>\<open>numbered\<close>: a line of the output shows a line of a file with its number, or stands for omitted lines.\<close>

definition shows_line :: "nat \<Rightarrow> string \<Rightarrow> js_string list \<Rightarrow> js_string \<Rightarrow> bool" where
  "shows_line width mark ls x \<longleftrightarrow> (\<exists>i<length ls. x = diff_line width (ascii_text mark) (i + 1) (ls ! i))"

definition numbered :: "nat \<Rightarrow> js_string list \<Rightarrow> js_string list \<Rightarrow> js_string \<Rightarrow> bool" where
  "numbered width old new x \<longleftrightarrow>
     shows_line width ''+'' new x \<or> shows_line width ''-'' old x \<or> shows_line width '' '' old x
     \<or> x = ascii_text '' '' @ padStart width [] @ ascii_text '' ...''"

text \<open>The state of the loop: the line numbers are those of the lines that are left on both sides.\<close>

definition at_lines :: "nat \<Rightarrow> js_string list \<Rightarrow> js_string list \<Rightarrow> diff_part list \<Rightarrow> diff_state \<Rightarrow> bool" where
  "at_lines width old new ps s \<longleftrightarrow>
     (\<exists>a b. old = a @ old_lines ps \<and> df_oldLineNum s = length a + 1 \<and> new = b @ new_lines ps \<and> df_newLineNum s = length b + 1)
     \<and> (\<forall>x\<in>set (df_output s). numbered width old new x)"

definition context_lines :: "nat \<Rightarrow> nat \<Rightarrow> js_string list \<Rightarrow> js_string list" where
  "context_lines width n ls = map (\<lambda>i. diff_line width (ascii_text '' '') (n + i) (ls ! i)) [0..<length ls]"

lemma numbered_lines_snoc:
  "map (\<lambda>i. f (n + i) (ls ! i)) [0..<length ls] @ [f (n + length ls) l] = map (\<lambda>i. f (n + i) ((ls @ [l]) ! i)) [0..<Suc (length ls)]"
  by (auto simp: nth_append)

lemma foldl_context_line:
  "foldl (context_line width) s ls =
     s\<lparr>df_output := df_output s @ context_lines width (df_oldLineNum s) ls,
       df_oldLineNum := df_oldLineNum s + length ls, df_newLineNum := df_newLineNum s + length ls\<rparr>"
proof (induction ls rule: rev_induct)
  case (snoc l ls)
  then show ?case
    using numbered_lines_snoc [of "diff_line width (ascii_text '' '')" "df_oldLineNum s" ls l]
    by (simp add: context_line_def context_lines_def)
qed (simp add: context_lines_def)

lemma foldl_change_line:
  "foldl (change_line width p) s ls =
     (if dp_added p
      then s\<lparr>df_output := df_output s @ map (\<lambda>i. diff_line width (ascii_text ''+'') (df_newLineNum s + i) (ls ! i)) [0..<length ls],
             df_newLineNum := df_newLineNum s + length ls\<rparr>
      else s\<lparr>df_output := df_output s @ map (\<lambda>i. diff_line width (ascii_text ''-'') (df_oldLineNum s + i) (ls ! i)) [0..<length ls],
             df_oldLineNum := df_oldLineNum s + length ls\<rparr>)"
proof (induction ls rule: rev_induct)
  case (snoc l ls)
  then show ?case
    using numbered_lines_snoc [of "diff_line width (ascii_text ''+'')" "df_newLineNum s" ls l]
      numbered_lines_snoc [of "diff_line width (ascii_text ''-'')" "df_oldLineNum s" ls l]
    by (simp add: change_line_def)
qed simp

lemma shows_line_part:
  "x \<in> set (map (\<lambda>i. diff_line width (ascii_text mark) (length a + 1 + i) (ls ! i)) [0..<length ls]) \<Longrightarrow> shows_line width mark (a @ ls @ rest) x"
proof -
  assume "x \<in> set (map (\<lambda>i. diff_line width (ascii_text mark) (length a + 1 + i) (ls ! i)) [0..<length ls])"
  then obtain i where i: "i < length ls" "x = diff_line width (ascii_text mark) (length a + 1 + i) (ls ! i)"
    by auto
  then show ?thesis
    unfolding shows_line_def by (intro exI [of _ "length a + i"]) (simp add: nth_append)
qed

text \<open>What a part without changes does: it moves past its lines on both sides and shows some of them.\<close>

definition moves_past :: "nat \<Rightarrow> js_string list \<Rightarrow> diff_state \<Rightarrow> diff_state \<Rightarrow> bool" where
  "moves_past width raw s t \<longleftrightarrow>
     df_oldLineNum t = df_oldLineNum s + length raw \<and> df_newLineNum t = df_newLineNum s + length raw
     \<and> df_firstChangedLine t = df_firstChangedLine s
     \<and> (\<exists>out. df_output t = df_output s @ out
        \<and> (\<forall>x\<in>set out. x \<in> set (context_lines width (df_oldLineNum s) raw)
             \<or> x = ascii_text '' '' @ padStart width [] @ ascii_text '' ...''))"

lemma moves_past_trans:
  assumes "moves_past width r1 s t" and "moves_past width r2 t u"
  shows "moves_past width (r1 @ r2) s u"
proof -
  have "set (context_lines width n r1) \<union> set (context_lines width (n + length r1) r2) \<subseteq> set (context_lines width n (r1 @ r2))" for n
  proof
    fix x assume "x \<in> set (context_lines width n r1) \<union> set (context_lines width (n + length r1) r2)"
    then consider i where "i < length r1" "x = diff_line width (ascii_text '' '') (n + i) (r1 ! i)"
      | i where "i < length r2" "x = diff_line width (ascii_text '' '') (n + length r1 + i) (r2 ! i)"
      by (auto simp: context_lines_def)
    then show "x \<in> set (context_lines width n (r1 @ r2))"
    proof cases
      case 1
      then show ?thesis by (auto simp: context_lines_def nth_append intro!: image_eqI [of _ _ i])
    next
      case 2
      then show ?thesis by (auto simp: context_lines_def nth_append add.assoc intro!: image_eqI [of _ _ "length r1 + i"])
    qed
  qed
  with assms show ?thesis
    by (fastforce simp: moves_past_def)
qed

lemma moves_past_shown: "moves_past width raw s (foldl (context_line width) s raw)"
  by (simp add: moves_past_def foldl_context_line)

lemma moves_past_skip: "moves_past width raw s (skip_lines (length raw) s)"
  by (simp add: moves_past_def skip_lines_def)

lemma moves_past_omit: "moves_past width raw s (omit_lines width (length raw) s)"
  by (simp add: moves_past_def omit_lines_def skip_lines_def)

lemma moves_past_split: "moves_past width (take k raw) s t \<Longrightarrow> moves_past width (drop k raw) t u \<Longrightarrow> moves_past width raw s u"
  using moves_past_trans [of width "take k raw" s t "drop k raw" u] by simp

lemma moves_past_omit_eq: "n = length raw \<Longrightarrow> moves_past width raw s (omit_lines width n s)"
  by (simp add: moves_past_omit)

lemma moves_past_between:
  assumes "c * 2 < length raw"
  shows "moves_past width raw s
    (foldl (context_line width)
      (omit_lines width (length raw - length (take c raw) - length (drop (length raw - c) raw)) (foldl (context_line width) s (take c raw)))
      (drop (length raw - c) raw))"
proof (rule moves_past_split [where k = c])
  show "moves_past width (take c raw) s (foldl (context_line width) s (take c raw))"
    by (rule moves_past_shown)
  let ?n = "length raw - c - c" and ?t = "foldl (context_line width) s (take c raw)"
  let ?u = "omit_lines width (length raw - length (take c raw) - length (drop (length raw - c) raw)) ?t"
  have "length raw - length (take c raw) - length (drop (length raw - c) raw) = length (take ?n (drop c raw))"
    using assms by simp
  then have "moves_past width (take ?n (drop c raw)) ?t ?u"
    by (rule moves_past_omit_eq)
  moreover have "drop ?n (drop c raw) = drop (length raw - c) raw"
    using assms by simp
  then have "moves_past width (drop ?n (drop c raw)) ?u (foldl (context_line width) ?u (drop (length raw - c) raw))"
    by (simp only: moves_past_shown)
  ultimately show "moves_past width (drop c raw) ?t (foldl (context_line width) ?u (drop (length raw - c) raw))"
    by (rule moves_past_split)
qed

lemma moves_past_context: "moves_past width raw s (context_part width c trailing raw s)"
proof -
  consider "df_lastWasChange s" "trailing" | "df_lastWasChange s" "\<not> trailing" | "\<not> df_lastWasChange s" "trailing" | "\<not> df_lastWasChange s" "\<not> trailing"
    by blast
  then show ?thesis
  proof cases
    case 1
    then show ?thesis
      using moves_past_between [of c raw width s] moves_past_shown [of width raw s] by (simp add: context_part_def Let_def del: length_take length_drop)
  next
    case 2
    have "moves_past width raw s (omit_lines width (length raw - length (take c raw)) (foldl (context_line width) s (take c raw)))"
      by (rule moves_past_split [where k = c, OF moves_past_shown moves_past_omit_eq]) simp
    with 2 show ?thesis
      using moves_past_shown [of width raw s] by (auto simp: context_part_def Let_def)
  next
    case 3
    let ?n = "length raw - c"
    have "moves_past width raw s (foldl (context_line width) (omit_lines width ?n s) (drop ?n raw))"
      by (rule moves_past_split [where k = ?n, OF moves_past_omit_eq moves_past_shown]) simp
    with 3 show ?thesis
      using moves_past_shown [of width raw s] by (auto simp: context_part_def Let_def)
  next
    case 4
    then show ?thesis by (simp add: context_part_def Let_def moves_past_skip)
  qed
qed

section \<open>The whole diff\<close>

lemma at_lines_context:
  assumes "at_lines width old new (p # ps) s" and "\<not> is_change p" and "moves_past width (part_lines (dp_value p)) s t"
  shows "at_lines width old new ps (t\<lparr>df_lastWasChange := b\<rparr>)"
proof -
  let ?raw = "part_lines (dp_value p)"
  obtain a d where ad: "old = a @ ?raw @ old_lines ps" "df_oldLineNum s = length a + 1" "new = d @ ?raw @ new_lines ps" "df_newLineNum s = length d + 1"
    using assms(1,2) by (auto simp: at_lines_def is_change_def)
  obtain out where out: "df_output t = df_output s @ out" "\<forall>x\<in>set out. x \<in> set (context_lines width (df_oldLineNum s) ?raw)
             \<or> x = ascii_text '' '' @ padStart width [] @ ascii_text '' ...''"
    using assms(3) by (auto simp: moves_past_def)
  have "numbered width old new x" if "x \<in> set out" for x
    using out(2) that shows_line_part [of x width "'' ''" a ?raw "old_lines ps"] ad by (auto simp: numbered_def context_lines_def)
  with assms(1) out(1) have "\<forall>x\<in>set (df_output t). numbered width old new x"
    by (auto simp: at_lines_def)
  moreover have "df_oldLineNum t = length (a @ ?raw) + 1" "df_newLineNum t = length (d @ ?raw) + 1"
    using assms(3) ad by (simp_all add: moves_past_def)
  ultimately show ?thesis
    unfolding at_lines_def using ad(1,3)
    by (intro conjI exI [of _ "a @ ?raw"] exI [of _ "d @ ?raw"]) simp_all
qed

lemma at_lines_change:
  assumes "at_lines width old new (p # ps) s" and "is_change p" and "\<not> (dp_added p \<and> dp_removed p)"
  shows "at_lines width old new ps
    ((foldl (change_line width p) (s\<lparr>df_firstChangedLine := f\<rparr>) (part_lines (dp_value p)))\<lparr>df_lastWasChange := b\<rparr>)"
proof -
  let ?raw = "part_lines (dp_value p)"
  obtain a d where ad: "old = a @ old_lines (p # ps)" "df_oldLineNum s = length a + 1" "new = d @ new_lines (p # ps)" "df_newLineNum s = length d + 1"
    and shown: "\<forall>x\<in>set (df_output s). numbered width old new x"
    using assms(1) by (auto simp: at_lines_def)
  show ?thesis
  proof (cases "dp_added p")
    case True
    then have new: "new = d @ ?raw @ new_lines ps" "old = a @ old_lines ps"
      using assms(3) ad by simp_all
    have "numbered width old new x" if "x \<in> set (map (\<lambda>i. diff_line width (ascii_text ''+'') (df_newLineNum s + i) (?raw ! i)) [0..<length ?raw])" for x
      using shows_line_part [of x width "''+''" d ?raw "new_lines ps"] that new ad(4) by (simp add: numbered_def)
    with True shown new ad show ?thesis
      unfolding at_lines_def foldl_change_line
      by (intro conjI exI [of _ a] exI [of _ "d @ ?raw"]) auto
  next
    case False
    then have old: "old = a @ ?raw @ old_lines ps" "new = d @ new_lines ps"
      using assms(2) ad by (simp_all add: is_change_def)
    have "numbered width old new x" if "x \<in> set (map (\<lambda>i. diff_line width (ascii_text ''-'') (df_oldLineNum s + i) (?raw ! i)) [0..<length ?raw])" for x
      using shows_line_part [of x width "''-''" a ?raw "old_lines ps"] that old ad(2) by (simp add: numbered_def)
    with False shown old ad show ?thesis
      unfolding at_lines_def foldl_change_line
      by (intro conjI exI [of _ "a @ ?raw"] exI [of _ d]) auto
  qed
qed

lemma at_lines_parts:
  "at_lines width old new ps s \<Longrightarrow> \<forall>p\<in>set ps. \<not> (dp_added p \<and> dp_removed p) \<Longrightarrow> at_lines width old new [] (diff_parts width c ps s)"
proof (induction ps arbitrary: s)
  case (Cons p ps)
  then show ?case
    using at_lines_context [OF Cons.prems(1) _ moves_past_context] at_lines_change [OF Cons.prems(1)]
    by (cases "is_change p") (simp_all add: Let_def)
qed simp

text \<open>One step of the loop.\<close>

definition diff_step :: "nat \<Rightarrow> nat \<Rightarrow> diff_part \<Rightarrow> diff_part list \<Rightarrow> diff_state \<Rightarrow> diff_state" where
  "diff_step width c p ps s =
     (let raw = part_lines (dp_value p)
      in if is_change p
         then (foldl (change_line width p)
                (s\<lparr>df_firstChangedLine := (case df_firstChangedLine s of None \<Rightarrow> Some (df_newLineNum s) | Some n \<Rightarrow> Some n)\<rparr>) raw)
              \<lparr>df_lastWasChange := True\<rparr>
         else (context_part width c (ps \<noteq> [] \<and> is_change (hd ps)) raw s)\<lparr>df_lastWasChange := False\<rparr>)"

lemma diff_parts_step: "diff_parts width c (p # ps) s = diff_parts width c ps (diff_step width c p ps s)"
  by (simp add: diff_step_def Let_def)

lemma diff_step_output: "set (df_output s) \<subseteq> set (df_output (diff_step width c p ps s))"
  using moves_past_context [of width "part_lines (dp_value p)" s c "ps \<noteq> [] \<and> is_change (hd ps)"]
  by (auto simp: diff_step_def Let_def foldl_change_line moves_past_def)

lemma diff_step_numbers:
  assumes "\<not> (dp_added p \<and> dp_removed p)"
  shows "df_newLineNum (diff_step width c p ps s) = df_newLineNum s + length (new_lines [p])"
    and "df_oldLineNum (diff_step width c p ps s) = df_oldLineNum s + length (old_lines [p])"
  using assms moves_past_context [of width "part_lines (dp_value p)" s c "ps \<noteq> [] \<and> is_change (hd ps)"]
  by (auto simp: diff_step_def Let_def foldl_change_line moves_past_def is_change_def)

lemma diff_step_first:
  "df_firstChangedLine (diff_step width c p ps s) =
     (if is_change p \<and> df_firstChangedLine s = None then Some (df_newLineNum s) else df_firstChangedLine s)"
  using moves_past_context [of width "part_lines (dp_value p)" s c "ps \<noteq> [] \<and> is_change (hd ps)"]
  by (auto simp: diff_step_def Let_def foldl_change_line moves_past_def split: option.split)

lemma diff_parts_output: "set (df_output s) \<subseteq> set (df_output (diff_parts width c ps s))"
proof (induction ps arbitrary: s)
  case (Cons p ps)
  then show ?case
    unfolding diff_parts_step using diff_step_output by fast
qed simp

definition change_lines :: "nat \<Rightarrow> diff_part \<Rightarrow> nat \<Rightarrow> nat \<Rightarrow> js_string list" where
  "change_lines width p oldNum newNum =
     (let raw = part_lines (dp_value p)
      in map (\<lambda>i. if dp_added p then diff_line width (ascii_text ''+'') (newNum + i) (raw ! i)
                  else diff_line width (ascii_text ''-'') (oldNum + i) (raw ! i)) [0..<length raw])"

lemma diff_step_shows: "is_change p \<Longrightarrow> set (change_lines width p (df_oldLineNum s) (df_newLineNum s)) \<subseteq> set (df_output (diff_step width c p ps s))"
  by (auto simp: diff_step_def change_lines_def Let_def foldl_change_line)

lemma changes_shown:
  "is_change p \<Longrightarrow> \<forall>q\<in>set xs. \<not> (dp_added q \<and> dp_removed q) \<Longrightarrow>
     set (change_lines width p (df_oldLineNum s + length (old_lines xs)) (df_newLineNum s + length (new_lines xs)))
     \<subseteq> set (df_output (diff_parts width c (xs @ p # ys) s))"
proof (induction xs arbitrary: s)
  case Nil
  then show ?case
    using order_trans [OF diff_step_shows [OF Nil.prems(1), of width s c ys] diff_parts_output [of _ width c ys]]
    by (simp add: diff_parts_step del: diff_parts.simps)
next
  case (Cons q xs)
  then have "\<not> (dp_added q \<and> dp_removed q)"
    by simp
  from Cons.IH [OF Cons.prems(1), of "diff_step width c q (xs @ p # ys) s"] Cons.prems(2) diff_step_numbers [OF this]
  show ?case
    by (simp add: diff_parts_step ac_simps del: diff_parts.simps)
qed

lemma first_change:
  "df_firstChangedLine s = None \<Longrightarrow> \<forall>q\<in>set ps. \<not> (dp_added q \<and> dp_removed q) \<Longrightarrow>
     df_firstChangedLine (diff_parts width c ps s) =
       (if list_ex is_change ps then Some (df_newLineNum s + length (new_lines (takeWhile (\<lambda>p. \<not> is_change p) ps))) else None)"
proof (induction ps arbitrary: s)
  case (Cons p ps)
  have keep: "df_firstChangedLine (diff_parts width c ps s) = Some n" if "df_firstChangedLine s = Some n" for ps s n
    using that by (induction ps arbitrary: s) (simp_all add: diff_parts_step diff_step_first del: diff_parts.simps(2))
  show ?case
  proof (cases "is_change p")
    case True
    with Cons.prems keep show ?thesis
      by (simp add: diff_parts_step diff_step_first del: diff_parts.simps)
  next
    case False
    with Cons diff_step_numbers(1) [of p] show ?thesis
      by (simp add: diff_parts_step diff_step_first ac_simps del: diff_parts.simps)
  qed
qed simp

lemma part_lines_nth: "i < length (part_lines v) \<Longrightarrow> part_lines v ! i = split_newline v ! i \<and> i < length (split_newline v)"
  by (auto simp: part_lines_def Let_def nth_butlast split: if_splits)

text \<open>C40: Every line of the displayed diff shows a line of the new file after a plus sign or of the old file after
  a minus sign or a space, with its number there, or stands for omitted lines. Every line of every added or
  removed part is shown with its number. The first changed line is the number, in the new file, at which
  the first change begins.\<close>

theorem diff_string_numbers_lines:
  assumes "line_diff (diffLines old new) old new"
  shows "\<exists>out w. generateDiffString diffLines old new c =
      (join_newline out,
       if list_ex is_change (diffLines old new)
       then Some (1 + length (new_lines (takeWhile (\<lambda>p. \<not> is_change p) (diffLines old new)))) else None)
    \<and> (\<forall>x\<in>set out. numbered w (split_newline old) (split_newline new) x)
    \<and> (\<forall>xs p ys. diffLines old new = xs @ p # ys \<and> is_change p \<longrightarrow>
        set (change_lines w p (1 + length (old_lines xs)) (1 + length (new_lines xs))) \<subseteq> set out)"
proof -
  let ?ps = "diffLines old new"
  define w where "w = length (number_units (max (length (split_newline old)) (length (split_newline new))))"
  define s :: diff_state where "s = \<lparr>df_output = [], df_oldLineNum = 1, df_newLineNum = 1, df_lastWasChange = False, df_firstChangedLine = None\<rparr>"
  let ?t = "diff_parts w c ?ps s"
  have parts: "\<forall>p\<in>set ?ps. \<not> (dp_added p \<and> dp_removed p)" and lines: "part_lines old = old_lines ?ps" "part_lines new = new_lines ?ps"
    using assms part_lines_concat [of "old_values ?ps"] part_lines_concat [of "new_values ?ps"]
    by (auto simp: line_diff_def old_lines_def new_lines_def)
  have "at_lines w (part_lines old) (part_lines new) ?ps s"
    by (simp add: at_lines_def s_def lines)
  then have "at_lines w (part_lines old) (part_lines new) [] ?t"
    using parts by (rule at_lines_parts)
  moreover have "numbered w (split_newline old) (split_newline new) x" if "numbered w (part_lines old) (part_lines new) x" for x
    using that part_lines_nth unfolding numbered_def shows_line_def by metis
  ultimately have "\<forall>x\<in>set (df_output ?t). numbered w (split_newline old) (split_newline new) x"
    by (simp add: at_lines_def)
  moreover have "set (change_lines w p (1 + length (old_lines xs)) (1 + length (new_lines xs))) \<subseteq> set (df_output ?t)"
    if "?ps = xs @ p # ys" "is_change p" for xs p ys
    using changes_shown [OF that(2), of xs w s c ys] parts that(1) by (simp add: s_def)
  moreover have "df_firstChangedLine ?t =
      (if list_ex is_change ?ps then Some (1 + length (new_lines (takeWhile (\<lambda>p. \<not> is_change p) ?ps))) else None)"
    using first_change [of s ?ps w c] parts by (simp add: s_def)
  moreover have "generateDiffString diffLines old new c = (join_newline (df_output ?t), df_firstChangedLine ?t)"
    by (simp add: generateDiffString_def w_def s_def Let_def)
  ultimately show ?thesis
    by (intro exI [of _ "df_output ?t"] exI [of _ w]) auto
qed

definition sample_diff :: "js_string \<Rightarrow> js_string \<Rightarrow> diff_part list" where
  "sample_diff old new =
     [\<lparr>dp_value = [97, 10], dp_added = False, dp_removed = False\<rparr>, \<lparr>dp_value = [98, 10], dp_added = False, dp_removed = True\<rparr>,
      \<lparr>dp_value = [99, 10], dp_added = True, dp_removed = False\<rparr>]"

theorem diff_string_numbers_lines_witness:
  "line_diff (sample_diff [97, 10, 98, 10] [97, 10, 99, 10]) [97, 10, 98, 10] [97, 10, 99, 10]
   \<and> snd (generateDiffString sample_diff [97, 10, 98, 10] [97, 10, 99, 10] 4) = Some 2"
proof -
  have diff: "line_diff (sample_diff [97, 10, 98, 10] [97, 10, 99, 10]) [97, 10, 98, 10] [97, 10, 99, 10]"
    by code_simp
  have "list_ex is_change (sample_diff [97, 10, 98, 10] [97, 10, 99, 10])"
    "length (new_lines (takeWhile (\<lambda>p. \<not> is_change p) (sample_diff [97, 10, 98, 10] [97, 10, 99, 10]))) = 1"
    by code_simp+
  with diff_string_numbers_lines [of sample_diff, OF diff, of 4] diff show ?thesis by auto
qed

end
