(* ===== verification/EditTool.thy ===== *)
theory EditTool
  imports EditCorrect Async
begin

text \<open>
  The edit tool (\<open>packages/agent/src/harness/tools/edit.ts\<close>) on top of \<open>EditApply\<close>. The file system and
  the abort signal are functions on a world of type \<open>'w\<close>; every call may change the world, fail with an error
  code, or reject with a message. The log of a call records what it read and wrote. The function that
  \<open>execute\<close> passes to \<open>withFileMutationQueue\<close> is \<open>edit_file\<close>; the queue, which delays it until no other edit of
  the file is running, is not modelled. A call whose matching does not end returns \<open>None\<close>.
\<close>

section \<open>File system\<close>

datatype file_error_code =
    FileAborted | FileNotFound | PermissionDenied | NotDirectory | IsDirectory | FileInvalid | NotSupported | FileUnknown

record file_error =
  fe_code :: file_error_code
  fe_message :: js_string

datatype file_kind = RegularFile | Directory | Symlink

type_synonym ('w, 'a) host_call = "('w, js_string, file_error + 'a) async"

record 'w edit_env =
  ev_absolutePath :: "js_string \<Rightarrow> ('w, js_string) host_call"
  ev_fileInfo :: "js_string \<Rightarrow> ('w, file_kind) host_call"
  ev_readTextFile :: "js_string \<Rightarrow> ('w, js_string) host_call"
  ev_writeFile :: "js_string \<Rightarrow> js_string \<Rightarrow> ('w, unit) host_call"
  ev_aborted :: "'w \<Rightarrow> bool"

datatype file_access = FileRead js_string js_string | FileWrite js_string js_string

record 'w edit_state =
  es_world :: 'w
  es_log :: "file_access list"

definition error_code_text :: "file_error_code \<Rightarrow> js_string" where
  "error_code_text c =
     ascii_text (case c of
         FileAborted \<Rightarrow> ''aborted'' | FileNotFound \<Rightarrow> ''not_found'' | PermissionDenied \<Rightarrow> ''permission_denied''
       | NotDirectory \<Rightarrow> ''not_directory'' | IsDirectory \<Rightarrow> ''is_directory'' | FileInvalid \<Rightarrow> ''invalid''
       | NotSupported \<Rightarrow> ''not_supported'' | FileUnknown \<Rightarrow> ''unknown'')"

section \<open>Paths\<close>

definition unicode_space :: "16 word \<Rightarrow> bool" where
  "unicode_space u \<longleftrightarrow> u = 0xA0 \<or> 0x2000 \<le> u \<and> u \<le> 0x200A \<or> u = 0x202F \<or> u = 0x205F \<or> u = 0x3000"

definition normalizeToolPath :: "js_string \<Rightarrow> js_string" where
  "normalizeToolPath path =
     (let normalized = map (\<lambda>u. if unicode_space u then 32 else u) path
      in if prefix [64] normalized then drop 1 normalized else normalized)"

section \<open>The call\<close>

text \<open>An exception of the call: whether the write had started, and the message of the error.\<close>

datatype edit_exception = EditException bool js_string

datatype edit_exit = NotStartedError js_string | Rethrown js_string

record edit_result =
  er_text :: js_string
  er_diff :: js_string
  er_patch :: js_string
  er_firstChangedLine :: "nat option"

type_synonym ('w, 'a) edit_task = "('w edit_state, edit_exception, 'a) async"

primrec map_exception :: "('e \<Rightarrow> 'f) \<Rightarrow> ('s, 'e, 'a) async \<Rightarrow> ('s, 'f, 'a) async" where
  "map_exception h (Return x) = Return x"
| "map_exception h (Throw e) = Throw (h e)"
| "map_exception h (Step u k) = Step u (\<lambda>s. map_exception h (k s))"

definition host_task :: "bool \<Rightarrow> ('w, 'a) host_call \<Rightarrow> ('w, file_error + 'a) edit_task" where
  "host_task writeStarted p =
     map_exception (EditException writeStarted) (zoom es_world (\<lambda>w s. s\<lparr>es_world := w\<rparr>) p)"

definition record_access :: "file_access \<Rightarrow> ('w, unit) edit_task" where
  "record_access a = modify (\<lambda>s. s\<lparr>es_log := es_log s @ [a]\<rparr>)"

definition check_abort :: "'w edit_env \<Rightarrow> ('w, unit) edit_task" where
  "check_abort env =
     await (inspect (\<lambda>s. ev_aborted env (es_world s))) (\<lambda>a.
     if a then Throw (EditException False (ascii_text ''Operation aborted'')) else Return ())"

definition editAccessError :: "js_string \<Rightarrow> file_error \<Rightarrow> js_string" where
  "editAccessError path e =
     ascii_text ''Could not edit file: '' @ path @ ascii_text ''. Error code: '' @ error_code_text (fe_code e) @ ascii_text ''.''"

text \<open>The new content of a file, computed from its old one.\<close>

definition edited_content :: "(js_string \<Rightarrow> js_string) \<Rightarrow> js_string \<Rightarrow> edit_spec list
    \<Rightarrow> (edit_error + js_string \<times> js_string \<times> js_string) option" where
  "edited_content nfkc raw edits =
     (let (bom, content) = stripBom raw; originalEnding = detectLineEnding content
      in map_option (\<lambda>r. bind_res r (\<lambda>(baseContent, newContent).
           Ok (baseContent, newContent, bom @ restoreLineEndings newContent originalEnding)))
         (applyEditsToNormalizedContent nfkc (normalizeToLF content) edits))"

definition edit_summary :: "(js_string \<Rightarrow> js_string \<Rightarrow> diff_part list) \<Rightarrow> (js_string \<Rightarrow> js_string \<Rightarrow> js_string \<Rightarrow> js_string)
    \<Rightarrow> js_string \<Rightarrow> nat \<Rightarrow> js_string \<Rightarrow> js_string \<Rightarrow> edit_result" where
  "edit_summary diffLines unifiedPatch path blocks baseContent newContent =
     (let (d, first) = generateDiffString diffLines baseContent newContent 4
      in \<lparr>er_text = ascii_text ''Successfully replaced '' @ number_units blocks @ ascii_text '' block(s) in '' @ path @ ascii_text ''.'',
          er_diff = d, er_patch = unifiedPatch path baseContent newContent, er_firstChangedLine = first\<rparr>)"

definition write_edit :: "'w edit_env \<Rightarrow> js_string \<Rightarrow> js_string \<Rightarrow> js_string \<Rightarrow> ('w, unit) edit_task" where
  "write_edit env path absolutePath finalContent =
     await (record_access (FileWrite absolutePath finalContent)) (\<lambda>_.
     await (host_task True (ev_writeFile env absolutePath finalContent)) (\<lambda>r. case r of
       Inl e \<Rightarrow> Throw (EditException True (editAccessError path e))
     | Inr _ \<Rightarrow> Return ()))"

definition edit_file :: "'w edit_env \<Rightarrow> (js_string \<Rightarrow> js_string) \<Rightarrow> (js_string \<Rightarrow> js_string \<Rightarrow> diff_part list)
    \<Rightarrow> (js_string \<Rightarrow> js_string \<Rightarrow> js_string \<Rightarrow> js_string) \<Rightarrow> js_string \<Rightarrow> js_string \<Rightarrow> edit_spec list
    \<Rightarrow> ('w, edit_result option) edit_task" where
  "edit_file env nfkc diffLines unifiedPatch path absolutePath edits =
     await (check_abort env) (\<lambda>_.
     await (host_task False (ev_fileInfo env absolutePath)) (\<lambda>info. case info of
       Inl e \<Rightarrow> Throw (EditException False (editAccessError path e))
     | Inr kind \<Rightarrow>
         if kind \<noteq> RegularFile \<and> kind \<noteq> Symlink
         then Throw (EditException False (ascii_text ''Could not edit file: '' @ path @ ascii_text ''. Path is not a file.''))
         else
           await (host_task False (ev_readTextFile env absolutePath)) (\<lambda>readResult. case readResult of
             Inl e \<Rightarrow> Throw (EditException False (editAccessError path e))
           | Inr raw \<Rightarrow>
               await (record_access (FileRead absolutePath raw)) (\<lambda>_.
               await (check_abort env) (\<lambda>_.
               case edited_content nfkc raw edits of
                 None \<Rightarrow> Return None
               | Some (Inl e) \<Rightarrow> Throw (EditException False (edit_error_message path e))
               | Some (Inr (baseContent, newContent, finalContent)) \<Rightarrow>
                   await (check_abort env) (\<lambda>_.
                   await (write_edit env path absolutePath finalContent) (\<lambda>_.
                   Return (Some (edit_summary diffLines unifiedPatch path (length edits) baseContent newContent)))))))))"

definition resolveToolPath :: "'w edit_env \<Rightarrow> js_string \<Rightarrow> ('w, js_string) edit_task" where
  "resolveToolPath env path =
     await (host_task False (ev_absolutePath env (normalizeToolPath path))) (\<lambda>r. case r of
       Inl e \<Rightarrow> Throw (EditException False (fe_message e))
     | Inr p \<Rightarrow> Return p)"

definition edit_execute :: "'w edit_env \<Rightarrow> (js_string \<Rightarrow> js_string) \<Rightarrow> (js_string \<Rightarrow> js_string \<Rightarrow> diff_part list)
    \<Rightarrow> (js_string \<Rightarrow> js_string \<Rightarrow> js_string \<Rightarrow> js_string) \<Rightarrow> js_string \<Rightarrow> edit_spec list
    \<Rightarrow> ('w edit_state, edit_exit, edit_result option) async" where
  "edit_execute env nfkc diffLines unifiedPatch path edits =
     map_exception (\<lambda>e. case e of EditException writeStarted message \<Rightarrow>
         if writeStarted then Rethrown message else NotStartedError message)
       (if edits = [] then Throw (EditException False (ascii_text ''Edit tool input is invalid. edits must contain at least one replacement.''))
        else await (resolveToolPath env path) (\<lambda>absolutePath.
             edit_file env nfkc diffLines unifiedPatch path absolutePath edits))"

section \<open>Writes\<close>

lemma run_map_exception [simp]: "run (map_exception h p) s = (case run p s of (Inl e, t) \<Rightarrow> (Inl (h e), t) | (Inr x, t) \<Rightarrow> (Inr x, t))"
  by (induction p arbitrary: s) auto

lemma run_zoom_world: "run (zoom es_world (\<lambda>w s. s\<lparr>es_world := w\<rparr>) p) s
    = (fst (run p (es_world s)), s\<lparr>es_world := snd (run p (es_world s))\<rparr>)"
  by (induction p arbitrary: s) auto

text \<open>\<open>ensures P p R\<close>: from a state with \<open>P\<close> the function ends with an outcome and a state related by \<open>R\<close>.\<close>

definition ensures :: "('s \<Rightarrow> bool) \<Rightarrow> ('s, 'e, 'a) async \<Rightarrow> ('e + 'a \<Rightarrow> 's \<Rightarrow> bool) \<Rightarrow> bool" where
  "ensures P p R \<longleftrightarrow> (\<forall>s. P s \<longrightarrow> R (fst (run p s)) (snd (run p s)))"

lemma ensures_Return: "(\<And>s. P s \<Longrightarrow> R (Inr x) s) \<Longrightarrow> ensures P (Return x) R"
  by (simp add: ensures_def)

lemma ensures_Throw: "(\<And>s. P s \<Longrightarrow> R (Inl e) s) \<Longrightarrow> ensures P (Throw e) R"
  by (simp add: ensures_def)

lemma ensures_await:
  assumes "ensures P p (case_sum E M)" and "\<And>x. ensures (M x) (f x) R" and "\<And>e s. E e s \<Longrightarrow> R (Inl e) s"
  shows "ensures P (await p f) R"
  unfolding ensures_def
proof (intro allI impI)
  fix s
  assume "P s"
  obtain r t where run: "run p s = (r, t)"
    by fastforce
  with assms(1) \<open>P s\<close> have r: "case_sum E M r t"
    unfolding ensures_def by (metis fst_conv snd_conv)
  show "R (fst (run (await p f) s)) (snd (run (await p f) s))"
  proof (cases r)
    case (Inl e)
    with run r assms(3) show ?thesis by (simp add: run_await)
  next
    case (Inr x)
    with run r assms(2) [of x] show ?thesis by (simp add: run_await ensures_def)
  qed
qed

definition logged :: "file_access list \<Rightarrow> 'w edit_state \<Rightarrow> bool" where
  "logged accesses s \<longleftrightarrow> es_log s = accesses"

definition fails_with :: "bool \<Rightarrow> file_access list \<Rightarrow> edit_exception \<Rightarrow> 'w edit_state \<Rightarrow> bool" where
  "fails_with b accesses e s \<longleftrightarrow> (\<exists>m. e = EditException b m) \<and> logged accesses s"

text \<open>A call of the host and the check of the signal leave the log as it is.\<close>

lemma ensures_host: "ensures (logged l) (host_task b p) (case_sum (fails_with b l) (\<lambda>_. logged l))"
  by (auto simp: ensures_def host_task_def run_zoom_world logged_def fails_with_def split: prod.split sum.split)

lemma ensures_check_abort: "ensures (logged l) (check_abort env) (case_sum (fails_with False l) (\<lambda>_. logged l))"
  by (auto simp: ensures_def check_abort_def run_await logged_def fails_with_def)

lemma ensures_record_access: "ensures (logged l) (record_access a) (case_sum E (\<lambda>_. logged (l @ [a])))"
  by (simp add: ensures_def record_access_def logged_def)

lemma ensures_write_edit:
  "ensures (logged l) (write_edit env path p c)
     (case_sum (fails_with True (l @ [FileWrite p c])) (\<lambda>_. logged (l @ [FileWrite p c])))"
  unfolding write_edit_def
  by (rule ensures_await [OF ensures_record_access [where E = "\<lambda>_ _. False"]],
      rule ensures_await [OF ensures_host])
    (auto intro: ensures_Throw ensures_Return simp: fails_with_def split: sum.split)

text \<open>What a call may have done to the file when it ends, by the way it ends.\<close>

fun access_ok :: "(js_string \<Rightarrow> js_string) \<Rightarrow> edit_spec list \<Rightarrow> edit_exception + edit_result option \<Rightarrow> file_access list \<Rightarrow> bool" where
  "access_ok nfkc edits (Inl (EditException False m)) accesses \<longleftrightarrow> (\<forall>p c. FileWrite p c \<notin> set accesses)"
| "access_ok nfkc edits (Inr None) accesses \<longleftrightarrow>
     (\<exists>p raw. accesses = [FileRead p raw] \<and> edited_content nfkc raw edits = None)"
| "access_ok nfkc edits r accesses \<longleftrightarrow>
     (\<exists>p raw base new final. accesses = [FileRead p raw, FileWrite p final]
        \<and> edited_content nfkc raw edits = Some (Ok (base, new, final)))"

lemma fails_access_ok:
  "fails_with False [] e s \<Longrightarrow> access_ok nfkc edits (Inl e) (es_log s)"
  "fails_with False [FileRead p raw] e s \<Longrightarrow> access_ok nfkc edits (Inl e) (es_log s)"
  "fails_with True [FileRead p raw, FileWrite p final] e s \<Longrightarrow> edited_content nfkc raw edits = Some (Ok (base, new, final))
     \<Longrightarrow> access_ok nfkc edits (Inl e) (es_log s)"
  by (auto simp: fails_with_def logged_def)

lemma ensures_after_read:
  "ensures (logged [FileRead p raw])
     (await (check_abort env) (\<lambda>_.
        case edited_content nfkc raw edits of
          None \<Rightarrow> Return None
        | Some (Inl e) \<Rightarrow> Throw (EditException False (edit_error_message path e))
        | Some (Inr (baseContent, newContent, finalContent)) \<Rightarrow>
            await (check_abort env) (\<lambda>_.
            await (write_edit env path p finalContent) (\<lambda>_.
            Return (Some (g baseContent newContent))))))
     (\<lambda>r s. access_ok nfkc edits r (es_log s))"
proof (rule ensures_await [OF ensures_check_abort])
  fix u
  show "ensures (logged [FileRead p raw])
      (case edited_content nfkc raw edits of
          None \<Rightarrow> Return None
        | Some (Inl e) \<Rightarrow> Throw (EditException False (edit_error_message path e))
        | Some (Inr (baseContent, newContent, finalContent)) \<Rightarrow>
            await (check_abort env) (\<lambda>_.
            await (write_edit env path p finalContent) (\<lambda>_.
            Return (Some (g baseContent newContent)))))
      (\<lambda>r s. access_ok nfkc edits r (es_log s))"
  proof (cases "\<exists>base new final. edited_content nfkc raw edits = Some (Ok (base, new, final))")
    case True
    then obtain base new final where content: "edited_content nfkc raw edits = Some (Ok (base, new, final))"
      by blast
    have "ensures (logged [FileRead p raw]) (await (check_abort env) (\<lambda>_.
        await (write_edit env path p final) (\<lambda>_. Return (Some (g base new)))))
      (\<lambda>r s. access_ok nfkc edits r (es_log s))"
      by (rule ensures_await [OF ensures_check_abort], rule ensures_await [OF ensures_write_edit])
        (auto intro!: ensures_Return intro: fails_access_ok simp: content logged_def fails_with_def)
    with content show ?thesis by simp
  next
    case False
    then show ?thesis
      by (auto intro!: ensures_Return ensures_Throw simp: logged_def split: option.split sum.split prod.split)
  qed
qed (rule fails_access_ok(2))

lemma ensures_read_stage:
  assumes after: "\<And>raw. ensures (logged [FileRead p raw]) (k raw) R" and failed: "\<And>e s. fails_with False [] e s \<Longrightarrow> R (Inl e) s"
  shows "ensures (logged [])
     (await (host_task False (ev_readTextFile env p)) (\<lambda>r. case r of
        Inl e \<Rightarrow> Throw (EditException False (editAccessError path e))
      | Inr raw \<Rightarrow> await (record_access (FileRead p raw)) (\<lambda>_. k raw))) R"
proof (rule ensures_await [OF ensures_host])
  fix r :: "file_error + js_string"
  show "ensures (logged []) (case r of Inl e \<Rightarrow> Throw (EditException False (editAccessError path e))
      | Inr raw \<Rightarrow> await (record_access (FileRead p raw)) (\<lambda>_. k raw)) R"
  proof (cases r)
    case (Inl e)
    then show ?thesis by (auto intro!: ensures_Throw failed simp: fails_with_def)
  next
    case (Inr raw)
    have "ensures (logged []) (await (record_access (FileRead p raw)) (\<lambda>_. k raw)) R"
      by (rule ensures_await [OF ensures_record_access [where E = "\<lambda>_ _. False"]]) (simp_all add: after)
    with Inr show ?thesis by simp
  qed
qed (rule failed)

lemma ensures_edit_file:
  "ensures (logged []) (edit_file env nfkc diffLines unifiedPatch path p edits) (\<lambda>r s. access_ok nfkc edits r (es_log s))"
  unfolding edit_file_def
proof (rule ensures_await [OF ensures_check_abort], rule ensures_await [OF ensures_host], goal_cases)
  case (1 u info)
  then show ?case
  proof (cases info)
    case (Inl e)
    then show ?thesis by (auto intro!: ensures_Throw simp: logged_def)
  next
    case (Inr kind)
    note stage = ensures_read_stage [OF ensures_after_read fails_access_ok(1)]
    show ?thesis
      unfolding Inr sum.case using stage
      by (cases "kind \<noteq> RegularFile \<and> kind \<noteq> Symlink") (auto intro!: ensures_Throw simp: logged_def)
  qed
qed (rule fails_access_ok(1), assumption)+

lemma ensures_resolveToolPath: "ensures (logged l) (resolveToolPath env path) (case_sum (fails_with False l) (\<lambda>_. logged l))"
  unfolding resolveToolPath_def
  by (rule ensures_await [OF ensures_host])
    (auto intro: ensures_Throw ensures_Return simp: fails_with_def split: sum.split)

text \<open>C10: However the file system and the abort signal behave, a call of the edit tool that reports that it has
  not started wrote nothing. In every other case it read one file and, unless the matching does not end,
  wrote that file exactly once, with the content that the edits give for what was read.\<close>

theorem edit_tool_writes:
  assumes "es_log s = []"
  shows "case run (edit_execute env nfkc diffLines unifiedPatch path edits) s of
      (Inl (NotStartedError m), t) \<Rightarrow> (\<forall>p c. FileWrite p c \<notin> set (es_log t))
    | (Inr None, t) \<Rightarrow> (\<exists>p raw. es_log t = [FileRead p raw] \<and> edited_content nfkc raw edits = None)
    | (_, t) \<Rightarrow> (\<exists>p raw base new final. es_log t = [FileRead p raw, FileWrite p final]
                 \<and> edited_content nfkc raw edits = Some (Ok (base, new, final)))"
proof -
  let ?call = "if edits = [] then Throw (EditException False (ascii_text ''Edit tool input is invalid. edits must contain at least one replacement.''))
        else await (resolveToolPath env path) (\<lambda>absolutePath. edit_file env nfkc diffLines unifiedPatch path absolutePath edits)"
  have "ensures (logged []) (await (resolveToolPath env path) (\<lambda>absolutePath. edit_file env nfkc diffLines unifiedPatch path absolutePath edits))
      (\<lambda>r s. access_ok nfkc edits r (es_log s))"
    by (rule ensures_await [OF ensures_resolveToolPath ensures_edit_file fails_access_ok(1)])
  then have "ensures (logged []) ?call (\<lambda>r s. access_ok nfkc edits r (es_log s))"
    by (auto intro!: ensures_Throw simp: logged_def)
  then have ok: "access_ok nfkc edits (fst (run ?call s)) (es_log (snd (run ?call s)))"
    using assms by (simp add: ensures_def logged_def)
  obtain r t where run: "run ?call s = (r, t)"
    by fastforce
  have result: "run (edit_execute env nfkc diffLines unifiedPatch path edits) s
      = (case r of Inl (EditException b m) \<Rightarrow> Inl (if b then Rethrown m else NotStartedError m) | Inr x \<Rightarrow> Inr x, t)"
    unfolding edit_execute_def run_map_exception run by (auto split: sum.split edit_exception.split)
  have "access_ok nfkc edits r (es_log t)"
    using ok by (simp only: run fst_conv snd_conv)
  then show ?thesis
    unfolding result by (cases "(nfkc, edits, r, es_log t)" rule: access_ok.cases) simp_all
qed

definition sample_edit_env :: "js_string edit_env" where
  "sample_edit_env =
     \<lparr>ev_absolutePath = (\<lambda>p. Return (Ok p)), ev_fileInfo = (\<lambda>p. Return (Ok RegularFile)),
      ev_readTextFile = (\<lambda>p. await (inspect id) (\<lambda>c. Return (Ok c))),
      ev_writeFile = (\<lambda>p c. await (modify (\<lambda>_. c)) (\<lambda>_. Return (Ok ()))), ev_aborted = (\<lambda>w. False)\<rparr>"

theorem edit_tool_writes_witness:
  "\<exists>t m. run (edit_execute sample_edit_env id (\<lambda>old new. []) (\<lambda>p old new. []) [102] [\<lparr>ed_oldText = [], ed_newText = [99]\<rparr>])
       \<lparr>es_world = [97, 98], es_log = []\<rparr> = (Inl (NotStartedError m), t)
     \<and> (\<forall>p c. FileWrite p c \<notin> set (es_log t))"
proof -
  let ?call = "edit_execute sample_edit_env id (\<lambda>old new. []) (\<lambda>p old new. []) [102] [\<lparr>ed_oldText = [], ed_newText = [99]\<rparr>]"
  let ?s = "\<lparr>es_world = [97, 98], es_log = []\<rparr> :: js_string edit_state"
  have "case fst (run ?call ?s) of Inl (NotStartedError m) \<Rightarrow> True | _ \<Rightarrow> False"
    by code_simp
  then obtain m t where "run ?call ?s = (Inl (NotStartedError m), t)"
    by (cases "run ?call ?s") (auto split: sum.splits edit_exit.splits)
  with edit_tool_writes [of ?s id "[\<lparr>ed_oldText = [], ed_newText = [99]\<rparr>]" sample_edit_env "\<lambda>old new. []" "\<lambda>p old new. []" "[102]"]
  show ?thesis by simp
qed

section \<open>Line endings\<close>

lemma restoreLineEndings_simps [simp]:
  "restoreLineEndings [] e = []"
  "restoreLineEndings (u # us) e = (if e = CRLF \<and> u = newline then [carriage_return, newline] else [u]) @ restoreLineEndings us e"
  by (simp_all add: restoreLineEndings_def)

lemma restoreLineEndings_LF [simp]: "restoreLineEndings t LF = t"
  by (simp add: restoreLineEndings_def)

lemma crlf_to_lf_restored: "crlf_to_lf (restoreLineEndings t CRLF) = t"
proof (induction t)
  case (Cons u us)
  have newline: "newline \<noteq> carriage_return"
    by (simp add: newline_def carriage_return_def)
  show ?case
  proof (cases "restoreLineEndings us CRLF")
    case Nil
    with Cons newline show ?thesis by simp
  next
    case (Cons v vs)
    have "v \<noteq> newline"
      using Cons newline by (cases us) (auto split: if_splits)
    with Cons \<open>crlf_to_lf (restoreLineEndings us CRLF) = us\<close> newline show ?thesis by simp
  qed
qed simp

lemma restoreLineEndings_inject: "restoreLineEndings s e = restoreLineEndings t e \<longleftrightarrow> s = t"
  by (cases e) (metis crlf_to_lf_restored, simp)

lemma normalizeToLF_restored:
  assumes "carriage_return \<notin> set t"
  shows "normalizeToLF (restoreLineEndings t e) = t"
proof -
  have "crlf_to_lf t = t"
    using assms by (induction t rule: crlf_to_lf.induct) auto
  then have "crlf_to_lf (restoreLineEndings t e) = t"
    by (cases e) (simp_all add: crlf_to_lf_restored)
  moreover have "map (\<lambda>u. if u = carriage_return then newline else u) t = t"
    using assms by (induction t) auto
  ultimately show ?thesis
    by (simp add: normalizeToLF_def)
qed

lemma detectLineEnding_restored:
  assumes "carriage_return \<notin> set t" and "e = CRLF \<Longrightarrow> newline \<in> set t"
  shows "detectLineEnding (restoreLineEndings t e) = e"
proof (cases e)
  case LF
  have "\<not> occurs_at t [carriage_return, newline] j" for j
    using assms(1) by (auto simp: occurs_at_def prefix_def dest!: arg_cong [of _ _ set] set_mp [OF set_drop_subset])
  then have "index_of t [carriage_return, newline] 0 = None"
    using occurs_iff_index_of by blast
  with LF show ?thesis
    by (simp add: detectLineEnding_def restoreLineEndings_def split: option.split)
next
  case CRLF
  with assms obtain us vs where t: "t = us @ newline # vs" "newline \<notin> set us"
    using split_list_first by fastforce
  have us: "concat (map (\<lambda>u. if u = newline then [carriage_return, newline] else [u]) us) = us"
    using t(2) by (induction us) auto
  define c where "c = restoreLineEndings t e"
  have c: "c = us @ carriage_return # newline # concat (map (\<lambda>u. if u = newline then [carriage_return, newline] else [u]) vs)"
    using CRLF by (simp add: c_def restoreLineEndings_def t(1) us)
  have newline: "newline \<noteq> carriage_return"
    by (simp add: newline_def carriage_return_def)
  have lf: "\<not> occurs_at c [newline] j" if "j < Suc (length us)" for j
  proof (cases "j < length us")
    case True
    then have "drop j us = us ! j # drop (Suc j) us"
      by (simp add: Cons_nth_drop_Suc)
    moreover have "us ! j \<noteq> newline"
      using True t(2) nth_mem by metis
    ultimately show ?thesis using True by (auto simp: occurs_at_def c)
  next
    case False
    with that newline show ?thesis by (auto simp: occurs_at_def c less_Suc_eq)
  qed
  have "occurs_at c [carriage_return, newline] (length us)"
    by (simp add: occurs_at_def c)
  then obtain i where i: "index_of c [carriage_return, newline] 0 = Some i" "i \<le> length us"
    using occurs_iff_index_of [of c "[carriage_return, newline]"] index_of_Some(3) [of c "[carriage_return, newline]" 0]
    by (metis le_cases min_0L not_None_eq not_less zero_le)
  have "occurs_at c [newline] (Suc (length us))"
    by (simp add: occurs_at_def c)
  then obtain k where k: "index_of c [newline] 0 = Some k"
    using occurs_iff_index_of [of c "[newline]"] by blast
  then have "Suc (length us) \<le> k"
    using lf index_of_Some(2) [OF k] not_less by blast
  with i k CRLF show ?thesis
    unfolding c_def [symmetric] by (simp add: detectLineEnding_def)
qed

lemma restoreLineEndings_append: "restoreLineEndings (s @ t) e = restoreLineEndings s e @ restoreLineEndings t e"
  by (simp add: restoreLineEndings_def)

lemma restoreLineEndings_concat: "restoreLineEndings (concat ts) e = concat (map (\<lambda>t. restoreLineEndings t e) ts)"
  by (induction ts) (simp_all add: restoreLineEndings_append)

lemma restoreLineEndings_weave:
  "restoreLineEndings (weave gs ts) e = weave (map (\<lambda>g. restoreLineEndings g e) gs) (map (\<lambda>t. restoreLineEndings t e) ts)"
  by (induction gs ts rule: weave.induct) (simp_all add: restoreLineEndings_append restoreLineEndings_concat)

text \<open>A file with one kind of line endings and, possibly, a byte order mark.\<close>

definition file_text :: "bool \<Rightarrow> line_ending \<Rightarrow> js_string \<Rightarrow> js_string" where
  "file_text bom e content = (if bom then [byte_order_mark] else []) @ restoreLineEndings content e"

definition plain_content :: "line_ending \<Rightarrow> js_string \<Rightarrow> bool" where
  "plain_content e content \<longleftrightarrow>
     carriage_return \<notin> set content \<and> (e = CRLF \<longrightarrow> newline \<in> set content) \<and> \<not> prefix [byte_order_mark] content"

lemma stripBom_file_text:
  assumes "plain_content e content"
  shows "stripBom (file_text bom e content) = (if bom then [byte_order_mark] else [], restoreLineEndings content e)"
proof -
  have "\<not> prefix [byte_order_mark] (restoreLineEndings content e)"
    using assms by (cases content)
      (auto simp: plain_content_def restoreLineEndings_def newline_def carriage_return_def byte_order_mark_def)
  then show ?thesis by (simp add: stripBom_def file_text_def)
qed

lemma edited_file_text:
  assumes "plain_content e content"
  shows "edited_content nfkc (file_text bom e content) edits =
    map_option (\<lambda>r. bind_res r (\<lambda>(base, new). Ok (base, new, file_text bom e new))) (applyEditsToNormalizedContent nfkc content edits)"
proof -
  have "normalizeToLF (restoreLineEndings content e) = content" "detectLineEnding (restoreLineEndings content e) = e"
    using assms by (simp_all add: plain_content_def normalizeToLF_restored detectLineEnding_restored)
  then show ?thesis
    by (simp add: edited_content_def stripBom_file_text [OF assms]) (simp add: file_text_def)
qed

text \<open>C39: In a file with one kind of line endings and with or without a byte order mark, edits whose old texts
  occur exactly once change nothing but these texts: the written file consists of the same stretches of the
  original file, line endings and byte order mark included, with the new texts, in the line endings of the
  file, in place of the old ones.\<close>

theorem edited_file_keeps_rest:
  assumes "plain_content e content" and "\<forall>d\<in>set edits. unique_old content (normalize_edit d)"
    and "edited_content nfkc (file_text bom e content) edits = Some (Ok (base, new, final))"
  shows "\<exists>gs ds. mset ds = mset (map normalize_edit edits) \<and> length gs = length ds + 1
    \<and> file_text bom e content = (if bom then [byte_order_mark] else []) @ weave gs (map (\<lambda>d. restoreLineEndings (ed_oldText d) e) ds)
    \<and> final = (if bom then [byte_order_mark] else []) @ weave gs (map (\<lambda>d. restoreLineEndings (ed_newText d) e) ds)
    \<and> final \<noteq> file_text bom e content"
proof -
  have applied: "applyEditsToNormalizedContent nfkc content edits = Some (Ok (base, new))" and final: "final = file_text bom e new"
    using assms(3) unfolding edited_file_text [OF assms(1)] by (auto simp: res_simps)
  have "new \<noteq> content" "replaces (map normalize_edit edits) content new"
    using exact_edits_replace [OF assms(2) applied] by auto
  then obtain gs ds where ds: "mset ds = mset (map normalize_edit edits)" "length gs = length ds + 1"
      "content = weave gs (map ed_oldText ds)" "new = weave gs (map ed_newText ds)"
    by (auto simp: replaces_def)
  have "restoreLineEndings new e \<noteq> restoreLineEndings content e"
    using \<open>new \<noteq> content\<close> by (simp add: restoreLineEndings_inject)
  with ds final show ?thesis
    by (intro exI [of _ "map (\<lambda>g. restoreLineEndings g e) gs"] exI [of _ ds])
      (simp add: file_text_def restoreLineEndings_weave comp_def)
qed

theorem edited_file_keeps_rest_witness:
  "edited_content id (file_text True CRLF [97, 10, 98]) [\<lparr>ed_oldText = [98], ed_newText = [99, 10]\<rparr>]
     = Some (Ok ([97, 10, 98], [97, 10, 99, 10], [0xFEFF, 97, 13, 10, 99, 13, 10]))
   \<and> [0xFEFF, 97, 13, 10, 99, 13, 10] \<noteq> file_text True CRLF [97, 10, 98]"
proof -
  let ?edits = "[\<lparr>ed_oldText = [98], ed_newText = [99, 10]\<rparr>]"
  have "plain_content CRLF [97, 10, 98]" "\<forall>d\<in>set ?edits. unique_old [97, 10, 98] (normalize_edit d)"
    unfolding unique_old_eval by code_simp+
  moreover have run: "edited_content id (file_text True CRLF [97, 10, 98]) ?edits
      = Some (Ok ([97, 10, 98], [97, 10, 99, 10], [0xFEFF, 97, 13, 10, 99, 13, 10]))"
    by code_simp
  ultimately show ?thesis
    using edited_file_keeps_rest [of CRLF "[97, 10, 98]" ?edits id True] by auto
qed

end
